(* ===== verification/WG_Prelude.thy ===== *)
theory WG_Prelude
  imports Main "HOL-Library.Word" "HOL-Library.Monad_Syntax"
begin

unbundle bit_operations_syntax

section \<open>Prelude: machine types, undefined behaviour, byte order, array scans\<close>

text \<open>
  What the components share.  A fixed-width C integer is a word; a C computation that can
  run into undefined behaviour (an access outside an object, a shift by the width or more,
  a signed overflow) returns an \<open>option\<close>, and \<^term>\<open>None\<close> is that undefined behaviour.
  The hosts are little-endian (arm64 and x86-64), so a \<open>memcpy\<close> between an integer and a
  byte buffer is \<open>to_le\<close> or \<open>of_le\<close>.  The C idiom
  \<open>for (i = 0; i < N; i++) if (P(a[i])) ...\<close> that stops at the first hit is \<open>first_idx\<close>.
\<close>

type_synonym u8 = "8 word"
type_synonym u16 = "16 word"
type_synonym u32 = "32 word"
type_synonym u64 = "64 word"

named_theorems wf_intros \<open>introduction rules for the well-formedness of a component's state\<close>
named_theorems frame_simps \<open>which fields of a state an operation leaves alone\<close>

subsection \<open>Signed 64-bit arithmetic\<close>

text \<open>Signed overflow is undefined in C: the checked operations return \<^term>\<open>None\<close> there.\<close>

definition in_i64 :: "int \<Rightarrow> bool" where
  "in_i64 x \<longleftrightarrow> - (2 ^ 63) \<le> x \<and> x < 2 ^ 63"

definition sadd64 :: "u64 \<Rightarrow> u64 \<Rightarrow> u64 option" where
  "sadd64 a b = (if in_i64 (sint a + sint b) then Some (a + b) else None)"

definition smul64 :: "u64 \<Rightarrow> u64 \<Rightarrow> u64 option" where
  "smul64 a b = (if in_i64 (sint a * sint b) then Some (a * b) else None)"

lemma in_i64_sint [simp]: "in_i64 (sint (x :: u64))"
  using sint_ge [of x] sint_lt [of x] by (simp add: in_i64_def)

lemma unat_lt64: "unat (x :: u64) < 2 ^ 64"
  and unat_lt32: "unat (y :: u32) < 2 ^ 32"
  and unat_lt16: "unat (z :: u16) < 2 ^ 16"
  and unat_lt8: "unat (w :: u8) < 2 ^ 8"
  using unsigned_less [of x] unsigned_less [of y] unsigned_less [of z] unsigned_less [of w]
  by simp_all

lemma sint_if_bit:
  fixes w :: "'a::len word"
  shows "sint w = (if bit w (LENGTH('a) - 1) then uint w - 2 ^ LENGTH('a) else uint w)"
proof -
  have "sint w = signed_take_bit (LENGTH('a) - Suc 0) (uint w)" by (rule sint_uint)
  also have "\<dots> = take_bit (Suc (LENGTH('a) - Suc 0)) (uint w)
      - 2 ^ Suc (LENGTH('a) - Suc 0) * of_bool (bit (uint w) (LENGTH('a) - Suc 0))"
    by (rule signed_take_bit_eq_take_bit_minus)
  finally show ?thesis by (simp add: bit_uint_iff bintr_uint)
qed

lemma top_bit_iff:
  fixes w :: "'a::len word"
  shows "bit w (LENGTH('a) - 1) \<longleftrightarrow> 2 ^ (LENGTH('a) - 1) \<le> uint w"
proof -
  have "2 ^ LENGTH('a) = 2 * (2 :: int) ^ (LENGTH('a) - 1)"
    by (metis Suc_pred' len_gt_0 power_Suc)
  with sint_ge [of w] sint_lt [of w] show ?thesis
    unfolding sint_if_bit [of w] by (cases "bit w (LENGTH('a) - 1)") simp_all
qed

text \<open>Truncating an unsigned word commutes with the arithmetic; widening is invisible to \<^term>\<open>uint\<close>.\<close>

lemma take_bit_down_arith:
  fixes x y :: int
  assumes "b \<le> a"
  shows "take_bit b (take_bit a (x - y)) = take_bit b (take_bit a x - take_bit a y)"
    and "take_bit b (take_bit a (x + y)) = take_bit b (take_bit a x + take_bit a y)"
proof -
  have t: "take_bit b (take_bit a z) = take_bit b z" for z :: int
    using assms by (simp add: min_absorb1)
  show "take_bit b (take_bit a (x - y)) = take_bit b (take_bit a x - take_bit a y)"
    using take_bit_diff [of b "take_bit a x" "take_bit a y"] take_bit_diff [of b x y]
    by (simp only: t)
  show "take_bit b (take_bit a (x + y)) = take_bit b (take_bit a x + take_bit a y)"
    using take_bit_add [of b "take_bit a x" "take_bit a y"] take_bit_add [of b x y]
    by (simp only: t)
qed

lemma ucast_down_sub:
  "LENGTH('b) \<le> LENGTH('a) \<Longrightarrow> (ucast (a - b :: 'a::len word) :: 'b::len word) = ucast a - ucast b"
  by transfer (rule take_bit_down_arith)

lemma ucast_down_add:
  "LENGTH('b) \<le> LENGTH('a) \<Longrightarrow> (ucast (a + b :: 'a::len word) :: 'b::len word) = ucast a + ucast b"
  by transfer (rule take_bit_down_arith)

lemma uint_ucast_up:
  "LENGTH('a) \<le> LENGTH('b) \<Longrightarrow> uint (ucast (x :: 'a::len word) :: 'b::len word) = uint x"
  by (simp add: unsigned_ucast_eq bintr_uint)

lemma uint_mask: "n \<le> LENGTH('a) \<Longrightarrow> uint (mask n :: 'a::len word) = 2 ^ n - 1"
  unfolding uint_mask_eq by (simp add: min_absorb2 mask_eq_exp_minus_1 [where 'a = int])

lemma word_nonzero_iff: "(w :: 'a::len word) \<noteq> 0 \<longleftrightarrow> (\<exists>k. bit w k)"
  by (auto intro: bit_word_eqI)

lemma ucast_ucast_up_down:
  "LENGTH('a) \<le> LENGTH('b) \<Longrightarrow> ucast (ucast (x :: 'a::len word) :: 'b::len word) = x"
  by (rule bit_word_eqI) (auto simp: bit_ucast_iff dest: bit_imp_le_length)

lemma take_bit_ucast_down:
  "LENGTH('b) \<le> LENGTH('a) \<Longrightarrow>
     take_bit LENGTH('b) (r :: 'a::len word) = ucast (ucast r :: 'b::len word)"
  by (rule bit_word_eqI) (auto simp: bit_simps dest: bit_imp_le_length)

subsection \<open>Little-endian bytes\<close>

fun of_le :: "u8 list \<Rightarrow> 'a::len word" where
  "of_le [] = 0"
| "of_le (b # bs) = ucast b OR push_bit 8 (of_le bs)"

fun to_le :: "nat \<Rightarrow> 'a::len word \<Rightarrow> u8 list" where
  "to_le 0 w = []"
| "to_le (Suc n) w = ucast w # to_le n (drop_bit 8 w)"

lemma length_to_le [simp]: "length (to_le n w) = n"
  by (induction n arbitrary: w) auto

lemma to_le_numeral [simp]:
  "to_le (numeral k) w = ucast w # to_le (pred_numeral k) (drop_bit 8 w)"
  by (simp add: numeral_eq_Suc)

lemma to_le_one [simp]: "to_le (Suc 0) w = [ucast w]"
  by simp

lemma of_le_to_le_take: "of_le (to_le n w) = take_bit (8 * n) (w :: 'a::len word)"
proof (induction n arbitrary: w)
  case 0
  show ?case by simp
next
  case (Suc n)
  show ?case
    by (rule bit_word_eqI)
      (auto simp: Suc bit_simps not_less)
qed

lemma of_le_to_le:
  fixes w :: "'a::len word"
  assumes "LENGTH('a) \<le> 8 * n"
  shows "of_le (to_le n w) = w"
proof -
  have "take_bit (8 * n) w = w"
    using assms by (intro bit_word_eqI) (simp add: bit_take_bit_iff)
  then show ?thesis by (simp add: of_le_to_le_take)
qed

lemma to_le_of_le:
  "length bs = n \<Longrightarrow> 8 * n \<le> LENGTH('a) \<Longrightarrow> to_le n (of_le bs :: 'a::len word) = bs"
proof (induction bs arbitrary: n)
  case Nil
  then show ?case by simp
next
  case (Cons b bs)
  then obtain m where n: "n = Suc m" and m: "length bs = m" by auto
  let ?w = "of_le (b # bs) :: 'a word"
  have low: "ucast ?w = b"
    using Cons.prems n by (intro bit_word_eqI) (auto simp: bit_simps)
  have "drop_bit 8 ?w = take_bit (LENGTH('a) - 8) (of_le bs)"
    using Cons.prems n
    by (intro bit_word_eqI) (auto simp: bit_simps dest: bit_imp_le_length)
  moreover have "to_le m (take_bit (LENGTH('a) - 8) (of_le bs :: 'a word)) = to_le m (of_le bs :: 'a word)"
  proof -
    have "to_le m (take_bit k w) = to_le m w" if "8 * m \<le> k" for k and w :: "'a word"
      using that
    proof (induction m arbitrary: k w)
      case 0
      then show ?case by simp
    next
      case (Suc m)
      have "drop_bit 8 (take_bit k w) = take_bit (k - 8) (drop_bit 8 w)"
        by (intro bit_word_eqI) (auto simp: bit_simps)
      moreover have "ucast (take_bit k w) = (ucast w :: u8)"
        using Suc.prems by (intro bit_word_eqI) (auto simp: bit_simps)
      ultimately show ?case
        using Suc.IH [of "k - 8" "drop_bit 8 w"] Suc.prems by simp
    qed
    then show ?thesis using Cons.prems n by simp
  qed
  ultimately show ?case
    using low n Cons.IH [OF m] Cons.prems by (simp del: of_le.simps)
qed

subsection \<open>Scanning an array for the first hit\<close>

fun first_idx :: "('a \<Rightarrow> bool) \<Rightarrow> 'a list \<Rightarrow> nat option" where
  "first_idx P [] = None"
| "first_idx P (x # xs) = (if P x then Some 0 else map_option Suc (first_idx P xs))"

lemma first_idx_None: "first_idx P xs = None \<longleftrightarrow> (\<forall>x \<in> set xs. \<not> P x)"
  by (induction xs) auto

lemma first_idx_Some:
  "first_idx P xs = Some i \<longleftrightarrow> i < length xs \<and> P (xs ! i) \<and> (\<forall>j < i. \<not> P (xs ! j))"
proof (induction xs arbitrary: i)
  case Nil
  then show ?case by simp
next
  case (Cons x xs)
  then show ?case
    by (cases i) (auto simp: less_Suc_eq_0_disj)
qed

lemma first_idx_lt: "first_idx P xs = Some i \<Longrightarrow> i < length xs"
  and first_idx_holds: "first_idx P xs = Some i \<Longrightarrow> P (xs ! i)"
  and first_idx_before: "first_idx P xs = Some i \<Longrightarrow> j < i \<Longrightarrow> \<not> P (xs ! j)"
  by (simp_all add: first_idx_Some)

lemma first_idx_unique:
  assumes "i < length xs" and "P (xs ! i)" and "\<And>j. j < length xs \<Longrightarrow> P (xs ! j) \<Longrightarrow> j = i"
  shows "first_idx P xs = Some i"
proof -
  have "\<not> P (xs ! j)" if "j < i" for j
    using assms(1) assms(3) [of j] that by auto
  with assms(1,2) show ?thesis by (simp add: first_idx_Some)
qed

lemma first_idx_append:
  "first_idx P (xs @ ys) =
     (case first_idx P xs of Some i \<Rightarrow> Some i
      | None \<Rightarrow> map_option (\<lambda>i. length xs + i) (first_idx P ys))"
proof (induction xs)
  case Nil
  show ?case by (cases "first_idx P ys") auto
next
  case (Cons x xs)
  then show ?case by (cases "first_idx P ys") (auto split: option.splits)
qed

lemma first_idx_cong:
  "(\<And>x. x \<in> set xs \<Longrightarrow> P x = Q x) \<Longrightarrow> first_idx P xs = first_idx Q xs"
  by (induction xs) auto

lemma first_idx_update_same:
  assumes "P x = P (xs ! i)"
  shows "first_idx P (xs[i := x]) = first_idx P xs"
  using assms
proof (induction xs arbitrary: i)
  case Nil
  then show ?case by simp
next
  case (Cons y ys)
  then show ?case by (cases i) auto
qed

lemma unat_minus_one_eq: "unat (- 1 :: u64) = 2 ^ 64 - 1"
  by (simp add: unsigned_minus_1_eq_mask mask_eq_exp_minus_1)

text \<open>Removal by moving the last element into the hole, as \<open>a[i] = a[--n]\<close> does.\<close>

definition swap_remove :: "'a list \<Rightarrow> nat \<Rightarrow> 'a list" where
  "swap_remove xs i = butlast (xs[i := last xs])"

lemma length_swap_remove [simp]: "length (swap_remove xs i) = length xs - 1"
  by (simp add: swap_remove_def)

lemma nth_swap_remove:
  assumes "i < length xs" and "k < length xs - 1"
  shows "swap_remove xs i ! k = xs ! (if k = i then length xs - 1 else k)"
proof -
  have "xs \<noteq> []" using assms(1) by auto
  then show ?thesis
    using assms by (auto simp: swap_remove_def nth_butlast nth_list_update last_conv_nth)
qed

lemma swap_remove_index:
  assumes "i < length xs" and "j < length xs" and "j \<noteq> i"
  obtains k where "k < length xs - 1" and "swap_remove xs i ! k = xs ! j"
proof (cases "j = length xs - 1")
  case True
  with assms have "i < length xs - 1" by auto
  with assms True show ?thesis by (intro that [of i]) (auto simp: nth_swap_remove)
next
  case False
  with assms show ?thesis by (intro that [of j]) (auto simp: nth_swap_remove)
qed

lemma set_swap_remove:
  assumes "i < length xs"
  shows "set (swap_remove xs i) \<subseteq> set xs"
proof
  fix x
  assume "x \<in> set (swap_remove xs i)"
  then obtain k where k: "k < length xs - 1" "x = swap_remove xs i ! k"
    by (auto simp: in_set_conv_nth)
  with assms have "x = xs ! (if k = i then length xs - 1 else k)" by (simp add: nth_swap_remove)
  moreover have "(if k = i then length xs - 1 else k) < length xs" using k(1) by auto
  ultimately show "x \<in> set xs" by simp
qed

subsection \<open>Byte-addressed memories\<close>

text \<open>
  The interface a byte-wise copy loop needs of a memory: the byte an address shows, and a
  one-byte store that changes exactly that byte of a mapped address.  \<open>mapped_prefix\<close> is
  how far a copy starting at an address gets before it meets an unmapped one.
\<close>

fun mapped_prefix :: "(u64 \<Rightarrow> u8 option) \<Rightarrow> u64 \<Rightarrow> nat \<Rightarrow> nat" where
  "mapped_prefix v a 0 = 0"
| "mapped_prefix v a (Suc n) = (if v a = None then 0 else Suc (mapped_prefix v (a + 1) n))"

fun write_loop ::
    "('m \<Rightarrow> u64 \<Rightarrow> u8 option) \<Rightarrow> ('m \<Rightarrow> u64 \<Rightarrow> u8 \<Rightarrow> 'm option) \<Rightarrow> 'm \<Rightarrow> u64 \<Rightarrow> u8 list
      \<Rightarrow> (bool \<times> 'm) option" where
  "write_loop v p m a [] = Some (True, m)"
| "write_loop v p m a (b # bs) =
     (if v m a = None then Some (False, m)
      else do { m' \<leftarrow> p m a b; write_loop v p m' (a + 1) bs })"

definition overlay :: "(u64 \<Rightarrow> u8 option) \<Rightarrow> u64 \<Rightarrow> u8 list \<Rightarrow> u64 \<Rightarrow> u8 option" where
  "overlay v a bs = (\<lambda>x. if unat (x - a) < length bs then Some (bs ! unat (x - a)) else v x)"

lemma mapped_prefix_numeral [simp]:
  "mapped_prefix v a (numeral k) = (if v a = None then 0 else Suc (mapped_prefix v (a + 1) (pred_numeral k)))"
  by (simp add: numeral_eq_Suc)

lemma mapped_prefix_le: "mapped_prefix v a n \<le> n"
  by (induction n arbitrary: a) auto

lemma mapped_prefix_mapped: "k < mapped_prefix v a n \<Longrightarrow> v (a + of_nat k) \<noteq> None"
proof (induction n arbitrary: a k)
  case 0
  then show ?case by simp
next
  case (Suc n)
  then show ?case
    by (cases k) (auto simp: add.assoc split: if_splits dest: Suc.IH [of _ "a + 1"])
qed

lemma mapped_prefix_all:
  "(\<And>k. k < n \<Longrightarrow> v (a + of_nat k) \<noteq> None) \<Longrightarrow> mapped_prefix v a n = n"
proof (induction n arbitrary: a)
  case 0
  then show ?case by simp
next
  case (Suc n)
  have "v (a + 1 + of_nat k) \<noteq> None" if "k < n" for k
    using Suc.prems [of "Suc k"] that by (simp add: add.assoc)
  then have "mapped_prefix v (a + 1) n = n" by (rule Suc.IH)
  with Suc.prems [of 0] show ?case by simp
qed

lemma mapped_prefix_cong:
  "(\<And>x. (v x = None) = (w x = None)) \<Longrightarrow> mapped_prefix v a n = mapped_prefix w a n"
  by (induction n arbitrary: a) auto

lemma unat_sub_one: "x \<noteq> a \<Longrightarrow> unat (x - (a + 1 :: u64)) = unat (x - a) - 1"
proof -
  assume "x \<noteq> a"
  have e: "x - (a + 1) = (x - a) - 1" by (simp add: algebra_simps)
  have "x - a \<noteq> 0" using \<open>x \<noteq> a\<close> by simp
  then show ?thesis unfolding e by (rule unat_minus_one)
qed

lemma overlay_Nil [simp]: "overlay v a [] = v"
  by (simp add: overlay_def)

lemma overlay_Cons:
  assumes "length bs < 2 ^ 64"
  shows "overlay (v(a \<mapsto> b)) (a + 1) bs = overlay v a (b # bs)"
proof
  fix x
  show "overlay (v(a \<mapsto> b)) (a + 1) bs x = overlay v a (b # bs) x"
  proof (cases "x = a")
    case True
    have "unat (a - (a + 1)) = 2 ^ 64 - 1" using unat_minus_one_eq by simp
    with assms True show ?thesis by (simp add: overlay_def)
  next
    case False
    then have nz: "0 < unat (x - a)" by (simp add: unat_gt_0)
    then have "(unat (x - a) - 1 < length bs) = (unat (x - a) < Suc (length bs))" by auto
    with False nz show ?thesis
      by (simp add: overlay_def unat_sub_one nth_Cons')
  qed
qed

locale byte_memory =
  fixes view :: "'m \<Rightarrow> u64 \<Rightarrow> u8 option"
    and put :: "'m \<Rightarrow> u64 \<Rightarrow> u8 \<Rightarrow> 'm option"
  assumes put_mapped: "view m a \<noteq> None \<Longrightarrow> \<exists>m'. put m a b = Some m' \<and> view m' = (view m)(a \<mapsto> b)"
begin

lemma mapped_prefix_put:
  assumes "view m a \<noteq> None"
  shows "mapped_prefix ((view m)(a \<mapsto> b)) x n = mapped_prefix (view m) x n"
  using assms by (intro mapped_prefix_cong) auto

lemma write_loop_spec:
  assumes "length bs \<le> 2 ^ 64"
  shows "\<exists>m'. write_loop view put m a bs
              = Some (mapped_prefix (view m) a (length bs) = length bs, m')
            \<and> view m' = overlay (view m) a (take (mapped_prefix (view m) a (length bs)) bs)"
  using assms
proof (induction bs arbitrary: m a)
  case Nil
  then show ?case by simp
next
  case (Cons b bs)
  show ?case
  proof (cases "view m a = None")
    case True
    then show ?thesis by simp
  next
    case False
    then obtain m1 where m1: "put m a b = Some m1" "view m1 = (view m)(a \<mapsto> b)"
      using put_mapped by blast
    let ?k = "mapped_prefix (view m) (a + 1) (length bs)"
    have pre: "mapped_prefix (view m1) (a + 1) (length bs) = ?k"
      using m1(2) mapped_prefix_put [OF False] by simp
    from Cons.IH [of m1 "a + 1"] Cons.prems obtain m' where
      m': "write_loop view put m1 (a + 1) bs = Some (?k = length bs, m')"
          "view m' = overlay (view m1) (a + 1) (take ?k bs)"
      using pre by auto
    have "length (take ?k bs) < 2 ^ 64" using Cons.prems by simp
    then have "view m' = overlay (view m) a (b # take ?k bs)"
      unfolding m'(2) m1(2) by (rule overlay_Cons)
    with False m1(1) m'(1) show ?thesis by auto
  qed
qed

end

end
