(* ===== verification/X86_State.thy ===== *)
theory X86_State
  imports WG_Prelude
begin

section \<open>The state of the built-in x86-64 interpreter (wg_x86_state)\<close>

text \<open>
  The register file, the flags word and the flag computations of
  \<open>Sources/CPU/wg_x86_state.h\<close> and \<open>wg_x86_state.c\<close>.  The x87 stack \<open>st[8]\<close> is left
  out: nothing but the zeroing \<open>memset\<close> of the reset touches it.
\<close>

record WGx86State =
  gpr :: "u64 list"
  rip :: u64
  rflags :: u64
  xmm :: "(u64 \<times> u64) list"
  mxcsr :: u32
  cs :: u16
  ds :: u16
  es :: u16
  fs :: u16
  gs :: u16
  ss :: u16
  fpu_control :: u16
  fpu_status :: u16
  fpu_top :: int
  halted :: bool
  interrupt_pending :: bool
  interrupt_vector :: u8
  instruction_count :: u64

definition WG_REG_COUNT :: nat where "WG_REG_COUNT = 16"

abbreviation (input) WG_REG_RAX :: nat where "WG_REG_RAX \<equiv> 0"
abbreviation (input) WG_REG_RCX :: nat where "WG_REG_RCX \<equiv> 1"
abbreviation (input) WG_REG_RDX :: nat where "WG_REG_RDX \<equiv> 2"
abbreviation (input) WG_REG_RBX :: nat where "WG_REG_RBX \<equiv> 3"
abbreviation (input) WG_REG_RSP :: nat where "WG_REG_RSP \<equiv> 4"
abbreviation (input) WG_REG_RBP :: nat where "WG_REG_RBP \<equiv> 5"

definition WG_FLAG_CF :: u64 where "WG_FLAG_CF = push_bit 0 1"
definition WG_FLAG_PF :: u64 where "WG_FLAG_PF = push_bit 2 1"
definition WG_FLAG_AF :: u64 where "WG_FLAG_AF = push_bit 4 1"
definition WG_FLAG_ZF :: u64 where "WG_FLAG_ZF = push_bit 6 1"
definition WG_FLAG_SF :: u64 where "WG_FLAG_SF = push_bit 7 1"
definition WG_FLAG_IF :: u64 where "WG_FLAG_IF = push_bit 9 1"
definition WG_FLAG_DF :: u64 where "WG_FLAG_DF = push_bit 10 1"
definition WG_FLAG_OF :: u64 where "WG_FLAG_OF = push_bit 11 1"

lemmas flag_defs = WG_FLAG_CF_def WG_FLAG_PF_def WG_FLAG_AF_def WG_FLAG_ZF_def
  WG_FLAG_SF_def WG_FLAG_IF_def WG_FLAG_DF_def WG_FLAG_OF_def

subsection \<open>Reset and register access\<close>

definition wg_x86_state_reset :: WGx86State where
  "wg_x86_state_reset =
     \<lparr> gpr = replicate WG_REG_COUNT 0, rip = 0,
       rflags = WG_FLAG_IF OR 0x2,
       xmm = replicate 16 (0, 0), mxcsr = 0x1F80,
       cs = 0x33, ds = 0x2B, es = 0x2B, fs = 0, gs = 0, ss = 0x2B,
       fpu_control = 0x037F, fpu_status = 0, fpu_top = 0,
       halted = False, interrupt_pending = False, interrupt_vector = 0,
       instruction_count = 0 \<rparr>"

definition wg_x86_set_reg :: "WGx86State \<Rightarrow> nat \<Rightarrow> u64 \<Rightarrow> WGx86State" where
  "wg_x86_set_reg s r val = (if r < WG_REG_COUNT then s\<lparr>gpr := (gpr s)[r := val]\<rparr> else s)"

definition wg_x86_get_reg :: "WGx86State \<Rightarrow> nat \<Rightarrow> u64" where
  "wg_x86_get_reg s r = (if r < WG_REG_COUNT then gpr s ! r else 0)"

definition wg_x86_set_rip :: "WGx86State \<Rightarrow> u64 \<Rightarrow> WGx86State" where
  "wg_x86_set_rip s v = s\<lparr>rip := v\<rparr>"

definition wg_x86_get_rip :: "WGx86State \<Rightarrow> u64" where
  "wg_x86_get_rip s = rip s"

definition wg_x86_set_flag :: "WGx86State \<Rightarrow> u64 \<Rightarrow> bool \<Rightarrow> WGx86State" where
  "wg_x86_set_flag s flag val =
     (if val then s\<lparr>rflags := rflags s OR flag\<rparr>
      else s\<lparr>rflags := rflags s AND NOT flag\<rparr>)"

definition wg_x86_get_flag :: "WGx86State \<Rightarrow> u64 \<Rightarrow> bool" where
  "wg_x86_get_flag s flag \<longleftrightarrow> rflags s AND flag \<noteq> 0"

subsection \<open>Flag computation\<close>

definition parity :: "u8 \<Rightarrow> bool" where
  "parity v =
     (let v = v XOR drop_bit 4 v;
          v = v XOR drop_bit 2 v;
          v = v XOR drop_bit 1 v
      in v AND 1 = 0)"

definition sign_bit :: "nat \<Rightarrow> u64" where
  "sign_bit bits = push_bit (bits - 1) 1"

definition mask_for_bits :: "nat \<Rightarrow> u64" where
  "mask_for_bits bits = (if bits \<ge> 64 then NOT 0 else push_bit bits 1 - 1)"

definition wg_x86_update_flags_add :: "WGx86State \<Rightarrow> u64 \<Rightarrow> u64 \<Rightarrow> u64 \<Rightarrow> nat \<Rightarrow> WGx86State" where
  "wg_x86_update_flags_add s a b result bits =
     (let m = mask_for_bits bits;
          sb = sign_bit bits;
          r = result AND m;
          s = wg_x86_set_flag s WG_FLAG_CF (result > m);
          s = wg_x86_set_flag s WG_FLAG_ZF (r = 0);
          s = wg_x86_set_flag s WG_FLAG_SF (r AND sb \<noteq> 0);
          s = wg_x86_set_flag s WG_FLAG_OF ((a XOR result) AND (b XOR result) AND sb \<noteq> 0);
          s = wg_x86_set_flag s WG_FLAG_AF ((a XOR b XOR result) AND 0x10 \<noteq> 0)
      in wg_x86_set_flag s WG_FLAG_PF (parity (ucast r)))"

definition wg_x86_update_flags_sub :: "WGx86State \<Rightarrow> u64 \<Rightarrow> u64 \<Rightarrow> u64 \<Rightarrow> nat \<Rightarrow> WGx86State" where
  "wg_x86_update_flags_sub s a b result bits =
     (let m = mask_for_bits bits;
          sb = sign_bit bits;
          r = result AND m;
          s = wg_x86_set_flag s WG_FLAG_CF (a < b);
          s = wg_x86_set_flag s WG_FLAG_ZF (r = 0);
          s = wg_x86_set_flag s WG_FLAG_SF (r AND sb \<noteq> 0);
          s = wg_x86_set_flag s WG_FLAG_OF ((a XOR b) AND (a XOR result) AND sb \<noteq> 0);
          s = wg_x86_set_flag s WG_FLAG_AF ((a XOR b XOR result) AND 0x10 \<noteq> 0)
      in wg_x86_set_flag s WG_FLAG_PF (parity (ucast r)))"

definition wg_x86_update_flags_logic :: "WGx86State \<Rightarrow> u64 \<Rightarrow> nat \<Rightarrow> WGx86State" where
  "wg_x86_update_flags_logic s result bits =
     (let m = mask_for_bits bits;
          sb = sign_bit bits;
          r = result AND m;
          s = wg_x86_set_flag s WG_FLAG_CF False;
          s = wg_x86_set_flag s WG_FLAG_OF False;
          s = wg_x86_set_flag s WG_FLAG_ZF (r = 0);
          s = wg_x86_set_flag s WG_FLAG_SF (r AND sb \<noteq> 0)
      in wg_x86_set_flag s WG_FLAG_PF (parity (ucast r)))"

subsection \<open>Well-formed states\<close>

definition wf_cpu :: "WGx86State \<Rightarrow> bool" where
  "wf_cpu s \<longleftrightarrow> length (gpr s) = WG_REG_COUNT \<and> length (xmm s) = 16"

lemma wf_cpu_reset [wf_intros, simp]: "wf_cpu wg_x86_state_reset"
  by (simp add: wf_cpu_def wg_x86_state_reset_def)

lemma wf_cpu_gpr: "wf_cpu s \<Longrightarrow> length (gpr s) = 16"
  by (simp add: wf_cpu_def WG_REG_COUNT_def)

lemma wf_cpu_update [simp]:
  "wf_cpu (s\<lparr>rip := v\<rparr>) = wf_cpu s"
  "wf_cpu (s\<lparr>rflags := f\<rparr>) = wf_cpu s"
  "wf_cpu (s\<lparr>instruction_count := c\<rparr>) = wf_cpu s"
  by (simp_all add: wf_cpu_def)

lemma wf_cpu_gpr_upd [wf_intros]: "wf_cpu s \<Longrightarrow> length rs = length (gpr s) \<Longrightarrow> wf_cpu (s\<lparr>gpr := rs\<rparr>)"
  by (simp add: wf_cpu_def)

lemma set_flag_frame [frame_simps, simp]:
  "gpr (wg_x86_set_flag s f v) = gpr s" "rip (wg_x86_set_flag s f v) = rip s"
  "xmm (wg_x86_set_flag s f v) = xmm s" "wf_cpu (wg_x86_set_flag s f v) = wf_cpu s"
  "instruction_count (wg_x86_set_flag s f v) = instruction_count s"
  by (simp_all add: wg_x86_set_flag_def)

lemma update_flags_frame [frame_simps, simp]:
  "gpr (wg_x86_update_flags_add s a b r n) = gpr s" "wf_cpu (wg_x86_update_flags_add s a b r n) = wf_cpu s"
  "gpr (wg_x86_update_flags_sub s a b r n) = gpr s" "wf_cpu (wg_x86_update_flags_sub s a b r n) = wf_cpu s"
  "gpr (wg_x86_update_flags_logic s r n) = gpr s" "wf_cpu (wg_x86_update_flags_logic s r n) = wf_cpu s"
  "rip (wg_x86_update_flags_add s a b r n) = rip s" "rip (wg_x86_update_flags_sub s a b r n) = rip s"
  "rip (wg_x86_update_flags_logic s r n) = rip s"
  by (simp_all add: wg_x86_update_flags_add_def wg_x86_update_flags_sub_def
      wg_x86_update_flags_logic_def Let_def)

subsection \<open>What the flags mean\<close>

text \<open>
  The ALU handlers hand the flag functions zero-extended operands.  For an operand type of
  \<open>n\<close> bits the lemmas below read the flags back as facts about \<open>n\<close>-bit words.
\<close>

lemma get_set_flag_same [simp]: "f \<noteq> 0 \<Longrightarrow> wg_x86_get_flag (wg_x86_set_flag s f v) f = v"
proof -
  assume "f \<noteq> 0"
  moreover have "(rflags s OR f) AND f = f" "(rflags s AND NOT f) AND f = 0"
    by (rule bit_word_eqI, auto simp: bit_simps)+
  ultimately show ?thesis by (simp add: wg_x86_get_flag_def wg_x86_set_flag_def)
qed

lemma get_set_flag_other [simp]:
  "f AND g = 0 \<Longrightarrow> wg_x86_get_flag (wg_x86_set_flag s f v) g = wg_x86_get_flag s g"
proof -
  assume "f AND g = 0"
  then have "\<not> (bit f k \<and> bit g k)" for k by (metis bit_and_iff bit_0_eq bot_apply bot_bool_def)
  then have "(rflags s OR f) AND g = rflags s AND g" "(rflags s AND NOT f) AND g = rflags s AND g"
    by (intro bit_word_eqI; auto simp: bit_simps)+
  then show ?thesis by (simp add: wg_x86_get_flag_def wg_x86_set_flag_def)
qed

lemma flags_nonzero [simp]:
  "WG_FLAG_CF \<noteq> 0" "WG_FLAG_PF \<noteq> 0" "WG_FLAG_AF \<noteq> 0" "WG_FLAG_ZF \<noteq> 0"
  "WG_FLAG_SF \<noteq> 0" "WG_FLAG_IF \<noteq> 0" "WG_FLAG_DF \<noteq> 0" "WG_FLAG_OF \<noteq> 0"
  by (simp_all add: flag_defs)

lemma flags_disjoint [simp]:
  "WG_FLAG_CF AND WG_FLAG_PF = 0" "WG_FLAG_CF AND WG_FLAG_ZF = 0" "WG_FLAG_CF AND WG_FLAG_SF = 0"
  "WG_FLAG_CF AND WG_FLAG_OF = 0" "WG_FLAG_PF AND WG_FLAG_CF = 0" "WG_FLAG_PF AND WG_FLAG_ZF = 0"
  "WG_FLAG_PF AND WG_FLAG_SF = 0" "WG_FLAG_PF AND WG_FLAG_OF = 0" "WG_FLAG_ZF AND WG_FLAG_CF = 0"
  "WG_FLAG_ZF AND WG_FLAG_PF = 0" "WG_FLAG_ZF AND WG_FLAG_SF = 0" "WG_FLAG_ZF AND WG_FLAG_OF = 0"
  "WG_FLAG_SF AND WG_FLAG_CF = 0" "WG_FLAG_SF AND WG_FLAG_PF = 0" "WG_FLAG_SF AND WG_FLAG_ZF = 0"
  "WG_FLAG_SF AND WG_FLAG_OF = 0" "WG_FLAG_OF AND WG_FLAG_CF = 0" "WG_FLAG_OF AND WG_FLAG_PF = 0"
  "WG_FLAG_OF AND WG_FLAG_ZF = 0" "WG_FLAG_OF AND WG_FLAG_SF = 0" "WG_FLAG_AF AND WG_FLAG_CF = 0"
  "WG_FLAG_AF AND WG_FLAG_PF = 0" "WG_FLAG_AF AND WG_FLAG_ZF = 0" "WG_FLAG_AF AND WG_FLAG_SF = 0"
  "WG_FLAG_AF AND WG_FLAG_OF = 0"
  by (simp_all add: flag_defs)

lemma wf_flags_simps:
  "wg_x86_get_flag (wg_x86_update_flags_sub s a b r n) WG_FLAG_CF = (a < b)"
  "wg_x86_get_flag (wg_x86_update_flags_sub s a b r n) WG_FLAG_ZF = (r AND mask_for_bits n = 0)"
  "wg_x86_get_flag (wg_x86_update_flags_sub s a b r n) WG_FLAG_SF = (r AND mask_for_bits n AND sign_bit n \<noteq> 0)"
  "wg_x86_get_flag (wg_x86_update_flags_sub s a b r n) WG_FLAG_OF = ((a XOR b) AND (a XOR r) AND sign_bit n \<noteq> 0)"
  "wg_x86_get_flag (wg_x86_update_flags_sub s a b r n) WG_FLAG_PF = parity (ucast (r AND mask_for_bits n))"
  "wg_x86_get_flag (wg_x86_update_flags_add s a b r n) WG_FLAG_CF = (r > mask_for_bits n)"
  "wg_x86_get_flag (wg_x86_update_flags_add s a b r n) WG_FLAG_ZF = (r AND mask_for_bits n = 0)"
  "wg_x86_get_flag (wg_x86_update_flags_add s a b r n) WG_FLAG_SF = (r AND mask_for_bits n AND sign_bit n \<noteq> 0)"
  "wg_x86_get_flag (wg_x86_update_flags_add s a b r n) WG_FLAG_OF = ((a XOR r) AND (b XOR r) AND sign_bit n \<noteq> 0)"
  "wg_x86_get_flag (wg_x86_update_flags_add s a b r n) WG_FLAG_PF = parity (ucast (r AND mask_for_bits n))"
  by (simp_all add: wg_x86_update_flags_sub_def wg_x86_update_flags_add_def Let_def and.assoc)

lemma bit_sign_bit: "bit (sign_bit n) k \<longleftrightarrow> k = n - 1 \<and> k < 64"
  by (auto simp: sign_bit_def bit_simps)

lemma and_sign_bit: "(x AND sign_bit n \<noteq> 0) \<longleftrightarrow> n - 1 < 64 \<and> bit x (n - 1)"
  by (auto simp: word_nonzero_iff bit_and_iff bit_sign_bit)

lemma bit_mask_for_bits: "bit (mask_for_bits n) k \<longleftrightarrow> k < n \<and> k < 64"
proof (cases "n \<ge> 64")
  case True
  then show ?thesis by (auto simp: mask_for_bits_def bit_simps)
next
  case False
  have "(push_bit n 1 - 1 :: u64) = mask n" by (simp add: mask_eq_exp_minus_1 push_bit_eq_mult)
  with False show ?thesis by (auto simp: mask_for_bits_def bit_mask_iff)
qed

lemma and_mask_for_bits: "x AND mask_for_bits n = take_bit n x"
  by (rule bit_word_eqI) (auto simp: bit_simps bit_mask_for_bits)

lemma zext_less: "LENGTH('a) \<le> 64 \<Longrightarrow> (ucast (x :: 'a::len word) :: u64) < ucast y \<longleftrightarrow> x < y"
  by (simp add: word_less_def uint_ucast_up)

lemma zext_mask_zero:
  assumes "LENGTH('a) \<le> 64"
  shows "take_bit LENGTH('a) (r :: u64) = 0 \<longleftrightarrow> (ucast r :: 'a::len word) = 0"
  using assms ucast_ucast_up_down [of "ucast r :: 'a word", where 'b = 64]
  by (auto simp: take_bit_ucast_down)

lemma low_top_bit:
  assumes "LENGTH('a) \<le> 64"
  shows "bit (r :: u64) (LENGTH('a) - 1) \<longleftrightarrow> bit (ucast r :: 'a::len word) (LENGTH('a) - 1)"
  using assms by (simp add: bit_ucast_iff)

text \<open>The signed reading of a difference and of a sum: the top bits decide overflow.\<close>

lemma signed_sub_cases:
  fixes x y :: "'a::len word"
  defines "d \<equiv> LENGTH('a) - 1"
  shows "(bit x d \<noteq> bit y d) \<and> (bit x d \<noteq> bit (x - y) d)
           \<longleftrightarrow> \<not> (- (2 ^ d) \<le> sint x - sint y \<and> sint x - sint y < 2 ^ d)" (is "?of \<longleftrightarrow> _")
    and "(bit (x - y) d \<noteq> ((bit x d \<noteq> bit y d) \<and> (bit x d \<noteq> bit (x - y) d)))
           \<longleftrightarrow> sint x < sint y"
proof -
  have p: "2 ^ LENGTH('a) = 2 * (2 :: int) ^ d"
    unfolding d_def by (metis Suc_pred' len_gt_0 power_Suc)
  have top: "bit w d \<longleftrightarrow> 2 ^ d \<le> uint w" for w :: "'a word"
    unfolding d_def by (rule top_bit_iff)
  have s: "sint w = (if 2 ^ d \<le> uint w then uint w - 2 * 2 ^ d else uint w)" for w :: "'a word"
    using sint_if_bit [of w] p top [of w] unfolding d_def by simp
  have b: "0 \<le> uint w" "uint w < 2 * 2 ^ d" for w :: "'a word"
    using uint_lt2p [of w] p by simp_all
  have e: "uint (x - y) = (if uint y \<le> uint x then uint x - uint y else uint x - uint y + 2 * 2 ^ d)"
    using uint_sub_if' [of x y] p by simp
  show "?of \<longleftrightarrow> \<not> (- (2 ^ d) \<le> sint x - sint y \<and> sint x - sint y < 2 ^ d)"
    unfolding top s using b [of x] b [of y] e by (simp split: if_splits; linarith)
  show "(bit (x - y) d \<noteq> ((bit x d \<noteq> bit y d) \<and> (bit x d \<noteq> bit (x - y) d)))
           \<longleftrightarrow> sint x < sint y"
    unfolding top s using b [of x] b [of y] e by (simp split: if_splits; linarith)
qed

lemma signed_add_cases:
  fixes x y :: "'a::len word"
  defines "d \<equiv> LENGTH('a) - 1"
  shows "(bit x d \<noteq> bit (x + y) d) \<and> (bit y d \<noteq> bit (x + y) d)
           \<longleftrightarrow> \<not> (- (2 ^ d) \<le> sint x + sint y \<and> sint x + sint y < 2 ^ d)" (is "?of \<longleftrightarrow> _")
proof -
  have p: "2 ^ LENGTH('a) = 2 * (2 :: int) ^ d"
    unfolding d_def by (metis Suc_pred' len_gt_0 power_Suc)
  have top: "bit w d \<longleftrightarrow> 2 ^ d \<le> uint w" for w :: "'a word"
    unfolding d_def by (rule top_bit_iff)
  have s: "sint w = (if 2 ^ d \<le> uint w then uint w - 2 * 2 ^ d else uint w)" for w :: "'a word"
    using sint_if_bit [of w] p top [of w] unfolding d_def by simp
  have b: "0 \<le> uint w" "uint w < 2 * 2 ^ d" for w :: "'a word"
    using uint_lt2p [of w] p by simp_all
  have e: "uint (x + y) = (if uint x + uint y < 2 * 2 ^ d then uint x + uint y
      else uint x + uint y - 2 * 2 ^ d)"
    using uint_plus_if' [of x y] p by simp
  show "?of \<longleftrightarrow> \<not> (- (2 ^ d) \<le> sint x + sint y \<and> sint x + sint y < 2 ^ d)"
    unfolding top s using b [of x] b [of y] e by (simp split: if_splits; linarith)
qed

lemma sum_lessThan_8: "(\<Sum>k<(8::nat). f k) = f 0 + f 1 + f 2 + f 3 + f 4 + f 5 + f 6 + (f 7 :: nat)"
  by (simp add: eval_nat_numeral lessThan_Suc add_ac)

lemma parity_bits: "parity v \<longleftrightarrow> even (\<Sum>k<8. of_bool (bit v k) :: nat)"
proof -
  have "parity v \<longleftrightarrow> \<not> bit (let v = v XOR drop_bit 4 v; v = v XOR drop_bit 2 v in v XOR drop_bit 1 v) 0"
    by (simp add: parity_def Let_def bit_0 and_one_eq odd_iff_mod_2_eq_one even_iff_mod_2_eq_zero)
  also have "\<dots> \<longleftrightarrow> even (\<Sum>k<8. of_bool (bit v k) :: nat)"
    unfolding sum_lessThan_8 Let_def bit_xor_iff bit_drop_bit_eq even_add
    by (simp add: numeral_3_eq_3; argo?)
  finally show ?thesis .
qed

lemma parity_card: "parity v \<longleftrightarrow> even (card {k. k < 8 \<and> bit v k})"
proof -
  have "{k. k < 8 \<and> bit v k} = {k \<in> {..<8}. bit v k}" by auto
  then have "(\<Sum>k<8. of_bool (bit v k) :: nat) = card {k. k < 8 \<and> bit v k}"
    by (simp add: sum.If_cases of_bool_def Int_def)
  then show ?thesis by (simp add: parity_bits)
qed

lemma sub_flags:
  fixes x y :: "'a::len word" and s :: WGx86State
  assumes len: "LENGTH('a) \<le> 64"
  defines "s' \<equiv> wg_x86_update_flags_sub s (ucast x) (ucast y) (ucast x - ucast y) LENGTH('a)"
  shows "(wg_x86_get_flag s' WG_FLAG_CF \<longleftrightarrow> x < y)
    \<and> (wg_x86_get_flag s' WG_FLAG_ZF \<longleftrightarrow> x = y)
    \<and> (wg_x86_get_flag s' WG_FLAG_SF \<longleftrightarrow> sint (x - y) < 0)
    \<and> (wg_x86_get_flag s' WG_FLAG_OF \<longleftrightarrow>
          \<not> (- (2 ^ (LENGTH('a) - 1)) \<le> sint x - sint y \<and> sint x - sint y < 2 ^ (LENGTH('a) - 1)))
    \<and> ((wg_x86_get_flag s' WG_FLAG_SF \<noteq> wg_x86_get_flag s' WG_FLAG_OF) \<longleftrightarrow> sint x < sint y)
    \<and> (8 \<le> LENGTH('a) \<longrightarrow>
          (wg_x86_get_flag s' WG_FLAG_PF \<longleftrightarrow> even (card {k. k < 8 \<and> bit (x - y) k})))"
proof -
  let ?d = "LENGTH('a) - 1" and ?r = "ucast x - ucast y :: u64"
  have down: "(ucast ?r :: 'a word) = x - y"
    using len by (simp add: ucast_down_sub ucast_ucast_up_down)
  have d: "?d < 64" and d': "?d < LENGTH('a)" using len by simp_all
  have top: "bit ?r ?d = bit (x - y) ?d" using low_top_bit [OF len, of ?r] down by simp
  have up: "bit (ucast w :: u64) ?d = bit w ?d" for w :: "'a word" using d by (simp add: bit_ucast_iff)
  have cf: "wg_x86_get_flag s' WG_FLAG_CF \<longleftrightarrow> x < y"
    using zext_less [OF len] by (simp add: s'_def wf_flags_simps)
  have zf: "wg_x86_get_flag s' WG_FLAG_ZF \<longleftrightarrow> x = y"
    using zext_mask_zero [OF len, of ?r] down by (simp add: s'_def wf_flags_simps and_mask_for_bits)
  have sf: "wg_x86_get_flag s' WG_FLAG_SF \<longleftrightarrow> bit (x - y) ?d"
    using d d' top by (simp add: s'_def wf_flags_simps and_mask_for_bits and_sign_bit bit_take_bit_iff
        flip: and.assoc)
  have "wg_x86_get_flag s' WG_FLAG_OF
      \<longleftrightarrow> bit ((ucast x XOR ucast y) AND (ucast x XOR ?r)) ?d"
    using d by (simp add: s'_def wf_flags_simps and_sign_bit flip: and.assoc)
  also have "\<dots> \<longleftrightarrow> (bit x ?d \<noteq> bit y ?d) \<and> (bit x ?d \<noteq> bit (x - y) ?d)"
    by (simp only: bit_and_iff bit_xor_iff up top)
  finally have of': "wg_x86_get_flag s' WG_FLAG_OF \<longleftrightarrow> \<dots>" .
  have lt: "(wg_x86_get_flag s' WG_FLAG_SF \<noteq> wg_x86_get_flag s' WG_FLAG_OF) \<longleftrightarrow> sint x < sint y"
    unfolding sf of' by (rule signed_sub_cases(2))
  have pf: "wg_x86_get_flag s' WG_FLAG_PF \<longleftrightarrow> even (card {k. k < 8 \<and> bit (x - y) k})"
    if "8 \<le> LENGTH('a)"
  proof -
    have "bit (ucast (?r AND mask_for_bits LENGTH('a)) :: u8) k \<longleftrightarrow> bit (x - y) k" if "k < 8" for k
      using that \<open>8 \<le> LENGTH('a)\<close> len down [symmetric]
      by (auto simp: bit_simps bit_mask_for_bits)
    then have "{k. k < 8 \<and> bit (ucast (?r AND mask_for_bits LENGTH('a)) :: u8) k} = {k. k < 8 \<and> bit (x - y) k}"
      by auto
    then show ?thesis by (simp add: s'_def wf_flags_simps parity_card)
  qed
  show ?thesis
    using cf zf sf of' [unfolded signed_sub_cases(1)] lt pf bit_last_iff [of "x - y"]
    by (simp del: not_less)
qed

subsection \<open>Properties\<close>

text \<open>After an addition of two operands zero-extended from a width below 64 bits, the
  carry flag is unsigned overflow, the zero flag says that the truncated sum is zero and the
  overflow flag is signed overflow.  At 64 bits the carry flag is always clear, whatever the
  operands.\<close>

theorem update_flags_add_meaning:
  fixes x y :: "'a::len word" and s :: WGx86State
  assumes len: "LENGTH('a) \<le> 64"
  defines "s' \<equiv> wg_x86_update_flags_add s (ucast x) (ucast y) (ucast x + ucast y) LENGTH('a)"
  shows "(wg_x86_get_flag s' WG_FLAG_CF \<longleftrightarrow> LENGTH('a) < 64 \<and> 2 ^ LENGTH('a) \<le> uint x + uint y)
    \<and> (wg_x86_get_flag s' WG_FLAG_ZF \<longleftrightarrow> x + y = 0)
    \<and> (wg_x86_get_flag s' WG_FLAG_SF \<longleftrightarrow> sint (x + y) < 0)
    \<and> (wg_x86_get_flag s' WG_FLAG_OF \<longleftrightarrow>
          \<not> (- (2 ^ (LENGTH('a) - 1)) \<le> sint x + sint y \<and> sint x + sint y < 2 ^ (LENGTH('a) - 1)))"
proof -
  let ?d = "LENGTH('a) - 1" and ?r = "ucast x + ucast y :: u64"
  have down: "(ucast ?r :: 'a word) = x + y"
    using len by (simp add: ucast_down_add ucast_ucast_up_down)
  have d: "?d < 64" and d': "?d < LENGTH('a)" using len by simp_all
  have top: "bit ?r ?d = bit (x + y) ?d" using low_top_bit [OF len, of ?r] down by simp
  have up: "bit (ucast w :: u64) ?d = bit w ?d" for w :: "'a word" using d by (simp add: bit_ucast_iff)
  have cf: "wg_x86_get_flag s' WG_FLAG_CF \<longleftrightarrow> LENGTH('a) < 64 \<and> 2 ^ LENGTH('a) \<le> uint x + uint y"
  proof (cases "LENGTH('a) < 64")
    case False
    then have "mask_for_bits LENGTH('a) = - 1" by (simp add: mask_for_bits_def)
    then show ?thesis
      using False word_order.extremum_strict [of ?r] by (simp add: s'_def wf_flags_simps)
  next
    case True
    have p: "(2 :: int) * 2 ^ LENGTH('a) \<le> 2 ^ 64"
      using True power_increasing [of "Suc LENGTH('a)" 64 "2 :: int"] by simp
    have "uint x + uint y < 2 ^ 64"
      using uint_lt2p [of x] uint_lt2p [of y] p by linarith
    then have r: "uint ?r = uint x + uint y"
      using len by (simp add: uint_plus_if' uint_ucast_up)
    have "mask_for_bits LENGTH('a) = mask LENGTH('a)"
      using True by (intro bit_word_eqI) (auto simp: bit_mask_for_bits bit_mask_iff)
    then have "uint (mask_for_bits LENGTH('a)) = 2 ^ LENGTH('a) - 1"
      using len by (simp add: uint_mask)
    with r True show ?thesis by (auto simp: s'_def wf_flags_simps word_less_def)
  qed
  have zf: "wg_x86_get_flag s' WG_FLAG_ZF \<longleftrightarrow> x + y = 0"
    using zext_mask_zero [OF len, of ?r] down by (simp add: s'_def wf_flags_simps and_mask_for_bits)
  have sf: "wg_x86_get_flag s' WG_FLAG_SF \<longleftrightarrow> bit (x + y) ?d"
    using d d' top by (simp add: s'_def wf_flags_simps and_mask_for_bits and_sign_bit bit_take_bit_iff
        flip: and.assoc)
  have "wg_x86_get_flag s' WG_FLAG_OF
      \<longleftrightarrow> bit ((ucast x XOR ?r) AND (ucast y XOR ?r)) ?d"
    using d by (simp add: s'_def wf_flags_simps and_sign_bit flip: and.assoc)
  also have "\<dots> \<longleftrightarrow> (bit x ?d \<noteq> bit (x + y) ?d) \<and> (bit y ?d \<noteq> bit (x + y) ?d)"
    by (simp only: bit_and_iff bit_xor_iff up top)
  finally have of': "wg_x86_get_flag s' WG_FLAG_OF \<longleftrightarrow> \<dots>" .
  show ?thesis
    unfolding cf zf sf of' signed_add_cases(1) [of x y]
    by (simp add: bit_last_iff)
qed

theorem update_flags_add_meaning_witness:
  "wg_x86_get_flag (wg_x86_update_flags_add wg_x86_state_reset (ucast (0xFFFFFFFF :: u32)) (ucast (1 :: u32))
     (ucast (0xFFFFFFFF :: u32) + ucast (1 :: u32)) LENGTH(32)) WG_FLAG_CF
   \<and> \<not> wg_x86_get_flag (wg_x86_update_flags_add wg_x86_state_reset (ucast (- 1 :: u64)) (ucast (1 :: u64))
     (ucast (- 1 :: u64) + ucast (1 :: u64)) LENGTH(64)) WG_FLAG_CF"
proof -
  have l: "LENGTH(32) \<le> 64" "LENGTH(64) \<le> 64" by simp_all
  from update_flags_add_meaning [OF l(1), of wg_x86_state_reset "0xFFFFFFFF" 1]
    update_flags_add_meaning [OF l(2), of wg_x86_state_reset "- 1" 1]
  show ?thesis by simp
qed

end
