(* ===== verification/X86_Insn.thy ===== *)
theory X86_Insn
  imports WG_Prelude
begin

section \<open>Decoded instructions (wg_x86_decode.h)\<close>

text \<open>
  The data of \<open>Sources/CPU/wg_x86_decode.h\<close> and the decoder's private context: opcodes,
  operands, the instruction, and the cursor with the prefix state.  The cursor \<open>ptr\<close> of the C
  context is its offset from \<open>start\<close>; the bytes from \<open>start\<close> to \<open>end\<close> are the list \<open>code\<close>.
\<close>

datatype (plugins only: code size) WGOpcode =
    WG_OP_UNKNOWN | WG_OP_NOP
  | WG_OP_MOV | WG_OP_MOVZX | WG_OP_MOVSX | WG_OP_LEA | WG_OP_XCHG
  | WG_OP_PUSH | WG_OP_POP
  | WG_OP_ADD | WG_OP_SUB | WG_OP_ADC | WG_OP_SBB
  | WG_OP_AND | WG_OP_OR | WG_OP_XOR | WG_OP_NOT | WG_OP_NEG
  | WG_OP_INC | WG_OP_DEC
  | WG_OP_CMP | WG_OP_TEST
  | WG_OP_SHL | WG_OP_SHR | WG_OP_SAR | WG_OP_ROL | WG_OP_ROR
  | WG_OP_IMUL | WG_OP_MUL | WG_OP_IDIV | WG_OP_DIV
  | WG_OP_JMP | WG_OP_JCC | WG_OP_CALL | WG_OP_RET
  | WG_OP_CMOVCC
  | WG_OP_SETCC
  | WG_OP_CQO | WG_OP_CDQ | WG_OP_CBW | WG_OP_CWDE | WG_OP_CDQE
  | WG_OP_MOVSB | WG_OP_MOVSW | WG_OP_MOVSD_STR | WG_OP_MOVSQ
  | WG_OP_STOSB | WG_OP_STOSW | WG_OP_STOSD | WG_OP_STOSQ
  | WG_OP_REP
  | WG_OP_LEAVE
  | WG_OP_INT | WG_OP_SYSCALL | WG_OP_HLT
  | WG_OP_CPUID
  | WG_OP_RDTSC
  | WG_OP_BSWAP
  | WG_OP_BSF | WG_OP_BSR
  | WG_OP_BT | WG_OP_BTS | WG_OP_BTR | WG_OP_BTC
  | WG_OP_MOVD_XMM | WG_OP_MOVQ_XMM
  | WG_OP_MOVAPS | WG_OP_MOVUPS
  | WG_OP_XORPS
  | WG_OP_CLC | WG_OP_STC | WG_OP_CMC
  | WG_OP_CLD | WG_OP_STD

datatype WGOperandType =
  WG_OPERAND_NONE | WG_OPERAND_REG | WG_OPERAND_MEM | WG_OPERAND_IMM | WG_OPERAND_REL

text \<open>\<open>mem_disp\<close> and \<open>imm\<close> are \<open>int64_t\<close>: their words are read with \<^term>\<open>sint\<close> where the
  sign matters.  \<open>mem_base\<close> is a register number, \<open>-1\<close> for none or \<open>-2\<close> for RIP-relative.\<close>

record WGOperand =
  o_type :: WGOperandType
  o_size :: nat
  reg_index :: nat
  mem_base :: int
  mem_index :: int
  mem_scale :: nat
  mem_disp :: u64
  mem_seg :: int
  imm :: u64

record WGInstruction =
  opcode :: WGOpcode
  ilen :: nat
  operands :: "WGOperand list"
  num_operands :: nat
  op_size :: nat
  addr_size :: nat
  has_lock :: bool
  has_rep :: bool
  has_repne :: bool
  segment_override :: int
  condition :: u8

record DecodeCtx =
  code :: "u8 list"
  ptr :: nat
  c_rip :: u64
  rex_present :: bool
  rex_w :: nat
  rex_r :: nat
  rex_x :: nat
  rex_b :: nat
  has_66 :: bool
  has_67 :: bool
  has_f2 :: bool
  has_f3 :: bool
  c_lock :: bool
  seg_override :: int

definition operand0 :: WGOperand where
  "operand0 = \<lparr>o_type = WG_OPERAND_NONE, o_size = 0, reg_index = 0, mem_base = 0, mem_index = 0,
     mem_scale = 0, mem_disp = 0, mem_seg = 0, imm = 0\<rparr>"

definition reg_operand :: "nat \<Rightarrow> nat \<Rightarrow> WGOperand" where
  "reg_operand r sz = operand0\<lparr>o_type := WG_OPERAND_REG, reg_index := r, o_size := sz\<rparr>"

definition imm_operand :: "u64 \<Rightarrow> nat \<Rightarrow> WGOperand" where
  "imm_operand v sz = operand0\<lparr>o_type := WG_OPERAND_IMM, imm := v, o_size := sz\<rparr>"

definition rel_operand :: "u64 \<Rightarrow> WGOperand" where
  "rel_operand target = operand0\<lparr>o_type := WG_OPERAND_REL, imm := target, o_size := 8\<rparr>"

subsection \<open>Well-formed operands and instructions\<close>

text \<open>Every register number an operand carries indexes the sixteen-entry register file.\<close>

definition wf_operand :: "WGOperand \<Rightarrow> bool" where
  "wf_operand op \<longleftrightarrow> reg_index op < 16 \<and> -2 \<le> mem_base op \<and> mem_base op < 16
     \<and> -1 \<le> mem_index op \<and> mem_index op < 16 \<and> o_size op \<in> {0, 1, 2, 4, 8, 16}"

definition wf_insn :: "WGInstruction \<Rightarrow> bool" where
  "wf_insn i \<longleftrightarrow> length (operands i) = 3 \<and> (\<forall>op \<in> set (operands i). wf_operand op)
     \<and> op_size i \<in> {2, 4, 8} \<and> num_operands i \<le> 3 \<and> condition i < 16"

lemma wf_operand0 [wf_intros, simp]: "wf_operand operand0"
  by (simp add: wf_operand_def operand0_def)

lemma wf_reg_operand [wf_intros]:
  "r < 16 \<Longrightarrow> sz \<in> {1, 2, 4, 8, 16} \<Longrightarrow> wf_operand (reg_operand r sz)"
  by (auto simp: wf_operand_def operand0_def reg_operand_def)

lemma wf_imm_operand [wf_intros]: "sz \<in> {1, 2, 4, 8, 16} \<Longrightarrow> wf_operand (imm_operand v sz)"
  by (auto simp: wf_operand_def operand0_def imm_operand_def)

lemma wf_rel_operand [wf_intros, simp]: "wf_operand (rel_operand v)"
  by (auto simp: wf_operand_def operand0_def rel_operand_def)

end
