(* ===== verification/X86_Decode.thy ===== *)
theory X86_Decode
  imports X86_Insn
begin

section \<open>The instruction decoder (wg_x86_decode)\<close>

text \<open>
  \<open>Sources/CPU/wg_x86_decode.c\<close>: prefixes, one- and two-byte opcodes, ModR/M and SIB.  The decoder is total except for two kinds of undefined behaviour,
  which make it \<^term>\<open>None\<close>: the ModR/M peek past \<open>end\<close>, and the signed overflow of the
  RIP-relative displacement.
\<close>

subsection \<open>Field extraction and fetching\<close>

definition MODRM_MOD :: "u8 \<Rightarrow> nat" where "MODRM_MOD b = unat (drop_bit 6 b AND 3)"
definition MODRM_REG :: "u8 \<Rightarrow> nat" where "MODRM_REG b = unat (drop_bit 3 b AND 7)"
definition MODRM_RM :: "u8 \<Rightarrow> nat" where "MODRM_RM b = unat (b AND 7)"
definition SIB_SCALE :: "u8 \<Rightarrow> nat" where "SIB_SCALE b = unat (drop_bit 6 b AND 3)"
definition SIB_INDEX :: "u8 \<Rightarrow> nat" where "SIB_INDEX b = unat (drop_bit 3 b AND 7)"
definition SIB_BASE :: "u8 \<Rightarrow> nat" where "SIB_BASE b = unat (b AND 7)"

text \<open>\<open>field | (rex << 3)\<close>\<close>

definition rex_reg :: "nat \<Rightarrow> nat \<Rightarrow> nat" where
  "rex_reg field rex = field OR push_bit 3 rex"

definition fetch8 :: "DecodeCtx \<Rightarrow> u8 \<times> DecodeCtx" where
  "fetch8 c = (if ptr c \<ge> length (code c) then (0, c)
     else (code c ! ptr c, c\<lparr>ptr := ptr c + 1\<rparr>))"

definition fetch16 :: "DecodeCtx \<Rightarrow> u16 \<times> DecodeCtx" where
  "fetch16 c = (if ptr c + 2 \<le> length (code c)
     then (of_le (take 2 (drop (ptr c) (code c))), c\<lparr>ptr := ptr c + 2\<rparr>) else (0, c))"

definition fetch32 :: "DecodeCtx \<Rightarrow> u32 \<times> DecodeCtx" where
  "fetch32 c = (if ptr c + 4 \<le> length (code c)
     then (of_le (take 4 (drop (ptr c) (code c))), c\<lparr>ptr := ptr c + 4\<rparr>) else (0, c))"

definition fetch64 :: "DecodeCtx \<Rightarrow> u64 \<times> DecodeCtx" where
  "fetch64 c =
     (let (lo, c) = fetch32 c; (hi, c) = fetch32 c
      in (ucast lo OR push_bit 32 (ucast hi), c))"

text \<open>\<open>fetch_simm32\<close> and \<open>(int8_t)fetch8\<close>, converted to the 64-bit field they are stored in.\<close>

definition fetch_simm32 :: "DecodeCtx \<Rightarrow> u64 \<times> DecodeCtx" where
  "fetch_simm32 c = (let (v, c) = fetch32 c in (scast v, c))"

definition fetch_simm8 :: "DecodeCtx \<Rightarrow> u64 \<times> DecodeCtx" where
  "fetch_simm8 c = (let (v, c) = fetch8 c in (scast v, c))"

definition fetch_imm8 :: "DecodeCtx \<Rightarrow> u64 \<times> DecodeCtx" where
  "fetch_imm8 c = (let (v, c) = fetch8 c in (ucast v, c))"

definition effective_op_size :: "DecodeCtx \<Rightarrow> nat" where
  "effective_op_size c = (if rex_w c \<noteq> 0 then 8 else if has_66 c then 2 else 4)"

subsection \<open>ModR/M and SIB\<close>

text \<open>The address of the next byte to fetch, \<open>c->rip + (c->ptr - c->start)\<close>.\<close>

definition next_addr :: "DecodeCtx \<Rightarrow> u64" where
  "next_addr c = c_rip c + of_nat (ptr c)"

definition decode_sib :: "DecodeCtx \<Rightarrow> nat \<Rightarrow> WGOperand \<Rightarrow> WGOperand \<times> DecodeCtx" where
  "decode_sib c md op =
     (let (sib, c) = fetch8 c;
          sib_base = rex_reg (SIB_BASE sib) (rex_b c);
          sib_index = rex_reg (SIB_INDEX sib) (rex_x c);
          sib_scale = push_bit (SIB_SCALE sib) 1;
          op = (if sib_index \<noteq> 4 then op\<lparr>mem_index := int sib_index, mem_scale := sib_scale\<rparr> else op)
      in if md = 0 \<and> SIB_BASE sib = 5
         then let (d, c) = fetch_simm32 c;
                  op = op\<lparr>mem_disp := d\<rparr>
              in (if mem_index op = -1 then op\<lparr>mem_base := -1\<rparr> else op, c)
         else (op\<lparr>mem_base := int sib_base\<rparr>, c))"

definition decode_modrm_mem :: "DecodeCtx \<Rightarrow> WGOperand \<Rightarrow> (WGOperand \<times> DecodeCtx) option" where
  "decode_modrm_mem c op =
     (let (modrm, c) = fetch8 c;
          md = MODRM_MOD modrm;
          rm = rex_reg (MODRM_RM modrm) (rex_b c)
      in if md = 3 then Some (op\<lparr>o_type := WG_OPERAND_REG, reg_index := rm\<rparr>, c)
         else do {
           let op = op\<lparr>o_type := WG_OPERAND_MEM, mem_base := -1, mem_index := -1, mem_scale := 1,
                       mem_disp := 0, mem_seg := seg_override c\<rparr>;
           let base_rm = MODRM_RM modrm;
           (op, c) \<leftarrow>
             (if base_rm = 4 then Some (decode_sib c md op)
              else if md = 0 \<and> base_rm = 5
              then let (disp, c) = fetch_simm32 c in do {
                d \<leftarrow> sadd64 (next_addr c) disp;
                Some (op\<lparr>mem_base := -2, mem_disp := d\<rparr>, c) }
              else Some (op\<lparr>mem_base := int (rex_reg (MODRM_RM modrm) (rex_b c))\<rparr>, c));
           Some (if md = 1 then let (d, c) = fetch_simm8 c in (op\<lparr>mem_disp := d\<rparr>, c)
                 else if md = 2 then let (d, c) = fetch_simm32 c in (op\<lparr>mem_disp := d\<rparr>, c)
                 else (op, c)) })"

text \<open>The peek \<open>*c->ptr\<close> is not bounded by \<open>end\<close>: past it the read is out of the buffer.  The
  result is the r/m operand, the register operand and the context.\<close>

definition decode_modrm :: "DecodeCtx \<Rightarrow> nat \<Rightarrow> (WGOperand \<times> WGOperand \<times> DecodeCtx) option" where
  "decode_modrm c sz =
     (if ptr c < length (code c) then do {
        let modrm = code c ! ptr c;
        let reg = rex_reg (MODRM_REG modrm) (rex_r c);
        (rm_op, c) \<leftarrow> decode_modrm_mem c (operand0\<lparr>o_size := sz\<rparr>);
        Some (rm_op, reg_operand reg sz, c) }
      else None)"

subsection \<open>Prefixes\<close>

definition prefix_step :: "u8 \<Rightarrow> DecodeCtx \<Rightarrow> DecodeCtx option" where
  "prefix_step b c =
     (if b = 0xF0 then Some (c\<lparr>c_lock := True\<rparr>)
      else if b = 0xF2 then Some (c\<lparr>has_f2 := True\<rparr>)
      else if b = 0xF3 then Some (c\<lparr>has_f3 := True\<rparr>)
      else if b = 0x66 then Some (c\<lparr>has_66 := True\<rparr>)
      else if b = 0x67 then Some (c\<lparr>has_67 := True\<rparr>)
      else if b = 0x26 then Some (c\<lparr>seg_override := 0\<rparr>)
      else if b = 0x2E then Some (c\<lparr>seg_override := 1\<rparr>)
      else if b = 0x36 then Some (c\<lparr>seg_override := 2\<rparr>)
      else if b = 0x3E then Some (c\<lparr>seg_override := 3\<rparr>)
      else if b = 0x64 then Some (c\<lparr>seg_override := 4\<rparr>)
      else if b = 0x65 then Some (c\<lparr>seg_override := 5\<rparr>)
      else if b \<ge> 0x40 \<and> b \<le> 0x4F
      then Some (c\<lparr>rex_present := True,
                   rex_w := unat (drop_bit 3 b AND 1), rex_r := unat (drop_bit 2 b AND 1),
                   rex_x := unat (drop_bit 1 b AND 1), rex_b := unat (b AND 1)\<rparr>)
      else None)"

lemma prefix_step_frame [frame_simps]:
  "prefix_step b c = Some c' \<Longrightarrow> code c' = code c \<and> ptr c' = ptr c \<and> c_rip c' = c_rip c"
  by (auto simp: prefix_step_def split: if_splits)

function parse_prefixes :: "DecodeCtx \<Rightarrow> DecodeCtx" where
  "parse_prefixes c =
     (if ptr c < length (code c) then
        (case prefix_step (code c ! ptr c) c of
           Some c' \<Rightarrow> parse_prefixes (c'\<lparr>ptr := ptr c + 1\<rparr>)
         | None \<Rightarrow> c)
      else c)"
  by auto

termination
  by (relation "measure (\<lambda>c. length (code c) - ptr c)") (auto dest: prefix_step_frame)

declare parse_prefixes.simps [simp del]

subsection \<open>One-byte opcodes\<close>

text \<open>
  One definition per group of the opcode switch, in the order of the source.  Each takes the
  context behind the opcode byte, the effective operand size, the opcode and the instruction
  filled so far.
\<close>

definition set_ops :: "WGInstruction \<Rightarrow> WGOpcode \<Rightarrow> WGOperand list \<Rightarrow> WGInstruction" where
  "set_ops out oc ops = out\<lparr>opcode := oc,
     operands := ops @ drop (length ops) (operands out), num_operands := length ops\<rparr>"

definition alu_ops :: "WGOpcode list" where
  "alu_ops = [WG_OP_ADD, WG_OP_OR, WG_OP_ADC, WG_OP_SBB, WG_OP_AND, WG_OP_SUB, WG_OP_XOR, WG_OP_CMP]"

definition shift_ops :: "WGOpcode list" where
  "shift_ops = [WG_OP_ROL, WG_OP_ROR, WG_OP_UNKNOWN, WG_OP_UNKNOWN,
                WG_OP_SHL, WG_OP_SHR, WG_OP_SHL, WG_OP_SAR]"

definition decode_90 :: "DecodeCtx \<Rightarrow> nat \<Rightarrow> WGInstruction \<Rightarrow> (WGInstruction \<times> DecodeCtx) option" where
  "decode_90 c op_sz out =
     (if \<not> rex_present c then Some (out\<lparr>opcode := WG_OP_NOP\<rparr>, c)
      else Some (set_ops out WG_OP_XCHG [reg_operand (0 OR rex_b c) op_sz, reg_operand 0 op_sz], c))"

text \<open>The pattern \<open>op r/m, r\<close> and its mirror \<open>op r, r/m\<close>.\<close>

definition decode_rm_r ::
    "DecodeCtx \<Rightarrow> nat \<Rightarrow> WGOpcode \<Rightarrow> WGInstruction \<Rightarrow> (WGInstruction \<times> DecodeCtx) option" where
  "decode_rm_r c sz oc out = do {
     (rm, reg, c) \<leftarrow> decode_modrm c sz;
     Some (set_ops out oc [rm, reg], c) }"

definition decode_r_rm ::
    "DecodeCtx \<Rightarrow> nat \<Rightarrow> WGOpcode \<Rightarrow> WGInstruction \<Rightarrow> (WGInstruction \<times> DecodeCtx) option" where
  "decode_r_rm c sz oc out = do {
     (rm, reg, c) \<leftarrow> decode_modrm c sz;
     Some (set_ops out oc [reg, rm], c) }"

definition decode_mov ::
    "DecodeCtx \<Rightarrow> nat \<Rightarrow> u8 \<Rightarrow> WGInstruction \<Rightarrow> (WGInstruction \<times> DecodeCtx) option" where
  "decode_mov c op_sz b out =
     (if b = 0x88 \<or> b = 0x89 then decode_rm_r c (if b = 0x88 then 1 else op_sz) WG_OP_MOV out
      else if b = 0x8A \<or> b = 0x8B then decode_r_rm c (if b = 0x8A then 1 else op_sz) WG_OP_MOV out
      else if 0xB0 \<le> b \<and> b \<le> 0xB7 then
        let (v, c) = fetch_imm8 c
        in Some (set_ops out WG_OP_MOV
             [reg_operand (rex_reg (unat (b - 0xB0)) (rex_b c)) 1, imm_operand v 1], c)
      else if 0xB8 \<le> b \<and> b \<le> 0xBF then
        let reg = rex_reg (unat (b - 0xB8)) (rex_b c);
            (im, c) = (if rex_w c \<noteq> 0
               then let (v, c) = fetch64 c in (imm_operand v 8, c)
               else let (v, c) = fetch_simm32 c in (imm_operand v op_sz, c))
        in Some (set_ops out WG_OP_MOV [reg_operand reg op_sz, im], c)
      else \<comment> \<open>\<open>C6\<close>, \<open>C7\<close>\<close>
        let sz = (if b = 0xC6 then 1 else op_sz)
        in do {
          (rm, _, c) \<leftarrow> decode_modrm c sz;
          let (im, c) = (if sz = 1 then let (v, c) = fetch_simm8 c in (imm_operand v 1, c)
                         else let (v, c) = fetch_simm32 c in (imm_operand v sz, c));
          Some (set_ops out WG_OP_MOV [rm, im], c) })"

definition decode_group1 ::
    "DecodeCtx \<Rightarrow> nat \<Rightarrow> u8 \<Rightarrow> WGInstruction \<Rightarrow> (WGInstruction \<times> DecodeCtx) option" where
  "decode_group1 c op_sz b out =
     (let sz = (if b = 0x80 \<or> b = 0x82 then 1 else op_sz)
      in do {
        (rm, reg_op, c) \<leftarrow> decode_modrm c sz;
        let grp = reg_index reg_op AND 7;
        let (im, c) =
          (if b = 0x83 then let (v, c) = fetch_simm8 c in (imm_operand v sz, c)
           else if sz = 1 then let (v, c) = fetch_simm8 c in (imm_operand v 1, c)
           else let (v, c) = fetch_simm32 c in (imm_operand v sz, c));
        Some (set_ops out (alu_ops ! grp) [rm, im], c) })"

definition decode_alu ::
    "DecodeCtx \<Rightarrow> nat \<Rightarrow> u8 \<Rightarrow> WGInstruction \<Rightarrow> (WGInstruction \<times> DecodeCtx) option" where
  "decode_alu c op_sz b out =
     (let grp = unat (drop_bit 3 b AND 7);
          sub = b AND 7;
          oc = alu_ops ! grp
      in if sub \<le> 1 then decode_rm_r c (if sub = 0 then 1 else op_sz) oc out
         else if sub \<le> 3 then decode_r_rm c (if sub = 2 then 1 else op_sz) oc out
         else if sub = 4 then
           let (v, c) = fetch_simm8 c
           in Some (set_ops out oc [reg_operand 0 1, imm_operand v 1], c)
         else
           let (v, c) = fetch_simm32 c
           in Some (set_ops out oc [reg_operand 0 op_sz, imm_operand v op_sz], c))"

definition decode_test ::
    "DecodeCtx \<Rightarrow> nat \<Rightarrow> u8 \<Rightarrow> WGInstruction \<Rightarrow> (WGInstruction \<times> DecodeCtx) option" where
  "decode_test c op_sz b out =
     (if b = 0x84 \<or> b = 0x85 then decode_rm_r c (if b = 0x84 then 1 else op_sz) WG_OP_TEST out
      else if b = 0xA8 then
        let (v, c) = fetch_imm8 c
        in Some (set_ops out WG_OP_TEST [reg_operand 0 1, imm_operand v 1], c)
      else \<comment> \<open>\<open>A9\<close>\<close>
        let (v, c) = fetch_simm32 c
        in Some (set_ops out WG_OP_TEST [reg_operand 0 op_sz, imm_operand v op_sz], c))"

definition decode_stack ::
    "DecodeCtx \<Rightarrow> u8 \<Rightarrow> WGInstruction \<Rightarrow> (WGInstruction \<times> DecodeCtx) option" where
  "decode_stack c b out =
     (if 0x50 \<le> b \<and> b \<le> 0x57 then
        Some (set_ops out WG_OP_PUSH [reg_operand (rex_reg (unat (b - 0x50)) (rex_b c)) 8], c)
      else if 0x58 \<le> b \<and> b \<le> 0x5F then
        Some (set_ops out WG_OP_POP [reg_operand (rex_reg (unat (b - 0x58)) (rex_b c)) 8], c)
      else if b = 0x6A then
        let (v, c) = fetch_simm8 c in Some (set_ops out WG_OP_PUSH [imm_operand v 8], c)
      else \<comment> \<open>\<open>68\<close>\<close>
        let (v, c) = fetch_simm32 c in Some (set_ops out WG_OP_PUSH [imm_operand v 8], c))"

definition decode_branch ::
    "DecodeCtx \<Rightarrow> u8 \<Rightarrow> WGInstruction \<Rightarrow> (WGInstruction \<times> DecodeCtx) option" where
  "decode_branch c b out =
     (if 0x70 \<le> b \<and> b \<le> 0x7F then
        let (rel, c) = fetch_simm8 c
        in Some ((set_ops out WG_OP_JCC [rel_operand (next_addr c + rel)])
                   \<lparr>condition := b - 0x70\<rparr>, c)
      else if b = 0xEB then
        let (rel, c) = fetch_simm8 c
        in Some (set_ops out WG_OP_JMP [rel_operand (next_addr c + rel)], c)
      else if b = 0xE9 then
        let (rel, c) = fetch_simm32 c
        in Some (set_ops out WG_OP_JMP [rel_operand (next_addr c + rel)], c)
      else if b = 0xE8 then
        let (rel, c) = fetch_simm32 c
        in Some (set_ops out WG_OP_CALL [rel_operand (next_addr c + rel)], c)
      else if b = 0xC3 then Some (set_ops out WG_OP_RET [], c)
      else if b = 0xC2 then
        let (v, c) = fetch16 c in Some (set_ops out WG_OP_RET [imm_operand (ucast v) 2], c)
      else \<comment> \<open>\<open>C9\<close>\<close> Some (out\<lparr>opcode := WG_OP_LEAVE\<rparr>, c))"

definition decode_group_ff ::
    "DecodeCtx \<Rightarrow> nat \<Rightarrow> WGInstruction \<Rightarrow> (WGInstruction \<times> DecodeCtx) option" where
  "decode_group_ff c op_sz out = do {
     (rm, reg_op, c) \<leftarrow> decode_modrm c op_sz;
     let rm8 = rm\<lparr>o_size := 8\<rparr>;
     let g = reg_index reg_op AND 7;
     Some (if g = 0 then set_ops out WG_OP_INC [rm]
           else if g = 1 then set_ops out WG_OP_DEC [rm]
           else if g = 2 then set_ops out WG_OP_CALL [rm8]
           else if g = 4 then set_ops out WG_OP_JMP [rm8]
           else if g = 6 then set_ops out WG_OP_PUSH [rm8]
           else set_ops out WG_OP_UNKNOWN [rm], c) }"

definition decode_group_f6 ::
    "DecodeCtx \<Rightarrow> nat \<Rightarrow> u8 \<Rightarrow> WGInstruction \<Rightarrow> (WGInstruction \<times> DecodeCtx) option" where
  "decode_group_f6 c op_sz b out =
     (let sz = (if b = 0xF6 then 1 else op_sz)
      in do {
        (rm, reg_op, c) \<leftarrow> decode_modrm c sz;
        let g = reg_index reg_op AND 7;
        if g = 0 \<or> g = 1 then
          let (im, c) = (if sz = 1 then let (v, c) = fetch_imm8 c in (imm_operand v 1, c)
                         else let (v, c) = fetch_simm32 c in (imm_operand v sz, c))
          in Some (set_ops out WG_OP_TEST [rm, im], c)
        else
          Some (set_ops out
            (if g = 2 then WG_OP_NOT else if g = 3 then WG_OP_NEG else if g = 4 then WG_OP_MUL
             else if g = 5 then WG_OP_IMUL else if g = 6 then WG_OP_DIV else WG_OP_IDIV) [rm], c) })"

definition decode_shift ::
    "DecodeCtx \<Rightarrow> nat \<Rightarrow> u8 \<Rightarrow> WGInstruction \<Rightarrow> (WGInstruction \<times> DecodeCtx) option" where
  "decode_shift c op_sz b out =
     (let sz = (if b = 0xC0 \<or> b = 0xD0 \<or> b = 0xD2 then 1 else op_sz)
      in do {
        (rm, reg_op, c) \<leftarrow> decode_modrm c sz;
        let oc = shift_ops ! (reg_index reg_op AND 7);
        let (cnt, c) =
          (if b = 0xC0 \<or> b = 0xC1 then let (v, c) = fetch_imm8 c in (imm_operand v 1, c)
           else if b = 0xD0 \<or> b = 0xD1 then (imm_operand 1 1, c)
           else (reg_operand 1 1, c));
        Some (set_ops out oc [rm, cnt], c) })"

definition decode_xchg ::
    "DecodeCtx \<Rightarrow> nat \<Rightarrow> u8 \<Rightarrow> WGInstruction \<Rightarrow> (WGInstruction \<times> DecodeCtx) option" where
  "decode_xchg c op_sz b out =
     Some (set_ops out WG_OP_XCHG
       [reg_operand (rex_reg (unat (b - 0x90)) (rex_b c)) op_sz, reg_operand 0 op_sz], c)"

text \<open>\<open>98\<close>, \<open>99\<close>, \<open>CD\<close>, \<open>CC\<close>, \<open>F4\<close>, the flag instructions and the string instructions.\<close>

definition decode_misc ::
    "DecodeCtx \<Rightarrow> u8 \<Rightarrow> WGInstruction \<Rightarrow> (WGInstruction \<times> DecodeCtx) option" where
  "decode_misc c b out =
     (if b = 0x98 then
        Some (out\<lparr>opcode := if rex_w c \<noteq> 0 then WG_OP_CDQE else if has_66 c then WG_OP_CBW else WG_OP_CWDE\<rparr>, c)
      else if b = 0x99 then
        Some (out\<lparr>opcode := if rex_w c \<noteq> 0 then WG_OP_CQO else WG_OP_CDQ\<rparr>, c)
      else if b = 0xCD then
        let (v, c) = fetch_imm8 c in Some (set_ops out WG_OP_INT [imm_operand v 1], c)
      else if b = 0xCC then Some (set_ops out WG_OP_INT [imm_operand 3 1], c)
      else if b = 0xF4 then Some (out\<lparr>opcode := WG_OP_HLT\<rparr>, c)
      else if b = 0xF8 then Some (out\<lparr>opcode := WG_OP_CLC\<rparr>, c)
      else if b = 0xF9 then Some (out\<lparr>opcode := WG_OP_STC\<rparr>, c)
      else if b = 0xF5 then Some (out\<lparr>opcode := WG_OP_CMC\<rparr>, c)
      else if b = 0xFC then Some (out\<lparr>opcode := WG_OP_CLD\<rparr>, c)
      else if b = 0xFD then Some (out\<lparr>opcode := WG_OP_STD\<rparr>, c)
      else if b = 0xA4 then Some (out\<lparr>opcode := WG_OP_MOVSB\<rparr>, c)
      else if b = 0xA5 then
        Some (out\<lparr>opcode := if rex_w c \<noteq> 0 then WG_OP_MOVSQ else if has_66 c then WG_OP_MOVSW else WG_OP_MOVSD_STR\<rparr>, c)
      else if b = 0xAA then Some (out\<lparr>opcode := WG_OP_STOSB\<rparr>, c)
      else \<comment> \<open>\<open>AB\<close>\<close>
        Some (out\<lparr>opcode := if rex_w c \<noteq> 0 then WG_OP_STOSQ else if has_66 c then WG_OP_STOSW else WG_OP_STOSD\<rparr>, c))"

definition decode_imul3 ::
    "DecodeCtx \<Rightarrow> nat \<Rightarrow> u8 \<Rightarrow> WGInstruction \<Rightarrow> (WGInstruction \<times> DecodeCtx) option" where
  "decode_imul3 c op_sz b out = do {
     (rm, reg, c) \<leftarrow> decode_modrm c op_sz;
     let (v, c) = (if b = 0x6B then fetch_simm8 c else fetch_simm32 c);
     Some (set_ops out WG_OP_IMUL [reg, rm, imm_operand v op_sz], c) }"

subsection \<open>Two-byte opcodes\<close>

definition decode_0f_cc ::
    "DecodeCtx \<Rightarrow> nat \<Rightarrow> u8 \<Rightarrow> WGInstruction \<Rightarrow> (WGInstruction \<times> DecodeCtx) option" where
  "decode_0f_cc c op_sz op2 out =
     (if 0x80 \<le> op2 \<and> op2 \<le> 0x8F then
        let (rel, c) = fetch_simm32 c
        in Some ((set_ops out WG_OP_JCC [rel_operand (next_addr c + rel)])
                   \<lparr>condition := op2 - 0x80\<rparr>, c)
      else if 0x90 \<le> op2 \<and> op2 \<le> 0x9F then do {
        (rm, _, c) \<leftarrow> decode_modrm c 1;
        Some ((set_ops out WG_OP_SETCC [rm])\<lparr>condition := op2 - 0x90\<rparr>, c) }
      else \<comment> \<open>\<open>40\<close>--\<open>4F\<close>\<close> do {
        (insn, c) \<leftarrow> decode_r_rm c op_sz WG_OP_CMOVCC out;
        Some (insn\<lparr>condition := op2 - 0x40\<rparr>, c) })"

definition decode_0f_ext ::
    "DecodeCtx \<Rightarrow> nat \<Rightarrow> WGOpcode \<Rightarrow> nat \<Rightarrow> WGInstruction \<Rightarrow> (WGInstruction \<times> DecodeCtx) option" where
  "decode_0f_ext c op_sz oc src_sz out = do {
     (rm, reg, c) \<leftarrow> decode_modrm c src_sz;
     Some (set_ops out oc [reg\<lparr>o_size := op_sz\<rparr>, rm], c) }"

definition decode_0f ::
    "DecodeCtx \<Rightarrow> nat \<Rightarrow> u8 \<Rightarrow> WGInstruction \<Rightarrow> (WGInstruction \<times> DecodeCtx) option" where
  "decode_0f c op_sz op2 out =
     (if 0x80 \<le> op2 \<and> op2 \<le> 0x9F \<or> 0x40 \<le> op2 \<and> op2 \<le> 0x4F then decode_0f_cc c op_sz op2 out
      else if op2 = 0xB6 \<or> op2 = 0xB7 then decode_0f_ext c op_sz WG_OP_MOVZX (if op2 = 0xB6 then 1 else 2) out
      else if op2 = 0xBE \<or> op2 = 0xBF then decode_0f_ext c op_sz WG_OP_MOVSX (if op2 = 0xBE then 1 else 2) out
      else if op2 = 0xAF then decode_r_rm c op_sz WG_OP_IMUL out
      else if op2 = 0xA2 then Some (out\<lparr>opcode := WG_OP_CPUID\<rparr>, c)
      else if op2 = 0x31 then Some (out\<lparr>opcode := WG_OP_RDTSC\<rparr>, c)
      else if op2 = 0x05 then Some (out\<lparr>opcode := WG_OP_SYSCALL\<rparr>, c)
      else if op2 = 0xBC then decode_r_rm c op_sz WG_OP_BSF out
      else if op2 = 0xBD then decode_r_rm c op_sz WG_OP_BSR out
      else if 0xC8 \<le> op2 \<and> op2 \<le> 0xCF then
        Some (set_ops out WG_OP_BSWAP [reg_operand (rex_reg (unat (op2 - 0xC8)) (rex_b c)) op_sz], c)
      else if op2 = 0x1F then do {
        (rm, _, c) \<leftarrow> decode_modrm c op_sz;
        Some ((set_ops out WG_OP_NOP [rm])\<lparr>num_operands := 0\<rparr>, c) }
      else if op2 = 0x10 then decode_r_rm c 16 WG_OP_MOVUPS out
      else if op2 = 0x11 then decode_rm_r c 16 WG_OP_MOVUPS out
      else if op2 = 0x28 then decode_r_rm c 16 WG_OP_MOVAPS out
      else if op2 = 0x29 then decode_rm_r c 16 WG_OP_MOVAPS out
      else if op2 = 0x57 then decode_r_rm c 16 WG_OP_XORPS out
      else Some (out\<lparr>opcode := WG_OP_UNKNOWN\<rparr>, c))"

subsection \<open>The decoder\<close>

definition decode_opcode ::
    "DecodeCtx \<Rightarrow> nat \<Rightarrow> u8 \<Rightarrow> WGInstruction \<Rightarrow> (WGInstruction \<times> DecodeCtx) option" where
  "decode_opcode c op_sz b out =
     (if b = 0x90 then decode_90 c op_sz out
      else if b \<in> {0x88, 0x89, 0x8A, 0x8B, 0xC6, 0xC7} \<or> 0xB0 \<le> b \<and> b \<le> 0xBF
      then decode_mov c op_sz b out
      else if b \<in> {0x80, 0x81, 0x82, 0x83} then decode_group1 c op_sz b out
      else if b \<le> 0x3D \<and> b AND 7 \<le> 5 then decode_alu c op_sz b out
      else if b \<in> {0x84, 0x85, 0xA8, 0xA9} then decode_test c op_sz b out
      else if 0x50 \<le> b \<and> b \<le> 0x5F \<or> b \<in> {0x6A, 0x68} then decode_stack c b out
      else if b = 0x8D then decode_r_rm c op_sz WG_OP_LEA out
      else if 0x70 \<le> b \<and> b \<le> 0x7F \<or> b \<in> {0xEB, 0xE9, 0xE8, 0xC3, 0xC2, 0xC9}
      then decode_branch c b out
      else if b = 0xFF then decode_group_ff c op_sz out
      else if b \<in> {0xF6, 0xF7} then decode_group_f6 c op_sz b out
      else if b \<in> {0xC0, 0xC1, 0xD0, 0xD1, 0xD2, 0xD3} then decode_shift c op_sz b out
      else if 0x91 \<le> b \<and> b \<le> 0x97 then decode_xchg c op_sz b out
      else if b \<in> {0x98, 0x99, 0xCD, 0xCC, 0xF4, 0xF8, 0xF9, 0xF5, 0xFC, 0xFD, 0xA4, 0xA5, 0xAA, 0xAB}
      then decode_misc c b out
      else if b \<in> {0x69, 0x6B} then decode_imul3 c op_sz b out
      else if b = 0x0F then let (op2, c) = fetch8 c in decode_0f c op_sz op2 out
      else Some (out\<lparr>opcode := WG_OP_UNKNOWN\<rparr>, c))"

definition insn0 :: WGInstruction where
  "insn0 = \<lparr>opcode = WG_OP_UNKNOWN, ilen = 0, operands = [operand0, operand0, operand0],
     num_operands = 0, op_size = 0, addr_size = 0, has_lock = False, has_rep = False,
     has_repne = False, segment_override = -1, condition = 0\<rparr>"

definition ctx0 :: "u8 list \<Rightarrow> u64 \<Rightarrow> DecodeCtx" where
  "ctx0 bytes ip = \<lparr>code = bytes, ptr = 0, c_rip = ip, rex_present = False, rex_w = 0, rex_r = 0,
     rex_x = 0, rex_b = 0, has_66 = False, has_67 = False, has_f2 = False, has_f3 = False,
     c_lock = False, seg_override = -1\<rparr>"

text \<open>The length is 0 when the bytes run out before an opcode.\<close>

definition wg_x86_decode :: "u8 list \<Rightarrow> u64 \<Rightarrow> (nat \<times> WGInstruction) option" where
  "wg_x86_decode bytes ip =
     (if bytes = [] then Some (0, insn0)
      else
        let c = parse_prefixes (ctx0 bytes ip);
            out = insn0\<lparr>has_lock := c_lock c, has_rep := has_f3 c, has_repne := has_f2 c,
                        segment_override := seg_override c,
                        addr_size := if has_67 c then 4 else 8\<rparr>
        in if ptr c \<ge> length (code c) then Some (0, out)
           else
             let op_sz = effective_op_size c;
                 out = out\<lparr>op_size := op_sz\<rparr>;
                 (b, c) = fetch8 c
             in do {
               (out, c) \<leftarrow> decode_opcode c op_sz b out;
               Some (ptr c, out\<lparr>ilen := ptr c\<rparr>) })"

subsection \<open>The cursor stays in the buffer, operands stay in the register file\<close>

text \<open>\<open>adv c c'\<close>: the context moved its cursor forward inside the buffer and did nothing else.\<close>

definition adv :: "DecodeCtx \<Rightarrow> DecodeCtx \<Rightarrow> bool" where
  "adv c c' \<longleftrightarrow> (\<exists>p. c' = c\<lparr>ptr := p\<rparr> \<and> ptr c \<le> p \<and> p \<le> max (ptr c) (length (code c)))"

definition wf_ctx :: "DecodeCtx \<Rightarrow> bool" where
  "wf_ctx c \<longleftrightarrow> rex_r c \<le> 1 \<and> rex_x c \<le> 1 \<and> rex_b c \<le> 1 \<and> ptr c \<le> length (code c)"

lemma adv_refl [simp, intro]: "adv c c"
  by (auto simp: adv_def intro: exI [of _ "ptr c"])

lemma adv_trans [trans]: "adv a b \<Longrightarrow> adv b c \<Longrightarrow> adv a c"
  by (fastforce simp: adv_def max_def split: if_splits)

lemma adv_wf [wf_intros]: "adv c c' \<Longrightarrow> wf_ctx c \<Longrightarrow> wf_ctx c'"
  by (auto simp: adv_def wf_ctx_def max_def split: if_splits)

lemma adv_ptr: "adv c c' \<Longrightarrow> wf_ctx c \<Longrightarrow> ptr c \<le> ptr c' \<and> ptr c' \<le> length (code c) \<and> code c' = code c"
  by (auto simp: adv_def wf_ctx_def)

lemma adv_frame [frame_simps]:
  "adv c c' \<Longrightarrow> rex_w c' = rex_w c" "adv c c' \<Longrightarrow> rex_r c' = rex_r c"
  "adv c c' \<Longrightarrow> rex_b c' = rex_b c" "adv c c' \<Longrightarrow> rex_x c' = rex_x c"
  by (auto simp: adv_def)

lemma fetch_adv:
  "fetch8 c = (v8, c') \<Longrightarrow> adv c c'" "fetch16 c = (v16, c') \<Longrightarrow> adv c c'"
  "fetch32 c = (v32, c') \<Longrightarrow> adv c c'"
  by (auto simp: fetch8_def fetch16_def fetch32_def adv_def split: if_splits
      intro: exI [of _ "ptr c"] exI [of _ "ptr c + 1"] exI [of _ "ptr c + 2"] exI [of _ "ptr c + 4"])

lemma fetch64_adv: "fetch64 c = (v, c') \<Longrightarrow> adv c c'"
  by (auto simp: fetch64_def split: prod.splits dest!: fetch_adv(3) intro: adv_trans)

lemma fetch_imm_adv:
  "fetch_simm32 c = (v, c') \<Longrightarrow> adv c c'" "fetch_simm8 c = (v, c') \<Longrightarrow> adv c c'"
  "fetch_imm8 c = (v, c') \<Longrightarrow> adv c c'"
  by (auto simp: fetch_simm32_def fetch_simm8_def fetch_imm8_def split: prod.splits dest: fetch_adv)

lemmas fetches_adv = fetch_adv fetch64_adv fetch_imm_adv

lemma or_nat_less:
  fixes a b :: nat
  assumes "a < 2 ^ n" and "b < 2 ^ n"
  shows "a OR b < 2 ^ n"
proof -
  have "int a OR int b < 2 ^ n" using assms by (intro OR_upper) simp_all
  then have "int (a OR b) < int (2 ^ n)" by (simp add: of_nat_or_eq)
  then show ?thesis by (simp only: of_nat_less_iff)
qed

lemma rex_reg_less: "field < 8 \<Longrightarrow> rex \<le> 1 \<Longrightarrow> rex_reg field rex < 16"
  using or_nat_less [of field 4 "push_bit 3 rex"]
  by (auto simp: rex_reg_def push_bit_eq_mult)

lemma unat_and_less: "unat (x AND mask n :: u8) < 2 ^ n"
  by (simp add: unsigned_take_bit_eq flip: take_bit_eq_mask)

lemma modrm_less [simp]:
  "MODRM_REG b < 8" "MODRM_RM b < 8" "SIB_INDEX b < 8" "SIB_BASE b < 8"
  using unat_and_less [of "drop_bit 3 b" 3] unat_and_less [of b 3]
  by (simp_all add: MODRM_REG_def MODRM_RM_def SIB_INDEX_def SIB_BASE_def mask_eq_exp_minus_1)

lemma low3_less [simp]: "(n :: nat) AND 7 < 8"
proof -
  have "n AND 7 = take_bit 3 n" by (simp add: take_bit_eq_mask mask_eq_exp_minus_1)
  then show ?thesis using take_bit_nat_less_exp [of 3 n] by simp
qed

lemma opcode_offset:
  "lo \<le> b \<Longrightarrow> unat b \<le> unat lo + k \<Longrightarrow> unat (b - lo :: u8) \<le> k"
  by (simp add: unat_sub word_le_nat_alt)

lemma rex_reg_bound [simp]:
  "field < 8 \<Longrightarrow> rex \<le> Suc 0 \<Longrightarrow> rex_reg field rex < 16"
  "- 2 \<le> int n" "- 1 \<le> int n"
  using rex_reg_less by simp_all

lemma wf_operand_mem_upd:
  "wf_operand op \<Longrightarrow> -1 \<le> i \<Longrightarrow> i < 16 \<Longrightarrow> wf_operand (op\<lparr>mem_index := i, mem_scale := s\<rparr>)"
  "wf_operand op \<Longrightarrow> -2 \<le> i \<Longrightarrow> i < 16 \<Longrightarrow> wf_operand (op\<lparr>mem_base := i\<rparr>)"
  "wf_operand (op\<lparr>mem_disp := d\<rparr>) = wf_operand op"
  "wf_operand op \<Longrightarrow> wf_operand (op\<lparr>o_type := t, mem_base := -1, mem_index := -1, mem_scale := s,
     mem_disp := d, mem_seg := g\<rparr>)"
  "wf_operand op \<Longrightarrow> r < 16 \<Longrightarrow> wf_operand (op\<lparr>o_type := t, reg_index := r\<rparr>)"
  by (simp_all add: wf_operand_def)

lemma decode_sib_wf:
  assumes c: "wf_ctx c" and op: "wf_operand op" and d: "decode_sib c md op = (op', c')"
  shows "adv c c' \<and> wf_operand op'"
proof -
  obtain sib c1 where f: "fetch8 c = (sib, c1)" by fastforce
  obtain v c2 where g: "fetch_simm32 c1 = (v, c2)" by fastforce
  have a: "adv c c1" "adv c1 c2" using f g by (auto dest: fetches_adv)
  have r: "rex_x c1 \<le> 1" "rex_b c1 \<le> 1"
    using c a(1) by (simp_all add: wf_ctx_def adv_frame [OF a(1)])
  define op1 where "op1 = (if rex_reg (SIB_INDEX sib) (rex_x c1) \<noteq> 4
     then op\<lparr>mem_index := int (rex_reg (SIB_INDEX sib) (rex_x c1)),
             mem_scale := push_bit (SIB_SCALE sib) 1\<rparr> else op)"
  have w: "wf_operand op1" using op r by (auto simp: op1_def intro!: wf_operand_mem_upd)
  have "op' \<in> {op1\<lparr>mem_disp := v, mem_base := -1\<rparr>, op1\<lparr>mem_disp := v\<rparr>,
      op1\<lparr>mem_base := int (rex_reg (SIB_BASE sib) (rex_b c1))\<rparr>} \<and> c' \<in> {c1, c2}"
    using d unfolding decode_sib_def f Let_def prod.case g op1_def [symmetric]
    by (auto split: if_splits)
  with w r a adv_trans [OF a] show ?thesis by (auto simp: wf_operand_mem_upd)
qed

lemma decode_modrm_mem_wf:
  assumes c: "wf_ctx c" and op: "wf_operand op" and d: "decode_modrm_mem c op = Some (op', c')"
  shows "adv c c' \<and> wf_operand op'"
proof -
  obtain modrm c1 where f: "fetch8 c = (modrm, c1)" by fastforce
  have a: "adv c c1" using f by (rule fetch_adv)
  have r: "rex_b c1 \<le> 1" and c1: "wf_ctx c1"
    using c adv_wf [OF a] by (simp_all add: wf_ctx_def adv_frame [OF a])
  define op1 where "op1 = op\<lparr>o_type := WG_OPERAND_MEM, mem_base := -1, mem_index := -1, mem_scale := 1,
                       mem_disp := 0, mem_seg := seg_override c1\<rparr>"
  have op1: "wf_operand op1" unfolding op1_def using op by (rule wf_operand_mem_upd)
  define mid where "mid = (if MODRM_RM modrm = 4 then Some (decode_sib c1 (MODRM_MOD modrm) op1)
              else if MODRM_MOD modrm = 0 \<and> MODRM_RM modrm = 5
              then let (disp, c) = fetch_simm32 c1 in do {
                d \<leftarrow> sadd64 (next_addr c) disp;
                Some (op1\<lparr>mem_base := -2, mem_disp := d\<rparr>, c) }
              else Some (op1\<lparr>mem_base := int (rex_reg (MODRM_RM modrm) (rex_b c1))\<rparr>, c1))"
  have mid: "adv c1 c2 \<and> wf_operand op2" if "mid = Some (op2, c2)" for op2 c2
    using that decode_sib_wf [OF c1 op1] op1 r unfolding mid_def
    by (auto simp: wf_operand_mem_upd split: if_splits prod.splits bind_splits dest: fetches_adv)
  show ?thesis
  proof (cases "MODRM_MOD modrm = 3")
    case True
    with d f a op r show ?thesis
      by (auto simp: decode_modrm_mem_def rex_reg_less intro!: wf_operand_mem_upd)
  next
    case False
    with d obtain op2 c2 where m: "mid = Some (op2, c2)"
      and e: "(op', c') = (if MODRM_MOD modrm = 1 then let (d, c) = fetch_simm8 c2 in (op2\<lparr>mem_disp := d\<rparr>, c)
                 else if MODRM_MOD modrm = 2 then let (d, c) = fetch_simm32 c2 in (op2\<lparr>mem_disp := d\<rparr>, c)
                 else (op2, c2))"
      unfolding decode_modrm_mem_def f Let_def prod.case op1_def [symmetric] mid_def
      by (auto split: bind_splits)
    have "adv c2 c' \<and> wf_operand op'"
      using e mid [OF m] by (auto simp: wf_operand_mem_upd split: if_splits prod.splits dest: fetches_adv)
    with mid [OF m] a show ?thesis by (meson adv_trans)
  qed
qed

lemma decode_modrm_wf:
  assumes c: "wf_ctx c" and sz: "sz \<in> {1, 2, 4, 8, 16}" and d: "decode_modrm c sz = Some (rm, reg, c')"
  shows "adv c c'" and "wf_operand rm" and "wf_operand reg" and "reg_index reg < 16"
proof -
  have op: "wf_operand (operand0\<lparr>o_size := sz\<rparr>)" using sz by (auto simp: wf_operand_def operand0_def)
  have r: "rex_reg (MODRM_REG (code c ! ptr c)) (rex_r c) < 16"
    using c by (simp add: wf_ctx_def rex_reg_less)
  have "adv c c' \<and> wf_operand rm \<and> wf_operand reg \<and> reg_index reg < 16"
    using d decode_modrm_mem_wf [OF c op] wf_reg_operand [OF r sz] r unfolding decode_modrm_def
    by (auto simp: reg_operand_def operand0_def split: if_splits bind_splits)
  then show "adv c c'" "wf_operand rm" "wf_operand reg" "reg_index reg < 16" by auto
qed

lemma wf_set_ops [wf_intros]:
  "wf_insn out \<Longrightarrow> length ops \<le> 3 \<Longrightarrow> (\<And>op. op \<in> set ops \<Longrightarrow> wf_operand op) \<Longrightarrow> wf_insn (set_ops out oc ops)"
  by (auto simp: wf_insn_def set_ops_def dest: in_set_dropD)

lemma wf_insn_upd [simp]:
  "wf_insn (out\<lparr>opcode := oc\<rparr>) = wf_insn out"
  "wf_insn (out\<lparr>ilen := n\<rparr>) = wf_insn out"
  "wf_insn out \<Longrightarrow> k < 16 \<Longrightarrow> wf_insn (out\<lparr>condition := k\<rparr>)"
  "wf_insn out \<Longrightarrow> wf_insn (out\<lparr>num_operands := 0\<rparr>)"
  by (simp_all add: wf_insn_def)

lemma wf_operand_size [wf_intros]:
  "wf_operand op \<Longrightarrow> sz \<in> {1, 2, 4, 8, 16} \<Longrightarrow> wf_operand (op\<lparr>o_size := sz\<rparr>)"
  by (simp add: wf_operand_def)

definition dec_ok :: "DecodeCtx \<Rightarrow> (WGInstruction \<times> DecodeCtx) option \<Rightarrow> bool" where
  "dec_ok c r \<longleftrightarrow> (\<forall>i c'. r = Some (i, c') \<longrightarrow> adv c c' \<and> wf_insn i)"

lemma dec_okI: "(\<And>i c'. r = Some (i, c') \<Longrightarrow> adv c c' \<and> wf_insn i) \<Longrightarrow> dec_ok c r"
  by (simp add: dec_ok_def)

lemma dec_ok_Some: "dec_ok c (Some (i, c')) \<longleftrightarrow> adv c c' \<and> wf_insn i"
  by (simp add: dec_ok_def)

text \<open>A group that starts with a ModR/M byte: what is left runs on the operands it produced.\<close>

lemma dec_ok_modrm:
  assumes c: "wf_ctx c" and sz: "sz \<in> {1, 2, 4, 8, 16}"
    and f: "\<And>rm reg c'. adv c c' \<Longrightarrow> wf_ctx c' \<Longrightarrow> wf_operand rm \<Longrightarrow> wf_operand reg \<Longrightarrow>
              dec_ok c' (f rm reg c')"
  shows "dec_ok c (decode_modrm c sz \<bind> (\<lambda>(rm, reg, c'). f rm reg c'))"
proof (rule dec_okI)
  fix i c'
  assume "decode_modrm c sz \<bind> (\<lambda>(rm, reg, c'). f rm reg c') = Some (i, c')"
  then obtain rm reg c1 where d: "decode_modrm c sz = Some (rm, reg, c1)" and e: "f rm reg c1 = Some (i, c')"
    by (auto split: bind_splits)
  note w = decode_modrm_wf [OF c sz d]
  have "adv c1 c' \<and> wf_insn i"
    using f [OF w(1) adv_wf [OF w(1) c] w(2, 3)] e by (simp add: dec_ok_def)
  with w(1) show "adv c c' \<and> wf_insn i" by (blast intro: adv_trans)
qed

text \<open>The same for a fetch of bytes and for the choice of an immediate operand.\<close>

lemma adv_snd [simp]:
  "adv c (snd (fetch8 c))" "adv c (snd (fetch16 c))" "adv c (snd (fetch64 c))"
  "adv c (snd (fetch_simm32 c))" "adv c (snd (fetch_simm8 c))" "adv c (snd (fetch_imm8 c))"
  by (metis prod.collapse fetches_adv)+

lemma adv_snd_if: "adv c (snd x) \<Longrightarrow> adv c (snd y) \<Longrightarrow> adv c (snd (if P then x else y))"
  and wf_insn_if: "wf_insn i \<Longrightarrow> wf_insn j \<Longrightarrow> wf_insn (if P then i else j)"
  by simp_all

lemma dec_ok_fetch:
  assumes "wf_ctx c" and a: "adv c (snd x)"
    and f: "\<And>v c'. adv c c' \<Longrightarrow> wf_ctx c' \<Longrightarrow> dec_ok c' (f v c')"
  shows "dec_ok c (case x of (v, c') \<Rightarrow> f v c')"
proof (cases x)
  case (Pair v c')
  with assms have "dec_ok c' (f v c')" by (auto intro: adv_wf)
  with a Pair show ?thesis by (auto simp: dec_ok_def intro: adv_trans)
qed

definition imm_ok :: "DecodeCtx \<Rightarrow> WGOperand \<times> DecodeCtx \<Rightarrow> bool" where
  "imm_ok c x \<longleftrightarrow> adv c (snd x) \<and> wf_operand (fst x)"

lemma imm_ok_fetch:
  "adv c (snd x) \<Longrightarrow> sz \<in> {1, 2, 4, 8, 16} \<Longrightarrow> imm_ok c (case x of (v, c') \<Rightarrow> (imm_operand v sz, c'))"
  by (cases x) (simp add: imm_ok_def wf_imm_operand)

lemma imm_ok_plain: "wf_operand im \<Longrightarrow> imm_ok c (im, c)"
  by (simp add: imm_ok_def)

lemma imm_ok_if: "(P \<Longrightarrow> imm_ok c x) \<Longrightarrow> (\<not> P \<Longrightarrow> imm_ok c y) \<Longrightarrow> imm_ok c (if P then x else y)"
  by simp

lemma dec_ok_imm:
  assumes "wf_ctx c" and a: "imm_ok c x"
    and f: "\<And>im c'. adv c c' \<Longrightarrow> wf_ctx c' \<Longrightarrow> wf_operand im \<Longrightarrow> dec_ok c' (f im c')"
  shows "dec_ok c (case x of (im, c') \<Rightarrow> f im c')"
proof (cases x)
  case (Pair im c')
  with assms have "dec_ok c' (f im c')" by (auto simp: imm_ok_def intro: adv_wf)
  with a Pair show ?thesis by (auto simp: dec_ok_def imm_ok_def intro: adv_trans)
qed

lemma dec_ok_if: "(P \<Longrightarrow> dec_ok c x) \<Longrightarrow> (\<not> P \<Longrightarrow> dec_ok c y) \<Longrightarrow> dec_ok c (if P then x else y)"
  by simp

lemma dec_ok_ret: "wf_insn i \<Longrightarrow> dec_ok c (Some (i, c))"
  by (simp add: dec_ok_Some)

lemma wf_set_ops1: "wf_insn out \<Longrightarrow> wf_operand a \<Longrightarrow> wf_insn (set_ops out oc [a])"
  and wf_set_ops2: "wf_insn out \<Longrightarrow> wf_operand a \<Longrightarrow> wf_operand b \<Longrightarrow> wf_insn (set_ops out oc [a, b])"
  and wf_set_ops3: "wf_insn out \<Longrightarrow> wf_operand a \<Longrightarrow> wf_operand b \<Longrightarrow> wf_operand d \<Longrightarrow>
    wf_insn (set_ops out oc [a, b, d])"
  by (auto intro: wf_set_ops)

lemma decode_rm_r_ok: "wf_ctx c \<Longrightarrow> wf_insn out \<Longrightarrow> sz \<in> {1, 2, 4, 8, 16} \<Longrightarrow> dec_ok c (decode_rm_r c sz oc out)"
  unfolding decode_rm_r_def by (rule dec_ok_modrm) (auto simp: dec_ok_Some intro: wf_set_ops)

lemma decode_r_rm_ok: "wf_ctx c \<Longrightarrow> wf_insn out \<Longrightarrow> sz \<in> {1, 2, 4, 8, 16} \<Longrightarrow> dec_ok c (decode_r_rm c sz oc out)"
  unfolding decode_r_rm_def by (rule dec_ok_modrm) (auto simp: dec_ok_Some intro: wf_set_ops)

lemma opcode_reg_less:
  assumes "wf_ctx c" and "lo \<le> b \<and> b \<le> hi" and "unat hi = unat lo + 7"
  shows "rex_reg (unat (b - lo :: u8)) (rex_b c) < 16"
  using assms opcode_offset [of lo b 7] by (intro rex_reg_less) (auto simp: wf_ctx_def word_le_nat_alt)

lemma condition_less:
  assumes "lo \<le> b \<and> b \<le> hi" and "unat hi = unat lo + 15"
  shows "b - lo < (16 :: u8)"
  using assms opcode_offset [of lo b 15] by (auto simp: word_le_nat_alt word_less_nat_alt)

lemmas reg_ranges = opcode_reg_less [where lo = "0xB0" and hi = "0xB7"]
  opcode_reg_less [where lo = "0xB8" and hi = "0xBF"] opcode_reg_less [where lo = "0x50" and hi = "0x57"]
  opcode_reg_less [where lo = "0x58" and hi = "0x5F"] opcode_reg_less [where lo = "0xC8" and hi = "0xCF"]

lemma op_sizes:
  assumes "sz \<in> {2, 4, 8}"
  shows "(if P then 1 else sz) \<in> {1, 2, 4, 8, 16 :: nat}" "sz \<in> {1, 2, 4, 8, 16 :: nat}"
  using assms by auto

lemma fixed_sizes:
  "(1 :: nat) \<in> {1, 2, 4, 8, 16}" "(8 :: nat) \<in> {1, 2, 4, 8, 16}" "(16 :: nat) \<in> {1, 2, 4, 8, 16}"
  "(2 :: nat) \<in> {1, 2, 4, 8, 16}" "(if P then 1 else 2) \<in> {1, 2, 4, 8, 16 :: nat}"
  by auto

lemma one_less_numeral: "1 < (16 :: nat)"
  by simp

lemmas dec_intros = dec_ok_if decode_rm_r_ok decode_r_rm_ok dec_ok_ret dec_ok_modrm
  dec_ok_imm imm_ok_if imm_ok_fetch imm_ok_plain dec_ok_fetch wf_set_ops1 wf_set_ops2 wf_set_ops3
  wf_imm_operand wf_reg_operand wf_rel_operand wf_operand_size adv_snd adv_snd_if wf_insn_if
  zero_less_numeral one_less_numeral

lemmas group_defs = decode_mov_def decode_group1_def decode_alu_def decode_test_def decode_stack_def
  decode_group_ff_def decode_group_f6_def decode_shift_def decode_imul3_def decode_0f_ext_def

lemma decode_groups_ok:
  assumes c: "wf_ctx c" and out: "wf_insn out" and sz: "op_sz \<in> {2, 4, 8}"
  shows "dec_ok c (decode_mov c op_sz b out)" "dec_ok c (decode_group1 c op_sz b out)"
    "dec_ok c (decode_alu c op_sz b out)" "dec_ok c (decode_test c op_sz b out)"
    "dec_ok c (decode_stack c b out)" "dec_ok c (decode_group_ff c op_sz out)"
    "dec_ok c (decode_group_f6 c op_sz b out)" "dec_ok c (decode_shift c op_sz b out)"
    "dec_ok c (decode_imul3 c op_sz b out)"
    "src_sz \<in> {1, 2, 4, 8, 16} \<Longrightarrow> dec_ok c (decode_0f_ext c op_sz oc src_sz out)"
  unfolding group_defs Let_def
  by (insert c out) (intro dec_intros;
    (assumption | rule op_sizes, rule sz | rule fixed_sizes | rule reg_ranges; simp)?)+

lemmas condition_ranges = condition_less [where lo = "0x70" and hi = "0x7F"]
  condition_less [where lo = "0x80" and hi = "0x8F"] condition_less [where lo = "0x90" and hi = "0x9F"]
  condition_less [where lo = "0x40" and hi = "0x4F"]

lemma wf_insn_cond: "wf_insn i \<Longrightarrow> k < 16 \<Longrightarrow> wf_insn (i\<lparr>condition := k\<rparr>)"
  and wf_insn_opc: "wf_insn i \<Longrightarrow> wf_insn (i\<lparr>opcode := oc\<rparr>)"
  and wf_insn_num: "wf_insn i \<Longrightarrow> wf_insn (i\<lparr>num_operands := 0\<rparr>)"
  and wf_set_ops0: "wf_insn i \<Longrightarrow> wf_insn (set_ops i oc [])"
  by (simp_all add: wf_insn_def set_ops_def)

lemma dec_ok_bind:
  assumes d: "dec_ok c r" and c: "wf_ctx c"
    and f: "\<And>i c'. adv c c' \<Longrightarrow> wf_ctx c' \<Longrightarrow> wf_insn i \<Longrightarrow> dec_ok c' (f i c')"
  shows "dec_ok c (r \<bind> (\<lambda>(i, c'). f i c'))"
proof (cases r)
  case None
  then show ?thesis by (simp add: dec_ok_def)
next
  case (Some x)
  obtain i c' where r: "r = Some (i, c')" using Some by (cases x) simp
  with d have a: "adv c c'" and i: "wf_insn i" by (simp_all add: dec_ok_def)
  from f [OF a adv_wf [OF a c] i] r a show ?thesis by (auto simp: dec_ok_def intro: adv_trans)
qed

lemma decode_cond_groups_ok:
  assumes c: "wf_ctx c" and out: "wf_insn out" and sz: "op_sz \<in> {2, 4, 8}"
  shows "dec_ok c (decode_branch c b out)" "dec_ok c (decode_misc c b out)"
    "0x80 \<le> b \<and> b \<le> 0x9F \<or> 0x40 \<le> b \<and> b \<le> 0x4F \<Longrightarrow> dec_ok c (decode_0f_cc c op_sz b out)"
  unfolding decode_branch_def decode_misc_def decode_0f_cc_def Let_def
  by (insert c out) (intro dec_intros dec_ok_bind wf_insn_cond wf_insn_opc wf_set_ops0;
    (assumption | rule op_sizes, rule sz | rule fixed_sizes | rule condition_ranges; auto simp: word_le_nat_alt)?)+

lemma decode_0f_ok:
  assumes c: "wf_ctx c" and out: "wf_insn out" and sz: "op_sz \<in> {2, 4, 8}"
  shows "dec_ok c (decode_0f c op_sz b out)"
  unfolding decode_0f_def
  by (insert c out) (intro dec_intros decode_cond_groups_ok decode_groups_ok wf_insn_num wf_insn_opc;
    (assumption | rule sz | rule op_sizes, rule sz | rule fixed_sizes | rule reg_ranges; simp)?)+

lemma decode_opcode_ok:
  assumes c: "wf_ctx c" and out: "wf_insn out" and sz: "op_sz \<in> {2, 4, 8}"
  shows "dec_ok c (decode_opcode c op_sz b out)"
proof -
  have r: "rex_reg (unat (b - 0x90)) (rex_b c) < 16" if "0x91 \<le> b \<and> b \<le> 0x97"
    using that c by (intro opcode_reg_less [where hi = "0x97"]) (auto simp: word_le_nat_alt)
  have r0: "0 OR rex_b c < 16" using c by (simp add: wf_ctx_def)
  have x: "0x91 \<le> b \<and> b \<le> 0x97 \<Longrightarrow> dec_ok c (decode_xchg c op_sz b out)"
    and n: "dec_ok c (decode_90 c op_sz out)"
    unfolding decode_xchg_def decode_90_def
    by (insert c out) (intro dec_intros wf_insn_opc; (assumption | rule op_sizes, rule sz | rule r0 | rule r, assumption)?)+
  show ?thesis
    unfolding decode_opcode_def Let_def
    by (insert c out) (intro dec_ok_if dec_ok_fetch dec_ok_ret wf_insn_opc decode_0f_ok decode_groups_ok
      decode_cond_groups_ok decode_r_rm_ok x n adv_snd; (assumption | rule sz | rule op_sizes, rule sz)?)
qed

subsection \<open>The prefix scan\<close>

definition is_prefix :: "u8 \<Rightarrow> bool" where
  "is_prefix b \<longleftrightarrow> b \<in> {0xF0, 0xF2, 0xF3, 0x66, 0x67, 0x26, 0x2E, 0x36, 0x3E, 0x64, 0x65}
     \<or> 0x40 \<le> b \<and> b \<le> 0x4F"

lemma prefix_step_None: "prefix_step b c = None \<longleftrightarrow> \<not> is_prefix b"
  by (simp add: prefix_step_def is_prefix_def)

lemma unat_and_one: "unat (b AND 1 :: u8) \<le> Suc 0"
  using unat_and_less [of b 1] by (simp add: mask_eq_exp_minus_1)

lemma prefix_step_wf: "prefix_step b c = Some c' \<Longrightarrow> wf_ctx c \<Longrightarrow> wf_ctx c'"
  by (auto simp: prefix_step_def wf_ctx_def unat_and_one split: if_splits)

lemma parse_prefixes_spec:
  "wf_ctx c \<Longrightarrow> wf_ctx (parse_prefixes c) \<and> code (parse_prefixes c) = code c
     \<and> c_rip (parse_prefixes c) = c_rip c
     \<and> ptr (parse_prefixes c) = ptr c + length (takeWhile is_prefix (drop (ptr c) (code c)))"
proof (induction c rule: parse_prefixes.induct)
  case (1 c)
  show ?case
  proof (cases "ptr c < length (code c)")
    case False
    with 1 show ?thesis by (simp add: parse_prefixes.simps [of c])
  next
    case True
    then have d: "drop (ptr c) (code c) = code c ! ptr c # drop (Suc (ptr c)) (code c)"
      by (simp add: Cons_nth_drop_Suc)
    show ?thesis
    proof (cases "prefix_step (code c ! ptr c) c")
      case None
      then have "\<not> is_prefix (code c ! ptr c)" by (simp add: prefix_step_None)
      with None True d 1 show ?thesis by (simp add: parse_prefixes.simps [of c])
    next
      case (Some c')
      have w: "wf_ctx (c'\<lparr>ptr := ptr c + 1\<rparr>)"
        using prefix_step_wf [OF Some 1(2)] prefix_step_frame [OF Some] True by (simp add: wf_ctx_def)
      have p: "is_prefix (code c ! ptr c)" using Some prefix_step_None [of _ c] by force
      show ?thesis
        using 1(1) [OF True Some w] Some True d p prefix_step_frame [OF Some]
        by (simp add: parse_prefixes.simps [of c])
    qed
  qed
qed

definition prefix_len :: "u8 list \<Rightarrow> nat" where
  "prefix_len bytes = length (takeWhile is_prefix bytes)"

lemma parse_prefixes_ctx0:
  "wf_ctx (parse_prefixes (ctx0 bytes ip))" "code (parse_prefixes (ctx0 bytes ip)) = bytes"
  "c_rip (parse_prefixes (ctx0 bytes ip)) = ip" "ptr (parse_prefixes (ctx0 bytes ip)) = prefix_len bytes"
  using parse_prefixes_spec [of "ctx0 bytes ip"] by (simp_all add: ctx0_def wf_ctx_def prefix_len_def length_takeWhile_le)

lemma prefix_len_all: "prefix_len bytes \<ge> length bytes \<longleftrightarrow> (\<forall>b \<in> set bytes. is_prefix b)"
  by (metis length_takeWhile_le order_antisym prefix_len_def takeWhile_eq_all_conv
      takeWhile_eq_take take_all_iff order_refl)

lemma effective_op_size_values: "effective_op_size c \<in> {2, 4, 8}"
  by (simp add: effective_op_size_def)

lemmas decode_eval = wg_x86_decode_def ctx0_def parse_prefixes.simps prefix_step_def fetch8_def
  effective_op_size_def Let_def decode_opcode_def group_defs decode_rm_r_def decode_r_rm_def
  decode_modrm_def decode_modrm_mem_def decode_sib_def MODRM_MOD_def MODRM_REG_def MODRM_RM_def
  SIB_SCALE_def SIB_INDEX_def SIB_BASE_def rex_reg_def fetch_simm32_def fetch_simm8_def fetch_imm8_def
  fetch16_def fetch32_def fetch64_def insn0_def operand0_def reg_operand_def imm_operand_def
  rel_operand_def set_ops_def alu_ops_def shift_ops_def next_addr_def decode_branch_def
  decode_misc_def decode_xchg_def decode_90_def decode_0f_def decode_0f_cc_def

subsection \<open>A reference encoder\<close>

text \<open>
  Ten 64-bit instruction forms with their machine code, written from the encoding rules
  (REX.W, ModR/M with \<open>mod = 3\<close>, little-endian immediates), as the reference the decoder is
  checked against.
\<close>

datatype asm =
    Mov_ri nat u64 | Mov_rr nat nat | Alu_rr nat nat nat | Alu_ri nat nat u32
  | Push_r nat | Pop_r nat | Jmp_rel u32 | Call_rel u32 | Jcc_rel nat u32 | Ret_near

definition rexw :: "nat \<Rightarrow> nat \<Rightarrow> u8" where
  "rexw reg rm = of_nat (0x48 + 4 * (reg div 8) + rm div 8)"

definition modrm_rr :: "nat \<Rightarrow> nat \<Rightarrow> u8" where
  "modrm_rr reg rm = of_nat (0xC0 + 8 * (reg mod 8) + rm mod 8)"

fun encode :: "asm \<Rightarrow> u8 list" where
  "encode (Mov_ri r v) = [rexw 0 r, of_nat (0xB8 + r mod 8)] @ to_le 8 v"
| "encode (Mov_rr d s) = [rexw s d, 0x89, modrm_rr s d]"
| "encode (Alu_rr g d s) = [rexw s d, of_nat (8 * g + 1), modrm_rr s d]"
| "encode (Alu_ri g d v) = [rexw 0 d, 0x81, modrm_rr g d] @ to_le 4 v"
| "encode (Push_r r) = [rexw 0 r, of_nat (0x50 + r mod 8)]"
| "encode (Pop_r r) = [rexw 0 r, of_nat (0x58 + r mod 8)]"
| "encode (Jmp_rel v) = 0xE9 # to_le 4 v"
| "encode (Call_rel v) = 0xE8 # to_le 4 v"
| "encode (Jcc_rel cc v) = [0x0F, of_nat (0x80 + cc)] @ to_le 4 v"
| "encode Ret_near = [0xC3]"

fun asm_ok :: "asm \<Rightarrow> bool" where
  "asm_ok (Mov_ri r v) = (r < 16)"
| "asm_ok (Mov_rr d s) = (d < 16 \<and> s < 16)"
| "asm_ok (Alu_rr g d s) = (g < 8 \<and> d < 16 \<and> s < 16)"
| "asm_ok (Alu_ri g d v) = (g < 8 \<and> d < 16)"
| "asm_ok (Push_r r) = (r < 16)"
| "asm_ok (Pop_r r) = (r < 16)"
| "asm_ok (Jcc_rel cc v) = (cc < 16)"
| "asm_ok _ = True"

fun asm_insn :: "u64 \<Rightarrow> asm \<Rightarrow> WGOpcode \<times> WGOperand list \<times> u8 \<times> nat" where
  "asm_insn ip (Mov_ri r v) = (WG_OP_MOV, [reg_operand r 8, imm_operand v 8], 0, 8)"
| "asm_insn ip (Mov_rr d s) = (WG_OP_MOV, [reg_operand d 8, reg_operand s 8], 0, 8)"
| "asm_insn ip (Alu_rr g d s) = (alu_ops ! g, [reg_operand d 8, reg_operand s 8], 0, 8)"
| "asm_insn ip (Alu_ri g d v) = (alu_ops ! g, [reg_operand d 8, imm_operand (scast v) 8], 0, 8)"
| "asm_insn ip (Push_r r) = (WG_OP_PUSH, [reg_operand r 8], 0, 8)"
| "asm_insn ip (Pop_r r) = (WG_OP_POP, [reg_operand r 8], 0, 8)"
| "asm_insn ip (Jmp_rel v) = (WG_OP_JMP, [rel_operand (ip + 5 + scast v)], 0, 4)"
| "asm_insn ip (Call_rel v) = (WG_OP_CALL, [rel_operand (ip + 5 + scast v)], 0, 4)"
| "asm_insn ip (Jcc_rel cc v) = (WG_OP_JCC, [rel_operand (ip + 6 + scast v)], of_nat cc, 4)"
| "asm_insn ip Ret_near = (WG_OP_RET, [], 0, 4)"

definition insn_view :: "WGInstruction \<Rightarrow> WGOpcode \<times> WGOperand list \<times> u8 \<times> nat" where
  "insn_view i = (opcode i, map ((!) (operands i)) [0..<num_operands i], condition i, op_size i)"

text \<open>The bit fields as arithmetic on the byte's value.\<close>

lemma field_arith:
  "MODRM_MOD b = unat b div 64" "MODRM_REG b = unat b div 8 mod 8" "MODRM_RM b = unat b mod 8"
proof -
  have m: "(3 :: u8) = mask 2" "(7 :: u8) = mask 3" by (simp_all add: mask_eq_exp_minus_1)
  have t: "unat (drop_bit k b AND mask n) = unat b div 2 ^ k mod 2 ^ n" for k n
    by (simp add: unsigned_take_bit_eq unsigned_drop_bit_eq take_bit_eq_mod [of n "_ :: nat"]
        drop_bit_eq_div [of k "unat b"] take_bit_nat_eq_self [OF unat_lt8] flip: take_bit_eq_mask)
  show "MODRM_MOD b = unat b div 64" "MODRM_REG b = unat b div 8 mod 8" "MODRM_RM b = unat b mod 8"
    using t [of 6 2] t [of 3 3] t [of 0 3] unat_lt8 [of b]
    by (simp_all add: MODRM_MOD_def MODRM_REG_def MODRM_RM_def m)
qed

lemma rex_reg_add:
  assumes "field < 8" and "rex \<le> 1"
  shows "rex_reg field rex = field + 8 * rex"
proof -
  have "field \<in> {0, 1, 2, 3, 4, 5, 6, 7}" "rex \<in> {0, 1}" using assms by auto
  then show ?thesis by (elim insertE; simp add: rex_reg_def)
qed

text \<open>What a REX.W byte and a register-direct ModR/M byte mean to the decoder.\<close>

lemma unat_of_nat8: "n < 256 \<Longrightarrow> unat (of_nat n :: u8) = n"
  by (simp add: unat_of_nat)

lemma unat_modrm_rr: "unat (modrm_rr reg rm) = 0xC0 + 8 * (reg mod 8) + rm mod 8"
proof -
  have "reg mod 8 < 8" "rm mod 8 < 8" by simp_all
  then show ?thesis
    unfolding modrm_rr_def by (intro unat_of_nat8) linarith
qed

lemma modrm_rr_fields:
  "MODRM_MOD (modrm_rr reg rm) = 3" "MODRM_REG (modrm_rr reg rm) = reg mod 8"
  "MODRM_RM (modrm_rr reg rm) = rm mod 8"
proof -
  have f: "(192 + 8 * a + b) div 64 = 3" "(192 + 8 * a + b) div 8 mod 8 = a" "(192 + 8 * a + b) mod 8 = b"
    if "a < 8" and "b < 8" for a b :: nat
  proof -
    show "(192 + 8 * a + b) div 64 = 3" using that by (intro div_nat_eqI) simp_all
    have d: "(192 + 8 * a + b) div 8 = 24 + a" using that by (intro div_nat_eqI) simp_all
    show "(192 + 8 * a + b) div 8 mod 8 = a" unfolding d using that by presburger
    have "192 + 8 * a + b = b + 8 * (24 + a)" by simp
    then show "(192 + 8 * a + b) mod 8 = b" using that by (simp only: mod_mult_self2 mod_less)
  qed
  show "MODRM_MOD (modrm_rr reg rm) = 3" "MODRM_REG (modrm_rr reg rm) = reg mod 8"
    "MODRM_RM (modrm_rr reg rm) = rm mod 8"
    unfolding field_arith unat_modrm_rr by (rule f; simp)+
qed

definition rexw_ctx :: "u8 list \<Rightarrow> u64 \<Rightarrow> nat \<Rightarrow> nat \<Rightarrow> DecodeCtx" where
  "rexw_ctx bytes ip reg rm = (ctx0 bytes ip)\<lparr>ptr := 1, rex_present := True, rex_w := 1,
     rex_r := reg div 8, rex_x := 0, rex_b := rm div 8\<rparr>"

lemma parse_rexw:
  assumes "reg < 16" and "rm < 16" and "\<not> is_prefix b"
  shows "parse_prefixes (ctx0 (rexw reg rm # b # rest) ip) = rexw_ctx (rexw reg rm # b # rest) ip reg rm"
proof -
  have "reg div 8 \<in> {0, 1}" "rm div 8 \<in> {0, 1}" using assms by auto
  then have "prefix_step (rexw reg rm) c = Some (c\<lparr>rex_present := True, rex_w := 1,
     rex_r := reg div 8, rex_x := 0, rex_b := rm div 8\<rparr>)" for c
    unfolding rexw_def by (elim insertE emptyE; simp add: prefix_step_def)
  then show ?thesis
    using assms(3) prefix_step_None [of b]
    by (simp add: parse_prefixes.simps ctx0_def rexw_ctx_def)
qed

lemma parse_none:
  "\<not> is_prefix b \<Longrightarrow> parse_prefixes (ctx0 (b # rest) ip) = ctx0 (b # rest) ip"
  using prefix_step_None [of b] by (simp add: parse_prefixes.simps ctx0_def)

lemma fetch32_to_le:
  assumes "drop (ptr c) (code c) = to_le 4 (v :: u32) @ rest"
  shows "fetch32 c = (v, c\<lparr>ptr := ptr c + 4\<rparr>)"
proof -
  have "length (drop (ptr c) (code c)) = 4 + length rest" using assms by simp
  then have "ptr c + 4 \<le> length (code c)" by simp
  moreover have "of_le (to_le 4 v) = v" by (rule of_le_to_le) simp
  ultimately show ?thesis using assms by (simp add: fetch32_def del: to_le_numeral)
qed

lemma to_le_split: "to_le (m + n) w = to_le m w @ to_le n (drop_bit (8 * m) w)"
  by (induction m arbitrary: w) (simp_all add: drop_bit_drop_bit ac_simps)

lemma of_le_to_le_ucast: "(of_le (to_le n (w :: 'a::len word)) :: 'b::len word) = ucast (take_bit (8 * n) w)"
proof (induction n arbitrary: w)
  case (Suc n)
  show ?case
    by (rule bit_word_eqI) (auto simp: Suc bit_simps not_less dest: bit_imp_le_length)
qed simp

lemma fetch64_to_le:
  assumes "drop (ptr c) (code c) = to_le 8 (v :: u64) @ rest"
  shows "fetch64 c = (v, c\<lparr>ptr := ptr c + 8\<rparr>)"
proof -
  have len: "length (drop (ptr c) (code c)) = 8 + length rest" using assms by simp
  then have "ptr c + 8 \<le> length (code c)" by simp
  have s: "to_le 8 v = to_le 4 v @ to_le 4 (drop_bit 32 v)" using to_le_split [of 4 4 v] by simp
  have d: "drop (ptr c + 4) (code c) = drop 4 (drop (ptr c) (code c))" by (simp add: add.commute)
  have lo: "take 4 (drop (ptr c) (code c)) = to_le 4 v"
    and hi: "take 4 (drop (ptr c + 4) (code c)) = to_le 4 (drop_bit 32 v)"
    unfolding d unfolding assms s by (simp_all del: to_le_numeral)
  have "(ucast (ucast (take_bit 32 v) :: u32) :: u64)
      OR push_bit 32 (ucast (ucast (take_bit 32 (drop_bit 32 v)) :: u32)) = v"
    by (rule bit_word_eqI) (auto simp: bit_simps)
  with \<open>ptr c + 8 \<le> length (code c)\<close> lo hi show ?thesis
    by (simp add: fetch64_def fetch32_def of_le_to_le_ucast del: to_le_numeral)
qed

lemma decode_modrm_rr:
  assumes "ptr c < length (code c)" and "code c ! ptr c = modrm_rr reg rm"
    and "reg < 16" "rm < 16" "rex_r c = reg div 8" "rex_b c = rm div 8"
  shows "decode_modrm c sz = Some (reg_operand rm sz, reg_operand reg sz, c\<lparr>ptr := ptr c + 1\<rparr>)"
proof -
  have "reg div 8 \<le> 1" "rm div 8 \<le> 1" using assms by auto
  then have r: "rex_reg (reg mod 8) (reg div 8) = reg" "rex_reg (rm mod 8) (rm div 8) = rm"
    using rex_reg_add [of "reg mod 8" "reg div 8"] rex_reg_add [of "rm mod 8" "rm div 8"]
      mod_mult_div_eq [of reg 8] mod_mult_div_eq [of rm 8] by simp_all
  show ?thesis
    using assms by (simp add: decode_modrm_def decode_modrm_mem_def fetch8_def modrm_rr_fields r
        reg_operand_def operand0_def)
qed

definition insn8 :: WGInstruction where
  "insn8 = insn0\<lparr>segment_override := -1, addr_size := 8, op_size := 8\<rparr>"

definition insn4 :: WGInstruction where
  "insn4 = insn0\<lparr>segment_override := -1, addr_size := 8, op_size := 4\<rparr>"

lemma decode_rexw:
  assumes "reg < 16" and "rm < 16" and "\<not> is_prefix b"
  shows "wg_x86_decode (rexw reg rm # b # rest) ip =
    decode_opcode ((rexw_ctx (rexw reg rm # b # rest) ip reg rm)\<lparr>ptr := 2\<rparr>) 8 b insn8
      \<bind> (\<lambda>(out, c). Some (ptr c, out\<lparr>ilen := ptr c\<rparr>))"
  unfolding wg_x86_decode_def Let_def parse_rexw [OF assms]
  by (simp add: rexw_ctx_def ctx0_def fetch8_def effective_op_size_def insn8_def insn0_def numeral_2_eq_2)

lemma decode_plain:
  assumes "\<not> is_prefix b"
  shows "wg_x86_decode (b # rest) ip =
    decode_opcode ((ctx0 (b # rest) ip)\<lparr>ptr := 1\<rparr>) 4 b insn4
      \<bind> (\<lambda>(out, c). Some (ptr c, out\<lparr>ilen := ptr c\<rparr>))"
  unfolding wg_x86_decode_def Let_def parse_none [OF assms]
  by (simp add: ctx0_def fetch8_def effective_op_size_def insn4_def insn0_def)

lemma rex_reg_mod: "r < 16 \<Longrightarrow> rex_reg (r mod 8) (r div 8) = r"
  using rex_reg_add [of "r mod 8" "r div 8"] mod_mult_div_eq [of r 8] by simp

lemma below_8: "(g :: nat) < 8 \<Longrightarrow> g \<in> {0, 1, 2, 3, 4, 5, 6, 7}"
  by auto

lemmas view_defs = insn_view_def set_ops_def insn8_def insn4_def insn0_def

definition decodes :: "u64 \<Rightarrow> u8 list \<Rightarrow> asm \<Rightarrow> bool" where
  "decodes ip rest a \<longleftrightarrow> (\<exists>i. wg_x86_decode (encode a @ rest) ip = Some (length (encode a), i)
     \<and> insn_view i = asm_insn ip a)"

lemma decodes_alu_rr:
  assumes "g < 8" "d < 16" "s < 16"
  shows "decodes ip rest (Alu_rr g d s)"
proof -
  define b :: u8 where "b = of_nat (8 * g + 1)"
  have e: "encode (Alu_rr g d s) = [rexw s d, b, modrm_rr s d]" by (simp add: b_def)
  have np: "\<not> is_prefix b"
    using below_8 [OF assms(1)] unfolding b_def
    by (elim insertE emptyE; simp add: is_prefix_def word_le_nat_alt)
  have g: "decode_opcode c 8 b insn8 = decode_rm_r c 8 (alu_ops ! g) insn8" for c
    using below_8 [OF assms(1)] unfolding b_def
    by (elim insertE emptyE; simp add: decode_opcode_def decode_alu_def word_le_nat_alt)
  let ?c = "rexw_ctx (rexw s d # b # modrm_rr s d # rest) ip s d\<lparr>ptr := 2\<rparr>"
  have m: "decode_modrm ?c 8 = Some (reg_operand d 8, reg_operand s 8, ?c\<lparr>ptr := 3\<rparr>)"
    using assms by (subst decode_modrm_rr [of _ s d]) (simp_all add: rexw_ctx_def ctx0_def)
  show ?thesis
    using decode_rexw [OF assms(3,2) np, of "modrm_rr s d # rest" ip] m
    by (simp add: decodes_def e g decode_rm_r_def del: encode.simps)
      (simp add: view_defs)
qed

lemma decodes_mov_rr:
  assumes "d < 16" "s < 16"
  shows "decodes ip rest (Mov_rr d s)"
proof -
  have np: "\<not> is_prefix 0x89" by (simp add: is_prefix_def)
  let ?c = "rexw_ctx (rexw s d # 0x89 # modrm_rr s d # rest) ip s d\<lparr>ptr := 2\<rparr>"
  have m: "decode_modrm ?c 8 = Some (reg_operand d 8, reg_operand s 8, ?c\<lparr>ptr := 3\<rparr>)"
    using assms by (subst decode_modrm_rr [of _ s d]) (simp_all add: rexw_ctx_def ctx0_def)
  show ?thesis
    using decode_rexw [OF assms(2,1) np, of "modrm_rr s d # rest" ip] m
    by (simp add: decodes_def decode_opcode_def decode_mov_def decode_rm_r_def)
      (simp add: view_defs)
qed

lemma decodes_alu_ri:
  assumes "g < 8" "d < 16"
  shows "decodes ip rest (Alu_ri g d v)"
proof -
  have np: "\<not> is_prefix 0x81" by (simp add: is_prefix_def)
  have z: "(0 :: nat) < 16" and g16: "g < 16" using assms by simp_all
  let ?tl = "modrm_rr g d # to_le 4 v @ rest"
  let ?c = "rexw_ctx (rexw 0 d # 0x81 # ?tl) ip 0 d\<lparr>ptr := 2\<rparr>"
  have m: "decode_modrm ?c 8 = Some (reg_operand d 8, reg_operand g 8, ?c\<lparr>ptr := 3\<rparr>)"
    using assms g16 by (subst decode_modrm_rr [of _ g d]) (simp_all add: rexw_ctx_def ctx0_def del: to_le_numeral)
  have f: "fetch32 (?c\<lparr>ptr := 3\<rparr>) = (v, ?c\<lparr>ptr := 7\<rparr>)"
    by (subst fetch32_to_le [of _ v rest]) (simp_all add: rexw_ctx_def ctx0_def del: to_le_numeral)
  have r: "reg_index (reg_operand g 8) AND 7 = g"
    using below_8 [OF assms(1)] by (elim insertE emptyE; simp add: reg_operand_def operand0_def)
  show ?thesis
    using decode_rexw [OF z assms(2) np, of ?tl ip] m f r
    by (simp add: decodes_def decode_opcode_def decode_group1_def fetch_simm32_def del: to_le_numeral)
      (simp add: view_defs)
qed

text \<open>Opcodes that carry a register number in their low three bits.\<close>

lemma opcode_reg:
  assumes "m < 8"
  shows "decode_opcode c 8 (of_nat (0x50 + m)) insn8
      = Some (set_ops insn8 WG_OP_PUSH [reg_operand (rex_reg m (rex_b c)) 8], c)"
    and "decode_opcode c 8 (of_nat (0x58 + m)) insn8
      = Some (set_ops insn8 WG_OP_POP [reg_operand (rex_reg m (rex_b c)) 8], c)"
    and "rex_w c = 1 \<Longrightarrow> fetch64 c = (v, c') \<Longrightarrow> decode_opcode c 8 (of_nat (0xB8 + m)) insn8
      = Some (set_ops insn8 WG_OP_MOV [reg_operand (rex_reg m (rex_b c)) 8, imm_operand v 8], c')"
    and "\<not> is_prefix (of_nat (0x50 + m))" "\<not> is_prefix (of_nat (0x58 + m))" "\<not> is_prefix (of_nat (0xB8 + m))"
  using below_8 [OF assms]
  by (elim insertE emptyE; simp add: decode_opcode_def decode_stack_def decode_mov_def is_prefix_def)+

lemma decodes_reg_opcode:
  assumes "r < 16"
  shows "decodes ip rest (Mov_ri r v)" "decodes ip rest (Push_r r)" "decodes ip rest (Pop_r r)"
proof -
  have z: "(0 :: nat) < 16" and m: "r mod 8 < 8" by simp_all
  let ?c = "\<lambda>b tl. rexw_ctx (rexw 0 r # b # tl) ip 0 r\<lparr>ptr := 2\<rparr>"
  have x: "rex_reg (r mod 8) (rex_b (rexw_ctx bytes ip 0 r)) = r" "rex_w (?c b tl) = 1" for bytes b tl
    using assms by (simp_all add: rexw_ctx_def rex_reg_mod)
  have f: "fetch64 (?c b (to_le 8 v @ rest)) = (v, ?c b (to_le 8 v @ rest)\<lparr>ptr := 10\<rparr>)" for b
    by (subst fetch64_to_le [of _ v rest]) (simp_all add: rexw_ctx_def ctx0_def del: to_le_numeral)
  show "decodes ip rest (Mov_ri r v)"
    using decode_rexw [OF z assms opcode_reg(6) [OF m], of "to_le 8 v @ rest" ip]
    by (simp add: decodes_def opcode_reg(3) [OF m x(2) f] x del: to_le_numeral of_nat_add)
      (simp add: view_defs)
  show "decodes ip rest (Push_r r)" "decodes ip rest (Pop_r r)"
    using decode_rexw [OF z assms opcode_reg(4) [OF m], of rest ip]
      decode_rexw [OF z assms opcode_reg(5) [OF m], of rest ip]
    by (simp_all add: decodes_def opcode_reg(1,2) [OF m] x del: of_nat_add)
      (simp_all add: view_defs)
qed

lemma ctx0_rip: "c_rip (ctx0 bytes ip) = ip"
  by (simp add: ctx0_def)

lemma decodes_branches:
  "decodes ip rest (Jmp_rel v)" "decodes ip rest (Call_rel v)" "decodes ip rest Ret_near"
proof -
  let ?c = "\<lambda>b. (ctx0 (b # to_le 4 v @ rest) ip)\<lparr>ptr := Suc 0\<rparr>"
  have f: "fetch32 (?c b) = (v, ?c b\<lparr>ptr := 5\<rparr>)" for b
    by (subst fetch32_to_le [of _ v rest]) (simp_all add: ctx0_def del: to_le_numeral)
  have np: "\<not> is_prefix 0xE9" "\<not> is_prefix 0xE8" "\<not> is_prefix 0xC3" by (simp_all add: is_prefix_def)
  show "decodes ip rest (Jmp_rel v)" "decodes ip rest (Call_rel v)" "decodes ip rest Ret_near"
    using decode_plain [OF np(1), of "to_le 4 v @ rest" ip] decode_plain [OF np(2), of "to_le 4 v @ rest" ip]
      decode_plain [OF np(3), of rest ip]
    by (simp_all add: decodes_def decode_opcode_def decode_branch_def fetch_simm32_def f 
        next_addr_def ctx0_rip del: to_le_numeral)
      (simp_all add: view_defs)
qed

lemma decodes_jcc:
  assumes "cc < 16"
  shows "decodes ip rest (Jcc_rel cc v)"
proof -
  let ?b = "of_nat (0x80 + cc) :: u8"
  let ?c = "\<lambda>n. (ctx0 (0x0F # ?b # to_le 4 v @ rest) ip)\<lparr>ptr := n\<rparr>"
  have f: "fetch32 (?c 2) = (v, ?c 6)" "fetch8 (?c (Suc 0)) = (?b, ?c 2)"
    by (subst fetch32_to_le [of _ v rest])
      (simp_all add: ctx0_def fetch8_def numeral_2_eq_2 del: to_le_numeral of_nat_add)
  have b: "0x80 \<le> ?b" "?b \<le> 0x8F" "?b \<le> 0x9F" "?b - 0x80 = of_nat cc"
    using assms unat_of_nat8 [of "0x80 + cc"] by (simp_all add: word_le_nat_alt del: of_nat_add) simp
  have np: "\<not> is_prefix 0x0F" by (simp add: is_prefix_def)
  show ?thesis
    using decode_plain [OF np, of "?b # to_le 4 v @ rest" ip] b f
    by (simp add: decodes_def decode_opcode_def decode_0f_def decode_0f_cc_def fetch_simm32_def 
        next_addr_def ctx0_rip del: to_le_numeral of_nat_add)
      (simp add: view_defs)
qed

lemma decodes_all: "asm_ok a \<Longrightarrow> decodes ip rest a"
  using decodes_reg_opcode decodes_mov_rr decodes_alu_rr decodes_alu_ri decodes_branches decodes_jcc
  by (cases a) (simp_all del: encode.simps)

subsection \<open>When decoding is defined\<close>

definition decode_window :: "u64 \<Rightarrow> bool" where
  "decode_window ip \<longleftrightarrow> - (2 ^ 62) \<le> sint ip \<and> sint ip < 2 ^ 62"

definition disp_safe :: "DecodeCtx \<Rightarrow> bool" where
  "disp_safe c \<longleftrightarrow> decode_window (c_rip c) \<and> length (code c) \<le> 16 \<and> ptr c \<le> length (code c)"

lemma sint_add_small:
  fixes ip k :: u64
  assumes "decode_window ip" and "0 \<le> sint k" and "sint k \<le> 16"
  shows "sint (ip + k) = sint ip + sint k"
  using assms by (simp add: decode_window_def sint_word_ariths signed_take_bit_int_eq_self)

lemma sint_scast32: "sint (scast (v :: u32) :: u64) = sint v"
  by (simp add: signed_scast_eq signed_take_bit_int_eq_self sint_less sint_greater_eq
      order_trans [OF _ sint_ge] order.strict_trans2 [OF sint_lt])

lemma fetch_simm32_range: "fetch_simm32 c = (d, c') \<Longrightarrow> - (2 ^ 31) \<le> sint d \<and> sint d < 2 ^ 31"
proof -
  assume "fetch_simm32 c = (d, c')"
  then obtain v :: u32 where "d = scast v" by (auto simp: fetch_simm32_def split: prod.splits)
  then show ?thesis using sint_ge [of v] sint_lt [of v] by (simp add: sint_scast32)
qed

lemma sint_of_nat_small: "n \<le> 16 \<Longrightarrow> sint (of_nat n :: u64) = int n"
  by (simp add: signed_of_nat signed_take_bit_int_eq_self)

lemma rip_disp_defined:
  assumes s: "disp_safe c" and f: "fetch_simm32 c = (d, c')"
  shows "sadd64 (next_addr c') d \<noteq> None"
proof -
  have a: "adv c c'" using f by (rule fetches_adv)
  have n: "ptr c' \<le> 16" and r: "c_rip c' = c_rip c"
    using a s by (auto simp: adv_def disp_safe_def)
  have "sint (next_addr c') = sint (c_rip c) + int (ptr c')"
    using sint_add_small [of "c_rip c" "of_nat (ptr c')"] s n r
    by (simp add: next_addr_def disp_safe_def sint_of_nat_small)
  with fetch_simm32_range [OF f] n s show ?thesis
    by (simp add: sadd64_def in_i64_def disp_safe_def decode_window_def)
qed

lemma defined_intros:
  "\<lbrakk>X \<noteq> None; \<And>rm reg c'. f rm reg c' \<noteq> None\<rbrakk> \<Longrightarrow> X \<bind> (\<lambda>(rm, reg, c'). f rm reg c') \<noteq> None"
  "\<lbrakk>Y \<noteq> None; \<And>i c'. g i c' \<noteq> None\<rbrakk> \<Longrightarrow> Y \<bind> (\<lambda>(i, c'). g i c') \<noteq> None"
  "\<lbrakk>P \<Longrightarrow> r \<noteq> None; \<not> P \<Longrightarrow> r' \<noteq> None\<rbrakk> \<Longrightarrow> (if P then r else r') \<noteq> None"
  "\<lbrakk>\<And>v c'. h v c' \<noteq> None\<rbrakk> \<Longrightarrow> (case z of (v, c') \<Rightarrow> h v c') \<noteq> None"
  "Some x \<noteq> None"
  by (auto split: prod.splits)

lemma decode_modrm_defined:
  assumes s: "disp_safe c" and p: "ptr c < length (code c)"
  shows "decode_modrm c sz \<noteq> None"
proof -
  obtain b c1 where f: "fetch8 c = (b, c1)" by fastforce
  have "adv c c1" using f by (rule fetches_adv)
  then have s1: "disp_safe c1" using s by (auto simp: adv_def disp_safe_def)
  have "decode_modrm_mem c op \<noteq> None" for op
    unfolding decode_modrm_mem_def f Let_def prod.case
    using rip_disp_defined [OF s1]
    by (auto simp: Option.bind_eq_None_conv split: prod.splits if_splits)
  then show ?thesis
    unfolding decode_modrm_def Let_def if_P [OF p] by (intro defined_intros)
qed

lemma decode_0f_defined: "(\<And>sz. decode_modrm c sz \<noteq> None) \<Longrightarrow> decode_0f c op_sz b out \<noteq> None"
  unfolding decode_0f_def decode_0f_cc_def decode_0f_ext_def decode_rm_r_def decode_r_rm_def Let_def
  by (intro defined_intros; assumption?)

lemma decode_opcode_defined:
  assumes "\<And>sz. decode_modrm c sz \<noteq> None" and "\<And>sz. decode_modrm (snd (fetch8 c)) sz \<noteq> None"
  shows "decode_opcode c op_sz b out \<noteq> None"
proof -
  have z: "(case fetch8 c of (op2, c) \<Rightarrow> decode_0f c op_sz op2 out) \<noteq> None"
    using decode_0f_defined [OF assms(2)] by (simp add: split_def)
  show ?thesis
    unfolding decode_opcode_def group_defs decode_90_def decode_branch_def decode_misc_def
      decode_xchg_def decode_rm_r_def decode_r_rm_def Let_def
    by (intro z defined_intros; (rule assms)?)
qed

subsection \<open>Properties\<close>

text \<open>C39: A decoded instruction never claims more bytes than the buffer holds; the length is 0
  exactly when the buffer holds nothing but prefixes; otherwise it covers the prefixes and at
  least an opcode, and every operand names registers inside the sixteen-entry register file.\<close>

theorem wg_x86_decode_wf:
  assumes "wg_x86_decode bytes ip = Some (n, insn)"
  shows "n \<le> length bytes \<and> (n = 0 \<longleftrightarrow> (\<forall>b \<in> set bytes. is_prefix b))
    \<and> (0 < n \<longrightarrow> prefix_len bytes < n \<and> ilen insn = n \<and> wf_insn insn)"
proof -
  let ?c = "parse_prefixes (ctx0 bytes ip)"
  note pp = parse_prefixes_ctx0 [of bytes ip]
  show ?thesis
  proof (cases "\<forall>b \<in> set bytes. is_prefix b")
    case True
    then have "ptr ?c \<ge> length (code ?c)" using pp prefix_len_all by simp
    with assms have "n = 0" by (auto simp: wg_x86_decode_def Let_def split: if_splits)
    with True show ?thesis by simp
  next
    case False
    then have ne: "bytes \<noteq> []" and lt: "ptr ?c < length (code ?c)"
      using pp prefix_len_all [of bytes] by auto
    define out where "out = insn0\<lparr>has_lock := c_lock ?c, has_rep := has_f3 ?c, has_repne := has_f2 ?c,
        segment_override := seg_override ?c, addr_size := if has_67 ?c then 4 else 8,
        op_size := effective_op_size ?c\<rparr>"
    have wf: "wf_insn out" using effective_op_size_values [of ?c]
      by (simp add: out_def wf_insn_def insn0_def)
    obtain b c1 where f: "fetch8 ?c = (b, c1)" by fastforce
    have a: "adv ?c c1" using f by (rule fetch_adv)
    have p1: "ptr c1 = Suc (ptr ?c)" using f lt by (auto simp: fetch8_def)
    obtain i c2 where d: "decode_opcode c1 (effective_op_size ?c) b out = Some (i, c2)"
      and r: "n = ptr c2" "insn = i\<lparr>ilen := ptr c2\<rparr>"
      using assms ne lt f unfolding wg_x86_decode_def Let_def out_def
      by (auto split: bind_splits)
    have ok: "adv c1 c2" "wf_insn i"
      using decode_opcode_ok [OF adv_wf [OF a pp(1)] wf effective_op_size_values, of ?c b] d
      by (simp_all add: dec_ok_def)
    from adv_ptr [OF ok(1) adv_wf [OF a pp(1)]] adv_ptr [OF a pp(1)] pp r p1 ok False
    show ?thesis by auto
  qed
qed

theorem wg_x86_decode_wf_witness:
  "\<exists>insn. wg_x86_decode [0x48, 0x89, 0xC8, 0x90] 0x401000 = Some (3, insn) \<and> wf_insn insn
     \<and> opcode insn = WG_OP_MOV \<and> map reg_index (operands insn) = [0, 1, 0]"
proof -
  obtain insn where d: "wg_x86_decode [0x48, 0x89, 0xC8, 0x90] 0x401000 = Some (3, insn)"
    and i: "opcode insn = WG_OP_MOV \<and> map reg_index (operands insn) = [0, 1, 0]"
    by (simp add: decode_eval)
  from wg_x86_decode_wf [OF d] d i show ?thesis by simp
qed

text \<open>The decoder runs into undefined behaviour only at the end of the buffer: with two bytes
  behind the opcode, and an instruction pointer away from the ends of the signed range, every
  byte sequence decodes.  An opcode with a ModR/M byte that is the last byte of the buffer, as
  after fifteen prefixes in the interpreter's sixteen-byte window, makes it read out of
  bounds, whatever the address.\<close>

theorem wg_x86_decode_defined:
  "(length bytes \<le> 16 \<and> prefix_len bytes + 3 \<le> length bytes \<and> decode_window ip
      \<longrightarrow> wg_x86_decode bytes ip \<noteq> None)
   \<and> ((\<forall>b \<in> set ps. is_prefix b) \<longrightarrow> wg_x86_decode (ps @ [0x89]) ip = None)"
proof (intro conjI impI)
  assume a: "length bytes \<le> 16 \<and> prefix_len bytes + 3 \<le> length bytes \<and> decode_window ip"
  let ?c = "parse_prefixes (ctx0 bytes ip)"
  note pp = parse_prefixes_ctx0 [of bytes ip]
  obtain b c1 where f: "fetch8 ?c = (b, c1)" by fastforce
  have c1: "c1 = ?c\<lparr>ptr := prefix_len bytes + 1\<rparr>"
    using f pp a by (auto simp: fetch8_def split: if_splits)
  have c2: "snd (fetch8 c1) = c1\<lparr>ptr := prefix_len bytes + 2\<rparr>"
    using pp a by (simp add: c1 fetch8_def)
  have "decode_opcode c1 op_sz b out \<noteq> None" for op_sz out
    unfolding c2 using a pp
    by (intro decode_opcode_defined decode_modrm_defined) (simp_all add: c2, simp_all add: c1 disp_safe_def)
  then show "wg_x86_decode bytes ip \<noteq> None"
    unfolding wg_x86_decode_def Let_def f prod.case by (intro defined_intros)
next
  assume ps: "\<forall>b \<in> set ps. is_prefix b"
  have np: "\<not> is_prefix 0x89" by (simp add: is_prefix_def)
  have len: "prefix_len (ps @ [0x89]) = length ps"
    using ps np by (simp add: prefix_len_def takeWhile_append2)
  let ?c = "parse_prefixes (ctx0 (ps @ [0x89]) ip)"
  note pp = parse_prefixes_ctx0 [of "ps @ [0x89]" ip]
  have "fetch8 ?c = (0x89, ?c\<lparr>ptr := length ps + 1\<rparr>)"
    using pp len by (simp add: fetch8_def)
  moreover have "decode_modrm (?c\<lparr>ptr := length ps + 1\<rparr>) sz = None" for sz
    using pp by (simp add: decode_modrm_def)
  ultimately show "wg_x86_decode (ps @ [0x89]) ip = None"
    using pp len
    by (simp add: wg_x86_decode_def Let_def decode_opcode_def decode_mov_def decode_rm_r_def)
qed

theorem wg_x86_decode_defined_witness:
  "wg_x86_decode [0x66, 0x48, 0x8B, 0x04, 0x24] 0x401000 \<noteq> None
   \<and> wg_x86_decode (replicate 15 0x66 @ [0x89]) 0x401000 = None"
  using wg_x86_decode_defined [of "[0x66, 0x48, 0x8B, 0x04, 0x24]" "0x401000" "replicate 15 0x66"]
  by (simp add: prefix_len_def is_prefix_def decode_window_def)

text \<open>C38: Round trip with the encoding rules: each of the ten instruction forms of the reference
  encoder, with any registers, condition, ALU operation and immediate, followed by any bytes,
  decodes to exactly its own length, opcode, operands, condition and operand size.\<close>

theorem wg_x86_decode_encode:
  assumes "asm_ok a"
  shows "\<exists>i. wg_x86_decode (encode a @ rest) ip = Some (length (encode a), i)
     \<and> insn_view i = asm_insn ip a"
  using decodes_all [OF assms, of ip rest] unfolding decodes_def .

theorem wg_x86_decode_encode_witness:
  "\<exists>i. wg_x86_decode ([0x4C, 0x01, 0xC0] @ [0xFF]) 0 = Some (3, i)
     \<and> insn_view i = (WG_OP_ADD, [reg_operand 0 8, reg_operand 8 8], 0, 8)"
  using wg_x86_decode_encode [of "Alu_rr 0 0 8" "[0xFF]" 0]
  by (simp add: rexw_def modrm_rr_def alu_ops_def numeral_3_eq_3)

end
