(* ===== verification/Memory.thy ===== *)
theory Memory
  imports WG_Prelude
begin

section \<open>The interpreter's guest memory (wg_memory)\<close>

text \<open>
  \<open>Sources/Memory/wg_memory.c\<close>: a table of up to 1024 regions, each with its own host
  buffer.  The live prefix \<open>regions[0..num_regions)\<close> is a list.  A host buffer of
  \<open>r_size\<close> bytes (the argument of \<open>calloc\<close>) is a function from offsets; every access
  checks the offset against \<open>r_size\<close>, and an access outside the buffer is undefined
  behaviour, \<^term>\<open>None\<close>.  Whether \<open>calloc\<close> succeeds is the argument \<open>alloc_ok\<close>.
  \<open>mem_view\<close> is the abstract memory: the byte a guest address shows, if it is mapped.
\<close>

definition WG_PAGE_SIZE :: u64 where "WG_PAGE_SIZE = 4096"
definition WG_MAX_REGIONS :: nat where "WG_MAX_REGIONS = 1024"

record WGMemRegion =
  r_base :: u64
  r_size :: u64
  r_prot :: u32
  r_data :: "u64 \<Rightarrow> u8"

record WGMemorySpace =
  regions :: "WGMemRegion list"
  total_size :: u64

definition wg_memory_create :: "u64 \<Rightarrow> WGMemorySpace" where
  "wg_memory_create max_size = \<lparr>regions = [], total_size = max_size\<rparr>"

definition region_has :: "u64 \<Rightarrow> WGMemRegion \<Rightarrow> bool" where
  "region_has addr r \<longleftrightarrow> addr \<ge> r_base r \<and> addr < r_base r + r_size r"

definition find_region :: "WGMemorySpace \<Rightarrow> u64 \<Rightarrow> nat option" where
  "find_region mem addr = first_idx (region_has addr) (regions mem)"

definition page_align :: "u64 \<Rightarrow> u64" where
  "page_align sz = (sz + WG_PAGE_SIZE - 1) AND NOT (WG_PAGE_SIZE - 1)"

definition wg_memory_map ::
    "WGMemorySpace \<Rightarrow> bool \<Rightarrow> u64 \<Rightarrow> u64 \<Rightarrow> u32 \<Rightarrow> bool \<times> WGMemorySpace" where
  "wg_memory_map mem alloc_ok base sz prot =
     (if length (regions mem) \<ge> WG_MAX_REGIONS then (False, mem)
      else let aligned_size = page_align sz;
               aligned_size = (if aligned_size = 0 then WG_PAGE_SIZE else aligned_size)
           in if \<not> alloc_ok then (False, mem)
              else (True, mem\<lparr>regions := regions mem @
                     [\<lparr>r_base = base, r_size = aligned_size, r_prot = prot, r_data = (\<lambda>_. 0)\<rparr>]\<rparr>))"

definition wg_memory_unmap :: "WGMemorySpace \<Rightarrow> u64 \<Rightarrow> bool \<times> WGMemorySpace" where
  "wg_memory_unmap mem base =
     (case first_idx (\<lambda>r. r_base r = base) (regions mem) of
        None \<Rightarrow> (False, mem)
      | Some i \<Rightarrow> (True, mem\<lparr>regions := swap_remove (regions mem) i\<rparr>))"

definition wg_memory_protect :: "WGMemorySpace \<Rightarrow> u64 \<Rightarrow> u64 \<Rightarrow> u32 \<Rightarrow> bool \<times> WGMemorySpace" where
  "wg_memory_protect mem base sz prot =
     (case find_region mem base of
        None \<Rightarrow> (False, mem)
      | Some i \<Rightarrow> (True, mem\<lparr>regions := (regions mem)[i := (regions mem ! i)\<lparr>r_prot := prot\<rparr>]\<rparr>))"

definition resolve :: "WGMemorySpace \<Rightarrow> u64 \<Rightarrow> (nat \<times> u64) option" where
  "resolve mem addr =
     (case find_region mem addr of
        None \<Rightarrow> None
      | Some i \<Rightarrow> Some (i, addr - r_base (regions mem ! i)))"

subsection \<open>Accesses through a resolved pointer\<close>

definition in_buffer :: "WGMemRegion \<Rightarrow> u64 \<Rightarrow> nat \<Rightarrow> bool" where
  "in_buffer r off n \<longleftrightarrow> unat off + n \<le> unat (r_size r)"

definition load_bytes :: "WGMemorySpace \<Rightarrow> nat \<times> u64 \<Rightarrow> nat \<Rightarrow> u8 list option" where
  "load_bytes mem p n =
     (case p of (i, off) \<Rightarrow>
        (let r = regions mem ! i in
         if in_buffer r off n then Some (map (\<lambda>k. r_data r (off + of_nat k)) [0..<n]) else None))"

fun put_bytes :: "(u64 \<Rightarrow> u8) \<Rightarrow> u64 \<Rightarrow> u8 list \<Rightarrow> u64 \<Rightarrow> u8" where
  "put_bytes d off [] = d"
| "put_bytes d off (b # bs) = put_bytes (d(off := b)) (off + 1) bs"

definition store_bytes :: "WGMemorySpace \<Rightarrow> nat \<times> u64 \<Rightarrow> u8 list \<Rightarrow> WGMemorySpace option" where
  "store_bytes mem p bs =
     (case p of (i, off) \<Rightarrow>
        (let r = regions mem ! i in
         if in_buffer r off (length bs)
         then Some (mem\<lparr>regions := (regions mem)[i := r\<lparr>r_data := put_bytes (r_data r) off bs\<rparr>]\<rparr>)
         else None))"

definition wg_memory_read_u8 :: "WGMemorySpace \<Rightarrow> u64 \<Rightarrow> u8 option" where
  "wg_memory_read_u8 mem addr =
     (case resolve mem addr of None \<Rightarrow> Some 0 | Some p \<Rightarrow> map_option of_le (load_bytes mem p 1))"

definition wg_memory_read_u16 :: "WGMemorySpace \<Rightarrow> u64 \<Rightarrow> u16 option" where
  "wg_memory_read_u16 mem addr =
     (case resolve mem addr of None \<Rightarrow> Some 0 | Some p \<Rightarrow> map_option of_le (load_bytes mem p 2))"

definition wg_memory_read_u32 :: "WGMemorySpace \<Rightarrow> u64 \<Rightarrow> u32 option" where
  "wg_memory_read_u32 mem addr =
     (case resolve mem addr of None \<Rightarrow> Some 0 | Some p \<Rightarrow> map_option of_le (load_bytes mem p 4))"

definition wg_memory_read_u64 :: "WGMemorySpace \<Rightarrow> u64 \<Rightarrow> u64 option" where
  "wg_memory_read_u64 mem addr =
     (case resolve mem addr of None \<Rightarrow> Some 0 | Some p \<Rightarrow> map_option of_le (load_bytes mem p 8))"

definition wg_memory_write_u8 :: "WGMemorySpace \<Rightarrow> u64 \<Rightarrow> u8 \<Rightarrow> WGMemorySpace option" where
  "wg_memory_write_u8 mem addr val =
     (case resolve mem addr of None \<Rightarrow> Some mem | Some p \<Rightarrow> store_bytes mem p (to_le 1 val))"

definition wg_memory_write_u16 :: "WGMemorySpace \<Rightarrow> u64 \<Rightarrow> u16 \<Rightarrow> WGMemorySpace option" where
  "wg_memory_write_u16 mem addr val =
     (case resolve mem addr of None \<Rightarrow> Some mem | Some p \<Rightarrow> store_bytes mem p (to_le 2 val))"

definition wg_memory_write_u32 :: "WGMemorySpace \<Rightarrow> u64 \<Rightarrow> u32 \<Rightarrow> WGMemorySpace option" where
  "wg_memory_write_u32 mem addr val =
     (case resolve mem addr of None \<Rightarrow> Some mem | Some p \<Rightarrow> store_bytes mem p (to_le 4 val))"

definition wg_memory_write_u64 :: "WGMemorySpace \<Rightarrow> u64 \<Rightarrow> u64 \<Rightarrow> WGMemorySpace option" where
  "wg_memory_write_u64 mem addr val =
     (case resolve mem addr of None \<Rightarrow> Some mem | Some p \<Rightarrow> store_bytes mem p (to_le 8 val))"

text \<open>
  The block copies go byte by byte and stop at the first unmapped address; what was copied
  before stays copied.  The read returns the flag and the bytes that reached \<open>buf\<close>.
\<close>

fun wg_memory_read :: "WGMemorySpace \<Rightarrow> u64 \<Rightarrow> nat \<Rightarrow> (bool \<times> u8 list) option" where
  "wg_memory_read mem addr 0 = Some (True, [])"
| "wg_memory_read mem addr (Suc n) =
     (case resolve mem addr of
        None \<Rightarrow> Some (False, [])
      | Some p \<Rightarrow> do {
          bs \<leftarrow> load_bytes mem p 1;
          (ok, rest) \<leftarrow> wg_memory_read mem (addr + 1) n;
          Some (ok, bs @ rest) })"

fun wg_memory_write :: "WGMemorySpace \<Rightarrow> u64 \<Rightarrow> u8 list \<Rightarrow> (bool \<times> WGMemorySpace) option" where
  "wg_memory_write mem addr [] = Some (True, mem)"
| "wg_memory_write mem addr (b # bs) =
     (case resolve mem addr of
        None \<Rightarrow> Some (False, mem)
      | Some p \<Rightarrow> do {
          mem' \<leftarrow> store_bytes mem p [b];
          wg_memory_write mem' (addr + 1) bs })"

subsection \<open>The abstract memory\<close>

definition mem_view :: "WGMemorySpace \<Rightarrow> u64 \<Rightarrow> u8 option" where
  "mem_view mem addr =
     (case resolve mem addr of None \<Rightarrow> None
      | Some (i, off) \<Rightarrow> Some (r_data (regions mem ! i) off))"

definition wf_mem :: "WGMemorySpace \<Rightarrow> bool" where
  "wf_mem mem \<longleftrightarrow> length (regions mem) \<le> WG_MAX_REGIONS \<and> (\<forall>r \<in> set (regions mem). 0 < r_size r)"

definition disjoint_regions :: "WGMemorySpace \<Rightarrow> bool" where
  "disjoint_regions mem \<longleftrightarrow>
     (\<forall>i < length (regions mem). \<forall>j < length (regions mem). \<forall>a.
        region_has a (regions mem ! i) \<longrightarrow> region_has a (regions mem ! j) \<longrightarrow> i = j)"

lemma region_has_offset:
  assumes "region_has addr r"
  shows "unat (addr - r_base r) < unat (r_size r)"
proof -
  have le: "r_base r \<le> addr" and lt: "addr < r_base r + r_size r"
    using assms by (auto simp: region_has_def)
  have "unat (addr - r_base r) = unat addr - unat (r_base r)"
    using le by (rule unat_sub)
  moreover have "unat addr < unat (r_base r) + unat (r_size r)"
    using lt mod_less_eq_dividend [of "unat (r_base r) + unat (r_size r)" "2 ^ 64"]
    by (simp add: word_less_nat_alt unat_word_ariths)
  ultimately show ?thesis using le by (simp add: word_le_nat_alt)
qed

lemma region_has_data [simp]: "region_has a (r\<lparr>r_data := d\<rparr>) = region_has a r"
  by (simp add: region_has_def)

lemma region_has_prot [simp]: "region_has a (r\<lparr>r_prot := d\<rparr>) = region_has a r"
  by (simp add: region_has_def)

lemma find_region_lt: "find_region mem a = Some i \<Longrightarrow> i < length (regions mem)"
  and find_region_has: "find_region mem a = Some i \<Longrightarrow> region_has a (regions mem ! i)"
  unfolding find_region_def by (simp_all add: first_idx_Some)

lemma resolve_Some:
  "resolve mem a = Some (i, off) \<longleftrightarrow> find_region mem a = Some i \<and> off = a - r_base (regions mem ! i)"
  by (auto simp: resolve_def split: option.splits)

lemma resolve_None: "resolve mem a = None \<longleftrightarrow> find_region mem a = None"
  by (auto simp: resolve_def split: option.splits)

lemma resolve_in_buffer:
  "resolve mem a = Some (i, off) \<Longrightarrow> in_buffer (regions mem ! i) off 1"
  using region_has_offset [OF find_region_has]
  by (auto simp: resolve_Some in_buffer_def Suc_le_eq)

lemma find_region_store:
  "store_bytes mem (i, off) bs = Some mem' \<Longrightarrow> find_region mem' a = find_region mem a"
  by (auto simp: store_bytes_def find_region_def Let_def first_idx_update_same split: if_splits)

lemma put_bytes_other:
  "unat (x - off) \<ge> length bs \<Longrightarrow> length bs < 2 ^ 64 \<Longrightarrow> put_bytes d off bs x = d x"
proof (induction bs arbitrary: d off)
  case Nil
  then show ?case by simp
next
  case (Cons b bs)
  have ne: "x \<noteq> off" using Cons.prems by auto
  with Cons unat_sub_one [OF ne] show ?case by simp
qed

lemma put_bytes_at:
  "k < length bs \<Longrightarrow> length bs < 2 ^ 64 \<Longrightarrow> put_bytes d off bs (off + of_nat k) = bs ! k"
proof (induction bs arbitrary: d off k)
  case Nil
  then show ?case by simp
next
  case (Cons b bs)
  show ?case
  proof (cases k)
    case 0
    have "off - (off + 1) = - 1" by simp
    then have "unat (off - (off + 1)) = 2 ^ 64 - 1" by (simp only: unat_minus_one_eq)
    with Cons.prems have "put_bytes (d(off := b)) (off + 1) bs off = (d(off := b)) off"
      by (intro put_bytes_other) auto
    with 0 show ?thesis by simp
  next
    case (Suc m)
    with Cons.IH [of m "d(off := b)" "off + 1"] Cons.prems show ?thesis
      by (simp add: add.assoc fun_upd_def)
  qed
qed

lemma resolve_store:
  "store_bytes mem (i, off) bs = Some mem' \<Longrightarrow> resolve mem' a = resolve mem a"
proof -
  assume st: "store_bytes mem (i, off) bs = Some mem'"
  have "r_base (regions mem' ! j) = r_base (regions mem ! j)" for j
    using st by (cases "i < length (regions mem)")
      (auto simp: store_bytes_def Let_def nth_list_update list_update_beyond split: if_splits)
  then show ?thesis
    using find_region_store [OF st, of a] by (auto simp: resolve_def split: option.splits)
qed

lemma mem_view_store:
  assumes a: "resolve mem a = Some (i, off)"
    and st: "store_bytes mem (i, off) bs = Some mem'"
    and len: "length bs < 2 ^ 64"
  shows "mem_view mem' x =
     (if find_region mem x = Some i \<and> unat (x - a) < length bs
      then Some (bs ! unat (x - a)) else mem_view mem x)"
proof (cases "find_region mem x")
  case None
  then show ?thesis
    using resolve_store [OF st, of x] by (simp add: mem_view_def resolve_def)
next
  case (Some j)
  define d where "d = r_data (regions mem ! i)"
  have i: "i < length (regions mem)" and off: "off = a - r_base (regions mem ! i)"
    using a find_region_lt by (auto simp: resolve_Some)
  have mem': "regions mem' = (regions mem)[i := (regions mem ! i)\<lparr>r_data := put_bytes d off bs\<rparr>]"
    using st by (auto simp: store_bytes_def Let_def d_def split: if_splits)
  let ?o = "x - r_base (regions mem ! j)"
  have rx: "resolve mem x = Some (j, ?o)" "resolve mem' x = Some (j, ?o)"
    using Some resolve_store [OF st, of x] by (simp_all add: resolve_def)
  show ?thesis
  proof (cases "j = i")
    case False
    with rx Some mem' show ?thesis by (simp add: mem_view_def)
  next
    case True
    have k: "?o - off = x - a" using True off by (simp add: algebra_simps)
    have "put_bytes d off bs ?o = (if unat (x - a) < length bs then bs ! unat (x - a) else d ?o)"
    proof (cases "unat (x - a) < length bs")
      case True
      have "?o = off + of_nat (unat (x - a))" using k by (simp add: algebra_simps)
      with True len show ?thesis by (metis put_bytes_at)
    next
      case False
      then have "put_bytes d off bs ?o = d ?o"
        using len by (intro put_bytes_other) (simp_all only: k not_less)
      with False show ?thesis by simp
    qed
    with True rx Some mem' i show ?thesis by (simp add: mem_view_def d_def)
  qed
qed

lemma load1_view: "resolve mem a = Some p \<Longrightarrow> load_bytes mem p (Suc 0) = Some [the (mem_view mem a)]"
  using resolve_in_buffer by (cases p) (auto simp: load_bytes_def mem_view_def Let_def)

lemma mem_view_None: "mem_view mem a = None \<longleftrightarrow> resolve mem a = None"
  by (auto simp: mem_view_def split: option.splits)

lemma write_u8_view:
  assumes "mem_view mem a \<noteq> None"
  shows "\<exists>mem'. wg_memory_write_u8 mem a b = Some mem' \<and> mem_view mem' = (mem_view mem)(a \<mapsto> b)"
proof -
  obtain i off where p: "resolve mem a = Some (i, off)"
    using assms by (auto simp: mem_view_None)
  have "to_le 1 b = [b]" by simp
  then obtain mem' where st: "store_bytes mem (i, off) [b] = Some mem'"
    and w: "wg_memory_write_u8 mem a b = Some mem'"
    using resolve_in_buffer [OF p] p
    by (simp add: wg_memory_write_u8_def store_bytes_def Let_def)
  have "mem_view mem' x = ((mem_view mem)(a \<mapsto> b)) x" for x
    using mem_view_store [OF p st, of x] p by (auto simp: resolve_Some unat_eq_zero)
  with w show ?thesis by auto
qed

interpretation wgmem: byte_memory mem_view wg_memory_write_u8
  by unfold_locales (rule write_u8_view)

lemma wg_memory_write_loop: "wg_memory_write mem a bs = write_loop mem_view wg_memory_write_u8 mem a bs"
proof (induction bs arbitrary: mem a)
  case Nil
  show ?case by simp
next
  case (Cons b bs)
  have "to_le 1 b = [b]" by simp
  then show ?case
    by (simp add: Cons mem_view_None wg_memory_write_u8_def split: option.splits)
qed

subsection \<open>Disjoint regions\<close>

lemma region_has_no_wrap:
  assumes "region_has a r"
  shows "unat (r_base r) + unat (r_size r) < 2 ^ 64"
proof (rule ccontr)
  assume "\<not> ?thesis"
  then obtain k where k: "unat (r_base r) + unat (r_size r) = 2 ^ 64 + k"
    by (metis le_Suc_ex not_less)
  have "k < unat (r_base r)"
    using k unat_lt64 [of "r_size r"] by linarith
  moreover have "unat (r_base r + r_size r) = k"
    using k \<open>k < unat (r_base r)\<close> unat_lt64 [of "r_base r"]
    by (simp add: unat_word_ariths mod_add_self1)
  ultimately have "unat (r_base r + r_size r) < unat (r_base r)" by simp
  with assms show False by (simp add: region_has_def word_less_nat_alt word_le_nat_alt)
qed

lemma region_has_iff:
  "region_has a r \<longleftrightarrow>
     unat (r_base r) + unat (r_size r) < 2 ^ 64
     \<and> unat (r_base r) \<le> unat a \<and> unat a < unat (r_base r) + unat (r_size r)"
proof -
  have "unat (r_base r + r_size r) = unat (r_base r) + unat (r_size r)"
    if "unat (r_base r) + unat (r_size r) < 2 ^ 64"
    using that by (simp add: unat_word_ariths)
  then show ?thesis
    using region_has_no_wrap [of a r]
    by (auto simp: region_has_def word_less_nat_alt word_le_nat_alt)
qed

lemma region_has_plus:
  assumes "region_has a r" and "unat (a - r_base r) + k < unat (r_size r)"
  shows "region_has (a + of_nat k) r"
proof -
  have b: "unat (r_base r) + unat (r_size r) < 2 ^ 64" "unat (r_base r) \<le> unat a"
    using assms(1) by (auto simp: region_has_iff)
  have "unat (a - r_base r) = unat a - unat (r_base r)"
    using b(2) by (simp add: unat_sub word_le_nat_alt)
  then have lt: "unat a + k < unat (r_base r) + unat (r_size r)"
    using assms(2) b(2) by linarith
  with b(1) have "k < 2 ^ 64" "unat a + k < 2 ^ 64" by linarith+
  then have "unat (a + of_nat k) = unat a + k"
    by (simp add: unat_word_ariths unat_of_nat)
  with lt b show ?thesis by (simp add: region_has_iff)
qed

lemma find_region_disjoint:
  assumes "disjoint_regions mem" and "i < length (regions mem)" and "region_has a (regions mem ! i)"
  shows "find_region mem a = Some i"
  unfolding find_region_def
  using assms by (intro first_idx_unique) (auto simp: disjoint_regions_def)

lemma find_region_none:
  "find_region mem a = None \<longleftrightarrow> (\<forall>i < length (regions mem). \<not> region_has a (regions mem ! i))"
  unfolding find_region_def first_idx_None all_set_conv_all_nth ..

lemma mem_view_region:
  assumes "disjoint_regions mem" and "i < length (regions mem)" and "region_has a (regions mem ! i)"
  shows "mem_view mem a = Some (r_data (regions mem ! i) (a - r_base (regions mem ! i)))"
  using find_region_disjoint [OF assms] by (simp add: mem_view_def resolve_def)

lemma mem_view_no_region:
  "(\<And>i. i < length (regions mem) \<Longrightarrow> \<not> region_has a (regions mem ! i)) \<Longrightarrow> mem_view mem a = None"
  using find_region_none [of mem a] by (simp add: mem_view_def resolve_def)

lemma store_view_disjoint:
  assumes dis: "disjoint_regions mem"
    and a: "resolve mem a = Some p" and st: "store_bytes mem p bs = Some mem'"
    and len: "length bs < 2 ^ 64"
  shows "mem_view mem' = overlay (mem_view mem) a bs"
proof
  fix x
  obtain i off where p: "p = (i, off)" by (cases p)
  have i: "i < length (regions mem)" "region_has a (regions mem ! i)"
    and off: "off = a - r_base (regions mem ! i)"
    using a p find_region_lt find_region_has by (auto simp: resolve_Some)
  have "find_region mem x = Some i" if "unat (x - a) < length bs"
  proof -
    have "unat off + length bs \<le> unat (r_size (regions mem ! i))"
      using st p by (auto simp: store_bytes_def Let_def in_buffer_def split: if_splits)
    then have "region_has (a + of_nat (unat (x - a))) (regions mem ! i)"
      using that off by (intro region_has_plus i) simp
    then have "region_has x (regions mem ! i)" by (simp add: algebra_simps)
    with find_region_disjoint [OF dis i(1)] show ?thesis by simp
  qed
  then show "mem_view mem' x = overlay (mem_view mem) a bs x"
    using mem_view_store [OF a [unfolded p] st [unfolded p] len, of x]
    by (auto simp: overlay_def)
qed

lemma store_keeps_shape:
  assumes "store_bytes mem p bs = Some mem'"
  shows "length (regions mem') = length (regions mem)"
    and "region_has a (regions mem' ! i) = region_has a (regions mem ! i)"
    and "r_size (regions mem' ! i) = r_size (regions mem ! i)"
  using assms
  by (cases p; cases "fst p < length (regions mem)";
      auto simp: store_bytes_def Let_def nth_list_update list_update_beyond split: if_splits)+

lemma load_after_store:
  assumes "resolve mem a = Some p" and "store_bytes mem p bs = Some mem'" and "length bs < 2 ^ 64"
  shows "resolve mem' a = Some p" and "load_bytes mem' p (length bs) = Some bs"
proof -
  obtain i off where p: "p = (i, off)" by (cases p)
  show "resolve mem' a = Some p" using assms(1,2) resolve_store p by metis
  have i: "i < length (regions mem)" using assms(1) p find_region_lt by (auto simp: resolve_Some)
  have "map (\<lambda>k. put_bytes d off bs (off + of_nat k)) [0..<length bs] = bs" for d
    using assms(3) by (intro nth_equalityI) (simp_all add: put_bytes_at)
  then show "load_bytes mem' p (length bs) = Some bs"
    using assms(2) p i by (auto simp: store_bytes_def load_bytes_def Let_def in_buffer_def split: if_splits)
qed

lemma map_view:
  assumes "wg_memory_map mem ok base sz prot = (True, mem')"
  shows "\<exists>r. regions mem' = regions mem @ [r] \<and> r_base r = base \<and> r_prot r = prot \<and>
     r_size r = (if page_align sz = 0 then WG_PAGE_SIZE else page_align sz) \<and>
     (\<forall>a. mem_view mem' a =
        (case mem_view mem a of Some b \<Rightarrow> Some b
         | None \<Rightarrow> if region_has a r then Some 0 else None))"
proof -
  define r where "r = \<lparr>r_base = base, r_size = (if page_align sz = 0 then WG_PAGE_SIZE else page_align sz),
    r_prot = prot, r_data = (\<lambda>_. 0 :: u8)\<rparr>"
  have m: "regions mem' = regions mem @ [r]"
    using assms by (auto simp: wg_memory_map_def r_def Let_def split: if_splits)
  have "mem_view mem' a = (case mem_view mem a of Some b \<Rightarrow> Some b
      | None \<Rightarrow> if region_has a r then Some 0 else None)" for a
  proof (cases "find_region mem a")
    case None
    then show ?thesis
      using m by (auto simp: mem_view_def resolve_def find_region_def first_idx_append r_def)
  next
    case (Some i)
    then show ?thesis
      using m find_region_lt [OF Some]
      by (simp add: mem_view_def resolve_def find_region_def first_idx_append nth_append)
  qed
  with m show ?thesis by (intro exI [of _ r]) (simp add: r_def)
qed

lemma wide_write_read:
  assumes "resolve mem a = Some p" and "store_bytes mem p (to_le n w) = Some mem'"
    and "LENGTH('a) \<le> 8 * n" and "n < 2 ^ 64"
  shows "resolve mem' a = Some p \<and> map_option of_le (load_bytes mem' p n) = Some (w :: 'a::len word)"
  using load_after_store [OF assms(1,2)] assms(3,4) by (simp add: of_le_to_le)

subsection \<open>Properties\<close>

text \<open>A region to evaluate the witnesses on: one page at 0x1000, and a second one at 0x2000.\<close>

definition demo_region :: "u64 \<Rightarrow> WGMemRegion" where
  "demo_region b = \<lparr>r_base = b, r_size = 0x1000, r_prot = 3, r_data = (\<lambda>_. 0)\<rparr>"

definition demo_mem :: WGMemorySpace where
  "demo_mem = \<lparr>regions = [demo_region 0x1000, demo_region 0x2000], total_size = 0x100000\<rparr>"

lemma demo_disjoint: "disjoint_regions demo_mem"
proof -
  have "\<not> (region_has a (demo_region 0x1000) \<and> region_has a (demo_region 0x2000))" for a
    by (simp add: region_has_iff demo_region_def)
  then show ?thesis
    by (auto simp: disjoint_regions_def demo_mem_def less_Suc_eq)
qed

lemmas demo_eval = demo_mem_def demo_region_def resolve_def find_region_def region_has_def
  store_bytes_def load_bytes_def in_buffer_def Let_def

text \<open>A store of any width to a mapped address, when it does not run off its host buffer,
  is read back unchanged by the load of the same width at that address; a store to an
  unmapped address is dropped.\<close>

theorem wg_memory_write_read:
  "wg_memory_write_u8 mem a b = Some m8 \<Longrightarrow>
   wg_memory_write_u16 mem a h = Some m16 \<Longrightarrow>
   wg_memory_write_u32 mem a w = Some m32 \<Longrightarrow>
   wg_memory_write_u64 mem a q = Some m64 \<Longrightarrow>
   (if resolve mem a = None then m8 = mem \<and> m16 = mem \<and> m32 = mem \<and> m64 = mem
    else wg_memory_read_u8 m8 a = Some b \<and> wg_memory_read_u16 m16 a = Some h
       \<and> wg_memory_read_u32 m32 a = Some w \<and> wg_memory_read_u64 m64 a = Some q)"
proof (cases "resolve mem a")
  case None
  assume "wg_memory_write_u8 mem a b = Some m8" "wg_memory_write_u16 mem a h = Some m16"
    "wg_memory_write_u32 mem a w = Some m32" "wg_memory_write_u64 mem a q = Some m64"
  with None show ?thesis
    by (simp add: wg_memory_write_u8_def wg_memory_write_u16_def wg_memory_write_u32_def
        wg_memory_write_u64_def)
next
  case (Some p)
  assume "wg_memory_write_u8 mem a b = Some m8" "wg_memory_write_u16 mem a h = Some m16"
    "wg_memory_write_u32 mem a w = Some m32" "wg_memory_write_u64 mem a q = Some m64"
  then have st: "store_bytes mem p (to_le 1 b) = Some m8" "store_bytes mem p (to_le 2 h) = Some m16"
    "store_bytes mem p (to_le 4 w) = Some m32" "store_bytes mem p (to_le 8 q) = Some m64"
    using Some by (simp_all only: wg_memory_write_u8_def wg_memory_write_u16_def
        wg_memory_write_u32_def wg_memory_write_u64_def option.case)
  show ?thesis
    using wide_write_read [OF Some st(1)] wide_write_read [OF Some st(2)]
      wide_write_read [OF Some st(3)] wide_write_read [OF Some st(4)] Some
    by (simp add: wg_memory_read_u8_def wg_memory_read_u16_def wg_memory_read_u32_def
        wg_memory_read_u64_def)
qed

theorem wg_memory_write_read_witness:
  "\<exists>m8 m16 m32 m64. wg_memory_write_u8 demo_mem 0x1010 7 = Some m8
     \<and> wg_memory_write_u16 demo_mem 0x1010 0x1234 = Some m16
     \<and> wg_memory_write_u32 demo_mem 0x1010 0xDEADBEEF = Some m32
     \<and> wg_memory_write_u64 demo_mem 0x1010 0x123456789ABCDEF0 = Some m64
     \<and> wg_memory_read_u64 m64 0x1010 = Some 0x123456789ABCDEF0"
proof -
  have p: "resolve demo_mem 0x1010 = Some (0, 0x10)" by (simp add: demo_eval)
  obtain m8 m16 m32 m64 where w:
    "wg_memory_write_u8 demo_mem 0x1010 7 = Some m8"
    "wg_memory_write_u16 demo_mem 0x1010 0x1234 = Some m16"
    "wg_memory_write_u32 demo_mem 0x1010 0xDEADBEEF = Some m32"
    "wg_memory_write_u64 demo_mem 0x1010 0x123456789ABCDEF0 = Some m64"
    using p by (simp add: wg_memory_write_u8_def wg_memory_write_u16_def wg_memory_write_u32_def
        wg_memory_write_u64_def store_bytes_def in_buffer_def demo_mem_def demo_region_def Let_def)
  with wg_memory_write_read [OF w] p show ?thesis by auto
qed

text \<open>On non-overlapping regions a 64-bit store refines the abstract memory: exactly the
  eight bytes at the address change, to the value's little-endian bytes.\<close>

theorem wg_memory_write_u64_view:
  assumes "disjoint_regions mem" and "mem_view mem a \<noteq> None"
    and "wg_memory_write_u64 mem a v = Some mem'"
  shows "mem_view mem' = overlay (mem_view mem) a (to_le 8 v) \<and> disjoint_regions mem'"
proof -
  obtain p where p: "resolve mem a = Some p" using assms(2) by (auto simp: mem_view_None)
  then have st: "store_bytes mem p (to_le 8 v) = Some mem'"
    using assms(3) by (simp add: wg_memory_write_u64_def)
  have "mem_view mem' = overlay (mem_view mem) a (to_le 8 v)"
    by (rule store_view_disjoint [OF assms(1) p st]) simp
  moreover have "disjoint_regions mem'"
    using assms(1) store_keeps_shape [OF st] by (simp add: disjoint_regions_def)
  ultimately show ?thesis by simp
qed

theorem wg_memory_write_u64_view_witness:
  "\<exists>mem'. wg_memory_write_u64 demo_mem 0x1FF8 0x0102030405060708 = Some mem'
     \<and> mem_view mem' 0x1FFF = Some 1 \<and> mem_view mem' 0x2000 = mem_view demo_mem 0x2000"
proof -
  have p: "resolve demo_mem 0x1FF8 = Some (0, 0xFF8)" by (simp add: demo_eval)
  then obtain mem' where w: "wg_memory_write_u64 demo_mem 0x1FF8 0x0102030405060708 = Some mem'"
    by (simp add: wg_memory_write_u64_def store_bytes_def in_buffer_def demo_mem_def
        demo_region_def Let_def)
  have "mem_view demo_mem 0x1FF8 \<noteq> None" using p by (simp add: mem_view_None)
  from wg_memory_write_u64_view [OF demo_disjoint this w] w show ?thesis
    by (simp add: overlay_def)
qed

text \<open>A 64-bit access is undefined behaviour exactly when the address is mapped and fewer
  than eight bytes remain in its host buffer; one-byte accesses never are.\<close>

theorem wg_memory_u64_bounds:
  "(wg_memory_write_u64 mem a v = None \<longleftrightarrow>
      (\<exists>i off. resolve mem a = Some (i, off) \<and> unat (r_size (regions mem ! i)) < unat off + 8))
   \<and> (wg_memory_read_u64 mem a = None \<longleftrightarrow>
      (\<exists>i off. resolve mem a = Some (i, off) \<and> unat (r_size (regions mem ! i)) < unat off + 8))
   \<and> wg_memory_read_u8 mem a \<noteq> None \<and> wg_memory_write_u8 mem a b \<noteq> None"
  using resolve_in_buffer [of mem a]
  by (auto simp: wg_memory_write_u64_def wg_memory_read_u64_def wg_memory_read_u8_def
      wg_memory_write_u8_def store_bytes_def load_bytes_def in_buffer_def Let_def
      split: option.splits prod.splits)

text \<open>A block write stores the prefix of the data up to the first unmapped address,
  whatever regions it spans, reports whether that was all of it, and a block read of the
  same range then returns exactly that data.\<close>

theorem wg_memory_block_write:
  assumes "length bs \<le> 2 ^ 64"
  shows "\<exists>mem'. wg_memory_write mem a bs
       = Some (mapped_prefix (mem_view mem) a (length bs) = length bs, mem')
     \<and> mem_view mem' = overlay (mem_view mem) a (take (mapped_prefix (mem_view mem) a (length bs)) bs)"
  using wgmem.write_loop_spec [OF assms] by (simp add: wg_memory_write_loop)

theorem wg_memory_block_write_witness:
  "\<exists>mem'. wg_memory_write demo_mem 0x2FFE [1, 2, 3, 4] = Some (False, mem')
     \<and> mem_view mem' 0x2FFF = Some 2"
proof -
  have k: "mapped_prefix (mem_view demo_mem) 0x2FFE (length [1, 2, 3, 4 :: u8]) = 2"
    by (simp add: mem_view_def demo_eval)
  have "length [1, 2, 3, 4 :: u8] \<le> 2 ^ 64" by simp
  from wg_memory_block_write [OF this, of demo_mem "0x2FFE"] show ?thesis
    unfolding k by (auto simp: overlay_def)
qed

lemma wg_memory_read_spec:
  "wg_memory_read mem a n =
     (let k = mapped_prefix (mem_view mem) a n
      in Some (k = n, map (\<lambda>j. the (mem_view mem (a + of_nat j))) [0..<k]))"
proof (induction n arbitrary: a)
  case 0
  show ?case by simp
next
  case (Suc n)
  show ?case
  proof (cases "resolve mem a")
    case None
    then show ?thesis by (simp add: mem_view_None)
  next
    case (Some p)
    let ?k = "mapped_prefix (mem_view mem) (a + 1) n"
    have "map (\<lambda>j. the (mem_view mem (a + of_nat j))) [0..<Suc ?k]
        = the (mem_view mem a) # map (\<lambda>j. the (mem_view mem (a + 1 + of_nat j))) [0..<?k]"
      by (simp add: upt_conv_Cons map_Suc_upt [symmetric] comp_def add.assoc del: upt_Suc)
    with Some show ?thesis
      by (simp add: Suc.IH load1_view mem_view_None Let_def del: upt_Suc)
  qed
qed

text \<open>A block write of data that is mapped throughout, read back as a block, gives the
  data, even where the range spans several regions.\<close>

theorem wg_memory_block_roundtrip:
  assumes len: "length bs \<le> 2 ^ 64"
    and mapped: "\<And>k. k < length bs \<Longrightarrow> mem_view mem (a + of_nat k) \<noteq> None"
  shows "\<exists>mem'. wg_memory_write mem a bs = Some (True, mem')
             \<and> wg_memory_read mem' a (length bs) = Some (True, bs)"
proof -
  let ?n = "length bs"
  have all: "mapped_prefix (mem_view mem) a ?n = ?n"
    by (rule mapped_prefix_all) (rule mapped)
  then obtain mem' where w: "wg_memory_write mem a bs = Some (True, mem')"
    and v: "mem_view mem' = overlay (mem_view mem) a bs"
    using wgmem.write_loop_spec [OF len, of mem a] by (auto simp: wg_memory_write_loop)
  have at: "mem_view mem' (a + of_nat k) = Some (bs ! k)" if "k < ?n" for k
    using that len by (simp add: v overlay_def unat_of_nat)
  then have "mapped_prefix (mem_view mem') a ?n = ?n"
    by (intro mapped_prefix_all) simp
  moreover have "map (\<lambda>j. the (mem_view mem' (a + of_nat j))) [0..<?n] = bs"
    using at by (intro nth_equalityI) simp_all
  ultimately have "wg_memory_read mem' a ?n = Some (True, bs)"
    by (simp add: wg_memory_read_spec)
  with w show ?thesis by blast
qed

theorem wg_memory_block_roundtrip_witness:
  "\<exists>mem'. wg_memory_write demo_mem 0x1FFE [1, 2, 3, 4] = Some (True, mem')
     \<and> wg_memory_read mem' 0x1FFE (length [1, 2, 3, 4 :: u8]) = Some (True, [1, 2, 3, 4])"
proof -
  have m: "mem_view demo_mem (0x1FFE + of_nat k) \<noteq> None" if "k < length [1, 2, 3, 4 :: u8]" for k
  proof -
    have "k = 0 \<or> k = 1 \<or> k = 2 \<or> k = 3" using that by auto
    then show ?thesis by (elim disjE) (simp_all add: mem_view_def demo_eval)
  qed
  have "length [1, 2, 3, 4 :: u8] \<le> 2 ^ 64" by simp
  from wg_memory_block_roundtrip [OF this m] show ?thesis .
qed

text \<open>A new region never hides a byte that was readable: mapping keeps every mapped byte,
  shows zeroes at the addresses that only the new region covers, and changes nothing else.
  The region covers nothing at all when its page-rounded end reaches \<open>2^64\<close>.\<close>

theorem wg_memory_map_view:
  assumes "wg_memory_map mem alloc_ok base sz prot = (True, mem')"
  shows "\<exists>r. regions mem' = regions mem @ [r] \<and> r_base r = base \<and> r_prot r = prot \<and>
     r_size r = (if page_align sz = 0 then WG_PAGE_SIZE else page_align sz) \<and>
     (\<forall>a. mem_view mem' a =
        (case mem_view mem a of Some b \<Rightarrow> Some b
         | None \<Rightarrow> if region_has a r then Some 0 else None)) \<and>
     (2 ^ 64 \<le> unat base + unat (r_size r) \<longrightarrow> mem_view mem' = mem_view mem)"
proof -
  obtain r where r: "regions mem' = regions mem @ [r]" "r_base r = base" "r_prot r = prot"
    "r_size r = (if page_align sz = 0 then WG_PAGE_SIZE else page_align sz)"
    and v: "\<And>a. mem_view mem' a = (case mem_view mem a of Some b \<Rightarrow> Some b
         | None \<Rightarrow> if region_has a r then Some 0 else None)"
    using map_view [OF assms] by blast
  have "mem_view mem' = mem_view mem" if "2 ^ 64 \<le> unat base + unat (r_size r)"
  proof
    fix a
    have "2 ^ 64 \<le> unat (r_base r) + unat (r_size r)" using that by (simp only: r(2))
    then have "\<not> region_has a r" using region_has_no_wrap by (metis not_le)
    then show "mem_view mem' a = mem_view mem a" by (simp add: v split: option.splits)
  qed
  with r v show ?thesis by blast
qed

theorem wg_memory_map_view_witness:
  "wg_memory_map demo_mem True 0xFFFFFFFFFFFFF000 0x1000 3
     = (True, snd (wg_memory_map demo_mem True 0xFFFFFFFFFFFFF000 0x1000 3))
   \<and> mem_view (snd (wg_memory_map demo_mem True 0xFFFFFFFFFFFFF000 0x1000 3)) = mem_view demo_mem"
proof -
  have m: "wg_memory_map demo_mem True 0xFFFFFFFFFFFFF000 0x1000 3
     = (True, snd (wg_memory_map demo_mem True 0xFFFFFFFFFFFFF000 0x1000 3))"
    by (simp add: wg_memory_map_def demo_mem_def WG_MAX_REGIONS_def Let_def)
  from wg_memory_map_view [OF m] m show ?thesis
    by (auto simp: page_align_def WG_PAGE_SIZE_def)
qed

text \<open>On non-overlapping regions, unmapping removes exactly the bytes of the first region
  with that base; the swap with the last table entry changes no other byte, and the rest
  stays non-overlapping.\<close>

theorem wg_memory_unmap_view:
  assumes dis: "disjoint_regions mem"
    and i: "first_idx (\<lambda>r. r_base r = base) (regions mem) = Some i"
  shows "\<exists>mem'. wg_memory_unmap mem base = (True, mem') \<and> disjoint_regions mem' \<and>
     (\<forall>a. mem_view mem' a = (if region_has a (regions mem ! i) then None else mem_view mem a))"
proof -
  let ?xs = "regions mem"
  define mem' where "mem' = mem\<lparr>regions := swap_remove ?xs i\<rparr>"
  have lt: "i < length ?xs" using i by (rule first_idx_lt)
  have at: "regions mem' ! k = ?xs ! (if k = i then length ?xs - 1 else k)"
    if "k < length (regions mem')" for k
    using that lt by (simp add: mem'_def nth_swap_remove)
  have dis': "disjoint_regions mem'"
    unfolding disjoint_regions_def
  proof (intro allI impI)
    fix j k a
    assume jk: "j < length (regions mem')" "k < length (regions mem')"
      and h: "region_has a (regions mem' ! j)" "region_has a (regions mem' ! k)"
    have len: "length (regions mem') = length ?xs - 1" by (simp add: mem'_def)
    have "region_has a (?xs ! (if j = i then length ?xs - 1 else j))"
      "region_has a (?xs ! (if k = i then length ?xs - 1 else k))"
      using h by (simp_all only: at [OF jk(1)] at [OF jk(2)])
    moreover have "(if j = i then length ?xs - 1 else j) < length ?xs"
      "(if k = i then length ?xs - 1 else k) < length ?xs"
      using jk len lt by auto
    ultimately have "(if j = i then length ?xs - 1 else j) = (if k = i then length ?xs - 1 else k)"
      using dis unfolding disjoint_regions_def by blast
    then show "j = k" using jk len lt by (auto split: if_splits)
  qed
  have "mem_view mem' a = (if region_has a (?xs ! i) then None else mem_view mem a)" for a
  proof (cases "\<exists>j < length ?xs. j \<noteq> i \<and> region_has a (?xs ! j)")
    case True
    then obtain j where j: "j < length ?xs" "j \<noteq> i" "region_has a (?xs ! j)" by blast
    obtain k where k: "k < length ?xs - 1" "swap_remove ?xs i ! k = ?xs ! j"
      using swap_remove_index [OF lt j(1,2)] by blast
    have "mem_view mem' a = mem_view mem a"
      using mem_view_region [OF dis', of k a] mem_view_region [OF dis j(1,3)] k j(3)
      by (simp add: mem'_def)
    moreover have "\<not> region_has a (?xs ! i)" using dis j lt by (auto simp: disjoint_regions_def)
    ultimately show ?thesis by simp
  next
    case False
    have "mem_view mem' a = None"
    proof (rule mem_view_no_region)
      fix k assume k: "k < length (regions mem')"
      have "(if k = i then length ?xs - 1 else k) < length ?xs"
        "(if k = i then length ?xs - 1 else k) \<noteq> i"
        using k lt by (auto simp: mem'_def split: if_splits)
      with False at [OF k] show "\<not> region_has a (regions mem' ! k)" by metis
    qed
    moreover have "mem_view mem a = None" if "\<not> region_has a (?xs ! i)"
      using False that by (intro mem_view_no_region) metis
    ultimately show ?thesis by simp
  qed
  moreover have "wg_memory_unmap mem base = (True, mem')"
    using i by (simp add: wg_memory_unmap_def mem'_def)
  ultimately show ?thesis using dis' by blast
qed

theorem wg_memory_unmap_view_witness:
  "\<exists>mem'. wg_memory_unmap demo_mem 0x1000 = (True, mem')
     \<and> mem_view mem' 0x1800 = None \<and> mem_view mem' 0x2000 = Some 0"
proof -
  have i: "first_idx (\<lambda>r. r_base r = 0x1000) (regions demo_mem) = Some 0"
    by (simp add: demo_mem_def demo_region_def)
  from wg_memory_unmap_view [OF demo_disjoint i] show ?thesis
    by (auto simp: demo_eval mem_view_def)
qed

text \<open>Every operation of the memory keeps the region table within its 1024 slots and every
  region non-empty.\<close>

theorem wg_memory_wf:
  assumes "wf_mem mem"
  shows "wf_mem (snd (wg_memory_map mem alloc_ok base sz prot))
     \<and> wf_mem (snd (wg_memory_unmap mem base)) \<and> wf_mem (snd (wg_memory_protect mem base sz prot))
     \<and> (\<forall>mem'. store_bytes mem p bs = Some mem' \<longrightarrow> wf_mem mem')"
proof (intro conjI allI impI)
  show "wf_mem (snd (wg_memory_map mem alloc_ok base sz prot))"
    using assms by (auto simp: wf_mem_def wg_memory_map_def Let_def WG_PAGE_SIZE_def word_gt_0)
  show "wf_mem (snd (wg_memory_unmap mem base))"
    using assms set_swap_remove [OF first_idx_lt, of "\<lambda>r. r_base r = base" "regions mem"]
    by (auto simp: wf_mem_def wg_memory_unmap_def split: option.splits)
  show "wf_mem (snd (wg_memory_protect mem base sz prot))"
    using assms find_region_lt [of mem base]
    by (auto simp: wf_mem_def wg_memory_protect_def split: option.splits
        dest!: subsetD [OF set_update_subset_insert])
  show "wf_mem mem'" if "store_bytes mem p bs = Some mem'" for mem'
    using assms store_keeps_shape [OF that]
    by (auto simp: wf_mem_def all_set_conv_all_nth)
qed

theorem wg_memory_wf_witness:
  "wf_mem (snd (wg_memory_map demo_mem True 0x8000 1 3))"
proof -
  have "wf_mem demo_mem" by (simp add: wf_mem_def demo_mem_def demo_region_def WG_MAX_REGIONS_def)
  from wg_memory_wf [OF this] show ?thesis by blast
qed

end
