(* ===== verification/X86_Interp.thy ===== *)
theory X86_Interp
  imports X86_State X86_Decode Memory
begin

section \<open>The interpreter (wg_x86_interp)\<close>

text \<open>
  \<open>Sources/CPU/wg_x86_interp.c\<close>: operand access, the conditions, one definition per group of
  cases of the big switch of \<open>wg_x86_exec_one\<close>, and \<open>wg_x86_exec_block\<close>.  \<^term>\<open>None\<close> is
  undefined behaviour: an access that leaves a region's heap buffer (from the memory), a
  shift by the width or more, a signed overflow, an out-of-bounds decoder read.
  The log lines are left out.  Register numbers come from the decoder, which keeps them below 16.
\<close>

datatype WGInterpResult = WG_INTERP_OK | WG_INTERP_HALT | WG_INTERP_SYSCALL | WG_INTERP_ERROR

text \<open>How a case of the switch ends: \<open>break\<close> with the next RIP, or \<open>return\<close>.\<close>

datatype flow =
    Break u64 WGx86State WGMemorySpace
  | Return WGInterpResult WGx86State WGMemorySpace

definition mask_for :: "nat \<Rightarrow> u64" where
  "mask_for bytes = (if bytes \<ge> 8 then NOT 0 else push_bit (bytes * 8) 1 - 1)"

text \<open>\<open>1ULL << (bits - 1)\<close> and, for a negative value, \<open>1ULL << bits\<close>.\<close>

definition sign_extend :: "u64 \<Rightarrow> nat \<Rightarrow> u64 option" where
  "sign_extend val bytes =
     (let bits = bytes * 8
      in if bits = 0 \<or> bits > 64 then None
         else if val AND push_bit (bits - 1) 1 \<noteq> 0
         then (if bits \<ge> 64 then None else Some (val OR NOT (push_bit bits 1 - 1)))
         else Some val)"

subsection \<open>Operands\<close>

definition mem_addr :: "WGx86State \<Rightarrow> WGOperand \<Rightarrow> u64" where
  "mem_addr cpu op =
     (if mem_base op = -2 then mem_disp op
      else (if mem_base op \<ge> 0 then gpr cpu ! nat (mem_base op) else 0)
         + (if mem_index op \<ge> 0 then gpr cpu ! nat (mem_index op) * of_nat (mem_scale op) else 0)
         + mem_disp op)"

definition read_operand :: "WGx86State \<Rightarrow> WGMemorySpace \<Rightarrow> WGOperand \<Rightarrow> u64 option" where
  "read_operand cpu mem op =
     (let m = mask_for (o_size op) in
      case o_type op of
        WG_OPERAND_REG \<Rightarrow> Some (gpr cpu ! reg_index op AND m)
      | WG_OPERAND_IMM \<Rightarrow> Some (imm op AND m)
      | WG_OPERAND_REL \<Rightarrow> Some (imm op AND m)
      | WG_OPERAND_MEM \<Rightarrow>
          (let addr = mem_addr cpu op in
           if o_size op = 1 then map_option ucast (wg_memory_read_u8 mem addr)
           else if o_size op = 2 then map_option ucast (wg_memory_read_u16 mem addr)
           else if o_size op = 4 then map_option ucast (wg_memory_read_u32 mem addr)
           else if o_size op = 8 then wg_memory_read_u64 mem addr
           else Some 0)
      | WG_OPERAND_NONE \<Rightarrow> Some 0)"

definition write_operand ::
    "WGx86State \<Rightarrow> WGMemorySpace \<Rightarrow> WGOperand \<Rightarrow> u64 \<Rightarrow> (WGx86State \<times> WGMemorySpace) option" where
  "write_operand cpu mem op val =
     (let m = mask_for (o_size op) in
      case o_type op of
        WG_OPERAND_REG \<Rightarrow>
          Some (let r = reg_index op;
                    new = (if o_size op = 4 then val AND 0xFFFFFFFF
                           else if o_size op < 4 then (gpr cpu ! r AND NOT m) OR (val AND m)
                           else val)
                in cpu\<lparr>gpr := (gpr cpu)[r := new]\<rparr>, mem)
      | WG_OPERAND_MEM \<Rightarrow>
          (let addr = mem_addr cpu op in
           map_option (Pair cpu)
             (if o_size op = 1 then wg_memory_write_u8 mem addr (ucast val)
              else if o_size op = 2 then wg_memory_write_u16 mem addr (ucast val)
              else if o_size op = 4 then wg_memory_write_u32 mem addr (ucast val)
              else if o_size op = 8 then wg_memory_write_u64 mem addr val
              else Some mem))
      | _ \<Rightarrow> Some (cpu, mem))"

definition compute_ea :: "WGx86State \<Rightarrow> WGOperand \<Rightarrow> u64" where
  "compute_ea cpu op = (if o_type op \<noteq> WG_OPERAND_MEM then 0 else mem_addr cpu op)"

definition eval_condition :: "WGx86State \<Rightarrow> u8 \<Rightarrow> bool" where
  "eval_condition cpu cc =
     (let cf = wg_x86_get_flag cpu WG_FLAG_CF;
          zf = wg_x86_get_flag cpu WG_FLAG_ZF;
          sf = wg_x86_get_flag cpu WG_FLAG_SF;
          ov = wg_x86_get_flag cpu WG_FLAG_OF;
          pf = wg_x86_get_flag cpu WG_FLAG_PF;
          k = cc AND 0xF
      in if k = 0x0 then ov
         else if k = 0x1 then \<not> ov
         else if k = 0x2 then cf
         else if k = 0x3 then \<not> cf
         else if k = 0x4 then zf
         else if k = 0x5 then \<not> zf
         else if k = 0x6 then cf \<or> zf
         else if k = 0x7 then \<not> cf \<and> \<not> zf
         else if k = 0x8 then sf
         else if k = 0x9 then \<not> sf
         else if k = 0xA then pf
         else if k = 0xB then \<not> pf
         else if k = 0xC then sf \<noteq> ov
         else if k = 0xD then sf = ov
         else if k = 0xE then zf \<or> sf \<noteq> ov
         else \<not> zf \<and> sf = ov)"

definition gpr_set :: "WGx86State \<Rightarrow> nat \<Rightarrow> u64 \<Rightarrow> WGx86State" where
  "gpr_set cpu r v = cpu\<lparr>gpr := (gpr cpu)[r := v]\<rparr>"

definition push64 :: "WGx86State \<Rightarrow> WGMemorySpace \<Rightarrow> u64 \<Rightarrow> (WGx86State \<times> WGMemorySpace) option" where
  "push64 cpu mem val =
     (let cpu = gpr_set cpu WG_REG_RSP (gpr cpu ! WG_REG_RSP - 8)
      in map_option (Pair cpu) (wg_memory_write_u64 mem (gpr cpu ! WG_REG_RSP) val))"

definition pop64 :: "WGx86State \<Rightarrow> WGMemorySpace \<Rightarrow> (u64 \<times> WGx86State) option" where
  "pop64 cpu mem = do {
     val \<leftarrow> wg_memory_read_u64 mem (gpr cpu ! WG_REG_RSP);
     Some (val, gpr_set cpu WG_REG_RSP (gpr cpu ! WG_REG_RSP + 8)) }"

subsection \<open>The cases of the switch\<close>

text \<open>\<open>nr\<close> is \<open>next_rip\<close>; operand \<open>k\<close> of the instruction is \<open>opnd insn k\<close>.\<close>

definition opnd :: "WGInstruction \<Rightarrow> nat \<Rightarrow> WGOperand" where
  "opnd insn k = operands insn ! k"

definition op_bits :: "WGInstruction \<Rightarrow> nat" where
  "op_bits insn = op_size insn * 8"

definition exec_mov :: "WGx86State \<Rightarrow> WGMemorySpace \<Rightarrow> u64 \<Rightarrow> WGInstruction \<Rightarrow> flow option" where
  "exec_mov cpu mem nr insn = do {
     val \<leftarrow> read_operand cpu mem (opnd insn 1);
     (cpu, mem) \<leftarrow> write_operand cpu mem (opnd insn 0) val;
     Some (Break nr cpu mem) }"

definition exec_movsx :: "WGx86State \<Rightarrow> WGMemorySpace \<Rightarrow> u64 \<Rightarrow> WGInstruction \<Rightarrow> flow option" where
  "exec_movsx cpu mem nr insn = do {
     val \<leftarrow> read_operand cpu mem (opnd insn 1);
     sval \<leftarrow> sign_extend val (o_size (opnd insn 1));
     (cpu, mem) \<leftarrow> write_operand cpu mem (opnd insn 0) sval;
     Some (Break nr cpu mem) }"

definition exec_lea :: "WGx86State \<Rightarrow> WGMemorySpace \<Rightarrow> u64 \<Rightarrow> WGInstruction \<Rightarrow> flow option" where
  "exec_lea cpu mem nr insn = do {
     (cpu, mem) \<leftarrow> write_operand cpu mem (opnd insn 0) (compute_ea cpu (opnd insn 1));
     Some (Break nr cpu mem) }"

definition exec_xchg :: "WGx86State \<Rightarrow> WGMemorySpace \<Rightarrow> u64 \<Rightarrow> WGInstruction \<Rightarrow> flow option" where
  "exec_xchg cpu mem nr insn = do {
     a \<leftarrow> read_operand cpu mem (opnd insn 0);
     b \<leftarrow> read_operand cpu mem (opnd insn 1);
     (cpu, mem) \<leftarrow> write_operand cpu mem (opnd insn 0) b;
     (cpu, mem) \<leftarrow> write_operand cpu mem (opnd insn 1) a;
     Some (Break nr cpu mem) }"

definition exec_push :: "WGx86State \<Rightarrow> WGMemorySpace \<Rightarrow> u64 \<Rightarrow> WGInstruction \<Rightarrow> flow option" where
  "exec_push cpu mem nr insn = do {
     val \<leftarrow> read_operand cpu mem (opnd insn 0);
     (cpu, mem) \<leftarrow> push64 cpu mem val;
     Some (Break nr cpu mem) }"

definition exec_pop :: "WGx86State \<Rightarrow> WGMemorySpace \<Rightarrow> u64 \<Rightarrow> WGInstruction \<Rightarrow> flow option" where
  "exec_pop cpu mem nr insn = do {
     (val, cpu) \<leftarrow> pop64 cpu mem;
     (cpu, mem) \<leftarrow> write_operand cpu mem (opnd insn 0) val;
     Some (Break nr cpu mem) }"

text \<open>The operands of a two-operand ALU instruction; a narrower source is sign-extended.\<close>

definition alu_operands :: "WGx86State \<Rightarrow> WGMemorySpace \<Rightarrow> WGInstruction \<Rightarrow> (u64 \<times> u64) option" where
  "alu_operands cpu mem insn = do {
     a \<leftarrow> read_operand cpu mem (opnd insn 0);
     b \<leftarrow> read_operand cpu mem (opnd insn 1);
     b \<leftarrow> (if o_size (opnd insn 1) < o_size (opnd insn 0)
          then sign_extend b (o_size (opnd insn 1)) else Some b);
     Some (a, b) }"

definition exec_add :: "WGx86State \<Rightarrow> WGMemorySpace \<Rightarrow> u64 \<Rightarrow> WGInstruction \<Rightarrow> flow option" where
  "exec_add cpu mem nr insn = do {
     (a, b) \<leftarrow> alu_operands cpu mem insn;
     let r = a + b;
     (cpu, mem) \<leftarrow> write_operand cpu mem (opnd insn 0) r;
     Some (Break nr (wg_x86_update_flags_add cpu a b r (op_bits insn)) mem) }"

definition exec_sub :: "WGx86State \<Rightarrow> WGMemorySpace \<Rightarrow> u64 \<Rightarrow> WGInstruction \<Rightarrow> flow option" where
  "exec_sub cpu mem nr insn = do {
     (a, b) \<leftarrow> alu_operands cpu mem insn;
     let r = a - b;
     (cpu, mem) \<leftarrow> write_operand cpu mem (opnd insn 0) r;
     Some (Break nr (wg_x86_update_flags_sub cpu a b r (op_bits insn)) mem) }"

definition exec_cmp :: "WGx86State \<Rightarrow> WGMemorySpace \<Rightarrow> u64 \<Rightarrow> WGInstruction \<Rightarrow> flow option" where
  "exec_cmp cpu mem nr insn = do {
     (a, b) \<leftarrow> alu_operands cpu mem insn;
     Some (Break nr (wg_x86_update_flags_sub cpu a b (a - b) (op_bits insn)) mem) }"

definition exec_logic ::
    "(u64 \<Rightarrow> u64 \<Rightarrow> u64) \<Rightarrow> WGx86State \<Rightarrow> WGMemorySpace \<Rightarrow> u64 \<Rightarrow> WGInstruction \<Rightarrow> flow option" where
  "exec_logic f cpu mem nr insn = do {
     (a, b) \<leftarrow> alu_operands cpu mem insn;
     let r = f a b;
     (cpu, mem) \<leftarrow> write_operand cpu mem (opnd insn 0) r;
     Some (Break nr (wg_x86_update_flags_logic cpu r (op_bits insn)) mem) }"

definition exec_not :: "WGx86State \<Rightarrow> WGMemorySpace \<Rightarrow> u64 \<Rightarrow> WGInstruction \<Rightarrow> flow option" where
  "exec_not cpu mem nr insn = do {
     val \<leftarrow> read_operand cpu mem (opnd insn 0);
     (cpu, mem) \<leftarrow> write_operand cpu mem (opnd insn 0) (NOT val);
     Some (Break nr cpu mem) }"

definition exec_neg :: "WGx86State \<Rightarrow> WGMemorySpace \<Rightarrow> u64 \<Rightarrow> WGInstruction \<Rightarrow> flow option" where
  "exec_neg cpu mem nr insn = do {
     val \<leftarrow> read_operand cpu mem (opnd insn 0);
     let r = NOT val + 1;
     (cpu, mem) \<leftarrow> write_operand cpu mem (opnd insn 0) r;
     Some (Break nr (wg_x86_update_flags_sub cpu 0 val r (op_bits insn)) mem) }"

definition exec_inc :: "WGx86State \<Rightarrow> WGMemorySpace \<Rightarrow> u64 \<Rightarrow> WGInstruction \<Rightarrow> flow option" where
  "exec_inc cpu mem nr insn = do {
     val \<leftarrow> read_operand cpu mem (opnd insn 0);
     let r = val + 1;
     (cpu, mem) \<leftarrow> write_operand cpu mem (opnd insn 0) r;
     let old_cf = wg_x86_get_flag cpu WG_FLAG_CF;
     let cpu = wg_x86_update_flags_add cpu val 1 r (op_bits insn);
     Some (Break nr (wg_x86_set_flag cpu WG_FLAG_CF old_cf) mem) }"

definition exec_dec :: "WGx86State \<Rightarrow> WGMemorySpace \<Rightarrow> u64 \<Rightarrow> WGInstruction \<Rightarrow> flow option" where
  "exec_dec cpu mem nr insn = do {
     val \<leftarrow> read_operand cpu mem (opnd insn 0);
     let r = val - 1;
     (cpu, mem) \<leftarrow> write_operand cpu mem (opnd insn 0) r;
     let old_cf = wg_x86_get_flag cpu WG_FLAG_CF;
     let cpu = wg_x86_update_flags_sub cpu val 1 r (op_bits insn);
     Some (Break nr (wg_x86_set_flag cpu WG_FLAG_CF old_cf) mem) }"

definition exec_test :: "WGx86State \<Rightarrow> WGMemorySpace \<Rightarrow> u64 \<Rightarrow> WGInstruction \<Rightarrow> flow option" where
  "exec_test cpu mem nr insn = do {
     a \<leftarrow> read_operand cpu mem (opnd insn 0);
     b \<leftarrow> read_operand cpu mem (opnd insn 1);
     Some (Break nr (wg_x86_update_flags_logic cpu (a AND b) (op_bits insn)) mem) }"

text \<open>A shift count of 64 or more is undefined; \<open>count\<close> is at most 63 by its mask.\<close>

definition shr_ub :: "u64 \<Rightarrow> u64 \<Rightarrow> u64 option" where
  "shr_ub val n = (if n < 64 then Some (drop_bit (unat n) val) else None)"

definition exec_shl :: "WGx86State \<Rightarrow> WGMemorySpace \<Rightarrow> u64 \<Rightarrow> WGInstruction \<Rightarrow> flow option" where
  "exec_shl cpu mem nr insn = do {
     val \<leftarrow> read_operand cpu mem (opnd insn 0);
     cnt \<leftarrow> read_operand cpu mem (opnd insn 1);
     let cnt = cnt AND 0x3F;
     if cnt > 0 then do {
       let r = push_bit (unat cnt) val;
       (cpu, mem) \<leftarrow> write_operand cpu mem (opnd insn 0) r;
       let cpu = wg_x86_update_flags_logic cpu r (op_bits insn);
       cf \<leftarrow> shr_ub val (of_nat (op_bits insn) - cnt);
       Some (Break nr (wg_x86_set_flag cpu WG_FLAG_CF (cf AND 1 \<noteq> 0)) mem) }
     else Some (Break nr cpu mem) }"

definition exec_shr :: "WGx86State \<Rightarrow> WGMemorySpace \<Rightarrow> u64 \<Rightarrow> WGInstruction \<Rightarrow> flow option" where
  "exec_shr cpu mem nr insn = do {
     val \<leftarrow> read_operand cpu mem (opnd insn 0);
     cnt \<leftarrow> read_operand cpu mem (opnd insn 1);
     let cnt = cnt AND 0x3F;
     if cnt > 0 then do {
       let r = drop_bit (unat cnt) (val AND mask_for (op_size insn));
       (cpu, mem) \<leftarrow> write_operand cpu mem (opnd insn 0) r;
       let cpu = wg_x86_update_flags_logic cpu r (op_bits insn);
       cf \<leftarrow> shr_ub val (cnt - 1);
       Some (Break nr (wg_x86_set_flag cpu WG_FLAG_CF (cf AND 1 \<noteq> 0)) mem) }
     else Some (Break nr cpu mem) }"

definition exec_sar :: "WGx86State \<Rightarrow> WGMemorySpace \<Rightarrow> u64 \<Rightarrow> WGInstruction \<Rightarrow> flow option" where
  "exec_sar cpu mem nr insn = do {
     val \<leftarrow> read_operand cpu mem (opnd insn 0);
     cnt \<leftarrow> read_operand cpu mem (opnd insn 1);
     let cnt = cnt AND 0x3F;
     if cnt > 0 then do {
       sval \<leftarrow> sign_extend val (op_size insn);
       let r = signed_drop_bit (unat cnt) sval;
       (cpu, mem) \<leftarrow> write_operand cpu mem (opnd insn 0) r;
       let cpu = wg_x86_update_flags_logic cpu r (op_bits insn);
       cf \<leftarrow> shr_ub val (cnt - 1);
       Some (Break nr (wg_x86_set_flag cpu WG_FLAG_CF (cf AND 1 \<noteq> 0)) mem) }
     else Some (Break nr cpu mem) }"

text \<open>The one-operand product is 128 bits wide and cannot overflow; the other two are \<open>int64_t\<close>.\<close>

definition exec_imul :: "WGx86State \<Rightarrow> WGMemorySpace \<Rightarrow> u64 \<Rightarrow> WGInstruction \<Rightarrow> flow option" where
  "exec_imul cpu mem nr insn =
     (if num_operands insn = 1 then do {
        a \<leftarrow> sign_extend (gpr cpu ! WG_REG_RAX) (op_size insn);
        v \<leftarrow> read_operand cpu mem (opnd insn 0);
        b \<leftarrow> sign_extend v (op_size insn);
        let r = sint a * sint b;
        let cpu = gpr_set cpu WG_REG_RAX (word_of_int r AND mask_for (op_size insn));
        let cpu = gpr_set cpu WG_REG_RDX
                    (word_of_int (drop_bit (op_size insn * 8) r) AND mask_for (op_size insn));
        Some (Break nr cpu mem) }
      else if num_operands insn = 2 then do {
        v \<leftarrow> read_operand cpu mem (opnd insn 0);
        a \<leftarrow> sign_extend v (op_size insn);
        w \<leftarrow> read_operand cpu mem (opnd insn 1);
        b \<leftarrow> sign_extend w (op_size insn);
        r \<leftarrow> smul64 a b;
        (cpu, mem) \<leftarrow> write_operand cpu mem (opnd insn 0) r;
        Some (Break nr cpu mem) }
      else do {
        v \<leftarrow> read_operand cpu mem (opnd insn 1);
        b \<leftarrow> sign_extend v (op_size insn);
        w \<leftarrow> read_operand cpu mem (opnd insn 2);
        i \<leftarrow> sign_extend w (op_size insn);
        r \<leftarrow> smul64 b i;
        (cpu, mem) \<leftarrow> write_operand cpu mem (opnd insn 0) r;
        Some (Break nr cpu mem) })"

text \<open>The target of \<open>JMP\<close> and \<open>CALL\<close>.\<close>

definition branch_target :: "WGx86State \<Rightarrow> WGMemorySpace \<Rightarrow> WGOperand \<Rightarrow> u64 option" where
  "branch_target cpu mem op =
     (if o_type op = WG_OPERAND_REL then Some (imm op) else read_operand cpu mem op)"

definition exec_jmp :: "WGx86State \<Rightarrow> WGMemorySpace \<Rightarrow> u64 \<Rightarrow> WGInstruction \<Rightarrow> flow option" where
  "exec_jmp cpu mem nr insn = do {
     nr \<leftarrow> branch_target cpu mem (opnd insn 0);
     Some (Break nr cpu mem) }"

definition exec_jcc :: "WGx86State \<Rightarrow> WGMemorySpace \<Rightarrow> u64 \<Rightarrow> WGInstruction \<Rightarrow> flow option" where
  "exec_jcc cpu mem nr insn =
     Some (Break (if eval_condition cpu (condition insn) then imm (opnd insn 0) else nr) cpu mem)"

text \<open>A call into \<open>[0xDEAD0000, 0xDEAF0000)\<close> is a call of a Win32 stub.\<close>

definition exec_call :: "WGx86State \<Rightarrow> WGMemorySpace \<Rightarrow> u64 \<Rightarrow> WGInstruction \<Rightarrow> flow option" where
  "exec_call cpu mem nr insn = do {
     (cpu, mem) \<leftarrow> push64 cpu mem nr;
     nr \<leftarrow> branch_target cpu mem (opnd insn 0);
     if nr \<ge> 0xDEAD0000 \<and> nr < 0xDEAF0000 then do {
       (nr, cpu) \<leftarrow> pop64 cpu mem;
       Some (Return WG_INTERP_SYSCALL (cpu\<lparr>rip := nr\<rparr>) mem) }
     else Some (Break nr cpu mem) }"

definition exec_ret :: "WGx86State \<Rightarrow> WGMemorySpace \<Rightarrow> u64 \<Rightarrow> WGInstruction \<Rightarrow> flow option" where
  "exec_ret cpu mem nr insn = do {
     (nr, cpu) \<leftarrow> pop64 cpu mem;
     let cpu = (if num_operands insn > 0
                then gpr_set cpu WG_REG_RSP (gpr cpu ! WG_REG_RSP + imm (opnd insn 0)) else cpu);
     if nr = 0 then Some (Return WG_INTERP_HALT (cpu\<lparr>rip := nr\<rparr>) mem)
     else Some (Break nr cpu mem) }"

definition exec_leave :: "WGx86State \<Rightarrow> WGMemorySpace \<Rightarrow> u64 \<Rightarrow> WGInstruction \<Rightarrow> flow option" where
  "exec_leave cpu mem nr insn = do {
     let cpu = gpr_set cpu WG_REG_RSP (gpr cpu ! WG_REG_RBP);
     (v, cpu) \<leftarrow> pop64 cpu mem;
     Some (Break nr (gpr_set cpu WG_REG_RBP v) mem) }"

definition exec_cmovcc :: "WGx86State \<Rightarrow> WGMemorySpace \<Rightarrow> u64 \<Rightarrow> WGInstruction \<Rightarrow> flow option" where
  "exec_cmovcc cpu mem nr insn =
     (if eval_condition cpu (condition insn) then do {
        val \<leftarrow> read_operand cpu mem (opnd insn 1);
        (cpu, mem) \<leftarrow> write_operand cpu mem (opnd insn 0) val;
        Some (Break nr cpu mem) }
      else Some (Break nr cpu mem))"

definition exec_setcc :: "WGx86State \<Rightarrow> WGMemorySpace \<Rightarrow> u64 \<Rightarrow> WGInstruction \<Rightarrow> flow option" where
  "exec_setcc cpu mem nr insn = do {
     (cpu, mem) \<leftarrow> write_operand cpu mem (opnd insn 0)
                     (if eval_condition cpu (condition insn) then 1 else 0);
     Some (Break nr cpu mem) }"

definition exec_cdq :: "WGx86State \<Rightarrow> WGx86State" where
  "exec_cdq cpu =
     (let rdx = gpr cpu ! WG_REG_RDX
      in if sint (ucast (gpr cpu ! WG_REG_RAX) :: u32) < 0
         then gpr_set cpu WG_REG_RDX ((rdx AND NOT 0xFFFFFFFF) OR 0xFFFFFFFF)
         else gpr_set cpu WG_REG_RDX (rdx AND NOT 0xFFFFFFFF))"

definition exec_cqo :: "WGx86State \<Rightarrow> WGx86State" where
  "exec_cqo cpu = gpr_set cpu WG_REG_RDX (if sint (gpr cpu ! WG_REG_RAX) < 0 then NOT 0 else 0)"

definition exec_cdqe :: "WGx86State \<Rightarrow> WGx86State" where
  "exec_cdqe cpu = gpr_set cpu WG_REG_RAX
     (scast (ucast (gpr cpu ! WG_REG_RAX AND 0xFFFFFFFF) :: u32))"

definition exec_cwde :: "WGx86State \<Rightarrow> WGx86State" where
  "exec_cwde cpu =
     (let rax = gpr cpu ! WG_REG_RAX
      in gpr_set cpu WG_REG_RAX ((rax AND NOT 0xFFFFFFFF)
           OR ucast (scast (ucast (rax AND 0xFFFF) :: u16) :: u32)))"

definition bswap32 :: "u32 \<Rightarrow> u32" where
  "bswap32 v = of_le (rev (to_le 4 v))"

definition bswap64 :: "u64 \<Rightarrow> u64" where
  "bswap64 v = of_le (rev (to_le 8 v))"

definition exec_bswap :: "WGx86State \<Rightarrow> WGInstruction \<Rightarrow> WGx86State" where
  "exec_bswap cpu insn =
     (let r = reg_index (opnd insn 0);
          val = gpr cpu ! r
      in gpr_set cpu r (if op_size insn = 8 then bswap64 val else ucast (bswap32 (ucast val))))"

definition exec_cpuid :: "WGx86State \<Rightarrow> WGx86State" where
  "exec_cpuid cpu =
     (let leaf = (ucast (gpr cpu ! WG_REG_RAX) :: u32);
          put = (\<lambda>a b c d. gpr_set (gpr_set (gpr_set (gpr_set cpu WG_REG_RAX a) WG_REG_RBX b)
                              WG_REG_RCX c) WG_REG_RDX d)
      in if leaf = 0 then put 0x16 0x656E6957 0x00007373 0x73616C47
         else if leaf = 1 then put 0x000906EA 0x00100800 0x7FFAFBBF 0xBFEBFBFF
         else put 0 0 0 0)"

definition exec_xorps :: "WGx86State \<Rightarrow> WGInstruction \<Rightarrow> WGx86State" where
  "exec_xorps cpu insn =
     (let dst = reg_index (opnd insn 0); src = reg_index (opnd insn 1)
      in if o_type (opnd insn 1) = WG_OPERAND_REG
         then cpu\<lparr>xmm := (xmm cpu)[dst := (fst (xmm cpu ! dst) XOR fst (xmm cpu ! src),
                                          snd (xmm cpu ! dst) XOR snd (xmm cpu ! src))]\<rparr>
         else cpu)"

subsection \<open>One instruction\<close>

text \<open>The opcodes that fall into the \<open>default\<close> branch are skipped: the code only logs them.\<close>

definition exec_insn :: "WGx86State \<Rightarrow> WGMemorySpace \<Rightarrow> u64 \<Rightarrow> WGInstruction \<Rightarrow> flow option" where
  "exec_insn cpu mem nr insn =
     (case opcode insn of
        WG_OP_NOP \<Rightarrow> Some (Break nr cpu mem)
      | WG_OP_MOV \<Rightarrow> exec_mov cpu mem nr insn
      | WG_OP_MOVZX \<Rightarrow> exec_mov cpu mem nr insn
      | WG_OP_MOVSX \<Rightarrow> exec_movsx cpu mem nr insn
      | WG_OP_LEA \<Rightarrow> exec_lea cpu mem nr insn
      | WG_OP_XCHG \<Rightarrow> exec_xchg cpu mem nr insn
      | WG_OP_PUSH \<Rightarrow> exec_push cpu mem nr insn
      | WG_OP_POP \<Rightarrow> exec_pop cpu mem nr insn
      | WG_OP_ADD \<Rightarrow> exec_add cpu mem nr insn
      | WG_OP_SUB \<Rightarrow> exec_sub cpu mem nr insn
      | WG_OP_CMP \<Rightarrow> exec_cmp cpu mem nr insn
      | WG_OP_AND \<Rightarrow> exec_logic (AND) cpu mem nr insn
      | WG_OP_OR \<Rightarrow> exec_logic (OR) cpu mem nr insn
      | WG_OP_XOR \<Rightarrow> exec_logic (XOR) cpu mem nr insn
      | WG_OP_NOT \<Rightarrow> exec_not cpu mem nr insn
      | WG_OP_NEG \<Rightarrow> exec_neg cpu mem nr insn
      | WG_OP_INC \<Rightarrow> exec_inc cpu mem nr insn
      | WG_OP_DEC \<Rightarrow> exec_dec cpu mem nr insn
      | WG_OP_TEST \<Rightarrow> exec_test cpu mem nr insn
      | WG_OP_SHL \<Rightarrow> exec_shl cpu mem nr insn
      | WG_OP_SHR \<Rightarrow> exec_shr cpu mem nr insn
      | WG_OP_SAR \<Rightarrow> exec_sar cpu mem nr insn
      | WG_OP_IMUL \<Rightarrow> exec_imul cpu mem nr insn
      | WG_OP_JMP \<Rightarrow> exec_jmp cpu mem nr insn
      | WG_OP_JCC \<Rightarrow> exec_jcc cpu mem nr insn
      | WG_OP_CALL \<Rightarrow> exec_call cpu mem nr insn
      | WG_OP_RET \<Rightarrow> exec_ret cpu mem nr insn
      | WG_OP_LEAVE \<Rightarrow> exec_leave cpu mem nr insn
      | WG_OP_CMOVCC \<Rightarrow> exec_cmovcc cpu mem nr insn
      | WG_OP_SETCC \<Rightarrow> exec_setcc cpu mem nr insn
      | WG_OP_CDQ \<Rightarrow> Some (Break nr (exec_cdq cpu) mem)
      | WG_OP_CQO \<Rightarrow> Some (Break nr (exec_cqo cpu) mem)
      | WG_OP_CDQE \<Rightarrow> Some (Break nr (exec_cdqe cpu) mem)
      | WG_OP_CWDE \<Rightarrow> Some (Break nr (exec_cwde cpu) mem)
      | WG_OP_BSWAP \<Rightarrow> Some (Break nr (exec_bswap cpu insn) mem)
      | WG_OP_CPUID \<Rightarrow> Some (Break nr (exec_cpuid cpu) mem)
      | WG_OP_XORPS \<Rightarrow> Some (Break nr (exec_xorps cpu insn) mem)
      | WG_OP_CLC \<Rightarrow> Some (Break nr (wg_x86_set_flag cpu WG_FLAG_CF False) mem)
      | WG_OP_STC \<Rightarrow> Some (Break nr (wg_x86_set_flag cpu WG_FLAG_CF True) mem)
      | WG_OP_CMC \<Rightarrow> Some (Break nr
          (wg_x86_set_flag cpu WG_FLAG_CF (\<not> wg_x86_get_flag cpu WG_FLAG_CF)) mem)
      | WG_OP_CLD \<Rightarrow> Some (Break nr (wg_x86_set_flag cpu WG_FLAG_DF False) mem)
      | WG_OP_STD \<Rightarrow> Some (Break nr (wg_x86_set_flag cpu WG_FLAG_DF True) mem)
      | WG_OP_HLT \<Rightarrow> Some (Return WG_INTERP_HALT (cpu\<lparr>rip := nr\<rparr>) mem)
      | WG_OP_SYSCALL \<Rightarrow> Some (Return WG_INTERP_SYSCALL (cpu\<lparr>rip := nr\<rparr>) mem)
      | WG_OP_INT \<Rightarrow> Some (Return WG_INTERP_SYSCALL (cpu\<lparr>rip := nr\<rparr>) mem)
      | WG_OP_UNKNOWN \<Rightarrow> Some (Return WG_INTERP_ERROR cpu mem)
      | _ \<Rightarrow> Some (Break nr cpu mem))"

text \<open>The sixteen bytes at RIP, fetched one by one.\<close>

fun fetch_code :: "WGMemorySpace \<Rightarrow> u64 \<Rightarrow> nat \<Rightarrow> u8 list option" where
  "fetch_code mem a 0 = Some []"
| "fetch_code mem a (Suc n) = do {
     b \<leftarrow> wg_memory_read_u8 mem a;
     bs \<leftarrow> fetch_code mem (a + 1) n;
     Some (b # bs) }"

definition wg_x86_exec_one ::
    "WGx86State \<Rightarrow> WGMemorySpace \<Rightarrow> (WGInterpResult \<times> WGx86State \<times> WGMemorySpace) option" where
  "wg_x86_exec_one cpu mem = do {
     buf \<leftarrow> fetch_code mem (rip cpu) 16;
     (len, insn) \<leftarrow> wg_x86_decode buf (rip cpu);
     if len = 0 then Some (WG_INTERP_ERROR, cpu, mem)
     else do {
       let next_rip = rip cpu + of_nat len;
       let cpu = cpu\<lparr>instruction_count := instruction_count cpu + 1\<rparr>;
       fl \<leftarrow> exec_insn cpu mem next_rip insn;
       Some (case fl of
               Break nr cpu mem \<Rightarrow> (WG_INTERP_OK, cpu\<lparr>rip := nr\<rparr>, mem)
             | Return res cpu mem \<Rightarrow> (res, cpu, mem)) } }"

text \<open>The loop \<open>for (i = 0; i < max_insns; i++)\<close> by the iterations that are left; \<open>max_insns\<close> is an
  \<open>int\<close>, of which a negative one runs nothing.\<close>

fun exec_upto ::
    "WGx86State \<Rightarrow> WGMemorySpace \<Rightarrow> nat \<Rightarrow> (WGInterpResult \<times> WGx86State \<times> WGMemorySpace) option" where
  "exec_upto cpu mem 0 = Some (WG_INTERP_OK, cpu, mem)"
| "exec_upto cpu mem (Suc n) = do {
     (r, cpu, mem) \<leftarrow> wg_x86_exec_one cpu mem;
     if r \<noteq> WG_INTERP_OK then Some (r, cpu, mem) else exec_upto cpu mem n }"

definition wg_x86_exec_block ::
    "WGx86State \<Rightarrow> WGMemorySpace \<Rightarrow> u32 \<Rightarrow> (WGInterpResult \<times> WGx86State \<times> WGMemorySpace) option" where
  "wg_x86_exec_block cpu mem max_insns = exec_upto cpu mem (nat (sint max_insns))"

subsection \<open>Shape of the state\<close>

text \<open>No instruction maps, unmaps or reprotects memory, and the register file keeps its sixteen entries.\<close>

definition mem_shape :: "WGMemorySpace \<Rightarrow> (u64 \<times> u64 \<times> u32) list" where
  "mem_shape mem = map (\<lambda>r. (r_base r, r_size r, r_prot r)) (regions mem)"

lemma store_shape: "store_bytes mem p bs = Some mem' \<Longrightarrow> mem_shape mem' = mem_shape mem"
proof -
  have u: "map f (xs[i := y]) = map f xs" if "i < length xs \<longrightarrow> f y = f (xs ! i)" for f :: "WGMemRegion \<Rightarrow> u64 \<times> u64 \<times> u32" and xs i y
    using that by (cases "i < length xs") (simp_all add: map_update list_update_same_conv list_update_beyond)
  assume "store_bytes mem p bs = Some mem'"
  then show ?thesis
    by (cases p) (auto simp: store_bytes_def mem_shape_def Let_def intro!: u split: if_splits)
qed

lemma write_shape:
  "wg_memory_write_u8 mem a b8 = Some mem' \<Longrightarrow> mem_shape mem' = mem_shape mem"
  "wg_memory_write_u16 mem a b16 = Some mem' \<Longrightarrow> mem_shape mem' = mem_shape mem"
  "wg_memory_write_u32 mem a b32 = Some mem' \<Longrightarrow> mem_shape mem' = mem_shape mem"
  "wg_memory_write_u64 mem a b64 = Some mem' \<Longrightarrow> mem_shape mem' = mem_shape mem"
  by (auto simp: wg_memory_write_u8_def wg_memory_write_u16_def wg_memory_write_u32_def
      wg_memory_write_u64_def simp del: to_le_numeral to_le_one split: option.splits dest: store_shape)

text \<open>What every handler keeps: the shape, well-formedness, and the instruction counter.\<close>

definition same_shape :: "WGx86State \<Rightarrow> WGMemorySpace \<Rightarrow> WGx86State \<Rightarrow> WGMemorySpace \<Rightarrow> bool" where
  "same_shape cpu mem cpu' mem' \<longleftrightarrow> length (gpr cpu') = length (gpr cpu)
     \<and> length (xmm cpu') = length (xmm cpu)
     \<and> instruction_count cpu' = instruction_count cpu \<and> mem_shape mem' = mem_shape mem"

lemma same_shape_refl [simp]: "same_shape cpu mem cpu mem"
  by (simp add: same_shape_def)

lemma same_shape_trans: "same_shape a m b n \<Longrightarrow> same_shape b n c k \<Longrightarrow> same_shape a m c k"
  by (simp add: same_shape_def)

lemma gpr_set_frame [frame_simps, simp]:
  "length (gpr (gpr_set cpu r v)) = length (gpr cpu)" "xmm (gpr_set cpu r v) = xmm cpu"
  "instruction_count (gpr_set cpu r v) = instruction_count cpu" "rip (gpr_set cpu r v) = rip cpu"
  "rflags (gpr_set cpu r v) = rflags cpu"
  by (simp_all add: gpr_set_def)

lemma update_flags_frame2 [frame_simps, simp]:
  "xmm (wg_x86_update_flags_add s a b r n) = xmm s" "xmm (wg_x86_update_flags_sub s a b r n) = xmm s"
  "xmm (wg_x86_update_flags_logic s r n) = xmm s"
  "instruction_count (wg_x86_update_flags_add s a b r n) = instruction_count s"
  "instruction_count (wg_x86_update_flags_sub s a b r n) = instruction_count s"
  "instruction_count (wg_x86_update_flags_logic s r n) = instruction_count s"
  by (simp_all add: wg_x86_update_flags_add_def wg_x86_update_flags_sub_def
      wg_x86_update_flags_logic_def Let_def)

lemma write_operand_shape:
  "write_operand cpu mem op v = Some (cpu', mem') \<Longrightarrow> same_shape cpu mem cpu' mem'"
  by (auto simp: write_operand_def same_shape_def Let_def dest: write_shape
      split: WGOperandType.splits if_splits)

lemma push64_shape: "push64 cpu mem v = Some (cpu', mem') \<Longrightarrow> same_shape cpu mem cpu' mem'"
  by (auto simp: push64_def same_shape_def Let_def dest: write_shape)

lemma pop64_shape: "pop64 cpu mem = Some (v, cpu') \<Longrightarrow> same_shape cpu mem cpu' mem"
  by (auto simp: pop64_def same_shape_def split: bind_splits)

definition flow_shape :: "WGx86State \<Rightarrow> WGMemorySpace \<Rightarrow> flow option \<Rightarrow> bool" where
  "flow_shape cpu mem r \<longleftrightarrow>
     (case r of None \<Rightarrow> True
      | Some (Break nr cpu' mem') \<Rightarrow> same_shape cpu mem cpu' mem'
      | Some (Return res cpu' mem') \<Rightarrow> same_shape cpu mem cpu' mem')"

lemma flow_shape_simps [simp]:
  "flow_shape cpu mem None" "flow_shape cpu mem (Some (Break nr c m)) = same_shape cpu mem c m"
  "flow_shape cpu mem (Some (Return res c m)) = same_shape cpu mem c m"
  by (simp_all add: flow_shape_def)

lemma flow_shape_bind:
  "(\<And>v. X = Some v \<Longrightarrow> flow_shape cpu mem (f v)) \<Longrightarrow> flow_shape cpu mem (X \<bind> f)"
  by (cases X) simp_all

lemma flow_shape_write:
  "(\<And>c m. same_shape cpu mem c m \<Longrightarrow> flow_shape cpu mem (f c m)) \<Longrightarrow> same_shape cpu mem c0 m0 \<Longrightarrow>
   flow_shape cpu mem (write_operand c0 m0 op v \<bind> (\<lambda>(c, m). f c m))"
  by (cases "write_operand c0 m0 op v") (auto dest: write_operand_shape intro: same_shape_trans)

lemma flow_shape_push:
  "(\<And>c m. same_shape cpu mem c m \<Longrightarrow> flow_shape cpu mem (f c m)) \<Longrightarrow> same_shape cpu mem c0 m0 \<Longrightarrow>
   flow_shape cpu mem (push64 c0 m0 v \<bind> (\<lambda>(c, m). f c m))"
  by (cases "push64 c0 m0 v") (auto dest: push64_shape intro: same_shape_trans)

lemma flow_shape_pop:
  "(\<And>v c. same_shape cpu mem c m0 \<Longrightarrow> flow_shape cpu mem (f v c)) \<Longrightarrow> same_shape cpu mem c0 m0 \<Longrightarrow>
   flow_shape cpu mem (pop64 c0 m0 \<bind> (\<lambda>(v, c). f v c))"
  by (cases "pop64 c0 m0") (auto dest: pop64_shape intro: same_shape_trans)

lemma flow_shape_alu:
  "(\<And>a b. flow_shape cpu mem (f a b)) \<Longrightarrow> flow_shape cpu mem (alu_operands c0 m0 insn \<bind> (\<lambda>(a, b). f a b))"
  by (cases "alu_operands c0 m0 insn") auto

lemma flow_shape_if:
  "(P \<Longrightarrow> flow_shape cpu mem x) \<Longrightarrow> (\<not> P \<Longrightarrow> flow_shape cpu mem y) \<Longrightarrow> flow_shape cpu mem (if P then x else y)"
  by simp

lemma same_shape_upd [simp]:
  "same_shape cpu mem (gpr_set c r v) m = same_shape cpu mem c m"
  "same_shape cpu mem (wg_x86_set_flag c fl b) m = same_shape cpu mem c m"
  "same_shape cpu mem (wg_x86_update_flags_add c x y z n) m = same_shape cpu mem c m"
  "same_shape cpu mem (wg_x86_update_flags_sub c x y z n) m = same_shape cpu mem c m"
  "same_shape cpu mem (wg_x86_update_flags_logic c z n) m = same_shape cpu mem c m"
  "same_shape cpu mem (c\<lparr>rip := nr\<rparr>) m = same_shape cpu mem c m"
  by (simp_all add: same_shape_def)

lemmas handler_defs = exec_mov_def exec_movsx_def exec_lea_def exec_xchg_def exec_push_def exec_pop_def
  exec_add_def exec_sub_def exec_cmp_def exec_logic_def exec_not_def exec_neg_def exec_inc_def
  exec_dec_def exec_test_def exec_shl_def exec_shr_def exec_sar_def exec_imul_def exec_jmp_def
  exec_jcc_def exec_call_def exec_ret_def exec_leave_def exec_cmovcc_def exec_setcc_def

lemma handlers_shape:
  "flow_shape cpu mem (exec_mov cpu mem nr insn)" "flow_shape cpu mem (exec_movsx cpu mem nr insn)"
  "flow_shape cpu mem (exec_lea cpu mem nr insn)" "flow_shape cpu mem (exec_xchg cpu mem nr insn)"
  "flow_shape cpu mem (exec_push cpu mem nr insn)" "flow_shape cpu mem (exec_pop cpu mem nr insn)"
  "flow_shape cpu mem (exec_add cpu mem nr insn)" "flow_shape cpu mem (exec_sub cpu mem nr insn)"
  "flow_shape cpu mem (exec_cmp cpu mem nr insn)" "flow_shape cpu mem (exec_logic f cpu mem nr insn)"
  "flow_shape cpu mem (exec_not cpu mem nr insn)" "flow_shape cpu mem (exec_neg cpu mem nr insn)"
  "flow_shape cpu mem (exec_inc cpu mem nr insn)" "flow_shape cpu mem (exec_dec cpu mem nr insn)"
  "flow_shape cpu mem (exec_test cpu mem nr insn)" "flow_shape cpu mem (exec_shl cpu mem nr insn)"
  "flow_shape cpu mem (exec_shr cpu mem nr insn)" "flow_shape cpu mem (exec_sar cpu mem nr insn)"
  "flow_shape cpu mem (exec_imul cpu mem nr insn)" "flow_shape cpu mem (exec_jmp cpu mem nr insn)"
  "flow_shape cpu mem (exec_jcc cpu mem nr insn)" "flow_shape cpu mem (exec_call cpu mem nr insn)"
  "flow_shape cpu mem (exec_ret cpu mem nr insn)" "flow_shape cpu mem (exec_leave cpu mem nr insn)"
  "flow_shape cpu mem (exec_cmovcc cpu mem nr insn)" "flow_shape cpu mem (exec_setcc cpu mem nr insn)"
  unfolding handler_defs Let_def
  by ((intro flow_shape_if flow_shape_write flow_shape_push flow_shape_pop flow_shape_alu flow_shape_bind)?; simp)+

lemma pure_handlers_shape [simp]:
  "same_shape cpu mem (exec_cdq cpu) mem" "same_shape cpu mem (exec_cqo cpu) mem"
  "same_shape cpu mem (exec_cdqe cpu) mem" "same_shape cpu mem (exec_cwde cpu) mem"
  "same_shape cpu mem (exec_bswap cpu insn) mem" "same_shape cpu mem (exec_cpuid cpu) mem"
  "same_shape cpu mem (exec_xorps cpu insn) mem"
  by (simp_all add: exec_cdq_def exec_cqo_def exec_cdqe_def exec_cwde_def exec_bswap_def
      exec_cpuid_def exec_xorps_def Let_def) (simp add: same_shape_def)

lemma exec_insn_shape: "flow_shape cpu mem (exec_insn cpu mem nr insn)"
  by (cases "opcode insn") (simp_all add: exec_insn_def handlers_shape)

subsection \<open>Conditions\<close>

text \<open>What each condition code means for a comparison of two words of the operand's width.\<close>

definition cond_ref :: "u8 \<Rightarrow> 'a::len word \<Rightarrow> 'a word \<Rightarrow> bool" where
  "cond_ref cc x y =
     (let ov = (sint x - sint y \<noteq> sint (x - y));
          pf = even (card {k. k < 8 \<and> bit (x - y) k});
          base = (if cc < 2 then ov
            else if cc < 4 then x < y
            else if cc < 6 then x = y
            else if cc < 8 then x \<le> y
            else if cc < 10 then sint (x - y) < 0
            else if cc < 12 then pf
            else if cc < 14 then sint x < sint y
            else sint x \<le> sint y)
      in if bit cc 0 then \<not> base else base)"

lemma sint_sub_overflow:
  fixes x y :: "'a::len word"
  shows "(\<not> (- (2 ^ (LENGTH('a) - 1)) \<le> sint x - sint y \<and> sint x - sint y < 2 ^ (LENGTH('a) - 1)))
     \<longleftrightarrow> sint x - sint y \<noteq> sint (x - y)"
proof
  assume "\<not> (- (2 ^ (LENGTH('a) - 1)) \<le> sint x - sint y \<and> sint x - sint y < 2 ^ (LENGTH('a) - 1))"
  then show "sint x - sint y \<noteq> sint (x - y)"
    using sint_ge [of "x - y"] sint_lt [of "x - y"] by auto
next
  assume "sint x - sint y \<noteq> sint (x - y)"
  moreover have "sint x - sint y = sint (x - y)"
    if "- (2 ^ (LENGTH('a) - 1)) \<le> sint x - sint y \<and> sint x - sint y < 2 ^ (LENGTH('a) - 1)"
    using that by (simp add: sint_word_ariths signed_take_bit_int_eq_self)
  ultimately show "\<not> (- (2 ^ (LENGTH('a) - 1)) \<le> sint x - sint y \<and> sint x - sint y < 2 ^ (LENGTH('a) - 1))"
    by blast
qed

lemma flags_sub_facts:
  fixes x y :: "'a::len word" and s :: WGx86State
  assumes len: "8 \<le> LENGTH('a)" "LENGTH('a) \<le> 64"
  defines "s' \<equiv> wg_x86_update_flags_sub s (ucast x) (ucast y) (ucast x - ucast y) LENGTH('a)"
  shows "wg_x86_get_flag s' WG_FLAG_CF \<longleftrightarrow> x < y"
    "wg_x86_get_flag s' WG_FLAG_ZF \<longleftrightarrow> x = y"
    "wg_x86_get_flag s' WG_FLAG_SF \<longleftrightarrow> sint (x - y) < 0"
    "wg_x86_get_flag s' WG_FLAG_OF \<longleftrightarrow> sint x - sint y \<noteq> sint (x - y)"
    "((sint (x - y) < 0) = (sint x - sint y = sint (x - y))) \<longleftrightarrow> sint x < sint y"
    "wg_x86_get_flag s' WG_FLAG_PF \<longleftrightarrow> even (card {k. k < 8 \<and> bit (x - y) k})"
  unfolding s'_def
  using sub_flags [OF len(2), of s x y] len(1) sint_sub_overflow [of x y] by simp_all argo

lemma cc_below_16:
  assumes "(cc :: u8) < 16"
  shows "cc \<in> {0, 1, 2, 3, 4, 5, 6, 7, 8, 9, 10, 11, 12, 13, 14, 15}"
proof -
  have "unat cc < 16" using assms by (simp add: word_less_nat_alt)
  then have "unat cc \<in> {0, 1, 2, 3, 4, 5, 6, 7, 8, 9, 10, 11, 12, 13, 14, 15}"
    by (simp, presburger)
  moreover have "(of_nat n :: u8) \<in> {0, 1, 2, 3, 4, 5, 6, 7, 8, 9, 10, 11, 12, 13, 14, 15}"
    if "n \<in> {0, 1, 2, 3, 4, 5, 6, 7, 8, 9, 10, 11, 12, 13, 14, 15}" for n
    using that by (elim insertE emptyE; simp)
  moreover have "of_nat (unat cc) = cc" by simp
  ultimately show ?thesis by metis
qed

lemma eval_condition_ref:
  fixes x y :: "'a::len word"
  assumes "8 \<le> LENGTH('a)" "LENGTH('a) \<le> 64" and cc: "cc < 16"
  shows "eval_condition (wg_x86_update_flags_sub s (ucast x) (ucast y) (ucast x - ucast y) LENGTH('a)) cc
    \<longleftrightarrow> cond_ref cc x y"
proof -
  have e: "sint x = sint y \<longleftrightarrow> x = y" by (auto intro: signed_word_eqI)
  show ?thesis
    using cc_below_16 [OF cc] flags_sub_facts(5) [OF assms(1,2), of x y] e
    by (elim insertE emptyE;
      simp add: eval_condition_def flags_sub_facts [OF assms(1,2)] cond_ref_def Let_def; 
      auto simp: not_less le_less word_le_less_eq)
qed

lemma mask_for_eq: "mask_for n = mask_for_bits (8 * n)"
  by (simp add: mask_for_def mask_for_bits_def mult.commute)

lemma and_mask_for:
  assumes "LENGTH('a) = 8 * n" and "n \<le> 8"
  shows "v AND mask_for n = ucast (ucast v :: 'a::len word)"
  using assms by (intro bit_word_eqI) (auto simp: mask_for_eq bit_simps bit_mask_for_bits)

definition cmp_rr :: "nat \<Rightarrow> nat \<Rightarrow> nat \<Rightarrow> nat \<Rightarrow> WGInstruction" where
  "cmp_rr d s sz osz = (set_ops insn0 WG_OP_CMP [reg_operand d sz, reg_operand s sz])\<lparr>op_size := osz\<rparr>"

lemma exec_cmp_rr:
  "exec_insn cpu mem nr (cmp_rr d s sz osz) =
     (let a = gpr cpu ! d AND mask_for sz; b = gpr cpu ! s AND mask_for sz
      in Some (Break nr (wg_x86_update_flags_sub cpu a b (a - b) (osz * 8)) mem))"
  by (simp add: exec_insn_def cmp_rr_def set_ops_def exec_cmp_def alu_operands_def read_operand_def
      opnd_def reg_operand_def operand0_def op_bits_def Let_def insn0_def)

subsection \<open>A reference semantics for the encoder's instructions\<close>

definition code_at :: "WGMemorySpace \<Rightarrow> u64 \<Rightarrow> u8 list \<Rightarrow> bool" where
  "code_at mem a bs \<longleftrightarrow> (\<forall>i < length bs. mem_view mem (a + of_nat i) = Some (bs ! i))"

text \<open>
  The reference is written from the architecture: a flag is a bit of RFLAGS by its number (CF 0,
  PF 2, AF 4, ZF 6, SF 7, OF 11), set from the operands as numbers.  The one deviation it shares
  with the code is that an addition always clears CF; logic leaves AF alone, which the
  architecture leaves undefined.  ADC and SBB, which the code decodes but does not execute, have
  no reference.
\<close>

definition put_bit :: "nat \<Rightarrow> bool \<Rightarrow> u64 \<Rightarrow> u64" where
  "put_bit k b w = (if b then Bit_Operations.set_bit k w else unset_bit k w)"

definition fits64 :: "int \<Rightarrow> bool" where
  "fits64 x \<longleftrightarrow> - (2 ^ 63) \<le> x \<and> x < 2 ^ 63"

definition ref_szp :: "u64 \<Rightarrow> u64 \<Rightarrow> u64" where
  "ref_szp r w = put_bit 7 (sint r < 0) (put_bit 6 (r = 0)
     (put_bit 2 (even (length (filter (bit r) [0..<8]))) w))"

definition add_rflags :: "u64 \<Rightarrow> u64 \<Rightarrow> u64 \<Rightarrow> u64" where
  "add_rflags a b w = put_bit 11 (\<not> fits64 (sint a + sint b))
     (put_bit 4 (16 \<le> unat a mod 16 + unat b mod 16) (put_bit 0 False (ref_szp (a + b) w)))"

definition sub_rflags :: "u64 \<Rightarrow> u64 \<Rightarrow> u64 \<Rightarrow> u64" where
  "sub_rflags a b w = put_bit 11 (\<not> fits64 (sint a - sint b))
     (put_bit 4 (unat a mod 16 < unat b mod 16) (put_bit 0 (unat a < unat b) (ref_szp (a - b) w)))"

definition logic_rflags :: "u64 \<Rightarrow> u64 \<Rightarrow> u64" where
  "logic_rflags r w = put_bit 11 False (put_bit 0 False (ref_szp r w))"

text \<open>The groups of the arithmetic opcodes: 0 ADD, 1 OR, 4 AND, 5 SUB, 6 XOR, 7 CMP.\<close>

definition alu_step :: "nat \<Rightarrow> nat \<Rightarrow> u64 \<Rightarrow> WGx86State \<Rightarrow> WGx86State option" where
  "alu_step g d b cpu =
     (let a = gpr cpu ! d;
          put = (\<lambda>r w. Some (cpu\<lparr>gpr := (gpr cpu)[d := r], rflags := w\<rparr>))
      in if g = 0 then put (a + b) (add_rflags a b (rflags cpu))
         else if g = 1 then put (a OR b) (logic_rflags (a OR b) (rflags cpu))
         else if g = 4 then put (a AND b) (logic_rflags (a AND b) (rflags cpu))
         else if g = 5 then put (a - b) (sub_rflags a b (rflags cpu))
         else if g = 6 then put (a XOR b) (logic_rflags (a XOR b) (rflags cpu))
         else if g = 7 then Some (cpu\<lparr>rflags := sub_rflags a b (rflags cpu)\<rparr>)
         else None)"

text \<open>The sixteen conditions: O, B, E, BE, S, P, L, LE, each followed by its negation.\<close>

definition flag_cond :: "nat \<Rightarrow> u64 \<Rightarrow> bool" where
  "flag_cond cc w =
     (let holds = [bit w 11, bit w 0, bit w 6, bit w 0 \<or> bit w 6, bit w 7, bit w 2,
                   bit w 7 \<noteq> bit w 11, bit w 6 \<or> bit w 7 \<noteq> bit w 11] ! (cc div 2)
      in if odd cc then \<not> holds else holds)"

definition is_stub :: "u64 \<Rightarrow> bool" where
  "is_stub a \<longleftrightarrow> a \<ge> 0xDEAD0000 \<and> a < 0xDEAF0000"

text \<open>The effect of one instruction; \<open>nr\<close> is the address behind it.  A call to the range of the
  Win32 stubs leaves the return address it has just pushed and stops for the stub.\<close>

fun asm_step :: "asm \<Rightarrow> WGx86State \<Rightarrow> WGMemorySpace \<Rightarrow> u64 \<Rightarrow> (WGInterpResult \<times> WGx86State \<times> WGMemorySpace) option" where
  "asm_step (Mov_ri r v) cpu mem nr = Some (WG_INTERP_OK, cpu\<lparr>gpr := (gpr cpu)[r := v], rip := nr\<rparr>, mem)"
| "asm_step (Mov_rr d s) cpu mem nr =
     Some (WG_INTERP_OK, cpu\<lparr>gpr := (gpr cpu)[d := gpr cpu ! s], rip := nr\<rparr>, mem)"
| "asm_step (Alu_rr g d s) cpu mem nr =
     map_option (\<lambda>c. (WG_INTERP_OK, c\<lparr>rip := nr\<rparr>, mem)) (alu_step g d (gpr cpu ! s) cpu)"
| "asm_step (Alu_ri g d v) cpu mem nr =
     map_option (\<lambda>c. (WG_INTERP_OK, c\<lparr>rip := nr\<rparr>, mem)) (alu_step g d (scast v) cpu)"
| "asm_step (Push_r r) cpu mem nr = do {
     let sp = gpr cpu ! 4 - 8;
     mem' \<leftarrow> wg_memory_write_u64 mem sp (gpr cpu ! r);
     Some (WG_INTERP_OK, cpu\<lparr>gpr := (gpr cpu)[4 := sp], rip := nr\<rparr>, mem') }"
| "asm_step (Pop_r r) cpu mem nr = do {
     v \<leftarrow> wg_memory_read_u64 mem (gpr cpu ! 4);
     Some (WG_INTERP_OK, cpu\<lparr>gpr := (gpr cpu)[4 := gpr cpu ! 4 + 8, r := v], rip := nr\<rparr>, mem) }"
| "asm_step (Jmp_rel v) cpu mem nr = Some (WG_INTERP_OK, cpu\<lparr>rip := nr + scast v\<rparr>, mem)"
| "asm_step (Jcc_rel cc v) cpu mem nr = Some (WG_INTERP_OK,
     cpu\<lparr>rip := if flag_cond cc (rflags cpu) then nr + scast v else nr\<rparr>, mem)"
| "asm_step (Call_rel v) cpu mem nr = do {
     let sp = gpr cpu ! 4 - 8;
     mem' \<leftarrow> wg_memory_write_u64 mem sp nr;
     if is_stub (nr + scast v) then do {
       ret \<leftarrow> wg_memory_read_u64 mem' sp;
       Some (WG_INTERP_SYSCALL, cpu\<lparr>rip := ret\<rparr>, mem') }
     else Some (WG_INTERP_OK, cpu\<lparr>gpr := (gpr cpu)[4 := sp], rip := nr + scast v\<rparr>, mem') }"
| "asm_step Ret_near cpu mem nr = do {
     ret \<leftarrow> wg_memory_read_u64 mem (gpr cpu ! 4);
     Some (if ret = 0 then WG_INTERP_HALT else WG_INTERP_OK,
       cpu\<lparr>gpr := (gpr cpu)[4 := gpr cpu ! 4 + 8], rip := ret\<rparr>, mem) }"

fun asm_runs :: "asm \<Rightarrow> bool" where
  "asm_runs (Alu_rr g d s) \<longleftrightarrow> g \<in> {0, 1, 4, 5, 6, 7} \<and> d < 16 \<and> s < 16"
| "asm_runs (Alu_ri g d v) \<longleftrightarrow> g \<in> {0, 1, 4, 5, 6, 7} \<and> d < 16"
| "asm_runs a = asm_ok a"

lemma asm_runs_ok: "asm_runs a \<Longrightarrow> asm_ok a"
  by (cases a) auto

subsection \<open>The flag functions compute the reference flags\<close>

lemma bit_put_bit: "bit (put_bit k b w) n \<longleftrightarrow> (if n = k then b \<and> k < 64 else bit w n)"
  by (auto simp: put_bit_def bit_set_bit_iff bit_unset_bit_iff dest: bit_imp_le_length)

lemma rflags_set_flag: "k < 64 \<Longrightarrow> rflags (wg_x86_set_flag s (push_bit k 1) v) = put_bit k v (rflags s)"
  by (rule bit_word_eqI) (auto simp: wg_x86_set_flag_def bit_put_bit bit_simps)

lemma and_single_bit: "k < 64 \<Longrightarrow> (x :: u64) AND push_bit k 1 \<noteq> 0 \<longleftrightarrow> bit x k"
  by (simp add: and_exp_eq_0_iff_not_bit)

lemma get_flag_bits:
  "wg_x86_get_flag s WG_FLAG_CF \<longleftrightarrow> bit (rflags s) 0" "wg_x86_get_flag s WG_FLAG_PF \<longleftrightarrow> bit (rflags s) 2"
  "wg_x86_get_flag s WG_FLAG_ZF \<longleftrightarrow> bit (rflags s) 6" "wg_x86_get_flag s WG_FLAG_SF \<longleftrightarrow> bit (rflags s) 7"
  "wg_x86_get_flag s WG_FLAG_OF \<longleftrightarrow> bit (rflags s) 11"
  unfolding wg_x86_get_flag_def flag_defs by (rule and_single_bit, simp)+

lemma set_flag_rflags: "wg_x86_set_flag s f v = s\<lparr>rflags := rflags (wg_x86_set_flag s f v)\<rparr>"
  by (simp add: wg_x86_set_flag_def)

lemma parity_count: "parity v \<longleftrightarrow> even (length (filter (bit v) [0..<8]))"
proof -
  have "{k. k < 8 \<and> bit v k} = set (filter (bit v) [0..<8])" by auto
  then have "card {k. k < 8 \<and> bit v k} = length (filter (bit v) [0..<8])"
    by (simp only: distinct_card [OF distinct_filter [OF distinct_upt]])
  then show ?thesis by (simp add: parity_card)
qed

lemma filter_low_bits: "filter (bit (ucast (r :: u64) :: u8)) [0..<8] = filter (bit r) [0..<8]"
  by (rule filter_cong) (auto simp: bit_ucast_iff)

lemma sign_bit_64: "r AND sign_bit 64 \<noteq> 0 \<longleftrightarrow> sint (r :: u64) < 0"
  using and_sign_bit [of r 64] bit_last_iff [of r] by simp

lemma mask_64: "r AND mask_for_bits 64 = r"
  by (simp add: mask_for_bits_def)

lemma half_carry: "(a XOR b XOR r) AND 0x10 \<noteq> 0 \<longleftrightarrow> bit a 4 \<noteq> (bit b 4 \<noteq> bit (r :: u64) 4)"
proof -
  have e: "(0x10 :: u64) = push_bit 4 1" by simp
  show ?thesis unfolding e by (subst and_single_bit) (auto simp: bit_xor_iff)
qed

lemma bit4_div: "bit (w :: u64) 4 \<longleftrightarrow> odd (unat w div 16)"
proof -
  have "bit w 4 = bit (unat w) 4" by (simp add: bit_unsigned_iff)
  then show ?thesis by (simp add: bit_iff_odd)
qed

lemma nat_carry: "odd ((m + n) div 16) \<longleftrightarrow> (odd (m div 16) \<noteq> odd (n div 16)) \<noteq> (16 \<le> m mod 16 + n mod (16 :: nat))"
proof -
  have "(m + n) div 16 = m div 16 + n div 16 + (m mod 16 + n mod 16) div 16" by (rule div_add1_eq)
  moreover have "(m mod 16 + n mod 16) div 16 = (if 16 \<le> m mod 16 + n mod 16 then 1 else 0)"
    using mod_less_divisor [of 16 m] mod_less_divisor [of 16 n] by (simp add: div_if)
  ultimately show ?thesis by simp
qed

lemma low_sum:
  "odd (unat (a + b :: u64) div 16) = odd ((unat a + unat b) div 16)"
  "unat (a + b) mod 16 = (unat a mod 16 + unat b mod 16) mod 16"
proof -
  have u: "unat (a + b) = take_bit 64 (unat a + unat b)" by (simp add: unat_word_ariths take_bit_eq_mod)
  have "odd (unat (a + b) div 16) = bit (unat (a + b)) 4" by (simp add: bit_iff_odd)
  also have "\<dots> = odd ((unat a + unat b) div 16)"
    unfolding u bit_take_bit_iff by (simp add: bit_iff_odd)
  finally show "odd (unat (a + b :: u64) div 16) = odd ((unat a + unat b) div 16)" .
  have "unat (a + b) mod 16 = take_bit 4 (take_bit 64 (unat a + unat b))" unfolding u by (simp add: take_bit_eq_mod)
  also have "\<dots> = (unat a + unat b) mod 16" unfolding take_bit_take_bit by (simp add: take_bit_eq_mod)
  finally show "unat (a + b) mod 16 = (unat a mod 16 + unat b mod 16) mod 16" by (simp add: mod_add_eq)
qed

lemma half_carry_add: "(a XOR b XOR (a + b)) AND 0x10 \<noteq> 0 \<longleftrightarrow> 16 \<le> unat (a :: u64) mod 16 + unat b mod 16"
  unfolding half_carry bit4_div low_sum(1) nat_carry by blast

lemma half_carry_sub: "(a XOR b XOR (a - b)) AND 0x10 \<noteq> 0 \<longleftrightarrow> unat (a :: u64) mod 16 < unat b mod 16"
proof -
  let ?r = "unat (a - b)"
  have "odd (unat a div 16) = odd ((?r + unat b) div 16)" "unat a mod 16 = (?r mod 16 + unat b mod 16) mod 16"
    using low_sum [of "a - b" b] by simp_all
  moreover have "16 \<le> i + j \<longleftrightarrow> (i + j) mod 16 < j" if "i < 16" "j < 16" for i j :: nat
    using that by (simp add: mod_if, arith)
  ultimately show ?thesis
    unfolding half_carry bit4_div nat_carry by (metis mod_less_divisor zero_less_numeral)
qed

lemma overflow_add: "(a XOR (a + b)) AND (b XOR (a + b)) AND sign_bit 64 \<noteq> 0 \<longleftrightarrow> \<not> fits64 (sint (a :: u64) + sint b)"
  using signed_add_cases [of a b] and_sign_bit [of "(a XOR (a + b)) AND (b XOR (a + b))" 64]
  by (simp add: fits64_def bit_simps and.assoc)

lemma overflow_sub: "(a XOR b) AND (a XOR (a - b)) AND sign_bit 64 \<noteq> 0 \<longleftrightarrow> \<not> fits64 (sint (a :: u64) - sint b)"
  using signed_sub_cases(1) [of a b] and_sign_bit [of "(a XOR b) AND (a XOR (a - b))" 64]
  by (simp add: fits64_def bit_simps and.assoc)

lemma carry_none: "\<not> (r :: u64) > mask_for_bits 64"
  by (simp add: mask_for_bits_def not_less)

lemma update_flags_put:
  "wg_x86_update_flags_add s a b (a + b) 64 = s\<lparr>rflags := add_rflags a b (rflags s)\<rparr>"
  "wg_x86_update_flags_sub s a b (a - b) 64 = s\<lparr>rflags := sub_rflags a b (rflags s)\<rparr>"
  "wg_x86_update_flags_logic s r 64 = s\<lparr>rflags := logic_rflags r (rflags s)\<rparr>"
proof -
  have c: "s' = s\<lparr>rflags := w\<rparr>" if "s'\<lparr>rflags := 0\<rparr> = s\<lparr>rflags := 0\<rparr>" "rflags s' = w" for s' w
    using that by (cases s', cases s) simp
  have z: "(wg_x86_set_flag s f v)\<lparr>rflags := 0\<rparr> = s\<lparr>rflags := 0\<rparr>" for s f v
    by (simp add: wg_x86_set_flag_def)
  note defs = wg_x86_update_flags_add_def wg_x86_update_flags_sub_def wg_x86_update_flags_logic_def
  note flags = flag_defs rflags_set_flag z mask_64 sign_bit_64 parity_count filter_low_bits ref_szp_def
  show "wg_x86_update_flags_add s a b (a + b) 64 = s\<lparr>rflags := add_rflags a b (rflags s)\<rparr>"
    by (rule c; simp only: defs Let_def flags half_carry_add overflow_add carry_none add_rflags_def)
      (rule bit_word_eqI, simp add: bit_put_bit)
  show "wg_x86_update_flags_sub s a b (a - b) 64 = s\<lparr>rflags := sub_rflags a b (rflags s)\<rparr>"
    by (rule c; simp only: defs Let_def flags half_carry_sub overflow_sub sub_rflags_def word_less_nat_alt)
      (rule bit_word_eqI, simp add: bit_put_bit)
  show "wg_x86_update_flags_logic s r 64 = s\<lparr>rflags := logic_rflags r (rflags s)\<rparr>"
    by (rule c; simp only: defs Let_def flags logic_rflags_def)
      (rule bit_word_eqI, simp add: bit_put_bit)
qed

lemma below_16_cases: "n < (16 :: nat) \<Longrightarrow> n \<in> {0, 1, 2, 3, 4, 5, 6, 7, 8, 9, 10, 11, 12, 13, 14, 15}"
  by (simp, presburger)

lemma eval_condition_flag: "cc < 16 \<Longrightarrow> eval_condition cpu (of_nat cc) \<longleftrightarrow> flag_cond cc (rflags cpu)"
  by (drule below_16_cases, elim insertE emptyE)
    (simp_all add: eval_condition_def flag_cond_def get_flag_bits Let_def)

lemma read_u8_total:
  "wg_memory_read_u8 mem a = Some (case mem_view mem a of None \<Rightarrow> 0 | Some b \<Rightarrow> b)"
proof (cases "resolve mem a")
  case None
  then show ?thesis using mem_view_None [of mem a] by (simp add: wg_memory_read_u8_def)
next
  case (Some p)
  with load1_view [OF this] show ?thesis
    using mem_view_None [of mem a] by (auto simp: wg_memory_read_u8_def)
qed

lemma fetch_code_total: "\<exists>bs. fetch_code mem a n = Some bs \<and> length bs = n"
proof (induction n arbitrary: a)
  case (Suc n)
  from Suc [of "a + 1"] show ?case by (auto simp: read_u8_total)
qed simp

lemma fetch_code_at:
  "code_at mem a bs \<Longrightarrow> length bs \<le> n \<Longrightarrow> \<exists>rest. fetch_code mem a n = Some (bs @ rest)"
proof (induction n arbitrary: a bs)
  case 0
  then show ?case by simp
next
  case (Suc n)
  show ?case
  proof (cases bs)
    case Nil
    with fetch_code_total [of mem a "Suc n"] show ?thesis by auto
  next
    case (Cons b bs')
    have "code_at mem (a + 1) bs'"
      unfolding code_at_def
    proof (intro allI impI)
      fix i
      assume "i < length bs'"
      with Suc.prems Cons have "mem_view mem (a + of_nat (Suc i)) = Some (bs ! Suc i)"
        by (simp only: code_at_def length_Cons Suc_less_eq)
      with Cons show "mem_view mem (a + 1 + of_nat i) = Some (bs' ! i)" by (simp add: add.assoc)
    qed
    moreover have "mem_view mem a = Some b" using Suc.prems Cons by (force simp: code_at_def)
    ultimately show ?thesis using Suc.IH [of "a + 1" bs'] Suc.prems Cons by (auto simp: read_u8_total)
  qed
qed

lemma length_encode: "0 < length (encode a)" "length (encode a) \<le> 16"
  by (cases a; simp)+

lemma insn_view_ops:
  assumes "insn_view i = (oc, ops, cc, sz)"
  shows "opcode i = oc" "op_size i = sz" "condition i = cc" "num_operands i = length ops"
    "k < length ops \<Longrightarrow> opnd i k = ops ! k"
  using assms by (auto simp: insn_view_def opnd_def)

lemma reg_operand_sel [simp]:
  "o_type (reg_operand r n) = WG_OPERAND_REG" "o_size (reg_operand r n) = n" "reg_index (reg_operand r n) = r"
  "o_type (imm_operand v n) = WG_OPERAND_IMM" "o_size (imm_operand v n) = n" "imm (imm_operand v n) = v"
  "o_type (rel_operand v) = WG_OPERAND_REL" "imm (rel_operand v) = v"
  by (simp_all add: reg_operand_def imm_operand_def rel_operand_def operand0_def)

lemma mask_for_8 [simp]: "mask_for 8 = - 1"
  by (simp add: mask_for_def)

definition finish :: "flow \<Rightarrow> WGInterpResult \<times> WGx86State \<times> WGMemorySpace" where
  "finish fl = (case fl of Break nr cpu mem \<Rightarrow> (WG_INTERP_OK, cpu\<lparr>rip := nr\<rparr>, mem)
     | Return res cpu mem \<Rightarrow> (res, cpu, mem))"

lemma finish_simps [simp]:
  "finish (Break nr cpu mem) = (WG_INTERP_OK, cpu\<lparr>rip := nr\<rparr>, mem)"
  "finish (Return res cpu mem) = (res, cpu, mem)"
  by (simp_all add: finish_def)

lemma map_option_bind: "map_option f (x \<bind> g) = x \<bind> (\<lambda>y. map_option f (g y))"
  by (cases x) simp_all

lemma exec_insn_asm:
  assumes v: "insn_view i = asm_insn ip a" and ok: "asm_runs a" and nr: "nr = ip + of_nat (length (encode a))"
    and cpu: "wf_cpu cpu"
  shows "map_option finish (exec_insn cpu mem nr i) = asm_step a cpu mem nr"
proof (cases a)
  case (Mov_ri r w)
  note f = insn_view_ops [OF v [unfolded Mov_ri asm_insn.simps]]
  show ?thesis using f(5) [of 0] f(5) [of 1]
    by (simp add: Mov_ri f exec_insn_def exec_mov_def read_operand_def write_operand_def gpr_set_def Let_def)
next
  case (Mov_rr d s)
  note f = insn_view_ops [OF v [unfolded Mov_rr asm_insn.simps]]
  show ?thesis using f(5) [of 0] f(5) [of 1]
    by (simp add: Mov_rr f exec_insn_def exec_mov_def read_operand_def write_operand_def gpr_set_def Let_def)
next
  case (Alu_rr g d s)
  note f = insn_view_ops [OF v [unfolded Alu_rr asm_insn.simps]]
  have g: "g \<in> {0, 1, 4, 5, 6, 7}" using ok Alu_rr by simp
  show ?thesis using f(5) [of 0] f(5) [of 1] g
    by (elim insertE emptyE; simp add: Alu_rr f exec_insn_def alu_ops_def alu_operands_def exec_add_def exec_sub_def exec_cmp_def
        exec_logic_def read_operand_def write_operand_def gpr_set_def op_bits_def update_flags_put alu_step_def Let_def)
next
  case (Alu_ri g d w)
  note f = insn_view_ops [OF v [unfolded Alu_ri asm_insn.simps]]
  have g: "g \<in> {0, 1, 4, 5, 6, 7}" using ok Alu_ri by simp
  show ?thesis using f(5) [of 0] f(5) [of 1] g
    by (elim insertE emptyE; simp add: Alu_ri f exec_insn_def alu_ops_def alu_operands_def exec_add_def exec_sub_def exec_cmp_def
        exec_logic_def read_operand_def write_operand_def gpr_set_def op_bits_def update_flags_put alu_step_def Let_def)
next
  case (Push_r r)
  note f = insn_view_ops [OF v [unfolded Push_r asm_insn.simps]]
  show ?thesis using f(5) [of 0] wf_cpu_gpr [OF cpu]
    by (cases "wg_memory_write_u64 mem (gpr cpu ! 4 - 8) (gpr cpu ! r)")
      (simp_all add: Push_r f exec_insn_def exec_push_def read_operand_def push64_def gpr_set_def Let_def)
next
  case (Pop_r r)
  note f = insn_view_ops [OF v [unfolded Pop_r asm_insn.simps]]
  show ?thesis using f(5) [of 0]
    by (cases "wg_memory_read_u64 mem (gpr cpu ! 4)")
      (simp_all add: Pop_r f exec_insn_def exec_pop_def write_operand_def pop64_def gpr_set_def Let_def)
next
  case (Jmp_rel w)
  note f = insn_view_ops [OF v [unfolded Jmp_rel asm_insn.simps]]
  show ?thesis using f(5) [of 0] nr
    by (simp add: Jmp_rel f exec_insn_def exec_jmp_def branch_target_def)
next
  case (Call_rel w)
  note f = insn_view_ops [OF v [unfolded Call_rel asm_insn.simps]]
  have b: "branch_target c m (rel_operand t) = Some t" for c m t
    by (simp add: branch_target_def)
  have n: "nr = ip + 5" using nr Call_rel by simp
  show ?thesis
    using f(5) [of 0] wf_cpu_gpr [OF cpu] unfolding n
    by (cases "wg_memory_write_u64 mem (gpr cpu ! 4 - 8) (ip + 5)"; cases "is_stub (ip + 5 + scast w)")
      (simp_all add: Call_rel f b exec_insn_def exec_call_def map_option_bind push64_def pop64_def gpr_set_def Let_def
        flip: is_stub_def)
next
  case (Jcc_rel cc w)
  note f = insn_view_ops [OF v [unfolded Jcc_rel asm_insn.simps]]
  show ?thesis using f(5) [of 0] nr
    using ok by (simp add: Jcc_rel f exec_insn_def exec_jcc_def eval_condition_flag)
next
  case Ret_near
  note f = insn_view_ops [OF v [unfolded Ret_near asm_insn.simps]]
  show ?thesis
    by (cases "wg_memory_read_u64 mem (gpr cpu ! 4)")
      (auto simp: Ret_near f exec_insn_def exec_ret_def pop64_def gpr_set_def)
qed

lemma exec_one_asm:
  assumes code: "code_at mem (rip cpu) (encode a)" and ok: "asm_runs a" and cpu: "wf_cpu cpu"
  shows "wg_x86_exec_one cpu mem =
    asm_step a (cpu\<lparr>instruction_count := instruction_count cpu + 1\<rparr>) mem
      (rip cpu + of_nat (length (encode a)))"
proof -
  obtain rest where f: "fetch_code mem (rip cpu) 16 = Some (encode a @ rest)"
    using fetch_code_at [OF code length_encode(2)] by auto
  obtain i where d: "wg_x86_decode (encode a @ rest) (rip cpu) = Some (length (encode a), i)"
    and v: "insn_view i = asm_insn (rip cpu) a"
    using decodes_all [OF asm_runs_ok [OF ok], of "rip cpu" rest] by (auto simp: decodes_def)
  let ?c = "cpu\<lparr>instruction_count := instruction_count cpu + 1\<rparr>"
  have "map_option finish (exec_insn ?c mem (rip cpu + of_nat (length (encode a))) i)
      = asm_step a ?c mem (rip cpu + of_nat (length (encode a)))"
    by (rule exec_insn_asm [OF v ok refl]) (simp add: cpu)
  with length_encode(1) [of a] show ?thesis
    unfolding wg_x86_exec_one_def f by (simp add: d Let_def map_conv_bind_option finish_def comp_def)
qed

lemma wf_cpu_gpr_set [simp]: "wf_cpu (gpr_set cpu r v) = wf_cpu cpu"
  by (simp add: wf_cpu_def)

lemma gpr_of_set: "wf_cpu cpu \<Longrightarrow> r < 16 \<Longrightarrow> gpr (gpr_set cpu q v) ! r = (if r = q then v else gpr cpu ! r)"
  by (simp add: gpr_set_def wf_cpu_gpr nth_list_update)

lemma code_at_append:
  "code_at mem a (xs @ ys) \<longleftrightarrow> code_at mem a xs \<and> code_at mem (a + of_nat (length xs)) ys"
proof
  assume c: "code_at mem a (xs @ ys)"
  show "code_at mem a xs \<and> code_at mem (a + of_nat (length xs)) ys"
    unfolding code_at_def
  proof (intro conjI allI impI)
    fix i assume "i < length xs"
    with c show "mem_view mem (a + of_nat i) = Some (xs ! i)" by (auto simp: code_at_def nth_append)
  next
    fix i assume "i < length ys"
    with c have "mem_view mem (a + of_nat (length xs + i)) = Some ((xs @ ys) ! (length xs + i))"
      unfolding code_at_def by (metis length_append nat_add_left_cancel_less)
    then show "mem_view mem (a + of_nat (length xs) + of_nat i) = Some (ys ! i)" by (simp add: add.assoc)
  qed
next
  assume c: "code_at mem a xs \<and> code_at mem (a + of_nat (length xs)) ys"
  show "code_at mem a (xs @ ys)"
    unfolding code_at_def
  proof (intro allI impI)
    fix i assume i: "i < length (xs @ ys)"
    show "mem_view mem (a + of_nat i) = Some ((xs @ ys) ! i)"
    proof (cases "i < length xs")
      case True
      with c show ?thesis by (simp add: code_at_def nth_append)
    next
      case False
      then have e: "a + of_nat i = a + of_nat (length xs) + of_nat (i - length xs)"
        by (simp flip: of_nat_add add.assoc)
      have "i - length xs < length ys" using i False by simp
      with c have "mem_view mem (a + of_nat (length xs) + of_nat (i - length xs)) = Some (ys ! (i - length xs))"
        unfolding code_at_def by blast
      with e False show ?thesis by (simp add: nth_append)
    qed
  qed
qed

lemma write_u64_resolved:
  assumes "mem_view mem a \<noteq> None" and "wg_memory_write_u64 mem a v = Some mem'"
  shows "wg_memory_read_u64 mem' a = Some v"
    and "8 \<le> unat (x - a) \<Longrightarrow> mem_view mem' x = mem_view mem x"
proof -
  obtain i off where p: "resolve mem a = Some (i, off)"
    using assms(1) by (auto simp: mem_view_None)
  have st: "store_bytes mem (i, off) (to_le 8 v) = Some mem'"
    using assms(2) p by (simp add: wg_memory_write_u64_def del: to_le_numeral)
  show "wg_memory_read_u64 mem' a = Some v"
    using load_after_store [OF p st] resolve_store [OF st, of a] p of_le_to_le [of 8 v]
    by (simp add: wg_memory_read_u64_def del: to_le_numeral)
  show "8 \<le> unat (x - a) \<Longrightarrow> mem_view mem' x = mem_view mem x"
    using mem_view_store [OF p st, of x] by (simp del: to_le_numeral)
qed

subsection \<open>Properties\<close>

text \<open>A memory with a program at 0x1000 and zeros behind it, for the concrete instances.\<close>

definition prog_mem :: "u8 list \<Rightarrow> WGMemorySpace" where
  "prog_mem bs = \<lparr>regions = [\<lparr>r_base = 0x1000, r_size = 0x1000, r_prot = 7,
     r_data = (\<lambda>off. if unat off < length bs then bs ! unat off else 0)\<rparr>], total_size = 0x10000\<rparr>"

definition prog_cpu :: "u64 list \<Rightarrow> WGx86State" where
  "prog_cpu regs = wg_x86_state_reset\<lparr>gpr := regs @ replicate (16 - length regs) 0, rip := 0x1000\<rparr>"

lemma prog_view:
  assumes "i < 0x1000"
  shows "mem_view (prog_mem bs) (0x1000 + of_nat i) = Some (if i < length bs then bs ! i else 0)"
proof -
  have u: "unat (of_nat i :: u64) = i" using assms by (simp add: unat_of_nat)
  have "unat (0x1000 + of_nat i :: u64) = 0x1000 + i" using assms u by (simp add: unat_word_ariths)
  then have "region_has (0x1000 + of_nat i) (regions (prog_mem bs) ! 0)"
    using assms by (simp add: region_has_def prog_mem_def word_le_nat_alt word_less_nat_alt)
  then show ?thesis
    by (simp add: mem_view_def resolve_def find_region_def prog_mem_def u)
qed

lemma prog_code: "length bs \<le> 0x1000 \<Longrightarrow> code_at (prog_mem bs) 0x1000 bs"
  by (simp add: code_at_def prog_view)

lemma prog_cpu_sel [simp]:
  "length regs \<le> 16 \<Longrightarrow> wf_cpu (prog_cpu regs)" "rip (prog_cpu regs) = 0x1000"
  "gpr (prog_cpu regs) = regs @ replicate (16 - length regs) 0"
  by (simp_all add: prog_cpu_def wf_cpu_def wg_x86_state_reset_def WG_REG_COUNT_def)

lemmas prog_eval = prog_mem_def resolve_def find_region_def region_has_def
  store_bytes_def load_bytes_def in_buffer_def

text \<open>A 64-bit or 32-bit register comparison makes each of the sixteen conditions of
  \<open>Jcc\<close>, \<open>SETcc\<close> and \<open>CMOVcc\<close> hold exactly when its relation holds of the registers as words of
  that width, and changes nothing but the flags.  An 8-bit comparison is judged as a 32-bit
  one of the zero-extended bytes, so the signed conditions compare the bytes unsigned.\<close>

theorem cmp_conditions:
  assumes "cc < 16"
  shows "\<exists>c64 c32 c8.
      exec_insn cpu mem nr (cmp_rr d s 8 8) = Some (Break nr c64 mem)
    \<and> exec_insn cpu mem nr (cmp_rr d s 4 4) = Some (Break nr c32 mem)
    \<and> exec_insn cpu mem nr (cmp_rr d s 1 4) = Some (Break nr c8 mem)
    \<and> gpr c64 = gpr cpu \<and> gpr c32 = gpr cpu \<and> gpr c8 = gpr cpu
    \<and> (eval_condition c64 cc \<longleftrightarrow> cond_ref cc (gpr cpu ! d) (gpr cpu ! s))
    \<and> (eval_condition c32 cc \<longleftrightarrow> cond_ref cc (ucast (gpr cpu ! d) :: u32) (ucast (gpr cpu ! s)))
    \<and> (eval_condition c8 cc \<longleftrightarrow>
         cond_ref cc (ucast (ucast (gpr cpu ! d) :: u8) :: u32) (ucast (ucast (gpr cpu ! s) :: u8)))"
proof -
  have up: "(ucast (ucast w :: u32) :: u64) = ucast w" for w :: u8
    by (rule bit_word_eqI) (auto simp: bit_simps dest: bit_imp_le_length)
  have m: "v AND mask_for 8 = v" "v AND mask_for 4 = ucast (ucast v :: u32)"
    "v AND mask_for 1 = ucast (ucast (ucast v :: u8) :: u32)" for v
    using and_mask_for [where 'a = 64, of 8 v] and_mask_for [where 'a = 32, of 4 v]
      and_mask_for [where 'a = 8, of 1 v] by (simp_all add: up)
  have e64: "eval_condition (wg_x86_update_flags_sub cpu x y (x - y) 64) cc \<longleftrightarrow> cond_ref cc x y" for x y
    using eval_condition_ref [where 'a = 64, OF _ _ assms, of cpu x y] by simp
  have e32: "eval_condition (wg_x86_update_flags_sub cpu (ucast x) (ucast y) (ucast x - ucast y) 32) cc
      \<longleftrightarrow> cond_ref cc x y" for x y :: u32
    using eval_condition_ref [where 'a = 32, OF _ _ assms, of cpu x y] by simp
  show ?thesis
    unfolding exec_cmp_rr Let_def m
    by (simp add: e64 e32)
qed

theorem cmp_conditions_witness:
  "\<exists>c8. exec_insn (wg_x86_state_reset\<lparr>gpr := [0x80, 1] @ replicate 14 0\<rparr>) demo_mem 0 (cmp_rr 0 1 1 4)
      = Some (Break 0 c8 demo_mem)
    \<and> \<not> eval_condition c8 0xC \<and> cond_ref 0xC (0x80 :: u8) 1"
  using cmp_conditions [of "0xC" "wg_x86_state_reset\<lparr>gpr := [0x80, 1] @ replicate 14 0\<rparr>" demo_mem 0 0 1]
  by (auto simp: cond_ref_def Let_def)

text \<open>What one step may do besides its instruction, and the counting: an instruction is counted when
  it was decoded, whatever it then returns.\<close>

definition undecoded :: "WGx86State \<Rightarrow> WGMemorySpace \<Rightarrow> bool" where
  "undecoded cpu mem \<longleftrightarrow> (\<exists>buf i. fetch_code mem (rip cpu) 16 = Some buf \<and> wg_x86_decode buf (rip cpu) = Some (0, i))"

lemma exec_one_shape:
  assumes "wg_x86_exec_one cpu mem = Some (r, cpu', mem')"
  shows "length (gpr cpu') = length (gpr cpu) \<and> length (xmm cpu') = length (xmm cpu)
    \<and> mem_shape mem' = mem_shape mem
    \<and> instruction_count cpu' = instruction_count cpu + (if undecoded cpu mem then 0 else 1)
    \<and> (r = WG_INTERP_OK \<longrightarrow> \<not> undecoded cpu mem)"
proof -
  obtain buf len insn where d: "fetch_code mem (rip cpu) 16 = Some buf" "wg_x86_decode buf (rip cpu) = Some (len, insn)"
    and e: "(if len = 0 then Some (WG_INTERP_ERROR, cpu, mem) else do {
       let next_rip = rip cpu + of_nat len;
       let cpu = cpu\<lparr>instruction_count := instruction_count cpu + 1\<rparr>;
       fl \<leftarrow> exec_insn cpu mem next_rip insn;
       Some (case fl of
               Break nr cpu mem \<Rightarrow> (WG_INTERP_OK, cpu\<lparr>rip := nr\<rparr>, mem)
             | Return res cpu mem \<Rightarrow> (res, cpu, mem)) }) = Some (r, cpu', mem')"
    using assms by (auto simp: wg_x86_exec_one_def split: bind_splits)
  have u: "undecoded cpu mem \<longleftrightarrow> len = 0" using d by (auto simp: undecoded_def)
  show ?thesis
  proof (cases "len = 0")
    case True
    with e u show ?thesis by auto
  next
    case False
    let ?c = "cpu\<lparr>instruction_count := instruction_count cpu + 1\<rparr>"
    obtain fl where f: "exec_insn ?c mem (rip cpu + of_nat len) insn = Some fl"
      and r: "(r, cpu', mem') = (case fl of Break nr cpu mem \<Rightarrow> (WG_INTERP_OK, cpu\<lparr>rip := nr\<rparr>, mem)
             | Return res cpu mem \<Rightarrow> (res, cpu, mem))"
      using e False by (auto simp: Let_def split: bind_splits)
    show ?thesis
      using exec_insn_shape [of ?c mem "rip cpu + of_nat len" insn] f r False
      by (auto simp: same_shape_def u split: flow.splits)
  qed
qed

text \<open>\<open>k\<close> steps that all go on.\<close>

fun ok_steps :: "nat \<Rightarrow> WGx86State \<Rightarrow> WGMemorySpace \<Rightarrow> (WGx86State \<times> WGMemorySpace) option" where
  "ok_steps 0 cpu mem = Some (cpu, mem)"
| "ok_steps (Suc k) cpu mem = (case wg_x86_exec_one cpu mem of
     Some (r, cpu', mem') \<Rightarrow> if r = WG_INTERP_OK then ok_steps k cpu' mem' else None
   | None \<Rightarrow> None)"

lemma ok_steps_keep:
  "ok_steps k cpu mem = Some (c, m) \<Longrightarrow> length (gpr c) = length (gpr cpu) \<and> length (xmm c) = length (xmm cpu)
     \<and> mem_shape m = mem_shape mem \<and> instruction_count c = instruction_count cpu + of_nat k"
proof (induction k arbitrary: cpu mem)
  case (Suc k)
  obtain c1 m1 where o: "wg_x86_exec_one cpu mem = Some (WG_INTERP_OK, c1, m1)" "ok_steps k c1 m1 = Some (c, m)"
    using Suc.prems by (auto split: option.splits if_splits)
  show ?case using Suc.IH [OF o(2)] exec_one_shape [OF o(1)] by simp
qed simp

lemma exec_upto_steps:
  "exec_upto cpu mem n = Some (r, cpu', mem') \<Longrightarrow>
   if r = WG_INTERP_OK then ok_steps n cpu mem = Some (cpu', mem')
   else \<exists>k c m. k < n \<and> ok_steps k cpu mem = Some (c, m) \<and> wg_x86_exec_one c m = Some (r, cpu', mem')"
proof (induction cpu mem n rule: exec_upto.induct)
  case (2 cpu mem n)
  obtain r1 c1 m1 where o: "wg_x86_exec_one cpu mem = Some (r1, c1, m1)"
    using "2.prems" by (auto split: bind_splits)
  show ?case
  proof (cases "r1 = WG_INTERP_OK")
    case False
    with "2.prems" o show ?thesis by (auto intro!: exI [of _ 0])
  next
    case True
    with "2.prems" o have b: "exec_upto c1 m1 n = Some (r, cpu', mem')" by simp
    show ?thesis
    proof (cases "r = WG_INTERP_OK")
      case True
      with "2.IH" [OF o refl refl _ b] \<open>r1 = WG_INTERP_OK\<close> o show ?thesis by simp
    next
      case False
      then obtain k c m where "k < n" "ok_steps k c1 m1 = Some (c, m)" "wg_x86_exec_one c m = Some (r, cpu', mem')"
        using "2.IH" [OF o refl refl _ b] \<open>r1 = WG_INTERP_OK\<close> by auto
      with False True o show ?thesis by (auto intro!: exI [of _ "Suc k"])
    qed
  qed
qed simp

lemma exec_upto_prefix:
  "exec_upto cpu mem (k + j) = Some (WG_INTERP_OK, c, m) \<Longrightarrow>
   \<exists>c' m'. exec_upto cpu mem k = Some (WG_INTERP_OK, c', m') \<and> instruction_count c' = instruction_count cpu + of_nat k"
proof -
  assume "exec_upto cpu mem (k + j) = Some (WG_INTERP_OK, c, m)"
  then have "\<exists>c' m'. exec_upto cpu mem k = Some (WG_INTERP_OK, c', m')"
  proof (induction k arbitrary: cpu mem)
    case (Suc k)
    then show ?case by (auto split: bind_splits if_splits)
  qed simp
  then obtain c' m' where e: "exec_upto cpu mem k = Some (WG_INTERP_OK, c', m')" by auto
  with exec_upto_steps [OF e] ok_steps_keep [of k cpu mem c' m'] show ?thesis by auto
qed

text \<open>C40: What a block of at most \<open>n\<close> instructions runs, and that it counts exactly that.  A block that
  ends with OK has run \<open>n\<close> steps that all returned OK (none for a negative \<open>n\<close>) and its counter has
  grown by \<open>n\<close>; any other block has run fewer than \<open>n\<close> such steps and then one that returned its
  result, which is counted too unless its bytes could not be decoded.  The sixteen registers and
  the memory map (base, size and protection of every region) are kept.\<close>

theorem wg_x86_exec_block_invariant:
  assumes run: "wg_x86_exec_block cpu mem n = Some (r, cpu', mem')" and cpu: "wf_cpu cpu"
  shows "wf_cpu cpu' \<and> mem_shape mem' = mem_shape mem
    \<and> (\<exists>k c m. ok_steps k cpu mem = Some (c, m) \<and> instruction_count c = instruction_count cpu + of_nat k
       \<and> (if r = WG_INTERP_OK then k = nat (sint n) \<and> cpu' = c \<and> mem' = m
          else k < nat (sint n) \<and> wg_x86_exec_one c m = Some (r, cpu', mem')
            \<and> instruction_count cpu' = instruction_count c + (if undecoded c m then 0 else 1)))"
proof -
  note st = exec_upto_steps [OF run [unfolded wg_x86_exec_block_def]]
  show ?thesis
  proof (cases "r = WG_INTERP_OK")
    case True
    with st ok_steps_keep [of "nat (sint n)" cpu mem cpu' mem'] cpu show ?thesis by (auto simp: wf_cpu_def)
  next
    case False
    then obtain k c m where k: "k < nat (sint n)" "ok_steps k cpu mem = Some (c, m)"
      "wg_x86_exec_one c m = Some (r, cpu', mem')" using st by auto
    note keep = ok_steps_keep [OF k(2)] exec_one_shape [OF k(3)]
    show ?thesis using keep k False cpu
      by (intro conjI exI [of _ k] exI [of _ c] exI [of _ m]) (simp_all add: wf_cpu_def)
  qed
qed

theorem wg_x86_exec_block_invariant_witness:
  "\<exists>r cpu' mem'. wg_x86_exec_block (prog_cpu [7]) (prog_mem (encode (Mov_rr 1 0) @ encode (Alu_rr 0 1 0))) 2
      = Some (r, cpu', mem') \<and> instruction_count cpu' = 2 \<and> gpr cpu' ! 1 = 14
      \<and> mem_shape mem' = [(0x1000, 0x1000, 7)] \<and> wf_cpu cpu'"
proof -
  let ?bs = "encode (Mov_rr 1 0) @ encode (Alu_rr 0 1 0)"
  define m where "m = prog_mem ?bs"
  have c: "code_at m 0x1000 ?bs" unfolding m_def by (rule prog_code) simp
  then have c12: "code_at m 0x1000 (encode (Mov_rr 1 0))" "code_at m 0x1003 (encode (Alu_rr 0 1 0))"
    unfolding code_at_append by simp_all
  define c1 where "c1 = prog_cpu [7]\<lparr>instruction_count := instruction_count (prog_cpu [7]) + 1, gpr := [7, 7] @ replicate 14 0, rip := 0x1003\<rparr>"
  have one: "wg_x86_exec_one (prog_cpu [7]) m = Some (WG_INTERP_OK, c1, m)"
    using exec_one_asm [of m "prog_cpu [7]" "Mov_rr 1 0"] c12(1) by (simp add: c1_def eval_nat_numeral)
  have g: "gpr c1 = [7, 7] @ replicate 14 0" by (simp add: c1_def)
  have w: "wf_cpu c1" using prog_cpu_sel(1) [of "[7]"] by (simp add: c1_def wf_cpu_def)
  obtain cpu' where two: "wg_x86_exec_one c1 m = Some (WG_INTERP_OK, cpu', m)" and g': "gpr cpu' ! 1 = 14"
    using exec_one_asm [of m c1 "Alu_rr 0 1 0"] c12(2) w g
    by (simp add: c1_def alu_step_def Let_def)
  have b: "wg_x86_exec_block (prog_cpu [7]) m 2 = Some (WG_INTERP_OK, cpu', m)"
    by (simp add: wg_x86_exec_block_def numeral_2_eq_2 one two)
  have "instruction_count (prog_cpu [7]) = 0" by (simp add: prog_cpu_def wg_x86_state_reset_def)
  moreover have "mem_shape m = [(0x1000, 0x1000, 7)]" by (simp add: m_def mem_shape_def prog_mem_def)
  ultimately show ?thesis
    using wg_x86_exec_block_invariant [OF b] b g' unfolding m_def [symmetric] by auto
qed

text \<open>C3: The interpreter refines the reference semantics: when the bytes at RIP are the encoding of
  one of the ten instruction forms (with ADD, OR, AND, SUB, XOR or CMP for the arithmetic ones),
  one step of the interpreter (fetch, decode, dispatch, execute) has exactly the effect the
  reference gives the instruction, registers, memory and all of RFLAGS, and counts it.\<close>

theorem wg_x86_exec_one_refines:
  assumes "code_at mem (rip cpu) (encode a)" and "asm_runs a" and "wf_cpu cpu"
  shows "wg_x86_exec_one cpu mem =
    asm_step a (cpu\<lparr>instruction_count := instruction_count cpu + 1\<rparr>) mem
      (rip cpu + of_nat (length (encode a)))"
  using assms by (rule exec_one_asm)

theorem wg_x86_exec_one_refines_witness:
  "wg_x86_exec_one (prog_cpu [5, 7]) (prog_mem (encode (Alu_rr 7 0 1)))
     = Some (WG_INTERP_OK, prog_cpu [5, 7]\<lparr>instruction_count := 1, rip := 0x1003,
         rflags := sub_rflags 5 7 0x202\<rparr>, prog_mem (encode (Alu_rr 7 0 1)))
   \<and> sub_rflags 5 7 0x202 = 0x293"
proof -
  have c: "code_at (prog_mem (encode (Alu_rr 7 0 1))) (rip (prog_cpu [5, 7])) (encode (Alu_rr 7 0 1))"
    using prog_code [of "encode (Alu_rr 7 0 1)"] by simp
  have i: "instruction_count (prog_cpu [5, 7]) = 0" "rflags (prog_cpu [5, 7]) = 0x202"
    by (simp_all add: prog_cpu_def wg_x86_state_reset_def flag_defs)
  have f: "sub_rflags 5 7 0x202 = 0x293" by code_simp
  show ?thesis
    using wg_x86_exec_one_refines [OF c] i f
    by (simp add: alu_step_def del: encode.simps) (simp add: prog_cpu_def)
qed

text \<open>C37: A near call and the return it reaches: the return address is pushed below RSP, and after
  the two instructions RIP is behind the call, every register including RSP is as before, and
  memory differs from the one before only in the eight bytes of the stack slot.\<close>

theorem call_ret_roundtrip:
  assumes cpu: "wf_cpu cpu" and call: "code_at mem (rip cpu) (encode (Call_rel v))"
    and t: "t = rip cpu + 5 + scast v" and nstub: "\<not> is_stub t" and ret: "code_at mem t (encode Ret_near)"
    and sp: "sp = gpr cpu ! WG_REG_RSP - 8" and slot: "mem_view mem sp \<noteq> None"
    and wr: "wg_memory_write_u64 mem sp (rip cpu + 5) = Some mem'"
    and off: "8 \<le> unat (t - sp)" and nz: "rip cpu + 5 \<noteq> 0"
  shows "wg_x86_exec_block cpu mem 2 =
      Some (WG_INTERP_OK, cpu\<lparr>rip := rip cpu + 5, instruction_count := instruction_count cpu + 2\<rparr>, mem')
    \<and> (\<forall>x. mem_view mem' x \<noteq> mem_view mem x \<longrightarrow> unat (x - sp) < 8)"
proof -
  note w = write_u64_resolved [OF slot wr]
  have len: "length (gpr cpu) = 16" using cpu by (rule wf_cpu_gpr)
  let ?c = "cpu\<lparr>gpr := (gpr cpu)[4 := sp], instruction_count := instruction_count cpu + 1, rip := t\<rparr>"
  have one: "wg_x86_exec_one cpu mem = Some (WG_INTERP_OK, ?c, mem')"
    using exec_one_asm [OF call _ cpu] wr len nstub t sp
    by simp
  have "code_at mem' t (encode Ret_near)"
    using ret w(2) [of t] off by (simp add: code_at_def)
  then have two: "wg_x86_exec_one ?c mem' = Some (WG_INTERP_OK,
      cpu\<lparr>rip := rip cpu + 5, instruction_count := instruction_count cpu + 2\<rparr>, mem')"
    using exec_one_asm [of mem' ?c Ret_near] cpu w(1) nz len sp
    by (simp add: wf_cpu_def)
  from one two w(2) show ?thesis by (auto simp: wg_x86_exec_block_def numeral_2_eq_2 not_le [symmetric])
qed

theorem call_ret_roundtrip_witness:
  "\<exists>cpu' mem'. wg_x86_exec_block (prog_cpu [0, 0, 0, 0, 0x1F00])
      (prog_mem (encode (Call_rel 0xB) @ replicate 11 0 @ [0xC3])) 2 = Some (WG_INTERP_OK, cpu', mem')
     \<and> rip cpu' = 0x1005 \<and> gpr cpu' ! 4 = 0x1F00"
proof -
  let ?bs = "encode (Call_rel 0xB) @ replicate 11 0 @ [0xC3]"
  let ?m = "prog_mem ?bs" and ?c = "prog_cpu [0, 0, 0, 0, 0x1F00]"
  have code: "code_at ?m (rip ?c) (encode (Call_rel 0xB))" "code_at ?m 0x1010 (encode Ret_near)"
    using prog_code [of ?bs] unfolding code_at_append by simp_all
  have view: "mem_view ?m 0x1EF8 \<noteq> None"
    using prog_view [of "0xEF8" ?bs] by simp
  obtain mem' where w: "wg_memory_write_u64 ?m 0x1EF8 (rip ?c + 5) = Some mem'"
    by (simp add: wg_memory_write_u64_def prog_eval Let_def)
  show ?thesis
    using call_ret_roundtrip [of ?c ?m "0xB" "0x1010" "0x1EF8" mem'] code view w
    by (auto simp: is_stub_def simp del: encode.simps)
qed

definition sum_program :: "u8 list" where
  "sum_program = encode (Alu_rr 0 0 1) @ encode (Alu_ri 5 1 1) @ encode (Jcc_rel 5 (- 16)) @ encode Ret_near"

lemma sum_iteration:
  assumes cpu: "wf_cpu cpu" and code: "code_at mem (rip cpu) sum_program"
  shows "\<exists>c. (\<forall>n. exec_upto cpu mem (Suc (Suc (Suc n))) = exec_upto c mem n) \<and> wf_cpu c
    \<and> gpr c = (gpr cpu)[0 := gpr cpu ! 0 + gpr cpu ! 1, 1 := gpr cpu ! 1 - 1]
    \<and> rip c = (if gpr cpu ! 1 = 1 then rip cpu + 16 else rip cpu)"
proof -
  have len: "length (gpr cpu) = 16" using cpu by (rule wf_cpu_gpr)
  have sc: "scast (1 :: u32) = (1 :: u64)" "scast (- 16 :: u32) = (- 16 :: u64)" by simp_all
  have code': "code_at mem (rip cpu) (encode (Alu_rr 0 0 1))" "code_at mem (rip cpu + 3) (encode (Alu_ri 5 1 1))"
    "code_at mem (rip cpu + 10) (encode (Jcc_rel 5 (- 16)))"
    using code unfolding sum_program_def code_at_append by (simp_all add: add.assoc)
  define c1 where "c1 = cpu\<lparr>instruction_count := instruction_count cpu + 1,
      gpr := (gpr cpu)[0 := gpr cpu ! 0 + gpr cpu ! 1], rip := rip cpu + 3,
      rflags := add_rflags (gpr cpu ! 0) (gpr cpu ! 1) (rflags cpu)\<rparr>"
  have one: "wg_x86_exec_one cpu mem = Some (WG_INTERP_OK, c1, mem)"
    using exec_one_asm [OF code'(1) _ cpu] by (simp add: c1_def alu_step_def Let_def)
  have g1: "gpr c1 = (gpr cpu)[0 := gpr cpu ! 0 + gpr cpu ! 1]" "rip c1 = rip cpu + 3"
    by (simp_all add: c1_def)
  have w1: "wf_cpu c1" using cpu by (simp add: c1_def wf_cpu_def)
  define c2 where "c2 = c1\<lparr>instruction_count := instruction_count c1 + 1,
      gpr := (gpr c1)[1 := gpr c1 ! 1 - 1], rip := rip cpu + 10,
      rflags := sub_rflags (gpr c1 ! 1) 1 (rflags c1)\<rparr>"
  have two: "wg_x86_exec_one c1 mem = Some (WG_INTERP_OK, c2, mem)"
    using exec_one_asm [OF code'(2) [folded g1(2)] _ w1] by (simp add: c2_def alu_step_def g1(2) sc add.assoc Let_def)
  have g2: "gpr c2 = (gpr c1)[1 := gpr c1 ! 1 - 1]" "rip c2 = rip cpu + 10"
    by (simp_all add: c2_def)
  have w2: "wf_cpu c2" using w1 by (simp add: c2_def wf_cpu_def)
  have z: "flag_cond 5 (rflags c2) \<longleftrightarrow> gpr cpu ! 1 \<noteq> 1"
    using len by (simp add: c2_def flag_cond_def sub_rflags_def ref_szp_def bit_put_bit g1)
  define c3 where "c3 = c2\<lparr>instruction_count := instruction_count c2 + 1,
      rip := if gpr cpu ! 1 = 1 then rip cpu + 16 else rip cpu\<rparr>"
  have three: "wg_x86_exec_one c2 mem = Some (WG_INTERP_OK, c3, mem)"
    using exec_one_asm [OF code'(3) [folded g2(2)] _ w2] z
    by (simp add: c3_def g2(2) sc add.assoc)
  have "gpr c3 = (gpr cpu)[0 := gpr cpu ! 0 + gpr cpu ! 1, 1 := gpr cpu ! 1 - 1]"
    using len by (simp add: c3_def g1 g2)
  then show ?thesis
    using one two three w2 by (intro exI [of _ c3]) (simp add: c3_def)
qed

lemma sum_loop:
  assumes "wf_cpu cpu" and "code_at mem (rip cpu) sum_program"
    and "gpr cpu ! 1 = of_nat n" and "0 < n" and "n < 2 ^ 64"
  shows "\<exists>c. (\<forall>m. exec_upto cpu mem (3 * n + m) = exec_upto c mem m) \<and> wf_cpu c
    \<and> gpr c = (gpr cpu)[0 := gpr cpu ! 0 + of_nat (\<Sum>{..n}), 1 := 0] \<and> rip c = rip cpu + 16"
  using assms
proof (induction n arbitrary: cpu)
  case 0
  then show ?case by simp
next
  case (Suc n)
  obtain c where c: "\<forall>m. exec_upto cpu mem (Suc (Suc (Suc m))) = exec_upto c mem m"
      "wf_cpu c" "gpr c = (gpr cpu)[0 := gpr cpu ! 0 + gpr cpu ! 1, 1 := gpr cpu ! 1 - 1]"
      "rip c = (if gpr cpu ! 1 = 1 then rip cpu + 16 else rip cpu)"
    using sum_iteration [OF Suc.prems(1,2)] by auto
  have len: "length (gpr cpu) = 16" using Suc.prems(1) by (rule wf_cpu_gpr)
  have e: "(of_nat (Suc n) :: u64) = 1 \<longleftrightarrow> n = 0"
  proof -
    have "unat (of_nat (Suc n) :: u64) = Suc n" using Suc.prems(5) by (simp add: unat_of_nat del: of_nat_Suc)
    then show ?thesis by (metis One_nat_def nat.inject of_nat_1 unat_1)
  qed
  have s3: "3 * Suc n + m = Suc (Suc (Suc (3 * n + m)))" for m by simp
  show ?case
  proof (cases "n = 0")
    case True
    with c len Suc.prems(3) show ?thesis
      unfolding s3 by (intro exI [of _ c]) (simp add: atMost_Suc)
  next
    case False
    with c Suc.prems e have r: "rip c = rip cpu" by simp
    have c1: "gpr c ! 1 = of_nat n" using c(3) len Suc.prems(3) by simp
    obtain c' where c': "\<forall>m. exec_upto c mem (3 * n + m) = exec_upto c' mem m" "wf_cpu c'"
      "gpr c' = (gpr c)[0 := gpr c ! 0 + of_nat (\<Sum>{..n}), 1 := 0]" "rip c' = rip c + 16"
      using Suc.IH [OF c(2) _ c1] Suc.prems r False by auto
    have "gpr c' = (gpr cpu)[0 := gpr cpu ! 0 + of_nat (\<Sum>{..Suc n}), 1 := 0]"
      using c'(3) c(3) len Suc.prems(3) by (simp add: list_update_swap algebra_simps)
    with c c' r show ?thesis
      unfolding s3 by (intro exI [of _ c']) simp
  qed
qed

text \<open>C1: A program run to its end: the loop \<open>add rax, rcx; sub rcx, 1; jnz loop; ret\<close>, entered
  with \<open>rcx = n > 0\<close> and a zero return address on the stack, halts after exactly \<open>3 n + 1\<close>
  instructions: with every larger budget the block halts in the same state, with the sum of
  \<open>1..n\<close> added to RAX (modulo 2^64), RCX zero and \<open>3 n + 1\<close> instructions counted, and with every
  smaller budget \<open>b\<close> it is still running after \<open>b\<close> instructions.  The budget is an \<open>int\<close>, so
  \<open>3 n + 1\<close> has to be one.\<close>

theorem sum_program_halts:
  assumes cpu: "wf_cpu cpu" and code: "code_at mem (rip cpu) sum_program"
    and n: "gpr cpu ! WG_REG_RCX = of_nat n" "0 < n" "3 * n + 1 < 2 ^ 31"
    and top: "wg_memory_read_u64 mem (gpr cpu ! WG_REG_RSP) = Some 0"
  shows "\<exists>cpu'. (\<forall>b. 3 * int n + 1 \<le> sint b \<longrightarrow> wg_x86_exec_block cpu mem b = Some (WG_INTERP_HALT, cpu', mem))
    \<and> (\<forall>b. sint b \<le> 3 * int n \<longrightarrow> (\<exists>c m. wg_x86_exec_block cpu mem b = Some (WG_INTERP_OK, c, m)
          \<and> instruction_count c = instruction_count cpu + of_nat (nat (sint b))))
    \<and> instruction_count cpu' = instruction_count cpu + of_nat (3 * n + 1)
    \<and> gpr cpu' ! WG_REG_RAX = gpr cpu ! WG_REG_RAX + of_nat (\<Sum>{..n}) \<and> gpr cpu' ! WG_REG_RCX = 0
    \<and> gpr cpu' ! WG_REG_RSP = gpr cpu ! WG_REG_RSP + 8"
proof -
  have n64: "n < 2 ^ 64" using n(3) by simp
  obtain c where c: "\<forall>m. exec_upto cpu mem (3 * n + m) = exec_upto c mem m" "wf_cpu c"
    "gpr c = (gpr cpu)[0 := gpr cpu ! 0 + of_nat (\<Sum>{..n}), 1 := 0]" "rip c = rip cpu + 16"
    using sum_loop [OF cpu code n(1,2) n64] by blast
  have len: "length (gpr cpu) = 16" using cpu by (rule wf_cpu_gpr)
  have all: "exec_upto cpu mem (3 * n) = Some (WG_INTERP_OK, c, mem)" using spec [OF c(1), of 0] by simp
  have cnt: "instruction_count c = instruction_count cpu + of_nat (3 * n)"
    using exec_upto_prefix [of cpu mem "3 * n" 0] all by simp
  have small: "\<exists>c m. wg_x86_exec_block cpu mem b = Some (WG_INTERP_OK, c, m)
      \<and> instruction_count c = instruction_count cpu + of_nat (nat (sint b))" if "sint b \<le> 3 * int n" for b
  proof -
    have "nat (sint b) + (3 * n - nat (sint b)) = 3 * n" using that by simp
    then show ?thesis
      using exec_upto_prefix [of cpu mem "nat (sint b)" "3 * n - nat (sint b)"] all
      by (auto simp: wg_x86_exec_block_def)
  qed
  define cpu' where "cpu' = c\<lparr>instruction_count := instruction_count c + 1,
      gpr := (gpr c)[4 := gpr c ! 4 + 8], rip := 0\<rparr>"
  have "code_at mem (rip c) (encode Ret_near)"
    using code unfolding sum_program_def code_at_append c(4) by (simp add: add.assoc)
  then have last: "wg_x86_exec_one c mem = Some (WG_INTERP_HALT, cpu', mem)"
    using exec_one_asm [of mem c Ret_near] c top len by (simp add: cpu'_def)
  have big: "wg_x86_exec_block cpu mem b = Some (WG_INTERP_HALT, cpu', mem)" if "3 * int n + 1 \<le> sint b" for b
  proof -
    have "nat (sint b) = 3 * n + Suc (nat (sint b) - 3 * n - 1)" using that by simp
    then have "wg_x86_exec_block cpu mem b = exec_upto c mem (Suc (nat (sint b) - 3 * n - 1))"
      using c(1) unfolding wg_x86_exec_block_def by metis
    then show ?thesis by (simp add: last)
  qed
  have "gpr cpu' ! 0 = gpr cpu ! 0 + of_nat (\<Sum>{..n})" "gpr cpu' ! 1 = 0" "gpr cpu' ! 4 = gpr cpu ! 4 + 8"
    "instruction_count cpu' = instruction_count cpu + of_nat (3 * n + 1)"
    using c(3) len cnt by (simp_all add: cpu'_def)
  with small big show ?thesis by blast
qed

theorem sum_program_halts_witness:
  "\<exists>cpu'. wg_x86_exec_block (prog_cpu [10, 3, 0, 0, 0x1F00]) (prog_mem sum_program) 10
      = Some (WG_INTERP_HALT, cpu', prog_mem sum_program) \<and> gpr cpu' ! WG_REG_RAX = 16"
proof -
  let ?m = "prog_mem sum_program" and ?c = "prog_cpu [10, 3, 0, 0, 0x1F00]"
  have l: "length sum_program = 17" by (simp add: sum_program_def)
  have c: "code_at ?m (rip ?c) sum_program" using prog_code [of sum_program] l by simp
  have t: "wg_memory_read_u64 ?m (gpr ?c ! WG_REG_RSP) = Some 0"
    by (simp add: wg_memory_read_u64_def prog_eval l Let_def upt_rec)
  have s: "\<Sum>{..3 :: nat} = 6" by (simp add: numeral_3_eq_3 atMost_Suc)
  obtain cpu' where "\<forall>b. 3 * int 3 + 1 \<le> sint b \<longrightarrow> wg_x86_exec_block ?c ?m b = Some (WG_INTERP_HALT, cpu', ?m)"
    "gpr cpu' ! 0 = gpr ?c ! 0 + of_nat (\<Sum>{..3})"
    using sum_program_halts [OF _ c _ _ _ t, of 3] by auto
  moreover have "sint (10 :: u32) = 10" by simp
  ultimately show ?thesis using s by (auto intro!: exI [of _ cpu'])
qed

definition rr64 :: "WGOpcode \<Rightarrow> WGOperand \<Rightarrow> WGOperand \<Rightarrow> WGInstruction" where
  "rr64 oc a b = (set_ops insn0 oc [a, b])\<lparr>op_size := 8\<rparr>"

lemma sign_extend_narrow:
  assumes "LENGTH('a) = 8 * n" and "0 < n" "n < 8"
  shows "sign_extend (ucast (x :: 'a::len word)) n = Some (scast x)"
proof -
  have m: "(push_bit (n * 8) 1 - 1 :: u64) = mask (n * 8)" by (simp add: mask_eq_exp_minus_1)
  have k: "n * 8 - Suc 0 < 64" using assms by simp
  have b: "ucast x AND push_bit (n * 8 - 1) 1 \<noteq> (0 :: u64) \<longleftrightarrow> bit x (LENGTH('a) - 1)"
    using assms and_sign_bit [of "ucast x :: u64" "n * 8"]
    by (simp add: sign_bit_def bit_ucast_iff mult.commute k)
  have f: "j = 8 * n - Suc 0" if "8 * n - Suc 0 \<le> j" and "j < n * 8 \<or> bit x j" for j
    using that assms bit_imp_le_length [of x j] by auto
  have "ucast x OR NOT (mask (n * 8)) = (scast x :: u64)" if "bit x (LENGTH('a) - 1)"
    using that assms by (intro bit_word_eqI) (auto simp: bit_simps min_def dest: bit_imp_le_length f)
  moreover have "ucast x = (scast x :: u64)" if "\<not> bit x (LENGTH('a) - 1)"
    using that assms by (intro bit_word_eqI) (auto simp: bit_simps min_def dest: bit_imp_le_length f)
  ultimately show ?thesis
    using assms b by (simp add: sign_extend_def Let_def m del: push_bit_of_1)
qed

lemma sign_extend_8: "sign_extend v 8 = (if sint v < 0 then None else Some v)"
  using and_sign_bit [of v 64] bit_last_iff [of v] by (simp add: sign_extend_def sign_bit_def)

text \<open>\<open>sign_extend\<close> is sign extension for the 1-, 2- and 4-byte operands; for an 8-byte operand
  it shifts by 64 when the value is negative, so \<open>SAR\<close> of a negative 64-bit register by a
  non-zero count and the two-operand \<open>IMUL\<close> with a negative 64-bit destination are undefined
  behaviour in the interpreter.\<close>

theorem sign_extend_meaning:
  "sign_extend (ucast (b :: u8)) 1 = Some (scast b) \<and> sign_extend (ucast (w :: u16)) 2 = Some (scast w)
   \<and> sign_extend (ucast (l :: u32)) 4 = Some (scast l)
   \<and> sign_extend q 8 = (if sint q < 0 then None else Some q)
   \<and> (sint (gpr cpu ! d) < 0 \<longrightarrow>
        (k AND 0x3F \<noteq> 0 \<longrightarrow> exec_insn cpu mem nr (rr64 WG_OP_SAR (reg_operand d 8) (imm_operand k 8)) = None)
      \<and> exec_insn cpu mem nr (rr64 WG_OP_IMUL (reg_operand d 8) (reg_operand s 8)) = None)"
proof (intro conjI impI)
  assume n: "sint (gpr cpu ! d) < 0"
  show "exec_insn cpu mem nr (rr64 WG_OP_IMUL (reg_operand d 8) (reg_operand s 8)) = None"
    using n by (simp add: exec_insn_def rr64_def set_ops_def insn0_def exec_imul_def read_operand_def
        opnd_def sign_extend_8)
  assume "k AND 0x3F \<noteq> 0"
  then have "k AND 0x3F > 0" by (simp add: word_gt_0)
  with n show "exec_insn cpu mem nr (rr64 WG_OP_SAR (reg_operand d 8) (imm_operand k 8)) = None"
    by (simp add: exec_insn_def rr64_def set_ops_def insn0_def exec_sar_def read_operand_def
        opnd_def sign_extend_8)
qed (use sign_extend_narrow [of 1 b] sign_extend_narrow [of 2 w] sign_extend_narrow [of 4 l] in
  \<open>simp_all add: sign_extend_8\<close>)

theorem sign_extend_meaning_witness:
  "sign_extend 0x80 1 = Some 0xFFFFFFFFFFFFFF80
   \<and> exec_insn (prog_cpu [- 1]) demo_mem 0 (rr64 WG_OP_SAR (reg_operand 0 8) (imm_operand 1 8)) = None"
  using sign_extend_meaning [of "0x80" 0 0 0 "prog_cpu [- 1]" 0 1 demo_mem 0 0] by simp

end
