(* ===== verification/Handle_Table.thy ===== *)
theory Handle_Table
  imports WG_Prelude
begin

section \<open>The contract of a handle table\<close>

text \<open>
  The emulated Win32 objects (synchronization objects, windows, bitmaps, device contexts,
  threads) all live in fixed arrays of slots that are found by a handle.  \<open>handle_alloc\<close> is the
  contract such a table offers its clients: a table is a finite map from live handles to
  objects, and allocation extends it at a handle that was not live, with an object that meets
  \<open>ok\<close>.  \<open>handle_table\<close> adds release, which removes exactly one handle (threads are never
  released).  The client lemmas are proved here once; each component interprets the contract it
  offers on its own functions.
\<close>

locale handle_alloc =
  fixes lookup :: "'s \<Rightarrow> 'h \<Rightarrow> 'o option"
    and alloc :: "'a \<Rightarrow> 's \<Rightarrow> ('h \<times> 's) option"
    and ok :: "'a \<Rightarrow> 'h \<Rightarrow> 'o \<Rightarrow> bool"
    and inv :: "'s \<Rightarrow> bool"
  assumes alloc_fresh: "inv s \<Longrightarrow> alloc a s = Some (h, s') \<Longrightarrow> lookup s h = None"
    and alloc_lookup: "inv s \<Longrightarrow> alloc a s = Some (h, s') \<Longrightarrow>
          \<exists>ob. ok a h ob \<and> lookup s' = (lookup s)(h \<mapsto> ob)"
    and alloc_inv: "inv s \<Longrightarrow> alloc a s = Some (h, s') \<Longrightarrow> inv s'"
begin

text \<open>Allocating a list of objects.\<close>

fun alloc_all :: "'a list \<Rightarrow> 's \<Rightarrow> ('h list \<times> 's) option" where
  "alloc_all [] s = Some ([], s)"
| "alloc_all (a # as) s = do {
     (h, s) \<leftarrow> alloc a s;
     (hs, s) \<leftarrow> alloc_all as s;
     Some (h # hs, s) }"

lemma alloc_all_spec:
  "inv s \<Longrightarrow> alloc_all as s = Some (hs, s') \<Longrightarrow>
   inv s' \<and> length hs = length as \<and> distinct hs \<and> (\<forall>h \<in> set hs. lookup s h = None)
   \<and> (\<forall>k < length as. \<exists>ob. ok (as ! k) (hs ! k) ob \<and> lookup s' (hs ! k) = Some ob)
   \<and> (\<forall>h. h \<notin> set hs \<longrightarrow> lookup s' h = lookup s h)"
proof (induction as arbitrary: s hs)
  case Nil
  then show ?case by simp
next
  case (Cons a as)
  obtain h s1 hs1 where a: "alloc a s = Some (h, s1)" and r: "alloc_all as s1 = Some (hs1, s')"
    and hs: "hs = h # hs1"
    using Cons.prems(2) by (auto split: bind_splits)
  obtain ob where l: "ok a h ob" "lookup s1 = (lookup s)(h \<mapsto> ob)"
    using alloc_lookup [OF Cons.prems(1) a] by blast
  have IH: "inv s'" "length hs1 = length as" "distinct hs1" "\<forall>x \<in> set hs1. lookup s1 x = None"
    "\<forall>k < length as. \<exists>ob. ok (as ! k) (hs1 ! k) ob \<and> lookup s' (hs1 ! k) = Some ob"
    "\<forall>x. x \<notin> set hs1 \<longrightarrow> lookup s' x = lookup s1 x"
    using Cons.IH [OF alloc_inv [OF Cons.prems(1) a] r] by auto
  have n: "h \<notin> set hs1" using IH(4) l by auto
  have old: "lookup s x = None" if "x \<in> set hs1" for x
    using IH(4) that n l by (metis fun_upd_apply)
  have "\<exists>ob. ok ((a # as) ! k) (hs ! k) ob \<and> lookup s' (hs ! k) = Some ob" if "k < length (a # as)" for k
    using that IH(5,6) n l hs by (cases k) auto
  with IH n old hs l alloc_fresh [OF Cons.prems(1) a] show ?case by auto
qed

lemma alloc_other:
  assumes "inv s" and "alloc a s = Some (h, s')" and "lookup s h' = Some ob"
  shows "h' \<noteq> h" and "lookup s' h' = Some ob"
  using assms alloc_fresh [OF assms(1,2)] alloc_lookup [OF assms(1,2)] by auto

end

locale handle_table = handle_alloc lookup alloc ok inv
  for lookup :: "'s \<Rightarrow> 'h \<Rightarrow> 'o option"
    and alloc :: "'a \<Rightarrow> 's \<Rightarrow> ('h \<times> 's) option"
    and ok :: "'a \<Rightarrow> 'h \<Rightarrow> 'o \<Rightarrow> bool"
    and inv :: "'s \<Rightarrow> bool" +
  fixes kill :: "'h \<Rightarrow> 's \<Rightarrow> 's"
  assumes kill_lookup: "inv s \<Longrightarrow> lookup (kill h s) = (lookup s)(h := None)"
    and kill_inv: "inv s \<Longrightarrow> inv (kill h s)"
begin

text \<open>Releasing what was just allocated restores the map, and releasing a list of handles
  removes exactly these.\<close>

lemma kill_alloc:
  assumes "inv s" and "alloc a s = Some (h, s')"
  shows "lookup (kill h s') = lookup s"
  using alloc_lookup [OF assms] alloc_fresh [OF assms] kill_lookup [OF alloc_inv [OF assms]] by auto

lemma kill_all:
  "inv s \<Longrightarrow> inv (fold kill hs s) \<and> lookup (fold kill hs s) = (\<lambda>h. if h \<in> set hs then None else lookup s h)"
proof (induction hs arbitrary: s)
  case (Cons h hs)
  from Cons.IH [OF kill_inv [OF Cons.prems]] kill_lookup [OF Cons.prems] show ?case
    by (auto simp: fun_eq_iff)
qed simp

lemma alloc_kill_all:
  assumes "inv s" and "alloc_all as s = Some (hs, s')"
  shows "lookup (fold kill hs s') = lookup s"
proof
  fix h
  note sp = alloc_all_spec [OF assms]
  from sp kill_all [of s' hs] show "lookup (fold kill hs s') h = lookup s h"
    by (cases "h \<in> set hs") auto
qed

end

subsection \<open>Slot arrays\<close>

text \<open>The usual implementation: an array with a liveness test, allocation in the first free slot.\<close>

lemma first_free_update:
  assumes "first_idx P xs = Some i"
  shows "length (xs[i := y]) = length xs" "xs[i := y] ! i = y"
    "j \<noteq> i \<Longrightarrow> xs[i := y] ! j = xs ! j"
  using first_idx_lt [OF assms] by simp_all

text \<open>A table of \<open>n\<close> slots with handles from a counter that has not wrapped: handles of used slots
  are distinct and behind the counter, and used entries are \<open>good\<close>.\<close>

definition slot_find :: "('e \<Rightarrow> bool) \<Rightarrow> ('e \<Rightarrow> u32) \<Rightarrow> u32 \<Rightarrow> 'e list \<Rightarrow> nat option" where
  "slot_find used hnd h es = first_idx (\<lambda>e. used e \<and> hnd e = h) es"

definition slots_ok :: "('e \<Rightarrow> bool) \<Rightarrow> ('e \<Rightarrow> u32) \<Rightarrow> ('e \<Rightarrow> bool) \<Rightarrow> nat \<Rightarrow> 'e list \<Rightarrow> u32 \<Rightarrow> bool" where
  "slots_ok used hnd good n es next_h \<longleftrightarrow>
     length es = n
     \<and> (\<forall>i < n. used (es ! i) \<longrightarrow> good (es ! i) \<and> unat (hnd (es ! i)) < unat next_h)
     \<and> (\<forall>i < n. \<forall>j < n. used (es ! i) \<longrightarrow> used (es ! j) \<longrightarrow> hnd (es ! i) = hnd (es ! j) \<longrightarrow> i = j)"

lemma slots_okD:
  assumes "slots_ok used hnd good n es next_h"
  shows "length es = n" and "i < n \<Longrightarrow> used (es ! i) \<Longrightarrow> good (es ! i)"
    and "i < n \<Longrightarrow> used (es ! i) \<Longrightarrow> unat (hnd (es ! i)) < unat next_h"
    and "i < n \<Longrightarrow> j < n \<Longrightarrow> used (es ! i) \<Longrightarrow> used (es ! j) \<Longrightarrow> hnd (es ! i) = hnd (es ! j) \<Longrightarrow> i = j"
  using assms unfolding slots_ok_def by blast+

lemma slot_findD:
  assumes "slot_find used hnd h es = Some i"
  shows "i < length es" and "used (es ! i)" and "hnd (es ! i) = h"
  using first_idx_lt [OF assms [unfolded slot_find_def]] first_idx_holds [OF assms [unfolded slot_find_def]] by simp_all

lemma slot_find_at:
  assumes ok: "slots_ok used hnd good n es next_h" and i: "i < n" "used (es ! i)"
  shows "slot_find used hnd (hnd (es ! i)) es = Some i"
  unfolding slot_find_def
proof (rule first_idx_unique)
  show "i < length es" "used (es ! i) \<and> hnd (es ! i) = hnd (es ! i)" using i slots_okD(1) [OF ok] by simp_all
  fix j assume "j < length es" "used (es ! j) \<and> hnd (es ! j) = hnd (es ! i)"
  then show "j = i" using slots_okD(1) [OF ok] i slots_okD(4) [OF ok, of j i] by blast
qed

lemma slot_find_iff:
  assumes ok: "slots_ok used hnd good n es next_h"
  shows "slot_find used hnd h es = Some i \<longleftrightarrow> i < n \<and> used (es ! i) \<and> hnd (es ! i) = h"
  using slot_find_at [OF ok] slot_findD [of used hnd h es i] slots_okD(1) [OF ok] by auto

lemma slots_fresh:
  assumes ok: "slots_ok used hnd good n es next_h"
  shows "slot_find used hnd next_h es = None"
  using slot_findD [of used hnd next_h es] slots_okD(1,3) [OF ok]
  by (cases "slot_find used hnd next_h es") force+

lemma slots_alloc:
  assumes ok: "slots_ok used hnd good n es next_h" and free: "first_idx (\<lambda>e. \<not> used e) es = Some i"
    and e: "used e" "good e" "hnd e = next_h" and nowrap: "next_h \<noteq> - 1"
  shows "slots_ok used hnd good n (es[i := e]) (next_h + 1)"
    and "slot_find used hnd h (es[i := e]) = (if h = next_h then Some i else slot_find used hnd h es)"
proof -
  have i: "i < n" "\<not> used (es ! i)" using first_idx_lt [OF free] first_idx_holds [OF free] slots_okD(1) [OF ok] by simp_all
  have len: "i < length es" using i(1) slots_okD(1) [OF ok] by simp
  have "unat next_h \<noteq> 2 ^ 32 - 1"
  proof
    assume "unat next_h = 2 ^ 32 - 1"
    then have "unat next_h = unat (- 1 :: u32)" by (simp add: unsigned_minus_1_eq_mask mask_eq_exp_minus_1)
    then show False using nowrap by (simp add: word_unat_eq_iff)
  qed
  then have nx: "unat (next_h + 1) = unat next_h + 1"
    using unat_lt32 [of next_h] by (simp add: unat_plus_if')
  have lt: "unat (hnd (es ! j)) < unat next_h" if "j < n" "used (es ! j)" for j using slots_okD(3) [OF ok that] .
  show ok': "slots_ok used hnd good n (es[i := e]) (next_h + 1)"
    unfolding slots_ok_def
  proof (intro conjI allI impI)
    show "length (es[i := e]) = n" using slots_okD(1) [OF ok] by simp
    fix j assume j: "j < n" "used (es[i := e] ! j)"
    show "good (es[i := e] ! j)" using j e len slots_okD(2) [OF ok, of j] by (cases "j = i") simp_all
    show "unat (hnd (es[i := e] ! j)) < unat (next_h + 1)" using j e len lt [of j] nx by (cases "j = i") simp_all
    fix k assume k: "k < n" "used (es[i := e] ! k)" "hnd (es[i := e] ! j) = hnd (es[i := e] ! k)"
    show "j = k" using j k e len lt [of j] lt [of k] slots_okD(4) [OF ok, of j k] by (cases "j = i"; cases "k = i") auto
  qed
  show "slot_find used hnd h (es[i := e]) = (if h = next_h then Some i else slot_find used hnd h es)"
  proof (cases "h = next_h")
    case True
    then show ?thesis using slot_find_at [OF ok' i(1)] e len by simp
  next
    case False
    then show ?thesis unfolding slot_find_def using e i by (simp add: first_idx_update_same)
  qed
qed

lemma slots_upd:
  assumes ok: "slots_ok used hnd good n es next_h" and i: "i < n" "used (es ! i)"
    and e: "used e \<longrightarrow> good e" "hnd e = hnd (es ! i)"
  shows "slots_ok used hnd good n (es[i := e]) next_h"
    and "slot_find used hnd h (es[i := e]) = (if h = hnd e \<and> \<not> used e then None else slot_find used hnd h es)"
proof -
  have len: "i < length es" using i slots_okD(1) [OF ok] by simp
  have same: "hnd (es[i := e] ! j) = hnd (es ! j)" "used (es[i := e] ! j) \<Longrightarrow> used (es ! j)" for j
    using e len i by (cases "j = i"; simp)+
  show ok': "slots_ok used hnd good n (es[i := e]) next_h"
    unfolding slots_ok_def same(1)
  proof (intro conjI allI impI)
    show "length (es[i := e]) = n" using slots_okD(1) [OF ok] by simp
    fix j assume j: "j < n" "used (es[i := e] ! j)"
    show "good (es[i := e] ! j)" using j e len slots_okD(2) [OF ok, of j] by (cases "j = i") simp_all
    show "unat (hnd (es ! j)) < unat next_h" using slots_okD(3) [OF ok j(1) same(2) [OF j(2)]] .
    fix k assume "k < n" "used (es[i := e] ! k)" "hnd (es ! j) = hnd (es ! k)"
    then show "j = k" using slots_okD(4) [OF ok j(1) _ same(2) [OF j(2)]] same(2) by blast
  qed
  show "slot_find used hnd h (es[i := e]) = (if h = hnd e \<and> \<not> used e then None else slot_find used hnd h es)"
  proof (cases "slot_find used hnd h (es[i := e])")
    case None
    show ?thesis
    proof (cases "slot_find used hnd h es")
      case (Some j)
      then have j: "j < n" "used (es ! j)" "hnd (es ! j) = h" by (simp_all add: slot_find_iff [OF ok])
      from None have "\<not> (used (es[i := e] ! j) \<and> hnd (es[i := e] ! j) = h)"
        using slot_find_iff [OF ok', of h j] j(1) by simp
      then have "j = i \<and> \<not> used e" using j same(1) [of j] len by (cases "j = i") auto
      then show ?thesis using None j e by auto
    qed (use None in simp)
  next
    case (Some j)
    then have j: "j < n" "used (es[i := e] ! j)" "hnd (es[i := e] ! j) = h" by (simp_all add: slot_find_iff [OF ok'])
    then have "slot_find used hnd h es = Some j" using same by (simp add: slot_find_iff [OF ok])
    moreover have "\<not> (h = hnd e \<and> \<not> used e)"
      using j e i len same slots_okD(4) [OF ok j(1) i(1) same(2) [OF j(2)] i(2)] by (cases "j = i") auto
    ultimately show ?thesis using Some by simp
  qed
qed

end
