(* ===== verification/Sync.thy ===== *)
theory Sync
  imports Handle_Table
begin

section \<open>Synchronization objects (wg_sync)\<close>

text \<open>
  \<open>Sources/Win32/wg_sync.c\<close>: events, mutexes, semaphores, thread objects and condition variables
  in one table under one monitor lock.  Every exported function holds the lock from its first
  to its last statement except inside \<open>pthread_cond_wait\<close>, so a call that does not block is one
  atomic function here, and a blocking call is a first pass followed by one pass per return
  from the condition variable.  \<open>count\<close>, \<open>max\<close> and \<open>recursion\<close> are read as integers: the
  addition of a caller-chosen count is checked for overflow, and the recursion depth of a mutex is
  shown to be at most 64 times the number of steps of a run, so that an \<open>int\<close> holds it in every
  run of fewer than \<open>2 ^ 25\<close> steps.
\<close>

datatype WGO = WGO_FREE | WGO_EVENT | WGO_MUTEX | WGO_SEM | WGO_THREAD | WGO_CV

record WGSyncObj =
  so_type :: WGO
  so_handle :: u32
  manual :: bool
  signalled :: bool
  owner_tid :: u32
  recursion :: int
  so_count :: int
  so_max :: int
  exited :: bool
  so_exit_code :: u32

record WaitEntry =
  w_tid :: u32
  w_handle :: u32
  w_active :: bool

record SyncState =
  objs :: "WGSyncObj list"
  waitq :: "WaitEntry list"

definition WG_SYNC_MAX :: nat where "WG_SYNC_MAX = 8192"
definition WG_SYNC_BASE :: u32 where "WG_SYNC_BASE = 0x00090000"
definition WG_SYNC_INFINITE :: u32 where "WG_SYNC_INFINITE = 0xFFFFFFFF"
definition WG_WAIT_OBJECT_0 :: u32 where "WG_WAIT_OBJECT_0 = 0"
definition WG_WAIT_ABANDONED :: u32 where "WG_WAIT_ABANDONED = 0x80"
definition WG_WAIT_TIMEOUT :: u32 where "WG_WAIT_TIMEOUT = 0x102"
definition WG_WAIT_FAILED :: u32 where "WG_WAIT_FAILED = 0xFFFFFFFF"

definition obj0 :: WGSyncObj where
  "obj0 = \<lparr>so_type = WGO_FREE, so_handle = 0, manual = False, signalled = False, owner_tid = 0,
     recursion = 0, so_count = 0, so_max = 0, exited = False, so_exit_code = 0\<rparr>"

definition wg_sync_init :: SyncState where
  "wg_sync_init = \<lparr>objs = replicate WG_SYNC_MAX obj0,
     waitq = replicate 128 \<lparr>w_tid = 0, w_handle = 0, w_active = False\<rparr>\<rparr>"

subsection \<open>The wait records\<close>

definition wq_set :: "u32 \<Rightarrow> u32 \<Rightarrow> SyncState \<Rightarrow> SyncState" where
  "wq_set tid h s =
     (case first_idx (\<lambda>w. w_active w \<and> w_tid w = tid) (waitq s) of
        Some i \<Rightarrow> s\<lparr>waitq := (waitq s)[i := (waitq s ! i)\<lparr>w_handle := h\<rparr>]\<rparr>
      | None \<Rightarrow>
          (case first_idx (\<lambda>w. \<not> w_active w) (waitq s) of
             Some i \<Rightarrow> s\<lparr>waitq := (waitq s)[i := \<lparr>w_tid = tid, w_handle = h, w_active = True\<rparr>]\<rparr>
           | None \<Rightarrow> s))"

definition wq_clr :: "u32 \<Rightarrow> SyncState \<Rightarrow> SyncState" where
  "wq_clr tid s =
     (case first_idx (\<lambda>w. w_active w \<and> w_tid w = tid) (waitq s) of
        Some i \<Rightarrow> s\<lparr>waitq := (waitq s)[i := (waitq s ! i)\<lparr>w_active := False\<rparr>]\<rparr>
      | None \<Rightarrow> s)"

subsection \<open>The table\<close>

definition put_obj :: "SyncState \<Rightarrow> nat \<Rightarrow> WGSyncObj \<Rightarrow> SyncState" where
  "put_obj s i o' = s\<lparr>objs := (objs s)[i := o']\<rparr>"

definition alloc_obj_locked :: "SyncState \<Rightarrow> WGO \<Rightarrow> (nat \<times> SyncState) option" where
  "alloc_obj_locked s t =
     (case first_idx (\<lambda>x. so_type x = WGO_FREE) (objs s) of
        Some i \<Rightarrow> Some (i, put_obj s i (obj0\<lparr>so_type := t, so_handle := WG_SYNC_BASE + of_nat i\<rparr>))
      | None \<Rightarrow> None)"

definition find_locked :: "SyncState \<Rightarrow> u32 \<Rightarrow> nat option" where
  "find_locked s h =
     (if h < WG_SYNC_BASE \<or> h \<ge> WG_SYNC_BASE + of_nat WG_SYNC_MAX then None
      else let i = unat (h - WG_SYNC_BASE); x = objs s ! i
           in if so_type x \<noteq> WGO_FREE \<and> so_handle x = h then Some i else None)"

text \<open>The constructors: allocate, then fill the fields of the type.  Handle 0 is failure.\<close>

definition create_obj :: "SyncState \<Rightarrow> WGO \<Rightarrow> (WGSyncObj \<Rightarrow> WGSyncObj) \<Rightarrow> u32 \<times> SyncState" where
  "create_obj s t fill =
     (case alloc_obj_locked s t of
        Some (i, s) \<Rightarrow> let x = fill (objs s ! i) in (so_handle x, put_obj s i x)
      | None \<Rightarrow> (0, s))"

definition wg_sync_create_event :: "SyncState \<Rightarrow> bool \<Rightarrow> bool \<Rightarrow> u32 \<times> SyncState" where
  "wg_sync_create_event s manual_reset initial_signalled =
     create_obj s WGO_EVENT (\<lambda>x. x\<lparr>manual := manual_reset, signalled := initial_signalled\<rparr>)"

definition wg_sync_create_mutex :: "SyncState \<Rightarrow> bool \<Rightarrow> u32 \<Rightarrow> u32 \<times> SyncState" where
  "wg_sync_create_mutex s initially_owned tid =
     create_obj s WGO_MUTEX (\<lambda>x. if initially_owned then x\<lparr>owner_tid := tid, recursion := 1\<rparr> else x)"

definition wg_sync_create_semaphore :: "SyncState \<Rightarrow> int \<Rightarrow> int \<Rightarrow> u32 \<times> SyncState" where
  "wg_sync_create_semaphore s initial_count max_count =
     create_obj s WGO_SEM (\<lambda>x. x\<lparr>so_count := initial_count, so_max := max_count\<rparr>)"

definition wg_sync_create_thread_obj :: "SyncState \<Rightarrow> u32 \<Rightarrow> u32 \<times> SyncState" where
  "wg_sync_create_thread_obj s tid =
     create_obj s WGO_THREAD (\<lambda>x. x\<lparr>owner_tid := tid, exited := False\<rparr>)"

definition wg_sync_create_cv :: "SyncState \<Rightarrow> u32 \<times> SyncState" where
  "wg_sync_create_cv s = create_obj s WGO_CV (\<lambda>x. x\<lparr>so_count := 0\<rparr>)"

subsection \<open>Signalling\<close>

definition wg_sync_set_event :: "SyncState \<Rightarrow> u32 \<Rightarrow> bool \<times> SyncState" where
  "wg_sync_set_event s h =
     (case find_locked s h of
        Some i \<Rightarrow> if so_type (objs s ! i) = WGO_EVENT
                  then (True, put_obj s i ((objs s ! i)\<lparr>signalled := True\<rparr>)) else (False, s)
      | None \<Rightarrow> (False, s))"

definition wg_sync_reset_event :: "SyncState \<Rightarrow> u32 \<Rightarrow> bool \<times> SyncState" where
  "wg_sync_reset_event s h =
     (case find_locked s h of
        Some i \<Rightarrow> if so_type (objs s ! i) = WGO_EVENT
                  then (True, put_obj s i ((objs s ! i)\<lparr>signalled := False\<rparr>)) else (False, s)
      | None \<Rightarrow> (False, s))"

text \<open>Set, broadcast and reset, all under the lock: no waiter runs in between.\<close>

definition wg_sync_pulse_event :: "SyncState \<Rightarrow> u32 \<Rightarrow> bool \<times> SyncState" where
  "wg_sync_pulse_event s h =
     (case find_locked s h of
        Some i \<Rightarrow> if so_type (objs s ! i) = WGO_EVENT
                  then let s = put_obj s i ((objs s ! i)\<lparr>signalled := True\<rparr>)
                       in (True, put_obj s i ((objs s ! i)\<lparr>signalled := False\<rparr>)) else (False, s)
      | None \<Rightarrow> (False, s))"

definition wg_sync_release_mutex :: "SyncState \<Rightarrow> u32 \<Rightarrow> u32 \<Rightarrow> bool \<times> SyncState" where
  "wg_sync_release_mutex s h tid =
     (case find_locked s h of
        Some i \<Rightarrow>
          (let x = objs s ! i in
           if so_type x = WGO_MUTEX \<and> owner_tid x = tid \<and> recursion x > 0
           then let x = x\<lparr>recursion := recursion x - 1\<rparr>;
                    x = (if recursion x = 0 then x\<lparr>owner_tid := 0\<rparr> else x)
                in (True, put_obj s i x)
           else (False, s))
      | None \<Rightarrow> (False, s))"

text \<open>\<^term>\<open>None\<close> is the signed overflow of \<open>o->count += count\<close>.  The middle component is what
  \<open>*prev_count\<close> receives, if anything.\<close>

definition wg_sync_release_semaphore :: "SyncState \<Rightarrow> u32 \<Rightarrow> int \<Rightarrow> (bool \<times> int option \<times> SyncState) option" where
  "wg_sync_release_semaphore s h cnt =
     (case find_locked s h of
        Some i \<Rightarrow>
          (let x = objs s ! i in
           if so_type x = WGO_SEM
           then if \<not> in_i64 (so_count x + cnt) then None
                else let n = so_count x + cnt;
                         n = (if so_max x > 0 \<and> n > so_max x then so_max x else n)
                     in Some (True, Some (so_count x), put_obj s i (x\<lparr>so_count := n\<rparr>))
           else Some (False, None, s))
      | None \<Rightarrow> Some (False, None, s))"

definition wg_sync_thread_exit :: "SyncState \<Rightarrow> u32 \<Rightarrow> u32 \<Rightarrow> SyncState" where
  "wg_sync_thread_exit s h code =
     (case find_locked s h of
        Some i \<Rightarrow>
          (let x = objs s ! i in
           if so_type x = WGO_THREAD \<and> \<not> exited x
           then put_obj s i (x\<lparr>exited := True, so_exit_code := code\<rparr>) else s)
      | None \<Rightarrow> s)"

subsection \<open>Waiting on one object\<close>

definition satisfied_locked :: "WGSyncObj \<Rightarrow> u32 \<Rightarrow> bool" where
  "satisfied_locked x tid =
     (case so_type x of
        WGO_EVENT \<Rightarrow> signalled x
      | WGO_MUTEX \<Rightarrow> owner_tid x = 0 \<or> owner_tid x = tid
      | WGO_SEM \<Rightarrow> so_count x > 0
      | WGO_THREAD \<Rightarrow> exited x
      | _ \<Rightarrow> False)"

definition acquire_locked :: "WGSyncObj \<Rightarrow> u32 \<Rightarrow> WGSyncObj" where
  "acquire_locked x tid =
     (case so_type x of
        WGO_EVENT \<Rightarrow> if \<not> manual x then x\<lparr>signalled := False\<rparr> else x
      | WGO_MUTEX \<Rightarrow> x\<lparr>owner_tid := tid, recursion := recursion x + 1\<rparr>
      | WGO_SEM \<Rightarrow> x\<lparr>so_count := so_count x - 1\<rparr>
      | _ \<Rightarrow> x)"

text \<open>
  The result of a pass is the return code, or \<^term>\<open>None\<close> when the thread blocks on the
  condition variable.  \<open>single_pass\<close> is the loop body up to the wait, with the object found
  in slot \<open>i\<close>.
\<close>

definition single_pass :: "SyncState \<Rightarrow> nat \<Rightarrow> u32 \<Rightarrow> u32 \<Rightarrow> u32 option \<times> SyncState" where
  "single_pass s i timeout_ms tid =
     (if satisfied_locked (objs s ! i) tid
      then (Some WG_WAIT_OBJECT_0, wq_clr tid (put_obj s i (acquire_locked (objs s ! i) tid)))
      else if timeout_ms = 0 then (Some WG_WAIT_TIMEOUT, wq_clr tid s)
      else (None, s))"

definition wait_single_enter :: "SyncState \<Rightarrow> u32 \<Rightarrow> u32 \<Rightarrow> u32 \<Rightarrow> u32 option \<times> SyncState" where
  "wait_single_enter s h timeout_ms tid =
     (case find_locked s h of
        None \<Rightarrow> (Some WG_WAIT_FAILED, s)
      | Some i \<Rightarrow> single_pass (wq_set tid h s) i timeout_ms tid)"

text \<open>The condition variable returned (a signal or a spurious wakeup).\<close>

definition wait_single_woken :: "SyncState \<Rightarrow> u32 \<Rightarrow> u32 \<Rightarrow> u32 \<Rightarrow> u32 option \<times> SyncState" where
  "wait_single_woken s h timeout_ms tid =
     (case find_locked s h of
        None \<Rightarrow> (Some WG_WAIT_FAILED, wq_clr tid s)
      | Some i \<Rightarrow> single_pass s i timeout_ms tid)"

text \<open>The timed wait returned \<open>ETIMEDOUT\<close>: the code looks once more through the slot pointer it
  holds, which is the slot the handle names.\<close>

definition wait_single_timeout :: "SyncState \<Rightarrow> u32 \<Rightarrow> u32 \<Rightarrow> u32 \<times> SyncState" where
  "wait_single_timeout s h tid =
     (let i = unat (h - WG_SYNC_BASE) in
      if satisfied_locked (objs s ! i) tid
      then (WG_WAIT_OBJECT_0, wq_clr tid (put_obj s i (acquire_locked (objs s ! i) tid)))
      else (WG_WAIT_TIMEOUT, wq_clr tid s))"

subsection \<open>Waiting on several objects\<close>

fun acquire_all :: "SyncState \<Rightarrow> nat list \<Rightarrow> u32 \<Rightarrow> SyncState" where
  "acquire_all s [] tid = s"
| "acquire_all s (i # is) tid = acquire_all (put_obj s i (acquire_locked (objs s ! i) tid)) is tid"

definition multi_pass :: "SyncState \<Rightarrow> u32 list \<Rightarrow> bool \<Rightarrow> u32 \<Rightarrow> u32 \<Rightarrow> u32 option \<times> SyncState" where
  "multi_pass s handles wait_all timeout_ms tid =
     (let found = map (find_locked s) handles in
      if None \<in> set found then (Some WG_WAIT_FAILED, s)
      else
        let is = map the found;
            block = (if timeout_ms = 0 then (Some WG_WAIT_TIMEOUT, s) else (None, s))
        in if wait_all
           then (if \<forall>i \<in> set is. satisfied_locked (objs s ! i) tid
                 then (Some WG_WAIT_OBJECT_0, acquire_all s is tid) else block)
           else (case first_idx (\<lambda>i. satisfied_locked (objs s ! i) tid) is of
                   Some hit \<Rightarrow> (Some (WG_WAIT_OBJECT_0 + of_nat hit),
                      put_obj s (is ! hit) (acquire_locked (objs s ! (is ! hit)) tid))
                 | None \<Rightarrow> block))"

definition wait_multiple_enter :: "SyncState \<Rightarrow> u32 list \<Rightarrow> bool \<Rightarrow> u32 \<Rightarrow> u32 \<Rightarrow> u32 option \<times> SyncState" where
  "wait_multiple_enter s handles wait_all timeout_ms tid =
     (if handles = [] \<or> length handles > 64 then (Some WG_WAIT_FAILED, s)
      else multi_pass s handles wait_all timeout_ms tid)"

text \<open>Each return from the condition variable runs the pass again; \<open>ETIMEDOUT\<close> ends the wait
  without looking at the objects.\<close>

definition wait_multiple_timeout :: "SyncState \<Rightarrow> u32 \<times> SyncState" where
  "wait_multiple_timeout s = (WG_WAIT_TIMEOUT, s)"

subsection \<open>Condition variables\<close>

definition wg_sync_cv_wake :: "SyncState \<Rightarrow> u32 \<Rightarrow> bool \<Rightarrow> SyncState" where
  "wg_sync_cv_wake s cv wake_all =
     (case find_locked s cv of
        Some i \<Rightarrow> if so_type (objs s ! i) = WGO_CV
                  then put_obj s i ((objs s ! i)\<lparr>so_count := so_count (objs s ! i) + 1\<rparr>) else s
      | None \<Rightarrow> s)"

text \<open>A sleeper waits for the generation to move, then for the mutex.\<close>

datatype cv_state = CvBlocked | CvRelock u32 | CvDone u32

definition cv_relock :: "SyncState \<Rightarrow> nat \<Rightarrow> int \<Rightarrow> u32 \<Rightarrow> u32 \<Rightarrow> cv_state \<times> SyncState" where
  "cv_relock s i saved rv tid =
     (if owner_tid (objs s ! i) \<noteq> 0 \<and> owner_tid (objs s ! i) \<noteq> tid then (CvRelock rv, s)
      else (CvDone rv, put_obj s i ((objs s ! i)\<lparr>owner_tid := tid, recursion := saved\<rparr>)))"

definition cv_leave :: "SyncState \<Rightarrow> u32 \<Rightarrow> int \<Rightarrow> u32 \<Rightarrow> u32 \<Rightarrow> cv_state \<times> SyncState" where
  "cv_leave s cs_mtx saved rv tid =
     (case find_locked s cs_mtx of
        Some i \<Rightarrow> if so_type (objs s ! i) = WGO_MUTEX then cv_relock s i saved rv tid else (CvDone rv, s)
      | None \<Rightarrow> (CvDone rv, s))"

definition cv_relock_woken :: "SyncState \<Rightarrow> u32 \<Rightarrow> int \<Rightarrow> u32 \<Rightarrow> u32 \<Rightarrow> cv_state \<times> SyncState" where
  "cv_relock_woken s cs_mtx saved rv tid =
     (case find_locked s cs_mtx of
        Some i \<Rightarrow> cv_relock s i saved rv tid
      | None \<Rightarrow> (CvDone rv, s))"

definition cv_pass :: "SyncState \<Rightarrow> u32 \<Rightarrow> u32 \<Rightarrow> int \<Rightarrow> int \<Rightarrow> u32 \<Rightarrow> u32 \<Rightarrow> cv_state \<times> SyncState" where
  "cv_pass s cv cs_mtx gen saved timeout_ms tid =
     (case find_locked s cv of
        None \<Rightarrow> cv_leave s cs_mtx saved WG_WAIT_FAILED tid
      | Some c \<Rightarrow>
          if so_count (objs s ! c) \<noteq> gen then cv_leave s cs_mtx saved WG_WAIT_OBJECT_0 tid
          else if timeout_ms = 0 then cv_leave s cs_mtx saved WG_WAIT_TIMEOUT tid
          else (CvBlocked, s))"

definition cv_timeout :: "SyncState \<Rightarrow> u32 \<Rightarrow> u32 \<Rightarrow> int \<Rightarrow> int \<Rightarrow> u32 \<Rightarrow> cv_state \<times> SyncState" where
  "cv_timeout s cv cs_mtx gen saved tid =
     cv_leave s cs_mtx saved
       (if so_count (objs s ! unat (cv - WG_SYNC_BASE)) \<noteq> gen then WG_WAIT_OBJECT_0 else WG_WAIT_TIMEOUT) tid"

text \<open>The entry releases the mutex whoever owns it; the result also carries the generation and the
  saved recursion depth.\<close>

definition cv_sleep_enter ::
    "SyncState \<Rightarrow> u32 \<Rightarrow> u32 \<Rightarrow> u32 \<Rightarrow> u32 \<Rightarrow> (cv_state \<times> int \<times> int) \<times> SyncState" where
  "cv_sleep_enter s cv cs_mtx timeout_ms tid =
     (case (find_locked s cv, find_locked s cs_mtx) of
        (Some c, Some m) \<Rightarrow>
          if so_type (objs s ! c) \<noteq> WGO_CV \<or> so_type (objs s ! m) \<noteq> WGO_MUTEX
          then ((CvDone WG_WAIT_FAILED, 0, 0), s)
          else
            let saved = (if recursion (objs s ! m) > 0 then recursion (objs s ! m) else 1);
                s = put_obj s m ((objs s ! m)\<lparr>owner_tid := 0, recursion := 0\<rparr>);
                gen = so_count (objs s ! c);
                (r, s) = cv_pass s cv cs_mtx gen saved timeout_ms tid
            in ((r, gen, saved), s)
      | _ \<Rightarrow> ((CvDone WG_WAIT_FAILED, 0, 0), s))"

subsection \<open>Introspection, closing, and the deadlock breakers\<close>

definition wg_sync_is_known :: "SyncState \<Rightarrow> u32 \<Rightarrow> bool" where
  "wg_sync_is_known s h \<longleftrightarrow> find_locked s h \<noteq> None"

definition wg_sync_thread_exit_code :: "SyncState \<Rightarrow> u32 \<Rightarrow> u32" where
  "wg_sync_thread_exit_code s h =
     (case find_locked s h of
        Some i \<Rightarrow> if so_type (objs s ! i) = WGO_THREAD then so_exit_code (objs s ! i) else 0
      | None \<Rightarrow> 0)"

definition wg_sync_close :: "SyncState \<Rightarrow> u32 \<Rightarrow> bool \<times> SyncState" where
  "wg_sync_close s h =
     (case find_locked s h of
        Some i \<Rightarrow> (True, put_obj s i ((objs s ! i)\<lparr>so_type := WGO_FREE, so_handle := 0\<rparr>))
      | None \<Rightarrow> (False, s))"

text \<open>One entry of the wait records, under the filter \<open>ok\<close> on the entry and the event.\<close>

definition kick_entry :: "(WaitEntry \<Rightarrow> bool) \<Rightarrow> (WGSyncObj \<Rightarrow> bool) \<Rightarrow> WaitEntry \<Rightarrow> SyncState \<times> nat \<Rightarrow> SyncState \<times> nat" where
  "kick_entry who ok w sk =
     (case sk of (s, kicked) \<Rightarrow>
        if w_active w \<and> who w then
          (case find_locked s (w_handle w) of
             Some i \<Rightarrow> (let x = objs s ! i in
               if so_type x = WGO_EVENT \<and> ok x \<and> \<not> signalled x
               then (put_obj s i (x\<lparr>signalled := True\<rparr>), kicked + 1) else (s, kicked))
           | None \<Rightarrow> (s, kicked))
        else (s, kicked))"

text \<open>The three switches are environment variables, read once.\<close>

definition wg_sync_kick_workers :: "bool \<Rightarrow> bool \<Rightarrow> bool \<Rightarrow> SyncState \<Rightarrow> nat \<times> SyncState" where
  "wg_sync_kick_workers kickall kickman kickcv s =
     (let (s, kicked) = fold (kick_entry (\<lambda>w. kickall \<or> w_tid w \<noteq> 1) (\<lambda>x. kickman \<or> \<not> manual x))
                          (waitq s) (s, 0)
      in if kickcv
         then (kicked + length (filter (\<lambda>x. so_type x = WGO_CV) (objs s)),
               s\<lparr>objs := map (\<lambda>x. if so_type x = WGO_CV then x\<lparr>so_count := so_count x + 1\<rparr> else x) (objs s)\<rparr>)
         else (kicked, s))"

definition wg_sync_kick_tid :: "u32 \<Rightarrow> SyncState \<Rightarrow> nat \<times> SyncState" where
  "wg_sync_kick_tid tid s =
     (if tid = 0 then (0, s)
      else case first_idx (\<lambda>w. w_active w \<and> w_tid w = tid) (waitq s) of
             Some k \<Rightarrow> (case kick_entry (\<lambda>_. True) (\<lambda>x. \<not> manual x) (waitq s ! k) (s, 0) of (s, n) \<Rightarrow> (n, s))
           | None \<Rightarrow> (0, s))"

subsection \<open>Well-formed tables\<close>

definition wf_sync :: "SyncState \<Rightarrow> bool" where
  "wf_sync s \<longleftrightarrow> length (objs s) = WG_SYNC_MAX
     \<and> (\<forall>i < length (objs s). so_type (objs s ! i) \<noteq> WGO_FREE \<longrightarrow> so_handle (objs s ! i) = WG_SYNC_BASE + of_nat i)"

lemma slot_handle:
  assumes "i < WG_SYNC_MAX"
  shows "unat (WG_SYNC_BASE + of_nat i - WG_SYNC_BASE) = i"
    and "WG_SYNC_BASE \<le> WG_SYNC_BASE + of_nat i"
    and "WG_SYNC_BASE + of_nat i < WG_SYNC_BASE + of_nat WG_SYNC_MAX"
    and "WG_SYNC_BASE + of_nat i \<noteq> 0"
proof -
  have u: "unat (of_nat i :: u32) = i" using assms by (simp add: WG_SYNC_MAX_def unat_of_nat)
  then have b: "unat (WG_SYNC_BASE + of_nat i) = 0x90000 + i"
    using assms by (simp add: WG_SYNC_MAX_def WG_SYNC_BASE_def unat_word_ariths)
  show "unat (WG_SYNC_BASE + of_nat i - WG_SYNC_BASE) = i" using u by simp
  show "WG_SYNC_BASE \<le> WG_SYNC_BASE + of_nat i"
    using b by (simp add: word_le_nat_alt WG_SYNC_BASE_def)
  show "WG_SYNC_BASE + of_nat i < WG_SYNC_BASE + of_nat WG_SYNC_MAX"
    using b assms by (simp add: word_less_nat_alt WG_SYNC_BASE_def WG_SYNC_MAX_def)
  show "WG_SYNC_BASE + of_nat i \<noteq> 0" using b by auto
qed

lemma find_locked_slot:
  assumes "find_locked s h = Some i"
  shows "i = unat (h - WG_SYNC_BASE)" "i < WG_SYNC_MAX" "h = WG_SYNC_BASE + of_nat i"
    "so_type (objs s ! i) \<noteq> WGO_FREE" "so_handle (objs s ! i) = h"
proof -
  have r: "WG_SYNC_BASE \<le> h" "h < WG_SYNC_BASE + of_nat WG_SYNC_MAX"
    and i: "i = unat (h - WG_SYNC_BASE)"
    using assms by (auto simp: find_locked_def Let_def split: if_splits)
  show "i = unat (h - WG_SYNC_BASE)" by (rule i)
  show "h = WG_SYNC_BASE + of_nat i" by (simp add: i)
  have "unat h < 0x92000" using r(2) by (simp add: word_less_nat_alt WG_SYNC_BASE_def WG_SYNC_MAX_def)
  then show "i < WG_SYNC_MAX"
    using r(1) by (simp add: i unat_sub word_le_nat_alt WG_SYNC_BASE_def WG_SYNC_MAX_def)
  show "so_type (objs s ! i) \<noteq> WGO_FREE" "so_handle (objs s ! i) = h"
    using assms by (auto simp: find_locked_def Let_def split: if_splits)
qed

lemma find_locked_inj: "find_locked s h = Some i \<Longrightarrow> find_locked s h' = Some i \<Longrightarrow> h = h'"
  using find_locked_slot(5) by metis

text \<open>The table as a finite map.\<close>

definition sync_lookup :: "SyncState \<Rightarrow> u32 \<Rightarrow> WGSyncObj option" where
  "sync_lookup s h = map_option ((!) (objs s)) (find_locked s h)"

lemma find_locked_iff:
  "find_locked s h = Some i \<longleftrightarrow> i < WG_SYNC_MAX \<and> h = WG_SYNC_BASE + of_nat i
     \<and> so_type (objs s ! i) \<noteq> WGO_FREE \<and> so_handle (objs s ! i) = h"
proof
  assume "find_locked s h = Some i"
  from find_locked_slot [OF this] show "i < WG_SYNC_MAX \<and> h = WG_SYNC_BASE + of_nat i
     \<and> so_type (objs s ! i) \<noteq> WGO_FREE \<and> so_handle (objs s ! i) = h" by blast
next
  assume r: "i < WG_SYNC_MAX \<and> h = WG_SYNC_BASE + of_nat i
     \<and> so_type (objs s ! i) \<noteq> WGO_FREE \<and> so_handle (objs s ! i) = h"
  then have "\<not> (h < WG_SYNC_BASE \<or> h \<ge> WG_SYNC_BASE + of_nat WG_SYNC_MAX)" "unat (h - WG_SYNC_BASE) = i"
    using slot_handle [of i] by (metis not_le not_less)+
  with r show "find_locked s h = Some i" by (simp add: find_locked_def Let_def)
qed

lemma put_obj_sel [simp]:
  "length (objs (put_obj s i x)) = length (objs s)" "waitq (put_obj s i x) = waitq s"
  "i < length (objs s) \<Longrightarrow> objs (put_obj s i x) ! i = x"
  "j \<noteq> i \<Longrightarrow> objs (put_obj s i x) ! j = objs s ! j"
  by (simp_all add: put_obj_def)

lemma wf_find_lt: "wf_sync s \<Longrightarrow> find_locked s h = Some i \<Longrightarrow> i < length (objs s)"
  using find_locked_slot(2) by (simp add: wf_sync_def)

text \<open>Updating a live object without touching its type (unless freed) and handle.\<close>

lemma find_put:
  assumes "wf_sync s" and "find_locked s h = Some i" and "so_type x \<noteq> WGO_FREE" and "so_handle x = so_handle (objs s ! i)"
  shows "find_locked (put_obj s i x) h' = find_locked s h'" and "wf_sync (put_obj s i x)"
proof -
  have i: "i < length (objs s)" using assms(1,2) by (rule wf_find_lt)
  have "find_locked (put_obj s i x) h' = Some j \<longleftrightarrow> find_locked s h' = Some j" for j
    using find_locked_slot [OF assms(2)] assms(3,4) i by (cases "j = i") (auto simp: find_locked_iff)
  then show "find_locked (put_obj s i x) h' = find_locked s h'" by (metis option.exhaust)
  show "wf_sync (put_obj s i x)"
    using assms(1,3,4) find_locked_slot [OF assms(2)] i
    unfolding wf_sync_def by (metis put_obj_sel(1,3,4))
qed

lemma alloc_spec:
  assumes "wf_sync s" and "alloc_obj_locked s t = Some (i, s')" and "t \<noteq> WGO_FREE"
  shows "i < length (objs s)" "so_type (objs s ! i) = WGO_FREE" "\<And>j. j < i \<Longrightarrow> so_type (objs s ! j) \<noteq> WGO_FREE"
    "s' = put_obj s i (obj0\<lparr>so_type := t, so_handle := WG_SYNC_BASE + of_nat i\<rparr>)"
  using assms(2) by (auto simp: alloc_obj_locked_def first_idx_Some split: option.splits)

definition fill_ok :: "(WGSyncObj \<Rightarrow> WGSyncObj) \<Rightarrow> bool" where
  "fill_ok fill \<longleftrightarrow> (\<forall>x. so_type (fill x) = so_type x \<and> so_handle (fill x) = so_handle x)"

lemma create_spec:
  assumes wf: "wf_sync s" and c: "create_obj s t fill = (h, s')" and t: "t \<noteq> WGO_FREE" and f: "fill_ok fill"
    and h: "h \<noteq> 0"
  shows "wf_sync s'" "find_locked s h = None" "sync_lookup s' = (sync_lookup s)(h \<mapsto> fill (obj0\<lparr>so_type := t, so_handle := h\<rparr>))"
    "find_locked s h' = Some j \<Longrightarrow> find_locked s' h' = Some j \<and> objs s' ! j = objs s ! j"
proof -
  obtain i s1 where a: "alloc_obj_locked s t = Some (i, s1)"
    using c h by (auto simp: create_obj_def split: option.splits)
  note al = alloc_spec [OF wf a t]
  define x where "x = fill (obj0\<lparr>so_type := t, so_handle := WG_SYNC_BASE + of_nat i\<rparr>)"
  have s1: "objs s1 ! i = obj0\<lparr>so_type := t, so_handle := WG_SYNC_BASE + of_nat i\<rparr>" using al by simp
  have s': "s' = put_obj s i x" and hi: "h = WG_SYNC_BASE + of_nat i"
    using c a f al s1 by (auto simp: create_obj_def Let_def x_def fill_ok_def put_obj_def)
  have xt: "so_type x = t" "so_handle x = h" using f by (simp_all add: x_def fill_ok_def hi)
  have i: "i < WG_SYNC_MAX" using al(1) wf by (simp add: wf_sync_def)
  show nf: "find_locked s h = None"
  proof (rule ccontr)
    assume "find_locked s h \<noteq> None"
    then obtain j where "find_locked s h = Some j" by auto
    with find_locked_slot(1,4) [OF this] al(2) slot_handle(1) [OF i] hi show False by auto
  qed
  have iff: "find_locked s' k = Some j \<longleftrightarrow> (if j = i then k = h else find_locked s k = Some j)" for k j
    unfolding find_locked_iff using s' al(1) i xt hi t by (cases "j = i") auto
  show "find_locked s h' = Some j \<Longrightarrow> find_locked s' h' = Some j \<and> objs s' ! j = objs s ! j"
    using iff [of h' j] al(2) find_locked_slot(4) [of s h' j] s' by (cases "j = i") auto
  have "sync_lookup s' k = ((sync_lookup s)(h \<mapsto> x)) k" for k
  proof (cases "k = h")
    case True
    with iff [of h i] s' al(1) show ?thesis by (simp add: sync_lookup_def)
  next
    case False
    show ?thesis
    proof (cases "find_locked s' k")
      case None
      with iff False have "find_locked s k = None"
        by (metis al(2) find_locked_slot(4) option.exhaust)
      with None False show ?thesis by (simp add: sync_lookup_def)
    next
      case (Some j)
      with iff [of k j] False have "j \<noteq> i" "find_locked s k = Some j" by (auto split: if_splits)
      with Some False s' show ?thesis by (simp add: sync_lookup_def)
    qed
  qed
  then show "sync_lookup s' = (sync_lookup s)(h \<mapsto> fill (obj0\<lparr>so_type := t, so_handle := h\<rparr>))"
    unfolding x_def hi by blast
  show "wf_sync s'"
    unfolding wf_sync_def
  proof (intro conjI allI impI)
    show "length (objs s') = WG_SYNC_MAX" using wf s' by (simp add: wf_sync_def)
    fix j
    assume "j < length (objs s')" "so_type (objs s' ! j) \<noteq> WGO_FREE"
    with wf s' xt hi al(1) show "so_handle (objs s' ! j) = WG_SYNC_BASE + of_nat j"
      by (cases "j = i") (auto simp: wf_sync_def)
  qed
qed

lemma close_spec:
  assumes wf: "wf_sync s"
  shows "wf_sync (snd (wg_sync_close s h))" "sync_lookup (snd (wg_sync_close s h)) = (sync_lookup s)(h := None)"
proof -
  have "wf_sync (snd (wg_sync_close s h)) \<and> sync_lookup (snd (wg_sync_close s h)) = (sync_lookup s)(h := None)"
  proof (cases "find_locked s h")
    case None
    then show ?thesis using wf by (auto simp: wg_sync_close_def sync_lookup_def)
  next
    case (Some i)
    let ?s = "put_obj s i ((objs s ! i)\<lparr>so_type := WGO_FREE, so_handle := 0\<rparr>)"
    have i: "i < length (objs s)" using wf Some by (rule wf_find_lt)
    have iff: "find_locked ?s k = Some j \<longleftrightarrow> k \<noteq> h \<and> find_locked s k = Some j" for k j
    proof (cases "j = i")
      case True
      have "find_locked ?s k \<noteq> Some i" using i by (simp add: find_locked_iff)
      with True find_locked_inj [OF Some] show ?thesis by auto
    next
      case False
      then have "find_locked ?s k = Some j \<longleftrightarrow> find_locked s k = Some j" by (simp add: find_locked_iff)
      with False Some show ?thesis by auto
    qed
    have fs: "find_locked ?s k = (if k = h then None else find_locked s k)" for k
      using iff [of k] by (metis option.exhaust)
    have "sync_lookup ?s k = ((sync_lookup s)(h := None)) k" for k
    proof (cases "find_locked s k")
      case None
      then show ?thesis by (simp add: sync_lookup_def fs)
    next
      case (Some j)
      show ?thesis
      proof (cases "k = h")
        case False
        with Some \<open>find_locked s h = Some i\<close> have "j \<noteq> i" using find_locked_inj by metis
        with Some False show ?thesis by (simp add: sync_lookup_def fs)
      qed (simp add: sync_lookup_def fs)
    qed
    then have "sync_lookup ?s = (sync_lookup s)(h := None)" by blast
    moreover have "wf_sync ?s"
      unfolding wf_sync_def
    proof (intro conjI allI impI)
      show "length (objs ?s) = WG_SYNC_MAX" using wf by (simp add: wf_sync_def)
      fix j
      assume "j < length (objs ?s)" "so_type (objs ?s ! j) \<noteq> WGO_FREE"
      with wf i show "so_handle (objs ?s ! j) = WG_SYNC_BASE + of_nat j"
        by (cases "j = i") (auto simp: wf_sync_def)
    qed
    ultimately show ?thesis using Some by (simp add: wg_sync_close_def)
  qed
  then show "wf_sync (snd (wg_sync_close s h))" "sync_lookup (snd (wg_sync_close s h)) = (sync_lookup s)(h := None)"
    by auto
qed

subsection \<open>The table meets the handle contract\<close>

datatype sync_new = NewEvent bool bool | NewMutex bool u32 | NewSem int int | NewThread u32 | NewCv

fun sync_create :: "sync_new \<Rightarrow> SyncState \<Rightarrow> u32 \<times> SyncState" where
  "sync_create (NewEvent m i) s = wg_sync_create_event s m i"
| "sync_create (NewMutex own tid) s = wg_sync_create_mutex s own tid"
| "sync_create (NewSem c m) s = wg_sync_create_semaphore s c m"
| "sync_create (NewThread tid) s = wg_sync_create_thread_obj s tid"
| "sync_create NewCv s = wg_sync_create_cv s"

fun new_obj :: "sync_new \<Rightarrow> u32 \<Rightarrow> WGSyncObj" where
  "new_obj (NewEvent m i) h = obj0\<lparr>so_type := WGO_EVENT, so_handle := h, manual := m, signalled := i\<rparr>"
| "new_obj (NewMutex own tid) h =
     (if own then obj0\<lparr>so_type := WGO_MUTEX, so_handle := h, owner_tid := tid, recursion := 1\<rparr>
      else obj0\<lparr>so_type := WGO_MUTEX, so_handle := h\<rparr>)"
| "new_obj (NewSem c m) h = obj0\<lparr>so_type := WGO_SEM, so_handle := h, so_count := c, so_max := m\<rparr>"
| "new_obj (NewThread tid) h = obj0\<lparr>so_type := WGO_THREAD, so_handle := h, owner_tid := tid\<rparr>"
| "new_obj NewCv h = obj0\<lparr>so_type := WGO_CV, so_handle := h\<rparr>"

definition sync_alloc :: "sync_new \<Rightarrow> SyncState \<Rightarrow> (u32 \<times> SyncState) option" where
  "sync_alloc a s = (case sync_create a s of (h, s') \<Rightarrow> if h = 0 then None else Some (h, s'))"

lemma sync_create_spec:
  assumes wf: "wf_sync s" and c: "sync_create a s = (h, s')" and h: "h \<noteq> 0"
  shows "wf_sync s'" "find_locked s h = None" "sync_lookup s' = (sync_lookup s)(h \<mapsto> new_obj a h)"
    "find_locked s h' = Some j \<Longrightarrow> find_locked s' h' = Some j \<and> objs s' ! j = objs s ! j"
proof -
  have "\<exists>t fill. create_obj s t fill = (h, s') \<and> t \<noteq> WGO_FREE \<and> fill_ok fill
      \<and> new_obj a h = fill (obj0\<lparr>so_type := t, so_handle := h\<rparr>)"
    using c by (cases a) (fastforce simp: wg_sync_create_event_def wg_sync_create_mutex_def
        wg_sync_create_semaphore_def wg_sync_create_thread_obj_def wg_sync_create_cv_def fill_ok_def obj0_def)+
  then obtain t fill where f: "create_obj s t fill = (h, s')" "t \<noteq> WGO_FREE" "fill_ok fill"
      "new_obj a h = fill (obj0\<lparr>so_type := t, so_handle := h\<rparr>)" by auto
  note sp = create_spec [OF wf f(1,2,3) h]
  show "wf_sync s'" "find_locked s h = None" "sync_lookup s' = (sync_lookup s)(h \<mapsto> new_obj a h)"
    "find_locked s h' = Some j \<Longrightarrow> find_locked s' h' = Some j \<and> objs s' ! j = objs s ! j"
    using sp f(4) by auto
qed

lemma sync_create_fail:
  assumes wf: "wf_sync s" and c: "sync_create a s = (0, s')"
  shows "s' = s"
proof -
  have "s' = s" if cr: "create_obj s t fill = (0, s')" and t: "t \<noteq> WGO_FREE" and f: "fill_ok fill" for t fill
  proof (cases "alloc_obj_locked s t")
    case None
    with cr show ?thesis by (simp add: create_obj_def)
  next
    case (Some p)
    then obtain i s1 where a: "alloc_obj_locked s t = Some (i, s1)" by (cases p) auto
    note al = alloc_spec [OF wf a t]
    have "so_handle (fill (objs s1 ! i)) = WG_SYNC_BASE + of_nat i" using al f by (simp add: fill_ok_def)
    with cr a al(1) wf slot_handle(4) [of i] show ?thesis
      by (simp add: create_obj_def Let_def wf_sync_def)
  qed
  with c show ?thesis
    by (cases a) (fastforce simp: wg_sync_create_event_def wg_sync_create_mutex_def
        wg_sync_create_semaphore_def wg_sync_create_thread_obj_def wg_sync_create_cv_def fill_ok_def)+
qed

interpretation sync_table: handle_table sync_lookup sync_alloc "\<lambda>a h x. x = new_obj a h" wf_sync
  "\<lambda>h s. snd (wg_sync_close s h)"
proof unfold_locales
  fix s s' :: SyncState and a h
  assume wf: "wf_sync s" and "sync_alloc a s = Some (h, s')"
  then have c: "sync_create a s = (h, s')" "h \<noteq> 0"
    by (auto simp: sync_alloc_def split: prod.splits if_splits)
  note sp = sync_create_spec [OF wf c]
  show "sync_lookup s h = None" using sp(2) by (simp add: sync_lookup_def)
  show "\<exists>x. x = new_obj a h \<and> sync_lookup s' = (sync_lookup s)(h \<mapsto> x)" using sp(3) by blast
  show "wf_sync s'" by (rule sp(1))
qed (simp_all add: close_spec)

subsection \<open>Interleavings\<close>

text \<open>
  A configuration is the table and, for every thread inside a blocking call, what it is blocked
  with: the handle and timeout of \<open>wait_single\<close>; the arguments of \<open>wait_multiple\<close>; the condition
  variable, mutex, timeout, generation and saved depth of a sleep; and the mutex, saved depth and
  result of a sleep that takes its mutex back.  A step is one critical section of one thread.
\<close>

datatype blocked =
    OnSingle u32 u32 | OnMany "u32 list" bool u32 | OnCv u32 u32 u32 int int | OnRelock u32 int u32

datatype sync_call =
    SetEvent u32 | ResetEvent u32 | PulseEvent u32 | ReleaseSem u32 int | ThreadExit u32 u32
  | New sync_new | Close u32 | CvWake u32 | KickTid u32 | KickWorkers bool bool bool

fun do_call :: "sync_call \<Rightarrow> SyncState \<Rightarrow> SyncState option" where
  "do_call (SetEvent h) s = Some (snd (wg_sync_set_event s h))"
| "do_call (ResetEvent h) s = Some (snd (wg_sync_reset_event s h))"
| "do_call (PulseEvent h) s = Some (snd (wg_sync_pulse_event s h))"
| "do_call (ReleaseSem h n) s = map_option (\<lambda>(_, _, s). s) (wg_sync_release_semaphore s h n)"
| "do_call (ThreadExit h c) s = Some (wg_sync_thread_exit s h c)"
| "do_call (New a) s = Some (snd (sync_create a s))"
| "do_call (Close h) s = Some (snd (wg_sync_close s h))"
| "do_call (CvWake h) s = Some (wg_sync_cv_wake s h True)"
| "do_call (KickTid t) s = Some (snd (wg_sync_kick_tid t s))"
| "do_call (KickWorkers a m c) s = Some (snd (wg_sync_kick_workers a m c s))"

text \<open>The visible part of a step: the thread, its arguments, and what the call returns in it, if it
  returns.  \<open>Sleep\<close> is the entry of a condition-variable sleep, \<open>Awake\<close> a later pass of it.\<close>

datatype sync_label =
    Wait u32 u32 "u32 option" | WaitMany u32 "u32 list" bool "u32 option" | Release u32 u32 bool
  | Sleep u32 u32 u32 "u32 option" | Awake u32 u32 "u32 option" | Call sync_call

fun cv_ret :: "cv_state \<Rightarrow> u32 option" where
  "cv_ret (CvDone rv) = Some rv"
| "cv_ret CvBlocked = None"
| "cv_ret (CvRelock rv) = None"

fun park :: "u32 \<Rightarrow> u32 \<Rightarrow> u32 \<Rightarrow> int \<Rightarrow> int \<Rightarrow> cv_state \<Rightarrow> blocked option" where
  "park cv m ms gen sv (CvDone rv) = None"
| "park cv m ms gen sv CvBlocked = Some (OnCv cv m ms gen sv)"
| "park cv m ms gen sv (CvRelock rv) = Some (OnRelock m sv rv)"

type_synonym sync_cfg = "SyncState \<times> (u32 \<Rightarrow> blocked option)"

inductive sync_step :: "sync_cfg \<Rightarrow> sync_label \<Rightarrow> sync_cfg \<Rightarrow> bool" where
  enter: "b tid = None \<Longrightarrow> tid \<noteq> 0 \<Longrightarrow> wait_single_enter s h ms tid = (r, s') \<Longrightarrow>
    sync_step (s, b) (Wait tid h r) (s', if r = None then b(tid \<mapsto> OnSingle h ms) else b)"
| woken: "b tid = Some (OnSingle h ms) \<Longrightarrow> tid \<noteq> 0 \<Longrightarrow> wait_single_woken s h ms tid = (r, s') \<Longrightarrow>
    sync_step (s, b) (Wait tid h r) (s', if r = None then b else b(tid := None))"
| timed_out: "b tid = Some (OnSingle h ms) \<Longrightarrow> tid \<noteq> 0 \<Longrightarrow> ms \<noteq> WG_SYNC_INFINITE \<Longrightarrow>
    wait_single_timeout s h tid = (r, s') \<Longrightarrow>
    sync_step (s, b) (Wait tid h (Some r)) (s', b(tid := None))"
| many_enter: "b tid = None \<Longrightarrow> tid \<noteq> 0 \<Longrightarrow> wait_multiple_enter s hs al ms tid = (r, s') \<Longrightarrow>
    sync_step (s, b) (WaitMany tid hs al r) (s', if r = None then b(tid \<mapsto> OnMany hs al ms) else b)"
| many_woken: "b tid = Some (OnMany hs al ms) \<Longrightarrow> tid \<noteq> 0 \<Longrightarrow> multi_pass s hs al ms tid = (r, s') \<Longrightarrow>
    sync_step (s, b) (WaitMany tid hs al r) (s', if r = None then b else b(tid := None))"
| many_timed_out: "b tid = Some (OnMany hs al ms) \<Longrightarrow> tid \<noteq> 0 \<Longrightarrow> ms \<noteq> WG_SYNC_INFINITE \<Longrightarrow>
    wait_multiple_timeout s = (r, s') \<Longrightarrow>
    sync_step (s, b) (WaitMany tid hs al (Some r)) (s', b(tid := None))"
| release: "b tid = None \<Longrightarrow> tid \<noteq> 0 \<Longrightarrow> wg_sync_release_mutex s h tid = (ok, s') \<Longrightarrow>
    sync_step (s, b) (Release tid h ok) (s', b)"
| sleep: "b tid = None \<Longrightarrow> tid \<noteq> 0 \<Longrightarrow> cv_sleep_enter s cv m ms tid = ((st, gen, sv), s') \<Longrightarrow>
    sync_step (s, b) (Sleep tid cv m (cv_ret st)) (s', b(tid := park cv m ms gen sv st))"
| cv_woken: "b tid = Some (OnCv cv m ms gen sv) \<Longrightarrow> tid \<noteq> 0 \<Longrightarrow> cv_pass s cv m gen sv ms tid = (st, s') \<Longrightarrow>
    sync_step (s, b) (Awake tid m (cv_ret st)) (s', b(tid := park cv m ms gen sv st))"
| cv_timed_out: "b tid = Some (OnCv cv m ms gen sv) \<Longrightarrow> tid \<noteq> 0 \<Longrightarrow> ms \<noteq> WG_SYNC_INFINITE \<Longrightarrow>
    cv_timeout s cv m gen sv tid = (st, s') \<Longrightarrow>
    sync_step (s, b) (Awake tid m (cv_ret st)) (s', b(tid := park cv m ms gen sv st))"
| relock: "b tid = Some (OnRelock m sv rv) \<Longrightarrow> tid \<noteq> 0 \<Longrightarrow> cv_relock_woken s m sv rv tid = (st, s') \<Longrightarrow>
    sync_step (s, b) (Awake tid m (cv_ret st)) (s', b(tid := park 0 m 0 0 sv st))"
| call: "do_call c s = Some s' \<Longrightarrow> sync_step (s, b) (Call c) (s', b)"

inductive sync_run :: "sync_cfg \<Rightarrow> sync_label list \<Rightarrow> sync_cfg \<Rightarrow> bool" where
  run_Nil: "sync_run c [] c"
| run_snoc: "sync_run c tr c' \<Longrightarrow> sync_step c' l c'' \<Longrightarrow> sync_run c (tr @ [l]) c''"

inductive_cases sync_step_callE: "sync_step (s, b) (Call x) (s', b')"

text \<open>The saved depth with which a thread sleeps without the mutex \<open>h\<close>.\<close>

definition sleeps :: "(u32 \<Rightarrow> blocked option) \<Rightarrow> u32 \<Rightarrow> u32 \<Rightarrow> int option" where
  "sleeps b h t = (case b t of
     Some (OnCv cv m ms gen sv) \<Rightarrow> if m = h then Some sv else None
   | Some (OnRelock m sv rv) \<Rightarrow> if m = h then Some sv else None
   | _ \<Rightarrow> None)"

text \<open>How often a step takes the object behind \<open>h\<close>; a wait for more than 64 objects fails.\<close>

fun takes :: "u32 \<Rightarrow> sync_label \<Rightarrow> nat" where
  "takes h (Wait t h' r) = (if h' = h \<and> r = Some WG_WAIT_OBJECT_0 then 1 else 0)"
| "takes h (WaitMany t hs al (Some c)) =
     (if 64 < length hs then 0
      else if al then (if c = WG_WAIT_OBJECT_0 then count_list hs h else 0)
      else if unat c < length hs \<and> hs ! unat c = h then 1 else 0)"
| "takes h l = 0"

text \<open>What a step does to the live object behind a handle.\<close>

definition call_effect :: "sync_call \<Rightarrow> u32 \<Rightarrow> WGSyncObj \<Rightarrow> WGSyncObj \<Rightarrow> bool" where
  "call_effect c h x x' \<longleftrightarrow>
     so_type x' = so_type x \<and> so_handle x' = so_handle x \<and> manual x' = manual x
     \<and> owner_tid x' = owner_tid x \<and> recursion x' = recursion x \<and> so_max x' = so_max x
     \<and> (so_count x' \<noteq> so_count x \<longrightarrow> (\<exists>n. c = ReleaseSem h n) \<or> so_type x = WGO_CV)
     \<and> (\<forall>n. c = ReleaseSem h n \<and> so_type x = WGO_SEM \<longrightarrow>
          so_count x' = (if so_max x > 0 \<and> so_count x + n > so_max x then so_max x else so_count x + n))
     \<and> (signalled x' \<and> \<not> signalled x \<longrightarrow> c = SetEvent h \<or> (\<exists>t. c = KickTid t) \<or> (\<exists>a m k. c = KickWorkers a m k))"

lemma call_effect_refl: "(\<And>n. c \<noteq> ReleaseSem h n) \<Longrightarrow> call_effect c h x x"
  by (auto simp: call_effect_def)

lemma step_obj:
  assumes wf: "wf_sync s" and f: "find_locked s h = Some i" and g: "find_locked s h0 = Some k"
    and x: "so_type x = so_type (objs s ! k)" "so_handle x = so_handle (objs s ! k)"
  shows "wf_sync (put_obj s k x)" "find_locked (put_obj s k x) h = Some i"
    "objs (put_obj s k x) ! i = (if h = h0 then x else objs s ! i)"
proof -
  have t: "so_type x \<noteq> WGO_FREE" using find_locked_slot(4) [OF g] x by simp
  show "wf_sync (put_obj s k x)" "find_locked (put_obj s k x) h = Some i"
    using find_put [OF wf g t x(2)] f by auto
  show "objs (put_obj s k x) ! i = (if h = h0 then x else objs s ! i)"
    using f g find_locked_inj wf_find_lt [OF wf g] by (cases "i = k") auto
qed

lemma wq_frame [frame_simps, simp]:
  "objs (wq_set t h s) = objs s" "objs (wq_clr t s) = objs s"
  "find_locked (wq_set t h s) h' = find_locked s h'" "find_locked (wq_clr t s) h' = find_locked s h'"
  "wf_sync (wq_set t h s) = wf_sync s" "wf_sync (wq_clr t s) = wf_sync s"
  by (simp_all add: wq_set_def wq_clr_def find_locked_def wf_sync_def split: option.splits)

lemma kick_entry_obj:
  assumes wf: "wf_sync s" and f: "find_locked s h = Some i" and k: "kick_entry who ok w (s, n) = (s', n')"
  shows "wf_sync s' \<and> find_locked s' h = Some i
    \<and> (objs s' ! i = objs s ! i \<or> objs s' ! i = (objs s ! i)\<lparr>signalled := True\<rparr> \<and> so_type (objs s ! i) = WGO_EVENT)"
  using k wf f step_obj [OF wf f]
  by (auto simp: kick_entry_def Let_def split: if_splits option.splits)

lemma kick_fold_obj:
  "wf_sync s \<Longrightarrow> find_locked s h = Some i \<Longrightarrow> fold (kick_entry who ok) ws (s, n) = (s', n') \<Longrightarrow>
   wf_sync s' \<and> find_locked s' h = Some i
    \<and> (objs s' ! i = objs s ! i \<or> objs s' ! i = (objs s ! i)\<lparr>signalled := True\<rparr> \<and> so_type (objs s ! i) = WGO_EVENT)"
proof (induction ws arbitrary: s n)
  case (Cons w ws)
  obtain s1 n1 where k: "kick_entry who ok w (s, n) = (s1, n1)" by fastforce
  note k1 = kick_entry_obj [OF Cons.prems(1,2) k]
  from Cons.IH [of s1 n1] k1 Cons.prems(3) k show ?case by auto
qed simp

lemma kick_workers_obj:
  assumes wf: "wf_sync s" and f: "find_locked s h = Some i" and k: "wg_sync_kick_workers a m c s = (n, s')"
  shows "wf_sync s' \<and> find_locked s' h = Some i \<and> call_effect (KickWorkers a m c) h (objs s ! i) (objs s' ! i)"
proof -
  obtain s1 n1 where e: "fold (kick_entry (\<lambda>w. a \<or> w_tid w \<noteq> 1) (\<lambda>x. m \<or> \<not> manual x)) (waitq s) (s, 0) = (s1, n1)" by fastforce
  note k1 = kick_fold_obj [OF wf f e]
  then have c1: "call_effect (KickWorkers a m c) h (objs s ! i) (objs s1 ! i)" by (auto simp: call_effect_def)
  show ?thesis
  proof (cases c)
    case False
    then have "s' = s1" using k e by (simp add: wg_sync_kick_workers_def)
    then show ?thesis using k1 c1 by simp
  next
    case True
    define g :: "WGSyncObj \<Rightarrow> WGSyncObj" where "g = (\<lambda>x. if so_type x = WGO_CV then x\<lparr>so_count := so_count x + 1\<rparr> else x)"
    have g: "so_type (g x) = so_type x" "so_handle (g x) = so_handle x" for x by (simp_all add: g_def)
    have s': "s' = s1\<lparr>objs := map g (objs s1)\<rparr>" using k e True by (simp add: wg_sync_kick_workers_def g_def)
    have len: "length (objs s1) = WG_SYNC_MAX" "i < length (objs s1)" using k1 wf_find_lt [of s1 h i] by (simp_all add: wf_sync_def)
    have "wf_sync s'" using k1 g unfolding s' wf_sync_def by simp
    moreover have "find_locked s' h = Some i" using k1 len g unfolding s' find_locked_iff by simp
    moreover have "call_effect (KickWorkers a m c) h (objs s ! i) (objs s' ! i)"
      using c1 len(2) k1 unfolding s' call_effect_def by (auto simp: g_def)
    ultimately show ?thesis by blast
  qed
qed

lemma do_call_obj:
  assumes wf: "wf_sync s" and f: "find_locked s h = Some i" and c: "do_call c s = Some s'" and nc: "c \<noteq> Close h"
  shows "wf_sync s' \<and> find_locked s' h = Some i \<and> call_effect c h (objs s ! i) (objs s' ! i)"
proof (cases c)
  case (SetEvent h0)
  then show ?thesis using c wf f step_obj [OF wf f, of h0]
    by (auto simp: wg_sync_set_event_def call_effect_def split: option.splits if_splits)
next
  case (ResetEvent h0)
  then show ?thesis using c wf f step_obj [OF wf f, of h0]
    by (auto simp: wg_sync_reset_event_def call_effect_def split: option.splits if_splits)
next
  case (PulseEvent h0)
  then show ?thesis using c wf f step_obj [OF wf f, of h0] wf_find_lt [OF wf, of h0]
    by (auto simp: wg_sync_pulse_event_def call_effect_def Let_def put_obj_def split: option.splits if_splits)
next
  case (ReleaseSem h0 n)
  show ?thesis
  proof (cases "\<exists>k. find_locked s h0 = Some k \<and> so_type (objs s ! k) = WGO_SEM")
    case False
    then have "s' = s" using c ReleaseSem
      by (auto simp: wg_sync_release_semaphore_def Let_def split: option.splits if_splits)
    with False wf f ReleaseSem show ?thesis by (auto simp: call_effect_def)
  next
    case True
    then obtain k where k: "find_locked s h0 = Some k" "so_type (objs s ! k) = WGO_SEM" by auto
    define m where "m = (if so_max (objs s ! k) > 0 \<and> so_count (objs s ! k) + n > so_max (objs s ! k)
      then so_max (objs s ! k) else so_count (objs s ! k) + n)"
    have s': "s' = put_obj s k ((objs s ! k)\<lparr>so_count := m\<rparr>)"
      using c ReleaseSem k unfolding m_def
      by (auto simp: wg_sync_release_semaphore_def Let_def split: if_splits)
    note so = step_obj [OF wf f k(1), of "(objs s ! k)\<lparr>so_count := m\<rparr>", simplified]
    show ?thesis
    proof (cases "h = h0")
      case True
      with f k have "k = i" by simp
      with True so ReleaseSem show ?thesis unfolding s' by (simp add: call_effect_def m_def)
    next
      case False
      with so ReleaseSem show ?thesis unfolding s' by (simp add: call_effect_def)
    qed
  qed
next
  case (ThreadExit h0 e)
  then show ?thesis using c wf f step_obj [OF wf f, of h0]
    by (auto simp: wg_sync_thread_exit_def call_effect_def Let_def split: option.splits if_splits)
next
  case (New a)
  obtain h1 s1 where n: "sync_create a s = (h1, s1)" by fastforce
  have s1: "s1 = s'" using c New n by simp
  show ?thesis
  proof (cases "h1 = 0")
    case False
    from sync_create_spec [OF wf n False] f New s1 show ?thesis by (auto simp: call_effect_refl)
  next
    case True
    then have "s1 = s" using sync_create_fail [OF wf] n by simp
    with wf f New s1 show ?thesis by (auto simp: call_effect_refl)
  qed
next
  case (Close h0)
  show ?thesis
  proof (cases "find_locked s h0")
    case None
    with Close c wf f show ?thesis by (auto simp: wg_sync_close_def call_effect_refl)
  next
    case (Some k)
    have ik: "i \<noteq> k" using f Some find_locked_inj nc Close by metis
    with f have "find_locked (put_obj s k y) h = Some i" for y
      unfolding find_locked_iff by simp
    with Close c Some ik close_spec(1) [OF wf, of h0] show ?thesis
      by (auto simp: wg_sync_close_def call_effect_refl)
  qed
next
  case (CvWake h0)
  then show ?thesis using c wf f step_obj [OF wf f, of h0]
    by (auto simp: wg_sync_cv_wake_def call_effect_def split: option.splits if_splits)
next
  case (KickTid t)
  have "wf_sync s' \<and> find_locked s' h = Some i
    \<and> (objs s' ! i = objs s ! i \<or> objs s' ! i = (objs s ! i)\<lparr>signalled := True\<rparr>)"
    using c KickTid wf f
    by (auto simp: wg_sync_kick_tid_def split: option.splits if_splits prod.splits dest!: kick_entry_obj [OF wf f])
  with KickTid show ?thesis by (auto simp: call_effect_def)
next
  case (KickWorkers a m k)
  obtain n s1 where "wg_sync_kick_workers a m k s = (n, s1)" by fastforce
  with kick_workers_obj [OF wf f this] KickWorkers c show ?thesis by simp
qed

text \<open>Blocked threads wait for handles of the table's range, and for at most 64 at once.\<close>

definition cfg_ok :: "sync_cfg \<Rightarrow> bool" where
  "cfg_ok c \<longleftrightarrow> wf_sync (fst c)
     \<and> (\<forall>t h ms. snd c t = Some (OnSingle h ms) \<longrightarrow> (\<exists>i < WG_SYNC_MAX. h = WG_SYNC_BASE + of_nat i))
     \<and> (\<forall>t hs al ms. snd c t = Some (OnMany hs al ms) \<longrightarrow> length hs \<le> 64)"

lemma acquire_frame [simp]:
  "so_type (acquire_locked x t) = so_type x" "so_handle (acquire_locked x t) = so_handle x"
  by (simp_all add: acquire_locked_def split: WGO.split)

lemma satisfied_live: "satisfied_locked x t \<Longrightarrow> so_type x \<noteq> WGO_FREE"
  by (auto simp: satisfied_locked_def)

text \<open>The object a pass of \<open>wait_single\<close> leaves in slot \<open>i\<close> of handle \<open>h\<close>.\<close>

definition pass_result :: "SyncState \<Rightarrow> u32 \<Rightarrow> u32 \<Rightarrow> u32 option \<Rightarrow> SyncState \<Rightarrow> bool" where
  "pass_result s h t r s' \<longleftrightarrow> wf_sync s' \<and> (\<forall>h'. find_locked s' h' = find_locked s h')
     \<and> (\<forall>i h'. find_locked s h' = Some i \<longrightarrow>
          objs s' ! i = (if h' = h \<and> r = Some WG_WAIT_OBJECT_0 then acquire_locked (objs s ! i) t else objs s ! i))
     \<and> (r = Some WG_WAIT_OBJECT_0 \<longrightarrow> (\<exists>i. find_locked s h = Some i \<and> satisfied_locked (objs s ! i) t))
     \<and> r \<in> {None, Some WG_WAIT_OBJECT_0, Some WG_WAIT_TIMEOUT, Some WG_WAIT_FAILED}"

lemma wait_codes [simp]:
  "WG_WAIT_OBJECT_0 \<noteq> WG_WAIT_TIMEOUT" "WG_WAIT_OBJECT_0 \<noteq> WG_WAIT_FAILED" "WG_WAIT_TIMEOUT \<noteq> WG_WAIT_FAILED"
  "WG_WAIT_TIMEOUT \<noteq> WG_WAIT_OBJECT_0" "WG_WAIT_FAILED \<noteq> WG_WAIT_OBJECT_0" "WG_WAIT_FAILED \<noteq> WG_WAIT_TIMEOUT"
  by (simp_all add: WG_WAIT_OBJECT_0_def WG_WAIT_TIMEOUT_def WG_WAIT_FAILED_def)

lemma pass_acquire:
  assumes wf: "wf_sync s" and f: "find_locked s h = Some i" and sat: "satisfied_locked (objs s ! i) t"
  shows "pass_result s h t (Some WG_WAIT_OBJECT_0) (wq_clr t' (put_obj s i (acquire_locked (objs s ! i) t)))"
proof -
  have fp: "find_locked (put_obj s i (acquire_locked (objs s ! i) t)) h' = find_locked s h'"
    "wf_sync (put_obj s i (acquire_locked (objs s ! i) t))" for h'
    using find_put [OF wf f, of "acquire_locked (objs s ! i) t"] find_locked_slot(4) [OF f] by simp_all
  have lt: "i < length (objs s)" using wf f by (rule wf_find_lt)
  have o: "objs (put_obj s i (acquire_locked (objs s ! i) t)) ! j
      = (if h' = h then acquire_locked (objs s ! j) t else objs s ! j)" if j: "find_locked s h' = Some j" for h' j
  proof (cases "h' = h")
    case True
    with j f lt show ?thesis by simp
  next
    case False
    then have "j \<noteq> i" using j f find_locked_inj by blast
    with False show ?thesis by simp
  qed
  show ?thesis unfolding pass_result_def using fp sat f o by simp
qed

lemma pass_same: "wf_sync s \<Longrightarrow> r \<in> {None, Some WG_WAIT_TIMEOUT, Some WG_WAIT_FAILED} \<Longrightarrow>
    objs s' = objs s \<Longrightarrow> pass_result s h t r s'"
  by (auto simp: pass_result_def find_locked_def wf_sync_def)

lemma single_pass_result:
  assumes "wf_sync s" and "find_locked s h = Some i" and "single_pass s i ms t = (r, s')"
  shows "pass_result s h t r s'"
proof (cases "satisfied_locked (objs s ! i) t")
  case True
  with assms pass_acquire [OF assms(1,2) True, of t] show ?thesis by (simp add: single_pass_def)
next
  case False
  with assms show ?thesis by (intro pass_same) (auto simp: single_pass_def split: if_splits)
qed

lemma pass_result_wq: "pass_result (wq_set t h s) h' t' r s' \<longleftrightarrow> pass_result s h' t' r s'"
  by (simp add: pass_result_def)

lemma wait_step_result:
  assumes ok: "cfg_ok (s, b)" and st: "sync_step (s, b) (Wait t h r) (s', b')"
  shows "pass_result s h t r s' \<and> t \<noteq> 0 \<and> cfg_ok (s', b') \<and> sleeps b' = sleeps b \<and> sleeps b h0 t = None"
  using st
proof cases
  case (enter ms)
  have wf: "wf_sync s" using ok by (simp add: cfg_ok_def)
  have p: "pass_result s h t r s'"
  proof (cases "find_locked s h")
    case None
    with enter wf show ?thesis by (auto simp: wait_single_enter_def intro!: pass_same)
  next
    case (Some i)
    with enter single_pass_result [of "wq_set t h s" h i ms t r s'] wf show ?thesis
      by (auto simp: wait_single_enter_def pass_result_wq)
  qed
  have "r = None \<Longrightarrow> \<exists>i < WG_SYNC_MAX. h = WG_SYNC_BASE + of_nat i"
    using enter find_locked_slot(2,3) [of s h] by (auto simp: wait_single_enter_def split: option.splits)
  with p ok enter show ?thesis by (auto simp: cfg_ok_def pass_result_def sleeps_def fun_eq_iff)
next
  case (woken ms)
  have wf: "wf_sync s" using ok by (simp add: cfg_ok_def)
  have p: "pass_result s h t r s'"
    using woken wf single_pass_result [OF wf, of h _ ms t r s']
    by (auto simp: wait_single_woken_def split: option.splits intro!: pass_same)
  with ok woken show ?thesis by (auto simp: cfg_ok_def pass_result_def sleeps_def fun_eq_iff)
next
  case (timed_out ms r')
  have wf: "wf_sync s" using ok by (simp add: cfg_ok_def)
  obtain i where i: "i < WG_SYNC_MAX" "h = WG_SYNC_BASE + of_nat i"
    using ok timed_out by (auto simp: cfg_ok_def)
  have u: "unat (h - WG_SYNC_BASE) = i" using i slot_handle(1) by simp
  have p: "pass_result s h t r s'"
  proof (cases "satisfied_locked (objs s ! i) t")
    case False
    with timed_out wf u show ?thesis by (auto simp: wait_single_timeout_def intro!: pass_same)
  next
    case True
    have "find_locked s h = Some i"
      unfolding find_locked_iff using i satisfied_live [OF True] wf by (simp add: wf_sync_def)
    from pass_acquire [OF wf this True] timed_out True u show ?thesis
      by (auto simp: wait_single_timeout_def)
  qed
  with ok timed_out show ?thesis by (auto simp: cfg_ok_def pass_result_def sleeps_def fun_eq_iff)
qed

lemma release_step_result:
  assumes ok: "cfg_ok (s, b)" and st: "sync_step (s, b) (Release t h done) (s', b')"
  shows "t \<noteq> 0 \<and> cfg_ok (s', b') \<and> b' = b \<and> sleeps b h0 t = None \<and> (\<forall>h'. find_locked s' h' = find_locked s h')
    \<and> (\<forall>i h'. find_locked s h' = Some i \<longrightarrow>
         (if h' = h \<and> done then so_type (objs s ! i) = WGO_MUTEX \<and> owner_tid (objs s ! i) = t \<and> 0 < recursion (objs s ! i)
            \<and> objs s' ! i = (objs s ! i)\<lparr>recursion := recursion (objs s ! i) - 1,
                 owner_tid := if recursion (objs s ! i) = 1 then 0 else t\<rparr>
          else objs s' ! i = objs s ! i))"
  using st
proof cases
  case release
  have wf: "wf_sync s" using ok by (simp add: cfg_ok_def)
  show ?thesis
  proof (cases "done")
    case False
    with release have "s' = s" by (auto simp: wg_sync_release_mutex_def Let_def split: option.splits if_splits)
    with False release ok show ?thesis by (auto simp: sleeps_def)
  next
    case True
    then obtain k where k: "find_locked s h = Some k" "so_type (objs s ! k) = WGO_MUTEX"
        "owner_tid (objs s ! k) = t" "0 < recursion (objs s ! k)"
      and s': "s' = put_obj s k ((objs s ! k)\<lparr>recursion := recursion (objs s ! k) - 1,
                 owner_tid := if recursion (objs s ! k) = 1 then 0 else t\<rparr>)"
      using release by (auto simp: wg_sync_release_mutex_def Let_def split: option.splits if_splits)
    note fp = find_put [OF wf k(1), of "(objs s ! k)\<lparr>recursion := recursion (objs s ! k) - 1,
                 owner_tid := if recursion (objs s ! k) = 1 then 0 else t\<rparr>"]
    have same: "i = k \<longleftrightarrow> h' = h" if "find_locked s h' = Some i" for h' i
      using that k(1) find_locked_inj by (metis option.inject)
    show ?thesis
      using fp k ok release True wf_find_lt [OF wf k(1)] same unfolding s'
      by (auto simp: cfg_ok_def sleeps_def)
  qed
qed

subsection \<open>Waiting on several objects and sleeping\<close>

definition same_table :: "SyncState \<Rightarrow> SyncState \<Rightarrow> bool" where
  "same_table s s' \<longleftrightarrow> wf_sync s' \<and> (\<forall>h. find_locked s' h = find_locked s h)"

lemma same_table_put:
  assumes "wf_sync s" and "find_locked s h = Some i" and "so_type x = so_type (objs s ! i)" and "so_handle x = so_handle (objs s ! i)"
  shows "same_table s (put_obj s i x)"
    and "find_locked s h' = Some j \<Longrightarrow> objs (put_obj s i x) ! j = (if h' = h then x else objs s ! j)"
proof -
  have "so_type x \<noteq> WGO_FREE" using find_locked_slot(4) [OF assms(2)] assms(3) by simp
  from find_put [OF assms(1,2) this assms(4)] show "same_table s (put_obj s i x)" by (simp add: same_table_def)
  show "find_locked s h' = Some j \<Longrightarrow> objs (put_obj s i x) ! j = (if h' = h then x else objs s ! j)"
    using step_obj(3) [OF assms(1) _ assms(2-4)] by blast
qed

definition takes_effect :: "nat \<Rightarrow> u32 \<Rightarrow> WGSyncObj \<Rightarrow> WGSyncObj \<Rightarrow> bool" where
  "takes_effect n t x x' \<longleftrightarrow> (if n = 0 then x' = x else satisfied_locked x t \<and> x' = ((\<lambda>x. acquire_locked x t) ^^ n) x)"

lemma count_list_map: "\<forall>x \<in> set xs. f x = f a \<longrightarrow> x = a \<Longrightarrow> count_list (map f xs) (f a) = count_list xs a"
  by (induction xs) auto

lemma acquire_swap: "((\<lambda>x. acquire_locked x t) ^^ n) (acquire_locked x t) = acquire_locked (((\<lambda>x. acquire_locked x t) ^^ n) x) t"
  using funpow_swap1 [of "\<lambda>x. acquire_locked x t" n x] by simp

lemma acquire_all_table:
  "wf_sync s \<Longrightarrow> \<forall>i \<in> set is. \<exists>h. find_locked s h = Some i \<Longrightarrow>
   same_table s (acquire_all s is t) \<and>
   (\<forall>h j. find_locked s h = Some j \<longrightarrow> objs (acquire_all s is t) ! j = ((\<lambda>x. acquire_locked x t) ^^ count_list is j) (objs s ! j))"
proof (induction "is" arbitrary: s)
  case (Cons i "is")
  then obtain h where h: "find_locked s h = Some i" by auto
  let ?s = "put_obj s i (acquire_locked (objs s ! i) t)"
  note p = same_table_put [OF Cons.prems(1) h, of "acquire_locked (objs s ! i) t", simplified]
  have "same_table ?s (acquire_all ?s is t) \<and>
    (\<forall>h j. find_locked ?s h = Some j \<longrightarrow> objs (acquire_all ?s is t) ! j = ((\<lambda>x. acquire_locked x t) ^^ count_list is j) (objs ?s ! j))"
    using p(1) Cons.prems(2) by (intro Cons.IH) (auto simp: same_table_def)
  moreover have "h' = h \<longleftrightarrow> j = i" if "find_locked s h' = Some j" for h' j
    using that h find_locked_inj by (metis option.inject)
  ultimately show ?case using p by (auto simp: same_table_def acquire_swap)
qed (simp add: same_table_def)

lemma multi_pass_result:
  assumes wf: "wf_sync s" and len: "length hs \<le> 64" and p: "multi_pass s hs al ms t = (r, s')"
  shows "same_table s s' \<and> (\<forall>h i. find_locked s h = Some i \<longrightarrow> takes_effect (takes h (WaitMany t hs al r)) t (objs s ! i) (objs s' ! i))"
proof -
  have codes: "\<not> unat WG_WAIT_TIMEOUT < length hs" "\<not> unat WG_WAIT_FAILED < length hs"
    using len by (simp_all add: WG_WAIT_TIMEOUT_def WG_WAIT_FAILED_def)
  have same: ?thesis if "s' = s" "r \<in> {None, Some WG_WAIT_TIMEOUT, Some WG_WAIT_FAILED}"
  proof -
    have "takes h (WaitMany t hs al r) = 0" for h using that(2) codes by (elim insertE emptyE) simp_all
    then show ?thesis using that(1) wf by (simp add: same_table_def takes_effect_def)
  qed
  let ?found = "map (find_locked s) hs"
  show ?thesis
  proof (cases "None \<in> set ?found")
    case True
    then show ?thesis using p by (intro same) (auto simp: multi_pass_def)
  next
    case False
    define slots where "slots = map the ?found"
    have sl: "\<forall>i \<in> set slots. \<exists>h. find_locked s h = Some i" using False by (force simp: slots_def)
    note q = p [unfolded multi_pass_def Let_def if_not_P [OF False] slots_def [symmetric]]
    show ?thesis
    proof (cases al)
      case al: True
      show ?thesis
      proof (cases "\<forall>i \<in> set slots. satisfied_locked (objs s ! i) t")
        case nsat: False
        then show ?thesis using q al by (intro same) (auto split: if_splits)
      next
        case sat: True
        then have e: "r = Some WG_WAIT_OBJECT_0" "s' = acquire_all s slots t" using q al by simp_all
        have cnt: "count_list slots i = count_list hs h" if f: "find_locked s h = Some i" for h i
        proof -
          have "\<forall>x \<in> set hs. (the \<circ> find_locked s) x = (the \<circ> find_locked s) h \<longrightarrow> x = h"
          proof (intro ballI impI)
            fix x
            assume x: "x \<in> set hs" "(the \<circ> find_locked s) x = (the \<circ> find_locked s) h"
            have "find_locked s x \<noteq> None"
            proof
              assume "find_locked s x = None"
              from imageI [OF x(1), of "find_locked s"] this show False using False by simp
            qed
            then have "find_locked s x = Some i" using x(2) f by auto
            then show "x = h" using f find_locked_inj by blast
          qed
          from count_list_map [OF this] show ?thesis using f by (simp add: slots_def comp_def)
        qed
        have "satisfied_locked (objs s ! i) t" if "find_locked s h = Some i" "count_list hs h \<noteq> 0" for h i
          using sat that cnt [OF that(1)] count_notin [of i slots] by auto
        then show ?thesis using acquire_all_table [OF wf sl, of t] cnt len unfolding e by (auto simp: takes_effect_def al)
      qed
    next
      case al: False
      show ?thesis
      proof (cases "first_idx (\<lambda>i. satisfied_locked (objs s ! i) t) slots")
        case None
        then show ?thesis using q al by (intro same) (auto split: if_splits)
      next
        case (Some k)
        then have k: "k < length hs" "satisfied_locked (objs s ! (slots ! k)) t" by (auto simp: first_idx_Some slots_def)
        have e: "r = Some (WG_WAIT_OBJECT_0 + of_nat k)" "s' = put_obj s (slots ! k) (acquire_locked (objs s ! (slots ! k)) t)"
          using q al Some by simp_all
        have u: "unat (WG_WAIT_OBJECT_0 + of_nat k) = k" using k(1) len by (simp add: WG_WAIT_OBJECT_0_def unat_of_nat)
        have "find_locked s (hs ! k) \<noteq> None" using False k(1) by (metis in_set_conv_nth length_map nth_map)
        then have f: "find_locked s (hs ! k) = Some (slots ! k)" using k(1) by (auto simp: slots_def)
        note pt = same_table_put [OF wf f, of "acquire_locked (objs s ! (slots ! k)) t", simplified]
        have tk: "takes h (WaitMany t hs al r) = (if h = hs ! k then 1 else 0)" for h using al k(1) u len by (auto simp: e(1))
        have "takes_effect (takes h (WaitMany t hs al r)) t (objs s ! i) (objs s' ! i)" if "find_locked s h = Some i" for h i
          using pt(2) [OF that] that f k(2) unfolding tk e(2) takes_effect_def by auto
        then show ?thesis using pt(1) e(2) by blast
      qed
    qed
  qed
qed

text \<open>Taking the mutex back after a sleep.\<close>

definition retaken :: "SyncState \<Rightarrow> u32 \<Rightarrow> u32 \<Rightarrow> int \<Rightarrow> cv_state \<Rightarrow> SyncState \<Rightarrow> bool" where
  "retaken s m t sv st s' \<longleftrightarrow> same_table s s' \<and> (\<forall>h j. find_locked s h = Some j \<longrightarrow>
     (if h = m \<and> cv_ret st \<noteq> None
      then objs s' ! j = objs s ! j \<and> so_type (objs s ! j) \<noteq> WGO_MUTEX
        \<or> objs s' ! j = (objs s ! j)\<lparr>owner_tid := t, recursion := sv\<rparr> \<and> owner_tid (objs s ! j) \<in> {0, t}
      else objs s' ! j = objs s ! j))"

lemma retaken_same: "wf_sync s \<Longrightarrow> (\<And>j. find_locked s m = Some j \<Longrightarrow> cv_ret st \<noteq> None \<Longrightarrow> so_type (objs s ! j) \<noteq> WGO_MUTEX) \<Longrightarrow>
    retaken s m t sv st s"
  by (auto simp: retaken_def same_table_def)

lemma cv_relock_retaken:
  assumes wf: "wf_sync s" and f: "find_locked s m = Some i" and e: "cv_relock s i sv rv t = (st, s')"
  shows "retaken s m t sv st s' \<and> st \<in> {CvRelock rv, CvDone rv}"
proof (cases "owner_tid (objs s ! i) \<noteq> 0 \<and> owner_tid (objs s ! i) \<noteq> t")
  case True
  then show ?thesis using e retaken_same [OF wf, of m "CvRelock rv"] by (auto simp: cv_relock_def)
next
  case False
  then have s': "st = CvDone rv" "s' = put_obj s i ((objs s ! i)\<lparr>owner_tid := t, recursion := sv\<rparr>)"
    using e by (auto simp: cv_relock_def)
  note p = same_table_put [OF wf f, of "(objs s ! i)\<lparr>owner_tid := t, recursion := sv\<rparr>", simplified]
  have "j = i" if "find_locked s m = Some j" for j using that f by simp
  then show ?thesis using p False unfolding s' retaken_def by auto
qed

lemma cv_leave_retaken:
  assumes wf: "wf_sync s" and e: "cv_leave s m sv rv t = (st, s')"
  shows "retaken s m t sv st s' \<and> st \<in> {CvRelock rv, CvDone rv}"
proof (cases "\<exists>i. find_locked s m = Some i \<and> so_type (objs s ! i) = WGO_MUTEX")
  case True
  then obtain i where i: "find_locked s m = Some i" "so_type (objs s ! i) = WGO_MUTEX" by blast
  then show ?thesis using e cv_relock_retaken [OF wf i(1)] by (simp add: cv_leave_def)
next
  case False
  then have "s' = s" "st = CvDone rv" using e by (auto simp: cv_leave_def split: option.splits if_splits)
  then show ?thesis using False by (auto intro!: retaken_same [OF wf])
qed

lemma cv_pass_retaken:
  assumes wf: "wf_sync s" and e: "cv_pass s cv m gen sv ms t = (st, s')"
  shows "retaken s m t sv st s'"
  using e cv_leave_retaken [OF wf] retaken_same [OF wf, of m CvBlocked t sv]
  by (auto simp: cv_pass_def split: option.splits if_splits)

lemma cv_relock_woken_retaken:
  assumes wf: "wf_sync s" and e: "cv_relock_woken s m sv rv t = (st, s')"
  shows "retaken s m t sv st s'"
proof (cases "find_locked s m")
  case None
  then have "st = CvDone rv" "s' = s" using e by (simp_all add: cv_relock_woken_def)
  then show ?thesis using retaken_same [OF wf, of m] None by simp
next
  case (Some i)
  then show ?thesis using e cv_relock_retaken [OF wf Some] by (simp add: cv_relock_woken_def)
qed

lemma sleeps_park: "sleeps (b(t := park cv m ms gen sv st)) h
    = (sleeps b h)(t := if h = m \<and> cv_ret st = None then Some sv else None)"
  by (cases st) (auto simp: sleeps_def fun_eq_iff)

definition saved_depth :: "WGSyncObj \<Rightarrow> int" where
  "saved_depth x = (if recursion x > 0 then recursion x else 1)"

text \<open>The entry of a sleep either fails and changes nothing, or drops the mutex and blocks, or drops
  it and takes it back at once.\<close>

lemma cv_sleep_result:
  assumes wf: "wf_sync s" and e: "cv_sleep_enter s cv m ms t = ((st, gen, sv), s')"
  shows "st = CvDone WG_WAIT_FAILED \<and> s' = s \<or>
    (\<exists>i. find_locked s m = Some i \<and> so_type (objs s ! i) = WGO_MUTEX \<and> sv = saved_depth (objs s ! i) \<and> same_table s s'
      \<and> (st = CvBlocked \<or> st = CvDone WG_WAIT_TIMEOUT)
      \<and> (\<forall>h j. find_locked s h = Some j \<longrightarrow> objs s' ! j = (if h \<noteq> m then objs s ! j
           else if st = CvBlocked then (objs s ! i)\<lparr>owner_tid := 0, recursion := 0\<rparr>
           else (objs s ! i)\<lparr>owner_tid := t, recursion := sv\<rparr>)))"
proof (cases "\<exists>c i. find_locked s cv = Some c \<and> find_locked s m = Some i \<and> so_type (objs s ! c) = WGO_CV
    \<and> so_type (objs s ! i) = WGO_MUTEX")
  case False
  then show ?thesis using e by (auto simp: cv_sleep_enter_def split: option.splits if_splits)
next
  case True
  then obtain c i where c: "find_locked s cv = Some c" "so_type (objs s ! c) = WGO_CV"
    and i: "find_locked s m = Some i" "so_type (objs s ! i) = WGO_MUTEX" by blast
  define x where "x = (objs s ! i)\<lparr>owner_tid := 0, recursion := 0\<rparr>"
  define sd where "sd = saved_depth (objs s ! i)"
  let ?s = "put_obj s i x"
  note p = same_table_put [OF wf i(1), of x, unfolded x_def, simplified, folded x_def]
  have ci: "cv \<noteq> m" using c i by auto
  have f: "find_locked ?s cv = Some c" "find_locked ?s m = Some i" "objs ?s ! c = objs s ! c" "objs ?s ! i = x"
    using p(1) p(2) [OF c(1)] p(2) [OF i(1)] c(1) i(1) ci by (simp_all add: same_table_def)
  have wf2: "wf_sync ?s" using p(1) by (simp add: same_table_def)
  have e2: "cv_pass ?s cv m (so_count (objs s ! c)) sd ms t = (st, s')" "sv = sd"
    using e c i f(3) by (auto simp: cv_sleep_enter_def x_def sd_def saved_depth_def Let_def split: prod.splits)
  show ?thesis
  proof (cases "ms = 0")
    case False
    then have "st = CvBlocked" "s' = ?s" using e2(1) f by (simp_all add: cv_pass_def)
    then show ?thesis using p i e2(2) by (auto simp: sd_def x_def)
  next
    case True
    let ?y = "x\<lparr>owner_tid := t, recursion := sd\<rparr>"
    have st: "st = CvDone WG_WAIT_TIMEOUT" "s' = put_obj ?s i ?y"
      using e2(1) f True i(2) by (simp_all add: cv_pass_def cv_leave_def cv_relock_def x_def)
    note q = same_table_put [OF wf2 f(2), of ?y, unfolded f(4), simplified]
    have "same_table s s'" using p(1) q(1) st(2) by (simp add: same_table_def)
    moreover have "objs s' ! j = (if h \<noteq> m then objs s ! j else (objs s ! i)\<lparr>owner_tid := t, recursion := sv\<rparr>)"
      if "find_locked s h = Some j" for h j
      using p(2) [OF that] q(2) [of h j] p(1) that st(2) e2(2) by (auto simp: same_table_def x_def)
    ultimately show ?thesis using i e2(2) st(1) by (auto simp: sd_def)
  qed
qed

subsection \<open>What a run does to one object\<close>

text \<open>The effect of a step on the object behind \<open>h\<close> and on the threads that sleep without it.\<close>

definition step_effect ::
    "sync_label \<Rightarrow> u32 \<Rightarrow> (u32 \<Rightarrow> int option) \<Rightarrow> (u32 \<Rightarrow> int option) \<Rightarrow> WGSyncObj \<Rightarrow> WGSyncObj \<Rightarrow> bool" where
  "step_effect l h z z' x x' \<longleftrightarrow>
     (case l of
        Wait t h' r \<Rightarrow> t \<noteq> 0 \<and> z t = None \<and> z' = z \<and> takes_effect (takes h l) t x x'
      | WaitMany t hs al r \<Rightarrow> t \<noteq> 0 \<and> z t = None \<and> z' = z \<and> takes_effect (takes h l) t x x'
      | Release t h' ok \<Rightarrow> t \<noteq> 0 \<and> z t = None \<and> z' = z \<and> (if h' = h \<and> ok
            then so_type x = WGO_MUTEX \<and> owner_tid x = t \<and> 0 < recursion x
              \<and> x' = x\<lparr>recursion := recursion x - 1, owner_tid := if recursion x = 1 then 0 else t\<rparr>
            else x' = x)
      | Sleep t cv m r \<Rightarrow> t \<noteq> 0 \<and> z t = None \<and> (if m = h \<and> r \<noteq> Some WG_WAIT_FAILED
            then so_type x = WGO_MUTEX
              \<and> (if r = None then x' = x\<lparr>owner_tid := 0, recursion := 0\<rparr> \<and> z' = z(t \<mapsto> saved_depth x)
                 else x' = x\<lparr>owner_tid := t, recursion := saved_depth x\<rparr> \<and> z' = z)
            else x' = x \<and> z' = z)
      | Awake t m r \<Rightarrow> t \<noteq> 0 \<and> (if m = h
            then \<exists>sv. z t = Some sv \<and> (if r = None then x' = x \<and> z' = z
              else z' = z(t := None) \<and> (x' = x \<and> so_type x \<noteq> WGO_MUTEX
                   \<or> x' = x\<lparr>owner_tid := t, recursion := sv\<rparr> \<and> owner_tid x \<in> {0, t}))
            else x' = x \<and> z' = z)
      | Call c \<Rightarrow> z' = z \<and> call_effect c h x x')"

lemma many_step_effect:
  assumes ok: "cfg_ok (s, b)" and f: "find_locked s h = Some i" and st: "sync_step (s, b) (WaitMany t hs al r) (s', b')"
  shows "cfg_ok (s', b') \<and> find_locked s' h = Some i
    \<and> step_effect (WaitMany t hs al r) h (sleeps b h) (sleeps b' h) (objs s ! i) (objs s' ! i)"
proof -
  have wf: "wf_sync s" using ok by (simp add: cfg_ok_def)
  have pass: ?thesis if p: "multi_pass s hs al ms t = (r, s')" and l: "length hs \<le> 64" and t: "t \<noteq> 0"
    and z0: "sleeps b h t = None" and b': "\<forall>u. b' u = b u \<or> u = t \<and> (b' u = None \<or> b' u = Some (OnMany hs al ms))" and z: "sleeps b' = sleeps b" for ms
  proof -
    note mp = multi_pass_result [OF wf l p]
    have "\<exists>i < WG_SYNC_MAX. k = WG_SYNC_BASE + of_nat i" if "b' u = Some (OnSingle k n)" for u k n
    proof -
      have "b u = Some (OnSingle k n)" using spec [OF b', of u] that by auto
      then show ?thesis using ok unfolding cfg_ok_def snd_conv by blast
    qed
    moreover have "length ks \<le> 64" if "b' u = Some (OnMany ks a n)" for u ks a n
    proof -
      have "b u = Some (OnMany ks a n) \<or> ks = hs" using spec [OF b', of u] that by auto
      then show ?thesis using ok l unfolding cfg_ok_def snd_conv by blast
    qed
    ultimately have "cfg_ok (s', b')" using mp by (simp add: cfg_ok_def same_table_def)
    moreover have "find_locked s' h = Some i" using mp f by (simp add: same_table_def)
    moreover have "step_effect (WaitMany t hs al r) h (sleeps b h) (sleeps b' h) (objs s ! i) (objs s' ! i)"
      using mp f t z z0 by (simp add: step_effect_def)
    ultimately show ?thesis by blast
  qed
  from st show ?thesis
  proof cases
    case (many_enter ms)
    show ?thesis
    proof (cases "hs = [] \<or> length hs > 64")
      case True
      then have e: "r = Some WG_WAIT_FAILED" "s' = s" "b' = b" using many_enter by (auto simp: wait_multiple_enter_def)
      have "takes h (WaitMany t hs al r) = 0" using True by (auto simp: e)
      then show ?thesis using ok f many_enter e by (simp add: step_effect_def takes_effect_def sleeps_def del: takes.simps)
    next
      case False
      show ?thesis by (rule pass [of ms]) (use many_enter False in \<open>auto simp: wait_multiple_enter_def sleeps_def fun_eq_iff\<close>)
    qed
  next
    case (many_woken ms)
    then have "length hs \<le> 64" using ok unfolding cfg_ok_def snd_conv by blast
    then show ?thesis by (intro pass [of ms]) (use many_woken in \<open>auto simp: sleeps_def fun_eq_iff\<close>)
  next
    case (many_timed_out ms c)
    have l: "length hs \<le> 64" using many_timed_out ok unfolding cfg_ok_def snd_conv by blast
    have e: "s' = s" "r = Some WG_WAIT_TIMEOUT" using many_timed_out by (simp_all add: wait_multiple_timeout_def)
    have "takes h (WaitMany t hs al r) = 0" using l by (simp add: e WG_WAIT_TIMEOUT_def WG_WAIT_OBJECT_0_def)
    moreover have "sleeps b' = sleeps b" using many_timed_out by (auto simp: sleeps_def fun_eq_iff)
    ultimately show ?thesis using ok f many_timed_out e by (auto simp: cfg_ok_def step_effect_def takes_effect_def sleeps_def)
  qed
qed

lemma park_single [simp]: "park cv m ms gen sv st \<noteq> Some (OnSingle h k)" "park cv m ms gen sv st \<noteq> Some (OnMany hs al k)"
  by (cases st; simp)+

lemma cfg_ok_park: "cfg_ok (s, b) \<Longrightarrow> same_table s s' \<Longrightarrow> cfg_ok (s', b(t := park cv m ms gen sv st))"
  by (auto simp: cfg_ok_def same_table_def)

lemma sleep_step_effect:
  assumes ok: "cfg_ok (s, b)" and f: "find_locked s h = Some i" and st: "sync_step (s, b) (Sleep t cv m r) (s', b')"
  shows "cfg_ok (s', b') \<and> find_locked s' h = Some i
    \<and> step_effect (Sleep t cv m r) h (sleeps b h) (sleeps b' h) (objs s ! i) (objs s' ! i)"
  using st
proof cases
  case (sleep ms st gen sv)
  have wf: "wf_sync s" using ok by (simp add: cfg_ok_def)
  have z: "sleeps b h t = None" using sleep by (simp add: sleeps_def)
  have t: "WG_WAIT_TIMEOUT \<noteq> WG_WAIT_FAILED" and r: "r = cv_ret st" and t0: "t \<noteq> 0" using sleep by simp_all
  from cv_sleep_result [OF wf sleep(5)] show ?thesis
  proof
    assume e: "st = CvDone WG_WAIT_FAILED \<and> s' = s"
    then have "same_table s s'" using wf by (simp add: same_table_def)
    then show ?thesis using ok e f z sleep by (auto simp: step_effect_def sleeps_park fun_upd_idem)
  next
    assume "\<exists>k. find_locked s m = Some k \<and> so_type (objs s ! k) = WGO_MUTEX \<and> sv = saved_depth (objs s ! k) \<and> same_table s s'
      \<and> (st = CvBlocked \<or> st = CvDone WG_WAIT_TIMEOUT)
      \<and> (\<forall>h j. find_locked s h = Some j \<longrightarrow> objs s' ! j = (if h \<noteq> m then objs s ! j
           else if st = CvBlocked then (objs s ! k)\<lparr>owner_tid := 0, recursion := 0\<rparr>
           else (objs s ! k)\<lparr>owner_tid := t, recursion := sv\<rparr>))"
    then obtain k where k: "find_locked s m = Some k" "so_type (objs s ! k) = WGO_MUTEX" "sv = saved_depth (objs s ! k)"
      "same_table s s'" "st = CvBlocked \<or> st = CvDone WG_WAIT_TIMEOUT"
      "objs s' ! i = (if h \<noteq> m then objs s ! i
           else if st = CvBlocked then (objs s ! k)\<lparr>owner_tid := 0, recursion := 0\<rparr>
           else (objs s ! k)\<lparr>owner_tid := t, recursion := sv\<rparr>)" using f by blast
    have z': "sleeps b' h = (sleeps b h)(t := if h = m \<and> r = None then Some sv else None)" by (simp add: sleep sleeps_park)
    have e: "step_effect (Sleep t cv m r) h (sleeps b h) (sleeps b' h) (objs s ! i) (objs s' ! i)"
    proof (cases "h = m")
      case True
      then have "k = i" using k(1) f by simp
      then show ?thesis using k(2,3,5,6) True z t t0 unfolding z' r
        by (elim disjE) (simp_all add: step_effect_def fun_upd_idem)
    next
      case False
      then show ?thesis using k(6) z t0 unfolding z' by (simp add: step_effect_def fun_upd_idem)
    qed
    have "find_locked s' h = Some i" using k(4) f by (simp add: same_table_def)
    then show ?thesis using e cfg_ok_park [OF ok k(4)] sleep by simp
  qed
qed

lemma awake_step_effect:
  assumes ok: "cfg_ok (s, b)" and f: "find_locked s h = Some i" and st: "sync_step (s, b) (Awake t m r) (s', b')"
  shows "cfg_ok (s', b') \<and> find_locked s' h = Some i
    \<and> step_effect (Awake t m r) h (sleeps b h) (sleeps b' h) (objs s ! i) (objs s' ! i)"
proof -
  have wf: "wf_sync s" using ok by (simp add: cfg_ok_def)
  have ret: ?thesis if q: "retaken s m t sv st s'" and r: "r = cv_ret st" and t: "t \<noteq> 0" and b': "b' = b(t := park cv m ms gen sv st)"
    and z: "sleeps b h t = (if m = h then Some sv else None)" for sv st cv ms gen
  proof -
    have tb: "same_table s s'" using q by (simp add: retaken_def)
    have o: "if h = m \<and> cv_ret st \<noteq> None
      then objs s' ! i = objs s ! i \<and> so_type (objs s ! i) \<noteq> WGO_MUTEX
        \<or> objs s' ! i = (objs s ! i)\<lparr>owner_tid := t, recursion := sv\<rparr> \<and> owner_tid (objs s ! i) \<in> {0, t}
      else objs s' ! i = objs s ! i" using q f unfolding retaken_def by blast
    have z': "sleeps b' h = (sleeps b h)(t := if h = m \<and> r = None then Some sv else None)" by (simp add: b' r sleeps_park)
    have "step_effect (Awake t m r) h (sleeps b h) (sleeps b' h) (objs s ! i) (objs s' ! i)"
    proof (cases "m = h")
      case True
      then show ?thesis using o z t unfolding z' r by (cases "cv_ret st") (simp_all add: step_effect_def fun_upd_idem)
    next
      case False
      then have "(sleeps b h)(t := None) = sleeps b h" using z by (intro fun_upd_idem) simp
      then show ?thesis using o t False unfolding z' r by (auto simp: step_effect_def)
    qed
    moreover have "find_locked s' h = Some i" using tb f by (simp add: same_table_def)
    ultimately show ?thesis using cfg_ok_park [OF ok tb] b' by simp
  qed
  from st show ?thesis
  proof cases
    case (cv_woken cv ms gen sv st)
    then show ?thesis by (intro ret [OF cv_pass_retaken [OF wf cv_woken(5)], of cv ms gen]) (auto simp: sleeps_def)
  next
    case (cv_timed_out cv ms gen sv st)
    then have "cv_leave s m sv (if so_count (objs s ! unat (cv - WG_SYNC_BASE)) \<noteq> gen then WG_WAIT_OBJECT_0 else WG_WAIT_TIMEOUT) t = (st, s')"
      by (simp add: cv_timeout_def)
    from cv_leave_retaken [OF wf this] show ?thesis using cv_timed_out by (intro ret [of sv st cv ms gen]) (auto simp: sleeps_def)
  next
    case (relock sv rv st)
    then show ?thesis by (intro ret [OF cv_relock_woken_retaken [OF wf relock(5)], of 0 0 0]) (auto simp: sleeps_def)
  qed
qed

lemma sync_step_effect:
  assumes ok: "cfg_ok (s, b)" and f: "find_locked s h = Some i"
    and st: "sync_step (s, b) l (s', b')" and nc: "l \<noteq> Call (Close h)"
  shows "cfg_ok (s', b') \<and> find_locked s' h = Some i \<and> step_effect l h (sleeps b h) (sleeps b' h) (objs s ! i) (objs s' ! i)"
proof (cases l)
  case (Wait t h' r)
  with wait_step_result [OF ok, of t h' r s' b'] st f show ?thesis
    by (auto simp: pass_result_def step_effect_def takes_effect_def)
next
  case (WaitMany t hs al r)
  with many_step_effect [OF ok f, of t hs al r s' b'] st show ?thesis by simp
next
  case (Release t h' d)
  with release_step_result [OF ok, of t h' d s' b'] st f show ?thesis
    by (auto simp: step_effect_def)
next
  case (Sleep t cv m r)
  with sleep_step_effect [OF ok f, of t cv m r s' b'] st show ?thesis by simp
next
  case (Awake t m r)
  with awake_step_effect [OF ok f, of t m r s' b'] st show ?thesis by simp
next
  case (Call c)
  have wf: "wf_sync s" using ok by (simp add: cfg_ok_def)
  have "do_call c s = Some s'" "b' = b" using st Call by (auto elim: sync_step_callE)
  with do_call_obj [OF wf f] nc Call ok show ?thesis by (auto simp: step_effect_def cfg_ok_def)
qed

text \<open>
  Invariants of one live object over a run: \<open>I tr x z\<close> relates the labels so far to the object and
  its sleepers; \<open>L tr l\<close> is what is assumed of the label \<open>l\<close> after \<open>tr\<close>.
\<close>

lemma sync_run_induct_obj:
  assumes run: "sync_run c tr c'" and ok: "cfg_ok c" and f: "find_locked (fst c) h = Some i"
    and nc: "Call (Close h) \<notin> set tr" and I0: "I [] (objs (fst c) ! i) (sleeps (snd c) h)"
    and step: "\<And>tr l x x' z z'. I tr x z \<Longrightarrow> step_effect l h z z' x x' \<Longrightarrow> L tr l \<Longrightarrow> I (tr @ [l]) x' z'"
    and L: "\<And>pre l post. tr = pre @ l # post \<Longrightarrow> L pre l"
  shows "cfg_ok c' \<and> find_locked (fst c') h = Some i \<and> I tr (objs (fst c') ! i) (sleeps (snd c') h)"
  using run ok f nc I0 L
proof (induction rule: sync_run.induct)
  case (run_Nil c)
  then show ?case by simp
next
  case (run_snoc c tr c' l c'')
  then have IH: "cfg_ok c'" "find_locked (fst c') h = Some i" "I tr (objs (fst c') ! i) (sleeps (snd c') h)"
    and l: "l \<noteq> Call (Close h)" "L tr l" by auto
  obtain s b s2 b2 where c: "c' = (s, b)" "c'' = (s2, b2)" by (cases c', cases c'') auto
  from sync_step_effect [of s b h i l s2 b2] IH(1,2) run_snoc.hyps(2) l(1) c
  have "cfg_ok c''" "find_locked (fst c'') h = Some i"
    "step_effect l h (sleeps b h) (sleeps b2 h) (objs s ! i) (objs s2 ! i)" by auto
  with step [OF IH(3), of l "sleeps b2 h" "objs s2 ! i"] l(2) c show ?case by simp
qed

text \<open>
  The reference for a mutex: how deep each thread is inside, and how deep a thread that sleeps on a
  condition variable was when it fell asleep.  A successful wait goes one deeper, a wait for
  several objects as often as it names the mutex, a release one up; a sleep sets the depth aside
  and restores it when it returns.
\<close>

record depths =
  inside :: "u32 \<Rightarrow> nat"
  aside :: "u32 \<Rightarrow> nat"

definition by_now :: "u32 \<Rightarrow> nat \<Rightarrow> depths \<Rightarrow> depths" where
  "by_now t n d = d\<lparr>inside := (inside d)(t := n)\<rparr>"

fun observe :: "u32 \<Rightarrow> sync_label \<Rightarrow> depths \<Rightarrow> depths" where
  "observe h (Wait t h' r) d = by_now t (inside d t + takes h (Wait t h' r)) d"
| "observe h (WaitMany t hs al r) d = by_now t (inside d t + takes h (WaitMany t hs al r)) d"
| "observe h (Release t h' ok) d = (if h' = h \<and> ok then by_now t (inside d t - 1) d else d)"
| "observe h (Sleep t cv m None) d = (if m = h then (by_now t 0 d)\<lparr>aside := (aside d)(t := inside d t)\<rparr> else d)"
| "observe h (Sleep t cv m (Some r)) d = d"
| "observe h (Awake t m None) d = d"
| "observe h (Awake t m (Some r)) d = (if m = h then by_now t (aside d t) d else d)"
| "observe h (Call c) d = d"

definition depths_after :: "u32 \<Rightarrow> sync_label list \<Rightarrow> depths" where
  "depths_after h tr = fold (observe h) tr \<lparr>inside = \<lambda>_. 0, aside = \<lambda>_. 0\<rparr>"

definition depth :: "u32 \<Rightarrow> sync_label list \<Rightarrow> u32 \<Rightarrow> nat" where
  "depth h tr t = inside (depths_after h tr) t"

lemma depths_after_snoc: "depths_after h (tr @ [l]) = observe h l (depths_after h tr)"
  by (simp add: depths_after_def)

text \<open>Only a thread that is inside sleeps with the mutex, unless the sleep fails.\<close>

fun sleeps_inside :: "u32 \<Rightarrow> sync_label list \<Rightarrow> sync_label \<Rightarrow> bool" where
  "sleeps_inside h tr (Sleep t cv m r) \<longleftrightarrow> m = h \<and> r \<noteq> Some WG_WAIT_FAILED \<longrightarrow> 0 < depth h tr t"
| "sleeps_inside h tr l \<longleftrightarrow> True"

definition waits_ok :: "u32 \<Rightarrow> sync_label list \<Rightarrow> nat" where
  "waits_ok h tr = sum_list (map (takes h) tr)"

definition signals :: "u32 \<Rightarrow> sync_label list \<Rightarrow> nat" where
  "signals h tr = length (filter (\<lambda>l. l = Call (SetEvent h) \<or> (\<exists>t. l = Call (KickTid t)) \<or> (\<exists>a m c. l = Call (KickWorkers a m c))) tr)"

fun sem_release :: "u32 \<Rightarrow> sync_label \<Rightarrow> int" where
  "sem_release h (Call (ReleaseSem h' n)) = (if h' = h then n else 0)"
| "sem_release h l = 0"

lemma takes_le: "takes h l \<le> 64"
proof (cases "(h, l)" rule: takes.cases)
  case (2 h t hs al c)
  then show ?thesis using count_le_length [of hs h] by auto
qed auto

lemma takes_0: "(\<nexists>t h' r. l = Wait t h' r) \<Longrightarrow> (\<nexists>t hs al r. l = WaitMany t hs al r) \<Longrightarrow> takes h l = 0"
  by (cases "(h, l)" rule: takes.cases) auto

definition mutex_inv :: "u32 \<Rightarrow> sync_label list \<Rightarrow> WGSyncObj \<Rightarrow> (u32 \<Rightarrow> int option) \<Rightarrow> bool" where
  "mutex_inv h tr x z \<longleftrightarrow> so_type x = WGO_MUTEX \<and> 0 \<le> recursion x \<and> (recursion x = 0 \<longleftrightarrow> owner_tid x = 0)
     \<and> (\<forall>t. t \<noteq> 0 \<longrightarrow> int (inside (depths_after h tr) t) = (if owner_tid x = t then recursion x else 0))
     \<and> (\<forall>t sv. z t = Some sv \<longrightarrow> sv = int (aside (depths_after h tr) t) \<and> 0 < sv \<and> inside (depths_after h tr) t = 0)
     \<and> (\<forall>t. t \<noteq> 0 \<longrightarrow> inside (depths_after h tr) t \<le> 64 * length tr \<and> aside (depths_after h tr) t \<le> 64 * length tr)"

lemma acquire_mutex_n: "so_type x = WGO_MUTEX \<Longrightarrow> n \<noteq> 0 \<Longrightarrow>
    ((\<lambda>x. acquire_locked x t) ^^ n) x = x\<lparr>owner_tid := t, recursion := recursion x + int n\<rparr>"
proof (induction n)
  case (Suc n)
  then show ?case by (cases "n = 0") (auto simp: acquire_locked_def)
qed simp

lemma acquire_type_n [simp]: "so_type (((\<lambda>x. acquire_locked x t) ^^ n) x) = so_type x"
  by (induction n) simp_all

text \<open>A step in which thread \<open>t\<close> takes the mutex \<open>n\<close> times.\<close>

lemma mutex_inv_take:
  assumes inv: "mutex_inv h tr x z" and t: "t \<noteq> 0" and e: "takes_effect (takes h l) t x x'"
    and l: "observe h l = (\<lambda>d. by_now t (inside d t + takes h l) d)" and z: "z t = None \<or> takes h l = 0"
  shows "mutex_inv h (tr @ [l]) x' z"
proof (cases "takes h l = 0")
  case True
  have d: "depths_after h (tr @ [l]) = depths_after h tr" unfolding depths_after_snoc l True by (simp add: by_now_def)
  have "x' = x" using e True by (simp add: takes_effect_def)
  then show ?thesis using inv unfolding mutex_inv_def d by (auto intro: trans_le_add2)
next
  case False
  let ?d = "depths_after h tr" and ?n = "takes h l"
  have ty: "so_type x = WGO_MUTEX" using inv by (simp add: mutex_inv_def)
  have x': "x' = x\<lparr>owner_tid := t, recursion := recursion x + int ?n\<rparr>" and o: "owner_tid x = 0 \<or> owner_tid x = t"
    using e False acquire_mutex_n [OF ty False, of t] ty by (auto simp: takes_effect_def satisfied_locked_def)
  have d: "depths_after h (tr @ [l]) = ?d\<lparr>inside := (inside ?d)(t := inside ?d t + ?n)\<rparr>" unfolding depths_after_snoc l by (simp add: by_now_def)
  have i0: "int (inside ?d u) = (if owner_tid x = u then recursion x else 0)" if "u \<noteq> 0" for u using inv that by (simp add: mutex_inv_def)
  have "int (inside ?d t) = recursion x" using i0 [OF t] o inv by (auto simp: mutex_inv_def)
  moreover have "inside ?d t + ?n \<le> 64 * length (tr @ [l])" using inv t takes_le [of h l] by (auto simp: mutex_inv_def)
  ultimately show ?thesis using inv z False o i0 t unfolding mutex_inv_def d x' by (auto simp: trans_le_add2)
qed

text \<open>A step that changes the depth of at most one thread.\<close>

lemma mutex_inv_same: "mutex_inv h tr x z \<Longrightarrow> observe h l (depths_after h tr) = depths_after h tr \<Longrightarrow>
    so_type x' = so_type x \<Longrightarrow> owner_tid x' = owner_tid x \<Longrightarrow> recursion x' = recursion x \<Longrightarrow> mutex_inv h (tr @ [l]) x' z"
  unfolding mutex_inv_def depths_after_snoc by (auto intro: trans_le_add2)

lemma mutex_inv_inside:
  "mutex_inv h tr x z \<Longrightarrow> t \<noteq> 0 \<Longrightarrow> int (inside (depths_after h tr) t) = (if owner_tid x = t then recursion x else 0)"
  by (simp add: mutex_inv_def)

lemma mutex_inv_release:
  assumes inv: "mutex_inv h tr x z" and t: "t \<noteq> 0" and o: "owner_tid x = t" "0 < recursion x"
  shows "mutex_inv h (tr @ [Release t h True]) (x\<lparr>recursion := recursion x - 1, owner_tid := if recursion x = 1 then 0 else t\<rparr>) z"
proof -
  let ?d = "depths_after h tr"
  have d: "depths_after h (tr @ [Release t h True]) = ?d\<lparr>inside := (inside ?d)(t := inside ?d t - 1)\<rparr>"
    unfolding depths_after_snoc by (simp add: by_now_def)
  have i: "int (inside ?d t) = recursion x" using mutex_inv_inside [OF inv t] o by simp
  then have "int (inside ?d t - 1) = recursion x - 1" using o by (simp add: of_nat_diff)
  moreover have "inside ?d t - 1 \<le> 64 * length (tr @ [Release t h True])" using inv t by (fastforce simp: mutex_inv_def)
  ultimately show ?thesis using inv t o i unfolding mutex_inv_def d by (auto intro: trans_le_add2)
qed

lemma mutex_inv_sleep:
  assumes inv: "mutex_inv h tr x z" and t: "t \<noteq> 0" and sl: "0 < depth h tr t"
  shows "saved_depth x = recursion x" "owner_tid x = t"
    and "mutex_inv h (tr @ [Sleep t cv h None]) (x\<lparr>owner_tid := 0, recursion := 0\<rparr>) (z(t \<mapsto> saved_depth x))"
proof -
  let ?d = "depths_after h tr"
  have d: "depths_after h (tr @ [Sleep t cv h None]) = ?d\<lparr>inside := (inside ?d)(t := 0), aside := (aside ?d)(t := inside ?d t)\<rparr>"
    unfolding depths_after_snoc by (simp add: by_now_def)
  have i0: "0 < inside ?d t" using sl by (simp add: depth_def)
  then show o: "owner_tid x = t" using mutex_inv_inside [OF inv t] by (auto split: if_splits)
  then have i: "int (inside ?d t) = recursion x" using mutex_inv_inside [OF inv t] by simp
  then show sd: "saved_depth x = recursion x" using i0 by (simp add: saved_depth_def)
  have "inside ?d t \<le> 64 * length (tr @ [Sleep t cv h None])" using inv t by (fastforce simp: mutex_inv_def)
  then show "mutex_inv h (tr @ [Sleep t cv h None]) (x\<lparr>owner_tid := 0, recursion := 0\<rparr>) (z(t \<mapsto> saved_depth x))"
    using inv t o i i0 unfolding mutex_inv_def d sd by (auto intro: trans_le_add2)
qed

lemma mutex_inv_awake:
  assumes inv: "mutex_inv h tr x z" and t: "t \<noteq> 0" and z: "z t = Some sv" and o: "owner_tid x \<in> {0, t}"
  shows "mutex_inv h (tr @ [Awake t h (Some rv)]) (x\<lparr>owner_tid := t, recursion := sv\<rparr>) (z(t := None))"
proof -
  let ?d = "depths_after h tr"
  have d: "depths_after h (tr @ [Awake t h (Some rv)]) = ?d\<lparr>inside := (inside ?d)(t := aside ?d t)\<rparr>"
    unfolding depths_after_snoc by (simp add: by_now_def)
  have sv: "sv = int (aside ?d t)" "0 < sv" "inside ?d t = 0" using inv z by (auto simp: mutex_inv_def)
  have o0: "owner_tid x = 0" "recursion x = 0" using mutex_inv_inside [OF inv t] o sv(3) t inv by (auto simp: mutex_inv_def)
  have "aside ?d t \<le> 64 * length (tr @ [Awake t h (Some rv)])" using inv t by (fastforce simp: mutex_inv_def)
  then show ?thesis using inv t o0 sv unfolding mutex_inv_def d by (auto intro: trans_le_add2)
qed

lemma mutex_inv_step:
  assumes inv: "mutex_inv h tr x z" and e: "step_effect l h z z' x x'" and sl: "sleeps_inside h tr l"
  shows "mutex_inv h (tr @ [l]) x' z'"
proof (cases l)
  case (Wait t h' r)
  then have "t \<noteq> 0" "z t = None" "z' = z" "takes_effect (takes h l) t x x'"
    using e by (simp_all add: step_effect_def del: takes.simps)
  moreover have "observe h l = (\<lambda>d. by_now t (inside d t + takes h l) d)" using Wait by (simp add: fun_eq_iff del: takes.simps)
  ultimately show ?thesis using mutex_inv_take [OF inv] by simp
next
  case (WaitMany t hs al r)
  then have "t \<noteq> 0" "z t = None" "z' = z" "takes_effect (takes h l) t x x'"
    using e by (simp_all add: step_effect_def del: takes.simps)
  moreover have "observe h l = (\<lambda>d. by_now t (inside d t + takes h l) d)" using WaitMany by (simp add: fun_eq_iff del: takes.simps)
  ultimately show ?thesis using mutex_inv_take [OF inv] by simp
next
  case (Release t h' d)
  show ?thesis
  proof (cases "h' = h \<and> d")
    case True
    then show ?thesis using e Release mutex_inv_release [OF inv, of t] by (simp add: step_effect_def)
  next
    case False
    then have "x' = x" "z' = z" using e Release by (simp_all add: step_effect_def)
    then show ?thesis using mutex_inv_same [OF inv, of l x] False Release by (simp del: observe.simps(1,2) split: if_splits)
  qed
next
  case (Sleep t cv m r)
  show ?thesis
  proof (cases "m = h \<and> r \<noteq> Some WG_WAIT_FAILED")
    case False
    then have "x' = x" "z' = z" using e Sleep by (simp_all add: step_effect_def split: if_splits)
    moreover have "observe h l (depths_after h tr) = depths_after h tr" using False Sleep by (cases r) auto
    ultimately show ?thesis using mutex_inv_same [OF inv, of l x] by simp
  next
    case True
    then have t: "t \<noteq> 0" and d: "0 < depth h tr t" using e sl Sleep by (simp_all add: step_effect_def)
    note s = mutex_inv_sleep [OF inv t d]
    show ?thesis
    proof (cases r)
      case None
      then show ?thesis using s(3) [of cv] e True Sleep by (simp add: step_effect_def)
    next
      case (Some rv)
      then have "x' = x" "z' = z" using e True Sleep s(1,2) by (simp_all add: step_effect_def)
      then show ?thesis using mutex_inv_same [OF inv, of l x] Some Sleep by simp
    qed
  qed
next
  case (Awake t m r)
  show ?thesis
  proof (cases "m = h \<and> r \<noteq> None")
    case False
    then have "x' = x" "z' = z" using e Awake by (auto simp: step_effect_def split: if_splits)
    moreover have "observe h l (depths_after h tr) = depths_after h tr" using False Awake by (cases r) auto
    ultimately show ?thesis using mutex_inv_same [OF inv, of l x] by simp
  next
    case True
    then obtain rv where rv: "r = Some rv" by auto
    have ty: "so_type x = WGO_MUTEX" using inv by (simp add: mutex_inv_def)
    obtain sv where "t \<noteq> 0" "z t = Some sv" "z' = z(t := None)" "x' = x\<lparr>owner_tid := t, recursion := sv\<rparr>" "owner_tid x \<in> {0, t}"
      using e True Awake rv ty by (auto simp: step_effect_def)
    then show ?thesis using mutex_inv_awake [OF inv, of t sv rv] True Awake rv by simp
  qed
next
  case (Call c)
  then have "z' = z" "so_type x' = so_type x" "owner_tid x' = owner_tid x" "recursion x' = recursion x"
    using e by (simp_all add: step_effect_def call_effect_def)
  then show ?thesis using mutex_inv_same [OF inv, of l x'] Call by simp
qed

definition event_inv :: "u32 \<Rightarrow> nat \<Rightarrow> sync_label list \<Rightarrow> WGSyncObj \<Rightarrow> bool" where
  "event_inv h k tr x \<longleftrightarrow> so_type x = WGO_EVENT \<and> \<not> manual x
     \<and> waits_ok h tr + (if signalled x then 1 else 0) \<le> k + signals h tr"

text \<open>A step other than a call on an object that is not a mutex takes it at most once or leaves all
  but its owner and depth.\<close>

lemma step_effect_once:
  assumes e: "step_effect l h z z' x x'" and ty: "so_type x \<noteq> WGO_MUTEX" and n: "takes h l \<le> 1" and l: "\<nexists>c. l = Call c"
  shows "takes h l = 1 \<and> (\<exists>t. satisfied_locked x t \<and> x' = acquire_locked x t)
    \<or> takes h l = 0 \<and> (\<exists>t n. x' = x\<lparr>owner_tid := t, recursion := n\<rparr>)"
proof (cases "(\<exists>t h' r. l = Wait t h' r) \<or> (\<exists>t hs al r. l = WaitMany t hs al r)")
  case True
  then obtain t where t: "takes_effect (takes h l) t x x'" using e by (auto simp: step_effect_def)
  have "takes h l = 0 \<or> takes h l = 1" using n by linarith
  then show ?thesis
  proof
    assume "takes h l = 0"
    then have "takes h l = 0 \<and> x' = x\<lparr>owner_tid := owner_tid x, recursion := recursion x\<rparr>" using t by (simp add: takes_effect_def)
    then show ?thesis by blast
  next
    assume "takes h l = 1"
    then show ?thesis using t by (auto simp: takes_effect_def)
  qed
next
  case False
  then have z: "takes h l = 0" by (intro takes_0) auto
  have "x' = x \<or> (\<exists>t n. x' = x\<lparr>owner_tid := t, recursion := n\<rparr>)"
    using e l ty False by (cases l) (auto simp: step_effect_def split: if_splits)
  moreover have "x = x\<lparr>owner_tid := owner_tid x, recursion := recursion x\<rparr>" by simp
  ultimately show ?thesis using z by metis
qed

lemma event_inv_step:
  assumes inv: "event_inv h k tr x" and e: "step_effect l h z z' x x'" and n: "takes h l \<le> 1"
  shows "event_inv h k (tr @ [l]) x'"
proof (cases "\<exists>c. l = Call c")
  case False
  have ty: "so_type x \<noteq> WGO_MUTEX" using inv by (simp add: event_inv_def)
  have sg: "signals h (tr @ [l]) = signals h tr" using False by (auto simp: signals_def)
  from step_effect_once [OF e ty n False] show ?thesis
    using inv by (auto simp: event_inv_def waits_ok_def sg acquire_locked_def satisfied_locked_def)
next
  case True
  then obtain c where Call: "l = Call c" by blast
  with inv e show ?thesis
    by (cases "signalled x") (auto simp: step_effect_def call_effect_def event_inv_def waits_ok_def signals_def)
qed

definition sem_inv :: "u32 \<Rightarrow> int \<Rightarrow> int \<Rightarrow> sync_label list \<Rightarrow> WGSyncObj \<Rightarrow> bool" where
  "sem_inv h k m tr x \<longleftrightarrow> so_type x = WGO_SEM \<and> so_max x = m \<and> 0 \<le> so_count x
     \<and> (0 < m \<longrightarrow> so_count x \<le> m)
     \<and> so_count x + int (waits_ok h tr) \<le> k + sum_list (map (sem_release h) tr)
     \<and> (m \<le> 0 \<longrightarrow> so_count x + int (waits_ok h tr) = k + sum_list (map (sem_release h) tr))"

lemma sem_inv_step:
  assumes inv: "sem_inv h k m tr x" and e: "step_effect l h z z' x x'" and n: "0 \<le> sem_release h l \<and> takes h l \<le> 1"
  shows "sem_inv h k m (tr @ [l]) x'"
proof (cases "\<exists>c. l = Call c")
  case False
  have ty: "so_type x \<noteq> WGO_MUTEX" using inv by (simp add: sem_inv_def)
  have z: "sem_release h l = 0" using False by (cases l) auto
  from step_effect_once [OF e ty conjunct2 [OF n] False] show ?thesis
    using inv by (auto simp: sem_inv_def waits_ok_def z acquire_locked_def satisfied_locked_def)
next
  case True
  then obtain c where Call: "l = Call c" by blast
  have ce: "call_effect c h x x'" using e Call by (simp add: step_effect_def)
  have st: "so_type x = WGO_SEM" using inv by (simp add: sem_inv_def)
  show ?thesis
  proof (cases "\<exists>j. c = ReleaseSem h j")
    case True
    then obtain j where j: "c = ReleaseSem h j" by blast
    with ce st have "so_count x' = (if so_max x > 0 \<and> so_count x + j > so_max x then so_max x else so_count x + j)"
      "so_type x' = WGO_SEM" "so_max x' = so_max x" by (auto simp: call_effect_def)
    with inv j Call n show ?thesis by (auto simp: sem_inv_def waits_ok_def)
  next
    case False
    then have z: "sem_release h l = 0" using Call by (cases c) auto
    have "so_count x' = so_count x" "so_type x' = WGO_SEM" "so_max x' = so_max x"
      using ce st False by (auto simp: call_effect_def)
    with inv Call z show ?thesis by (auto simp: sem_inv_def waits_ok_def)
  qed
qed

subsection \<open>A small scenario\<close>

text \<open>A fresh table with one object in slot 0.\<close>

definition demo_h :: u32 where "demo_h = WG_SYNC_BASE"

definition demo_sync :: "WGSyncObj \<Rightarrow> SyncState" where
  "demo_sync x = put_obj wg_sync_init 0 (x\<lparr>so_handle := demo_h\<rparr>)"

lemma demo_obj: "objs (demo_sync x) ! 0 = x\<lparr>so_handle := demo_h\<rparr>"
proof -
  have "0 < length (replicate WG_SYNC_MAX obj0)" by (simp add: WG_SYNC_MAX_def)
  then show ?thesis unfolding demo_sync_def put_obj_def wg_sync_init_def by simp
qed

lemma demo_find: "so_type x \<noteq> WGO_FREE \<Longrightarrow> find_locked (demo_sync x) demo_h = Some 0"
  using demo_obj [of x] by (simp add: find_locked_iff) (simp add: demo_h_def WG_SYNC_MAX_def)

lemma demo_ok: "cfg_ok (demo_sync x, \<lambda>_. None)"
proof -
  have "so_handle (objs (demo_sync x) ! i) = WG_SYNC_BASE + of_nat i"
    if "i < WG_SYNC_MAX" "so_type (objs (demo_sync x) ! i) \<noteq> WGO_FREE" for i
    using that by (cases "i = 0") (auto simp: demo_sync_def demo_h_def wg_sync_init_def put_obj_def obj0_def)
  moreover have "length (objs (demo_sync x)) = WG_SYNC_MAX"
    by (simp add: demo_sync_def wg_sync_init_def put_obj_def)
  ultimately show ?thesis by (simp add: cfg_ok_def wf_sync_def)
qed

text \<open>A thread that may take the object takes it in its first step.\<close>

lemma demo_wait:
  assumes "so_type x \<noteq> WGO_FREE" "satisfied_locked (x\<lparr>so_handle := demo_h\<rparr>) t" "t \<noteq> 0"
  shows "\<exists>s'. sync_run (demo_sync x, \<lambda>_. None) [Wait t demo_h (Some WG_WAIT_OBJECT_0)] (s', \<lambda>_. None)"
proof -
  obtain s' where "wait_single_enter (demo_sync x) demo_h 0 t = (Some WG_WAIT_OBJECT_0, s')"
    using assms by (simp add: wait_single_enter_def demo_find single_pass_def demo_obj)
  from sync_step.enter [of "\<lambda>_. None" t "demo_sync x" demo_h 0, OF refl assms(3) this] have
    "sync_step (demo_sync x, \<lambda>_. None) (Wait t demo_h (Some WG_WAIT_OBJECT_0)) (s', \<lambda>_. None)"
    by simp
  from run_snoc [OF run_Nil this] show ?thesis by auto
qed

subsection \<open>Properties\<close>

text \<open>C4: Mutual exclusion.  Take any interleaving of waits for one or several objects, wakeups,
  timeouts, releases, condition-variable sleeps and other calls, on a mutex that starts free, with
  no thread asleep without it, and that is not closed, in which only threads that are inside the
  mutex sleep with it.  Then the mutex's recursion count is the depth of its recorded owner and every
  other thread is outside, where a thread's depth counts its successful waits less its releases and
  is set aside while it sleeps; so at most one thread is ever inside, and the count stays below 64
  times the number of steps.\<close>

theorem mutex_exclusion:
  assumes "sync_run (s, b) tr (s', b')" and "cfg_ok (s, b)" and "find_locked s h = Some i"
    and "so_type (objs s ! i) = WGO_MUTEX" and "owner_tid (objs s ! i) = 0" and "recursion (objs s ! i) = 0"
    and "\<forall>t. sleeps b h t = None" and "Call (Close h) \<notin> set tr"
    and "\<And>pre l post. tr = pre @ l # post \<Longrightarrow> sleeps_inside h pre l"
  shows "(\<forall>t. t \<noteq> 0 \<longrightarrow> int (depth h tr t) = (if owner_tid (objs s' ! i) = t then recursion (objs s' ! i) else 0))
    \<and> (\<forall>t u. t \<noteq> 0 \<longrightarrow> u \<noteq> 0 \<longrightarrow> 0 < depth h tr t \<longrightarrow> 0 < depth h tr u \<longrightarrow> t = u)
    \<and> 0 \<le> recursion (objs s' ! i) \<and> recursion (objs s' ! i) \<le> 64 * int (length tr)"
proof -
  have "mutex_inv h [] (objs s ! i) (sleeps b h)"
    using assms(4-7) by (simp add: mutex_inv_def depths_after_def)
  with assms(1-3,8,9) sync_run_induct_obj [of "(s, b)" tr "(s', b')" h i "mutex_inv h" "sleeps_inside h"] mutex_inv_step
  have inv: "mutex_inv h tr (objs s' ! i) (sleeps b' h)" by simp
  note eq = mutex_inv_inside [OF inv, folded depth_def]
  have "t = u" if "t \<noteq> 0" "u \<noteq> 0" "0 < depth h tr t" "0 < depth h tr u" for t u
    using eq [of t] eq [of u] that by (auto split: if_splits)
  moreover have "recursion (objs s' ! i) \<le> 64 * int (length tr)"
  proof (cases "owner_tid (objs s' ! i) = 0")
    case True
    then show ?thesis using inv by (simp add: mutex_inv_def)
  next
    case False
    then have "recursion (objs s' ! i) = int (depth h tr (owner_tid (objs s' ! i)))" using eq by simp
    moreover have "depth h tr (owner_tid (objs s' ! i)) \<le> 64 * length tr" using inv False by (simp add: mutex_inv_def depth_def)
    ultimately show ?thesis by linarith
  qed
  moreover have "0 \<le> recursion (objs s' ! i)" using inv by (simp add: mutex_inv_def)
  ultimately show ?thesis using eq by blast
qed

theorem mutex_exclusion_witness:
  "\<exists>s'. sync_run (demo_sync (obj0\<lparr>so_type := WGO_MUTEX\<rparr>), \<lambda>_. None) [Wait 7 demo_h (Some WG_WAIT_OBJECT_0)] (s', \<lambda>_. None)
     \<and> owner_tid (objs s' ! 0) = 7"
proof -
  let ?x = "obj0\<lparr>so_type := WGO_MUTEX\<rparr>" and ?tr = "[Wait 7 demo_h (Some WG_WAIT_OBJECT_0)]"
  obtain s' where r: "sync_run (demo_sync ?x, \<lambda>_. None) ?tr (s', \<lambda>_. None)"
    using demo_wait [of ?x 7] by (auto simp: satisfied_locked_def obj0_def)
  have "\<forall>t. t \<noteq> 0 \<longrightarrow> int (depth demo_h ?tr t) = (if owner_tid (objs s' ! 0) = t then recursion (objs s' ! 0) else 0)"
    by (rule conjunct1 [OF mutex_exclusion [OF r demo_ok demo_find]])
      (auto simp: demo_obj obj0_def sleeps_def Cons_eq_append_conv)
  from spec [OF this, of 7] have "1 = (if owner_tid (objs s' ! 0) = 7 then recursion (objs s' ! 0) else 0)"
    by (simp add: depth_def depths_after_def by_now_def)
  then have "owner_tid (objs s' ! 0) = 7" by (simp split: if_splits)
  with r show ?thesis by blast
qed

text \<open>A condition-variable sleep with a mutex that another thread owns takes it away from the owner:
  \<open>wg_sync_cv_sleep\<close> does not look at who owns it.\<close>

theorem cv_sleep_frees_any:
  assumes "wf_sync s" and "find_locked s cv = Some c" and "so_type (objs s ! c) = WGO_CV"
    and "find_locked s m = Some i" and "so_type (objs s ! i) = WGO_MUTEX" and "ms \<noteq> 0"
  shows "\<exists>gen sv s'. cv_sleep_enter s cv m ms tid = ((CvBlocked, gen, sv), s') \<and> owner_tid (objs s' ! i) = 0"
proof -
  obtain st gen sv s' where e: "cv_sleep_enter s cv m ms tid = ((st, gen, sv), s')" by (cases "cv_sleep_enter s cv m ms tid") auto
  let ?s = "put_obj s i ((objs s ! i)\<lparr>owner_tid := 0, recursion := 0\<rparr>)"
  note p = same_table_put [OF assms(1,4), of "(objs s ! i)\<lparr>owner_tid := 0, recursion := 0\<rparr>", simplified]
  have "cv \<noteq> m" using assms by auto
  then have f: "find_locked ?s cv = Some c" "objs ?s ! c = objs s ! c" "owner_tid (objs ?s ! i) = 0"
    using p(1) p(2) [OF assms(2)] p(2) [OF assms(4)] assms(2,4) by (simp_all add: same_table_def)
  then have "st = CvBlocked \<and> s' = ?s" using e assms by (simp add: cv_sleep_enter_def cv_pass_def Let_def)
  then show ?thesis using e f(3) by auto
qed

theorem cv_sleep_frees_any_witness:
  "\<exists>s gen sv s'. owner_tid (objs s ! 0) = 7 \<and> cv_sleep_enter s (WG_SYNC_BASE + 1) demo_h 5 8 = ((CvBlocked, gen, sv), s')
     \<and> owner_tid (objs s' ! 0) = 0"
proof -
  define s where "s = put_obj (demo_sync (obj0\<lparr>so_type := WGO_MUTEX, owner_tid := 7, recursion := 1\<rparr>)) 1
    (obj0\<lparr>so_type := WGO_CV, so_handle := WG_SYNC_BASE + 1\<rparr>)"
  have len: "length (objs (demo_sync x)) = WG_SYNC_MAX" for x using demo_ok [of x] by (simp add: cfg_ok_def wf_sync_def)
  have o0: "objs s ! 0 = obj0\<lparr>so_type := WGO_MUTEX, owner_tid := 7, recursion := 1, so_handle := demo_h\<rparr>"
    by (simp add: s_def demo_obj)
  have o1: "objs s ! 1 = obj0\<lparr>so_type := WGO_CV, so_handle := WG_SYNC_BASE + 1\<rparr>"
    by (simp add: s_def len WG_SYNC_MAX_def)
  have f0: "find_locked s demo_h = Some 0" using o0 by (simp add: find_locked_iff demo_h_def WG_SYNC_MAX_def)
  have f1: "find_locked s (WG_SYNC_BASE + 1) = Some 1" using o1 by (simp add: find_locked_iff WG_SYNC_MAX_def)
  have "so_handle (objs s ! i) = WG_SYNC_BASE + of_nat i" if "i < length (objs s)" "so_type (objs s ! i) \<noteq> WGO_FREE" for i
  proof (cases "i = 1")
    case False
    then have "objs s ! i = objs (demo_sync (obj0\<lparr>so_type := WGO_MUTEX, owner_tid := 7, recursion := 1\<rparr>)) ! i" by (simp add: s_def)
    then show ?thesis using that demo_ok [of "obj0\<lparr>so_type := WGO_MUTEX, owner_tid := 7, recursion := 1\<rparr>"]
      by (simp add: cfg_ok_def wf_sync_def s_def)
  qed (simp only: o1, simp)
  moreover have "length (objs s) = WG_SYNC_MAX" by (simp add: s_def len)
  ultimately have wf: "wf_sync s" by (simp add: wf_sync_def)
  have "owner_tid (objs s ! 0) = 7" using o0 by simp
  moreover have "\<exists>gen sv s'. cv_sleep_enter s (WG_SYNC_BASE + 1) demo_h 5 8 = ((CvBlocked, gen, sv), s') \<and> owner_tid (objs s' ! 0) = 0"
    using cv_sleep_frees_any [OF wf f1 _ f0, of 5 8] o0 o1 by simp
  ultimately show ?thesis by blast
qed

text \<open>An auto-reset event releases one waiter per signal: over any interleaving the successful
  waits are at most the initial state plus the calls that may set it, if no wait names the event
  twice.\<close>
theorem auto_reset_event_bound:
  assumes "sync_run (s, b) tr (s', b')" and "cfg_ok (s, b)" and "find_locked s h = Some i"
    and "so_type (objs s ! i) = WGO_EVENT" and "\<not> manual (objs s ! i)" and "Call (Close h) \<notin> set tr"
    and "\<forall>l \<in> set tr. takes h l \<le> 1"
  shows "waits_ok h tr \<le> (if signalled (objs s ! i) then 1 else 0) + signals h tr"
proof -
  define k :: nat where "k = (if signalled (objs s ! i) then 1 else 0)"
  have "event_inv h k [] (objs s ! i)"
    using assms(4,5) by (simp add: event_inv_def waits_ok_def signals_def k_def)
  with assms(1-3,6,7) sync_run_induct_obj [of "(s, b)" tr "(s', b')" h i "\<lambda>tr x z. event_inv h k tr x" "\<lambda>_ l. takes h l \<le> 1"]
    event_inv_step
  have "event_inv h k tr (objs s' ! i)" by auto
  then show ?thesis unfolding event_inv_def k_def [symmetric] by linarith
qed

theorem auto_reset_event_bound_witness:
  "\<exists>s'. sync_run (demo_sync (obj0\<lparr>so_type := WGO_EVENT, signalled := True\<rparr>), \<lambda>_. None)
       [Wait 7 demo_h (Some WG_WAIT_OBJECT_0)] (s', \<lambda>_. None)
     \<and> waits_ok demo_h [Wait 7 demo_h (Some WG_WAIT_OBJECT_0)] \<le> 1"
proof -
  let ?x = "obj0\<lparr>so_type := WGO_EVENT, signalled := True\<rparr>"
  obtain s' where r: "sync_run (demo_sync ?x, \<lambda>_. None) [Wait 7 demo_h (Some WG_WAIT_OBJECT_0)] (s', \<lambda>_. None)"
    using demo_wait [of ?x 7] by (auto simp: satisfied_locked_def obj0_def)
  have "waits_ok demo_h [Wait 7 demo_h (Some WG_WAIT_OBJECT_0)]
      \<le> (if signalled (objs (demo_sync ?x) ! 0) then 1 else 0) + signals demo_h [Wait 7 demo_h (Some WG_WAIT_OBJECT_0)]"
    by (rule auto_reset_event_bound [OF r demo_ok demo_find]) (simp_all add: demo_obj obj0_def)
  with r show ?thesis by (auto simp: demo_obj signals_def)
qed

text \<open>A semaphore that starts within its bounds stays within them over any interleaving whose
  releases are not negative and whose waits name it at most once, and the successful waits never exceed the initial count plus the
  released units; without a maximum none is lost.\<close>
theorem semaphore_bound:
  assumes "sync_run (s, b) tr (s', b')" and "cfg_ok (s, b)" and "find_locked s h = Some i"
    and "so_type (objs s ! i) = WGO_SEM" and "0 \<le> so_count (objs s ! i)"
    and "0 < so_max (objs s ! i) \<longrightarrow> so_count (objs s ! i) \<le> so_max (objs s ! i)"
    and "Call (Close h) \<notin> set tr" and "\<forall>l \<in> set tr. 0 \<le> sem_release h l \<and> takes h l \<le> 1"
  shows "0 \<le> so_count (objs s' ! i) \<and> (0 < so_max (objs s ! i) \<longrightarrow> so_count (objs s' ! i) \<le> so_max (objs s ! i))
    \<and> int (waits_ok h tr) \<le> so_count (objs s ! i) + sum_list (map (sem_release h) tr)
    \<and> (so_max (objs s ! i) \<le> 0 \<longrightarrow>
        so_count (objs s' ! i) = so_count (objs s ! i) + sum_list (map (sem_release h) tr) - int (waits_ok h tr))"
proof -
  let ?I = "sem_inv h (so_count (objs s ! i)) (so_max (objs s ! i))"
  have "?I [] (objs s ! i)" using assms(4-6) by (simp add: sem_inv_def waits_ok_def)
  with assms(1-3,7,8) sync_run_induct_obj [of "(s, b)" tr "(s', b')" h i "\<lambda>tr x z. ?I tr x" "\<lambda>_ l. 0 \<le> sem_release h l \<and> takes h l \<le> 1"]
    sem_inv_step
  have "?I tr (objs s' ! i)" by auto
  then show ?thesis unfolding sem_inv_def by (intro conjI impI) auto
qed

theorem semaphore_bound_witness:
  "\<exists>s'. sync_run (demo_sync (obj0\<lparr>so_type := WGO_SEM, so_count := 3\<rparr>), \<lambda>_. None)
       [Wait 7 demo_h (Some WG_WAIT_OBJECT_0)] (s', \<lambda>_. None) \<and> so_count (objs s' ! 0) = 2"
proof -
  let ?x = "obj0\<lparr>so_type := WGO_SEM, so_count := 3\<rparr>"
  obtain s' where r: "sync_run (demo_sync ?x, \<lambda>_. None) [Wait 7 demo_h (Some WG_WAIT_OBJECT_0)] (s', \<lambda>_. None)"
    using demo_wait [of ?x 7] by (auto simp: satisfied_locked_def obj0_def)
  have "so_max (objs (demo_sync ?x) ! 0) \<le> 0 \<longrightarrow>
      so_count (objs s' ! 0) = so_count (objs (demo_sync ?x) ! 0)
        + sum_list (map (sem_release demo_h) [Wait 7 demo_h (Some WG_WAIT_OBJECT_0)])
        - int (waits_ok demo_h [Wait 7 demo_h (Some WG_WAIT_OBJECT_0)])"
    using semaphore_bound [OF r demo_ok demo_find] by (simp add: demo_obj obj0_def)
  then have "so_count (objs s' ! 0) = 2" by (simp add: demo_obj obj0_def waits_ok_def)
  with r show ?thesis by blast
qed

text \<open>What \<open>wait_multiple\<close> does to the table.\<close>

lemma acquire_all_obj:
  "distinct is \<Longrightarrow> set is \<subseteq> {..< length (objs s)} \<Longrightarrow> j < length (objs s) \<Longrightarrow>
   objs (acquire_all s is t) ! j = (if j \<in> set is then acquire_locked (objs s ! j) t else objs s ! j)"
proof (induction "is" arbitrary: s)
  case (Cons i "is")
  then show ?case by (cases "j = i") auto
qed simp

lemma acquire_all_len [simp]: "length (objs (acquire_all s is t)) = length (objs s)"
  by (induction "is" arbitrary: s) auto

definition slots_of :: "SyncState \<Rightarrow> u32 list \<Rightarrow> nat list" where
  "slots_of s hs = map (the \<circ> find_locked s) hs"

lemma slots_of_ok:
  assumes "wf_sync s" and "\<forall>h \<in> set hs. find_locked s h \<noteq> None" and "distinct hs"
  shows "distinct (slots_of s hs)" "set (slots_of s hs) \<subseteq> {..< length (objs s)}"
proof -
  have "inj_on (the \<circ> find_locked s) (set hs)"
    using assms(2) by (auto simp: inj_on_def) (metis find_locked_inj option.sel)
  then show "distinct (slots_of s hs)" using assms(3) by (simp add: slots_of_def distinct_map)
  show "set (slots_of s hs) \<subseteq> {..< length (objs s)}"
    using assms(1,2) wf_find_lt by (auto simp: slots_of_def)
qed

text \<open>Waiting for all of several distinct live objects is all or nothing: one pass either finds
  every object satisfied, takes each of them once and reports success, or changes nothing and
  blocks or times out.\<close>
theorem wait_all_atomic:
  assumes "wf_sync s" and "\<forall>h \<in> set hs. find_locked s h \<noteq> None" and "distinct hs"
    and "hs \<noteq> []" and "length hs \<le> 64" and "wait_multiple_enter s hs True ms t = (r, s')"
  shows "if \<forall>i \<in> set (slots_of s hs). satisfied_locked (objs s ! i) t
    then r = Some WG_WAIT_OBJECT_0 \<and> (\<forall>j < length (objs s). objs s' ! j =
           (if j \<in> set (slots_of s hs) then acquire_locked (objs s ! j) t else objs s ! j))
    else s' = s \<and> r = (if ms = 0 then Some WG_WAIT_TIMEOUT else None)"
proof -
  have n: "None \<notin> set (map (find_locked s) hs)" using assms(2) by auto
  have m: "multi_pass s hs True ms t = (r, s')" using assms(4-6) by (simp add: wait_multiple_enter_def)
  have sl: "map the (map (find_locked s) hs) = slots_of s hs" by (simp add: slots_of_def)
  show ?thesis
  proof (cases "\<forall>i \<in> set (slots_of s hs). satisfied_locked (objs s ! i) t")
    case True
    then have "r = Some WG_WAIT_OBJECT_0" "s' = acquire_all s (slots_of s hs) t"
      using m n unfolding multi_pass_def Let_def sl by auto
    with True acquire_all_obj [OF slots_of_ok [OF assms(1-3)]] show ?thesis by simp
  next
    case False
    then show ?thesis using m n unfolding multi_pass_def Let_def sl by (auto split: if_splits)
  qed
qed

theorem wait_all_atomic_witness:
  "\<exists>r s'. wait_multiple_enter (demo_sync (obj0\<lparr>so_type := WGO_SEM, so_count := 1\<rparr>)) [demo_h] True 0 7 = (r, s')
     \<and> r = Some WG_WAIT_OBJECT_0 \<and> so_count (objs s' ! 0) = 0"
proof -
  let ?x = "obj0\<lparr>so_type := WGO_SEM, so_count := 1\<rparr>"
  have f: "find_locked (demo_sync ?x) demo_h = Some 0" by (rule demo_find) simp
  have wf: "wf_sync (demo_sync ?x)" using demo_ok by (simp add: cfg_ok_def)
  have lt: "0 < length (objs (demo_sync ?x))" using wf f by (rule wf_find_lt)
  obtain r s' where e: "wait_multiple_enter (demo_sync ?x) [demo_h] True 0 7 = (r, s')" by fastforce
  have sat: "satisfied_locked (objs (demo_sync ?x) ! 0) 7" by (simp add: demo_obj satisfied_locked_def)
  have "r = Some WG_WAIT_OBJECT_0 \<and> objs s' ! 0 = acquire_locked (objs (demo_sync ?x) ! 0) 7"
    using wait_all_atomic [OF wf _ _ _ _ e] f sat lt by (simp add: slots_of_def)
  then have "r = Some WG_WAIT_OBJECT_0 \<and> so_count (objs s' ! 0) = 0"
    by (simp add: demo_obj acquire_locked_def)
  with e show ?thesis by blast
qed

text \<open>C34: Handles stay distinct: creating any list of objects gives pairwise different handles that
  were not live, each naming its own new object, and leaves every other handle's object as it
  was; closing them again restores the table's map.\<close>
theorem sync_handles_distinct:
  assumes "wf_sync s" and "sync_table.alloc_all kinds s = Some (hs, s')"
  shows "distinct hs \<and> length hs = length kinds \<and> wf_sync s' \<and> (\<forall>h \<in> set hs. find_locked s h = None)
    \<and> (\<forall>k < length kinds. sync_lookup s' (hs ! k) = Some (new_obj (kinds ! k) (hs ! k)))
    \<and> (\<forall>h. h \<notin> set hs \<longrightarrow> sync_lookup s' h = sync_lookup s h)
    \<and> sync_lookup (fold (\<lambda>h s. snd (wg_sync_close s h)) hs s') = sync_lookup s"
  using sync_table.alloc_all_spec [OF assms] sync_table.alloc_kill_all [OF assms]
  by (auto simp: sync_lookup_def)

lemma init_slots: "objs wg_sync_init = obj0 # obj0 # replicate 8190 obj0"
proof -
  have "replicate (Suc (Suc n)) obj0 = obj0 # obj0 # replicate n obj0" for n by simp
  moreover have "Suc (Suc 8190) = WG_SYNC_MAX" by (simp add: WG_SYNC_MAX_def)
  ultimately show ?thesis unfolding wg_sync_init_def by (metis SyncState.select_convs(1))
qed

lemma wf_sync_init: "wf_sync wg_sync_init"
  by (simp add: wf_sync_def wg_sync_init_def obj0_def)

theorem sync_handles_distinct_witness:
  "\<exists>s'. sync_table.alloc_all [NewMutex True 7, NewSem 2 3] wg_sync_init = Some ([0x90000, 0x90001], s')
     \<and> sync_lookup s' 0x90001 = Some (new_obj (NewSem 2 3) 0x90001)"
proof -
  obtain s' where e: "sync_table.alloc_all [NewMutex True 7, NewSem 2 3] wg_sync_init = Some ([0x90000, 0x90001], s')"
    by (simp add: sync_table.alloc_all.simps sync_alloc_def wg_sync_create_mutex_def wg_sync_create_semaphore_def
        create_obj_def alloc_obj_locked_def init_slots put_obj_def obj0_def WG_SYNC_BASE_def)
  from sync_handles_distinct [OF wf_sync_init e]
  have "\<forall>k < length [NewMutex True 7, NewSem 2 3]. sync_lookup s' ([0x90000, 0x90001] ! k)
      = Some (new_obj ([NewMutex True 7, NewSem 2 3] ! k) ([0x90000, 0x90001] ! k))" by blast
  from this [rule_format, of 1]
  have "sync_lookup s' 0x90001 = Some (new_obj (NewSem 2 3) 0x90001)" by simp
  with e show ?thesis by blast
qed

text \<open>\<open>PulseEvent\<close> wakes nobody: it leaves exactly the table \<open>ResetEvent\<close> leaves, so no waiter
  that runs afterwards can see the event signalled.\<close>
theorem pulse_is_reset:
  "wg_sync_pulse_event s h = wg_sync_reset_event s h"
proof (cases "find_locked s h")
  case None
  then show ?thesis by (simp add: wg_sync_pulse_event_def wg_sync_reset_event_def)
next
  case (Some i)
  then show ?thesis
    by (cases "i < length (objs s)")
       (simp_all add: wg_sync_pulse_event_def wg_sync_reset_event_def put_obj_def Let_def list_update_beyond)
qed

end
