(* ===== verification/Threading.thy ===== *)
theory Threading
  imports Handle_Table
begin

section \<open>The cooperative thread scheduler (wg_threading)\<close>

text \<open>
  \<open>Sources/Win32/wg_threading.c\<close>: 32 thread slots, one virtual CPU, and the operations that
  save, choose and restore a thread.  The CPU is blink's machine behind the accessors of
  \<open>wg_blink_impl.c\<close> (the bridge adds null tests, and there is one live instance).  Reserving
  pages and copying to guest memory are functions of blink itself, which is not in the
  repository: they are the record \<open>GuestOps\<close>, an argument of the operations that use them.
\<close>

record 'm GuestOps =
  ReserveVirtual :: "u64 \<Rightarrow> u64 \<Rightarrow> 'm \<Rightarrow> 'm option"
  CopyToUser :: "u64 \<Rightarrow> u8 list \<Rightarrow> 'm \<Rightarrow> 'm"

record 'm BlinkVM =
  weg :: "u64 list"
  ip :: u64
  bflags :: u32
  fs :: u64
  gs :: u64
  guest :: 'm

definition WGBlinkVM_GetReg :: "'m BlinkVM \<Rightarrow> nat \<Rightarrow> u64" where
  "WGBlinkVM_GetReg vm idx = (if idx \<ge> 16 then 0 else weg vm ! idx)"

definition WGBlinkVM_SetReg :: "nat \<Rightarrow> u64 \<Rightarrow> 'm BlinkVM \<Rightarrow> 'm BlinkVM" where
  "WGBlinkVM_SetReg idx val vm = (if idx \<ge> 16 then vm else vm\<lparr>weg := (weg vm)[idx := val]\<rparr>)"

definition WGBlinkVM_GetFlags :: "'m BlinkVM \<Rightarrow> u64" where
  "WGBlinkVM_GetFlags vm = ucast (bflags vm)"

definition WGBlinkVM_SetFlags :: "u64 \<Rightarrow> 'm BlinkVM \<Rightarrow> 'm BlinkVM" where
  "WGBlinkVM_SetFlags f vm = vm\<lparr>bflags := ucast f\<rparr>"

definition WGBlinkVM_SetRIP :: "u64 \<Rightarrow> 'm BlinkVM \<Rightarrow> 'm BlinkVM" where
  "WGBlinkVM_SetRIP r vm = vm\<lparr>ip := r\<rparr>"

definition WGBlinkVM_SetFsBase :: "u64 \<Rightarrow> 'm BlinkVM \<Rightarrow> 'm BlinkVM" where
  "WGBlinkVM_SetFsBase b vm = vm\<lparr>fs := b\<rparr>"

definition WGBlinkVM_SetGsBase :: "u64 \<Rightarrow> 'm BlinkVM \<Rightarrow> 'm BlinkVM" where
  "WGBlinkVM_SetGsBase b vm = vm\<lparr>gs := b\<rparr>"

definition WGBlinkVM_WriteMem :: "'m GuestOps \<Rightarrow> u64 \<Rightarrow> u8 list \<Rightarrow> 'm BlinkVM \<Rightarrow> 'm BlinkVM" where
  "WGBlinkVM_WriteMem g addr bs vm = vm\<lparr>guest := CopyToUser g addr bs (guest vm)\<rparr>"

text \<open>The pages of the block are reserved, then the bytes are copied; a nonzero entry point becomes
  the instruction pointer.\<close>

definition WGBlinkVM_LoadCode :: "'m GuestOps \<Rightarrow> u64 \<Rightarrow> u8 list \<Rightarrow> u64 \<Rightarrow> 'm BlinkVM \<Rightarrow> 'm BlinkVM" where
  "WGBlinkVM_LoadCode g addr code entry_rip vm =
     (let page_addr = addr AND (- 4096);
          page_size = ((addr + of_nat (length code) + 4095) AND (- 4096)) - page_addr
      in case ReserveVirtual g page_addr page_size (guest vm) of
           None \<Rightarrow> vm
         | Some m \<Rightarrow>
             let vm = vm\<lparr>guest := CopyToUser g addr code m\<rparr>
             in if entry_rip \<noteq> 0 then vm\<lparr>ip := entry_rip\<rparr> else vm)"

subsection \<open>Thread slots\<close>

datatype WGThreadState =
    WG_THREAD_FREE | WG_THREAD_RUNNING | WG_THREAD_READY | WG_THREAD_WAITING
  | WG_THREAD_SUSPENDED | WG_THREAD_EXITED

record WGThreadRegs =
  t_gpr :: "u64 list"
  t_rip :: u64
  t_flags :: u64
  t_fs :: u64
  t_gs :: u64

record WGThread =
  t_state :: WGThreadState
  t_id :: u32
  t_handle :: u32
  stack_base :: u32
  stack_size :: u32
  teb :: u32
  start_addr :: u32
  t_param :: u32
  exit_code :: u32
  wait_handle :: u32
  wait_timeout :: u32
  wait_start_ms :: u64
  wait_cv_gen :: u32
  regs :: WGThreadRegs

record WGThreadScheduler =
  threads :: "WGThread list"
  current :: int
  t_count :: int
  next_id :: u32
  next_handle :: u32
  next_stack_addr :: u32

definition WG_MAX_THREADS :: nat where "WG_MAX_THREADS = 32"
definition WG_THREAD_STACK :: nat where "WG_THREAD_STACK = 0x100000"

definition regs0 :: WGThreadRegs where
  "regs0 = \<lparr>t_gpr = replicate 16 0, t_rip = 0, t_flags = 0, t_fs = 0, t_gs = 0\<rparr>"

definition thread0 :: WGThread where
  "thread0 = \<lparr>t_state = WG_THREAD_FREE, t_id = 0, t_handle = 0, stack_base = 0, stack_size = 0, teb = 0,
     start_addr = 0, t_param = 0, exit_code = 0, wait_handle = 0, wait_timeout = 0, wait_start_ms = 0,
     wait_cv_gen = 0, regs = regs0\<rparr>"

definition wg_sched_create :: WGThreadScheduler where
  "wg_sched_create = \<lparr>threads = replicate WG_MAX_THREADS thread0, current = -1, t_count = 0,
     next_id = 0x1000, next_handle = 0x7100, next_stack_addr = 0x60000000\<rparr>"

text \<open>Mapping a new program (\<open>wg_engine.c\<close>) clears the table and puts the main thread in slot 0.\<close>

definition sched_start :: "u32 \<Rightarrow> WGThreadScheduler \<Rightarrow> WGThreadScheduler" where
  "sched_start main_teb s =
     s\<lparr>threads := (replicate WG_MAX_THREADS thread0)[0 := thread0\<lparr>t_state := WG_THREAD_RUNNING, t_id := 1,
           t_handle := 0x7000, exit_code := 259, regs := regs0\<lparr>t_fs := ucast main_teb\<rparr>, teb := main_teb\<rparr>],
       next_id := 0x1000, next_handle := 0x7100, next_stack_addr := 0x60000000,
       current := 0, t_count := 1\<rparr>"

subsection \<open>Saving and restoring\<close>

definition save_regs :: "'m BlinkVM \<Rightarrow> WGThreadRegs" where
  "save_regs vm = \<lparr>t_gpr = map (WGBlinkVM_GetReg vm) [0..<16], t_rip = ip vm,
     t_flags = WGBlinkVM_GetFlags vm, t_fs = fs vm, t_gs = gs vm\<rparr>"

definition restore_regs :: "WGThreadRegs \<Rightarrow> 'm BlinkVM \<Rightarrow> 'm BlinkVM" where
  "restore_regs r vm =
     (let vm = fold (\<lambda>i. WGBlinkVM_SetReg i (t_gpr r ! i)) [0..<16] vm;
          vm = WGBlinkVM_SetRIP (t_rip r) vm;
          vm = WGBlinkVM_SetFlags (t_flags r) vm;
          vm = WGBlinkVM_SetFsBase (t_fs r) vm
      in WGBlinkVM_SetGsBase (t_gs r) vm)"

definition put_thread :: "nat \<Rightarrow> WGThread \<Rightarrow> WGThreadScheduler \<Rightarrow> WGThreadScheduler" where
  "put_thread i t s = s\<lparr>threads := (threads s)[i := t]\<rparr>"

abbreviation cur_thread :: "WGThreadScheduler \<Rightarrow> WGThread" where
  "cur_thread s \<equiv> threads s ! nat (current s)"

definition wg_sched_save_current ::
    "'m BlinkVM \<Rightarrow> WGThreadState \<Rightarrow> WGThreadScheduler \<Rightarrow> WGThreadScheduler" where
  "wg_sched_save_current vm new_state s =
     (if current s < 0 then s
      else put_thread (nat (current s)) ((cur_thread s)\<lparr>regs := save_regs vm, t_state := new_state\<rparr>) s)"

subsection \<open>Creating a thread\<close>

text \<open>The record of the new thread in slot \<open>slot\<close>; it inherits the FS base saved for the current one.\<close>

definition new_sp :: "WGThreadScheduler \<Rightarrow> u32" where
  "new_sp s = ((next_stack_addr s + of_nat WG_THREAD_STACK - 0x100) AND NOT 0xF) - 8"

definition new_thread :: "nat \<Rightarrow> u32 \<Rightarrow> u32 \<Rightarrow> u32 \<Rightarrow> WGThreadScheduler \<Rightarrow> WGThread" where
  "new_thread slot start param flags s =
     (let sp = new_sp s;
          main_fs = (if current s \<ge> 0 \<and> nat (current s) \<noteq> slot then t_fs (regs (cur_thread s)) else 0)
      in thread0\<lparr>t_id := next_id s, t_handle := next_handle s, start_addr := start, t_param := param,
           exit_code := 259, stack_base := next_stack_addr s, stack_size := of_nat WG_THREAD_STACK,
           regs := regs0\<lparr>t_gpr := [0, ucast param, 0, 0, ucast sp, ucast sp, 0, 0, 0, 0, 0, 0, 0, 0, 0, 0],
                    t_rip := ucast start, t_fs := main_fs\<rparr>,
           teb := ucast main_fs,
           t_state := if flags AND 4 \<noteq> 0 then WG_THREAD_SUSPENDED else WG_THREAD_READY\<rparr>)"

text \<open>\<open>calloc_ok\<close> says whether the zeroed stack buffer could be allocated.  The result is the handle
  (0 when the table is full) and the thread id written through \<open>out_tid\<close>.\<close>

definition wg_sched_create_thread ::
    "'m GuestOps \<Rightarrow> bool \<Rightarrow> u32 \<Rightarrow> u32 \<Rightarrow> u32 \<Rightarrow> WGThreadScheduler \<times> 'm BlinkVM
      \<Rightarrow> u32 \<times> u32 option \<times> WGThreadScheduler \<times> 'm BlinkVM" where
  "wg_sched_create_thread g calloc_ok start param flags sv =
     (case sv of (s, vm) \<Rightarrow>
      case first_idx (\<lambda>t. t_state t = WG_THREAD_FREE) (threads s) of
        None \<Rightarrow> (0, None, s, vm)
      | Some slot \<Rightarrow>
          let t = new_thread slot start param flags s; sp = new_sp s;
              vm = (if calloc_ok
                    then WGBlinkVM_LoadCode g (ucast (stack_base t)) (replicate WG_THREAD_STACK 0) 0 vm else vm);
              vm = WGBlinkVM_WriteMem g (ucast sp) (to_le 4 (0 :: u32)) vm;
              vm = WGBlinkVM_WriteMem g (ucast (sp + 4)) (to_le 4 param) vm;
              s = s\<lparr>next_id := next_id s + 1, next_handle := next_handle s + 1,
                    next_stack_addr := next_stack_addr s + of_nat WG_THREAD_STACK + 0x1000,
                    t_count := t_count s + 1\<rparr>
          in (t_handle t, Some (t_id t), put_thread slot t s, vm))"

subsection \<open>Switching\<close>

text \<open>\<open>first_idx\<close> over the 32 slots in the order the loop visits them.\<close>

definition scan_order :: "int \<Rightarrow> nat list" where
  "scan_order cur = map (\<lambda>i. (nat (if cur \<ge> 0 then cur + 1 else 0) + i) mod WG_MAX_THREADS) [0..<WG_MAX_THREADS]"

definition wg_sched_switch_next ::
    "WGThreadScheduler \<times> 'm BlinkVM \<Rightarrow> bool \<times> WGThreadScheduler \<times> 'm BlinkVM" where
  "wg_sched_switch_next sv =
     (case sv of (s, vm) \<Rightarrow>
      case first_idx (\<lambda>i. t_state (threads s ! i) = WG_THREAD_READY) (scan_order (current s)) of
        None \<Rightarrow> (False, s, vm)
      | Some k \<Rightarrow>
          let idx = scan_order (current s) ! k; t = threads s ! idx
          in (True, put_thread idx (t\<lparr>t_state := WG_THREAD_RUNNING\<rparr>) (s\<lparr>current := int idx\<rparr>), restore_regs (regs t) vm))"

definition wg_sched_other_ready :: "WGThreadScheduler \<Rightarrow> bool" where
  "wg_sched_other_ready s =
     list_ex (\<lambda>i. int i \<noteq> current s \<and> t_state (threads s ! i) = WG_THREAD_READY) [0..<WG_MAX_THREADS]"

definition wg_sched_yield ::
    "WGThreadState \<Rightarrow> WGThreadScheduler \<times> 'm BlinkVM \<Rightarrow> bool \<times> WGThreadScheduler \<times> 'm BlinkVM" where
  "wg_sched_yield block_reason sv =
     (case sv of (s, vm) \<Rightarrow>
      case wg_sched_switch_next (wg_sched_save_current vm block_reason s, vm) of
        (True, s, vm) \<Rightarrow> (True, s, vm)
      | (False, s, vm) \<Rightarrow>
          if current s \<ge> 0
          then (False, put_thread (nat (current s)) ((cur_thread s)\<lparr>t_state := WG_THREAD_RUNNING\<rparr>) s,
                restore_regs (regs (cur_thread s)) vm)
          else (False, s, vm))"

definition wake_thread :: "u32 \<Rightarrow> WGThread \<Rightarrow> WGThread" where
  "wake_thread h t =
     (if t_state t = WG_THREAD_WAITING \<and> wait_handle t = h
      then t\<lparr>t_state := WG_THREAD_READY, wait_handle := 0\<rparr> else t)"

definition wg_sched_wake :: "u32 \<Rightarrow> WGThreadScheduler \<Rightarrow> WGThreadScheduler" where
  "wg_sched_wake h s = s\<lparr>threads := map (wake_thread h) (threads s)\<rparr>"

definition wg_sched_exit_thread ::
    "u32 \<Rightarrow> WGThreadScheduler \<times> 'm BlinkVM \<Rightarrow> WGThreadScheduler \<times> 'm BlinkVM" where
  "wg_sched_exit_thread code sv =
     (case sv of (s, vm) \<Rightarrow>
      if current s < 0 then (s, vm)
      else let s = put_thread (nat (current s)) ((cur_thread s)\<lparr>t_state := WG_THREAD_EXITED, exit_code := code\<rparr>) s
           in snd (wg_sched_switch_next (s\<lparr>current := -1\<rparr>, vm)))"

subsection \<open>Lookup\<close>

definition wg_sched_find :: "u32 \<Rightarrow> WGThreadScheduler \<Rightarrow> nat option" where
  "wg_sched_find h s = first_idx (\<lambda>t. t_handle t = h \<and> t_state t \<noteq> WG_THREAD_FREE) (threads s)"

definition wg_sched_current :: "WGThreadScheduler \<Rightarrow> nat option" where
  "wg_sched_current s = (if current s < 0 then None else Some (nat (current s)))"

definition wg_sched_current_tid :: "WGThreadScheduler \<Rightarrow> u32" where
  "wg_sched_current_tid s = (if current s < 0 then 0 else t_id (cur_thread s))"

text \<open>\<open>ResumeThread\<close> of the engine, and the wait fields it sets before a blocking yield.\<close>

definition resume_thread :: "u32 \<Rightarrow> WGThreadScheduler \<Rightarrow> WGThreadScheduler" where
  "resume_thread h s =
     (case wg_sched_find h s of
        Some i \<Rightarrow> if t_state (threads s ! i) = WG_THREAD_SUSPENDED
                  then put_thread i ((threads s ! i)\<lparr>t_state := WG_THREAD_READY\<rparr>) s else s
      | None \<Rightarrow> s)"

definition set_wait :: "u32 \<Rightarrow> u32 \<Rightarrow> WGThreadScheduler \<Rightarrow> WGThreadScheduler" where
  "set_wait h timeout s =
     (case wg_sched_current s of
        Some i \<Rightarrow> put_thread i ((threads s ! i)\<lparr>wait_handle := h, wait_timeout := timeout\<rparr>) s
      | None \<Rightarrow> s)"

subsection \<open>Executions\<close>

text \<open>\<open>Guest\<close> is guest code running: it may leave any machine state behind.\<close>

datatype 'm sched_event =
    Create bool u32 u32 u32 | Yield u32 u32 WGThreadState | Wake u32 | Exit u32 | Resume u32
  | Guest "'m BlinkVM"

fun do_event :: "'m GuestOps \<Rightarrow> 'm sched_event \<Rightarrow> WGThreadScheduler \<times> 'm BlinkVM \<Rightarrow> WGThreadScheduler \<times> 'm BlinkVM" where
  "do_event g (Create ok start param flags) sv = snd (snd (wg_sched_create_thread g ok start param flags sv))"
| "do_event g (Yield h ms r) (s, vm) = snd (wg_sched_yield r (set_wait h ms s, vm))"
| "do_event g (Wake h) (s, vm) = (wg_sched_wake h s, vm)"
| "do_event g (Exit code) sv = wg_sched_exit_thread code sv"
| "do_event g (Resume h) (s, vm) = (resume_thread h s, vm)"
| "do_event g (Guest vm') (s, vm) = (s, vm')"

fun event_ok :: "'m sched_event \<Rightarrow> bool" where
  "event_ok (Yield h ms r) \<longleftrightarrow> r = WG_THREAD_READY \<or> r = WG_THREAD_WAITING \<or> r = WG_THREAD_SUSPENDED"
| "event_ok (Guest vm) \<longleftrightarrow> length (weg vm) = 16"
| "event_ok _ \<longleftrightarrow> True"

subsection \<open>The invariant\<close>

definition slot_addr :: "nat \<Rightarrow> nat" where
  "slot_addr i = 0x60000000 + (i - 1) * 0x101000"

definition thread_ok :: "nat \<Rightarrow> WGThread \<Rightarrow> bool" where
  "thread_ok i t \<longleftrightarrow>
     length (t_gpr (regs t)) = 16
     \<and> (if i = 0 then t_handle t = 0x7000 \<and> t_id t = 1
        else t_handle t = 0x7100 + of_nat (i - 1) \<and> t_id t = 0x1000 + of_nat (i - 1)
          \<and> stack_base t = of_nat (slot_addr i) \<and> stack_size t = of_nat WG_THREAD_STACK)"

definition wf_sched :: "WGThreadScheduler \<Rightarrow> bool" where
  "wf_sched s \<longleftrightarrow>
     length (threads s) = 32 \<and> 1 \<le> t_count s \<and> t_count s \<le> 32
     \<and> -1 \<le> current s \<and> current s < t_count s
     \<and> (\<forall>i < 32. t_state (threads s ! i) = WG_THREAD_FREE \<longleftrightarrow> t_count s \<le> int i)
     \<and> (\<forall>i < 32. t_state (threads s ! i) = WG_THREAD_RUNNING \<longleftrightarrow> int i = current s)
     \<and> (\<forall>i < 32. int i < t_count s \<longrightarrow> thread_ok i (threads s ! i))
     \<and> next_handle s = 0x7100 + of_nat (nat (t_count s) - 1) \<and> next_id s = 0x1000 + of_nat (nat (t_count s) - 1)
     \<and> next_stack_addr s = of_nat (slot_addr (nat (t_count s)))"

lemma put_thread_sel [simp]:
  "length (threads (put_thread i t s)) = length (threads s)"
  "current (put_thread i t s) = current s" "t_count (put_thread i t s) = t_count s"
  "next_handle (put_thread i t s) = next_handle s" "next_id (put_thread i t s) = next_id s"
  "next_stack_addr (put_thread i t s) = next_stack_addr s"
  "i < length (threads s) \<Longrightarrow> threads (put_thread i t s) ! i = t"
  "j \<noteq> i \<Longrightarrow> threads (put_thread i t s) ! j = threads s ! j"
  by (simp_all add: put_thread_def)

lemma put_thread_nth:
  "i < length (threads s) \<Longrightarrow> threads (put_thread i t s) ! j = (if j = i then t else threads s ! j)"
  by simp

text \<open>Updating one live thread without touching its identity keeps the table well-formed as long
  as its running status is kept.\<close>

definition same_id :: "WGThread \<Rightarrow> WGThread \<Rightarrow> bool" where
  "same_id t t' \<longleftrightarrow> t_handle t' = t_handle t \<and> t_id t' = t_id t \<and> stack_base t' = stack_base t
     \<and> stack_size t' = stack_size t \<and> length (t_gpr (regs t')) = length (t_gpr (regs t))"

lemma same_id_ok: "same_id t t' \<Longrightarrow> thread_ok i t \<Longrightarrow> thread_ok i t'"
  by (simp add: same_id_def thread_ok_def)

lemma wf_put:
  assumes wf: "wf_sched s" and i: "int i < t_count s" and sm: "same_id (threads s ! i) t"
    and nf: "t_state t \<noteq> WG_THREAD_FREE"
    and r: "t_state t = WG_THREAD_RUNNING \<longleftrightarrow> int i = current s"
  shows "wf_sched (put_thread i t s)"
proof -
  have l: "i < length (threads s)" "i < 32" using wf i by (auto simp: wf_sched_def)
  show ?thesis
    using wf i nf r same_id_ok [OF sm] l
    by (simp add: wf_sched_def put_thread_nth)
qed

lemma wf_wake: "wf_sched s \<Longrightarrow> wf_sched (wg_sched_wake h s)"
  unfolding wf_sched_def wg_sched_wake_def
  by (auto simp: wake_thread_def thread_ok_def)

lemma wf_cur: "wf_sched s \<Longrightarrow> 0 \<le> current s \<Longrightarrow>
    nat (current s) < 32 \<and> int (nat (current s)) < t_count s \<and> t_state (cur_thread s) = WG_THREAD_RUNNING"
  by (auto simp: wf_sched_def)

lemma find_live: "wf_sched s \<Longrightarrow> wg_sched_find h s = Some i \<Longrightarrow> i < 32 \<and> int i < t_count s"
  unfolding wg_sched_find_def
  using first_idx_lt [of _ "threads s" i] first_idx_holds [of _ "threads s" i]
  by (fastforce simp: wf_sched_def)

lemma wf_resume: "wf_sched s \<Longrightarrow> wf_sched (resume_thread h s)"
proof (cases "wg_sched_find h s")
  case (Some i)
  assume wf: "wf_sched s"
  note l = find_live [OF wf Some]
  show ?thesis
  proof (cases "t_state (threads s ! i) = WG_THREAD_SUSPENDED")
    case True
    then have "int i \<noteq> current s" using wf l by (auto simp: wf_sched_def)
    with wf_put [OF wf, of i "(threads s ! i)\<lparr>t_state := WG_THREAD_READY\<rparr>"] l True Some show ?thesis
      by (simp add: resume_thread_def same_id_def)
  qed (simp add: resume_thread_def Some wf)
qed (simp add: resume_thread_def)

lemma wf_set_wait: "wf_sched s \<Longrightarrow> wf_sched (set_wait h ms s)"
  using wf_put [of s "nat (current s)" "(cur_thread s)\<lparr>wait_handle := h, wait_timeout := ms\<rparr>"] wf_cur [of s]
  by (simp add: set_wait_def wg_sched_current_def same_id_def)

lemma scan_order_nth: "k < 32 \<Longrightarrow> scan_order c ! k = (nat (if c \<ge> 0 then c + 1 else 0) + k) mod 32"
  and scan_order_length [simp]: "length (scan_order c) = 32"
  by (simp_all add: scan_order_def WG_MAX_THREADS_def)

text \<open>Slot \<open>i\<close> is visited at position \<open>(i - start) mod 32\<close>.\<close>

definition scan_pos :: "int \<Rightarrow> nat \<Rightarrow> nat" where
  "scan_pos c i = nat ((int i - (if c \<ge> 0 then c + 1 else 0)) mod 32)"

lemma scan_pos_lt [simp]: "scan_pos c i < 32"
  by (simp add: scan_pos_def nat_less_iff)

lemma scan_order_pos:
  assumes "i < 32"
  shows "scan_order c ! scan_pos c i = i"
proof -
  define st where "st = (if c \<ge> 0 then c + 1 else 0)"
  have st: "0 \<le> st" by (simp add: st_def)
  have "int ((nat st + scan_pos c i) mod 32) = (st + (int i - st) mod 32) mod 32"
    using st by (simp add: scan_pos_def st_def [symmetric] zmod_int)
  also have "\<dots> = int i" using assms by (simp add: mod_add_right_eq)
  finally have "(nat st + scan_pos c i) mod 32 = i" by linarith
  then show ?thesis by (simp add: scan_order_nth st_def [symmetric])
qed

lemma scan_pos_order: "k < 32 \<Longrightarrow> scan_pos c (scan_order c ! k) = k"
proof -
  assume k: "k < 32"
  define st where "st = (if c \<ge> 0 then c + 1 else 0)"
  have st: "0 \<le> st" by (simp add: st_def)
  have "int (scan_order c ! k) = (st + int k) mod 32"
    using k st by (simp add: scan_order_nth st_def [symmetric] zmod_int)
  then have "int (scan_pos c (scan_order c ! k)) = ((st + int k) mod 32 - st) mod 32"
    by (simp add: scan_pos_def st_def [symmetric])
  also have "\<dots> = int k" using k by (simp add: mod_diff_left_eq)
  finally show ?thesis by simp
qed

text \<open>What \<open>switch_next\<close> does: with a ready thread it takes the one visited first.\<close>

definition ready :: "WGThreadScheduler \<Rightarrow> nat \<Rightarrow> bool" where
  "ready s i \<longleftrightarrow> i < 32 \<and> t_state (threads s ! i) = WG_THREAD_READY"

lemma switch_None:
  assumes "wg_sched_switch_next (s, vm) = (False, s', vm')"
  shows "s' = s" "vm' = vm" "\<not> ready s i"
proof -
  from assms have n: "first_idx (\<lambda>i. t_state (threads s ! i) = WG_THREAD_READY) (scan_order (current s)) = None"
    and e: "s' = s" "vm' = vm"
    by (auto simp: wg_sched_switch_next_def Let_def split: option.splits)
  show "s' = s" "vm' = vm" by (rule e)+
  show "\<not> ready s i"
  proof
    assume r: "ready s i"
    then have "i = scan_order (current s) ! scan_pos (current s) i" by (simp add: ready_def scan_order_pos)
    then have "i \<in> set (scan_order (current s))" by (metis nth_mem scan_order_length scan_pos_lt)
    with n r show False by (auto simp: first_idx_None ready_def)
  qed
qed

lemma switch_Some:
  assumes "wg_sched_switch_next (s, vm) = (True, s', vm')"
  obtains idx where "ready s idx" "\<And>j. ready s j \<Longrightarrow> scan_pos (current s) idx \<le> scan_pos (current s) j"
    "s' = put_thread idx ((threads s ! idx)\<lparr>t_state := WG_THREAD_RUNNING\<rparr>) (s\<lparr>current := int idx\<rparr>)"
    "vm' = restore_regs (regs (threads s ! idx)) vm"
proof -
  from assms obtain k where f: "first_idx (\<lambda>i. t_state (threads s ! i) = WG_THREAD_READY) (scan_order (current s)) = Some k"
    and e: "s' = put_thread (scan_order (current s) ! k) ((threads s ! (scan_order (current s) ! k))\<lparr>t_state := WG_THREAD_RUNNING\<rparr>)
         (s\<lparr>current := int (scan_order (current s) ! k)\<rparr>)"
      "vm' = restore_regs (regs (threads s ! (scan_order (current s) ! k))) vm"
    by (auto simp: wg_sched_switch_next_def Let_def split: option.splits)
  note h = first_idx_holds [OF f] first_idx_lt [OF f]
  have k: "k < 32" using h by simp
  have "ready s (scan_order (current s) ! k)" using h k by (simp add: ready_def scan_order_nth)
  moreover have "scan_pos (current s) (scan_order (current s) ! k) \<le> scan_pos (current s) j" if "ready s j" for j
  proof (rule ccontr)
    assume "\<not> ?thesis"
    with k have "scan_pos (current s) j < k" by (simp add: scan_pos_order)
    from first_idx_before [OF f this] that show False by (simp add: ready_def scan_order_pos)
  qed
  ultimately show ?thesis using that e by blast
qed

lemma wf_idle_put:
  assumes "wf_sched (s\<lparr>current := -1\<rparr>)" and "i < 32" and "int i < t_count s" and "same_id (threads s ! i) t"
    and "t_state t = WG_THREAD_RUNNING"
  shows "wf_sched (put_thread i t (s\<lparr>current := int i\<rparr>))"
  using assms same_id_ok [OF assms(4)] unfolding wf_sched_def
  by (auto simp: put_thread_nth)

lemma switch_wf:
  assumes wf: "wf_sched (s\<lparr>current := -1\<rparr>)" and sw: "wg_sched_switch_next (s, vm) = (True, s', vm')"
  shows "wf_sched s' \<and> 0 \<le> current s'"
  using sw
proof (cases rule: switch_Some)
  case (1 idx)
  have "int idx < t_count s" using wf 1(1) by (fastforce simp: wf_sched_def ready_def)
  with wf_idle_put [OF wf _ this, of "(threads s ! idx)\<lparr>t_state := WG_THREAD_RUNNING\<rparr>"] 1 show ?thesis
    by (simp add: ready_def same_id_def)
qed

lemma wf_idle_set:
  assumes wf: "wf_sched s" and c: "0 \<le> current s" and sm: "same_id (cur_thread s) t"
    and nf: "t_state t \<noteq> WG_THREAD_FREE" "t_state t \<noteq> WG_THREAD_RUNNING"
  shows "wf_sched ((put_thread (nat (current s)) t s)\<lparr>current := -1\<rparr>)"
  using assms wf_cur [OF wf c] same_id_ok [OF sm] unfolding wf_sched_def
  by (auto simp: put_thread_nth)

lemma save_length [simp]: "length (t_gpr (save_regs vm)) = 16"
  by (simp add: save_regs_def)

lemma wf_save:
  assumes wf: "wf_sched s" and c: "0 \<le> current s" and r: "r \<noteq> WG_THREAD_FREE" "r \<noteq> WG_THREAD_RUNNING"
  shows "wf_sched ((wg_sched_save_current vm r s)\<lparr>current := -1\<rparr>)"
proof -
  have "length (t_gpr (regs (cur_thread s))) = 16"
    using wf wf_cur [OF wf c] by (auto simp: wf_sched_def thread_ok_def)
  with wf_idle_set [OF wf c, of "(cur_thread s)\<lparr>regs := save_regs vm, t_state := r\<rparr>"] c r show ?thesis
    by (simp add: wg_sched_save_current_def same_id_def)
qed

lemma save_sel [simp]:
  "current (wg_sched_save_current vm r s) = current s" "t_count (wg_sched_save_current vm r s) = t_count s"
  by (simp_all add: wg_sched_save_current_def)

lemma wf_yield:
  assumes wf: "wf_sched s" and r: "r \<noteq> WG_THREAD_FREE" "r \<noteq> WG_THREAD_RUNNING"
    and y: "wg_sched_yield r (s, vm) = (b, s', vm')"
  shows "wf_sched s'"
proof (cases "0 \<le> current s")
  case False
  then have sv: "wg_sched_save_current vm r s = s" and c: "s\<lparr>current := -1\<rparr> = s"
    using wf by (auto simp: wg_sched_save_current_def wf_sched_def)
  obtain b2 s2 vm2 where sw: "wg_sched_switch_next (s, vm) = (b2, s2, vm2)" by (metis prod_cases3)
  show ?thesis
  proof (cases b2)
    case True
    with sw y sv c wf switch_wf [of s vm s2 vm2] show ?thesis by (simp add: wg_sched_yield_def)
  next
    case f: False
    with sw y sv wf False switch_None [of s vm s2 vm2] show ?thesis by (simp add: wg_sched_yield_def)
  qed
next
  case True
  let ?s1 = "wg_sched_save_current vm r s"
  note w1 = wf_save [OF wf True r, of vm]
  obtain b2 s2 vm2 where sw: "wg_sched_switch_next (?s1, vm) = (b2, s2, vm2)" by (metis prod_cases3)
  show ?thesis
  proof (cases b2)
    case True
    with sw y switch_wf [OF w1, of vm s2 vm2] show ?thesis by (simp add: wg_sched_yield_def)
  next
    case False
    have e: "s2 = ?s1" using switch_None [of ?s1 vm s2 vm2] sw False by simp
    let ?t = "(cur_thread ?s1)\<lparr>t_state := WG_THREAD_RUNNING\<rparr>"
    have "s' = put_thread (nat (current s)) ?t ?s1"
      using y sw False True e by (simp add: wg_sched_yield_def)
    moreover have "wf_sched (put_thread (nat (current s)) ?t (?s1\<lparr>current := int (nat (current s))\<rparr>))"
      using wf_idle_put [OF w1, of "nat (current s)" ?t] wf_cur [OF wf True] True by (simp add: same_id_def)
    moreover have "?s1\<lparr>current := int (nat (current s))\<rparr> = ?s1"
      using True by (simp add: wg_sched_save_current_def put_thread_def)
    ultimately show ?thesis by simp
  qed
qed

lemma wf_exit:
  assumes wf: "wf_sched s" and e: "wg_sched_exit_thread code (s, vm) = (s', vm')"
  shows "wf_sched s'"
proof (cases "0 \<le> current s")
  case True
  let ?t = "(cur_thread s)\<lparr>t_state := WG_THREAD_EXITED, exit_code := code\<rparr>"
  let ?s1 = "(put_thread (nat (current s)) ?t s)\<lparr>current := -1\<rparr>"
  have w: "wf_sched (?s1\<lparr>current := -1\<rparr>)"
    using wf_idle_set [OF wf True, of ?t] by (simp add: same_id_def)
  obtain b2 s2 vm2 where sw: "wg_sched_switch_next (?s1, vm) = (b2, s2, vm2)" by (metis prod_cases3)
  then have "s' = s2" using e True by (simp add: wg_sched_exit_thread_def Let_def)
  with switch_wf [OF w, of vm s2 vm2] switch_None [of ?s1 vm s2 vm2] sw w show ?thesis by (cases b2) auto
qed (use wf e in \<open>auto simp: wg_sched_exit_thread_def\<close>)

lemma slot_addr_word:
  assumes "1 \<le> i"
  shows "i \<le> 32 \<Longrightarrow> unat (of_nat (slot_addr i) :: u32) = slot_addr i"
    "(of_nat (slot_addr (Suc i)) :: u32) = of_nat (slot_addr i) + of_nat WG_THREAD_STACK + 0x1000"
proof -
  show "i \<le> 32 \<Longrightarrow> unat (of_nat (slot_addr i) :: u32) = slot_addr i"
    by (simp only: slot_addr_def unat_of_nat) simp
  have "slot_addr (Suc i) = slot_addr i + WG_THREAD_STACK + 0x1000"
    using assms by (cases i) (simp_all add: slot_addr_def WG_THREAD_STACK_def)
  then show "(of_nat (slot_addr (Suc i)) :: u32) = of_nat (slot_addr i) + of_nat WG_THREAD_STACK + 0x1000"
    by simp
qed

text \<open>What creation does: it fails exactly when all 32 slots have been used; otherwise the new
  thread is the next slot.\<close>

lemma free_slot:
  assumes "wf_sched s"
  shows "first_idx (\<lambda>t. t_state t = WG_THREAD_FREE) (threads s)
      = (if t_count s = 32 then None else Some (nat (t_count s)))"
proof (cases "t_count s = 32")
  case True
  with assms show ?thesis by (auto simp: first_idx_None wf_sched_def in_set_conv_nth)
next
  case False
  with assms have "first_idx (\<lambda>t. t_state t = WG_THREAD_FREE) (threads s) = Some (nat (t_count s))"
    unfolding first_idx_Some by (auto simp: wf_sched_def)
  with False show ?thesis by simp
qed

lemma new_thread_sel [simp]:
  "t_id (new_thread i a p f s) = next_id s" "t_handle (new_thread i a p f s) = next_handle s"
  "stack_base (new_thread i a p f s) = next_stack_addr s" "stack_size (new_thread i a p f s) = of_nat WG_THREAD_STACK"
  "start_addr (new_thread i a p f s) = a" "t_param (new_thread i a p f s) = p" "exit_code (new_thread i a p f s) = 259"
  "t_state (new_thread i a p f s) = (if f AND 4 \<noteq> 0 then WG_THREAD_SUSPENDED else WG_THREAD_READY)"
  "length (t_gpr (regs (new_thread i a p f s))) = 16" "t_rip (regs (new_thread i a p f s)) = ucast a"
  by (simp_all add: new_thread_def Let_def)

definition bump :: "WGThreadScheduler \<Rightarrow> WGThreadScheduler" where
  "bump s = s\<lparr>next_id := next_id s + 1, next_handle := next_handle s + 1,
      next_stack_addr := next_stack_addr s + of_nat WG_THREAD_STACK + 0x1000, t_count := t_count s + 1\<rparr>"

lemma thread_create_spec:
  assumes wf: "wf_sched s" and c: "wg_sched_create_thread g ok start param flags (s, vm) = (h, tid, s', vm')"
  shows "t_count s = 32 \<Longrightarrow> h = 0 \<and> s' = s"
    and "t_count s \<noteq> 32 \<Longrightarrow> h = next_handle s
         \<and> s' = put_thread (nat (t_count s)) (new_thread (nat (t_count s)) start param flags s) (bump s)"
  using c free_slot [OF wf] by (auto simp: wg_sched_create_thread_def Let_def bump_def simp del: to_le_numeral)

lemma wf_create:
  assumes wf: "wf_sched s" and n: "t_count s \<noteq> 32"
  shows "wf_sched (put_thread (nat (t_count s)) (new_thread (nat (t_count s)) start param flags s) (bump s))"
proof -
  define n where "n = nat (t_count s)"
  have n: "1 \<le> n" "n < 32" "t_count s = int n" using wf n by (auto simp: wf_sched_def n_def)
  have nx: "next_handle s = 0x7100 + of_nat (n - 1)" "next_id s = 0x1000 + of_nat (n - 1)"
    "next_stack_addr s = of_nat (slot_addr n)" using wf by (auto simp: wf_sched_def n_def)
  let ?t = "new_thread n start param flags s"
  have t: "thread_ok n ?t" using n nx by (simp add: thread_ok_def)
  have len: "length (threads (bump s)) = 32" using wf by (simp add: bump_def wf_sched_def)
  have old: "threads (bump s) = threads s" "current (bump s) = current s" by (simp_all add: bump_def)
  have s1: "of_nat (n - 1) + (1 :: u32) = of_nat n" using n(1) by (simp add: of_nat_diff)
  have "wf_sched (put_thread n ?t (bump s))"
    unfolding wf_sched_def
  proof (intro conjI allI impI)
    fix i :: nat assume i: "i < 32"
    show "(t_state (threads (put_thread n ?t (bump s)) ! i) = WG_THREAD_FREE)
        = (t_count (put_thread n ?t (bump s)) \<le> int i)"
      using i wf n len old by (cases "i = n") (auto simp: wf_sched_def bump_def)
    show "(t_state (threads (put_thread n ?t (bump s)) ! i) = WG_THREAD_RUNNING)
        = (int i = current (put_thread n ?t (bump s)))"
      using i wf n len old by (cases "i = n") (auto simp: wf_sched_def)
    show "thread_ok i (threads (put_thread n ?t (bump s)) ! i)"
      if "int i < t_count (put_thread n ?t (bump s))"
      using i that wf n len old t by (cases "i = n") (auto simp: wf_sched_def bump_def)
  next
    show "next_handle (put_thread n ?t (bump s)) = 0x7100 + of_nat (nat (t_count (put_thread n ?t (bump s))) - 1)"
      "next_id (put_thread n ?t (bump s)) = 0x1000 + of_nat (nat (t_count (put_thread n ?t (bump s))) - 1)"
      using nx n s1 by (simp_all add: bump_def nat_add_distrib ac_simps)
    show "next_stack_addr (put_thread n ?t (bump s)) = of_nat (slot_addr (nat (t_count (put_thread n ?t (bump s)))))"
      using nx n slot_addr_word(2) [OF n(1)] by (simp add: bump_def nat_add_distrib)
  qed (use wf n len old in \<open>auto simp: wf_sched_def bump_def\<close>)
  then show ?thesis by (simp add: n_def)
qed

lemma wf_start: "wf_sched (sched_start main_teb s)"
proof -
  have st: "threads (sched_start main_teb s) ! i =
      (if i = 0 then thread0\<lparr>t_state := WG_THREAD_RUNNING, t_id := 1,
           t_handle := 0x7000, exit_code := 259, regs := regs0\<lparr>t_fs := ucast main_teb\<rparr>, teb := main_teb\<rparr> else thread0)"
    if "i < 32" for i
    using that by (auto simp: sched_start_def WG_MAX_THREADS_def nth_Cons' numeral_eq_Suc)
  have l: "length (threads (sched_start main_teb s)) = 32" by (simp add: sched_start_def WG_MAX_THREADS_def)
  show ?thesis
    unfolding wf_sched_def
  proof (intro conjI allI impI)
    fix i :: nat assume i: "i < 32"
    show "(t_state (threads (sched_start main_teb s) ! i) = WG_THREAD_FREE) = (t_count (sched_start main_teb s) \<le> int i)"
      "(t_state (threads (sched_start main_teb s) ! i) = WG_THREAD_RUNNING) = (int i = current (sched_start main_teb s))"
      using st [OF i] by (auto simp: thread0_def sched_start_def)
    show "thread_ok i (threads (sched_start main_teb s) ! i)" if "int i < t_count (sched_start main_teb s)"
      using st [OF i] that by (auto simp: thread_ok_def regs0_def sched_start_def)
  qed (auto simp: l sched_start_def slot_addr_def WG_MAX_THREADS_def)
qed

lemma wf_event:
  assumes wf: "wf_sched s" and ok: "event_ok e" and d: "do_event g e (s, vm) = (s', vm')"
  shows "wf_sched s'"
proof (cases e)
  case (Create ok start param flags)
  obtain h tid s2 vm2 where c: "wg_sched_create_thread g ok start param flags (s, vm) = (h, tid, s2, vm2)"
    by (metis prod_cases4)
  with Create d have "s' = s2" by simp
  with thread_create_spec [OF wf c] wf_create [OF wf] wf show ?thesis by (cases "t_count s = 32") auto
next
  case (Yield h ms r)
  obtain b s2 vm2 where "wg_sched_yield r (set_wait h ms s, vm) = (b, s2, vm2)" by (metis prod_cases3)
  with wf_yield [OF wf_set_wait [OF wf], of r h ms vm b s2 vm2] Yield ok d show ?thesis by auto
next
  case (Exit code)
  with wf_exit [OF wf] d show ?thesis by simp
qed (use wf d wf_wake [OF wf] wf_resume [OF wf] in auto)

definition sched_run :: "'m GuestOps \<Rightarrow> 'm sched_event list \<Rightarrow> WGThreadScheduler \<times> 'm BlinkVM \<Rightarrow> WGThreadScheduler \<times> 'm BlinkVM" where
  "sched_run g = fold (do_event g)"

lemma wf_run: "wf_sched s \<Longrightarrow> \<forall>e \<in> set es. event_ok e \<Longrightarrow> sched_run g es (s, vm) = (s', vm') \<Longrightarrow> wf_sched s'"
proof (induction es arbitrary: s vm)
  case (Cons e es)
  obtain s1 vm1 where d: "do_event g e (s, vm) = (s1, vm1)" by fastforce
  with Cons.prems Cons.IH [of s1 vm1] wf_event [OF Cons.prems(1) _ d] show ?case by (simp add: sched_run_def)
qed (simp add: sched_run_def)

subsection \<open>The table of threads\<close>

definition sched_lookup :: "WGThreadScheduler \<Rightarrow> u32 \<Rightarrow> WGThread option" where
  "sched_lookup s h = map_option ((!) (threads s)) (wg_sched_find h s)"

lemma base_plus: "k < 32 \<Longrightarrow> unat (0x7100 + of_nat k :: u32) = 0x7100 + k"
  by (simp add: unat_word_ariths unat_of_nat)

lemma handle_of_slot:
  assumes "wf_sched s" and "i < 32" and "int i < t_count s"
  shows "unat (t_handle (threads s ! i)) = (if i = 0 then 0x7000 else 0x7100 + (i - 1))"
proof -
  have t: "thread_ok i (threads s ! i)" using assms by (simp add: wf_sched_def)
  show ?thesis
  proof (cases "i = 0")
    case True
    with t show ?thesis by (simp add: thread_ok_def)
  next
    case False
    then have "t_handle (threads s ! i) = 0x7100 + of_nat (i - 1)" using t by (simp add: thread_ok_def)
    with False assms(2) base_plus [of "i - 1"] show ?thesis by (simp only: if_False)
  qed
qed

lemma handle_inj:
  assumes "wf_sched s" and "i < 32" "int i < t_count s" and "j < 32" "int j < t_count s"
    and e: "t_handle (threads s ! i) = t_handle (threads s ! j)"
  shows "i = j"
proof -
  have "(if i = 0 then 0x7000 else 0x7100 + (i - 1)) = (if j = 0 then 0x7000 else 0x7100 + (j - 1) :: nat)"
    using handle_of_slot [OF assms(1-3)] handle_of_slot [OF assms(1,4,5)] e by metis
  then show ?thesis by (simp split: if_splits)
qed

lemma find_iff:
  assumes wf: "wf_sched s"
  shows "wg_sched_find h s = Some i \<longleftrightarrow> i < 32 \<and> int i < t_count s \<and> t_handle (threads s ! i) = h"
proof
  assume f: "wg_sched_find h s = Some i"
  from find_live [OF wf f] first_idx_holds [OF f [unfolded wg_sched_find_def]]
  show "i < 32 \<and> int i < t_count s \<and> t_handle (threads s ! i) = h" by simp
next
  assume r: "i < 32 \<and> int i < t_count s \<and> t_handle (threads s ! i) = h"
  show "wg_sched_find h s = Some i"
    unfolding wg_sched_find_def first_idx_Some
  proof (intro conjI allI impI)
    fix j assume j: "j < i"
    show "\<not> (t_handle (threads s ! j) = h \<and> t_state (threads s ! j) \<noteq> WG_THREAD_FREE)"
      using handle_inj [OF wf, of j i] r j by auto
  qed (use r wf in \<open>auto simp: wf_sched_def\<close>)
qed

type_synonym thread_args = "u32 \<times> u32 \<times> u32"

definition sched_alloc :: "thread_args \<Rightarrow> WGThreadScheduler \<Rightarrow> (u32 \<times> WGThreadScheduler) option" where
  "sched_alloc a s =
     (case a of (start, param, flags) \<Rightarrow>
      case wg_sched_create_thread \<lparr>ReserveVirtual = \<lambda>_ _ _. None, CopyToUser = \<lambda>_ _ m. m\<rparr> True start param flags
             (s, \<lparr>weg = [], ip = 0, bflags = 0, fs = 0, gs = 0, guest = ()\<rparr>) of
        (h, _, s', _) \<Rightarrow> if h = 0 then None else Some (h, s'))"

text \<open>The scheduler's part of creation does not depend on the guest memory.\<close>

lemma create_sched_indep:
  assumes "wf_sched s" and "wg_sched_create_thread g ok a p f (s, vm) = (h, tid, s', vm')" and "h \<noteq> 0"
  shows "sched_alloc (a, p, f) s = Some (h, s')"
proof -
  obtain h2 tid2 s2 and vm2 :: "unit BlinkVM" where
    c: "wg_sched_create_thread \<lparr>ReserveVirtual = \<lambda>_ _ _. None, CopyToUser = \<lambda>_ _ m. m\<rparr> True a p f
             (s, \<lparr>weg = [], ip = 0, bflags = 0, fs = 0, gs = 0, guest = ()\<rparr>) = (h2, tid2, s2, vm2)"
    by (metis prod_cases4)
  from thread_create_spec [OF assms(1) c] thread_create_spec [OF assms(1,2)] assms(3)
  have "h2 = h \<and> s2 = s'" by (cases "t_count s = 32") auto
  with c assms(3) show ?thesis by (simp add: sched_alloc_def)
qed

definition thread_made :: "thread_args \<Rightarrow> u32 \<Rightarrow> WGThread \<Rightarrow> bool" where
  "thread_made a h t \<longleftrightarrow> (case a of (start, param, flags) \<Rightarrow>
     t_handle t = h \<and> start_addr t = start \<and> t_param t = param \<and> t_rip (regs t) = ucast start \<and> exit_code t = 259
     \<and> t_state t = (if flags AND 4 \<noteq> 0 then WG_THREAD_SUSPENDED else WG_THREAD_READY))"

lemma alloc_new:
  assumes wf: "wf_sched s" and a: "sched_alloc (st, p, f) s = Some (h, s')"
  shows "t_count s \<noteq> 32" "h = next_handle s"
    "s' = put_thread (nat (t_count s)) (new_thread (nat (t_count s)) st p f s) (bump s)"
proof -
  obtain tid and vm :: "unit BlinkVM" where
    c: "wg_sched_create_thread \<lparr>ReserveVirtual = \<lambda>_ _ _. None, CopyToUser = \<lambda>_ _ m. m\<rparr> True st p f
             (s, \<lparr>weg = [], ip = 0, bflags = 0, fs = 0, gs = 0, guest = ()\<rparr>) = (h, tid, s', vm)" and h: "h \<noteq> 0"
    using a by (auto simp: sched_alloc_def split: prod.splits if_splits)
  show n: "t_count s \<noteq> 32" using thread_create_spec(1) [OF wf c] h by auto
  show "h = next_handle s"
    "s' = put_thread (nat (t_count s)) (new_thread (nat (t_count s)) st p f s) (bump s)"
    using thread_create_spec(2) [OF wf c n] by auto
qed

lemma alloc_find:
  assumes wf: "wf_sched s" and a: "sched_alloc (st, p, f) s = Some (h, s')"
  shows "wf_sched s'" "wg_sched_find h s = None"
    "sched_lookup s' = (sched_lookup s)(h \<mapsto> new_thread (nat (t_count s)) st p f s)"
proof -
  note al = alloc_new [OF wf a]
  define n where "n = nat (t_count s)"
  have n: "n < 32" "t_count s = int n" "1 \<le> n" using wf al(1) by (auto simp: n_def wf_sched_def)
  let ?t = "new_thread n st p f s"
  have s': "s' = put_thread n ?t (bump s)" using al(3) by (simp add: n_def)
  show wf': "wf_sched s'" using wf_create [OF wf al(1)] al(3) by simp
  have len: "length (threads (bump s)) = 32" using wf by (simp add: bump_def wf_sched_def)
  have old: "threads s' ! i = threads s ! i" if "i \<noteq> n" for i using that by (simp add: s' bump_def)
  have new: "threads s' ! n = ?t" using n len by (simp add: s')
  have c': "t_count s' = int n + 1" using n by (simp add: s' bump_def)
  have iff: "wg_sched_find k s' = Some i \<longleftrightarrow> (if i = n then k = h else wg_sched_find k s = Some i)" for k i
    unfolding find_iff [OF wf'] find_iff [OF wf] using n old new c' al(2) by (cases "i = n") auto
  have live: "wg_sched_find k s \<noteq> Some n" for k unfolding find_iff [OF wf] using n by simp
  show nf: "wg_sched_find h s = None"
  proof (rule ccontr)
    assume "wg_sched_find h s \<noteq> None"
    then obtain i where i: "wg_sched_find h s = Some i" by auto
    with live have "i \<noteq> n" by auto
    with i iff [of h i] iff [of h n] show False by simp
  qed
  have "sched_lookup s' k = ((sched_lookup s)(h \<mapsto> ?t)) k" for k
  proof (cases "k = h")
    case True
    with iff [of h n] new show ?thesis by (simp add: sched_lookup_def)
  next
    case False
    have "wg_sched_find k s' = wg_sched_find k s"
      using iff [of k] False live [of k] by (metis option.exhaust)
    with False live [of k] show ?thesis by (cases "wg_sched_find k s") (auto simp: sched_lookup_def old)
  qed
  then show "sched_lookup s' = (sched_lookup s)(h \<mapsto> new_thread (nat (t_count s)) st p f s)"
    by (auto simp: n_def)
qed

interpretation thread_table: handle_alloc sched_lookup sched_alloc thread_made wf_sched
proof unfold_locales
  fix s s' :: WGThreadScheduler and a :: thread_args and h
  assume wf: "wf_sched s" and al: "sched_alloc a s = Some (h, s')"
  obtain st p f where a: "a = (st, p, f)" by (cases a)
  note af = alloc_find [OF wf al [unfolded a]] alloc_new [OF wf al [unfolded a]]
  show "sched_lookup s h = None" using af(2) by (simp add: sched_lookup_def)
  show "wf_sched s'" by (rule af(1))
  have "thread_made a h (new_thread (nat (t_count s)) st p f s)" using af(5) by (simp add: thread_made_def a)
  with af(3) show "\<exists>t. thread_made a h t \<and> sched_lookup s' = (sched_lookup s)(h \<mapsto> t)" by blast
qed

subsection \<open>Saved contexts\<close>

lemma set_regs_fold:
  "n \<le> 16 \<Longrightarrow> length (weg vm) = 16 \<Longrightarrow> length xs = 16 \<Longrightarrow>
   fold (\<lambda>i. WGBlinkVM_SetReg i (xs ! i)) [0..<n] vm = vm\<lparr>weg := take n xs @ drop n (weg vm)\<rparr>"
proof (induction n)
  case (Suc n)
  then have "(take n xs @ drop n (weg vm))[n := xs ! n] = take (Suc n) xs @ drop (Suc n) (weg vm)"
    by (simp add: list_eq_iff_nth_eq nth_append nth_list_update)
  with Suc show ?case by (simp add: WGBlinkVM_SetReg_def)
qed simp

lemma restore_sel:
  assumes "length (weg vm) = 16" and "length (t_gpr r) = 16"
  shows "weg (restore_regs r vm) = t_gpr r" "ip (restore_regs r vm) = t_rip r"
    "bflags (restore_regs r vm) = ucast (t_flags r)" "fs (restore_regs r vm) = t_fs r"
    "gs (restore_regs r vm) = t_gs r" "guest (restore_regs r vm) = guest vm"
  unfolding restore_regs_def set_regs_fold [OF order.refl assms]
  using assms by (simp_all add: Let_def WGBlinkVM_SetRIP_def WGBlinkVM_SetFlags_def
      WGBlinkVM_SetFsBase_def WGBlinkVM_SetGsBase_def)

text \<open>The registers a thread sees.\<close>

definition same_regs :: "'m BlinkVM \<Rightarrow> 'm BlinkVM \<Rightarrow> bool" where
  "same_regs vm vm' \<longleftrightarrow> weg vm' = weg vm \<and> ip vm' = ip vm \<and> bflags vm' = bflags vm \<and> fs vm' = fs vm \<and> gs vm' = gs vm"

lemma restore_save:
  assumes "length (weg vm) = 16" and "length (weg vm') = 16"
  shows "same_regs vm (restore_regs (save_regs vm) vm')"
proof -
  have "map (WGBlinkVM_GetReg vm) [0..<16] = weg vm"
    using assms(1) by (intro nth_equalityI) (simp_all add: WGBlinkVM_GetReg_def)
  moreover have "ucast (ucast (bflags vm) :: u64) = bflags vm" by (rule ucast_ucast_up_down) simp
  ultimately show ?thesis
    using restore_sel [OF assms(2), of "save_regs vm"]
    by (simp add: same_regs_def) (simp add: save_regs_def WGBlinkVM_GetFlags_def)
qed

lemma restore_len: "length (weg vm) = 16 \<Longrightarrow> length (weg (restore_regs r vm)) = 16"
proof -
  assume l: "length (weg vm) = 16"
  have "length (weg (fold (\<lambda>i. WGBlinkVM_SetReg i (t_gpr r ! i)) js vm)) = 16" for js :: "nat list"
    using l by (induction js arbitrary: vm) (simp_all add: WGBlinkVM_SetReg_def)
  then show ?thesis
    by (simp add: restore_regs_def Let_def WGBlinkVM_SetRIP_def WGBlinkVM_SetFlags_def
        WGBlinkVM_SetFsBase_def WGBlinkVM_SetGsBase_def)
qed

text \<open>One step while another thread is current: the saved context of slot \<open>k\<close> is not touched, and it
  is what the machine holds if the step switches to \<open>k\<close>.\<close>

definition ctx_step :: "nat \<Rightarrow> WGThreadScheduler \<Rightarrow> WGThreadScheduler \<Rightarrow> 'm BlinkVM \<Rightarrow> bool" where
  "ctx_step k s s' vm' \<longleftrightarrow> regs (threads s' ! k) = regs (threads s ! k) \<and> length (weg vm') = 16
     \<and> (current s' = int k \<longrightarrow> (\<exists>vm. length (weg vm) = 16 \<and> vm' = restore_regs (regs (threads s ! k)) vm))"

lemma ctx_switch:
  assumes len: "length (threads s) = 32" and v: "length (weg vm) = 16" and c: "current s \<noteq> int k"
    and sw: "wg_sched_switch_next (s, vm) = (b, s', vm')"
  shows "ctx_step k s s' vm'"
proof (cases b)
  case True
  with sw have "wg_sched_switch_next (s, vm) = (True, s', vm')" by simp
  then show ?thesis
  proof (cases rule: switch_Some)
    case (1 idx)
    then have i: "idx < length (threads (s\<lparr>current := int idx\<rparr>))" using len by (simp add: ready_def)
    show ?thesis using 1 v restore_len [OF v] put_thread_nth [OF i]
      by (cases "idx = k") (auto simp: ctx_step_def)
  qed
next
  case False
  with switch_None [of s vm s' vm'] sw v c show ?thesis by (simp add: ctx_step_def)
qed

lemma put_other: "current s \<noteq> int k \<Longrightarrow> 0 \<le> current s \<Longrightarrow> threads (put_thread (nat (current s)) t s) ! k = threads s ! k"
  by (rule put_thread_sel(8)) auto

lemma set_wait_sel [simp]: "current (set_wait h ms s) = current s" "length (threads (set_wait h ms s)) = length (threads s)"
  by (simp_all add: set_wait_def split: option.splits)

lemma set_wait_other: "current s \<noteq> int k \<Longrightarrow> threads (set_wait h ms s) ! k = threads s ! k"
  using put_other by (simp add: set_wait_def wg_sched_current_def)

lemma ctx_yield:
  assumes len: "length (threads s) = 32" and v: "length (weg vm) = 16" and c: "current s \<noteq> int k"
    and y: "wg_sched_yield r (s, vm) = (b, s', vm')"
  shows "ctx_step k s s' vm'"
proof -
  let ?s1 = "wg_sched_save_current vm r s"
  have l1: "length (threads ?s1) = 32" using len by (simp add: wg_sched_save_current_def)
  have k1: "threads ?s1 ! k = threads s ! k" using put_other [OF c] by (simp add: wg_sched_save_current_def)
  obtain b2 s2 vm2 where sw: "wg_sched_switch_next (?s1, vm) = (b2, s2, vm2)" by (metis prod_cases3)
  have cs: "ctx_step k ?s1 s2 vm2" using ctx_switch [OF l1 v _ sw] c by simp
  show ?thesis
  proof (cases b2)
    case True
    with sw y cs k1 show ?thesis by (simp add: wg_sched_yield_def ctx_step_def)
  next
    case False
    with sw have e: "s2 = ?s1" "vm2 = vm" using switch_None [of ?s1 vm s2 vm2] by simp_all
    show ?thesis
    proof (cases "0 \<le> current s")
      case True
      then have s': "s' = put_thread (nat (current s)) ((cur_thread ?s1)\<lparr>t_state := WG_THREAD_RUNNING\<rparr>) ?s1"
        "vm' = restore_regs (regs (cur_thread ?s1)) vm"
        using y sw False e by (simp_all add: wg_sched_yield_def)
      have "threads s' ! k = threads s ! k" using put_other [of ?s1 k] c True k1 by (simp add: s')
      with s' restore_len [OF v] c show ?thesis by (simp add: ctx_step_def)
    next
      case f: False
      with y sw False e have "s' = ?s1 \<and> vm' = vm" by (auto simp: wg_sched_yield_def)
      with v c k1 show ?thesis by (auto simp: ctx_step_def)
    qed
  qed
qed

lemma ctx_exit:
  assumes len: "length (threads s) = 32" and v: "length (weg vm) = 16" and c: "current s \<noteq> int k"
    and e: "wg_sched_exit_thread code (s, vm) = (s', vm')"
  shows "ctx_step k s s' vm'"
proof (cases "0 \<le> current s")
  case True
  let ?s1 = "(put_thread (nat (current s)) ((cur_thread s)\<lparr>t_state := WG_THREAD_EXITED, exit_code := code\<rparr>) s)\<lparr>current := -1\<rparr>"
  obtain b2 s2 vm2 where sw: "wg_sched_switch_next (?s1, vm) = (b2, s2, vm2)" by (metis prod_cases3)
  then have "s' = s2" "vm' = vm2" using e True by (simp_all add: wg_sched_exit_thread_def Let_def)
  with ctx_switch [of ?s1 vm k b2 s2 vm2] sw len v put_other [OF c True] show ?thesis
    by (simp add: ctx_step_def)
qed (use e v c in \<open>auto simp: wg_sched_exit_thread_def ctx_step_def\<close>)

lemma load_weg [simp]: "weg (WGBlinkVM_LoadCode g a c 0 vm) = weg vm" "weg (WGBlinkVM_WriteMem g a c vm) = weg vm"
  by (simp_all add: WGBlinkVM_LoadCode_def WGBlinkVM_WriteMem_def Let_def split: option.splits)

lemma count_event:
  assumes wf: "wf_sched s" and d: "do_event g e (s, vm) = (s', vm')"
  shows "t_count s \<le> t_count s'"
proof (cases e)
  case (Create okc start param flags)
  obtain h tid s2 vm2 where cr: "wg_sched_create_thread g okc start param flags (s, vm) = (h, tid, s2, vm2)"
    by (metis prod_cases4)
  with thread_create_spec [OF wf cr] d Create show ?thesis by (cases "t_count s = 32") (auto simp: bump_def)
next
  case (Yield h ms r)
  with d show ?thesis
    by (auto simp: wg_sched_yield_def wg_sched_switch_next_def Let_def set_wait_def
        split: option.splits prod.splits bool.splits if_splits)
next
  case (Exit code)
  with d show ?thesis
    by (auto simp: wg_sched_exit_thread_def wg_sched_switch_next_def Let_def split: option.splits if_splits)
next
  case (Wake h)
  with d show ?thesis by (auto simp: wg_sched_wake_def)
next
  case (Resume h)
  with d show ?thesis by (auto simp: resume_thread_def split: option.splits)
next
  case (Guest vm1)
  with d show ?thesis by simp
qed

lemma ctx_event:
  assumes wf: "wf_sched s" and k: "k < 32" "int k < t_count s" and v: "length (weg vm) = 16" and ok: "event_ok e"
    and c: "current s \<noteq> int k" and d: "do_event g e (s, vm) = (s', vm')"
  shows "ctx_step k s s' vm'"
proof (cases e)
  case (Create okc start param flags)
  obtain h tid s2 vm2 where cr: "wg_sched_create_thread g okc start param flags (s, vm) = (h, tid, s2, vm2)"
    by (metis prod_cases4)
  have e: "s' = s2" "vm' = vm2" using cr d Create by simp_all
  have vv: "length (weg vm2) = 16" using cr v
    by (auto simp: wg_sched_create_thread_def Let_def split: option.splits if_splits simp del: to_le_numeral)
  have "threads s2 ! k = threads s ! k \<and> current s2 = current s"
  proof (cases "t_count s = 32")
    case False
    from thread_create_spec(2) [OF wf cr False] k show ?thesis by (simp add: bump_def)
  qed (use thread_create_spec(1) [OF wf cr] in simp)
  with e vv c show ?thesis by (simp add: ctx_step_def)
next
  case (Yield h ms r)
  obtain b s2 vm2 where y: "wg_sched_yield r (set_wait h ms s, vm) = (b, s2, vm2)" by (metis prod_cases3)
  have e: "s' = s2" "vm' = vm2" using y d Yield by simp_all
  have len: "length (threads (set_wait h ms s)) = 32" using wf by (simp add: wf_sched_def)
  have cs: "ctx_step k (set_wait h ms s) s2 vm2" using ctx_yield [OF len v _ y] c by simp
  with e set_wait_other [OF c] show ?thesis by (simp add: ctx_step_def)
next
  case (Exit code)
  have len: "length (threads s) = 32" using wf by (simp add: wf_sched_def)
  with ctx_exit [OF len v c] d Exit show ?thesis by simp
next
  case (Wake h)
  with d v c k wf show ?thesis by (auto simp: ctx_step_def wg_sched_wake_def wake_thread_def wf_sched_def)
next
  case (Resume h)
  have "regs (threads (resume_thread h s) ! k) = regs (threads s ! k) \<and> current (resume_thread h s) = current s"
  proof (cases "wg_sched_find h s")
    case (Some i)
    have "i < length (threads s)" using find_live [OF wf Some] wf by (simp add: wf_sched_def)
    with Some show ?thesis by (cases "i = k") (auto simp: resume_thread_def)
  qed (simp add: resume_thread_def)
  with d v c Resume show ?thesis by (simp add: ctx_step_def)
next
  case (Guest vm1)
  with d ok c show ?thesis by (simp add: ctx_step_def)
qed

lemma ctx_run:
  assumes "wf_sched s" and "k < 32" "int k < t_count s" and "length (weg vm) = 16"
    and "\<forall>e \<in> set es. event_ok e"
    and "\<forall>n < length es. current (fst (sched_run g (take n es) (s, vm))) \<noteq> int k"
    and "sched_run g es (s, vm) = (s', vm')" and "es \<noteq> []"
  shows "ctx_step k s s' vm'"
  using assms
proof (induction es arbitrary: s vm)
  case (Cons e es)
  obtain s1 vm1 where d: "do_event g e (s, vm) = (s1, vm1)" by fastforce
  have c: "current s \<noteq> int k" using Cons.prems(6) by (auto simp: sched_run_def dest: spec [of _ 0])
  have ok: "event_ok e" using Cons.prems(5) by simp
  have st: "ctx_step k s s1 vm1" "t_count s \<le> t_count s1"
    using ctx_event [OF Cons.prems(1-4) ok c d] count_event [OF Cons.prems(1) d] by simp_all
  have r: "sched_run g es (s1, vm1) = (s', vm')" using Cons.prems(7) d by (simp add: sched_run_def)
  show ?case
  proof (cases "es = []")
    case True
    with r st show ?thesis by (simp add: sched_run_def)
  next
    case False
    have n: "\<forall>n < length es. current (fst (sched_run g (take n es) (s1, vm1))) \<noteq> int k"
    proof (intro allI impI)
      fix n assume "n < length es"
      with Cons.prems(6) [rule_format, of "Suc n"] d
      show "current (fst (sched_run g (take n es) (s1, vm1))) \<noteq> int k" by (simp add: sched_run_def)
    qed
    have "ctx_step k s1 s' vm'"
      using Cons.IH [OF wf_event [OF Cons.prems(1) ok d] Cons.prems(2) _ _ _ n r False] st Cons.prems(3,5)
      by (simp add: ctx_step_def)
    with st show ?thesis by (simp add: ctx_step_def)
  qed
qed simp

subsection \<open>Round robin\<close>

lemma scan_pos_step:
  assumes "scan_pos c i < scan_pos c k"
  shows "scan_pos (int i) k < scan_pos c k"
proof -
  define st where "st = (if c \<ge> 0 then c + 1 else 0)"
  let ?p = "(int i - st) mod 32" and ?q = "(int k - st) mod 32"
  have pq: "?p < ?q" using assms by (simp add: scan_pos_def st_def [symmetric] nat_less_iff)
  have "x - y - 1 = (x mod 32 - y mod 32 - 1) + (x div 32 - y div 32) * 32" for x y :: int
    by (simp add: algebra_simps flip: minus_mult_div_eq_mod)
  then have "(x - y - 1) mod 32 = (x mod 32 - y mod 32 - 1) mod 32" for x y :: int
    by (metis mod_mult_self1)
  from this [of "int k - st" "int i - st"]
  have "(int k - (int i + 1)) mod 32 = (?q - ?p - 1) mod 32" by (simp add: algebra_simps)
  also have "\<dots> = ?q - ?p - 1"
    using pq pos_mod_sign [of 32 "int i - st"] pos_mod_bound [of 32 "int k - st"]
    by (intro mod_pos_pos_trivial) linarith+
  also have "\<dots> < ?q" using pos_mod_sign [of 32 "int i - st"] by linarith
  finally show ?thesis by (simp add: scan_pos_def st_def [symmetric] nat_less_iff)
qed

lemma yield_progress:
  assumes wf: "wf_sched s" and k: "ready s k" and r: "r \<noteq> WG_THREAD_FREE" "r \<noteq> WG_THREAD_RUNNING"
    and y: "wg_sched_yield r (set_wait h ms s, vm) = (b, s', vm')"
  shows "current s' = int k \<or> ready s' k \<and> scan_pos (current s') k < scan_pos (current s) k"
proof -
  have len: "length (threads s) = 32" using wf by (simp add: wf_sched_def)
  have "t_state (threads s ! k) = WG_THREAD_RUNNING \<longleftrightarrow> int k = current s"
    using wf k unfolding wf_sched_def ready_def by blast
  then have kc: "current s \<noteq> int k" using k unfolding ready_def by (metis WGThreadState.distinct(11))
  let ?s1 = "wg_sched_save_current vm r (set_wait h ms s)"
  have kw: "current (set_wait h ms s) \<noteq> int k" using kc by simp
  have "threads ?s1 ! k = threads (set_wait h ms s) ! k"
    using put_other [OF kw] by (simp add: wg_sched_save_current_def)
  then have k1: "threads ?s1 ! k = threads s ! k" using set_wait_other [OF kc] by simp
  have rk: "ready ?s1 k" using k k1 by (simp add: ready_def)
  obtain b2 s2 vm2 where sw: "wg_sched_switch_next (?s1, vm) = (b2, s2, vm2)" by (metis prod_cases3)
  have b2: "b2"
  proof (rule ccontr)
    assume "\<not> b2"
    with sw have "wg_sched_switch_next (?s1, vm) = (False, s2, vm2)" by simp
    from switch_None(3) [OF this] rk show False by blast
  qed
  then have e: "s' = s2" using y sw by (simp add: wg_sched_yield_def)
  from sw b2 have "wg_sched_switch_next (?s1, vm) = (True, s2, vm2)" by simp
  then show ?thesis
  proof (cases rule: switch_Some)
    case (1 idx)
    show ?thesis
    proof (cases "idx = k")
      case True
      with 1 e show ?thesis by simp
    next
      case False
      have i: "idx < 32" "k < 32" using 1(1) rk by (auto simp: ready_def)
      have c: "current ?s1 = current s" by simp
      have "scan_pos (current s) idx \<noteq> scan_pos (current s) k"
        using False i scan_order_pos by metis
      then have "scan_pos (current s) idx < scan_pos (current s) k" using 1(2) [OF rk] c by simp
      from scan_pos_step [OF this] 1 e rk False show ?thesis by (simp add: ready_def)
    qed
  qed
qed

definition is_yield :: "'m sched_event \<Rightarrow> bool" where
  "is_yield e \<longleftrightarrow> (\<exists>h ms r. e = Yield h ms r)"

lemma yields_reach:
  "wf_sched s \<Longrightarrow> ready s k \<Longrightarrow> \<forall>e \<in> set es. event_ok e \<and> (is_yield e \<or> (\<exists>vm. e = Guest vm)) \<Longrightarrow>
   scan_pos (current s) k < length (filter is_yield es) \<Longrightarrow>
   \<exists>n \<le> length es. current (fst (sched_run g (take n es) (s, vm))) = int k"
proof (induction es arbitrary: s vm)
  case (Cons e es)
  obtain s1 vm1 where d: "do_event g e (s, vm) = (s1, vm1)" by fastforce
  have ok: "event_ok e" using Cons.prems(3) by simp
  have wf1: "wf_sched s1" using wf_event [OF Cons.prems(1) ok d] .
  have step: "\<exists>n \<le> length (e # es). current (fst (sched_run g (take n (e # es)) (s, vm))) = int k"
    if "\<exists>n \<le> length es. current (fst (sched_run g (take n es) (s1, vm1))) = int k"
    using that d by (auto simp: sched_run_def intro: exI [of _ "Suc _"])
  consider (g) vm' where "e = Guest vm'" | (y) h ms r where "e = Yield h ms r"
    using Cons.prems(3) by (auto simp: is_yield_def)
  then show ?case
  proof cases
    case g
    with d Cons.prems Cons.IH [of s1 vm1] have "\<exists>n \<le> length es. current (fst (sched_run g (take n es) (s1, vm1))) = int k"
      by (auto simp: is_yield_def)
    then show ?thesis by (rule step)
  next
    case y
    obtain b where yy: "wg_sched_yield r (set_wait h ms s, vm) = (b, s1, vm1)"
      using d y by (cases "wg_sched_yield r (set_wait h ms s, vm)") auto
    have r: "r \<noteq> WG_THREAD_FREE" "r \<noteq> WG_THREAD_RUNNING" using ok y by auto
    from yield_progress [OF Cons.prems(1,2) r yy] show ?thesis
    proof
      assume "current s1 = int k"
      then have "current (fst (sched_run g (take 0 es) (s1, vm1))) = int k" by (simp add: sched_run_def)
      then show ?thesis by (intro step exI [of _ 0]) simp
    next
      assume p: "ready s1 k \<and> scan_pos (current s1) k < scan_pos (current s) k"
      have "is_yield e" using y by (auto simp: is_yield_def)
      then have "scan_pos (current s1) k < length (filter is_yield es)" using Cons.prems(4) p by simp
      with Cons.IH [OF wf1] p Cons.prems(3) show ?thesis by (intro step) auto
    qed
  qed
qed simp

subsection \<open>Properties\<close>

text \<open>C12: From the start of a program and through any sequence of creations, yields, wakeups, exits,
  resumptions and guest execution, at most one thread is running and it is the current one,
  live threads have distinct handles, and their stacks lie one above the other without
  overlap.\<close>
theorem sched_safety:
  assumes "\<forall>e \<in> set es. event_ok e" and "sched_run g es (sched_start main_teb s0, vm) = (s, vm')"
  shows "(\<forall>i < 32. t_state (threads s ! i) = WG_THREAD_RUNNING \<longleftrightarrow> int i = current s)
    \<and> (\<forall>i < 32. \<forall>j < 32. t_state (threads s ! i) \<noteq> WG_THREAD_FREE \<longrightarrow> t_state (threads s ! j) \<noteq> WG_THREAD_FREE
         \<longrightarrow> t_handle (threads s ! i) = t_handle (threads s ! j) \<longrightarrow> i = j)
    \<and> (\<forall>i j. 0 < i \<longrightarrow> i < j \<longrightarrow> j < 32 \<longrightarrow> t_state (threads s ! i) \<noteq> WG_THREAD_FREE
         \<longrightarrow> t_state (threads s ! j) \<noteq> WG_THREAD_FREE
         \<longrightarrow> unat (stack_base (threads s ! i)) + unat (stack_size (threads s ! i)) \<le> unat (stack_base (threads s ! j)))"
proof -
  have wf: "wf_sched s" using wf_run [OF wf_start assms] .
  have live: "i < 32 \<Longrightarrow> t_state (threads s ! i) \<noteq> WG_THREAD_FREE \<longleftrightarrow> int i < t_count s" for i
    using wf by (auto simp: wf_sched_def)
  have st: "unat (stack_base (threads s ! i)) = slot_addr i \<and> unat (stack_size (threads s ! i)) = WG_THREAD_STACK"
    if "0 < i" "i < 32" "int i < t_count s" for i
    using that wf slot_addr_word(1) [of i] by (auto simp: wf_sched_def thread_ok_def WG_THREAD_STACK_def)
  have gap: "slot_addr i + WG_THREAD_STACK \<le> slot_addr j" if "0 < i" "i < j" for i j
    using that by (simp add: slot_addr_def WG_THREAD_STACK_def)
  show ?thesis
    using wf live st gap handle_inj [OF wf] by (auto simp: wf_sched_def)
qed

text \<open>A machine and a guest memory for the examples.\<close>

definition demo_ops :: "unit GuestOps" where
  "demo_ops = \<lparr>ReserveVirtual = \<lambda>_ _ m. Some m, CopyToUser = \<lambda>_ _ m. m\<rparr>"

definition demo_vm :: "unit BlinkVM" where
  "demo_vm = \<lparr>weg = replicate 16 7, ip = 0x401000, bflags = 2, fs = 0, gs = 0, guest = ()\<rparr>"

definition demo_sched :: WGThreadScheduler where
  "demo_sched = sched_start 0 wg_sched_create"

theorem sched_safety_witness:
  "\<exists>s vm. sched_run demo_ops [Wake 5, Exit 0] (demo_sched, demo_vm) = (s, vm)
     \<and> (\<forall>i < 32. t_state (threads s ! i) = WG_THREAD_RUNNING \<longleftrightarrow> int i = current s)"
proof -
  obtain s vm where r: "sched_run demo_ops [Wake 5, Exit 0] (demo_sched, demo_vm) = (s, vm)" by fastforce
  from sched_safety [OF _ r [unfolded demo_sched_def]] r show ?thesis by auto
qed

text \<open>The scenario: the main thread creates one worker.\<close>

definition demo_two :: WGThreadScheduler where
  "demo_two = put_thread 1 (new_thread 1 0x402000 9 0 demo_sched) (bump demo_sched)"

lemma demo_wf: "wf_sched demo_sched" "wf_sched demo_two"
proof -
  show "wf_sched demo_sched" unfolding demo_sched_def by (rule wf_start)
  moreover have "t_count demo_sched = 1" by (simp add: demo_sched_def sched_start_def)
  ultimately show "wf_sched demo_two" using wf_create [of demo_sched] by (simp add: demo_two_def)
qed

lemma demo_two_sel: "current demo_two = 0" "t_count demo_two = 2" "ready demo_two 1"
  by (simp_all add: demo_two_def bump_def demo_sched_def sched_start_def ready_def WG_MAX_THREADS_def put_thread_def)



lemma ctx_self_yield:
  assumes "length (threads s) = 32" and "current s = int k" and "k < 32" and v: "length (weg vm) = 16"
    and y: "wg_sched_yield r (set_wait h ms s, vm) = (b, s1, vm1)"
  shows "(current s1 = int k \<longrightarrow> same_regs vm vm1) \<and> regs (threads s1 ! k) = save_regs vm
    \<and> length (weg vm1) = 16 \<and> t_count s1 = t_count s"
proof -
  let ?s1 = "wg_sched_save_current vm r (set_wait h ms s)"
  have l1: "length (threads ?s1) = 32" "nat (current ?s1) = k" "0 \<le> current ?s1"
    using assms(1,2) by (simp_all add: wg_sched_save_current_def)
  have sv: "regs (threads ?s1 ! k) = save_regs vm" using assms(1-3) by (simp add: wg_sched_save_current_def)
  have c1: "t_count ?s1 = t_count s" by (simp add: set_wait_def split: option.splits)
  note rs = restore_save [OF v v] restore_len [OF v]
  obtain b2 t2 vm3 where sw: "wg_sched_switch_next (?s1, vm) = (b2, t2, vm3)" by (metis prod_cases3)
  show ?thesis
  proof (cases b2)
    case True
    then have e: "s1 = t2" "vm1 = vm3" using y sw by (simp_all add: wg_sched_yield_def)
    from sw True have "wg_sched_switch_next (?s1, vm) = (True, t2, vm3)" by simp
    then show ?thesis
    proof (cases rule: switch_Some)
      case (1 idx)
      with l1 e sv rs c1 assms(3) show ?thesis by (cases "idx = k") (simp_all add: ready_def)
    qed
  next
    case False
    with sw have e: "t2 = ?s1" "vm3 = vm" using switch_None [of ?s1 vm t2 vm3] by simp_all
    have "vm1 = restore_regs (regs (threads ?s1 ! k)) vm"
      "s1 = put_thread k ((threads ?s1 ! k)\<lparr>t_state := WG_THREAD_RUNNING\<rparr>) ?s1"
      using y sw False e l1 by (simp_all add: wg_sched_yield_def)
    with sv rs c1 l1 assms(3) show ?thesis by simp
  qed
qed

lemma switch_head:
  assumes "ready s i" and "scan_pos (current s) i = 0"
  shows "wg_sched_switch_next (s, vm) = (True, put_thread i ((threads s ! i)\<lparr>t_state := WG_THREAD_RUNNING\<rparr>) (s\<lparr>current := int i\<rparr>),
    restore_regs (regs (threads s ! i)) vm)"
proof -
  obtain b s' vm' where sw: "wg_sched_switch_next (s, vm) = (b, s', vm')" by (metis prod_cases3)
  have b: b using switch_None(3) [of s vm s' vm' i] sw assms(1) by auto
  with sw have "wg_sched_switch_next (s, vm) = (True, s', vm')" by simp
  then show ?thesis
  proof (cases rule: switch_Some)
    case (1 idx)
    from 1(2) [OF assms(1)] assms have "scan_pos (current s) idx = scan_pos (current s) i" by simp
    then have "idx = i" using 1(1) assms(1) scan_order_pos unfolding ready_def by metis
    with 1 sw b show ?thesis by simp
  qed
qed

text \<open>C7: Context switches are transparent.  When the current thread yields and some later event
  makes it current again for the first time, the machine holds exactly the registers, the
  instruction pointer, the flags and the segment bases it held at the yield, whatever ran in
  between.\<close>
theorem context_switch_roundtrip:
  assumes "wf_sched s" and "current s = int k" and "length (weg vm) = 16"
    and "r = WG_THREAD_READY \<or> r = WG_THREAD_WAITING \<or> r = WG_THREAD_SUSPENDED" and "do_event g (Yield h ms r) (s, vm) = (s1, vm1)"
    and "\<forall>e \<in> set es. event_ok e"
    and "\<forall>n < length es. current (fst (sched_run g (take n es) (s1, vm1))) \<noteq> int k"
    and "sched_run g es (s1, vm1) = (s2, vm2)" and "current s2 = int k"
  shows "weg vm2 = weg vm \<and> ip vm2 = ip vm \<and> bflags vm2 = bflags vm \<and> fs vm2 = fs vm \<and> gs vm2 = gs vm"
proof -
  have k: "k < 32" "int k < t_count s" and len: "length (threads s) = 32"
    using assms(1,2) by (auto simp: wf_sched_def)
  obtain b where y: "wg_sched_yield r (set_wait h ms s, vm) = (b, s1, vm1)"
    using assms(5) by (cases "wg_sched_yield r (set_wait h ms s, vm)") auto
  note here = ctx_self_yield [OF len assms(2) k(1) assms(3) y]
  have "same_regs vm vm2"
  proof (cases "es = []")
    case True
    then show ?thesis using here assms(8,9) by (simp add: sched_run_def)
  next
    case False
    have "ctx_step k s1 s2 vm2"
      using ctx_run [OF wf_event [OF assms(1) _ assms(5)] k(1) _ _ assms(6,7,8) False] here k(2) assms(4) by simp
    then obtain vm' where v: "length (weg vm') = 16" "vm2 = restore_regs (regs (threads s1 ! k)) vm'"
      using assms(9) by (auto simp: ctx_step_def)
    with restore_save [OF assms(3) v(1)] here show ?thesis by simp
  qed
  then show ?thesis by (simp add: same_regs_def)
qed

theorem context_switch_roundtrip_witness:
  "\<exists>s1 vm1 s2 vm2. do_event demo_ops (Yield 0 0 WG_THREAD_READY) (demo_two, demo_vm) = (s1, vm1)
     \<and> do_event demo_ops (Exit 0) (s1, vm1) = (s2, vm2) \<and> current s1 = 1 \<and> ip vm2 = 0x401000"
proof -
  obtain s1 vm1 where d1: "do_event demo_ops (Yield 0 0 WG_THREAD_READY) (demo_two, demo_vm) = (s1, vm1)" by fastforce
  obtain s2 vm2 where d2: "do_event demo_ops (Exit 0) (s1, vm1) = (s2, vm2)" by fastforce
  let ?w = "wg_sched_save_current demo_vm WG_THREAD_READY (set_wait 0 0 demo_two)"
  have len: "length (threads demo_two) = 32" using demo_wf(2) by (simp add: wf_sched_def)
  have w: "ready ?w 1" "current ?w = 0" "ready ?w 0" "length (threads ?w) = 32" using demo_two_sel len
    by (simp_all add: wg_sched_save_current_def set_wait_def wg_sched_current_def ready_def)
  have s1: "s1 = put_thread 1 ((threads ?w ! 1)\<lparr>t_state := WG_THREAD_RUNNING\<rparr>) (?w\<lparr>current := 1\<rparr>)"
    using d1 switch_head [OF w(1), of demo_vm] w(2) by (simp add: wg_sched_yield_def scan_pos_def)
  have c1: "current s1 = 1" by (simp add: s1)
  let ?x = "(put_thread 1 ((threads s1 ! 1)\<lparr>t_state := WG_THREAD_EXITED, exit_code := 0\<rparr>) s1)\<lparr>current := -1\<rparr>"
  have "ready ?x 0" "scan_pos (current ?x) 0 = 0" using w(3) by (simp_all add: s1 ready_def scan_pos_def)
  moreover have "(s2, vm2) = snd (wg_sched_switch_next (?x, vm1))"
    using d2 c1 by (simp add: wg_sched_exit_thread_def Let_def)
  ultimately have "current s2 = 0" using switch_head [of ?x 0 vm1] by simp
  with c1 have c: "current s1 = 1" "current s2 = 0" by simp_all
  have "sched_run demo_ops [Exit 0] (s1, vm1) = (s2, vm2)" using d2 by (simp add: sched_run_def)
  from context_switch_roundtrip [OF demo_wf(2) _ _ _ d1 _ _ this, of 0] c
  have "ip vm2 = ip demo_vm" by (simp add: demo_two_sel demo_vm_def sched_run_def)
  with d1 d2 c show ?thesis by (auto simp: demo_vm_def)
qed

lemma count_run: "wf_sched s \<Longrightarrow> \<forall>e \<in> set es. event_ok e \<Longrightarrow> sched_run g es (s, vm) = (s', vm') \<Longrightarrow> t_count s \<le> t_count s'"
proof (induction es arbitrary: s vm)
  case (Cons e es)
  obtain s1 vm1 where d: "do_event g e (s, vm) = (s1, vm1)" by fastforce
  with Cons.prems Cons.IH [OF wf_event [OF Cons.prems(1) _ d], of vm1] count_event [OF Cons.prems(1) d]
  show ?case by (simp add: sched_run_def)
qed (simp add: sched_run_def)

text \<open>Thread slots are used once: \<open>WG_THREAD_FREE\<close> never comes back, so after the 32nd thread of a
  program every \<open>CreateThread\<close> fails, however many threads have exited.\<close>
theorem thread_slots_exhausted:
  assumes "wf_sched s" and "t_count s = 32" and "\<forall>e \<in> set es. event_ok e"
    and "sched_run g es (s, vm) = (s1, vm1)"
  shows "wg_sched_create_thread g ok start param flags (s1, vm1) = (0, None, s1, vm1)"
proof -
  have wf: "wf_sched s1" using wf_run [OF assms(1,3,4)] .
  then have "t_count s1 = 32" using count_run [OF assms(1,3,4)] assms(2) by (simp add: wf_sched_def)
  then show ?thesis using free_slot [OF wf] by (simp add: wg_sched_create_thread_def)
qed

definition full_sched :: WGThreadScheduler where
  "full_sched = fst (sched_run demo_ops (replicate 31 (Create False 0 0 0)) (demo_sched, demo_vm))"

lemma create_many:
  "wf_sched s \<Longrightarrow> t_count s + int n \<le> 32 \<Longrightarrow>
   wf_sched (fst (sched_run g (replicate n (Create False 0 0 0)) (s, vm)))
   \<and> t_count (fst (sched_run g (replicate n (Create False 0 0 0)) (s, vm))) = t_count s + int n"
proof (induction n arbitrary: s vm)
  case (Suc n)
  obtain h tid s1 vm1 where c: "wg_sched_create_thread g False 0 0 0 (s, vm) = (h, tid, s1, vm1)"
    by (metis prod_cases4)
  from thread_create_spec(2) [OF Suc.prems(1) c] wf_create [OF Suc.prems(1)] Suc.prems(2)
  have "wf_sched s1" "t_count s1 = t_count s + 1" by (auto simp: bump_def)
  with Suc.IH [of s1 vm1] Suc.prems(2) c show ?case by (simp add: sched_run_def)
qed (simp add: sched_run_def)

lemma full_sched_ok: "wf_sched full_sched" "t_count full_sched = 32"
proof -
  have c: "t_count demo_sched = 1" by (simp add: demo_sched_def sched_start_def)
  then have "t_count demo_sched + int 31 \<le> 32" by simp
  from create_many [OF demo_wf(1) this, of demo_ops demo_vm] c
  show "wf_sched full_sched" "t_count full_sched = 32" unfolding full_sched_def by simp_all
qed

theorem thread_slots_exhausted_witness:
  "\<exists>s1 vm1. sched_run demo_ops [Exit 0] (full_sched, demo_vm) = (s1, vm1)
     \<and> wg_sched_create_thread demo_ops True 0 0 0 (s1, vm1) = (0, None, s1, vm1)"
proof -
  obtain s1 vm1 where r: "sched_run demo_ops [Exit 0] (full_sched, demo_vm) = (s1, vm1)" by fastforce
  from thread_slots_exhausted [OF full_sched_ok _ r] r show ?thesis by auto
qed

text \<open>Handles of created threads: whatever is created, the handles are pairwise different and
  were not live, \<open>wg_sched_find\<close> maps each to the thread with its entry point and parameter, ready
  or suspended as asked, and every thread that existed is still found unchanged.\<close>
theorem thread_handles_distinct:
  assumes "wf_sched s" and "thread_table.alloc_all args s = Some (hs, s')"
  shows "distinct hs \<and> wf_sched s' \<and> (\<forall>h \<in> set hs. wg_sched_find h s = None)
    \<and> (\<forall>k < length args. \<exists>t. thread_made (args ! k) (hs ! k) t \<and> sched_lookup s' (hs ! k) = Some t)
    \<and> (\<forall>h. h \<notin> set hs \<longrightarrow> sched_lookup s' h = sched_lookup s h)"
  using thread_table.alloc_all_spec [OF assms] by (auto simp: sched_lookup_def)

theorem thread_handles_distinct_witness:
  "\<exists>hs s'. thread_table.alloc_all [(0x1000, 5, 0), (0x2000, 6, 4)] demo_sched = Some (hs, s') \<and> distinct hs
     \<and> wg_sched_find 0x7000 s' \<noteq> None"
proof -
  have al: "sched_alloc (a, p, f) s = Some (next_handle s, put_thread (nat (t_count s)) (new_thread (nat (t_count s)) a p f s) (bump s))"
    if wf: "wf_sched s" and n: "t_count s \<noteq> 32" and nz: "next_handle s \<noteq> 0" for a p f s
  proof -
    obtain h tid s1 vm1 where c: "wg_sched_create_thread demo_ops False a p f (s, demo_vm) = (h, tid, s1, vm1)"
      by (metis prod_cases4)
    from thread_create_spec(2) [OF wf c n] create_sched_indep [OF wf c] nz show ?thesis by simp
  qed
  have s0: "t_count demo_sched = 1" "next_handle demo_sched = 0x7100" by (simp_all add: demo_sched_def sched_start_def)
  let ?s1 = "put_thread 1 (new_thread 1 0x1000 5 0 demo_sched) (bump demo_sched)"
  have w1: "wf_sched ?s1" using wf_create [OF demo_wf(1), of "0x1000" 5 0] s0 by simp
  have s1: "t_count ?s1 = 2" "next_handle ?s1 = 0x7101" using s0 by (simp_all add: bump_def)
  obtain hs s' where e: "thread_table.alloc_all [(0x1000, 5, 0), (0x2000, 6, 4)] demo_sched = Some (hs, s')"
    using al [OF demo_wf(1)] al [OF w1] s0 s1 by (simp add: thread_table.alloc_all.simps)
  from thread_handles_distinct [OF demo_wf(1) e] have d: "distinct hs"
    "\<forall>h. h \<notin> set hs \<longrightarrow> sched_lookup s' h = sched_lookup demo_sched h"
    "\<forall>h \<in> set hs. wg_sched_find h demo_sched = None" by blast+
  have "wg_sched_find 0x7000 demo_sched = Some 0"
    by (simp add: wg_sched_find_def demo_sched_def sched_start_def WG_MAX_THREADS_def numeral_eq_Suc thread0_def)
  with d(2,3) have "sched_lookup s' 0x7000 \<noteq> None"
    by (metis option.distinct(1) option.map_disc_iff sched_lookup_def)
  with e d(1) show ?thesis by (auto simp: sched_lookup_def)
qed

end
