(* ===== verification/PE_Loader.thy ===== *)
theory PE_Loader
  imports WG_Prelude
begin

section \<open>The PE loader (wg_pe_loader)\<close>

text \<open>
  \<open>Sources/PE/wg_pe_loader.c\<close>: parsing a PE file from a byte buffer, its sections, import
  tables and data directories, and applying base relocations.  The buffer is a list of bytes,
  a pointer into it an offset; a read or write outside the buffer is undefined behaviour
  (\<^term>\<open>None\<close>).  The packed header structs are layouts: field names with their widths in bytes.
\<close>

subsection \<open>Reading and writing a buffer\<close>

definition rd :: "nat \<Rightarrow> u8 list \<Rightarrow> nat \<Rightarrow> 'a::len word option" where
  "rd n bs p = (if p + n \<le> length bs then Some (of_le (take n (drop p bs))) else None)"

definition wr :: "u8 list \<Rightarrow> nat \<Rightarrow> u8 list \<Rightarrow> u8 list option" where
  "wr bs p xs = (if p + length xs \<le> length bs then Some (take p bs @ xs @ drop (p + length xs) bs) else None)"

text \<open>\<open>strncpy(dst, src, n)\<close> into a zeroed buffer of more than \<open>n\<close> bytes: the bytes before the NUL.\<close>

fun strn :: "u8 list \<Rightarrow> nat \<Rightarrow> nat \<Rightarrow> u8 list option" where
  "strn bs p 0 = Some []"
| "strn bs p (Suc n) =
     (if p < length bs
      then if bs ! p = 0 then Some [] else map_option ((#) (bs ! p)) (strn bs (p + 1) n)
      else None)"

type_synonym layout = "(string \<times> nat) list"

definition layout_size :: "layout \<Rightarrow> nat" where
  "layout_size l = sum_list (map snd l)"

fun layout_at :: "layout \<Rightarrow> string \<Rightarrow> nat \<Rightarrow> nat \<times> nat" where
  "layout_at [] f off = (off, 0)"
| "layout_at ((g, w) # l) f off = (if g = f then (off, w) else layout_at l f (off + w))"

definition get_field :: "layout \<Rightarrow> u8 list \<Rightarrow> nat \<Rightarrow> string \<Rightarrow> 'a::len word option" where
  "get_field l bs base f = (case layout_at l f 0 of (off, w) \<Rightarrow> rd w bs (base + off))"

subsection \<open>The headers\<close>

definition DOSHeader :: layout where
  "DOSHeader = [(''e_magic'', 2), (''e_cblp'', 2), (''e_cp'', 2), (''e_crlc'', 2), (''e_cparhdr'', 2),
     (''e_minalloc'', 2), (''e_maxalloc'', 2), (''e_ss'', 2), (''e_sp'', 2), (''e_csum'', 2), (''e_ip'', 2),
     (''e_cs'', 2), (''e_lfarlc'', 2), (''e_ovno'', 2), (''e_res'', 8), (''e_oemid'', 2), (''e_oeminfo'', 2),
     (''e_res2'', 20), (''e_lfanew'', 4)]"

definition COFFHeader :: layout where
  "COFFHeader = [(''Machine'', 2), (''NumberOfSections'', 2), (''TimeDateStamp'', 4), (''PointerToSymbolTable'', 4),
     (''NumberOfSymbols'', 4), (''SizeOfOptionalHeader'', 2), (''Characteristics'', 2)]"

definition OptionalHeader64 :: layout where
  "OptionalHeader64 = [(''Magic'', 2), (''MajorLinkerVersion'', 1), (''MinorLinkerVersion'', 1), (''SizeOfCode'', 4),
     (''SizeOfInitializedData'', 4), (''SizeOfUninitializedData'', 4), (''AddressOfEntryPoint'', 4), (''BaseOfCode'', 4),
     (''ImageBase'', 8), (''SectionAlignment'', 4), (''FileAlignment'', 4), (''MajorOperatingSystemVersion'', 2),
     (''MinorOperatingSystemVersion'', 2), (''MajorImageVersion'', 2), (''MinorImageVersion'', 2),
     (''MajorSubsystemVersion'', 2), (''MinorSubsystemVersion'', 2), (''Win32VersionValue'', 4), (''SizeOfImage'', 4),
     (''SizeOfHeaders'', 4), (''CheckSum'', 4), (''Subsystem'', 2), (''DllCharacteristics'', 2), (''SizeOfStackReserve'', 8),
     (''SizeOfStackCommit'', 8), (''SizeOfHeapReserve'', 8), (''SizeOfHeapCommit'', 8), (''LoaderFlags'', 4),
     (''NumberOfRvaAndSizes'', 4)]"

definition OptionalHeader32 :: layout where
  "OptionalHeader32 = [(''Magic'', 2), (''MajorLinkerVersion'', 1), (''MinorLinkerVersion'', 1), (''SizeOfCode'', 4),
     (''SizeOfInitializedData'', 4), (''SizeOfUninitializedData'', 4), (''AddressOfEntryPoint'', 4), (''BaseOfCode'', 4),
     (''BaseOfData'', 4), (''ImageBase'', 4), (''SectionAlignment'', 4), (''FileAlignment'', 4),
     (''MajorOperatingSystemVersion'', 2), (''MinorOperatingSystemVersion'', 2), (''MajorImageVersion'', 2),
     (''MinorImageVersion'', 2), (''MajorSubsystemVersion'', 2), (''MinorSubsystemVersion'', 2), (''Win32VersionValue'', 4),
     (''SizeOfImage'', 4), (''SizeOfHeaders'', 4), (''CheckSum'', 4), (''Subsystem'', 2), (''DllCharacteristics'', 2),
     (''SizeOfStackReserve'', 4), (''SizeOfStackCommit'', 4), (''SizeOfHeapReserve'', 4), (''SizeOfHeapCommit'', 4),
     (''LoaderFlags'', 4), (''NumberOfRvaAndSizes'', 4)]"

definition DataDirectory :: layout where
  "DataDirectory = [(''VirtualAddress'', 4), (''Size'', 4)]"

definition SectionHeader :: layout where
  "SectionHeader = [(''Name'', 8), (''VirtualSize'', 4), (''VirtualAddress'', 4), (''SizeOfRawData'', 4),
     (''PointerToRawData'', 4), (''PointerToRelocations'', 4), (''PointerToLinenumbers'', 4),
     (''NumberOfRelocations'', 2), (''NumberOfLinenumbers'', 2), (''Characteristics'', 4)]"

definition ImportDescriptor :: layout where
  "ImportDescriptor = [(''OriginalFirstThunk'', 4), (''TimeDateStamp'', 4), (''ForwarderChain'', 4), (''Name'', 4),
     (''FirstThunk'', 4)]"

lemma layout_sizes:
  "layout_size DOSHeader = 64" "layout_size COFFHeader = 20" "layout_size OptionalHeader64 = 112"
  "layout_size OptionalHeader32 = 96" "layout_size DataDirectory = 8" "layout_size SectionHeader = 40"
  "layout_size ImportDescriptor = 20"
  by (simp_all add: layout_size_def DOSHeader_def COFFHeader_def OptionalHeader64_def OptionalHeader32_def
      DataDirectory_def SectionHeader_def ImportDescriptor_def)

subsection \<open>The image\<close>

definition PE_MAX_SECTIONS :: nat where "PE_MAX_SECTIONS = 96"
definition PE_MAX_IMPORTS :: nat where "PE_MAX_IMPORTS = 256"
definition PE_MAX_IMPORT_FUNCS :: nat where "PE_MAX_IMPORT_FUNCS = 4096"

text \<open>\<open>sec_data\<close> is the offset in \<open>raw_data\<close> of the section's bytes, if the pointer is set.\<close>

record WGPESection =
  sec_name :: "u8 list"
  virtual_size :: u32
  virtual_address :: u32
  sec_raw_size :: u32
  raw_offset :: u32
  characteristics :: u32
  sec_data :: "nat option"

record WGPEImportFunc =
  fn_name :: "u8 list"
  fn_ordinal :: u16
  fn_iat_rva :: u32

record WGPEImportDll =
  dll_name :: "u8 list"
  dll_functions :: "WGPEImportFunc list"

record WGPEImage =
  image_base :: u64
  entry_point :: u32
  size_of_image :: u32
  size_of_headers :: u32
  subsystem :: u16
  dll_characteristics :: u16
  machine :: u16
  is_64bit :: bool
  sections :: "WGPESection list"
  img_imports :: "WGPEImportDll list"
  export_rva :: u32
  export_size :: u32
  reloc_rva :: u32
  reloc_size :: u32
  tls_rva :: u32
  tls_size :: u32
  raw_data :: "u8 list"

definition img0 :: WGPEImage where
  "img0 = \<lparr>image_base = 0, entry_point = 0, size_of_image = 0, size_of_headers = 0, subsystem = 0,
     dll_characteristics = 0, machine = 0, is_64bit = False, sections = [], img_imports = [], export_rva = 0,
     export_size = 0, reloc_rva = 0, reloc_size = 0, tls_rva = 0, tls_size = 0, raw_data = []\<rparr>"

text \<open>The first section whose (32-bit, wrapping) raw range holds the address.\<close>

fun rva_to_ptr :: "WGPESection list \<Rightarrow> u32 \<Rightarrow> nat option" where
  "rva_to_ptr [] rva = None"
| "rva_to_ptr (s # ss) rva =
     (if rva \<ge> virtual_address s \<and> rva < virtual_address s + sec_raw_size s
         \<and> sec_data s \<noteq> None \<and> rva - virtual_address s < sec_raw_size s
      then Some (the (sec_data s) + unat (rva - virtual_address s))
      else rva_to_ptr ss rva)"

subsection \<open>Imports\<close>

fun dec_digits :: "nat \<Rightarrow> u8 list" where
  "dec_digits n = (if n < 10 then [of_nat (48 + n)] else dec_digits (n div 10) @ [of_nat (48 + n mod 10)])"

declare dec_digits.simps [simp del]

definition ordinal_name :: "u16 \<Rightarrow> u8 list" where
  "ordinal_name o' = map of_char ''Ordinal_'' @ dec_digits (unat o')"

text \<open>One import, by ordinal or by hint and name; \<open>flag\<close> is the top bit of the thunk's width.\<close>

definition import_func :: "u8 list \<Rightarrow> WGPESection list \<Rightarrow> u64 \<Rightarrow> u32 \<Rightarrow> u64 \<Rightarrow> WGPEImportFunc option" where
  "import_func raw secs flag iat thunk =
     (if thunk AND flag \<noteq> 0
      then let o' = ucast (thunk AND 0xFFFF)
           in Some \<lparr>fn_name = ordinal_name o', fn_ordinal = o', fn_iat_rva = iat\<rparr>
      else case rva_to_ptr secs (ucast (thunk AND 0x7FFFFFFF)) of
             None \<Rightarrow> Some \<lparr>fn_name = [], fn_ordinal = 0, fn_iat_rva = iat\<rparr>
           | Some hint \<Rightarrow> do {
               o' \<leftarrow> rd 2 raw hint;
               name \<leftarrow> strn raw (hint + 2) 255;
               Some \<lparr>fn_name = name, fn_ordinal = o', fn_iat_rva = iat\<rparr> })"

function parse_thunks ::
    "u8 list \<Rightarrow> WGPESection list \<Rightarrow> nat \<Rightarrow> u32 \<Rightarrow> nat \<Rightarrow> nat \<Rightarrow> WGPEImportFunc list option" where
  "parse_thunks raw secs w iat_rva k p =
     (case rd w raw p :: u64 option of
        None \<Rightarrow> None
      | Some thunk \<Rightarrow>
          if thunk = 0 \<or> k \<ge> PE_MAX_IMPORT_FUNCS then Some []
          else (case import_func raw secs (2 ^ (8 * w - 1)) (iat_rva + of_nat (k * w)) thunk of
                  None \<Rightarrow> None
                | Some f \<Rightarrow> map_option ((#) f) (parse_thunks raw secs w iat_rva (k + 1) (p + w))))"
  by pat_completeness auto
termination by (relation "measure (\<lambda>(raw, secs, w, iat_rva, k, p). PE_MAX_IMPORT_FUNCS - k)") auto

declare parse_thunks.simps [simp del]

text \<open>One descriptor: the loop ends at a null name, at the table's limit (\<open>full\<close>) or at a name that
  cannot be found; a descriptor whose thunks cannot be found is skipped without being counted.\<close>

datatype desc_result = DescStop | DescSkip | DescAdd WGPEImportDll

definition parse_desc :: "bool \<Rightarrow> u8 list \<Rightarrow> WGPESection list \<Rightarrow> nat \<Rightarrow> bool \<Rightarrow> desc_result option" where
  "parse_desc is64 raw secs desc full = do {
     name \<leftarrow> get_field ImportDescriptor raw desc ''Name'';
     if name = 0 \<or> full then Some DescStop
     else case rva_to_ptr secs name of
            None \<Rightarrow> Some DescStop
          | Some np \<Rightarrow> do {
              dll \<leftarrow> strn raw np 255;
              oft \<leftarrow> get_field ImportDescriptor raw desc ''OriginalFirstThunk'';
              ft \<leftarrow> get_field ImportDescriptor raw desc ''FirstThunk'';
              case rva_to_ptr secs (if oft \<noteq> 0 then oft else ft) of
                None \<Rightarrow> Some DescSkip
              | Some tp \<Rightarrow> do {
                  fs \<leftarrow> parse_thunks raw secs (if is64 then 8 else 4) ft 0 tp;
                  Some (DescAdd \<lparr>dll_name = dll, dll_functions = fs\<rparr>) } } }"

lemma parse_desc_in: "parse_desc is64 raw secs desc full = Some r \<Longrightarrow> desc < length raw"
  by (auto simp: parse_desc_def get_field_def ImportDescriptor_def rd_def split: bind_splits if_splits)

text \<open>The descriptor loop; \<open>acc\<close> are the DLLs counted so far.\<close>

function parse_descs ::
    "bool \<Rightarrow> u8 list \<Rightarrow> WGPESection list \<Rightarrow> nat \<Rightarrow> WGPEImportDll list \<Rightarrow> WGPEImportDll list option" where
  "parse_descs is64 raw secs desc acc =
     (case parse_desc is64 raw secs desc (length acc \<ge> PE_MAX_IMPORTS) of
        None \<Rightarrow> None
      | Some DescStop \<Rightarrow> Some acc
      | Some DescSkip \<Rightarrow> parse_descs is64 raw secs (desc + 20) acc
      | Some (DescAdd d) \<Rightarrow> parse_descs is64 raw secs (desc + 20) (acc @ [d]))"
  by pat_completeness auto
termination
  by (relation "measure (\<lambda>(is64, raw, secs, desc, acc). length raw - desc)") (auto dest: parse_desc_in)

declare parse_descs.simps [simp del]

definition parse_imports :: "WGPEImage \<Rightarrow> u32 \<Rightarrow> u32 \<Rightarrow> WGPEImportDll list option" where
  "parse_imports img import_rva import_size =
     (if import_rva = 0 \<or> import_size = 0 then Some []
      else case rva_to_ptr (sections img) import_rva of
             None \<Rightarrow> Some []
           | Some p \<Rightarrow> parse_descs (is_64bit img) (raw_data img) (sections img) p [])"

subsection \<open>Loading\<close>

definition parse_section :: "u8 list \<Rightarrow> nat \<Rightarrow> WGPESection option" where
  "parse_section raw p = do {
     nm \<leftarrow> (if p + 8 \<le> length raw then Some (take 8 (drop p raw) @ [0]) else None);
     vs \<leftarrow> get_field SectionHeader raw p ''VirtualSize'';
     va \<leftarrow> get_field SectionHeader raw p ''VirtualAddress'';
     rs \<leftarrow> get_field SectionHeader raw p ''SizeOfRawData'';
     ro \<leftarrow> get_field SectionHeader raw p ''PointerToRawData'';
     ch \<leftarrow> get_field SectionHeader raw p ''Characteristics'';
     Some \<lparr>sec_name = nm, virtual_size = vs, virtual_address = va, sec_raw_size = rs, raw_offset = ro,
       characteristics = ch,
       sec_data = (if ro > 0 \<and> rs > 0 \<and> unat (ro + rs) \<le> length raw then Some (unat ro) else None)\<rparr> }"

fun parse_sections :: "u8 list \<Rightarrow> nat \<Rightarrow> nat \<Rightarrow> WGPESection list option" where
  "parse_sections raw p 0 = Some []"
| "parse_sections raw p (Suc n) = do {
     s \<leftarrow> parse_section raw p;
     ss \<leftarrow> parse_sections raw (p + 40) n;
     Some (s # ss) }"

text \<open>The fields common to the two optional headers, read through their layout.\<close>

definition parse_optional :: "layout \<Rightarrow> bool \<Rightarrow> u8 list \<Rightarrow> nat \<Rightarrow> WGPEImage \<Rightarrow> (WGPEImage \<times> u32) option" where
  "parse_optional opt is64 raw p img = do {
     ep \<leftarrow> get_field opt raw p ''AddressOfEntryPoint'';
     ib \<leftarrow> get_field opt raw p ''ImageBase'';
     si \<leftarrow> get_field opt raw p ''SizeOfImage'';
     sh \<leftarrow> get_field opt raw p ''SizeOfHeaders'';
     su \<leftarrow> get_field opt raw p ''Subsystem'';
     dc \<leftarrow> get_field opt raw p ''DllCharacteristics'';
     nd \<leftarrow> get_field opt raw p ''NumberOfRvaAndSizes'';
     Some (img\<lparr>is_64bit := is64, entry_point := ep, image_base := ib, size_of_image := si,
       size_of_headers := sh, subsystem := su, dll_characteristics := dc\<rparr>, nd) }"

text \<open>Directory \<open>i\<close>, if the header has that many: (address, size).\<close>

definition directory :: "u8 list \<Rightarrow> nat \<Rightarrow> u32 \<Rightarrow> nat \<Rightarrow> (u32 \<times> u32) option option" where
  "directory raw dirs n i =
     (if unat n > i
      then do { va \<leftarrow> get_field DataDirectory raw (dirs + 8 * i) ''VirtualAddress'';
                sz \<leftarrow> get_field DataDirectory raw (dirs + 8 * i) ''Size'';
                Some (Some (va, sz)) }
      else Some None)"

definition parse_directories :: "u8 list \<Rightarrow> nat \<Rightarrow> u32 \<Rightarrow> WGPEImage \<Rightarrow> WGPEImage option" where
  "parse_directories raw dirs n img = do {
     d \<leftarrow> directory raw dirs n 1;
     imps \<leftarrow> (case d of Some (va, sz) \<Rightarrow> parse_imports img va sz | None \<Rightarrow> Some []);
     ex \<leftarrow> directory raw dirs n 0;
     re \<leftarrow> directory raw dirs n 5;
     tl \<leftarrow> directory raw dirs n 9;
     let (ev, es) = (case ex of Some d \<Rightarrow> d | None \<Rightarrow> (0, 0));
         (rv, rs) = (case re of Some d \<Rightarrow> d | None \<Rightarrow> (0, 0));
         (tv, ts) = (case tl of Some d \<Rightarrow> d | None \<Rightarrow> (0, 0))
     in Some (img\<lparr>img_imports := imps, export_rva := ev, export_size := es, reloc_rva := rv, reloc_size := rs,
                 tls_rva := tv, tls_size := ts\<rparr>) }"

text \<open>Everything after the magic number of the optional header: its fields, the section table, the
  directories.\<close>

definition load_headers :: "bool \<Rightarrow> u8 list \<Rightarrow> nat \<Rightarrow> u16 \<Rightarrow> u16 \<Rightarrow> WGPEImage option" where
  "load_headers is64 raw coff mach nsec = do {
     let opt = (if is64 then OptionalHeader64 else OptionalHeader32);
     let opt_hdr = coff + layout_size COFFHeader;
     (img, nd) \<leftarrow> parse_optional opt is64 raw opt_hdr (img0\<lparr>raw_data := raw, machine := mach\<rparr>);
     so \<leftarrow> get_field COFFHeader raw coff ''SizeOfOptionalHeader'';
     secs \<leftarrow> parse_sections raw (opt_hdr + unat (so :: u16)) (min (unat nsec) PE_MAX_SECTIONS);
     parse_directories raw (opt_hdr + layout_size opt) nd (img\<lparr>sections := secs\<rparr>) }"

text \<open>The two booleans are the outcomes of \<open>calloc\<close> and \<open>malloc\<close>.  The outer \<open>option\<close> is
  undefined behaviour, the inner one the returned pointer.\<close>

definition wg_pe_load_memory :: "bool \<Rightarrow> bool \<Rightarrow> u8 list \<Rightarrow> WGPEImage option option" where
  "wg_pe_load_memory calloc_ok malloc_ok raw =
     (if length raw < layout_size DOSHeader then Some None
      else do {
        magic \<leftarrow> get_field DOSHeader raw 0 ''e_magic'';
        if magic \<noteq> (0x5A4D :: u16) then Some None
        else do {
          pe_offset \<leftarrow> get_field DOSHeader raw 0 ''e_lfanew'';
          if unat (pe_offset + 4 :: u32) > length raw then Some None
          else do {
            let pe = unat pe_offset;
            pe_sig \<leftarrow> rd 4 raw pe;
            if pe_sig \<noteq> (0x00004550 :: u32) then Some None
            else do {
              let coff = pe + 4;
              mach \<leftarrow> get_field COFFHeader raw coff ''Machine'';
              nsec \<leftarrow> get_field COFFHeader raw coff ''NumberOfSections'';
              if \<not> calloc_ok \<or> \<not> malloc_ok then Some None
              else do {
                opt_magic \<leftarrow> rd 2 raw (coff + layout_size COFFHeader);
                if opt_magic = (0x20B :: u16) then map_option Some (load_headers True raw coff mach nsec)
                else if opt_magic = 0x10B then map_option Some (load_headers False raw coff mach nsec)
                else Some None } } } } })"

text \<open>\<open>file\<close> is the content of the file that \<open>fopen\<close> finds, \<open>got\<close> the number of bytes \<open>fread\<close> returns.\<close>

definition wg_pe_load_file :: "bool \<Rightarrow> bool \<Rightarrow> bool \<Rightarrow> u8 list option \<Rightarrow> nat \<Rightarrow> WGPEImage option option" where
  "wg_pe_load_file buf_ok calloc_ok malloc_ok file got =
     (case file of
        None \<Rightarrow> Some None
      | Some bytes \<Rightarrow>
          if length bytes \<le> 0 \<or> length bytes > 512 * 1024 * 1024 then Some None
          else if \<not> buf_ok then Some None
          else if got \<noteq> length bytes then Some None
          else wg_pe_load_memory calloc_ok malloc_ok bytes)"

subsection \<open>Base relocations\<close>

fun rva_to_mut :: "WGPESection list \<Rightarrow> u32 \<Rightarrow> u32 \<Rightarrow> nat option" where
  "rva_to_mut [] rva need = None"
| "rva_to_mut (s # ss) rva need =
     (if sec_data s \<noteq> None \<and> rva \<ge> virtual_address s \<and> rva + need \<le> virtual_address s + sec_raw_size s
      then Some (the (sec_data s) + unat (rva - virtual_address s))
      else rva_to_mut ss rva need)"

text \<open>One entry: \<open>DIR64\<close> and \<open>HIGHLOW\<close> add the delta in signed 64-bit arithmetic, the rest is skipped.\<close>

definition fix_entry :: "WGPESection list \<Rightarrow> u64 \<Rightarrow> u32 \<Rightarrow> u16 \<Rightarrow> u8 list \<Rightarrow> u8 list option" where
  "fix_entry secs delta page_rva e raw =
     (let ty = drop_bit 12 e; fix_rva = page_rva + ucast (e AND 0xFFF)
      in if ty = 0 then Some raw
         else if ty = 10
         then (case rva_to_mut secs fix_rva 8 of
                 None \<Rightarrow> Some raw
               | Some p \<Rightarrow> do { v \<leftarrow> rd 8 raw p; v' \<leftarrow> sadd64 v delta; wr raw p (to_le 8 v') })
         else if ty = 3
         then (case rva_to_mut secs fix_rva 4 of
                 None \<Rightarrow> Some raw
               | Some p \<Rightarrow> do { v \<leftarrow> rd 4 raw p; v' \<leftarrow> sadd64 (ucast (v :: u32)) delta;
                               wr raw p (to_le 4 (ucast v' :: u32)) })
         else Some raw)"

fun fix_entries :: "WGPESection list \<Rightarrow> u64 \<Rightarrow> u32 \<Rightarrow> nat \<Rightarrow> nat \<Rightarrow> u8 list \<Rightarrow> u8 list option" where
  "fix_entries secs delta page_rva p 0 raw = Some raw"
| "fix_entries secs delta page_rva p (Suc n) raw = do {
     e \<leftarrow> rd 2 raw p;
     raw \<leftarrow> fix_entry secs delta page_rva e raw;
     fix_entries secs delta page_rva (p + 2) n raw }"

text \<open>The block loop; its 32-bit offset may wrap, so it is a partial function.\<close>

partial_function (option) rebase_loop ::
    "WGPESection list \<Rightarrow> u32 \<Rightarrow> u32 \<Rightarrow> u64 \<Rightarrow> u32 \<Rightarrow> u8 list \<Rightarrow> u8 list option" where
  "rebase_loop secs rrva rsize delta off raw =
     (if off + 8 \<le> rsize
      then (case rva_to_ptr secs (rrva + off) of
              None \<Rightarrow> Some raw
            | Some blk \<Rightarrow> do {
                page_rva \<leftarrow> rd 4 raw blk;
                blk_size \<leftarrow> rd 4 raw (blk + 4);
                if blk_size < 8 \<or> off + blk_size > rsize then Some raw
                else do {
                  raw \<leftarrow> fix_entries secs delta page_rva (blk + 8) (unat (blk_size - 8) div 2) raw;
                  rebase_loop secs rrva rsize delta (off + blk_size) raw } })
      else Some raw)"

definition rewrite_header :: "bool \<Rightarrow> u64 \<Rightarrow> u8 list \<Rightarrow> u8 list option" where
  "rewrite_header is64 new_base raw =
     (if length raw > 0x100
      then do {
        pe_off \<leftarrow> rd 4 raw 0x3C;
        let pe = unat (pe_off :: u32);
        if pe + 24 + 36 \<le> length raw
        then if is64 then wr raw (pe + 24 + 24) (to_le 8 new_base)
             else wr raw (pe + 24 + 28) (to_le 4 (ucast new_base :: u32))
        else Some raw }
      else Some raw)"

definition wg_pe_rebase :: "WGPEImage \<Rightarrow> u64 \<Rightarrow> (bool \<times> WGPEImage) option" where
  "wg_pe_rebase img new_base =
     (if image_base img = new_base then Some (True, img)
      else if reloc_rva img = 0 \<or> reloc_size img = 0 then Some (False, img)
      else do {
        let delta = new_base - image_base img;
        raw \<leftarrow> rebase_loop (sections img) (reloc_rva img) (reloc_size img) delta 0 (raw_data img);
        raw \<leftarrow> rewrite_header (is_64bit img) new_base raw;
        Some (True, img\<lparr>raw_data := raw, image_base := new_base\<rparr>) })"

subsection \<open>Names\<close>

definition wg_pe_machine_name :: "u16 \<Rightarrow> string" where
  "wg_pe_machine_name m =
     (if m = 0x8664 then ''x86-64'' else if m = 0x014C then ''x86'' else if m = 0xAA64 then ''ARM64'' else ''Unknown'')"

definition wg_pe_subsystem_name :: "u16 \<Rightarrow> string" where
  "wg_pe_subsystem_name s =
     (if s = 1 then ''Native'' else if s = 2 then ''Windows GUI'' else if s = 3 then ''Windows Console''
      else if s = 5 then ''OS/2 Console'' else if s = 7 then ''POSIX Console'' else if s = 9 then ''Windows CE''
      else if s = 10 then ''EFI Application'' else ''Unknown'')"

subsection \<open>Bounds of what is parsed\<close>

lemma strn_length: "strn bs p n = Some xs \<Longrightarrow> length xs \<le> n"
  by (induction bs p n arbitrary: xs rule: strn.induct) (auto split: if_splits)

lemma dec_digits_length: "n < 10 ^ Suc k \<Longrightarrow> length (dec_digits n) \<le> Suc k"
proof (induction k arbitrary: n)
  case 0
  then show ?case by (simp add: dec_digits.simps)
next
  case (Suc k)
  show ?case
  proof (cases "n < 10")
    case False
    have "n div 10 < 10 ^ Suc k" using Suc.prems by simp
    from Suc.IH [OF this] False show ?thesis by (simp add: dec_digits.simps [of n])
  qed (simp add: dec_digits.simps)
qed

lemma ordinal_name_length: "length (ordinal_name x) \<le> 13"
proof -
  have "unat x < 10 ^ Suc 4" using unat_lt16 [of x] by simp
  from dec_digits_length [OF this] show ?thesis by (simp add: ordinal_name_def)
qed

lemma import_func_name: "import_func raw secs flag iat t = Some f \<Longrightarrow> length (fn_name f) \<le> 255"
  using le_trans [OF ordinal_name_length, of 255] strn_length
  by (auto simp: import_func_def Let_def split: if_splits option.splits bind_splits)

lemma parse_thunks_bounds:
  "parse_thunks raw secs w iat k p = Some fs \<Longrightarrow>
   length fs \<le> PE_MAX_IMPORT_FUNCS - k \<and> (\<forall>f \<in> set fs. length (fn_name f) \<le> 255)"
proof (induction raw secs w iat k p arbitrary: fs rule: parse_thunks.induct)
  case (1 raw secs w iat_rva k p)
  from "1.prems" show ?case
    by (subst (asm) parse_thunks.simps)
       (auto split: option.splits if_splits dest!: "1.IH" dest: import_func_name)
qed

definition dlls_ok :: "WGPEImportDll list \<Rightarrow> bool" where
  "dlls_ok ds \<longleftrightarrow> length ds \<le> PE_MAX_IMPORTS \<and> (\<forall>d \<in> set ds. length (dll_name d) \<le> 255
     \<and> length (dll_functions d) \<le> PE_MAX_IMPORT_FUNCS \<and> (\<forall>f \<in> set (dll_functions d). length (fn_name f) \<le> 255))"

definition dll_ok :: "WGPEImportDll \<Rightarrow> bool" where
  "dll_ok d \<longleftrightarrow> length (dll_name d) \<le> 255 \<and> length (dll_functions d) \<le> PE_MAX_IMPORT_FUNCS
     \<and> (\<forall>f \<in> set (dll_functions d). length (fn_name f) \<le> 255)"

lemma parse_desc_ok:
  assumes "parse_desc is64 raw secs desc full = Some (DescAdd d)"
  shows "dll_ok d \<and> \<not> full"
proof -
  obtain np dll w ft tp fs where "\<not> full" and d: "d = \<lparr>dll_name = dll, dll_functions = fs\<rparr>"
    and s: "strn raw np 255 = Some dll" and f: "parse_thunks raw secs w ft 0 tp = Some fs"
    using assms by (auto simp: parse_desc_def split: bind_splits if_splits option.splits)
  with strn_length [OF s] parse_thunks_bounds [OF f] show ?thesis by (simp add: dll_ok_def)
qed

lemma parse_descs_bounds:
  "parse_descs is64 raw secs desc acc = Some ds \<Longrightarrow> length acc \<le> PE_MAX_IMPORTS \<Longrightarrow> \<forall>d \<in> set acc. dll_ok d \<Longrightarrow>
   length ds \<le> PE_MAX_IMPORTS \<and> (\<forall>d \<in> set ds. dll_ok d)"
proof (induction is64 raw secs desc acc arbitrary: ds rule: parse_descs.induct)
  case (1 is64 raw secs desc acc)
  show ?case
  proof (cases "parse_desc is64 raw secs desc (length acc \<ge> PE_MAX_IMPORTS)")
    case None
    with "1.prems"(1) show ?thesis by (subst (asm) parse_descs.simps) simp
  next
    case (Some r)
    note eq = "1.prems"(1) [unfolded parse_descs.simps [of is64 raw secs desc acc] Some]
    show ?thesis
    proof (cases r)
      case DescStop
      with eq "1.prems" show ?thesis by simp
    next
      case DescSkip
      with eq "1.prems" "1.IH"(1) [OF Some DescSkip] show ?thesis by simp
    next
      case (DescAdd d)
      with parse_desc_ok [of is64 raw secs desc "length acc \<ge> PE_MAX_IMPORTS" d] Some have "dll_ok d" "length acc < PE_MAX_IMPORTS" by simp_all
      have "parse_descs is64 raw secs (desc + 20) (acc @ [d]) = Some ds" using eq DescAdd by simp
      moreover have "length (acc @ [d]) \<le> PE_MAX_IMPORTS" "\<forall>x \<in> set (acc @ [d]). dll_ok x"
        using \<open>dll_ok d\<close> \<open>length acc < PE_MAX_IMPORTS\<close> "1.prems"(3) by simp_all
      ultimately show ?thesis by (rule "1.IH"(2) [OF Some DescAdd])
    qed
  qed
qed

lemma parse_section_data:
  assumes "parse_section raw p = Some s"
  shows "length (sec_name s) = 9 \<and> (\<forall>q. sec_data s = Some q \<longrightarrow> q = unat (raw_offset s) \<and> 0 < unat (sec_raw_size s)
     \<and> unat (raw_offset s + sec_raw_size s) \<le> length raw)"
  using assms by (auto simp: parse_section_def word_greater_zero_iff unat_gt_0 split: bind_splits if_splits)

lemma parse_sections_data:
  "parse_sections raw p n = Some ss \<Longrightarrow> length ss = n \<and> (\<forall>s \<in> set ss. \<exists>q. parse_section raw q = Some s)"
  by (induction n arbitrary: p ss) (fastforce split: bind_splits)+

lemma parse_imports_bounds:
  "parse_imports img va sz = Some ds \<Longrightarrow> length ds \<le> PE_MAX_IMPORTS \<and> (\<forall>d \<in> set ds. dll_ok d)"
  using parse_descs_bounds [of "is_64bit img" "raw_data img" "sections img" _ "[]" ds]
  by (auto simp: parse_imports_def split: if_splits option.splits)

lemma parse_directories_bounds:
  assumes "parse_directories raw dirs n img = Some img'"
  shows "raw_data img' = raw_data img \<and> sections img' = sections img
    \<and> length (img_imports img') \<le> PE_MAX_IMPORTS \<and> (\<forall>d \<in> set (img_imports img'). dll_ok d)"
  using assms parse_imports_bounds
  by (auto simp: parse_directories_def Let_def split: bind_splits option.splits prod.splits)

text \<open>A section's data stays in the file unless the sum of its two header fields wraps around.\<close>

definition no_wrap :: "WGPESection \<Rightarrow> bool" where
  "no_wrap s \<longleftrightarrow> unat (raw_offset s) + unat (sec_raw_size s) < 2 ^ 32"

lemma section_in_file:
  assumes "parse_section raw p = Some s" and "sec_data s = Some q" and "no_wrap s"
  shows "q + unat (sec_raw_size s) \<le> length raw"
proof -
  have "unat (raw_offset s + sec_raw_size s) = unat (raw_offset s) + unat (sec_raw_size s)"
    using assms(3) by (simp add: no_wrap_def unat_word_ariths)
  with parse_section_data [OF assms(1)] assms(2) show ?thesis by simp
qed

lemma rva_to_ptr_in:
  "rva_to_ptr secs rva = Some p \<Longrightarrow> \<forall>s \<in> set secs. \<forall>q. sec_data s = Some q \<longrightarrow> q + unat (sec_raw_size s) \<le> n \<Longrightarrow> p < n"
  by (induction secs) (fastforce simp: word_less_nat_alt split: if_splits)+

lemma load_headers_parts:
  assumes "load_headers is64 raw coff mach nsec = Some img"
  shows "raw_data img = raw \<and> length (sections img) \<le> PE_MAX_SECTIONS
    \<and> (\<forall>s \<in> set (sections img). \<exists>q. parse_section raw q = Some s)
    \<and> length (img_imports img) \<le> PE_MAX_IMPORTS \<and> (\<forall>d \<in> set (img_imports img). dll_ok d)"
proof -
  obtain img1 nd secs so where
    o: "parse_optional (if is64 then OptionalHeader64 else OptionalHeader32) is64 raw (coff + layout_size COFFHeader)
      (img0\<lparr>raw_data := raw, machine := mach\<rparr>) = Some (img1, nd)"
    and s: "parse_sections raw (coff + layout_size COFFHeader + unat (so :: u16)) (min (unat nsec) PE_MAX_SECTIONS) = Some secs"
    and d: "parse_directories raw (coff + layout_size COFFHeader + layout_size (if is64 then OptionalHeader64 else OptionalHeader32))
      nd (img1\<lparr>sections := secs\<rparr>) = Some img"
    using assms by (auto simp: load_headers_def Let_def split: bind_splits)
  have "raw_data img1 = raw" using o by (auto simp: parse_optional_def split: bind_splits)
  with parse_directories_bounds [OF d] parse_sections_data [OF s] show ?thesis by simp
qed

lemma load_memory_parts:
  assumes "wg_pe_load_memory c m raw = Some (Some img)"
  obtains is64 coff mach nsec where "load_headers is64 raw coff mach nsec = Some img"
  using assms by (auto simp: wg_pe_load_memory_def Let_def split: bind_splits if_splits)

text \<open>C36: Everything the loader records is bounded: at most 96 sections, 256 DLLs and 4096 functions
  per DLL, names that fit their buffers with the terminating NUL; and unless a section header's
  offset and size wrap around, its data lies in the file, and every address the loader
  translates is an offset inside the file.\<close>
theorem pe_load_bounds:
  assumes "wg_pe_load_memory c m raw = Some (Some img)"
  shows "raw_data img = raw \<and> length (sections img) \<le> 96 \<and> length (img_imports img) \<le> 256
    \<and> (\<forall>d \<in> set (img_imports img). length (dll_name d) < 256 \<and> length (dll_functions d) \<le> 4096
         \<and> (\<forall>f \<in> set (dll_functions d). length (fn_name f) < 256))
    \<and> (\<forall>s \<in> set (sections img). \<forall>q. no_wrap s \<longrightarrow> sec_data s = Some q \<longrightarrow> q + unat (sec_raw_size s) \<le> length raw)
    \<and> ((\<forall>s \<in> set (sections img). no_wrap s) \<longrightarrow>
        (\<forall>rva p. rva_to_ptr (sections img) rva = Some p \<longrightarrow> p < length raw))"
proof -
  obtain is64 coff mach nsec where "load_headers is64 raw coff mach nsec = Some img"
    using assms by (rule load_memory_parts)
  note p = load_headers_parts [OF this]
  have sec: "\<forall>s \<in> set (sections img). \<forall>q. no_wrap s \<longrightarrow> sec_data s = Some q \<longrightarrow> q + unat (sec_raw_size s) \<le> length raw"
    using p section_in_file by blast
  then have "(\<forall>s \<in> set (sections img). no_wrap s) \<longrightarrow>
        (\<forall>rva p. rva_to_ptr (sections img) rva = Some p \<longrightarrow> p < length raw)"
    using rva_to_ptr_in by blast
  with p sec show ?thesis
    by (simp add: PE_MAX_SECTIONS_def PE_MAX_IMPORTS_def dll_ok_def PE_MAX_IMPORT_FUNCS_def less_Suc_eq_le [of _ 255, simplified])
qed

subsection \<open>Writing a header\<close>

text \<open>The bytes of a struct whose field \<open>f\<close> has the value \<open>v f\<close>.\<close>

fun enc_layout :: "layout \<Rightarrow> (string \<Rightarrow> u64) \<Rightarrow> u8 list" where
  "enc_layout [] v = []"
| "enc_layout ((f, w) # l) v = to_le w (v f) @ enc_layout l v"

lemma enc_layout_length [simp]: "length (enc_layout l v) = layout_size l"
  by (induction l) (auto simp: layout_size_def)

lemma bit_of_le: "bit (of_le bs :: 'a::len word) k \<longleftrightarrow> k < LENGTH('a) \<and> k < 8 * length bs \<and> bit (bs ! (k div 8)) (k mod 8)"
proof (induction bs arbitrary: k)
  case (Cons b bs)
  show ?case
  proof (cases "k < 8")
    case True
    then show ?thesis by (auto simp: bit_simps)
  next
    case False
    then have "k div 8 = Suc ((k - 8) div 8)" "k mod 8 = (k - 8) mod 8"
      by (simp_all add: le_div_geq le_mod_geq)
    with False Cons.IH [of "k - 8"] show ?thesis by (auto simp: bit_simps dest: bit_imp_le_length)
  qed
qed simp

lemma nth_to_le: "j < n \<Longrightarrow> to_le n w ! j = ucast (drop_bit (8 * j) w)"
  by (induction n arbitrary: w j) (auto simp: nth_Cons' drop_bit_drop_bit algebra_simps)

lemma of_le_enc_ucast:
  assumes "8 * n = LENGTH('b)"
  shows "(of_le (to_le n (w :: 'a::len word)) :: 'b::len word) = ucast w"
proof (rule bit_word_eqI)
  fix k assume k: "k < LENGTH('b)"
  have "bit (to_le n w ! (k div 8)) (k mod 8) \<longleftrightarrow> bit w k"
    using k assms by (simp add: nth_to_le bit_simps)
  with k assms show "bit (of_le (to_le n w) :: 'b word) k \<longleftrightarrow> bit (ucast w :: 'b word) k"
    by (simp add: bit_of_le bit_simps)
qed

lemma rd_at:
  assumes "length pre = p" and "length xs = n"
  shows "rd n (pre @ xs @ post) p = Some (of_le xs)"
  using assms by (auto simp: rd_def)

lemma layout_at_off: "f \<in> fst ` set l \<Longrightarrow> layout_at l f off = (off + fst (layout_at l f 0), snd (layout_at l f 0))"
proof (induction l arbitrary: off)
  case (Cons a l)
  obtain g w where a: "a = (g, w)" by (cases a)
  show ?case
  proof (cases "g = f")
    case False
    with Cons.prems a have f: "f \<in> fst ` set l" by auto
    from Cons.IH [OF f, of "off + w"] Cons.IH [OF f, of w] False a show ?thesis by simp
  qed (simp add: a)
qed simp

lemma get_field_enc_le:
  assumes "f \<in> fst ` set l" and "length pre = base"
  shows "get_field l (pre @ enc_layout l v @ post) base f = Some (of_le (to_le (snd (layout_at l f 0)) (v f)))"
  using assms
proof (induction l arbitrary: pre base)
  case (Cons a l)
  obtain g w where a: "a = (g, w)" by (cases a)
  show ?case
  proof (cases "g = f")
    case True
    with a Cons.prems rd_at [of pre base "to_le w (v f)" w "enc_layout l v @ post"] show ?thesis
      by (simp add: get_field_def)
  next
    case False
    with Cons.prems a have f: "f \<in> fst ` set l" by auto
    have o: "layout_at (a # l) f 0 = (w + fst (layout_at l f 0), snd (layout_at l f 0))"
      using False a layout_at_off [OF f, of w] by simp
    from Cons.IH [OF f, of "pre @ to_le w (v g)" "base + w"] Cons.prems(2) o a
    show ?thesis by (simp add: get_field_def o split_beta add.assoc)
  qed
qed simp

lemma get_field_enc:
  assumes "raw = pre @ enc_layout l v @ post" and "length pre = base" and "f \<in> fst ` set l"
    and "8 * snd (layout_at l f 0) = LENGTH('a)"
  shows "get_field l raw base f = Some (ucast (v f) :: 'a::len word)"
  by (simp only: assms(1) get_field_enc_le [OF assms(3,2)] of_le_enc_ucast [OF assms(4)])

subsection \<open>A PE file writer\<close>

text \<open>A file with its headers directly after one another, for a given value of every header field.\<close>

abbreviation opt_layout :: "bool \<Rightarrow> layout" where
  "opt_layout is64 \<equiv> (if is64 then OptionalHeader64 else OptionalHeader32)"

text \<open>
  The writer follows the tables of the PE format, field after field; \<open>v\<close> gives the values.  It does
  not use the layouts the loader reads through; that both agree is \<open>header_layouts\<close>.
\<close>

definition dos_header :: "(string \<Rightarrow> u64) \<Rightarrow> u8 list" where
  "dos_header v = to_le 2 (v ''e_magic'') @ to_le 2 (v ''e_cblp'') @ to_le 2 (v ''e_cp'') @ to_le 2 (v ''e_crlc'')
     @ to_le 2 (v ''e_cparhdr'') @ to_le 2 (v ''e_minalloc'') @ to_le 2 (v ''e_maxalloc'') @ to_le 2 (v ''e_ss'')
     @ to_le 2 (v ''e_sp'') @ to_le 2 (v ''e_csum'') @ to_le 2 (v ''e_ip'') @ to_le 2 (v ''e_cs'')
     @ to_le 2 (v ''e_lfarlc'') @ to_le 2 (v ''e_ovno'') @ to_le 8 (v ''e_res'') @ to_le 2 (v ''e_oemid'')
     @ to_le 2 (v ''e_oeminfo'') @ to_le 20 (v ''e_res2'') @ to_le 4 (v ''e_lfanew'')"

definition coff_header :: "(string \<Rightarrow> u64) \<Rightarrow> u8 list" where
  "coff_header v = to_le 2 (v ''Machine'') @ to_le 2 (v ''NumberOfSections'') @ to_le 4 (v ''TimeDateStamp'')
     @ to_le 4 (v ''PointerToSymbolTable'') @ to_le 4 (v ''NumberOfSymbols'')
     @ to_le 2 (v ''SizeOfOptionalHeader'') @ to_le 2 (v ''Characteristics'')"

text \<open>The optional header; the last parts differ in the width of an address: 8 bytes in PE32+, 4 in
  PE32, which has a \<open>BaseOfData\<close> too.\<close>

definition optional_header :: "bool \<Rightarrow> (string \<Rightarrow> u64) \<Rightarrow> u8 list" where
  "optional_header pe64 v =
     (let w = (if pe64 then 8 else 4) in
      to_le 2 (v ''Magic'') @ to_le 1 (v ''MajorLinkerVersion'') @ to_le 1 (v ''MinorLinkerVersion'')
      @ to_le 4 (v ''SizeOfCode'') @ to_le 4 (v ''SizeOfInitializedData'') @ to_le 4 (v ''SizeOfUninitializedData'')
      @ to_le 4 (v ''AddressOfEntryPoint'') @ to_le 4 (v ''BaseOfCode'')
      @ (if pe64 then [] else to_le 4 (v ''BaseOfData'')) @ to_le w (v ''ImageBase'')
      @ to_le 4 (v ''SectionAlignment'') @ to_le 4 (v ''FileAlignment'')
      @ to_le 2 (v ''MajorOperatingSystemVersion'') @ to_le 2 (v ''MinorOperatingSystemVersion'')
      @ to_le 2 (v ''MajorImageVersion'') @ to_le 2 (v ''MinorImageVersion'')
      @ to_le 2 (v ''MajorSubsystemVersion'') @ to_le 2 (v ''MinorSubsystemVersion'')
      @ to_le 4 (v ''Win32VersionValue'') @ to_le 4 (v ''SizeOfImage'') @ to_le 4 (v ''SizeOfHeaders'')
      @ to_le 4 (v ''CheckSum'') @ to_le 2 (v ''Subsystem'') @ to_le 2 (v ''DllCharacteristics'')
      @ to_le w (v ''SizeOfStackReserve'') @ to_le w (v ''SizeOfStackCommit'')
      @ to_le w (v ''SizeOfHeapReserve'') @ to_le w (v ''SizeOfHeapCommit'')
      @ to_le 4 (v ''LoaderFlags'') @ to_le 4 (v ''NumberOfRvaAndSizes''))"

definition section_header :: "(string \<Rightarrow> u64) \<Rightarrow> u8 list" where
  "section_header v = to_le 8 (v ''Name'') @ to_le 4 (v ''VirtualSize'') @ to_le 4 (v ''VirtualAddress'')
     @ to_le 4 (v ''SizeOfRawData'') @ to_le 4 (v ''PointerToRawData'') @ to_le 4 (v ''PointerToRelocations'')
     @ to_le 4 (v ''PointerToLinenumbers'') @ to_le 2 (v ''NumberOfRelocations'')
     @ to_le 2 (v ''NumberOfLinenumbers'') @ to_le 4 (v ''Characteristics'')"

lemma header_layouts:
  "dos_header v = enc_layout DOSHeader v" "coff_header v = enc_layout COFFHeader v"
  "optional_header b v = enc_layout (opt_layout b) v" "section_header v = enc_layout SectionHeader v"
  by (simp_all add: dos_header_def coff_header_def optional_header_def section_header_def DOSHeader_def
      COFFHeader_def OptionalHeader64_def OptionalHeader32_def SectionHeader_def Let_def del: to_le_numeral)

definition enc_dirs :: "(u32 \<times> u32) list \<Rightarrow> u8 list" where
  "enc_dirs ds = concat (map (\<lambda>(va, sz). to_le 4 va @ to_le 4 sz) ds)"

definition enc_secs :: "(string \<Rightarrow> u64) list \<Rightarrow> u8 list" where
  "enc_secs ss = concat (map section_header ss)"

record pe_spec =
  p_64 :: bool
  p_dos :: "string \<Rightarrow> u64"
  p_coff :: "string \<Rightarrow> u64"
  p_opt :: "string \<Rightarrow> u64"
  p_dirs :: "(u32 \<times> u32) list"
  p_secs :: "(string \<Rightarrow> u64) list"
  p_body :: "u8 list"

definition mk_pe :: "pe_spec \<Rightarrow> u8 list" where
  "mk_pe s = dos_header (p_dos s) @ [0x50, 0x45, 0, 0] @ coff_header (p_coff s)
     @ optional_header (p_64 s) (p_opt s) @ enc_dirs (p_dirs s) @ enc_secs (p_secs s) @ p_body s"

definition pe_ok :: "pe_spec \<Rightarrow> bool" where
  "pe_ok s \<longleftrightarrow> p_dos s ''e_magic'' = 0x5A4D \<and> p_dos s ''e_lfanew'' = 64
     \<and> p_coff s ''NumberOfSections'' = of_nat (length (p_secs s)) \<and> length (p_secs s) \<le> 96
     \<and> p_coff s ''SizeOfOptionalHeader'' = of_nat ((if p_64 s then 112 else 96) + 8 * length (p_dirs s))
     \<and> length (p_dirs s) \<le> 16
     \<and> p_opt s ''Magic'' = (if p_64 s then 0x20B else 0x10B)
     \<and> p_opt s ''NumberOfRvaAndSizes'' = of_nat (length (p_dirs s))
     \<and> (1 < length (p_dirs s) \<longrightarrow> fst (p_dirs s ! 1) = 0)"

definition section_of :: "nat \<Rightarrow> (string \<Rightarrow> u64) \<Rightarrow> WGPESection" where
  "section_of n v =
     (let ro = ucast (v ''PointerToRawData'') :: u32; rs = ucast (v ''SizeOfRawData'') :: u32
      in \<lparr>sec_name = to_le 8 (v ''Name'') @ [0], virtual_size = ucast (v ''VirtualSize''),
           virtual_address = ucast (v ''VirtualAddress''), sec_raw_size = rs, raw_offset = ro,
           characteristics = ucast (v ''Characteristics''),
           sec_data = (if ro > 0 \<and> rs > 0 \<and> unat (ro + rs) \<le> n then Some (unat ro) else None)\<rparr>)"

definition dir_of :: "(u32 \<times> u32) list \<Rightarrow> nat \<Rightarrow> u32 \<times> u32" where
  "dir_of ds i = (if i < length ds then ds ! i else (0, 0))"

definition image_of :: "pe_spec \<Rightarrow> WGPEImage" where
  "image_of s =
     \<lparr>image_base = (if p_64 s then p_opt s ''ImageBase'' else take_bit 32 (p_opt s ''ImageBase'')),
      entry_point = ucast (p_opt s ''AddressOfEntryPoint''), size_of_image = ucast (p_opt s ''SizeOfImage''),
      size_of_headers = ucast (p_opt s ''SizeOfHeaders''), subsystem = ucast (p_opt s ''Subsystem''),
      dll_characteristics = ucast (p_opt s ''DllCharacteristics''), machine = ucast (p_coff s ''Machine''),
      is_64bit = p_64 s, sections = map (section_of (length (mk_pe s))) (p_secs s), img_imports = [],
      export_rva = fst (dir_of (p_dirs s) 0), export_size = snd (dir_of (p_dirs s) 0),
      reloc_rva = fst (dir_of (p_dirs s) 5), reloc_size = snd (dir_of (p_dirs s) 5),
      tls_rva = fst (dir_of (p_dirs s) 9), tls_size = snd (dir_of (p_dirs s) 9), raw_data = mk_pe s\<rparr>"

lemma enc_dirs_length [simp]: "length (enc_dirs ds) = 8 * length ds"
  by (induction ds) (auto simp: enc_dirs_def)

lemma enc_dirs_split:
  "i < length ds \<Longrightarrow> enc_dirs ds = enc_dirs (take i ds) @ (to_le 4 (fst (ds ! i)) @ to_le 4 (snd (ds ! i))) @ enc_dirs (drop (Suc i) ds)"
  by (subst id_take_nth_drop [of i ds]) (simp_all add: enc_dirs_def split_beta)

lemma get_dir:
  assumes "raw = pre @ enc_dirs ds @ post" and "length pre = p" and "unat n = length ds"
  shows "directory raw p n i = Some (if i < length ds then Some (ds ! i) else None)"
proof (cases "i < length ds")
  case True
  let ?va = "to_le 4 (fst (ds ! i))" and ?sz = "to_le 4 (snd (ds ! i))"
  have r: "raw = (pre @ enc_dirs (take i ds)) @ ?va @ (?sz @ enc_dirs (drop (Suc i) ds) @ post)"
    "raw = (pre @ enc_dirs (take i ds) @ ?va) @ ?sz @ (enc_dirs (drop (Suc i) ds) @ post)"
    using assms(1) enc_dirs_split [OF True] by simp_all
  have "rd 4 raw (p + 8 * i) = Some (fst (ds ! i))"
    unfolding r(1) using True assms(2) by (subst rd_at) (simp_all add: of_le_enc_ucast del: to_le_numeral)
  moreover have "rd 4 raw (p + 8 * i + 4) = Some (snd (ds ! i))"
    unfolding r(2) using True assms(2) by (subst rd_at) (simp_all add: of_le_enc_ucast del: to_le_numeral)
  ultimately show ?thesis
    using True assms(3) by (simp add: directory_def get_field_def DataDirectory_def)
qed (use assms(3) in \<open>simp add: directory_def\<close>)

lemma get_section:
  assumes "raw = pre @ enc_layout SectionHeader v @ post" and "length pre = p"
  shows "parse_section raw p = Some (section_of (length raw) v)"
proof -
  note g = get_field_enc [OF assms]
  have "take 8 (drop p raw) = to_le 8 (v ''Name'')" "p + 8 \<le> length raw"
    using assms by (simp_all add: SectionHeader_def del: to_le_numeral)
  moreover have "get_field SectionHeader raw p ''VirtualSize'' = Some (ucast (v ''VirtualSize'') :: u32)"
    "get_field SectionHeader raw p ''VirtualAddress'' = Some (ucast (v ''VirtualAddress'') :: u32)"
    "get_field SectionHeader raw p ''SizeOfRawData'' = Some (ucast (v ''SizeOfRawData'') :: u32)"
    "get_field SectionHeader raw p ''PointerToRawData'' = Some (ucast (v ''PointerToRawData'') :: u32)"
    "get_field SectionHeader raw p ''Characteristics'' = Some (ucast (v ''Characteristics'') :: u32)"
    by (rule g; simp add: SectionHeader_def)+
  ultimately show ?thesis by (simp add: parse_section_def section_of_def Let_def del: to_le_numeral)
qed

lemma get_sections:
  "raw = pre @ enc_secs ss @ post \<Longrightarrow> length pre = p \<Longrightarrow>
   parse_sections raw p (length ss) = Some (map (section_of (length raw)) ss)"
proof (induction ss arbitrary: pre p)
  case (Cons v ss)
  have e: "raw = pre @ enc_layout SectionHeader v @ (enc_secs ss @ post)"
    "raw = (pre @ enc_layout SectionHeader v) @ enc_secs ss @ post" using Cons.prems(1)
    by (simp_all add: enc_secs_def header_layouts)
  from get_section [OF e(1) Cons.prems(2)] Cons.IH [OF e(2), of "p + 40"] Cons.prems(2) show ?case
    by (simp add: layout_sizes)
qed simp

lemma get_optional:
  assumes r: "raw = pre @ enc_layout (opt_layout is64) v @ post" and p: "length pre = p"
  shows "parse_optional (opt_layout is64) is64 raw p img =
    Some (img\<lparr>is_64bit := is64, entry_point := ucast (v ''AddressOfEntryPoint''),
        image_base := (if is64 then v ''ImageBase'' else take_bit 32 (v ''ImageBase'')),
        size_of_image := ucast (v ''SizeOfImage''), size_of_headers := ucast (v ''SizeOfHeaders''),
        subsystem := ucast (v ''Subsystem''), dll_characteristics := ucast (v ''DllCharacteristics'')\<rparr>,
      ucast (v ''NumberOfRvaAndSizes''))"
proof (cases is64)
  case True
  then have r': "raw = pre @ enc_layout OptionalHeader64 v @ post" using r by simp
  note g = get_field_enc [OF r' p]
  have "get_field OptionalHeader64 raw p ''AddressOfEntryPoint'' = Some (ucast (v ''AddressOfEntryPoint'') :: u32)"
    "get_field OptionalHeader64 raw p ''ImageBase'' = Some (ucast (v ''ImageBase'') :: u64)"
    "get_field OptionalHeader64 raw p ''SizeOfImage'' = Some (ucast (v ''SizeOfImage'') :: u32)"
    "get_field OptionalHeader64 raw p ''SizeOfHeaders'' = Some (ucast (v ''SizeOfHeaders'') :: u32)"
    "get_field OptionalHeader64 raw p ''Subsystem'' = Some (ucast (v ''Subsystem'') :: u16)"
    "get_field OptionalHeader64 raw p ''DllCharacteristics'' = Some (ucast (v ''DllCharacteristics'') :: u16)"
    "get_field OptionalHeader64 raw p ''NumberOfRvaAndSizes'' = Some (ucast (v ''NumberOfRvaAndSizes'') :: u32)"
    by (rule g; simp add: OptionalHeader64_def)+
  with True show ?thesis by (simp add: parse_optional_def)
next
  case False
  then have r': "raw = pre @ enc_layout OptionalHeader32 v @ post" using r by simp
  note g = get_field_enc [OF r' p]
  have "get_field OptionalHeader32 raw p ''AddressOfEntryPoint'' = Some (ucast (v ''AddressOfEntryPoint'') :: u32)"
    "get_field OptionalHeader32 raw p ''SizeOfImage'' = Some (ucast (v ''SizeOfImage'') :: u32)"
    "get_field OptionalHeader32 raw p ''SizeOfHeaders'' = Some (ucast (v ''SizeOfHeaders'') :: u32)"
    "get_field OptionalHeader32 raw p ''Subsystem'' = Some (ucast (v ''Subsystem'') :: u16)"
    "get_field OptionalHeader32 raw p ''DllCharacteristics'' = Some (ucast (v ''DllCharacteristics'') :: u16)"
    "get_field OptionalHeader32 raw p ''NumberOfRvaAndSizes'' = Some (ucast (v ''NumberOfRvaAndSizes'') :: u32)"
    by (rule g; simp add: OptionalHeader32_def)+
  moreover have "get_field OptionalHeader32 raw p ''ImageBase'' = Some (take_bit 32 (v ''ImageBase'') :: u64)"
  proof -
    have m: "''ImageBase'' \<in> fst ` set OptionalHeader32" and l: "snd (layout_at OptionalHeader32 ''ImageBase'' 0) = 4"
      by (simp_all add: OptionalHeader32_def)
    have "8 * 4 = (32 :: nat)" by simp
    then show ?thesis by (simp only: r' get_field_enc_le [OF m p] l of_le_to_le_take)
  qed
  ultimately show ?thesis using False by (simp add: parse_optional_def)
qed

text \<open>Where the parts of a written file are.\<close>

abbreviation "opt_of s \<equiv> opt_layout (p_64 s)"

lemma mk_pe_split:
  "mk_pe s = [] @ enc_layout DOSHeader (p_dos s) @ (to_le 4 (0x4550 :: u32) @ enc_layout COFFHeader (p_coff s)
     @ enc_layout (opt_of s) (p_opt s) @ enc_dirs (p_dirs s) @ enc_secs (p_secs s) @ p_body s)"
  "mk_pe s = enc_layout DOSHeader (p_dos s) @ to_le 4 (0x4550 :: u32) @ (enc_layout COFFHeader (p_coff s)
     @ enc_layout (opt_of s) (p_opt s) @ enc_dirs (p_dirs s) @ enc_secs (p_secs s) @ p_body s)"
  "mk_pe s = (enc_layout DOSHeader (p_dos s) @ to_le 4 (0x4550 :: u32)) @ enc_layout COFFHeader (p_coff s)
     @ (enc_layout (opt_of s) (p_opt s) @ enc_dirs (p_dirs s) @ enc_secs (p_secs s) @ p_body s)"
  "mk_pe s = (enc_layout DOSHeader (p_dos s) @ to_le 4 (0x4550 :: u32) @ enc_layout COFFHeader (p_coff s))
     @ enc_layout (opt_of s) (p_opt s) @ (enc_dirs (p_dirs s) @ enc_secs (p_secs s) @ p_body s)"
  "mk_pe s = (enc_layout DOSHeader (p_dos s) @ to_le 4 (0x4550 :: u32) @ enc_layout COFFHeader (p_coff s)
     @ enc_layout (opt_of s) (p_opt s)) @ enc_dirs (p_dirs s) @ (enc_secs (p_secs s) @ p_body s)"
  "mk_pe s = (enc_layout DOSHeader (p_dos s) @ to_le 4 (0x4550 :: u32) @ enc_layout COFFHeader (p_coff s)
     @ enc_layout (opt_of s) (p_opt s) @ enc_dirs (p_dirs s)) @ enc_secs (p_secs s) @ p_body s"
  by (simp_all add: mk_pe_def header_layouts)

lemma mk_pe_offsets:
  "length (enc_layout DOSHeader (p_dos s)) = 64"
  "length (enc_layout DOSHeader (p_dos s) @ to_le 4 (0x4550 :: u32)) = 68"
  "length (enc_layout DOSHeader (p_dos s) @ to_le 4 (0x4550 :: u32) @ enc_layout COFFHeader (p_coff s)) = 88"
  "length (enc_layout DOSHeader (p_dos s) @ to_le 4 (0x4550 :: u32) @ enc_layout COFFHeader (p_coff s)
     @ enc_layout (opt_of s) (p_opt s)) = 88 + layout_size (opt_of s)"
  "length (enc_layout DOSHeader (p_dos s) @ to_le 4 (0x4550 :: u32) @ enc_layout COFFHeader (p_coff s)
     @ enc_layout (opt_of s) (p_opt s) @ enc_dirs (p_dirs s)) = 88 + layout_size (opt_of s) + 8 * length (p_dirs s)"
  by (simp_all add: layout_sizes del: to_le_numeral)

lemma mk_pe_fields:
  assumes "pe_ok s"
  shows "get_field DOSHeader (mk_pe s) 0 ''e_magic'' = Some (0x5A4D :: u16)"
    "get_field DOSHeader (mk_pe s) 0 ''e_lfanew'' = Some (64 :: u32)"
    "rd 4 (mk_pe s) 64 = Some (0x4550 :: u32)"
    "get_field COFFHeader (mk_pe s) 68 ''Machine'' = Some (ucast (p_coff s ''Machine'') :: u16)"
    "get_field COFFHeader (mk_pe s) 68 ''NumberOfSections'' = Some (ucast (p_coff s ''NumberOfSections'') :: u16)"
    "get_field COFFHeader (mk_pe s) 68 ''SizeOfOptionalHeader'' = Some (ucast (p_coff s ''SizeOfOptionalHeader'') :: u16)"
    "rd 2 (mk_pe s) 88 = Some (if p_64 s then 0x20B else 0x10B :: u16)"
proof -
  note ok = assms [unfolded pe_ok_def]
  show "get_field DOSHeader (mk_pe s) 0 ''e_magic'' = Some (0x5A4D :: u16)"
    "get_field DOSHeader (mk_pe s) 0 ''e_lfanew'' = Some (64 :: u32)"
    using get_field_enc [OF mk_pe_split(1), of 0 "''e_magic''", where 'a = 16]
      get_field_enc [OF mk_pe_split(1), of 0 "''e_lfanew''", where 'a = 32] ok
    by (simp_all add: DOSHeader_def del: enc_layout.simps)
  show "rd 4 (mk_pe s) 64 = Some (0x4550 :: u32)"
    unfolding mk_pe_split(2) by (subst rd_at) (simp_all add: layout_sizes of_le_enc_ucast del: to_le_numeral)
  note gc = get_field_enc [OF mk_pe_split(3) mk_pe_offsets(2)]
  show "get_field COFFHeader (mk_pe s) 68 ''Machine'' = Some (ucast (p_coff s ''Machine'') :: u16)"
    "get_field COFFHeader (mk_pe s) 68 ''NumberOfSections'' = Some (ucast (p_coff s ''NumberOfSections'') :: u16)"
    "get_field COFFHeader (mk_pe s) 68 ''SizeOfOptionalHeader'' = Some (ucast (p_coff s ''SizeOfOptionalHeader'') :: u16)"
    by (rule gc; simp add: COFFHeader_def)+
  have l: "layout_at (opt_of s) ''Magic'' 0 = (0, 2)" by (simp add: OptionalHeader64_def OptionalHeader32_def)
  have "get_field (opt_of s) (mk_pe s) 88 ''Magic'' = Some (ucast (p_opt s ''Magic'') :: u16)"
    by (rule get_field_enc [OF mk_pe_split(4) mk_pe_offsets(3)])
       (simp_all add: OptionalHeader64_def OptionalHeader32_def)
  with ok show "rd 2 (mk_pe s) 88 = Some (if p_64 s then 0x20B else 0x10B :: u16)"
    by (auto simp: get_field_def l)
qed

lemma small_ucast: "n < 2 ^ LENGTH('a) \<Longrightarrow> unat (ucast (of_nat n :: u64) :: 'a::len word) = n" if "LENGTH('a) \<le> 64"
proof -
  assume n: "n < 2 ^ LENGTH('a)"
  have "(2 :: nat) ^ LENGTH('a) \<le> 2 ^ 64" using that by (rule power_increasing) simp
  with n have "unat (of_nat n :: u64) = n" by (simp add: unat_of_nat)
  with n show ?thesis by (simp add: unsigned_ucast_eq unsigned_take_bit_eq take_bit_nat_eq_self)
qed

lemma LENGTH_16_le_64: "LENGTH(16) \<le> 64" by simp

lemma mk_pe_headers:
  assumes ok: "pe_ok s"
  shows "load_headers (p_64 s) (mk_pe s) 68 (ucast (p_coff s ''Machine'')) (ucast (p_coff s ''NumberOfSections'')) = Some (image_of s)"
proof -
  let ?d = "88 + layout_size (opt_of s)"
  have ns: "unat (ucast (p_coff s ''NumberOfSections'') :: u16) = length (p_secs s)" "length (p_secs s) \<le> 96"
    and nd: "unat (ucast (p_opt s ''NumberOfRvaAndSizes'') :: u32) = length (p_dirs s)"
    and so: "unat (ucast (p_coff s ''SizeOfOptionalHeader'') :: u16) = layout_size (opt_of s) + 8 * length (p_dirs s)"
  proof -
    show "unat (ucast (p_coff s ''NumberOfSections'') :: u16) = length (p_secs s)" "length (p_secs s) \<le> 96"
      "unat (ucast (p_opt s ''NumberOfRvaAndSizes'') :: u32) = length (p_dirs s)"
      using ok by (simp_all add: pe_ok_def small_ucast)
    have "layout_size (opt_of s) + 8 * length (p_dirs s) < 2 ^ LENGTH(16)" using ok by (simp add: pe_ok_def layout_sizes)
    moreover have e: "p_coff s ''SizeOfOptionalHeader'' = of_nat (layout_size (opt_of s) + 8 * length (p_dirs s))"
      using ok by (auto simp: pe_ok_def layout_sizes)
    ultimately show "unat (ucast (p_coff s ''SizeOfOptionalHeader'') :: u16) = layout_size (opt_of s) + 8 * length (p_dirs s)"
      unfolding e by (intro small_ucast [OF LENGTH_16_le_64])
  qed
  have secs: "parse_sections (mk_pe s) (88 + (layout_size (opt_of s) + 8 * length (p_dirs s))) (length (p_secs s))
      = Some (map (section_of (length (mk_pe s))) (p_secs s))"
    using get_sections [OF mk_pe_split(6) mk_pe_offsets(5)] by (simp only: add.assoc)
  have dir: "directory (mk_pe s) ?d (ucast (p_opt s ''NumberOfRvaAndSizes'')) i
      = Some (if i < length (p_dirs s) then Some (p_dirs s ! i) else None)" for i
    by (rule get_dir [OF mk_pe_split(5) mk_pe_offsets(4) nd])
  have imp: "(case (if 1 < length (p_dirs s) then Some (p_dirs s ! 1) else None) of
      Some (va, sz) \<Rightarrow> parse_imports img va sz | None \<Rightarrow> Some []) = Some []" for img
    using ok by (auto simp: pe_ok_def parse_imports_def split: prod.splits)
  have dirs: "parse_directories (mk_pe s) ?d (ucast (p_opt s ''NumberOfRvaAndSizes'')) img
      = Some (img\<lparr>img_imports := [], export_rva := fst (dir_of (p_dirs s) 0), export_size := snd (dir_of (p_dirs s) 0),
          reloc_rva := fst (dir_of (p_dirs s) 5), reloc_size := snd (dir_of (p_dirs s) 5),
          tls_rva := fst (dir_of (p_dirs s) 9), tls_size := snd (dir_of (p_dirs s) 9)\<rparr>)" for img
    using imp unfolding parse_directories_def dir by (simp add: dir_of_def split_beta)
  show ?thesis
    unfolding load_headers_def Let_def layout_sizes(2)
    using mk_pe_fields(6) [OF ok] get_optional [OF mk_pe_split(4) mk_pe_offsets(3)] ns so secs
    by (simp add: dirs image_of_def img0_def PE_MAX_SECTIONS_def min_absorb1)
qed

lemma mk_pe_load:
  assumes "pe_ok s"
  shows "wg_pe_load_memory True True (mk_pe s) = Some (Some (image_of s))"
proof -
  have "68 \<le> length (mk_pe s)" unfolding mk_pe_split(3) length_append using mk_pe_offsets(2) by simp
  then show ?thesis
    using mk_pe_fields [OF assms] mk_pe_headers [OF assms]
    by (simp add: wg_pe_load_memory_def layout_sizes split del: if_split) (simp split: if_splits)
qed

text \<open>C8: Reading back a file written after the tables of the PE format: for any values of the header
  fields, any data directories (up to
  16, none for imports) and up to 96 section headers, the loader accepts the file (given the memory) and returns
  exactly these values, in the 32-bit and in the 64-bit format; a section gets its data
  pointer exactly when its range is nonempty and ends inside the file.\<close>
theorem pe_header_roundtrip:
  assumes "pe_ok s"
  shows "wg_pe_load_memory True True (mk_pe s) = Some (Some (image_of s))"
  using assms by (rule mk_pe_load)

text \<open>A 64-bit example with one section that holds a relocation directory.\<close>

definition demo_pe :: pe_spec where
  "demo_pe = \<lparr>p_64 = True, p_dos = (\<lambda>_. 0)(''e_magic'' := 0x5A4D, ''e_lfanew'' := 64),
     p_coff = (\<lambda>_. 0)(''Machine'' := 0x8664, ''NumberOfSections'' := 1, ''SizeOfOptionalHeader'' := 160),
     p_opt = (\<lambda>_. 0)(''Magic'' := 0x20B, ''ImageBase'' := 0x140000000, ''NumberOfRvaAndSizes'' := 6),
     p_dirs = [(0, 0), (0, 0), (0, 0), (0, 0), (0, 0), (0x1000, 12)],
     p_secs = [(\<lambda>_. 0)(''VirtualAddress'' := 0x1000, ''SizeOfRawData'' := 32, ''PointerToRawData'' := 288)],
     p_body = replicate 32 0\<rparr>"

lemma demo_pe_ok: "pe_ok demo_pe"
  by (simp add: pe_ok_def demo_pe_def layout_sizes)

theorem pe_header_roundtrip_witness:
  "\<exists>img. wg_pe_load_memory True True (mk_pe demo_pe) = Some (Some img)
     \<and> image_base img = 0x140000000 \<and> machine img = 0x8664 \<and> reloc_rva img = 0x1000"
  using pe_header_roundtrip [OF demo_pe_ok]
  by (simp add: image_of_def demo_pe_def dir_of_def)

theorem pe_load_bounds_witness:
  "\<exists>img. wg_pe_load_memory True True (mk_pe demo_pe) = Some (Some img) \<and> raw_data img = mk_pe demo_pe"
  using pe_load_bounds [OF mk_pe_load [OF demo_pe_ok]] mk_pe_load [OF demo_pe_ok] by blast

end
