(* ===== verification/PE_Rebase.thy ===== *)
theory PE_Rebase
  imports PE_Loader
begin

section \<open>What a rebase does (wg_pe_rebase)\<close>

text \<open>
  The relocation directory read as a list of blocks, and the effect of \<open>wg_pe_rebase\<close> on the
  image's bytes: every located fixup gets the delta, every other byte stays.
\<close>

text \<open>The bytes the code rewrites for an entry: offset and width, if it is a fixup that it locates.\<close>

definition fix_target :: "WGPESection list \<Rightarrow> u32 \<times> u16 \<Rightarrow> (nat \<times> nat) option" where
  "fix_target secs pe =
     (let ty = drop_bit 12 (snd pe); rva = fst pe + ucast (snd pe AND 0xFFF)
      in if ty = 10 then map_option (\<lambda>q. (q, 8)) (rva_to_mut secs rva 8)
         else if ty = 3 then map_option (\<lambda>q. (q, 4)) (rva_to_mut secs rva 4)
         else None)"

definition val_at :: "u8 list \<Rightarrow> nat \<times> nat \<Rightarrow> u64" where
  "val_at raw qn = of_le (take (snd qn) (drop (fst qn) raw))"

definition fix_ok :: "u64 \<Rightarrow> u8 list \<Rightarrow> nat \<times> nat \<Rightarrow> bool" where
  "fix_ok delta raw qn \<longleftrightarrow> fst qn + snd qn \<le> length raw \<and> in_i64 (sint (val_at raw qn) + sint delta)"

definition outside :: "nat \<Rightarrow> nat \<times> nat \<Rightarrow> bool" where
  "outside j t \<longleftrightarrow> j < fst t \<or> fst t + snd t \<le> j"

definition apart :: "nat \<times> nat \<Rightarrow> nat \<times> nat \<Rightarrow> bool" where
  "apart a b \<longleftrightarrow> fst a + snd a \<le> fst b \<or> fst b + snd b \<le> fst a"

lemma wr_spec:
  assumes "wr raw p xs = Some raw'"
  shows "length raw' = length raw" "take (length xs) (drop p raw') = xs"
    "j < p \<or> p + length xs \<le> j \<Longrightarrow> raw' ! j = raw ! j"
  using assms by (auto simp: wr_def nth_append split: if_splits)

lemma take_drop_cong:
  assumes "length raw' = length raw" and "\<And>j. q \<le> j \<Longrightarrow> j < q + n \<Longrightarrow> raw' ! j = raw ! j"
  shows "take n (drop q raw') = take n (drop q raw)"
  using assms by (auto intro!: nth_equalityI)

lemma val_at_narrow: "q + 4 \<le> length raw \<Longrightarrow>
    ucast (of_le (take 4 (drop q raw)) :: u32) = (of_le (take 4 (drop q raw)) :: u64)"
  by (rule bit_word_eqI) (auto simp: bit_simps bit_of_le)

lemma fix_entry_spec:
  assumes "\<And>qn. fix_target secs (page, e) = Some qn \<Longrightarrow> fix_ok delta raw qn"
  shows "\<exists>raw'. fix_entry secs delta page e raw = Some raw' \<and> length raw' = length raw
    \<and> (fix_target secs (page, e) = None \<longrightarrow> raw' = raw)
    \<and> (\<forall>qn. fix_target secs (page, e) = Some qn \<longrightarrow>
         take (snd qn) (drop (fst qn) raw') = to_le (snd qn) (val_at raw qn + delta)
         \<and> (\<forall>j. outside j qn \<longrightarrow> raw' ! j = raw ! j))"
proof (cases "fix_target secs (page, e)")
  case None
  then have "fix_entry secs delta page e raw = Some raw"
    by (auto simp: fix_entry_def fix_target_def Let_def split: if_splits)
  with None show ?thesis by simp
next
  case (Some qn)
  obtain q n where qn: "qn = (q, n)" by (cases qn)
  have ok: "q + n \<le> length raw" "in_i64 (sint (val_at raw (q, n)) + sint delta)"
    using assms [OF Some] qn by (simp_all add: fix_ok_def)
  consider "drop_bit 12 e = (10 :: u16)" "n = 8" "rva_to_mut secs (page + ucast (e AND 0xFFF)) 8 = Some q"
    | "drop_bit 12 e = (3 :: u16)" "n = 4" "rva_to_mut secs (page + ucast (e AND 0xFFF)) 4 = Some q"
    using Some qn by (auto simp: fix_target_def Let_def split: if_splits)
  then have fe: "fix_entry secs delta page e raw = wr raw q (to_le n (val_at raw (q, n) + delta))"
  proof cases
    case 1
    then show ?thesis using ok
      by (simp add: fix_entry_def Let_def rd_def val_at_def sadd64_def del: to_le_numeral)
  next
    case 2
    have "to_le 4 (ucast (x :: u64) :: u32) = to_le 4 x" for x
      by (intro nth_equalityI) (auto simp: nth_to_le bit_simps intro!: bit_word_eqI simp del: to_le_numeral)
    with 2 show ?thesis using ok val_at_narrow [of q raw]
      by (simp add: fix_entry_def Let_def rd_def val_at_def sadd64_def del: to_le_numeral)
  qed
  obtain raw' where w: "wr raw q (to_le n (val_at raw (q, n) + delta)) = Some raw'"
    using ok by (simp add: wr_def)
  from wr_spec [OF w] show ?thesis
    using fe w Some qn by (intro exI [of _ raw']) (simp add: outside_def)
qed

subsection \<open>All fixups of a list\<close>

fun fix_all :: "WGPESection list \<Rightarrow> u64 \<Rightarrow> (u32 \<times> u16) list \<Rightarrow> u8 list \<Rightarrow> u8 list option" where
  "fix_all secs delta [] raw = Some raw"
| "fix_all secs delta (pe # pes) raw = Option.bind (fix_entry secs delta (fst pe) (snd pe) raw) (fix_all secs delta pes)"

lemma fix_all_append: "fix_all secs delta (xs @ ys) raw = Option.bind (fix_all secs delta xs raw) (fix_all secs delta ys)"
  by (induction xs arbitrary: raw) (auto split: bind_splits)

definition targets :: "WGPESection list \<Rightarrow> (u32 \<times> u16) list \<Rightarrow> (nat \<times> nat) list" where
  "targets secs pes = List.map_filter (fix_target secs) pes"

lemma targets_simps [simp]:
  "targets secs [] = []"
  "targets secs (pe # pes) = (case fix_target secs pe of None \<Rightarrow> targets secs pes | Some t \<Rightarrow> t # targets secs pes)"
  by (simp_all add: targets_def map_filter_simps split: option.splits)

lemma fix_target_in: "pe \<in> set pes \<Longrightarrow> fix_target secs pe = Some t \<Longrightarrow> t \<in> set (targets secs pes)"
  by (induction pes) (auto split: option.splits)

lemma apart_outside: "apart a b \<Longrightarrow> fst b \<le> j \<Longrightarrow> j < fst b + snd b \<Longrightarrow> outside j a"
  by (auto simp: apart_def outside_def)

text \<open>If no two targets overlap, each is rewritten from its original value.\<close>

lemma fix_all_spec:
  "sorted_wrt apart (targets secs pes) \<Longrightarrow> \<forall>t \<in> set (targets secs pes). fix_ok delta raw t \<Longrightarrow>
   \<exists>raw'. fix_all secs delta pes raw = Some raw' \<and> length raw' = length raw
     \<and> (\<forall>t \<in> set (targets secs pes). take (snd t) (drop (fst t) raw') = to_le (snd t) (val_at raw t + delta))
     \<and> (\<forall>j. (\<forall>t \<in> set (targets secs pes). outside j t) \<longrightarrow> raw' ! j = raw ! j)"
proof (induction pes arbitrary: raw)
  case (Cons pe pes)
  obtain page e where pe: "pe = (page, e)" by (cases pe)
  have ok: "\<And>qn. fix_target secs (page, e) = Some qn \<Longrightarrow> fix_ok delta raw qn"
    using Cons.prems(2) pe by simp
  obtain raw1 where r1: "fix_entry secs delta page e raw = Some raw1" "length raw1 = length raw"
    and n: "fix_target secs (page, e) = None \<longrightarrow> raw1 = raw"
    and s: "\<forall>qn. fix_target secs (page, e) = Some qn \<longrightarrow>
       take (snd qn) (drop (fst qn) raw1) = to_le (snd qn) (val_at raw qn + delta)
       \<and> (\<forall>j. outside j qn \<longrightarrow> raw1 ! j = raw ! j)"
    using fix_entry_spec [OF ok] by blast
  show ?case
  proof (cases "fix_target secs (page, e)")
    case None
    with Cons.IH [of raw] Cons.prems r1 n pe show ?thesis by simp
  next
    case (Some t0)
    have ap: "\<forall>t \<in> set (targets secs pes). apart t0 t" and srt: "sorted_wrt apart (targets secs pes)"
      using Cons.prems(1) Some pe by simp_all
    have keep: "take (snd t) (drop (fst t) raw1) = take (snd t) (drop (fst t) raw)" if "t \<in> set (targets secs pes)" for t
    proof (rule take_drop_cong [OF r1(2)])
      fix j assume "fst t \<le> j" "j < fst t + snd t"
      with apart_outside [of t0 t j] ap that have "outside j t0" by blast
      then show "raw1 ! j = raw ! j" using s Some by simp
    qed
    then have v: "val_at raw1 t = val_at raw t" "fix_ok delta raw1 t" if "t \<in> set (targets secs pes)" for t
      using that Cons.prems(2) Some pe r1(2) by (simp_all add: val_at_def fix_ok_def)
    from Cons.IH [OF srt, of raw1] v obtain raw' where r': "fix_all secs delta pes raw1 = Some raw'"
      "length raw' = length raw1"
      "\<forall>t \<in> set (targets secs pes). take (snd t) (drop (fst t) raw') = to_le (snd t) (val_at raw1 t + delta)"
      "\<forall>j. (\<forall>t \<in> set (targets secs pes). outside j t) \<longrightarrow> raw' ! j = raw1 ! j" by blast
    have ap': "apart t t0" if "t \<in> set (targets secs pes)" for t using ap that by (auto simp: apart_def)
    have "take (snd t0) (drop (fst t0) raw') = take (snd t0) (drop (fst t0) raw1)"
    proof (rule take_drop_cong [OF r'(2)])
      fix j assume "fst t0 \<le> j" "j < fst t0 + snd t0"
      with apart_outside [OF ap', of _ j] show "raw' ! j = raw1 ! j" using r'(4) by blast
    qed
    then show ?thesis
      using r' r1 v Some s pe by (intro exI [of _ raw']) auto
  qed
qed simp

subsection \<open>The directory as a list of blocks\<close>

type_synonym reloc_block = "u32 \<times> u16 list"

definition block_size :: "reloc_block \<Rightarrow> nat" where
  "block_size b = 8 + 2 * length (snd b)"

definition enc_block :: "reloc_block \<Rightarrow> u8 list" where
  "enc_block b = to_le 4 (fst b) @ to_le 4 (of_nat (block_size b) :: u32) @ concat (map (to_le 2) (snd b))"

definition enc_relocs :: "reloc_block list \<Rightarrow> u8 list" where
  "enc_relocs bs = concat (map enc_block bs)"

definition entries_of :: "reloc_block list \<Rightarrow> (u32 \<times> u16) list" where
  "entries_of bs = concat (map (\<lambda>b. map (Pair (fst b)) (snd b)) bs)"

lemma enc_entries_length [simp]: "length (concat (map (to_le 2) es)) = 2 * length es"
  by (induction es) (auto simp del: to_le_numeral)

lemma enc_block_length [simp]: "length (enc_block b) = block_size b"
  by (simp add: enc_block_def block_size_def del: to_le_numeral)

text \<open>The bytes \<open>xs\<close> are in the file at offset \<open>p\<close>.\<close>

definition bytes_at :: "u8 list \<Rightarrow> nat \<Rightarrow> u8 list \<Rightarrow> bool" where
  "bytes_at raw p xs \<longleftrightarrow> p + length xs \<le> length raw \<and> take (length xs) (drop p raw) = xs"

lemma bytes_at_append: "bytes_at raw p (xs @ ys) \<longleftrightarrow> bytes_at raw p xs \<and> bytes_at raw (p + length xs) ys"
proof -
  have "take (length xs + length ys) (drop p raw) = take (length xs) (drop p raw) @ take (length ys) (drop (p + length xs) raw)"
    by (simp add: take_add add.commute)
  then show ?thesis
    by (cases "p + length xs + length ys \<le> length raw") (auto simp: bytes_at_def add.assoc)
qed

lemma rd_bytes_at: "bytes_at raw p (to_le n (w :: 'a::len word)) \<Longrightarrow> 8 * n = LENGTH('a) \<Longrightarrow> rd n raw p = Some w"
  by (simp add: bytes_at_def rd_def of_le_to_le)

lemma fix_entry_frame:
  assumes "fix_entry secs delta page e raw = Some raw'"
  shows "length raw' = length raw
    \<and> (\<forall>j. (\<forall>t. fix_target secs (page, e) = Some t \<longrightarrow> outside j t) \<longrightarrow> raw' ! j = raw ! j)"
  using assms wr_spec
  by (fastforce simp: fix_entry_def fix_target_def Let_def outside_def split: if_splits option.splits bind_splits
      simp del: to_le_numeral)

lemma fix_entry_keeps:
  assumes "fix_entry secs delta page e raw = Some raw'" and "bytes_at raw p xs"
    and "\<And>t. fix_target secs (page, e) = Some t \<Longrightarrow> apart t (p, length xs)"
  shows "bytes_at raw' p xs"
proof -
  note fr = fix_entry_frame [OF assms(1)]
  have "take (length xs) (drop p raw') = take (length xs) (drop p raw)"
    using fr assms(3) apart_outside [of _ "(p, length xs)"] by (intro take_drop_cong) auto
  with fr assms(2) show ?thesis by (simp add: bytes_at_def)
qed

lemma fix_all_keeps:
  "fix_all secs delta pes raw = Some raw' \<Longrightarrow> bytes_at raw p xs \<Longrightarrow>
   \<forall>t \<in> set (targets secs pes). apart t (p, length xs) \<Longrightarrow> bytes_at raw' p xs"
proof (induction pes arbitrary: raw)
  case (Cons pe pes)
  obtain raw1 where r: "fix_entry secs delta (fst pe) (snd pe) raw = Some raw1" "fix_all secs delta pes raw1 = Some raw'"
    using Cons.prems(1) by (auto split: bind_splits)
  have "bytes_at raw1 p xs"
    by (rule fix_entry_keeps [OF r(1) Cons.prems(2)]) (use Cons.prems(3) in simp)
  with Cons.IH [OF r(2)] Cons.prems(3) show ?case by (simp split: option.splits)
qed simp

lemma apart_sub: "apart t (p, n) \<Longrightarrow> p \<le> q \<Longrightarrow> q + m \<le> p + n \<Longrightarrow> apart t (q, m)"
  by (auto simp: apart_def)

lemma fix_entries_all:
  "bytes_at raw p (concat (map (to_le 2) es)) \<Longrightarrow>
   \<forall>t \<in> set (targets secs (map (Pair page) es)). apart t (p, 2 * length es) \<Longrightarrow>
   fix_entries secs delta page p (length es) raw = fix_all secs delta (map (Pair page) es) raw"
proof (induction es arbitrary: p raw)
  case (Cons e es)
  have b: "bytes_at raw p (to_le 2 e)" "bytes_at raw (p + 2) (concat (map (to_le 2) es))"
    using Cons.prems(1) by (simp_all add: bytes_at_append del: to_le_numeral)
  have rd: "rd 2 raw p = Some e" using rd_bytes_at [OF b(1)] by simp
  show ?case
  proof (cases "fix_entry secs delta page e raw")
    case (Some raw1)
    have "bytes_at raw1 (p + 2) (concat (map (to_le 2) es))"
    proof (rule fix_entry_keeps [OF Some b(2)])
      fix t assume "fix_target secs (page, e) = Some t"
      with Cons.prems(2) show "apart t (p + 2, length (concat (map (to_le 2) es)))"
        by (auto intro: apart_sub [of t p "2 * Suc (length es)"] simp del: to_le_numeral)
    qed
    moreover have "\<forall>t \<in> set (targets secs (map (Pair page) es)). apart t (p + 2, 2 * length es)"
      using Cons.prems(2) by (auto intro: apart_sub [of _ p "2 * Suc (length es)"] split: option.splits)
    ultimately show ?thesis using Cons.IH [of raw1 "p + 2"] rd Some by (simp del: to_le_numeral)
  qed (simp add: rd)
qed simp

lemma enc_relocs_simps [simp]:
  "enc_relocs [] = []" "enc_relocs (b # bs) = enc_block b @ enc_relocs bs"
  "entries_of [] = []" "entries_of (b # bs) = map (Pair (fst b)) (snd b) @ entries_of bs"
  by (simp_all add: enc_relocs_def entries_of_def)

lemma targets_append: "targets secs (xs @ ys) = targets secs xs @ targets secs ys"
  by (induction xs) (auto split: option.splits)

text \<open>The block loop applies the entries in order, as long as they stay clear of the directory.\<close>

lemma rebase_loop_all:
  assumes L: "L + 8 < 2 ^ 32" and rs: "rsize = of_nat L"
    and ptr: "\<And>o'. o' < L \<Longrightarrow> rva_to_ptr secs (rrva + of_nat o') = Some (p0 + o')"
  shows "off + length (enc_relocs bs) = L \<Longrightarrow> bytes_at raw (p0 + off) (enc_relocs bs) \<Longrightarrow>
    \<forall>t \<in> set (targets secs (entries_of bs)). apart t (p0, L) \<Longrightarrow>
    rebase_loop secs rrva rsize delta (of_nat off) raw = fix_all secs delta (entries_of bs) raw"
proof (induction bs arbitrary: off raw)
  case Nil
  then have "off = L" by simp
  moreover have "\<not> (of_nat L :: u32) + 8 \<le> of_nat L"
    using L by (simp add: word_le_nat_alt unat_word_ariths unat_of_nat)
  ultimately show ?case using rs by (subst rebase_loop.simps) simp
next
  case (Cons b bs)
  let ?n = "block_size b"
  have bs: "off + ?n + length (enc_relocs bs) = L" "8 \<le> ?n" using Cons.prems(1) by (simp_all add: block_size_def)
  have ba: "bytes_at raw (p0 + off) (to_le 4 (fst b))" "bytes_at raw (p0 + off + 4) (to_le 4 (of_nat ?n :: u32))"
    "bytes_at raw (p0 + off + 8) (concat (map (to_le 2) (snd b)))" "bytes_at raw (p0 + (off + ?n)) (enc_relocs bs)"
    using Cons.prems(2) by (simp_all add: enc_block_def bytes_at_append block_size_def add.assoc del: to_le_numeral)
  have rd: "rd 4 raw (p0 + off) = Some (fst b)" "rd 4 raw (p0 + off + 4) = Some (of_nat ?n :: u32)"
    using rd_bytes_at [OF ba(1)] rd_bytes_at [OF ba(2)] by simp_all
  have un: "unat (of_nat ?n :: u32) = ?n" using bs L by (simp add: unat_of_nat)
  have w: "(of_nat off :: u32) + 8 \<le> of_nat L" "\<not> (of_nat ?n :: u32) < 8" "\<not> (of_nat L :: u32) < of_nat off + of_nat ?n"
    "unat (of_nat ?n - 8 :: u32) div 2 = length (snd b)"
    using bs L un by (simp_all add: word_le_nat_alt word_less_nat_alt unat_word_ariths unat_of_nat unat_sub block_size_def)
  have ap: "\<forall>t \<in> set (targets secs (map (Pair (fst b)) (snd b))). apart t (p0, L)"
    "\<forall>t \<in> set (targets secs (entries_of bs)). apart t (p0, L)"
    using Cons.prems(3) by (simp_all add: targets_append)
  have fe: "fix_entries secs delta (fst b) (p0 + off + 8) (length (snd b)) raw
      = fix_all secs delta (map (Pair (fst b)) (snd b)) raw"
    by (rule fix_entries_all [OF ba(3)]) (use ap(1) bs in \<open>auto intro: apart_sub simp: block_size_def\<close>)
  have go: "rebase_loop secs rrva rsize delta (of_nat off) raw =
      Option.bind (fix_all secs delta (map (Pair (fst b)) (snd b)) raw)
        (rebase_loop secs rrva rsize delta (of_nat (off + ?n)))"
    using ptr [of off] bs w rd fe rs by (subst rebase_loop.simps) simp
  show ?case
  proof (cases "fix_all secs delta (map (Pair (fst b)) (snd b)) raw")
    case (Some raw1)
    have "bytes_at raw1 (p0 + (off + ?n)) (enc_relocs bs)"
      by (rule fix_all_keeps [OF Some ba(4)]) (use ap(1) bs in \<open>auto intro: apart_sub\<close>)
    from Cons.IH [OF bs(1) this ap(2)] go Some show ?thesis by (simp add: fix_all_append)
  qed (simp add: go fix_all_append)
qed

lemma rewrite_header_ok: "\<exists>raw'. rewrite_header is64 nb raw = Some raw' \<and> length raw' = length raw"
  by (auto simp: rewrite_header_def rd_def wr_def Let_def simp del: to_le_numeral)

lemma rewrite_header_small: "length raw \<le> 0x100 \<Longrightarrow> rewrite_header is64 nb raw = Some raw"
  by (simp add: rewrite_header_def)

text \<open>An image in which the code finds the encoding of the blocks \<open>bs\<close> as its directory, at file
  offset \<open>p0\<close>.\<close>

definition relocs_seen :: "WGPEImage \<Rightarrow> nat \<Rightarrow> reloc_block list \<Rightarrow> bool" where
  "relocs_seen img p0 bs \<longleftrightarrow> reloc_rva img \<noteq> 0 \<and> bs \<noteq> []
     \<and> length (enc_relocs bs) + 8 < 2 ^ 32 \<and> reloc_size img = of_nat (length (enc_relocs bs))
     \<and> (\<forall>o' < length (enc_relocs bs). rva_to_ptr (sections img) (reloc_rva img + of_nat o') = Some (p0 + o'))
     \<and> bytes_at (raw_data img) p0 (enc_relocs bs)"

lemma rebase_targets:
  assumes "relocs_seen img p0 bs" and "image_base img \<noteq> nb"
    and "sorted_wrt apart (targets (sections img) (entries_of bs))"
    and "\<forall>t \<in> set (targets (sections img) (entries_of bs)). apart t (p0, length (enc_relocs bs))
           \<and> fix_ok (nb - image_base img) (raw_data img) t"
  shows "\<exists>raw img'. wg_pe_rebase img nb = Some (True, img') \<and> image_base img' = nb
    \<and> rewrite_header (is_64bit img) nb raw = Some (raw_data img') \<and> length (raw_data img') = length (raw_data img)
    \<and> (\<forall>t \<in> set (targets (sections img) (entries_of bs)).
         take (snd t) (drop (fst t) raw) = to_le (snd t) (val_at (raw_data img) t + (nb - image_base img)))
    \<and> (\<forall>j. (\<forall>t \<in> set (targets (sections img) (entries_of bs)). outside j t) \<longrightarrow> raw ! j = raw_data img ! j)"
proof -
  let ?secs = "sections img" and ?d = "nb - image_base img"
  note at = assms(1) [unfolded relocs_seen_def]
  obtain raw where raw: "fix_all ?secs ?d (entries_of bs) (raw_data img) = Some raw" "length raw = length (raw_data img)"
    "\<forall>t \<in> set (targets ?secs (entries_of bs)). take (snd t) (drop (fst t) raw) = to_le (snd t) (val_at (raw_data img) t + ?d)"
    "\<forall>j. (\<forall>t \<in> set (targets ?secs (entries_of bs)). outside j t) \<longrightarrow> raw ! j = raw_data img ! j"
    using fix_all_spec [OF assms(3), of ?d "raw_data img"] assms(4) by blast
  have "rebase_loop ?secs (reloc_rva img) (reloc_size img) ?d (of_nat 0) (raw_data img)
      = fix_all ?secs ?d (entries_of bs) (raw_data img)"
    by (rule rebase_loop_all) (use at assms(4) in auto)
  with raw(1) have lp: "rebase_loop ?secs (reloc_rva img) (reloc_size img) ?d 0 (raw_data img) = Some raw" by simp
  have "0 < length (enc_relocs bs)" using at by (cases bs) (simp_all add: block_size_def)
  then have "unat (reloc_size img) \<noteq> 0" using at by (simp add: unat_of_nat)
  then have rs: "reloc_size img \<noteq> 0" by auto
  obtain raw' where rh: "rewrite_header (is_64bit img) nb raw = Some raw'" "length raw' = length raw"
    using rewrite_header_ok by blast
  have "wg_pe_rebase img nb = Some (True, img\<lparr>raw_data := raw', image_base := nb\<rparr>)"
    using assms(2) at rs lp rh by (simp add: wg_pe_rebase_def)
  with raw rh show ?thesis by (intro exI [of _ raw] exI) auto
qed

text \<open>
  The fixups as the format defines them, over the natural numbers: entry \<open>e\<close> of the page at \<open>page\<close>
  relocates the 8 (type 10, \<open>DIR64\<close>) or 4 bytes (type 3, \<open>HIGHLOW\<close>) at the address \<open>page\<close> plus its
  low twelve bits, which are in the file where the first section that holds all of them has its data.
\<close>

definition fix_width :: "u16 \<Rightarrow> nat option" where
  "fix_width e = (if unat e div 0x1000 = 10 then Some 8 else if unat e div 0x1000 = 3 then Some 4 else None)"

definition fix_addr :: "u32 \<times> u16 \<Rightarrow> nat" where
  "fix_addr pe = unat (fst pe) + unat (snd pe) mod 0x1000"

definition holds_bytes :: "nat \<Rightarrow> nat \<Rightarrow> WGPESection \<Rightarrow> bool" where
  "holds_bytes a n s \<longleftrightarrow> sec_data s \<noteq> None \<and> unat (virtual_address s) \<le> a
     \<and> a + n \<le> unat (virtual_address s) + unat (sec_raw_size s)"

definition file_pos :: "WGPESection list \<Rightarrow> nat \<Rightarrow> nat \<Rightarrow> nat option" where
  "file_pos secs a n = (case find (holds_bytes a n) secs of
     Some s \<Rightarrow> Some (the (sec_data s) + (a - unat (virtual_address s))) | None \<Rightarrow> None)"

definition fixup :: "WGPESection list \<Rightarrow> u32 \<times> u16 \<Rightarrow> (nat \<times> nat) option" where
  "fixup secs pe = (case fix_width (snd pe) of None \<Rightarrow> None
     | Some n \<Rightarrow> (case file_pos secs (fix_addr pe) n of None \<Rightarrow> None | Some q \<Rightarrow> Some (q, n)))"

definition fixups :: "WGPEImage \<Rightarrow> reloc_block list \<Rightarrow> (nat \<times> nat) list" where
  "fixups img bs = List.map_filter (fixup (sections img)) (entries_of bs)"

text \<open>The relocation directory of the image is the encoding of the blocks \<open>bs\<close>, at file offset \<open>p0\<close>.\<close>

definition relocs_at :: "WGPEImage \<Rightarrow> nat \<Rightarrow> reloc_block list \<Rightarrow> bool" where
  "relocs_at img p0 bs \<longleftrightarrow> reloc_rva img \<noteq> 0 \<and> bs \<noteq> []
     \<and> length (enc_relocs bs) + 8 < 2 ^ 32 \<and> reloc_size img = of_nat (length (enc_relocs bs))
     \<and> (\<forall>k < length (enc_relocs bs). file_pos (sections img) (unat (reloc_rva img) + k) 1 = Some (p0 + k))
     \<and> bytes_at (raw_data img) p0 (enc_relocs bs)"

text \<open>No section with data wraps around, and every fixup is in one.\<close>

definition sections_fit :: "WGPEImage \<Rightarrow> bool" where
  "sections_fit img \<longleftrightarrow> (\<forall>s \<in> set (sections img). unat (virtual_address s) + unat (sec_raw_size s) < 2 ^ 32)"

definition all_located :: "WGPEImage \<Rightarrow> reloc_block list \<Rightarrow> bool" where
  "all_located img bs \<longleftrightarrow> (\<forall>pe \<in> set (entries_of bs). fix_width (snd pe) \<noteq> None \<longrightarrow> fixup (sections img) pe \<noteq> None)"

lemma rva_to_mut_pos:
  assumes "\<forall>s \<in> set secs. unat (virtual_address s) + unat (sec_raw_size s) < 2 ^ 32"
    and "unat rva + unat need < 2 ^ 32"
  shows "rva_to_mut secs rva need = file_pos secs (unat rva) (unat need)"
  using assms(1)
proof (induction secs)
  case Nil
  then show ?case by (simp add: file_pos_def)
next
  case (Cons s ss)
  have u: "unat (rva + need) = unat rva + unat need" "unat (virtual_address s + sec_raw_size s)
      = unat (virtual_address s) + unat (sec_raw_size s)"
    using assms(2) Cons.prems by (simp_all add: unat_word_ariths)
  then have h: "(sec_data s \<noteq> None \<and> rva \<ge> virtual_address s \<and> rva + need \<le> virtual_address s + sec_raw_size s)
      \<longleftrightarrow> holds_bytes (unat rva) (unat need) s"
    by (auto simp: holds_bytes_def word_le_nat_alt)
  show ?case
  proof (cases "holds_bytes (unat rva) (unat need) s")
    case True
    then have "virtual_address s \<le> rva" by (simp add: holds_bytes_def word_le_nat_alt)
    with True h show ?thesis by (auto simp: file_pos_def unat_sub)
  next
    case False
    with h Cons show ?thesis by (auto simp: file_pos_def)
  qed
qed

lemma file_pos_fits: "file_pos secs a n = Some q \<Longrightarrow>
    \<forall>s \<in> set secs. unat (virtual_address s) + unat (sec_raw_size s) < 2 ^ 32 \<Longrightarrow> a + n < 2 ^ 32"
  by (force simp: file_pos_def holds_bytes_def find_Some_iff in_set_conv_nth split: option.splits)

lemma fix_type: "(drop_bit 12 e = (of_nat k :: u16)) = (unat e div 0x1000 = k)" if "k < 16" for e :: u16
proof -
  have "drop_bit 12 e = of_nat k \<longleftrightarrow> unat (drop_bit 12 e) = unat (of_nat k :: u16)" by (rule word_unat_eq_iff)
  then show ?thesis using that by (simp add: unat_of_nat unat_drop_bit_eq drop_bit_eq_div unat_div)
qed

lemma fixup_target:
  assumes "\<forall>s \<in> set secs. unat (virtual_address s) + unat (sec_raw_size s) < 2 ^ 32"
    and "fix_width (snd pe) \<noteq> None \<Longrightarrow> fixup secs pe \<noteq> None"
  shows "fix_target secs pe = fixup secs pe"
proof (cases "fix_width (snd pe)")
  case None
  then show ?thesis
    using fix_type [of 10 "snd pe"] fix_type [of 3 "snd pe"]
    by (auto simp: fixup_def fix_target_def fix_width_def Let_def split: if_splits)
next
  case (Some n)
  then obtain q where q: "file_pos secs (fix_addr pe) n = Some q"
    using assms(2) by (auto simp: fixup_def split: option.splits)
  note fits = file_pos_fits [OF q assms(1)]
  have e: "unat (ucast (snd pe AND 0xFFF) :: u32) = unat (snd pe) mod 0x1000"
  proof -
    have m: "(0xFFF :: u16) = mask 12" by (simp add: mask_eq_exp_minus_1)
    have "unat (snd pe) mod 0x1000 < 2 ^ 32" by (rule less_trans [OF mod_less_divisor]) simp_all
    then show ?thesis unfolding m
      by (simp add: unsigned_ucast_eq unsigned_take_bit_eq take_bit_eq_mask [symmetric] take_bit_eq_mod unat_mod)
  qed
  then have rva: "unat (fst pe + ucast (snd pe AND 0xFFF)) = fix_addr pe"
    using fits by (simp add: unat_word_ariths fix_addr_def)
  have "rva_to_mut secs (fst pe + ucast (snd pe AND 0xFFF)) (of_nat n) = Some q" if "n < 16"
    using that rva fits q rva_to_mut_pos [OF assms(1), of "fst pe + ucast (snd pe AND 0xFFF)" "of_nat n"]
    by (simp add: unat_of_nat)
  then show ?thesis
    using Some q fix_type [of 10 "snd pe"] fix_type [of 3 "snd pe"]
    by (auto simp: fixup_def fix_target_def fix_width_def Let_def split: if_splits)
qed

lemma fixups_targets:
  assumes "sections_fit img" "all_located img bs"
  shows "targets (sections img) (entries_of bs) = fixups img bs"
proof -
  have "\<forall>pe \<in> set (entries_of bs). fix_target (sections img) pe = fixup (sections img) pe"
    using assms by (auto simp: sections_fit_def all_located_def intro!: fixup_target)
  then show ?thesis by (simp add: targets_def fixups_def List.map_filter_def cong: filter_cong map_cong)
qed

lemma rva_to_ptr_pos:
  assumes "\<forall>s \<in> set secs. unat (virtual_address s) + unat (sec_raw_size s) < 2 ^ 32"
  shows "rva_to_ptr secs rva = file_pos secs (unat rva) 1"
  using assms
proof (induction secs)
  case Nil
  then show ?case by (simp add: file_pos_def)
next
  case (Cons s ss)
  have u: "unat (virtual_address s + sec_raw_size s) = unat (virtual_address s) + unat (sec_raw_size s)"
    using Cons.prems by (simp add: unat_word_ariths)
  then have h: "(rva \<ge> virtual_address s \<and> rva < virtual_address s + sec_raw_size s
         \<and> sec_data s \<noteq> None \<and> rva - virtual_address s < sec_raw_size s) \<longleftrightarrow> holds_bytes (unat rva) 1 s"
    by (auto simp: holds_bytes_def word_le_nat_alt word_less_nat_alt unat_sub)
  show ?case
  proof (cases "holds_bytes (unat rva) 1 s")
    case True
    then have "virtual_address s \<le> rva" by (simp add: holds_bytes_def word_le_nat_alt)
    with True h show ?thesis by (auto simp: file_pos_def unat_sub)
  next
    case False
    with h Cons show ?thesis by (auto simp: file_pos_def)
  qed
qed

lemma relocs_at_seen:
  assumes "relocs_at img p0 bs" "sections_fit img"
  shows "relocs_seen img p0 bs"
proof -
  have "rva_to_ptr (sections img) (reloc_rva img + of_nat k) = Some (p0 + k)" if k: "k < length (enc_relocs bs)" for k
  proof -
    have p: "file_pos (sections img) (unat (reloc_rva img) + k) 1 = Some (p0 + k)"
      using assms(1) k by (simp add: relocs_at_def)
    have "unat (reloc_rva img) + k < 2 ^ 32" using file_pos_fits [OF p] assms(2) by (simp add: sections_fit_def)
    then have "unat (reloc_rva img + of_nat k) = unat (reloc_rva img) + k"
      by (simp add: unat_word_ariths unat_of_nat)
    then show ?thesis using p assms(2) by (simp add: rva_to_ptr_pos sections_fit_def)
  qed
  with assms(1) show ?thesis by (simp add: relocs_at_def relocs_seen_def)
qed

text \<open>C9: Rebasing relocates: for an image whose directory is the encoding of the blocks \<open>bs\<close>, none of
  whose sections wraps around and whose fixups all lie in a section with data, \<open>wg_pe_rebase\<close>
  succeeds, adds the difference of the bases to the word of every \<open>DIR64\<close> and \<open>HIGHLOW\<close> fixup of the
  directory, changes no other byte before it rewrites the base in the header, and records the new
  base.  The fixups must not overlap one another or the directory, must lie in the file, and their
  sums must not overflow 64 bits.\<close>
theorem pe_rebase_correct:
  assumes "relocs_at img p0 bs" and "image_base img \<noteq> nb" and "sections_fit img" and "all_located img bs"
    and "sorted_wrt apart (fixups img bs)"
    and "\<forall>t \<in> set (fixups img bs). apart t (p0, length (enc_relocs bs))
           \<and> fix_ok (nb - image_base img) (raw_data img) t"
  shows "\<exists>raw img'. wg_pe_rebase img nb = Some (True, img') \<and> image_base img' = nb
    \<and> rewrite_header (is_64bit img) nb raw = Some (raw_data img') \<and> length (raw_data img') = length (raw_data img)
    \<and> (\<forall>t \<in> set (fixups img bs).
         take (snd t) (drop (fst t) raw) = to_le (snd t) (val_at (raw_data img) t + (nb - image_base img)))
    \<and> (\<forall>j. (\<forall>t \<in> set (fixups img bs). outside j t) \<longrightarrow> raw ! j = raw_data img ! j)"
  by (rule rebase_targets [OF relocs_at_seen [OF assms(1,3)] assms(2), unfolded fixups_targets [OF assms(3,4)], OF assms(5,6)])

text \<open>An image with one section: the directory with one \<open>DIR64\<close> entry, then the word it relocates.\<close>

definition demo_blocks :: "reloc_block list" where "demo_blocks = [(0x1000, [0xA010])]"

definition demo_img :: WGPEImage where
  "demo_img = img0\<lparr>image_base := 0x140000000, is_64bit := True, reloc_rva := 0x1000, reloc_size := 10,
     sections := [\<lparr>sec_name = [], virtual_size = 32, virtual_address = 0x1000, sec_raw_size = 32, raw_offset = 1,
        characteristics = 0, sec_data = Some 0\<rparr>],
     raw_data := enc_relocs demo_blocks @ replicate 6 0 @ to_le 8 (0x140001234 :: u64) @ replicate 8 0\<rparr>"

lemma demo_reloc_bytes: "enc_relocs demo_blocks = [0, 0x10, 0, 0, 10, 0, 0, 0, 0x10, 0xA0]"
  by (simp add: demo_blocks_def enc_block_def block_size_def)

lemma demo_img_relocs: "relocs_at demo_img 0 demo_blocks"
proof -
  have "file_pos (sections demo_img) (0x1000 + i) 1 = Some i" if "i < 10" for i
    using that by (simp add: demo_img_def file_pos_def holds_bytes_def)
  then show ?thesis
    unfolding relocs_at_def demo_reloc_bytes
    by (simp add: demo_img_def demo_reloc_bytes bytes_at_def) (simp add: demo_blocks_def)
qed

lemma demo_fixups: "fixups demo_img demo_blocks = [(16, 8)]" "sections_fit demo_img" "all_located demo_img demo_blocks"
  by (simp_all add: demo_blocks_def demo_img_def fixups_def sections_fit_def all_located_def fixup_def fix_width_def
      fix_addr_def file_pos_def holds_bytes_def List.map_filter_def)

theorem pe_rebase_correct_witness:
  "\<exists>img'. wg_pe_rebase demo_img 0x10000000 = Some (True, img')
     \<and> take 8 (drop 16 (raw_data img')) = to_le 8 (0x10001234 :: u64)"
proof -
  have v: "val_at (raw_data demo_img) (16, 8) = 0x140001234"
    by (simp add: val_at_def demo_img_def demo_reloc_bytes)
  have l: "length (raw_data demo_img) = 32" by (simp add: demo_img_def demo_reloc_bytes)
  have ok: "\<forall>t \<in> set (fixups demo_img demo_blocks).
      apart t (0, length (enc_relocs demo_blocks)) \<and> fix_ok (0x10000000 - image_base demo_img) (raw_data demo_img) t"
    unfolding demo_fixups(1) demo_reloc_bytes using v l
    by (simp add: apart_def fix_ok_def) (simp add: demo_img_def in_i64_def)
  have nb: "image_base demo_img \<noteq> 0x10000000" by (simp add: demo_img_def)
  have srt: "sorted_wrt apart (fixups demo_img demo_blocks)" by (simp add: demo_fixups(1))
  obtain raw img' where r: "wg_pe_rebase demo_img 0x10000000 = Some (True, img')"
    "rewrite_header (is_64bit demo_img) 0x10000000 raw = Some (raw_data img')"
    "length (raw_data img') = length (raw_data demo_img)"
    "take 8 (drop 16 raw) = to_le 8 (val_at (raw_data demo_img) (16, 8) + (0x10000000 - image_base demo_img))"
    using pe_rebase_correct [OF demo_img_relocs nb demo_fixups(2,3) srt ok] unfolding demo_fixups(1) by auto
  have "length raw = 32" using rewrite_header_ok [of "is_64bit demo_img" "0x10000000" raw] r(2,3) l by simp
  with r(2) have "raw_data img' = raw" by (simp add: rewrite_header_small)
  with r(1,4) v show ?thesis by (simp add: demo_img_def)
qed

end
