(* ===== verification/Heap_Blocks.thy ===== *)
theory Heap_Blocks
  imports WG_Prelude "HOL-Library.Multiset"
begin

section \<open>Blocks of guest address space\<close>

text \<open>
  What the 32-bit and the 64-bit guest heap share: rounding an unsigned word up to a power of
  two with \<open>(x + (a - 1)) & ~(a - 1)\<close>, the scan of a table from its last entry down, and the
  statement that the blocks of a multiset never share an address (\<open>no_overlap\<close>), which is
  closed under taking blocks away and under splitting one in two.
\<close>

subsection \<open>Rounding up to an alignment\<close>

definition round_up :: "'a::len word \<Rightarrow> 'a word \<Rightarrow> 'a word" where
  "round_up a x = (x + (a - 1)) AND NOT (a - 1)"

lemma and_not_low_bits:
  "(x :: 'a::len word) AND NOT (2 ^ k - 1) = push_bit k (drop_bit k x)"
  by (rule bit_word_eqI)
    (auto simp: bit_simps mask_eq_exp_minus_1 [symmetric] dest: bit_imp_le_length)

lemma unat_and_not_low_bits:
  fixes x :: "'a::len word"
  shows "unat (x AND NOT (2 ^ k - 1)) = unat x div 2 ^ k * 2 ^ k"
proof -
  have "unat x div 2 ^ k * 2 ^ k \<le> unat x" by (rule div_times_less_eq_dividend)
  then have "unat x div 2 ^ k * 2 ^ k < 2 ^ LENGTH('a)"
    by (rule order_le_less_trans) (rule unsigned_less)
  moreover have "unat (push_bit k (drop_bit k x)) = take_bit LENGTH('a) (unat x div 2 ^ k * 2 ^ k)"
    unfolding unsigned_push_bit_eq unat_drop_bit_eq by (simp only: push_bit_eq_mult drop_bit_eq_div)
  ultimately show ?thesis by (simp only: and_not_low_bits take_bit_nat_eq_self)
qed

lemma unat_pow2: "k < LENGTH('a) \<Longrightarrow> unat (2 ^ k :: 'a::len word) = 2 ^ k"
  using unat_of_nat [of "2 ^ k", where 'a = 'a] by simp

lemma unat_round_up:
  fixes x :: "'a::len word"
  assumes "k < LENGTH('a)" and "unat x + (2 ^ k - 1) < 2 ^ LENGTH('a)"
  shows "unat (round_up (2 ^ k) x) = (unat x + (2 ^ k - 1)) div 2 ^ k * 2 ^ k"
proof -
  have one: "unat (2 ^ k - 1 :: 'a word) = 2 ^ k - 1"
    using assms(1) by (simp add: unat_sub_if' unat_pow2 word_le_nat_alt)
  have "unat (x + (2 ^ k - 1)) = unat x + (2 ^ k - 1)"
    using assms(2) by (simp add: unat_plus_if' one del: One_nat_def)
  then show ?thesis unfolding round_up_def unat_and_not_low_bits by simp
qed

lemma round_up_bounds:
  fixes m :: nat
  assumes "0 < m"
  shows "n \<le> (n + (m - 1)) div m * m" and "(n + (m - 1)) div m * m < n + m"
    and "m dvd (n + (m - 1)) div m * m"
proof -
  have e: "(n + (m - 1)) div m * m + (n + (m - 1)) mod m = n + (m - 1)"
    by (rule div_mult_mod_eq)
  have "(n + (m - 1)) mod m < m" using assms by simp
  with e assms show "n \<le> (n + (m - 1)) div m * m" "(n + (m - 1)) div m * m < n + m"
    by linarith+
  show "m dvd (n + (m - 1)) div m * m" by simp
qed

lemma round_up_fixed:
  fixes m :: nat
  assumes "0 < m" and "m dvd n"
  shows "(n + (m - 1)) div m * m = n"
proof -
  have "m dvd (n + (m - 1)) div m * m - n" using assms(2) by (simp add: dvd_diff_nat)
  moreover have "(n + (m - 1)) div m * m - n < m"
    using round_up_bounds [OF assms(1), of n] by linarith
  ultimately have "(n + (m - 1)) div m * m - n = 0" by (metis dvd_imp_le gr0I leD)
  then show ?thesis using round_up_bounds(1) [OF assms(1), of n] by linarith
qed

lemma round_up_le:
  fixes m :: nat
  assumes "0 < m" and "m dvd e" and "n \<le> e"
  shows "(n + (m - 1)) div m * m \<le> e"
proof -
  obtain c where c: "e = m * c" using assms(2) by (rule dvdE)
  have "n + (m - 1) < m * Suc c" using assms(1,3) c by simp
  then have "(n + (m - 1)) div m < Suc c"
    by (metis less_mult_imp_div_less mult.commute)
  then have "(n + (m - 1)) div m * m \<le> c * m" by (intro mult_le_mono1) simp
  then show ?thesis using c by (simp add: mult.commute)
qed

subsection \<open>The last entry of a table that satisfies a test\<close>

text \<open>\<open>for (i = n - 1; i >= 0; i--) if (P(a[i])) ...\<close>\<close>

definition last_idx :: "('a \<Rightarrow> bool) \<Rightarrow> 'a list \<Rightarrow> nat option" where
  "last_idx P xs = map_option (\<lambda>k. length xs - Suc k) (first_idx P (rev xs))"

lemma last_idx_None: "last_idx P xs = None \<longleftrightarrow> (\<forall>x \<in> set xs. \<not> P x)"
  by (simp add: last_idx_def first_idx_None)

lemma last_idx_Some:
  assumes "last_idx P xs = Some i"
  shows "i < length xs" and "P (xs ! i)"
proof -
  obtain k where k: "first_idx P (rev xs) = Some k" "i = length xs - Suc k"
    using assms by (auto simp: last_idx_def)
  from k(1) have "k < length xs" "P (rev xs ! k)" by (auto dest: first_idx_lt first_idx_holds)
  with k(2) show "i < length xs" "P (xs ! i)" by (auto simp: rev_nth)
qed

lemma last_idx_snoc: "last_idx P (xs @ [x]) = (if P x then Some (length xs) else last_idx P xs)"
proof (cases "first_idx P (rev xs)")
  case None
  then show ?thesis by (simp add: last_idx_def)
next
  case (Some k)
  then show ?thesis by (simp add: last_idx_def)
qed

lemma mset_snoc_last: "xs \<noteq> [] \<Longrightarrow> mset xs = add_mset (last xs) (mset (butlast xs))"
  by (induction xs rule: rev_induct) auto

lemma mset_swap_remove:
  assumes "i < length xs"
  shows "add_mset (xs ! i) (mset (swap_remove xs i)) = mset xs"
proof -
  have ne: "xs \<noteq> []" using assms by auto
  have "mset (xs[i := last xs]) = add_mset (last xs) (mset xs - {#xs ! i#})"
    using assms by (rule mset_update)
  moreover have "mset (xs[i := last xs]) = add_mset (last (xs[i := last xs])) (mset (butlast (xs[i := last xs])))"
    using mset_snoc_last [of "xs[i := last xs]"] ne by simp
  moreover have "last (xs[i := last xs]) = last xs"
    using ne assms by (simp add: last_list_update)
  ultimately show ?thesis
    using assms by (simp add: swap_remove_def)
qed

subsection \<open>Blocks that never share an address\<close>

text \<open>A block is a base and a number of bytes, as natural numbers: nothing wraps here.\<close>

type_synonym block = "nat \<times> nat"

definition covers :: "block \<Rightarrow> nat \<Rightarrow> bool" where
  "covers b x \<longleftrightarrow> fst b \<le> x \<and> x < fst b + snd b"

definition block_meets :: "block \<Rightarrow> block \<Rightarrow> bool" where
  "block_meets b c \<longleftrightarrow> fst b < fst c + snd c \<and> fst c < fst b + snd b"

definition no_overlap :: "block multiset \<Rightarrow> bool" where
  "no_overlap M \<longleftrightarrow> (\<forall>x. size (filter_mset (\<lambda>b. covers b x) M) \<le> 1)"

lemma block_meets_covers:
  assumes "0 < snd b" and "0 < snd c"
  shows "block_meets b c \<longleftrightarrow> (\<exists>x. covers b x \<and> covers c x)"
proof
  assume "block_meets b c"
  then have "covers b (max (fst b) (fst c)) \<and> covers c (max (fst b) (fst c))"
    using assms by (auto simp: block_meets_def covers_def)
  then show "\<exists>x. covers b x \<and> covers c x" ..
qed (auto simp: block_meets_def covers_def)

lemma no_overlap_empty [simp]: "no_overlap {#}"
  by (simp add: no_overlap_def)

lemma no_overlap_mono: "no_overlap M \<Longrightarrow> N \<subseteq># M \<Longrightarrow> no_overlap N"
  unfolding no_overlap_def
  by (meson multiset_filter_mono order_trans size_mset_mono)

lemma no_overlap_add:
  assumes "no_overlap M" and "\<And>c x. c \<in># M \<Longrightarrow> covers b x \<Longrightarrow> \<not> covers c x"
  shows "no_overlap (add_mset b M)"
proof -
  have "size (filter_mset (\<lambda>b. covers b x) (add_mset b M)) \<le> 1" for x
  proof (cases "covers b x")
    case True
    then have "filter_mset (\<lambda>b. covers b x) M = {#}"
      using assms(2) by (intro multiset_eqI) (auto simp flip: not_in_iff)
    with True show ?thesis by simp
  next
    case False
    with assms(1) show ?thesis by (simp add: no_overlap_def)
  qed
  then show ?thesis by (simp add: no_overlap_def)
qed

lemma no_overlap_split:
  assumes "no_overlap (add_mset (a, m + n) M)"
  shows "no_overlap (add_mset (a, m) (add_mset (a + m, n) M))"
proof -
  have "size (filter_mset (\<lambda>b. covers b x) (add_mset (a, m) (add_mset (a + m, n) M)))
      = size (filter_mset (\<lambda>b. covers b x) (add_mset (a, m + n) M))" for x
    by (auto simp: covers_def)
  with assms show ?thesis by (simp add: no_overlap_def)
qed

lemma no_overlap_shrink:
  assumes "no_overlap (add_mset (a, n) M)" and "m \<le> n"
  shows "no_overlap (add_mset (a, m) M)"
proof -
  have "no_overlap (add_mset (a, m + (n - m)) M)" using assms by simp
  from no_overlap_split [OF this] show ?thesis
    by (rule no_overlap_mono) (simp add: add_mset_commute [of "(a, m)"])
qed

lemma no_overlap_pair:
  assumes "no_overlap (add_mset b (add_mset c M))" and "0 < snd b" and "0 < snd c"
  shows "\<not> block_meets b c"
proof
  assume "block_meets b c"
  then obtain x where x: "covers b x" "covers c x"
    using block_meets_covers [OF assms(2,3)] by blast
  have "size (filter_mset (\<lambda>b. covers b x) (add_mset b (add_mset c M))) \<ge> 2"
    using x by simp
  with assms(1) show False unfolding no_overlap_def by (metis Suc_1 not_less_eq_eq numeral_1_eq_Suc_0 One_nat_def)
qed

lemma no_overlap_distinct_ends:
  assumes "no_overlap (add_mset b M)" and "c \<in># M" and "0 < snd b" and "0 < snd c"
  shows "\<not> block_meets b c"
proof -
  obtain N where "M = add_mset c N" using assms(2) by (metis mset_add)
  with assms show ?thesis using no_overlap_pair [of b c N] by simp
qed

end
