(* ===== verification/Guest_Heap32.thy ===== *)
theory Guest_Heap32
  imports Heap_Blocks
begin

section \<open>The 32-bit guest heap of the engine\<close>

text \<open>
  The bump allocator of \<open>Sources/Core/wg_engine.c\<close> behind \<open>HeapAlloc\<close>, \<open>malloc\<close>,
  \<open>GlobalAlloc\<close> and small \<open>VirtualAlloc\<close> calls: two arenas (\<open>[0x20000000, 0x5F000000)\<close> and
  \<open>[0xA0000000, 0xFFFF0000)\<close>) around a hole kept for the import thunks at \<open>0xDEAD0000\<close>, a table of
  allocation sizes that only grows, and a first-fit free list that \<open>VirtualFree\<close> feeds.

  \<open>zeroed32\<close> is the list of ranges the engine zero-filled, in order.  \<open>can\<close> says which sizes the
  host's \<open>calloc\<close> serves, \<open>fm\<close> whether the fast in-guest fill is enabled and succeeds.
\<close>

record heap32 =
  s_alloc_sizes :: "(u32 \<times> u32) list"
  s_free_blocks :: "(u32 \<times> u32) list"
  s_heap_ptr :: u32
  zeroed32 :: "(u32 \<times> u32) list"

definition WG_GUEST_HEAP_BASE :: u32 where "WG_GUEST_HEAP_BASE = 0x20000000"
definition WG_THUNK_BASE :: u32 where "WG_THUNK_BASE = 0xDEAD0000"
definition WG_MAX_ALLOCS :: nat where "WG_MAX_ALLOCS = 8192"
definition WG_MAX_FREE :: nat where "WG_MAX_FREE = 8192"

definition heap32_init :: heap32 where
  "heap32_init = \<lparr> s_alloc_sizes = [], s_free_blocks = [], s_heap_ptr = WG_GUEST_HEAP_BASE, zeroed32 = [] \<rparr>"

text \<open>What loading the next program resets: the bump pointer and the size table only.\<close>

definition heap32_reload :: "heap32 \<Rightarrow> heap32" where
  "heap32_reload h = h\<lparr> s_heap_ptr := WG_GUEST_HEAP_BASE, s_alloc_sizes := [] \<rparr>"

definition track_alloc :: "u32 \<Rightarrow> u32 \<Rightarrow> heap32 \<Rightarrow> heap32" where
  "track_alloc addr sz h =
     (if length (s_alloc_sizes h) < WG_MAX_ALLOCS
      then h\<lparr> s_alloc_sizes := s_alloc_sizes h @ [(addr, sz)] \<rparr> else h)"

definition alloc_size_for :: "u32 \<Rightarrow> heap32 \<Rightarrow> u32" where
  "alloc_size_for addr h =
     (case last_idx (\<lambda>e. fst e = addr) (s_alloc_sizes h) of
        Some i \<Rightarrow> snd (s_alloc_sizes h ! i) | None \<Rightarrow> 0)"

definition lookup_alloc_size :: "u32 \<Rightarrow> heap32 \<Rightarrow> u32" where
  "lookup_alloc_size addr h =
     (case last_idx (\<lambda>e. fst e = addr) (s_alloc_sizes h) of
        Some i \<Rightarrow> snd (s_alloc_sizes h ! i) | None \<Rightarrow> 0)"

definition wg_guest_free :: "u32 \<Rightarrow> u32 \<Rightarrow> heap32 \<Rightarrow> heap32" where
  "wg_guest_free addr sz h =
     (if addr = 0 then h
      else
        let sz = (if sz = 0 then alloc_size_for addr h else sz)
        in if sz = 0 then h
           else
             let sz = round_up 0x1000 sz
             in if length (s_free_blocks h) < WG_MAX_FREE
                then h\<lparr> s_free_blocks := s_free_blocks h @ [(addr, sz)] \<rparr> else h)"

definition wg_free_list_take :: "u32 \<Rightarrow> heap32 \<Rightarrow> u32 \<times> heap32" where
  "wg_free_list_take alloc h =
     (let take_sz = round_up 0x10000 alloc; fs = s_free_blocks h
      in case first_idx (\<lambda>e. take_sz \<le> snd e) fs of
           Some i \<Rightarrow>
             let a = fst (fs ! i); rem = snd (fs ! i) - take_sz
             in (a, h\<lparr> s_free_blocks := if 0x10000 \<le> rem then fs[i := (a + take_sz, rem)] else swap_remove fs i \<rparr>)
         | None \<Rightarrow> (0, h))"

text \<open>Where the bump pointer goes before a block of \<open>alloc\<close> bytes: on to the second arena when the
  first is full, and past the thunk table.\<close>

definition heap32_skip :: "u32 \<Rightarrow> u32 \<Rightarrow> u32" where
  "heap32_skip alloc p =
     (let p = (if 0x5F000000 < p + alloc \<and> p < 0xA0000000 then 0xA0000000 else p)
      in if p < WG_THUNK_BASE + 0x20000 \<and> WG_THUNK_BASE < p + alloc then WG_THUNK_BASE + 0x20000 else p)"

definition wg_guest_alloc :: "bool \<Rightarrow> (u32 \<Rightarrow> bool) \<Rightarrow> u32 \<Rightarrow> heap32 \<Rightarrow> u32 \<times> heap32" where
  "wg_guest_alloc fm can sz h =
     (let sz = (if sz = 0 then 1 else sz)
      in if sz AND 0x80000000 \<noteq> 0 \<or> 512 * 1024 * 1024 < sz then (0, h)
         else
           let alloc = round_up 0x1000 sz;
               (reuse, h) = wg_free_list_take alloc h
           in if reuse \<noteq> 0
              then
                let h = (if fm \<or> can alloc then h\<lparr> zeroed32 := zeroed32 h @ [(reuse, alloc)] \<rparr> else h)
                in (reuse, track_alloc reuse sz h)
              else
                let h = h\<lparr> s_heap_ptr := heap32_skip alloc (s_heap_ptr h) \<rparr>;
                    hi = (if 0xA0000000 \<le> s_heap_ptr h then 0xFFFF0000 else 0x5F000000)
                in if hi < s_heap_ptr h + alloc \<or> s_heap_ptr h + alloc < s_heap_ptr h then (0, h)
                   else
                     let addr = s_heap_ptr h
                     in if \<not> can alloc then (0, h)
                        else
                          let h = h\<lparr> zeroed32 := zeroed32 h @ [(addr, alloc)] \<rparr>;
                              h = h\<lparr> s_heap_ptr := s_heap_ptr h + alloc \<rparr>;
                              h = h\<lparr> s_heap_ptr := round_up 0x1000 (s_heap_ptr h) \<rparr>
                          in (addr, track_alloc addr sz h))"

definition wg_guest_alloc_aligned :: "bool \<Rightarrow> (u32 \<Rightarrow> bool) \<Rightarrow> u32 \<Rightarrow> u32 \<Rightarrow> heap32 \<Rightarrow> u32 \<times> heap32" where
  "wg_guest_alloc_aligned fm can sz align h =
     (let h = (if 0x1000 < align
               then let aligned = round_up align (s_heap_ptr h)
                    in if s_heap_ptr h \<le> aligned then h\<lparr> s_heap_ptr := aligned \<rparr> else h
               else h)
      in wg_guest_alloc fm can sz h)"

text \<open>The \<open>GlobalAlloc\<close> handler has its own copy of the bump path: no reuse, no size tracking.\<close>

definition h_GlobalAlloc :: "(u32 \<Rightarrow> bool) \<Rightarrow> u32 \<Rightarrow> heap32 \<Rightarrow> u32 \<times> heap32" where
  "h_GlobalAlloc can sz h =
     (let sz = (if sz = 0 then 4096 else sz)
      in if sz AND 0x80000000 \<noteq> 0 \<or> 512 * 1024 * 1024 < sz then (0, h)
         else
           let sz = round_up 0x1000 sz;
               h = h\<lparr> s_heap_ptr := heap32_skip sz (s_heap_ptr h) \<rparr>;
               hi7 = (if 0xA0000000 \<le> s_heap_ptr h then 0xFFFF0000 else 0x5F000000)
           in if hi7 < s_heap_ptr h + sz \<or> s_heap_ptr h + sz < s_heap_ptr h then (0, h)
              else
                let addr = s_heap_ptr h
                in if can sz
                   then
                     let h = h\<lparr> zeroed32 := zeroed32 h @ [(addr, sz)] \<rparr>;
                         h = h\<lparr> s_heap_ptr := s_heap_ptr h + sz \<rparr>;
                         h = h\<lparr> s_heap_ptr := round_up 0x1000 (s_heap_ptr h) \<rparr>
                     in (addr, h)
                   else (0, h))"

text \<open>The allocation handlers that are a call of the heap and nothing else.\<close>

definition h_HeapAlloc :: "bool \<Rightarrow> (u32 \<Rightarrow> bool) \<Rightarrow> u32 \<Rightarrow> heap32 \<Rightarrow> u32 \<times> heap32" where
  "h_HeapAlloc fm can bytes h = wg_guest_alloc fm can bytes h"

definition h_HeapSize :: "u32 \<Rightarrow> heap32 \<Rightarrow> u32" where
  "h_HeapSize mem h = lookup_alloc_size mem h"

definition h_malloc :: "bool \<Rightarrow> (u32 \<Rightarrow> bool) \<Rightarrow> u32 \<Rightarrow> heap32 \<Rightarrow> u32 \<times> heap32" where
  "h_malloc fm can n h = wg_guest_alloc fm can n h"

definition h_calloc :: "bool \<Rightarrow> (u32 \<Rightarrow> bool) \<Rightarrow> u32 \<Rightarrow> u32 \<Rightarrow> heap32 \<Rightarrow> u32 \<times> heap32" where
  "h_calloc fm can n sz h = wg_guest_alloc fm can (n * sz) h"

definition h_LocalAlloc :: "bool \<Rightarrow> (u32 \<Rightarrow> bool) \<Rightarrow> u32 \<Rightarrow> heap32 \<Rightarrow> u32 \<times> heap32" where
  "h_LocalAlloc fm can n h = wg_guest_alloc fm can (if n = 0 then 1 else n) h"

end
