(* ===== verification/Heap32_Blocks.thy ===== *)
theory Heap32_Blocks
  imports Guest_Heap32
begin

section \<open>The 32-bit guest heap: blocks, arenas and what breaks them\<close>

text \<open>
  As long as the size table has room and the guest releases only what it holds, the blocks it
  holds, the blocks of \<open>GlobalAlloc\<close> and the free blocks never share an address, stay inside the
  two arenas and off the thunk table.  Without those two conditions they do not: a double
  release, and the free list that survives the load of the next program, both hand the same
  bytes out twice; the theorems at the end run them.
\<close>

definition block32 :: "u32 \<times> u32 \<Rightarrow> block" where
  "block32 e = (unat (fst e), unat (round_up 0x1000 (snd e)))"

definition in_arena :: "nat \<Rightarrow> nat \<Rightarrow> bool" where
  "in_arena a n \<longleftrightarrow>
     (0x20000000 \<le> a \<and> a + n \<le> 0x5F000000)
     \<or> (0xA0000000 \<le> a \<and> a + n \<le> 0xFFFF0000 \<and> (a + n \<le> 0xDEAD0000 \<or> 0xDEAF0000 \<le> a))"

definition entry32_ok :: "u32 \<Rightarrow> u32 \<times> u32 \<Rightarrow> bool" where
  "entry32_ok p e \<longleftrightarrow>
     0x1000 dvd unat (fst e) \<and> 0 < unat (snd e) \<and> unat (snd e) \<le> 0xE0000000
     \<and> in_arena (fst (block32 e)) (snd (block32 e))
     \<and> fst (block32 e) + snd (block32 e) \<le> unat p"

definition ptr32_ok :: "u32 \<Rightarrow> bool" where
  "ptr32_ok p \<longleftrightarrow> 0x1000 dvd unat p
     \<and> ((0x20000000 \<le> unat p \<and> unat p \<le> 0x5F000000) \<or> (0xA0000000 \<le> unat p \<and> unat p \<le> 0xFFFF0000))"

definition inv32 :: "heap32 \<Rightarrow> (u32 \<times> u32) multiset \<Rightarrow> (u32 \<times> u32) multiset \<Rightarrow> bool" where
  "inv32 h out glob \<longleftrightarrow>
     no_overlap (image_mset block32 (out + glob + mset (s_free_blocks h)))
     \<and> (\<forall>e \<in># out + glob + mset (s_free_blocks h). entry32_ok (s_heap_ptr h) e)
     \<and> (\<forall>e \<in> set (s_free_blocks h). 0x1000 dvd unat (snd e))
     \<and> (\<forall>e \<in># out. alloc_size_for (fst e) h = snd e)
     \<and> ptr32_ok (s_heap_ptr h)"

lemma inv32_init: "inv32 heap32_init {#} {#}"
  by (simp add: inv32_def heap32_init_def WG_GUEST_HEAP_BASE_def ptr32_ok_def)

lemma unat_round32:
  "unat (s :: u32) \<le> 0xFFFFF000 \<Longrightarrow> unat (round_up 0x1000 s) = (unat s + 0xFFF) div 0x1000 * 0x1000"
  using unat_round_up [of 12 s] by simp

lemma round32_bounds:
  assumes "unat (s :: u32) \<le> 0xFFFFF000"
  shows "unat s \<le> unat (round_up 0x1000 s)" and "unat (round_up 0x1000 s) < unat s + 0x1000"
    and "0x1000 dvd unat (round_up 0x1000 s)"
  using round_up_bounds [of "0x1000" "unat s"] by (simp_all add: unat_round32 [OF assms])

lemma round32_fixed:
  assumes "unat (s :: u32) \<le> 0xFFFFF000" and "0x1000 dvd unat s"
  shows "round_up 0x1000 s = s"
  using round_up_fixed [of "0x1000" "unat s"] assms by (simp add: word_unat_eq_iff unat_round32)

lemma in_arena_sub:
  "in_arena a n \<Longrightarrow> a \<le> b \<Longrightarrow> b + m \<le> a + n \<Longrightarrow> in_arena b m"
  by (auto simp: in_arena_def)

lemma entry32_ok_mono: "entry32_ok p e \<Longrightarrow> unat p \<le> unat q \<Longrightarrow> entry32_ok q e"
  by (auto simp: entry32_ok_def)

lemma entry32_pos: "entry32_ok p e \<Longrightarrow> 0 < snd (block32 e)"
  using round32_bounds(1) [of "snd e"] by (auto simp: entry32_ok_def block32_def)

lemma alloc_size_for_track:
  "length (s_alloc_sizes h) < WG_MAX_ALLOCS \<Longrightarrow>
     alloc_size_for x (track_alloc a s h) = (if x = a then s else alloc_size_for x h)"
  using last_idx_Some(1) [of "\<lambda>e. fst e = x" "s_alloc_sizes h"]
  by (auto simp: track_alloc_def alloc_size_for_def last_idx_snoc nth_append split: option.splits)

lemma alloc_size_cong: "s_alloc_sizes h' = s_alloc_sizes h \<Longrightarrow> alloc_size_for x h' = alloc_size_for x h"
  by (simp only: alloc_size_for_def)

lemma alloc_size_frame [simp]:
  "alloc_size_for x (h\<lparr> s_heap_ptr := p \<rparr>) = alloc_size_for x h"
  "alloc_size_for x (h\<lparr> zeroed32 := z \<rparr>) = alloc_size_for x h"
  "alloc_size_for x (h\<lparr> s_free_blocks := f \<rparr>) = alloc_size_for x h"
  by (rule alloc_size_cong, simp)+

text \<open>Two held blocks never meet.\<close>

lemma inv32_disjoint:
  assumes inv: "inv32 h out glob" and b: "b \<in># out + glob" and c: "c \<in># out + glob - {#b#}"
  shows "\<not> block_meets (block32 b) (block32 c)"
proof -
  obtain M where M: "out + glob - {#b#} = add_mset c M" using c by (metis mset_add)
  have eq: "out + glob = add_mset b (add_mset c M)" using b M by (metis insert_DiffM)
  have "no_overlap (image_mset block32 (out + glob + mset (s_free_blocks h)))"
    using inv unfolding inv32_def by blast
  then have "no_overlap (add_mset (block32 b) (add_mset (block32 c) (image_mset block32 (M + mset (s_free_blocks h)))))"
    unfolding eq by simp
  moreover have "entry32_ok (s_heap_ptr h) b" "entry32_ok (s_heap_ptr h) c"
  proof -
    have "\<forall>e \<in># out + glob + mset (s_free_blocks h). entry32_ok (s_heap_ptr h) e"
      using inv unfolding inv32_def by blast
    then show "entry32_ok (s_heap_ptr h) b" "entry32_ok (s_heap_ptr h) c" unfolding eq by simp_all
  qed
  ultimately show ?thesis by (intro no_overlap_pair) (auto intro: entry32_pos)
qed

subsection \<open>The free list\<close>

lemma round64k_bounds:
  assumes "unat (s :: u32) \<le> 0x20000000"
  shows "unat s \<le> unat (round_up 0x10000 s)" and "unat (round_up 0x10000 s) < unat s + 0x10000"
    and "0x10000 dvd unat (round_up 0x10000 s)"
proof -
  have "unat (round_up 0x10000 s) = (unat s + 0xFFFF) div 0x10000 * 0x10000"
    using unat_round_up [of 16 s] assms by simp
  then show "unat s \<le> unat (round_up 0x10000 s)" "unat (round_up 0x10000 s) < unat s + 0x10000"
    "0x10000 dvd unat (round_up 0x10000 s)"
    using round_up_bounds [of "0x10000" "unat s"] by simp_all
qed

text \<open>What a successful take leaves: the piece handed out, as a block of its own.\<close>

lemma free_list_take_inv:
  assumes inv: "inv32 h out glob" and t: "wg_free_list_take alloc h = (a, h')" and a: "a \<noteq> 0"
    and alloc: "0 < unat alloc" "unat alloc \<le> 0x20000000" "0x1000 dvd unat alloc"
  shows "no_overlap (image_mset block32 (add_mset (a, alloc) (out + glob + mset (s_free_blocks h'))))
    \<and> (\<forall>e \<in># add_mset (a, alloc) (out + glob + mset (s_free_blocks h')). entry32_ok (s_heap_ptr h) e)
    \<and> (\<forall>e \<in> set (s_free_blocks h'). 0x1000 dvd unat (snd e))
    \<and> s_heap_ptr h' = s_heap_ptr h \<and> s_alloc_sizes h' = s_alloc_sizes h"
proof -
  let ?fs = "s_free_blocks h" and ?t = "round_up 0x10000 alloc"
  obtain i where i: "first_idx (\<lambda>e. ?t \<le> snd e) ?fs = Some i"
    using t a by (auto simp: wg_free_list_take_def Let_def split: option.splits)
  note il = first_idx_lt [OF i]
  note tb = round64k_bounds [OF alloc(2)]
  define e where "e = ?fs ! i"
  have big: "unat ?t \<le> unat (snd e)" using first_idx_holds [OF i] by (simp add: e_def word_le_nat_alt)
  have ein: "e \<in> set ?fs" using il by (simp add: e_def)
  have ok: "entry32_ok (s_heap_ptr h) e" and de: "0x1000 dvd unat (snd e)"
    using inv ein by (auto simp: inv32_def)
  have sz: "unat (snd e) \<le> 0xE0000000" using ok by (simp add: entry32_ok_def)
  have be: "block32 e = (unat (fst e), unat (snd e))"
    using round32_fixed [OF _ de] sz by (simp add: block32_def)
  have ra: "round_up 0x1000 alloc = alloc" using alloc by (intro round32_fixed) simp_all
  have ba: "block32 (fst e, alloc) = (unat (fst e), unat alloc)" by (simp add: block32_def ra)
  have oka: "entry32_ok (s_heap_ptr h) (fst e, alloc)"
    using ok alloc big tb(1) in_arena_sub [of "unat (fst e)" "unat (snd e)" "unat (fst e)" "unat alloc"]
    unfolding entry32_ok_def ba be by auto
  have m: "mset ?fs = add_mset e (mset (swap_remove ?fs i))"
    using mset_swap_remove [OF il] by (simp add: e_def)
  have no: "no_overlap (add_mset (unat (fst e), unat (snd e)) (image_mset block32 (out + glob + mset (swap_remove ?fs i))))"
    using inv by (simp add: inv32_def m be)
  let ?rem = "snd e - ?t"
  have rem: "unat ?rem = unat (snd e) - unat ?t" using big by (simp add: unat_sub_if')
  show ?thesis
  proof (cases "0x10000 \<le> ?rem")
    case False
    then have "a = fst e" "h' = h\<lparr> s_free_blocks := swap_remove ?fs i \<rparr>"
      using t i by (auto simp: wg_free_list_take_def Let_def e_def)
    moreover have "no_overlap (image_mset block32 (add_mset (fst e, alloc) (out + glob + mset (swap_remove ?fs i))))"
      using no_overlap_shrink [OF no] big tb(1) by (simp add: ba)
    moreover have "set (swap_remove ?fs i) \<subseteq> set ?fs" by (rule set_swap_remove [OF il])
    ultimately show ?thesis using inv oka by (auto simp: inv32_def)
  next
    case True
    let ?r = "(fst e + ?t, ?rem)"
    have ae: "a = fst e" and h': "h' = h\<lparr> s_free_blocks := ?fs[i := ?r] \<rparr>"
      using t i True by (auto simp: wg_free_list_take_def Let_def e_def)
    have endp: "unat (fst e) + unat (snd e) \<le> 0xFFFF0000"
      using ok unfolding entry32_ok_def be in_arena_def by auto
    have ar: "unat (fst e + ?t) = unat (fst e) + unat ?t"
      using endp big by (simp add: unat_plus_if')
    have dt: "0x1000 dvd unat ?t" using tb(3) by (rule dvd_trans [rotated]) simp
    have dr: "0x1000 dvd unat ?rem" unfolding rem using de dt by (rule dvd_diff_nat)
    have rpos: "0 < unat ?rem" using True by (simp add: word_le_nat_alt)
    have br: "block32 ?r = (unat (fst e) + unat ?t, unat ?rem)"
      using round32_fixed [OF _ dr] sz rem by (simp add: block32_def ar)
    have okr: "entry32_ok (s_heap_ptr h) ?r"
      using ok sz rpos rem big ar dt
        in_arena_sub [of "unat (fst e)" "unat (snd e)" "unat (fst e) + unat ?t" "unat ?rem"]
      unfolding entry32_ok_def br be by (auto simp: dvd_add)
    have mr: "mset (?fs[i := ?r]) = add_mset ?r (mset (swap_remove ?fs i))"
      using il m by (simp add: mset_update e_def)
    have "no_overlap (add_mset (unat (fst e), unat ?t) (add_mset (unat (fst e) + unat ?t, unat ?rem)
        (image_mset block32 (out + glob + mset (swap_remove ?fs i)))))"
      using no big by (intro no_overlap_split) (simp add: rem)
    then have "no_overlap (add_mset (unat (fst e), unat alloc) (add_mset (unat (fst e) + unat ?t, unat ?rem)
        (image_mset block32 (out + glob + mset (swap_remove ?fs i)))))"
      using tb(1) by (rule no_overlap_shrink)
    then have "no_overlap (image_mset block32 (add_mset (a, alloc) (out + glob + mset (s_free_blocks h'))))"
      by (simp add: ae h' mr ba br)
    moreover have "\<forall>x \<in># add_mset (a, alloc) (out + glob + mset (s_free_blocks h')). entry32_ok (s_heap_ptr h) x"
    proof
      fix x assume "x \<in># add_mset (a, alloc) (out + glob + mset (s_free_blocks h'))"
      then have "x = (fst e, alloc) \<or> x = ?r \<or> x \<in># out + glob + mset ?fs"
        by (auto simp: ae h' mr m simp del: set_mset_mset)
      then show "entry32_ok (s_heap_ptr h) x" using oka okr inv by (auto simp: inv32_def)
    qed
    moreover have "\<forall>x \<in> set (s_free_blocks h'). 0x1000 dvd unat (snd x)"
      using inv dr set_update_subset_insert [of ?fs i ?r] by (auto simp: h' inv32_def)
    ultimately show ?thesis by (simp add: h')
  qed
qed

lemma free_list_take_none:
  assumes inv: "inv32 h out glob" and t: "wg_free_list_take alloc h = (0, h')"
  shows "h' = h"
proof (cases "first_idx (\<lambda>e. round_up 0x10000 alloc \<le> snd e) (s_free_blocks h)")
  case None
  with t show ?thesis by (simp add: wg_free_list_take_def Let_def)
next
  case (Some i)
  then have "s_free_blocks h ! i \<in> set (s_free_blocks h)" using first_idx_lt [OF Some] by simp
  then have "entry32_ok (s_heap_ptr h) (s_free_blocks h ! i)" using inv by (simp add: inv32_def)
  then have "fst (s_free_blocks h ! i) \<noteq> 0" by (auto simp: entry32_ok_def block32_def in_arena_def)
  with t Some show ?thesis by (simp add: wg_free_list_take_def Let_def)
qed

subsection \<open>Every operation keeps the invariant\<close>

lemma inv32_track:
  assumes "no_overlap (image_mset block32 (add_mset (a, s) (out + glob + mset (s_free_blocks h))))"
    and "\<forall>e \<in># add_mset (a, s) (out + glob + mset (s_free_blocks h)). entry32_ok (s_heap_ptr h) e"
    and "\<forall>e \<in> set (s_free_blocks h). 0x1000 dvd unat (snd e)"
    and "\<forall>e \<in># out. alloc_size_for (fst e) h = snd e"
    and "ptr32_ok (s_heap_ptr h)" and room: "length (s_alloc_sizes h) < WG_MAX_ALLOCS"
  shows "inv32 (track_alloc a s h) (add_mset (a, s) out) glob"
proof -
  have ne: "fst e \<noteq> a" if e: "e \<in># out" for e
  proof
    assume same: "fst e = a"
    obtain M where M: "out = add_mset e M" using e by (metis mset_add)
    have "entry32_ok (s_heap_ptr h) (a, s)" "entry32_ok (s_heap_ptr h) e" using assms(2) e by simp_all
    then have pos: "0 < snd (block32 (a, s))" "0 < snd (block32 e)" by (auto intro: entry32_pos)
    have "no_overlap (add_mset (block32 (a, s)) (add_mset (block32 e) (image_mset block32 (M + glob + mset (s_free_blocks h)))))"
      using assms(1) by (simp add: M)
    then have "\<not> block_meets (block32 (a, s)) (block32 e)" using pos by (rule no_overlap_pair)
    then show False using pos same by (simp add: block_meets_def block32_def)
  qed
  have f: "s_free_blocks (track_alloc a s h) = s_free_blocks h" "s_heap_ptr (track_alloc a s h) = s_heap_ptr h"
    by (simp_all add: track_alloc_def)
  show ?thesis
    unfolding inv32_def f using assms(1-5) ne by (auto simp: alloc_size_for_track [OF room])
qed

lemma heap32_skip_bounds:
  assumes p: "ptr32_ok p" and n: "0 < unat n" "unat n \<le> 0x20000000"
  shows "unat p \<le> unat (heap32_skip n p)" and "ptr32_ok (heap32_skip n p)"
proof -
  have "unat p \<le> unat (heap32_skip n p) \<and> ptr32_ok (heap32_skip n p)"
    using p unfolding heap32_skip_def Let_def ptr32_ok_def
    by (auto simp: word_less_nat_alt WG_THUNK_BASE_def)
  then show "unat p \<le> unat (heap32_skip n p)" and "ptr32_ok (heap32_skip n p)" by blast+
qed

lemma heap32_skip_fits:
  assumes p: "ptr32_ok p" and n: "0 < unat n" "unat n \<le> 0x20000000" "0x1000 dvd unat n"
    and q: "q = heap32_skip n p"
    and hi: "\<not> (if 0xA0000000 \<le> q then 0xFFFF0000 else 0x5F000000) < q + n" and wrap: "\<not> q + n < q"
  shows "in_arena (unat q) (unat n)" and "unat (q + n) = unat q + unat n" and "ptr32_ok (q + n)"
proof -
  have okq: "ptr32_ok q" using heap32_skip_bounds(2) [OF p n(1,2)] q by simp
  show sum: "unat (q + n) = unat q + unat n"
    using wrap unat_lt32 [of q] unat_lt32 [of n] by (simp add: word_less_nat_alt unat_plus_if' split: if_splits)
  have le: "unat q + unat n \<le> (if 0xA0000000 \<le> unat q then 0xFFFF0000 else 0x5F000000)"
    using hi sum by (auto simp: word_less_nat_alt word_le_nat_alt split: if_splits)
  have hole: "unat q + unat n \<le> 0xDEAD0000 \<or> 0xDEAF0000 \<le> unat q"
  proof (rule ccontr)
    assume h: "\<not> ?thesis"
    define p1 where "p1 = (if 0x5F000000 < p + n \<and> p < 0xA0000000 then 0xA0000000 else p)"
    have q1: "q = (if p1 < WG_THUNK_BASE + 0x20000 \<and> WG_THUNK_BASE < p1 + n then WG_THUNK_BASE + 0x20000 else p1)"
      unfolding q heap32_skip_def Let_def p1_def by simp
    show False
      using q1 h sum by (auto simp: word_less_nat_alt WG_THUNK_BASE_def split: if_splits)
  qed
  show "in_arena (unat q) (unat n)"
    using okq le hole by (auto simp: in_arena_def ptr32_ok_def split: if_splits)
  show "ptr32_ok (q + n)"
    using okq le n(3) by (auto simp: ptr32_ok_def sum split: if_splits)
qed

text \<open>The bump path, shared by \<open>wg_guest_alloc\<close> and the \<open>GlobalAlloc\<close> handler.\<close>

lemma inv32_bump:
  assumes inv: "inv32 h out glob" and s: "0 < unat s" "unat s \<le> 0x20000000"
    and q: "q = heap32_skip (round_up 0x1000 s) (s_heap_ptr h)"
    and hi: "\<not> (if 0xA0000000 \<le> q then 0xFFFF0000 else 0x5F000000) < q + round_up 0x1000 s"
    and wrap: "\<not> q + round_up 0x1000 s < q"
    and h': "s_heap_ptr h' = round_up 0x1000 (q + round_up 0x1000 s)" "s_free_blocks h' = s_free_blocks h"
  shows "no_overlap (image_mset block32 (add_mset (q, s) (out + glob + mset (s_free_blocks h'))))
    \<and> (\<forall>e \<in># add_mset (q, s) (out + glob + mset (s_free_blocks h')). entry32_ok (s_heap_ptr h') e)
    \<and> ptr32_ok (s_heap_ptr h') \<and> q \<noteq> 0"
proof -
  let ?n = "round_up 0x1000 s" and ?p = "s_heap_ptr h"
  have p: "ptr32_ok ?p" using inv by (simp add: inv32_def)
  note rb = round32_bounds [of s]
  have n: "0 < unat ?n" "unat ?n \<le> 0x20000000" "0x1000 dvd unat ?n"
    using rb s round_up_le [of "0x1000" "0x20000000" "unat s"] by (simp_all add: unat_round32)
  note fits = heap32_skip_fits [OF p n q hi wrap]
  note up = heap32_skip_bounds [OF p n(1,2), folded q]
  have fx: "s_heap_ptr h' = q + ?n"
    unfolding h'(1) using fits(3) by (intro round32_fixed) (auto simp: ptr32_ok_def)
  have b: "block32 (q, s) = (unat q, unat ?n)" by (simp add: block32_def)
  have "no_overlap (add_mset (block32 (q, s)) (image_mset block32 (out + glob + mset (s_free_blocks h))))"
  proof (rule no_overlap_add)
    show "no_overlap (image_mset block32 (out + glob + mset (s_free_blocks h)))"
      using inv by (simp add: inv32_def)
    fix c x
    assume "c \<in># image_mset block32 (out + glob + mset (s_free_blocks h))" and x: "covers (block32 (q, s)) x"
    then obtain e where "c = block32 e" "entry32_ok ?p e" using inv by (auto simp: inv32_def)
    with x up(1) show "\<not> covers c x" by (auto simp: covers_def b entry32_ok_def)
  qed
  moreover have "entry32_ok (s_heap_ptr h') e" if "e \<in># add_mset (q, s) (out + glob + mset (s_free_blocks h'))" for e
  proof (cases "e = (q, s)")
    case True
    then show ?thesis using fits(1,2) up(2) s by (simp add: entry32_ok_def b fx ptr32_ok_def)
  next
    case False
    with that have "entry32_ok ?p e" using inv by (auto simp: inv32_def h'(2))
    then show ?thesis by (rule entry32_ok_mono) (use up(1) fits(2) fx in simp)
  qed
  moreover have "q \<noteq> 0" using up(2) by (auto simp: ptr32_ok_def)
  ultimately show ?thesis using fits(3) by (simp add: fx h'(2))
qed

lemma inv32_frame:
  "s_alloc_sizes h' = s_alloc_sizes h \<Longrightarrow> s_free_blocks h' = s_free_blocks h \<Longrightarrow> s_heap_ptr h' = s_heap_ptr h
    \<Longrightarrow> inv32 h' out glob = inv32 h out glob"
  by (simp add: inv32_def alloc_size_cong [of h' h])

lemma inv32_lift_ptr:
  assumes "inv32 h out glob" and "unat (s_heap_ptr h) \<le> unat q" and "ptr32_ok q"
  shows "inv32 (h\<lparr> s_heap_ptr := q \<rparr>) out glob"
  using assms entry32_ok_mono [OF _ assms(2)] by (simp add: inv32_def)

lemma guest_alloc_size_ok:
  "\<not> (s AND 0x80000000 \<noteq> 0 \<or> 512 * 1024 * 1024 < (s :: u32)) \<Longrightarrow> unat s \<le> 0x20000000"
  by (simp add: word_less_nat_alt)

lemma guest_alloc_inv:
  assumes inv: "inv32 h out glob" and room: "length (s_alloc_sizes h) < WG_MAX_ALLOCS"
    and r: "wg_guest_alloc fm can s h = (a, h')"
  shows "inv32 h' (if a = 0 then out else add_mset (a, if s = 0 then 1 else s) out) glob"
proof -
  define sz where "sz = (if s = 0 then 1 else s)"
  have pos: "0 < unat sz" by (auto simp: sz_def unat_gt_0)
  note r = r [unfolded wg_guest_alloc_def, folded sz_def, unfolded Let_def]
  show ?thesis
  proof (cases "sz AND 0x80000000 \<noteq> 0 \<or> 512 * 1024 * 1024 < sz")
    case True
    with r inv show ?thesis by auto
  next
    case False
    let ?n = "round_up 0x1000 sz"
    have le: "unat sz \<le> 0x20000000" using guest_alloc_size_ok [OF False] .
    have n: "0 < unat ?n" "unat ?n \<le> 0x20000000" "0x1000 dvd unat ?n"
      using le pos round32_bounds [of sz] round_up_le [of "0x1000" "0x20000000" "unat sz"]
      by (simp_all add: unat_round32)
    have rr: "round_up 0x1000 ?n = ?n" using n by (intro round32_fixed) simp_all
    obtain a1 h1 where t: "wg_free_list_take ?n h = (a1, h1)" by fastforce
    show ?thesis
    proof (cases "a1 = 0")
      case False': False
      note ti = free_list_take_inv [OF inv t False' n]
      have b: "block32 (a1, sz) = block32 (a1, ?n)" by (simp add: block32_def rr)
      have e: "entry32_ok p (a1, sz)" if "entry32_ok p (a1, ?n)" for p
        using that pos le by (simp add: entry32_ok_def b)
      let ?h = "if fm \<or> can ?n then h1\<lparr> zeroed32 := zeroed32 h1 @ [(a1, ?n)] \<rparr> else h1"
      have fr: "s_free_blocks ?h = s_free_blocks h1" "s_heap_ptr ?h = s_heap_ptr h"
        "s_alloc_sizes ?h = s_alloc_sizes h" using ti by auto
      have sz: "alloc_size_for x ?h = alloc_size_for x h" for x using fr(3) by (rule alloc_size_cong)
      have "inv32 (track_alloc a1 sz ?h) (add_mset (a1, sz) out) glob"
      proof (rule inv32_track)
        show "no_overlap (image_mset block32 (add_mset (a1, sz) (out + glob + mset (s_free_blocks ?h))))"
          unfolding fr using ti b by simp
        show "\<forall>x \<in># add_mset (a1, sz) (out + glob + mset (s_free_blocks ?h)). entry32_ok (s_heap_ptr ?h) x"
          unfolding fr using ti e by simp
        show "\<forall>x \<in> set (s_free_blocks ?h). 0x1000 dvd unat (snd x)" unfolding fr using ti by simp
        show "\<forall>x \<in># out. alloc_size_for (fst x) ?h = snd x" unfolding sz using inv by (simp add: inv32_def)
        show "ptr32_ok (s_heap_ptr ?h)" "length (s_alloc_sizes ?h) < WG_MAX_ALLOCS"
          unfolding fr using inv room by (simp_all add: inv32_def)
      qed
      then show ?thesis using r False False' t by (simp add: sz_def split: if_splits)
    next
      case True
      then have h1: "h1 = h" using free_list_take_none [OF inv] t by simp
      define q where "q = heap32_skip ?n (s_heap_ptr h)"
      note up = heap32_skip_bounds [OF _ n(1,2), of "s_heap_ptr h", folded q_def]
      have p: "ptr32_ok (s_heap_ptr h)" using inv by (simp add: inv32_def)
      show ?thesis
      proof (cases "((if 0xA0000000 \<le> q then 0xFFFF0000 else 0x5F000000) < q + ?n \<or> q + ?n < q) \<or> \<not> can ?n")
        case fail: True
        then have "a = 0" "h' = h\<lparr> s_heap_ptr := q \<rparr>"
          using r False True t h1 by (auto simp: q_def split: if_splits)
        with inv32_lift_ptr [OF inv up [OF p]] show ?thesis by simp
      next
        case ok: False
        let ?h = "h\<lparr> zeroed32 := zeroed32 h @ [(q, ?n)], s_heap_ptr := round_up 0x1000 (q + ?n) \<rparr>"
        have res: "a = q" "h' = track_alloc q sz ?h"
          using r False True t h1 ok by (auto simp: q_def split: if_splits)
        have bump: "no_overlap (image_mset block32 (add_mset (q, sz) (out + glob + mset (s_free_blocks ?h))))
            \<and> (\<forall>e \<in># add_mset (q, sz) (out + glob + mset (s_free_blocks ?h)). entry32_ok (s_heap_ptr ?h) e)
            \<and> ptr32_ok (s_heap_ptr ?h) \<and> q \<noteq> 0"
          using ok by (intro inv32_bump [OF inv pos le q_def]) auto
        have "inv32 (track_alloc q sz ?h) (add_mset (q, sz) out) glob"
          using bump inv room by (intro inv32_track) (simp_all add: inv32_def)
        then show ?thesis using res bump by (simp add: sz_def)
      qed
    qed
  qed
qed

lemma align32_bounds:
  assumes "12 \<le> k" and "k \<le> 16" and p: "ptr32_ok p"
  shows "unat p \<le> unat (round_up (2 ^ k) p)" and "ptr32_ok (round_up (2 ^ k) p)"
proof -
  have pw: "(2 :: nat) ^ k \<le> 2 ^ 16" using assms(2) by (rule power_increasing) simp
  have d: "(2 :: nat) ^ k dvd 0x10000" using le_imp_power_dvd [OF assms(2), of "2 :: nat"] by simp
  have d12: "(0x1000 :: nat) dvd 2 ^ k" using le_imp_power_dvd [OF assms(1), of "2 :: nat"] by simp
  have u: "unat (round_up (2 ^ k) p) = (unat p + (2 ^ k - 1)) div 2 ^ k * 2 ^ k"
    using assms pw by (intro unat_round_up) (auto simp: ptr32_ok_def)
  note b = round_up_bounds [of "2 ^ k" "unat p"]
  show "unat p \<le> unat (round_up (2 ^ k) p)" using b by (simp add: u)
  have e: "(unat p + (2 ^ k - 1)) div 2 ^ k * 2 ^ k \<le> e" if "unat p \<le> e" "0x10000 dvd e" for e
    using that d by (intro round_up_le) (auto intro: dvd_trans)
  have "0x1000 dvd (unat p + (2 ^ k - 1)) div 2 ^ k * 2 ^ k" using d12 by (rule dvd_mult)
  moreover have "(0x10000 :: nat) dvd 0x5F000000" "(0x10000 :: nat) dvd 0xFFFF0000" by simp_all
  ultimately show "ptr32_ok (round_up (2 ^ k) p)"
    using p e [of "0x5F000000"] e [of "0xFFFF0000"] b(1) unfolding ptr32_ok_def u by auto
qed

lemma alloc_aligned_inv:
  assumes inv: "inv32 h out glob" and room: "length (s_alloc_sizes h) < WG_MAX_ALLOCS" and k: "k \<le> 16"
    and r: "wg_guest_alloc_aligned fm can s (2 ^ k) h = (a, h')"
  shows "inv32 h' (if a = 0 then out else add_mset (a, if s = 0 then 1 else s) out) glob"
proof (cases "12 \<le> k")
  case True
  have p: "ptr32_ok (s_heap_ptr h)" using inv by (simp add: inv32_def)
  note al = align32_bounds [OF True k p]
  have "inv32 (h\<lparr> s_heap_ptr := round_up (2 ^ k) (s_heap_ptr h) \<rparr>) out glob"
    using inv32_lift_ptr [OF inv al] .
  moreover have "wg_guest_alloc fm can s (h\<lparr> s_heap_ptr := round_up (2 ^ k) (s_heap_ptr h) \<rparr>) = (a, h')
      \<or> wg_guest_alloc fm can s h = (a, h')"
    using r by (auto simp: wg_guest_alloc_aligned_def Let_def split: if_splits)
  moreover have "length (s_alloc_sizes (h\<lparr> s_heap_ptr := q \<rparr>)) < WG_MAX_ALLOCS" for q using room by simp
  ultimately show ?thesis using guest_alloc_inv inv room by blast
next
  case False
  then have "(2 :: nat) ^ k \<le> 2 ^ 12" by (intro power_increasing) simp_all
  then have "\<not> (0x1000 :: u32) < 2 ^ k" using k by (simp add: word_less_nat_alt unat_pow2)
  then have "wg_guest_alloc fm can s h = (a, h')" using r by (simp add: wg_guest_alloc_aligned_def)
  then show ?thesis by (rule guest_alloc_inv [OF inv room])
qed

lemma guest_free_inv:
  assumes inv: "inv32 h out glob" and e: "(a, s) \<in># out"
  shows "inv32 (wg_guest_free a 0 h) (out - {#(a, s)#}) glob"
proof -
  have ok: "entry32_ok (s_heap_ptr h) (a, s)" using inv e by (simp add: inv32_def)
  have sz: "alloc_size_for a h = s" using inv e by (fastforce simp: inv32_def)
  have nz: "a \<noteq> 0" "s \<noteq> 0" using ok by (auto simp: entry32_ok_def block32_def in_arena_def)
  have s: "unat s \<le> 0xE0000000" "0 < unat s" using ok by (simp_all add: entry32_ok_def)
  note rb = round32_bounds [of s]
  have rs: "unat (round_up 0x1000 s) \<le> 0xE0000000"
    using round_up_le [of "0x1000" "0xE0000000" "unat s"] s by (simp add: unat_round32)
  have rr: "round_up 0x1000 (round_up 0x1000 s) = round_up 0x1000 s"
    using rb s rs by (intro round32_fixed) simp_all
  have b: "block32 (a, round_up 0x1000 s) = block32 (a, s)" by (simp add: block32_def rr)
  have okr: "entry32_ok (s_heap_ptr h) (a, round_up 0x1000 s)"
    using ok rb(1) s rs by (simp add: entry32_ok_def b)
  obtain O' where O': "out = add_mset (a, s) O'" using e by (metis mset_add)
  have no: "no_overlap (add_mset (block32 (a, s)) (image_mset block32 (O' + glob + mset (s_free_blocks h))))"
    using inv by (simp add: inv32_def O')
  show ?thesis
  proof (cases "length (s_free_blocks h) < WG_MAX_FREE")
    case True
    then have f: "wg_guest_free a 0 h = h\<lparr> s_free_blocks := s_free_blocks h @ [(a, round_up 0x1000 s)] \<rparr>"
      using nz sz by (simp add: wg_guest_free_def Let_def)
    show ?thesis unfolding f using inv no okr rb(3) s by (auto simp: inv32_def O' b)
  next
    case False
    then have f: "wg_guest_free a 0 h = h" using nz sz by (simp add: wg_guest_free_def Let_def)
    have "no_overlap (image_mset block32 (O' + glob + mset (s_free_blocks h)))"
      using no by (rule no_overlap_mono) simp
    then show ?thesis unfolding f using inv by (simp add: inv32_def O')
  qed
qed

lemma GlobalAlloc_inv:
  assumes inv: "inv32 h out glob" and r: "h_GlobalAlloc can s h = (a, h')"
  shows "inv32 h' out (if a = 0 then glob else add_mset (a, if s = 0 then 4096 else s) glob)"
proof -
  define sz where "sz = (if s = 0 then 4096 else s)"
  have pos: "0 < unat sz" by (auto simp: sz_def unat_gt_0)
  note r = r [unfolded h_GlobalAlloc_def, folded sz_def, unfolded Let_def]
  show ?thesis
  proof (cases "sz AND 0x80000000 \<noteq> 0 \<or> 512 * 1024 * 1024 < sz")
    case True
    with r inv show ?thesis by auto
  next
    case False
    let ?n = "round_up 0x1000 sz"
    have le: "unat sz \<le> 0x20000000" using guest_alloc_size_ok [OF False] .
    have n: "0 < unat ?n" "unat ?n \<le> 0x20000000"
      using le pos round32_bounds [of sz] round_up_le [of "0x1000" "0x20000000" "unat sz"]
      by (simp_all add: unat_round32)
    define q where "q = heap32_skip ?n (s_heap_ptr h)"
    note up = heap32_skip_bounds [OF _ n, of "s_heap_ptr h", folded q_def]
    have p: "ptr32_ok (s_heap_ptr h)" using inv by (simp add: inv32_def)
    show ?thesis
    proof (cases "((if 0xA0000000 \<le> q then 0xFFFF0000 else 0x5F000000) < q + ?n \<or> q + ?n < q) \<or> \<not> can ?n")
      case fail: True
      then have "a = 0" "h' = h\<lparr> s_heap_ptr := q \<rparr>"
        using r False by (auto simp: q_def split: if_splits)
      with inv32_lift_ptr [OF inv up [OF p]] show ?thesis by simp
    next
      case ok: False
      let ?h = "h\<lparr> zeroed32 := zeroed32 h @ [(q, ?n)], s_heap_ptr := round_up 0x1000 (q + ?n) \<rparr>"
      have res: "a = q" "h' = ?h"
        using r False ok by (auto simp: q_def split: if_splits)
      have bump: "no_overlap (image_mset block32 (add_mset (q, sz) (out + glob + mset (s_free_blocks ?h))))
          \<and> (\<forall>e \<in># add_mset (q, sz) (out + glob + mset (s_free_blocks ?h)). entry32_ok (s_heap_ptr ?h) e)
          \<and> ptr32_ok (s_heap_ptr ?h) \<and> q \<noteq> 0"
        using ok by (intro inv32_bump [OF inv pos le q_def]) auto
      then have "inv32 ?h out (add_mset (q, sz) glob)"
        using inv by (simp add: inv32_def)
      then show ?thesis using res bump by (simp add: sz_def)
    qed
  qed
qed

subsection \<open>Reachable states\<close>

text \<open>
  The guest holds \<open>out\<close> (tracked blocks, with the sizes it asked for) and \<open>glob\<close> (blocks of
  \<open>GlobalAlloc\<close>); allocations are aligned to at most \<open>0x10000\<close>, the largest the engine asks for.
\<close>

inductive heap32_run :: "heap32 \<Rightarrow> (u32 \<times> u32) multiset \<Rightarrow> (u32 \<times> u32) multiset \<Rightarrow> bool" where
  start: "heap32_run heap32_init {#} {#}"
| alloc: "heap32_run h out glob \<Longrightarrow> length (s_alloc_sizes h) < WG_MAX_ALLOCS \<Longrightarrow> k \<le> 16
    \<Longrightarrow> wg_guest_alloc_aligned fm can s (2 ^ k) h = (a, h')
    \<Longrightarrow> heap32_run h' (if a = 0 then out else add_mset (a, if s = 0 then 1 else s) out) glob"
| release: "heap32_run h out glob \<Longrightarrow> (a, s) \<in># out
    \<Longrightarrow> heap32_run (wg_guest_free a 0 h) (out - {#(a, s)#}) glob"
| global: "heap32_run h out glob \<Longrightarrow> h_GlobalAlloc can s h = (a, h')
    \<Longrightarrow> heap32_run h' out (if a = 0 then glob else add_mset (a, if s = 0 then 4096 else s) glob)"

lemma heap32_run_inv: "heap32_run h out glob \<Longrightarrow> inv32 h out glob"
proof (induction rule: heap32_run.induct)
  case start
  show ?case by (rule inv32_init)
next
  case (alloc h out glob k fm can s a h')
  then show ?case using alloc_aligned_inv by blast
next
  case (release h out glob a s)
  then show ?case using guest_free_inv by blast
next
  case (global h out glob can s a h')
  then show ?case using GlobalAlloc_inv by blast
qed

lemma heap32_run_arena:
  assumes "heap32_run h out glob" and "b \<in># out + glob"
  shows "in_arena (fst (block32 b)) (snd (block32 b))"
  using heap32_run_inv [OF assms(1)] assms(2) by (auto simp: inv32_def entry32_ok_def)

lemma heap32_run_size:
  assumes "heap32_run h out glob" and "b \<in># out"
  shows "h_HeapSize (fst b) h = snd b"
  using heap32_run_inv [OF assms(1)] assms(2)
  by (simp add: inv32_def h_HeapSize_def lookup_alloc_size_def alloc_size_for_def)


lemma heap32_example:
  "\<exists>h. heap32_run h {#(0x20000000, 0x1800)#} {#(0x20002000, 0x1000)#}"
proof -
  let ?h1 = "\<lparr> s_alloc_sizes = [(0x20000000, 0x1800)], s_free_blocks = [], s_heap_ptr = 0x20002000,
     zeroed32 = [(0x20000000, 0x2000)] \<rparr>"
  have a: "wg_guest_alloc_aligned True (\<lambda>_. True) 0x1800 (2 ^ 16) heap32_init = (0x20000000, ?h1)"
    by (simp add: wg_guest_alloc_aligned_def wg_guest_alloc_def wg_free_list_take_def heap32_init_def
        round_up_def heap32_skip_def track_alloc_def WG_MAX_ALLOCS_def WG_GUEST_HEAP_BASE_def WG_THUNK_BASE_def)
  have "heap32_run ?h1 {#(0x20000000, 0x1800)#} {#}"
    using heap32_run.alloc [OF heap32_run.start _ _ a]
    by (simp add: heap32_init_def WG_MAX_ALLOCS_def)
  moreover have "fst (h_GlobalAlloc (\<lambda>_. True) 0x1000 ?h1) = 0x20002000"
    by (simp add: h_GlobalAlloc_def round_up_def heap32_skip_def WG_THUNK_BASE_def)
  then obtain h2 where "h_GlobalAlloc (\<lambda>_. True) 0x1000 ?h1 = (0x20002000, h2)"
    by (metis prod.collapse)
  ultimately show ?thesis using heap32_run.global [of ?h1] by fastforce
qed


subsection \<open>What breaks it\<close>

text \<open>The size guard lets every size up to 512 MB through.\<close>

lemma guest_alloc_small:
  assumes "unat (s :: u32) \<le> 0x20000000"
  shows "s AND 0x80000000 = 0" and "\<not> 512 * 1024 * 1024 < s"
proof -
  have "int (unat s) \<le> 0x20000000" using assms by linarith
  then have "uint s \<le> 0x20000000" by simp
  then have "\<not> bit s 31" using top_bit_iff [of s] by simp
  then have "s AND 2 ^ 31 = 0" by (simp only: and_exp_eq_0_iff_not_bit) simp
  then show "s AND 0x80000000 = 0" by simp
  show "\<not> 512 * 1024 * 1024 < s" using assms by (simp add: word_less_nat_alt)
qed

text \<open>An exact fit at the head of the free list is handed out whole.\<close>

lemma guest_alloc_exact:
  assumes "0 < unat s" and "unat s \<le> 0x20000000" and "0x10000 dvd unat s" and "a \<noteq> 0"
    and "s_free_blocks h = (a, s) # fs"
  shows "\<exists>h'. wg_guest_alloc fm can s h = (a, h') \<and> s_free_blocks h' = swap_remove ((a, s) # fs) 0
    \<and> s_heap_ptr h' = s_heap_ptr h"
proof -
  have d: "0x1000 dvd unat s" using assms(3) by (rule dvd_trans [rotated]) simp
  have r1: "round_up 0x1000 s = s" using assms(2) d by (intro round32_fixed) simp_all
  have "unat (round_up 0x10000 s) = (unat s + 0xFFFF) div 0x10000 * 0x10000"
    using unat_round_up [of 16 s] assms(2) by simp
  then have r2: "round_up 0x10000 s = s"
    using round_up_fixed [of "0x10000" "unat s"] assms(3) by (simp add: word_unat_eq_iff)
  have t: "wg_free_list_take s h = (a, h\<lparr> s_free_blocks := swap_remove ((a, s) # fs) 0 \<rparr>)"
    using assms(5) by (simp add: wg_free_list_take_def r2)
  have "s \<noteq> 0" using assms(1) by auto
  then show ?thesis
    using guest_alloc_small [OF assms(2)]
      t assms(4) by (auto simp: wg_guest_alloc_def Let_def r1 track_alloc_def)
qed

text \<open>Releasing one block twice hands it out twice: when a held block of a multiple of 64 KB
  is released again, the next two allocations of its size both return its address.  The 64-bit
  heap has a guard against this, the 32-bit one has none.\<close>

theorem heap32_double_free:
  assumes "heap32_run h out glob" and "(a, s) \<in># out" and "s_free_blocks h = []"
    and "0x10000 dvd unat s" and "unat s \<le> 0x20000000"
  shows "\<exists>h1 h2. wg_guest_alloc fm can s (wg_guest_free a 0 (wg_guest_free a 0 h)) = (a, h1)
    \<and> wg_guest_alloc fm can s h1 = (a, h2)"
proof -
  have inv: "inv32 h out glob" using assms(1) by (rule heap32_run_inv)
  have ok: "entry32_ok (s_heap_ptr h) (a, s)" using inv assms(2) by (simp add: inv32_def)
  have sz: "alloc_size_for a h = s" using inv assms(2) by (fastforce simp: inv32_def)
  have nz: "a \<noteq> 0" "0 < unat s" using ok by (auto simp: entry32_ok_def block32_def in_arena_def)
  have "0x1000 dvd unat s" using assms(4) by (rule dvd_trans [rotated]) simp
  then have r: "round_up 0x1000 s = s" using assms(5) by (intro round32_fixed) simp_all
  have s0: "s \<noteq> 0" using nz(2) by auto
  have f: "wg_guest_free a 0 (wg_guest_free a 0 h) = h\<lparr> s_free_blocks := [(a, s), (a, s)] \<rparr>"
    using nz(1) s0 sz r assms(3) by (simp add: wg_guest_free_def WG_MAX_FREE_def)
  obtain h1 where h1: "wg_guest_alloc fm can s (wg_guest_free a 0 (wg_guest_free a 0 h)) = (a, h1)"
      "s_free_blocks h1 = [(a, s)]"
    using guest_alloc_exact [OF nz(2) assms(5,4) nz(1), of "h\<lparr> s_free_blocks := [(a, s), (a, s)] \<rparr>" "[(a, s)]" fm can]
    unfolding f by (auto simp: swap_remove_def)
  from guest_alloc_exact [OF nz(2) assms(5,4) nz(1) h1(2), of fm can] h1(1) show ?thesis by blast
qed

lemma heap32_one_alloc:
  "\<exists>h. heap32_run h {#(0x20000000, 0x10000)#} {#} \<and> s_free_blocks h = []"
proof -
  let ?h = "\<lparr> s_alloc_sizes = [(0x20000000, 0x10000)], s_free_blocks = [], s_heap_ptr = 0x20010000,
     zeroed32 = [(0x20000000, 0x10000)] \<rparr>"
  have a: "wg_guest_alloc_aligned True (\<lambda>_. True) 0x10000 (2 ^ 16) heap32_init = (0x20000000, ?h)"
    by (simp add: wg_guest_alloc_aligned_def wg_guest_alloc_def wg_free_list_take_def heap32_init_def
        round_up_def heap32_skip_def track_alloc_def WG_MAX_ALLOCS_def WG_GUEST_HEAP_BASE_def WG_THUNK_BASE_def)
  have "heap32_run ?h {#(0x20000000, 0x10000)#} {#}"
    using heap32_run.alloc [OF heap32_run.start _ _ a]
    by (simp add: heap32_init_def WG_MAX_ALLOCS_def)
  then show ?thesis by (intro exI [of _ ?h]) simp
qed

theorem heap32_double_free_witness:
  "\<exists>h h1 h2. heap32_run h {#(0x20000000, 0x10000)#} {#}
     \<and> wg_guest_alloc True (\<lambda>_. True) 0x10000 (wg_guest_free 0x20000000 0 (wg_guest_free 0x20000000 0 h)) = (0x20000000, h1)
     \<and> wg_guest_alloc True (\<lambda>_. True) 0x10000 h1 = (0x20000000, h2)"
proof -
  obtain h where h: "heap32_run h {#(0x20000000, 0x10000)#} {#}" "s_free_blocks h = []"
    using heap32_one_alloc by blast
  with heap32_double_free [OF h(1), of "0x20000000" "0x10000" True "\<lambda>_. True"] show ?thesis by auto
qed

text \<open>Loading the next program rewinds the bump pointer but keeps the free list: if the last
  program released the first block of the heap, the next one is given that block from the free
  list and then, by the bump pointer, the same addresses again.\<close>

theorem heap32_reload_overlap:
  assumes "s_free_blocks h = [(WG_GUEST_HEAP_BASE, n)]" and "0 < unat n" and "unat n \<le> 0x20000000"
    and "0x10000 dvd unat n" and "can n"
  shows "\<exists>h1 h2. wg_guest_alloc fm can n (heap32_reload h) = (WG_GUEST_HEAP_BASE, h1)
    \<and> wg_guest_alloc fm can n h1 = (WG_GUEST_HEAP_BASE, h2)"
proof -
  have nz: "WG_GUEST_HEAP_BASE \<noteq> 0" by (simp add: WG_GUEST_HEAP_BASE_def)
  have "s_free_blocks (heap32_reload h) = [(WG_GUEST_HEAP_BASE, n)]" using assms(1) by (simp add: heap32_reload_def)
  from guest_alloc_exact [OF assms(2-4) nz this, of fm can] obtain h1 where
    h1: "wg_guest_alloc fm can n (heap32_reload h) = (WG_GUEST_HEAP_BASE, h1)" "s_free_blocks h1 = []"
      "s_heap_ptr h1 = WG_GUEST_HEAP_BASE"
    by (auto simp: swap_remove_def heap32_reload_def)
  have d: "0x1000 dvd unat n" using assms(4) by (rule dvd_trans [rotated]) simp
  have r: "round_up 0x1000 n = n" using assms(3) d by (intro round32_fixed) simp_all
  have n0: "n \<noteq> 0" using assms(2) by auto
  have sum: "unat (WG_GUEST_HEAP_BASE + n) = 0x20000000 + unat n"
    using assms(3) by (simp add: unat_plus_if' WG_GUEST_HEAP_BASE_def)
  then have skip: "heap32_skip n WG_GUEST_HEAP_BASE = WG_GUEST_HEAP_BASE"
    using assms(3) by (simp add: heap32_skip_def word_less_nat_alt WG_THUNK_BASE_def)
  have fits: "\<not> 0x5F000000 < WG_GUEST_HEAP_BASE + n" "\<not> WG_GUEST_HEAP_BASE + n < WG_GUEST_HEAP_BASE"
    "\<not> 0xA0000000 \<le> WG_GUEST_HEAP_BASE"
    using sum assms(3) by (simp_all add: word_less_nat_alt word_le_nat_alt) (simp_all add: WG_GUEST_HEAP_BASE_def)
  have "fst (wg_guest_alloc fm can n h1) = WG_GUEST_HEAP_BASE"
    using guest_alloc_small [OF assms(3)] n0 h1(2,3) skip fits assms(5) r
    by (simp add: wg_guest_alloc_def wg_free_list_take_def Let_def)
  then show ?thesis using h1(1) by (metis prod.collapse)
qed

theorem heap32_reload_overlap_witness:
  "\<exists>h1 h2. wg_guest_alloc True (\<lambda>_. True) 0x10000
       (heap32_reload (wg_guest_free 0x20000000 0x10000 heap32_init)) = (0x20000000, h1)
     \<and> wg_guest_alloc True (\<lambda>_. True) 0x10000 h1 = (0x20000000, h2)"
  using heap32_reload_overlap [of "wg_guest_free 0x20000000 0x10000 heap32_init" "0x10000" "\<lambda>_. True" True]
  by (simp add: wg_guest_free_def heap32_init_def round_up_def WG_MAX_FREE_def WG_GUEST_HEAP_BASE_def)

subsection \<open>The two bump paths agree\<close>

text \<open>The \<open>GlobalAlloc\<close> handler's copy of the bump path is equivalent to \<open>wg_guest_alloc\<close>
  whenever no free block fits: same address, same heap afterwards, except that only
  \<open>wg_guest_alloc\<close> records the size.\<close>

theorem GlobalAlloc_eq_guest_alloc:
  assumes "s \<noteq> 0" and "\<forall>e \<in> set (s_free_blocks h). snd e < round_up 0x10000 (round_up 0x1000 s)"
  shows "wg_guest_alloc fm can s h =
    (case h_GlobalAlloc can s h of (a, h') \<Rightarrow>
       (a, if s AND 0x80000000 \<noteq> 0 \<or> 512 * 1024 * 1024 < s
              \<or> (let n = round_up 0x1000 s; q = heap32_skip n (s_heap_ptr h)
                 in (if 0xA0000000 \<le> q then 0xFFFF0000 else 0x5F000000) < q + n \<or> q + n < q \<or> \<not> can n)
           then h' else track_alloc a s h'))"
proof -
  have "first_idx (\<lambda>e. round_up 0x10000 (round_up 0x1000 s) \<le> snd e) (s_free_blocks h) = None"
    using assms(2) by (auto simp: first_idx_None)
  then have "wg_free_list_take (round_up 0x1000 s) h = (0, h)" by (simp add: wg_free_list_take_def)
  with assms(1) show ?thesis by (simp add: wg_guest_alloc_def h_GlobalAlloc_def Let_def)
qed

theorem GlobalAlloc_eq_guest_alloc_witness:
  "fst (wg_guest_alloc True (\<lambda>_. True) 0x1800 heap32_init) = 0x20000000
   \<and> fst (h_GlobalAlloc (\<lambda>_. True) 0x1800 heap32_init) = 0x20000000"
proof -
  have "fst (h_GlobalAlloc (\<lambda>_. True) 0x1800 heap32_init) = 0x20000000"
    by (simp add: h_GlobalAlloc_def round_up_def heap32_skip_def WG_THUNK_BASE_def heap32_init_def WG_GUEST_HEAP_BASE_def)
  moreover have "fst (wg_guest_alloc True (\<lambda>_. True) 0x1800 heap32_init) = fst (h_GlobalAlloc (\<lambda>_. True) 0x1800 heap32_init)"
    using GlobalAlloc_eq_guest_alloc [of "0x1800" heap32_init True "\<lambda>_. True"]
    by (simp add: heap32_init_def split: prod.splits)
  ultimately show ?thesis by simp
qed

end
