(* ===== verification/Guest_Heap64.thy ===== *)
theory Guest_Heap64
  imports Heap_Blocks
begin

section \<open>The 64-bit guest heap of the engine\<close>

text \<open>
  The region-3 allocator of \<open>Sources/Core/wg_engine.c\<close> that backs large \<open>VirtualAlloc\<close> calls:
  reservations come from a bump pointer over \<open>[0x100000000, 0x2800000000)\<close>, released blocks go
  to a free list and are handed out again on an exact size match (or, with the environment
  variable \<open>WG_WHOLEBLOCK\<close>, whole to a smaller request), and a bitmap of one bit per page
  records which pages are committed, so that a page is zeroed on its first commit only.

  \<open>s_alloc64\<close>, \<open>s_free64\<close> are the lists of their live entries (the arrays up to their counts),
  both bounded by \<open>WG_MAX_ALLOC64\<close>.  \<open>zeroed\<close> is the list of ranges that
  \<open>wg_zero_range64\<close> asked \<open>wg_blink_load_code\<close> to fill with zeros, in order.  The host's
  \<open>calloc\<close> is the parameter \<open>can\<close>: which sizes it can serve.  An index outside the bitmap is
  undefined behaviour, hence \<^term>\<open>None\<close>; so is a loop that does not end.
\<close>

subsection \<open>State\<close>

record heap64 =
  s_alloc64 :: "(u64 \<times> u64) list"
  s_free64 :: "(u64 \<times> u64) list"
  s_heap64_ptr :: u64
  s_free64_dropped :: u64
  s_commit_bm :: "(u64 \<Rightarrow> u8) option"
  zeroed :: "(u64 \<times> u64) list"

definition WG_HEAP64_BASE :: u64 where "WG_HEAP64_BASE = 0x100000000"
definition WG_HEAP64_END :: u64 where "WG_HEAP64_END = 0x2800000000"
definition WG_PAGE64 :: u64 where "WG_PAGE64 = 0x1000"
definition WG_MAX_ALLOC64 :: nat where "WG_MAX_ALLOC64 = 8192"

definition heap64_init :: heap64 where
  "heap64_init = \<lparr> s_alloc64 = [], s_free64 = [], s_heap64_ptr = WG_HEAP64_BASE,
     s_free64_dropped = 0, s_commit_bm = None, zeroed = [] \<rparr>"

subsection \<open>Tracking and reuse\<close>

definition wg_track_alloc64 :: "u64 \<Rightarrow> u64 \<Rightarrow> heap64 \<Rightarrow> heap64" where
  "wg_track_alloc64 addr sz h =
     (if length (s_alloc64 h) < WG_MAX_ALLOC64
      then h\<lparr> s_alloc64 := s_alloc64 h @ [(addr, sz)] \<rparr> else h)"

definition wg_overlaps_live64 :: "(u64 \<times> u64) list \<Rightarrow> u64 \<Rightarrow> u64 \<Rightarrow> bool" where
  "wg_overlaps_live64 live addr sz =
     (let end_addr = addr + sz
      in list_ex (\<lambda>(a, s). let e = a + round_up 0x1000 s in addr < e \<and> a < end_addr) live)"

text \<open>The exact-match scan: a free block that overlaps a live one is dropped, and the entry
  moved into its slot is examined next.\<close>

function take_exact ::
    "(u64 \<times> u64) list \<Rightarrow> u64 \<Rightarrow> nat \<Rightarrow> (u64 \<times> u64) list \<Rightarrow> u64
      \<Rightarrow> (u64 \<times> u64) option \<times> (u64 \<times> u64) list \<times> u64" where
  "take_exact live want i fs d =
     (if i < length fs then
        if snd (fs ! i) = want then
          if wg_overlaps_live64 live (fst (fs ! i)) want
          then take_exact live want i (swap_remove fs i) (d + 1)
          else (Some (fs ! i), swap_remove fs i, d)
        else take_exact live want (Suc i) fs d
      else (None, fs, d))"
  by pat_completeness auto
termination
  by (relation "measure (\<lambda>(live, want, i, fs, d). length fs - i)") auto

definition best_block :: "u64 \<Rightarrow> (u64 \<times> u64) list \<Rightarrow> nat option" where
  "best_block want fs =
     foldl (\<lambda>best i.
        if want \<le> snd (fs ! i)
           \<and> (case best of None \<Rightarrow> True | Some b \<Rightarrow> snd (fs ! i) < snd (fs ! b))
        then Some i else best) None [0..<length fs]"

lemma best_block_Some:
  assumes "best_block want fs = Some b"
  shows "b < length fs" and "want \<le> snd (fs ! b)"
proof -
  let ?step = "\<lambda>best i. if want \<le> snd (fs ! i)
      \<and> (case best of None \<Rightarrow> True | Some b \<Rightarrow> snd (fs ! i) < snd (fs ! b)) then Some i else best"
  have "foldl ?step acc is = Some b \<Longrightarrow> \<forall>i \<in> set is. i < length fs
      \<Longrightarrow> acc = None \<or> (\<exists>c. acc = Some c \<and> c < length fs \<and> want \<le> snd (fs ! c))
      \<Longrightarrow> b < length fs \<and> want \<le> snd (fs ! b)" for acc "is"
  proof (induction "is" arbitrary: acc)
    case Nil
    then show ?case by auto
  next
    case (Cons i "is")
    then show ?case by (intro Cons.IH [of "?step acc i"]) auto
  qed
  from this [of None "[0..<length fs]"] assms
  show "b < length fs" "want \<le> snd (fs ! b)" unfolding best_block_def by auto
qed

function take_best ::
    "(u64 \<times> u64) list \<Rightarrow> u64 \<Rightarrow> (u64 \<times> u64) list \<Rightarrow> u64
      \<Rightarrow> (u64 \<times> u64) option \<times> (u64 \<times> u64) list \<times> u64" where
  "take_best live want fs d =
     (case best_block want fs of
        None \<Rightarrow> (None, fs, d)
      | Some b \<Rightarrow>
          if wg_overlaps_live64 live (fst (fs ! b)) (snd (fs ! b))
          then take_best live want (swap_remove fs b) (d + 1)
          else (Some (fs ! b), swap_remove fs b, d))"
  by pat_completeness auto
termination
  by (relation "measure (\<lambda>(live, want, fs, d). length fs)")
    (auto dest: best_block_Some(1))

declare take_exact.simps [simp del] take_best.simps [simp del]

text \<open>Result 0 means that no block fits; \<open>out_real\<close> is written only when one does.\<close>

definition wg_free_take64_r :: "bool \<Rightarrow> u64 \<Rightarrow> u64 \<Rightarrow> heap64 \<Rightarrow> (u64 \<times> u64) \<times> heap64" where
  "wg_free_take64_r whole sz out_real h =
     (let want = round_up 0x1000 sz;
          (r, fs, d) = take_exact (s_alloc64 h) want 0 (s_free64 h) (s_free64_dropped h);
          (r, fs, d) = (if r = None \<and> whole then take_best (s_alloc64 h) want fs d else (r, fs, d));
          h = h\<lparr> s_free64 := fs, s_free64_dropped := d \<rparr>
      in case r of Some (a, real) \<Rightarrow> ((a, real), h) | None \<Rightarrow> ((0, out_real), h))"

subsection \<open>The commit bitmap\<close>

definition wg_bm_bytes :: u64 where
  "wg_bm_bytes = ((WG_HEAP64_END - WG_HEAP64_BASE) div WG_PAGE64 + 7) div 8"

definition wg_page_committed :: "(u64 \<Rightarrow> u8) option \<Rightarrow> u64 \<Rightarrow> bool option" where
  "wg_page_committed bm pg =
     (case bm of None \<Rightarrow> Some False
      | Some f \<Rightarrow>
          if drop_bit 3 pg < wg_bm_bytes
          then Some ((ucast (f (drop_bit 3 pg)) AND push_bit (unat (pg AND 7)) (1 :: u32)) \<noteq> 0)
          else None)"

definition wg_page_mark :: "u64 \<Rightarrow> bool \<Rightarrow> (u64 \<Rightarrow> u8) option \<Rightarrow> (u64 \<Rightarrow> u8) option option" where
  "wg_page_mark pg v bm =
     (case bm of None \<Rightarrow> Some None
      | Some f \<Rightarrow>
          let i = drop_bit 3 pg; m = push_bit (unat (pg AND 7)) (1 :: u32)
          in if i < wg_bm_bytes
             then Some (Some (f(i := if v then f i OR ucast m else f i AND ucast (NOT m))))
             else None)"

partial_function (option) zero_loop ::
    "(u64 \<Rightarrow> bool) \<Rightarrow> u64 \<Rightarrow> u64 \<Rightarrow> u64 \<Rightarrow> (u64 \<times> u64) list \<Rightarrow> (u64 \<times> u64) list option" where
  "zero_loop can addr len off z =
     (if off < len then
        let chunk = (if 0x400000 < len - off then 0x400000 else len - off)
        in if can chunk then zero_loop can addr len (off + chunk) (z @ [(addr + off, chunk)])
           else Some z
      else Some z)"

definition wg_zero_range64 :: "(u64 \<Rightarrow> bool) \<Rightarrow> u64 \<Rightarrow> u64 \<Rightarrow> heap64 \<Rightarrow> heap64 option" where
  "wg_zero_range64 can addr len h = do {
     z \<leftarrow> zero_loop can addr len 0 (zeroed h);
     Some (h\<lparr> zeroed := z \<rparr>) }"

text \<open>The inner loop of \<open>wg_guest_map64\<close>: mark pages from \<open>p\<close> on until a committed one.\<close>

partial_function (option) mark_run :: "u64 \<Rightarrow> u64 \<Rightarrow> (u64 \<Rightarrow> u8) option \<Rightarrow> (u64 \<times> (u64 \<Rightarrow> u8) option) option" where
  "mark_run p e bm =
     (if p < e then do {
        let pg = (p - WG_HEAP64_BASE) div WG_PAGE64;
        c \<leftarrow> wg_page_committed bm pg;
        if c then Some (p, bm)
        else do {
          bm \<leftarrow> wg_page_mark pg True bm;
          mark_run (p + WG_PAGE64) e bm } }
      else Some (p, bm))"

partial_function (option) map_loop :: "(u64 \<Rightarrow> bool) \<Rightarrow> u64 \<Rightarrow> u64 \<Rightarrow> heap64 \<Rightarrow> heap64 option" where
  "map_loop can p e h =
     (if p < e then do {
        c \<leftarrow> wg_page_committed (s_commit_bm h) ((p - WG_HEAP64_BASE) div WG_PAGE64);
        if c then map_loop can (p + WG_PAGE64) e h
        else do {
          (q, bm) \<leftarrow> mark_run p e (s_commit_bm h);
          h \<leftarrow> wg_zero_range64 can p (q - p) (h\<lparr> s_commit_bm := bm \<rparr>);
          map_loop can q e h } }
      else Some h)"

definition wg_guest_map64 :: "(u64 \<Rightarrow> bool) \<Rightarrow> u64 \<Rightarrow> u64 \<Rightarrow> heap64 \<Rightarrow> (bool \<times> heap64) option" where
  "wg_guest_map64 can addr sz h = do {
     let start = addr AND NOT 0xFFF;
     let end_addr = (addr + sz + 0xFFF) AND NOT 0xFFF;
     let h = (if s_commit_bm h = None \<and> can wg_bm_bytes
              then h\<lparr> s_commit_bm := Some (\<lambda>_. 0) \<rparr> else h);
     if s_commit_bm h = None \<or> start < WG_HEAP64_BASE \<or> WG_HEAP64_END < end_addr
     then do { h \<leftarrow> wg_zero_range64 can start (end_addr - start) h; Some (True, h) }
     else do { h \<leftarrow> map_loop can start end_addr h; Some (True, h) } }"

partial_function (option) uncommit_loop :: "u64 \<Rightarrow> u64 \<Rightarrow> (u64 \<Rightarrow> u8) option \<Rightarrow> (u64 \<Rightarrow> u8) option option" where
  "uncommit_loop p e bm =
     (if p < e then do {
        bm \<leftarrow> wg_page_mark ((p - WG_HEAP64_BASE) div WG_PAGE64) False bm;
        uncommit_loop (p + WG_PAGE64) e bm }
      else Some bm)"

definition wg_uncommit64 :: "u64 \<Rightarrow> u64 \<Rightarrow> heap64 \<Rightarrow> heap64 option" where
  "wg_uncommit64 addr sz h =
     (if s_commit_bm h = None then Some h
      else do {
        let start = addr AND NOT 0xFFF;
        let end_addr = (addr + sz + 0xFFF) AND NOT 0xFFF;
        let start = (if start < WG_HEAP64_BASE then WG_HEAP64_BASE else start);
        let end_addr = (if WG_HEAP64_END < end_addr then WG_HEAP64_END else end_addr);
        bm \<leftarrow> uncommit_loop start end_addr (s_commit_bm h);
        Some (h\<lparr> s_commit_bm := bm \<rparr>) })"

subsection \<open>Release and reservation\<close>

definition wg_guest_free64 :: "u64 \<Rightarrow> heap64 \<Rightarrow> heap64 option" where
  "wg_guest_free64 addr h =
     (if addr < WG_HEAP64_BASE then Some h
      else
        let (sz, h) = (case last_idx (\<lambda>e. fst e = addr) (s_alloc64 h) of
                         Some i \<Rightarrow> (snd (s_alloc64 h ! i), h\<lparr> s_alloc64 := swap_remove (s_alloc64 h) i \<rparr>)
                       | None \<Rightarrow> (0, h))
        in if sz = 0 then Some h
           else do {
             let sz = round_up 0x1000 sz;
             h \<leftarrow> wg_uncommit64 addr sz h;
             Some (if list_ex (\<lambda>e. fst e = addr) (s_free64 h) then h
                   else if length (s_free64 h) < WG_MAX_ALLOC64
                        then h\<lparr> s_free64 := s_free64 h @ [(addr, sz)] \<rparr> else h) })"

text \<open>The result is the address, or 0, and the value left in \<open>*out_commit\<close>.\<close>

definition wg_guest_reserve64 ::
    "bool \<Rightarrow> u64 \<Rightarrow> u64 \<Rightarrow> u64 \<Rightarrow> heap64 \<Rightarrow> (u64 \<times> u64) \<times> heap64" where
  "wg_guest_reserve64 whole sz align out_commit h =
     (let sz = (if sz = 0 then 1 else sz);
          align = (if align < 0x1000 then 0x1000 else align);
          ((reuse, real), h) = wg_free_take64_r whole (round_up 0x1000 sz) 0 h
      in if reuse \<noteq> 0 then ((reuse, real), wg_track_alloc64 reuse real h)
         else
           let h = h\<lparr> s_heap64_ptr := round_up align (s_heap64_ptr h) \<rparr>;
               addr = s_heap64_ptr h;
               alloc = round_up 0x1000 sz
           in if WG_HEAP64_END < addr + alloc then ((0, out_commit), h)
              else
                let h = h\<lparr> s_heap64_ptr := addr + alloc \<rparr>;
                    h = h\<lparr> s_heap64_ptr := round_up 0x1000 (s_heap64_ptr h) \<rparr>
                in ((addr, sz), wg_track_alloc64 addr sz h))"

end
