(* ===== verification/Heap64_Commit.thy ===== *)
theory Heap64_Commit
  imports Guest_Heap64
begin

section \<open>Commit, decommit and zero-fill in the 64-bit guest heap\<close>

text \<open>
  What \<open>wg_guest_map64\<close> and \<open>wg_uncommit64\<close> do to the commit bitmap, seen as the set of the
  committed pages of the region, and which bytes of guest memory a commit zero-fills: exactly
  those of the pages of the range that were not committed.  Both functions end, and neither
  reaches a byte outside the bitmap.
\<close>

subsection \<open>The bitmap as a set of pages\<close>

definition page_bit :: "(u64 \<Rightarrow> u8) \<Rightarrow> u64 \<Rightarrow> bool" where
  "page_bit f pg = bit (f (drop_bit 3 pg)) (unat (pg AND 7))"

lemma wg_bm_bytes_eq: "wg_bm_bytes = 0x4E0000"
  by (simp add: wg_bm_bytes_def WG_HEAP64_END_def WG_HEAP64_BASE_def WG_PAGE64_def)

lemma page_slot_less: "unat pg < 0x2700000 \<Longrightarrow> drop_bit 3 pg < wg_bm_bytes"
  unfolding wg_bm_bytes_eq word_less_nat_alt unat_drop_bit_eq by (simp add: drop_bit_eq_div)

lemma page_bit_index: "unat (pg AND 7 :: u64) < 8"
proof -
  have "pg AND 7 = take_bit 3 pg" by (simp add: take_bit_eq_mask mask_numeral)
  moreover have "unat (take_bit 3 pg) = take_bit 3 (unat pg)" by (rule unsigned_take_bit_eq)
  ultimately show ?thesis by (simp only: take_bit_eq_mod) simp
qed

lemma page_slot_inj:
  assumes "drop_bit 3 p = drop_bit 3 (q :: u64)" and "unat (p AND 7) = unat (q AND 7)"
  shows "p = q"
proof (rule bit_word_eqI)
  fix n
  have "p AND 7 = q AND 7" using assms(2) by (simp only: word_unat_eq_iff)
  then have t: "take_bit 3 p = take_bit 3 q" by (simp add: take_bit_eq_mask mask_numeral)
  show "bit p n = bit q n"
  proof (cases "n < 3")
    case True
    then show ?thesis using arg_cong [OF t, of "\<lambda>w. bit w n"] by (simp add: bit_take_bit_iff)
  next
    case False
    then show ?thesis
      using arg_cong [OF assms(1), of "\<lambda>w. bit w (n - 3)"] by (simp add: bit_drop_bit_eq)
  qed
qed

lemma byte_test_bit: "n < 8 \<Longrightarrow> (ucast (b :: u8) AND push_bit n (1 :: u32)) \<noteq> 0 \<longleftrightarrow> bit b n"
  by (simp add: and_exp_eq_0_iff_not_bit bit_ucast_iff)

lemma page_committed_bit:
  assumes "unat pg < 0x2700000"
  shows "wg_page_committed (Some f) pg = Some (page_bit f pg)"
  using page_slot_less [OF assms] byte_test_bit [OF page_bit_index]
  unfolding wg_page_committed_def page_bit_def by (simp only: option.case if_True)

lemma page_mark_bit:
  assumes "unat pg < 0x2700000"
  shows "\<exists>f'. wg_page_mark pg v (Some f) = Some (Some f')
           \<and> page_bit f' = (page_bit f)(pg := v)"
proof -
  let ?i = "drop_bit 3 pg" and ?m = "push_bit (unat (pg AND 7)) (1 :: u32)"
  let ?f = "f(?i := if v then f ?i OR ucast ?m else f ?i AND ucast (NOT ?m))"
  have "page_bit ?f p = ((page_bit f)(pg := v)) p" for p
  proof (cases "drop_bit 3 p = ?i")
    case True
    have k: "unat (p AND 7) < 8" "unat (pg AND 7) < 8" by (rule page_bit_index)+
    have "unat (p AND 7) = unat (pg AND 7) \<longleftrightarrow> p = pg"
      using page_slot_inj [OF True] by auto
    with True k show ?thesis by (auto simp: page_bit_def bit_simps)
  next
    case False
    then show ?thesis by (auto simp: page_bit_def)
  qed
  then have "page_bit ?f = (page_bit f)(pg := v)" by (rule ext)
  moreover have "wg_page_mark pg v (Some f) = Some (Some ?f)"
    using page_slot_less [OF assms] by (simp only: wg_page_mark_def Let_def option.case if_True)
  ultimately show ?thesis by blast
qed

text \<open>The address of page \<open>k\<close> of the region; page \<open>0x2700000\<close> is the end of the region.\<close>

definition page_addr :: "nat \<Rightarrow> u64" where
  "page_addr k = WG_HEAP64_BASE + 0x1000 * of_nat k"

lemma unat_page_addr: "k \<le> 0x2700000 \<Longrightarrow> unat (page_addr k) = 0x100000000 + 0x1000 * k"
proof -
  assume k: "k \<le> 0x2700000"
  have "page_addr k = of_nat (0x100000000 + 0x1000 * k)"
    by (simp add: page_addr_def WG_HEAP64_BASE_def)
  then show ?thesis using k by (simp only: unat_of_nat) simp
qed

lemma page_addr_less: "j \<le> 0x2700000 \<Longrightarrow> k \<le> 0x2700000 \<Longrightarrow> page_addr j < page_addr k \<longleftrightarrow> j < k"
  by (simp add: word_less_nat_alt unat_page_addr)

lemma page_addr_Suc: "page_addr k + WG_PAGE64 = page_addr (Suc k)"
  by (simp add: page_addr_def WG_PAGE64_def algebra_simps)

lemma page_addr_0: "page_addr 0 = WG_HEAP64_BASE"
  and page_addr_end: "page_addr 0x2700000 = WG_HEAP64_END"
  by (simp_all add: page_addr_def WG_HEAP64_BASE_def WG_HEAP64_END_def)

lemma page_number: "k < 0x2700000 \<Longrightarrow> (page_addr k - WG_HEAP64_BASE) div WG_PAGE64 = of_nat k"
proof -
  assume k: "k < 0x2700000"
  have e: "page_addr k - WG_HEAP64_BASE = of_nat (0x1000 * k)"
    by (simp add: page_addr_def)
  have "unat (of_nat (0x1000 * k) :: u64) = 0x1000 * k"
    using k by (simp only: unat_of_nat) simp
  then have "unat ((page_addr k - WG_HEAP64_BASE) div WG_PAGE64) = k"
    unfolding e by (simp only: unat_div_distrib WG_PAGE64_def) simp
  then show ?thesis using k by (simp only: word_unat_eq_iff unat_of_nat) simp
qed

lemma unat_page_number: "k < 0x2700000 \<Longrightarrow> unat (of_nat k :: u64) = k"
  by (simp only: unat_of_nat) simp

text \<open>Every page-aligned address of the region is a page address.\<close>

lemma page_addr_ex:
  assumes "0x1000 dvd unat a" and "0x100000000 \<le> unat a" and "unat a \<le> 0x2800000000"
  shows "\<exists>k \<le> 0x2700000. a = page_addr k"
proof -
  let ?k = "(unat a - 0x100000000) div 0x1000"
  have d: "0x1000 * ?k = unat a - 0x100000000" using assms(1) by (simp add: dvd_diff_nat)
  have k: "?k \<le> 0x2700000" using assms(3) by simp
  have "unat (page_addr ?k) = unat a" unfolding unat_page_addr [OF k] using d assms(2) by simp
  then show ?thesis using k by (metis word_unat_eq_iff)
qed

subsection \<open>Uncommitting a range\<close>

lemma uncommit_loop_pages:
  assumes "k \<le> n" and "n \<le> 0x2700000"
  shows "\<exists>f'. uncommit_loop (page_addr k) (page_addr n) (Some f) = Some (Some f')
           \<and> (\<forall>j < 0x2700000. page_bit f' (of_nat j) = (page_bit f (of_nat j) \<and> \<not> (k \<le> j \<and> j < n)))"
  using assms
proof (induction "n - k" arbitrary: k f)
  case 0
  then show ?case
    by (subst uncommit_loop.simps) (simp add: page_addr_less)
next
  case (Suc d)
  then have kn: "k < n" by simp
  obtain g where g: "wg_page_mark (of_nat k) False (Some f) = Some (Some g)"
      "page_bit g = (page_bit f)(of_nat k := False)"
    using page_mark_bit [of "of_nat k"] kn Suc.prems(2) by (auto simp: unat_page_number)
  have "d = n - Suc k" using Suc.hyps(2) by simp
  then obtain f' where f': "uncommit_loop (page_addr (Suc k)) (page_addr n) (Some g) = Some (Some f')"
      "\<forall>j < 0x2700000. page_bit f' (of_nat j) = (page_bit g (of_nat j) \<and> \<not> (Suc k \<le> j \<and> j < n))"
    using Suc.hyps(1) [of "Suc k" g] kn Suc.prems(2) by (metis Suc_leI)
  have "uncommit_loop (page_addr k) (page_addr n) (Some f) = Some (Some f')"
    using kn Suc.prems(2) g(1) f'(1)
    by (subst uncommit_loop.simps) (simp add: page_addr_less page_number page_addr_Suc)
  moreover have "page_bit f' (of_nat j) = (page_bit f (of_nat j) \<and> \<not> (k \<le> j \<and> j < n))"
    if "j < 0x2700000" for j
  proof -
    have "(of_nat j = (of_nat k :: u64)) = (j = k)"
      using that kn Suc.prems(2) by (metis unat_page_number order_less_le_trans)
    then show ?thesis using f'(2) g(2) that kn by auto
  qed
  ultimately show ?case by blast
qed

lemma page_mask: "(0xFFF :: u64) = 2 ^ 12 - 1"
  by simp

lemma page_floor: "unat (a AND NOT 0xFFF :: u64) = unat a div 0x1000 * 0x1000"
  unfolding page_mask unat_and_not_low_bits by simp

lemma page_floor_neg: "unat (a AND - 0x1000 :: u64) = unat a div 0x1000 * 0x1000"
  using page_floor [of a] by simp

lemma uncommit64_total:
  "\<exists>bm. wg_uncommit64 a s h = Some (h\<lparr> s_commit_bm := bm \<rparr>)"
proof (cases "s_commit_bm h")
  case None
  then have "wg_uncommit64 a s h = Some (h\<lparr> s_commit_bm := s_commit_bm h \<rparr>)"
    by (simp add: wg_uncommit64_def)
  then show ?thesis by blast
next
  case (Some f)
  define p where "p = (let x = a AND NOT 0xFFF in if x < WG_HEAP64_BASE then WG_HEAP64_BASE else x)"
  define e where "e = (let x = (a + s + 0xFFF) AND NOT 0xFFF in if WG_HEAP64_END < x then WG_HEAP64_END else x)"
  have "\<exists>bm. uncommit_loop p e (Some f) = Some bm"
  proof (cases "p < e")
    case False
    then show ?thesis by (subst uncommit_loop.simps) simp
  next
    case True
    have dp: "0x1000 dvd unat p" "0x100000000 \<le> unat p"
      unfolding p_def Let_def
      by (auto simp: page_floor_neg WG_HEAP64_BASE_def word_less_nat_alt not_less)
    have de: "0x1000 dvd unat e" "unat e \<le> 0x2800000000"
      unfolding e_def Let_def
      by (auto simp: page_floor_neg WG_HEAP64_END_def word_less_nat_alt not_less)
    have lt: "unat p < unat e" using True by (simp add: word_less_nat_alt)
    have hi: "unat p \<le> 0x2800000000" and lo: "0x100000000 \<le> unat e" using lt dp de by linarith+
    obtain k where k: "k \<le> 0x2700000" "p = page_addr k" using page_addr_ex [OF dp hi] by blast
    obtain n where n: "n \<le> 0x2700000" "e = page_addr n" using page_addr_ex [OF de(1) lo de(2)] by blast
    have "k \<le> n" using True k n page_addr_less [of k n] by simp
    from uncommit_loop_pages [OF this n(1), of f] show ?thesis using k n by blast
  qed
  then show ?thesis
    using Some by (auto simp: wg_uncommit64_def Let_def p_def e_def)
qed

text \<open>A range of whole pages of the region, exactly.\<close>

lemma uncommit64_pages:
  assumes "k \<le> n" and "n \<le> 0x2700000" and "s_commit_bm h = Some f"
    and "s = 0x1000 * of_nat (n - k)"
  shows "\<exists>f'. wg_uncommit64 (page_addr k) s h = Some (h\<lparr> s_commit_bm := Some f' \<rparr>)
           \<and> (\<forall>j < 0x2700000. page_bit f' (of_nat j) = (page_bit f (of_nat j) \<and> \<not> (k \<le> j \<and> j < n)))"
proof -
  have a: "page_addr i AND NOT 0xFFF = page_addr i" "(page_addr i + 0xFFF) AND NOT 0xFFF = page_addr i"
    if "i \<le> 0x2700000" for i
  proof -
    have u: "unat (page_addr i) = 0x1000 * (0x100000 + i)" using unat_page_addr [OF that] by simp
    then have "unat (page_addr i + 0xFFF) = 0x1000 * (0x100000 + i) + 0xFFF"
      using that by (simp add: unat_plus_if')
    with u show "page_addr i AND NOT 0xFFF = page_addr i" "(page_addr i + 0xFFF) AND NOT 0xFFF = page_addr i"
      by (simp_all only: word_unat_eq_iff page_floor) simp_all
  qed
  have "page_addr k + s = page_addr n"
    using assms(1,4) by (simp add: page_addr_def of_nat_diff algebra_simps)
  moreover have "\<not> page_addr k < WG_HEAP64_BASE" "\<not> WG_HEAP64_END < page_addr n"
    using assms(1,2) page_addr_less [of k 0] page_addr_less [of "0x2700000" n]
    by (simp_all add: page_addr_0 page_addr_end)
  moreover obtain f' where f': "uncommit_loop (page_addr k) (page_addr n) (Some f) = Some (Some f')"
    "\<forall>j < 0x2700000. page_bit f' (of_nat j) = (page_bit f (of_nat j) \<and> \<not> (k \<le> j \<and> j < n))"
    using uncommit_loop_pages [OF assms(1,2)] by blast
  ultimately have "wg_uncommit64 (page_addr k) s h = Some (h\<lparr> s_commit_bm := Some f' \<rparr>)"
    using a(1) [of k] a(2) [of n] assms(1,2,3) by (simp add: wg_uncommit64_def Let_def)
  with f'(2) show ?thesis by blast
qed

subsection \<open>Committing a range\<close>

text \<open>The addresses a list of zero-fill requests covers, and those of page \<open>j\<close>.\<close>

definition zero_bytes :: "(u64 \<times> u64) list \<Rightarrow> nat set" where
  "zero_bytes zs = {x. \<exists>(b, l) \<in> set zs. covers (unat b, unat l) x}"

definition page_bytes :: "nat \<Rightarrow> nat set" where
  "page_bytes j = {0x100000000 + 0x1000 * j ..< 0x100000000 + 0x1000 * Suc j}"

lemma zero_bytes_simps [simp]:
  "zero_bytes [] = {}"
  "zero_bytes ((b, l) # zs) = {unat b ..< unat b + unat l} \<union> zero_bytes zs"
  "zero_bytes (zs @ zs') = zero_bytes zs \<union> zero_bytes zs'"
  by (auto simp: zero_bytes_def covers_def)

lemma page_bytes_run:
  "k \<le> m \<Longrightarrow> {0x100000000 + 0x1000 * k ..< 0x100000000 + 0x1000 * m} = (\<Union>j \<in> {k..<m}. page_bytes j)"
proof (induction m)
  case 0
  then show ?case by simp
next
  case (Suc m)
  show ?case
  proof (cases "k = Suc m")
    case True
    then show ?thesis by simp
  next
    case False
    with Suc.prems have k: "k \<le> m" by simp
    have "{0x100000000 + 0x1000 * k ..< 0x100000000 + 0x1000 * Suc m}
        = {0x100000000 + 0x1000 * k ..< 0x100000000 + 0x1000 * m} \<union> page_bytes m"
      using k by (auto simp: page_bytes_def)
    then show ?thesis unfolding Suc.IH [OF k] using k by (simp add: atLeastLessThanSuc Un_commute)
  qed
qed

lemma zero_loop_all:
  assumes "\<And>c. can c" and "unat off \<le> unat len" and "unat a + unat len < 2 ^ 64"
  shows "\<exists>zs. zero_loop can a len off z = Some (z @ zs)
           \<and> zero_bytes zs = {unat a + unat off ..< unat a + unat len}"
  using assms(2)
proof (induction "unat len - unat off" arbitrary: off z rule: less_induct)
  case less
  show ?case
  proof (cases "off < len")
    case False
    with less.prems have "unat off = unat len" by (simp add: word_less_nat_alt)
    with False show ?thesis by (subst zero_loop.simps) (auto intro: exI [of _ "[]"])
  next
    case True
    define c where "c = (if 0x400000 < len - off then 0x400000 else len - off)"
    have u: "unat (len - off) = unat len - unat off"
      using True by (simp add: unat_sub_if' word_less_nat_alt)
    have lt: "unat off < unat len" using True by (simp add: word_less_nat_alt)
    have c: "0 < unat c" "unat c \<le> unat len - unat off"
      using u lt by (auto simp: c_def word_less_nat_alt)
    have o: "unat (off + c) = unat off + unat c" and ao: "unat (a + off) = unat a + unat off"
      using c(2) lt assms(3) by (simp_all add: unat_plus_if')
    have "unat len - unat (off + c) < unat len - unat off" "unat (off + c) \<le> unat len"
      using o c lt by simp_all
    then obtain zs where zs: "zero_loop can a len (off + c) (z @ [(a + off, c)]) = Some ((z @ [(a + off, c)]) @ zs)"
      "zero_bytes zs = {unat a + unat (off + c) ..< unat a + unat len}"
      using less.hyps by blast
    have "zero_loop can a len off z = zero_loop can a len (off + c) (z @ [(a + off, c)])"
      using True assms(1) by (subst zero_loop.simps) (simp add: c_def Let_def)
    moreover have "zero_bytes ((a + off, c) # zs) = {unat a + unat off ..< unat a + unat len}"
      unfolding zero_bytes_simps zs(2) o ao using c lt by auto
    ultimately show ?thesis using zs(1) by (auto intro: exI [of _ "(a + off, c) # zs"])
  qed
qed

lemma mark_run_pages:
  assumes "k \<le> n" and "n \<le> 0x2700000"
  shows "\<exists>m f'. mark_run (page_addr k) (page_addr n) (Some f) = Some (page_addr m, Some f')
           \<and> k \<le> m \<and> m \<le> n \<and> (\<forall>j. k \<le> j \<and> j < m \<longrightarrow> \<not> page_bit f (of_nat j))
           \<and> (k < n \<longrightarrow> \<not> page_bit f (of_nat k) \<longrightarrow> k < m)
           \<and> (\<forall>j < 0x2700000. page_bit f' (of_nat j) = (page_bit f (of_nat j) \<or> (k \<le> j \<and> j < m)))"
  using assms
proof (induction "n - k" arbitrary: k f)
  case 0
  then show ?case
    by (subst mark_run.simps) (auto simp: page_addr_less)
next
  case (Suc d)
  then have kn: "k < n" by simp
  have com: "wg_page_committed (Some f) (of_nat k) = Some (page_bit f (of_nat k))"
    using kn Suc.prems(2) by (intro page_committed_bit) (simp add: unat_page_number)
  show ?case
  proof (cases "page_bit f (of_nat k)")
    case True
    have "mark_run (page_addr k) (page_addr n) (Some f) = Some (page_addr k, Some f)"
      using kn Suc.prems(2) com True
      by (subst mark_run.simps) (simp add: page_addr_less page_number)
    with True kn show ?thesis by (intro exI [of _ k] exI [of _ f]) auto
  next
    case False
    obtain g where g: "wg_page_mark (of_nat k) True (Some f) = Some (Some g)"
        "page_bit g = (page_bit f)(of_nat k := True)"
      using page_mark_bit [of "of_nat k"] kn Suc.prems(2) by (auto simp: unat_page_number)
    have same: "(of_nat j = (of_nat k :: u64)) = (j = k)" if "j < 0x2700000" for j
      using that kn Suc.prems(2) by (metis unat_page_number order_less_le_trans)
    have "d = n - Suc k" using Suc.hyps(2) by simp
    then obtain m f' where m: "mark_run (page_addr (Suc k)) (page_addr n) (Some g) = Some (page_addr m, Some f')"
        "Suc k \<le> m" "m \<le> n" "\<forall>j. Suc k \<le> j \<and> j < m \<longrightarrow> \<not> page_bit g (of_nat j)"
        "\<forall>j < 0x2700000. page_bit f' (of_nat j) = (page_bit g (of_nat j) \<or> (Suc k \<le> j \<and> j < m))"
      using Suc.hyps(1) [of "Suc k" g] kn Suc.prems(2) by (metis Suc_leI)
    have "mark_run (page_addr k) (page_addr n) (Some f) = Some (page_addr m, Some f')"
      using kn Suc.prems(2) com False g(1) m(1)
      by (subst mark_run.simps) (simp add: page_addr_less page_number page_addr_Suc)
    moreover have "\<not> page_bit f (of_nat j)" if "k \<le> j" "j < m" for j
    proof (cases "j = k")
      case True
      with False show ?thesis by simp
    next
      case neq: False
      then have "\<not> page_bit g (of_nat j)" using m(4) that by simp
      then show ?thesis using g(2) by (simp split: if_splits)
    qed
    moreover have "page_bit f' (of_nat j) = (page_bit f (of_nat j) \<or> (k \<le> j \<and> j < m))"
      if "j < 0x2700000" for j
      using m(2,5) g(2) same [OF that] that by auto
    ultimately show ?thesis using m(2,3) by (intro exI [of _ m] exI [of _ f']) auto
  qed
qed

lemma map_loop_pages:
  assumes "\<And>c. can c" and "k \<le> n" and "n \<le> 0x2700000" and "s_commit_bm h = Some f"
  shows "\<exists>f' zs. map_loop can (page_addr k) (page_addr n) h
             = Some (h\<lparr> s_commit_bm := Some f', zeroed := zeroed h @ zs \<rparr>)
           \<and> zero_bytes zs = (\<Union>j \<in> {j \<in> {k..<n}. \<not> page_bit f (of_nat j)}. page_bytes j)
           \<and> (\<forall>j < 0x2700000. page_bit f' (of_nat j) = (page_bit f (of_nat j) \<or> (k \<le> j \<and> j < n)))"
  using assms(2-)
proof (induction "n - k" arbitrary: k h f rule: less_induct)
  case less
  have com: "wg_page_committed (Some f) (of_nat k) = Some (page_bit f (of_nat k))" if "k < n"
    using that less.prems(2) by (intro page_committed_bit) (simp add: unat_page_number)
  consider (fin) "k = n" | (skip) "k < n" "page_bit f (of_nat k)" | (run) "k < n" "\<not> page_bit f (of_nat k)"
    using less.prems(1) by linarith
  then show ?case
  proof cases
    case fin
    then show ?thesis
      using less.prems by (subst map_loop.simps) (auto simp: page_addr_less intro!: exI [of _ f] exI [of _ "[]"])
  next
    case skip
    have d: "n - Suc k < n - k" and kn: "Suc k \<le> n" using skip(1) by simp_all
    have e: "map_loop can (page_addr k) (page_addr n) h = map_loop can (page_addr (Suc k)) (page_addr n) h"
      using skip less.prems com by (subst map_loop.simps) (simp add: page_addr_less page_number page_addr_Suc)
    have "{j \<in> {k..<n}. \<not> page_bit f (of_nat j)} = {j \<in> {Suc k..<n}. \<not> page_bit f (of_nat j)}"
      using skip by (auto simp: Suc_le_eq le_less)
    moreover have "(page_bit f (of_nat j) \<or> (k \<le> j \<and> j < n)) = (page_bit f (of_nat j) \<or> (Suc k \<le> j \<and> j < n))" for j
      using skip by (auto simp: Suc_le_eq le_less)
    ultimately show ?thesis
      unfolding e using less.hyps [OF d kn less.prems(2,3)] by simp
  next
    case run
    obtain m g where m: "mark_run (page_addr k) (page_addr n) (Some f) = Some (page_addr m, Some g)"
        "m \<le> n" "k < m" "\<forall>j. k \<le> j \<and> j < m \<longrightarrow> \<not> page_bit f (of_nat j)"
        "\<forall>j < 0x2700000. page_bit g (of_nat j) = (page_bit f (of_nat j) \<or> (k \<le> j \<and> j < m))"
      using mark_run_pages [OF less.prems(1,2), of f] run by blast
    have u: "unat (page_addr m - page_addr k) = 0x1000 * m - 0x1000 * k"
      using m(2,3) less.prems(2) page_addr_less [of k m]
      by (simp add: unat_sub_if' unat_page_addr word_less_nat_alt)
    obtain z1 where z1: "zero_loop can (page_addr k) (page_addr m - page_addr k) 0 (zeroed h) = Some (zeroed h @ z1)"
        "zero_bytes z1 = {unat (page_addr k) + unat (0 :: u64) ..< unat (page_addr k) + unat (page_addr m - page_addr k)}"
      using zero_loop_all [of can 0 "page_addr m - page_addr k" "page_addr k" "zeroed h"] assms(1) u m(2,3) less.prems(2)
      by (auto simp: unat_page_addr)
    have z1p: "zero_bytes z1 = (\<Union>j \<in> {k..<m}. page_bytes j)"
      unfolding z1(2) u using m(2,3) less.prems(2) by (simp add: unat_page_addr flip: page_bytes_run)
    let ?h = "h\<lparr> s_commit_bm := Some g, zeroed := zeroed h @ z1 \<rparr>"
    have d: "n - m < n - k" using m(2,3) by simp
    obtain f' zs where ih: "map_loop can (page_addr m) (page_addr n) ?h
             = Some (?h\<lparr> s_commit_bm := Some f', zeroed := zeroed ?h @ zs \<rparr>)"
        "zero_bytes zs = (\<Union>j \<in> {j \<in> {m..<n}. \<not> page_bit g (of_nat j)}. page_bytes j)"
        "\<forall>j < 0x2700000. page_bit f' (of_nat j) = (page_bit g (of_nat j) \<or> (m \<le> j \<and> j < n))"
      using less.hyps [OF d m(2) less.prems(2), of ?h g] by auto
    have "map_loop can (page_addr k) (page_addr n) h
        = Some (h\<lparr> s_commit_bm := Some f', zeroed := zeroed h @ z1 @ zs \<rparr>)"
      using run less.prems com m(1) z1(1) ih(1)
      by (subst map_loop.simps) (simp add: page_addr_less page_number wg_zero_range64_def)
    moreover have "{j \<in> {k..<n}. \<not> page_bit f (of_nat j)} = {k..<m} \<union> {j \<in> {m..<n}. \<not> page_bit g (of_nat j)}"
      using m less.prems(2) by auto
    then have "zero_bytes (z1 @ zs) = (\<Union>j \<in> {j \<in> {k..<n}. \<not> page_bit f (of_nat j)}. page_bytes j)"
      by (simp add: z1p ih(2))
    moreover have "page_bit f' (of_nat j) = (page_bit f (of_nat j) \<or> (k \<le> j \<and> j < n))" if "j < 0x2700000" for j
      using ih(3) m(2,3,5) that by auto
    ultimately show ?thesis by blast
  qed
qed

text \<open>The pages of the region that \<open>[a, a + s)\<close> touches, and whether a page is committed.\<close>

definition pages_of :: "u64 \<Rightarrow> u64 \<Rightarrow> nat set" where
  "pages_of a s = {(unat a - 0x100000000) div 0x1000 ..< (unat a + unat s + 0xFFF - 0x100000000) div 0x1000}"

definition committed :: "heap64 \<Rightarrow> nat \<Rightarrow> bool" where
  "committed h j = (case s_commit_bm h of None \<Rightarrow> False | Some f \<Rightarrow> page_bit f (of_nat j))"

lemma page_bit_zero: "page_bit (\<lambda>_. 0) pg = False"
  by (simp add: page_bit_def)

lemma map64_pages:
  assumes "\<And>c. can c" and "0x100000000 \<le> unat a" and "unat a + unat s \<le> 0x2800000000"
  shows "\<exists>h' zs. wg_guest_map64 can a s h = Some (True, h')
           \<and> (\<exists>f'. h' = h\<lparr> s_commit_bm := Some f', zeroed := zeroed h @ zs \<rparr>)
           \<and> zero_bytes zs = (\<Union>j \<in> {j \<in> pages_of a s. \<not> committed h j}. page_bytes j)
           \<and> (\<forall>j < 0x2700000. committed h' j = (committed h j \<or> j \<in> pages_of a s))"
proof -
  let ?k = "(unat a - 0x100000000) div 0x1000" and ?n = "(unat a + unat s + 0xFFF - 0x100000000) div 0x1000"
  have kn: "?k \<le> ?n" by (rule div_le_mono) simp
  have n: "?n \<le> 0x2700000"
  proof -
    have "unat a + unat s + 0xFFF - 0x100000000 < 0x1000 * Suc 0x2700000" using assms(2,3) by simp
    then have "?n < Suc 0x2700000" by (metis less_mult_imp_div_less mult.commute)
    then show ?thesis by simp
  qed
  have sum: "unat (a + s + 0xFFF) = unat a + unat s + 0xFFF"
    using assms(3) by (simp add: unat_plus_if')
  have fl: "x div 0x1000 * 0x1000 = 0x100000000 + 0x1000 * ((x - 0x100000000) div 0x1000)"
    if "0x100000000 \<le> x" for x :: nat
  proof -
    have "x = 0x1000 * 0x100000 + (x - 0x100000000)" using that by simp
    then have "x div 0x1000 = 0x100000 + (x - 0x100000000) div 0x1000"
      by (metis div_mult_self4 zero_neq_numeral)
    then show ?thesis by simp
  qed
  have st: "a AND NOT 0xFFF = page_addr ?k"
    unfolding word_unat_eq_iff page_floor unat_page_addr [OF order_trans [OF kn n]] using assms(2) by (rule fl)
  have en: "(a + s + 0xFFF) AND NOT 0xFFF = page_addr ?n"
    unfolding word_unat_eq_iff page_floor unat_page_addr [OF n] sum using assms(2) by (intro fl) simp
  have b: "\<not> page_addr ?k < WG_HEAP64_BASE" "\<not> WG_HEAP64_END < page_addr ?n"
    using kn n by (simp_all add: word_less_nat_alt unat_page_addr WG_HEAP64_BASE_def WG_HEAP64_END_def)
  let ?h = "if s_commit_bm h = None then h\<lparr> s_commit_bm := Some (\<lambda>_. 0) \<rparr> else h"
  obtain f where f: "s_commit_bm ?h = Some f" by (cases "s_commit_bm h") auto
  have same: "page_bit f (of_nat j) = committed h j" for j
    using f by (auto simp: committed_def page_bit_zero split: if_splits)
  obtain f' zs where m: "map_loop can (page_addr ?k) (page_addr ?n) ?h
        = Some (?h\<lparr> s_commit_bm := Some f', zeroed := zeroed ?h @ zs \<rparr>)"
      "zero_bytes zs = (\<Union>j \<in> {j \<in> {?k..<?n}. \<not> page_bit f (of_nat j)}. page_bytes j)"
      "\<forall>j < 0x2700000. page_bit f' (of_nat j) = (page_bit f (of_nat j) \<or> (?k \<le> j \<and> j < ?n))"
    using map_loop_pages [of can, OF assms(1) kn n f] by blast
  let ?h' = "h\<lparr> s_commit_bm := Some f', zeroed := zeroed h @ zs \<rparr>"
  have "wg_guest_map64 can a s h = Some (True, ?h')"
    using st en b m(1) f assms(1) by (simp add: wg_guest_map64_def Let_def del: One_nat_def split: if_splits)
  moreover have "\<forall>j < 0x2700000. committed ?h' j = (committed h j \<or> j \<in> pages_of a s)"
    using m(3) same by (simp add: committed_def pages_of_def)
  ultimately show ?thesis using m(2) by (auto simp: same pages_of_def)
qed

text \<open>Committing a range of the region, when the host's \<open>calloc\<close> succeeds, returns true,
  marks exactly the pages the range touches, and zero-fills exactly the bytes of those that were
  not committed before: a page in use is never wiped by a second commit, and a fresh one is
  always zero.\<close>

theorem map64_zeroes_fresh_pages:
  assumes "\<And>c. can c" and "0x100000000 \<le> unat a" and "unat a + unat s \<le> 0x2800000000"
  shows "\<exists>h' zs. wg_guest_map64 can a s h = Some (True, h')
           \<and> (\<exists>f'. h' = h\<lparr> s_commit_bm := Some f', zeroed := zeroed h @ zs \<rparr>)
           \<and> zero_bytes zs = (\<Union>j \<in> {j \<in> pages_of a s. \<not> committed h j}. page_bytes j)
           \<and> (\<forall>j < 0x2700000. committed h' j = (committed h j \<or> j \<in> pages_of a s))"
  using map64_pages [of can a s h, OF assms] .

theorem map64_zeroes_fresh_pages_witness:
  "\<exists>h' zs. wg_guest_map64 (\<lambda>_. True) 0x100000800 0x1000 heap64_init = Some (True, h')
     \<and> zeroed h' = zeroed heap64_init @ zs \<and> zero_bytes zs = page_bytes 0 \<union> page_bytes 1
     \<and> committed h' 1 \<and> \<not> committed h' 2"
proof -
  have p: "pages_of 0x100000800 0x1000 = {0, 1}"
    by (auto simp: pages_of_def)
  have c: "committed heap64_init j = False" for j by (simp add: committed_def heap64_init_def)
  obtain h' zs where h: "wg_guest_map64 (\<lambda>_. True) 0x100000800 0x1000 heap64_init = Some (True, h')"
      "\<exists>f'. h' = heap64_init\<lparr> s_commit_bm := Some f', zeroed := zeroed heap64_init @ zs \<rparr>"
      "zero_bytes zs = (\<Union>j \<in> {0, 1}. page_bytes j)"
      "\<forall>j < 0x2700000. committed h' j = (j \<in> {0, 1})"
    using map64_zeroes_fresh_pages [of "\<lambda>_. True" "0x100000800" "0x1000" heap64_init] by (auto simp: p c)
  from h(2) have "zeroed h' = zeroed heap64_init @ zs" by auto
  with h show ?thesis by (intro exI [of _ h'] exI [of _ zs]) auto
qed

end
