(* ===== verification/Heap64_Blocks.thy ===== *)
theory Heap64_Blocks
  imports Heap64_Commit
begin

section \<open>The 64-bit guest heap never hands out overlapping blocks\<close>

text \<open>
  The blocks the guest holds and the free blocks, taken together, never share an address: the
  invariant \<open>inv64\<close> of the allocator's state and of the multiset \<open>out\<close> of the blocks handed
  out and not yet released.  A block handed out while the tracking table is full stays in
  \<open>out\<close> although the allocator has forgotten it.
\<close>

definition block_of :: "u64 \<times> u64 \<Rightarrow> block" where
  "block_of e = (unat (fst e), unat (round_up 0x1000 (snd e)))"

definition entry_ok :: "u64 \<Rightarrow> u64 \<times> u64 \<Rightarrow> bool" where
  "entry_ok p e \<longleftrightarrow>
     0x100000000 \<le> unat (fst e) \<and> 0x1000 dvd unat (fst e)
     \<and> 0 < unat (snd e) \<and> unat (snd e) < 2 ^ 63
     \<and> unat (fst e) + unat (round_up 0x1000 (snd e)) \<le> unat p"

definition inv64 :: "heap64 \<Rightarrow> (u64 \<times> u64) multiset \<Rightarrow> bool" where
  "inv64 h out \<longleftrightarrow>
     no_overlap (image_mset block_of (out + mset (s_free64 h)))
     \<and> mset (s_alloc64 h) \<subseteq># out
     \<and> (\<forall>e \<in># out + mset (s_free64 h). entry_ok (s_heap64_ptr h) e)
     \<and> (\<forall>e \<in> set (s_free64 h). 0x1000 dvd unat (snd e))
     \<and> 0x100000000 \<le> unat (s_heap64_ptr h) \<and> unat (s_heap64_ptr h) \<le> 0x2800000000
     \<and> 0x1000 dvd unat (s_heap64_ptr h)"

lemma unat_round64:
  "unat (s :: u64) < 2 ^ 63 \<Longrightarrow> unat (round_up 0x1000 s) = (unat s + 0xFFF) div 0x1000 * 0x1000"
  using unat_round_up [of 12 s] by simp

lemma round64_bounds:
  assumes "unat (s :: u64) < 2 ^ 63"
  shows "unat s \<le> unat (round_up 0x1000 s)" and "unat (round_up 0x1000 s) < unat s + 0x1000"
    and "0x1000 dvd unat (round_up 0x1000 s)"
  using round_up_bounds [of "0x1000" "unat s"] by (simp_all add: unat_round64 [OF assms])

lemma round64_le:
  assumes "unat (s :: u64) + 0xFFF < 2 ^ 64"
  shows "unat s \<le> unat (round_up 0x1000 s)"
proof -
  have "unat (round_up 0x1000 s) = (unat s + 0xFFF) div 0x1000 * 0x1000"
    using unat_round_up [of 12 s] assms by simp
  then show ?thesis using round_up_bounds(1) [of "0x1000" "unat s"] by simp
qed

lemma round64_fixed:
  assumes "unat (s :: u64) < 2 ^ 63" and "0x1000 dvd unat s"
  shows "round_up 0x1000 s = s"
proof -
  have "unat (round_up 0x1000 s) = unat s"
    using round_up_fixed [of "0x1000" "unat s"] assms by (simp add: unat_round64)
  then show ?thesis by (simp only: word_unat_eq_iff)
qed

lemma block_of_fixed:
  "unat (snd e) < 2 ^ 63 \<Longrightarrow> 0x1000 dvd unat (snd e) \<Longrightarrow> block_of e = (unat (fst e), unat (snd e))"
  by (simp add: block_of_def round64_fixed)

lemma entry_ok_mono: "entry_ok p e \<Longrightarrow> unat p \<le> unat q \<Longrightarrow> entry_ok q e"
  by (auto simp: entry_ok_def)

lemma entry_ok_pos: "entry_ok p e \<Longrightarrow> 0 < snd (block_of e)"
  using round64_bounds(1) [of "snd e"] by (auto simp: entry_ok_def block_of_def)

lemma inv64_init: "inv64 heap64_init {#}"
  by (simp add: inv64_def heap64_init_def WG_HEAP64_BASE_def)

text \<open>A free block never overlaps a tracked one, so reuse drops nothing.\<close>

lemma inv64_free_entry:
  assumes "inv64 h out" and "e \<in> set (s_free64 h)"
  shows "entry_ok (s_heap64_ptr h) e" and "block_of e = (unat (fst e), unat (snd e))"
proof -
  show ok: "entry_ok (s_heap64_ptr h) e" using assms by (auto simp: inv64_def)
  show "block_of e = (unat (fst e), unat (snd e))"
    using assms ok by (intro block_of_fixed) (auto simp: inv64_def entry_ok_def)
qed

lemma inv64_no_drop:
  assumes inv: "inv64 h out" and e: "e \<in> set (s_free64 h)"
  shows "\<not> wg_overlaps_live64 (s_alloc64 h) (fst e) (snd e)"
proof -
  have end_le: "unat (s_heap64_ptr h) \<le> 0x2800000000" using inv by (simp add: inv64_def)
  have False if l: "l \<in> set (s_alloc64 h)"
    and o1: "fst e < fst l + round_up 0x1000 (snd l)" and o2: "fst l < fst e + snd e" for l
  proof -
    have lo: "l \<in># out" using l inv by (auto simp: inv64_def dest: mset_subset_eqD)
    have okl: "entry_ok (s_heap64_ptr h) l" using lo inv by (auto simp: inv64_def)
    note oke = inv64_free_entry [OF inv e]
    obtain O' where O': "out = add_mset l O'" using lo by (metis mset_add)
    obtain F' where F': "mset (s_free64 h) = add_mset e F'" using e by (metis mset_add set_mset_mset)
    have "no_overlap (add_mset (block_of e) (add_mset (block_of l) (image_mset block_of (O' + F'))))"
      using inv by (simp add: inv64_def O' F' add_mset_commute)
    then have "\<not> block_meets (block_of e) (block_of l)"
      by (rule no_overlap_pair) (rule entry_ok_pos [OF oke(1)] entry_ok_pos [OF okl])+
    moreover have "unat (fst l + round_up 0x1000 (snd l)) = unat (fst l) + unat (round_up 0x1000 (snd l))"
      using okl end_le by (simp add: entry_ok_def unat_plus_if')
    moreover have "unat (fst e + snd e) = unat (fst e) + unat (snd e)"
      using oke end_le by (simp add: entry_ok_def block_of_def unat_plus_if')
    ultimately show False
      using o1 o2 oke(2) by (simp add: block_meets_def block_of_def word_less_nat_alt)
  qed
  then show ?thesis by (auto simp: wg_overlaps_live64_def list_ex_iff Let_def)
qed

lemma take_exact_cases:
  assumes "\<And>e. e \<in> set fs \<Longrightarrow> snd e = want \<Longrightarrow> \<not> wg_overlaps_live64 live (fst e) want"
  shows "(take_exact live want i fs d = (None, fs, d) \<and> (\<forall>j. i \<le> j \<and> j < length fs \<longrightarrow> snd (fs ! j) \<noteq> want))
     \<or> (\<exists>j < length fs. take_exact live want i fs d = (Some (fs ! j), swap_remove fs j, d) \<and> snd (fs ! j) = want)"
  using assms
proof (induction "length fs - i" arbitrary: i)
  case 0
  then show ?case by (auto simp: take_exact.simps)
next
  case (Suc n)
  then have i: "i < length fs" and n: "n = length fs - Suc i" by simp_all
  show ?case
  proof (cases "snd (fs ! i) = want")
    case True
    then have "take_exact live want i fs d = (Some (fs ! i), swap_remove fs i, d)"
      using i Suc.prems [of "fs ! i"] by (simp add: take_exact.simps)
    with i True show ?thesis by blast
  next
    case False
    then have "take_exact live want i fs d = take_exact live want (Suc i) fs d"
      using i by (simp add: take_exact.simps)
    with Suc.hyps(1) [OF n Suc.prems] False show ?thesis by (metis Suc_leI le_neq_implies_less)
  qed
qed

lemma take_best_cases:
  assumes "\<And>e. e \<in> set fs \<Longrightarrow> \<not> wg_overlaps_live64 live (fst e) (snd e)"
  shows "take_best live want fs d = (None, fs, d)
     \<or> (\<exists>j < length fs. take_best live want fs d = (Some (fs ! j), swap_remove fs j, d) \<and> want \<le> snd (fs ! j))"
proof (cases "best_block want fs")
  case None
  then show ?thesis by (simp add: take_best.simps)
next
  case (Some b)
  note b = best_block_Some [OF Some]
  then have "take_best live want fs d = (Some (fs ! b), swap_remove fs b, d)"
    using Some assms [of "fs ! b"] by (simp add: take_best.simps)
  with b show ?thesis by blast
qed

lemma free_take64_cases:
  assumes "inv64 h out"
  shows "(wg_free_take64_r whole s 0 h = ((0, 0), h) \<and> (\<forall>e \<in> set (s_free64 h). snd e \<noteq> round_up 0x1000 s))
     \<or> (\<exists>j < length (s_free64 h).
          wg_free_take64_r whole s 0 h = (s_free64 h ! j, h\<lparr> s_free64 := swap_remove (s_free64 h) j \<rparr>)
          \<and> round_up 0x1000 s \<le> snd (s_free64 h ! j))"
proof -
  let ?w = "round_up 0x1000 s"
  have nd: "\<And>e. e \<in> set (s_free64 h) \<Longrightarrow> \<not> wg_overlaps_live64 (s_alloc64 h) (fst e) (snd e)"
    using inv64_no_drop [OF assms] .
  consider "take_exact (s_alloc64 h) ?w 0 (s_free64 h) (s_free64_dropped h) = (None, s_free64 h, s_free64_dropped h)"
      "\<forall>e \<in> set (s_free64 h). snd e \<noteq> ?w"
    | j where "j < length (s_free64 h)" "snd (s_free64 h ! j) = ?w"
        "take_exact (s_alloc64 h) ?w 0 (s_free64 h) (s_free64_dropped h)
          = (Some (s_free64 h ! j), swap_remove (s_free64 h) j, s_free64_dropped h)"
    using take_exact_cases [of "s_free64 h" ?w "s_alloc64 h" 0 "s_free64_dropped h"] nd
    by (metis in_set_conv_nth le0)
  then show ?thesis
  proof cases
    case exact: 1
    consider "take_best (s_alloc64 h) ?w (s_free64 h) (s_free64_dropped h) = (None, s_free64 h, s_free64_dropped h)"
      | j where "j < length (s_free64 h)" "?w \<le> snd (s_free64 h ! j)"
        "take_best (s_alloc64 h) ?w (s_free64 h) (s_free64_dropped h)
          = (Some (s_free64 h ! j), swap_remove (s_free64 h) j, s_free64_dropped h)"
      using take_best_cases [of "s_free64 h" "s_alloc64 h" ?w "s_free64_dropped h"] nd by auto
    then show ?thesis
    proof cases
      case 1
      with exact show ?thesis by (cases whole) (simp_all add: wg_free_take64_r_def)
    next
      case (2 j)
      with exact show ?thesis
        by (cases whole; cases "s_free64 h ! j") (auto simp: wg_free_take64_r_def Let_def)
    qed
  next
    case (2 j)
    then show ?thesis
      by (cases "s_free64 h ! j") (auto simp: wg_free_take64_r_def Let_def)
  qed
qed

subsection \<open>Every operation keeps the invariant\<close>

lemma inv64_track:
  assumes "no_overlap (image_mset block_of (add_mset (a, s) out + mset (s_free64 h)))"
    and "mset (s_alloc64 h) \<subseteq># out"
    and "\<forall>e \<in># out + mset (s_free64 h). entry_ok (s_heap64_ptr h) e"
    and "entry_ok (s_heap64_ptr h) (a, s)"
    and "\<forall>e \<in> set (s_free64 h). 0x1000 dvd unat (snd e)"
    and "0x100000000 \<le> unat (s_heap64_ptr h)" "unat (s_heap64_ptr h) \<le> 0x2800000000"
      "0x1000 dvd unat (s_heap64_ptr h)"
  shows "inv64 (wg_track_alloc64 a s h) (add_mset (a, s) out)"
proof -
  have "mset (s_alloc64 h) \<subseteq># add_mset (a, s) out"
    using assms(2) by (rule subset_mset.order_trans) simp
  with assms show ?thesis by (auto simp: inv64_def wg_track_alloc64_def)
qed

lemma inv64_take:
  assumes inv: "inv64 h out" and j: "j < length (s_free64 h)"
  shows "inv64 (wg_track_alloc64 (fst (s_free64 h ! j)) (snd (s_free64 h ! j))
            (h\<lparr> s_free64 := swap_remove (s_free64 h) j \<rparr>)) (add_mset (s_free64 h ! j) out)"
proof -
  let ?e = "s_free64 h ! j" and ?h = "h\<lparr> s_free64 := swap_remove (s_free64 h) j \<rparr>"
  have m: "mset (s_free64 h) = add_mset ?e (mset (swap_remove (s_free64 h) j))"
    using mset_swap_remove [OF j] by simp
  have "inv64 (wg_track_alloc64 (fst ?e) (snd ?e) ?h) (add_mset (fst ?e, snd ?e) out)"
  proof (rule inv64_track)
    show "no_overlap (image_mset block_of (add_mset (fst ?e, snd ?e) out + mset (s_free64 ?h)))"
      using inv by (simp add: inv64_def m)
    show "entry_ok (s_heap64_ptr ?h) (fst ?e, snd ?e)"
      using inv64_free_entry(1) [OF inv, of ?e] j by simp
    show "\<forall>e \<in># out + mset (s_free64 ?h). entry_ok (s_heap64_ptr ?h) e"
      using inv by (simp add: inv64_def m)
    show "\<forall>e \<in> set (s_free64 ?h). 0x1000 dvd unat (snd e)"
      using inv set_swap_remove [OF j] by (auto simp: inv64_def)
  qed (use inv in \<open>simp_all add: inv64_def\<close>)
  then show ?thesis by simp
qed

lemma align64_bounds:
  assumes "12 \<le> m" and "m \<le> 35" and "unat p \<le> 0x2800000000"
  shows "unat p \<le> unat (round_up (2 ^ m) (p :: u64))" and "unat (round_up (2 ^ m) p) \<le> 0x2800000000"
    and "0x1000 dvd unat (round_up (2 ^ m) p)" and "(2 :: nat) ^ m dvd unat (round_up (2 ^ m) p)"
proof -
  have pw: "(2 :: nat) ^ m \<le> 2 ^ 35" using assms(2) by (rule power_increasing) simp
  have u: "unat (round_up (2 ^ m) p) = (unat p + (2 ^ m - 1)) div 2 ^ m * 2 ^ m"
    using assms(2,3) pw by (intro unat_round_up) simp_all
  show "unat p \<le> unat (round_up (2 ^ m) p)" "(2 :: nat) ^ m dvd unat (round_up (2 ^ m) p)"
    using round_up_bounds [of "2 ^ m" "unat p"] by (simp_all add: u)
  have "(0x1000 :: nat) dvd 2 ^ m" using le_imp_power_dvd [OF assms(1), of "2 :: nat"] by simp
  then show "0x1000 dvd unat (round_up (2 ^ m) p)" unfolding u by (rule dvd_mult)
  have "(2 :: nat) ^ m dvd 0x2800000000"
    using le_imp_power_dvd [OF assms(2), of "2 :: nat"] by (rule dvd_trans) simp
  then show "unat (round_up (2 ^ m) p) \<le> 0x2800000000"
    unfolding u using assms(3) by (intro round_up_le) simp_all
qed

lemma inv64_bump:
  assumes inv: "inv64 h out" and m: "12 \<le> m" "m \<le> 35" and s: "0 < unat s" "unat s < 2 ^ 63"
    and a: "a = round_up (2 ^ m) (s_heap64_ptr h)"
    and fits: "\<not> WG_HEAP64_END < a + round_up 0x1000 s"
  shows "inv64 (wg_track_alloc64 a s (h\<lparr> s_heap64_ptr := round_up 0x1000 (a + round_up 0x1000 s) \<rparr>))
           (add_mset (a, s) out)"
proof -
  let ?p = "s_heap64_ptr h" and ?r = "round_up 0x1000 s"
  have p: "unat ?p \<le> 0x2800000000" "0x100000000 \<le> unat ?p" using inv by (simp_all add: inv64_def)
  note al = align64_bounds [OF m p(1), folded a]
  note rs = round64_bounds [OF s(2)]
  have sum: "unat (a + ?r) = unat a + unat ?r"
    using al(2) rs(2) s(2) by (simp add: unat_plus_if')
  have le: "unat a + unat ?r \<le> 0x2800000000"
    using fits by (simp add: word_less_nat_alt sum WG_HEAP64_END_def)
  have fx: "round_up 0x1000 (a + ?r) = a + ?r"
    using al(3) rs(3) le by (intro round64_fixed) (simp_all add: sum)
  let ?h = "h\<lparr> s_heap64_ptr := round_up 0x1000 (a + ?r) \<rparr>"
  have ptr: "unat (s_heap64_ptr ?h) = unat a + unat ?r" by (simp add: fx sum)
  have "no_overlap (add_mset (block_of (a, s)) (image_mset block_of (out + mset (s_free64 h))))"
  proof (rule no_overlap_add)
    show "no_overlap (image_mset block_of (out + mset (s_free64 h)))" using inv by (simp add: inv64_def)
    fix c x
    assume "c \<in># image_mset block_of (out + mset (s_free64 h))" and x: "covers (block_of (a, s)) x"
    then obtain e where "c = block_of e" "entry_ok ?p e" using inv by (auto simp: inv64_def)
    with x al(1) show "\<not> covers c x" by (auto simp: covers_def block_of_def entry_ok_def)
  qed
  moreover have "entry_ok (s_heap64_ptr ?h) (a, s)"
    unfolding entry_ok_def ptr using al p s by simp
  moreover have "\<forall>e \<in># out + mset (s_free64 ?h). entry_ok (s_heap64_ptr ?h) e"
  proof
    fix e assume "e \<in># out + mset (s_free64 ?h)"
    then have "entry_ok ?p e" using inv by (simp add: inv64_def)
    then show "entry_ok (s_heap64_ptr ?h) e" by (rule entry_ok_mono) (use ptr al(1) in simp)
  qed
  ultimately show ?thesis
    using inv p al le rs(3) by (intro inv64_track) (simp_all add: inv64_def fx sum)
qed

lemma reserve64_inv:
  assumes inv: "inv64 h out" and s: "unat s < 2 ^ 63" and k: "k \<le> 35"
    and r: "wg_guest_reserve64 whole s (2 ^ k) oc h = ((a, c), h')"
  shows "inv64 h' (if a = 0 then out else add_mset (a, c) out)"
    and "a \<noteq> 0 \<Longrightarrow> unat s \<le> unat (round_up 0x1000 c)"
proof -
  let ?s = "if s = 0 then 1 else s" and ?al = "if (2 :: u64) ^ k < 0x1000 then 0x1000 else (2 :: u64) ^ k"
  have s': "0 < unat ?s" "unat ?s < 2 ^ 63" "unat s \<le> unat ?s" using s by (auto simp: unat_gt_0)
  define m where "m = max k 12"
  have m: "12 \<le> m" "m \<le> 35" using k by (auto simp: m_def)
  have al: "?al = 2 ^ m"
  proof (cases "k < 12")
    case True
    then have "(2 :: nat) ^ k < 2 ^ 12" by (rule power_strict_increasing) simp
    then have "(2 :: u64) ^ k < 0x1000" using True by (simp add: word_less_nat_alt unat_pow2)
    with True show ?thesis by (simp add: m_def)
  next
    case False
    then have "(2 :: nat) ^ 12 \<le> 2 ^ k" by (intro power_increasing) simp_all
    then have "\<not> (2 :: u64) ^ k < 0x1000" using k by (simp add: word_less_nat_alt unat_pow2)
    with False show ?thesis by (simp add: m_def)
  qed
  note rs = round64_bounds [OF s'(2)]
  have "inv64 h' (if a = 0 then out else add_mset (a, c) out)
      \<and> (a \<noteq> 0 \<longrightarrow> unat s \<le> unat (round_up 0x1000 c))"
    using free_take64_cases [OF inv, of whole "round_up 0x1000 ?s"]
  proof (elim disjE exE conjE)
    assume t: "wg_free_take64_r whole (round_up 0x1000 ?s) 0 h = ((0, 0), h)"
      and "\<forall>e \<in> set (s_free64 h). snd e \<noteq> round_up 0x1000 (round_up 0x1000 ?s)"
    let ?a = "round_up (2 ^ m) (s_heap64_ptr h)"
    have p: "unat (s_heap64_ptr h) \<le> 0x2800000000" "0x100000000 \<le> unat (s_heap64_ptr h)"
      using inv by (simp_all add: inv64_def)
    note alb = align64_bounds [OF m p(1)]
    show ?thesis
    proof (cases "WG_HEAP64_END < ?a + round_up 0x1000 ?s")
      case True
      then have "a = 0" "h' = h\<lparr> s_heap64_ptr := ?a \<rparr>"
        using r t unfolding wg_guest_reserve64_def Let_def al by (auto split: if_splits)
      moreover have "inv64 (h\<lparr> s_heap64_ptr := ?a \<rparr>) out"
        using inv alb p entry_ok_mono [of "s_heap64_ptr h" _ ?a] by (simp add: inv64_def)
      ultimately show ?thesis by simp
    next
      case False
      then have "a = ?a" "c = ?s" "h' = wg_track_alloc64 ?a ?s
          (h\<lparr> s_heap64_ptr := round_up 0x1000 (?a + round_up 0x1000 ?s) \<rparr>)"
        using r t unfolding wg_guest_reserve64_def Let_def al by (auto split: if_splits)
      moreover have "?a \<noteq> 0" using alb(1) p by auto
      ultimately show ?thesis
        using inv64_bump [OF inv m s'(1,2) refl False] rs(1) s'(3) by simp
    qed
  next
    fix j
    assume j: "j < length (s_free64 h)"
      and t: "wg_free_take64_r whole (round_up 0x1000 ?s) 0 h
          = (s_free64 h ! j, h\<lparr> s_free64 := swap_remove (s_free64 h) j \<rparr>)"
      and big: "round_up 0x1000 (round_up 0x1000 ?s) \<le> snd (s_free64 h ! j)"
    let ?e = "s_free64 h ! j"
    have ok: "entry_ok (s_heap64_ptr h) ?e" "block_of ?e = (unat (fst ?e), unat (snd ?e))"
      using inv64_free_entry [OF inv, of ?e] j by simp_all
    then have nz: "fst ?e \<noteq> 0" by (auto simp: entry_ok_def)
    have "a = fst ?e" "c = snd ?e" "h' = wg_track_alloc64 (fst ?e) (snd ?e)
          (h\<lparr> s_free64 := swap_remove (s_free64 h) j \<rparr>)"
      using r t nz unfolding wg_guest_reserve64_def Let_def al
      by (cases ?e; auto)+
    moreover have "unat s \<le> unat (round_up 0x1000 (snd ?e))"
    proof -
      have "unat (round_up 0x1000 ?s) \<le> unat (round_up 0x1000 (round_up 0x1000 ?s))"
        using rs(2) s'(2) by (intro round64_le) simp
      then have "unat s \<le> unat (snd ?e)"
        using big rs(1) s'(3) unfolding word_le_nat_alt by linarith
      then show ?thesis using ok(2) by (simp add: block_of_def)
    qed
    ultimately show ?thesis using inv64_take [OF inv j] nz by simp
  qed
  then show "inv64 h' (if a = 0 then out else add_mset (a, c) out)"
    and "a \<noteq> 0 \<Longrightarrow> unat s \<le> unat (round_up 0x1000 c)" by blast+
qed

lemma free64_inv:
  assumes inv: "inv64 h out"
  shows "\<exists>h'. wg_guest_free64 a h = Some h'
           \<and> inv64 h' (out - (mset (s_alloc64 h) - mset (s_alloc64 h')))"
proof (cases "a < WG_HEAP64_BASE")
  case True
  with inv show ?thesis by (simp add: wg_guest_free64_def)
next
  case base: False
  show ?thesis
  proof (cases "last_idx (\<lambda>e. fst e = a) (s_alloc64 h)")
    case None
    with inv base show ?thesis by (simp add: wg_guest_free64_def)
  next
    case (Some i)
    let ?e = "s_alloc64 h ! i" and ?al = "swap_remove (s_alloc64 h) i"
    note i = last_idx_Some [OF Some]
    have m: "mset (s_alloc64 h) = add_mset ?e (mset ?al)" using mset_swap_remove [OF i(1)] by simp
    have "?e \<in># mset (s_alloc64 h)" using i(1) by simp
    moreover have "mset (s_alloc64 h) \<subseteq># out" using inv by (simp add: inv64_def)
    ultimately have eo: "?e \<in># out" by (rule mset_subset_eqD [rotated])
    then obtain O' where O': "out = add_mset ?e O'" by (metis mset_add)
    have al: "mset ?al \<subseteq># O'" using inv m by (simp add: inv64_def O')
    have ok: "entry_ok (s_heap64_ptr h) ?e" using eo inv by (auto simp: inv64_def)
    then have nz: "snd ?e \<noteq> 0" by (auto simp: entry_ok_def)
    let ?r = "round_up 0x1000 (snd ?e)"
    obtain bm where u: "wg_uncommit64 a ?r (h\<lparr> s_alloc64 := ?al \<rparr>)
        = Some (h\<lparr> s_alloc64 := ?al, s_commit_bm := bm \<rparr>)"
      using uncommit64_total [of a ?r "h\<lparr> s_alloc64 := ?al \<rparr>"] by auto
    define fs where "fs = (if list_ex (\<lambda>e. fst e = a) (s_free64 h) \<or> \<not> length (s_free64 h) < WG_MAX_ALLOC64
      then s_free64 h else s_free64 h @ [(a, ?r)])"
    let ?h = "h\<lparr> s_alloc64 := ?al, s_commit_bm := bm, s_free64 := fs \<rparr>"
    have f: "wg_guest_free64 a h = Some ?h"
      using base Some nz u by (simp add: wg_guest_free64_def Let_def fs_def)
    have rb: "unat ?r < 2 ^ 63" "0x1000 dvd unat ?r" "0 < unat ?r"
    proof -
      have p: "unat (s_heap64_ptr h) \<le> 0x2800000000" using inv by (simp add: inv64_def)
      have e: "0 < unat (snd ?e)" "unat (snd ?e) < 2 ^ 63" "unat (fst ?e) + unat ?r \<le> unat (s_heap64_ptr h)"
        using ok by (simp_all add: entry_ok_def)
      note r = round64_bounds [OF e(2)]
      show "unat ?r < 2 ^ 63" "0x1000 dvd unat ?r" "0 < unat ?r"
        using r(3) order_less_le_trans [OF e(1) r(1)] e(3) p by simp_all
    qed
    have blk: "block_of (a, ?r) = block_of ?e"
      using i(2) rb by (simp add: block_of_def round64_fixed)
    have okr: "entry_ok (s_heap64_ptr h) (a, ?r)"
      using ok i(2) rb by (simp add: entry_ok_def round64_fixed)
    have fs: "mset fs = mset (s_free64 h) \<or> mset fs = add_mset (a, ?r) (mset (s_free64 h))"
      by (simp add: fs_def)
    have sfs: "set fs \<subseteq> insert (a, ?r) (set (s_free64 h))" by (auto simp: fs_def)
    have "no_overlap (image_mset block_of (O' + mset fs))"
      using inv fs blk by (auto simp: inv64_def O' elim!: no_overlap_mono)
    moreover have "\<forall>e \<in># O' + mset fs. entry_ok (s_heap64_ptr h) e"
    proof
      fix e assume "e \<in># O' + mset fs"
      then have "e \<in># O' \<or> e = (a, ?r) \<or> e \<in> set (s_free64 h)" using sfs by auto
      then show "entry_ok (s_heap64_ptr h) e" using okr inv by (auto simp: inv64_def O')
    qed
    moreover have "\<forall>e \<in> set fs. 0x1000 dvd unat (snd e)"
      using inv rb(2) by (auto simp: inv64_def fs_def)
    ultimately have "inv64 ?h O'" using inv al by (simp add: inv64_def)
    moreover have "out - (mset (s_alloc64 h) - mset ?al) = O'" by (simp add: m O')
    ultimately show ?thesis using f by (intro exI [of _ ?h]) simp
  qed
qed

lemma free64_total: "inv64 h out \<Longrightarrow> \<exists>h'. wg_guest_free64 a h = Some h'"
  using free64_inv by blast

lemma free64_inv_step:
  "inv64 h out \<Longrightarrow> wg_guest_free64 a h = Some h' \<Longrightarrow> inv64 h' (out - (mset (s_alloc64 h) - mset (s_alloc64 h')))"
  using free64_inv [of h out a] by auto

lemma inv64_frame:
  "s_alloc64 h' = s_alloc64 h \<Longrightarrow> s_free64 h' = s_free64 h \<Longrightarrow> s_heap64_ptr h' = s_heap64_ptr h
    \<Longrightarrow> inv64 h' out = inv64 h out"
  by (simp add: inv64_def)

lemma zero_range64_frame:
  "wg_zero_range64 can a l h = Some h' \<Longrightarrow>
     s_alloc64 h' = s_alloc64 h \<and> s_free64 h' = s_free64 h \<and> s_heap64_ptr h' = s_heap64_ptr h"
  by (auto simp: wg_zero_range64_def split: bind_splits)

lemma map_loop_frame:
  "map_loop can p e h = Some h' \<Longrightarrow>
     s_alloc64 h' = s_alloc64 h \<and> s_free64 h' = s_free64 h \<and> s_heap64_ptr h' = s_heap64_ptr h"
proof (induction rule: map_loop.raw_induct [rotated, consumes 1, case_names 1])
  case (1 loop can p e h h')
  show ?case
  proof (cases "p < e")
    case False
    with 1(2) show ?thesis by simp
  next
    case True
    obtain c where c: "wg_page_committed (s_commit_bm h) ((p - WG_HEAP64_BASE) div WG_PAGE64) = Some c"
      using 1(2) True by (auto split: bind_splits)
    show ?thesis
    proof (cases c)
      case True
      with 1(2) \<open>p < e\<close> c have "loop can (p + WG_PAGE64) e h = Some h'" by simp
      then show ?thesis by (rule 1(1))
    next
      case False
      obtain q bm h1 where "wg_zero_range64 can p (q - p) (h\<lparr> s_commit_bm := bm \<rparr>) = Some h1"
          "loop can q e h1 = Some h'"
        using 1(2) \<open>p < e\<close> c False by (auto split: bind_splits)
      with 1(1) [of can q e h1 h'] zero_range64_frame show ?thesis by fastforce
    qed
  qed
qed

lemma map64_frame:
  "wg_guest_map64 can a s h = Some (ok, h') \<Longrightarrow>
     s_alloc64 h' = s_alloc64 h \<and> s_free64 h' = s_free64 h \<and> s_heap64_ptr h' = s_heap64_ptr h"
  by (auto simp: wg_guest_map64_def Let_def split: if_splits bind_splits
      dest!: zero_range64_frame map_loop_frame)

lemma uncommit64_frame:
  "wg_uncommit64 a s h = Some h' \<Longrightarrow>
     s_alloc64 h' = s_alloc64 h \<and> s_free64 h' = s_free64 h \<and> s_heap64_ptr h' = s_heap64_ptr h"
  using uncommit64_total [of a s h] by auto

subsection \<open>Reachable states\<close>

text \<open>
  The states the engine's calls reach: reservations of less than \<open>2 ^ 63\<close> bytes at a power-of-two
  alignment of at most \<open>2 ^ 35\<close> (the engine always asks for \<open>0x10000\<close>), releases of any address
  whatsoever, commits and decommits of any range.  The second argument is what the guest holds.
\<close>

inductive heap64_run :: "heap64 \<Rightarrow> (u64 \<times> u64) multiset \<Rightarrow> bool" where
  start: "heap64_run heap64_init {#}"
| reserve: "heap64_run h out \<Longrightarrow> unat s < 2 ^ 63 \<Longrightarrow> k \<le> 35
    \<Longrightarrow> wg_guest_reserve64 whole s (2 ^ k) oc h = ((a, c), h')
    \<Longrightarrow> heap64_run h' (if a = 0 then out else add_mset (a, c) out)"
| release: "heap64_run h out \<Longrightarrow> wg_guest_free64 a h = Some h'
    \<Longrightarrow> heap64_run h' (out - (mset (s_alloc64 h) - mset (s_alloc64 h')))"
| commit: "heap64_run h out \<Longrightarrow> wg_guest_map64 can a s h = Some (ok, h') \<Longrightarrow> heap64_run h' out"
| decommit: "heap64_run h out \<Longrightarrow> wg_uncommit64 a s h = Some h' \<Longrightarrow> heap64_run h' out"

lemma heap64_run_inv: "heap64_run h out \<Longrightarrow> inv64 h out"
proof (induction rule: heap64_run.induct)
  case start
  show ?case by (rule inv64_init)
next
  case (reserve h out s k whole oc a c h')
  then show ?case using reserve64_inv(1) by blast
next
  case (release h out a h')
  then show ?case using free64_inv_step by blast
next
  case (commit h out can a s ok h')
  then show ?case using map64_frame [OF commit.hyps(2)] by (simp add: inv64_def)
next
  case (decommit h out a s h')
  then show ?case using uncommit64_frame [OF decommit.hyps(2)] by (simp add: inv64_def)
qed

lemma inv64_disjoint:
  assumes inv: "inv64 h out" and b: "b \<in># out" and c: "c \<in># out - {#b#}"
  shows "\<not> block_meets (block_of b) (block_of c)"
proof -
  have out: "out = add_mset b (out - {#b#})" using b by simp
  obtain M where M: "out - {#b#} = add_mset c M" using c by (metis mset_add)
  have eq: "out = add_mset b (add_mset c M)" using out M by simp
  have "no_overlap (add_mset (block_of b) (add_mset (block_of c) (image_mset block_of (M + mset (s_free64 h)))))"
    using inv by (simp add: inv64_def eq)
  moreover have "entry_ok (s_heap64_ptr h) b" "entry_ok (s_heap64_ptr h) c"
    using inv by (simp_all add: inv64_def eq)
  ultimately show ?thesis by (intro no_overlap_pair) (auto intro: entry_ok_pos)
qed

lemma inv64_inside:
  assumes "inv64 h out" and "b \<in># out"
  shows "0x100000000 \<le> fst (block_of b) \<and> fst (block_of b) + snd (block_of b) \<le> 0x2800000000"
proof -
  have "entry_ok (s_heap64_ptr h) b" and "unat (s_heap64_ptr h) \<le> 0x2800000000"
    using assms by (simp_all add: inv64_def)
  then show ?thesis by (simp add: entry_ok_def block_of_def)
qed

text \<open>Two tracked blocks have different bases.\<close>

lemma inv64_same_base:
  assumes inv: "inv64 h out" and "b \<in># out" and "c \<in># out" and "fst b = fst c"
  shows "b = c"
proof (rule ccontr)
  assume "b \<noteq> c"
  then have c: "c \<in># out - {#b#}" using assms(3) by (simp add: in_diff_count)
  have "entry_ok (s_heap64_ptr h) b" "entry_ok (s_heap64_ptr h) c"
    using inv assms(2,3) by (simp_all add: inv64_def)
  then have "0 < snd (block_of b)" "0 < snd (block_of c)" by (auto intro: entry_ok_pos)
  then have "block_meets (block_of b) (block_of c)"
    using assms(4) by (simp add: block_meets_def block_of_def)
  with inv64_disjoint [OF inv assms(2) c] show False ..
qed

text \<open>C13: In every reachable state of the 64-bit guest heap, whatever the guest released and
  however often it released it, two blocks the guest holds never share an address, every block
  lies inside the region, and a release of any address at all returns.\<close>

theorem heap64_blocks_disjoint:
  assumes "heap64_run h out" and "b \<in># out" and "c \<in># out - {#b#}"
  shows "\<not> block_meets (block_of b) (block_of c)
    \<and> 0x100000000 \<le> fst (block_of b) \<and> fst (block_of b) + snd (block_of b) \<le> 0x2800000000
    \<and> (\<forall>a. \<exists>h'. wg_guest_free64 a h = Some h')"
  using inv64_disjoint [OF heap64_run_inv [OF assms(1)] assms(2,3)]
    inv64_inside [OF heap64_run_inv [OF assms(1)] assms(2)]
    free64_total [OF heap64_run_inv [OF assms(1)]] by blast

lemma heap64_reserve_example:
  "wg_guest_reserve64 False 0x1800 (2 ^ 16) 0 heap64_init
    = ((0x100000000, 0x1800), heap64_init\<lparr> s_alloc64 := [(0x100000000, 0x1800)], s_heap64_ptr := 0x100002000 \<rparr>)"
  "fst (wg_guest_reserve64 False 0x2000 (2 ^ 16) 0
     (heap64_init\<lparr> s_alloc64 := [(0x100000000, 0x1800)], s_heap64_ptr := 0x100002000 \<rparr>)) = (0x100010000, 0x2000)"
  by (simp_all add: wg_guest_reserve64_def wg_free_take64_r_def take_exact.simps heap64_init_def
      wg_track_alloc64_def round_up_def WG_HEAP64_BASE_def WG_HEAP64_END_def WG_MAX_ALLOC64_def)

lemma heap64_one_reserve:
  "\<exists>h. heap64_run h {#(0x100000000, 0x1800)#} \<and> s_alloc64 h = [(0x100000000, 0x1800)] \<and> s_free64 h = []"
  using heap64_run.reserve [OF heap64_run.start _ _ heap64_reserve_example(1)]
  by (intro exI [of _ "heap64_init\<lparr> s_alloc64 := [(0x100000000, 0x1800)], s_heap64_ptr := 0x100002000 \<rparr>"])
    (simp add: heap64_init_def)

lemma heap64_two_reserves:
  "\<exists>h. heap64_run h {#(0x100010000, 0x2000), (0x100000000, 0x1800)#}"
proof -
  let ?h = "heap64_init\<lparr> s_alloc64 := [(0x100000000, 0x1800)], s_heap64_ptr := 0x100002000 \<rparr>"
  obtain h where h: "wg_guest_reserve64 False 0x2000 (2 ^ 16) 0 ?h = ((0x100010000, 0x2000), h)"
    using heap64_reserve_example(2) by (metis prod.collapse)
  have "heap64_run ?h {#(0x100000000, 0x1800)#}"
    using heap64_run.reserve [OF heap64_run.start _ _ heap64_reserve_example(1)] by simp
  from heap64_run.reserve [OF this _ _ h] show ?thesis by auto
qed

theorem heap64_blocks_disjoint_witness:
  "\<exists>h. heap64_run h {#(0x100010000, 0x2000), (0x100000000, 0x1800)#}
     \<and> \<not> block_meets (block_of (0x100010000, 0x2000)) (block_of (0x100000000, 0x1800))"
proof -
  obtain h where "heap64_run h {#(0x100010000, 0x2000), (0x100000000, 0x1800)#}"
    using heap64_two_reserves by blast
  with heap64_blocks_disjoint [OF this, of "(0x100010000, 0x2000)" "(0x100000000, 0x1800)"]
  show ?thesis by auto
qed

text \<open>Releasing a tracked block, while there is room in the free list.\<close>

lemma free64_tracked:
  assumes inv: "inv64 h out" and e: "(a, s) \<in> set (s_alloc64 h)"
    and room: "length (s_free64 h) < WG_MAX_ALLOC64"
  shows "\<exists>i bm. i < length (s_alloc64 h)
           \<and> wg_guest_free64 a h = Some (h\<lparr> s_alloc64 := swap_remove (s_alloc64 h) i, s_commit_bm := bm,
                 s_free64 := s_free64 h @ [(a, round_up 0x1000 s)] \<rparr>)"
proof -
  have sub: "x \<in># out" if "x \<in> set (s_alloc64 h)" for x
    using that inv by (auto simp: inv64_def dest: mset_subset_eqD)
  have ok: "entry_ok (s_heap64_ptr h) (a, s)" using sub [OF e] inv by (simp add: inv64_def)
  obtain i where i: "last_idx (\<lambda>e. fst e = a) (s_alloc64 h) = Some i"
    using e last_idx_None [of "\<lambda>e. fst e = a" "s_alloc64 h"] by fastforce
  note li = last_idx_Some [OF i]
  have at: "s_alloc64 h ! i = (a, s)"
    using inv64_same_base [OF inv sub [OF nth_mem [OF li(1)]] sub [OF e]] li(2) by simp
  have nodup: "\<not> list_ex (\<lambda>e. fst e = a) (s_free64 h)"
  proof
    assume "list_ex (\<lambda>e. fst e = a) (s_free64 h)"
    then obtain f where f: "f \<in> set (s_free64 h)" "fst f = a" by (auto simp: list_ex_iff)
    obtain F where F: "mset (s_free64 h) = add_mset f F" using f(1) by (metis mset_add set_mset_mset)
    obtain O' where O': "out = add_mset (a, s) O'" using sub [OF e] by (metis mset_add)
    have "no_overlap (add_mset (block_of f) (add_mset (block_of (a, s)) (image_mset block_of (O' + F))))"
      using inv by (simp add: inv64_def F O' add_mset_commute)
    moreover note pos = entry_ok_pos [OF inv64_free_entry(1) [OF inv f(1)]] entry_ok_pos [OF ok]
    ultimately have "\<not> block_meets (block_of f) (block_of (a, s))" by (rule no_overlap_pair)
    with f(2) pos show False by (simp add: block_meets_def block_of_def)
  qed
  obtain bm where u: "wg_uncommit64 a (round_up 0x1000 s) (h\<lparr> s_alloc64 := swap_remove (s_alloc64 h) i \<rparr>)
      = Some (h\<lparr> s_alloc64 := swap_remove (s_alloc64 h) i, s_commit_bm := bm \<rparr>)"
    using uncommit64_total by force
  have "\<not> a < WG_HEAP64_BASE" and "s \<noteq> 0"
    using ok by (auto simp: entry_ok_def WG_HEAP64_BASE_def word_less_nat_alt)
  then have "wg_guest_free64 a h = Some (h\<lparr> s_alloc64 := swap_remove (s_alloc64 h) i, s_commit_bm := bm,
                 s_free64 := s_free64 h @ [(a, round_up 0x1000 s)] \<rparr>)"
    using i at u nodup room by (simp add: wg_guest_free64_def Let_def)
  with li(1) show ?thesis by blast
qed

text \<open>The churn of releasing a buffer and reserving one of the same size never consumes
  address space: as long as neither table is full, the reservation succeeds from the free list,
  the bump pointer does not move, and both tables keep their lengths.\<close>

theorem heap64_churn_reuses:
  assumes "heap64_run h out" and "(a, s) \<in> set (s_alloc64 h)"
    and "length (s_free64 h) < WG_MAX_ALLOC64" and "length (s_alloc64 h) \<le> WG_MAX_ALLOC64"
    and "wg_guest_free64 a h = Some h1"
    and "wg_guest_reserve64 whole s align oc h1 = ((b, c), h2)"
  shows "b \<noteq> 0 \<and> s_heap64_ptr h2 = s_heap64_ptr h
    \<and> length (s_alloc64 h2) = length (s_alloc64 h) \<and> length (s_free64 h2) = length (s_free64 h)"
proof -
  have inv: "inv64 h out" using assms(1) by (rule heap64_run_inv)
  obtain i bm where i: "i < length (s_alloc64 h)"
    and h1: "h1 = h\<lparr> s_alloc64 := swap_remove (s_alloc64 h) i, s_commit_bm := bm,
                 s_free64 := s_free64 h @ [(a, round_up 0x1000 s)] \<rparr>"
    using free64_tracked [OF inv assms(2,3)] assms(5) by auto
  have inv1: "inv64 h1 (out - (mset (s_alloc64 h) - mset (s_alloc64 h1)))"
    using free64_inv_step [OF inv assms(5)] .
  have e1: "(a, round_up 0x1000 s) \<in> set (s_free64 h1)" by (simp add: h1)
  note ok = inv64_free_entry [OF inv1 e1]
  have rr: "round_up 0x1000 (round_up 0x1000 s) = round_up 0x1000 s"
    unfolding word_unat_eq_iff using ok(2) by (simp add: block_of_def)
  have s0: "s \<noteq> 0" using ok(1) by (auto simp: entry_ok_def round_up_def)
  obtain j where j: "j < length (s_free64 h1)"
    and t: "wg_free_take64_r whole (round_up 0x1000 s) 0 h1
        = (s_free64 h1 ! j, h1\<lparr> s_free64 := swap_remove (s_free64 h1) j \<rparr>)"
    using free_take64_cases [OF inv1, of whole "round_up 0x1000 s"] e1 rr by fastforce
  have "entry_ok (s_heap64_ptr h1) (s_free64 h1 ! j)"
    using inv64_free_entry(1) [OF inv1, of "s_free64 h1 ! j"] j by simp
  then have nz: "fst (s_free64 h1 ! j) \<noteq> 0" by (auto simp: entry_ok_def)
  have "b = fst (s_free64 h1 ! j)" and h2: "h2 = wg_track_alloc64 b (snd (s_free64 h1 ! j))
      (h1\<lparr> s_free64 := swap_remove (s_free64 h1) j \<rparr>)"
    using assms(6) t nz s0 unfolding wg_guest_reserve64_def Let_def
    by (cases "s_free64 h1 ! j"; auto)+
  moreover have "length (s_alloc64 h1) < WG_MAX_ALLOC64" using i assms(4) by (auto simp: h1)
  ultimately show ?thesis using nz i by (auto simp: wg_track_alloc64_def h1)
qed

theorem heap64_churn_reuses_witness:
  "\<exists>h out h1 b c h2. heap64_run h out \<and> (0x100000000, 0x1800) \<in> set (s_alloc64 h)
     \<and> wg_guest_free64 0x100000000 h = Some h1
     \<and> wg_guest_reserve64 False 0x1800 0x10000 0 h1 = ((b, c), h2) \<and> b \<noteq> 0
     \<and> s_heap64_ptr h2 = s_heap64_ptr h"
proof -
  obtain h where h: "heap64_run h {#(0x100000000, 0x1800)#}" "s_alloc64 h = [(0x100000000, 0x1800)]" "s_free64 h = []"
    using heap64_one_reserve by blast
  obtain h1 where h1: "wg_guest_free64 0x100000000 h = Some h1"
    using free64_total [OF heap64_run_inv [OF h(1)]] by blast
  obtain b c h2 where h2: "wg_guest_reserve64 False 0x1800 0x10000 0 h1 = ((b, c), h2)"
    by (metis prod.collapse)
  have "b \<noteq> 0 \<and> s_heap64_ptr h2 = s_heap64_ptr h"
    using heap64_churn_reuses [OF h(1) _ _ _ h1 h2] h(2,3) by (simp add: WG_MAX_ALLOC64_def)
  with h h1 h2 show ?thesis by (intro exI conjI) (assumption | simp)+
qed

end
