(* ===== verification/Virtual_Mem.thy ===== *)
theory Virtual_Mem
  imports Heap32_Blocks Heap64_Blocks
begin

section \<open>VirtualAlloc and VirtualFree over the two guest heaps\<close>

text \<open>
  The two handlers of \<open>Sources/Core/wg_engine.c\<close> that route between the 32-bit and the 64-bit
  guest heap, and the region-3 commit that follows a reservation.  The environment is a
  parameter: \<open>whole\<close> is \<open>WG_WHOLEBLOCK\<close>, \<open>region3_mb\<close> the value of \<open>WG_REGION3_MB\<close> when it is set
  (after \<open>atoi\<close>), \<open>can32\<close> and \<open>can64\<close> the host's \<open>calloc\<close>, \<open>fm\<close> the in-guest fill.
\<close>

record guest_heap =
  g32 :: heap32
  g64 :: heap64
  s_last_error :: u32

definition MEM_COMMIT :: u32 where "MEM_COMMIT = 0x1000"

definition region3_min :: "bool \<Rightarrow> u64 option \<Rightarrow> u64" where
  "region3_min is64 region3_mb =
     (if \<not> is64 then 0xFFFFFFFFFFFFFFFF
      else case region3_mb of Some mb \<Rightarrow> mb * 1024 * 1024 | None \<Rightarrow> 1024 * 1024)"

definition alloc32 ::
    "bool \<Rightarrow> (u32 \<Rightarrow> bool) \<Rightarrow> u64 \<Rightarrow> guest_heap \<Rightarrow> u64 \<times> guest_heap" where
  "alloc32 fm can32 sz g =
     (let (a, h) = wg_guest_alloc_aligned fm can32 (ucast sz) 0x10000 (g32 g)
      in (ucast a, g\<lparr> g32 := h \<rparr>))"

definition h_VirtualAlloc ::
    "bool \<Rightarrow> (u32 \<Rightarrow> bool) \<Rightarrow> (u64 \<Rightarrow> bool) \<Rightarrow> bool \<Rightarrow> bool \<Rightarrow> u64 option
      \<Rightarrow> u64 \<Rightarrow> u64 \<Rightarrow> u32 \<Rightarrow> guest_heap \<Rightarrow> (u64 \<times> guest_heap) option" where
  "h_VirtualAlloc fm can32 can64 whole is64 region3_mb va_addr va_size va_type g =
     (if va_size = 0 then Some (0, g\<lparr> s_last_error := 87 \<rparr>)
      else if va_addr \<noteq> 0 then
        (if WG_HEAP64_BASE \<le> va_addr \<and> va_type AND MEM_COMMIT \<noteq> 0
         then do {
           (_, h) \<leftarrow> wg_guest_map64 can64 va_addr va_size (g64 g);
           Some (va_addr, g\<lparr> g64 := h \<rparr>) }
         else Some (va_addr, g))
      else if region3_min is64 region3_mb \<le> va_size then do {
        let ((a, commit_sz), h) = wg_guest_reserve64 whole va_size 0x10000 va_size (g64 g);
        (mapped, h) \<leftarrow> (if a \<noteq> 0 \<and> va_type AND MEM_COMMIT \<noteq> 0 then wg_guest_map64 can64 a commit_sz h
                        else Some (True, h));
        let a = (if mapped then a else 0);
        let g = g\<lparr> g64 := h \<rparr>;
        Some (if a \<noteq> 0 then (a, g) else alloc32 fm can32 va_size g) }
      else Some (alloc32 fm can32 va_size g))"

definition h_VirtualFree :: "u64 \<Rightarrow> u64 \<Rightarrow> u32 \<Rightarrow> guest_heap \<Rightarrow> (u64 \<times> guest_heap) option" where
  "h_VirtualFree addr sz typ g =
     (if typ AND 0x8000 \<noteq> 0 then
        if WG_HEAP64_BASE \<le> addr
        then do { h \<leftarrow> wg_guest_free64 addr (g64 g); Some (1, g\<lparr> g64 := h \<rparr>) }
        else Some (1, g\<lparr> g32 := wg_guest_free (ucast addr) 0 (g32 g) \<rparr>)
      else if typ AND 0x4000 \<noteq> 0 \<and> WG_HEAP64_BASE \<le> addr
      then do { h \<leftarrow> wg_uncommit64 addr (if sz \<noteq> 0 then sz else 0x1000) (g64 g); Some (1, g\<lparr> g64 := h \<rparr>) }
      else Some (1, g))"

text \<open>The tracked entry of a reserved block is the size in \<open>commit_sz\<close>, which fits the region.\<close>

lemma reserve64_range:
  assumes inv: "inv64 h out" and s: "unat s < 2 ^ 63"
    and r: "wg_guest_reserve64 whole s 0x10000 oc h = ((a, c), h')" and a: "a \<noteq> 0"
  shows "0x100000000 \<le> unat a" and "unat a + unat c \<le> 0x2800000000" and "0x1000 dvd unat a"
    and "unat s \<le> unat (round_up 0x1000 c)" and "inv64 h' (add_mset (a, c) out)"
proof -
  have r': "wg_guest_reserve64 whole s (2 ^ 16) oc h = ((a, c), h')" using r by simp
  note i = reserve64_inv [OF inv s _ r', simplified a if_False, simplified]
  show i1: "inv64 h' (add_mset (a, c) out)" using i(1) .
  show "unat s \<le> unat (round_up 0x1000 c)" using i(2) by simp
  have ok: "entry_ok (s_heap64_ptr h') (a, c)" using i1 by (simp add: inv64_def)
  then show "0x100000000 \<le> unat a" "0x1000 dvd unat a" by (simp_all add: entry_ok_def)
  have "unat (s_heap64_ptr h') \<le> 0x2800000000" using i1 by (simp add: inv64_def)
  then show "unat a + unat c \<le> 0x2800000000"
    using ok round64_bounds(1) [of c] by (simp add: entry_ok_def)
qed

lemma pages_of_within:
  assumes "0x100000000 \<le> unat a" and "0x1000 dvd unat a" and "unat s \<le> unat (round_up 0x1000 c)"
    and "unat c < 2 ^ 63" and "unat s < 2 ^ 63"
  shows "pages_of a s \<subseteq> pages_of a c"
proof -
  have le: "unat s + 0xFFF < unat (round_up 0x1000 c) + 0x1000" using assms(3) by simp
  obtain q where q: "unat a = 0x1000 * q" using assms(2) by (rule dvdE)
  obtain r where r: "unat (round_up 0x1000 c) = 0x1000 * r" using round64_bounds(3) [OF assms(4)] by (rule dvdE)
  have rc: "(unat c + 0xFFF) div 0x1000 = r" using r unat_round64 [OF assms(4)] by simp
  have s: "(unat s + 0xFFF) div 0x1000 \<le> r" using le r by (simp add: less_mult_imp_div_less div_le_mono less_Suc_eq_le [symmetric])
  have shift: "(unat a + x + 0xFFF - 0x100000000) div 0x1000 = (q - 0x100000) + (x + 0xFFF) div 0x1000" for x
  proof -
    have "unat a + x + 0xFFF - 0x100000000 = (x + 0xFFF) + 0x1000 * (q - 0x100000)"
      using assms(1) q by simp
    then show ?thesis by (simp add: add.commute)
  qed
  show ?thesis unfolding pages_of_def shift rc using s by auto
qed

text \<open>A fresh 64-bit \<open>VirtualAlloc\<close> with \<open>MEM_COMMIT\<close> of at least 1 MB, when the region has room
  and the host's \<open>calloc\<close> succeeds, returns a page-aligned block that no block already held
  shares an address with, and every page of it is committed afterwards.\<close>

theorem VirtualAlloc_commits:
  assumes run: "heap64_run (g64 g) out" and can: "\<And>c. can64 c"
    and sz: "1024 * 1024 \<le> va_size" "unat va_size < 2 ^ 63" and ty: "va_type AND MEM_COMMIT \<noteq> 0"
    and room: "fst (fst (wg_guest_reserve64 whole va_size 0x10000 va_size (g64 g))) \<noteq> 0"
  shows "\<exists>a c g'. h_VirtualAlloc fm can32 can64 whole True None 0 va_size va_type g = Some (a, g')
    \<and> heap64_run (g64 g') (add_mset (a, c) out) \<and> unat va_size \<le> snd (block_of (a, c))
    \<and> 0x1000 dvd unat a \<and> (\<forall>j \<in> pages_of a va_size. committed (g64 g') j)
    \<and> (\<forall>b \<in># out. \<not> block_meets (block_of (a, c)) (block_of b))"
proof -
  have inv: "inv64 (g64 g) out" using run by (rule heap64_run_inv)
  obtain a c h where r: "wg_guest_reserve64 whole va_size 0x10000 va_size (g64 g) = ((a, c), h)"
    by (metis prod.collapse)
  have a: "a \<noteq> 0" using room r by simp
  note rr = reserve64_range [OF inv sz(2) r a]
  have c: "unat c < 2 ^ 63" using rr(2) by simp
  obtain h' zs where m: "wg_guest_map64 can64 a c h = Some (True, h')"
      "\<forall>j < 0x2700000. committed h' j = (committed h j \<or> j \<in> pages_of a c)"
    using map64_pages [of can64, OF can rr(1,2)] by blast
  let ?g = "g\<lparr> g64 := h' \<rparr>"
  have z: "va_size \<noteq> 0" using sz(1) by auto
  have v: "h_VirtualAlloc fm can32 can64 whole True None 0 va_size va_type g = Some (a, ?g)"
    using z sz(1) ty a r m(1) by (simp add: h_VirtualAlloc_def region3_min_def)
  have run1: "heap64_run h (add_mset (a, c) out)"
    using heap64_run.reserve [OF run sz(2), of 16 whole va_size a c h] r a by simp
  then have run2: "heap64_run h' (add_mset (a, c) out)" using m(1) by (rule heap64_run.commit)
  have pc: "pages_of a c \<subseteq> {..<0x2700000}"
  proof -
    have "(unat a + unat c + 0xFFF - 0x100000000) div 0x1000 \<le> 0x2700000" using rr(1,2) by simp
    then show ?thesis by (auto simp: pages_of_def)
  qed
  have "committed h' j" if "j \<in> pages_of a va_size" for j
    using that m(2) pc pages_of_within [OF rr(1,3,4) c sz(2)] by auto
  moreover have "\<not> block_meets (block_of (a, c)) (block_of b)" if "b \<in># out" for b
    using inv64_disjoint [OF rr(5), of "(a, c)" b] that by simp
  ultimately show ?thesis
    using v run2 rr(3,4) by (intro exI [of _ a] exI [of _ c] exI [of _ ?g]) (simp add: block_of_def)
qed

theorem VirtualAlloc_commits_witness:
  "\<exists>a g'. h_VirtualAlloc True (\<lambda>_. True) (\<lambda>_. True) False True None 0 0x200000 0x3000
       \<lparr> g32 = heap32_init, g64 = heap64_init, s_last_error = 0 \<rparr> = Some (a, g')
     \<and> (\<forall>j \<in> pages_of a 0x200000. committed (g64 g') j)"
proof -
  let ?g = "\<lparr> g32 = heap32_init, g64 = heap64_init, s_last_error = 0 \<rparr>"
  have "fst (fst (wg_guest_reserve64 False 0x200000 0x10000 0x200000 (g64 ?g))) \<noteq> 0"
    by (simp add: wg_guest_reserve64_def wg_free_take64_r_def take_exact.simps heap64_init_def
        wg_track_alloc64_def round_up_def WG_HEAP64_BASE_def WG_HEAP64_END_def WG_MAX_ALLOC64_def)
  with VirtualAlloc_commits [of ?g "{#}" "\<lambda>_. True" "0x200000" "0x3000" False True "\<lambda>_. True"]
  show ?thesis by (auto simp: heap64_run.start MEM_COMMIT_def)
qed

end
