(* ===== verification/Windows.thy ===== *)
theory Windows
  imports Handle_Table
begin

section \<open>The window table\<close>

text \<open>
  \<open>Sources/Win32/wg_win32_windows.c\<close>: a table of at most 64 windows, handed out in order and
  never reused before \<open>wg_wm_reset\<close>, each with a client frame buffer that is made on first use.
  A window is found by its handle; the pointer \<open>wg_wm_find\<close> returns is its index here.  An
  \<open>int32_t\<close> is an \<^typ>\<open>int\<close>, and a product that leaves 32 bits is undefined behaviour,
  hence \<^term>\<open>None\<close>.  \<open>can\<close> says which sizes the host's \<open>malloc\<close> serves.  A title argument is the
  list of its units before the terminator.
\<close>

definition in_i32 :: "int \<Rightarrow> bool" where
  "in_i32 x \<longleftrightarrow> - (2 ^ 31) \<le> x \<and> x < 2 ^ 31"

definition WG_MAX_WINDOWS :: nat where "WG_MAX_WINDOWS = 64"
definition WG_HWND_BASE :: u32 where "WG_HWND_BASE = 0x00010000"
definition WG_TITLEBAR_H :: int where "WG_TITLEBAR_H = 32"

record WGWin32Window =
  win_handle :: u32
  win_x :: int
  win_y :: int
  win_w :: int
  win_h :: int
  win_title :: "u16 list"
  win_visible :: bool
  win_alive :: bool
  win_style :: u32
  win_ex_style :: u32
  win_bg_color :: u32
  win_parent :: u32
  win_class_atom :: u32
  win_needs_paint :: bool
  win_wndproc :: u32
  win_client :: "u32 list option"
  client_w :: int
  client_h :: int
  client_dirty :: bool

record WGWindowManager =
  windows :: "WGWin32Window list"
  wm_next :: u32
  wm_dirty :: bool

definition wm_zero :: WGWindowManager where
  "wm_zero = \<lparr> windows = [], wm_next = 0, wm_dirty = False \<rparr>"

definition wg_wm_get :: "WGWindowManager \<Rightarrow> WGWindowManager" where
  "wg_wm_get wm = (if wm_next wm = 0 then wm\<lparr> wm_next := WG_HWND_BASE \<rparr> else wm)"

definition default_size :: "int \<Rightarrow> int \<Rightarrow> int" where
  "default_size d v = (let v = (if v = - (2 ^ 31) then d else v) in if v \<le> 0 then d else v)"

definition default_pos :: "int \<Rightarrow> int" where
  "default_pos v = (if v = - (2 ^ 31) then 100 else v)"

definition title_units :: "u16 list \<Rightarrow> u16 list \<Rightarrow> u16 list" where
  "title_units old t = (let n = min (length t) 255 in take n t @ [0] @ drop (n + 1) old)"

definition blank_title :: "u16 list" where
  "blank_title = replicate 256 0"

definition new_window ::
    "u32 \<Rightarrow> u32 \<Rightarrow> u16 list option \<Rightarrow> u32 \<Rightarrow> int \<Rightarrow> int \<Rightarrow> int \<Rightarrow> int \<Rightarrow> u32 \<Rightarrow> u32 \<Rightarrow> WGWin32Window" where
  "new_window ex_style class_atom title style x y w h parent hwnd =
     \<lparr> win_handle = hwnd, win_x = default_pos x, win_y = default_pos y,
       win_w = default_size 640 w, win_h = default_size 480 h,
       win_title = (case title of Some t \<Rightarrow> title_units blank_title t | None \<Rightarrow> blank_title),
       win_visible = (style AND 0x10000000 \<noteq> 0), win_alive = True, win_style = style,
       win_ex_style = ex_style, win_bg_color = 0x2D2D2D, win_parent = parent,
       win_class_atom = class_atom, win_needs_paint = True, win_wndproc = 0, win_client = None,
       client_w = 0, client_h = 0, client_dirty = False \<rparr>"

definition wg_wm_create_window ::
    "u32 \<Rightarrow> u32 \<Rightarrow> u16 list option \<Rightarrow> u32 \<Rightarrow> int \<Rightarrow> int \<Rightarrow> int \<Rightarrow> int \<Rightarrow> u32 \<Rightarrow> WGWindowManager
      \<Rightarrow> u32 \<times> WGWindowManager" where
  "wg_wm_create_window ex_style class_atom title style x y w h parent wm =
     (let wm = wg_wm_get wm
      in if WG_MAX_WINDOWS \<le> length (windows wm) then (0, wm)
         else
           let hwnd = wm_next wm
           in (hwnd, wm\<lparr> windows := windows wm @
                  [new_window ex_style class_atom title style x y w h parent hwnd],
                wm_next := hwnd + 1, wm_dirty := True \<rparr>))"

definition wg_wm_find :: "u32 \<Rightarrow> WGWindowManager \<Rightarrow> nat option" where
  "wg_wm_find hwnd wm = first_idx (\<lambda>w. win_handle w = hwnd \<and> win_alive w) (windows wm)"

definition put_window :: "nat \<Rightarrow> WGWin32Window \<Rightarrow> WGWindowManager \<Rightarrow> WGWindowManager" where
  "put_window i w wm = wm\<lparr> windows := (windows wm)[i := w] \<rparr>"

definition wg_wm_show :: "u32 \<Rightarrow> int \<Rightarrow> WGWindowManager \<Rightarrow> WGWindowManager" where
  "wg_wm_show hwnd cmd wm =
     (let wm = wg_wm_get wm
      in case wg_wm_find hwnd wm of None \<Rightarrow> wm
         | Some i \<Rightarrow>
             let w = windows wm ! i;
                 wm = put_window i (w\<lparr> win_visible := (cmd \<noteq> 0) \<rparr>) wm
             in if (cmd \<noteq> 0) \<noteq> win_visible w then wm\<lparr> wm_dirty := True \<rparr> else wm)"

definition wg_wm_destroy :: "u32 \<Rightarrow> WGWindowManager \<Rightarrow> WGWindowManager" where
  "wg_wm_destroy hwnd wm =
     (let wm = wg_wm_get wm
      in case wg_wm_find hwnd wm of None \<Rightarrow> wm
         | Some i \<Rightarrow>
             (put_window i ((windows wm ! i)\<lparr> win_alive := False, win_visible := False \<rparr>) wm)\<lparr> wm_dirty := True \<rparr>)"

definition wg_wm_reset :: "WGWindowManager \<Rightarrow> WGWindowManager" where
  "wg_wm_reset wm = (wg_wm_get wm)\<lparr> windows := [], wm_next := WG_HWND_BASE, wm_dirty := True \<rparr>"

definition client_size :: "WGWin32Window \<Rightarrow> int \<times> int" where
  "client_size w = (max 1 (win_w w), max 1 (win_h w - (if win_parent w = 0 then WG_TITLEBAR_H else 0)))"

text \<open>The result is \<^term>\<open>None\<close> inside for a null pointer, otherwise the buffer and its size.\<close>

definition wg_wm_get_client ::
    "(int \<Rightarrow> bool) \<Rightarrow> u32 \<Rightarrow> WGWindowManager \<Rightarrow> ((u32 list \<times> int \<times> int) option \<times> WGWindowManager) option" where
  "wg_wm_get_client can hwnd wm =
     (let wm = wg_wm_get wm
      in case wg_wm_find hwnd wm of None \<Rightarrow> Some (None, wm)
         | Some i \<Rightarrow>
             let w = windows wm ! i
             in case win_client w of
                  Some fb \<Rightarrow> Some (Some (fb, client_w w, client_h w), wm)
                | None \<Rightarrow>
                    let (cw, ch) = client_size w
                    in if \<not> can (cw * ch * 4) then Some (None, wm)
                       else if \<not> in_i32 (cw * ch) then None
                       else
                         let fb = replicate (nat (cw * ch)) 0xFFF0F0F0
                         in Some (Some (fb, cw, ch),
                              put_window i (w\<lparr> win_client := Some fb, client_w := cw, client_h := ch,
                                               client_dirty := True \<rparr>) wm))"

definition wg_wm_set_text :: "u32 \<Rightarrow> u16 list option \<Rightarrow> WGWindowManager \<Rightarrow> WGWindowManager" where
  "wg_wm_set_text hwnd text wm =
     (let wm = wg_wm_get wm
      in case wg_wm_find hwnd wm of None \<Rightarrow> wm
         | Some i \<Rightarrow>
             let w = windows wm ! i;
                 wm = (case text of None \<Rightarrow> wm
                       | Some t \<Rightarrow> put_window i (w\<lparr> win_title := title_units (win_title w) t \<rparr>) wm)
             in wm\<lparr> wm_dirty := True \<rparr>)"

definition wg_wm_visible_count :: "WGWindowManager \<Rightarrow> nat" where
  "wg_wm_visible_count wm = length (filter (\<lambda>w. win_alive w \<and> win_visible w) (windows wm))"

subsection \<open>Well-formed tables\<close>

text \<open>Handles are consecutive, titles are terminated inside their 256 units, a client buffer has
  exactly the pixels of its size.\<close>

definition wf_window :: "WGWin32Window \<Rightarrow> bool" where
  "wf_window w \<longleftrightarrow>
     length (win_title w) = 256 \<and> 0 \<in> set (win_title w) \<and> 1 \<le> win_w w \<and> 1 \<le> win_h w
     \<and> (\<forall>fb. win_client w = Some fb \<longrightarrow>
          1 \<le> client_w w \<and> 1 \<le> client_h w \<and> in_i32 (client_w w * client_h w)
          \<and> length fb = nat (client_w w * client_h w))"

definition wf_wm :: "WGWindowManager \<Rightarrow> bool" where
  "wf_wm wm \<longleftrightarrow>
     length (windows wm) \<le> WG_MAX_WINDOWS
     \<and> (\<forall>i < length (windows wm). win_handle (windows wm ! i) = WG_HWND_BASE + of_nat i
          \<and> wf_window (windows wm ! i))
     \<and> (if wm_next wm = 0 then windows wm = [] else wm_next wm = WG_HWND_BASE + of_nat (length (windows wm)))"

definition wm_lookup :: "WGWindowManager \<Rightarrow> u32 \<Rightarrow> WGWin32Window option" where
  "wm_lookup wm hwnd = map_option (\<lambda>i. windows wm ! i) (wg_wm_find hwnd wm)"

lemma base_inj:
  assumes "i < 2 ^ 32" and "j < 2 ^ 32"
  shows "((b :: u32) + of_nat i = b + of_nat j) = (i = j)"
proof -
  have "unat (of_nat i :: u32) = i" "unat (of_nat j :: u32) = j" using assms by (simp_all add: unat_of_nat)
  then show ?thesis by (metis add_left_cancel)
qed

lemma wf_wm_get: "wf_wm wm \<Longrightarrow> wf_wm (wg_wm_get wm)"
  by (auto simp: wf_wm_def wg_wm_get_def)

lemma wm_get_sel [simp]: "windows (wg_wm_get wm) = windows wm" "wm_dirty (wg_wm_get wm) = wm_dirty wm"
  "wg_wm_find h (wg_wm_get wm) = wg_wm_find h wm"
  by (simp_all add: wg_wm_get_def wg_wm_find_def)

lemma put_window_sel [simp]:
  "windows (put_window i w wm) = (windows wm)[i := w]" "wm_next (put_window i w wm) = wm_next wm"
  by (simp_all add: put_window_def)

lemma find_lt: "wg_wm_find h wm = Some i \<Longrightarrow> i < length (windows wm)"
  and find_handle: "wg_wm_find h wm = Some i \<Longrightarrow> win_handle (windows wm ! i) = h \<and> win_alive (windows wm ! i)"
  by (auto simp: wg_wm_find_def dest: first_idx_lt first_idx_holds)

text \<open>In a well-formed table a handle names one slot.\<close>

lemma wf_wm_slot:
  assumes wf: "wf_wm wm" and i: "i < length (windows wm)"
  shows "wg_wm_find (win_handle (windows wm ! i)) wm = (if win_alive (windows wm ! i) then Some i else None)"
proof -
  have same: "j = i" if "j < length (windows wm)" "win_handle (windows wm ! j) = win_handle (windows wm ! i)" for j
    using wf i that base_inj [of j i WG_HWND_BASE] by (simp add: wf_wm_def WG_MAX_WINDOWS_def)
  show ?thesis
  proof (cases "win_alive (windows wm ! i)")
    case True
    then show ?thesis using i same by (auto simp: wg_wm_find_def intro!: first_idx_unique)
  next
    case False
    then have "\<forall>j < length (windows wm). \<not> (win_handle (windows wm ! j) = win_handle (windows wm ! i) \<and> win_alive (windows wm ! j))"
      using same by blast
    with False show ?thesis by (simp add: wg_wm_find_def first_idx_None all_set_conv_all_nth)
  qed
qed

lemma wf_put_window:
  assumes "wf_wm wm" and "i < length (windows wm)" and "wf_window w" and "win_handle w = win_handle (windows wm ! i)"
  shows "wf_wm (put_window i w wm)"
  using assms by (auto simp: wf_wm_def nth_list_update split: if_splits)

lemma wf_dirty [simp]: "wf_wm (wm\<lparr> wm_dirty := d \<rparr>) = wf_wm wm"
  by (simp add: wf_wm_def)

lemma find_dirty [simp]: "wg_wm_find h (wm\<lparr> wm_dirty := d \<rparr>) = wg_wm_find h wm"
  by (simp add: wg_wm_find_def)

lemma wf_at: "wf_wm wm \<Longrightarrow> i < length (windows wm) \<Longrightarrow> wf_window (windows wm ! i)"
  by (simp add: wf_wm_def)

lemma title_units_ok:
  "length old = 256 \<Longrightarrow> length (title_units old t) = 256 \<and> 0 \<in> set (title_units old t)"
  by (auto simp: title_units_def Let_def)

lemma new_window_wf:
  "wf_window (new_window e c t st x y w h p hwnd)" "win_handle (new_window e c t st x y w h p hwnd) = hwnd"
  "win_alive (new_window e c t st x y w h p hwnd)"
  using title_units_ok [of blank_title]
  by (auto simp: wf_window_def new_window_def default_size_def blank_title_def Let_def split: option.splits)

subsection \<open>Every call keeps the table well formed\<close>

lemma hwnd_nonzero: "n \<le> 64 \<Longrightarrow> WG_HWND_BASE + of_nat n \<noteq> 0"
proof -
  assume "n \<le> 64"
  then have "unat (WG_HWND_BASE + of_nat n) = 0x10000 + n"
    by (simp add: WG_HWND_BASE_def unat_plus_if' unat_of_nat)
  then show ?thesis by auto
qed

lemma create_spec_wm:
  assumes wf: "wf_wm wm" and c: "wg_wm_create_window e c t st x y w h p wm = (hwnd, wm')" and nz: "hwnd \<noteq> 0"
  shows "length (windows wm) < WG_MAX_WINDOWS" and "hwnd = WG_HWND_BASE + of_nat (length (windows wm))"
    and "windows wm' = windows wm @ [new_window e c t st x y w h p hwnd]" and "wf_wm wm'"
proof -
  have n: "wm_next (wg_wm_get wm) = WG_HWND_BASE + of_nat (length (windows wm))"
    using wf by (auto simp: wf_wm_def wg_wm_get_def)
  show room: "length (windows wm) < WG_MAX_WINDOWS"
    using c nz by (auto simp: wg_wm_create_window_def Let_def split: if_splits)
  show h: "hwnd = WG_HWND_BASE + of_nat (length (windows wm))"
    using c room n by (auto simp: wg_wm_create_window_def Let_def split: if_splits)
  show w: "windows wm' = windows wm @ [new_window e c t st x y w h p hwnd]"
    using c room by (auto simp: wg_wm_create_window_def Let_def split: if_splits)
  have "wm_next wm' = WG_HWND_BASE + of_nat (length (windows wm'))"
    using c room n w by (auto simp: wg_wm_create_window_def Let_def split: if_splits)
  moreover have "wm_next wm' \<noteq> 0"
    using calculation hwnd_nonzero [of "length (windows wm')"] room w by (simp add: WG_MAX_WINDOWS_def)
  moreover have "win_handle (windows wm' ! i) = WG_HWND_BASE + of_nat i \<and> wf_window (windows wm' ! i)"
    if "i < length (windows wm')" for i
  proof (cases "i < length (windows wm)")
    case True
    then show ?thesis using wf by (simp add: w nth_append wf_wm_def)
  next
    case False
    then have "i = length (windows wm)" using that w by simp
    then show ?thesis using new_window_wf(1,2) h by (simp add: w)
  qed
  ultimately show "wf_wm wm'" using room w by (simp add: wf_wm_def)
qed

lemma wf_create_window: "wf_wm wm \<Longrightarrow> wf_wm (snd (wg_wm_create_window e c t st x y w h p wm))"
proof (cases "fst (wg_wm_create_window e c t st x y w h p wm) = 0")
  case True
  assume wf: "wf_wm wm"
  have "WG_MAX_WINDOWS \<le> length (windows wm)"
  proof (rule ccontr)
    assume room: "\<not> ?thesis"
    have "wm_next (wg_wm_get wm) = WG_HWND_BASE + of_nat (length (windows wm))"
      using wf by (auto simp: wf_wm_def wg_wm_get_def)
    with True room hwnd_nonzero [of "length (windows wm)"] show False
      by (simp add: wg_wm_create_window_def Let_def WG_MAX_WINDOWS_def)
  qed
  with wf show ?thesis by (simp add: wg_wm_create_window_def Let_def wf_wm_get)
next
  case False
  assume wf: "wf_wm wm"
  from create_spec_wm(4) [OF wf _ False] show ?thesis by simp
qed

lemma wf_show: "wf_wm wm \<Longrightarrow> wf_wm (wg_wm_show h cmd wm)"
  using wf_put_window [OF wf_wm_get] wf_at [of wm] find_lt [of h wm]
  by (auto simp: wg_wm_show_def Let_def wf_window_def wf_wm_get split: option.splits)

lemma wf_destroy: "wf_wm wm \<Longrightarrow> wf_wm (wg_wm_destroy h wm)"
  using wf_put_window [OF wf_wm_get] wf_at [of wm] find_lt [of h wm]
  by (auto simp: wg_wm_destroy_def Let_def wf_window_def wf_wm_get split: option.splits)

lemma wf_reset: "wf_wm (wg_wm_reset wm)"
  by (simp add: wg_wm_reset_def wf_wm_def WG_HWND_BASE_def)

lemma wf_set_text: "wf_wm wm \<Longrightarrow> wf_wm (wg_wm_set_text h t wm)"
  using wf_put_window [OF wf_wm_get] wf_at [of wm] find_lt [of h wm] title_units_ok
  by (auto simp: wg_wm_set_text_def Let_def wf_window_def wf_wm_get split: option.splits)

lemma client_size_pos: "wf_window w \<Longrightarrow> 1 \<le> fst (client_size w) \<and> 1 \<le> snd (client_size w)"
  by (simp add: client_size_def)

text \<open>What \<open>wg_wm_get_client\<close> gives: a buffer of exactly the pixels of its size, in the table.\<close>

lemma get_client_spec:
  assumes wf: "wf_wm wm" and g: "wg_wm_get_client can h wm = Some (r, wm')"
  shows "wf_wm wm'" and "length (windows wm') = length (windows wm)"
    and "wg_wm_find h wm' = wg_wm_find h wm"
    and "r = Some (fb, cw, ch) \<Longrightarrow> \<exists>i. wg_wm_find h wm = Some i \<and> i < length (windows wm')
       \<and> win_client (windows wm' ! i) = Some fb \<and> client_w (windows wm' ! i) = cw \<and> client_h (windows wm' ! i) = ch
       \<and> 1 \<le> cw \<and> 1 \<le> ch \<and> in_i32 (cw * ch) \<and> length fb = nat (cw * ch)"
proof -
  have "wf_wm wm' \<and> length (windows wm') = length (windows wm) \<and> wg_wm_find h wm' = wg_wm_find h wm
    \<and> (r = Some (fb, cw, ch) \<longrightarrow> (\<exists>i. wg_wm_find h wm = Some i \<and> i < length (windows wm')
       \<and> win_client (windows wm' ! i) = Some fb \<and> client_w (windows wm' ! i) = cw \<and> client_h (windows wm' ! i) = ch
       \<and> 1 \<le> cw \<and> 1 \<le> ch \<and> in_i32 (cw * ch) \<and> length fb = nat (cw * ch)))"
  proof (cases "wg_wm_find h wm")
    case None
    with g wf show ?thesis by (auto simp: wg_wm_get_client_def wf_wm_get)
  next
    case (Some i)
    note il = find_lt [OF Some]
    note wi = wf_at [OF wf il]
    show ?thesis
    proof (cases "win_client (windows wm ! i)")
      case fb: (Some b)
      with g Some have "wm' = wg_wm_get wm" "r = Some (b, client_w (windows wm ! i), client_h (windows wm ! i))"
        by (auto simp: wg_wm_get_client_def Let_def)
      with wi fb il Some wf show ?thesis by (auto simp: wf_window_def wf_wm_get)
    next
      case None
      obtain cw0 ch0 where c: "client_size (windows wm ! i) = (cw0, ch0)" by fastforce
      show ?thesis
      proof (cases "can (cw0 * ch0 * 4)")
        case False
        with g Some None c wf show ?thesis by (auto simp: wg_wm_get_client_def Let_def wf_wm_get)
      next
        case True
        let ?fb = "replicate (nat (cw0 * ch0)) (0xFFF0F0F0 :: u32)"
        let ?w = "(windows wm ! i)\<lparr> win_client := Some ?fb, client_w := cw0, client_h := ch0, client_dirty := True \<rparr>"
        have io: "in_i32 (cw0 * ch0)" and r: "r = Some (?fb, cw0, ch0)" and wm': "wm' = put_window i ?w (wg_wm_get wm)"
          using g Some None c True by (auto simp: wg_wm_get_client_def Let_def split: if_splits)
        have pos: "1 \<le> cw0" "1 \<le> ch0" using client_size_pos [OF wi] c by simp_all
        have ww: "wf_window ?w" using wi io pos by (simp add: wf_window_def)
        have "wf_wm wm'" unfolding wm' using wf ww il by (intro wf_put_window) (simp_all add: wf_wm_get)
        moreover have "wg_wm_find h wm' = wg_wm_find h wm"
          unfolding wm' wg_wm_find_def put_window_sel wm_get_sel by (rule first_idx_update_same) simp
        ultimately show ?thesis using r Some il io pos by (auto simp: wm')
      qed
    qed
  qed
  then show "wf_wm wm'" and "length (windows wm') = length (windows wm)"
    and "wg_wm_find h wm' = wg_wm_find h wm"
    and "r = Some (fb, cw, ch) \<Longrightarrow> \<exists>i. wg_wm_find h wm = Some i \<and> i < length (windows wm')
       \<and> win_client (windows wm' ! i) = Some fb \<and> client_w (windows wm' ! i) = cw \<and> client_h (windows wm' ! i) = ch
       \<and> 1 \<le> cw \<and> 1 \<le> ch \<and> in_i32 (cw * ch) \<and> length fb = nat (cw * ch)"
    by blast+
qed

subsection \<open>The table as a handle table\<close>

text \<open>A window request: the arguments of \<open>wg_wm_create_window\<close>.\<close>

record window_req =
  rq_ex_style :: u32
  rq_class :: u32
  rq_title :: "u16 list option"
  rq_style :: u32
  rq_x :: int
  rq_y :: int
  rq_w :: int
  rq_h :: int
  rq_parent :: u32

definition wm_create_req :: "window_req \<Rightarrow> WGWindowManager \<Rightarrow> (u32 \<times> WGWindowManager) option" where
  "wm_create_req r wm =
     (let (hwnd, wm) = wg_wm_create_window (rq_ex_style r) (rq_class r) (rq_title r) (rq_style r)
        (rq_x r) (rq_y r) (rq_w r) (rq_h r) (rq_parent r) wm
      in if hwnd = 0 then None else Some (hwnd, wm))"

definition req_window :: "window_req \<Rightarrow> u32 \<Rightarrow> WGWin32Window" where
  "req_window r hwnd = new_window (rq_ex_style r) (rq_class r) (rq_title r) (rq_style r)
     (rq_x r) (rq_y r) (rq_w r) (rq_h r) (rq_parent r) hwnd"

lemma create_req_spec:
  assumes wf: "wf_wm wm" and c: "wm_create_req r wm = Some (hwnd, wm')"
  shows "wm_lookup wm hwnd = None" and "wm_lookup wm' = (wm_lookup wm)(hwnd \<mapsto> req_window r hwnd)" and "wf_wm wm'"
proof -
  from c have c': "wg_wm_create_window (rq_ex_style r) (rq_class r) (rq_title r) (rq_style r)
        (rq_x r) (rq_y r) (rq_w r) (rq_h r) (rq_parent r) wm = (hwnd, wm')" and nz: "hwnd \<noteq> 0"
    by (auto simp: wm_create_req_def split: prod.splits if_splits)
  note sp = create_spec_wm [OF wf c' nz]
  show "wf_wm wm'" by (rule sp(4))
  have ne: "win_handle w \<noteq> hwnd" if w: "w \<in> set (windows wm)" for w
  proof -
    obtain i where i: "i < length (windows wm)" "w = windows wm ! i" using w by (auto simp: in_set_conv_nth)
    then show ?thesis
      using wf sp(1,2) base_inj [of i "length (windows wm)" WG_HWND_BASE]
      by (simp add: wf_wm_def WG_MAX_WINDOWS_def)
  qed
  then have none: "wg_wm_find hwnd wm = None" by (auto simp: wg_wm_find_def first_idx_None)
  then show "wm_lookup wm hwnd = None" by (simp add: wm_lookup_def)
  have "wm_lookup wm' x = ((wm_lookup wm)(hwnd \<mapsto> req_window r hwnd)) x" for x
  proof (cases "x = hwnd")
    case True
    then show ?thesis
      using none new_window_wf(2,3) by (simp add: wm_lookup_def wg_wm_find_def sp(3) first_idx_append req_window_def)
  next
    case False
    have "wg_wm_find x wm' = wg_wm_find x wm"
      using False new_window_wf(2) by (simp add: wg_wm_find_def sp(3) first_idx_append split: option.splits)
    moreover have "windows wm' ! i = windows wm ! i" if "wg_wm_find x wm = Some i" for i
      using find_lt [OF that] by (simp add: sp(3) nth_append)
    ultimately show ?thesis using False by (cases "wg_wm_find x wm") (simp_all add: wm_lookup_def)
  qed
  then show "wm_lookup wm' = (wm_lookup wm)(hwnd \<mapsto> req_window r hwnd)" by (rule ext)
qed

lemma destroy_lookup:
  assumes wf: "wf_wm wm"
  shows "wm_lookup (wg_wm_destroy hwnd wm) = (wm_lookup wm)(hwnd := None)"
proof
  fix x
  show "wm_lookup (wg_wm_destroy hwnd wm) x = ((wm_lookup wm)(hwnd := None)) x"
  proof (cases "wg_wm_find hwnd wm")
    case None
    then show ?thesis by (simp add: wg_wm_destroy_def wm_lookup_def)
  next
    case (Some i)
    note il = find_lt [OF Some] and ih = find_handle [OF Some]
    let ?w = "(windows wm ! i)\<lparr> win_alive := False, win_visible := False \<rparr>"
    have w: "windows (wg_wm_destroy hwnd wm) = (windows wm)[i := ?w]"
      using Some by (simp add: wg_wm_destroy_def Let_def)
    show ?thesis
    proof (cases "x = hwnd")
      case True
      have "wf_wm (wg_wm_destroy hwnd wm)" using wf by (rule wf_destroy)
      from wf_wm_slot [OF this, of i] have "wg_wm_find hwnd (wg_wm_destroy hwnd wm) = None"
        using il ih by (simp add: w)
      with True show ?thesis by (simp add: wm_lookup_def)
    next
      case False
      have "wg_wm_find x (wg_wm_destroy hwnd wm) = wg_wm_find x wm"
        unfolding wg_wm_find_def w using False ih by (intro first_idx_update_same) simp
      moreover have "j \<noteq> i" if "wg_wm_find x wm = Some j" for j
        using find_handle [OF that] ih False by auto
      ultimately show ?thesis
        using False by (cases "wg_wm_find x wm") (simp_all add: wm_lookup_def w)
    qed
  qed
qed

interpretation window_table: handle_table wm_lookup wm_create_req "\<lambda>r h w. w = req_window r h" wf_wm
  wg_wm_destroy
proof unfold_locales
  fix s s' :: WGWindowManager and r h
  assume "wf_wm s" and "wm_create_req r s = Some (h, s')"
  note sp = create_req_spec [OF this]
  show "wm_lookup s h = None" by (rule sp(1))
  show "\<exists>w. w = req_window r h \<and> wm_lookup s' = (wm_lookup s)(h \<mapsto> w)" using sp(2) by blast
  show "wf_wm s'" by (rule sp(3))
qed (simp_all add: destroy_lookup wf_destroy)

text \<open>Window handles stay distinct and window data private: creating any list of windows gives
  pairwise different handles that were not live, each showing a window as it was asked for, and
  changes no other window; destroying them again restores the table's map.\<close>

theorem window_handles_distinct:
  assumes "wf_wm wm" and "window_table.alloc_all rs wm = Some (hs, wm')"
  shows "distinct hs \<and> length hs = length rs \<and> wf_wm wm' \<and> (\<forall>h \<in> set hs. wg_wm_find h wm = None)
    \<and> (\<forall>k < length rs. wm_lookup wm' (hs ! k) = Some (req_window (rs ! k) (hs ! k)))
    \<and> (\<forall>h. h \<notin> set hs \<longrightarrow> wm_lookup wm' h = wm_lookup wm h)
    \<and> wm_lookup (fold wg_wm_destroy hs wm') = wm_lookup wm"
  using window_table.alloc_all_spec [OF assms] window_table.alloc_kill_all [OF assms]
  by (auto simp: wm_lookup_def)

lemma wf_wm_zero: "wf_wm wm_zero"
  by (simp add: wf_wm_def wm_zero_def)

theorem window_handles_distinct_witness:
  "\<exists>wm'. window_table.alloc_all
       [\<lparr> rq_ex_style = 0, rq_class = 0, rq_title = None, rq_style = 0x10000000, rq_x = 0, rq_y = 0, rq_w = 200,
          rq_h = 100, rq_parent = 0 \<rparr>,
        \<lparr> rq_ex_style = 0, rq_class = 0, rq_title = None, rq_style = 0, rq_x = 0, rq_y = 0, rq_w = 0,
          rq_h = 0, rq_parent = 0x10000 \<rparr>] wm_zero = Some ([0x10000, 0x10001], wm')
     \<and> wm_lookup (fold wg_wm_destroy [0x10000, 0x10001] wm') = wm_lookup wm_zero"
proof -
  let ?rs = "[\<lparr> rq_ex_style = 0, rq_class = 0, rq_title = None, rq_style = 0x10000000, rq_x = 0, rq_y = 0, rq_w = 200,
          rq_h = 100, rq_parent = 0 \<rparr>,
        \<lparr> rq_ex_style = 0, rq_class = 0, rq_title = None, rq_style = 0, rq_x = 0, rq_y = 0, rq_w = 0,
          rq_h = 0, rq_parent = 0x10000 \<rparr>]"
  obtain wm' where a: "window_table.alloc_all ?rs wm_zero = Some ([0x10000, 0x10001], wm')"
    by (simp add: window_table.alloc_all.simps wm_create_req_def wg_wm_create_window_def wm_zero_def
        wg_wm_get_def WG_MAX_WINDOWS_def WG_HWND_BASE_def)
  from window_handles_distinct [OF wf_wm_zero a]
  have "wm_lookup (fold wg_wm_destroy [0x10000, 0x10001] wm') = wm_lookup wm_zero" by blast
  with a show ?thesis by blast
qed

end
