(* ===== verification/Bitmap.thy ===== *)
theory Bitmap
  imports Windows
begin

section \<open>Bitmaps\<close>

text \<open>
  \<open>Sources/Win32/wg_win32_bitmap.c\<close>: a table of 64 bitmaps with handles from a counter, and the
  decoder of uncompressed 8, 24 and 32-bit DIBs and BMP files into top-down RGBA words.  A byte
  string is an object: a read outside it is undefined behaviour, hence \<^term>\<open>None\<close>.  \<open>can\<close> says
  which sizes the host's \<open>calloc\<close> and \<open>malloc\<close> serve.  The pointer to a slot is its index.
\<close>

definition MAX_BITMAPS :: nat where "MAX_BITMAPS = 64"
definition WG_HBITMAP_BASE :: u32 where "WG_HBITMAP_BASE = 0x0B170000"

record WGBitmap =
  b_used :: bool
  b_handle :: u32
  bmp_w :: int
  bmp_h :: int
  bmp_px :: "u32 list"

record bitmap_state =
  s_bmps :: "WGBitmap list"
  s_next :: u32

definition bitmap_zero :: WGBitmap where
  "bitmap_zero = \<lparr> b_used = False, b_handle = 0, bmp_w = 0, bmp_h = 0, bmp_px = [] \<rparr>"

definition bitmap_init :: bitmap_state where
  "bitmap_init = \<lparr> s_bmps = replicate MAX_BITMAPS bitmap_zero, s_next = WG_HBITMAP_BASE \<rparr>"

definition find_bitmap :: "u32 \<Rightarrow> bitmap_state \<Rightarrow> nat option" where
  "find_bitmap h s = first_idx (\<lambda>b. b_used b \<and> b_handle b = h) (s_bmps s)"

definition alloc_slot :: "(int \<Rightarrow> bool) \<Rightarrow> int \<Rightarrow> int \<Rightarrow> bitmap_state \<Rightarrow> nat option \<times> bitmap_state" where
  "alloc_slot can w h s =
     (if w \<le> 0 \<or> h \<le> 0 \<or> w > 16384 \<or> h > 16384 then (None, s)
      else case first_idx (\<lambda>b. \<not> b_used b) (s_bmps s) of
             None \<Rightarrow> (None, s)
           | Some i \<Rightarrow>
               if \<not> can (w * h * 4) then (None, s)
               else (Some i, \<lparr> s_bmps = (s_bmps s)[i := \<lparr> b_used = True, b_handle = s_next s, bmp_w = w,
                         bmp_h = h, bmp_px = replicate (nat (w * h)) 0 \<rparr>],
                       s_next = s_next s + 1 \<rparr>))"

subsection \<open>Reading the DIB\<close>

definition byte_at :: "u8 list \<Rightarrow> nat \<Rightarrow> u8 option" where
  "byte_at bs p = (if p < length bs then Some (bs ! p) else None)"

definition rd32 :: "u8 list \<Rightarrow> nat \<Rightarrow> u32 option" where
  "rd32 bs p = (if p + 4 \<le> length bs then Some (of_le (take 4 (drop p bs))) else None)"

definition rd16 :: "u8 list \<Rightarrow> nat \<Rightarrow> u16 option" where
  "rd16 bs p = (if p + 2 \<le> length bs then Some (of_le (take 2 (drop p bs))) else None)"

definition pack :: "u8 \<Rightarrow> u8 \<Rightarrow> u8 \<Rightarrow> u8 \<Rightarrow> u32" where
  "pack r g b a = ucast r OR push_bit 8 (ucast g) OR push_bit 16 (ucast b) OR push_bit 24 (ucast a)"

text \<open>One pixel of a row that starts at \<open>row\<close> in \<open>bits\<close>; the palette starts at \<open>pal\<close> in \<open>bih\<close>.\<close>

definition dib_pixel :: "u16 \<Rightarrow> u8 list \<Rightarrow> nat \<Rightarrow> u32 \<Rightarrow> u8 list \<Rightarrow> nat \<Rightarrow> nat \<Rightarrow> u32 option" where
  "dib_pixel bpp bih pal pal_n bits row x =
     (if bpp = 8 then do {
        idx \<leftarrow> byte_at bits (row + x);
        if ucast idx < pal_n
        then do { b \<leftarrow> byte_at bih (pal + unat idx * 4); g \<leftarrow> byte_at bih (pal + unat idx * 4 + 1);
                  r \<leftarrow> byte_at bih (pal + unat idx * 4 + 2); Some (pack r g b 0xFF) }
        else Some (pack idx idx idx 0xFF) }
      else if bpp = 24 then do {
        b \<leftarrow> byte_at bits (row + x * 3); g \<leftarrow> byte_at bits (row + x * 3 + 1);
        r \<leftarrow> byte_at bits (row + x * 3 + 2); Some (pack r g b 0xFF) }
      else do {
        b \<leftarrow> byte_at bits (row + x * 4); g \<leftarrow> byte_at bits (row + x * 4 + 1);
        r \<leftarrow> byte_at bits (row + x * 4 + 2); a \<leftarrow> byte_at bits (row + x * 4 + 3);
        Some (pack r g b (if a \<noteq> 0 then a else 0xFF)) })"

fun dib_row :: "(nat \<Rightarrow> u32 option) \<Rightarrow> nat \<Rightarrow> nat \<Rightarrow> nat \<Rightarrow> u32 list \<Rightarrow> u32 list option" where
  "dib_row f dst x 0 px = Some px"
| "dib_row f dst x (Suc n) px = do { v \<leftarrow> f x; dib_row f dst (x + 1) n (px[dst + x := v]) }"

fun dib_rows :: "(nat \<Rightarrow> nat \<Rightarrow> u32 option) \<Rightarrow> bool \<Rightarrow> nat \<Rightarrow> nat \<Rightarrow> nat \<Rightarrow> nat \<Rightarrow> u32 list \<Rightarrow> u32 list option" where
  "dib_rows f top_down W H y 0 px = Some px"
| "dib_rows f top_down W H y (Suc n) px = do {
     let dy = (if top_down then y else H - 1 - y);
     px \<leftarrow> dib_row (f y) (dy * W) 0 W px;
     dib_rows f top_down W H (y + 1) n px }"

definition dib_stride :: "nat \<Rightarrow> nat \<Rightarrow> nat" where
  "dib_stride W bytespp = (W * bytespp + 3) div 4 * 4"

text \<open>\<open>cap = 0\<close> means unbounded.  The result is the handle, 0 on failure.\<close>

definition decode_dib :: "(int \<Rightarrow> bool) \<Rightarrow> u8 list \<Rightarrow> u8 list \<Rightarrow> nat \<Rightarrow> bitmap_state \<Rightarrow> (u32 \<times> bitmap_state) option" where
  "decode_dib can bih bits cap s = do {
     biSize \<leftarrow> rd32 bih 0;
     biW \<leftarrow> rd32 bih 4;
     biH \<leftarrow> rd32 bih 8;
     biBpp \<leftarrow> rd16 bih 14;
     biComp \<leftarrow> rd32 bih 16;
     biClrUsed \<leftarrow> rd32 bih 32;
     if biSize < 40 \<or> biComp \<noteq> 0 then Some (0, s)
     else if sint biH = - (2 ^ 31) then None
     else do {
       let top_down = sint biH < 0;
       let W = sint biW;
       let H = (if top_down then - sint biH else sint biH);
       if W \<le> 0 \<or> H \<le> 0 \<or> W > 16384 \<or> H > 16384 then Some (0, s)
       else if biBpp \<noteq> 8 \<and> biBpp \<noteq> 24 \<and> biBpp \<noteq> 32 then Some (0, s)
       else do {
         let pal_n = (if biClrUsed \<noteq> 0 then biClrUsed else if biBpp \<le> 8 then push_bit (unat biBpp) 1 else 0);
         case alloc_slot can W H s of
           (None, s) \<Rightarrow> Some (0, s)
         | (Some i, s) \<Rightarrow> do {
             let stride = dib_stride (nat W) (unat biBpp div 8);
             let b = s_bmps s ! i;
             if cap \<noteq> 0 \<and> stride * nat H > cap then Some (b_handle b, s)
             else do {
               px \<leftarrow> dib_rows (\<lambda>y x. dib_pixel biBpp bih (unat biSize) pal_n bits (y * stride) x)
                       top_down (nat W) (nat H) 0 (nat H) (bmp_px b);
               Some (b_handle b, s\<lparr> s_bmps := (s_bmps s)[i := b\<lparr> bmp_px := px \<rparr>] \<rparr>) } } } } }"

definition wg_bitmap_from_bmp_memory :: "(int \<Rightarrow> bool) \<Rightarrow> u8 list option \<Rightarrow> u32 \<Rightarrow> bitmap_state \<Rightarrow> (u32 \<times> bitmap_state) option" where
  "wg_bitmap_from_bmp_memory can data len s =
     (case data of None \<Rightarrow> Some (0, s)
      | Some d \<Rightarrow>
          if len < 54 then Some (0, s)
          else do {
            m0 \<leftarrow> byte_at d 0;
            m1 \<leftarrow> (if m0 = 0x42 then byte_at d 1 else Some 0);
            if m0 \<noteq> 0x42 \<or> m1 \<noteq> 0x4D then Some (0, s)
            else do {
              off_bits \<leftarrow> rd32 d 10;
              if len \<le> off_bits then Some (0, s)
              else decode_dib can (drop 14 d) (drop (unat off_bits) d) (unat (len - off_bits)) s } })"

definition wg_bitmap_from_dib :: "(int \<Rightarrow> bool) \<Rightarrow> u8 list \<Rightarrow> u8 list \<Rightarrow> bitmap_state \<Rightarrow> (u32 \<times> bitmap_state) option" where
  "wg_bitmap_from_dib can bih bits s = decode_dib can bih bits 0 s"

text \<open>The file at the path, \<^term>\<open>None\<close> when it cannot be opened; a full read is one that returns
  all of it (\<open>full\<close>).\<close>

definition wg_bitmap_load_file :: "(int \<Rightarrow> bool) \<Rightarrow> u8 list option \<Rightarrow> bool \<Rightarrow> bitmap_state \<Rightarrow> (u32 \<times> bitmap_state) option" where
  "wg_bitmap_load_file can file full s =
     (case file of None \<Rightarrow> Some (0, s)
      | Some d \<Rightarrow>
          if length d < 54 \<or> 64 * 1024 * 1024 < length d then Some (0, s)
          else if \<not> can (int (length d)) then Some (0, s)
          else if full then wg_bitmap_from_bmp_memory can (Some d) (of_nat (length d)) s
          else Some (0, s))"

definition wg_bitmap_create :: "(int \<Rightarrow> bool) \<Rightarrow> int \<Rightarrow> int \<Rightarrow> bitmap_state \<Rightarrow> u32 \<times> bitmap_state" where
  "wg_bitmap_create can w h s =
     (case alloc_slot can w h s of
        (None, s) \<Rightarrow> (0, s) | (Some i, s) \<Rightarrow> (b_handle (s_bmps s ! i), s))"

definition wg_bitmap_pixels :: "u32 \<Rightarrow> bitmap_state \<Rightarrow> (u32 list \<times> int \<times> int) option" where
  "wg_bitmap_pixels h s =
     map_option (\<lambda>i. (bmp_px (s_bmps s ! i), bmp_w (s_bmps s ! i), bmp_h (s_bmps s ! i))) (find_bitmap h s)"

definition wg_bitmap_is :: "u32 \<Rightarrow> bitmap_state \<Rightarrow> bool" where
  "wg_bitmap_is h s = (find_bitmap h s \<noteq> None)"

definition wg_bitmap_delete :: "u32 \<Rightarrow> bitmap_state \<Rightarrow> bitmap_state" where
  "wg_bitmap_delete h s =
     (case find_bitmap h s of None \<Rightarrow> s
      | Some i \<Rightarrow> s\<lparr> s_bmps := (s_bmps s)[i := (s_bmps s ! i)\<lparr> bmp_px := [], b_used := False \<rparr>] \<rparr>)"

definition wg_bitmap_reset_all :: "bitmap_state \<Rightarrow> bitmap_state" where
  "wg_bitmap_reset_all s =
     \<lparr> s_bmps = map (\<lambda>b. if b_used b then b\<lparr> bmp_px := [], b_used := False \<rparr> else b) (s_bmps s),
       s_next = WG_HBITMAP_BASE \<rparr>"

subsection \<open>Well-formed tables\<close>

definition wf_bitmap :: "WGBitmap \<Rightarrow> bool" where
  "wf_bitmap b \<longleftrightarrow> 1 \<le> bmp_w b \<and> bmp_w b \<le> 16384 \<and> 1 \<le> bmp_h b \<and> bmp_h b \<le> 16384
     \<and> length (bmp_px b) = nat (bmp_w b * bmp_h b)"

text \<open>As long as the handle counter has not wrapped, live handles are distinct and behind it.\<close>

definition wf_bitmaps :: "bitmap_state \<Rightarrow> bool" where
  "wf_bitmaps s \<longleftrightarrow>
     length (s_bmps s) = MAX_BITMAPS \<and> unat WG_HBITMAP_BASE \<le> unat (s_next s)
     \<and> (\<forall>i < MAX_BITMAPS. b_used (s_bmps s ! i) \<longrightarrow>
          wf_bitmap (s_bmps s ! i) \<and> b_handle (s_bmps s ! i) \<noteq> 0
          \<and> unat (b_handle (s_bmps s ! i)) < unat (s_next s))
     \<and> (\<forall>i < MAX_BITMAPS. \<forall>j < MAX_BITMAPS. b_used (s_bmps s ! i) \<longrightarrow> b_used (s_bmps s ! j)
          \<longrightarrow> b_handle (s_bmps s ! i) = b_handle (s_bmps s ! j) \<longrightarrow> i = j)"

lemma wf_bitmap_init: "wf_bitmaps bitmap_init"
  by (simp add: wf_bitmaps_def bitmap_init_def bitmap_zero_def)

lemma wf_bitmapsD:
  assumes "wf_bitmaps s" and "i < MAX_BITMAPS" and "b_used (s_bmps s ! i)"
  shows "wf_bitmap (s_bmps s ! i)" and "b_handle (s_bmps s ! i) \<noteq> 0"
    and "unat (b_handle (s_bmps s ! i)) < unat (s_next s)"
    and "j < MAX_BITMAPS \<Longrightarrow> b_used (s_bmps s ! j) \<Longrightarrow> b_handle (s_bmps s ! j) = b_handle (s_bmps s ! i) \<Longrightarrow> j = i"
  using assms unfolding wf_bitmaps_def by blast+

lemma wf_bitmaps_len: "wf_bitmaps s \<Longrightarrow> length (s_bmps s) = MAX_BITMAPS"
  by (simp add: wf_bitmaps_def)

lemma find_bitmap_slot:
  assumes wf: "wf_bitmaps s" and i: "i < MAX_BITMAPS" and u: "b_used (s_bmps s ! i)"
  shows "find_bitmap (b_handle (s_bmps s ! i)) s = Some i"
  unfolding find_bitmap_def
  using i u wf_bitmapsD(4) [OF wf i u] wf_bitmaps_len [OF wf] by (intro first_idx_unique) auto

lemma find_bitmapD:
  assumes "wf_bitmaps s" and "find_bitmap h s = Some i"
  shows "i < MAX_BITMAPS" and "b_used (s_bmps s ! i)" and "b_handle (s_bmps s ! i) = h"
  using first_idx_lt [OF assms(2) [unfolded find_bitmap_def]] first_idx_holds [OF assms(2) [unfolded find_bitmap_def]]
    wf_bitmaps_len [OF assms(1)] by simp_all

lemma unat_minus_one32: "unat (- 1 :: u32) = 2 ^ 32 - 1"
  by (simp add: unsigned_minus_1_eq_mask mask_eq_exp_minus_1)

text \<open>What \<open>alloc_slot\<close> does to a table whose counter does not wrap.\<close>

lemma alloc_slot_spec:
  assumes wf: "wf_bitmaps s" and a: "alloc_slot can w h s = (Some i, s')" and nowrap: "s_next s \<noteq> - 1"
  shows "i < MAX_BITMAPS" and "\<not> b_used (s_bmps s ! i)"
    and "s_bmps s' = (s_bmps s)[i := \<lparr> b_used = True, b_handle = s_next s, bmp_w = w, bmp_h = h,
           bmp_px = replicate (nat (w * h)) 0 \<rparr>]"
    and "wf_bitmap (s_bmps s' ! i)" and "wf_bitmaps s'"
proof -
  let ?b = "\<lparr> b_used = True, b_handle = s_next s, bmp_w = w, bmp_h = h, bmp_px = replicate (nat (w * h)) (0 :: u32) \<rparr>"
  from a have dim: "\<not> (w \<le> 0 \<or> h \<le> 0 \<or> w > 16384 \<or> h > 16384)"
    and f: "first_idx (\<lambda>b. \<not> b_used b) (s_bmps s) = Some i"
    and s': "s' = \<lparr> s_bmps = (s_bmps s)[i := ?b], s_next = s_next s + 1 \<rparr>"
    by (auto simp: alloc_slot_def split: if_splits option.splits)
  show i: "i < MAX_BITMAPS" using first_idx_lt [OF f] wf_bitmaps_len [OF wf] by simp
  show "\<not> b_used (s_bmps s ! i)" using first_idx_holds [OF f] by simp
  show b: "s_bmps s' = (s_bmps s)[i := ?b]" by (simp add: s')
  have at: "s_bmps s' ! i = ?b" using i wf_bitmaps_len [OF wf] by (simp add: b)
  show wb: "wf_bitmap (s_bmps s' ! i)" using dim by (simp add: at wf_bitmap_def)
  have nx: "unat (s_next s') = unat (s_next s) + 1"
  proof -
    have "unat (s_next s) \<noteq> 2 ^ 32 - 1"
      using nowrap by (metis unat_minus_one32 word_unat_eq_iff)
    then have "unat (s_next s) + 1 < 2 ^ 32" using unat_lt32 [of "s_next s"] by linarith
    then show ?thesis by (simp add: s' unat_plus_if')
  qed
  have base: "unat WG_HBITMAP_BASE \<le> unat (s_next s)" using wf by (simp add: wf_bitmaps_def)
  have nz: "s_next s \<noteq> 0" using base by (auto simp: WG_HBITMAP_BASE_def)
  have old: "s_bmps s' ! j = s_bmps s ! j" if "j \<noteq> i" for j using that by (simp add: b)
  have "wf_bitmap (s_bmps s' ! j) \<and> b_handle (s_bmps s' ! j) \<noteq> 0 \<and> unat (b_handle (s_bmps s' ! j)) < unat (s_next s')"
    if "j < MAX_BITMAPS" "b_used (s_bmps s' ! j)" for j
  proof (cases "j = i")
    case True
    then show ?thesis using wb nz nx by (simp add: at)
  next
    case False
    then show ?thesis using that wf_bitmapsD(1,2,3) [OF wf that(1)] nx by (simp add: old)
  qed
  moreover have "j = k"
    if "j < MAX_BITMAPS" "k < MAX_BITMAPS" "b_used (s_bmps s' ! j)" "b_used (s_bmps s' ! k)"
      "b_handle (s_bmps s' ! j) = b_handle (s_bmps s' ! k)" for j k
  proof -
    have "b_handle (s_bmps s ! l) \<noteq> s_next s" if "l < MAX_BITMAPS" "b_used (s_bmps s ! l)" for l
      using wf_bitmapsD(3) [OF wf that] by auto
    with that old at wf_bitmapsD(4) [OF wf] show ?thesis
      by (cases "j = i"; cases "k = i") force+
  qed
  ultimately show "wf_bitmaps s'"
    using base nx wf_bitmaps_len [OF wf] b unfolding wf_bitmaps_def by simp
qed

lemma wf_bitmaps_upd:
  assumes wf: "wf_bitmaps s" and i: "i < MAX_BITMAPS" and b: "b_used b \<longrightarrow> b_used (s_bmps s ! i) \<and> wf_bitmap b"
    and h: "b_handle b = b_handle (s_bmps s ! i)"
  shows "wf_bitmaps (s\<lparr> s_bmps := (s_bmps s)[i := b] \<rparr>)"
proof -
  have len: "i < length (s_bmps s)" using i wf_bitmaps_len [OF wf] by simp
  let ?s = "s\<lparr> s_bmps := (s_bmps s)[i := b] \<rparr>"
  have at: "s_bmps ?s ! j = (if j = i then b else s_bmps s ! j)" for j
    using len by (simp add: nth_list_update)
  have same: "b_handle (s_bmps ?s ! j) = b_handle (s_bmps s ! j)" for j unfolding at using h by simp
  have used: "b_used (s_bmps s ! j)" "wf_bitmap (s_bmps ?s ! j)"
    if "j < MAX_BITMAPS" "b_used (s_bmps ?s ! j)" for j
  proof -
    show u: "b_used (s_bmps s ! j)" using that b by (cases "j = i") (simp_all add: nth_list_update len)
    show "wf_bitmap (s_bmps ?s ! j)"
      using that b wf_bitmapsD(1) [OF wf that(1) u] by (cases "j = i") (simp_all add: nth_list_update len)
  qed
  have "wf_bitmap (s_bmps ?s ! j) \<and> b_handle (s_bmps ?s ! j) \<noteq> 0 \<and> unat (b_handle (s_bmps ?s ! j)) < unat (s_next ?s)"
    if "j < MAX_BITMAPS" "b_used (s_bmps ?s ! j)" for j
    unfolding same using used [OF that] wf_bitmapsD(2,3) [OF wf that(1) used(1) [OF that]] by simp
  moreover have "j = k" if "j < MAX_BITMAPS" "k < MAX_BITMAPS" "b_used (s_bmps ?s ! j)" "b_used (s_bmps ?s ! k)"
    "b_handle (s_bmps ?s ! j) = b_handle (s_bmps ?s ! k)" for j k
    using wf_bitmapsD(4) [OF wf that(2) used(1) [OF that(2,4)] that(1) used(1) [OF that(1,3)]] that(5)
    unfolding same by blast
  moreover have "length (s_bmps ?s) = MAX_BITMAPS" "unat WG_HBITMAP_BASE \<le> unat (s_next ?s)"
    using wf by (simp_all add: wf_bitmaps_def)
  ultimately show ?thesis unfolding wf_bitmaps_def by blast
qed

lemma wf_delete:
  assumes wf: "wf_bitmaps s"
  shows "wf_bitmaps (wg_bitmap_delete h s)"
proof (cases "find_bitmap h s")
  case None
  with wf show ?thesis by (simp add: wg_bitmap_delete_def)
next
  case (Some i)
  note f = find_bitmapD [OF wf Some]
  show ?thesis
    using wf_bitmaps_upd [OF wf f(1), of "(s_bmps s ! i)\<lparr> bmp_px := [], b_used := False \<rparr>"] Some
    by (simp add: wg_bitmap_delete_def)
qed

lemma wf_reset_all: "wf_bitmaps s \<Longrightarrow> wf_bitmaps (wg_bitmap_reset_all s)"
  by (auto simp: wf_bitmaps_def wg_bitmap_reset_all_def split: if_splits)

subsection \<open>The pixel loops\<close>

lemma dib_row_spec:
  assumes "\<And>x'. x \<le> x' \<Longrightarrow> x' < x + n \<Longrightarrow> f x' = Some (g x')" and "dst + x + n \<le> length px"
  shows "\<exists>px'. dib_row f dst x n px = Some px' \<and> length px' = length px
    \<and> (\<forall>k < length px. px' ! k = (if dst + x \<le> k \<and> k < dst + x + n then g (k - dst) else px ! k))"
  using assms
proof (induction n arbitrary: x px)
  case 0
  then show ?case by auto
next
  case (Suc n)
  let ?px = "px[dst + x := g x]"
  obtain px' where px': "dib_row f dst (x + 1) n ?px = Some px'" "length px' = length px"
      "\<forall>k < length px. px' ! k = (if dst + (x + 1) \<le> k \<and> k < dst + (x + 1) + n then g (k - dst) else ?px ! k)"
    using Suc.IH [of "x + 1" ?px] Suc.prems by auto
  have "dib_row f dst x (Suc n) px = Some px'" using Suc.prems(1) [of x] px'(1) by simp
  moreover have "px' ! k = (if dst + x \<le> k \<and> k < dst + x + Suc n then g (k - dst) else px ! k)"
    if "k < length px" for k
    using px'(3) that Suc.prems(2) by (cases "k = dst + x") (auto simp: nth_list_update)
  ultimately show ?case using px'(2) by blast
qed

definition src_row :: "bool \<Rightarrow> nat \<Rightarrow> nat \<Rightarrow> nat" where
  "src_row top_down H y = (if top_down then y else H - 1 - y)"

lemma dib_rows_spec:
  assumes "\<And>y' x. y \<le> y' \<Longrightarrow> y' < y + n \<Longrightarrow> x < W \<Longrightarrow> f y' x = Some (g y' x)"
    and "y + n \<le> H" and "length px = W * H" and "0 < W"
  shows "\<exists>px'. dib_rows f td W H y n px = Some px' \<and> length px' = W * H
    \<and> (\<forall>k < W * H. px' ! k = (let r = src_row td H (k div W)
         in if y \<le> r \<and> r < y + n then g r (k mod W) else px ! k))"
  using assms(1-3)
proof (induction n arbitrary: y px)
  case 0
  then show ?case by (auto simp: Let_def)
next
  case (Suc n)
  let ?dy = "src_row td H y"
  have dy: "?dy < H" using Suc.prems(2) by (auto simp: src_row_def)
  have fits: "?dy * W + 0 + W \<le> length px"
  proof -
    have "Suc ?dy * W \<le> H * W" using dy by (intro mult_le_mono1) simp
    then show ?thesis using Suc.prems(3) by (simp add: mult.commute)
  qed
  obtain p1 where p1: "dib_row (f y) (?dy * W) 0 W px = Some p1" "length p1 = length px"
      "\<forall>k < length px. p1 ! k = (if ?dy * W + 0 \<le> k \<and> k < ?dy * W + 0 + W then g y (k - ?dy * W) else px ! k)"
    using dib_row_spec [of 0 W "f y" "g y" "?dy * W" px] Suc.prems(1) [of y] fits by auto
  obtain px' where px': "dib_rows f td W H (y + 1) n p1 = Some px'" "length px' = W * H"
      "\<forall>k < W * H. px' ! k = (let r = src_row td H (k div W)
         in if y + 1 \<le> r \<and> r < y + 1 + n then g r (k mod W) else p1 ! k)"
    using Suc.IH [of "y + 1" p1] Suc.prems p1(2) by auto
  have "dib_rows f td W H y (Suc n) px = Some px'"
    using p1(1) px'(1) by (simp add: src_row_def Let_def)
  moreover have "px' ! k = (let r = src_row td H (k div W)
         in if y \<le> r \<and> r < y + Suc n then g r (k mod W) else px ! k)" if k: "k < W * H" for k
  proof -
    have q: "k div W < H" using k by (simp add: less_mult_imp_div_less mult.commute)
    have inrow: "(?dy * W \<le> k \<and> k < ?dy * W + W) = (k div W = ?dy)"
    proof -
      have "(k div W = ?dy) = (?dy * W \<le> k \<and> k < Suc ?dy * W)"
        using assms(4) by (metis div_nat_eqI dividend_less_div_times div_times_less_eq_dividend mult.commute mult_Suc add.commute)
      then show ?thesis by (simp add: add.commute)
    qed
    have eq: "(k div W = ?dy) = (src_row td H (k div W) = y)"
      using q dy Suc.prems(2) by (auto simp: src_row_def)
    show ?thesis
    proof (cases "src_row td H (k div W) = y")
      case True
      with eq inrow have "?dy * W \<le> k" "k < ?dy * W + W" "k div W = ?dy" by auto
      moreover have "k - ?dy * W = k mod W" using \<open>k div W = ?dy\<close> by (metis minus_div_mult_eq_mod)
      ultimately show ?thesis using px'(3) p1(3) k Suc.prems(3) True by (simp add: Let_def)
    next
      case False
      with eq inrow have "\<not> (?dy * W \<le> k \<and> k < ?dy * W + W)" by simp
      then show ?thesis using px'(3) p1(3) k Suc.prems(3) False by (auto simp: Let_def)
    qed
  qed
  ultimately show ?case using px'(2) by blast
qed

text \<open>A pixel is defined when its bytes, and for 8 bits the palette, are inside their objects.\<close>

lemma dib_pixel_defined:
  assumes "bpp = 8 \<or> bpp = 24 \<or> bpp = 32" and "x < W"
    and "y * stride + W * (unat bpp div 8) \<le> length bits"
    and "bpp = 8 \<Longrightarrow> pal + 1023 \<le> length bih"
  shows "\<exists>v. dib_pixel bpp bih pal pal_n bits (y * stride) x = Some v"
proof -
  have idx: "unat (i :: u8) \<le> 255" for i using unat_lt8 [of i] by simp
  from assms(1) consider "bpp = 8" | "bpp = 24" | "bpp = 32" by blast
  then show ?thesis
  proof cases
    case 1
    have "y * stride + x < length bits" using assms(2,3) 1 by simp
    moreover have "pal + unat (bits ! (y * stride + x)) * 4 + 2 < length bih"
      using assms(4) [OF 1] idx [of "bits ! (y * stride + x)"] by linarith
    ultimately show ?thesis using 1 by (auto simp: dib_pixel_def byte_at_def)
  next
    case 2
    have "y * stride + x * 3 + 2 < length bits" using assms(2,3) 2 by simp
    then show ?thesis using 2 by (auto simp: dib_pixel_def byte_at_def)
  next
    case 3
    have "y * stride + x * 4 + 3 < length bits" using assms(2,3) 3 by simp
    then show ?thesis using 3 by (auto simp: dib_pixel_def byte_at_def)
  qed
qed

lemma stride_covers: "W * n \<le> dib_stride W n"
  unfolding dib_stride_def using div_mult_mod_eq [of "W * n + 3" 4] mod_less_divisor [of 4 "W * n + 3"] by linarith

subsection \<open>Decoding\<close>

text \<open>The decoder from its header fields on: whenever every pixel of the image is defined, the
  result is a fresh bitmap with those pixels.\<close>

lemma decode_dib_image:
  assumes wf: "wf_bitmaps s" and nowrap: "s_next s \<noteq> - 1"
    and hd: "rd32 bih 0 = Some biSize" "rd32 bih 4 = Some biW" "rd32 bih 8 = Some biH"
      "rd16 bih 14 = Some bpp" "rd32 bih 16 = Some 0" "rd32 bih 32 = Some used"
    and sz: "40 \<le> biSize" and h: "sint biH \<noteq> - (2 ^ 31)"
    and W: "sint biW = int W" "1 \<le> W" "W \<le> 16384"
    and H: "(if sint biH < 0 then - sint biH else sint biH) = int H" "1 \<le> H" "H \<le> 16384"
    and bpp: "bpp = 8 \<or> bpp = 24 \<or> bpp = 32"
    and slot: "alloc_slot can (int W) (int H) s = (Some i, s1)"
    and cap: "cap = 0 \<or> dib_stride W (unat bpp div 8) * H \<le> cap"
    and px: "\<And>y x. y < H \<Longrightarrow> x < W \<Longrightarrow>
        dib_pixel bpp bih (unat biSize) (if used \<noteq> 0 then used else if bpp \<le> 8 then push_bit (unat bpp) 1 else 0)
          bits (y * dib_stride W (unat bpp div 8)) x = Some (g y x)"
  shows "\<exists>s'. decode_dib can bih bits cap s = Some (s_next s, s') \<and> wf_bitmaps s' \<and> i < MAX_BITMAPS
    \<and> \<not> b_used (s_bmps s ! i)
    \<and> (\<exists>b. s_bmps s' = (s_bmps s)[i := b] \<and> b_used b \<and> b_handle b = s_next s \<and> bmp_w b = int W \<and> bmp_h b = int H
         \<and> length (bmp_px b) = W * H
         \<and> (\<forall>k < W * H. bmp_px b ! k = g (src_row (sint biH < 0) H (k div W)) (k mod W)))"
proof -
  let ?n = "nat (int W * int H)"
  let ?b = "\<lparr> b_used = True, b_handle = s_next s, bmp_w = int W, bmp_h = int H, bmp_px = replicate ?n 0 \<rparr>"
  note al = alloc_slot_spec [OF wf slot nowrap]
  have len: "length (s_bmps s) = MAX_BITMAPS" using wf by (rule wf_bitmaps_len)
  have at: "s_bmps s1 ! i = ?b" using al(1,3) len by simp
  have n: "?n = W * H" by (simp add: nat_mult_distrib)
  obtain px' where px': "dib_rows (\<lambda>y x. dib_pixel bpp bih (unat biSize)
          (if used \<noteq> 0 then used else if bpp \<le> 8 then push_bit (unat bpp) 1 else 0) bits
          (y * dib_stride W (unat bpp div 8)) x) (sint biH < 0) W H 0 H (bmp_px ?b) = Some px'"
      "length px' = W * H" "\<forall>k < W * H. px' ! k = (let r = src_row (sint biH < 0) H (k div W)
         in if 0 \<le> r \<and> r < 0 + H then g r (k mod W) else bmp_px ?b ! k)"
    using dib_rows_spec [of 0 H W "\<lambda>y x. dib_pixel bpp bih (unat biSize)
          (if used \<noteq> 0 then used else if bpp \<le> 8 then push_bit (unat bpp) 1 else 0) bits
          (y * dib_stride W (unat bpp div 8)) x" g H "bmp_px ?b" "sint biH < 0"] px W(2) by (auto simp: n)
  let ?s = "s1\<lparr> s_bmps := (s_bmps s1)[i := ?b\<lparr> bmp_px := px' \<rparr>] \<rparr>"
  have r: "src_row (sint biH < 0) H (k div W) < H" if "k < W * H" for k
    using that H(2) by (auto simp: src_row_def less_mult_imp_div_less mult.commute)
  have dec: "decode_dib can bih bits cap s = Some (s_next s, ?s)"
  proof -
    have f: "(biSize < 40) = False" "(bpp \<noteq> 8 \<and> bpp \<noteq> 24 \<and> bpp \<noteq> 32) = False"
      "(0 < cap \<and> cap < dib_stride W (unat bpp div 8) * H) = False"
      using sz bpp cap by (auto simp: not_less)
    show ?thesis
      using hd h W H slot px'(1)
      by (simp add: decode_dib_def Let_def at f del: dib_rows.simps)
  qed
  have wf1: "wf_bitmaps ?s"
    using px'(2) W H by (intro wf_bitmaps_upd [OF al(5,1)]) (simp_all add: at wf_bitmap_def n)
  have tab: "s_bmps ?s = (s_bmps s)[i := ?b\<lparr> bmp_px := px' \<rparr>]" using al(3) by simp
  have "\<forall>k < W * H. px' ! k = g (src_row (sint biH < 0) H (k div W)) (k mod W)"
    using px'(3) r by (simp add: Let_def)
  then have "\<exists>b. s_bmps ?s = (s_bmps s)[i := b] \<and> b_used b \<and> b_handle b = s_next s \<and> bmp_w b = int W \<and> bmp_h b = int H
         \<and> length (bmp_px b) = W * H
         \<and> (\<forall>k < W * H. bmp_px b ! k = g (src_row (sint biH < 0) H (k div W)) (k mod W))"
    using tab px'(2) by (intro exI [of _ "?b\<lparr> bmp_px := px' \<rparr>"]) simp
  with dec wf1 al(1,2) show ?thesis by blast
qed

text \<open>From any header, as long as the bytes it makes the decoder read are there.\<close>

lemma decode_dib_total:
  assumes wf: "wf_bitmaps s" and nowrap: "s_next s \<noteq> - 1" and len: "40 \<le> length bih"
    and h: "rd32 bih 8 \<noteq> Some 0x80000000" and cap: "0 < cap" "cap \<le> length bits"
    and pal: "rd16 bih 14 = Some 8 \<Longrightarrow> unat (of_le (take 4 bih) :: u32) + 1023 \<le> length bih"
  shows "\<exists>hb s'. decode_dib can bih bits cap s = Some (hb, s') \<and> wf_bitmaps s' \<and> (hb \<noteq> 0 \<longrightarrow> wg_bitmap_is hb s')"
proof -
  obtain biSize biW biH bpp comp used where hd: "rd32 bih 0 = Some biSize" "rd32 bih 4 = Some biW"
      "rd32 bih 8 = Some biH" "rd16 bih 14 = Some bpp" "rd32 bih 16 = Some comp" "rd32 bih 32 = Some used"
    using len by (simp add: rd32_def rd16_def)
  have biH: "sint biH \<noteq> - (2 ^ 31)"
  proof
    assume "sint biH = - (2 ^ 31)"
    then have "sint biH = sint (0x80000000 :: u32)" by simp
    then have "biH = 0x80000000" by (rule signed_word_eqI)
    with h hd(3) show False by simp
  qed
  let ?H = "if sint biH < 0 then - sint biH else sint biH"
  show ?thesis
  proof (cases "biSize < 40 \<or> comp \<noteq> 0 \<or> sint biW \<le> 0 \<or> ?H \<le> 0 \<or> sint biW > 16384 \<or> ?H > 16384
      \<or> (bpp \<noteq> 8 \<and> bpp \<noteq> 24 \<and> bpp \<noteq> 32) \<or> fst (alloc_slot can (sint biW) ?H s) = None")
    case True
    have none: "alloc_slot can w h s = (None, s)" if "fst (alloc_slot can w h s) = None" for w h
      using that by (auto simp: alloc_slot_def split: if_splits option.splits)
    have "decode_dib can bih bits cap s = Some (0, s)"
      using True hd biH none [of "sint biW" ?H] by (auto simp: decode_dib_def Let_def)
    with wf show ?thesis by simp
  next
    case False
    define W H where "W = nat (sint biW)" and "H = nat ?H"
    have W: "sint biW = int W" "1 \<le> W" "W \<le> 16384" using False by (auto simp: W_def)
    have H: "?H = int H" "1 \<le> H" "H \<le> 16384" using False by (auto simp: H_def)
    from False obtain i s1 where slot: "alloc_slot can (int W) (int H) s = (Some i, s1)"
      unfolding W(1) H(1) by (cases "alloc_slot can (int W) (int H) s") auto
    have bpp: "bpp = 8 \<or> bpp = 24 \<or> bpp = 32" and comp: "comp = 0" and sz: "40 \<le> biSize"
      using False by (auto simp: not_less)
    let ?n = "unat bpp div 8"
    note al = alloc_slot_spec [OF wf slot nowrap]
    have at: "s_bmps s1 ! i = \<lparr> b_used = True, b_handle = s_next s, bmp_w = int W, bmp_h = int H,
        bmp_px = replicate (nat (int W * int H)) 0 \<rparr>"
      using al(1,3) wf_bitmaps_len [OF wf] by simp
    show ?thesis
    proof (cases "dib_stride W ?n * H \<le> cap")
      case True
      have cov: "y * dib_stride W ?n + W * ?n \<le> length bits" if "y < H" for y
      proof -
        have "Suc y * dib_stride W ?n \<le> H * dib_stride W ?n" using that by (intro mult_le_mono1) simp
        then show ?thesis using True cap(2) stride_covers [of W ?n] by (simp add: mult.commute)
      qed
      have b0: "unat biSize + 1023 \<le> length bih" if "bpp = 8"
        using pal that hd(1,4) by (simp add: rd32_def split: if_splits)
      let ?px = "\<lambda>y x. dib_pixel bpp bih (unat biSize)
          (if used \<noteq> 0 then used else if bpp \<le> 8 then push_bit (unat bpp) 1 else 0) bits (y * dib_stride W ?n) x"
      have "?px y x = Some (the (?px y x))" if "y < H" "x < W" for y x
        using dib_pixel_defined [OF bpp that(2) cov [OF that(1)] b0] by auto
      from decode_dib_image [OF wf nowrap hd(1-4) _ hd(6) sz biH W H bpp slot _ this] hd(5) comp True
      obtain s' where s': "decode_dib can bih bits cap s = Some (s_next s, s')" "wf_bitmaps s'" "i < MAX_BITMAPS"
          "\<exists>b. s_bmps s' = (s_bmps s)[i := b] \<and> b_used b \<and> b_handle b = s_next s" by blast
      then obtain b where b: "s_bmps s' ! i = b" "b_used b" "b_handle b = s_next s"
        using wf_bitmaps_len [OF wf] by auto
      with find_bitmap_slot [OF s'(2,3)] have "wg_bitmap_is (s_next s) s'" by (simp add: wg_bitmap_is_def)
      with s' show ?thesis by blast
    next
      case big: False
      have "decode_dib can bih bits cap s = Some (s_next s, s1)"
      proof -
        have f: "(biSize < 40) = False" "(bpp \<noteq> 8 \<and> bpp \<noteq> 24 \<and> bpp \<noteq> 32) = False"
          "(0 < cap \<and> cap < dib_stride W ?n * H) = True"
          using sz bpp cap big by (auto simp: not_less)
        show ?thesis
          using hd biH W H slot comp by (simp add: decode_dib_def Let_def at f del: dib_rows.simps)
      qed
      moreover have "wg_bitmap_is (s_next s) s1"
        using find_bitmap_slot [OF al(5,1)] by (simp add: at wg_bitmap_is_def)
      ultimately show ?thesis using al(5) by blast
    qed
  qed
qed

lemma rd32_drop: "k \<le> length d \<Longrightarrow> rd32 (drop k d) p = rd32 d (k + p)"
  and rd16_drop: "k \<le> length d \<Longrightarrow> rd16 (drop k d) p = rd16 d (k + p)"
  by (auto simp: rd32_def rd16_def add.commute)

text \<open>Decoding a BMP file never reads outside the file, whatever its bytes, with two exceptions
  that the hypotheses exclude: a height of \<open>INT_MIN\<close>, and an 8-bit image whose header size places
  the palette past the end.  The table stays well formed and a non-zero result is a live handle.\<close>

theorem bmp_decode_safe:
  assumes "wf_bitmaps s" and "s_next s \<noteq> - 1" and "length d < 2 ^ 32"
    and "rd32 d 22 \<noteq> Some 0x80000000"
    and "rd16 d 28 = Some 8 \<longrightarrow> (\<exists>z. rd32 d 14 = Some z \<and> 14 + unat z + 1023 \<le> length d)"
  shows "\<exists>h s'. wg_bitmap_from_bmp_memory can (Some d) (of_nat (length d)) s = Some (h, s') \<and> wf_bitmaps s'
    \<and> (h \<noteq> 0 \<longrightarrow> wg_bitmap_is h s')"
proof (cases "length d < 54")
  case True
  then have "(of_nat (length d) :: u32) < 54" by (simp add: word_less_nat_alt unat_of_nat)
  with assms(1) show ?thesis by (simp add: wg_bitmap_from_bmp_memory_def)
next
  case False
  have l: "unat (of_nat (length d) :: u32) = length d" using assms(3) by (simp add: unat_of_nat)
  have nl: "\<not> (of_nat (length d) :: u32) < 54" using False l by (simp add: word_less_nat_alt)
  obtain off where off: "rd32 d 10 = Some off" using False by (simp add: rd32_def)
  have b: "byte_at d 0 = Some (d ! 0)" "byte_at d 1 = Some (d ! 1)" using False by (auto simp: byte_at_def)
  show ?thesis
  proof (cases "d ! 0 = 0x42 \<and> d ! 1 = 0x4D \<and> off < of_nat (length d)")
    case True
    then have o: "unat off < length d" using l by (simp add: word_less_nat_alt)
    have c: "unat (of_nat (length d) - off) = length d - unat off"
      using True l by (simp add: unat_sub_if' word_less_nat_alt)
    have e: "wg_bitmap_from_bmp_memory can (Some d) (of_nat (length d)) s
        = decode_dib can (drop 14 d) (drop (unat off) d) (length d - unat off) s"
      using True nl off b c leD [of _ "off"] by (auto simp: wg_bitmap_from_bmp_memory_def)
    have "unat (of_le (take 4 (drop 14 d)) :: u32) + 1023 \<le> length (drop 14 d)"
      if "rd16 (drop 14 d) 14 = Some 8"
    proof -
      have "rd16 d 28 = Some 8" using that False by (simp add: rd16_drop)
      then obtain z where "rd32 d 14 = Some z" "14 + unat z + 1023 \<le> length d" using assms(5) by blast
      then show ?thesis by (auto simp: rd32_def split: if_splits)
    qed
    moreover have "rd32 (drop 14 d) 8 \<noteq> Some 0x80000000" using assms(4) False by (simp add: rd32_drop)
    ultimately show ?thesis
      unfolding e using decode_dib_total [OF assms(1,2), of "drop 14 d" "length d - unat off" "drop (unat off) d" can] o False
      by simp
  next
    case False': False
    then have "wg_bitmap_from_bmp_memory can (Some d) (of_nat (length d)) s = Some (0, s)"
      using nl off b by (auto simp: wg_bitmap_from_bmp_memory_def not_le)
    with assms(1) show ?thesis by simp
  qed
qed

subsection \<open>Writing and reading back an image\<close>

text \<open>A writer of 24 and 32-bit BMP files, top-down or bottom-up, as the reference the decoder is
  checked against: a row is filled up with zeros to a multiple of four bytes.\<close>

definition enc_px :: "u16 \<Rightarrow> u32 \<Rightarrow> u8 list" where
  "enc_px bpp p = [ucast (drop_bit 16 p), ucast (drop_bit 8 p), ucast p]
     @ (if bpp = 32 then [ucast (drop_bit 24 p)] else [])"

definition enc_row :: "u16 \<Rightarrow> nat \<Rightarrow> u32 list \<Rightarrow> u8 list" where
  "enc_row bpp W ps =
     (let row = concat (map (enc_px bpp) ps) in row @ replicate ((4 - length row mod 4) mod 4) 0)"

lemma less_4_cases: "(r :: nat) < 4 \<Longrightarrow> (r = 0 \<Longrightarrow> P) \<Longrightarrow> (r = 1 \<Longrightarrow> P) \<Longrightarrow> (r = 2 \<Longrightarrow> P) \<Longrightarrow> (r = 3 \<Longrightarrow> P) \<Longrightarrow> P"
  by linarith

lemma padded_stride: "W * n + (4 - W * n mod 4) mod 4 = dib_stride W n"
proof -
  have "m + (4 - m mod 4) mod 4 = (m + 3) div 4 * 4" for m :: nat
  proof -
    define q where "q = m div 4"
    define r where "r = m mod 4"
    have m: "m = r + q * 4" "r < 4" by (simp_all add: q_def r_def)
    have "r + q * 4 + (4 - r) mod 4 = (r + q * 4 + 3) div 4 * 4" using m(2) by (elim less_4_cases) simp_all
    then show ?thesis unfolding r_def [symmetric] m(1) [symmetric] .
  qed
  then show ?thesis by (simp add: dib_stride_def)
qed

definition enc_header :: "u16 \<Rightarrow> bool \<Rightarrow> nat \<Rightarrow> nat \<Rightarrow> u8 list" where
  "enc_header bpp td W H =
     [0x42, 0x4D] @ to_le 4 (0 :: u32) @ to_le 4 (0 :: u32) @ to_le 4 (54 :: u32)
     @ to_le 4 (40 :: u32) @ to_le 4 (of_nat W :: u32) @ to_le 4 (of_int (if td then - int H else int H) :: u32)
     @ to_le 2 (1 :: u16) @ to_le 2 bpp @ to_le 4 (0 :: u32) @ replicate 12 0 @ to_le 4 (0 :: u32) @ to_le 4 (0 :: u32)"

definition enc_bmp :: "u16 \<Rightarrow> bool \<Rightarrow> nat \<Rightarrow> nat \<Rightarrow> u32 list \<Rightarrow> u8 list" where
  "enc_bmp bpp td W H px = enc_header bpp td W H
     @ concat (map (\<lambda>y. enc_row bpp W (take W (drop (src_row td H y * W) px))) [0..<H])"

lemma concat_uniform:
  assumes "\<And>i. i < n \<Longrightarrow> length (f i) = m"
  shows "length (concat (map f [0..<n])) = n * m"
    and "i < n \<Longrightarrow> k < m \<Longrightarrow> concat (map f [0..<n]) ! (i * m + k) = f i ! k"
proof -
  show len: "length (concat (map f [0..<n])) = n * m"
    using assms by (induction n) auto
  show "concat (map f [0..<n]) ! (i * m + k) = f i ! k" if "i < n" "k < m"
    using assms that
  proof (induction n)
    case 0
    then show ?case by simp
  next
    case (Suc n)
    have l: "length (concat (map f [0..<n])) = n * m" using Suc.prems(1) by (induction n) auto
    show ?case
    proof (cases "i < n")
      case True
      have "Suc i * m \<le> n * m" using True by (intro mult_le_mono1) simp
      then have "i * m + k < n * m" using Suc.prems(3) by simp
      with True Suc l show ?thesis by (simp add: nth_append)
    next
      case False
      then have "i = n" using Suc.prems(2) by simp
      then show ?thesis using l by (simp add: nth_append)
    qed
  qed
qed

lemma pack_bytes:
  "pack (ucast p) (ucast (drop_bit 8 p)) (ucast (drop_bit 16 p)) (ucast (drop_bit 24 p)) = (p :: u32)"
proof (rule bit_word_eqI)
  fix n
  assume "n < LENGTH(32)"
  then consider "n < 8" | "8 \<le> n" "n < 16" | "16 \<le> n" "n < 24" | "24 \<le> n" "n < 32" by fastforce
  then show "bit (pack (ucast p) (ucast (drop_bit 8 p)) (ucast (drop_bit 16 p)) (ucast (drop_bit 24 p))) n = bit p n"
    by cases (auto simp: pack_def bit_simps)
qed

lemma length_enc_px: "bpp = 24 \<or> bpp = 32 \<Longrightarrow> length (enc_px bpp p) = unat bpp div 8"
  by (auto simp: enc_px_def)

lemma map_nth_index: "map f ps = map (\<lambda>x. f (ps ! x)) [0..<length ps]"
  by (rule nth_equalityI) simp_all

lemma enc_row_length:
  assumes "bpp = 24 \<or> bpp = 32" and "length ps = W"
  shows "length (enc_row bpp W ps) = dib_stride W (unat bpp div 8)"
proof -
  have "length (concat (map (enc_px bpp) ps)) = W * (unat bpp div 8)"
    unfolding map_nth_index [of "enc_px bpp" ps] using assms length_enc_px
    by (subst concat_uniform(1)) auto
  then show ?thesis by (simp add: enc_row_def Let_def padded_stride)
qed

lemma enc_row_nth:
  assumes "bpp = 24 \<or> bpp = 32" and "length ps = W" and "x < W" and "k < unat bpp div 8"
  shows "enc_row bpp W ps ! (x * (unat bpp div 8) + k) = enc_px bpp (ps ! x) ! k"
proof -
  have c: "length (concat (map (\<lambda>x. enc_px bpp (ps ! x)) [0..<W])) = W * (unat bpp div 8)"
      "concat (map (\<lambda>x. enc_px bpp (ps ! x)) [0..<W]) ! (x * (unat bpp div 8) + k) = enc_px bpp (ps ! x) ! k"
    using concat_uniform(1) [of W "\<lambda>x. enc_px bpp (ps ! x)" "unat bpp div 8"]
      concat_uniform(2) [of W "\<lambda>x. enc_px bpp (ps ! x)" "unat bpp div 8" x k] assms length_enc_px by auto
  have "Suc x * (unat bpp div 8) \<le> W * (unat bpp div 8)" using assms(3) by (intro mult_le_mono1) simp
  then have "x * (unat bpp div 8) + k < W * (unat bpp div 8)" using assms(4) by simp
  then show ?thesis
    using c assms(2) by (simp add: enc_row_def Let_def map_nth_index [of "enc_px bpp" ps] nth_append)
qed

lemma rd32_at: "length a = p \<Longrightarrow> rd32 (a @ to_le 4 (w :: u32) @ b) p = Some w"
  by (simp add: rd32_def of_le_to_le del: to_le_numeral to_le.simps)

lemma rd16_at: "length a = p \<Longrightarrow> rd16 (a @ to_le 2 (w :: u16) @ b) p = Some w"
  by (simp add: rd16_def of_le_to_le del: to_le_numeral to_le.simps)

lemma enc_header_length: "length (enc_header bpp td W H) = 54"
  by (simp add: enc_header_def del: to_le_numeral to_le.simps)

lemma enc_header_fields:
  fixes bpp td W H rest
  defines "d \<equiv> enc_header bpp td W H @ rest"
  shows "rd32 d 10 = Some 54" "rd32 d 14 = Some 40" "rd32 d 18 = Some (of_nat W)"
    "rd32 d 22 = Some (of_int (if td then - int H else int H))" "rd16 d 28 = Some bpp"
    "rd32 d 30 = Some 0" "rd32 d 46 = Some 0" "byte_at d 0 = Some 0x42" "byte_at d 1 = Some 0x4D"
proof -
  let ?A = "[0x42, 0x4D] @ to_le 4 (0 :: u32) @ to_le 4 (0 :: u32)"
  let ?h = "of_int (if td then - int H else int H) :: u32"
  let ?Z = "to_le 4 (0 :: u32) @ rest"
  note nosimp = to_le_numeral to_le.simps
  show "rd32 d 10 = Some 54"
    using rd32_at [of ?A 10 54] by (simp add: d_def enc_header_def del: nosimp)
  show "rd32 d 14 = Some 40"
    using rd32_at [of "?A @ to_le 4 (54 :: u32)" 14 40] by (simp add: d_def enc_header_def del: nosimp)
  show "rd32 d 18 = Some (of_nat W)"
    using rd32_at [of "?A @ to_le 4 (54 :: u32) @ to_le 4 (40 :: u32)" 18 "of_nat W"]
    by (simp add: d_def enc_header_def del: nosimp)
  show "rd32 d 22 = Some ?h"
    using rd32_at [of "?A @ to_le 4 (54 :: u32) @ to_le 4 (40 :: u32) @ to_le 4 (of_nat W :: u32)" 22 ?h]
    by (simp add: d_def enc_header_def del: nosimp)
  let ?B = "?A @ to_le 4 (54 :: u32) @ to_le 4 (40 :: u32) @ to_le 4 (of_nat W :: u32) @ to_le 4 ?h @ to_le 2 (1 :: u16)"
  show "rd16 d 28 = Some bpp"
    using rd16_at [of ?B 28 bpp] by (simp add: d_def enc_header_def del: nosimp)
  show "rd32 d 30 = Some 0"
    using rd32_at [of "?B @ to_le 2 bpp" 30 0] by (simp add: d_def enc_header_def del: nosimp)
  show "rd32 d 46 = Some 0"
    using rd32_at [of "?B @ to_le 2 bpp @ to_le 4 (0 :: u32) @ replicate 12 0" 46 0]
    by (simp add: d_def enc_header_def del: nosimp)
  show "byte_at d 0 = Some 0x42" "byte_at d 1 = Some 0x4D"
    by (simp_all add: d_def enc_header_def byte_at_def del: nosimp)
qed

lemma sint_of_int32: "- (2 ^ 31) \<le> i \<Longrightarrow> i < 2 ^ 31 \<Longrightarrow> sint (of_int i :: u32) = i"
  by (simp add: signed_of_int signed_take_bit_int_eq_self)

text \<open>Every pixel of a written file decodes to the pixel that was written.\<close>

lemma enc_bmp_pixel:
  assumes bpp: "bpp = 24 \<or> bpp = 32" and px: "length px = W * H"
    and op: "\<forall>p \<in> set px. if bpp = 24 then ucast (drop_bit 24 p) = (0xFF :: u8) else ucast (drop_bit 24 p) \<noteq> (0 :: u8)"
    and y: "y < H" and x: "x < W"
  shows "dib_pixel bpp bih pal pal_n (drop 54 (enc_bmp bpp td W H px)) (y * dib_stride W (unat bpp div 8)) x
    = Some (px ! (src_row td H y * W + x))"
proof -
  let ?n = "unat bpp div 8" and ?S = "dib_stride W (unat bpp div 8)"
  let ?row = "\<lambda>y. enc_row bpp W (take W (drop (src_row td H y * W) px))"
  let ?body = "concat (map ?row [0..<H])"
  let ?p = "px ! (src_row td H y * W + x)"
  have body: "drop 54 (enc_bmp bpp td W H px) = ?body"
    using enc_header_length [of bpp td W H] by (simp add: enc_bmp_def)
  have src: "src_row td H z * W + W \<le> length px" if "z < H" for z
  proof -
    have "Suc (src_row td H z) \<le> H" using that by (auto simp: src_row_def)
    then have "Suc (src_row td H z) * W \<le> H * W" by (rule mult_le_mono1)
    then show ?thesis using px by (simp add: mult.commute)
  qed
  have tl: "length (take W (drop (src_row td H z * W) px)) = W" if "z < H" for z
    using src [OF that] by simp
  have rl: "length (?row z) = ?S" if "z < H" for z using enc_row_length [OF bpp tl [OF that]] .
  have len: "length ?body = H * ?S" using rl by (rule concat_uniform(1))
  have byte: "byte_at ?body (y * ?S + x * ?n + k) = Some (enc_px bpp ?p ! k)" if k: "k < ?n" for k
  proof -
    have "Suc x * ?n \<le> W * ?n" using x by (intro mult_le_mono1) simp
    then have xk: "x * ?n + k < ?S" using k stride_covers [of W ?n] by simp
    have "Suc y * ?S \<le> H * ?S" using y by (intro mult_le_mono1) simp
    then have "y * ?S + x * ?n + k < length ?body" using xk len by simp
    moreover have "?body ! (y * ?S + (x * ?n + k)) = ?row y ! (x * ?n + k)"
      using concat_uniform(2) [OF rl y xk] by simp
    moreover have "?row y ! (x * ?n + k) = enc_px bpp ?p ! k"
      using enc_row_nth [OF bpp tl [OF y] x k] src [OF y] x by simp
    ultimately show ?thesis by (simp add: byte_at_def add.assoc)
  qed
  have "?p \<in> set px" using src [OF y] x by (intro nth_mem) simp
  with op have al: "if bpp = 24 then ucast (drop_bit 24 ?p) = (0xFF :: u8) else ucast (drop_bit 24 ?p) \<noteq> (0 :: u8)"
    by blast
  from bpp show ?thesis
  proof
    assume b: "bpp = 24"
    have "byte_at ?body (y * ?S + x * 3 + k) = Some (enc_px bpp ?p ! k)" if "k < 3" for k
      using byte [of k] that b by simp
    from this [of 0] this [of 1] this [of 2]
    show ?thesis using al pack_bytes [of ?p] b by (simp add: body [unfolded b] dib_pixel_def enc_px_def)
  next
    assume b: "bpp = 32"
    have "byte_at ?body (y * ?S + x * 4 + k) = Some (enc_px bpp ?p ! k)" if "k < 4" for k
      using byte [of k] that b by simp
    from this [of 0] this [of 1] this [of 2] this [of 3]
    show ?thesis using al pack_bytes [of ?p] b by (simp add: body [unfolded b] dib_pixel_def enc_px_def)
  qed
qed

text \<open>What the file looks like to the decoder, for an image of legal size.\<close>

lemma enc_bmp_length:
  assumes bpp: "bpp = 24 \<or> bpp = 32" and px: "length px = W * H"
  shows "length (enc_bmp bpp td W H px) = 54 + dib_stride W (unat bpp div 8) * H"
proof -
  have "length (enc_row bpp W (take W (drop (src_row td H y * W) px))) = dib_stride W (unat bpp div 8)" if "y < H" for y
  proof -
    have "Suc (src_row td H y) * W \<le> H * W" using that by (intro mult_le_mono1) (auto simp: src_row_def)
    then show ?thesis using px by (intro enc_row_length [OF bpp]) (simp add: mult.commute)
  qed
  from concat_uniform(1) [OF this] show ?thesis
    using enc_header_length [of bpp td W H] by (simp add: enc_bmp_def mult.commute)
qed

lemma enc_bmp_start:
  assumes bpp: "bpp = 24 \<or> bpp = 32" and px: "length px = W * H" and dim: "1 \<le> W" "1 \<le> H"
    and len: "length (enc_bmp bpp td W H px) < 2 ^ 32"
  shows "wg_bitmap_from_bmp_memory can (Some (enc_bmp bpp td W H px)) (of_nat (length (enc_bmp bpp td W H px))) s
    = decode_dib can (drop 14 (enc_bmp bpp td W H px)) (drop 54 (enc_bmp bpp td W H px))
        (dib_stride W (unat bpp div 8) * H) s"
proof -
  let ?d = "enc_bmp bpp td W H px" and ?S = "dib_stride W (unat bpp div 8)"
  note hf = enc_header_fields [of bpp td W H "concat (map (\<lambda>y. enc_row bpp W (take W (drop (src_row td H y * W) px))) [0..<H])",
      folded enc_bmp_def]
  have dl: "length ?d = 54 + ?S * H" using enc_bmp_length [OF bpp px] .
  have n: "unat (of_nat (length ?d) :: u32) = length ?d" using len by (simp add: unat_of_nat)
  have "0 < ?S" using stride_covers [of W "unat bpp div 8"] bpp dim by auto
  then have big: "54 < length ?d" using dl dim by simp
  then have "\<not> (of_nat (length ?d) :: u32) < 54" "\<not> (of_nat (length ?d) :: u32) \<le> 54"
    using n by (simp_all add: word_less_nat_alt word_le_nat_alt)
  moreover have "unat (of_nat (length ?d) - 54 :: u32) = ?S * H"
  proof -
    have "unat (of_nat (length ?d) - 54 :: u32) = unat (of_nat (length ?d) :: u32) - unat (54 :: u32)"
      using big n by (intro unat_sub) (simp add: word_le_nat_alt)
    also have "\<dots> = length ?d - 54" unfolding n by simp
    finally show ?thesis using dl by (simp only: add_diff_cancel_left')
  qed
  ultimately show ?thesis using hf(1,8,9) by (simp add: wg_bitmap_from_bmp_memory_def)
qed

lemma enc_bmp_decode:
  assumes wf: "wf_bitmaps s" and nowrap: "s_next s \<noteq> - 1" and sl: "alloc_slot can (int W) (int H) s = (Some i, s1)"
    and dim: "1 \<le> W" "W \<le> 16384" "1 \<le> H" "H \<le> 16384"
    and bpp: "bpp = 24 \<or> bpp = 32" and px: "length px = W * H"
    and op: "\<forall>p \<in> set px. if bpp = 24 then ucast (drop_bit 24 p) = (0xFF :: u8) else ucast (drop_bit 24 p) \<noteq> (0 :: u8)"
  shows "\<exists>s' b. decode_dib can (drop 14 (enc_bmp bpp td W H px)) (drop 54 (enc_bmp bpp td W H px))
        (dib_stride W (unat bpp div 8) * H) s = Some (s_next s, s') \<and> wf_bitmaps s' \<and> i < MAX_BITMAPS
    \<and> \<not> b_used (s_bmps s ! i) \<and> s_bmps s' = (s_bmps s)[i := b] \<and> b_used b \<and> b_handle b = s_next s
    \<and> bmp_w b = int W \<and> bmp_h b = int H \<and> bmp_px b = px"
proof -
  let ?d = "enc_bmp bpp td W H px" and ?S = "dib_stride W (unat bpp div 8)"
  let ?h = "of_int (if td then - int H else int H) :: u32"
  note hf = enc_header_fields [of bpp td W H "concat (map (\<lambda>y. enc_row bpp W (take W (drop (src_row td H y * W) px))) [0..<H])",
      folded enc_bmp_def]
  have sh: "sint ?h = (if td then - int H else int H)" using dim by (intro sint_of_int32) auto
  have sw: "sint (of_nat W :: u32) = int W" using sint_of_int32 [of "int W"] dim by simp
  have td: "(sint ?h < 0) = td" using sh dim by auto
  have k14: "14 \<le> length ?d" using enc_bmp_length [OF bpp px] by simp
  have bpp8: "bpp = 8 \<or> bpp = 24 \<or> bpp = 32" using bpp by blast
  have hd: "rd32 (drop 14 ?d) 0 = Some 40" "rd32 (drop 14 ?d) 4 = Some (of_nat W)" "rd32 (drop 14 ?d) 8 = Some ?h"
    "rd16 (drop 14 ?d) 14 = Some bpp" "rd32 (drop 14 ?d) 16 = Some 0" "rd32 (drop 14 ?d) 32 = Some 0"
    using hf(2-7) by (simp_all add: rd32_drop [OF k14] rd16_drop [OF k14])
  have shne: "sint ?h \<noteq> - (2 ^ 31)" using sh dim by auto
  have habs: "(if sint ?h < 0 then - sint ?h else sint ?h) = int H" using sh dim by auto
  have pix: "dib_pixel bpp (drop 14 ?d) (unat (40 :: u32))
      (if (0 :: u32) \<noteq> 0 then 0 else if bpp \<le> 8 then push_bit (unat bpp) 1 else 0) (drop 54 ?d) (y * ?S) x
      = Some (px ! (src_row td H y * W + x))" if "y < H" "x < W" for y x
    using that by (rule enc_bmp_pixel [OF bpp px op])
  have cap: "?S * H = 0 \<or> ?S * H \<le> ?S * H" by simp
  obtain s' b where dec: "decode_dib can (drop 14 ?d) (drop 54 ?d) (?S * H) s = Some (s_next s, s')" "wf_bitmaps s'"
      "i < MAX_BITMAPS" "\<not> b_used (s_bmps s ! i)"
      and b: "s_bmps s' = (s_bmps s)[i := b]" "b_used b" "b_handle b = s_next s" "bmp_w b = int W"
      "bmp_h b = int H" "length (bmp_px b) = W * H"
      "\<forall>k < W * H. bmp_px b ! k = px ! (src_row td H (src_row (sint ?h < 0) H (k div W)) * W + k mod W)"
    using decode_dib_image [OF wf nowrap hd order.refl shne sw dim(1,2) habs dim(3,4) bpp8 sl cap pix] by blast
  have "bmp_px b = px"
  proof (rule nth_equalityI)
    fix k assume k: "k < length (bmp_px b)"
    then have "k div W < H" using b(6) by (simp add: less_mult_imp_div_less mult.commute)
    then have "src_row td H (src_row td H (k div W)) = k div W" by (auto simp: src_row_def)
    then show "bmp_px b ! k = px ! k" using b(6,7) k td by simp
  qed (simp add: b(6) px)
  with dec b show ?thesis by blast
qed

text \<open>Filling one free slot with the next handle: what the other handles see.\<close>

lemma bitmap_added:
  assumes wf: "wf_bitmaps s" and wf': "wf_bitmaps s'" and i: "i < MAX_BITMAPS" "\<not> b_used (s_bmps s ! i)"
    and t: "s_bmps s' = (s_bmps s)[i := b]" "b_used b" "b_handle b = s_next s"
  shows "wg_bitmap_pixels (s_next s) s' = Some (bmp_px b, bmp_w b, bmp_h b)"
    and "wg_bitmap_pixels (s_next s) s = None"
    and "h' \<noteq> s_next s \<Longrightarrow> wg_bitmap_pixels h' s' = wg_bitmap_pixels h' s"
proof -
  have at: "s_bmps s' ! i = b" using t(1) i(1) wf_bitmaps_len [OF wf] by simp
  have "find_bitmap (s_next s) s' = Some i"
    using find_bitmap_slot [OF wf' i(1)] at t(2,3) by simp
  then show "wg_bitmap_pixels (s_next s) s' = Some (bmp_px b, bmp_w b, bmp_h b)"
    using at by (simp add: wg_bitmap_pixels_def)
  have "find_bitmap (s_next s) s = None"
  proof (rule ccontr)
    assume "find_bitmap (s_next s) s \<noteq> None"
    then obtain j where "find_bitmap (s_next s) s = Some j" by blast
    note j = find_bitmapD [OF wf this]
    from wf_bitmapsD(3) [OF wf j(1,2)] j(3) show False by simp
  qed
  then show "wg_bitmap_pixels (s_next s) s = None" by (simp add: wg_bitmap_pixels_def)
  assume h': "h' \<noteq> s_next s"
  have "find_bitmap h' s' = find_bitmap h' s"
    unfolding find_bitmap_def t(1) using h' t(3) i(2) by (intro first_idx_update_same) simp
  moreover have "s_bmps s' ! j = s_bmps s ! j" if j: "find_bitmap h' s = Some j" for j
  proof -
    have "j \<noteq> i" using find_bitmapD(2) [OF wf j] i(2) by auto
    then show ?thesis by (simp add: t(1))
  qed
  ultimately show "wg_bitmap_pixels h' s' = wg_bitmap_pixels h' s"
    by (cases "find_bitmap h' s") (simp_all add: wg_bitmap_pixels_def)
qed

lemma bmp_reload:
  assumes wf: "wf_bitmaps s" and nowrap: "s_next s \<noteq> - 1"
    and slot: "fst (alloc_slot can (int W) (int H) s) \<noteq> None"
    and bpp: "bpp = 24 \<or> bpp = 32" and px: "length px = W * H"
    and op: "\<forall>p \<in> set px. if bpp = 24 then ucast (drop_bit 24 p) = (0xFF :: u8) else ucast (drop_bit 24 p) \<noteq> (0 :: u8)"
    and len: "length (enc_bmp bpp td W H px) < 2 ^ 32"
  shows "\<exists>h s'. wg_bitmap_from_bmp_memory can (Some (enc_bmp bpp td W H px)) (of_nat (length (enc_bmp bpp td W H px))) s
      = Some (h, s') \<and> wf_bitmaps s' \<and> wg_bitmap_pixels h s' = Some (px, int W, int H)
    \<and> wg_bitmap_pixels h s = None \<and> (\<forall>h'. h' \<noteq> h \<longrightarrow> wg_bitmap_pixels h' s' = wg_bitmap_pixels h' s)"
proof -
  obtain i s1 where sl: "alloc_slot can (int W) (int H) s = (Some i, s1)"
    using slot by (cases "alloc_slot can (int W) (int H) s") auto
  then have dim: "1 \<le> W" "W \<le> 16384" "1 \<le> H" "H \<le> 16384"
    by (auto simp: alloc_slot_def split: if_splits)
  from enc_bmp_decode [OF wf nowrap sl dim bpp px op] obtain s' b where
    d: "decode_dib can (drop 14 (enc_bmp bpp td W H px)) (drop 54 (enc_bmp bpp td W H px))
        (dib_stride W (unat bpp div 8) * H) s = Some (s_next s, s')" "wf_bitmaps s'"
    and i: "i < MAX_BITMAPS" "\<not> b_used (s_bmps s ! i)"
    and t: "s_bmps s' = (s_bmps s)[i := b]" "b_used b" "b_handle b = s_next s"
    and b: "bmp_w b = int W" "bmp_h b = int H" "bmp_px b = px" by blast
  show ?thesis
    unfolding enc_bmp_start [OF bpp px dim(1,3) len] using d bitmap_added [OF wf d(2) i t] b by auto
qed

text \<open>C35: Writing an image as a 24 or 32-bit BMP, top-down or bottom-up with padded rows, and
  decoding the bytes gives back exactly its pixels under a fresh live handle, and leaves every
  other bitmap as it was (a 24-bit image is opaque; a 32-bit one has no zero alpha, which the
  decoder reads as opaque).\<close>

theorem bmp_roundtrip:
  assumes wf: "wf_bitmaps s" and nowrap: "s_next s \<noteq> - 1"
    and slot: "fst (alloc_slot can (int W) (int H) s) \<noteq> None"
    and bpp: "bpp = 24 \<or> bpp = 32" and px: "length px = W * H"
    and op: "\<forall>p \<in> set px. if bpp = 24 then ucast (drop_bit 24 p) = (0xFF :: u8) else ucast (drop_bit 24 p) \<noteq> (0 :: u8)"
    and len: "length (enc_bmp bpp td W H px) < 2 ^ 32"
  shows "\<exists>h s'. wg_bitmap_from_bmp_memory can (Some (enc_bmp bpp td W H px)) (of_nat (length (enc_bmp bpp td W H px))) s
      = Some (h, s') \<and> wf_bitmaps s' \<and> wg_bitmap_pixels h s' = Some (px, int W, int H)
    \<and> wg_bitmap_pixels h s = None \<and> (\<forall>h'. h' \<noteq> h \<longrightarrow> wg_bitmap_pixels h' s' = wg_bitmap_pixels h' s)"
  by (rule bmp_reload [OF assms])

definition demo_pixels :: "u32 list" where
  "demo_pixels = [0xFF112233, 0x80445566, 0xFF778899, 0x01AABBCC]"

definition demo_file :: "u8 list" where
  "demo_file = enc_bmp 32 False 2 2 demo_pixels"

lemma demo_px:
  "length demo_pixels = 2 * 2"
  "\<forall>p \<in> set demo_pixels. if (32 :: u16) = 24 then ucast (drop_bit 24 p) = (0xFF :: u8)
     else ucast (drop_bit 24 p) \<noteq> (0 :: u8)"
  by code_simp+

lemma demo_bmp: "length demo_file = 70" "rd16 demo_file 28 = Some 32" "rd32 demo_file 22 = Some 2"
  using enc_bmp_length [of 32 demo_pixels 2 2 False] enc_header_fields(4,5) [of 32 False 2 2]
  by (simp_all add: demo_file_def demo_px dib_stride_def enc_bmp_def)

lemma demo_slot: "fst (alloc_slot (\<lambda>_. True) 2 2 bitmap_init) \<noteq> None"
proof -
  have "first_idx (\<lambda>b. \<not> b_used b) (s_bmps bitmap_init) \<noteq> None"
    by (simp add: first_idx_None bitmap_init_def bitmap_zero_def MAX_BITMAPS_def del: not_None_eq)
  then show ?thesis by (auto simp: alloc_slot_def)
qed

lemma demo_next: "s_next bitmap_init \<noteq> - 1"
  by (simp add: bitmap_init_def WG_HBITMAP_BASE_def)

theorem bmp_roundtrip_witness:
  "\<exists>h s'. wg_bitmap_from_bmp_memory (\<lambda>_. True) (Some demo_file) 70 bitmap_init = Some (h, s')
    \<and> wg_bitmap_pixels h s' = Some (demo_pixels, 2, 2)"
proof -
  have "fst (alloc_slot (\<lambda>_. True) (int 2) (int 2) bitmap_init) \<noteq> None" using demo_slot by simp
  from bmp_roundtrip [OF wf_bitmap_init demo_next this _ demo_px, of False]
  show ?thesis using demo_bmp(1) by (auto simp: demo_file_def [symmetric])
qed

theorem bmp_decode_safe_witness:
  "\<exists>h s'. wg_bitmap_from_bmp_memory (\<lambda>_. True) (Some demo_file) 70 bitmap_init = Some (h, s') \<and> wf_bitmaps s'"
  using bmp_decode_safe [OF wf_bitmap_init demo_next, of demo_file "\<lambda>_. True"]
  by (auto simp: demo_bmp)

end
