(* ===== verification/C_Strings.thy ===== *)
theory C_Strings
  imports WG_Prelude
begin

section \<open>C strings\<close>

text \<open>
  The string functions of the C library that the Win32 components use, on the characters before
  the terminator: \<open>tolower\<close>, \<open>strcasecmp\<close>, \<open>strstr\<close>, \<open>strcasestr\<close>, \<open>strrchr\<close> and the copies that
  cut a string at the size of its buffer.
\<close>

definition tolower :: "char \<Rightarrow> char" where
  "tolower c = (let n = of_char c :: nat in if 65 \<le> n \<and> n \<le> 90 then char_of (n + 32) else c)"

definition strcaseeq :: "string \<Rightarrow> string \<Rightarrow> bool" where
  "strcaseeq s t \<longleftrightarrow> map tolower s = map tolower t"

text \<open>The tail of \<open>s\<close> that starts at the first occurrence of \<open>t\<close>.\<close>

fun strstr :: "string \<Rightarrow> string \<Rightarrow> string option" where
  "strstr [] t = (if t = [] then Some [] else None)"
| "strstr (c # s) t = (if take (length t) (c # s) = t then Some (c # s) else strstr s t)"

definition strcasestr :: "string \<Rightarrow> string \<Rightarrow> bool" where
  "strcasestr s t \<longleftrightarrow> strstr (map tolower s) (map tolower t) \<noteq> None"

text \<open>\<open>strncpy\<close> into a buffer of \<open>n\<close> bytes whose last byte is set to the terminator; \<open>snprintf\<close>
  cuts in the same way.\<close>

definition cut :: "nat \<Rightarrow> string \<Rightarrow> string" where
  "cut n s = take (n - 1) s"

text \<open>\<open>%d\<close>: a number printed in decimal.\<close>

fun nat_str :: "nat \<Rightarrow> string" where
  "nat_str n = (if n < 10 then [char_of (48 + n)] else nat_str (n div 10) @ [char_of (48 + n mod 10)])"

declare nat_str.simps [simp del]

definition int_str :: "int \<Rightarrow> string" where
  "int_str i = (if i < 0 then CHR ''-'' # nat_str (nat (- i)) else nat_str (nat i))"

lemma strstr_Some: "strstr s t = Some r \<Longrightarrow> \<exists>p. s = p @ r \<and> take (length t) r = t"
proof (induction s)
  case (Cons c s)
  show ?case
  proof (cases "take (length t) (c # s) = t")
    case True
    with Cons.prems show ?thesis by (metis append_Nil option.inject strstr.simps(2))
  next
    case False
    with Cons.prems have "strstr s t = Some r" by (simp split: if_splits)
    with Cons.IH obtain p where "s = p @ r" "take (length t) r = t" by blast
    then show ?thesis by (metis append_Cons)
  qed
qed (auto split: if_splits)

lemma length_cut: "0 < n \<Longrightarrow> length (cut n s) < n"
  by (simp add: cut_def)

lemma nat_str_length: "n < 10 ^ Suc k \<Longrightarrow> length (nat_str n) \<le> Suc k"
proof (induction k arbitrary: n)
  case 0
  then show ?case by (simp add: nat_str.simps)
next
  case (Suc k)
  show ?case
  proof (cases "n < 10")
    case False
    have "n div 10 < 10 ^ Suc k" using Suc.prems by (simp add: div_less_iff_less_mult)
    from Suc.IH [OF this] show ?thesis using False by (subst nat_str.simps) simp
  qed (simp add: nat_str.simps)
qed

end
