(* ===== verification/Gdi.thy ===== *)
theory Gdi
  imports Bitmap C_Strings
begin

section \<open>Drawing\<close>

text \<open>
  \<open>Sources/Win32/wg_win32_gdi.c\<close>: a table of 32 device contexts on windows and bitmaps, solid
  brushes, filled rectangles, lines, and scaled copies of bitmaps with their alpha.  An \<open>int\<close> is
  an \<^typ>\<open>int\<close> whose overflow is undefined behaviour, an access outside a buffer too.  Text is
  rasterised by the host (Core Text): a parameter \<open>raster\<close> of the operations that draw text gets
  what the code passes to it and returns the new buffer.
\<close>

subsection \<open>State\<close>

definition MAX_DCS :: nat where "MAX_DCS = 32"
definition MAX_BRUSHES :: nat where "MAX_BRUSHES = 64"
definition WG_DC_BASE :: u32 where "WG_DC_BASE = 0x00DC0000"
definition s_next_brush :: u32 where "s_next_brush = 0x00B0000"

record WGDC =
  dc_used :: bool
  dc_handle :: u32
  dc_hwnd :: u32
  dc_is_memdc :: bool
  dc_sel_bitmap :: u32
  dc_text_color :: u32
  dc_bk_color :: u32
  dc_bk_mode :: int
  dc_cur_x :: int
  dc_cur_y :: int
  dc_font_px :: int
  dc_font_bold :: bool
  dc_font_name :: string

record gdi_state =
  g_dcs :: "WGDC list"
  g_next_dc :: u32
  g_brush_used :: "bool list"
  g_brush_color :: "u32 list"
  g_wm :: WGWindowManager
  g_bmps :: bitmap_state

definition dc_zero :: WGDC where
  "dc_zero = \<lparr> dc_used = False, dc_handle = 0, dc_hwnd = 0, dc_is_memdc = False, dc_sel_bitmap = 0,
     dc_text_color = 0, dc_bk_color = 0, dc_bk_mode = 0, dc_cur_x = 0, dc_cur_y = 0, dc_font_px = 0,
     dc_font_bold = False, dc_font_name = [] \<rparr>"

definition gdi_init :: gdi_state where
  "gdi_init = \<lparr> g_dcs = replicate MAX_DCS dc_zero, g_next_dc = WG_DC_BASE,
     g_brush_used = replicate MAX_BRUSHES False, g_brush_color = replicate MAX_BRUSHES 0,
     g_wm = wm_zero, g_bmps = bitmap_init \<rparr>"

definition colorref_to_rgba :: "u32 \<Rightarrow> u32" where
  "colorref_to_rgba cr =
     (let r = cr AND 0xFF; g = drop_bit 8 cr AND 0xFF; b = drop_bit 16 cr AND 0xFF
      in r OR push_bit 8 g OR push_bit 16 b OR push_bit 24 0xFF)"

subsection \<open>Device contexts\<close>

definition find_dc :: "u32 \<Rightarrow> gdi_state \<Rightarrow> nat option" where
  "find_dc hdc g = first_idx (\<lambda>d. dc_used d \<and> dc_handle d = hdc) (g_dcs g)"

text \<open>A write through the pointer \<open>find_dc\<close> returns.\<close>

definition put_dc :: "u32 \<Rightarrow> (WGDC \<Rightarrow> WGDC) \<Rightarrow> gdi_state \<Rightarrow> gdi_state" where
  "put_dc hdc f g =
     (case find_dc hdc g of None \<Rightarrow> g
      | Some i \<Rightarrow> g\<lparr> g_dcs := (g_dcs g)[i := f (g_dcs g ! i)] \<rparr>)"

definition wg_gdi_get_dc :: "u32 \<Rightarrow> gdi_state \<Rightarrow> u32 \<times> gdi_state" where
  "wg_gdi_get_dc hwnd g =
     (case first_idx (\<lambda>d. \<not> dc_used d) (g_dcs g) of None \<Rightarrow> (0, g)
      | Some i \<Rightarrow> (g_next_dc g, g\<lparr> g_dcs := (g_dcs g)[i := (g_dcs g ! i)\<lparr> dc_used := True,
            dc_handle := g_next_dc g, dc_hwnd := hwnd, dc_text_color := 0, dc_bk_color := 0xFFFFFF,
            dc_bk_mode := 2, dc_cur_x := 0, dc_cur_y := 0, dc_font_px := 13, dc_font_bold := False,
            dc_font_name := [] \<rparr>], g_next_dc := g_next_dc g + 1 \<rparr>))"

definition wg_gdi_release_dc :: "u32 \<Rightarrow> gdi_state \<Rightarrow> gdi_state" where
  "wg_gdi_release_dc hdc = put_dc hdc (\<lambda>d. d\<lparr> dc_used := False \<rparr>)"

definition wg_gdi_set_text_color :: "u32 \<Rightarrow> u32 \<Rightarrow> gdi_state \<Rightarrow> gdi_state" where
  "wg_gdi_set_text_color hdc cr = put_dc hdc (\<lambda>d. d\<lparr> dc_text_color := cr \<rparr>)"

definition wg_gdi_set_bk_mode :: "u32 \<Rightarrow> int \<Rightarrow> gdi_state \<Rightarrow> gdi_state" where
  "wg_gdi_set_bk_mode hdc mode = put_dc hdc (\<lambda>d. d\<lparr> dc_bk_mode := mode \<rparr>)"

definition wg_gdi_set_bk_color :: "u32 \<Rightarrow> u32 \<Rightarrow> gdi_state \<Rightarrow> gdi_state" where
  "wg_gdi_set_bk_color hdc cr = put_dc hdc (\<lambda>d. d\<lparr> dc_bk_color := cr \<rparr>)"

definition wg_gdi_move_to :: "u32 \<Rightarrow> int \<Rightarrow> int \<Rightarrow> gdi_state \<Rightarrow> gdi_state" where
  "wg_gdi_move_to hdc x y = put_dc hdc (\<lambda>d. d\<lparr> dc_cur_x := x, dc_cur_y := y \<rparr>)"

definition wg_gdi_select_font :: "u32 \<Rightarrow> int \<Rightarrow> bool \<Rightarrow> string option \<Rightarrow> gdi_state \<Rightarrow> gdi_state" where
  "wg_gdi_select_font hdc px bold name = put_dc hdc (\<lambda>d.
     d\<lparr> dc_font_px := (if px > 0 then px else dc_font_px d), dc_font_bold := bold,
       dc_font_name := (case name of Some s \<Rightarrow> cut 64 s | None \<Rightarrow> []) \<rparr>)"

definition wg_gdi_create_memory_dc :: "gdi_state \<Rightarrow> u32 \<times> gdi_state" where
  "wg_gdi_create_memory_dc g =
     (case first_idx (\<lambda>d. \<not> dc_used d) (g_dcs g) of None \<Rightarrow> (0, g)
      | Some i \<Rightarrow> (g_next_dc g, g\<lparr> g_dcs := (g_dcs g)[i := dc_zero\<lparr> dc_used := True,
            dc_handle := g_next_dc g, dc_is_memdc := True, dc_bk_color := 0xFFFFFF, dc_bk_mode := 2 \<rparr>],
            g_next_dc := g_next_dc g + 1 \<rparr>))"

definition wg_gdi_delete_dc :: "u32 \<Rightarrow> gdi_state \<Rightarrow> gdi_state" where
  "wg_gdi_delete_dc hdc = put_dc hdc (\<lambda>d. d\<lparr> dc_used := False \<rparr>)"

definition wg_gdi_selected_bitmap :: "u32 \<Rightarrow> gdi_state \<Rightarrow> u32" where
  "wg_gdi_selected_bitmap hdc g =
     (case find_dc hdc g of None \<Rightarrow> 0 | Some i \<Rightarrow> dc_sel_bitmap (g_dcs g ! i))"

definition wg_gdi_select_bitmap :: "u32 \<Rightarrow> u32 \<Rightarrow> gdi_state \<Rightarrow> u32 \<times> gdi_state" where
  "wg_gdi_select_bitmap hdc hbitmap g =
     (case find_dc hdc g of None \<Rightarrow> (0, g)
      | Some i \<Rightarrow> (dc_sel_bitmap (g_dcs g ! i), put_dc hdc (\<lambda>d. d\<lparr> dc_sel_bitmap := hbitmap \<rparr>) g))"

subsection \<open>Brushes\<close>

definition wg_gdi_create_solid_brush :: "u32 \<Rightarrow> gdi_state \<Rightarrow> u32 \<times> gdi_state" where
  "wg_gdi_create_solid_brush cr g =
     (case first_idx Not (g_brush_used g) of None \<Rightarrow> (s_next_brush, g)
      | Some i \<Rightarrow> (s_next_brush + of_nat i,
          g\<lparr> g_brush_used := (g_brush_used g)[i := True], g_brush_color := (g_brush_color g)[i := cr] \<rparr>))"

definition wg_gdi_brush_color :: "u32 \<Rightarrow> gdi_state \<Rightarrow> bool \<times> u32" where
  "wg_gdi_brush_color hbrush g =
     (let idx = sint (hbrush - s_next_brush)
      in if 0 \<le> idx \<and> idx < int MAX_BRUSHES \<and> g_brush_used g ! nat idx
         then (True, g_brush_color g ! nat idx) else (False, 0xFFFFFF))"

subsection \<open>Rectangles and lines\<close>

definition addi :: "int \<Rightarrow> int \<Rightarrow> int option" where
  "addi a b = (if in_i32 (a + b) then Some (a + b) else None)"

definition subi :: "int \<Rightarrow> int \<Rightarrow> int option" where
  "subi a b = (if in_i32 (a - b) then Some (a - b) else None)"

definition muli :: "int \<Rightarrow> int \<Rightarrow> int option" where
  "muli a b = (if in_i32 (a * b) then Some (a * b) else None)"

definition fb_get :: "u32 list \<Rightarrow> int \<Rightarrow> u32 option" where
  "fb_get fb i = (if 0 \<le> i \<and> i < int (length fb) then Some (fb ! nat i) else None)"

definition fb_set :: "u32 list \<Rightarrow> int \<Rightarrow> u32 \<Rightarrow> u32 list option" where
  "fb_set fb i v = (if 0 \<le> i \<and> i < int (length fb) then Some (fb[nat i := v]) else None)"

text \<open>The assignment \<open>fb[y * w + x] = v\<close> in 32-bit arithmetic.\<close>

definition store_px :: "int \<Rightarrow> u32 \<Rightarrow> int \<Rightarrow> int \<Rightarrow> u32 list \<Rightarrow> u32 list option" where
  "store_px w v x y fb = do { m \<leftarrow> muli y w; i \<leftarrow> addi m x; fb_set fb i v }"

definition put_px :: "int \<Rightarrow> int \<Rightarrow> u32 \<Rightarrow> int \<Rightarrow> int \<Rightarrow> u32 list \<Rightarrow> u32 list option" where
  "put_px w h rgba x y fb = (if x < 0 \<or> y < 0 \<or> x \<ge> w \<or> y \<ge> h then Some fb else store_px w rgba x y fb)"

fun foldO :: "('a \<Rightarrow> 's \<Rightarrow> 's option) \<Rightarrow> 'a list \<Rightarrow> 's \<Rightarrow> 's option" where
  "foldO f [] s = Some s"
| "foldO f (x # xs) s = do { s \<leftarrow> f x s; foldO f xs s }"

text \<open>A window's buffer is written, and the window marked.\<close>

definition put_client :: "u32 \<Rightarrow> u32 list \<Rightarrow> bool \<Rightarrow> WGWindowManager \<Rightarrow> WGWindowManager" where
  "put_client hwnd fb dirty wm =
     (case wg_wm_find hwnd wm of None \<Rightarrow> wm
      | Some i \<Rightarrow> put_window i ((windows wm ! i)\<lparr> win_client := Some fb,
                     client_dirty := (dirty \<or> client_dirty (windows wm ! i)) \<rparr>) wm)"

definition draw_client ::
    "(int \<Rightarrow> bool) \<Rightarrow> u32 \<Rightarrow> (u32 list \<Rightarrow> int \<Rightarrow> int \<Rightarrow> u32 list option) \<Rightarrow> gdi_state \<Rightarrow> gdi_state option" where
  "draw_client can hwnd f g = do {
     (r, wm) \<leftarrow> wg_wm_get_client can hwnd (g_wm g);
     case r of None \<Rightarrow> Some (g\<lparr> g_wm := wm \<rparr>)
     | Some (fb, w, h) \<Rightarrow> do {
         fb \<leftarrow> f fb w h;
         Some (g\<lparr> g_wm := put_client hwnd fb True wm \<rparr>) } }"

definition fill_loop :: "int \<Rightarrow> int \<Rightarrow> int \<Rightarrow> int \<Rightarrow> u32 \<Rightarrow> u32 list \<Rightarrow> int \<Rightarrow> int \<Rightarrow> u32 list option" where
  "fill_loop l t r b rgba fb w h =
     (let l = max l 0; t = max t 0; r = min r w; b = min b h
      in foldO (\<lambda>y. foldO (\<lambda>x. store_px w rgba x y) [l..r - 1]) [t..b - 1] fb)"

definition wg_gdi_fill_rect ::
    "(int \<Rightarrow> bool) \<Rightarrow> u32 \<Rightarrow> int \<Rightarrow> int \<Rightarrow> int \<Rightarrow> int \<Rightarrow> u32 \<Rightarrow> gdi_state \<Rightarrow> gdi_state option" where
  "wg_gdi_fill_rect can hdc l t r b cr g =
     (case find_dc hdc g of None \<Rightarrow> Some g
      | Some k \<Rightarrow> draw_client can (dc_hwnd (g_dcs g ! k)) (fill_loop l t r b (colorref_to_rgba cr)) g)"

text \<open>One turn of the line loop moves \<open>x0\<close> and \<open>y0\<close> and updates \<open>err\<close>.\<close>

definition line_step :: "int \<Rightarrow> int \<Rightarrow> int \<Rightarrow> int \<Rightarrow> int \<Rightarrow> int \<Rightarrow> int \<Rightarrow> (int \<times> int \<times> int) option" where
  "line_step adx ady sx sy x0 y0 err = do {
     let e2 = err;
     (err, x0) \<leftarrow> (if e2 > - adx then do { err \<leftarrow> subi err ady; x0 \<leftarrow> addi x0 sx; Some (err, x0) }
                   else Some (err, x0));
     (err, y0) \<leftarrow> (if e2 < ady then do { err \<leftarrow> addi err adx; y0 \<leftarrow> addi y0 sy; Some (err, y0) }
                   else Some (err, y0));
     Some (x0, y0, err) }"

partial_function (option) line_loop ::
    "int \<Rightarrow> int \<Rightarrow> u32 \<Rightarrow> int \<Rightarrow> int \<Rightarrow> int \<Rightarrow> int \<Rightarrow> int \<Rightarrow> int \<Rightarrow> int \<Rightarrow> int \<Rightarrow> int \<Rightarrow> u32 list \<Rightarrow> u32 list option" where
  "line_loop w h rgba x1 y1 adx ady sx sy x0 y0 err fb = do {
     fb \<leftarrow> put_px w h rgba x0 y0 fb;
     if x0 = x1 \<and> y0 = y1 then Some fb
     else do {
       (x0, y0, err) \<leftarrow> line_step adx ady sx sy x0 y0 err;
       line_loop w h rgba x1 y1 adx ady sx sy x0 y0 err fb } }"

definition absi :: "int \<Rightarrow> int option" where
  "absi d = (if d < 0 then subi 0 d else Some d)"

definition draw_line :: "u32 \<Rightarrow> int \<Rightarrow> int \<Rightarrow> int \<Rightarrow> int \<Rightarrow> u32 list \<Rightarrow> int \<Rightarrow> int \<Rightarrow> u32 list option" where
  "draw_line rgba x0 y0 x1 y1 fb w h = do {
     dx \<leftarrow> subi x1 x0;
     dy \<leftarrow> subi y1 y0;
     adx \<leftarrow> absi dx;
     ady \<leftarrow> absi dy;
     let sx = (if dx < 0 then - 1 else 1);
     let sy = (if dy < 0 then - 1 else 1);
     let err = (if adx > ady then adx div 2 else - (ady div 2));
     line_loop w h rgba x1 y1 adx ady sx sy x0 y0 err fb }"

definition wg_gdi_line_to :: "(int \<Rightarrow> bool) \<Rightarrow> u32 \<Rightarrow> int \<Rightarrow> int \<Rightarrow> gdi_state \<Rightarrow> gdi_state option" where
  "wg_gdi_line_to can hdc x y g =
     (case find_dc hdc g of None \<Rightarrow> Some g
      | Some k \<Rightarrow> do {
          let dc = g_dcs g ! k;
          (r, wm) \<leftarrow> wg_wm_get_client can (dc_hwnd dc) (g_wm g);
          case r of None \<Rightarrow> Some (g\<lparr> g_wm := wm \<rparr>)
          | Some (fb, w, h) \<Rightarrow> do {
              fb \<leftarrow> draw_line (colorref_to_rgba (dc_text_color dc)) (dc_cur_x dc) (dc_cur_y dc) x y fb w h;
              Some (g\<lparr> g_dcs := (g_dcs g)[k := dc\<lparr> dc_cur_x := x, dc_cur_y := y \<rparr>],
                       g_wm := put_client (dc_hwnd dc) fb True wm \<rparr>) } })"

subsection \<open>Text\<close>

text \<open>What is passed to Core Text: the font, the size, the units, the colours (a background for
  opaque text), the position, and the box of wrapped text.\<close>

record text_run =
  tr_font :: string
  tr_px :: int
  tr_units :: "u16 list"
  tr_fg :: u32
  tr_bg :: "u32 option"
  tr_x :: int
  tr_y :: int
  tr_box :: "(int \<times> int) option"

type_synonym rasteriser = "text_run \<Rightarrow> int \<Rightarrow> int \<Rightarrow> u32 list \<Rightarrow> u32 list"

definition map_font_name :: "string \<Rightarrow> bool \<Rightarrow> string" where
  "map_font_name name bold =
     (let low = map tolower (take 63 name); has = (\<lambda>t. strstr low t \<noteq> None)
      in if has ''courier'' \<or> has ''consol'' \<or> has ''mono''
         then if bold then ''CourierNewPS-BoldMT'' else ''CourierNewPSMT''
         else if has ''times'' \<or> has ''serif''
         then if bold then ''TimesNewRomanPS-BoldMT'' else ''TimesNewRomanPSMT''
         else if has ''arial'' then if bold then ''Arial-BoldMT'' else ''ArialMT''
         else if has ''trebuchet'' then if bold then ''TrebuchetMS-Bold'' else ''TrebuchetMS''
         else if has ''georgia'' then if bold then ''Georgia-Bold'' else ''Georgia''
         else if bold then ''Verdana-Bold'' else ''Verdana'')"

definition dc_px :: "WGDC \<Rightarrow> int" where
  "dc_px d = (if dc_font_px d > 0 then dc_font_px d else 13)"

definition wg_gdi_text_out ::
    "rasteriser \<Rightarrow> (int \<Rightarrow> bool) \<Rightarrow> u32 \<Rightarrow> int \<Rightarrow> int \<Rightarrow> u16 list \<Rightarrow> gdi_state \<Rightarrow> gdi_state option" where
  "wg_gdi_text_out raster can hdc x y units g =
     (case find_dc hdc g of None \<Rightarrow> Some g
      | Some k \<Rightarrow>
          if units = [] then Some g
          else
            let d = g_dcs g ! k;
                run = \<lparr> tr_font = map_font_name (dc_font_name d) (dc_font_bold d), tr_px = dc_px d,
                        tr_units = units, tr_fg = colorref_to_rgba (dc_text_color d),
                        tr_bg = (if dc_bk_mode d = 2 then Some (colorref_to_rgba (dc_bk_color d)) else None),
                        tr_x = x, tr_y = y, tr_box = None \<rparr>
            in draw_client can (dc_hwnd d) (\<lambda>fb w h. Some (raster run w h fb)) g)"

text \<open>Captions drop the mnemonic marker \<open>&\<close> and keep one of a doubled one; \<open>room\<close> is the space
  left in the local array.\<close>

fun strip_amp :: "nat \<Rightarrow> u16 list \<Rightarrow> u16 list" where
  "strip_amp 0 cs = []"
| "strip_amp (Suc room) [] = []"
| "strip_amp (Suc room) (c # cs) =
     (if c = 0x26 then
        (case cs of [] \<Rightarrow> []
         | d # ds \<Rightarrow> if d = 0x26 then 0x26 # strip_amp room ds else strip_amp (Suc room) cs)
      else c # strip_amp room cs)"

definition wg_gdi_text_out_caption ::
    "rasteriser \<Rightarrow> (int \<Rightarrow> bool) \<Rightarrow> u32 \<Rightarrow> int \<Rightarrow> int \<Rightarrow> u16 list \<Rightarrow> gdi_state \<Rightarrow> gdi_state option" where
  "wg_gdi_text_out_caption raster can hdc x y units g =
     wg_gdi_text_out raster can hdc x y (strip_amp 255 units) g"

definition wg_gdi_text_box ::
    "rasteriser \<Rightarrow> (int \<Rightarrow> bool) \<Rightarrow> u32 \<Rightarrow> int \<Rightarrow> int \<Rightarrow> int \<Rightarrow> int \<Rightarrow> u16 list \<Rightarrow> gdi_state \<Rightarrow> gdi_state option" where
  "wg_gdi_text_box raster can hdc x y bw bh units g =
     (case find_dc hdc g of None \<Rightarrow> Some g
      | Some k \<Rightarrow>
          if units = [] \<or> bw \<le> 0 \<or> bh \<le> 0 then Some g
          else do {
            let d = g_dcs g ! k;
            (r, wm) \<leftarrow> wg_wm_get_client can (dc_hwnd d) (g_wm g);
            let g = g\<lparr> g_wm := wm \<rparr>;
            case r of None \<Rightarrow> Some g
            | Some (fb, w, h) \<Rightarrow>
                let clean = strip_amp 511 units
                in if clean = [] then Some g
                   else
                     let run = \<lparr> tr_font = map_font_name (dc_font_name d) (dc_font_bold d), tr_px = dc_px d,
                                 tr_units = clean, tr_fg = colorref_to_rgba (dc_text_color d), tr_bg = None,
                                 tr_x = x, tr_y = y, tr_box = Some (bw, bh) \<rparr>
                     in Some (g\<lparr> g_wm := put_client (dc_hwnd d) (raster run w h fb) True wm \<rparr>) })"

subsection \<open>Copying bitmaps\<close>

text \<open>Where a device context draws: the client buffer of a window, or the bitmap in a slot.\<close>

datatype dc_buf = Client u32 | Bits nat

definition dc_target ::
    "(int \<Rightarrow> bool) \<Rightarrow> u32 \<Rightarrow> gdi_state \<Rightarrow> ((dc_buf \<times> u32 list \<times> int \<times> int \<times> u32) option \<times> gdi_state) option" where
  "dc_target can hdc g =
     (case find_dc hdc g of None \<Rightarrow> Some (None, g)
      | Some k \<Rightarrow>
          let dc = g_dcs g ! k
          in if dc_is_memdc dc
             then Some (map_option (\<lambda>i. let b = s_bmps (g_bmps g) ! i in (Bits i, bmp_px b, bmp_w b, bmp_h b, 0))
                          (find_bitmap (dc_sel_bitmap dc) (g_bmps g)), g)
             else do {
               (r, wm) \<leftarrow> wg_wm_get_client can (dc_hwnd dc) (g_wm g);
               Some (map_option (\<lambda>(fb, cw, ch). (Client (dc_hwnd dc), fb, cw, ch, dc_hwnd dc)) r,
                     g\<lparr> g_wm := wm \<rparr>) })"

definition channel :: "nat \<Rightarrow> u32 \<Rightarrow> u32" where
  "channel k p = drop_bit k p AND 0xFF"

definition blend :: "u32 \<Rightarrow> u32 \<Rightarrow> u32" where
  "blend s d =
     (let a = channel 24 s;
          mix = (\<lambda>k. (channel k s * a + channel k d * (255 - a)) div 255)
      in mix 0 OR push_bit 8 (mix 8) OR push_bit 16 (mix 16) OR push_bit 24 0xFF)"

text \<open>The inner loop body; \<open>src\<close> is \<^term>\<open>None\<close> when the source is the target buffer itself.\<close>

definition blit_px ::
    "u32 list option \<Rightarrow> int \<Rightarrow> int \<Rightarrow> int \<Rightarrow> int \<Rightarrow> int \<Rightarrow> int \<Rightarrow> int \<Rightarrow> int \<Rightarrow> int \<Rightarrow> u32 list \<Rightarrow> u32 list option" where
  "blit_px src src_w tw ddy ssy dx dw sx sw i dst = do {
     ddx \<leftarrow> addi dx i;
     if ddx < 0 \<or> ddx \<ge> tw then Some dst
     else do {
       m \<leftarrow> muli i sw;
       ssx \<leftarrow> addi sx (m div dw);
       if ssx < 0 \<or> ssx \<ge> src_w then Some dst
       else do {
         s \<leftarrow> fb_get (case src of Some b \<Rightarrow> b | None \<Rightarrow> dst) (ssy * src_w + ssx);
         let a = channel 24 s;
         if a = 0xFF then fb_set dst (ddy * tw + ddx) s
         else if a \<noteq> 0 then do {
           d \<leftarrow> fb_get dst (ddy * tw + ddx);
           fb_set dst (ddy * tw + ddx) (blend s d) }
         else Some dst } } }"

definition blit_row ::
    "u32 list option \<Rightarrow> int \<Rightarrow> int \<Rightarrow> int \<Rightarrow> int \<Rightarrow> int \<Rightarrow> int \<Rightarrow> int \<Rightarrow> int \<Rightarrow> int \<Rightarrow> int \<Rightarrow> int \<Rightarrow> int
      \<Rightarrow> int \<Rightarrow> u32 list \<Rightarrow> u32 list option" where
  "blit_row src src_w src_h tw th dx dy dw dh sx sy sw sh j dst = do {
     ddy \<leftarrow> addi dy j;
     if ddy < 0 \<or> ddy \<ge> th then Some dst
     else do {
       m \<leftarrow> muli j sh;
       ssy \<leftarrow> addi sy (m div dh);
       if ssy < 0 \<or> ssy \<ge> src_h then Some dst
       else foldO (blit_px src src_w tw ddy ssy dx dw sx sw) [0..dw - 1] dst } }"

definition put_pixels :: "nat \<Rightarrow> u32 list \<Rightarrow> bitmap_state \<Rightarrow> bitmap_state" where
  "put_pixels i px s = s\<lparr> s_bmps := (s_bmps s)[i := (s_bmps s ! i)\<lparr> bmp_px := px \<rparr>] \<rparr>"

definition put_buf :: "dc_buf \<Rightarrow> u32 list \<Rightarrow> bool \<Rightarrow> gdi_state \<Rightarrow> gdi_state" where
  "put_buf buf dst dirty g =
     (case buf of Client hwnd \<Rightarrow> g\<lparr> g_wm := put_client hwnd dst dirty (g_wm g) \<rparr>
      | Bits i \<Rightarrow> g\<lparr> g_bmps := put_pixels i dst (g_bmps g) \<rparr>)"

text \<open>\<open>slot\<close> is the bitmap the source pointer is the pixels of.\<close>

definition blit_pixels ::
    "(int \<Rightarrow> bool) \<Rightarrow> u32 \<Rightarrow> int \<Rightarrow> int \<Rightarrow> int \<Rightarrow> int \<Rightarrow> nat \<Rightarrow> int \<Rightarrow> int \<Rightarrow> int \<Rightarrow> int \<Rightarrow> int \<Rightarrow> int
      \<Rightarrow> gdi_state \<Rightarrow> gdi_state option" where
  "blit_pixels can hdc_dst dx dy dw dh slot src_w src_h sx sy sw sh g =
     (if dw \<le> 0 \<or> dh \<le> 0 \<or> sw \<le> 0 \<or> sh \<le> 0 then Some g
      else do {
        (t, g) \<leftarrow> dc_target can hdc_dst g;
        case t of None \<Rightarrow> Some g
        | Some (buf, dst, tw, th, win) \<Rightarrow> do {
            let src = (if buf = Bits slot then None else Some (bmp_px (s_bmps (g_bmps g) ! slot)));
            dst \<leftarrow> foldO (blit_row src src_w src_h tw th dx dy dw dh sx sy sw sh) [0..dh - 1] dst;
            Some (put_buf buf dst (win \<noteq> 0) g) } })"

definition wg_gdi_draw_bitmap ::
    "(int \<Rightarrow> bool) \<Rightarrow> u32 \<Rightarrow> int \<Rightarrow> int \<Rightarrow> int \<Rightarrow> int \<Rightarrow> u32 \<Rightarrow> int \<Rightarrow> int \<Rightarrow> int \<Rightarrow> int \<Rightarrow> gdi_state \<Rightarrow> gdi_state option" where
  "wg_gdi_draw_bitmap can hdc_dst dx dy dw dh hbitmap sx sy sw sh g =
     (case find_bitmap hbitmap (g_bmps g) of None \<Rightarrow> Some g
      | Some i \<Rightarrow>
          let b = s_bmps (g_bmps g) ! i;
              sw = (if sw \<le> 0 then bmp_w b else sw);
              sh = (if sh \<le> 0 then bmp_h b else sh);
              dw = (if dw \<le> 0 then sw else dw);
              dh = (if dh \<le> 0 then sh else dh)
          in blit_pixels can hdc_dst dx dy dw dh i (bmp_w b) (bmp_h b) sx sy sw sh g)"

definition wg_gdi_blit ::
    "(int \<Rightarrow> bool) \<Rightarrow> u32 \<Rightarrow> int \<Rightarrow> int \<Rightarrow> int \<Rightarrow> int \<Rightarrow> u32 \<Rightarrow> int \<Rightarrow> int \<Rightarrow> int \<Rightarrow> int \<Rightarrow> gdi_state \<Rightarrow> gdi_state option" where
  "wg_gdi_blit can hdc_dst dx dy dw dh hdc_src sx sy sw sh g =
     (let hbmp = wg_gdi_selected_bitmap hdc_src g
      in if hbmp = 0 then Some g
         else wg_gdi_draw_bitmap can hdc_dst dx dy dw dh hbmp sx sy sw sh g)"

end
