(* ===== verification/Gdi_Draw.thy ===== *)
theory Gdi_Draw
  imports Gdi
begin

section \<open>What drawing does to the pixels\<close>

text \<open>
  Lemmas of the drawing loops of \<open>Gdi\<close>: a loop of single-pixel writes is characterised by the
  set of pixels it writes; the line loop is equal to a closed form of its points; a scaled copy
  writes every pixel of the clipped target rectangle from the pixel its position selects.
\<close>

subsection \<open>Loops over pixels\<close>

lemma foldO_append: "foldO f (xs @ ys) s = foldO f xs s \<bind> foldO f ys"
  by (induction xs arbitrary: s) (simp_all cong: Option.bind_cong)

lemma foldO_Nil: "foldO f [] = Some"
  by (rule ext) simp

lemma foldO_map: "foldO f (map g xs) s = foldO (\<lambda>x. f (g x)) xs s"
  by (induction xs arbitrary: s) (simp_all cong: Option.bind_cong)

lemma foldO_nested: "foldO (\<lambda>y. foldO (f y) xs) ys s = foldO (\<lambda>(y, x). f y x) (List.product ys xs) s"
  by (induction ys arbitrary: s) (simp_all add: foldO_append foldO_map cong: Option.bind_cong)

lemma foldO_skip: "foldO (\<lambda>x s. Some s) xs s = Some s"
  by (induction xs) simp_all

lemma foldO_cong: "(\<And>x s. x \<in> set xs \<Longrightarrow> f x s = g x s) \<Longrightarrow> foldO f xs s = foldO g xs s"
  by (induction xs arbitrary: s) (simp_all cong: Option.bind_cong)

text \<open>One colour written at every active position.\<close>

lemma foldO_const:
  assumes "\<And>p fb. p \<in> set ps \<Longrightarrow> length fb = n \<Longrightarrow> f p fb = Some (if act p then fb[idx p := c] else fb)"
    and "length fb = n"
  shows "\<exists>fb'. foldO f ps fb = Some fb' \<and> length fb' = n
    \<and> (\<forall>k < n. fb' ! k = (if \<exists>p \<in> set ps. act p \<and> idx p = k then c else fb ! k))"
  using assms
proof (induction ps arbitrary: fb)
  case (Cons p ps)
  let ?fb = "if act p then fb[idx p := c] else fb"
  have s: "f p fb = Some ?fb" and l: "length ?fb = n" using Cons.prems(1) [of p fb] Cons.prems(2) by auto
  have "\<And>q fb. q \<in> set ps \<Longrightarrow> length fb = n \<Longrightarrow> f q fb = Some (if act q then fb[idx q := c] else fb)"
    using Cons.prems(1) by simp
  from Cons.IH [OF this l] obtain fb' where fb': "foldO f ps ?fb = Some fb'" "length fb' = n"
    "\<forall>k < n. fb' ! k = (if \<exists>p \<in> set ps. act p \<and> idx p = k then c else ?fb ! k)" by blast
  moreover have "fb' ! k = (if \<exists>q \<in> set (p # ps). act q \<and> idx q = k then c else fb ! k)" if "k < n" for k
    using fb'(3) that Cons.prems(2) by (auto simp: nth_list_update)
  ultimately show ?case using s by (intro exI [of _ fb']) simp
qed simp

text \<open>A value of its own at every active position, each position once.\<close>

lemma foldO_cells:
  assumes "\<And>p fb. p \<in> set ps \<Longrightarrow> length fb = n
      \<Longrightarrow> f p fb = Some (if act p then fb[idx p := v p (fb ! idx p)] else fb)"
    and "distinct ps" and "inj_on idx {p \<in> set ps. act p}" and "length fb = n"
  shows "\<exists>fb'. foldO f ps fb = Some fb' \<and> length fb' = n
    \<and> (\<forall>p \<in> set ps. act p \<and> idx p < n \<longrightarrow> fb' ! idx p = v p (fb ! idx p))
    \<and> (\<forall>k. (\<forall>p \<in> set ps. act p \<longrightarrow> idx p \<noteq> k) \<longrightarrow> fb' ! k = fb ! k)"
  using assms
proof (induction ps arbitrary: fb)
  case (Cons p ps)
  let ?fb = "if act p then fb[idx p := v p (fb ! idx p)] else fb"
  have s: "f p fb = Some ?fb" and l: "length ?fb = n" using Cons.prems(1) [of p fb] Cons.prems(4) by auto
  have r: "\<And>q fb. q \<in> set ps \<Longrightarrow> length fb = n \<Longrightarrow> f q fb = Some (if act q then fb[idx q := v q (fb ! idx q)] else fb)"
    using Cons.prems(1) by simp
  have "inj_on idx {q \<in> set ps. act q}" using Cons.prems(3) by (rule inj_on_subset) auto
  from Cons.IH [OF r _ this l] obtain fb' where fb': "foldO f ps ?fb = Some fb'" "length fb' = n"
    "\<forall>q \<in> set ps. act q \<and> idx q < n \<longrightarrow> fb' ! idx q = v q (?fb ! idx q)"
    "\<forall>k. (\<forall>q \<in> set ps. act q \<longrightarrow> idx q \<noteq> k) \<longrightarrow> fb' ! k = ?fb ! k" using Cons.prems(2) by auto
  have ne: "idx q \<noteq> idx p" if "q \<in> set ps" "act q" "act p" for q
    using Cons.prems(2,3) that by (auto simp: inj_on_def)
  have "fb' ! idx q = v q (fb ! idx q)" if "q \<in> set (p # ps)" "act q" "idx q < n" for q
  proof (cases "q = p")
    case True
    have "fb' ! idx p = ?fb ! idx p" using fb'(4) ne that(2) True by blast
    then show ?thesis using True that Cons.prems(4) by simp
  next
    case False
    then have "q \<in> set ps" using that(1) by simp
    then show ?thesis using fb'(3) ne [of q] that by (cases "act p") auto
  qed
  moreover have "fb' ! k = fb ! k" if "\<forall>q \<in> set (p # ps). act q \<longrightarrow> idx q \<noteq> k" for k
    using that fb'(4) by (cases "act p") auto
  ultimately show ?case using s fb'(1,2) by (intro exI [of _ fb']) auto
qed simp

subsection \<open>Positions\<close>

definition pixel :: "u32 list \<Rightarrow> int \<Rightarrow> int \<Rightarrow> int \<Rightarrow> u32" where
  "pixel fb w x y = fb ! nat (y * w + x)"

definition fb_ok :: "u32 list \<Rightarrow> int \<Rightarrow> int \<Rightarrow> bool" where
  "fb_ok fb w h \<longleftrightarrow> 1 \<le> w \<and> 1 \<le> h \<and> in_i32 (w * h) \<and> length fb = nat (w * h)"

lemma pos_bounds:
  assumes "0 \<le> x" and "x < w" and "0 \<le> y" and "y < (h :: int)"
  shows "0 \<le> y * w" and "0 \<le> y * w + x" and "y * w + x < w * h"
proof -
  show a: "0 \<le> y * w" using assms by simp
  then show "0 \<le> y * w + x" using assms by simp
  have "(y + 1) * w \<le> h * w" using assms by (intro mult_right_mono) auto
  then show "y * w + x < w * h" using assms by (simp add: algebra_simps)
qed

lemma pos_inj:
  assumes "0 \<le> x" and "x < w" and "0 \<le> x'" and "x' < w" and "0 \<le> y" and "0 \<le> y'"
    and e: "nat (y * w + x) = nat (y' * w + x')"
  shows "x = x' \<and> y = (y' :: int)"
proof -
  have "y * w + x = y' * w + x'" using assms by (simp add: eq_nat_nat_iff)
  moreover have "(y * w + x) div w = y" "(y' * w + x') div w = y'" using assms by simp_all
  moreover have "(y * w + x) mod w = x" "(y' * w + x') mod w = x'" using assms by simp_all
  ultimately show ?thesis by metis
qed

lemma fb_set_pos:
  assumes "fb_ok fb w h" and "0 \<le> x" and "x < w" and "0 \<le> y" and "y < h"
  shows "fb_set fb (y * w + x) v = Some (fb[nat (y * w + x) := v])"
    and "fb_get fb (y * w + x) = Some (pixel fb w x y)"
  using pos_bounds [OF assms(2-5)] assms(1) by (simp_all add: fb_set_def fb_get_def fb_ok_def pixel_def)

lemma store_px_pos:
  assumes ok: "fb_ok fb w h" and b: "0 \<le> x" "x < w" "0 \<le> y" "y < h"
  shows "store_px w v x y fb = Some (fb[nat (y * w + x) := v])"
proof -
  note p = pos_bounds [OF b]
  have "in_i32 (y * w)" "in_i32 (y * w + x)" using p b ok unfolding in_i32_def fb_ok_def by linarith+
  then show ?thesis using fb_set_pos(1) [OF ok b] by (simp add: store_px_def muli_def addi_def)
qed

lemma put_px_pos:
  assumes "fb_ok fb w h"
  shows "put_px w h v x y fb
    = Some (if 0 \<le> x \<and> x < w \<and> 0 \<le> y \<and> y < h then fb[nat (y * w + x) := v] else fb)"
  using store_px_pos [OF assms, of x y v] by (simp add: put_px_def)

lemma fb_ok_length: "fb_ok fb w h \<Longrightarrow> length fb' = length fb \<Longrightarrow> fb_ok fb' w h"
  by (simp add: fb_ok_def)

text \<open>Painting a list of points with one colour, clipped to the buffer.\<close>

lemma paint_points:
  assumes ok: "fb_ok fb w h"
  shows "\<exists>fb'. foldO (\<lambda>(x, y). put_px w h c x y) ps fb = Some fb' \<and> fb_ok fb' w h
    \<and> (\<forall>x y. 0 \<le> x \<and> x < w \<and> 0 \<le> y \<and> y < h \<longrightarrow>
          pixel fb' w x y = (if (x, y) \<in> set ps then c else pixel fb w x y))"
proof -
  let ?act = "\<lambda>(x, y). 0 \<le> x \<and> x < w \<and> 0 \<le> y \<and> y < h" and ?idx = "\<lambda>(x, y). nat (y * w + x)"
  have step: "(\<lambda>(x, y). put_px w h c x y) p fb2 = Some (if ?act p then fb2[?idx p := c] else fb2)"
    if "length fb2 = length fb" for p fb2
    using put_px_pos [OF fb_ok_length [OF ok that]] by (cases p) simp
  from foldO_const [of ps "length fb" "\<lambda>(x, y). put_px w h c x y" ?act ?idx c fb, OF step refl]
  obtain fb' where f: "foldO (\<lambda>(x, y). put_px w h c x y) ps fb = Some fb'" "length fb' = length fb"
    "\<forall>k < length fb. fb' ! k = (if \<exists>p \<in> set ps. ?act p \<and> ?idx p = k then c else fb ! k)" by blast
  have "pixel fb' w x y = (if (x, y) \<in> set ps then c else pixel fb w x y)"
    if b: "0 \<le> x" "x < w" "0 \<le> y" "y < h" for x y
  proof -
    have "nat (y * w + x) < length fb" using pos_bounds [OF b] ok by (simp add: fb_ok_def)
    moreover have "(\<exists>p \<in> set ps. ?act p \<and> ?idx p = nat (y * w + x)) \<longleftrightarrow> (x, y) \<in> set ps"
      using pos_inj [OF _ _ b(1,2) _ b(3)] b by fastforce
    ultimately show ?thesis using f(3) by (simp add: pixel_def)
  qed
  then show ?thesis using f(1,2) fb_ok_length [OF ok] by blast
qed

lemma fill_loop_spec:
  assumes ok: "fb_ok fb w h"
  shows "\<exists>fb'. fill_loop l t r b c fb w h = Some fb' \<and> fb_ok fb' w h
    \<and> (\<forall>x y. 0 \<le> x \<and> x < w \<and> 0 \<le> y \<and> y < h \<longrightarrow>
          pixel fb' w x y = (if l \<le> x \<and> x < r \<and> t \<le> y \<and> y < b then c else pixel fb w x y))"
proof -
  let ?xs = "[max l 0..min r w - 1]" and ?ys = "[max t 0..min b h - 1]"
  let ?ps = "map (\<lambda>(y, x). (x, y)) (List.product ?ys ?xs)"
  have same: "store_px w c x y fb2 = put_px w h c x y fb2" if "(y, x) \<in> set (List.product ?ys ?xs)" for x y fb2
    using that by (simp add: put_px_def)
  have "fill_loop l t r b c fb w h = foldO (\<lambda>(y, x). store_px w c x y) (List.product ?ys ?xs) fb"
    by (simp add: fill_loop_def Let_def foldO_nested)
  also have "\<dots> = foldO (\<lambda>(y, x). put_px w h c x y) (List.product ?ys ?xs) fb"
    using same by (intro foldO_cong) auto
  also have "\<dots> = foldO (\<lambda>(x, y). put_px w h c x y) ?ps fb"
    by (simp add: foldO_map case_prod_unfold)
  finally have f: "fill_loop l t r b c fb w h = foldO (\<lambda>(x, y). put_px w h c x y) ?ps fb" .
  have "(x, y) \<in> set ?ps \<longleftrightarrow> l \<le> x \<and> x < r \<and> t \<le> y \<and> y < b" if "0 \<le> x" "x < w" "0 \<le> y" "y < h" for x y
    using that by force
  then show ?thesis using paint_points [OF ok, of c ?ps] unfolding f by fastforce
qed

subsection \<open>Lines\<close>

text \<open>The closed form: on the axis with the larger distance the points are consecutive, on the
  other one they are the nearest integers to the ideal line.\<close>

definition minor :: "int \<Rightarrow> int \<Rightarrow> int \<Rightarrow> int" where
  "minor m b k = - ((m div 2 - k * b) div m)"

definition ref_line :: "int \<Rightarrow> int \<Rightarrow> int \<Rightarrow> int \<Rightarrow> (int \<times> int) list" where
  "ref_line x0 y0 x1 y1 =
     (let adx = \<bar>x1 - x0\<bar>; ady = \<bar>y1 - y0\<bar>; sx = (if x1 < x0 then - 1 else 1); sy = (if y1 < y0 then - 1 else 1)
      in if ady < adx then map (\<lambda>k. (x0 + sx * k, y0 + sy * minor adx ady k)) [0..adx]
         else map (\<lambda>k. (x0 + sx * minor ady adx k, y0 + sy * k)) [0..ady])"

lemma div_mod_sub:
  fixes a b m :: int
  assumes "0 \<le> b" and "b \<le> m" and "0 < m"
  shows "(a - b) div m = (if b \<le> a mod m then a div m else a div m - 1)"
    and "(a - b) mod m = (if b \<le> a mod m then a mod m - b else a mod m - b + m)"
proof -
  let ?q = "if b \<le> a mod m then a div m else a div m - 1" and ?r = "if b \<le> a mod m then a mod m - b else a mod m - b + m"
  have e: "a - b = m * ?q + ?r" using mult_div_mod_eq [of m a] by (simp add: algebra_simps)
  have "0 \<le> a mod m" "a mod m < m" using assms(3) by simp_all
  then have r: "0 \<le> ?r" "?r < m" using assms by (auto simp del: pos_mod_sign pos_mod_bound)
  show "(a - b) div m = ?q" using e r by (rule int_div_pos_eq)
  show "(a - b) mod m = ?r" using e r by (rule int_mod_pos_eq)
qed

lemma minor_Suc:
  assumes "0 \<le> b" and "b \<le> m" and "0 < m"
  shows "minor m b (k + 1) = minor m b k + (if b \<le> (m div 2 - k * b) mod m then 0 else 1)"
    and "(m div 2 - (k + 1) * b) mod m = (m div 2 - k * b) mod m - b + (if b \<le> (m div 2 - k * b) mod m then 0 else m)"
  using div_mod_sub [OF assms, of "m div 2 - k * b"] by (simp_all add: minor_def algebra_simps)

lemma minor_ends: "0 \<le> b \<Longrightarrow> 0 \<le> m \<Longrightarrow> minor m b 0 = 0" "0 < m \<Longrightarrow> minor m b m = b"
proof -
  show "minor m b 0 = 0" if "0 \<le> m" using that by (cases "m = 0") (simp_all add: minor_def div_pos_pos_trivial)
  show "minor m b m = b" if "0 < m"
  proof -
    have "m div 2 - m * b = m * (- b) + m div 2" by simp
    moreover have "0 \<le> m div 2" "m div 2 < m" using that by simp_all
    ultimately have "(m div 2 - m * b) div m = - b" by (rule int_div_pos_eq)
    then show ?thesis by (simp add: minor_def)
  qed
qed

lemma minor_near:
  assumes m: "0 < m"
  shows "\<bar>2 * (m * minor m b k - k * b)\<bar> \<le> m"
proof -
  define P where "P = m * ((m div 2 - k * b) div m)"
  define r where "r = (m div 2 - k * b) mod m"
  have "P + r = m div 2 - k * b" by (simp add: P_def r_def)
  moreover have "0 \<le> r" "r < m" using m by (simp_all add: r_def)
  moreover have "2 * (m div 2) \<le> m" "m \<le> 2 * (m div 2) + 1" by presburger+
  moreover have "m * minor m b k = - P" by (simp add: minor_def P_def)
  ultimately have "2 * (m * minor m b k - k * b) = 2 * r - 2 * (m div 2)"
    "2 * r - 2 * (m div 2) \<le> m" "- m \<le> 2 * r - 2 * (m div 2)" by auto
  then show ?thesis by (simp only: abs_le_iff) auto
qed

text \<open>One turn of the loop in either direction.\<close>

lemma line_step_x:
  assumes d: "0 \<le> ady" "ady < adx" "adx \<le> 2 ^ 30" and s: "in_i32 (x + sx)" "in_i32 (y + sy)"
    and e: "err = (adx div 2 - k * ady) mod adx"
  shows "line_step adx ady sx sy x y err =
    Some (x + sx, if err < ady then y + sy else y, (adx div 2 - (k + 1) * ady) mod adx)"
proof -
  have r: "0 \<le> err" "err < adx" using d by (simp_all add: e)
  then have "in_i32 (err - ady)" "in_i32 (err - ady + adx)" using d by (auto simp: in_i32_def)
  then show ?thesis
    using r d s minor_Suc(2) [of ady adx k] unfolding e [symmetric] by (simp add: line_step_def subi_def addi_def)
qed

lemma line_step_y:
  assumes d: "0 \<le> adx" "adx \<le> ady" "0 < ady" "ady \<le> 2 ^ 30" and s: "in_i32 (x + sx)" "in_i32 (y + sy)"
    and e: "err = (ady div 2 - k * adx) mod ady"
  shows "line_step adx ady sx sy x y (- err) =
    Some (if err < adx then x + sx else x, y + sy, - ((ady div 2 - (k + 1) * adx) mod ady))"
proof -
  have r: "0 \<le> err" "err < ady" using d by (simp_all add: e)
  then have "in_i32 (- err - ady)" "in_i32 (- err - ady + adx)" "in_i32 (- err + adx)" using d by (auto simp: in_i32_def)
  then show ?thesis
    using r d s minor_Suc(2) [of adx ady k] unfolding e [symmetric]
    by (cases "err < adx") (simp_all add: line_step_def subi_def addi_def algebra_simps)
qed

lemma minor_range:
  assumes "0 \<le> b" and "b \<le> m" and "0 < m"
  shows "0 \<le> minor m b (int k) \<and> minor m b (int k) \<le> int k"
proof (induction k)
  case 0
  then show ?case using minor_ends(1) [of b m] assms by simp
next
  case (Suc k)
  have e: "int (Suc k) = int k + 1" by simp
  show ?case unfolding e using minor_Suc(1) [OF assms, of "int k"] Suc by (simp split: if_splits)
qed

lemma line_loop_x:
  assumes d: "0 \<le> ady" "ady < adx" "adx \<le> 2 ^ 30" and s: "sx = 1 \<or> sx = - 1" "sy = 1 \<or> sy = - 1"
    and b: "\<bar>x0\<bar> \<le> 2 ^ 29" "\<bar>y0\<bar> \<le> 2 ^ 29" and e: "x1 = x0 + sx * adx" "y1 = y0 + sy * ady"
    and k: "k \<le> nat adx"
  shows "line_loop w h c x1 y1 adx ady sx sy (x0 + sx * int k) (y0 + sy * minor adx ady (int k))
      ((adx div 2 - int k * ady) mod adx) fb
    = foldO (\<lambda>(x, y). put_px w h c x y) (map (\<lambda>k. (x0 + sx * k, y0 + sy * minor adx ady k)) [int k..adx]) fb"
  using k
proof (induction "nat adx - k" arbitrary: k fb)
  case 0
  then have k: "int k = adx" using d by simp
  have "minor adx ady adx = ady" using minor_ends(2) d by simp
  then show ?case by (subst line_loop.simps) (simp add: k e foldO_Nil)
next
  case (Suc n)
  then have lt: "int k < adx" by simp
  have u: "[int k..adx] = int k # [int (Suc k)..adx]" using lt upto_rec1 [of "int k" adx] by (simp add: add.commute)
  have ne: "x0 + sx * int k \<noteq> x1" using lt s e by auto
  let ?m = "minor adx ady (int k)" and ?err = "(adx div 2 - int k * ady) mod adx"
  note r = minor_range [of ady adx k]
  have "in_i32 (x0 + sx * int k + sx)" "in_i32 (y0 + sy * ?m + sy)"
    using s b lt d r by (auto simp: in_i32_def)
  note st = line_step_x [OF d this refl]
  have x: "x0 + sx * int k + sx = x0 + sx * int (Suc k)" by (simp add: algebra_simps)
  have y: "(if ?err < ady then y0 + sy * ?m + sy else y0 + sy * ?m) = y0 + sy * minor adx ady (int (Suc k))"
    using minor_Suc(1) [of ady adx "int k"] d by (simp add: algebra_simps)
  have k1: "int k + 1 = int (Suc k)" by simp
  have IH: "line_loop w h c x1 y1 adx ady sx sy (x0 + sx * int (Suc k)) (y0 + sy * minor adx ady (int (Suc k)))
      ((adx div 2 - int (Suc k) * ady) mod adx) fb
    = foldO (\<lambda>(x, y). put_px w h c x y) (map (\<lambda>k. (x0 + sx * k, y0 + sy * minor adx ady k)) [int (Suc k)..adx]) fb" for fb
    using Suc.hyps(2) by (intro Suc.hyps(1)) auto
  show ?case
    unfolding u list.map foldO.simps prod.case
    by (subst line_loop.simps) (simp only: ne st x y k1 IH if_False simp_thms bind.bind_lunit prod.case cong: Option.bind_cong)
qed

lemma line_loop_y:
  assumes d: "0 \<le> adx" "adx \<le> ady" "ady \<le> 2 ^ 30" and s: "sx = 1 \<or> sx = - 1" "sy = 1 \<or> sy = - 1"
    and b: "\<bar>x0\<bar> \<le> 2 ^ 29" "\<bar>y0\<bar> \<le> 2 ^ 29" and e: "x1 = x0 + sx * adx" "y1 = y0 + sy * ady"
    and k: "k \<le> nat ady"
  shows "line_loop w h c x1 y1 adx ady sx sy (x0 + sx * minor ady adx (int k)) (y0 + sy * int k)
      (- ((ady div 2 - int k * adx) mod ady)) fb
    = foldO (\<lambda>(x, y). put_px w h c x y) (map (\<lambda>k. (x0 + sx * minor ady adx k, y0 + sy * k)) [int k..ady]) fb"
  using k
proof (induction "nat ady - k" arbitrary: k fb)
  case 0
  then have k: "int k = ady" using d by simp
  have "minor ady adx ady = adx" using minor_ends [of adx ady] minor_ends(2) [of ady adx] d by (cases "ady = 0") auto
  then show ?case by (subst line_loop.simps) (simp add: k e foldO_Nil)
next
  case (Suc n)
  then have lt: "int k < ady" by simp
  have u: "[int k..ady] = int k # [int (Suc k)..ady]" using lt upto_rec1 [of "int k" ady] by (simp add: add.commute)
  have ne: "y0 + sy * int k \<noteq> y1" using lt s e by auto
  let ?m = "minor ady adx (int k)" and ?err = "(ady div 2 - int k * adx) mod ady"
  note r = minor_range [of adx ady k]
  have ady: "0 < ady" using lt by simp
  have "in_i32 (x0 + sx * ?m + sx)" "in_i32 (y0 + sy * int k + sy)"
    using s b lt d r by (auto simp: in_i32_def)
  note st = line_step_y [OF d(1,2) ady d(3) this refl]
  have y: "y0 + sy * int k + sy = y0 + sy * int (Suc k)" by (simp add: algebra_simps)
  have x: "(if ?err < adx then x0 + sx * ?m + sx else x0 + sx * ?m) = x0 + sx * minor ady adx (int (Suc k))"
    using minor_Suc(1) [of adx ady "int k"] d ady by (simp add: algebra_simps)
  have k1: "int k + 1 = int (Suc k)" by simp
  have IH: "line_loop w h c x1 y1 adx ady sx sy (x0 + sx * minor ady adx (int (Suc k))) (y0 + sy * int (Suc k))
      (- ((ady div 2 - int (Suc k) * adx) mod ady)) fb
    = foldO (\<lambda>(x, y). put_px w h c x y) (map (\<lambda>k. (x0 + sx * minor ady adx k, y0 + sy * k)) [int (Suc k)..ady]) fb" for fb
    using Suc.hyps(2) by (intro Suc.hyps(1)) auto
  show ?case
    unfolding u list.map foldO.simps prod.case
    by (subst line_loop.simps) (simp only: ne st x y k1 IH if_False simp_thms bind.bind_lunit prod.case cong: Option.bind_cong)
qed

lemma draw_line_ref:
  assumes b: "\<bar>x0\<bar> \<le> 2 ^ 29" "\<bar>y0\<bar> \<le> 2 ^ 29" "\<bar>x1\<bar> \<le> 2 ^ 29" "\<bar>y1\<bar> \<le> 2 ^ 29"
  shows "draw_line c x0 y0 x1 y1 fb w h = foldO (\<lambda>(x, y). put_px w h c x y) (ref_line x0 y0 x1 y1) fb"
proof -
  let ?adx = "\<bar>x1 - x0\<bar>" and ?ady = "\<bar>y1 - y0\<bar>"
  let ?sx = "if x1 < x0 then - 1 else 1 :: int" and ?sy = "if y1 < y0 then - 1 else 1 :: int"
  have s: "?sx = 1 \<or> ?sx = - 1" "?sy = 1 \<or> ?sy = - 1" by auto
  have e: "x1 = x0 + ?sx * ?adx" "y1 = y0 + ?sy * ?ady" by auto
  have m: "?adx \<le> 2 ^ 30" "?ady \<le> 2 ^ 30" using b by auto
  have a: "absi (x1 - x0) = Some ?adx" "absi (y1 - y0) = Some ?ady"
    "subi x1 x0 = Some (x1 - x0)" "subi y1 y0 = Some (y1 - y0)"
    using b by (auto simp: absi_def subi_def in_i32_def)
  have sg: "(if x1 - x0 < 0 then - 1 else 1) = ?sx" "(if y1 - y0 < 0 then - 1 else 1) = ?sy" by simp_all
  have st: "draw_line c x0 y0 x1 y1 fb w h = line_loop w h c x1 y1 ?adx ?ady ?sx ?sy x0 y0
      (if ?ady < ?adx then ?adx div 2 else - (?ady div 2)) fb"
    unfolding draw_line_def Let_def by (simp only: a sg bind.bind_lunit)
  show ?thesis
  proof (cases "?ady < ?adx")
    case True
    have z: "minor ?adx ?ady 0 = 0" "?adx div 2 mod ?adx = ?adx div 2"
      using minor_ends(1) [of ?ady ?adx] True by (simp_all add: mod_pos_pos_trivial)
    show ?thesis
      using line_loop_x [OF _ True m(1) s b(1,2) e, of 0 w h c fb] True z unfolding st
      by (simp add: ref_line_def Let_def)
  next
    case False
    have z: "minor ?ady ?adx 0 = 0" "?ady div 2 mod ?ady = ?ady div 2"
      using minor_ends(1) [of ?adx ?ady] by (cases "?ady = 0"; simp add: mod_pos_pos_trivial)+
    show ?thesis
      using line_loop_y [OF _ _ m(2) s b(1,2) e, of 0 w h c fb] False z unfolding st
      by (simp add: ref_line_def Let_def)
  qed
qed

text \<open>The closed form joins the two ends with as many points as the larger distance, each within
  half a pixel of the ideal line (as a cross product).\<close>

lemma ref_line_ends:
  "length (ref_line x0 y0 x1 y1) = nat (max \<bar>x1 - x0\<bar> \<bar>y1 - y0\<bar>) + 1"
  "hd (ref_line x0 y0 x1 y1) = (x0, y0)" "last (ref_line x0 y0 x1 y1) = (x1, y1)"
proof -
  have u: "[0..n] = 0 # [1..n]" "[0..n] = [0..n - 1] @ [n]" if "0 \<le> n" for n :: int
    using that upto_rec1 [of 0 n] upto_rec2 [of 0 n] by simp_all
  show "length (ref_line x0 y0 x1 y1) = nat (max \<bar>x1 - x0\<bar> \<bar>y1 - y0\<bar>) + 1"
    by (auto simp: ref_line_def Let_def)
  have "minor \<bar>x1 - x0\<bar> \<bar>y1 - y0\<bar> 0 = 0" "minor \<bar>y1 - y0\<bar> \<bar>x1 - x0\<bar> 0 = 0"
    by (simp_all add: minor_ends(1))
  then show "hd (ref_line x0 y0 x1 y1) = (x0, y0)"
    by (simp add: ref_line_def Let_def u(1))
  have "minor \<bar>x1 - x0\<bar> \<bar>y1 - y0\<bar> \<bar>x1 - x0\<bar> = \<bar>y1 - y0\<bar>" if "\<bar>y1 - y0\<bar> < \<bar>x1 - x0\<bar>"
    using that by (intro minor_ends(2)) linarith
  moreover have "minor \<bar>y1 - y0\<bar> \<bar>x1 - x0\<bar> \<bar>y1 - y0\<bar> = \<bar>x1 - x0\<bar>" if "\<not> \<bar>y1 - y0\<bar> < \<bar>x1 - x0\<bar>"
    using that minor_ends(2) [of "\<bar>y1 - y0\<bar>" "\<bar>x1 - x0\<bar>"] minor_ends(1) [of 0 0] by (cases "\<bar>y1 - y0\<bar> = 0") auto
  ultimately show "last (ref_line x0 y0 x1 y1) = (x1, y1)"
    by (auto simp: ref_line_def Let_def u(2))
qed

lemma cross_abs:
  fixes a b :: int
  assumes "a = 1 \<or> a = - 1" and "b = 1 \<or> b = - 1"
  shows "2 * \<bar>(a * k) * (b * v) - (b * m) * (a * u)\<bar> = \<bar>2 * (u * m - k * v)\<bar>"
proof -
  have "(a * k) * (b * v) - (b * m) * (a * u) = (a * b) * (k * v - u * m)" by (simp add: algebra_simps)
  moreover have "\<bar>a * b\<bar> = 1" using assms by auto
  ultimately have "\<bar>(a * k) * (b * v) - (b * m) * (a * u)\<bar> = \<bar>k * v - u * m\<bar>" by (simp add: abs_mult)
  then show ?thesis
    using abs_minus_commute [of "k * v" "u * m"] abs_mult [of 2 "u * m - k * v"] by (simp only: abs_numeral)
qed

lemma ref_line_near:
  assumes "(x, y) \<in> set (ref_line x0 y0 x1 y1)"
  shows "2 * \<bar>(x - x0) * (y1 - y0) - (y - y0) * (x1 - x0)\<bar> \<le> max \<bar>x1 - x0\<bar> \<bar>y1 - y0\<bar>"
proof -
  let ?dx = "x1 - x0" and ?dy = "y1 - y0"
  let ?sx = "if x1 < x0 then - 1 else 1 :: int" and ?sy = "if y1 < y0 then - 1 else 1 :: int"
  have sg: "?dx = ?sx * \<bar>?dx\<bar>" "?dy = ?sy * \<bar>?dy\<bar>" and s: "?sx = 1 \<or> ?sx = - 1" "?sy = 1 \<or> ?sy = - 1" by auto
  show ?thesis
  proof (cases "\<bar>?dy\<bar> < \<bar>?dx\<bar>")
    case True
    with assms obtain k where k: "x - x0 = ?sx * k" "y - y0 = ?sy * minor \<bar>?dx\<bar> \<bar>?dy\<bar> k"
      by (auto simp: ref_line_def Let_def split: if_splits)
    have "\<bar>2 * (\<bar>?dx\<bar> * minor \<bar>?dx\<bar> \<bar>?dy\<bar> k - k * \<bar>?dy\<bar>)\<bar> \<le> \<bar>?dx\<bar>" using True by (intro minor_near) linarith
    moreover have "2 * \<bar>(x - x0) * ?dy - (y - y0) * ?dx\<bar> = \<bar>2 * (\<bar>?dx\<bar> * minor \<bar>?dx\<bar> \<bar>?dy\<bar> k - k * \<bar>?dy\<bar>)\<bar>"
      using cross_abs [OF s, of k "\<bar>?dy\<bar>" "minor \<bar>?dx\<bar> \<bar>?dy\<bar> k" "\<bar>?dx\<bar>"] unfolding k sg [symmetric] .
    ultimately show ?thesis using max.cobounded1 order_trans by metis
  next
    case False
    with assms obtain k where k: "y - y0 = ?sy * k" "x - x0 = ?sx * minor \<bar>?dy\<bar> \<bar>?dx\<bar> k"
      by (auto simp: ref_line_def Let_def split: if_splits)
    show ?thesis
    proof (cases "?dy = 0")
      case True
      then show ?thesis using False by simp
    next
      case nz: False
      have "\<bar>2 * (\<bar>?dy\<bar> * minor \<bar>?dy\<bar> \<bar>?dx\<bar> k - k * \<bar>?dx\<bar>)\<bar> \<le> \<bar>?dy\<bar>" using nz by (intro minor_near) linarith
      moreover have "2 * \<bar>(y - y0) * ?dx - (x - x0) * ?dy\<bar> = \<bar>2 * (\<bar>?dy\<bar> * minor \<bar>?dy\<bar> \<bar>?dx\<bar> k - k * \<bar>?dx\<bar>)\<bar>"
        using cross_abs [OF s(2,1), of k "\<bar>?dx\<bar>" "minor \<bar>?dy\<bar> \<bar>?dx\<bar> k" "\<bar>?dy\<bar>"] unfolding k sg [symmetric] .
      moreover note abs_minus_commute [of "(y - y0) * ?dx" "(x - x0) * ?dy"]
      ultimately show ?thesis using max.cobounded2 order_trans by metis
    qed
  qed
qed

subsection \<open>The state around the drawing\<close>

text \<open>The client buffer a handle shows and its size.\<close>

definition client_view :: "u32 \<Rightarrow> WGWindowManager \<Rightarrow> (u32 list \<times> int \<times> int) option" where
  "client_view hwnd wm =
     (case wg_wm_find hwnd wm of None \<Rightarrow> None
      | Some i \<Rightarrow> map_option (\<lambda>fb. (fb, client_w (windows wm ! i), client_h (windows wm ! i)))
                    (win_client (windows wm ! i)))"

definition wf_gdi :: "gdi_state \<Rightarrow> bool" where
  "wf_gdi g \<longleftrightarrow> length (g_dcs g) = MAX_DCS \<and> length (g_brush_used g) = MAX_BRUSHES
     \<and> length (g_brush_color g) = MAX_BRUSHES \<and> wf_wm (g_wm g) \<and> wf_bitmaps (g_bmps g)"

lemma get_client_view:
  assumes wf: "wf_wm wm" and g: "wg_wm_get_client can hwnd wm = Some (Some (fb, w, h), wm')"
  shows "client_view hwnd wm' = Some (fb, w, h)" and "wf_wm wm'" and "fb_ok fb w h"
    and "h' \<noteq> hwnd \<Longrightarrow> client_view h' wm' = client_view h' wm"
proof -
  note sp = get_client_spec [OF wf g]
  from sp(4) [OF refl] obtain i where i: "wg_wm_find hwnd wm = Some i" "i < length (windows wm')"
    "win_client (windows wm' ! i) = Some fb" "client_w (windows wm' ! i) = w" "client_h (windows wm' ! i) = h"
    "1 \<le> w" "1 \<le> h" "in_i32 (w * h)" "length fb = nat (w * h)" by blast
  show "client_view hwnd wm' = Some (fb, w, h)" using i sp(3) by (simp add: client_view_def)
  show "wf_wm wm'" by (rule sp(1))
  show "fb_ok fb w h" using i by (simp add: fb_ok_def)
  assume ne: "h' \<noteq> hwnd"
  have hi: "win_handle (windows wm ! i) = hwnd" and il: "i < length (windows wm)"
    using find_handle [OF i(1)] find_lt [OF i(1)] by simp_all
  show "client_view h' wm' = client_view h' wm"
  proof (cases "win_client (windows wm ! i)")
    case (Some b)
    then have "windows wm' = windows wm" using g i(1) by (auto simp: wg_wm_get_client_def Let_def)
    then show ?thesis by (auto simp: client_view_def wg_wm_find_def split: option.splits)
  next
    case None
    let ?u = "(windows wm ! i)\<lparr> win_client := Some fb, client_w := w, client_h := h, client_dirty := True \<rparr>"
    have w: "windows wm' = (windows wm)[i := ?u]" "win_handle ?u = hwnd"
      using g i(1) None hi by (auto simp: wg_wm_get_client_def Let_def split: if_splits prod.splits)
    have f: "wg_wm_find h' wm' = wg_wm_find h' wm"
      unfolding wg_wm_find_def w(1) using ne hi w(2) by (intro first_idx_update_same) simp
    moreover have "j \<noteq> i" if "wg_wm_find h' wm = Some j" for j using find_handle [OF that] hi ne by auto
    ultimately show ?thesis by (auto simp: client_view_def w(1) split: option.splits)
  qed
qed

lemma put_client_view:
  assumes wf: "wf_wm wm" and v: "client_view hwnd wm = Some (fb, w, h)" and l: "fb_ok fb' w h"
  shows "client_view hwnd (put_client hwnd fb' dirty wm) = Some (fb', w, h)" and "wf_wm (put_client hwnd fb' dirty wm)"
    and "h' \<noteq> hwnd \<Longrightarrow> client_view h' (put_client hwnd fb' dirty wm) = client_view h' wm"
proof -
  from v obtain i where i: "wg_wm_find hwnd wm = Some i" and c: "win_client (windows wm ! i) = Some fb"
    "client_w (windows wm ! i) = w" "client_h (windows wm ! i) = h"
    by (auto simp: client_view_def split: option.splits)
  note il = find_lt [OF i] and ih = find_handle [OF i]
  let ?u = "(windows wm ! i)\<lparr> win_client := Some fb', client_dirty := (dirty \<or> client_dirty (windows wm ! i)) \<rparr>"
  have p: "put_client hwnd fb' dirty wm = put_window i ?u wm" using i by (simp add: put_client_def)
  have f: "wg_wm_find h' (put_window i ?u wm) = wg_wm_find h' wm" for h'
    unfolding wg_wm_find_def put_window_sel by (rule first_idx_update_same) simp
  show "client_view hwnd (put_client hwnd fb' dirty wm) = Some (fb', w, h)"
    unfolding p client_view_def f using i il c by simp
  show "wf_wm (put_client hwnd fb' dirty wm)"
    unfolding p using wf_at [OF wf il] c l by (intro wf_put_window [OF wf il]) (simp_all add: wf_window_def fb_ok_def)
  assume ne: "h' \<noteq> hwnd"
  have "j \<noteq> i" if "wg_wm_find h' wm = Some j" for j using find_handle [OF that] ih ne by auto
  then show "client_view h' (put_client hwnd fb' dirty wm) = client_view h' wm"
    unfolding p client_view_def f by (auto split: option.splits)
qed

lemma find_dc_lt: "wf_gdi g \<Longrightarrow> find_dc hdc g = Some k \<Longrightarrow> k < MAX_DCS"
  and find_dc_handle: "find_dc hdc g = Some k \<Longrightarrow> dc_used (g_dcs g ! k) \<and> dc_handle (g_dcs g ! k) = hdc"
  by (auto simp: find_dc_def wf_gdi_def dest: first_idx_lt first_idx_holds)

text \<open>A device context on a window whose buffer can be had: what its window shows.\<close>

definition dc_client :: "(int \<Rightarrow> bool) \<Rightarrow> u32 \<Rightarrow> gdi_state \<Rightarrow> (nat \<times> u32 list \<times> int \<times> int) option" where
  "dc_client can hdc g =
     (case find_dc hdc g of None \<Rightarrow> None
      | Some k \<Rightarrow> (case wg_wm_get_client can (dc_hwnd (g_dcs g ! k)) (g_wm g) of
                    Some (Some (fb, w, h), _) \<Rightarrow> Some (k, fb, w, h) | _ \<Rightarrow> None))"

lemma dc_clientD:
  assumes "dc_client can hdc g = Some (k, fb, w, h)"
  obtains wm where "find_dc hdc g = Some k"
    and "wg_wm_get_client can (dc_hwnd (g_dcs g ! k)) (g_wm g) = Some (Some (fb, w, h), wm)"
  using assms by (auto simp: dc_client_def split: option.splits prod.splits)

lemma wf_gdi_dcs: "wf_gdi g \<Longrightarrow> length (g_dcs g) = MAX_DCS"
  and wf_gdi_wm: "wf_gdi g \<Longrightarrow> wf_wm (g_wm g)"
  and wf_gdi_bmps: "wf_gdi g \<Longrightarrow> wf_bitmaps (g_bmps g)"
  by (simp_all add: wf_gdi_def)

lemma wf_gdi_upd:
  "wf_gdi g \<Longrightarrow> wf_wm wm \<Longrightarrow> wf_gdi (g\<lparr> g_wm := wm \<rparr>)"
  "wf_gdi g \<Longrightarrow> wf_bitmaps b \<Longrightarrow> wf_gdi (g\<lparr> g_bmps := b \<rparr>)"
  "wf_gdi g \<Longrightarrow> length ds = MAX_DCS \<Longrightarrow> wf_gdi (g\<lparr> g_dcs := ds \<rparr>)"
  by (simp_all add: wf_gdi_def)

text \<open>What \<open>wg_wm_get_client\<close> and the write-back of a drawn buffer do to the table.\<close>

lemma drawn_client:
  assumes wf: "wf_gdi g" and gc: "wg_wm_get_client can hwnd (g_wm g) = Some (Some (fb, w, h), wm)"
    and ok: "fb_ok fb' w h"
  shows "wf_wm (put_client hwnd fb' dirty wm)"
    and "client_view hwnd (put_client hwnd fb' dirty wm) = Some (fb', w, h)"
    and "h' \<noteq> hwnd \<Longrightarrow> client_view h' (put_client hwnd fb' dirty wm) = client_view h' (g_wm g)"
proof -
  note v = get_client_view [OF wf_gdi_wm [OF wf] gc]
  note p = put_client_view [OF v(2,1) ok, where dirty = dirty]
  show "wf_wm (put_client hwnd fb' dirty wm)" by (rule p(2))
  show "client_view hwnd (put_client hwnd fb' dirty wm) = Some (fb', w, h)" by (rule p(1))
  show "h' \<noteq> hwnd \<Longrightarrow> client_view h' (put_client hwnd fb' dirty wm) = client_view h' (g_wm g)"
    using p(3) v(4) by simp
qed

subsection \<open>Rectangles and lines on a window\<close>

text \<open>\<open>wg_gdi_fill_rect\<close> on a window's device context sets exactly the pixels of the rectangle,
  clipped to the client area, to the opaque colour of the COLORREF, for any coordinates; every
  other pixel and every other window stays as it was.\<close>

theorem fill_rect_exact:
  assumes wf: "wf_gdi g" and dc: "dc_client can hdc g = Some (k, fb, w, h)"
  shows "\<exists>g' fb'. wg_gdi_fill_rect can hdc l t r b cr g = Some g' \<and> wf_gdi g'
    \<and> client_view (dc_hwnd (g_dcs g ! k)) (g_wm g') = Some (fb', w, h)
    \<and> (\<forall>x y. 0 \<le> x \<and> x < w \<and> 0 \<le> y \<and> y < h \<longrightarrow> pixel fb' w x y
         = (if l \<le> x \<and> x < r \<and> t \<le> y \<and> y < b then colorref_to_rgba cr else pixel fb w x y))
    \<and> (\<forall>h'. h' \<noteq> dc_hwnd (g_dcs g ! k) \<longrightarrow> client_view h' (g_wm g') = client_view h' (g_wm g))"
proof -
  from dc obtain wm where fd: "find_dc hdc g = Some k"
    and gc: "wg_wm_get_client can (dc_hwnd (g_dcs g ! k)) (g_wm g) = Some (Some (fb, w, h), wm)" by (rule dc_clientD)
  have ok: "fb_ok fb w h" by (rule get_client_view(3) [OF wf_gdi_wm [OF wf] gc])
  from fill_loop_spec [OF ok, of l t r b "colorref_to_rgba cr"] obtain fb' where
    fl: "fill_loop l t r b (colorref_to_rgba cr) fb w h = Some fb'" and ok': "fb_ok fb' w h"
    and px: "\<forall>x y. 0 \<le> x \<and> x < w \<and> 0 \<le> y \<and> y < h \<longrightarrow> pixel fb' w x y
         = (if l \<le> x \<and> x < r \<and> t \<le> y \<and> y < b then colorref_to_rgba cr else pixel fb w x y)" by blast
  note d = drawn_client [OF wf gc ok', where dirty = True]
  have "wg_gdi_fill_rect can hdc l t r b cr g
      = Some (g\<lparr> g_wm := put_client (dc_hwnd (g_dcs g ! k)) fb' True wm \<rparr>)"
    by (simp add: wg_gdi_fill_rect_def draw_client_def fd gc fl)
  then show ?thesis using wf_gdi_upd(1) [OF wf d(1)] d(2,3) px by auto
qed

text \<open>C30: \<open>wg_gdi_line_to\<close> returns for all coordinates of magnitude up to \<open>2 ^ 29\<close>, and draws exactly
  the visible part of the reference line: one point per step of the longer axis, from the current
  position to the target, each within half a pixel of the ideal line.  The target becomes the
  current position; every other pixel and every other window stays as it was.\<close>

theorem line_to_draws:
  assumes wf: "wf_gdi g" and dc: "dc_client can hdc g = Some (k, fb, w, h)"
    and pos: "dc_cur_x (g_dcs g ! k) = x0" "dc_cur_y (g_dcs g ! k) = y0"
    and b: "\<bar>x0\<bar> \<le> 2 ^ 29" "\<bar>y0\<bar> \<le> 2 ^ 29" "\<bar>x1\<bar> \<le> 2 ^ 29" "\<bar>y1\<bar> \<le> 2 ^ 29"
  shows "\<exists>g' fb'. wg_gdi_line_to can hdc x1 y1 g = Some g' \<and> wf_gdi g'
    \<and> client_view (dc_hwnd (g_dcs g ! k)) (g_wm g') = Some (fb', w, h)
    \<and> (\<forall>x y. 0 \<le> x \<and> x < w \<and> 0 \<le> y \<and> y < h \<longrightarrow> pixel fb' w x y
         = (if (x, y) \<in> set (ref_line x0 y0 x1 y1) then colorref_to_rgba (dc_text_color (g_dcs g ! k)) else pixel fb w x y))
    \<and> dc_cur_x (g_dcs g' ! k) = x1 \<and> dc_cur_y (g_dcs g' ! k) = y1
    \<and> (\<forall>h'. h' \<noteq> dc_hwnd (g_dcs g ! k) \<longrightarrow> client_view h' (g_wm g') = client_view h' (g_wm g))
    \<and> hd (ref_line x0 y0 x1 y1) = (x0, y0) \<and> last (ref_line x0 y0 x1 y1) = (x1, y1)
    \<and> length (ref_line x0 y0 x1 y1) = nat (max \<bar>x1 - x0\<bar> \<bar>y1 - y0\<bar>) + 1
    \<and> (\<forall>(x, y) \<in> set (ref_line x0 y0 x1 y1).
         2 * \<bar>(x - x0) * (y1 - y0) - (y - y0) * (x1 - x0)\<bar> \<le> max \<bar>x1 - x0\<bar> \<bar>y1 - y0\<bar>)"
proof -
  let ?d = "g_dcs g ! k" and ?c = "colorref_to_rgba (dc_text_color (g_dcs g ! k))"
  from dc obtain wm where fd: "find_dc hdc g = Some k"
    and gc: "wg_wm_get_client can (dc_hwnd ?d) (g_wm g) = Some (Some (fb, w, h), wm)" by (rule dc_clientD)
  have kl: "k < length (g_dcs g)" using find_dc_lt [OF wf fd] wf_gdi_dcs [OF wf] by simp
  have ok: "fb_ok fb w h" by (rule get_client_view(3) [OF wf_gdi_wm [OF wf] gc])
  from paint_points [OF ok, of ?c "ref_line x0 y0 x1 y1"] obtain fb' where
    dl: "draw_line ?c x0 y0 x1 y1 fb w h = Some fb'" and ok': "fb_ok fb' w h"
    and px: "\<forall>x y. 0 \<le> x \<and> x < w \<and> 0 \<le> y \<and> y < h \<longrightarrow> pixel fb' w x y
         = (if (x, y) \<in> set (ref_line x0 y0 x1 y1) then ?c else pixel fb w x y)"
    unfolding draw_line_ref [OF b] by blast
  note d = drawn_client [OF wf gc ok', where dirty = True]
  let ?g = "g\<lparr> g_dcs := (g_dcs g)[k := ?d\<lparr> dc_cur_x := x1, dc_cur_y := y1 \<rparr>],
               g_wm := put_client (dc_hwnd ?d) fb' True wm \<rparr>"
  have r: "wg_gdi_line_to can hdc x1 y1 g = Some ?g" by (simp add: wg_gdi_line_to_def Let_def fd gc pos dl)
  have "wf_gdi ?g" using wf d(1) by (simp add: wf_gdi_def)
  moreover have "\<forall>(x, y) \<in> set (ref_line x0 y0 x1 y1).
         2 * \<bar>(x - x0) * (y1 - y0) - (y - y0) * (x1 - x0)\<bar> \<le> max \<bar>x1 - x0\<bar> \<bar>y1 - y0\<bar>"
    using ref_line_near by blast
  ultimately show ?thesis
    using r d(2,3) px kl ref_line_ends [of x0 y0 x1 y1] by (intro exI [of _ ?g] exI [of _ fb']) simp
qed

text \<open>A window with a client area of 4 x 4 pixels and a device context on it.\<close>

definition demo_wm :: WGWindowManager where
  "demo_wm = snd (wg_wm_create_window 0 0 None 0 0 0 4 36 0 wm_zero)"

definition demo_gdi :: gdi_state where
  "demo_gdi = snd (wg_gdi_get_dc 0x10000 (gdi_init\<lparr> g_wm := demo_wm \<rparr>))"

lemma wf_gdi_init: "wf_gdi gdi_init"
  by (simp add: wf_gdi_def gdi_init_def wf_wm_zero wf_bitmap_init)

lemma wf_get_dc: "wf_gdi g \<Longrightarrow> wf_gdi (snd (wg_gdi_get_dc hwnd g))"
  by (auto simp: wf_gdi_def wg_gdi_get_dc_def split: option.splits)

lemma demo_gdi_ok: "wf_gdi demo_gdi"
  unfolding demo_gdi_def demo_wm_def
  using wf_gdi_upd(1) [OF wf_gdi_init wf_create_window [OF wf_wm_zero]] by (intro wf_get_dc)

lemma demo_dc:
  "g_dcs demo_gdi ! 0 = dc_zero\<lparr> dc_used := True, dc_handle := 0xDC0000, dc_hwnd := 0x10000,
     dc_bk_color := 0xFFFFFF, dc_bk_mode := 2, dc_font_px := 13 \<rparr>"
  "find_dc 0xDC0000 demo_gdi = Some 0"
  "dc_client (\<lambda>_. True) 0xDC0000 demo_gdi = Some (0, replicate 16 0xFFF0F0F0, 4, 4)"
proof -
  have d: "g_dcs demo_gdi = (dc_zero\<lparr> dc_used := True, dc_handle := 0xDC0000, dc_hwnd := 0x10000,
     dc_bk_color := 0xFFFFFF, dc_bk_mode := 2, dc_font_px := 13 \<rparr>) # replicate 31 dc_zero" (is "_ = ?d # _")
  proof -
    have i: "g_dcs (gdi_init\<lparr> g_wm := demo_wm \<rparr>) = dc_zero # replicate 31 dc_zero"
      "g_next_dc (gdi_init\<lparr> g_wm := demo_wm \<rparr>) = 0xDC0000"
      by (simp_all add: gdi_init_def MAX_DCS_def WG_DC_BASE_def numeral_eq_Suc)
    have "\<not> dc_used dc_zero" by (simp add: dc_zero_def)
    then have "first_idx (\<lambda>d. \<not> dc_used d) (g_dcs (gdi_init\<lparr> g_wm := demo_wm \<rparr>)) = Some 0" by (simp add: i)
    then show ?thesis by (simp add: demo_gdi_def wg_gdi_get_dc_def i) (simp add: dc_zero_def)
  qed
  show d0: "g_dcs demo_gdi ! 0 = ?d" by (simp add: d)
  show f: "find_dc 0xDC0000 demo_gdi = Some 0" by (simp add: find_dc_def d)
  have w: "windows (g_wm demo_gdi) = [new_window 0 0 None 0 0 0 4 36 0 0x10000]" "wm_next (g_wm demo_gdi) = 0x10001"
    by (simp_all add: demo_gdi_def demo_wm_def wg_gdi_get_dc_def gdi_init_def wg_wm_create_window_def wm_zero_def
        wg_wm_get_def WG_MAX_WINDOWS_def WG_HWND_BASE_def split: option.splits)
  have "wg_wm_find 0x10000 (g_wm demo_gdi) = Some 0"
    by (simp add: wg_wm_find_def w new_window_def)
  then have "\<exists>wm. wg_wm_get_client (\<lambda>_. True) 0x10000 (g_wm demo_gdi) = Some (Some (replicate 16 0xFFF0F0F0, 4, 4), wm)"
    by (simp add: wg_wm_get_client_def Let_def w client_size_def new_window_def default_size_def WG_TITLEBAR_H_def in_i32_def)
  then show "dc_client (\<lambda>_. True) 0xDC0000 demo_gdi = Some (0, replicate 16 0xFFF0F0F0, 4, 4)"
    by (auto simp: dc_client_def f d0)
qed

theorem fill_rect_exact_witness:
  "\<exists>g' fb'. wg_gdi_fill_rect (\<lambda>_. True) 0xDC0000 (- 3) 1 2 9 0x0000FF demo_gdi = Some g'
    \<and> client_view 0x10000 (g_wm g') = Some (fb', 4, 4) \<and> pixel fb' 4 1 3 = 0xFF0000FF \<and> pixel fb' 4 2 3 = 0xFFF0F0F0"
proof -
  have c: "colorref_to_rgba 0x0000FF = 0xFF0000FF" by (simp add: colorref_to_rgba_def)
  from fill_rect_exact [OF demo_gdi_ok demo_dc(3), of "- 3" 1 2 9 "0x0000FF"] obtain g' fb' where
    g: "wg_gdi_fill_rect (\<lambda>_. True) 0xDC0000 (- 3) 1 2 9 0x0000FF demo_gdi = Some g'"
      "client_view (dc_hwnd (g_dcs demo_gdi ! 0)) (g_wm g') = Some (fb', 4, 4)"
    and px: "\<forall>x y. 0 \<le> x \<and> x < 4 \<and> 0 \<le> y \<and> y < 4 \<longrightarrow> pixel fb' 4 x y
         = (if - 3 \<le> x \<and> x < 2 \<and> 1 \<le> y \<and> y < 9 then colorref_to_rgba 0x0000FF else pixel (replicate 16 0xFFF0F0F0) 4 x y)"
    by blast
  have "client_view 0x10000 (g_wm g') = Some (fb', 4, 4)" using g(2) by (simp add: demo_dc(1))
  moreover have "pixel fb' 4 1 3 = 0xFF0000FF" using px [rule_format, of 1 3] c by simp
  moreover have "pixel fb' 4 2 3 = 0xFFF0F0F0" using px [rule_format, of 2 3] by (simp add: pixel_def)
  ultimately show ?thesis using g(1) by blast
qed

theorem line_to_draws_witness:
  "\<exists>g' fb'. wg_gdi_line_to (\<lambda>_. True) 0xDC0000 5 2 demo_gdi = Some g'
    \<and> client_view 0x10000 (g_wm g') = Some (fb', 4, 4) \<and> pixel fb' 4 3 1 = 0xFF000000 \<and> pixel fb' 4 3 2 = 0xFFF0F0F0"
proof -
  have c: "colorref_to_rgba 0 = 0xFF000000" by (simp add: colorref_to_rgba_def)
  have r: "ref_line 0 0 5 2 = [(0, 0), (1, 0), (2, 1), (3, 1), (4, 2), (5, 2)]" by code_simp
  have p: "dc_cur_x (g_dcs demo_gdi ! 0) = 0" "dc_cur_y (g_dcs demo_gdi ! 0) = 0" "dc_hwnd (g_dcs demo_gdi ! 0) = 0x10000"
    "dc_text_color (g_dcs demo_gdi ! 0) = 0" by (simp_all add: demo_dc(1) dc_zero_def)
  from line_to_draws [OF demo_gdi_ok demo_dc(3) p(1,2), of 5 2] obtain g' fb' where
    g: "wg_gdi_line_to (\<lambda>_. True) 0xDC0000 5 2 demo_gdi = Some g'"
      "client_view (dc_hwnd (g_dcs demo_gdi ! 0)) (g_wm g') = Some (fb', 4, 4)"
    and px: "\<forall>x y. 0 \<le> x \<and> x < 4 \<and> 0 \<le> y \<and> y < 4 \<longrightarrow> pixel fb' 4 x y
         = (if (x, y) \<in> set (ref_line 0 0 5 2) then colorref_to_rgba (dc_text_color (g_dcs demo_gdi ! 0))
            else pixel (replicate 16 0xFFF0F0F0) 4 x y)"
    by auto
  have "client_view 0x10000 (g_wm g') = Some (fb', 4, 4)" using g(2) p(3) by simp
  moreover have "pixel fb' 4 3 1 = 0xFF000000" using px [rule_format, of 3 1] unfolding r p(4) c by simp
  moreover have "pixel fb' 4 3 2 = 0xFFF0F0F0" using px [rule_format, of 3 2] unfolding r by (simp add: pixel_def)
  ultimately show ?thesis using g(1) by blast
qed

end
