(* ===== verification/Gdi_Blit.thy ===== *)
theory Gdi_Blit
  imports Gdi_Draw
begin

section \<open>Scaled copies\<close>

text \<open>
  What \<open>wg_gdi_draw_bitmap\<close> and \<open>wg_gdi_blit\<close> do to the pixels of their target, the composition
  of the BMP decoder with drawing, and the device contexts that keep the bitmap of a deleted
  memory context.
\<close>

lemma foldO_cong_inv:
  assumes "\<And>x s. x \<in> set xs \<Longrightarrow> P s \<Longrightarrow> f x s = g x s" and "\<And>x s s'. P s \<Longrightarrow> g x s = Some s' \<Longrightarrow> P s'" and "P s"
  shows "foldO f xs s = foldO g xs s"
  using assms
proof (induction xs arbitrary: s)
  case (Cons x xs)
  have "f x s = g x s" using Cons.prems by simp
  moreover have "foldO f xs s' = foldO g xs s'" if "g x s = Some s'" for s'
    using Cons.IH [of s'] Cons.prems that by simp
  ultimately show ?case by (cases "g x s") simp_all
qed simp

text \<open>The reference: the source position of a target pixel, and a pixel over another.\<close>

definition scaled :: "int \<Rightarrow> int \<Rightarrow> int \<Rightarrow> int \<Rightarrow> int \<Rightarrow> int" where
  "scaled s0 d0 sn dn d = s0 + ((d - d0) * sn) div dn"

definition over :: "u32 \<Rightarrow> u32 \<Rightarrow> u32" where
  "over s d = (if channel 24 s = 0xFF then s else if channel 24 s \<noteq> 0 then blend s d else d)"

definition blit_act ::
    "int \<Rightarrow> int \<Rightarrow> int \<Rightarrow> int \<Rightarrow> int \<Rightarrow> int \<Rightarrow> int \<Rightarrow> int \<Rightarrow> int \<Rightarrow> int \<Rightarrow> int \<Rightarrow> int \<Rightarrow> int \<Rightarrow> int \<Rightarrow> bool" where
  "blit_act src_w src_h tw th dx dy dw dh sx sy sw sh j i \<longleftrightarrow>
     0 \<le> dy + j \<and> dy + j < th \<and> 0 \<le> sy + (j * sh) div dh \<and> sy + (j * sh) div dh < src_h
     \<and> 0 \<le> dx + i \<and> dx + i < tw \<and> 0 \<le> sx + (i * sw) div dw \<and> sx + (i * sw) div dw < src_w"

definition small :: "int \<Rightarrow> bool" where
  "small x \<longleftrightarrow> \<bar>x\<bar> \<le> 2 ^ 29"

definition scale_ok :: "int \<Rightarrow> int \<Rightarrow> bool" where
  "scale_ok sn dn \<longleftrightarrow> 0 < sn \<and> 0 < dn \<and> sn \<le> 2 ^ 29 \<and> dn \<le> 2 ^ 29 \<and> sn * dn < 2 ^ 31"

lemma scale_steps:
  assumes "scale_ok sn dn" and "small s0" and "small d0" and i: "0 \<le> i" "i < dn"
  shows "addi d0 i = Some (d0 + i)" and "muli i sn = Some (i * sn)"
    and "addi s0 ((i * sn) div dn) = Some (s0 + (i * sn) div dn)"
proof -
  note h = assms [unfolded scale_ok_def small_def]
  show "addi d0 i = Some (d0 + i)" using h by (auto simp: addi_def in_i32_def)
  have m: "0 \<le> i * sn" "i * sn \<le> dn * sn" using h by (auto intro: mult_right_mono)
  moreover have "dn * sn < 2 ^ 31" using h by (simp add: mult.commute)
  ultimately have "in_i32 (i * sn)" unfolding in_i32_def by linarith
  then show "muli i sn = Some (i * sn)" by (simp add: muli_def)
  have "(i * sn) div dn \<le> (dn * sn) div dn" using m h by (intro zdiv_mono1) auto
  moreover have "(dn * sn) div dn = sn" using h by simp
  moreover have "0 \<le> (i * sn) div dn" using m h by (simp add: pos_imp_zdiv_nonneg_iff)
  ultimately have "in_i32 (s0 + (i * sn) div dn)" using h by (auto simp: in_i32_def)
  then show "addi s0 ((i * sn) div dn) = Some (s0 + (i * sn) div dn)" by (simp add: addi_def)
qed

text \<open>The two loops as one loop over pairs, for a source that is not the target.\<close>

lemma blit_row_cells:
  assumes src: "fb_ok src src_w src_h" and dst: "fb_ok dst tw th"
    and x: "scale_ok sw dw" "small sx" "small dx" and y: "scale_ok sh dh" "small sy" "small dy"
    and j: "0 \<le> j" "j < dh"
  shows "blit_row (Some src) src_w src_h tw th dx dy dw dh sx sy sw sh j dst
    = foldO (\<lambda>i fb. Some (if blit_act src_w src_h tw th dx dy dw dh sx sy sw sh j i
        then fb[nat ((dy + j) * tw + (dx + i)) := over (pixel src src_w (sx + (i * sw) div dw) (sy + (j * sh) div dh))
               (fb ! nat ((dy + j) * tw + (dx + i)))] else fb)) [0..dw - 1] dst" (is "_ = foldO ?g _ _")
proof -
  note sj = scale_steps [OF y j]
  let ?row = "0 \<le> dy + j \<and> dy + j < th \<and> 0 \<le> sy + (j * sh) div dh \<and> sy + (j * sh) div dh < src_h"
  show ?thesis
  proof (cases ?row)
    case False
    then have "foldO ?g [0..dw - 1] dst = foldO (\<lambda>i fb. Some fb) [0..dw - 1] dst"
      by (intro foldO_cong) (auto simp: blit_act_def)
    then show ?thesis using False sj by (auto simp: blit_row_def foldO_skip)
  next
    case True
    then have r: "blit_row (Some src) src_w src_h tw th dx dy dw dh sx sy sw sh j dst
        = foldO (blit_px (Some src) src_w tw (dy + j) (sy + (j * sh) div dh) dx dw sx sw) [0..dw - 1] dst"
      using sj by (simp add: blit_row_def)
    show ?thesis unfolding r
    proof (rule foldO_cong_inv [where P = "\<lambda>fb. fb_ok fb tw th"])
      fix i fb
      assume i: "i \<in> set [0..dw - 1]" and fb: "fb_ok fb tw th"
      then have "0 \<le> i" "i < dw" by auto
      note si = scale_steps [OF x this]
      show "blit_px (Some src) src_w tw (dy + j) (sy + (j * sh) div dh) dx dw sx sw i fb = ?g i fb"
        using si True fb_set_pos [OF fb, of "dx + i" "dy + j"] fb_set_pos(2) [OF src, of "sx + (i * sw) div dw" "sy + (j * sh) div dh"]
        by (auto simp: blit_px_def blit_act_def over_def pixel_def Let_def)
    next
      fix i fb fb' assume "fb_ok fb tw th" "?g i fb = Some fb'"
      then show "fb_ok fb' tw th" by (auto simp: fb_ok_def split: if_splits)
    qed (rule dst)
  qed
qed

lemma blit_loops:
  assumes src: "fb_ok src src_w src_h" and dst: "fb_ok dst tw th"
    and xb: "scale_ok sw dw" "small sx" "small dx" and yb: "scale_ok sh dh" "small sy" "small dy"
  shows "\<exists>dst'. foldO (blit_row (Some src) src_w src_h tw th dx dy dw dh sx sy sw sh) [0..dh - 1] dst = Some dst'
    \<and> fb_ok dst' tw th
    \<and> (\<forall>x y. 0 \<le> x \<and> x < tw \<and> 0 \<le> y \<and> y < th \<longrightarrow> pixel dst' tw x y =
        (let X = scaled sx dx sw dw x; Y = scaled sy dy sh dh y
         in if dx \<le> x \<and> x < dx + dw \<and> dy \<le> y \<and> y < dy + dh \<and> 0 \<le> X \<and> X < src_w \<and> 0 \<le> Y \<and> Y < src_h
            then over (pixel src src_w X Y) (pixel dst tw x y) else pixel dst tw x y))"
proof -
  let ?act = "\<lambda>(j, i). blit_act src_w src_h tw th dx dy dw dh sx sy sw sh j i"
  let ?idx = "\<lambda>(j, i). nat ((dy + j) * tw + (dx + i))"
  let ?v = "\<lambda>(j, i). over (pixel src src_w (sx + (i * sw) div dw) (sy + (j * sh) div dh))"
  let ?g = "\<lambda>(j, i) fb. Some (if ?act (j, i) then fb[?idx (j, i) := ?v (j, i) (fb ! ?idx (j, i))] else fb)"
  let ?ps = "List.product [0..dh - 1] [0..dw - 1]"
  have "foldO (blit_row (Some src) src_w src_h tw th dx dy dw dh sx sy sw sh) [0..dh - 1] dst
      = foldO (\<lambda>j. foldO (\<lambda>i. ?g (j, i)) [0..dw - 1]) [0..dh - 1] dst"
  proof (rule foldO_cong_inv [where P = "\<lambda>fb. fb_ok fb tw th"])
    fix j fb
    assume "j \<in> set [0..dh - 1]" and fb: "fb_ok fb tw th"
    then have "0 \<le> j" "j < dh" by auto
    from blit_row_cells [OF src fb xb yb this]
    show "blit_row (Some src) src_w src_h tw th dx dy dw dh sx sy sw sh j fb = foldO (\<lambda>i. ?g (j, i)) [0..dw - 1] fb"
      unfolding prod.case .
  next
    fix j fb fb'
    assume fb: "fb_ok fb tw th" and f: "foldO (\<lambda>i. ?g (j, i)) [0..dw - 1] fb = Some fb'"
    have "length fb' = length fb" if "foldO (\<lambda>i. ?g (j, i)) xs fb = Some fb'" for xs fb
      using that by (induction xs arbitrary: fb) (auto split: if_splits)
    from this [OF f] show "fb_ok fb' tw th" by (rule fb_ok_length [OF fb])
  qed (rule dst)
  also have "\<dots> = foldO ?g ?ps dst" by (subst foldO_nested) (simp add: case_prod_unfold cong: if_cong)
  finally have eq: "foldO (blit_row (Some src) src_w src_h tw th dx dy dw dh sx sy sw sh) [0..dh - 1] dst = foldO ?g ?ps dst" .
  have inj: "inj_on ?idx {p \<in> set ?ps. ?act p}"
  proof (rule inj_onI, clarify)
    fix j i j' i'
    assume "blit_act src_w src_h tw th dx dy dw dh sx sy sw sh j i" "blit_act src_w src_h tw th dx dy dw dh sx sy sw sh j' i'"
      and "nat ((dy + j) * tw + (dx + i)) = nat ((dy + j') * tw + (dx + i'))"
    then show "j = j' \<and> i = i'" using pos_inj [of "dx + i" tw "dx + i'" "dy + j" "dy + j'"] by (simp add: blit_act_def)
  qed
  have step: "?g p fb = Some (if ?act p then fb[?idx p := ?v p (fb ! ?idx p)] else fb)" for p fb by (cases p) simp
  from foldO_cells [of ?ps "length dst" ?g ?act ?idx ?v dst, OF step _ inj refl] obtain dst' where
    d: "foldO ?g ?ps dst = Some dst'" "length dst' = length dst"
    and on: "\<forall>p \<in> set ?ps. ?act p \<and> ?idx p < length dst \<longrightarrow> dst' ! ?idx p = ?v p (dst ! ?idx p)"
    and off: "\<forall>k. (\<forall>p \<in> set ?ps. ?act p \<longrightarrow> ?idx p \<noteq> k) \<longrightarrow> dst' ! k = dst ! k"
    by (auto simp: distinct_product)
  have "pixel dst' tw x y = (if dx \<le> x \<and> x < dx + dw \<and> dy \<le> y \<and> y < dy + dh
        \<and> 0 \<le> scaled sx dx sw dw x \<and> scaled sx dx sw dw x < src_w \<and> 0 \<le> scaled sy dy sh dh y \<and> scaled sy dy sh dh y < src_h
      then over (pixel src src_w (scaled sx dx sw dw x) (scaled sy dy sh dh y)) (pixel dst tw x y) else pixel dst tw x y)"
    if b: "0 \<le> x" "x < tw" "0 \<le> y" "y < th" for x y
  proof (cases "dx \<le> x \<and> x < dx + dw \<and> dy \<le> y \<and> y < dy + dh \<and> ?act (y - dy, x - dx)")
    case True
    have "(y - dy, x - dx) \<in> set ?ps" using True by auto
    moreover have "?idx (y - dy, x - dx) < length dst" using pos_bounds [OF b] dst by (simp add: fb_ok_def)
    moreover note on [rule_format, of "(y - dy, x - dx)"]
    ultimately have "dst' ! ?idx (y - dy, x - dx) = ?v (y - dy, x - dx) (dst ! ?idx (y - dy, x - dx))" using True by blast
    then show ?thesis using True by (simp add: pixel_def blit_act_def scaled_def)
  next
    case False
    have "?idx p \<noteq> nat (y * tw + x)" if p: "p \<in> set ?ps" "?act p" for p
    proof
      assume e: "?idx p = nat (y * tw + x)"
      obtain j i where ji: "p = (j, i)" by (cases p)
      have "dx + i = x \<and> dy + j = y"
        using p(2) e b pos_inj [of "dx + i" tw x "dy + j" y] by (simp add: ji blit_act_def)
      then have "i = x - dx" "j = y - dy" by auto
      with p ji False show False by auto
    qed
    then have "\<forall>p \<in> set ?ps. ?act p \<longrightarrow> ?idx p \<noteq> nat (y * tw + x)" by blast
    then have "pixel dst' tw x y = pixel dst tw x y" unfolding pixel_def using off by blast
    then show ?thesis using False b by (auto simp: blit_act_def scaled_def)
  qed
  then show ?thesis using eq d fb_ok_length [OF dst] by (intro exI [of _ dst']) (simp add: Let_def)
qed

subsection \<open>The target of a device context\<close>

definition dc_shows :: "(int \<Rightarrow> bool) \<Rightarrow> u32 \<Rightarrow> gdi_state \<Rightarrow> (dc_buf \<times> u32 list \<times> int \<times> int) option" where
  "dc_shows can hdc g =
     (case dc_target can hdc g of Some (Some (buf, fb, w, h, _), _) \<Rightarrow> Some (buf, fb, w, h) | _ \<Rightarrow> None)"

lemma bitmap_fb_ok: "wf_bitmap b \<Longrightarrow> fb_ok (bmp_px b) (bmp_w b) (bmp_h b)"
proof -
  assume w: "wf_bitmap b"
  then have "bmp_w b * bmp_h b \<le> 16384 * 16384" by (intro mult_mono) (auto simp: wf_bitmap_def)
  moreover have "0 \<le> bmp_w b * bmp_h b" using w by (simp add: wf_bitmap_def)
  ultimately have "in_i32 (bmp_w b * bmp_h b)" by (simp add: in_i32_def del: zero_le_mult_iff)
  then show ?thesis using w by (simp add: fb_ok_def wf_bitmap_def)
qed

lemma find_put_pixels [simp]: "find_bitmap h (put_pixels i px s) = find_bitmap h s"
  unfolding find_bitmap_def put_pixels_def by (simp add: first_idx_update_same)

lemma find_dc_upd [simp]: "find_dc h (g\<lparr> g_bmps := b \<rparr>) = find_dc h g" "find_dc h (g\<lparr> g_wm := wm \<rparr>) = find_dc h g"
  by (simp_all add: find_dc_def)

lemma get_client_again:
  assumes "client_view hwnd wm = Some (fb, w, h)"
  shows "wg_wm_get_client can hwnd wm = Some (Some (fb, w, h), wg_wm_get wm)"
  using assms by (auto simp: client_view_def wg_wm_get_client_def Let_def split: option.splits)

lemma put_pixels_spec:
  assumes wf: "wf_bitmaps s" and f: "find_bitmap h s = Some i" and ok: "fb_ok px (bmp_w (s_bmps s ! i)) (bmp_h (s_bmps s ! i))"
  shows "wf_bitmaps (put_pixels i px s)" and "wg_bitmap_pixels h (put_pixels i px s) = Some (px, bmp_w (s_bmps s ! i), bmp_h (s_bmps s ! i))"
    and "find_bitmap h' s \<noteq> Some i \<Longrightarrow> wg_bitmap_pixels h' (put_pixels i px s) = wg_bitmap_pixels h' s"
proof -
  note d = find_bitmapD [OF wf f]
  have il: "i < length (s_bmps s)" using d(1) wf_bitmaps_len [OF wf] by simp
  show "wf_bitmaps (put_pixels i px s)"
    unfolding put_pixels_def using wf_bitmapsD(1) [OF wf d(1,2)] ok
    by (intro wf_bitmaps_upd [OF wf d(1)]) (simp_all add: wf_bitmap_def fb_ok_def d(2))
  show "wg_bitmap_pixels h (put_pixels i px s) = Some (px, bmp_w (s_bmps s ! i), bmp_h (s_bmps s ! i))"
    using f il by (simp add: wg_bitmap_pixels_def) (simp add: put_pixels_def)
  assume "find_bitmap h' s \<noteq> Some i"
  then show "wg_bitmap_pixels h' (put_pixels i px s) = wg_bitmap_pixels h' s"
    unfolding wg_bitmap_pixels_def find_put_pixels by (cases "find_bitmap h' s") (auto simp: put_pixels_def)
qed

lemma dc_target_spec:
  assumes wf: "wf_gdi g" and t: "dc_target can hdc g = Some (Some (buf, dst, tw, th, win), g1)"
  shows "fb_ok dst tw th" and "g_bmps g1 = g_bmps g"
    and "fb_ok dst' tw th \<Longrightarrow> wf_gdi (put_buf buf dst' d g1) \<and> dc_shows can hdc (put_buf buf dst' d g1) = Some (buf, dst', tw, th)"
    and "buf \<noteq> Bits i \<Longrightarrow> find_bitmap hb (g_bmps g) = Some i \<Longrightarrow> fb_ok dst' tw th
      \<Longrightarrow> wg_bitmap_pixels hb (g_bmps (put_buf buf dst' d g1)) = wg_bitmap_pixels hb (g_bmps g)"
proof -
  obtain k where k: "find_dc hdc g = Some k" using t by (auto simp: dc_target_def split: option.splits)
  let ?dc = "g_dcs g ! k"
  have "fb_ok dst tw th \<and> g_bmps g1 = g_bmps g
    \<and> (fb_ok dst' tw th \<longrightarrow> wf_gdi (put_buf buf dst' d g1) \<and> dc_shows can hdc (put_buf buf dst' d g1) = Some (buf, dst', tw, th))
    \<and> (buf \<noteq> Bits i \<longrightarrow> find_bitmap hb (g_bmps g) = Some i \<longrightarrow> fb_ok dst' tw th
        \<longrightarrow> wg_bitmap_pixels hb (g_bmps (put_buf buf dst' d g1)) = wg_bitmap_pixels hb (g_bmps g))"
  proof (cases "dc_is_memdc ?dc")
    case True
    have t': "map_option (\<lambda>i. let b = s_bmps (g_bmps g) ! i in (Bits i, bmp_px b, bmp_w b, bmp_h b, 0 :: u32))
        (find_bitmap (dc_sel_bitmap ?dc) (g_bmps g)) = Some (buf, dst, tw, th, win)" and g1: "g1 = g"
      using t True unfolding dc_target_def k option.case Let_def unfolding if_P [OF True] option.inject prod.inject by blast+
    from t' obtain j where j: "find_bitmap (dc_sel_bitmap ?dc) (g_bmps g) = Some j"
      and b: "buf = Bits j" "dst = bmp_px (s_bmps (g_bmps g) ! j)" "tw = bmp_w (s_bmps (g_bmps g) ! j)"
        "th = bmp_h (s_bmps (g_bmps g) ! j)"
      by (cases "find_bitmap (dc_sel_bitmap ?dc) (g_bmps g)") (simp_all add: Let_def)
    note b = b g1
    note jd = find_bitmapD [OF wf_gdi_bmps [OF wf] j]
    have jl: "j < length (s_bmps (g_bmps g))" using jd(1) wf_bitmaps_len [OF wf_gdi_bmps [OF wf]] by simp
    note ps = put_pixels_spec [OF wf_gdi_bmps [OF wf] j]
    have sel: "s_bmps (put_pixels j dst' (g_bmps g)) ! j = (s_bmps (g_bmps g) ! j)\<lparr> bmp_px := dst' \<rparr>"
      using jl by (simp add: put_pixels_def)
    have seen: "dc_shows can hdc (put_buf buf dst' d g1) = Some (buf, dst', tw, th)"
      unfolding b dc_shows_def dc_target_def put_buf_def dc_buf.case by (simp add: True k j sel Let_def)
    have "wf_gdi (put_buf buf dst' d g1)" if "fb_ok dst' tw th"
      unfolding b put_buf_def dc_buf.case using that b wf_gdi_upd(2) [OF wf ps(1)] by simp
    moreover have "wg_bitmap_pixels hb (g_bmps (put_buf buf dst' d g1)) = wg_bitmap_pixels hb (g_bmps g)"
      if "fb_ok dst' tw th" "buf \<noteq> Bits i" "find_bitmap hb (g_bmps g) = Some i"
      unfolding b put_buf_def dc_buf.case using that b ps(3) by simp
    moreover have "fb_ok dst tw th"
      unfolding b by (rule bitmap_fb_ok [OF wf_bitmapsD(1) [OF wf_gdi_bmps [OF wf] jd(1,2)]])
    ultimately show ?thesis using seen g1 by blast
  next
    case False
    with t k obtain wm where gc: "wg_wm_get_client can (dc_hwnd ?dc) (g_wm g) = Some (Some (dst, tw, th), wm)"
      and b: "buf = Client (dc_hwnd ?dc)" "g1 = g\<lparr> g_wm := wm \<rparr>" "win = dc_hwnd ?dc"
      by (auto simp: dc_target_def Let_def split: bind_splits)
    have ok: "fb_ok dst tw th" by (rule get_client_view(3) [OF wf_gdi_wm [OF wf] gc])
    show ?thesis
    proof (cases "fb_ok dst' tw th")
      case ok': True
      note dr = drawn_client [OF wf gc ok', where dirty = d]
      have "dc_shows can hdc (put_buf buf dst' d g1) = Some (buf, dst', tw, th)"
        unfolding b dc_shows_def dc_target_def put_buf_def dc_buf.case
        by (simp add: False k get_client_again [OF dr(2)] Let_def)
      moreover have "wf_gdi (put_buf buf dst' d g1)"
        unfolding b put_buf_def dc_buf.case using wf_gdi_upd(1) [OF wf dr(1)] by simp
      ultimately show ?thesis using ok by (simp add: b put_buf_def)
    qed (use ok b in simp)
  qed
  then show "fb_ok dst tw th" and "g_bmps g1 = g_bmps g"
    and "fb_ok dst' tw th \<Longrightarrow> wf_gdi (put_buf buf dst' d g1) \<and> dc_shows can hdc (put_buf buf dst' d g1) = Some (buf, dst', tw, th)"
    and "buf \<noteq> Bits i \<Longrightarrow> find_bitmap hb (g_bmps g) = Some i \<Longrightarrow> fb_ok dst' tw th
      \<Longrightarrow> wg_bitmap_pixels hb (g_bmps (put_buf buf dst' d g1)) = wg_bitmap_pixels hb (g_bmps g)"
    by blast+
qed

lemma draw_bitmap_pixels:
  assumes wf: "wf_gdi g" and t: "dc_shows can hdc g = Some (buf, dst, tw, th)"
    and src: "find_bitmap hb (g_bmps g) = Some i" "wg_bitmap_pixels hb (g_bmps g) = Some (px, bw, bh)" "buf \<noteq> Bits i"
    and eff: "sw = (if sw0 \<le> 0 then bw else sw0)" "sh = (if sh0 \<le> 0 then bh else sh0)"
      "dw = (if dw0 \<le> 0 then sw else dw0)" "dh = (if dh0 \<le> 0 then sh else dh0)"
    and x: "scale_ok sw dw" "small sx" "small dx" and y: "scale_ok sh dh" "small sy" "small dy"
  shows "\<exists>g' dst'. wg_gdi_draw_bitmap can hdc dx dy dw0 dh0 hb sx sy sw0 sh0 g = Some g' \<and> wf_gdi g'
    \<and> dc_shows can hdc g' = Some (buf, dst', tw, th) \<and> wg_bitmap_pixels hb (g_bmps g') = Some (px, bw, bh)
    \<and> (\<forall>x y. 0 \<le> x \<and> x < tw \<and> 0 \<le> y \<and> y < th \<longrightarrow> pixel dst' tw x y =
        (let X = scaled sx dx sw dw x; Y = scaled sy dy sh dh y
         in if dx \<le> x \<and> x < dx + dw \<and> dy \<le> y \<and> y < dy + dh \<and> 0 \<le> X \<and> X < bw \<and> 0 \<le> Y \<and> Y < bh
            then over (pixel px bw X Y) (pixel dst tw x y) else pixel dst tw x y))"
proof -
  from t obtain win g1 where tg: "dc_target can hdc g = Some (Some (buf, dst, tw, th, win), g1)"
    by (auto simp: dc_shows_def split: option.splits prod.splits)
  note ts = dc_target_spec [OF wf tg]
  have b: "bmp_px (s_bmps (g_bmps g) ! i) = px" "bmp_w (s_bmps (g_bmps g) ! i) = bw" "bmp_h (s_bmps (g_bmps g) ! i) = bh"
    using src(1,2) by (auto simp: wg_bitmap_pixels_def)
  note id = find_bitmapD [OF wf_gdi_bmps [OF wf] src(1)]
  have sok: "fb_ok px bw bh"
    using bitmap_fb_ok [OF wf_bitmapsD(1) [OF wf_gdi_bmps [OF wf] id(1,2)]] by (simp add: b)
  from blit_loops [OF sok ts(1) x y] obtain dst' where
    dl: "foldO (blit_row (Some px) bw bh tw th dx dy dw dh sx sy sw sh) [0..dh - 1] dst = Some dst'" "fb_ok dst' tw th"
    and pix: "\<forall>x y. 0 \<le> x \<and> x < tw \<and> 0 \<le> y \<and> y < th \<longrightarrow> pixel dst' tw x y =
        (let X = scaled sx dx sw dw x; Y = scaled sy dy sh dh y
         in if dx \<le> x \<and> x < dx + dw \<and> dy \<le> y \<and> y < dy + dh \<and> 0 \<le> X \<and> X < bw \<and> 0 \<le> Y \<and> Y < bh
            then over (pixel px bw X Y) (pixel dst tw x y) else pixel dst tw x y)" by blast
  have pos: "\<not> (dw \<le> 0 \<or> dh \<le> 0 \<or> sw \<le> 0 \<or> sh \<le> 0)" using x(1) y(1) by (simp add: scale_ok_def)
  have "blit_pixels can hdc dx dy dw dh i bw bh sx sy sw sh g = Some (put_buf buf dst' (win \<noteq> 0) g1)"
    using pos src(3) dl(1) by (simp add: blit_pixels_def tg ts(2) b Let_def)
  then have "wg_gdi_draw_bitmap can hdc dx dy dw0 dh0 hb sx sy sw0 sh0 g = Some (put_buf buf dst' (win \<noteq> 0) g1)"
    by (simp only: wg_gdi_draw_bitmap_def src(1) option.case Let_def b eff)
  then show ?thesis using ts(3,4) dl(2) src pix by (intro exI [of _ "put_buf buf dst' (win \<noteq> 0) g1"] exI [of _ dst']) simp
qed

text \<open>\<open>wg_gdi_draw_bitmap\<close> draws every pixel of the target rectangle, clipped to the target and to
  the source, from the nearest source pixel of the scaling, composited by its alpha; every other
  pixel and the source stay as they were.  The target is a window's client area or the bitmap
  selected into a memory context, as long as it is not the source itself; a size of zero means
  the natural one.\<close>

theorem draw_bitmap_exact:
  assumes wf: "wf_gdi g" and t: "dc_shows can hdc g = Some (buf, dst, tw, th)"
    and src: "find_bitmap hb (g_bmps g) = Some i" "wg_bitmap_pixels hb (g_bmps g) = Some (px, bw, bh)" "buf \<noteq> Bits i"
    and eff: "sw = (if sw0 \<le> 0 then bw else sw0)" "sh = (if sh0 \<le> 0 then bh else sh0)"
      "dw = (if dw0 \<le> 0 then sw else dw0)" "dh = (if dh0 \<le> 0 then sh else dh0)"
    and x: "scale_ok sw dw" "small sx" "small dx" and y: "scale_ok sh dh" "small sy" "small dy"
  shows "\<exists>g' dst'. wg_gdi_draw_bitmap can hdc dx dy dw0 dh0 hb sx sy sw0 sh0 g = Some g' \<and> wf_gdi g'
    \<and> dc_shows can hdc g' = Some (buf, dst', tw, th) \<and> wg_bitmap_pixels hb (g_bmps g') = Some (px, bw, bh)
    \<and> (\<forall>x y. 0 \<le> x \<and> x < tw \<and> 0 \<le> y \<and> y < th \<longrightarrow> pixel dst' tw x y =
        (let X = scaled sx dx sw dw x; Y = scaled sy dy sh dh y
         in if dx \<le> x \<and> x < dx + dw \<and> dy \<le> y \<and> y < dy + dh \<and> 0 \<le> X \<and> X < bw \<and> 0 \<le> Y \<and> Y < bh
            then over (pixel px bw X Y) (pixel dst tw x y) else pixel dst tw x y))"
  by (rule draw_bitmap_pixels [OF assms])

subsection \<open>From a file to the screen\<close>

lemma dc_shows_bitmaps:
  assumes "dc_shows can hdc g = Some (Client hwnd, dst, w, h)"
  shows "dc_shows can hdc (g\<lparr> g_bmps := b \<rparr>) = Some (Client hwnd, dst, w, h)"
  using assms
  by (auto simp: dc_shows_def dc_target_def Let_def split: option.splits prod.splits if_splits bind_splits)

text \<open>Decoding the BMP file of an image and drawing the bitmap at the origin of a window shows the
  image: every pixel of the client area under it is the image's pixel, composited by its alpha,
  and the rest of the client area is unchanged.\<close>

theorem bmp_on_window:
  assumes wf: "wf_gdi g" and nowrap: "s_next (g_bmps g) \<noteq> - 1"
    and slot: "fst (alloc_slot can (int W) (int H) (g_bmps g)) \<noteq> None"
    and bpp: "bpp = 24 \<or> bpp = 32" and px: "length px = W * H"
    and op: "\<forall>p \<in> set px. if bpp = 24 then ucast (drop_bit 24 p) = (0xFF :: u8) else ucast (drop_bit 24 p) \<noteq> (0 :: u8)"
    and len: "length (enc_bmp bpp td W H px) < 2 ^ 32"
    and dc: "dc_shows can hdc g = Some (Client hwnd, dst, tw, th)"
  shows "\<exists>hb bm g' dst'. wg_bitmap_from_bmp_memory can (Some (enc_bmp bpp td W H px))
        (of_nat (length (enc_bmp bpp td W H px))) (g_bmps g) = Some (hb, bm)
    \<and> wg_gdi_draw_bitmap can hdc 0 0 0 0 hb 0 0 0 0 (g\<lparr> g_bmps := bm \<rparr>) = Some g'
    \<and> dc_shows can hdc g' = Some (Client hwnd, dst', tw, th)
    \<and> (\<forall>x y. 0 \<le> x \<and> x < tw \<and> 0 \<le> y \<and> y < th \<longrightarrow> pixel dst' tw x y =
         (if x < int W \<and> y < int H then over (pixel px (int W) x y) (pixel dst tw x y) else pixel dst tw x y))"
proof -
  from bmp_reload [OF wf_gdi_bmps [OF wf] nowrap slot bpp px op len] obtain hb bm where
    d: "wg_bitmap_from_bmp_memory can (Some (enc_bmp bpp td W H px))
        (of_nat (length (enc_bmp bpp td W H px))) (g_bmps g) = Some (hb, bm)"
    and bm: "wf_bitmaps bm" "wg_bitmap_pixels hb bm = Some (px, int W, int H)" by blast
  let ?g = "g\<lparr> g_bmps := bm \<rparr>"
  have wf': "wf_gdi ?g" by (rule wf_gdi_upd(2) [OF wf bm(1)])
  obtain i where i: "find_bitmap hb (g_bmps ?g) = Some i" using bm(2) by (auto simp: wg_bitmap_pixels_def)
  have dim: "1 \<le> W" "W \<le> 16384" "1 \<le> H" "H \<le> 16384"
    using slot by (auto simp: alloc_slot_def split: if_splits)
  have "int n * int n \<le> 16384 * 16384" if "n \<le> 16384" for n using that by (intro mult_mono) auto
  from this [of W] this [of H] have "int W * int W \<le> 16384 * 16384" "int H * int H \<le> 16384 * 16384" using dim by simp_all
  then have sc: "scale_ok (int W) (int W)" "scale_ok (int H) (int H)" using dim by (simp_all add: scale_ok_def)
  have z: "small 0" by (simp add: small_def)
  have e: "int W = (if (0 :: int) \<le> 0 then int W else 0)" "int H = (if (0 :: int) \<le> 0 then int H else 0)" by simp_all
  from draw_bitmap_pixels [OF wf' dc_shows_bitmaps [OF dc] i _ _ e(1,2,1,2) sc(1) z z sc(2) z z, of px] bm(2)
  obtain g' dst' where g': "wg_gdi_draw_bitmap can hdc 0 0 0 0 hb 0 0 0 0 ?g = Some g'"
    "dc_shows can hdc g' = Some (Client hwnd, dst', tw, th)"
    and pix: "\<forall>x y. 0 \<le> x \<and> x < tw \<and> 0 \<le> y \<and> y < th \<longrightarrow> pixel dst' tw x y =
        (let X = scaled 0 0 (int W) (int W) x; Y = scaled 0 0 (int H) (int H) y
         in if 0 \<le> x \<and> x < 0 + int W \<and> 0 \<le> y \<and> y < 0 + int H \<and> 0 \<le> X \<and> X < int W \<and> 0 \<le> Y \<and> Y < int H
            then over (pixel px (int W) X Y) (pixel dst tw x y) else pixel dst tw x y)" by auto
  have "scaled 0 0 (int W) (int W) x = x" "scaled 0 0 (int H) (int H) x = x" for x
    using dim by (simp_all add: scaled_def)
  then have "\<forall>x y. 0 \<le> x \<and> x < tw \<and> 0 \<le> y \<and> y < th \<longrightarrow> pixel dst' tw x y =
       (if x < int W \<and> y < int H then over (pixel px (int W) x y) (pixel dst tw x y) else pixel dst tw x y)"
    using pix by (simp add: Let_def)
  then show ?thesis using d g' by blast
qed

subsection \<open>The context that stays a memory context\<close>

text \<open>\<open>wg_gdi_get_dc\<close> resets every field of the slot it takes but \<open>is_memdc\<close> and \<open>sel_bitmap\<close>: the
  context of a window that takes the slot of a deleted memory context is still a memory context,
  and everything drawn with bitmaps through it goes into the old bitmap, not the window.\<close>

theorem stale_memory_dc:
  assumes free: "first_idx (\<lambda>d. \<not> dc_used d) (g_dcs g) = Some i"
    and fresh: "\<forall>d \<in> set (g_dcs g). dc_used d \<longrightarrow> dc_handle d \<noteq> g_next_dc g \<and> dc_handle d \<noteq> g_next_dc g + 1"
    and mem: "wg_gdi_create_memory_dc g = (md, g1)" and sel: "wg_gdi_select_bitmap md hb g1 = (prev, g2)"
    and win: "wg_gdi_get_dc hwnd (wg_gdi_delete_dc md g2) = (hdc, g3)"
    and bmp: "wg_bitmap_pixels hb (g_bmps g) = Some (px, bw, bh)" and slot: "find_bitmap hb (g_bmps g) = Some j"
  shows "dc_target can hdc g3 = Some (Some (Bits j, px, bw, bh, 0), g3) \<and> dc_hwnd (g_dcs g3 ! i) = hwnd
    \<and> find_dc hdc g3 = Some i"
proof -
  let ?m = "dc_zero\<lparr> dc_used := True, dc_handle := g_next_dc g, dc_is_memdc := True, dc_bk_color := 0xFFFFFF, dc_bk_mode := 2 \<rparr>"
  have i: "i < length (g_dcs g)" and before: "\<forall>k < i. dc_used (g_dcs g ! k)"
    using free by (simp_all add: first_idx_Some)
  have only: "first_idx (\<lambda>d. dc_used d \<and> dc_handle d = n) ((g_dcs g)[i := c]) = Some i"
    if "dc_used c" "dc_handle c = n" "n = g_next_dc g \<or> n = g_next_dc g + 1" for c n
    using that i fresh by (intro first_idx_unique) (auto simp: nth_list_update set_conv_nth split: if_splits)
  have g1: "md = g_next_dc g" "g1 = g\<lparr> g_dcs := (g_dcs g)[i := ?m], g_next_dc := g_next_dc g + 1 \<rparr>"
    using mem unfolding wg_gdi_create_memory_dc_def free option.case prod.inject by blast+
  have f1: "find_dc md g1 = Some i" by (simp add: find_dc_def g1 only)
  then have g2: "g2 = g\<lparr> g_next_dc := g_next_dc g + 1, g_dcs := (g_dcs g)[i := ?m\<lparr> dc_sel_bitmap := hb \<rparr>] \<rparr>"
    using sel i by (auto simp: wg_gdi_select_bitmap_def put_dc_def g1)
  have "find_dc md g2 = Some i" by (simp add: find_dc_def g2 g1(1) only)
  then have del: "wg_gdi_delete_dc md g2 = g\<lparr> g_next_dc := g_next_dc g + 1, g_dcs := (g_dcs g)[i := ?m\<lparr> dc_sel_bitmap := hb, dc_used := False \<rparr>] \<rparr>"
    using i by (simp add: wg_gdi_delete_dc_def put_dc_def) (simp add: g2)
  have "first_idx (\<lambda>d. \<not> dc_used d) (g_dcs (wg_gdi_delete_dc md g2)) = Some i"
    using i before by (simp add: del first_idx_Some nth_list_update)
  then have g3: "hdc = g_next_dc g + 1" "g_dcs g3 ! i = ?m\<lparr> dc_sel_bitmap := hb, dc_used := True,
        dc_handle := g_next_dc g + 1, dc_hwnd := hwnd, dc_text_color := 0, dc_bk_color := 0xFFFFFF,
        dc_bk_mode := 2, dc_cur_x := 0, dc_cur_y := 0, dc_font_px := 13, dc_font_bold := False, dc_font_name := [] \<rparr>"
      "g_dcs g3 = (g_dcs g)[i := g_dcs g3 ! i]" "g_bmps g3 = g_bmps g"
    using win i by (auto simp: wg_gdi_get_dc_def del)
  have "find_dc hdc g3 = Some i" unfolding find_dc_def g3(1) by (subst g3(3)) (simp add: only g3(2))
  then show ?thesis using bmp slot by (simp add: dc_target_def Let_def g3(2,4) wg_bitmap_pixels_def)
qed

subsection \<open>Examples\<close>

definition demo_bmps :: bitmap_state where
  "demo_bmps = \<lparr> s_bmps = \<lparr> b_used = True, b_handle = WG_HBITMAP_BASE, bmp_w = 2, bmp_h = 2, bmp_px = demo_pixels \<rparr>
     # replicate 63 bitmap_zero, s_next = WG_HBITMAP_BASE + 1 \<rparr>"

lemma demo_bmps_ok: "wf_bitmaps demo_bmps" "find_bitmap WG_HBITMAP_BASE demo_bmps = Some 0"
  "wg_bitmap_pixels WG_HBITMAP_BASE demo_bmps = Some (demo_pixels, 2, 2)"
proof -
  have z: "\<not> b_used (s_bmps demo_bmps ! i)" if "0 < i" "i < MAX_BITMAPS" for i
    using that by (cases i) (simp_all add: demo_bmps_def bitmap_zero_def MAX_BITMAPS_def)
  have u: "i = 0" if "i < MAX_BITMAPS" "b_used (s_bmps demo_bmps ! i)" for i using z that by blast
  show "wf_bitmaps demo_bmps"
    unfolding wf_bitmaps_def
  proof (intro conjI allI impI)
    show "length (s_bmps demo_bmps) = MAX_BITMAPS" by (simp add: demo_bmps_def MAX_BITMAPS_def)
    show "unat WG_HBITMAP_BASE \<le> unat (s_next demo_bmps)" by (simp add: demo_bmps_def WG_HBITMAP_BASE_def)
    fix i j assume i: "i < MAX_BITMAPS" "b_used (s_bmps demo_bmps ! i)"
    then have "i = 0" by (rule u)
    then show "wf_bitmap (s_bmps demo_bmps ! i)" "b_handle (s_bmps demo_bmps ! i) \<noteq> 0"
      "unat (b_handle (s_bmps demo_bmps ! i)) < unat (s_next demo_bmps)"
      by (simp_all add: demo_bmps_def wf_bitmap_def demo_px WG_HBITMAP_BASE_def)
    assume "j < MAX_BITMAPS" "b_used (s_bmps demo_bmps ! j)"
    then show "i = j" using u [of j] \<open>i = 0\<close> by simp
  qed
  show f: "find_bitmap WG_HBITMAP_BASE demo_bmps = Some 0" by (simp add: find_bitmap_def demo_bmps_def)
  then show "wg_bitmap_pixels WG_HBITMAP_BASE demo_bmps = Some (demo_pixels, 2, 2)"
    by (simp add: wg_bitmap_pixels_def) (simp add: demo_bmps_def)
qed

lemma demo_dc_shows: "dc_shows (\<lambda>_. True) 0xDC0000 demo_gdi = Some (Client 0x10000, replicate 16 0xFFF0F0F0, 4, 4)"
proof -
  from demo_dc(3) obtain wm where "wg_wm_get_client (\<lambda>_. True) (dc_hwnd (g_dcs demo_gdi ! 0)) (g_wm demo_gdi)
      = Some (Some (replicate 16 0xFFF0F0F0, 4, 4), wm)" by (rule dc_clientD) (simp add: demo_dc(2))
  then have "wg_wm_get_client (\<lambda>_. True) 0x10000 (g_wm demo_gdi) = Some (Some (replicate 16 0xFFF0F0F0, 4, 4), wm)"
    unfolding demo_dc(1) by simp
  then show ?thesis
    unfolding dc_shows_def dc_target_def demo_dc(2) option.case Let_def demo_dc(1) by (simp add: dc_zero_def)
qed

text \<open>A 2 x 2 image stretched over the 4 x 4 window.\<close>

theorem draw_bitmap_exact_witness:
  "\<exists>g' dst'. wg_gdi_draw_bitmap (\<lambda>_. True) 0xDC0000 0 0 4 4 WG_HBITMAP_BASE 0 0 0 0 (demo_gdi\<lparr> g_bmps := demo_bmps \<rparr>) = Some g'
    \<and> dc_shows (\<lambda>_. True) 0xDC0000 g' = Some (Client 0x10000, dst', 4, 4) \<and> pixel dst' 4 1 3 = 0xFF778899"
proof -
  let ?g = "demo_gdi\<lparr> g_bmps := demo_bmps \<rparr>"
  have c: "scale_ok 2 4" "small 0" by (simp_all add: scale_ok_def small_def)
  have f: "find_bitmap WG_HBITMAP_BASE (g_bmps ?g) = Some 0" "wg_bitmap_pixels WG_HBITMAP_BASE (g_bmps ?g) = Some (demo_pixels, 2, 2)"
    using demo_bmps_ok by simp_all
  have e: "(2 :: int) = (if (0 :: int) \<le> 0 then 2 else 0)" "(4 :: int) = (if (4 :: int) \<le> 0 then 2 else 4)" by simp_all
  from draw_bitmap_exact [OF wf_gdi_upd(2) [OF demo_gdi_ok demo_bmps_ok(1)] dc_shows_bitmaps [OF demo_dc_shows] f _
      e(1,1,2,2) c(1,2,2,1,2,2)] obtain g' dst' where
    g: "wg_gdi_draw_bitmap (\<lambda>_. True) 0xDC0000 0 0 4 4 WG_HBITMAP_BASE 0 0 0 0 ?g = Some g'"
      "dc_shows (\<lambda>_. True) 0xDC0000 g' = Some (Client 0x10000, dst', 4, 4)"
    and p: "\<forall>x y. 0 \<le> x \<and> x < 4 \<and> 0 \<le> y \<and> y < 4 \<longrightarrow> pixel dst' 4 x y =
        (let X = scaled 0 0 2 4 x; Y = scaled 0 0 2 4 y
         in if 0 \<le> x \<and> x < 0 + 4 \<and> 0 \<le> y \<and> y < 0 + 4 \<and> 0 \<le> X \<and> X < 2 \<and> 0 \<le> Y \<and> Y < 2
            then over (pixel demo_pixels 2 X Y) (pixel (replicate 16 0xFFF0F0F0) 4 x y) else pixel (replicate 16 0xFFF0F0F0) 4 x y)"
    by auto
  have "scaled 0 0 2 4 1 = 0" "scaled 0 0 2 4 3 = 1" by (simp_all add: scaled_def)
  moreover have "pixel demo_pixels 2 0 1 = 0xFF778899" by (simp add: pixel_def demo_pixels_def)
  moreover have "over 0xFF778899 d = 0xFF778899" for d by (simp add: over_def channel_def)
  ultimately have "pixel dst' 4 1 3 = 0xFF778899" using p [rule_format, of 1 3] by simp
  with g show ?thesis by blast
qed

theorem bmp_on_window_witness:
  "\<exists>hb bm g' dst'. wg_bitmap_from_bmp_memory (\<lambda>_. True) (Some demo_file) 70 (g_bmps demo_gdi) = Some (hb, bm)
    \<and> wg_gdi_draw_bitmap (\<lambda>_. True) 0xDC0000 0 0 0 0 hb 0 0 0 0 (demo_gdi\<lparr> g_bmps := bm \<rparr>) = Some g'
    \<and> dc_shows (\<lambda>_. True) 0xDC0000 g' = Some (Client 0x10000, dst', 4, 4) \<and> pixel dst' 4 0 0 = 0xFF112233"
proof -
  have b: "g_bmps demo_gdi = bitmap_init"
    by (simp add: demo_gdi_def wg_gdi_get_dc_def gdi_init_def split: option.splits)
  have slot: "fst (alloc_slot (\<lambda>_. True) (int 2) (int 2) (g_bmps demo_gdi)) \<noteq> None" using demo_slot by (simp add: b)
  have nw: "s_next (g_bmps demo_gdi) \<noteq> - 1" using demo_next by (simp add: b)
  have len: "length (enc_bmp 32 False 2 2 demo_pixels) < 2 ^ 32" using demo_bmp(1) by (simp add: demo_file_def)
  from bmp_on_window [OF demo_gdi_ok nw slot _ demo_px len demo_dc_shows, folded demo_file_def] obtain hb bm g' dst' where
    r: "wg_bitmap_from_bmp_memory (\<lambda>_. True) (Some demo_file) (of_nat (length demo_file)) (g_bmps demo_gdi) = Some (hb, bm)"
      "wg_gdi_draw_bitmap (\<lambda>_. True) 0xDC0000 0 0 0 0 hb 0 0 0 0 (demo_gdi\<lparr> g_bmps := bm \<rparr>) = Some g'"
      "dc_shows (\<lambda>_. True) 0xDC0000 g' = Some (Client 0x10000, dst', 4, 4)"
    and p: "\<forall>x y. 0 \<le> x \<and> x < 4 \<and> 0 \<le> y \<and> y < 4 \<longrightarrow> pixel dst' 4 x y =
         (if x < int 2 \<and> y < int 2 then over (pixel demo_pixels (int 2) x y) (pixel (replicate 16 0xFFF0F0F0) 4 x y)
          else pixel (replicate 16 0xFFF0F0F0) 4 x y)" by auto
  have "pixel demo_pixels 2 0 0 = 0xFF112233" by (simp add: pixel_def demo_pixels_def)
  moreover have "over 0xFF112233 d = 0xFF112233" for d by (simp add: over_def channel_def)
  ultimately have "pixel dst' 4 0 0 = 0xFF112233" using p [rule_format, of 0 0] by simp
  with r demo_bmp(1) show ?thesis by auto
qed

theorem stale_memory_dc_witness:
  "\<exists>md g1 prev g2 hdc g3. wg_gdi_create_memory_dc (gdi_init\<lparr> g_bmps := demo_bmps \<rparr>) = (md, g1)
    \<and> wg_gdi_select_bitmap md WG_HBITMAP_BASE g1 = (prev, g2)
    \<and> wg_gdi_get_dc 0x10000 (wg_gdi_delete_dc md g2) = (hdc, g3)
    \<and> dc_target (\<lambda>_. True) hdc g3 = Some (Some (Bits 0, demo_pixels, 2, 2, 0), g3)"
proof -
  let ?g = "gdi_init\<lparr> g_bmps := demo_bmps \<rparr>"
  obtain md g1 prev g2 hdc g3 where c: "wg_gdi_create_memory_dc ?g = (md, g1)"
    "wg_gdi_select_bitmap md WG_HBITMAP_BASE g1 = (prev, g2)" "wg_gdi_get_dc 0x10000 (wg_gdi_delete_dc md g2) = (hdc, g3)"
    by (metis surj_pair)
  have d: "g_dcs ?g = replicate MAX_DCS dc_zero" by (simp add: gdi_init_def)
  have z: "\<not> dc_used dc_zero" by (simp add: dc_zero_def)
  have "first_idx (\<lambda>d. \<not> dc_used d) (g_dcs ?g) = Some 0" unfolding d by (simp add: first_idx_Some MAX_DCS_def z)
  moreover have "\<forall>d \<in> set (g_dcs ?g). dc_used d \<longrightarrow> dc_handle d \<noteq> g_next_dc ?g \<and> dc_handle d \<noteq> g_next_dc ?g + 1"
    unfolding d using z by simp
  moreover have "wg_bitmap_pixels WG_HBITMAP_BASE (g_bmps ?g) = Some (demo_pixels, 2, 2)"
    "find_bitmap WG_HBITMAP_BASE (g_bmps ?g) = Some 0" using demo_bmps_ok by simp_all
  ultimately show ?thesis using stale_memory_dc [OF _ _ c, of 0] c by blast
qed

end
