(* ===== verification/Host_Files.thy ===== *)
theory Host_Files
  imports C_Strings
begin

section \<open>The host's files and streams\<close>

text \<open>
  What the components use of the C library's \<open>FILE\<close> interface and of \<open>mkdir\<close>.  The file system
  holds the content of each file and the directories, both by their absolute component path; a
  path string is walked from the root, \<open>.\<close> and \<open>..\<close> included, and every directory on the way has
  to exist.  There are no links and streams write through to the file.  \<open>allow\<close> says which paths
  the host's permissions let the program open, \<open>room\<close> how many bytes the host accepts in a write.
  A stream remembers whether it was last read or written: on a stream open for both, C leaves a
  write directly after a read undefined, unless the read met the end of the file, and a read
  directly after a write; a seek in between makes either defined.  \<^term>\<open>None\<close> is that undefined
  behaviour.
\<close>

type_synonym dir_path = "string list"

record host_fs =
  hf_file :: "dir_path \<Rightarrow> u8 list option"
  hf_dir :: "dir_path \<Rightarrow> bool"

fun split_path :: "string \<Rightarrow> string \<Rightarrow> string list" where
  "split_path acc [] = [rev acc]"
| "split_path acc (c # cs) = (if c = CHR ''/'' then rev acc # split_path [] cs else split_path (c # acc) cs)"

definition components :: "string \<Rightarrow> string list" where
  "components s = filter (\<lambda>c. c \<noteq> []) (split_path [] s)"

fun walk :: "(dir_path \<Rightarrow> bool) \<Rightarrow> dir_path \<Rightarrow> string list \<Rightarrow> dir_path option" where
  "walk d cur [] = Some cur"
| "walk d cur (c # cs) =
     (if \<not> d cur then None
      else if c = ''.'' then walk d cur cs
      else if c = ''..'' then walk d (butlast cur) cs
      else walk d (cur @ [c]) cs)"

definition resolve_path :: "host_fs \<Rightarrow> string \<Rightarrow> dir_path option" where
  "resolve_path fs s = walk (hf_dir fs) [] (components s)"

definition mkdir :: "string \<Rightarrow> host_fs \<Rightarrow> host_fs" where
  "mkdir s fs =
     (case resolve_path fs s of None \<Rightarrow> fs
      | Some p \<Rightarrow> if hf_dir fs p \<or> hf_file fs p \<noteq> None then fs else fs\<lparr> hf_dir := (hf_dir fs)(p := True) \<rparr>)"

datatype fmode = RB | WB | WB_PLUS | RB_PLUS | AB_PLUS

datatype last_op = NO_IO | DID_READ | DID_WRITE

record stream =
  st_file :: dir_path
  st_pos :: nat
  st_rd :: bool
  st_wr :: bool
  st_app :: bool
  st_last :: last_op

definition fopen :: "(dir_path \<Rightarrow> bool) \<Rightarrow> string \<Rightarrow> fmode \<Rightarrow> host_fs \<Rightarrow> stream option \<times> host_fs" where
  "fopen allow s mode fs =
     (case resolve_path fs s of None \<Rightarrow> (None, fs)
      | Some p \<Rightarrow>
          if hf_dir fs p \<or> \<not> allow p \<or> mode \<in> {RB, RB_PLUS} \<and> hf_file fs p = None then (None, fs)
          else
            (Some \<lparr> st_file = p, st_pos = 0, st_rd = (mode \<noteq> WB), st_wr = (mode \<noteq> RB), st_app = (mode = AB_PLUS),
               st_last = NO_IO \<rparr>,
             if mode \<in> {WB, WB_PLUS} \<or> hf_file fs p = None
             then fs\<lparr> hf_file := (hf_file fs)(p \<mapsto> []) \<rparr> else fs))"

definition st_content :: "stream \<Rightarrow> host_fs \<Rightarrow> u8 list" where
  "st_content f fs = (case hf_file fs (st_file f) of Some bs \<Rightarrow> bs | None \<Rightarrow> [])"

definition fread :: "nat \<Rightarrow> stream \<Rightarrow> host_fs \<Rightarrow> (u8 list \<times> stream) option" where
  "fread n f fs =
     (if \<not> st_rd f \<or> n = 0 then Some ([], f)
      else if st_last f = DID_WRITE then None
      else let bs = take n (drop (st_pos f) (st_content f fs))
           in Some (bs, f\<lparr> st_pos := st_pos f + length bs, st_last := (if length bs < n then NO_IO else DID_READ) \<rparr>))"

text \<open>Writing at \<open>pos\<close> fills a gap behind the end with zeros.\<close>

definition splice :: "u8 list \<Rightarrow> nat \<Rightarrow> u8 list \<Rightarrow> u8 list" where
  "splice old pos bs = take pos (old @ replicate (pos - length old) 0) @ bs @ drop (pos + length bs) old"

definition fwrite :: "nat \<Rightarrow> u8 list \<Rightarrow> stream \<Rightarrow> host_fs \<Rightarrow> (nat \<times> stream \<times> host_fs) option" where
  "fwrite room bs f fs =
     (if \<not> st_wr f \<or> bs = [] then Some (0, f, fs)
      else if st_last f = DID_READ then None
      else
        let old = st_content f fs; pos = (if st_app f then length old else st_pos f); bs = take room bs
        in Some (length bs, f\<lparr> st_pos := pos + length bs, st_last := DID_WRITE \<rparr>,
            if bs = [] then fs else fs\<lparr> hf_file := (hf_file fs)(st_file f \<mapsto> splice old pos bs) \<rparr>))"

datatype whence = SEEK_SET | SEEK_CUR | SEEK_END

definition fseek :: "int \<Rightarrow> whence \<Rightarrow> stream \<Rightarrow> host_fs \<Rightarrow> stream" where
  "fseek off wh f fs =
     (let base = (case wh of SEEK_SET \<Rightarrow> 0 | SEEK_CUR \<Rightarrow> int (st_pos f) | SEEK_END \<Rightarrow> int (length (st_content f fs)))
      in if base + off < 0 then f else f\<lparr> st_pos := nat (base + off), st_last := NO_IO \<rparr>)"

subsection \<open>Facts\<close>

lemma splice_length: "length (splice old pos bs) = max (length old) (pos + length bs)"
  by (simp add: splice_def)

lemma splice_take: "take (length bs) (drop pos (splice old pos bs)) = bs"
  by (simp add: splice_def)

lemma splice_nth:
  assumes "k < length (splice old pos bs)"
  shows "splice old pos bs ! k = (if pos \<le> k \<and> k < pos + length bs then bs ! (k - pos)
           else if k < length old then old ! k else 0)"
  using assms by (auto simp: splice_def nth_append min_def)

lemma splice_end: "splice old (length old) bs = old @ bs"
  by (simp add: splice_def)

lemma fwrite_content:
  assumes "st_wr f" and "bs \<noteq> []" and "0 < room" and "st_last f \<noteq> DID_READ"
  obtains f' fs' where "fwrite room bs f fs = Some (length (take room bs), f', fs')"
    and "st_content f' fs' = splice (st_content f fs) (st_pos f' - length (take room bs)) (take room bs)"
    and "f' = f\<lparr> st_pos := (if st_app f then length (st_content f fs) else st_pos f) + length (take room bs), st_last := DID_WRITE \<rparr>"
    and "\<forall>p. p \<noteq> st_file f \<longrightarrow> hf_file fs' p = hf_file fs p"
  using assms that by (simp add: fwrite_def Let_def st_content_def)

lemma walk_append: "walk d cur (xs @ ys) = (case walk d cur xs of None \<Rightarrow> None | Some c \<Rightarrow> walk d c ys)"
  by (induction d cur xs rule: walk.induct) auto

lemma split_path_acc: "split_path acc s = (rev acc @ hd (split_path [] s)) # tl (split_path [] s)"
proof (induction s arbitrary: acc)
  case (Cons c s)
  show ?case
  proof (cases "c = CHR ''/''")
    case False
    then show ?thesis using Cons.IH [of "c # acc"] Cons.IH [of "[c]"] by simp
  qed simp
qed simp

lemma split_path_slash: "split_path acc (s @ CHR ''/'' # t) = split_path acc s @ split_path [] t"
  by (induction s arbitrary: acc) simp_all

lemma components_slash: "components (s @ CHR ''/'' # t) = components s @ components t"
  by (simp add: components_def split_path_slash)

text \<open>A walk over proper names only goes down.\<close>

lemma walk_down:
  "walk d cur cs = Some p \<Longrightarrow> ''..'' \<notin> set cs \<Longrightarrow> \<exists>r. p = cur @ r"
proof (induction cs arbitrary: cur)
  case (Cons c cs)
  have n: "c \<noteq> ''..''" "''..'' \<notin> set cs" using Cons.prems(2) by auto
  have d: "d cur" using Cons.prems(1) by (auto split: if_splits)
  show ?case
  proof (cases "c = ''.''")
    case True
    then show ?thesis using Cons.IH [OF _ n(2)] Cons.prems(1) d by simp
  next
    case False
    then have "walk d (cur @ [c]) cs = Some p" using Cons.prems(1) n d by simp
    from Cons.IH [OF this n(2)] show ?thesis by auto
  qed
qed simp

end
