(* ===== verification/File_Paths.thy ===== *)
theory File_Paths
  imports Host_Files
begin

section \<open>Windows paths\<close>

text \<open>
  The path half of \<open>Sources/Win32/wg_win32_files.c\<close>: the directory tree (the bottle) that stands
  for the guest's drive C:, and the mapping of Windows paths into it.  The static strings of the
  file are the record \<open>bottle\<close>; a buffer of 1024 bytes cuts what is printed into it.
\<close>

record bottle =
  s_exe_path :: string
  s_exe_dir :: string
  s_wizard_bmp :: string
  s_cwd_win :: string
  s_drive_c :: string
  s_win_path :: "string option"

definition bottle_init :: bottle where
  "bottle_init = \<lparr> s_exe_path = [], s_exe_dir = [], s_wizard_bmp = [], s_cwd_win = [], s_drive_c = [],
     s_win_path = None \<rparr>"

definition wg_files_wizard_bmp :: "bottle \<Rightarrow> string option" where
  "wg_files_wizard_bmp b = (if s_wizard_bmp b \<noteq> [] then Some (s_wizard_bmp b) else None)"

definition wg_files_set_cwd :: "string option \<Rightarrow> bottle \<Rightarrow> bottle" where
  "wg_files_set_cwd win_path b =
     (case win_path of None \<Rightarrow> b\<lparr> s_cwd_win := [] \<rparr> | Some p \<Rightarrow> b\<lparr> s_cwd_win := cut 1024 p \<rparr>)"

definition wg_files_get_cwd :: "bottle \<Rightarrow> string option" where
  "wg_files_get_cwd b = (if s_cwd_win b \<noteq> [] then Some (s_cwd_win b) else None)"

definition mkdir_p :: "string \<Rightarrow> host_fs \<Rightarrow> host_fs" where
  "mkdir_p path fs =
     (if path = [] then fs
      else
        let tmp = cut 1024 path;
            fs = fold (\<lambda>i fs. if tmp ! i = CHR ''/'' then mkdir (take i tmp) fs else fs) [1..<length tmp] fs
        in mkdir tmp fs)"

text \<open>The part before the last separator, \<^term>\<open>None\<close> without one.\<close>

definition before_last_slash :: "string \<Rightarrow> string option" where
  "before_last_slash s =
     (if CHR ''/'' \<in> set s then Some (rev (tl (dropWhile (\<lambda>c. c \<noteq> CHR ''/'') (rev s)))) else None)"

definition wg_files_ensure_parents :: "string \<Rightarrow> host_fs \<Rightarrow> host_fs" where
  "wg_files_ensure_parents real_path fs =
     (if real_path = [] then fs
      else case before_last_slash (cut 1024 real_path) of None \<Rightarrow> fs | Some p \<Rightarrow> mkdir_p p fs)"

definition ensure_bottle :: "bottle \<Rightarrow> host_fs \<Rightarrow> bottle \<times> host_fs" where
  "ensure_bottle b fs =
     (if s_drive_c b \<noteq> [] \<or> s_exe_dir b = [] then (b, fs)
      else
        let drive = (case strstr (s_exe_path b) ''/drive_c/'' of
                       Some dc \<Rightarrow> take (min (length (s_exe_path b) - length dc + length ''/drive_c'') 1023) (s_exe_path b)
                     | None \<Rightarrow> cut 1024 (s_exe_dir b @ ''Bottle/drive_c''));
            fs = mkdir_p drive fs;
            fs = fold (\<lambda>sub. mkdir (cut 1024 (drive @ ''/'' @ sub)))
                   [''Temp'', ''Program Files'', ''Program Files (x86)'', ''windows''] fs
        in (b\<lparr> s_drive_c := drive \<rparr>, fs))"

definition wg_files_drive_c :: "bottle \<Rightarrow> host_fs \<Rightarrow> string \<times> bottle \<times> host_fs" where
  "wg_files_drive_c b fs = (let (b, fs) = ensure_bottle b fs in (s_drive_c b, b, fs))"

definition wg_files_set_exe_path :: "string \<Rightarrow> bottle \<Rightarrow> host_fs \<Rightarrow> bottle \<times> host_fs" where
  "wg_files_set_exe_path path b fs =
     (let p = cut 1024 path
      in ensure_bottle (b\<lparr> s_exe_path := p,
           s_exe_dir := (case before_last_slash p of Some d \<Rightarrow> d @ ''/'' | None \<Rightarrow> p),
           s_drive_c := [], s_win_path := None \<rparr>) fs)"

definition wg_files_reset_win_path_cache :: "bottle \<Rightarrow> bottle" where
  "wg_files_reset_win_path_cache b = b\<lparr> s_win_path := None \<rparr>"

text \<open>The search for the program's file: \<open>ls\<close> is what \<open>opendir\<close> and \<open>readdir\<close> give for a directory,
  \<open>isdir\<close> what \<open>stat\<close> says.  A cycle of links can make it run for ever.\<close>

partial_function (option) find_entry ::
    "(string \<Rightarrow> string list option) \<Rightarrow> (string \<Rightarrow> bool) \<Rightarrow> string \<Rightarrow> string \<Rightarrow> string list \<Rightarrow> string option option" where
  "find_entry ls isdir dir name es =
     (case es of [] \<Rightarrow> Some None
      | e # es \<Rightarrow>
          if take 1 e = ''.'' then find_entry ls isdir dir name es
          else
            let full = cut 1024 (dir @ ''/'' @ e)
            in if strcaseeq e name then Some (Some full)
               else if isdir full
               then do {
                 r \<leftarrow> (case ls full of None \<Rightarrow> Some None | Some sub \<Rightarrow> find_entry ls isdir full name sub);
                 case r of Some p \<Rightarrow> Some (Some p) | None \<Rightarrow> find_entry ls isdir dir name es }
               else find_entry ls isdir dir name es)"

definition find_in_bottle ::
    "(string \<Rightarrow> string list option) \<Rightarrow> (string \<Rightarrow> bool) \<Rightarrow> string \<Rightarrow> string \<Rightarrow> string option option" where
  "find_in_bottle ls isdir dir name =
     (case ls dir of None \<Rightarrow> Some None | Some es \<Rightarrow> find_entry ls isdir dir name es)"

definition to_win :: "string \<Rightarrow> string" where
  "to_win rel = map (\<lambda>c. if c = CHR ''/'' then CHR 0x5C else c)
     (cut 1024 ([CHR ''C'', CHR '':'', CHR 0x5C] @ dropWhile (\<lambda>c. c = CHR ''/'') rel))"

definition wg_files_exe_win_path ::
    "(string \<Rightarrow> string list option) \<Rightarrow> (string \<Rightarrow> bool) \<Rightarrow> bottle \<Rightarrow> host_fs \<Rightarrow> (string \<times> bottle \<times> host_fs) option" where
  "wg_files_exe_win_path ls isdir b fs =
     (case s_win_path b of Some w \<Rightarrow> Some (w, b, fs)
      | None \<Rightarrow> do {
          let (b, fs) = ensure_bottle b fs;
          let dc = s_drive_c b;
          win \<leftarrow> (if dc \<noteq> [] \<and> take (length dc) (s_exe_path b) = dc
                 then Some (to_win (drop (length dc) (s_exe_path b)))
                 else do {
                   let fname = (case before_last_slash (s_exe_path b) of None \<Rightarrow> s_exe_path b
                                | Some d \<Rightarrow> drop (length d + 1) (s_exe_path b));
                   found \<leftarrow> (if dc \<noteq> [] then find_in_bottle ls isdir dc fname else Some None);
                   Some (case found of Some f \<Rightarrow> to_win (drop (length dc) f)
                         | None \<Rightarrow> [CHR ''C'', CHR '':'', CHR 0x5C] @ ''a.exe'') });
          Some (win, b\<lparr> s_win_path := Some win \<rparr>, fs) })"

subsection \<open>Mapping a path\<close>

definition is_sep :: "char \<Rightarrow> bool" where
  "is_sep c \<longleftrightarrow> c = CHR 0x5C \<or> c = CHR ''/''"

text \<open>The character at a position, the terminator at the end.\<close>

definition at :: "string \<Rightarrow> nat \<Rightarrow> char" where
  "at s i = (if i < length s then s ! i else CHR 0x00)"

definition fix_separators :: "string \<Rightarrow> string" where
  "fix_separators s = map (\<lambda>c. if c = CHR 0x5C then CHR ''/'' else c) s"

definition strip_long_prefix :: "string \<Rightarrow> string" where
  "strip_long_prefix s =
     (if is_sep (at s 0) \<and> is_sep (at s 1) \<and> at s 2 = CHR ''?'' \<and> is_sep (at s 3)
      then let s = drop 4 s
           in if strcaseeq (take 4 s) (''UNC'' @ [CHR 0x5C]) \<or> strcaseeq (take 4 s) ''UNC/'' then drop 4 s else s
      else s)"

definition is_letter :: "char \<Rightarrow> bool" where
  "is_letter c \<longleftrightarrow> (let n = of_char c :: nat in 65 \<le> n \<and> n \<le> 90 \<or> 97 \<le> n \<and> n \<le> 122)"

definition drive_at :: "string \<Rightarrow> nat \<Rightarrow> bool" where
  "drive_at s i \<longleftrightarrow> is_letter (at s i) \<and> at s (i + 1) = CHR '':'' \<and> is_sep (at s (i + 2))"

text \<open>The scan for a drive letter from \<open>i\<close> down to 1.\<close>

fun last_drive :: "string \<Rightarrow> nat \<Rightarrow> string" where
  "last_drive s 0 = s"
| "last_drive s (Suc i) = (if drive_at s (Suc i) then drop (Suc i) s else last_drive s i)"

definition is_abs :: "string \<Rightarrow> bool" where
  "is_abs s \<longleftrightarrow> s \<noteq> [] \<and> at s 1 = CHR '':'' \<or> is_sep (at s 0)"

definition drop_drive :: "string \<Rightarrow> string" where
  "drop_drive s = (if s \<noteq> [] \<and> at s 1 = CHR '':'' then drop 2 s else s)"

text \<open>The path below the drive that a Windows path names, \<^term>\<open>None\<close> for the program's own file.\<close>

definition guest_rel :: "bottle \<Rightarrow> string \<Rightarrow> string option" where
  "guest_rel b buf =
     (let src = strip_long_prefix buf;
          src = last_drive src (length src - 3)
      in if strcaseeq src ([CHR ''C'', CHR '':'', CHR 0x5C] @ ''a.exe'') \<or> strcaseeq src ''C:/a.exe'' then None
         else
           let src = (if \<not> is_abs src \<and> s_cwd_win b \<noteq> []
                      then cut 1024 (s_cwd_win b @ [CHR 0x5C] @ src) else src)
           in Some (dropWhile is_sep (drop_drive src)))"

definition wg_files_map_path :: "string \<Rightarrow> bottle \<Rightarrow> host_fs \<Rightarrow> string \<times> bottle \<times> host_fs" where
  "wg_files_map_path buf b fs =
     (let (b, fs) = ensure_bottle b fs
      in case guest_rel b buf of None \<Rightarrow> (s_exe_path b, b, fs)
         | Some p \<Rightarrow>
             let mapped = (if p \<noteq> [] then cut 1024 (s_drive_c b @ ''/'' @ p) else cut 1024 (s_drive_c b))
             in (fix_separators mapped, b, fs))"

subsection \<open>Where mapped paths lead\<close>

lemma fix_separators_append: "fix_separators (s @ t) = fix_separators s @ fix_separators t"
  by (simp add: fix_separators_def)

lemma fix_separators_id: "CHR 0x5C \<notin> set s \<Longrightarrow> fix_separators s = s"
  by (induction s) (auto simp: fix_separators_def)

lemma ensure_bottle_id: "s_drive_c b \<noteq> [] \<Longrightarrow> ensure_bottle b fs = (b, fs)"
  by (simp add: ensure_bottle_def)

lemma map_path_components:
  assumes d: "s_drive_c b \<noteq> []" "CHR 0x5C \<notin> set (s_drive_c b)" and g: "guest_rel b buf = Some p"
    and len: "length (s_drive_c b) + length p < 1023"
  shows "components (fst (wg_files_map_path buf b fs)) = components (s_drive_c b) @ components (fix_separators p)"
proof (cases "p = []")
  case True
  then show ?thesis using d g len
    by (simp add: wg_files_map_path_def ensure_bottle_id cut_def fix_separators_id)
      (simp add: fix_separators_def components_def)
next
  case False
  then have "fst (wg_files_map_path buf b fs) = fix_separators (s_drive_c b @ ''/'' @ p)"
    using g len by (simp add: wg_files_map_path_def ensure_bottle_id [OF d(1)] cut_def)
  also have "\<dots> = s_drive_c b @ CHR ''/'' # fix_separators p"
    using fix_separators_id [OF d(2)] by (simp add: fix_separators_append) (simp add: fix_separators_def)
  finally show ?thesis by (simp add: components_slash)
qed

lemma map_rel_confined:
  assumes d: "s_drive_c b \<noteq> []" "CHR 0x5C \<notin> set (s_drive_c b)" and g: "guest_rel b buf = Some p"
    and len: "length (s_drive_c b) + length p < 1023" and proper: "''..'' \<notin> set (components (fix_separators p))"
    and r: "resolve_path fs' (fst (wg_files_map_path buf b fs)) = Some q"
  shows "\<exists>root rest. resolve_path fs' (s_drive_c b) = Some root \<and> q = root @ rest"
proof -
  have "walk (hf_dir fs') [] (components (s_drive_c b) @ components (fix_separators p)) = Some q"
    using r by (simp add: resolve_path_def map_path_components [OF d g len])
  then obtain root where root: "walk (hf_dir fs') [] (components (s_drive_c b)) = Some root"
    and q: "walk (hf_dir fs') root (components (fix_separators p)) = Some q"
    by (auto simp: walk_append split: option.splits)
  from walk_down [OF q proper] root show ?thesis by (auto simp: resolve_path_def)
qed

text \<open>The components of a Windows path, at both separators; a path climbs if one of them is \<open>..\<close> or
  ends in \<open>:..\<close>, as in the drive-relative \<open>C:..\<close>.\<close>

definition win_components :: "string \<Rightarrow> string list" where
  "win_components s = components (fix_separators s)"

definition up :: "string \<Rightarrow> bool" where
  "up c \<longleftrightarrow> c = ''..'' \<or> (\<exists>u. c = u @ '':..'')"

definition climbs :: "string \<Rightarrow> bool" where
  "climbs s \<longleftrightarrow> (\<exists>c \<in> set (win_components s). up c)"

lemma win_components_sep: "is_sep c \<Longrightarrow> win_components (s @ c # t) = win_components s @ win_components t"
proof -
  assume "is_sep c"
  then have "fix_separators (s @ c # t) = fix_separators s @ CHR ''/'' # fix_separators t"
    by (auto simp: fix_separators_def is_sep_def)
  then show ?thesis by (simp add: win_components_def components_slash)
qed

lemma win_components_Nil [simp]: "win_components [] = []"
  by (simp add: win_components_def fix_separators_def components_def)

lemma win_components_lead: "is_sep c \<Longrightarrow> win_components (c # t) = win_components t"
  using win_components_sep [of c "[]" t] by simp

lemma not_climbs_sep: "\<not> climbs (s @ c # t) \<Longrightarrow> is_sep c \<Longrightarrow> \<not> climbs t"
  by (auto simp: climbs_def win_components_sep)

lemma win_components_dropWhile: "win_components (dropWhile is_sep s) = win_components s"
  by (induction s) (simp_all add: win_components_lead)

text \<open>Putting a character in front lengthens at most the first component.\<close>

lemma win_components_Cons:
  assumes "\<not> is_sep x"
  obtains h cs where "win_components (x # t) = (x # h) # cs" and "win_components t = (if h = [] then cs else h # cs)"
proof -
  let ?sp = "split_path [] (fix_separators t)"
  have x: "fix_separators (x # t) = x # fix_separators t" "x \<noteq> CHR ''/''" using assms by (auto simp: fix_separators_def is_sep_def)
  have "split_path [] (x # fix_separators t) = (x # hd ?sp) # tl ?sp" using split_path_acc [of "[x]" "fix_separators t"] x(2) by simp
  then have "win_components (x # t) = (x # hd ?sp) # filter (\<lambda>c. c \<noteq> []) (tl ?sp)" by (simp add: win_components_def components_def x(1))
  moreover have "?sp = hd ?sp # tl ?sp" using split_path_acc [of "[]" "fix_separators t"] by simp
  then have "win_components t = filter (\<lambda>c. c \<noteq> []) (hd ?sp # tl ?sp)" unfolding win_components_def components_def by metis
  ultimately show thesis using that [of "hd ?sp" "filter (\<lambda>c. c \<noteq> []) (tl ?sp)"] by simp
qed

text \<open>What is left of a path that does not climb does not climb.\<close>

lemma not_climbs_colon:
  assumes n: "\<not> climbs (x # CHR '':'' # t)"
  shows "''..'' \<notin> set (win_components t)"
proof
  assume up2: "''..'' \<in> set (win_components t)"
  have "\<not> is_sep (CHR '':'')" by (simp add: is_sep_def)
  from win_components_Cons [OF this, of t] obtain h cs where a: "win_components (CHR '':'' # t) = (CHR '':'' # h) # cs"
    "win_components t = (if h = [] then cs else h # cs)" .
  have c: "''..'' \<in> set cs \<or> h = ''..''" using up2 a(2) by (auto split: if_splits)
  have xs: "set cs \<subseteq> set (win_components (x # CHR '':'' # t))
    \<and> (CHR '':'' # h \<in> set (win_components (x # CHR '':'' # t)) \<or> x # CHR '':'' # h \<in> set (win_components (x # CHR '':'' # t)))"
  proof (cases "is_sep x")
    case True
    then show ?thesis using a(1) by (auto simp: win_components_lead)
  next
    case False
    from win_components_Cons [OF False, of "CHR '':'' # t"] obtain h2 cs2 where b: "win_components (x # CHR '':'' # t) = (x # h2) # cs2"
      "win_components (CHR '':'' # t) = (if h2 = [] then cs2 else h2 # cs2)" .
    show ?thesis
    proof (cases "h2 = []")
      case True
      then have "cs2 = (CHR '':'' # h) # cs" using a(1) b(2) by simp
      then show ?thesis using b(1) by auto
    next
      case False
      then have "h2 = CHR '':'' # h" "cs2 = cs" using a(1) b(2) by simp_all
      then show ?thesis using b(1) by auto
    qed
  qed
  have "up ''..''" "up '':..''" by (simp_all add: up_def)
  moreover have "up (x # '':..'')" unfolding up_def by (intro disjI2 exI [of _ "[x]"]) simp
  ultimately show False using n xs c by (auto simp: climbs_def)
qed

lemma not_climbs_drop_drive: "\<not> climbs s \<Longrightarrow> ''..'' \<notin> set (win_components (drop_drive s))"
proof (cases "s \<noteq> [] \<and> at s 1 = CHR '':''")
  case True
  assume n: "\<not> climbs s"
  from True obtain x t where s: "s = x # CHR '':'' # t" by (cases s; cases "tl s") (auto simp: at_def split: if_splits)
  show ?thesis using not_climbs_colon [OF n [unfolded s]] s by (simp add: drop_drive_def at_def)
next
  case False
  assume "\<not> climbs s"
  then show ?thesis using False by (auto simp: drop_drive_def climbs_def up_def)
qed

lemma at_drop: "at s k \<noteq> CHR 0x00 \<Longrightarrow> drop k s = at s k # drop (Suc k) s"
  by (auto simp: at_def Cons_nth_drop_Suc split: if_splits)

lemma is_sep_nonzero: "is_sep (at s k) \<Longrightarrow> at s k \<noteq> CHR 0x00"
  by (auto simp: is_sep_def)

lemma not_climbs_behind: "\<not> climbs s \<Longrightarrow> is_sep (at s k) \<Longrightarrow> \<not> climbs (drop (Suc k) s)"
  using not_climbs_sep [of "take k s" "at s k" "drop (Suc k) s"] at_drop [OF is_sep_nonzero, of s k]
  by (metis append_take_drop_id)

lemma tolower_sep: "tolower c = CHR 0x5C \<Longrightarrow> c = CHR 0x5C" "tolower c = CHR ''/'' \<Longrightarrow> c = CHR ''/''"
proof -
  have e: "tolower c = c \<or> (65 \<le> (of_char c :: nat) \<and> (of_char c :: nat) \<le> 90 \<and> (of_char (tolower c) :: nat) = of_char c + 32)"
    by (auto simp: tolower_def Let_def)
  show "tolower c = CHR 0x5C \<Longrightarrow> c = CHR 0x5C" "tolower c = CHR ''/'' \<Longrightarrow> c = CHR ''/''" using e by auto
qed

lemma not_climbs_strip: "\<not> climbs s \<Longrightarrow> \<not> climbs (strip_long_prefix s)"
proof -
  assume n: "\<not> climbs s"
  let ?s = "drop 4 s"
  show ?thesis
  proof (cases "is_sep (at s 0) \<and> is_sep (at s 1) \<and> at s 2 = CHR ''?'' \<and> is_sep (at s 3)")
    case True
    then have n4: "\<not> climbs ?s" using not_climbs_behind [OF n, of 3] by simp
    show ?thesis
    proof (cases "strcaseeq (take 4 ?s) (''UNC'' @ [CHR 0x5C]) \<or> strcaseeq (take 4 ?s) ''UNC/''")
      case unc: True
      then have "length (map tolower (take 4 ?s)) = 4" unfolding strcaseeq_def by (elim disjE) (drule arg_cong [where f = length], simp)+
      then have l: "length (take 4 ?s) = 4" by (simp only: length_map)
      have "map tolower (take 4 ?s) ! 3 = CHR 0x5C \<or> map tolower (take 4 ?s) ! 3 = CHR ''/''"
        using unc unfolding strcaseeq_def by (elim disjE) (simp_all add: tolower_def)
      then have "is_sep (at ?s 3)" using l tolower_sep by (auto simp: is_sep_def at_def)
      then have "\<not> climbs (drop 4 ?s)" using not_climbs_behind [OF n4, of 3] by simp
      then show ?thesis using True unc by (simp add: strip_long_prefix_def Let_def)
    next
      case False
      then show ?thesis using True n4 by (simp add: strip_long_prefix_def Let_def)
    qed
  next
    case False
    then show ?thesis using n unfolding strip_long_prefix_def if_not_P [OF False] by simp
  qed
qed

lemma not_climbs_last_drive: "\<not> climbs s \<Longrightarrow> \<not> climbs (last_drive s k)"
proof (induction k)
  case (Suc k)
  show ?case
  proof (cases "drive_at s (Suc k)")
    case True
    let ?i = "Suc k"
    let ?t = "drop (?i + 3) s"
    have c: "is_letter (at s ?i)" "at s (?i + 1) = CHR '':''" "is_sep (at s (?i + 2))" using True by (simp_all add: drive_at_def)
    have nz: "at s ?i \<noteq> CHR 0x00" using c(1) by (auto simp: is_letter_def)
    have dr: "drop ?i s = [at s ?i, CHR '':''] @ at s (?i + 2) # ?t"
      using at_drop [OF nz] at_drop [of s "?i + 1"] at_drop [OF is_sep_nonzero [OF c(3)]] c(2) by (simp add: numeral_eq_Suc)
    have w: "win_components (drop ?i s) = win_components [at s ?i, CHR '':''] @ win_components ?t"
      unfolding dr by (rule win_components_sep [OF c(3)])
    have ns: "\<not> is_sep (at s ?i)" "\<not> is_sep (CHR '':'')" using c(1) by (auto simp: is_sep_def is_letter_def)
    obtain h cs where "win_components [CHR '':''] = (CHR '':'' # h) # cs" "win_components [] = (if h = [] then cs else h # cs)"
      by (rule win_components_Cons [OF ns(2), of "[]"])
    then have w1: "win_components [CHR '':''] = ['':'']" by (auto split: if_splits)
    obtain h cs where hc: "win_components [at s ?i, CHR '':''] = (at s ?i # h) # cs" "win_components [CHR '':''] = (if h = [] then cs else h # cs)"
      by (rule win_components_Cons [OF ns(1), of "[CHR '':'']"])
    have "\<forall>c \<in> set ((at s ?i # h) # cs). length c \<le> 2 \<and> last c = CHR '':'' \<or> length c = 1 \<and> c \<noteq> []"
      using hc(2) unfolding w1 by (cases "h = []") auto
    then have "\<forall>c \<in> set (win_components [at s ?i, CHR '':'']). length c \<le> 2 \<and> last c = CHR '':'' \<or> length c = 1 \<and> c \<noteq> []"
      unfolding hc(1) .
    then have "\<not> climbs [at s ?i, CHR '':'']" by (fastforce simp: climbs_def up_def)
    moreover have "\<not> climbs ?t" using not_climbs_behind [OF Suc.prems c(3)] by (simp add: numeral_eq_Suc)
    ultimately have "\<not> climbs (drop ?i s)" unfolding climbs_def w by auto
    then show ?thesis using True by simp
  next
    case False
    then show ?thesis using Suc by simp
  qed
qed simp

lemma strip_long_length: "length (strip_long_prefix s) \<le> length s"
  by (simp add: strip_long_prefix_def Let_def)

lemma last_drive_length: "length (last_drive s k) \<le> length s"
  by (induction k) simp_all

lemma strip_suffix: "\<exists>u. s = u @ strip_long_prefix s"
proof -
  have "strip_long_prefix s = drop 0 s \<or> strip_long_prefix s = drop 4 s \<or> strip_long_prefix s = drop 8 s"
    by (simp add: strip_long_prefix_def Let_def)
  then obtain k where "strip_long_prefix s = drop k s" by blast
  then have "s = take k s @ strip_long_prefix s" by (simp only: append_take_drop_id)
  then show ?thesis by (rule exI)
qed

lemma last_drive_suffix: "\<exists>u. s = u @ last_drive s k"
proof (induction k)
  case (Suc k)
  show ?case
  proof (cases "drive_at s (Suc k)")
    case True
    then have "last_drive s (Suc k) = drop (Suc k) s" by simp
    then have "s = take (Suc k) s @ last_drive s (Suc k)" by (simp only: append_take_drop_id)
    then show ?thesis by (rule exI)
  next
    case False
    then have "last_drive s (Suc k) = last_drive s k" by simp
    then show ?thesis using Suc.IH by (simp only:)
  qed
qed simp

text \<open>What is left below the drive.\<close>

lemma guest_rel_proper:
  assumes n: "\<not> climbs buf" "\<not> climbs (s_cwd_win b)" and len: "length (s_cwd_win b) + length buf < 1022" and g: "guest_rel b buf = Some p"
  shows "''..'' \<notin> set (win_components p)" and "length p \<le> length (s_cwd_win b) + length buf + 1"
proof -
  define src where "src = last_drive (strip_long_prefix buf) (length (strip_long_prefix buf) - 3)"
  have src: "\<not> climbs src" "length src \<le> length buf"
    using not_climbs_last_drive [OF not_climbs_strip [OF n(1)]] last_drive_length strip_long_length order_trans by (auto simp: src_def) blast
  define j where "j = (if \<not> is_abs src \<and> s_cwd_win b \<noteq> [] then cut 1024 (s_cwd_win b @ [CHR 0x5C] @ src) else src)"
  have p: "p = dropWhile is_sep (drop_drive j)" using g by (auto simp: guest_rel_def Let_def src_def [symmetric] j_def split: if_splits)
  have c: "cut 1024 (s_cwd_win b @ [CHR 0x5C] @ src) = s_cwd_win b @ CHR 0x5C # src" using len src(2) by (simp add: cut_def)
  have "is_sep (CHR 0x5C)" by (simp add: is_sep_def)
  then have "\<not> climbs j" using src(1) n(2) win_components_sep unfolding j_def c by (auto simp: climbs_def)
  then show "''..'' \<notin> set (win_components p)" using not_climbs_drop_drive by (simp add: p win_components_dropWhile)
  have "length j \<le> length (s_cwd_win b) + length buf + 1" unfolding j_def c using src(2) by simp
  moreover have "length p \<le> length j" unfolding p using length_dropWhile_le [of is_sep "drop 2 j"] length_dropWhile_le [of is_sep j] by (auto simp: drop_drive_def)
  ultimately show "length p \<le> length (s_cwd_win b) + length buf + 1" by simp
qed

text \<open>C11: A Windows path is mapped into the bottle.  Let neither the path nor the stored current
  directory climb, and let them be short enough that no buffer cuts them.  Then the mapped path is
  the program's own file, which happens only for a path that ends in \<open>C:\a.exe\<close> or \<open>C:/a.exe\<close> (in any
  case), or, whatever the host's directories, if it resolves it resolves below the directory of
  drive C:; other drive letters and long-path prefixes included.\<close>

theorem map_path_confined:
  assumes d: "s_drive_c b \<noteq> []" "CHR 0x5C \<notin> set (s_drive_c b)"
    and n: "\<not> climbs buf" "\<not> climbs (s_cwd_win b)" and len: "length (s_drive_c b) + length (s_cwd_win b) + length buf < 1022"
    and r: "resolve_path fs' (fst (wg_files_map_path buf b fs)) = Some q"
  shows "fst (wg_files_map_path buf b fs) = s_exe_path b
        \<and> (\<exists>u c. is_sep c \<and> (\<exists>v. buf = u @ v \<and> strcaseeq v ([CHR ''C'', CHR '':'', c] @ ''a.exe'')))
    \<or> (\<exists>root rest. resolve_path fs' (s_drive_c b) = Some root \<and> q = root @ rest)"
proof (cases "guest_rel b buf")
  case (Some p)
  have l: "length (s_cwd_win b) + length buf < 1022" using len by linarith
  note p = guest_rel_proper [OF n l Some]
  have l2: "length (s_drive_c b) + length p < 1023" using p(2) len by linarith
  show ?thesis using map_rel_confined [OF d Some l2 p(1) [unfolded win_components_def] r] by blast
next
  case None
  let ?src = "last_drive (strip_long_prefix buf) (length (strip_long_prefix buf) - 3)"
  have e: "strcaseeq ?src ([CHR ''C'', CHR '':'', CHR 0x5C] @ ''a.exe'') \<or> strcaseeq ?src ([CHR ''C'', CHR '':'', CHR ''/''] @ ''a.exe'')"
    using None by (simp add: guest_rel_def Let_def split: if_splits)
  have "\<exists>u. buf = u @ ?src" using strip_suffix [of buf] last_drive_suffix by (metis append.assoc)
  then obtain u where "buf = u @ ?src" by blast
  moreover have "is_sep (CHR 0x5C)" "is_sep (CHR ''/'')" by (simp_all add: is_sep_def)
  ultimately have "\<exists>u c. is_sep c \<and> (\<exists>v. buf = u @ v \<and> strcaseeq v ([CHR ''C'', CHR '':'', c] @ ''a.exe''))" using e by blast
  moreover have "fst (wg_files_map_path buf b fs) = s_exe_path b" by (simp add: wg_files_map_path_def ensure_bottle_id [OF d(1)] None)
  ultimately show ?thesis by blast
qed

text \<open>The example: a Windows path that climbs out of its drive.\<close>

definition climbing :: string where
  "climbing = [CHR ''C'', CHR '':'', CHR 0x5C, CHR ''.'', CHR ''.'', CHR 0x5C] @ ''secret.txt''"

lemma climbing_rel: "guest_rel b climbing = Some ([CHR ''.'', CHR ''.'', CHR 0x5C] @ ''secret.txt'')"
proof -
  have s: "strip_long_prefix climbing = climbing" "last_drive climbing (length climbing - 3) = climbing"
    "\<not> strcaseeq climbing ([CHR ''C'', CHR '':'', CHR 0x5C] @ ''a.exe'')" "\<not> strcaseeq climbing ''C:/a.exe''"
    "is_abs climbing" "dropWhile is_sep (drop_drive climbing) = [CHR ''.'', CHR ''.'', CHR 0x5C] @ ''secret.txt''"
    by code_simp+
  then show ?thesis by (simp only: guest_rel_def Let_def) simp
qed

text \<open>A \<open>..\<close> component is not confined: on every bottle the guest's path \<open>C:\..\secret.txt\<close> is
  mapped to the file beside the directory of drive C:, outside it.\<close>

theorem map_path_escapes:
  assumes d: "s_drive_c b \<noteq> []" "CHR 0x5C \<notin> set (s_drive_c b)" and len: "length (s_drive_c b) < 1000"
    and root: "resolve_path fs (s_drive_c b) = Some root" "root \<noteq> []" "hf_dir fs root" "hf_dir fs (butlast root)"
      "last root \<noteq> ''secret.txt''"
  shows "\<exists>q. resolve_path fs (fst (wg_files_map_path climbing b fs)) = Some q \<and> (\<nexists>rest. q = root @ rest)"
proof (intro exI conjI notI)
  let ?p = "[CHR ''.'', CHR ''.'', CHR 0x5C] @ ''secret.txt''"
  have c: "components (fix_separators ?p) = [''..'', ''secret.txt'']" by code_simp
  have l: "length (s_drive_c b) + length ?p < 1023" using len by simp
  show "resolve_path fs (fst (wg_files_map_path climbing b fs)) = Some (butlast root @ [''secret.txt''])"
    using root unfolding resolve_path_def map_path_components [OF d climbing_rel l] c by (simp add: walk_append)
  assume "\<exists>rest. butlast root @ [''secret.txt''] = root @ rest"
  then obtain rest where r: "butlast root @ [''secret.txt''] = root @ rest" by blast
  have "length rest = 0" using arg_cong [OF r, of length] root(2) by (simp add: length_butlast)
  then have "butlast root @ [''secret.txt''] = butlast root @ [last root]" using r root(2) by simp
  then show False using root(5) by simp
qed

text \<open>A bottle in \<open>/data/drive_c\<close>.\<close>

definition demo_bottle :: bottle where
  "demo_bottle = bottle_init\<lparr> s_exe_path := ''/data/drive_c/app.exe'', s_exe_dir := ''/data/drive_c/'', s_drive_c := ''/data/drive_c'' \<rparr>"

definition demo_fs :: host_fs where
  "demo_fs = \<lparr> hf_file = (\<lambda>_. None), hf_dir = (\<lambda>p. p \<in> {[], [''data''], [''data'', ''drive_c'']}) \<rparr>"

lemma demo_bottle_ok: "s_drive_c demo_bottle = ''/data/drive_c''" "CHR 0x5C \<notin> set (s_drive_c demo_bottle)"
  "resolve_path demo_fs (s_drive_c demo_bottle) = Some [''data'', ''drive_c'']"
  by code_simp+

theorem map_path_confined_witness:
  "\<exists>root rest. resolve_path demo_fs (s_drive_c demo_bottle) = Some root \<and> [''data'', ''drive_c'', ''save''] = root @ rest"
proof -
  let ?buf = "[CHR ''D'', CHR '':'', CHR 0x5C] @ ''save''"
  have c: "win_components ?buf = [''D:'', ''save'']" "win_components (s_cwd_win demo_bottle) = []" by code_simp+
  then have n: "\<not> climbs ?buf" "\<not> climbs (s_cwd_win demo_bottle)" by (auto simp: climbs_def up_def append_eq_Cons_conv Cons_eq_append_conv)
  have l: "length (s_drive_c demo_bottle) + length (s_cwd_win demo_bottle) + length ?buf < 1022" by code_simp
  have d: "s_drive_c demo_bottle \<noteq> []" by (simp add: demo_bottle_ok(1))
  have r: "resolve_path demo_fs (fst (wg_files_map_path ?buf demo_bottle demo_fs)) = Some [''data'', ''drive_c'', ''save'']"
    and ne: "fst (wg_files_map_path ?buf demo_bottle demo_fs) \<noteq> s_exe_path demo_bottle" by code_simp+
  show ?thesis using map_path_confined [OF d demo_bottle_ok(2) n l r] ne by blast
qed

theorem map_path_escapes_witness:
  "\<exists>q. resolve_path demo_fs (fst (wg_files_map_path climbing demo_bottle demo_fs)) = Some q
    \<and> (\<nexists>rest. q = [''data'', ''drive_c''] @ rest)"
  using map_path_escapes [OF _ demo_bottle_ok(2) _ demo_bottle_ok(3)] by (simp add: demo_bottle_ok(1) demo_fs_def)

end
