(* ===== verification/Files.thy ===== *)
theory Files
  imports File_Paths Handle_Table
begin

section \<open>File handles\<close>

text \<open>
  The handle half of \<open>Sources/Win32/wg_win32_files.c\<close>: a table of 64 open files, each on a host
  stream, on nothing (a null handle that swallows writes), or on a buffer that replaces what is
  read from an engine configuration file.  \<open>allow\<close> is the host's permission to open a path and
  \<open>can\<close> says which sizes \<open>malloc\<close> serves.  An access through a null stream pointer and a signed
  overflow are undefined behaviour, hence \<^term>\<open>None\<close>.
\<close>

definition WG_MAX_FILE_HANDLES :: nat where "WG_MAX_FILE_HANDLES = 64"
definition WG_FILE_HANDLE_BASE :: u32 where "WG_FILE_HANDLE_BASE = 0x100"

record WGFileEntry =
  fe_fp :: "stream option"
  fe_handle :: u32
  fe_in_use :: bool
  fe_path :: string
  fe_inj :: "u8 list option"
  fe_inj_pos :: int

record files_state =
  f_bottle :: bottle
  f_fs :: host_fs
  s_files :: "WGFileEntry list"
  s_next_handle :: u32

definition file_zero :: WGFileEntry where
  "file_zero = \<lparr> fe_fp = None, fe_handle = 0, fe_in_use = False, fe_path = [], fe_inj = None, fe_inj_pos = 0 \<rparr>"

definition files_init :: "host_fs \<Rightarrow> files_state" where
  "files_init fs = \<lparr> f_bottle = bottle_init, f_fs = fs, s_files = replicate WG_MAX_FILE_HANDLES file_zero,
     s_next_handle = WG_FILE_HANDLE_BASE \<rparr>"

subsection \<open>Opening\<close>

definition file_mode :: "u32 \<Rightarrow> u32 \<Rightarrow> fmode" where
  "file_mode access creation =
     (let wants_write = access AND 0x40000000 \<noteq> 0
      in if creation = 1 then (if wants_write then WB_PLUS else RB)
         else if creation = 2 then WB_PLUS
         else if creation = 3 then (if wants_write then RB_PLUS else RB)
         else if creation = 4 then (if wants_write then AB_PLUS else RB)
         else if creation = 5 then WB
         else (if wants_write then WB_PLUS else RB))"

definition INJ :: "u8 list" where
  "INJ = map (\<lambda>c. of_nat (of_char c)) ([CHR 0x0A] @ ''[Animation.DefaultObjectSettings]'' @ [CHR 0x0A]
     @ ''BoneCompressionSettings='' @ [CHR 0x22] @ ''/Engine/Animation/DefaultAnimBoneCompressionSettings'' @ [CHR 0x22, CHR 0x0A]
     @ ''CurveCompressionSettings='' @ [CHR 0x22] @ ''/Engine/Animation/DefaultAnimCurveCompressionSettings'' @ [CHR 0x22, CHR 0x0A])"

definition injected :: "string \<Rightarrow> bool" where
  "injected path \<longleftrightarrow> strcasestr path ''Config'' \<and> strcasestr path ''Engine.ini'' \<and> \<not> strcasestr path ''GameUserSettings''"

text \<open>The new entry of an opened file: the stream, and the buffer that replaces it for reading.  The
  read follows a seek, so it is defined.\<close>

definition inject :: "(int \<Rightarrow> bool) \<Rightarrow> stream \<Rightarrow> host_fs \<Rightarrow> stream \<times> u8 list option" where
  "inject can fp fs =
     (let flen = length (st_content fp fs);
          fp = fseek 0 SEEK_SET fp fs
      in if can (int flen + int (length INJ))
         then (case fread flen fp fs of Some (got, fp) \<Rightarrow> (fseek 0 SEEK_SET fp fs, Some (got @ INJ)) | None \<Rightarrow> (fp, None))
         else (fp, None))"

definition wizard_path :: "string \<Rightarrow> bool" where
  "wizard_path path \<longleftrightarrow> strcasestr path ''wizard'' \<and> strcasestr path ''.bmp''"

definition open_retry ::
    "(dir_path \<Rightarrow> bool) \<Rightarrow> string \<Rightarrow> fmode \<Rightarrow> bool \<Rightarrow> host_fs \<Rightarrow> stream option \<times> host_fs" where
  "open_retry allow path mode create fs =
     (case fopen allow path mode fs of
        (Some fp, fs) \<Rightarrow> (Some fp, fs)
      | (None, fs) \<Rightarrow> if create then fopen allow path mode (wg_files_ensure_parents path fs) else (None, fs))"

definition wg_files_create ::
    "(dir_path \<Rightarrow> bool) \<Rightarrow> (int \<Rightarrow> bool) \<Rightarrow> string option \<Rightarrow> u32 \<Rightarrow> u32 \<Rightarrow> files_state \<Rightarrow> u32 \<times> files_state" where
  "wg_files_create allow can real_path access creation s =
     (case real_path of None \<Rightarrow> (0xFFFFFFFF, s)
      | Some path \<Rightarrow>
          if path = [] then (0xFFFFFFFF, s)
          else case open_retry allow path (file_mode access creation) (creation = 2 \<or> creation = 4) (f_fs s) of
            (None, fs) \<Rightarrow> (0xFFFFFFFF, s\<lparr> f_fs := fs \<rparr>)
          | (Some fp, fs) \<Rightarrow>
              (case first_idx (\<lambda>e. \<not> fe_in_use e) (s_files s) of
                 None \<Rightarrow> (0xFFFFFFFF, s\<lparr> f_fs := fs \<rparr>)
               | Some i \<Rightarrow>
                   let (fp, inj_buf) = (if injected path then inject can fp fs else (fp, None));
                       e = \<lparr> fe_fp = Some fp, fe_handle = s_next_handle s, fe_in_use = True,
                             fe_path = cut 512 path, fe_inj = inj_buf, fe_inj_pos = 0 \<rparr>;
                       b = (if wizard_path path then (f_bottle s)\<lparr> s_wizard_bmp := cut 1024 path \<rparr> else f_bottle s)
                   in (s_next_handle s, \<lparr> f_bottle = b, f_fs = fs, s_files = (s_files s)[i := e],
                         s_next_handle = s_next_handle s + 1 \<rparr>)))"

definition wg_files_create_null :: "files_state \<Rightarrow> u32 \<times> files_state" where
  "wg_files_create_null s =
     (case first_idx (\<lambda>e. \<not> fe_in_use e) (s_files s) of
        None \<Rightarrow> (0xFFFFFFFF, s)
      | Some i \<Rightarrow> (s_next_handle s, s\<lparr> s_files := (s_files s)[i := (s_files s ! i)\<lparr> fe_fp := None,
            fe_handle := s_next_handle s, fe_in_use := True, fe_path := ''/dev/null'' \<rparr>],
            s_next_handle := s_next_handle s + 1 \<rparr>))"

subsection \<open>Reading, writing and seeking\<close>

definition find_file :: "u32 \<Rightarrow> files_state \<Rightarrow> nat option" where
  "find_file h s = first_idx (\<lambda>e. fe_in_use e \<and> fe_handle e = h) (s_files s)"

definition put_file :: "nat \<Rightarrow> WGFileEntry \<Rightarrow> files_state \<Rightarrow> files_state" where
  "put_file i e s = s\<lparr> s_files := (s_files s)[i := e] \<rparr>"

definition inj_read :: "nat \<Rightarrow> u8 list \<Rightarrow> int \<Rightarrow> u8 list \<times> int" where
  "inj_read bytes inj_buf pos =
     (let avail = max 0 (int (length inj_buf) - pos);
          n = (if int bytes < avail then int bytes else avail)
      in (take (nat n) (drop (nat pos) inj_buf), pos + n))"

text \<open>The bytes stored into the caller's buffer, the inner \<^term>\<open>None\<close> for an unknown handle; the outer
  one is undefined behaviour of the stream.\<close>

definition wg_files_read :: "u32 \<Rightarrow> u32 \<Rightarrow> files_state \<Rightarrow> (u8 list option \<times> files_state) option" where
  "wg_files_read h bytes s =
     (case find_file h s of None \<Rightarrow> Some (None, s)
      | Some i \<Rightarrow>
          let f = s_files s ! i
          in case fe_inj f of
               Some inj_buf \<Rightarrow> let (bs, pos) = inj_read (unat bytes) inj_buf (fe_inj_pos f)
                           in Some (Some bs, put_file i (f\<lparr> fe_inj_pos := pos \<rparr>) s)
             | None \<Rightarrow>
                 (case fe_fp f of None \<Rightarrow> Some (Some (replicate (unat bytes) 0), s)
                  | Some fp \<Rightarrow> map_option (\<lambda>(bs, fp). (Some bs, put_file i (f\<lparr> fe_fp := Some fp \<rparr>) s))
                                 (fread (unat bytes) fp (f_fs s))))"

definition wg_files_write :: "nat \<Rightarrow> u32 \<Rightarrow> u8 list \<Rightarrow> files_state \<Rightarrow> (nat option \<times> files_state) option" where
  "wg_files_write room h bs s =
     (case find_file h s of None \<Rightarrow> Some (None, s)
      | Some i \<Rightarrow>
          let f = s_files s ! i
          in case fe_fp f of None \<Rightarrow> Some (Some (length bs), s)
             | Some fp \<Rightarrow> map_option (\<lambda>(n, fp, fs). (Some n, (put_file i (f\<lparr> fe_fp := Some fp \<rparr>) s)\<lparr> f_fs := fs \<rparr>))
                            (fwrite room bs fp (f_fs s)))"

definition wg_files_get_size :: "u32 \<Rightarrow> files_state \<Rightarrow> u32 \<times> files_state" where
  "wg_files_get_size h s =
     (case find_file h s of None \<Rightarrow> (0xFFFFFFFF, s)
      | Some i \<Rightarrow>
          let f = s_files s ! i
          in case fe_inj f of Some inj_buf \<Rightarrow> (of_nat (length inj_buf), s)
             | None \<Rightarrow>
                 (case fe_fp f of None \<Rightarrow> (0, s)
                  | Some fp \<Rightarrow>
                      let pos = st_pos fp; fp = fseek 0 SEEK_END fp (f_fs s); size = st_pos fp; fp = fseek (int pos) SEEK_SET fp (f_fs s)
                      in (of_nat size, put_file i (f\<lparr> fe_fp := Some fp \<rparr>) s)))"

definition clamp_pos :: "int \<Rightarrow> int \<Rightarrow> int" where
  "clamp_pos len pos = (let pos = (if pos < 0 then 0 else pos) in if pos > len then len else pos)"

definition inj_base :: "u32 \<Rightarrow> WGFileEntry \<Rightarrow> u8 list \<Rightarrow> int" where
  "inj_base method f inj_buf = (if method = 1 then fe_inj_pos f else if method = 2 then int (length inj_buf) else 0)"

definition seek_whence :: "u32 \<Rightarrow> whence" where
  "seek_whence method = (if method = 1 then SEEK_CUR else if method = 2 then SEEK_END else SEEK_SET)"

definition wg_files_set_pointer :: "u32 \<Rightarrow> u32 \<Rightarrow> u32 \<Rightarrow> files_state \<Rightarrow> (u32 \<times> files_state) option" where
  "wg_files_set_pointer h distance method s =
     (case find_file h s of None \<Rightarrow> Some (0xFFFFFFFF, s)
      | Some i \<Rightarrow>
          let f = s_files s ! i
          in case fe_inj f of
               Some inj_buf \<Rightarrow>
                 let p = inj_base method f inj_buf + sint distance
                 in if \<not> in_i64 p then None
                    else let p = clamp_pos (int (length inj_buf)) p
                         in Some (of_int p, put_file i (f\<lparr> fe_inj_pos := p \<rparr>) s)
             | None \<Rightarrow>
                 (case fe_fp f of None \<Rightarrow> None
                  | Some fp \<Rightarrow> let fp = fseek (sint distance) (seek_whence method) fp (f_fs s)
                               in Some (of_nat (st_pos fp), put_file i (f\<lparr> fe_fp := Some fp \<rparr>) s)))"

definition wg_files_set_pointer_64 :: "u32 \<Rightarrow> u64 \<Rightarrow> u32 \<Rightarrow> files_state \<Rightarrow> (u64 \<times> files_state) option" where
  "wg_files_set_pointer_64 h offset method s =
     (case find_file h s of None \<Rightarrow> Some (0, s)
      | Some i \<Rightarrow>
          let f = s_files s ! i
          in case fe_inj f of
               Some inj_buf \<Rightarrow>
                 let p = inj_base method f inj_buf + sint offset
                 in if \<not> in_i64 p then None
                    else let p = clamp_pos (int (length inj_buf)) p
                         in Some (of_int p, put_file i (f\<lparr> fe_inj_pos := p \<rparr>) s)
             | None \<Rightarrow>
                 (case fe_fp f of None \<Rightarrow> Some (0, s)
                  | Some fp \<Rightarrow> let fp = fseek (sint offset) (seek_whence method) fp (f_fs s)
                               in Some (of_nat (st_pos fp), put_file i (f\<lparr> fe_fp := Some fp \<rparr>) s)))"

subsection \<open>Closing\<close>

text \<open>The copy loop moves the whole file, as far as the host accepts it; the target is opened, and cut
  to nothing, before the first read.  The streams are fresh, so the accesses are defined.\<close>

definition wg_cache_wizard_bmp :: "(dir_path \<Rightarrow> bool) \<Rightarrow> nat \<Rightarrow> string \<Rightarrow> files_state \<Rightarrow> files_state" where
  "wg_cache_wizard_bmp allow room src s =
     (let (dc, b, fs) = wg_files_drive_c (f_bottle s) (f_fs s);
          s = s\<lparr> f_bottle := b, f_fs := fs \<rparr>;
          dst = cut 1024 (dc @ ''/wg_wizard_cache.bmp'')
      in if dc = [] then s
         else case fopen allow src RB fs of
           (None, fs) \<Rightarrow> s\<lparr> f_fs := fs \<rparr>
         | (Some inp, fs) \<Rightarrow>
             (case fopen allow dst WB fs of
                (None, fs) \<Rightarrow> s\<lparr> f_fs := fs \<rparr>
              | (Some outp, fs) \<Rightarrow>
                  let fs = (case fwrite room (st_content inp fs) outp fs of Some (_, _, fs) \<Rightarrow> fs | None \<Rightarrow> fs)
                  in s\<lparr> f_fs := fs, f_bottle := b\<lparr> s_wizard_bmp := cut 1024 dst \<rparr> \<rparr>))"

definition wg_files_close :: "(dir_path \<Rightarrow> bool) \<Rightarrow> nat \<Rightarrow> u32 \<Rightarrow> files_state \<Rightarrow> bool \<times> files_state" where
  "wg_files_close allow room h s =
     (case find_file h s of None \<Rightarrow> (False, s)
      | Some i \<Rightarrow>
          let f = s_files s ! i;
              f = (if fe_inj f \<noteq> None then f\<lparr> fe_inj := None, fe_inj_pos := 0 \<rparr> else f);
              s = (if wizard_path (fe_path f) then wg_cache_wizard_bmp allow room (fe_path f) s else s)
          in (True, put_file i (f\<lparr> fe_in_use := False \<rparr>) s))"

subsection \<open>Well-formed tables\<close>

text \<open>A read position of an injected buffer stays inside it; closed entries have none.\<close>

definition wf_entry :: "WGFileEntry \<Rightarrow> bool" where
  "wf_entry e \<longleftrightarrow> (\<forall>b. fe_inj e = Some b \<longrightarrow> 0 \<le> fe_inj_pos e \<and> fe_inj_pos e \<le> int (length b))"

definition wf_files :: "files_state \<Rightarrow> bool" where
  "wf_files s \<longleftrightarrow> slots_ok fe_in_use fe_handle wf_entry WG_MAX_FILE_HANDLES (s_files s) (s_next_handle s)
     \<and> (\<forall>e \<in> set (s_files s). \<not> fe_in_use e \<longrightarrow> fe_inj e = None)"

lemma find_file_slot: "find_file h s = slot_find fe_in_use fe_handle h (s_files s)"
  by (simp add: find_file_def slot_find_def)

lemma wf_slots: "wf_files s \<Longrightarrow> slots_ok fe_in_use fe_handle wf_entry WG_MAX_FILE_HANDLES (s_files s) (s_next_handle s)"
  by (simp add: wf_files_def)

lemma wf_files_init: "wf_files (files_init fs)"
  by (simp add: wf_files_def slots_ok_def files_init_def file_zero_def)

lemma find_fileD:
  assumes "wf_files s" and "find_file h s = Some i"
  shows "i < WG_MAX_FILE_HANDLES" and "i < length (s_files s)" and "fe_in_use (s_files s ! i)"
    and "fe_handle (s_files s ! i) = h" and "wf_entry (s_files s ! i)"
  using slot_findD [OF assms(2) [unfolded find_file_slot]] slots_okD(1) [OF wf_slots [OF assms(1)]]
    slots_okD(2) [OF wf_slots [OF assms(1)], of i] by simp_all

lemma put_file_sel [simp]: "s_files (put_file i e s) = (s_files s)[i := e]" "f_fs (put_file i e s) = f_fs s"
  "s_next_handle (put_file i e s) = s_next_handle s" "f_bottle (put_file i e s) = f_bottle s"
  by (simp_all add: put_file_def)

lemma find_file_cong: "s_files s = s_files s' \<Longrightarrow> find_file h s = find_file h s'"
  by (simp add: find_file_def)

lemma wf_files_cong: "s_files s = s_files s' \<Longrightarrow> s_next_handle s = s_next_handle s' \<Longrightarrow> wf_files s = wf_files s'"
  by (simp add: wf_files_def)

text \<open>Changing the entry of a handle, and closing it.\<close>

lemma put_file_spec:
  assumes wf: "wf_files s" and f: "find_file h s = Some i" and e: "fe_handle e = h" "wf_entry e" "\<not> fe_in_use e \<longrightarrow> fe_inj e = None"
  shows "wf_files (put_file i e s)"
    and "find_file h' (put_file i e s) = (if h' = h \<and> \<not> fe_in_use e then None else find_file h' s)"
    and "s_files (put_file i e s) ! i = e"
proof -
  note d = find_fileD [OF wf f]
  have eh: "fe_in_use e \<longrightarrow> wf_entry e" "fe_handle e = fe_handle (s_files s ! i)" using e d(4) by simp_all
  note u = slots_upd [OF wf_slots [OF wf] d(1,3) eh]
  have "\<forall>x \<in> set ((s_files s)[i := e]). \<not> fe_in_use x \<longrightarrow> fe_inj x = None"
    using wf e(3) set_update_subset_insert [of "s_files s" i e] by (auto simp: wf_files_def)
  then show "wf_files (put_file i e s)" using u(1) by (simp add: wf_files_def)
  show "find_file h' (put_file i e s) = (if h' = h \<and> \<not> fe_in_use e then None else find_file h' s)"
    using u(2) e(1) by (simp add: find_file_slot)
  show "s_files (put_file i e s) ! i = e" using d(2) by simp
qed

text \<open>Opening: a handle other than the error value names a fresh entry.\<close>

lemma open_retry_stream:
  assumes "open_retry allow path mode create fs = (Some fp, fs')"
  shows "st_pos fp = 0 \<and> st_rd fp = (mode \<noteq> WB) \<and> st_wr fp = (mode \<noteq> RB) \<and> st_app fp = (mode = AB_PLUS)"
  using assms
  by (auto simp: open_retry_def fopen_def split: option.splits if_splits prod.splits)

lemma create_cases:
  assumes c: "wg_files_create allow can rp access creation s = (h, s')" and ok: "h \<noteq> 0xFFFFFFFF"
  obtains path fp fs i where "rp = Some path" and "path \<noteq> []"
    and "open_retry allow path (file_mode access creation) (creation = 2 \<or> creation = 4) (f_fs s) = (Some fp, fs)"
    and "first_idx (\<lambda>e. \<not> fe_in_use e) (s_files s) = Some i" and "h = s_next_handle s"
    and "s' = (let (fp, b) = (if injected path then inject can fp fs else (fp, None))
        in \<lparr> f_bottle = (if wizard_path path then (f_bottle s)\<lparr> s_wizard_bmp := cut 1024 path \<rparr> else f_bottle s), f_fs = fs,
             s_files = (s_files s)[i := \<lparr> fe_fp = Some fp, fe_handle = h, fe_in_use = True,
                             fe_path = cut 512 path, fe_inj = b, fe_inj_pos = 0 \<rparr>],
             s_next_handle = h + 1 \<rparr>)"
  using assms that
  by (auto simp: wg_files_create_def Let_def split: option.splits if_splits prod.splits)

lemma file_create_spec:
  assumes wf: "wf_files s" and c: "wg_files_create allow can rp access creation s = (h, s')" and ok: "h \<noteq> 0xFFFFFFFF"
  shows "wf_files s'" and "find_file h s = None"
    and "\<exists>i e. find_file h s' = Some i \<and> s_files s' = (s_files s)[i := e] \<and> fe_in_use e \<and> fe_handle e = h \<and> i < length (s_files s)
      \<and> \<not> fe_in_use (s_files s ! i)"
    and "h' \<noteq> h \<Longrightarrow> find_file h' s' = find_file h' s"
proof -
  from c ok obtain path fp fs i where free: "first_idx (\<lambda>e. \<not> fe_in_use e) (s_files s) = Some i" and h: "h = s_next_handle s"
    and s': "s' = (let (fp, b) = (if injected path then inject can fp fs else (fp, None))
        in \<lparr> f_bottle = (if wizard_path path then (f_bottle s)\<lparr> s_wizard_bmp := cut 1024 path \<rparr> else f_bottle s), f_fs = fs,
             s_files = (s_files s)[i := \<lparr> fe_fp = Some fp, fe_handle = h, fe_in_use = True,
                             fe_path = cut 512 path, fe_inj = b, fe_inj_pos = 0 \<rparr>],
             s_next_handle = h + 1 \<rparr>)" by (rule create_cases)
  obtain fp2 b where fb: "(if injected path then inject can fp fs else (fp, None)) = (fp2, b)" by fastforce
  let ?e = "\<lparr> fe_fp = Some fp2, fe_handle = h, fe_in_use = True, fe_path = cut 512 path, fe_inj = b, fe_inj_pos = 0 \<rparr>"
  have f: "s_files s' = (s_files s)[i := ?e]" "s_next_handle s' = s_next_handle s + 1" unfolding s' fb by (simp_all add: h)
  have e: "fe_in_use ?e" "wf_entry ?e" "fe_handle ?e = s_next_handle s" by (simp_all add: wf_entry_def h)
  have "(- 1 :: u32) = 0xFFFFFFFF" by simp
  then have nw: "s_next_handle s \<noteq> - 1" using ok h by metis
  note a = slots_alloc [OF wf_slots [OF wf] free e nw]
  have "\<forall>x \<in> set ((s_files s)[i := ?e]). \<not> fe_in_use x \<longrightarrow> fe_inj x = None"
    using wf set_update_subset_insert [of "s_files s" i ?e] by (auto simp: wf_files_def)
  then show "wf_files s'" using a(1) f by (simp add: wf_files_def)
  show "find_file h s = None" unfolding find_file_slot h by (rule slots_fresh [OF wf_slots [OF wf]])
  have il: "i < length (s_files s)" "\<not> fe_in_use (s_files s ! i)" using first_idx_lt [OF free] first_idx_holds [OF free] by simp_all
  show "\<exists>i e. find_file h s' = Some i \<and> s_files s' = (s_files s)[i := e] \<and> fe_in_use e \<and> fe_handle e = h \<and> i < length (s_files s)
      \<and> \<not> fe_in_use (s_files s ! i)"
    using a(2) [of h] f(1) il h by (intro exI [of _ i] exI [of _ ?e]) (simp add: find_file_slot)
  show "h' \<noteq> h \<Longrightarrow> find_file h' s' = find_file h' s" using a(2) [of h'] f(1) h by (simp add: find_file_slot)
qed

lemma file_close_spec:
  assumes wf: "wf_files s"
  shows "wf_files (snd (wg_files_close allow room h s))"
    and "find_file h' (snd (wg_files_close allow room h s)) = (if h' = h then None else find_file h' s)"
    and "h' \<noteq> h \<Longrightarrow> find_file h' s = Some i \<Longrightarrow> s_files (snd (wg_files_close allow room h s)) ! i = s_files s ! i"
proof -
  have "wf_files (snd (wg_files_close allow room h s))
    \<and> find_file h' (snd (wg_files_close allow room h s)) = (if h' = h then None else find_file h' s)
    \<and> (h' \<noteq> h \<longrightarrow> find_file h' s = Some i \<longrightarrow> s_files (snd (wg_files_close allow room h s)) ! i = s_files s ! i)"
  proof (cases "find_file h s")
    case None
    then show ?thesis using wf by (auto simp: wg_files_close_def)
  next
    case (Some j)
    note d = find_fileD [OF wf Some]
    let ?f = "s_files s ! j"
    let ?e = "(if fe_inj ?f \<noteq> None then ?f\<lparr> fe_inj := None, fe_inj_pos := 0 \<rparr> else ?f)\<lparr> fe_in_use := False \<rparr>"
    let ?s = "if wizard_path (fe_path ?f) then wg_cache_wizard_bmp allow room (fe_path ?f) s else s"
    have same: "s_files ?s = s_files s" "s_next_handle ?s = s_next_handle s"
      by (auto simp: wg_cache_wizard_bmp_def Let_def split: prod.splits option.splits)
    have c: "snd (wg_files_close allow room h s) = put_file j ?e ?s"
      using Some by (simp add: wg_files_close_def Let_def)
    have wf': "wf_files ?s" using wf wf_files_cong [OF same] by simp
    have f': "find_file x ?s = find_file x s" for x using find_file_cong [OF same(1)] .
    have e: "fe_handle ?e = h" "wf_entry ?e" "\<not> fe_in_use ?e \<longrightarrow> fe_inj ?e = None"
      using d(4,5) by (auto simp: wf_entry_def)
    note p = put_file_spec [OF wf' _ e, of j]
    have "j \<noteq> i" if "h' \<noteq> h" "find_file h' s = Some i" using find_fileD(4) [OF wf that(2)] d(4) that(1) by auto
    then show ?thesis unfolding c using p(1,2) f' Some same(1) by simp
  qed
  then show "wf_files (snd (wg_files_close allow room h s))"
    and "find_file h' (snd (wg_files_close allow room h s)) = (if h' = h then None else find_file h' s)"
    and "h' \<noteq> h \<Longrightarrow> find_file h' s = Some i \<Longrightarrow> s_files (snd (wg_files_close allow room h s)) ! i = s_files s ! i"
    by blast+
qed

subsection \<open>The table as a handle table\<close>

definition file_lookup :: "files_state \<Rightarrow> u32 \<Rightarrow> WGFileEntry option" where
  "file_lookup s h = map_option (\<lambda>i. s_files s ! i) (find_file h s)"

text \<open>A request: path, access and creation disposition.\<close>

definition file_open :: "(dir_path \<Rightarrow> bool) \<Rightarrow> (int \<Rightarrow> bool) \<Rightarrow> string \<times> u32 \<times> u32 \<Rightarrow> files_state \<Rightarrow> (u32 \<times> files_state) option" where
  "file_open allow can r s =
     (let (path, access, creation) = r; (h, s) = wg_files_create allow can (Some path) access creation s
      in if h = 0xFFFFFFFF then None else Some (h, s))"

lemma file_open_spec:
  assumes wf: "wf_files s" and o: "file_open allow can r s = Some (h, s')"
  shows "file_lookup s h = None" and "\<exists>e. fe_handle e = h \<and> fe_in_use e \<and> file_lookup s' = (file_lookup s)(h \<mapsto> e)"
    and "wf_files s'"
proof -
  obtain path access creation where r: "r = (path, access, creation)" by (cases r)
  have c: "wg_files_create allow can (Some path) access creation s = (h, s')" and ok: "h \<noteq> 0xFFFFFFFF"
    using o by (auto simp: file_open_def r split: prod.splits if_splits)
  note sp = file_create_spec [OF wf c ok]
  show "file_lookup s h = None" using sp(2) by (simp add: file_lookup_def)
  show "wf_files s'" by (rule sp(1))
  from sp(3) obtain i e where e: "find_file h s' = Some i" "s_files s' = (s_files s)[i := e]" "fe_in_use e"
    "fe_handle e = h" "i < length (s_files s)" "\<not> fe_in_use (s_files s ! i)" by blast
  have "file_lookup s' x = ((file_lookup s)(h \<mapsto> e)) x" for x
  proof (cases "x = h")
    case True
    then show ?thesis using e by (simp add: file_lookup_def)
  next
    case False
    have "j \<noteq> i" if "find_file x s = Some j" for j using find_fileD(3) [OF wf that] e(6) by auto
    then show ?thesis using sp(4) [OF False] False e(2) by (cases "find_file x s") (simp_all add: file_lookup_def)
  qed
  then show "\<exists>e. fe_handle e = h \<and> fe_in_use e \<and> file_lookup s' = (file_lookup s)(h \<mapsto> e)"
    using e(3,4) by blast
qed

interpretation file_table: handle_table file_lookup "file_open allow can" "\<lambda>r h e. fe_handle e = h \<and> fe_in_use e" wf_files
  "\<lambda>h s. snd (wg_files_close allow room h s)" for allow can room
proof unfold_locales
  fix s s' :: files_state and r h
  assume "wf_files s" and "file_open allow can r s = Some (h, s')"
  note sp = file_open_spec [OF this]
  show "file_lookup s h = None" by (rule sp(1))
  show "\<exists>e. (fe_handle e = h \<and> fe_in_use e) \<and> file_lookup s' = (file_lookup s)(h \<mapsto> e)" using sp(2) by blast
  show "wf_files s'" by (rule sp(3))
next
  fix s :: files_state and h
  assume wf: "wf_files s"
  note sp = file_close_spec [OF wf, where allow = allow and room = room and h = h]
  show "wf_files (snd (wg_files_close allow room h s))" by (rule sp(1))
  show "file_lookup (snd (wg_files_close allow room h s)) = (file_lookup s)(h := None)"
  proof
    fix x
    show "file_lookup (snd (wg_files_close allow room h s)) x = ((file_lookup s)(h := None)) x"
      using sp(2,3) [of x] by (cases "find_file x s") (auto simp: file_lookup_def)
  qed
qed

text \<open>The table of open files refines a finite map from handles to files: opening any list of files
  gives pairwise different handles that were not open before and leaves every other file as it
  was, and closing them restores the map, whatever the host allows and whatever the closing of a
  wizard bitmap copies.\<close>

theorem file_handles_distinct:
  assumes "wf_files s" and "file_table.alloc_all allow can rs s = Some (hs, s')"
  shows "distinct hs \<and> length hs = length rs \<and> wf_files s' \<and> (\<forall>h \<in> set hs. find_file h s = None)
    \<and> (\<forall>h \<in> set hs. \<exists>i. find_file h s' = Some i) \<and> (\<forall>h. h \<notin> set hs \<longrightarrow> file_lookup s' h = file_lookup s h)
    \<and> file_lookup (fold (\<lambda>h s. snd (wg_files_close allow room h s)) hs s') = file_lookup s"
proof -
  note sp = file_table.alloc_all_spec [OF assms]
  note c2 = sp [THEN conjunct2] and c3 = sp [THEN conjunct2, THEN conjunct2]
  note c4 = c3 [THEN conjunct2]
  note d = sp [THEN conjunct1] c2 [THEN conjunct1] c3 [THEN conjunct1] c4 [THEN conjunct1]
    c4 [THEN conjunct2, THEN conjunct1] c4 [THEN conjunct2, THEN conjunct2]
  have none: "find_file h s = None" if "h \<in> set hs" for h
    using d(4) [rule_format, OF that] by (simp add: file_lookup_def)
  have found: "\<exists>i. find_file h s' = Some i" if mem: "h \<in> set hs" for h
  proof -
    obtain k where k: "k < length rs" "h = hs ! k" using mem unfolding in_set_conv_nth d(2) by blast
    from d(5) [rule_format, OF k(1)] obtain e where "file_lookup s' h = Some e" unfolding k(2) by blast
    then show ?thesis by (auto simp: file_lookup_def)
  qed
  from d(1,2,3,6) none found file_table.alloc_kill_all [OF assms] show ?thesis by blast
qed

text \<open>A fresh table on a small host.\<close>

definition demo_files :: files_state where
  "demo_files = files_init demo_fs"

theorem file_handles_distinct_witness:
  "\<exists>s'. file_table.alloc_all (\<lambda>_. True) (\<lambda>_. True) [(''/data/a'', 0, 2), (''/data/b'', 0, 2)] demo_files = Some ([0x100, 0x101], s')
    \<and> distinct [0x100 :: u32, 0x101]"
proof -
  have "map_option fst (file_table.alloc_all (\<lambda>_. True) (\<lambda>_. True) [(''/data/a'', 0, 2), (''/data/b'', 0, 2)] demo_files)
      = Some [0x100, 0x101]" unfolding file_table.alloc_all.simps by code_simp
  then obtain s' where a: "file_table.alloc_all (\<lambda>_. True) (\<lambda>_. True) [(''/data/a'', 0, 2), (''/data/b'', 0, 2)] demo_files
      = Some ([0x100, 0x101], s')" by (auto simp: map_option_case split: option.splits)
  have wf: "wf_files demo_files" by (simp add: demo_files_def wf_files_init)
  from file_handles_distinct [OF wf a] a show ?thesis by blast
qed

end
