(* ===== verification/File_IO.thy ===== *)
theory File_IO
  imports Files
begin

section \<open>Reading and writing through handles\<close>

text \<open>
  What a guest sees of its files: bytes written are read back, when a write is undefined behaviour,
  the creation dispositions, and the null handles.
\<close>

lemma file_lookup_Some:
  "file_lookup s h = Some e \<longleftrightarrow> (\<exists>i. find_file h s = Some i \<and> s_files s ! i = e)"
  by (auto simp: file_lookup_def)

lemma wg_files_read_stream:
  assumes f: "find_file h s = Some i" "s_files s ! i = e" and e: "fe_inj e = None" "fe_fp e = Some fp" "st_rd fp" "st_last fp \<noteq> DID_WRITE"
    and n: "n \<noteq> 0"
  shows "\<exists>s'. wg_files_read h n s = Some (Some (take (unat n) (drop (st_pos fp) (st_content fp (f_fs s)))), s') \<and> f_fs s' = f_fs s"
  using assms by (simp add: wg_files_read_def fread_def Let_def unat_eq_0)

text \<open>C5: Bytes written through a handle are read back through it.  Take a handle open for reading and
  writing whose last access was not a read, unless one that met the end of the file or was followed
  by a seek, and a host that accepts \<open>room\<close> bytes: a write at the current position (the end of the file
  for an appending handle) reports how many bytes were accepted and splices those into the file's
  content, and after seeking to where it began a read of that length returns exactly them; no other
  file changes.\<close>

theorem file_write_read:
  assumes wf: "wf_files s" and l: "file_lookup s h = Some e"
    and e: "fe_inj e = None" "fe_fp e = Some fp" "st_rd fp" "st_wr fp" "st_last fp \<noteq> DID_READ"
    and p: "p = (if st_app fp then length (st_content fp (f_fs s)) else st_pos fp)"
    and bs: "bs \<noteq> []" "p < 2 ^ 31" "length bs < 2 ^ 32" and room: "0 < room" "ok = take room bs"
  shows "\<exists>s2 s3 s4. wg_files_write room h bs s = Some (Some (length ok), s2)
    \<and> st_content fp (f_fs s2) = splice (st_content fp (f_fs s)) p ok
    \<and> wg_files_set_pointer h (of_nat p) 0 s2 = Some (of_nat p, s3)
    \<and> wg_files_read h (of_nat (length ok)) s3 = Some (Some ok, s4)
    \<and> (\<forall>q. q \<noteq> st_file fp \<longrightarrow> hf_file (f_fs s4) q = hf_file (f_fs s) q)"
proof -
  from l obtain i where f: "find_file h s = Some i" and ei: "s_files s ! i = e" by (auto simp: file_lookup_Some)
  note d = find_fileD [OF wf f]
  obtain fp2 fs2 where w: "fwrite room bs fp (f_fs s) = Some (length ok, fp2, fs2)"
    and c: "st_content fp2 fs2 = splice (st_content fp (f_fs s)) (st_pos fp2 - length ok) ok"
    and fp2: "fp2 = fp\<lparr> st_pos := p + length ok, st_last := DID_WRITE \<rparr>"
    and oth: "\<forall>q. q \<noteq> st_file fp \<longrightarrow> hf_file fs2 q = hf_file (f_fs s) q"
    using fwrite_content [OF e(4) bs(1) room(1) e(5), of "f_fs s"] unfolding p room(2) by blast
  have cont: "st_content fp2 fs2 = splice (st_content fp (f_fs s)) p ok" using c by (simp add: fp2)
  let ?s2 = "(put_file i (e\<lparr> fe_fp := Some fp2 \<rparr>) s)\<lparr> f_fs := fs2 \<rparr>"
  let ?fp3 = "fp2\<lparr> st_pos := p, st_last := NO_IO \<rparr>"
  let ?s3 = "put_file i (e\<lparr> fe_fp := Some ?fp3 \<rparr>) ?s2"
  have eh: "fe_in_use e" "fe_handle e = h" using d(3,4) ei by simp_all
  have w2: "wg_files_write room h bs s = Some (Some (length ok), ?s2)"
    using f ei e(2) w by (simp add: wg_files_write_def Let_def)
  have f2: "find_file h ?s2 = Some i" "find_file h ?s3 = Some i"
    using f d(2) ei eh by (simp_all add: find_file_def first_idx_update_same)
  have e2: "s_files ?s2 ! i = e\<lparr> fe_fp := Some fp2 \<rparr>" "s_files ?s3 ! i = e\<lparr> fe_fp := Some ?fp3 \<rparr>" using d(2) by simp_all
  have "sint (of_nat p :: u32) = int p" using bs(2) by (simp add: signed_of_nat signed_take_bit_int_eq_self)
  then have sp: "wg_files_set_pointer h (of_nat p) 0 ?s2 = Some (of_nat p, ?s3)"
    using f2(1) e2(1) e(1) by (simp add: wg_files_set_pointer_def Let_def fseek_def seek_whence_def put_file_def)
  have "length ok < 2 ^ 32" using bs(3) room(2) by simp
  then have len: "unat (of_nat (length ok) :: u32) = length ok" by (simp add: unat_of_nat)
  have "ok \<noteq> []" using bs(1) room by simp
  then have n0: "of_nat (length ok) \<noteq> (0 :: u32)" using len by (metis length_0_conv unat_0)
  have c3: "st_content ?fp3 (f_fs ?s3) = splice (st_content fp (f_fs s)) p ok" using cont by (simp add: st_content_def)
  have "st_rd ?fp3" using e(3) by (simp add: fp2)
  then obtain s4 where rd: "wg_files_read h (of_nat (length ok)) ?s3 = Some (Some ok, s4)" and fs4: "f_fs s4 = fs2"
    using wg_files_read_stream [OF f2(2) e2(2), of ?fp3 "of_nat (length ok)"] e(1) n0 c3 len splice_take by auto
  have "st_content fp (f_fs ?s2) = splice (st_content fp (f_fs s)) p ok" using cont by (simp add: st_content_def fp2)
  then show ?thesis using w2 sp rd oth fs4 by blast
qed

text \<open>\<open>wg_files_write\<close> never seeks: a write directly after a read that did not meet the end of the
  file, on a handle open for both, is undefined behaviour in C, while Windows defines it.\<close>

theorem write_after_read_undefined:
  assumes wf: "wf_files s" and l: "file_lookup s h = Some e"
    and e: "fe_inj e = None" "fe_fp e = Some fp" "st_rd fp" "st_wr fp" "st_last fp \<noteq> DID_WRITE"
    and n: "n \<noteq> 0" "st_pos fp + unat n \<le> length (st_content fp (f_fs s))" and bs: "bs \<noteq> []"
  shows "\<exists>got s2. wg_files_read h n s = Some (Some got, s2) \<and> wg_files_write room h bs s2 = None"
proof -
  from l obtain i where f: "find_file h s = Some i" and ei: "s_files s ! i = e" by (auto simp: file_lookup_Some)
  note d = find_fileD [OF wf f]
  let ?got = "take (unat n) (drop (st_pos fp) (st_content fp (f_fs s)))"
  let ?fp = "fp\<lparr> st_pos := st_pos fp + unat n, st_last := DID_READ \<rparr>"
  let ?s2 = "put_file i (e\<lparr> fe_fp := Some ?fp \<rparr>) s"
  have fr: "fread (unat n) fp (f_fs s) = Some (?got, ?fp)" using e(3,5) n by (simp add: fread_def Let_def unat_eq_0)
  then have r: "wg_files_read h n s = Some (Some ?got, ?s2)" using f ei e(1,2) by (simp add: wg_files_read_def Let_def)
  have eh: "fe_in_use e" "fe_handle e = h" using d(3,4) ei by simp_all
  have f2: "find_file h ?s2 = Some i" using f d(2) ei eh by (simp add: find_file_def first_idx_update_same)
  have "fwrite room bs ?fp (f_fs ?s2) = None" using e(4) bs by (simp add: fwrite_def)
  then have "wg_files_write room h bs ?s2 = None" using f2 d(2) by (simp add: wg_files_write_def Let_def)
  then show ?thesis using r by blast
qed

text \<open>What a creation disposition does to a file that exists, for an opening with write access:
  CREATE_NEW (1) and CREATE_ALWAYS (2) empty it alike, OPEN_EXISTING (3) keeps it, OPEN_ALWAYS (4)
  keeps it and appends every write, TRUNCATE_EXISTING (5) empties it and gives a handle that
  cannot read.\<close>

theorem open_dispositions:
  assumes wf: "wf_files s" and slot: "first_idx (\<lambda>e. \<not> fe_in_use e) (s_files s) = Some i"
    and nowrap: "s_next_handle s \<noteq> 0xFFFFFFFF"
    and path: "path \<noteq> []" "resolve_path (f_fs s) path = Some p" "\<not> hf_dir (f_fs s) p" "allow p" "\<not> injected path"
    and old: "hf_file (f_fs s) p = Some old" and wr: "access AND 0x40000000 \<noteq> 0" and c: "c \<in> {1, 2, 3, 4, 5}"
  shows "\<exists>h s' e fp. wg_files_create allow can (Some path) access c s = (h, s') \<and> h \<noteq> 0xFFFFFFFF
    \<and> file_lookup s' h = Some e \<and> fe_fp e = Some fp \<and> fe_inj e = None \<and> st_file fp = p \<and> st_pos fp = 0
    \<and> st_content fp (f_fs s') = (if c = 3 \<or> c = 4 then old else [])
    \<and> st_app fp = (c = 4) \<and> st_rd fp = (c \<noteq> 5) \<and> st_wr fp \<and> st_last fp = NO_IO"
proof -
  define mode where "mode = file_mode access c"
  have m: "(mode \<in> {WB, WB_PLUS}) = (c \<noteq> 3 \<and> c \<noteq> 4)" "(mode = AB_PLUS) = (c = 4)" "(mode = WB) = (c = 5)" "mode \<noteq> RB"
    using c wr by (auto simp: mode_def file_mode_def)
  define fp where "fp = \<lparr> st_file = p, st_pos = 0, st_rd = (mode \<noteq> WB), st_wr = (mode \<noteq> RB), st_app = (mode = AB_PLUS),
    st_last = NO_IO \<rparr>"
  define fs where "fs = (if mode \<in> {WB, WB_PLUS} then (f_fs s)\<lparr> hf_file := (hf_file (f_fs s))(p \<mapsto> []) \<rparr> else f_fs s)"
  have "fopen allow path mode (f_fs s) = (Some fp, fs)"
    using path old by (simp add: fopen_def fp_def fs_def)
  then have o: "open_retry allow path mode b (f_fs s) = (Some fp, fs)" for b by (simp add: open_retry_def)
  obtain h s' where cr: "wg_files_create allow can (Some path) access c s = (h, s')" by fastforce
  define e where "e = \<lparr> fe_fp = Some fp, fe_handle = s_next_handle s, fe_in_use = True, fe_path = cut 512 path, fe_inj = None, fe_inj_pos = 0 \<rparr>"
  have s': "h = s_next_handle s" "s_files s' = (s_files s)[i := e]" "f_fs s' = fs"
    using cr path(1,5) slot o by (auto simp: wg_files_create_def Let_def mode_def [symmetric] e_def)
  have h: "h \<noteq> 0xFFFFFFFF" using s'(1) nowrap by simp
  from file_create_spec(3) [OF wf cr h] obtain j where j: "find_file h s' = Some j" by blast
  have "j = i"
  proof (rule ccontr)
    assume ne: "j \<noteq> i"
    note d = find_fileD [OF file_create_spec(1) [OF wf cr h] j]
    have "fe_in_use (s_files s ! j)" "fe_handle (s_files s ! j) = s_next_handle s" "j < WG_MAX_FILE_HANDLES"
      using d ne s'(1,2) by simp_all
    with slots_okD(3) [OF wf_slots [OF wf], of j] show False by simp
  qed
  moreover have "i < length (s_files s)" using first_idx_lt [OF slot] .
  ultimately have "file_lookup s' h = Some e" using j s'(2) by (simp add: file_lookup_def)
  moreover have "st_content fp (f_fs s') = (if c = 3 \<or> c = 4 then old else [])"
    using s'(3) old m(1) by (auto simp: st_content_def fp_def fs_def)
  ultimately show ?thesis using cr h m(2,3,4) by (simp add: e_def fp_def)
qed

text \<open>A null handle swallows every write, reads as zeros and has size zero; seeking it with 32-bit
  offsets is undefined behaviour (the code seeks a null stream), while the 64-bit seek is not.\<close>

theorem null_handle:
  assumes wf: "wf_files s" and slot: "first_idx (\<lambda>e. \<not> fe_in_use e) (s_files s) = Some i"
    and c: "wg_files_create_null s = (h, s')" and h: "h \<noteq> 0xFFFFFFFF"
  shows "wg_files_write room h bs s' = Some (Some (length bs), s')
    \<and> wg_files_read h n s' = Some (Some (replicate (unat n) 0), s') \<and> wg_files_get_size h s' = (0, s')
    \<and> wg_files_set_pointer_64 h off64 m s' = Some (0, s') \<and> wg_files_set_pointer h off m s' = None"
proof -
  define e where "e = (s_files s ! i)\<lparr> fe_fp := None, fe_handle := s_next_handle s, fe_in_use := True, fe_path := ''/dev/null'' \<rparr>"
  have i: "i < length (s_files s)" "\<not> fe_in_use (s_files s ! i)"
    using first_idx_lt [OF slot] first_idx_holds [OF slot] by simp_all
  have s': "h = s_next_handle s" "s_files s' = (s_files s)[i := e]" using c slot by (auto simp: wg_files_create_null_def e_def)
  have inj: "fe_inj (s_files s ! i) = None" using wf i by (simp add: wf_files_def)
  have e: "fe_in_use e" "wf_entry e" "fe_handle e = s_next_handle s" using inj by (simp_all add: wf_entry_def e_def)
  have "(- 1 :: u32) = 0xFFFFFFFF" by simp
  then have nw: "s_next_handle s \<noteq> - 1" using h s'(1) by metis
  have f: "find_file h s' = Some i"
    using slots_alloc(2) [OF wf_slots [OF wf] slot e nw, of h] by (simp add: find_file_slot s'(2)) (simp add: s'(1))
  have at: "s_files s' ! i = e" using s'(2) i by simp
  have n: "fe_inj e = None" "fe_fp e = None" using inj by (simp_all add: e_def)
  show ?thesis
    using n by (simp add: f at wg_files_write_def wg_files_read_def wg_files_get_size_def
        wg_files_set_pointer_64_def wg_files_set_pointer_def Let_def)
qed

text \<open>The example: a save file created in a fresh table.\<close>

definition demo_saved :: "u32 \<times> files_state" where
  "demo_saved = wg_files_create (\<lambda>_. True) (\<lambda>_. True) (Some ''/data/save'') 0xC0000000 2 demo_files"

definition demo_stream :: stream where
  "demo_stream = \<lparr> st_file = [''data'', ''save''], st_pos = 0, st_rd = True, st_wr = True, st_app = False,
    st_last = NO_IO \<rparr>"

lemma demo_free: "first_idx (\<lambda>e. \<not> fe_in_use e) (s_files demo_files) = Some 0" by code_simp

lemma demo_saved_at:
  "fst demo_saved = 0x100" "map_option fe_fp (file_lookup (snd demo_saved) 0x100) = Some (Some demo_stream)"
  "map_option fe_inj (file_lookup (snd demo_saved) 0x100) = Some None" "st_content demo_stream (f_fs (snd demo_saved)) = []"
  by code_simp+

lemma demo_saved_wf: "wf_files (snd demo_saved)"
proof -
  have c: "wg_files_create (\<lambda>_. True) (\<lambda>_. True) (Some ''/data/save'') 0xC0000000 2 demo_files = (0x100, snd demo_saved)"
    using demo_saved_at(1) by (metis demo_saved_def prod.collapse)
  show ?thesis by (rule file_create_spec(1) [OF _ c]) (simp_all add: demo_files_def wf_files_init)
qed

theorem file_write_read_witness:
  "\<exists>s2 s3 s4. wg_files_write 1000 0x100 [7, 8] (snd demo_saved) = Some (Some 2, s2)
    \<and> wg_files_set_pointer 0x100 0 0 s2 = Some (0, s3) \<and> wg_files_read 0x100 2 s3 = Some (Some [7, 8], s4)"
proof -
  from demo_saved_at(2) obtain e where l: "file_lookup (snd demo_saved) 0x100 = Some e" and fp: "fe_fp e = Some demo_stream" by auto
  have ij: "fe_inj e = None" using demo_saved_at(3) l by simp
  have m: "st_rd demo_stream" "st_wr demo_stream" "\<not> st_app demo_stream" "st_pos demo_stream = 0" "st_last demo_stream \<noteq> DID_READ"
    by (simp_all add: demo_stream_def)
  from file_write_read [OF demo_saved_wf l ij fp m(1,2,5) refl, of "[7, 8]" 1000 "[7, 8]"] m show ?thesis by auto
qed

theorem write_after_read_undefined_witness:
  "\<exists>s got s2. wg_files_read 0x100 1 s = Some (Some got, s2) \<and> wg_files_write 1000 0x100 [9] s2 = None"
proof -
  define s where "s = (snd demo_saved)\<lparr> f_fs := (f_fs (snd demo_saved))\<lparr> hf_file := [[''data'', ''save''] \<mapsto> [7, 8]] \<rparr> \<rparr>"
  from demo_saved_at(2) obtain e where l: "file_lookup (snd demo_saved) 0x100 = Some e" and fp: "fe_fp e = Some demo_stream" by auto
  have ij: "fe_inj e = None" using demo_saved_at(3) l by simp
  have l2: "file_lookup s 0x100 = Some e" using l find_file_cong [of s "snd demo_saved"] by (simp add: s_def file_lookup_def)
  have wf: "wf_files s" using demo_saved_wf wf_files_cong [of s "snd demo_saved"] by (simp add: s_def)
  have m: "st_rd demo_stream" "st_wr demo_stream" "st_last demo_stream \<noteq> DID_WRITE"
    "st_pos demo_stream + unat (1 :: u32) \<le> length (st_content demo_stream (f_fs s))"
    by (simp_all add: demo_stream_def s_def st_content_def)
  have "\<exists>got s2. wg_files_read 0x100 1 s = Some (Some got, s2) \<and> wg_files_write 1000 0x100 [9] s2 = None"
    by (rule write_after_read_undefined [OF wf l2 ij fp m(1-3) _ m(4)]) simp_all
  then show ?thesis by blast
qed

theorem open_dispositions_witness:
  "\<exists>h s' e fp. wg_files_create (\<lambda>_. True) (\<lambda>_. True) (Some ''/data/save'') 0x40000000 1
      (demo_files\<lparr> f_fs := demo_fs\<lparr> hf_file := [[''data'', ''save''] \<mapsto> [7]] \<rparr> \<rparr>) = (h, s')
    \<and> file_lookup s' h = Some e \<and> fe_fp e = Some fp \<and> st_content fp (f_fs s') = []"
proof -
  let ?s = "demo_files\<lparr> f_fs := demo_fs\<lparr> hf_file := [[''data'', ''save''] \<mapsto> [7]] \<rparr> \<rparr>"
  have wf: "wf_files ?s" using wf_files_init [of demo_fs] by (simp add: wf_files_def demo_files_def)
  have slot: "first_idx (\<lambda>e. \<not> fe_in_use e) (s_files ?s) = Some 0" using demo_free by simp
  have nw: "s_next_handle ?s \<noteq> 0xFFFFFFFF" by (simp add: demo_files_def files_init_def WG_FILE_HANDLE_BASE_def)
  have r: "resolve_path (f_fs ?s) ''/data/save'' = Some [''data'', ''save'']" "\<not> hf_dir (f_fs ?s) [''data'', ''save'']"
    "\<not> injected ''/data/save''"
    by code_simp+
  from open_dispositions [OF wf slot nw _ r(1,2) _ r(3), where old = "[7]" and access = "0x40000000" and c = "1"
      and allow = "\<lambda>_. True" and can = "\<lambda>_. True"]
  show ?thesis by (simp add: demo_files_def) blast
qed

theorem null_handle_witness:
  "\<exists>s'. wg_files_create_null demo_files = (0x100, s') \<and> wg_files_set_pointer 0x100 4 0 s' = None"
proof -
  have wf: "wf_files demo_files" by (simp add: demo_files_def wf_files_init)
  obtain s' where c: "wg_files_create_null demo_files = (0x100, s')"
    using demo_free by (simp add: wg_files_create_null_def) (simp add: demo_files_def files_init_def WG_FILE_HANDLE_BASE_def)
  from null_handle [OF wf demo_free c] c show ?thesis by simp
qed

end
