(* ===== verification/Log.thy ===== *)
theory Log
  imports C_Strings
begin

section \<open>The log\<close>

text \<open>
  \<open>Sources/Core/wg_log.c\<close>: the level filter, the capped log file, and the ring buffer of recent
  lines.  A message is the text that \<open>vsnprintf\<close> would produce without its buffer; the level is an
  enum without negative values, hence unsigned.  The file is what has been written to it since
  \<open>wg_log_set_file\<close> opened it; when it is flushed is left out.
\<close>

definition WG_LOG_DEBUG :: u32 where "WG_LOG_DEBUG = 0"
definition WG_LOG_ERROR :: u32 where "WG_LOG_ERROR = 3"
definition WG_LOG_FATAL :: u32 where "WG_LOG_FATAL = 4"

definition s_logfile_cap :: nat where "s_logfile_cap = 150 * 1024 * 1024"

definition level_names :: "string list" where
  "level_names = [''DBG'', ''INF'', ''WRN'', ''ERR'', ''FTL'']"

record 'u log_state =
  s_callback :: "'u option"
  s_minLevel :: u32
  s_logfile :: "string option"
  s_logfile_bytes :: nat

definition log_start :: "'u log_state" where
  "log_start = \<lparr> s_callback = None, s_minLevel = WG_LOG_DEBUG, s_logfile = None, s_logfile_bytes = 0 \<rparr>"

text \<open>\<open>opens\<close> says whether \<open>fopen\<close> creates the file.\<close>

definition wg_log_set_file :: "(string \<Rightarrow> bool) \<Rightarrow> string option \<Rightarrow> 'u log_state \<Rightarrow> 'u log_state" where
  "wg_log_set_file opens path s =
     s\<lparr> s_logfile := (case path of None \<Rightarrow> None | Some p \<Rightarrow> if p \<noteq> [] \<and> opens p then Some [] else None),
        s_logfile_bytes := 0 \<rparr>"

definition wg_log_init :: "'u log_state \<Rightarrow> 'u log_state" where
  "wg_log_init s = s\<lparr> s_callback := None, s_minLevel := WG_LOG_DEBUG \<rparr>"

definition wg_log_set_callback :: "'u option \<Rightarrow> 'u log_state \<Rightarrow> 'u log_state" where
  "wg_log_set_callback c s = s\<lparr> s_callback := c \<rparr>"

definition wg_log_set_level :: "u32 \<Rightarrow> 'u log_state \<Rightarrow> 'u log_state" where
  "wg_log_set_level l s = s\<lparr> s_minLevel := l \<rparr>"

text \<open>The level and the text that are printed; the 512-byte buffer cuts the message.\<close>

definition safe_level :: "u32 \<Rightarrow> u32" where
  "safe_level level = (if level \<le> WG_LOG_FATAL then level else WG_LOG_ERROR)"

definition safe_tag :: "string option \<Rightarrow> string" where
  "safe_tag tag = (case tag of None \<Rightarrow> ''?'' | Some t \<Rightarrow> t)"

definition log_text :: "string option \<Rightarrow> string" where
  "log_text fmt = (case fmt of None \<Rightarrow> [] | Some m \<Rightarrow> cut 512 m)"

definition log_line :: "u32 \<Rightarrow> string option \<Rightarrow> string option \<Rightarrow> string" where
  "log_line level tag fmt =
     ''['' @ level_names ! unat (safe_level level) @ ''/'' @ safe_tag tag @ ''] '' @ log_text fmt @ [CHR 0x0A]"

definition cap_line :: string where
  "cap_line = ''[INF/Log] === log cap (150MB) reached; further lines dropped ==='' @ [CHR 0x0A]"

definition log_write :: "string \<Rightarrow> 'u log_state \<Rightarrow> 'u log_state" where
  "log_write line s =
     (case s_logfile s of None \<Rightarrow> s
      | Some out \<Rightarrow>
          if s_logfile_bytes s < s_logfile_cap
          then let b = s_logfile_bytes s + length line
               in s\<lparr> s_logfile := Some (out @ line @ (if s_logfile_cap \<le> b then cap_line else [])), s_logfile_bytes := b \<rparr>
          else s)"

text \<open>What a call prints to the standard error stream and passes to the callback.\<close>

record 'u log_event =
  ev_stderr :: string
  ev_call :: "(u32 \<times> string \<times> string \<times> 'u) option"

definition wg_log :: "u32 \<Rightarrow> string option \<Rightarrow> string option \<Rightarrow> 'u log_state \<Rightarrow> 'u log_event option \<times> 'u log_state" where
  "wg_log level tag fmt s =
     (if level < s_minLevel s then (None, s)
      else
        (Some \<lparr> ev_stderr = log_line level tag fmt,
                ev_call = map_option (\<lambda>u. (safe_level level, safe_tag tag,
                  cut 600 (''['' @ safe_tag tag @ ''] '' @ log_text fmt), u)) (s_callback s) \<rparr>,
         log_write (log_line level tag fmt) s))"

subsection \<open>The ring buffer\<close>

record log_ring =
  rg_lines :: "string list"
  rg_levels :: "u32 list"
  rg_count :: nat
  rg_head :: nat
  rg_capacity :: nat

definition wg_log_ring_init :: log_ring where
  "wg_log_ring_init = \<lparr> rg_lines = replicate 256 [], rg_levels = replicate 256 0, rg_count = 0, rg_head = 0, rg_capacity = 256 \<rparr>"

definition wg_log_ring_push :: "u32 \<Rightarrow> string \<Rightarrow> log_ring \<Rightarrow> log_ring" where
  "wg_log_ring_push level message r =
     r\<lparr> rg_lines := (rg_lines r)[rg_head r := cut 256 message], rg_levels := (rg_levels r)[rg_head r := level],
        rg_head := (rg_head r + 1) mod rg_capacity r,
        rg_count := (if rg_count r < rg_capacity r then rg_count r + 1 else rg_count r) \<rparr>"

definition wg_log_ring_count :: "log_ring \<Rightarrow> nat" where
  "wg_log_ring_count r = rg_count r"

definition wg_log_ring_get :: "log_ring \<Rightarrow> int \<Rightarrow> (string \<times> u32) option" where
  "wg_log_ring_get r index =
     (if index < 0 \<or> int (rg_count r) \<le> index then None
      else
        let start = (rg_head r + rg_capacity r - rg_count r) mod rg_capacity r;
            actual = (start + nat index) mod rg_capacity r
        in Some (rg_lines r ! actual, rg_levels r ! actual))"

definition wf_ring :: "log_ring \<Rightarrow> bool" where
  "wf_ring r \<longleftrightarrow> rg_capacity r = 256 \<and> rg_head r < 256 \<and> rg_count r \<le> 256
     \<and> length (rg_lines r) = 256 \<and> length (rg_levels r) = 256"

text \<open>The queue that the ring implements, oldest line first.\<close>

definition ring_abs :: "log_ring \<Rightarrow> (string \<times> u32) list" where
  "ring_abs r = map (\<lambda>i. let k = (rg_head r + (256 - rg_count r) + i) mod 256 in (rg_lines r ! k, rg_levels r ! k)) [0..<rg_count r]"

lemma ring_get_abs:
  "wf_ring r \<Longrightarrow> wg_log_ring_get r (int i) = (if i < length (ring_abs r) then Some (ring_abs r ! i) else None)"
  by (simp add: wg_log_ring_get_def ring_abs_def wf_ring_def Let_def mod_add_left_eq add.assoc)

lemma ring_init_wf: "wf_ring wg_log_ring_init" "ring_abs wg_log_ring_init = []"
  by (simp_all add: wf_ring_def wg_log_ring_init_def ring_abs_def)

lemma ring_push_wf: "wf_ring r \<Longrightarrow> wf_ring (wg_log_ring_push l m r)"
  by (simp add: wf_ring_def wg_log_ring_push_def)

text \<open>A position below the head's distance is not the head's.\<close>

lemma ring_index_ne:
  fixes h c i :: nat
  assumes "h < 256" "c \<le> 256" "i < c"
  shows "((h + (256 - c) + i) mod 256 = h) = (c = 256 \<and> i = 0)"
proof -
  have "h + (256 - c) + i < 2 * 256" using assms by linarith
  then consider "h + (256 - c) + i < 256" | "256 \<le> h + (256 - c) + i" "(h + (256 - c) + i) mod 256 = h + (256 - c) + i - 256"
    by (metis le_mod_geq mod_less not_less less_diff_conv2 mult_2 add_less_cancel_right)
  then show ?thesis using assms by cases (auto simp: mod_less)
qed

lemma ring_push_abs:
  assumes "wf_ring r"
  shows "ring_abs (wg_log_ring_push l m r) =
    (let q = ring_abs r @ [(cut 256 m, l)] in drop (length q - 256) q)"
proof (rule nth_equalityI)
  note w = assms [unfolded wf_ring_def]
  let ?r = "wg_log_ring_push l m r" let ?q = "ring_abs r @ [(cut 256 m, l)]"
  have la: "length (ring_abs r) = rg_count r" by (simp add: ring_abs_def)
  show "length (ring_abs ?r) = length (let q = ?q in drop (length q - 256) q)"
    using w by (simp add: ring_abs_def wg_log_ring_push_def Let_def)
  fix i assume i: "i < length (ring_abs ?r)"
  let ?c = "rg_count r" let ?h = "rg_head r"
  let ?d = "?c + 1 - 256"
  have c': "rg_count ?r = ?c + 1 - ?d" "i < ?c + 1 - ?d"
    using w i by (cases "?c < 256"; auto simp: ring_abs_def wg_log_ring_push_def)+
  have k: "(rg_head ?r + (256 - rg_count ?r) + i) mod 256 = (?h + (256 - ?c) + (?d + i)) mod 256"
  proof -
    have "rg_head ?r = (?h + 1) mod 256" using w by (simp add: wg_log_ring_push_def)
    then have "(rg_head ?r + (256 - rg_count ?r) + i) mod 256 = ((?h + 1) + ((256 - rg_count ?r) + i)) mod 256"
      using mod_add_left_eq [of "?h + 1" 256 "(256 - rg_count ?r) + i"] by (simp only: add.assoc)
    also have "(?h + 1) + ((256 - rg_count ?r) + i) = ?h + (256 - ?c) + (?d + i)" using w c' by simp
    finally show ?thesis .
  qed
  let ?k = "(?h + (256 - ?c) + (?d + i)) mod 256"
  have at: "ring_abs ?r ! i = ((rg_lines r)[?h := cut 256 m] ! ?k, (rg_levels r)[?h := l] ! ?k)"
    using i k by (simp add: ring_abs_def Let_def wg_log_ring_push_def)
  have q: "(let q = ?q in drop (length q - 256) q) ! i = ?q ! (?d + i)"
    unfolding Let_def by (rule nth_drop [THEN trans]) (simp_all add: la)
  show "ring_abs ?r ! i = (let q = ?q in drop (length q - 256) q) ! i"
  proof (cases "?d + i < ?c")
    case True
    have ne: "?h \<noteq> ?k" using ring_index_ne [of ?h ?c "?d + i"] w True c' by auto
    have "?q ! (?d + i) = ring_abs r ! (?d + i)" using True la by (simp add: nth_append)
    also have "\<dots> = (rg_lines r ! ?k, rg_levels r ! ?k)"
      using True unfolding ring_abs_def Let_def by (subst nth_map_upt) simp_all
    finally show ?thesis unfolding at q using ne by simp
  next
    case False
    then have e: "?d + i = ?c" using c' by simp
    then have "?k = ?h" using w by simp
    then show ?thesis unfolding at q using e w la by (simp add: nth_append)
  qed
qed

definition ring_push_all :: "(u32 \<times> string) list \<Rightarrow> log_ring \<Rightarrow> log_ring" where
  "ring_push_all = fold (\<lambda>(l, m). wg_log_ring_push l m)"

lemma drop_last_append: "drop (length (drop (length a - n) a @ [x]) - n) (drop (length a - n) a @ [x]) = drop (length (a @ [x]) - n) (a @ [x])"
  by (cases "length a < n") (auto simp: Suc_diff_le not_less)

text \<open>C32: The ring buffer is a bounded queue: after any sequence of pushes it holds the last 256
  messages, cut to 255 characters, in their order; reading an index gives the message at that
  place and an index outside the queue gives nothing.\<close>

theorem log_ring_last_256:
  "let r = ring_push_all ms wg_log_ring_init; q = map (\<lambda>(l, m). (cut 256 m, l)) ms; q = drop (length q - 256) q
   in wg_log_ring_count r = length q
     \<and> (\<forall>i. wg_log_ring_get r i = (if i < 0 \<or> int (length q) \<le> i then None else Some (q ! nat i)))"
proof -
  let ?r = "\<lambda>ms. ring_push_all ms wg_log_ring_init" let ?q = "\<lambda>ms. map (\<lambda>(l, m). (cut 256 m, l)) ms"
  have "wf_ring (?r ms) \<and> ring_abs (?r ms) = drop (length (?q ms) - 256) (?q ms)"
  proof (induction ms rule: rev_induct)
    case Nil
    then show ?case using ring_init_wf by (simp add: ring_push_all_def)
  next
    case (snoc x ms)
    obtain l m where x: "x = (l, m)" by (cases x)
    have p: "?r (ms @ [x]) = wg_log_ring_push l m (?r ms)" by (simp add: ring_push_all_def x)
    show ?case unfolding p using snoc ring_push_wf ring_push_abs [of "?r ms" l m] drop_last_append [of "?q ms" 256 "(cut 256 m, l)"]
      by (simp add: Let_def x)
  qed
  then have wf: "wf_ring (?r ms)" and ab: "ring_abs (?r ms) = drop (length (?q ms) - 256) (?q ms)" by auto
  have cnt: "wg_log_ring_count (?r ms) = length (ring_abs (?r ms))" by (simp add: wg_log_ring_count_def ring_abs_def)
  have "wg_log_ring_get (?r ms) i = (if i < 0 \<or> int (length (ring_abs (?r ms))) \<le> i then None else Some (ring_abs (?r ms) ! nat i))" for i
    using ring_get_abs [OF wf, of "nat i"] by (cases "i < 0") (auto simp: wg_log_ring_get_def)
  then show ?thesis using cnt ab by (simp add: Let_def)
qed

subsection \<open>The log file\<close>

definition log_all :: "(u32 \<times> string option \<times> string option) list \<Rightarrow> 'u log_state \<Rightarrow> 'u log_state" where
  "log_all = fold (\<lambda>(l, t, m) s. snd (wg_log l t m s))"

text \<open>The lines that pass the filter.\<close>

definition accepted :: "u32 \<Rightarrow> (u32 \<times> string option \<times> string option) list \<Rightarrow> string list" where
  "accepted m cs = map (\<lambda>(l, t, f). log_line l t f) (filter (\<lambda>c. m \<le> fst c) cs)"

definition log_inv :: "nat \<Rightarrow> string list \<Rightarrow> 'u log_state \<Rightarrow> bool" where
  "log_inv T ls s \<longleftrightarrow> (\<exists>k \<le> length ls. s_logfile_bytes s = length (concat (take k ls))
     \<and> s_logfile s = Some (concat (take k ls) @ (if s_logfile_cap \<le> s_logfile_bytes s then cap_line else []))
     \<and> (k < length ls \<longrightarrow> s_logfile_cap \<le> s_logfile_bytes s) \<and> s_logfile_bytes s < s_logfile_cap + T)"

lemma log_write_inv:
  assumes "log_inv T ls s" and "length line \<le> T"
  shows "log_inv T (ls @ [line]) (log_write line s)"
proof -
  from assms(1) obtain k where k: "k \<le> length ls" "s_logfile_bytes s = length (concat (take k ls))"
    "s_logfile s = Some (concat (take k ls) @ (if s_logfile_cap \<le> s_logfile_bytes s then cap_line else []))"
    "k < length ls \<longrightarrow> s_logfile_cap \<le> s_logfile_bytes s" "s_logfile_bytes s < s_logfile_cap + T"
    unfolding log_inv_def by blast
  show ?thesis
  proof (cases "s_logfile_bytes s < s_logfile_cap")
    case True
    then have "k = length ls" using k(1,4) by auto
    then show ?thesis unfolding log_inv_def using k True assms(2)
      by (intro exI [of _ "length (ls @ [line])"]) (simp add: log_write_def Let_def)
  next
    case False
    then have w: "log_write line s = s" using k(3) by (simp add: log_write_def)
    show ?thesis unfolding log_inv_def w using k False by (intro exI [of _ k]) simp
  qed
qed

lemma safe_level_lt: "unat (safe_level l) < length level_names"
  by (simp add: safe_level_def WG_LOG_FATAL_def WG_LOG_ERROR_def level_names_def word_le_nat_alt)

lemma level_names_len: "i < length level_names \<Longrightarrow> length (level_names ! i) = 3"
  by (auto simp: level_names_def less_Suc_eq)

lemma length_log_line: "length (log_line l t f) \<le> length (safe_tag t) + 519"
  using level_names_len [OF safe_level_lt, of l] by (auto simp: log_line_def log_text_def cut_def split: option.splits)

text \<open>The log file holds the lines that pass the level filter, whole and in order, up to the line
  that reaches the cap of 150 MB, and then one notice: for tags of at most \<open>T\<close> characters it never
  exceeds the cap by more than one line and the notice, and lines are missing only once the cap is
  reached.\<close>

theorem log_file_capped:
  assumes opened: "s = wg_log_set_file opens (Some p) s0" "p \<noteq> []" "opens p"
    and tags: "\<forall>(l, t, f) \<in> set cs. length (safe_tag t) \<le> T"
  shows "\<exists>k. let ls = accepted (s_minLevel s) cs; body = concat (take k ls); full = s_logfile_cap \<le> length body
     in s_logfile (log_all cs s) = Some (body @ (if full then cap_line else [])) \<and> k \<le> length ls
       \<and> (k < length ls \<longrightarrow> full) \<and> length body < s_logfile_cap + T + 519"
proof -
  have "s_minLevel (log_all cs s) = s_minLevel s \<and> log_inv (T + 519) (accepted (s_minLevel s) cs) (log_all cs s)"
    using tags
  proof (induction cs rule: rev_induct)
    case Nil
    have "s_logfile s = Some []" "s_logfile_bytes s = 0" using opened by (simp_all add: wg_log_set_file_def)
    then show ?case by (simp add: log_all_def log_inv_def accepted_def s_logfile_cap_def)
  next
    case (snoc c cs)
    obtain l t f where c: "c = (l, t, f)" by (cases c)
    let ?s = "log_all cs s"
    have IH: "s_minLevel ?s = s_minLevel s" "log_inv (T + 519) (accepted (s_minLevel s) cs) ?s" using snoc by auto
    have a: "log_all (cs @ [c]) s = snd (wg_log l t f ?s)" by (simp add: log_all_def c)
    have len: "length (log_line l t f) \<le> T + 519" using length_log_line [of l t f] snoc.prems c by auto
    have m: "s_minLevel (log_write x y) = s_minLevel y" for x and y :: "'a log_state"
      by (simp add: log_write_def Let_def split: option.splits)
    show ?case unfolding a wg_log_def using IH m log_write_inv [OF IH(2) len]
      by (auto simp: accepted_def c not_less not_le)
  qed
  then have "log_inv (T + 519) (accepted (s_minLevel s) cs) (log_all cs s)" by simp
  then obtain k where "k \<le> length (accepted (s_minLevel s) cs)"
    "s_logfile_bytes (log_all cs s) = length (concat (take k (accepted (s_minLevel s) cs)))"
    "s_logfile (log_all cs s) = Some (concat (take k (accepted (s_minLevel s) cs))
       @ (if s_logfile_cap \<le> s_logfile_bytes (log_all cs s) then cap_line else []))"
    "k < length (accepted (s_minLevel s) cs) \<longrightarrow> s_logfile_cap \<le> s_logfile_bytes (log_all cs s)"
    "s_logfile_bytes (log_all cs s) < s_logfile_cap + (T + 519)"
    unfolding log_inv_def by blast
  then show ?thesis unfolding Let_def by (intro exI [of _ k]) (simp add: add.assoc)
qed

theorem log_file_capped_witness:
  "s_logfile (log_all [(0, Some ''Files'', Some ''x''), (7, None, None)]
      (wg_log_set_file (\<lambda>_. True) (Some ''log'') (wg_log_set_level 1 (log_start :: unit log_state)))) = Some (''[ERR/?] '' @ [CHR 0x0A])"
proof -
  let ?s = "wg_log_set_file (\<lambda>_. True) (Some ''log'') (wg_log_set_level 1 (log_start :: unit log_state))"
  let ?cs = "[(0 :: u32, Some ''Files'', Some ''x''), (7, None, None)]" and ?l = "''[ERR/?] '' @ [CHR 0x0A]"
  have a: "accepted (s_minLevel ?s) ?cs = [?l]" by code_simp
  have t: "\<forall>(l, t, f) \<in> set ?cs. length (safe_tag t) \<le> 5" by (simp add: safe_tag_def)
  have "\<exists>k. s_logfile (log_all ?cs ?s) = Some (concat (take k [?l]) @ (if s_logfile_cap \<le> length (concat (take k [?l])) then cap_line else []))
      \<and> k \<le> length [?l] \<and> (k < length [?l] \<longrightarrow> s_logfile_cap \<le> length (concat (take k [?l])))"
    using log_file_capped [OF refl _ _ t, of "''log''" "\<lambda>_. True" "wg_log_set_level 1 (log_start :: unit log_state)"] unfolding a Let_def by blast
  then obtain k where k: "k \<le> 1" "k < 1 \<longrightarrow> s_logfile_cap \<le> length (concat (take k [?l]))"
    "s_logfile (log_all ?cs ?s) = Some (concat (take k [?l]) @ (if s_logfile_cap \<le> length (concat (take k [?l])) then cap_line else []))"
    by auto
  then have "k = 1" by (cases k) (auto simp: s_logfile_cap_def)
  then show ?thesis using k(3) by (simp add: s_logfile_cap_def)
qed

end
