(* ===== verification/Nsis.thy ===== *)
theory Nsis
  imports Host_Files Bitmap
begin

section \<open>Installer data\<close>

text \<open>
  The two readers of an NSIS installer: \<open>wg_files_prepopulate_nsis_data\<close> copies the part of the
  executable behind the compressed header to a file, \<open>wg_nsis_prefill_datatmp\<close> unpacks its solid
  LZMA stream there.  A read outside the buffer that holds the executable is undefined behaviour,
  hence \<^term>\<open>None\<close>.  \<open>can\<close> says which sizes \<open>malloc\<close> serves, \<open>room\<close> how many bytes the host
  accepts in a write; \<open>lzma\<close> stands for the call of
  \<open>LzmaDecode\<close>: the properties and the packed bytes to what it unpacks, \<^term>\<open>None\<close> when it does
  not return \<open>SZ_OK\<close>.
\<close>

definition NullsoftInst :: "u8 list" where
  "NullsoftInst = map (\<lambda>c. of_nat (of_char c)) ''NullsoftInst''"

text \<open>The position of the marker, searched in all but the last 16 bytes.\<close>

definition find_marker :: "u8 list \<Rightarrow> nat option" where
  "find_marker d = first_idx (\<lambda>i. take 12 (drop i d) = NullsoftInst) [0..<length d - 16]"

text \<open>The part of the executable to copy: offset and size.\<close>

definition nsis_file_data :: "u8 list \<Rightarrow> nat \<Rightarrow> ((nat \<times> nat) option) option" where
  "nsis_file_data d nsi_offset = do {
     header_len \<leftarrow> rd32 d (nsi_offset + 12);
     archive_size \<leftarrow> rd32 d (nsi_offset + 16);
     let data_start = nsi_offset + 20;
     let file_data_offset = data_start + unat header_len;
     let file_data_size = unat (archive_size - header_len);
     Some (if length d \<le> file_data_offset \<or> file_data_size = 0 then None
           else Some (file_data_offset,
             if length d < file_data_offset + file_data_size then length d - file_data_offset else file_data_size)) }"

definition wg_files_prepopulate_nsis_data ::
    "(dir_path \<Rightarrow> bool) \<Rightarrow> (int \<Rightarrow> bool) \<Rightarrow> nat \<Rightarrow> string \<Rightarrow> string \<Rightarrow> host_fs \<Rightarrow> host_fs option" where
  "wg_files_prepopulate_nsis_data allow can room exe_path tmp_path fs =
     (case fopen allow exe_path RB fs of (None, fs) \<Rightarrow> Some fs
      | (Some exe, fs) \<Rightarrow>
          let exe_size = length (st_content exe fs)
          in if \<not> can (int exe_size) then Some fs
             else do {
               (exe_data, exe) \<leftarrow> fread exe_size exe fs;
               case find_marker exe_data of None \<Rightarrow> Some fs
               | Some i \<Rightarrow> do {
                   slice \<leftarrow> nsis_file_data exe_data i;
                   (case slice of None \<Rightarrow> Some fs
                    | Some (off, k) \<Rightarrow>
                        (case fopen allow tmp_path WB fs of (None, fs) \<Rightarrow> Some fs
                         | (Some tmp, fs) \<Rightarrow> map_option (\<lambda>(_, _, fs). fs) (fwrite room (take k (drop off exe_data)) tmp fs))) } })"

text \<open>The properties and the packed bytes that are handed to the decoder; \<^term>\<open>Some None\<close> when the
  stream is too short.\<close>

definition nsis_stream :: "u8 list \<Rightarrow> nat \<Rightarrow> ((u8 list \<times> u8 list) option) option" where
  "nsis_stream d i = do {
     len_all \<leftarrow> rd32 d (i + 16);
     let ds = i + 20;
     let len_all = (if length d < ds + unat len_all then of_int (int (length d) - int ds) else len_all);
     if len_all < 6 then Some None
     else if length d < ds + unat len_all then None
     else Some (Some (take 5 (drop ds d), take (unat len_all - 5) (drop (ds + 5) d))) }"

definition wg_nsis_prefill_datatmp ::
    "(u8 list \<Rightarrow> u8 list \<Rightarrow> u8 list option) \<Rightarrow> (dir_path \<Rightarrow> bool) \<Rightarrow> (int \<Rightarrow> bool) \<Rightarrow> nat \<Rightarrow> string \<Rightarrow> string \<Rightarrow> host_fs
       \<Rightarrow> (bool \<times> host_fs) option" where
  "wg_nsis_prefill_datatmp lzma allow can room exe_path out_path fs =
     (case fopen allow exe_path RB fs of (None, fs) \<Rightarrow> Some (False, fs)
      | (Some f, fs) \<Rightarrow>
          let n = length (st_content f fs)
          in if n = 0 \<or> \<not> can (int n) then Some (False, fs)
             else do {
               (d, f) \<leftarrow> fread n f fs;
               if length d \<noteq> n then Some (False, fs)
               else case find_marker d of None \<Rightarrow> Some (False, fs)
               | Some i \<Rightarrow> do {
                   src \<leftarrow> nsis_stream d i;
                   (case src of None \<Rightarrow> Some (False, fs)
                    | Some (props, packed) \<Rightarrow>
                        if \<not> can (64 * 1024 * 1024) then Some (False, fs)
                        else (case lzma props packed of None \<Rightarrow> Some (False, fs)
                              | Some dest \<Rightarrow>
                                  if dest = [] then Some (False, fs)
                                  else (case fopen allow out_path WB fs of (None, fs) \<Rightarrow> Some (False, fs)
                                        | (Some o', fs) \<Rightarrow>
                                            map_option (\<lambda>(wrote, _, fs). (wrote = length dest, fs)) (fwrite room dest o' fs)))) } })"

subsection \<open>Where they read\<close>

lemma find_marker_Some:
  "find_marker d = Some i \<Longrightarrow> i + 16 < length d \<and> take 12 (drop i d) = NullsoftInst
    \<and> (\<forall>j < i. take 12 (drop j d) \<noteq> NullsoftInst)"
  by (auto simp: find_marker_def first_idx_Some)

lemma nsis_file_data_total:
  assumes "find_marker d = Some i"
  shows "nsis_file_data d i = None \<longleftrightarrow> length d < i + 20"
  using find_marker_Some [OF assms] by (auto simp: nsis_file_data_def rd32_def Let_def)

lemma nsis_file_data_slice:
  assumes "nsis_file_data d i = Some (Some (off, k))"
  shows "i + 20 \<le> off \<and> off + k \<le> length d \<and> 0 < k"
  using assms by (auto simp: nsis_file_data_def Let_def split: if_splits option.splits bind_splits)

lemma nsis_file_data_eq:
  assumes "i + 20 \<le> length d"
  shows "nsis_file_data d i =
    (let hl = of_le (take 4 (drop (i + 12) d)) :: u32; al = of_le (take 4 (drop (i + 16) d)); off = i + 20 + unat hl
     in Some (if length d \<le> off \<or> al = hl then None else Some (off, min (unat (al - hl)) (length d - off))))"
proof -
  define hl :: u32 where "hl = of_le (take 4 (drop (i + 12) d))"
  define al :: u32 where "al = of_le (take 4 (drop (i + 16) d))"
  have r: "rd32 d (i + 12) = Some hl" "rd32 d (i + 16) = Some al" using assms by (simp_all add: rd32_def hl_def al_def)
  have z: "unat (al - hl) = 0 \<longleftrightarrow> al = hl" by (simp only: unat_eq_0 right_minus_eq)
  show ?thesis unfolding nsis_file_data_def r hl_def [symmetric] al_def [symmetric] Let_def bind.bind_lunit z
    by (rule arg_cong [where f = Some], cases "unat (al - hl)") (auto simp: min_def z)
qed

lemma nsis_stream_eq:
  assumes "i + 20 \<le> length d"
  shows "nsis_stream d i =
    (let n = min (unat (of_le (take 4 (drop (i + 16) d)) :: u32)) (length d - (i + 20))
     in Some (if n < 6 then None else Some (take 5 (drop (i + 20) d), take (n - 5) (drop (i + 25) d))))"
proof -
  define w :: u32 where "w = of_le (take 4 (drop (i + 16) d))"
  have r: "rd32 d (i + 16) = Some w" using assms by (simp add: rd32_def w_def)
  define v :: u32 where "v = (if length d < i + 20 + unat w then of_int (int (length d) - int (i + 20)) else w)"
  have v: "unat v = min (unat w) (length d - (i + 20))"
  proof (cases "length d < i + 20 + unat w")
    case True
    have "int (length d) - int (i + 20) = int (length d - (i + 20))" using assms by simp
    then have "v = of_nat (length d - (i + 20))" unfolding v_def if_P [OF True] by (simp only: of_int_of_nat_eq)
    moreover have "length d - (i + 20) < 2 ^ LENGTH(32)" using True unat_lt32 [of w] assms by simp
    ultimately have "unat v = length d - (i + 20)" by (simp only: unat_of_nat mod_less)
    then show ?thesis using True assms by (simp add: min_def)
  qed (simp add: v_def)
  have "nsis_stream d i = (if v < 6 then Some None else if length d < i + 20 + unat v then None
      else Some (Some (take 5 (drop (i + 20) d), take (unat v - 5) (drop (i + 20 + 5) d))))"
    unfolding nsis_stream_def r by (simp add: Let_def v_def)
  moreover have "v < 6 \<longleftrightarrow> unat v < 6" by (simp add: word_less_nat_alt)
  moreover have "i + 20 + 5 = i + 25" by simp
  ultimately show ?thesis using assms unfolding v w_def [symmetric] Let_def by (auto simp: add.commute)
qed

text \<open>Opening the executable and reading all of it.\<close>

lemma fopen_read:
  assumes "resolve_path fs s = Some p" "\<not> hf_dir fs p" "allow p" "hf_file fs p = Some d"
  shows "\<exists>f. fopen allow s RB fs = (Some f, fs) \<and> st_content f fs = d \<and> (\<exists>f'. fread (length d) f fs = Some (d, f'))"
  using assms by (auto simp add: fopen_def fread_def st_content_def Let_def)

lemma fopen_overwrite:
  assumes "resolve_path fs s = Some q" "\<not> hf_dir fs q" "allow q" and "bs \<noteq> []"
  shows "\<exists>f fs1 f2. fopen allow s WB fs = (Some f, fs1)
    \<and> fwrite room bs f fs1 = Some (length (take room bs), f2, fs\<lparr> hf_file := (hf_file fs)(q \<mapsto> take room bs) \<rparr>)"
  using assms by (auto simp add: fopen_def fwrite_def st_content_def splice_def Let_def)

text \<open>Copying an installer's data reads inside the executable exactly when its marker is not in
  the last 20 bytes.  Then the target holds \<open>archive_size - header_len\<close> bytes from behind the
  compressed header, cut at the end of the executable and where the host accepts no more, and it is untouched when the header lies
  outside the executable or the sizes are equal; the difference is taken modulo \<open>2^32\<close>, so a
  header longer than the archive is copied as well.\<close>

theorem nsis_prepopulate:
  assumes exe: "resolve_path fs exe = Some p" "\<not> hf_dir fs p" "allow p" "hf_file fs p = Some d" "can (int (length d))"
    and m: "find_marker d = Some i" and tmp: "resolve_path fs tmp = Some q" "\<not> hf_dir fs q" "allow q"
  shows "wg_files_prepopulate_nsis_data allow can room exe tmp fs =
    (if length d < i + 20 then None
     else let hl = of_le (take 4 (drop (i + 12) d)) :: u32; al = of_le (take 4 (drop (i + 16) d)); off = i + 20 + unat hl
       in Some (if length d \<le> off \<or> al = hl then fs
                else fs\<lparr> hf_file := (hf_file fs)(q \<mapsto> take room (take (unat (al - hl)) (drop off d))) \<rparr>))"
proof -
  obtain f f' where o: "fopen allow exe RB fs = (Some f, fs)" "st_content f fs = d" "fread (length d) f fs = Some (d, f')"
    using fopen_read [where fs = fs and allow = allow, OF exe(1-4)] by blast
  have u: "wg_files_prepopulate_nsis_data allow can room exe tmp fs = (case nsis_file_data d i of None \<Rightarrow> None
      | Some None \<Rightarrow> Some fs
      | Some (Some (off, k)) \<Rightarrow> (case fopen allow tmp WB fs of (None, fs) \<Rightarrow> Some fs
          | (Some tmp, fs) \<Rightarrow> map_option (\<lambda>(_, _, fs). fs) (fwrite room (take k (drop off d)) tmp fs)))"
    by (simp add: wg_files_prepopulate_nsis_data_def o exe(5) m Let_def split: option.splits bind_splits)
  show ?thesis
  proof (cases "length d < i + 20")
    case True
    then show ?thesis using nsis_file_data_total [OF m] by (simp add: u)
  next
    case False
    define hl :: u32 where "hl = of_le (take 4 (drop (i + 12) d))"
    define al :: u32 where "al = of_le (take 4 (drop (i + 16) d))"
    let ?off = "i + 20 + unat hl"
    have e: "nsis_file_data d i = Some (if length d \<le> ?off \<or> al = hl then None else Some (?off, min (unat (al - hl)) (length d - ?off)))"
      using nsis_file_data_eq [of i d] False by (simp add: hl_def al_def Let_def)
    have tk: "take (min (unat (al - hl)) (length d - ?off)) (drop ?off d) = take (unat (al - hl)) (drop ?off d)"
      by (simp add: min_def)
    show ?thesis
    proof (cases "length d \<le> ?off \<or> al = hl")
      case True
      then show ?thesis using False by (simp add: u e hl_def [symmetric] al_def [symmetric] Let_def)
    next
      case ne: False
      then have "take (unat (al - hl)) (drop ?off d) \<noteq> []" by (simp add: unat_eq_0)
      from fopen_overwrite [where fs = fs and allow = allow and room = room, OF tmp this] obtain g fs1 g2 where "fopen allow tmp WB fs = (Some g, fs1)"
        "fwrite room (take (unat (al - hl)) (drop ?off d)) g fs1 = Some (length (take room (take (unat (al - hl)) (drop ?off d))), g2,
          fs\<lparr> hf_file := (hf_file fs)(q \<mapsto> take room (take (unat (al - hl)) (drop ?off d))) \<rparr>)" by blast
      then show ?thesis using False ne by (simp add: u e tk hl_def [symmetric] al_def [symmetric] Let_def)
    qed
  qed
qed

text \<open>Unpacking an installer's stream never reads outside the executable when the marker is not
  in its last 20 bytes, whatever size the header claims: the decoder is given the five property
  bytes behind the header and the packed bytes up to the claimed size or the end of the
  executable.  The call reports success exactly when that stream has six bytes, memory suffices,
  the decoder yields a non-empty result and the host accepts all of it; what it accepts is then the
  content of the target.\<close>

theorem nsis_prefill:
  assumes exe: "resolve_path fs exe = Some p" "\<not> hf_dir fs p" "allow p" "hf_file fs p = Some d" "\<forall>n. can n"
    and m: "find_marker d = Some i" "i + 20 \<le> length d" and out: "resolve_path fs out = Some q" "\<not> hf_dir fs q" "allow q"
  shows "wg_nsis_prefill_datatmp lzma allow can room exe out fs = Some
    (let n = min (unat (of_le (take 4 (drop (i + 16) d)) :: u32)) (length d - (i + 20));
         r = lzma (take 5 (drop (i + 20) d)) (take (n - 5) (drop (i + 25) d))
     in if n < 6 \<or> r = None \<or> r = Some [] then (False, fs)
        else (length (the r) \<le> room, fs\<lparr> hf_file := (hf_file fs)(q \<mapsto> take room (the r)) \<rparr>))"
proof -
  obtain f f' where o: "fopen allow exe RB fs = (Some f, fs)" "st_content f fs = d" "fread (length d) f fs = Some (d, f')"
    using fopen_read [where fs = fs and allow = allow, OF exe(1-4)] by blast
  have "d \<noteq> []" using m(2) by auto
  note u = wg_nsis_prefill_datatmp_def [of lzma allow can room exe out fs, unfolded o(1) prod.case option.case o(2) Let_def o(3) bind.bind_lunit]
  define n where "n = min (unat (of_le (take 4 (drop (i + 16) d)) :: u32)) (length d - (i + 20))"
  define r where "r = lzma (take 5 (drop (i + 20) d)) (take (n - 5) (drop (i + 25) d))"
  note s = nsis_stream_eq [OF m(2), unfolded Let_def n_def [symmetric]]
  show ?thesis
  proof (cases "n < 6 \<or> r = None \<or> r = Some []")
    case True
    then show ?thesis unfolding n_def [symmetric] Let_def r_def [symmetric]
      using u \<open>d \<noteq> []\<close> exe(5) m(1) s by (auto simp: r_def)
  next
    case False
    then obtain dest where dest: "r = Some dest" "dest \<noteq> []" "\<not> n < 6" by auto
    from fopen_overwrite [where fs = fs and allow = allow and room = room, OF out dest(2)] obtain g fs1 g2 where w: "fopen allow out WB fs = (Some g, fs1)"
      "fwrite room dest g fs1 = Some (length (take room dest), g2, fs\<lparr> hf_file := (hf_file fs)(q \<mapsto> take room dest) \<rparr>)" by blast
    show ?thesis unfolding n_def [symmetric] Let_def r_def [symmetric]
      using u \<open>d \<noteq> []\<close> exe(5) m(1) s dest w by (simp add: r_def min_def)
  qed
qed

text \<open>An installer of 46 bytes: the marker at 0, a header of two bytes, an archive of twelve.\<close>

definition demo_installer :: "u8 list" where
  "demo_installer = NullsoftInst @ [2, 0, 0, 0, 12, 0, 0, 0] @ replicate 26 9"

definition nsis_fs :: host_fs where
  "nsis_fs = \<lparr> hf_file = [[''a.exe''] \<mapsto> demo_installer], hf_dir = (\<lambda>p. p = []) \<rparr>"

lemma demo_installer_marker: "find_marker demo_installer = Some 0" by code_simp

lemma demo_installer_fields: "(of_le (take 4 (drop 12 demo_installer)) :: u32) = 2" "(of_le (take 4 (drop 16 demo_installer)) :: u32) = 12"
  "length demo_installer = 46"
  by code_simp+

lemma nsis_fs_at: "resolve_path nsis_fs ''a.exe'' = Some [''a.exe'']" "resolve_path nsis_fs ''t'' = Some [''t'']"
  "hf_file nsis_fs [''a.exe''] = Some demo_installer" "\<not> hf_dir nsis_fs [''a.exe'']" "\<not> hf_dir nsis_fs [''t'']"
  by code_simp+

theorem nsis_prepopulate_witness:
  "wg_files_prepopulate_nsis_data (\<lambda>_. True) (\<lambda>_. True) 1000 ''a.exe'' ''t'' nsis_fs
    = Some (nsis_fs\<lparr> hf_file := (hf_file nsis_fs)([''t''] \<mapsto> replicate 10 9) \<rparr>)"
proof -
  have d: "take 10 (drop 22 demo_installer) = replicate 10 9" by code_simp
  show ?thesis
    using nsis_prepopulate [OF nsis_fs_at(1,4) _ nsis_fs_at(3) _ demo_installer_marker nsis_fs_at(2,5)] demo_installer_fields d
    by (simp add: Let_def)
qed

theorem nsis_prefill_witness:
  "wg_nsis_prefill_datatmp (\<lambda>props packed. Some (take 3 packed)) (\<lambda>_. True) (\<lambda>_. True) 1000 ''a.exe'' ''t'' nsis_fs
    = Some (True, nsis_fs\<lparr> hf_file := (hf_file nsis_fs)([''t''] \<mapsto> [9, 9, 9]) \<rparr>)"
proof -
  have d: "take 3 (take 7 (drop 25 demo_installer)) = [9, 9, 9]" by code_simp
  show ?thesis
    using nsis_prefill [OF nsis_fs_at(1,4) _ nsis_fs_at(3) _ demo_installer_marker _ nsis_fs_at(2,5)] demo_installer_fields d
    by (simp add: Let_def)
qed

end
