(* ===== verification/Dxbc_Container.thy ===== *)
theory Dxbc_Container
  imports Bitmap C_Strings
begin

section \<open>Shader containers\<close>

text \<open>
  The container half of \<open>Sources/Graphics/wg_dxbc.c\<close>: the chunk table of a DXBC blob, its
  signatures, and the string builder of the translator.  A blob is its bytes, whose number the
  caller passes as \<open>size\<close>; a read outside it is undefined behaviour, hence \<^term>\<open>None\<close>.
  (Unaligned reads are taken as the machine does them.)
\<close>

definition FOURCC :: "char \<Rightarrow> char \<Rightarrow> char \<Rightarrow> char \<Rightarrow> u32" where
  "FOURCC a b c d = of_nat (of_char a) OR push_bit 8 (of_nat (of_char b)) OR push_bit 16 (of_nat (of_char c)) OR push_bit 24 (of_nat (of_char d))"

definition wg_dxbc_is_dxbc :: "u8 list option \<Rightarrow> bool" where
  "wg_dxbc_is_dxbc data =
     (case data of None \<Rightarrow> False
      | Some m \<Rightarrow> 4 \<le> length m \<and> rd32 m 0 = Some (FOURCC (CHR ''D'') (CHR ''X'') (CHR ''B'') (CHR ''C'')))"

text \<open>Offset and size of the chunk's data; the inner \<^term>\<open>None\<close> when there is none.\<close>

primrec find_chunk_from :: "u8 list \<Rightarrow> u32 \<Rightarrow> nat \<Rightarrow> nat \<Rightarrow> (nat \<times> u32) option option" where
  "find_chunk_from m tag 0 i = Some None"
| "find_chunk_from m tag (Suc n) i = do {
     off \<leftarrow> rd32 m (32 + 4 * i);
     if of_nat (length m) < off + 8 then find_chunk_from m tag n (i + 1)
     else do {
       ctag \<leftarrow> rd32 m (unat off);
       csize \<leftarrow> rd32 m (unat off + 4);
       if ctag = tag then Some (Some (unat off + 8, csize)) else find_chunk_from m tag n (i + 1) } }"

definition find_chunk :: "u8 list \<Rightarrow> u32 \<Rightarrow> (nat \<times> u32) option option" where
  "find_chunk m tag =
     (if length m < 32 then Some None
      else do {
        chunk_count \<leftarrow> rd32 m 28;
        if of_nat (length m) < 32 + chunk_count * 4 then Some None
        else find_chunk_from m tag (unat chunk_count) 0 })"

subsection \<open>Signatures\<close>

record SigElem =
  sg_name :: string
  sg_index :: u32
  sg_sysval :: u32
  sg_reg :: u32
  sg_mask :: u8

text \<open>\<open>strncpy\<close> from a pointer into the blob: at most \<open>n\<close> characters, up to the terminator.\<close>

primrec read_name :: "u8 list \<Rightarrow> nat \<Rightarrow> nat \<Rightarrow> string option" where
  "read_name m 0 p = Some []"
| "read_name m (Suc n) p = do {
     b \<leftarrow> byte_at m p;
     if b = 0 then Some [] else do { s \<leftarrow> read_name m n (p + 1); Some (char_of (unat b) # s) } }"

definition read_sig :: "u8 list \<Rightarrow> nat \<Rightarrow> nat \<Rightarrow> SigElem option" where
  "read_sig m chunk e = do {
     name_off \<leftarrow> rd32 m e;
     nm \<leftarrow> read_name m 31 (chunk + unat name_off);
     ix \<leftarrow> rd32 m (e + 4);
     sv \<leftarrow> rd32 m (e + 8);
     rg \<leftarrow> rd32 m (e + 16);
     mk \<leftarrow> byte_at m (e + 20);
     Some \<lparr> sg_name = nm, sg_index = ix, sg_sysval = sv, sg_reg = rg, sg_mask = mk \<rparr> }"

primrec read_sigs :: "u8 list \<Rightarrow> nat \<Rightarrow> nat \<Rightarrow> nat \<Rightarrow> SigElem list option" where
  "read_sigs m chunk 0 i = Some []"
| "read_sigs m chunk (Suc n) i = do {
     s \<leftarrow> read_sig m chunk (chunk + 8 + 24 * i);
     ss \<leftarrow> read_sigs m chunk n (i + 1);
     Some (s # ss) }"

definition parse_sig :: "u8 list \<Rightarrow> nat option \<Rightarrow> nat \<Rightarrow> SigElem list option" where
  "parse_sig m chunk maxn =
     (case chunk of None \<Rightarrow> Some []
      | Some p \<Rightarrow> do { count \<leftarrow> rd32 m p; read_sigs m p (min (unat count) maxn) 0 })"

subsection \<open>The string builder\<close>

text \<open>The text and the size of its buffer; \<open>realloc\<close> is taken to succeed.\<close>

record SB =
  sb_text :: string
  sb_cap :: nat

definition sb_empty :: SB where
  "sb_empty = \<lparr> sb_text = [], sb_cap = 0 \<rparr>"

function sb_grow :: "nat \<Rightarrow> nat \<Rightarrow> nat" where
  "sb_grow need nc = (if nc < need \<and> 0 < nc then sb_grow need (nc * 2) else nc)"
  by pat_completeness auto
termination by (relation "measure (\<lambda>(need, nc). need - nc)") auto

declare sb_grow.simps [simp del]

definition sb_ensure :: "SB \<Rightarrow> nat \<Rightarrow> SB" where
  "sb_ensure s extra =
     (let n = length (sb_text s) + extra + 1
      in if sb_cap s < n then s\<lparr> sb_cap := sb_grow n (if sb_cap s \<noteq> 0 then sb_cap s * 2 else 1024) \<rparr> else s)"

definition sb_puts :: "SB \<Rightarrow> string \<Rightarrow> SB" where
  "sb_puts s t = (sb_ensure s (length t))\<lparr> sb_text := sb_text s @ t \<rparr>"

text \<open>The formatted text goes through a buffer of 512 bytes.\<close>

definition fmt512 :: "string \<Rightarrow> string" where
  "fmt512 t = cut 512 t"

definition sb_putf :: "SB \<Rightarrow> string \<Rightarrow> SB" where
  "sb_putf s t = sb_puts s (fmt512 t)"

lemma sb_grow_ge: "0 < nc \<Longrightarrow> need \<le> sb_grow need nc"
  by (induction need nc rule: sb_grow.induct) (subst sb_grow.simps, auto)

lemma sb_puts_fits: "length (sb_text s) + length t < sb_cap (sb_puts s t)" "sb_text (sb_puts s t) = sb_text s @ t"
  using sb_grow_ge [of "if sb_cap s \<noteq> 0 then sb_cap s * 2 else 1024" "length (sb_text s) + length t + 1"]
  by (auto simp: sb_puts_def sb_ensure_def Let_def split: if_splits)

text \<open>The string builder never writes past its buffer, whatever is appended: after any sequence of
  appends the text is their concatenation, formatted pieces cut to 511 characters, and it fits
  the buffer with its terminator; and the doubling of the buffer stops.\<close>

theorem sb_appends:
  "let s = fold (\<lambda>(formatted, t) s. if formatted then sb_putf s t else sb_puts s t) ts sb_empty
   in sb_text s = concat (map (\<lambda>(formatted, t). if formatted then cut 512 t else t) ts)
     \<and> (ts \<noteq> [] \<longrightarrow> length (sb_text s) < sb_cap s)"
proof (induction ts rule: rev_induct)
  case (snoc x ts)
  obtain f t where x: "x = (f, t)" by (cases x)
  let ?s = "fold (\<lambda>(formatted, t) s. if formatted then sb_putf s t else sb_puts s t) ts sb_empty"
  show ?case using snoc sb_puts_fits [of ?s "if f then cut 512 t else t"]
    by (cases f) (simp_all add: x Let_def sb_putf_def fmt512_def)
qed (simp add: sb_empty_def)

subsection \<open>Finding a chunk\<close>

text \<open>A table is well-formed when it and the headers of its chunks lie in the blob; the blob leaves
  room for the additions.\<close>

definition chunk_at :: "u8 list \<Rightarrow> nat \<Rightarrow> u32" where
  "chunk_at m i = the (rd32 m (32 + 4 * i))"

definition wf_table :: "u8 list \<Rightarrow> nat \<Rightarrow> bool" where
  "wf_table m n \<longleftrightarrow> rd32 m 28 = Some (of_nat n) \<and> 32 + 4 * n \<le> length m \<and> length m < 2 ^ 32
     \<and> (\<forall>i < n. unat (chunk_at m i) < 2 ^ 32 - 8)"

definition chunk_in :: "u8 list \<Rightarrow> nat \<Rightarrow> bool" where
  "chunk_in m i \<longleftrightarrow> unat (chunk_at m i) + 8 \<le> length m"

definition chunk_tag :: "u8 list \<Rightarrow> nat \<Rightarrow> u32 option" where
  "chunk_tag m i = (if chunk_in m i then rd32 m (unat (chunk_at m i)) else None)"

lemma find_chunk_from_spec:
  assumes "32 + 4 * (i + n) \<le> length m" "length m < 2 ^ 32" "\<forall>j < i + n. unat (chunk_at m j) < 2 ^ 32 - 8"
  shows "find_chunk_from m tag n i =
    Some (map_option (\<lambda>k. (unat (chunk_at m k) + 8, the (rd32 m (unat (chunk_at m k) + 4))))
      (map_option (\<lambda>k. i + k) (first_idx (\<lambda>k. chunk_tag m k = Some tag) [i..<i + n])))"
  using assms
proof (induction n arbitrary: i)
  case (Suc n)
  have IH: "find_chunk_from m tag n (i + 1) = Some (map_option (\<lambda>k. (unat (chunk_at m k) + 8, the (rd32 m (unat (chunk_at m k) + 4))))
      (map_option (\<lambda>k. i + 1 + k) (first_idx (\<lambda>k. chunk_tag m k = Some tag) [i + 1..<i + 1 + n])))"
    using Suc.prems by (intro Suc.IH) simp_all
  have off: "rd32 m (32 + 4 * i) = Some (chunk_at m i)" using Suc.prems(1) by (simp add: chunk_at_def rd32_def)
  have up: "[i..<i + Suc n] = i # [i + 1..<i + 1 + n]" by (simp add: upt_conv_Cons)
  have "unat (chunk_at m i) < 2 ^ 32 - 8" using Suc.prems(3) by simp
  then have u: "unat (chunk_at m i + 8) = unat (chunk_at m i) + 8" by (simp add: unat_word_ariths)
  have c: "of_nat (length m) < chunk_at m i + 8 \<longleftrightarrow> \<not> chunk_in m i"
    using Suc.prems(2) by (simp add: word_less_nat_alt unat_of_nat u chunk_in_def not_le)
  show ?case
  proof (cases "chunk_in m i")
    case False
    then have "chunk_tag m i \<noteq> Some tag" by (simp add: chunk_tag_def)
    then show ?thesis using off c False IH unfolding up by (simp add: option.map_comp comp_def)
  next
    case True
    then obtain t z where r: "rd32 m (unat (chunk_at m i)) = Some t" "rd32 m (unat (chunk_at m i) + 4) = Some z"
      by (auto simp: chunk_in_def rd32_def)
    have "chunk_tag m i = Some t" using True r by (simp add: chunk_tag_def)
    then show ?thesis using off c True r IH unfolding up by (simp add: option.map_comp comp_def)
  qed
qed simp

text \<open>In a well-formed table the search reads inside the blob and finds the first chunk with the
  tag, skipping entries that point outside: it gives the place behind the chunk's header.\<close>

theorem find_chunk_first:
  assumes "wf_table m n"
  shows "find_chunk m tag = Some (case first_idx (\<lambda>k. chunk_tag m k = Some tag) [0..<n] of None \<Rightarrow> None
    | Some k \<Rightarrow> Some (unat (chunk_at m k) + 8, the (rd32 m (unat (chunk_at m k) + 4))))"
proof -
  note w = assms [unfolded wf_table_def]
  have n: "unat (of_nat n :: u32) = n" "n < 2 ^ 30" using w by (simp_all add: unat_of_nat)
  then have "unat (32 + (of_nat n :: u32) * 4) = 32 + 4 * n" using w by (simp add: unat_word_ariths unat_of_nat)
  then have c: "\<not> of_nat (length m) < 32 + (of_nat n :: u32) * 4" using w by (simp add: word_less_nat_alt unat_of_nat)
  have l: "\<not> length m < 32" using w by linarith
  have "find_chunk m tag = find_chunk_from m tag n 0" unfolding find_chunk_def if_not_P [OF l] using w c n by simp
  then show ?thesis using find_chunk_from_spec [of 0 n m tag] w
    by (cases "first_idx (\<lambda>k. chunk_tag m k = Some tag) [0..<n]") simp_all
qed

text \<open>The bound of the table is computed in 32 bits: a blob of 32 bytes whose header claims
  \<open>2^30\<close> chunks passes it, and the search reads behind the blob's end.\<close>

theorem chunk_count_overflow:
  assumes "length m = 32" and "rd32 m 28 = Some 0x40000000"
  shows "find_chunk m tag = None"
proof -
  have n: "unat (0x40000000 :: u32) = Suc (2 ^ 30 - 1)" by simp
  have r: "rd32 m 32 = None" using assms(1) by (simp add: rd32_def)
  have "find_chunk_from m tag (unat (0x40000000 :: u32)) 0 = None" unfolding n find_chunk_from.simps using r by simp
  then show ?thesis using assms by (simp add: find_chunk_def)
qed

definition demo_blob :: "u8 list" where
  "demo_blob = replicate 28 0 @ [1, 0, 0, 0] @ [36, 0, 0, 0] @ [83, 72, 69, 88] @ [8, 0, 0, 0] @ replicate 8 7"

theorem find_chunk_first_witness:
  "find_chunk demo_blob (FOURCC (CHR ''S'') (CHR ''H'') (CHR ''E'') (CHR ''X'')) = Some (Some (44, 8))"
proof -
  have c: "chunk_at demo_blob 0 = 36" "length demo_blob = 52" by code_simp+
  have "rd32 demo_blob 28 = Some 1" by code_simp
  then have wf: "wf_table demo_blob 1" using c by (simp add: wf_table_def)
  have t: "chunk_tag demo_blob 0 = Some (FOURCC (CHR ''S'') (CHR ''H'') (CHR ''E'') (CHR ''X''))" "the (rd32 demo_blob 40) = 8"
    by code_simp+
  show ?thesis using find_chunk_first [OF wf] c t by simp
qed

theorem chunk_count_overflow_witness:
  "find_chunk (replicate 31 0 @ [0x40]) 7 = None"
  by (rule chunk_count_overflow) code_simp+

end
