(* ===== verification/Dxbc_Operand.thy ===== *)
theory Dxbc_Operand
  imports Dxbc_Container
begin

unbundle bit_operations_syntax

section \<open>Shader operands\<close>

text \<open>
  The operands of the translator in \<open>Sources/Graphics/wg_dxbc.c\<close>: decoding an operand's tokens and
  printing it as an expression of the Metal shading language.  Positions are byte offsets into
  the blob; \<open>fmt_g\<close> is \<open>printf\<close>'s \<open>%g\<close> on the bits of a float.  Shifting a bit by a negative
  register number and incrementing the largest \<open>int\<close> are undefined behaviour, hence
  \<^term>\<open>None\<close>.
\<close>

definition OT_TEMP :: nat where "OT_TEMP = 0"
definition OT_INPUT :: nat where "OT_INPUT = 1"
definition OT_OUTPUT :: nat where "OT_OUTPUT = 2"
definition OT_IMM32 :: nat where "OT_IMM32 = 4"
definition OT_IMM64 :: nat where "OT_IMM64 = 5"
definition OT_CBUFFER :: nat where "OT_CBUFFER = 8"
definition OT_NULL :: nat where "OT_NULL = 13"

lemmas OT_defs = OT_TEMP_def OT_INPUT_def OT_OUTPUT_def OT_IMM32_def OT_IMM64_def OT_CBUFFER_def OT_NULL_def

record Operand =
  o_type :: nat
  num_comp :: nat
  sel_mode :: nat
  o_mask :: u8
  o_sw :: "nat list"
  sel1 :: nat
  index_dim :: nat
  o_idx :: "int list"
  idx_rel :: "bool list"
  rel_str :: "string list"
  o_imm :: "u32 list"
  imm_n :: nat
  modifier :: nat

record Ctx =
  ntemps :: int
  in_used :: u32
  out_used :: u32
  out_pos_reg :: int
  cb_used :: u32
  res_used :: u32
  samp_used :: u32
  depth_res :: u32
  is_pixel :: bool
  in_siv_pos :: "bool list"

definition swz :: string where "swz = ''xyzw''"

text \<open>The positions of a mask, in order; the loops of \<open>mask_to_str\<close>, \<open>mask_count\<close> and of the callers.\<close>

definition mask_positions :: "u8 \<Rightarrow> nat list" where
  "mask_positions m = filter (bit m) [0..<4]"

definition mask_to_str :: "u8 \<Rightarrow> string" where
  "mask_to_str m = (if mask_positions m = [] then [] else CHR ''.'' # map (\<lambda>i. swz ! i) (mask_positions m))"

definition mask_count :: "u8 \<Rightarrow> nat" where
  "mask_count m = length (mask_positions m)"

definition vtype :: "string \<Rightarrow> nat \<Rightarrow> string" where
  "vtype t n = (if n \<le> 1 then t else if n = 2 then t @ ''2'' else if n = 3 then t @ ''3'' else t @ ''4'')"

definition ftype :: "nat \<Rightarrow> string" where "ftype = vtype ''float''"
definition itype :: "nat \<Rightarrow> string" where "itype = vtype ''int''"
definition utype :: "nat \<Rightarrow> string" where "utype = vtype ''uint''"

definition nl :: string where "nl = [CHR 0x0A]"

definition emit_rhs :: "string \<Rightarrow> string \<Rightarrow> bool \<Rightarrow> string \<Rightarrow> string" where
  "emit_rhs d dmask sat rhs =
     fmt512 (if sat then ''  '' @ d @ dmask @ '' = saturate('' @ rhs @ '');'' @ nl
             else ''  '' @ d @ dmask @ '' = '' @ rhs @ '';'' @ nl)"

subsection \<open>Reading an operand\<close>

text \<open>The bits \<open>s\<close> to \<open>s + n - 1\<close> of a token.\<close>

definition fld :: "nat \<Rightarrow> nat \<Rightarrow> u32 \<Rightarrow> nat" where
  "fld s n tok = unat (drop_bit s tok AND mask n)"

definition operand_zero :: Operand where
  "operand_zero = \<lparr> o_type = 0, num_comp = 0, sel_mode = 0, o_mask = 0, o_sw = [0, 0, 0, 0], sel1 = 0, index_dim = 0,
     o_idx = [0, 0, 0], idx_rel = [False, False, False], rel_str = [[], [], []], o_imm = [0, 0, 0, 0], imm_n = 0, modifier = 0 \<rparr>"

definition operand_token :: "u32 \<Rightarrow> Operand" where
  "operand_token tok =
     (let o1 = operand_zero\<lparr> num_comp := fld 0 2 tok, o_type := fld 12 8 tok, index_dim := fld 20 2 tok, sel_mode := fld 2 2 tok \<rparr>
      in if num_comp o1 = 2
         then (if sel_mode o1 = 0 then o1\<lparr> o_mask := of_nat (fld 4 4 tok) \<rparr>
               else if sel_mode o1 = 1 then o1\<lparr> o_sw := map (\<lambda>i. fld (4 + i * 2) 2 tok) [0..<4] \<rparr>
               else o1\<lparr> sel1 := fld 4 2 tok \<rparr>)
         else o1)"

function read_ext :: "u8 list \<Rightarrow> nat \<Rightarrow> nat \<Rightarrow> (nat \<times> nat) option" where
  "read_ext m p md =
     (case rd32 m p of None \<Rightarrow> None
      | Some ext \<Rightarrow>
          let md = (if fld 0 2 ext = 1 then fld 6 8 ext else md)
          in if bit ext 31 then read_ext m (p + 4) md else Some (md, p + 4))"
  by pat_completeness auto
termination by (relation "measure (\<lambda>(m, p, md). length m - p)") (auto simp: rd32_def split: if_splits)

declare read_ext.simps [simp del]

primrec read_words :: "u8 list \<Rightarrow> nat \<Rightarrow> nat \<Rightarrow> (u32 list \<times> nat) option" where
  "read_words m 0 p = Some ([], p)"
| "read_words m (Suc n) p = do { v \<leftarrow> rd32 m p; (vs, p) \<leftarrow> read_words m n (p + 4); Some (v # vs, p) }"

definition rel_text :: "Operand \<Rightarrow> string" where
  "rel_text rel = cut 48 (''int(r'' @ int_str (o_idx rel ! 0) @ ''.'' @ [swz ! (o_sw rel ! 0)] @ '')'')"

definition set_rel :: "nat \<Rightarrow> Operand \<Rightarrow> Operand \<Rightarrow> Operand" where
  "set_rel d rel o1 = o1\<lparr> idx_rel := (idx_rel o1)[d := True], rel_str := (rel_str o1)[d := rel_text rel] \<rparr>"

text \<open>One index; \<open>rd\<close> reads the operand of a relative one.\<close>

definition read_index ::
    "(nat \<Rightarrow> (Operand \<times> nat) option) \<Rightarrow> u8 list \<Rightarrow> u32 \<Rightarrow> nat \<Rightarrow> Operand \<times> nat \<Rightarrow> (Operand \<times> nat) option" where
  "read_index rd m tok d op =
     (let (o1, p) = op; rep = fld (22 + d * 3) 3 tok
      in if rep = 0 then do { v \<leftarrow> rd32 m p; Some (o1\<lparr> o_idx := (o_idx o1)[d := sint v] \<rparr>, p + 4) }
         else if rep = 1 then do { v \<leftarrow> rd32 m p; Some (o1\<lparr> o_idx := (o_idx o1)[d := sint v] \<rparr>, p + 8) }
         else if rep = 2 then do { (rel, p) \<leftarrow> rd p; Some (set_rel d rel o1, p) }
         else if rep = 3 then do {
           v \<leftarrow> rd32 m p;
           (rel, p) \<leftarrow> rd (p + 4);
           Some (set_rel d rel (o1\<lparr> o_idx := (o_idx o1)[d := sint v] \<rparr>), p) }
         else Some (o1, p))"

primrec read_indices ::
    "(nat \<Rightarrow> (Operand \<times> nat) option) \<Rightarrow> u8 list \<Rightarrow> u32 \<Rightarrow> nat list \<Rightarrow> Operand \<times> nat \<Rightarrow> (Operand \<times> nat) option" where
  "read_indices rd m tok [] op = Some op"
| "read_indices rd m tok (d # ds) op = do { op \<leftarrow> read_index rd m tok d op; read_indices rd m tok ds op }"

definition read_payload ::
    "(nat \<Rightarrow> (Operand \<times> nat) option) \<Rightarrow> u8 list \<Rightarrow> u32 \<Rightarrow> Operand \<Rightarrow> nat \<Rightarrow> (Operand \<times> nat) option" where
  "read_payload rd m tok o1 p =
     (if o_type o1 = OT_IMM32
      then do {
        let n = (if num_comp o1 = 2 then 4 else 1);
        (vs, p) \<leftarrow> read_words m n p;
        Some (o1\<lparr> imm_n := n, o_imm := vs @ drop n (o_imm o1) \<rparr>, p) }
      else if o_type o1 = OT_IMM64 then Some (o1, p + 4 * (if num_comp o1 = 2 then 8 else 2))
      else read_indices rd m tok [0..<index_dim o1] (o1, p))"

text \<open>The recursion of relative indices is bounded by the fuel; \<open>fuel_enough\<close> below: the length of
  the blob suffices.\<close>

primrec read_operand_n :: "nat \<Rightarrow> u8 list \<Rightarrow> nat \<Rightarrow> (Operand \<times> nat) option" where
  "read_operand_n 0 m p = None"
| "read_operand_n (Suc k) m p = do {
     tok \<leftarrow> rd32 m p;
     let o1 = operand_token tok;
     (md, p) \<leftarrow> (if bit tok 31 then read_ext m (p + 4) 0 else Some (0, p + 4));
     read_payload (read_operand_n k m) m tok (o1\<lparr> modifier := md \<rparr>) p }"

definition read_operand_dx :: "u8 list \<Rightarrow> nat \<Rightarrow> (Operand \<times> nat) option" where
  "read_operand_dx m p = read_operand_n (length m) m p"

subsection \<open>Printing an operand\<close>

text \<open>\<open>if (i < 32) w |= 1u << i\<close>\<close>

definition use_reg :: "int \<Rightarrow> u32 \<Rightarrow> u32 option" where
  "use_reg i w = (if i < 32 then (if i < 0 then None else Some (w OR push_bit (nat i) 1)) else Some w)"

definition operand_base :: "nat \<Rightarrow> Operand \<Rightarrow> Ctx \<Rightarrow> (string \<times> Ctx) option" where
  "operand_base osz o1 c =
     (let i = o_idx o1 ! 0
      in if o_type o1 = OT_TEMP
         then (if in_i32 (i + 1) then Some (cut osz (''r'' @ int_str i), c\<lparr> ntemps := (if ntemps c < i + 1 then i + 1 else ntemps c) \<rparr>) else None)
         else if o_type o1 = OT_INPUT
         then do { w \<leftarrow> use_reg i (in_used c); Some (cut osz (''in.v'' @ int_str i), c\<lparr> in_used := w \<rparr>) }
         else if o_type o1 = OT_OUTPUT
         then do { w \<leftarrow> use_reg i (out_used c); Some (cut osz (''out.o'' @ int_str i), c\<lparr> out_used := w \<rparr>) }
         else if o_type o1 = OT_CBUFFER
         then do {
           w \<leftarrow> use_reg i (cb_used c);
           Some (cut osz (''cb'' @ int_str i @ ''['' @ (if idx_rel o1 ! 1 then rel_str o1 ! 1 else int_str (o_idx o1 ! 1)) @ '']''),
                 c\<lparr> cb_used := w \<rparr>) }
         else Some (cut osz ''float4(0.0)'', c))"

fun join :: "string list \<Rightarrow> string" where
  "join [] = []"
| "join [x] = x"
| "join (x # xs) = x @ '','' @ join xs"

definition imm_text :: "(u32 \<Rightarrow> string) \<Rightarrow> Operand \<Rightarrow> nat \<Rightarrow> nat list \<Rightarrow> string" where
  "imm_text fmt_g o1 ncomp positions =
     (if ncomp \<le> 1 then ''float('' @ fmt_g (o_imm o1 ! 0) @ '')''
      else cut 160 (''float'' @ nat_str ncomp @ ''(''
        @ join (map (\<lambda>i. fmt_g (o_imm o1 ! (if imm_n o1 = 1 then 0 else i))) (take ncomp positions)) @ '')''))"

definition swizzle_text :: "Operand \<Rightarrow> nat \<Rightarrow> nat list \<Rightarrow> string" where
  "swizzle_text o1 ncomp positions = CHR ''.'' #
     (if num_comp o1 = 2 \<and> sel_mode o1 = 1 then map (\<lambda>i. swz ! (o_sw o1 ! i)) (take ncomp positions)
      else if num_comp o1 = 2 \<and> sel_mode o1 = 2 then replicate ncomp (swz ! sel1 o1)
      else if num_comp o1 = 1 then ''x''
      else map (\<lambda>i. swz ! i) (take ncomp positions))"

definition apply_modifier :: "nat \<Rightarrow> string \<Rightarrow> string" where
  "apply_modifier md e =
     (if md = 1 then ''(-'' @ e @ '')'' else if md = 2 then ''abs('' @ e @ '')''
      else if md = 3 then ''(-abs('' @ e @ ''))'' else e)"

text \<open>All callers pass a buffer of 128 bytes.\<close>

definition src_str :: "(u32 \<Rightarrow> string) \<Rightarrow> nat \<Rightarrow> nat list \<Rightarrow> Operand \<Rightarrow> Ctx \<Rightarrow> (string \<times> Ctx) option" where
  "src_str fmt_g ncomp positions o1 c =
     (if o_type o1 = OT_IMM32
      then Some (cut 128 (apply_modifier (modifier o1) (cut 200 (imm_text fmt_g o1 ncomp positions))), c)
      else do {
        (base, c) \<leftarrow> operand_base 80 o1 c;
        Some (cut 128 (apply_modifier (modifier o1) (cut 200 (base @ swizzle_text o1 ncomp positions))), c) })"

end
