(* ===== verification/Dxbc.thy ===== *)
theory Dxbc
  imports Dxbc_Operand
begin

section \<open>The shader translator\<close>

text \<open>
  \<open>wg_dxbc_to_msl\<close> of \<open>Sources/Graphics/wg_dxbc.c\<close>: one definition per group of opcodes, each
  giving the text that it appends, the loop over the token stream, and the assembly of the Metal
  program around the body.  \<^term>\<open>None\<close> is a read outside the blob or another undefined
  behaviour; that the loop may not return is the outer \<^term>\<open>None\<close> of \<open>translate_loop\<close>.
\<close>

text \<open>The operands of an instruction, and the string of its destination with the mask's positions.\<close>

primrec read_operands :: "u8 list \<Rightarrow> nat \<Rightarrow> nat \<Rightarrow> (Operand list \<times> nat) option" where
  "read_operands m 0 p = Some ([], p)"
| "read_operands m (Suc n) p = do { (o1, p) \<leftarrow> read_operand_dx m p; (os, p) \<leftarrow> read_operands m n p; Some (o1 # os, p) }"

definition dst_str :: "Operand \<Rightarrow> Ctx \<Rightarrow> (string \<times> string \<times> nat list \<times> Ctx) option" where
  "dst_str o1 c = do { (d, c) \<leftarrow> operand_base 96 o1 c; Some (d, mask_to_str (o_mask o1), mask_positions (o_mask o1), c) }"

primrec src_strs :: "(u32 \<Rightarrow> string) \<Rightarrow> nat \<Rightarrow> nat list \<Rightarrow> Operand list \<Rightarrow> Ctx \<Rightarrow> (string list \<times> Ctx) option" where
  "src_strs fmt_g nc pos [] c = Some ([], c)"
| "src_strs fmt_g nc pos (o1 # os) c = do {
     (s, c) \<leftarrow> src_str fmt_g nc pos o1 c;
     (ss, c) \<leftarrow> src_strs fmt_g nc pos os c;
     Some (s # ss, c) }"

text \<open>A destination and \<open>n\<close> sources read at the positions of its mask.\<close>

definition dst_srcs ::
    "(u32 \<Rightarrow> string) \<Rightarrow> u8 list \<Rightarrow> nat \<Rightarrow> nat \<Rightarrow> Ctx \<Rightarrow> (string \<times> string \<times> nat \<times> string list \<times> Ctx) option" where
  "dst_srcs fmt_g m n p c = do {
     (os, _) \<leftarrow> read_operands m (Suc n) p;
     (d, dmask, pos, c) \<leftarrow> dst_str (hd os) c;
     (ss, c) \<leftarrow> src_strs fmt_g (length pos) pos (tl os) c;
     Some (d, dmask, length pos, ss, c) }"

subsection \<open>Declarations\<close>

definition tr_dcl :: "nat \<Rightarrow> u8 list \<Rightarrow> nat \<Rightarrow> Ctx \<Rightarrow> Ctx option" where
  "tr_dcl opcode m p c =
     (if opcode = 104 then do { n \<leftarrow> rd32 m p; Some (c\<lparr> ntemps := sint n \<rparr>) }
      else if opcode = 106 then Some c
      else do {
        (o1, p) \<leftarrow> read_operand_dx m p;
        let i = o_idx o1 ! 0;
        if opcode = 89 then do { w \<leftarrow> use_reg i (cb_used c); Some (c\<lparr> cb_used := w \<rparr>) }
        else if opcode = 90 then do { w \<leftarrow> use_reg i (samp_used c); Some (c\<lparr> samp_used := w \<rparr>) }
        else if opcode = 88 then do { w \<leftarrow> use_reg i (res_used c); Some (c\<lparr> res_used := w \<rparr>) }
        else if opcode = 95 \<or> opcode = 98 then do { w \<leftarrow> use_reg i (in_used c); Some (c\<lparr> in_used := w \<rparr>) }
        else if opcode = 97 \<or> opcode = 100
        then do {
          sv \<leftarrow> rd32 m p;
          w \<leftarrow> use_reg i (in_used c);
          Some (c\<lparr> in_siv_pos := (if i < 8 \<and> sv = 1 then (in_siv_pos c)[nat i := True] else in_siv_pos c), in_used := w \<rparr>) }
        else if opcode = 101 then do { w \<leftarrow> use_reg i (out_used c); Some (c\<lparr> out_used := w \<rparr>) }
        else do {
          sv \<leftarrow> rd32 m p;
          w \<leftarrow> use_reg i (out_used c);
          Some (c\<lparr> out_pos_reg := (if sv = 1 then i else out_pos_reg c), out_used := w \<rparr>) } })"

definition dcl_ops :: "nat list" where
  "dcl_ops = [88, 89, 90, 95, 97, 98, 100, 101, 103, 104, 106]"

subsection \<open>Arithmetic\<close>

definition unary_fn :: "nat \<Rightarrow> string option" where
  "unary_fn = map_of [(26, ''fract''), (25, ''exp2''), (47, ''log2''), (68, ''rsqrt''), (75, ''sqrt''), (64, ''rint''),
     (65, ''floor''), (66, ''ceil''), (67, ''trunc''), (11, ''dfdx''), (12, ''dfdy'')]"

definition tr_unary :: "(u32 \<Rightarrow> string) \<Rightarrow> nat \<Rightarrow> bool \<Rightarrow> u8 list \<Rightarrow> nat \<Rightarrow> Ctx \<Rightarrow> (string \<times> Ctx) option" where
  "tr_unary fmt_g opcode sat m p c = do {
     (d, dmask, nc, ss, c) \<leftarrow> dst_srcs fmt_g m 1 p c;
     let rhs = cut 200 (case unary_fn opcode of Some fn \<Rightarrow> fn @ ''('' @ ss ! 0 @ '')'' | None \<Rightarrow> ss ! 0);
     Some (emit_rhs d dmask sat rhs, c) }"

definition binary_op :: "nat \<Rightarrow> string option" where
  "binary_op = map_of [(0, ''+''), (56, ''*''), (14, ''/'')]"

definition tr_binary :: "(u32 \<Rightarrow> string) \<Rightarrow> nat \<Rightarrow> bool \<Rightarrow> u8 list \<Rightarrow> nat \<Rightarrow> Ctx \<Rightarrow> (string \<times> Ctx) option" where
  "tr_binary fmt_g opcode sat m p c = do {
     (d, dmask, nc, ss, c) \<leftarrow> dst_srcs fmt_g m 2 p c;
     let rhs = cut 240 (case binary_op opcode of Some o2 \<Rightarrow> ss ! 0 @ '' '' @ o2 @ '' '' @ ss ! 1
       | None \<Rightarrow> (if opcode = 51 then ''min'' else ''max'') @ ''('' @ ss ! 0 @ '', '' @ ss ! 1 @ '')'');
     Some (emit_rhs d dmask sat rhs, c) }"

definition tr_mad :: "(u32 \<Rightarrow> string) \<Rightarrow> nat \<Rightarrow> bool \<Rightarrow> u8 list \<Rightarrow> nat \<Rightarrow> Ctx \<Rightarrow> (string \<times> Ctx) option" where
  "tr_mad fmt_g opcode sat m p c = do {
     (d, dmask, nc, ss, c) \<leftarrow> dst_srcs fmt_g m 3 p c;
     let zc = (if nc \<le> 1 then ''float(0.0)'' else ''float'' @ nat_str nc @ ''(0.0)'');
     let rhs = cut 280 (if opcode = 50 then ''fma('' @ ss ! 0 @ '', '' @ ss ! 1 @ '', '' @ ss ! 2 @ '')''
       else ''select('' @ ss ! 2 @ '', '' @ ss ! 1 @ '', '' @ ss ! 0 @ '' != '' @ zc @ '')'');
     Some (emit_rhs d dmask sat rhs, c) }"

definition tr_dot :: "(u32 \<Rightarrow> string) \<Rightarrow> nat \<Rightarrow> bool \<Rightarrow> u8 list \<Rightarrow> nat \<Rightarrow> Ctx \<Rightarrow> (string \<times> Ctx) option" where
  "tr_dot fmt_g opcode sat m p c = do {
     (os, _) \<leftarrow> read_operands m 3 p;
     (d, dmask, _, c) \<leftarrow> dst_str (hd os) c;
     let n = (if opcode = 15 then 2 else if opcode = 16 then 3 else 4);
     (ss, c) \<leftarrow> src_strs fmt_g n [0, 1, 2, 3] (tl os) c;
     Some (emit_rhs d dmask sat (cut 240 (''dot('' @ ss ! 0 @ '', '' @ ss ! 1 @ '')'')), c) }"

subsection \<open>Comparison, integer and conversion instructions\<close>

definition line_text :: "string \<Rightarrow> string \<Rightarrow> string \<Rightarrow> string" where
  "line_text d dmask rhs = fmt512 (''  '' @ d @ dmask @ '' = '' @ rhs @ '';'' @ nl)"

definition tr_compare :: "(u32 \<Rightarrow> string) \<Rightarrow> nat \<Rightarrow> u8 list \<Rightarrow> nat \<Rightarrow> Ctx \<Rightarrow> (string \<times> Ctx) option" where
  "tr_compare fmt_g opcode m p c = do {
     (d, dmask, nc, ss, c) \<leftarrow> dst_srcs fmt_g m 2 p c;
     let op2 = (if opcode = 24 then ''=='' else if opcode = 29 then ''>='' else if opcode = 49 then ''<'' else ''!='');
     Some (line_text d dmask (''select('' @ ftype nc @ ''(0.0), '' @ ftype nc @ ''(1.0), '' @ ss ! 0 @ '' '' @ op2 @ '' ''
       @ ss ! 1 @ '')''), c) }"

definition as_type :: "string \<Rightarrow> string \<Rightarrow> string" where
  "as_type t e = ''as_type<'' @ t @ ''>('' @ e @ '')''"

definition tr_intbin :: "(u32 \<Rightarrow> string) \<Rightarrow> nat \<Rightarrow> u8 list \<Rightarrow> nat \<Rightarrow> Ctx \<Rightarrow> (string \<times> Ctx) option" where
  "tr_intbin fmt_g opcode m p c = do {
     (d, dmask, nc, ss, c) \<leftarrow> dst_srcs fmt_g m 2 p c;
     let it = (if opcode \<in> {85, 1, 60, 87} then utype nc else itype nc);
     let op2 = (if opcode = 30 then ''+'' else if opcode = 41 then ''<<'' else if opcode = 42 \<or> opcode = 85 then ''>>''
       else if opcode = 1 then ''&'' else if opcode = 60 then ''|'' else ''^'');
     Some (line_text d dmask (as_type (ftype nc) (as_type it (ss ! 0) @ '' '' @ op2 @ '' '' @ as_type it (ss ! 1))), c) }"

definition tr_intun :: "(u32 \<Rightarrow> string) \<Rightarrow> nat \<Rightarrow> u8 list \<Rightarrow> nat \<Rightarrow> Ctx \<Rightarrow> (string \<times> Ctx) option" where
  "tr_intun fmt_g opcode m p c = do {
     (d, dmask, nc, ss, c) \<leftarrow> dst_srcs fmt_g m 1 p c;
     Some (line_text d dmask (as_type (ftype nc)
       (if opcode = 40 then ''-'' @ as_type (itype nc) (ss ! 0) else ''~'' @ as_type (utype nc) (ss ! 0))), c) }"

definition tr_imul :: "(u32 \<Rightarrow> string) \<Rightarrow> u8 list \<Rightarrow> nat \<Rightarrow> Ctx \<Rightarrow> (string \<times> Ctx) option" where
  "tr_imul fmt_g m p c = do {
     (os, _) \<leftarrow> read_operands m 4 p;
     let olo = os ! 1;
     if o_type olo = OT_NULL then Some ([], c)
     else do {
       (d, dmask, pos, c) \<leftarrow> dst_str olo c;
       let k = length pos;
       (ss, c) \<leftarrow> src_strs fmt_g k pos (drop 2 os) c;
       Some (line_text d dmask (as_type (ftype k) (as_type (itype k) (ss ! 0) @ '' * '' @ as_type (itype k) (ss ! 1))), c) } }"

definition tr_conv :: "(u32 \<Rightarrow> string) \<Rightarrow> nat \<Rightarrow> u8 list \<Rightarrow> nat \<Rightarrow> Ctx \<Rightarrow> (string \<times> Ctx) option" where
  "tr_conv fmt_g opcode m p c = do {
     (d, dmask, nc, ss, c) \<leftarrow> dst_srcs fmt_g m 1 p c;
     let s0 = ss ! 0;
     Some (line_text d dmask
       (if opcode = 27 then as_type (ftype nc) (itype nc @ ''('' @ s0 @ '')'')
        else if opcode = 28 then as_type (ftype nc) (utype nc @ ''('' @ s0 @ '')'')
        else if opcode = 43 then ftype nc @ ''('' @ as_type (itype nc) s0 @ '')''
        else ftype nc @ ''('' @ as_type (utype nc) s0 @ '')''), c) }"

definition sincos_half :: "(u32 \<Rightarrow> string) \<Rightarrow> string \<Rightarrow> Operand \<Rightarrow> Operand \<Rightarrow> Ctx \<Rightarrow> (string \<times> Ctx) option" where
  "sincos_half fmt_g fn o1 osrc c =
     (if o_type o1 = OT_NULL then Some ([], c)
      else do {
        (d, dmask, pos, c) \<leftarrow> dst_str o1 c;
        (s, c) \<leftarrow> src_str fmt_g (length pos) pos osrc c;
        Some (line_text d dmask (fn @ ''('' @ s @ '')''), c) })"

definition tr_sincos :: "(u32 \<Rightarrow> string) \<Rightarrow> u8 list \<Rightarrow> nat \<Rightarrow> Ctx \<Rightarrow> (string \<times> Ctx) option" where
  "tr_sincos fmt_g m p c = do {
     (os, _) \<leftarrow> read_operands m 3 p;
     (t1, c) \<leftarrow> sincos_half fmt_g ''sin'' (os ! 0) (os ! 2) c;
     (t2, c) \<leftarrow> sincos_half fmt_g ''cos'' (os ! 1) (os ! 2) c;
     Some (t1 @ t2, c) }"

definition tr_iminmax :: "(u32 \<Rightarrow> string) \<Rightarrow> nat \<Rightarrow> u8 list \<Rightarrow> nat \<Rightarrow> Ctx \<Rightarrow> (string \<times> Ctx) option" where
  "tr_iminmax fmt_g opcode m p c = do {
     (d, dmask, nc, ss, c) \<leftarrow> dst_srcs fmt_g m 2 p c;
     Some (line_text d dmask (as_type (ftype nc) ((if opcode = 37 then ''min'' else ''max'') @ ''(''
       @ as_type (itype nc) (ss ! 0) @ '', '' @ as_type (itype nc) (ss ! 1) @ '')'')), c) }"

definition tr_icompare :: "(u32 \<Rightarrow> string) \<Rightarrow> nat \<Rightarrow> u8 list \<Rightarrow> nat \<Rightarrow> Ctx \<Rightarrow> (string \<times> Ctx) option" where
  "tr_icompare fmt_g opcode m p c = do {
     (d, dmask, nc, ss, c) \<leftarrow> dst_srcs fmt_g m 2 p c;
     let o2 = (if opcode = 32 then ''=='' else if opcode = 33 then ''>='' else if opcode = 34 then ''<'' else ''!='');
     Some (line_text d dmask (''select('' @ ftype nc @ ''(0.0), '' @ ftype nc @ ''(1.0), '' @ as_type (itype nc) (ss ! 0)
       @ '' '' @ o2 @ '' '' @ as_type (itype nc) (ss ! 1) @ '')''), c) }"

subsection \<open>Textures\<close>

definition tex :: "Operand \<Rightarrow> string" where "tex o1 = ''t'' @ int_str (o_idx o1 ! 0)"
definition smp :: "Operand \<Rightarrow> string" where "smp o1 = ''s'' @ int_str (o_idx o1 ! 0)"

definition tr_sample :: "(u32 \<Rightarrow> string) \<Rightarrow> nat \<Rightarrow> u8 list \<Rightarrow> nat \<Rightarrow> Ctx \<Rightarrow> (string \<times> Ctx) option" where
  "tr_sample fmt_g opcode m p c = do {
     (os, _) \<leftarrow> read_operands m (if opcode = 72 then 5 else 4) p;
     (d, dmask, _, c) \<leftarrow> dst_str (os ! 0) c;
     (s0, c) \<leftarrow> src_str fmt_g 2 [0, 1] (os ! 1) c;
     Some (line_text d dmask (tex (os ! 2) @ ''.sample('' @ smp (os ! 3) @ '', '' @ s0 @ '')'' @ dmask), c) }"

definition tr_ld :: "(u32 \<Rightarrow> string) \<Rightarrow> u8 list \<Rightarrow> nat \<Rightarrow> Ctx \<Rightarrow> (string \<times> Ctx) option" where
  "tr_ld fmt_g m p c = do {
     (os, _) \<leftarrow> read_operands m 3 p;
     (d, dmask, _, c) \<leftarrow> dst_str (os ! 0) c;
     (s0, c) \<leftarrow> src_str fmt_g 2 [0, 1] (os ! 1) c;
     (s1, c) \<leftarrow> src_str fmt_g 1 [2] (os ! 1) c;
     Some (line_text d dmask (tex (os ! 2) @ ''.read(uint2('' @ as_type ''int2'' s0 @ ''), '' @ as_type ''uint'' s1 @ '')'' @ dmask), c) }"

definition tr_sample_b :: "(u32 \<Rightarrow> string) \<Rightarrow> u8 list \<Rightarrow> nat \<Rightarrow> Ctx \<Rightarrow> (string \<times> Ctx) option" where
  "tr_sample_b fmt_g m p c = do {
     (os, _) \<leftarrow> read_operands m 5 p;
     (d, dmask, _, c) \<leftarrow> dst_str (os ! 0) c;
     (s0, c) \<leftarrow> src_str fmt_g 2 [0, 1] (os ! 1) c;
     (s1, c) \<leftarrow> src_str fmt_g 1 [0] (os ! 4) c;
     Some (line_text d dmask (tex (os ! 2) @ ''.sample('' @ smp (os ! 3) @ '', '' @ s0 @ '', bias('' @ s1 @ ''))'' @ dmask), c) }"

definition tr_sample_c :: "(u32 \<Rightarrow> string) \<Rightarrow> u8 list \<Rightarrow> nat \<Rightarrow> Ctx \<Rightarrow> (string \<times> Ctx) option" where
  "tr_sample_c fmt_g m p c = do {
     (os, _) \<leftarrow> read_operands m 5 p;
     (d, dmask, _, c) \<leftarrow> dst_str (os ! 0) c;
     let i = o_idx (os ! 2) ! 0;
     w \<leftarrow> (if i < 16 then use_reg i (depth_res c) else Some (depth_res c));
     let c = c\<lparr> depth_res := w \<rparr>;
     (s0, c) \<leftarrow> src_str fmt_g 2 [0, 1] (os ! 1) c;
     (s1, c) \<leftarrow> src_str fmt_g 1 [0] (os ! 4) c;
     Some (line_text d dmask (tex (os ! 2) @ ''.sample_compare('' @ smp (os ! 3) @ '', '' @ s0 @ '', '' @ s1 @ '')''), c) }"

definition tr_resinfo :: "u8 list \<Rightarrow> nat \<Rightarrow> Ctx \<Rightarrow> (string \<times> Ctx) option" where
  "tr_resinfo m p c = do {
     (os, _) \<leftarrow> read_operands m 3 p;
     (d, dmask, _, c) \<leftarrow> dst_str (os ! 0) c;
     let t = tex (os ! 2);
     Some (line_text d dmask (''float4(float('' @ t @ ''.get_width()), float('' @ t @ ''.get_height()), 0.0, float('' @ t
       @ ''.get_num_mip_levels()))'' @ dmask), c) }"

subsection \<open>Control flow\<close>

definition tr_cond :: "(u32 \<Rightarrow> string) \<Rightarrow> nat \<Rightarrow> bool \<Rightarrow> u8 list \<Rightarrow> nat \<Rightarrow> Ctx \<Rightarrow> (string \<times> Ctx) option" where
  "tr_cond fmt_g opcode nz m p c = do {
     (o1, _) \<leftarrow> read_operand_dx m p;
     (s0, c) \<leftarrow> src_str fmt_g 1 [0] o1 c;
     let cmp = (if nz then ''!='' else ''=='');
     Some (fmt512 (''  if ('' @ s0 @ '' '' @ cmp @ '' 0.0) '' @ (if opcode = 31 then ''{'' else if opcode = 3 then ''break;''
       else ''discard_fragment();'') @ nl), c) }"

definition tr_switch :: "(u32 \<Rightarrow> string) \<Rightarrow> u8 list \<Rightarrow> nat \<Rightarrow> Ctx \<Rightarrow> (string \<times> Ctx) option" where
  "tr_switch fmt_g m p c = do {
     (o1, _) \<leftarrow> read_operand_dx m p;
     (s0, c) \<leftarrow> src_str fmt_g 1 [0] o1 c;
     Some (fmt512 (''  switch ('' @ as_type ''int'' s0 @ '') {'' @ nl), c) }"

definition tr_case :: "u8 list \<Rightarrow> nat \<Rightarrow> Ctx \<Rightarrow> (string \<times> Ctx) option" where
  "tr_case m p c = do {
     (o1, _) \<leftarrow> read_operand_dx m p;
     Some (fmt512 (''  case '' @ int_str (sint (o_imm o1 ! 0)) @ '':'' @ nl), c) }"

definition flow_text :: "nat \<Rightarrow> string option" where
  "flow_text = map_of [(10, ''  default:'' @ nl), (23, ''  }'' @ nl), (18, ''  } else {'' @ nl), (21, ''  }'' @ nl),
     (22, ''  }'' @ nl), (48, ''  while (true) {'' @ nl), (2, ''  break;'' @ nl), (7, ''  continue;'' @ nl),
     (62, ''  return out;'' @ nl)]"

text \<open>The switch over the opcode.\<close>

definition tr_instr :: "(u32 \<Rightarrow> string) \<Rightarrow> u32 \<Rightarrow> u8 list \<Rightarrow> nat \<Rightarrow> Ctx \<Rightarrow> (string \<times> Ctx) option" where
  "tr_instr fmt_g op_tok m p c =
     (let opcode = fld 0 11 op_tok; sat = bit op_tok 13
      in if opcode \<in> set dcl_ops then map_option (\<lambda>c. ([], c)) (tr_dcl opcode m p c)
         else if opcode = 54 \<or> unary_fn opcode \<noteq> None then tr_unary fmt_g opcode sat m p c
         else if opcode \<in> {0, 56, 14, 51, 52} then tr_binary fmt_g opcode sat m p c
         else if opcode \<in> {50, 55} then tr_mad fmt_g opcode sat m p c
         else if opcode \<in> {15, 16, 17} then tr_dot fmt_g opcode sat m p c
         else if opcode \<in> {69, 72} then tr_sample fmt_g opcode m p c
         else if opcode \<in> {24, 29, 49, 57} then tr_compare fmt_g opcode m p c
         else if opcode \<in> {30, 41, 42, 85, 1, 60, 87} then tr_intbin fmt_g opcode m p c
         else if opcode \<in> {40, 59} then tr_intun fmt_g opcode m p c
         else if opcode = 38 then tr_imul fmt_g m p c
         else if opcode \<in> {27, 28, 43, 86} then tr_conv fmt_g opcode m p c
         else if opcode = 77 then tr_sincos fmt_g m p c
         else if opcode \<in> {36, 37} then tr_iminmax fmt_g opcode m p c
         else if opcode \<in> {32, 33, 34, 39} then tr_icompare fmt_g opcode m p c
         else if opcode = 45 then tr_ld fmt_g m p c
         else if opcode = 74 then tr_sample_b fmt_g m p c
         else if opcode \<in> {70, 71} then tr_sample_c fmt_g m p c
         else if opcode = 61 then tr_resinfo m p c
         else if opcode = 76 then tr_switch fmt_g m p c
         else if opcode = 6 then tr_case m p c
         else if opcode \<in> {31, 3, 13} then tr_cond fmt_g opcode (bit op_tok 18) m p c
         else case flow_text opcode of Some t \<Rightarrow> Some (t, c)
           | None \<Rightarrow> Some (fmt512 (''  // unhandled opcode '' @ nat_str opcode @ nl), c))"

subsection \<open>The token stream\<close>

text \<open>One round of the loop: the next position, the text and the registers.\<close>

definition next_instr :: "u8 list \<Rightarrow> nat \<Rightarrow> u32 \<Rightarrow> nat \<Rightarrow> nat option" where
  "next_instr m e op_tok p =
     (let opcode = fld 0 11 op_tok; ilen = fld 24 7 op_tok
      in if opcode = 53 \<and> p + 4 < e then do { n \<leftarrow> rd32 m (p + 4); Some (p + 4 * unat n) }
         else Some (p + 4 * (if ilen \<noteq> 0 then ilen else 1)))"

definition tr_step :: "(u32 \<Rightarrow> string) \<Rightarrow> u8 list \<Rightarrow> nat \<Rightarrow> nat \<Rightarrow> Ctx \<Rightarrow> (nat \<times> string \<times> Ctx) option" where
  "tr_step fmt_g m e p c = do {
     op_tok \<leftarrow> rd32 m p;
     next_p \<leftarrow> next_instr m e op_tok p;
     (t, c) \<leftarrow> tr_instr fmt_g op_tok m (p + 4) c;
     Some (next_p, t, c) }"

partial_function (option) translate_loop ::
    "(u32 \<Rightarrow> string) \<Rightarrow> u8 list \<Rightarrow> nat \<Rightarrow> nat \<Rightarrow> Ctx \<Rightarrow> string \<Rightarrow> (string \<times> Ctx) option option" where
  "translate_loop fmt_g m e p c body =
     (if e \<le> p then Some (Some (body, c))
      else case tr_step fmt_g m e p c of None \<Rightarrow> Some None
        | Some (q, t, c) \<Rightarrow> translate_loop fmt_g m e q c (body @ t))"

definition ctx_init :: "bool \<Rightarrow> Ctx" where
  "ctx_init pixel = \<lparr> ntemps = 0, in_used = 0, out_used = 0, out_pos_reg = - 1, cb_used = 0, res_used = 0, samp_used = 0,
     depth_res = 0, is_pixel = pixel, in_siv_pos = replicate 8 False \<rparr>"

subsection \<open>The Metal program\<close>

definition regs :: "nat \<Rightarrow> u32 \<Rightarrow> nat list" where
  "regs n w = filter (bit w) [0..<n]"

definition field_text :: "string \<Rightarrow> nat \<Rightarrow> string \<Rightarrow> string" where
  "field_text v i attr = fmt512 (''  float4 '' @ v @ nat_str i @ '' [['' @ attr @ '']];'' @ nl)"

definition struct_text :: "string \<Rightarrow> string list \<Rightarrow> string" where
  "struct_text name fs = ''struct '' @ name @ '' {'' @ nl @ concat fs @ ''};'' @ nl"

text \<open>The fields of the structures; the array of position inputs has eight entries.\<close>

definition vs_in_fields :: "Ctx \<Rightarrow> string list" where
  "vs_in_fields c = map (\<lambda>i. field_text ''v'' i (''attribute('' @ nat_str i @ '')'')) (regs 32 (in_used c))"

definition vs_out_fields :: "Ctx \<Rightarrow> string list" where
  "vs_out_fields c = map (\<lambda>i. field_text ''o'' i
     (if int i = out_pos_reg c then ''position'' else ''user(locn'' @ nat_str i @ '')'')) (regs 32 (out_used c))"

definition ps_in_fields :: "Ctx \<Rightarrow> string list option" where
  "ps_in_fields c =
     (if \<exists>i \<in> set (regs 32 (in_used c)). length (in_siv_pos c) \<le> i then None
      else Some (map (\<lambda>i. field_text ''v'' i (if in_siv_pos c ! i then ''position'' else ''user(locn'' @ nat_str i @ '')''))
        (regs 32 (in_used c))))"

definition ps_out_fields :: "Ctx \<Rightarrow> string list" where
  "ps_out_fields c = map (\<lambda>i. field_text ''o'' i (''color('' @ nat_str i @ '')'')) (regs 8 (out_used c))"

fun commas :: "string list \<Rightarrow> string" where
  "commas [] = []"
| "commas [x] = x"
| "commas (x # xs) = x @ '', '' @ commas xs"

definition signature_params :: "Ctx \<Rightarrow> string list" where
  "signature_params c =
     (if in_used c \<noteq> 0 then [(if is_pixel c then ''WGPSIn'' else ''WGVSIn'') @ '' in [[stage_in]]''] else [])
     @ map (\<lambda>i. ''constant float4* cb'' @ nat_str i @ '' [[buffer('' @ nat_str (16 + i) @ '')]]'') (regs 32 (cb_used c))
     @ map (\<lambda>i. (if bit (depth_res c) i then ''depth2d<float>'' else ''texture2d<float>'') @ '' t'' @ nat_str i
         @ '' [[texture('' @ nat_str i @ '')]]'') (regs 16 (res_used c))
     @ map (\<lambda>i. ''sampler s'' @ nat_str i @ '' [[sampler('' @ nat_str i @ '')]]'') (regs 16 (samp_used c))"

definition structs_text :: "Ctx \<Rightarrow> string option" where
  "structs_text c =
     (let has_in = in_used c \<noteq> 0
      in if \<not> is_pixel c
         then Some ((if has_in then struct_text ''WGVSIn'' (vs_in_fields c) else []) @ struct_text ''WGVSOut'' (vs_out_fields c))
         else do {
           s \<leftarrow> (if has_in then map_option (struct_text ''WGPSIn'') (ps_in_fields c) else Some []);
           Some (s @ struct_text ''WGPSOut'' (ps_out_fields c)) })"

definition assemble_msl :: "Ctx \<Rightarrow> string \<Rightarrow> string option" where
  "assemble_msl c body = do {
     structs \<leftarrow> structs_text c;
     Some (''#include <metal_stdlib>'' @ nl @ ''using namespace metal;'' @ nl @ structs
       @ (if is_pixel c then ''fragment WGPSOut wg_ps_main('' else ''vertex WGVSOut wg_vs_main('')
       @ commas (signature_params c) @ '') {'' @ nl
       @ concat (map (\<lambda>i. ''  float4 r'' @ nat_str i @ '' = float4(0.0);'' @ nl) [0..<nat (ntemps c)])
       @ (if is_pixel c then ''  WGPSOut out = {};'' else ''  WGVSOut out = {};'') @ nl
       @ body @ (if strstr body ''return '' \<noteq> None then [] else ''  return out;'' @ nl) @ ''}'' @ nl) }"

text \<open>The translator: not returning is the outer \<^term>\<open>None\<close>, undefined behaviour the next one, a
  null result the inner one; otherwise the program and its stage.\<close>

definition shader_chunk :: "u8 list \<Rightarrow> (nat \<times> u32) option option" where
  "shader_chunk m = do {
     r \<leftarrow> find_chunk m (FOURCC (CHR ''S'') (CHR ''H'') (CHR ''E'') (CHR ''X''));
     (case r of Some x \<Rightarrow> Some (Some x)
      | None \<Rightarrow> find_chunk m (FOURCC (CHR ''S'') (CHR ''H'') (CHR ''D'') (CHR ''R''))) }"

definition stream_start :: "u8 list \<Rightarrow> nat \<Rightarrow> u32 \<Rightarrow> (nat \<times> nat \<times> bool) option" where
  "stream_start m sh shsz = do {
     ver \<leftarrow> rd32 m sh;
     len \<leftarrow> rd32 m (sh + 4);
     Some (sh + 8, sh + 4 * (if len \<noteq> 0 then unat len else unat shsz div 4), fld 16 16 ver = 0) }"

definition wg_dxbc_to_msl :: "(u32 \<Rightarrow> string) \<Rightarrow> u8 list option \<Rightarrow> ((string \<times> char) option) option option" where
  "wg_dxbc_to_msl fmt_g dxbc =
     (if \<not> wg_dxbc_is_dxbc dxbc then Some (Some None)
      else
        let m = the dxbc
        in case shader_chunk m of None \<Rightarrow> Some None
           | Some None \<Rightarrow> Some (Some None)
           | Some (Some (sh, shsz)) \<Rightarrow>
               (case stream_start m sh shsz of None \<Rightarrow> Some None
                | Some (p, e, pixel) \<Rightarrow> do {
                    r \<leftarrow> translate_loop fmt_g m e p (ctx_init pixel) [];
                    Some (case r of None \<Rightarrow> None
                          | Some (body, c) \<Rightarrow> map_option (\<lambda>t. Some (t, if pixel then CHR ''f'' else CHR ''v'')) (assemble_msl c body)) }))"

end
