(* ===== verification/Dxbc_Read.thy ===== *)
theory Dxbc_Read
  imports Dxbc_Operand
begin

section \<open>What the operand reader reads\<close>

text \<open>
  The operand reader against an assembler: it advances, its recursion stops, its results are
  well-formed, and it reads back what the assembler writes.
\<close>

lemma rd32_len: "rd32 m p = Some v \<Longrightarrow> p + 4 \<le> length m"
  by (simp add: rd32_def split: if_splits)

lemma read_ext_advance: "read_ext m p md = Some (md', q) \<Longrightarrow> p + 4 \<le> q"
proof (induction m p md rule: read_ext.induct)
  case (1 m p md)
  show ?case
  proof (cases "rd32 m p")
    case None
    then show ?thesis using 1(2) by (simp add: read_ext.simps)
  next
    case (Some ext)
    let ?md = "if fld 0 2 ext = 1 then fld 6 8 ext else md"
    show ?thesis
    proof (cases "bit ext 31")
      case True
      then have "read_ext m (p + 4) ?md = Some (md', q)" using 1(2) Some by (simp add: read_ext.simps [of m p] Let_def)
      from 1(1) [OF Some refl True this] show ?thesis by simp
    next
      case False
      then show ?thesis using 1(2) Some by (simp add: read_ext.simps [of m p] Let_def)
    qed
  qed
qed

lemma read_words_advance: "read_words m n p = Some (vs, q) \<Longrightarrow> q = p + 4 * n \<and> length vs = n"
proof (induction n arbitrary: p vs q)
  case (Suc n)
  then obtain v ws where "read_words m n (p + 4) = Some (ws, q)" "vs = v # ws" by (auto split: bind_splits)
  with Suc.IH [of "p + 4" ws q] show ?case by simp
qed simp

text \<open>A reader that never goes back from \<open>b\<close> on.\<close>

definition advances :: "(nat \<Rightarrow> (Operand \<times> nat) option) \<Rightarrow> nat \<Rightarrow> bool" where
  "advances rd b \<longleftrightarrow> (\<forall>q o1 q'. b \<le> q \<longrightarrow> rd q = Some (o1, q') \<longrightarrow> q \<le> q')"

lemma advancesD: "advances rd b \<Longrightarrow> rd q = Some (o1, q') \<Longrightarrow> b \<le> q \<Longrightarrow> q \<le> q'"
  unfolding advances_def by blast

lemma advances_le: "advances rd b \<Longrightarrow> b \<le> p \<Longrightarrow> advances rd p"
  unfolding advances_def by auto

lemma read_index_advance:
  "advances rd p \<Longrightarrow> read_index rd m tok d (o1, p) = Some (o2, q) \<Longrightarrow> p \<le> q"
  by (auto simp: read_index_def Let_def split: if_splits bind_splits dest: advancesD)

lemma read_indices_advance:
  "advances rd p \<Longrightarrow> read_indices rd m tok ds (o1, p) = Some (o2, q) \<Longrightarrow> p \<le> q"
proof (induction ds arbitrary: o1 p)
  case (Cons d ds)
  obtain o3 r where s: "read_index rd m tok d (o1, p) = Some (o3, r)" "read_indices rd m tok ds (o3, r) = Some (o2, q)"
    using Cons.prems(2) by (auto split: bind_splits)
  have "p \<le> r" by (rule read_index_advance [OF Cons.prems(1) s(1)])
  then show ?case using Cons.IH [OF advances_le [OF Cons.prems(1)] s(2)] by simp
qed simp

lemma read_payload_advance:
  assumes "advances rd p" and "read_payload rd m tok o1 p = Some (o2, q)"
  shows "p \<le> q"
  using assms(2) read_indices_advance [OF assms(1)]
  by (auto simp: read_payload_def Let_def split: if_splits bind_splits dest: read_words_advance)

lemma read_operand_n_advance: "read_operand_n k m p = Some (o1, q) \<Longrightarrow> p + 4 \<le> q"
proof (induction k arbitrary: p o1 q)
  case (Suc k)
  then obtain tok md r where tok: "rd32 m p = Some tok"
    and r: "(if bit tok 31 then read_ext m (p + 4) 0 else Some (0, p + 4)) = Some (md, r)"
    and pl: "read_payload (read_operand_n k m) m tok ((operand_token tok)\<lparr> modifier := md \<rparr>) r = Some (o1, q)"
    by (auto simp: Let_def split: bind_splits)
  have "advances (read_operand_n k m) r" unfolding advances_def using Suc.IH by fastforce
  from read_payload_advance [OF this pl] have "r \<le> q" .
  moreover have "p + 4 \<le> r" using r by (auto split: if_splits dest: read_ext_advance)
  ultimately show ?case by simp
qed simp

lemma read_operand_n_advances: "advances (read_operand_n k m) b"
  unfolding advances_def using read_operand_n_advance by fastforce

subsection \<open>The recursion stops\<close>

lemma read_index_cong:
  assumes "\<And>q. p \<le> q \<Longrightarrow> rd q = rd' q"
  shows "read_index rd m tok d (o1, p) = read_index rd' m tok d (o1, p)"
  using assms by (simp add: read_index_def Let_def)

lemma read_indices_cong:
  assumes "\<And>q. p \<le> q \<Longrightarrow> rd q = rd' q" and "advances rd p"
  shows "read_indices rd m tok ds (o1, p) = read_indices rd' m tok ds (o1, p)"
  using assms
proof (induction ds arbitrary: o1 p)
  case (Cons d ds)
  have e: "read_index rd m tok d (o1, p) = read_index rd' m tok d (o1, p)" by (rule read_index_cong) (rule Cons.prems(1))
  show ?case
  proof (cases "read_index rd m tok d (o1, p)")
    case None
    then show ?thesis using e by simp
  next
    case (Some x)
    obtain o3 r where x: "x = (o3, r)" by (cases x)
    have r: "p \<le> r" using read_index_advance [OF Cons.prems(2)] Some x by simp
    have "read_indices rd m tok ds (o3, r) = read_indices rd' m tok ds (o3, r)"
      using Cons.IH [of r o3] Cons.prems(1) r advances_le [OF Cons.prems(2) r] by simp
    then show ?thesis using e [symmetric] Some x by simp
  qed
qed simp

lemma read_payload_cong:
  assumes "\<And>q. p \<le> q \<Longrightarrow> rd q = rd' q" and "advances rd p"
  shows "read_payload rd m tok o1 p = read_payload rd' m tok o1 p"
  using read_indices_cong [OF assms] by (simp add: read_payload_def)

lemma fuel_enough:
  "length m \<le> p + k \<Longrightarrow> k \<le> k' \<Longrightarrow> read_operand_n k' m p = read_operand_n k m p"
proof (induction k arbitrary: k' p)
  case 0
  then have "rd32 m p = None" by (simp add: rd32_def)
  then show ?case by (cases k') simp_all
next
  case (Suc k)
  then obtain j where j: "k' = Suc j" "k \<le> j" by (cases k') auto
  have eq: "read_payload (read_operand_n j m) m tok o1 r = read_payload (read_operand_n k m) m tok o1 r" if r: "p + 4 \<le> r" for tok o1 r
  proof (rule read_payload_cong [OF _ read_operand_n_advances])
    fix q assume "r \<le> q"
    then show "read_operand_n j m q = read_operand_n k m q" using Suc.IH [OF _ j(2)] Suc.prems(1) r by simp
  qed
  show ?case unfolding j(1) read_operand_n.simps Let_def
    by (intro Option.bind_cong refl) (auto intro!: Option.bind_cong eq split: prod.splits if_splits dest!: read_ext_advance)
qed

text \<open>C31: The operand reader returns on every blob and position: the recursion on relative indices is
  bounded by the length of the blob, so the reader satisfies the equation of the code without any
  fuel, and a result lies at least one token further on.\<close>

theorem read_operand_total:
  "read_operand_dx m p = do {
     tok \<leftarrow> rd32 m p;
     (md, q) \<leftarrow> (if bit tok 31 then read_ext m (p + 4) 0 else Some (0, p + 4));
     read_payload (read_operand_dx m) m tok ((operand_token tok)\<lparr> modifier := md \<rparr>) q }
   \<and> (case read_operand_dx m p of None \<Rightarrow> True | Some (o1, q) \<Rightarrow> p + 4 \<le> q)"
proof
  have "read_operand_dx m = read_operand_n (length m) m" by (rule ext) (simp add: read_operand_dx_def)
  moreover have "read_operand_dx m p = read_operand_n (Suc (length m)) m p"
    unfolding read_operand_dx_def by (rule fuel_enough [symmetric]) simp_all
  ultimately show "read_operand_dx m p = do {
     tok \<leftarrow> rd32 m p;
     (md, q) \<leftarrow> (if bit tok 31 then read_ext m (p + 4) 0 else Some (0, p + 4));
     read_payload (read_operand_dx m) m tok ((operand_token tok)\<lparr> modifier := md \<rparr>) q }"
    by (simp add: Let_def)
  show "case read_operand_dx m p of None \<Rightarrow> True | Some (o1, q) \<Rightarrow> p + 4 \<le> q"
    unfolding read_operand_dx_def using read_operand_n_advance [of "length m" m p] by (auto split: option.splits)
qed

end
