(* ===== verification/Dxbc_Asm.thy ===== *)
theory Dxbc_Asm
  imports Dxbc_Read
begin

section \<open>An assembler for shader operands\<close>

text \<open>
  The reference encoding of the operand tokens that the reader decodes, for operands with
  immediate indices: an operand of the assembler, its tokens, and the record the reader builds.
\<close>

datatype asel = SelNone nat | SelMask nat | SelSwz "nat list" | Sel1 nat

datatype aop = Reg nat asel "u32 list" nat | Imm "u32 list" nat

fun sel_bits :: "asel \<Rightarrow> nat" where
  "sel_bits (SelNone n) = n"
| "sel_bits (SelMask k) = 2 + 4 * (0 + 4 * k)"
| "sel_bits (SelSwz sw) = 2 + 4 * (1 + 4 * (sw ! 0 + 4 * (sw ! 1 + 4 * (sw ! 2 + 4 * (sw ! 3)))))"
| "sel_bits (Sel1 k) = 2 + 4 * (2 + 4 * k)"

fun wf_sel :: "asel \<Rightarrow> bool" where
  "wf_sel (SelNone n) = (n \<in> {0, 1, 3})"
| "wf_sel (SelMask k) = (k < 16)"
| "wf_sel (SelSwz sw) = (length sw = 4 \<and> (\<forall>i < 4. sw ! i < 4))"
| "wf_sel (Sel1 k) = (k < 4)"

text \<open>The first token: selection, type, number of indices, and whether a modifier follows.\<close>

definition first_token :: "nat \<Rightarrow> nat \<Rightarrow> nat \<Rightarrow> bool \<Rightarrow> nat" where
  "first_token sb ty dim ext = sb + 2 ^ 12 * (ty + 2 ^ 8 * (dim + 2 ^ 11 * (if ext then 1 else 0)))"

definition modifier_tokens :: "nat \<Rightarrow> u32 list" where
  "modifier_tokens md = (if md = 0 then [] else [of_nat (1 + 2 ^ 6 * md)])"

fun asm_operand :: "aop \<Rightarrow> u32 list" where
  "asm_operand (Reg ty s idx md) = of_nat (first_token (sel_bits s) ty (length idx) (md \<noteq> 0)) # modifier_tokens md @ idx"
| "asm_operand (Imm vs md) =
     of_nat (first_token (if length vs = 4 then 2 else 1) 4 0 (md \<noteq> 0)) # modifier_tokens md @ vs"

fun wf_aop :: "aop \<Rightarrow> bool" where
  "wf_aop (Reg ty s idx md) = (ty < 256 \<and> ty \<noteq> OT_IMM32 \<and> ty \<noteq> OT_IMM64 \<and> wf_sel s \<and> length idx \<le> 3 \<and> md < 256)"
| "wf_aop (Imm vs md) = ((length vs = 1 \<or> length vs = 4) \<and> md < 256)"

fun sel_operand :: "asel \<Rightarrow> Operand \<Rightarrow> Operand" where
  "sel_operand (SelNone n) o1 = o1\<lparr> num_comp := n, sel_mode := 0 \<rparr>"
| "sel_operand (SelMask k) o1 = o1\<lparr> num_comp := 2, sel_mode := 0, o_mask := of_nat k \<rparr>"
| "sel_operand (SelSwz sw) o1 = o1\<lparr> num_comp := 2, sel_mode := 1, o_sw := sw \<rparr>"
| "sel_operand (Sel1 k) o1 = o1\<lparr> num_comp := 2, sel_mode := 2, sel1 := k \<rparr>"

fun operand_of :: "aop \<Rightarrow> Operand" where
  "operand_of (Reg ty s idx md) = (sel_operand s operand_zero)\<lparr> o_type := ty, index_dim := length idx,
     o_idx := map sint idx @ replicate (3 - length idx) 0, modifier := md \<rparr>"
| "operand_of (Imm vs md) = operand_zero\<lparr> num_comp := (if length vs = 4 then 2 else 1), o_type := 4,
     o_imm := vs @ replicate (4 - length vs) 0, imm_n := length vs, modifier := md \<rparr>"

subsection \<open>Fields of a token\<close>

lemma fld_of_nat: "x < 2 ^ 32 \<Longrightarrow> fld s n (of_nat x) = x div 2 ^ s mod 2 ^ n"
  by (simp add: fld_def take_bit_eq_mask [symmetric] unsigned_take_bit_eq unsigned_drop_bit_eq unat_of_nat)
    (simp add: take_bit_eq_mod drop_bit_eq_div)

lemma bit31_of_nat: "x < 2 ^ 32 \<Longrightarrow> bit (of_nat x :: u32) 31 = (2 ^ 31 \<le> x)"
proof -
  assume x: "x < 2 ^ 32"
  have "bit (of_nat x :: u32) 31 = bit x 31" by (simp add: bit_simps)
  also have "\<dots> = odd (x div 2 ^ 31)" by (simp only: bit_iff_odd)
  also have "\<dots> = (2 ^ 31 \<le> x)"
  proof (cases "2 ^ 31 \<le> x")
    case True
    then have "x div 2 ^ 31 = 1" using x by (simp add: div_nat_eqI)
    then show ?thesis using True by simp
  qed simp
  finally show ?thesis .
qed

lemma digit_div: "a < k \<Longrightarrow> (a + k * y) div k = (y :: nat)"
  by (cases "k = 0") auto

lemma digit_mod: "a < k \<Longrightarrow> (a + k * y) mod k = (a :: nat)"
  by simp

lemma sel_bits_lt: "wf_sel s \<Longrightarrow> sel_bits s < 2 ^ 12"
proof (cases s)
  case (SelSwz sw)
  moreover assume "wf_sel s"
  ultimately have "sw ! 0 < 4" "sw ! 1 < 4" "sw ! 2 < 4" "sw ! 3 < 4" by auto
  then show ?thesis using SelSwz by simp
qed auto

lemma first_token_fields:
  fixes sb ty dim :: nat and ext :: bool
  assumes "sb < 2 ^ 12" "ty < 2 ^ 8" "dim < 4"
  defines "x \<equiv> first_token sb ty dim ext"
  shows "x < 2 ^ 32" and "(2 ^ 31 \<le> x) = ext" and "x div 2 ^ 12 mod 2 ^ 8 = ty" and "x div 2 ^ 20 mod 2 ^ 2 = dim"
    and "s + n \<le> 12 \<Longrightarrow> x div 2 ^ s mod 2 ^ n = sb div 2 ^ s mod 2 ^ n"
    and "d < 3 \<Longrightarrow> x div 2 ^ (22 + d * 3) mod 2 ^ 3 = 0"
proof -
  let ?e = "if ext then 1 else 0 :: nat"
  let ?y = "ty + 2 ^ 8 * (dim + 2 ^ 11 * ?e)"
  have x: "x = sb + 2 ^ 12 * ?y" unfolding x_def first_token_def by simp
  show "x < 2 ^ 32" "(2 ^ 31 \<le> x) = ext" using assms(1-3) unfolding x by auto
  have d12: "x div 2 ^ 12 = ?y" unfolding x by (rule digit_div [OF assms(1)])
  show "x div 2 ^ 12 mod 2 ^ 8 = ty" unfolding d12 by (rule digit_mod [OF assms(2)])
  have d20: "x div 2 ^ 20 = dim + 2 ^ 11 * ?e"
  proof -
    have "x div 2 ^ 20 = x div 2 ^ 12 div 2 ^ 8" by (simp add: div_mult2_eq [symmetric])
    then show ?thesis unfolding d12 digit_div [OF assms(2)] .
  qed
  have "dim + 2 ^ 11 * ?e = dim + 4 * (2 ^ 9 * ?e)" by simp
  then show "x div 2 ^ 20 mod 2 ^ 2 = dim" unfolding d20 using digit_mod [OF assms(3), of "2 ^ 9 * ?e"] by simp
  show "x div 2 ^ s mod 2 ^ n = sb div 2 ^ s mod 2 ^ n" if "s + n \<le> 12"
  proof -
    have "x div 2 ^ s mod 2 ^ n = take_bit n (drop_bit s (take_bit 12 x))"
      using that by (simp add: take_bit_eq_mod [symmetric] drop_bit_eq_div [symmetric] take_bit_drop_bit)
    also have "take_bit 12 x = sb" unfolding x take_bit_eq_mod by (rule digit_mod [OF assms(1)])
    finally show ?thesis by (simp add: take_bit_eq_mod drop_bit_eq_div)
  qed
  have "x div 2 ^ 22 = x div 2 ^ 20 div 2 ^ 2" by (simp add: div_mult2_eq [symmetric])
  also have "\<dots> = 2 ^ 9 * ?e" unfolding d20 using assms(3) by auto
  finally have d22: "x div 2 ^ 22 = 2 ^ 9 * ?e" .
  show "x div 2 ^ (22 + d * 3) mod 2 ^ 3 = 0" if "d < 3"
  proof -
    have "x div 2 ^ (22 + d * 3) = x div 2 ^ 22 div 2 ^ (d * 3)" by (simp add: div_mult2_eq [symmetric] power_add)
    moreover have "d = 0 \<or> d = 1 \<or> d = 2" using that by auto
    ultimately show ?thesis unfolding d22 by auto
  qed
qed

lemma operand_token_asm:
  assumes "wf_sel s" and b: "ty < 2 ^ 8" "n < 4"
  shows "operand_token (of_nat (first_token (sel_bits s) ty n ext)) = (sel_operand s operand_zero)\<lparr> o_type := ty, index_dim := n \<rparr>"
proof -
  note ft = first_token_fields [OF sel_bits_lt [OF assms(1)] b, where ext = ext]
  define t :: u32 where "t = of_nat (first_token (sel_bits s) ty n ext)"
  let ?b = "sel_bits s"
  have f: "fld k j t = ?b div 2 ^ k mod 2 ^ j" if "k + j \<le> 12" for k j
    unfolding t_def fld_of_nat [OF ft(1)] by (rule ft(5) [OF that])
  have g: "fld 12 8 t = ty" "fld 20 2 t = n" unfolding t_def fld_of_nat [OF ft(1)] by (rule ft(3), rule ft(4))
  have h: "fld 0 2 t = ?b mod 4" "fld 2 2 t = ?b div 4 mod 4" "fld 4 4 t = ?b div 16 mod 16" "fld 4 2 t = ?b div 16 mod 4"
    "fld 6 2 t = ?b div 64 mod 4" "fld 8 2 t = ?b div 256 mod 4" "fld 10 2 t = ?b div 1024 mod 4"
    using f [of 0 2] f [of 2 2] f [of 4 4] f [of 4 2] f [of 6 2] f [of 8 2] f [of 10 2] by simp_all
  have "operand_token t = (sel_operand s operand_zero)\<lparr> o_type := ty, index_dim := n \<rparr>"
  proof (cases s)
    case (SelNone k)
    then have k: "k = 0 \<or> k = 1 \<or> k = 3" using assms(1) by simp
    then show ?thesis unfolding operand_token_def Let_def h g operand_zero_def SelNone by auto
  next
    case (SelMask k)
    have e: "?b = 2 + 4 * (0 + 4 * k)" using SelMask by simp
    have d: "?b div 4 = 0 + 4 * k" unfolding e by (rule digit_div) simp
    have d2: "?b div 16 = k" using digit_div [of 0 4 k] unfolding d [symmetric] by (simp add: div_mult2_eq [symmetric])
    have "?b mod 4 = 2" unfolding e by (rule digit_mod) simp
    moreover have "?b div 4 mod 4 = 0" unfolding d by (rule digit_mod) simp
    moreover have "?b div 16 mod 16 = k" unfolding d2 using assms(1) SelMask by simp
    ultimately show ?thesis unfolding operand_token_def Let_def h g operand_zero_def by (simp add: SelMask)
  next
    case (SelSwz sw)
    then have w: "sw ! 0 < 4" "sw ! 1 < 4" "sw ! 2 < 4" "sw ! 3 < 4" and l: "length sw = 4" using assms by auto
    let ?y = "sw ! 0 + 4 * (sw ! 1 + 4 * (sw ! 2 + 4 * (sw ! 3)))"
    have e: "?b = 2 + 4 * (1 + 4 * ?y)" using SelSwz by simp
    have b4: "?b div 4 = 1 + 4 * ?y" "?b mod 4 = 2" unfolding e by (rule digit_div, simp) (rule digit_mod, simp)
    have d: "?b div 16 = ?b div 4 div 4" "?b div 64 = ?b div 16 div 4" "?b div 256 = ?b div 64 div 4" "?b div 1024 = ?b div 256 div 4"
      by (simp_all add: div_mult2_eq [symmetric])
    have v: "?b div 16 = ?y" "?b div 64 = sw ! 1 + 4 * (sw ! 2 + 4 * (sw ! 3))" "?b div 256 = sw ! 2 + 4 * (sw ! 3)" "?b div 1024 = sw ! 3"
      unfolding d b4(1) using digit_div [OF w(1)] digit_div [OF w(2)] digit_div [OF w(3)] digit_div [of 1 4] by simp_all
    have m: "?b div 4 mod 4 = 1" "?b div 16 mod 4 = sw ! 0" "?b div 64 mod 4 = sw ! 1" "?b div 256 mod 4 = sw ! 2" "?b div 1024 mod 4 = sw ! 3"
      unfolding v b4(1)
      by (rule digit_mod, simp) (rule digit_mod [OF w(1)] digit_mod [OF w(2)] digit_mod [OF w(3)] mod_less [OF w(4)])+
    obtain s0 s1 s2 s3 where sw: "sw = [s0, s1, s2, s3]" using l by (auto simp: length_Suc_conv numeral_eq_Suc)
    have up: "[0..<4] = [0, 1, 2, 3 :: nat]" by (simp add: upt_rec)
    have "fld (4 + 0 * 2) 2 t = s0" "fld (4 + 1 * 2) 2 t = s1" "fld (4 + 2 * 2) 2 t = s2" "fld (4 + 3 * 2) 2 t = s3"
      using h(4-7) m(2-5) sw by simp_all
    then have "map (\<lambda>i. fld (4 + i * 2) 2 t) [0..<4] = sw" unfolding up sw list.map by simp
    then show ?thesis unfolding operand_token_def Let_def h g m b4(2) operand_zero_def by (simp add: SelSwz)
  next
    case (Sel1 k)
    have e: "?b = 2 + 4 * (2 + 4 * k)" using Sel1 by simp
    have d: "?b div 4 = 2 + 4 * k" unfolding e by (rule digit_div) simp
    have d2: "?b div 16 = k" using digit_div [of 2 4 k] unfolding d [symmetric] by (simp add: div_mult2_eq [symmetric])
    have "?b mod 4 = 2" unfolding e by (rule digit_mod) simp
    moreover have "?b div 4 mod 4 = 2" unfolding d by (rule digit_mod) simp
    moreover have "?b div 16 mod 4 = k" unfolding d2 using assms(1) Sel1 by simp
    ultimately show ?thesis unfolding operand_token_def Let_def h g operand_zero_def by (simp add: Sel1)
  qed
  then show ?thesis by (simp only: t_def)
qed

subsection \<open>Reading what the assembler writes\<close>

definition words_at :: "u8 list \<Rightarrow> nat \<Rightarrow> u32 list \<Rightarrow> bool" where
  "words_at m p ws \<longleftrightarrow> (\<forall>i < length ws. rd32 m (p + 4 * i) = Some (ws ! i))"

lemma words_at_Nil [simp]: "words_at m p []"
  by (simp add: words_at_def)

lemma words_at_Cons [simp]: "words_at m p (w # ws) \<longleftrightarrow> rd32 m p = Some w \<and> words_at m (p + 4) ws"
  unfolding words_at_def by (simp add: All_less_Suc2 add.assoc)

lemma words_at_append [simp]: "words_at m p (xs @ ys) \<longleftrightarrow> words_at m p xs \<and> words_at m (p + 4 * length xs) ys"
  by (induction xs arbitrary: p) (auto simp: add.assoc)

lemma words_at_flat: "words_at (a @ concat (map (to_le 4) ws) @ b) (length a) ws"
proof (induction ws arbitrary: a)
  case (Cons w ws)
  have "words_at ((a @ to_le 4 w) @ concat (map (to_le 4) ws) @ b) (length (a @ to_le 4 w)) ws" by (rule Cons.IH)
  then show ?case using rd32_at [OF refl, of a w "concat (map (to_le 4) ws) @ b"]
    by (simp del: to_le_numeral to_le.simps)
qed simp

lemma read_words_at: "words_at m p vs \<Longrightarrow> read_words m (length vs) p = Some (vs, p + 4 * length vs)"
  by (induction vs arbitrary: p) simp_all

lemma modifier_token:
  assumes "md < 256" "md \<noteq> 0"
  shows "fld 0 2 (of_nat (1 + 2 ^ 6 * md)) = 1" "fld 6 8 (of_nat (1 + 2 ^ 6 * md)) = md" "\<not> bit (of_nat (1 + 2 ^ 6 * md) :: u32) 31"
proof -
  let ?x = "1 + 2 ^ 6 * md"
  have x: "?x < 2 ^ 32" "\<not> 2 ^ 31 \<le> ?x" using assms by simp_all
  have "?x = 1 + 4 * (16 * md)" by simp
  then have "?x mod 4 = 1" using digit_mod [of 1 4 "16 * md"] by simp
  then show "fld 0 2 (of_nat ?x) = 1" unfolding fld_of_nat [OF x(1)] by simp
  have "?x div 2 ^ 6 = md" by (rule digit_div) simp
  then show "fld 6 8 (of_nat ?x) = md" unfolding fld_of_nat [OF x(1)] using assms(1) by simp
  show "\<not> bit (of_nat ?x :: u32) 31" unfolding bit31_of_nat [OF x(1)] by (rule x(2))
qed

lemma read_modifier:
  assumes "md < 256" and "words_at m p (modifier_tokens md)"
  shows "(if md \<noteq> 0 then read_ext m p 0 else Some (0, p)) = Some (md, p + 4 * length (modifier_tokens md))"
proof (cases "md = 0")
  case False
  note t = modifier_token [OF assms(1) False]
  have "rd32 m p = Some (of_nat (1 + 2 ^ 6 * md))" using assms(2) False by (simp add: modifier_tokens_def)
  then have "read_ext m p 0 = Some (md, p + 4)" by (subst read_ext.simps) (simp only: option.case Let_def t if_True if_False, simp)
  then show ?thesis using False by (simp add: modifier_tokens_def)
qed (simp add: modifier_tokens_def)

lemma read_indices_at:
  assumes "words_at m p idx" and "length idx \<le> 3" and r: "\<And>d. d < 3 \<Longrightarrow> fld (22 + d * 3) 3 tok = 0" and o1: "o_idx o1 = [0, 0, 0]"
  shows "read_indices rd m tok [0..<length idx] (o1, p) =
    Some (o1\<lparr> o_idx := map sint idx @ replicate (3 - length idx) 0 \<rparr>, p + 4 * length idx)"
proof -
  have step: "read_index rd m tok d (o2, q) = Some (o2\<lparr> o_idx := (o_idx o2)[d := sint v] \<rparr>, q + 4)"
    if "rd32 m q = Some v" "d < 3" for d o2 q v
    using that r by (simp add: read_index_def Let_def)
  have up: "[0..<1] = [0 :: nat]" "[0..<2] = [0, 1 :: nat]" "[0..<3] = [0, 1, 2 :: nat]" by (simp_all add: upt_rec)
  from assms(2) consider "idx = []" | a where "idx = [a]" | a b where "idx = [a, b]" | a b c where "idx = [a, b, c]"
    by (cases idx; cases "tl idx"; cases "tl (tl idx)") auto
  then show ?thesis
    using assms(1) o1 up by cases (simp_all add: step numeral_2_eq_2 numeral_3_eq_3 add.assoc)
qed

lemma read_operand_asm:
  assumes "wf_aop a" and "words_at m p (asm_operand a)"
  shows "read_operand_dx m p = Some (operand_of a, p + 4 * length (asm_operand a))"
proof -
  note unf = read_operand_total [of m p, THEN conjunct1]
  show ?thesis
  proof (cases a)
    case (Reg ty s idx md)
    have w: "wf_sel s" "ty < 2 ^ 8" "length idx < 4" "length idx \<le> 3" "md < 256" "ty \<noteq> OT_IMM32" "ty \<noteq> OT_IMM64"
      using assms(1) Reg by auto
    define tok :: u32 where "tok = of_nat (first_token (sel_bits s) ty (length idx) (md \<noteq> 0))"
    have at: "rd32 m p = Some tok" "words_at m (p + 4) (modifier_tokens md)"
      "words_at m (p + 4 + 4 * length (modifier_tokens md)) idx" using assms(2) Reg by (simp_all add: tok_def)
    note ft = first_token_fields [OF sel_bits_lt [OF w(1)] w(2,3), where ext = "md \<noteq> 0"]
    have b: "bit tok 31 = (md \<noteq> 0)" unfolding tok_def bit31_of_nat [OF ft(1)] ft(2) ..
    have r: "fld (22 + d * 3) 3 tok = 0" if "d < 3" for d unfolding tok_def fld_of_nat [OF ft(1)] by (rule ft(6) [OF that])
    note t = operand_token_asm [OF w(1,2,3), where ext = "md \<noteq> 0", folded tok_def]
    have o1: "o_idx ((sel_operand s operand_zero)\<lparr> o_type := ty, index_dim := length idx, modifier := md \<rparr>) = [0, 0, 0]"
      by (cases s) (simp_all add: operand_zero_def)
    show ?thesis unfolding unf at(1) bind.bind_lunit b read_modifier [OF w(5) at(2)] prod.case t
      using read_indices_at [OF at(3) w(4) r o1] w(6,7) Reg
      by (simp add: read_payload_def tok_def [symmetric] add.assoc)
  next
    case (Imm vs md)
    let ?s = "if length vs = 4 then SelMask 0 else SelNone 1"
    have w: "length vs = 1 \<or> length vs = 4" "md < 256" and ws: "wf_sel ?s" using assms(1) Imm by auto
    have sb: "sel_bits ?s = (if length vs = 4 then 2 else 1)" by simp
    define tok :: u32 where "tok = of_nat (first_token (sel_bits ?s) 4 0 (md \<noteq> 0))"
    have at: "rd32 m p = Some tok" "words_at m (p + 4) (modifier_tokens md)"
      "words_at m (p + 4 + 4 * length (modifier_tokens md)) vs" using assms(2) Imm sb by (simp_all add: tok_def)
    note ft = first_token_fields [OF sel_bits_lt [OF ws], where ty = 4 and dim = 0 and ext = "md \<noteq> 0"]
    have b: "bit tok 31 = (md \<noteq> 0)" unfolding tok_def using bit31_of_nat [OF ft(1)] ft(2) by simp
    have t: "operand_token tok = (sel_operand ?s operand_zero)\<lparr> o_type := 4, index_dim := 0 \<rparr>"
      unfolding tok_def by (rule operand_token_asm [OF ws]) simp_all
    note rw = read_words_at [OF at(3)]
    from w(1) show ?thesis
    proof
      assume l: "length vs = 1"
      show ?thesis unfolding unf at(1) bind.bind_lunit b read_modifier [OF w(2) at(2)] prod.case t
        using rw l Imm by (simp add: read_payload_def operand_zero_def OT_IMM32_def Let_def numeral_eq_Suc)
    next
      assume l: "length vs = 4"
      show ?thesis unfolding unf at(1) bind.bind_lunit b read_modifier [OF w(2) at(2)] prod.case t
        using rw l Imm by (simp add: read_payload_def operand_zero_def OT_IMM32_def Let_def)
    qed
  qed
qed

text \<open>C6: The operand reader reads back what the assembler writes: for every register operand with a
  mask, a swizzle, a selected or no component and up to three immediate indices, and for scalar
  and vector immediates, with or without a source modifier, wherever the tokens stand in the
  blob.\<close>

theorem operand_roundtrip:
  assumes "wf_aop a" and "words_at m p (asm_operand a)"
  shows "read_operand_dx m p = Some (operand_of a, p + 4 * length (asm_operand a))"
  by (rule read_operand_asm [OF assms])

theorem operand_roundtrip_witness:
  "read_operand_dx (concat (map (to_le 4) (asm_operand (Reg OT_INPUT (SelSwz [0, 1, 2, 2]) [3] 1)))) 0
    = Some (operand_of (Reg OT_INPUT (SelSwz [0, 1, 2, 2]) [3] 1), 12)"
proof -
  have wf: "wf_aop (Reg OT_INPUT (SelSwz [0, 1, 2, 2]) [3] 1)" by (simp add: OT_defs less_Suc_eq numeral_eq_Suc)
  have "length (asm_operand (Reg OT_INPUT (SelSwz [0, 1, 2, 2]) [3] 1)) = 3" by (simp add: modifier_tokens_def)
  then show ?thesis
    using operand_roundtrip [OF wf words_at_flat [of "[]" "asm_operand (Reg OT_INPUT (SelSwz [0, 1, 2, 2]) [3] 1)" "[]", simplified append.simps list.size append_Nil2]]
    by simp
qed

end
