(* ===== verification/Dxbc_Spec.thy ===== *)
theory Dxbc_Spec
  imports Dxbc Dxbc_Asm
begin

section \<open>The translation of assembled shaders\<close>

text \<open>
  A reference translation on the abstract instructions of the assembler: the text of each operand
  and instruction and the registers it uses, with no tokens, buffers or positions.  It is written
  from the opcode numbers of the Direct3D shader format and the functions of the Metal language
  and uses none of the translator's tables or printing functions, only \<open>%d\<close> and the parameter
  \<open>fmt_g\<close>.  The translator is proved to print exactly that text for assembled programs.
\<close>

subsection \<open>The reference\<close>

text \<open>An instruction with a destination and sources, a conditional one, a switch, a case, and one
  without operands.\<close>

datatype ainstr = Alu nat bool aop "aop list" | Cond nat bool aop | Switch aop | CaseOf u32 | Flow nat

definition letter :: "nat \<Rightarrow> char" where
  "letter i = (if i = 0 then CHR ''x'' else if i = 1 then CHR ''y'' else if i = 2 then CHR ''z'' else CHR ''w'')"

definition vec :: "string \<Rightarrow> nat \<Rightarrow> string" where
  "vec t n = (if n \<le> 1 then t else if n = 2 then t @ ''2'' else if n = 3 then t @ ''3'' else t @ ''4'')"

text \<open>Reinterpretation of the bits of a value.\<close>

definition bits_as :: "string \<Rightarrow> string \<Rightarrow> string" where
  "bits_as t e = ''as_type<'' @ t @ ''>('' @ e @ '')''"

definition text_line :: "string \<Rightarrow> string" where
  "text_line s = ''  '' @ s @ [CHR 0x0A]"

fun comma_list :: "string list \<Rightarrow> string" where
  "comma_list [] = []"
| "comma_list (x # xs) = x @ concat (map (\<lambda>y. CHR '','' # y) xs)"

definition negated_abs :: "nat \<Rightarrow> string \<Rightarrow> string" where
  "negated_abs md e =
     (if md = 1 then ''(-'' @ e @ '')'' else if md = 2 then ''abs('' @ e @ '')''
      else if md = 3 then ''(-abs('' @ e @ ''))'' else e)"

fun show_reg :: "aop \<Rightarrow> string" where
  "show_reg (Reg ty s idx md) =
     (if ty = OT_TEMP then ''r'' @ int_str (sint (idx ! 0))
      else if ty = OT_INPUT then ''in.v'' @ int_str (sint (idx ! 0))
      else if ty = OT_OUTPUT then ''out.o'' @ int_str (sint (idx ! 0))
      else ''cb'' @ int_str (sint (idx ! 0)) @ ''['' @ int_str (sint (idx ! 1)) @ '']'')"
| "show_reg (Imm vs md) = []"

fun show_sel :: "asel \<Rightarrow> nat list \<Rightarrow> string" where
  "show_sel (SelNone n) pos = CHR ''.'' # (if n = 1 then ''x'' else map letter pos)"
| "show_sel (SelMask k) pos = CHR ''.'' # map letter pos"
| "show_sel (SelSwz sw) pos = CHR ''.'' # map (\<lambda>i. letter (sw ! i)) pos"
| "show_sel (Sel1 k) pos = CHR ''.'' # replicate (length pos) (letter k)"

fun show_src :: "(u32 \<Rightarrow> string) \<Rightarrow> nat list \<Rightarrow> aop \<Rightarrow> string" where
  "show_src fmt_g pos (Reg ty s idx md) = negated_abs md (show_reg (Reg ty s idx md) @ show_sel s pos)"
| "show_src fmt_g pos (Imm vs md) = negated_abs md (vec ''float'' (length pos) @ ''(''
     @ (if length pos \<le> 1 then fmt_g (vs ! 0)
        else comma_list (map (\<lambda>i. fmt_g (vs ! (if length vs = 1 then 0 else i))) pos)) @ '')'')"

text \<open>The components that a destination writes, and the text of its mask.\<close>

fun written :: "aop \<Rightarrow> nat list" where
  "written (Reg ty (SelMask k) idx md) = filter (\<lambda>i. odd (k div 2 ^ i)) [0, 1, 2, 3]"
| "written a = []"

definition show_mask :: "nat list \<Rightarrow> string" where
  "show_mask pos = (if pos = [] then [] else CHR ''.'' # map letter pos)"

text \<open>The registers an operand uses.\<close>

fun use_aop :: "aop \<Rightarrow> Ctx \<Rightarrow> Ctx" where
  "use_aop (Reg ty s idx md) c =
     (let i = sint (idx ! 0); w = (if i < 32 then push_bit (nat i) 1 else 0)
      in if ty = OT_TEMP then c\<lparr> ntemps := max (ntemps c) (i + 1) \<rparr>
         else if ty = OT_INPUT then c\<lparr> in_used := in_used c OR w \<rparr>
         else if ty = OT_OUTPUT then c\<lparr> out_used := out_used c OR w \<rparr>
         else c\<lparr> cb_used := cb_used c OR w \<rparr>)"
| "use_aop (Imm vs md) c = c"

text \<open>The right side of an instruction, by its opcode: \<open>n\<close> is the number of components, \<open>s\<close> the
  sources.\<close>

definition apply1 :: "string \<Rightarrow> string list \<Rightarrow> string" where
  "apply1 f s = f @ ''('' @ s ! 0 @ '')''"

definition apply2 :: "string \<Rightarrow> string list \<Rightarrow> string" where
  "apply2 f s = f @ ''('' @ s ! 0 @ '', '' @ s ! 1 @ '')''"

definition between :: "string \<Rightarrow> string list \<Rightarrow> string" where
  "between f s = s ! 0 @ '' '' @ f @ '' '' @ s ! 1"

text \<open>0.0 or 1.0 by a comparison; the bits of an integer result as a float.\<close>

definition chosen :: "nat \<Rightarrow> string \<Rightarrow> string" where
  "chosen n b = ''select('' @ vec ''float'' n @ ''(0.0), '' @ vec ''float'' n @ ''(1.0), '' @ b @ '')''"

definition float_bits :: "nat \<Rightarrow> string \<Rightarrow> string" where
  "float_bits n e = bits_as (vec ''float'' n) e"

definition float_rhs :: "nat \<Rightarrow> nat \<Rightarrow> string list \<Rightarrow> string option" where
  "float_rhs opcode n s =
     (if opcode = 54 then Some (s ! 0)
      else if opcode = 0 then Some (between ''+'' s)
      else if opcode = 56 then Some (between ''*'' s)
      else if opcode = 14 then Some (between ''/'' s)
      else if opcode = 51 then Some (apply2 ''min'' s)
      else if opcode = 52 then Some (apply2 ''max'' s)
      else if opcode \<in> {15, 16, 17} then Some (apply2 ''dot'' s)
      else if opcode = 50 then Some (''fma('' @ s ! 0 @ '', '' @ s ! 1 @ '', '' @ s ! 2 @ '')'')
      else if opcode = 55 then Some (''select('' @ s ! 2 @ '', '' @ s ! 1 @ '', '' @ s ! 0 @ '' != '' @ vec ''float'' n @ ''(0.0))'')
      else if opcode = 11 then Some (apply1 ''dfdx'' s)
      else if opcode = 12 then Some (apply1 ''dfdy'' s)
      else if opcode = 25 then Some (apply1 ''exp2'' s)
      else if opcode = 26 then Some (apply1 ''fract'' s)
      else if opcode = 47 then Some (apply1 ''log2'' s)
      else if opcode = 64 then Some (apply1 ''rint'' s)
      else if opcode = 65 then Some (apply1 ''floor'' s)
      else if opcode = 66 then Some (apply1 ''ceil'' s)
      else if opcode = 67 then Some (apply1 ''trunc'' s)
      else if opcode = 68 then Some (apply1 ''rsqrt'' s)
      else if opcode = 75 then Some (apply1 ''sqrt'' s)
      else None)"

definition int_rhs :: "nat \<Rightarrow> nat \<Rightarrow> string list \<Rightarrow> string option" where
  "int_rhs opcode n s =
     (let si = map (bits_as (vec ''int'' n)) s; su = map (bits_as (vec ''uint'' n)) s
      in if opcode = 24 then Some (chosen n (between ''=='' s))
      else if opcode = 29 then Some (chosen n (between ''>='' s))
      else if opcode = 49 then Some (chosen n (between ''<'' s))
      else if opcode = 57 then Some (chosen n (between ''!='' s))
      else if opcode = 32 then Some (chosen n (between ''=='' si))
      else if opcode = 33 then Some (chosen n (between ''>='' si))
      else if opcode = 34 then Some (chosen n (between ''<'' si))
      else if opcode = 39 then Some (chosen n (between ''!='' si))
      else if opcode = 30 then Some (float_bits n (between ''+'' si))
      else if opcode = 41 then Some (float_bits n (between ''<<'' si))
      else if opcode = 42 then Some (float_bits n (between ''>>'' si))
      else if opcode = 85 then Some (float_bits n (between ''>>'' su))
      else if opcode = 1 then Some (float_bits n (between ''&'' su))
      else if opcode = 60 then Some (float_bits n (between ''|'' su))
      else if opcode = 87 then Some (float_bits n (between ''^'' su))
      else if opcode = 37 then Some (float_bits n (apply2 ''min'' si))
      else if opcode = 36 then Some (float_bits n (apply2 ''max'' si))
      else if opcode = 40 then Some (float_bits n (CHR ''-'' # si ! 0))
      else if opcode = 59 then Some (float_bits n (CHR ''~'' # su ! 0))
      else if opcode = 27 then Some (float_bits n (vec ''int'' n @ ''('' @ s ! 0 @ '')''))
      else if opcode = 28 then Some (float_bits n (vec ''uint'' n @ ''('' @ s ! 0 @ '')''))
      else if opcode = 43 then Some (vec ''float'' n @ ''('' @ si ! 0 @ '')'')
      else if opcode = 86 then Some (vec ''float'' n @ ''('' @ su ! 0 @ '')'')
      else None)"

definition show_rhs :: "nat \<Rightarrow> nat \<Rightarrow> string list \<Rightarrow> string" where
  "show_rhs opcode n s = (case float_rhs opcode n s of Some t \<Rightarrow> t
     | None \<Rightarrow> (case int_rhs opcode n s of Some t \<Rightarrow> t | None \<Rightarrow> []))"

text \<open>Instructions without operands.\<close>

definition show_flow :: "nat \<Rightarrow> string option" where
  "show_flow opcode =
     (if opcode = 2 then Some ''break;''
      else if opcode = 7 then Some ''continue;''
      else if opcode = 10 then Some ''default:''
      else if opcode = 18 then Some ''} else {''
      else if opcode = 21 \<or> opcode = 22 \<or> opcode = 23 then Some ''}''
      else if opcode = 48 then Some ''while (true) {''
      else if opcode = 62 then Some ''return out;''
      else None)"

text \<open>The positions the sources are read at: those of the destination's mask, but the leading two,
  three or four for a dot product.\<close>

definition src_positions :: "nat \<Rightarrow> aop \<Rightarrow> nat list" where
  "src_positions opcode d =
     (if opcode = 15 then [0, 1] else if opcode = 16 then [0, 1, 2] else if opcode = 17 then [0, 1, 2, 3] else written d)"

fun show_instr :: "(u32 \<Rightarrow> string) \<Rightarrow> ainstr \<Rightarrow> string" where
  "show_instr fmt_g (Alu opcode sat d srcs) =
     (let pos = src_positions opcode d;
          rhs = show_rhs opcode (length pos) (map (show_src fmt_g pos) srcs)
      in text_line (show_reg d @ show_mask (written d) @ '' = '' @ (if sat then ''saturate('' @ rhs @ '')'' else rhs) @ '';''))"
| "show_instr fmt_g (Cond opcode nz a) = text_line (''if ('' @ show_src fmt_g [0] a @ (if nz then '' != '' else '' == '') @ ''0.0) ''
     @ (if opcode = 31 then ''{'' else if opcode = 3 then ''break;'' else ''discard_fragment();''))"
| "show_instr fmt_g (Switch a) = text_line (''switch (as_type<int>('' @ show_src fmt_g [0] a @ '')) {'')"
| "show_instr fmt_g (CaseOf v) = text_line (''case '' @ int_str (sint v) @ '':'')"
| "show_instr fmt_g (Flow opcode) = text_line (the (show_flow opcode))"

fun use_instr :: "ainstr \<Rightarrow> Ctx \<Rightarrow> Ctx" where
  "use_instr (Alu opcode sat d srcs) c = fold use_aop (d # srcs) c"
| "use_instr (Cond opcode nz a) c = use_aop a c"
| "use_instr (Switch a) c = use_aop a c"
| "use_instr (CaseOf v) c = c"
| "use_instr (Flow opcode) c = c"

fun wf_reg :: "aop \<Rightarrow> bool" where
  "wf_reg (Reg ty s idx md) =
     (wf_sel s \<and> md < 256 \<and> (ty = OT_TEMP \<or> ty = OT_INPUT \<or> ty = OT_OUTPUT \<or> ty = OT_CBUFFER)
      \<and> length idx = (if ty = OT_CBUFFER then 2 else 1) \<and> 0 \<le> sint (idx ! 0) \<and> sint (idx ! 0) < 2 ^ 31 - 1)"
| "wf_reg (Imm vs md) = False"

fun wf_dst :: "aop \<Rightarrow> bool" where
  "wf_dst (Reg ty (SelMask k) idx md) = (wf_reg (Reg ty (SelMask k) idx md))"
| "wf_dst a = False"

definition wf_src :: "aop \<Rightarrow> bool" where
  "wf_src a \<longleftrightarrow> wf_reg a \<or> (\<exists>vs md. a = Imm vs md \<and> wf_aop a)"

text \<open>The opcodes by their number of sources; the integer and comparison ones do not saturate.\<close>

definition float1 :: "nat set" where "float1 = {54, 26, 25, 47, 68, 75, 64, 65, 66, 67, 11, 12}"
definition float2 :: "nat set" where "float2 = {0, 56, 14, 51, 52}"
definition dots :: "nat set" where "dots = {15, 16, 17}"
definition float3 :: "nat set" where "float3 = {50, 55}"
definition int1 :: "nat set" where "int1 = {40, 59, 27, 28, 43, 86}"
definition int2 :: "nat set" where "int2 = {24, 29, 49, 57, 30, 41, 42, 85, 1, 60, 87, 36, 37, 32, 33, 34, 39}"

lemmas opcode_sets = float1_def float2_def dots_def float3_def int1_def int2_def

fun wf_instr :: "ainstr \<Rightarrow> bool" where
  "wf_instr (Alu opcode sat d srcs) \<longleftrightarrow> wf_dst d \<and> (\<forall>a \<in> set srcs. wf_src a)
     \<and> (length srcs = 1 \<and> opcode \<in> float1 \<or> length srcs = 2 \<and> opcode \<in> float2 \<or> length srcs = 2 \<and> opcode \<in> dots
        \<or> length srcs = 3 \<and> opcode \<in> float3 \<or> length srcs = 1 \<and> opcode \<in> int1 \<and> \<not> sat
        \<or> length srcs = 2 \<and> opcode \<in> int2 \<and> \<not> sat)"
| "wf_instr (Cond opcode nz a) \<longleftrightarrow> opcode \<in> {31, 3, 13} \<and> wf_src a"
| "wf_instr (Switch a) \<longleftrightarrow> wf_src a"
| "wf_instr (CaseOf v) \<longleftrightarrow> True"
| "wf_instr (Flow opcode) \<longleftrightarrow> show_flow opcode \<noteq> None"

text \<open>The first token: opcode, saturation in bit 13, the test for nonzero in bit 18, length.\<close>

definition instr_token :: "nat \<Rightarrow> bool \<Rightarrow> bool \<Rightarrow> nat \<Rightarrow> nat" where
  "instr_token opcode sat nz len = opcode + 2 ^ 11 * (4 * ((if sat then 1 else 0) + 2 ^ 5 * ((if nz then 1 else 0) + 2 ^ 6 * len)))"

fun asm_instr :: "ainstr \<Rightarrow> u32 list" where
  "asm_instr (Alu opcode sat d srcs) =
     (let ops = concat (map asm_operand (d # srcs)) in of_nat (instr_token opcode sat False (1 + length ops)) # ops)"
| "asm_instr (Cond opcode nz a) = of_nat (instr_token opcode False nz (1 + length (asm_operand a))) # asm_operand a"
| "asm_instr (Switch a) = of_nat (instr_token 76 False False (1 + length (asm_operand a))) # asm_operand a"
| "asm_instr (CaseOf v) = of_nat (instr_token 6 False False 3) # asm_operand (Imm [v] 0)"
| "asm_instr (Flow opcode) = [of_nat (instr_token opcode False False 1)]"

subsection \<open>The translator's printing functions\<close>

text \<open>Each of the translator's tables and printing functions agrees with the reference.\<close>

lemma modifier_negated_abs: "apply_modifier = negated_abs"
  by (intro ext) (simp add: apply_modifier_def negated_abs_def)

lemma vtype_vec: "vtype = vec"
  by (intro ext) (simp add: vtype_def vec_def)

lemma as_type_bits: "as_type = bits_as"
  by (intro ext) (simp add: as_type_def bits_as_def)

lemma types_vec: "ftype = vec ''float''" "itype = vec ''int''" "utype = vec ''uint''"
  by (simp_all add: ftype_def itype_def utype_def vtype_vec)

lemma swz_letter: "i < 4 \<Longrightarrow> swz ! i = letter i"
  by (auto simp: swz_def letter_def less_Suc_eq numeral_eq_Suc)

lemma join_cons: "join (x # xs) = x @ concat (map (\<lambda>y. CHR '','' # y) xs)"
  by (induction xs arbitrary: x) simp_all

lemma join_comma_list: "join xs = comma_list xs"
  by (cases xs) (simp_all only: join_cons comma_list.simps join.simps)

lemma vec_float: "1 < n \<Longrightarrow> n \<le> 4 \<Longrightarrow> ''float'' @ nat_str n = vec ''float'' n"
proof -
  assume "1 < n" "n \<le> 4"
  then have "n = 2 \<or> n = 3 \<or> n = 4" by auto
  moreover have "nat_str 2 = ''2''" "nat_str 3 = ''3''" "nat_str 4 = ''4''" by code_simp+
  ultimately show ?thesis by (auto simp: vec_def)
qed

lemma vec_length: "length (vec t n) \<le> Suc (length t)"
  by (simp add: vec_def)

text \<open>The code's mask is the bits of the destination.\<close>

fun dst_mask :: "aop \<Rightarrow> u8" where
  "dst_mask (Reg ty (SelMask k) idx md) = of_nat k"
| "dst_mask a = 0"

lemma written_lt: "set (written d) \<subseteq> {..<4}"
  by (cases d rule: written.cases) auto

lemma written_length: "length (written d) \<le> 4"
proof (cases d rule: written.cases)
  case (1 ty k idx md)
  show ?thesis unfolding 1 written.simps by (rule order_trans [OF length_filter_le]) simp
qed simp_all

lemma mask_positions_written: "mask_positions (dst_mask d) = written d"
proof (cases d rule: written.cases)
  case (1 ty k idx md)
  have "bit (of_nat k :: u8) i \<longleftrightarrow> odd (k div 2 ^ i)" if "i < 4" for i
  proof -
    have "bit (of_nat k :: u8) i = bit k i" using that by (simp add: bit_simps)
    then show ?thesis unfolding bit_iff_odd [of k] .
  qed
  moreover have "[0..<4] = [0, 1, 2, 3 :: nat]" by (simp add: upt_rec)
  ultimately show ?thesis unfolding 1 mask_positions_def by (simp del: upt_Suc)
qed (simp_all add: mask_positions_def)

lemma map_swz: "set pos \<subseteq> {..<4} \<Longrightarrow> map (\<lambda>i. swz ! i) pos = map letter pos"
  by (auto intro!: map_cong swz_letter)

lemma mask_to_str_written: "mask_to_str (dst_mask d) = show_mask (written d)"
  using map_swz [OF written_lt [of d]] unfolding mask_to_str_def mask_positions_written show_mask_def by simp

lemma text_line_nl: "text_line x = ''  '' @ x @ nl"
  by (simp add: text_line_def nl_def)

subsection \<open>Lengths: nothing is cut\<close>

lemma int_str_length: "length (int_str (sint (x :: u32))) \<le> 11"
proof -
  have "- 2147483648 \<le> sint x" "sint x < 2147483648" using sint_greater_eq [of x] sint_less [of x] by simp_all
  then have "nat (sint x) < 10 ^ Suc 9" "nat (- sint x) < 10 ^ Suc 9" by simp_all
  then show ?thesis using nat_str_length [of _ 9] by (fastforce simp: int_str_def)
qed

lemma show_reg_length: "length (show_reg a) \<le> 26"
proof (cases a)
  case (Reg ty s idx md)
  then show ?thesis using int_str_length [of "idx ! 0"] int_str_length [of "idx ! 1"] by simp
qed simp

lemma show_sel_length: "length (show_sel s pos) \<le> 2 + length pos"
  by (cases s) simp_all

lemma negated_abs_length: "length (negated_abs md e) \<le> length e + 8"
  by (simp add: negated_abs_def)

lemma commas_length: "\<forall>x \<in> set xs. length x \<le> k \<Longrightarrow> length (concat (map (\<lambda>y. CHR '','' # y) xs)) \<le> length xs * (k + 1)"
  by (induction xs) auto

lemma comma_list_length: "\<forall>x \<in> set xs. length x \<le> k \<Longrightarrow> length (comma_list xs) \<le> length xs * (k + 1)"
  using commas_length [of "tl xs" k] by (cases xs) auto

lemma show_src_length:
  assumes "\<And>x. length (fmt_g x) \<le> 13" and "length pos \<le> 4"
  shows "length (show_src fmt_g pos a) \<le> 80"
proof (cases a)
  case (Reg ty s idx md)
  show ?thesis
    using negated_abs_length [of md "show_reg a @ show_sel s pos"] show_reg_length [of a] show_sel_length [of s pos] assms(2) Reg
    by simp
next
  case (Imm vs md)
  let ?j = "comma_list (map (\<lambda>i. fmt_g (vs ! (if length vs = 1 then 0 else i))) pos)"
  have "length ?j \<le> length pos * 14" using comma_list_length [of "map (\<lambda>i. fmt_g (vs ! (if length vs = 1 then 0 else i))) pos" 13] assms(1) by simp
  then have j: "length ?j \<le> 56" using assms(2) by linarith
  let ?e = "vec ''float'' (length pos) @ ''('' @ (if length pos \<le> 1 then fmt_g (vs ! 0) else ?j) @ '')''"
  have "length ?e \<le> 72" using j assms(1) [of "vs ! 0"] vec_length [of "''float''" "length pos"] by simp
  then show ?thesis using negated_abs_length [of md ?e] Imm by simp
qed

lemma cut_id: "length s < n \<Longrightarrow> cut n s = s"
  by (simp add: cut_def)

subsection \<open>Operands\<close>

lemma wf_reg_aop: "wf_reg a \<Longrightarrow> wf_aop a"
  by (cases a) (auto simp: OT_defs split: if_splits)

lemma wf_src_aop: "wf_src a \<Longrightarrow> wf_aop a"
  by (auto simp: wf_src_def wf_reg_aop)

lemma wf_dst_reg: "wf_dst d \<Longrightarrow> wf_reg d"
  by (cases d rule: wf_dst.cases) auto

lemma sel_operand_sel [simp]:
  "idx_rel (sel_operand s o1) = idx_rel o1" "o_imm (sel_operand s o1) = o_imm o1"
  by (cases s; simp)+

lemma use_reg_show: "0 \<le> i \<Longrightarrow> use_reg i w = Some (w OR (if i < 32 then push_bit (nat i) 1 else 0))"
  by (simp add: use_reg_def)

lemma operand_base_show:
  assumes "wf_reg a" and "26 < osz"
  shows "operand_base osz (operand_of a) c = Some (show_reg a, use_aop a c)"
proof (cases a)
  case (Reg ty s idx md)
  let ?o = "operand_of (Reg ty s idx md)"
  have w: "ty = OT_TEMP \<or> ty = OT_INPUT \<or> ty = OT_OUTPUT \<or> ty = OT_CBUFFER" "length idx = (if ty = OT_CBUFFER then 2 else 1)"
    "0 \<le> sint (idx ! 0)" "sint (idx ! 0) < 2 ^ 31 - 1"
    using assms(1) Reg by auto
  have i0: "o_idx ?o ! 0 = sint (idx ! 0)" using w(2) by (cases idx) (auto split: if_splits)
  have i1: "o_idx ?o ! 1 = sint (idx ! 1)" if "ty = OT_CBUFFER" using w(2) that by (simp add: nth_append)
  have rel: "\<not> idx_rel ?o ! 1" by (simp add: operand_zero_def)
  have ty: "o_type ?o = ty" by simp
  have ok: "in_i32 (sint (idx ! 0) + 1)" using w(3,4) by (simp add: in_i32_def)
  have cutr: "cut osz (show_reg (Reg ty s idx md)) = show_reg (Reg ty s idx md)"
    using show_reg_length [of "Reg ty s idx md"] assms(2) by (intro cut_id) linarith
  have mx: "(if ntemps c < i + 1 then i + 1 else ntemps c) = max (ntemps c) (i + 1)" for i by (simp add: max_def)
  show ?thesis unfolding Reg operand_base_def Let_def ty i0 use_reg_show [OF w(3)] mx
    using w(1) ok cutr i1 rel by (auto simp: OT_defs Let_def)
qed (use assms in simp)

lemma swizzle_show:
  assumes "wf_sel s" and "nc \<le> length pos" and p: "set pos \<subseteq> {..<4}"
  shows "swizzle_text (operand_of (Reg ty s idx md)) nc pos = show_sel s (take nc pos)"
proof -
  have p: "set (take nc pos) \<subseteq> {..<4}" using p set_take_subset [of nc pos] by blast
  have m: "map (\<lambda>i. swz ! f i) (take nc pos) = map (\<lambda>i. letter (f i)) (take nc pos)" if "\<forall>i < 4. f i < 4" for f
    using that p by (auto intro!: swz_letter)
  show ?thesis using assms(1,2) m [of "(!) (case s of SelSwz sw \<Rightarrow> sw | _ \<Rightarrow> [0, 1, 2, 3])"] map_swz [OF p]
    by (cases s) (auto simp: swizzle_text_def swz_letter)
qed

lemma negated_abs_ge: "length e \<le> length (negated_abs md e)"
  by (simp add: negated_abs_def)

lemma src_str_show:
  assumes wf: "wf_src a" and g: "\<And>x. length (fmt_g x) \<le> 13" and nc: "nc \<le> length pos" "nc \<le> 4" "set pos \<subseteq> {..<4}"
  shows "src_str fmt_g nc pos (operand_of a) c = Some (show_src fmt_g (take nc pos) a, use_aop a c)"
proof -
  have len: "length (show_src fmt_g (take nc pos) a) \<le> 80" using show_src_length [OF g] nc by simp
  show ?thesis
  proof (cases a)
    case (Reg ty s idx md)
    then have w: "wf_reg (Reg ty s idx md)" "wf_sel s" "ty \<noteq> OT_IMM32" using wf by (auto simp: wf_src_def OT_defs)
    let ?e = "show_reg (Reg ty s idx md) @ show_sel s (take nc pos)"
    have e: "length (negated_abs md ?e) \<le> 80" using len Reg by simp
    have c2: "cut 200 ?e = ?e" "cut 128 (negated_abs md ?e) = negated_abs md ?e"
      using e negated_abs_ge [of ?e md] by (intro cut_id; linarith)+
    have t: "o_type (operand_of (Reg ty s idx md)) = ty" "modifier (operand_of (Reg ty s idx md)) = md" by simp_all
    show ?thesis unfolding Reg src_str_def t if_not_P [OF w(3)] swizzle_show [OF w(2) nc(1,3)] modifier_negated_abs
      using operand_base_show [OF w(1), of 80 c] c2 by (simp del: operand_of.simps show_reg.simps use_aop.simps)
  next
    case (Imm vs md)
    then have l: "length vs = 1 \<or> length vs = 4" using wf by (auto simp: wf_src_def)
    let ?pos = "take nc pos"
    let ?j = "comma_list (map (\<lambda>i. fmt_g (vs ! (if length vs = 1 then 0 else i))) ?pos)"
    let ?e = "vec ''float'' (length ?pos) @ ''('' @ (if length ?pos \<le> 1 then fmt_g (vs ! 0) else ?j) @ '')''"
    have e: "length (negated_abs md ?e) \<le> 80" using len Imm by simp
    have le: "length ?e < 160" using e negated_abs_ge [of ?e md] by linarith
    have v: "o_imm (operand_of a) ! i = vs ! i" if "i = 0 \<or> length vs = 4 \<and> i < 4" for i
      using l that Imm by (auto simp: nth_append)
    have t: "o_type (operand_of a) = OT_IMM32" "modifier (operand_of a) = md" "imm_n (operand_of a) = length vs"
      by (simp_all add: Imm OT_IMM32_def)
    have m: "map (\<lambda>i. fmt_g (o_imm (operand_of a) ! (if length vs = 1 then 0 else i))) ?pos
        = map (\<lambda>i. fmt_g (vs ! (if length vs = 1 then 0 else i))) ?pos" using l v nc(3) set_take_subset [of nc pos] by (auto split: if_splits)
    have lp: "length ?pos = nc" using nc by simp
    have it: "imm_text fmt_g (operand_of a) nc pos = ?e"
    proof (cases "nc \<le> 1")
      case True
      then show ?thesis unfolding imm_text_def lp using v [of 0] by (simp add: vec_def)
    next
      case False
      let ?f = "''float'' @ nat_str nc @ ''('' @ ?j @ '')''"
      have "?f = (''float'' @ nat_str nc) @ ''('' @ ?j @ '')''" by simp
      also have "\<dots> = ?e" using vec_float [of nc] nc(2) lp False by simp
      finally have "cut 160 ?f = ?e" using cut_id [OF le] by (simp only:)
      then show ?thesis unfolding imm_text_def t(3) m lp join_comma_list using False by (simp only: if_False)
    qed
    have c2: "cut 200 ?e = ?e" "cut 128 (negated_abs md ?e) = negated_abs md ?e"
      using e negated_abs_ge [of ?e md] by (intro cut_id; linarith)+
    show ?thesis unfolding src_str_def t it if_P [OF refl] c2 modifier_negated_abs using Imm by simp
  qed
qed

lemma src_strs_show:
  assumes "\<forall>a \<in> set as. wf_src a" and "\<And>x. length (fmt_g x) \<le> 13" and "nc \<le> length pos" "nc \<le> 4" "set pos \<subseteq> {..<4}"
  shows "src_strs fmt_g nc pos (map operand_of as) c = Some (map (show_src fmt_g (take nc pos)) as, fold use_aop as c)"
  using assms(1)
  by (induction as arbitrary: c) (simp_all add: src_str_show [OF _ assms(2-5)] del: operand_of.simps show_src.simps use_aop.simps)

lemma read_operands_at:
  assumes "\<forall>a \<in> set as. wf_aop a" and "words_at m p (concat (map asm_operand as))"
  shows "read_operands m (length as) p = Some (map operand_of as, p + 4 * length (concat (map asm_operand as)))"
  using assms
proof (induction as arbitrary: p)
  case (Cons a as)
  have "read_operand_dx m p = Some (operand_of a, p + 4 * length (asm_operand a))"
    using read_operand_asm Cons.prems by simp
  then show ?case using Cons by simp
qed simp

lemma dst_str_show:
  assumes "wf_dst d"
  shows "dst_str (operand_of d) c = Some (show_reg d, show_mask (written d), written d, use_aop d c)"
proof -
  have m: "o_mask (operand_of d) = dst_mask d" using assms by (cases d rule: wf_dst.cases) simp_all
  show ?thesis unfolding dst_str_def m mask_to_str_written mask_positions_written using operand_base_show [OF wf_dst_reg [OF assms], of 96 c] by simp
qed

lemma dst_srcs_show:
  assumes wf: "wf_dst d" "\<forall>a \<in> set srcs. wf_src a" and g: "\<And>x. length (fmt_g x) \<le> 13"
    and at: "words_at m p (concat (map asm_operand (d # srcs)))"
  defines "pos \<equiv> written d"
  shows "dst_srcs fmt_g m (length srcs) p c =
    Some (show_reg d, show_mask pos, length pos, map (show_src fmt_g pos) srcs, fold use_aop (d # srcs) c)"
proof -
  have "\<forall>a \<in> set (d # srcs). wf_aop a" using wf wf_src_aop wf_reg_aop [OF wf_dst_reg] by auto
  from read_operands_at [OF this at]
  have r: "read_operands m (Suc (length srcs)) p = Some (map operand_of (d # srcs), p + 4 * length (concat (map asm_operand (d # srcs))))"
    by (simp only: list.size add_0_right add_Suc_right)
  have s: "src_strs fmt_g (length pos) pos (map operand_of srcs) c2 = Some (map (show_src fmt_g pos) srcs, fold use_aop srcs c2)" for c2
    using src_strs_show [OF wf(2) g order_refl, of pos] written_length written_lt by (simp add: pos_def)
  show ?thesis unfolding dst_srcs_def r bind.bind_lunit prod.case list.map list.sel dst_str_show [OF wf(1)] pos_def [symmetric] s
    by simp
qed

subsection \<open>Instructions\<close>

lemma instr_token_fields:
  fixes sat nz :: bool
  assumes "opcode < 2 ^ 11" "len < 2 ^ 7"
  defines "t \<equiv> of_nat (instr_token opcode sat nz len) :: u32"
  shows "fld 0 11 t = opcode" and "bit t 13 = sat" and "bit t 18 = nz" and "fld 24 7 t = len"
proof -
  let ?s = "if sat then 1 else 0 :: nat" and ?z = "if nz then 1 else 0 :: nat"
  let ?x = "instr_token opcode sat nz len" and ?w = "?z + 2 ^ 6 * len"
  let ?y = "4 * (?s + 2 ^ 5 * ?w)"
  have x: "?x < 2 ^ 32" using assms(1,2) by (simp add: instr_token_def)
  have d11: "?x div 2 ^ 11 = ?y" unfolding instr_token_def by (rule digit_div [OF assms(1)])
  have "?x mod 2 ^ 11 = opcode" unfolding instr_token_def by (rule digit_mod [OF assms(1)])
  then show "fld 0 11 t = opcode" unfolding t_def fld_of_nat [OF x] by simp
  have "?x div 2 ^ 13 = ?x div 2 ^ 11 div 4" by (simp add: div_mult2_eq [symmetric])
  also have "\<dots> = ?s + 2 ^ 5 * ?w" unfolding d11 by (rule nonzero_mult_div_cancel_left) simp
  finally have d13: "?x div 2 ^ 13 = ?s + 2 ^ 5 * ?w" .
  have "bit t 13 = bit ?x 13" unfolding t_def by (simp add: bit_simps)
  also have "\<dots> = odd (?s + 2 ^ 5 * ?w)" unfolding bit_iff_odd d13 ..
  finally show "bit t 13 = sat" by simp
  have "?x div 2 ^ 18 = ?x div 2 ^ 13 div 2 ^ 5" by (simp add: div_mult2_eq [symmetric])
  also have "\<dots> = ?w" unfolding d13 by (rule digit_div) simp
  finally have d18: "?x div 2 ^ 18 = ?w" .
  have "bit t 18 = bit ?x 18" unfolding t_def by (simp add: bit_simps)
  also have "\<dots> = odd ?w" unfolding bit_iff_odd d18 ..
  finally show "bit t 18 = nz" by simp
  have "?x div 2 ^ 24 = ?x div 2 ^ 18 div 2 ^ 6" by (simp add: div_mult2_eq [symmetric])
  also have "\<dots> = len" unfolding d18 by (rule digit_div) simp
  finally show "fld 24 7 t = len" unfolding t_def fld_of_nat [OF x] using assms(2) by simp
qed

lemma unary_fn_float1: "opcode \<in> float1 \<longleftrightarrow> opcode = 54 \<or> unary_fn opcode \<noteq> None"
  by (auto simp: float1_def unary_fn_def split: if_splits)

lemma flow_text_show: "flow_text opcode = map_option text_line (show_flow opcode)"
  by (simp add: flow_text_def show_flow_def text_line_def nl_def)

lemma show_flow_cases: "show_flow opcode = Some t \<Longrightarrow> opcode \<in> {10, 23, 18, 21, 22, 48, 2, 7, 62}"
  by (auto simp: show_flow_def split: if_splits)

text \<open>The dispatch on the opcode.\<close>

lemma tr_instr_dispatch:
  assumes "fld 0 11 t = opcode" and "bit t 13 = sat"
  shows "opcode \<in> float1 \<Longrightarrow> tr_instr fmt_g t m p c = tr_unary fmt_g opcode sat m p c"
    and "opcode \<in> float2 \<Longrightarrow> tr_instr fmt_g t m p c = tr_binary fmt_g opcode sat m p c"
    and "opcode \<in> float3 \<Longrightarrow> tr_instr fmt_g t m p c = tr_mad fmt_g opcode sat m p c"
    and "opcode \<in> dots \<Longrightarrow> tr_instr fmt_g t m p c = tr_dot fmt_g opcode sat m p c"
    and "show_flow opcode = Some f \<Longrightarrow> tr_instr fmt_g t m p c = Some (text_line f, c)"
    and "opcode \<in> {31, 3, 13} \<Longrightarrow> tr_instr fmt_g t m p c = tr_cond fmt_g opcode (bit t 18) m p c"
    and "opcode = 76 \<Longrightarrow> tr_instr fmt_g t m p c = tr_switch fmt_g m p c"
    and "opcode = 6 \<Longrightarrow> tr_instr fmt_g t m p c = tr_case m p c"
proof -
  note t = tr_instr_def [of fmt_g t m p c, unfolded assms Let_def]
  note d = dcl_ops_def unary_fn_def
  show "tr_instr fmt_g t m p c = tr_unary fmt_g opcode sat m p c" if "opcode \<in> float1"
    using that that [unfolded float1_def] unfolding t unary_fn_float1 by (auto simp: dcl_ops_def)
  show "tr_instr fmt_g t m p c = tr_binary fmt_g opcode sat m p c" if "opcode \<in> float2" using that by (auto simp: t d float2_def)
  show "tr_instr fmt_g t m p c = tr_mad fmt_g opcode sat m p c" if "opcode \<in> float3" using that by (auto simp: t d float3_def)
  show "tr_instr fmt_g t m p c = tr_dot fmt_g opcode sat m p c" if "opcode \<in> dots" using that by (auto simp: t d dots_def)
  show "tr_instr fmt_g t m p c = Some (text_line f, c)" if f: "show_flow opcode = Some f"
    using show_flow_cases [OF f] unfolding t flow_text_show f by (elim insertE emptyE) (simp_all add: d)
  show "tr_instr fmt_g t m p c = tr_cond fmt_g opcode (bit t 18) m p c" if "opcode \<in> {31, 3, 13}" using that by (auto simp: t d)
  show "tr_instr fmt_g t m p c = tr_switch fmt_g m p c" if "opcode = 76" using that by (simp add: t d)
  show "tr_instr fmt_g t m p c = tr_case m p c" if "opcode = 6" using that by (simp add: t d)
qed

lemma tr_instr_int_dispatch:
  assumes "fld 0 11 t = opcode"
  shows "opcode \<in> {24, 29, 49, 57} \<Longrightarrow> tr_instr fmt_g t m p c = tr_compare fmt_g opcode m p c"
    and "opcode \<in> {30, 41, 42, 85, 1, 60, 87} \<Longrightarrow> tr_instr fmt_g t m p c = tr_intbin fmt_g opcode m p c"
    and "opcode \<in> {40, 59} \<Longrightarrow> tr_instr fmt_g t m p c = tr_intun fmt_g opcode m p c"
    and "opcode \<in> {27, 28, 43, 86} \<Longrightarrow> tr_instr fmt_g t m p c = tr_conv fmt_g opcode m p c"
    and "opcode \<in> {36, 37} \<Longrightarrow> tr_instr fmt_g t m p c = tr_iminmax fmt_g opcode m p c"
    and "opcode \<in> {32, 33, 34, 39} \<Longrightarrow> tr_instr fmt_g t m p c = tr_icompare fmt_g opcode m p c"
proof -
  note t = tr_instr_def [of fmt_g t m p c, unfolded assms Let_def]
  note d = dcl_ops_def unary_fn_def
  show "tr_instr fmt_g t m p c = tr_compare fmt_g opcode m p c" if "opcode \<in> {24, 29, 49, 57}"
    using that unfolding t by (elim insertE emptyE) (simp_all add: d)
  show "tr_instr fmt_g t m p c = tr_intbin fmt_g opcode m p c" if "opcode \<in> {30, 41, 42, 85, 1, 60, 87}"
    using that unfolding t by (elim insertE emptyE) (simp_all add: d)
  show "tr_instr fmt_g t m p c = tr_intun fmt_g opcode m p c" if "opcode \<in> {40, 59}"
    using that unfolding t by (elim insertE emptyE) (simp_all add: d)
  show "tr_instr fmt_g t m p c = tr_conv fmt_g opcode m p c" if "opcode \<in> {27, 28, 43, 86}"
    using that unfolding t by (elim insertE emptyE) (simp_all add: d)
  show "tr_instr fmt_g t m p c = tr_iminmax fmt_g opcode m p c" if "opcode \<in> {36, 37}"
    using that unfolding t by (elim insertE emptyE) (simp_all add: d)
  show "tr_instr fmt_g t m p c = tr_icompare fmt_g opcode m p c" if "opcode \<in> {32, 33, 34, 39}"
    using that unfolding t by (elim insertE emptyE) (simp_all add: d)
qed

text \<open>A line is never cut: the destination has at most 31 characters and the right side fewer than
  280.\<close>

lemma show_mask_length: "length (show_mask (written d)) \<le> 5"
  using written_length [of d] by (simp add: show_mask_def)

lemma emit_rhs_show:
  assumes "length rhs < 280"
  shows "emit_rhs (show_reg d) (show_mask (written d)) sat rhs
    = text_line (show_reg d @ show_mask (written d) @ '' = '' @ (if sat then ''saturate('' @ rhs @ '')'' else rhs) @ '';'')"
  using assms show_mask_length [of d] show_reg_length [of d]
  by (auto simp: emit_rhs_def fmt512_def text_line_def nl_def intro!: cut_id)

lemma line_text_show:
  assumes "length rhs < 280"
  shows "line_text (show_reg d) (show_mask (written d)) rhs = text_line (show_reg d @ show_mask (written d) @ '' = '' @ rhs @ '';'')"
  using assms show_mask_length [of d] show_reg_length [of d]
  by (auto simp: line_text_def fmt512_def text_line_def nl_def intro!: cut_id)

text \<open>The groups of instructions with operands, for \<open>d\<close> and \<open>srcs\<close> assembled at \<open>p\<close>.\<close>

lemma show_map_length:
  assumes "\<And>x. length (fmt_g x) \<le> 13" and "length pos \<le> 4" and "i < length srcs"
  shows "length (map (show_src fmt_g pos) srcs ! i) \<le> 80"
  using show_src_length [OF assms(1,2)] assms(3) by simp

lemma tr_unary_show:
  assumes op: "opcode \<in> float1" and n: "length srcs = 1" and wf: "wf_dst d" "\<forall>a \<in> set srcs. wf_src a"
    and g: "\<And>x. length (fmt_g x) \<le> 13" and at: "words_at m p (concat (map asm_operand (d # srcs)))"
  shows "tr_unary fmt_g opcode sat m p c = Some (show_instr fmt_g (Alu opcode sat d srcs), fold use_aop (d # srcs) c)"
proof -
  let ?pos = "written d"
  let ?s = "map (show_src fmt_g ?pos) srcs"
  note d = dst_srcs_show [where fmt_g = fmt_g and c = c, OF wf g at]
  have l: "length (?s ! 0) \<le> 80" by (rule show_map_length [OF g written_length]) (simp add: n)
  have r: "(case unary_fn opcode of Some fn \<Rightarrow> fn @ ''('' @ ?s ! 0 @ '')'' | None \<Rightarrow> ?s ! 0) = show_rhs opcode (length ?pos) ?s"
    using op unfolding float1_def by (elim insertE emptyE) (simp_all add: show_rhs_def float_rhs_def apply1_def unary_fn_def)
  have len: "length (show_rhs opcode (length ?pos) ?s) < 200"
    using op l unfolding float1_def by (elim insertE emptyE) (simp_all add: show_rhs_def float_rhs_def apply1_def)
  have sp: "src_positions opcode d = ?pos" using op by (auto simp: src_positions_def float1_def)
  show ?thesis unfolding tr_unary_def d [unfolded n] bind.bind_lunit prod.case Let_def r cut_id [OF len]
    using emit_rhs_show [of "show_rhs opcode (length ?pos) ?s" d sat] len by (simp add: sp Let_def)
qed

lemma tr_binary_show:
  assumes op: "opcode \<in> float2" and n: "length srcs = 2" and wf: "wf_dst d" "\<forall>a \<in> set srcs. wf_src a"
    and g: "\<And>x. length (fmt_g x) \<le> 13" and at: "words_at m p (concat (map asm_operand (d # srcs)))"
  shows "tr_binary fmt_g opcode sat m p c = Some (show_instr fmt_g (Alu opcode sat d srcs), fold use_aop (d # srcs) c)"
proof -
  let ?pos = "written d"
  let ?s = "map (show_src fmt_g ?pos) srcs"
  note d = dst_srcs_show [where fmt_g = fmt_g and c = c, OF wf g at]
  have l: "length (?s ! 0) \<le> 80" "length (?s ! 1) \<le> 80" by (rule show_map_length [OF g written_length], simp add: n)+
  have r: "(case binary_op opcode of Some o2 \<Rightarrow> ?s ! 0 @ '' '' @ o2 @ '' '' @ ?s ! 1
       | None \<Rightarrow> (if opcode = 51 then ''min'' else ''max'') @ ''('' @ ?s ! 0 @ '', '' @ ?s ! 1 @ '')'') = show_rhs opcode (length ?pos) ?s"
    using op unfolding float2_def
    by (elim insertE emptyE) (simp_all add: show_rhs_def float_rhs_def between_def apply2_def binary_op_def)
  have len: "length (show_rhs opcode (length ?pos) ?s) < 240"
    using op l unfolding float2_def by (elim insertE emptyE) (simp_all add: show_rhs_def float_rhs_def between_def apply2_def)
  have sp: "src_positions opcode d = ?pos" using op by (auto simp: src_positions_def float2_def)
  show ?thesis unfolding tr_binary_def d [unfolded n] bind.bind_lunit prod.case Let_def r cut_id [OF len]
    using emit_rhs_show [of "show_rhs opcode (length ?pos) ?s" d sat] len by (simp add: sp Let_def)
qed

lemma tr_mad_show:
  assumes op: "opcode \<in> float3" and n: "length srcs = 3" and wf: "wf_dst d" "\<forall>a \<in> set srcs. wf_src a"
    and g: "\<And>x. length (fmt_g x) \<le> 13" and at: "words_at m p (concat (map asm_operand (d # srcs)))"
  shows "tr_mad fmt_g opcode sat m p c = Some (show_instr fmt_g (Alu opcode sat d srcs), fold use_aop (d # srcs) c)"
proof -
  let ?pos = "written d"
  let ?s = "map (show_src fmt_g ?pos) srcs" and ?n = "length ?pos"
  note d = dst_srcs_show [where fmt_g = fmt_g and c = c, OF wf g at]
  have l: "length (?s ! 0) \<le> 80" "length (?s ! 1) \<le> 80" "length (?s ! 2) \<le> 80"
    by (rule show_map_length [OF g written_length], simp add: n)+
  have z: "(if ?n \<le> 1 then ''float(0.0)'' else ''float'' @ nat_str ?n @ ''(0.0)'') = vec ''float'' ?n @ ''(0.0)''"
  proof (cases "?n \<le> 1")
    case False
    then have "''float'' @ nat_str ?n @ ''(0.0)'' = (''float'' @ nat_str ?n) @ ''(0.0)''" by simp
    then show ?thesis using vec_float [of ?n] written_length [of d] False by simp
  qed (simp add: vec_def)
  have r: "(if opcode = 50 then ''fma('' @ ?s ! 0 @ '', '' @ ?s ! 1 @ '', '' @ ?s ! 2 @ '')''
       else ''select('' @ ?s ! 2 @ '', '' @ ?s ! 1 @ '', '' @ ?s ! 0 @ '' != '' @ (vec ''float'' ?n @ ''(0.0)'') @ '')'') = show_rhs opcode ?n ?s"
    using op unfolding float3_def by (elim insertE emptyE) (simp_all add: show_rhs_def float_rhs_def)
  have len: "length (show_rhs opcode ?n ?s) < 280"
    using op l vec_length [of "''float''" ?n] unfolding float3_def by (elim insertE emptyE) (simp_all add: show_rhs_def float_rhs_def)
  have sp: "src_positions opcode d = ?pos" using op by (auto simp: src_positions_def float3_def)
  show ?thesis unfolding tr_mad_def d [unfolded n] bind.bind_lunit prod.case Let_def z r cut_id [OF len]
    using emit_rhs_show [of "show_rhs opcode ?n ?s" d sat] len by (simp add: sp Let_def)
qed

lemma tr_dot_show:
  assumes op: "opcode \<in> dots" and n: "length srcs = 2" and wf: "wf_dst d" "\<forall>a \<in> set srcs. wf_src a"
    and g: "\<And>x. length (fmt_g x) \<le> 13" and at: "words_at m p (concat (map asm_operand (d # srcs)))"
  shows "tr_dot fmt_g opcode sat m p c = Some (show_instr fmt_g (Alu opcode sat d srcs), fold use_aop (d # srcs) c)"
proof -
  let ?k = "if opcode = 15 then 2 else if opcode = 16 then 3 else 4 :: nat"
  let ?pos = "src_positions opcode d"
  let ?s = "map (show_src fmt_g ?pos) srcs"
  have up: "take ?k [0, 1, 2, 3] = ?pos" using op by (auto simp: src_positions_def dots_def)
  have all: "\<forall>a \<in> set (d # srcs). wf_aop a" using wf wf_src_aop wf_reg_aop [OF wf_dst_reg] by auto
  have l3: "length (d # srcs) = 3" using n by simp
  note ro = read_operands_at [OF all at, unfolded l3]
  have "?k \<le> 4" by simp
  then have ss: "src_strs fmt_g ?k [0, 1, 2, 3] (map operand_of srcs) c2 = Some (?s, fold use_aop srcs c2)" for c2
    using src_strs_show [OF wf(2) g, of ?k "[0, 1, 2, 3]"] unfolding up by auto
  have "length ?pos \<le> 4" using op by (auto simp: src_positions_def dots_def)
  then have l: "length (?s ! 0) \<le> 80" "length (?s ! 1) \<le> 80" by (rule show_map_length [OF g], simp add: n)+
  have r: "''dot('' @ ?s ! 0 @ '', '' @ ?s ! 1 @ '')'' = show_rhs opcode (length ?pos) ?s"
    using op unfolding dots_def by (elim insertE emptyE) (simp_all add: show_rhs_def float_rhs_def apply2_def)
  have len: "length (show_rhs opcode (length ?pos) ?s) < 240" unfolding r [symmetric] using l by simp
  show ?thesis
    unfolding tr_dot_def ro bind.bind_lunit prod.case list.map list.sel dst_str_show [OF wf(1)] Let_def ss r cut_id [OF len]
    using emit_rhs_show [of "show_rhs opcode (length ?pos) ?s" d sat] len by (simp add: Let_def)
qed

text \<open>The comparison, integer and conversion instructions.\<close>

lemma int_rhs_length:
  assumes "opcode \<in> int1 \<union> int2" and "length (s ! 0) \<le> 80" and "opcode \<in> int2 \<Longrightarrow> length (s ! 1) \<le> 80"
    and "0 < length s" and "opcode \<in> int2 \<Longrightarrow> 1 < length s"
  shows "length (show_rhs opcode n s) < 280"
proof -
  note v = vec_length [of "''float''" n] vec_length [of "''int''" n] vec_length [of "''uint''" n]
  note d = show_rhs_def float_rhs_def int_rhs_def between_def apply2_def chosen_def float_bits_def bits_as_def
  from assms(1) show ?thesis
  proof
    assume "opcode \<in> int1"
    then show ?thesis unfolding int1_def using v assms(2,4)
      by (elim insertE emptyE) (simp_all add: d)
  next
    assume o2: "opcode \<in> int2"
    from o2 show ?thesis unfolding int2_def using v assms(2,4) assms(3) [OF o2] assms(5) [OF o2]
      by (elim insertE emptyE) (simp_all add: d)
  qed
qed

lemma tr_int_show:
  assumes op: "opcode \<in> int1 \<and> length srcs = 1 \<or> opcode \<in> int2 \<and> length srcs = 2" and wf: "wf_dst d" "\<forall>a \<in> set srcs. wf_src a"
    and t: "fld 0 11 t = opcode"
    and g: "\<And>x. length (fmt_g x) \<le> 13" and at: "words_at m p (concat (map asm_operand (d # srcs)))"
  shows "tr_instr fmt_g t m p c = Some (show_instr fmt_g (Alu opcode False d srcs), fold use_aop (d # srcs) c)"
proof -
  let ?pos = "written d"
  let ?s = "map (show_src fmt_g ?pos) srcs" and ?n = "length ?pos"
  let ?c = "fold use_aop (d # srcs) c"
  note d = dst_srcs_show [where fmt_g = fmt_g and c = c, OF wf g at]
  note dp = tr_instr_int_dispatch [OF t]
  have disj: "int1 \<inter> int2 = {}" by (auto simp: int1_def int2_def)
  have l0: "length (?s ! 0) \<le> 80" by (rule show_map_length [OF g written_length]) (use op in auto)
  have l1: "length (?s ! 1) \<le> 80" if "opcode \<in> int2" by (rule show_map_length [OF g written_length]) (use op that disj in auto)
  have len: "length (show_rhs opcode ?n ?s) < 280" by (rule int_rhs_length [OF _ l0 l1]) (use op disj in auto)
  have sp: "src_positions opcode d = ?pos" using op by (auto simp: src_positions_def int1_def int2_def)
  have out: "show_instr fmt_g (Alu opcode False d srcs) = line_text (show_reg d) (show_mask ?pos) (show_rhs opcode ?n ?s)"
    using line_text_show [OF len, of d] by (simp add: sp Let_def)
  note e = show_rhs_def float_rhs_def int_rhs_def between_def apply2_def chosen_def float_bits_def as_type_bits types_vec
  from op show ?thesis
  proof
    assume o1: "opcode \<in> int1 \<and> length srcs = 1"
    then have z: "0 < length srcs" by simp
    note d1 = d [unfolded conjunct2 [OF o1]]
    have "opcode \<in> {40, 59} \<or> opcode \<in> {27, 28, 43, 86}" using o1 by (auto simp: int1_def)
    then show ?thesis
    proof
      assume o: "opcode \<in> {40, 59}"
      show ?thesis unfolding dp(3) [OF o] tr_intun_def d1 bind.bind_lunit prod.case out
        using o z by (elim insertE emptyE) (simp_all add: e Let_def)
    next
      assume o: "opcode \<in> {27, 28, 43, 86}"
      show ?thesis unfolding dp(4) [OF o] tr_conv_def d1 bind.bind_lunit prod.case out
        using o z by (elim insertE emptyE) (simp_all add: e Let_def)
    qed
  next
    assume o2: "opcode \<in> int2 \<and> length srcs = 2"
    then have z: "0 < length srcs" "1 < length srcs" by simp_all
    note d2 = d [unfolded conjunct2 [OF o2]]
    have "opcode \<in> {24, 29, 49, 57} \<or> opcode \<in> {30, 41, 42, 85, 1, 60, 87} \<or> opcode \<in> {36, 37} \<or> opcode \<in> {32, 33, 34, 39}"
      using o2 by (auto simp: int2_def)
    then show ?thesis
    proof (elim disjE)
      assume o: "opcode \<in> {24, 29, 49, 57}"
      show ?thesis unfolding dp(1) [OF o] tr_compare_def d2 bind.bind_lunit prod.case out
        using o z by (elim insertE emptyE) (simp_all add: e Let_def)
    next
      assume o: "opcode \<in> {30, 41, 42, 85, 1, 60, 87}"
      show ?thesis unfolding dp(2) [OF o] tr_intbin_def d2 bind.bind_lunit prod.case out
        using o z by (elim insertE emptyE) (simp_all add: e Let_def)
    next
      assume o: "opcode \<in> {36, 37}"
      show ?thesis unfolding dp(5) [OF o] tr_iminmax_def d2 bind.bind_lunit prod.case out
        using o z by (elim insertE emptyE) (simp_all add: e Let_def)
    next
      assume o: "opcode \<in> {32, 33, 34, 39}"
      show ?thesis unfolding dp(6) [OF o] tr_icompare_def d2 bind.bind_lunit prod.case out
        using o z by (elim insertE emptyE) (simp_all add: e Let_def)
    qed
  qed
qed

text \<open>The instructions with one source.\<close>

lemma tr_cond_show:
  assumes op: "opcode \<in> {31, 3, 13}" and wf: "wf_src a" and g: "\<And>x. length (fmt_g x) \<le> 13" and at: "words_at m p (asm_operand a)"
  shows "tr_cond fmt_g opcode nz m p c = Some (show_instr fmt_g (Cond opcode nz a), use_aop a c)"
proof -
  have r: "read_operand_dx m p = Some (operand_of a, p + 4 * length (asm_operand a))" by (rule read_operand_asm [OF wf_src_aop [OF wf] at])
  have s: "src_str fmt_g 1 [0] (operand_of a) c = Some (show_src fmt_g [0] a, use_aop a c)"
    using src_str_show [OF wf g, of 1 "[0]"] by simp
  have l: "length (show_src fmt_g [0] a) \<le> 80" by (rule show_src_length [OF g]) simp
  show ?thesis unfolding tr_cond_def r bind.bind_lunit prod.case s Let_def using op l
    by (auto simp: fmt512_def text_line_def nl_def intro!: cut_id)
qed

lemma tr_switch_show:
  assumes wf: "wf_src a" and g: "\<And>x. length (fmt_g x) \<le> 13" and at: "words_at m p (asm_operand a)"
  shows "tr_switch fmt_g m p c = Some (show_instr fmt_g (Switch a), use_aop a c)"
proof -
  have r: "read_operand_dx m p = Some (operand_of a, p + 4 * length (asm_operand a))" by (rule read_operand_asm [OF wf_src_aop [OF wf] at])
  have s: "src_str fmt_g 1 [0] (operand_of a) c = Some (show_src fmt_g [0] a, use_aop a c)"
    using src_str_show [OF wf g, of 1 "[0]"] by simp
  have l: "length (show_src fmt_g [0] a) \<le> 80" by (rule show_src_length [OF g]) simp
  show ?thesis unfolding tr_switch_def r bind.bind_lunit prod.case s Let_def using l
    by (auto simp: fmt512_def text_line_def nl_def as_type_def intro!: cut_id)
qed

lemma tr_case_show:
  assumes at: "words_at m p (asm_operand (Imm [v] 0))"
  shows "tr_case m p c = Some (show_instr fmt_g (CaseOf v), c)"
proof -
  have "wf_aop (Imm [v] 0)" by simp
  from read_operand_asm [OF this at] show ?thesis
    using int_str_length [of v] unfolding tr_case_def by (auto simp: fmt512_def text_line_def nl_def intro!: cut_id)
qed

end
