(* ===== verification/Dxbc_Stream.thy ===== *)
theory Dxbc_Stream
  imports Dxbc_Spec
begin

section \<open>The translation of a token stream\<close>

text \<open>
  The loop over the tokens: what it prints for an assembled program, when it returns, and which
  registers the program around the body declares; and three inputs that it gets wrong.
\<close>

subsection \<open>One instruction\<close>

lemma asm_operand_length: "wf_aop a \<Longrightarrow> length (asm_operand a) \<le> 6"
  by (cases a) (auto simp: modifier_tokens_def)

lemma asm_operands_length: "\<forall>a \<in> set as. wf_aop a \<Longrightarrow> length (concat (map asm_operand as)) \<le> 6 * length as"
proof (induction as)
  case (Cons a as)
  then show ?case using asm_operand_length [of a] by simp
qed simp

lemma tr_alu_show:
  assumes wf: "wf_instr (Alu opcode sat d srcs)" and g: "\<And>x. length (fmt_g x) \<le> 13"
    and t: "fld 0 11 t = opcode" "bit t 13 = sat" and at: "words_at m p (concat (map asm_operand (d # srcs)))"
  shows "tr_instr fmt_g t m p c = Some (show_instr fmt_g (Alu opcode sat d srcs), fold use_aop (d # srcs) c)"
proof -
  have w: "wf_dst d" "\<forall>a \<in> set srcs. wf_src a" using wf by simp_all
  note dp = tr_instr_dispatch [OF t]
  from wf consider "length srcs = 1" "opcode \<in> float1" | "length srcs = 2" "opcode \<in> float2" | "length srcs = 2" "opcode \<in> dots"
    | "length srcs = 3" "opcode \<in> float3" | "opcode \<in> int1 \<and> length srcs = 1 \<or> opcode \<in> int2 \<and> length srcs = 2" "\<not> sat"
    by (simp only: wf_instr.simps) blast
  then show ?thesis
  proof cases
    case 1
    then show ?thesis using dp(1) tr_unary_show [OF 1(2,1) w g at] by simp
  next
    case 2
    then show ?thesis using dp(2) tr_binary_show [OF 2(2,1) w g at] by simp
  next
    case 3
    then show ?thesis using dp(4) tr_dot_show [OF 3(2,1) w g at] by simp
  next
    case 4
    then show ?thesis using dp(3) tr_mad_show [OF 4(2,1) w g at] by simp
  next
    case 5
    then show ?thesis using tr_int_show [OF 5(1) w t(1) g at] by simp
  qed
qed

lemma alu_opcode:
  assumes "wf_instr (Alu opcode sat d srcs)"
  shows "opcode < 2 ^ 11" and "opcode \<noteq> 53" and "length srcs \<le> 3"
  using assms by (auto simp: opcode_sets)

lemma next_instr_len: "fld 0 11 t \<noteq> 53 \<Longrightarrow> fld 24 7 t \<noteq> 0 \<Longrightarrow> next_instr m e t p = Some (p + 4 * fld 24 7 t)"
  by (simp add: next_instr_def Let_def)

text \<open>One round of the loop on an instruction whose first token is \<open>instr_token\<close>.\<close>

lemma tr_step_token:
  assumes asm: "asm_instr ins = of_nat (instr_token opcode sat nz (1 + length ops)) # ops" and at: "words_at m p (asm_instr ins)"
    and o: "opcode < 2 ^ 11" "opcode \<noteq> 53" and l: "length ops \<le> 24"
    and tr: "\<And>t. fld 0 11 t = opcode \<Longrightarrow> bit t 13 = sat \<Longrightarrow> bit t 18 = nz \<Longrightarrow> words_at m (p + 4) ops \<Longrightarrow>
      tr_instr fmt_g t m (p + 4) c = Some (show_instr fmt_g ins, use_instr ins c)"
  shows "tr_step fmt_g m e p c = Some (p + 4 * length (asm_instr ins), show_instr fmt_g ins, use_instr ins c)"
proof -
  define t :: u32 where "t = of_nat (instr_token opcode sat nz (1 + length ops))"
  have l7: "1 + length ops < 2 ^ 7" using l by simp
  note f = instr_token_fields [OF o(1) l7, of sat nz, folded t_def]
  note a = asm [folded t_def]
  have r: "rd32 m p = Some t" "words_at m (p + 4) ops" using at unfolding a by simp_all
  have n: "next_instr m e t p = Some (p + 4 * length (asm_instr ins))"
    using next_instr_len [of t m e p] f o(2) unfolding a by simp
  show ?thesis unfolding tr_step_def r(1) bind.bind_lunit n tr [OF f(1-3) r(2)] by simp
qed

lemma tr_step_show:
  assumes wf: "wf_instr ins" and g: "\<And>x. length (fmt_g x) \<le> 13" and at: "words_at m p (asm_instr ins)"
  shows "tr_step fmt_g m e p c = Some (p + 4 * length (asm_instr ins), show_instr fmt_g ins, use_instr ins c)"
proof (cases ins)
  case (Alu opcode sat d srcs)
  note w = wf [unfolded Alu]
  note o = alu_opcode [OF w]
  have "\<forall>a \<in> set (d # srcs). wf_aop a" using w wf_src_aop wf_reg_aop [OF wf_dst_reg] by auto
  then have l: "length (concat (map asm_operand (d # srcs))) \<le> 24" using asm_operands_length [of "d # srcs"] o(3) by simp
  show ?thesis
    by (rule tr_step_token [OF _ at o(1,2) l, of sat False], unfold Alu)
      (simp_all only: asm_instr.simps Let_def use_instr.simps tr_alu_show [OF w g])
next
  case (Cond opcode nz a)
  have w: "opcode \<in> {31, 3, 13}" "wf_src a" using wf Cond by simp_all
  have l: "length (asm_operand a) \<le> 24" using asm_operand_length [OF wf_src_aop [OF w(2)]] by simp
  have o: "opcode < 2 ^ 11" "opcode \<noteq> 53" using w(1) by auto
  show ?thesis
    by (rule tr_step_token [OF _ at o l, of False nz], unfold Cond)
      (simp_all only: asm_instr.simps use_instr.simps tr_instr_dispatch(6) [OF _ _ w(1)] tr_cond_show [OF w g])
next
  case (Switch a)
  have w: "wf_src a" using wf Switch by simp
  have l: "length (asm_operand a) \<le> 24" using asm_operand_length [OF wf_src_aop [OF w]] by simp
  have o: "76 < (2 :: nat) ^ 11" "76 \<noteq> (53 :: nat)" by simp_all
  show ?thesis
    by (rule tr_step_token [OF _ at o l, of False False], unfold Switch)
      (simp_all only: asm_instr.simps use_instr.simps tr_instr_dispatch(7) [OF _ _ refl] tr_switch_show [OF w g])
next
  case (CaseOf v)
  have len: "length (asm_operand (Imm [v] 0)) = 2" by (simp add: modifier_tokens_def)
  have e: "asm_instr ins = of_nat (instr_token 6 False False (1 + length (asm_operand (Imm [v] 0)))) # asm_operand (Imm [v] 0)"
    unfolding len CaseOf asm_instr.simps by (simp add: numeral_eq_Suc)
  have l: "length (asm_operand (Imm [v] 0)) \<le> 24" unfolding len by simp
  have o: "6 < (2 :: nat) ^ 11" "6 \<noteq> (53 :: nat)" by simp_all
  show ?thesis
    by (rule tr_step_token [OF e at o l], unfold CaseOf)
      (simp only: use_instr.simps tr_instr_dispatch(8) [OF _ _ refl] tr_case_show)
next
  case (Flow opcode)
  obtain x where x: "show_flow opcode = Some x" using wf Flow by auto
  have o: "opcode < 2 ^ 11" "opcode \<noteq> 53" using show_flow_cases [OF x] by auto
  have e: "asm_instr ins = of_nat (instr_token opcode False False (1 + length [])) # []" by (simp add: Flow)
  show ?thesis
    by (rule tr_step_token [OF e at o], unfold Flow) (simp_all add: tr_instr_dispatch(5) [OF _ _ x] x)
qed

subsection \<open>Programs\<close>

lemma translate_loop_end: "e \<le> p \<Longrightarrow> translate_loop fmt_g m e p c body = Some (Some (body, c))"
  by (subst translate_loop.simps) simp

lemma translate_loop_step:
  "p < e \<Longrightarrow> tr_step fmt_g m e p c = Some (q, t, c2) \<Longrightarrow>
    translate_loop fmt_g m e p c body = translate_loop fmt_g m e q c2 (body @ t)"
  by (subst translate_loop.simps) simp

lemma asm_instr_length: "0 < length (asm_instr ins)"
  by (cases ins) (simp_all add: Let_def)

lemma translate_asm:
  assumes wf: "\<forall>ins \<in> set prog. wf_instr ins" and at: "words_at m p (concat (map asm_instr prog))"
    and g: "\<And>x. length (fmt_g x) \<le> 13"
  shows "translate_loop fmt_g m (p + 4 * length (concat (map asm_instr prog))) p c body
    = Some (Some (body @ concat (map (show_instr fmt_g) prog), fold use_instr prog c))"
proof -
  have "translate_loop fmt_g m e p c body = Some (Some (body @ concat (map (show_instr fmt_g) prog), fold use_instr prog c))"
    if "e = p + 4 * length (concat (map asm_instr prog))" for e
    using wf at that
  proof (induction prog arbitrary: p c body)
    case Nil
    then show ?case by (simp add: translate_loop_end)
  next
    case (Cons ins prog)
    have s: "tr_step fmt_g m e p c = Some (p + 4 * length (asm_instr ins), show_instr fmt_g ins, use_instr ins c)"
      using Cons.prems by (intro tr_step_show [OF _ g]) simp_all
    have "p < e" using Cons.prems(3) asm_instr_length [of ins] by simp
    note st = translate_loop_step [OF this s]
    show ?case unfolding st using Cons.prems by (subst Cons.IH) (simp_all del: show_instr.simps use_instr.simps asm_instr.simps)
  qed
  then show ?thesis by simp
qed

text \<open>C2: The translator implements the reference translation, which is written independently of the
  translator's tables and printing functions: for every program that the assembler writes of moves,
  floating point, comparison, integer and conversion instructions, dot products, \<open>if\<close>, conditional
  break and discard (on zero or nonzero), \<open>switch\<close>, \<open>case\<close> and control flow without operands, with
  temporaries, inputs, outputs, constant buffers and immediates as operands, negated or absolute,
  the loop returns the concatenation of the reference texts, nothing cut, and the registers the
  instructions use; \<open>fmt_g\<close> gives at most 13 characters, as \<open>%g\<close> does.  Not covered: texture
  instructions, \<open>imul\<close>, \<open>sincos\<close>, declarations and relative indices.\<close>

theorem translate_assembled:
  assumes "\<forall>ins \<in> set prog. wf_instr ins" and "words_at m p (concat (map asm_instr prog))" and "\<And>x. length (fmt_g x) \<le> 13"
  shows "translate_loop fmt_g m (p + 4 * length (concat (map asm_instr prog))) p c body
    = Some (Some (body @ concat (map (show_instr fmt_g) prog), fold use_instr prog c))"
  by (rule translate_asm [OF assms])

subsection \<open>When the loop returns\<close>

text \<open>C28: The loop over the tokens returns, on every blob and for all its length fields, if no
  custom-data block in it has length 0.\<close>

theorem translate_returns:
  assumes "\<And>q t. p \<le> q \<Longrightarrow> q + 4 < e \<Longrightarrow> rd32 m q = Some t \<Longrightarrow> fld 0 11 t = 53 \<Longrightarrow> rd32 m (q + 4) \<noteq> Some 0"
  shows "\<exists>r. translate_loop fmt_g m e p c body = Some r"
  using assms
proof (induction "e - p" arbitrary: p c body rule: less_induct)
  case less
  show ?case
  proof (cases "p < e")
    case False
    then show ?thesis by (simp add: translate_loop_end)
  next
    case True
    show ?thesis
    proof (cases "tr_step fmt_g m e p c")
      case None
      then show ?thesis using True by (subst translate_loop.simps) simp
    next
      case (Some x)
      obtain q t c2 where x: "x = (q, t, c2)" by (cases x)
      obtain w where w: "rd32 m p = Some w" "next_instr m e w p = Some q"
        using Some x by (auto simp: tr_step_def split: bind_splits)
      have "p < q" using w(2) less.prems [OF order_refl _ w(1)]
        by (cases "rd32 m (p + 4)") (auto simp: next_instr_def Let_def unat_gt_0 split: if_splits)
      then have "\<exists>r. translate_loop fmt_g m e q c2 (body @ t) = Some r"
        using True less.prems by (intro less.hyps) auto
      then show ?thesis using translate_loop_step [OF True, of fmt_g m c q t c2] Some x by simp
    qed
  qed
qed

text \<open>C33: A custom-data block of length 0 is never left: the loop does not return, whatever the
  registers and the text so far.\<close>

theorem customdata_hangs:
  assumes t: "rd32 m p = Some t" "fld 0 11 t = 53" and len: "p + 4 < e" "rd32 m (p + 4) = Some 0"
  shows "translate_loop fmt_g m e p c body = None"
proof -
  have ti: "tr_instr fmt_g t m (p + 4) c = Some (fmt512 (''  // unhandled opcode '' @ nat_str 53 @ nl), c)" for c
    using t(2) by (simp add: tr_instr_def Let_def dcl_ops_def unary_fn_def flow_text_def)
  have step: "tr_step fmt_g m e p c = Some (p, fmt512 (''  // unhandled opcode '' @ nat_str 53 @ nl), c)" for c
    using t len ti by (simp add: tr_step_def next_instr_def Let_def)
  have False if "translate_loop f' m' e' q c body = Some r" "f' = fmt_g" "m' = m" "e' = e" "q = p"
    for f' m' e' q c body and r :: "(string \<times> Ctx) option"
    using that
  proof (induction rule: translate_loop.raw_induct [rotated, consumes 1, case_names 1])
    case (1 rec f' m' e' q c body r)
    then show ?case using step len(1) by simp
  qed
  then show ?thesis by (cases "translate_loop fmt_g m e p c body") blast+
qed

subsection \<open>The declared registers\<close>

definition occurs :: "string \<Rightarrow> string \<Rightarrow> bool" where
  "occurs x t \<longleftrightarrow> (\<exists>pre post. t = pre @ x @ post)"

lemma occurs_append: "occurs x t \<Longrightarrow> occurs x (u @ t)" "occurs x t \<Longrightarrow> occurs x (t @ u)"
  unfolding occurs_def by (metis append.assoc)+

lemma occurs_concat: "x \<in> set xs \<Longrightarrow> occurs x (concat xs)"
  unfolding occurs_def by (metis concat.simps(2) concat_append split_list)

lemma occurs_struct: "f \<in> set fs \<Longrightarrow> occurs f (struct_text name fs)"
  unfolding struct_text_def by (intro occurs_append occurs_concat)

lemma set_regs: "i \<in> set (regs n w) \<longleftrightarrow> i < n \<and> bit w i"
  by (auto simp: regs_def)

lemma structs_inputs:
  assumes s: "structs_text c = Some t" and i: "i < 32" "bit (in_used c) i"
  shows "\<exists>attr. occurs (field_text ''v'' i attr) t"
proof -
  have nz: "in_used c \<noteq> 0" using i(2) by auto
  have r: "i \<in> set (regs 32 (in_used c))" using i by (simp add: set_regs)
  show ?thesis
  proof (cases "is_pixel c")
    case False
    then have "t = struct_text ''WGVSIn'' (vs_in_fields c) @ struct_text ''WGVSOut'' (vs_out_fields c)"
      using s nz by (simp add: structs_text_def Let_def)
    moreover have "field_text ''v'' i (''attribute('' @ nat_str i @ '')'') \<in> set (vs_in_fields c)" using r by (auto simp: vs_in_fields_def)
    ultimately show ?thesis using occurs_struct occurs_append(2) by blast
  next
    case True
    then obtain fs where fs: "ps_in_fields c = Some fs" and t: "t = struct_text ''WGPSIn'' fs @ struct_text ''WGPSOut'' (ps_out_fields c)"
      using s nz by (auto simp: structs_text_def Let_def split: bind_splits)
    let ?f = "\<lambda>i. field_text ''v'' i (if in_siv_pos c ! i then ''position'' else ''user(locn'' @ nat_str i @ '')'')"
    have "fs = map ?f (regs 32 (in_used c))" using fs by (simp add: ps_in_fields_def split: if_splits)
    then have "?f i \<in> set fs" using r by simp
    then show ?thesis unfolding t using occurs_struct occurs_append(2) by blast
  qed
qed

lemma assemble_structs:
  assumes "assemble_msl c body = Some t"
  obtains s where "structs_text c = Some s" "\<And>x. occurs x s \<Longrightarrow> occurs x t"
proof -
  obtain s where s: "structs_text c = Some s" using assms by (auto simp: assemble_msl_def split: bind_splits)
  note t = assms [unfolded assemble_msl_def s bind.bind_lunit option.inject, symmetric]
  have "occurs x t" if "occurs x s" for x
    unfolding t by (rule occurs_append(1), rule occurs_append(1), rule occurs_append(1), rule occurs_append(1),
      rule occurs_append(2), rule that)
  then show thesis by (rule that [OF s])
qed

lemma use_aop_mono: "bit (in_used c) i \<Longrightarrow> bit (in_used (use_aop a c)) i"
  by (cases a) (auto simp: Let_def bit_or_iff)

lemma use_aops_mono: "bit (in_used c) i \<Longrightarrow> bit (in_used (fold use_aop as c)) i"
  by (induction as arbitrary: c) (simp_all add: use_aop_mono del: use_aop.simps)

lemma use_instrs_mono: "bit (in_used c) i \<Longrightarrow> bit (in_used (fold use_instr prog c)) i"
proof (induction prog arbitrary: c)
  case (Cons ins prog)
  then have "bit (in_used (use_instr ins c)) i" by (cases ins) (simp_all add: use_aops_mono use_aop_mono del: use_aop.simps)
  then show ?case using Cons.IH by simp
qed simp

lemma used_input:
  assumes "Alu opcode sat d srcs \<in> set prog" and "Reg OT_INPUT s [v] md \<in> set srcs" and v: "0 \<le> sint v" "sint v < 32"
  shows "bit (in_used (fold use_instr prog c)) (nat (sint v))"
proof -
  have b: "bit (in_used (use_aop (Reg OT_INPUT s [v] md) c)) (nat (sint v))" for c
    using v by (simp add: Let_def OT_defs bit_simps) linarith
  obtain s1 s2 where s: "srcs = s1 @ Reg OT_INPUT s [v] md # s2" using assms(2) by (meson split_list)
  obtain p1 p2 where p: "prog = p1 @ Alu opcode sat d srcs # p2" using assms(1) by (meson split_list)
  have "bit (in_used (use_instr (Alu opcode sat d srcs) c)) (nat (sint v))" for c
    unfolding s by (simp add: use_aops_mono b del: use_aop.simps)
  then show ?thesis unfolding p by (simp add: use_instrs_mono del: use_instr.simps)
qed

text \<open>The program around the body declares what the body reads: every input register below 32 that
  an assembled program uses as a source is a field of the input structure, in vertex and pixel
  shaders alike, whenever the program is assembled at all.\<close>

theorem inputs_declared:
  assumes wf: "\<forall>ins \<in> set prog. wf_instr ins" "words_at m p (concat (map asm_instr prog))" and g: "\<And>x. length (fmt_g x) \<le> 13"
    and src: "Alu opcode sat d srcs \<in> set prog" "Reg OT_INPUT s [v] md \<in> set srcs" "sint v < 32"
    and t: "translate_loop fmt_g m (p + 4 * length (concat (map asm_instr prog))) p (ctx_init pixel) [] = Some (Some (body, c))"
    and a: "assemble_msl c body = Some msl"
  shows "\<exists>attr. occurs (field_text ''v'' (nat (sint v)) attr) msl"
proof -
  have c: "c = fold use_instr prog (ctx_init pixel)"
    using t translate_asm [where fmt_g = fmt_g and c = "ctx_init pixel" and body = "[]", OF wf g] by simp
  have "Reg OT_INPUT s [v] md \<in> set srcs \<Longrightarrow> wf_src (Reg OT_INPUT s [v] md)" using wf(1) src(1) by fastforce
  then have v: "0 \<le> sint v" using src(2) by (auto simp: wf_src_def)
  from assemble_structs [OF a] obtain st where st: "structs_text c = Some st" "\<And>x. occurs x st \<Longrightarrow> occurs x msl" by blast
  have "bit (in_used c) (nat (sint v))" unfolding c by (rule used_input [OF src(1,2) v src(3)])
  with structs_inputs [OF st(1)] src(3) v obtain attr where "occurs (field_text ''v'' (nat (sint v)) attr) st" by fastforce
  then show ?thesis using st(2) by blast
qed

subsection \<open>Inputs it gets wrong\<close>

text \<open>A pixel shader that uses an input register from 8 on reads behind the array of position
  inputs: assembling its program is undefined behaviour, whatever its body is.\<close>

theorem pixel_input_overrun:
  assumes "is_pixel c" and "bit (in_used c) i" and "8 \<le> i" "i < 32" and "length (in_siv_pos c) = 8"
  shows "assemble_msl c body = None"
proof -
  have "i \<in> set (regs 32 (in_used c))" using assms by (simp add: set_regs)
  then have "ps_in_fields c = None" using assms(3,5) by (auto simp: ps_in_fields_def)
  moreover have "in_used c \<noteq> 0" using assms(2) by auto
  ultimately show ?thesis using assms(1) by (simp add: assemble_msl_def structs_text_def Let_def)
qed

text \<open>The tokens of \<open>cb<b>[r<n>.<k> + off].xyzw\<close>: an immediate index, an immediate with a relative
  one, and the operand that selects component \<open>k\<close> of a temporary.\<close>

definition relative_tokens :: "u32 \<Rightarrow> u32 \<Rightarrow> u32 \<Rightarrow> nat \<Rightarrow> u32 list" where
  "relative_tokens b off n k = 0x06208E46 # b # off # asm_operand (Reg OT_TEMP (Sel1 k) [n] 0)"

lemma relative_token: "operand_token 0x06208E46 = operand_zero\<lparr> num_comp := 2, sel_mode := 1, o_sw := [0, 1, 2, 3], o_type := 8, index_dim := 2 \<rparr>"
  "fld (22 + 0 * 3) 3 0x06208E46 = 0" "fld (22 + 1 * 3) 3 0x06208E46 = 3" "\<not> bit (0x06208E46 :: u32) 31"
  by code_simp+

lemma read_relative:
  assumes "words_at m p (relative_tokens b off n k)" and "k < 4"
  shows "\<exists>o1. read_operand_dx m p = Some (o1, p + 20) \<and> o_type o1 = OT_CBUFFER \<and> o_idx o1 = [sint b, sint off, 0]
    \<and> idx_rel o1 ! 1 \<and> rel_str o1 ! 1 = cut 48 (''int(r'' @ int_str (sint n) @ ''.x)'') \<and> num_comp o1 = 2 \<and> sel_mode o1 = 1
    \<and> o_sw o1 = [0, 1, 2, 3] \<and> modifier o1 = 0"
proof -
  let ?a = "Reg OT_TEMP (Sel1 k) [n] 0"
  let ?o = "(operand_token 0x06208E46)\<lparr> modifier := 0 \<rparr>"
  have w: "rd32 m p = Some 0x06208E46" "rd32 m (p + 4) = Some b" "rd32 m (p + 8) = Some off" "words_at m (p + 12) (asm_operand ?a)"
    using assms(1) by (simp_all add: relative_tokens_def add.commute [of p] del: asm_operand.simps)
  have wf: "wf_aop ?a" using assms(2) by (simp add: OT_defs)
  have "length (asm_operand ?a) = 2" by (simp add: modifier_tokens_def)
  then have r: "read_operand_dx m (p + 12) = Some (operand_of ?a, p + 20)" using read_operand_asm [OF wf w(4)] by simp
  have tx: "rel_text (operand_of ?a) = cut 48 (''int(r'' @ int_str (sint n) @ ''.x)'')"
    by (simp add: rel_text_def operand_zero_def swz_def)
  have i0: "read_index (read_operand_dx m) m 0x06208E46 0 (?o, p + 4) = Some (?o\<lparr> o_idx := [sint b, 0, 0] \<rparr>, p + 8)"
    using w(2) relative_token(2) by (simp add: read_index_def Let_def relative_token(1) operand_zero_def)
  have i1: "read_index (read_operand_dx m) m 0x06208E46 1 (?o\<lparr> o_idx := [sint b, 0, 0] \<rparr>, p + 8)
      = Some (set_rel 1 (operand_of ?a) (?o\<lparr> o_idx := [sint b, sint off, 0] \<rparr>), p + 20)"
    using w(3) relative_token(3) r by (simp add: read_index_def Let_def add.commute [of p] del: operand_of.simps)
  have up: "[0..<2] = [0, 1 :: nat]" by (simp add: upt_rec)
  have "read_payload (read_operand_dx m) m 0x06208E46 ?o (p + 4)
      = Some (set_rel 1 (operand_of ?a) (?o\<lparr> o_idx := [sint b, sint off, 0] \<rparr>), p + 20)"
    using i0 i1 up by (simp add: read_payload_def OT_defs relative_token(1))
  then have "read_operand_dx m p = Some (set_rel 1 (operand_of ?a) (?o\<lparr> o_idx := [sint b, sint off, 0] \<rparr>), p + 20)"
    using read_operand_total [of m p, THEN conjunct1] w(1) relative_token(4) by simp
  then show ?thesis using tx by (simp add: set_rel_def relative_token(1) operand_zero_def OT_defs del: operand_of.simps)
qed

text \<open>A constant buffer that is indexed by a register and an offset, \<open>cb<b>[r<n>.<k> + off]\<close>, is
  translated to \<open>cb<b>[int(r<n>.x)]\<close>: the offset is dropped and every component is taken for the
  first.\<close>

theorem relative_index_lost:
  assumes at: "words_at m p (relative_tokens b off n k)" and k: "k < 4" and b: "0 \<le> sint b"
  shows "\<exists>o1. read_operand_dx m p = Some (o1, p + 20)
    \<and> map_option fst (src_str fmt_g 4 [0, 1, 2, 3] o1 c) = Some (''cb'' @ int_str (sint b) @ ''[int(r'' @ int_str (sint n) @ ''.x)].xyzw'')"
proof -
  from read_relative [OF at k] obtain o1 where o1: "read_operand_dx m p = Some (o1, p + 20)" "o_type o1 = OT_CBUFFER"
    "o_idx o1 = [sint b, sint off, 0]" "idx_rel o1 ! 1" "rel_str o1 ! 1 = cut 48 (''int(r'' @ int_str (sint n) @ ''.x)'')"
    "num_comp o1 = 2" "sel_mode o1 = 1" "o_sw o1 = [0, 1, 2, 3]" "modifier o1 = 0" by blast
  have len: "length (int_str (sint b)) \<le> 11" "length (int_str (sint n)) \<le> 11" by (rule int_str_length)+
  let ?b = "''cb'' @ int_str (sint b) @ ''['' @ (''int(r'' @ int_str (sint n) @ ''.x)'') @ '']''"
  have rs: "rel_str o1 ! 1 = ''int(r'' @ int_str (sint n) @ ''.x)''" unfolding o1(5) using len by (intro cut_id) simp
  have ob: "operand_base 80 o1 c = Some (?b, c\<lparr> cb_used := cb_used c OR (if sint b < 32 then push_bit (nat (sint b)) 1 else 0) \<rparr>)"
    using o1(2,4) rs use_reg_show [OF b] len cut_id [of ?b 80] by (simp add: operand_base_def Let_def o1(3) OT_defs)
  have sw: "swizzle_text o1 4 [0, 1, 2, 3] = ''.xyzw''" using o1(6-8) by (simp add: swizzle_text_def swz_def)
  have "cut 200 (?b @ ''.xyzw'') = ?b @ ''.xyzw''" "cut 128 (?b @ ''.xyzw'') = ?b @ ''.xyzw''" using len by (intro cut_id; simp)+
  then have "map_option fst (src_str fmt_g 4 [0, 1, 2, 3] o1 c) = Some (?b @ ''.xyzw'')"
    unfolding src_str_def ob sw using o1(2,9) by (simp add: OT_defs apply_modifier_def)
  then show ?thesis using o1(1) by (intro exI [of _ o1]) simp
qed

subsection \<open>An example\<close>

text \<open>\<open>mul_sat r0.xy, v1.xyxx, cb0[2].x; if_nz r0.x; round_ni r0.x, v1.x; else; ilt r0.x, r0.x, 7;
  endif; mov o0.xyzw, r0.xyzw; ret\<close>\<close>

definition demo_prog :: "ainstr list" where
  "demo_prog =
     [Alu 56 True (Reg OT_TEMP (SelMask 3) [0] 0) [Reg OT_INPUT (SelSwz [0, 1, 0, 0]) [1] 0, Reg OT_CBUFFER (Sel1 0) [0, 2] 1],
      Cond 31 True (Reg OT_TEMP (Sel1 0) [0] 0),
      Alu 65 False (Reg OT_TEMP (SelMask 1) [0] 0) [Reg OT_INPUT (Sel1 0) [1] 0],
      Flow 18,
      Alu 34 False (Reg OT_TEMP (SelMask 1) [0] 0) [Reg OT_TEMP (Sel1 0) [0] 0, Imm [7] 0],
      Flow 21,
      Alu 54 False (Reg OT_OUTPUT (SelMask 15) [0] 0) [Reg OT_TEMP (SelSwz [0, 1, 2, 3]) [0] 0],
      Flow 62]"

definition demo_lines :: "string list" where
  "demo_lines =
     [''  r0.xy = saturate(in.v1.xy * (-cb0[2].xx));'', ''  if (r0.x != 0.0) {'', ''  r0.x = floor(in.v1.x);'', ''  } else {'',
      ''  r0.x = select(float(0.0), float(1.0), as_type<int>(r0.x) < as_type<int>(float(1)));'', ''  }'',
      ''  out.o0.xyzw = r0.xyzw;'', ''  return out;'']"

definition demo_tokens :: "u8 list" where
  "demo_tokens = concat (map (to_le 4) (concat (map asm_instr demo_prog)))"

definition demo_g :: "u32 \<Rightarrow> string" where "demo_g w = ''1''"

lemma demo_prog_wf: "\<forall>ins \<in> set demo_prog. wf_instr ins"
  by (auto simp: demo_prog_def wf_src_def opcode_sets show_flow_def OT_defs less_Suc_eq numeral_eq_Suc)

lemma demo_tokens_at: "words_at demo_tokens 0 (concat (map asm_instr demo_prog))"
  using words_at_flat [of "[]" "concat (map asm_instr demo_prog)" "[]"] unfolding demo_tokens_def by (simp only: append.simps list.size append_Nil2)

lemma demo_length: "length (concat (map asm_instr demo_prog)) = 32"
  by (simp add: demo_prog_def modifier_tokens_def Let_def)

lemma demo_text: "concat (map (show_instr demo_g) demo_prog) = concat (map (\<lambda>l. l @ [CHR 0x0A]) demo_lines)"
  by code_simp

theorem translate_assembled_witness:
  "map_option (map_option fst) (translate_loop demo_g demo_tokens 128 0 (ctx_init False) []) = Some (Some (concat (map (\<lambda>l. l @ [CHR 0x0A]) demo_lines)))"
  using translate_assembled [OF demo_prog_wf demo_tokens_at, of demo_g "ctx_init False" "[]"] demo_length demo_text
  by (simp add: demo_g_def)

theorem inputs_declared_witness:
  "\<exists>msl attr. assemble_msl (fold use_instr demo_prog (ctx_init False)) (concat (map (show_instr demo_g) demo_prog)) = Some msl
    \<and> occurs (field_text ''v'' 1 attr) msl"
proof -
  let ?c = "fold use_instr demo_prog (ctx_init False)"
  have "\<not> is_pixel ?c" by code_simp
  then obtain msl where a: "assemble_msl ?c (concat (map (show_instr demo_g) demo_prog)) = Some msl"
    by (simp add: assemble_msl_def structs_text_def Let_def)
  have g: "length (demo_g x) \<le> 13" for x by (simp add: demo_g_def)
  have t: "translate_loop demo_g demo_tokens (0 + 4 * length (concat (map asm_instr demo_prog))) 0 (ctx_init False) []
      = Some (Some (concat (map (show_instr demo_g) demo_prog), ?c))"
    using translate_asm [where fmt_g = demo_g and c = "ctx_init False" and body = "[]", OF demo_prog_wf demo_tokens_at g] by simp
  have src: "Alu 56 True (Reg OT_TEMP (SelMask 3) [0] 0) [Reg OT_INPUT (SelSwz [0, 1, 0, 0]) [1] 0, Reg OT_CBUFFER (Sel1 0) [0, 2] 1] \<in> set demo_prog"
    by (simp add: demo_prog_def)
  show ?thesis using inputs_declared [OF demo_prog_wf demo_tokens_at g src _ _ t a, of "SelSwz [0, 1, 0, 0]" 1 0] a by simp
qed

theorem translate_returns_witness:
  "\<exists>r. translate_loop demo_g (to_le 4 (0x0100003E :: u32)) 4 0 (ctx_init True) [] = Some r"
  by (rule translate_returns) simp

theorem customdata_hangs_witness:
  "translate_loop demo_g (to_le 4 (0x35 :: u32) @ to_le 4 (0 :: u32)) 8 0 (ctx_init True) [] = None"
  by (rule customdata_hangs [where t = "0x35"]) code_simp+

theorem pixel_input_overrun_witness:
  "assemble_msl ((ctx_init True)\<lparr> in_used := 0x100 \<rparr>) [] = None"
  by (rule pixel_input_overrun [where i = "8"]) code_simp+

theorem relative_index_lost_witness:
  "\<exists>o1. read_operand_dx (concat (map (to_le 4) (relative_tokens 0 7 1 2))) 0 = Some (o1, 20)
    \<and> map_option fst (src_str demo_g 4 [0, 1, 2, 3] o1 (ctx_init True)) = Some ''cb0[int(r1.x)].xyzw''"
proof -
  have at: "words_at (concat (map (to_le 4) (relative_tokens 0 7 1 2))) 0 (relative_tokens 0 7 1 2)"
    using words_at_flat [of "[]" "relative_tokens 0 7 1 2" "[]"] by (simp only: append.simps list.size append_Nil2)
  have d: "int_str 0 = ''0''" "int_str 1 = ''1''" by code_simp+
  show ?thesis using relative_index_lost [OF at, where fmt_g = demo_g and c = "ctx_init True"] d by simp
qed

end
