(* ===== verification/Http_Text.thy ===== *)
theory Http_Text
  imports C_Strings
begin

section \<open>Scanning text: numbers, headers and URLs\<close>

text \<open>
  The text side of \<open>Sources/Win32/wg_winhttp.c\<close>: the positions \<open>strchr\<close>, \<open>strstr\<close> and
  \<open>strcasestr\<close> find, \<open>atoi\<close>, \<open>atoll\<close> and the \<open>sscanf\<close> of a status line, the search for a header,
  and the cutting of a URL into scheme, host, port, path and query.  A number that does not fit
  the C type it is converted to is undefined behaviour, hence \<^term>\<open>None\<close>.
\<close>

subsection \<open>Positions\<close>

definition chr8 :: "u8 \<Rightarrow> char" where "chr8 b = char_of (unat b)"
definition ord8 :: "char \<Rightarrow> u8" where "ord8 c = of_char c"

text \<open>The C string in a byte buffer ends before the first zero byte.\<close>

definition cstr :: "u8 list \<Rightarrow> string" where
  "cstr bs = map chr8 (takeWhile (\<lambda>b. b \<noteq> 0) bs)"

fun strchr :: "char \<Rightarrow> string \<Rightarrow> nat option" where
  "strchr c [] = None"
| "strchr c (x # xs) = (if x = c then Some 0 else map_option Suc (strchr c xs))"

fun strpos :: "string \<Rightarrow> string \<Rightarrow> nat option" where
  "strpos [] t = (if t = [] then Some 0 else None)"
| "strpos (c # s) t = (if take (length t) (c # s) = t then Some 0 else map_option Suc (strpos s t))"

definition strcasepos :: "string \<Rightarrow> string \<Rightarrow> nat option" where
  "strcasepos s t = strpos (map tolower s) (map tolower t)"

text \<open>\<open>strncasecmp(s, t, strlen(t)) == 0\<close>\<close>

definition starts_with_nocase :: "string \<Rightarrow> string \<Rightarrow> bool" where
  "starts_with_nocase s t \<longleftrightarrow> map tolower (take (length t) s) = map tolower t"

definition CR :: char where "CR = CHR 0x0D"
definition LF :: char where "LF = CHR 0x0A"
definition crlf :: string where "crlf = [CR, LF]"

subsection \<open>Numbers\<close>

definition is_space :: "char \<Rightarrow> bool" where
  "is_space c \<longleftrightarrow> c = CHR '' '' \<or> (9 \<le> (of_char c :: nat) \<and> (of_char c :: nat) \<le> 13)"

definition is_digit :: "char \<Rightarrow> bool" where
  "is_digit c \<longleftrightarrow> 48 \<le> (of_char c :: nat) \<and> (of_char c :: nat) \<le> 57"

definition digits_val :: "string \<Rightarrow> nat" where
  "digits_val ds = foldl (\<lambda>v c. 10 * v + (of_char c - 48)) 0 ds"

text \<open>White space, a sign, digits: the value and the rest, or \<^term>\<open>None\<close> without a digit.\<close>

definition scan_int :: "string \<Rightarrow> (int \<times> string) option" where
  "scan_int s =
     (let s = dropWhile is_space s;
          neg = (s \<noteq> [] \<and> hd s = CHR ''-'');
          s = (if s \<noteq> [] \<and> (hd s = CHR ''-'' \<or> hd s = CHR ''+'') then tl s else s);
          ds = takeWhile is_digit s
      in if ds = [] then None
         else Some (if neg then - int (digits_val ds) else int (digits_val ds), dropWhile is_digit s))"

definition in_int :: "int \<Rightarrow> bool" where
  "in_int v \<longleftrightarrow> - (2 ^ 31) \<le> v \<and> v < 2 ^ 31"

definition atoi :: "string \<Rightarrow> int option" where
  "atoi s = (case scan_int s of None \<Rightarrow> Some 0 | Some (v, _) \<Rightarrow> if in_int v then Some v else None)"

definition atoll :: "string \<Rightarrow> int option" where
  "atoll s = (case scan_int s of None \<Rightarrow> Some 0 | Some (v, _) \<Rightarrow> if in_i64 v then Some v else None)"

text \<open>
  \<open>sscanf(raw, "HTTP/%d.%d %d %127[^\r\n]", ...)\<close>: \<open>Inl\<close> when fewer than three conversions
  succeed, otherwise the status code and the reason phrase.  A blank in the format skips any
  white space, line ends included.
\<close>

definition scan_status :: "string \<Rightarrow> (unit + int \<times> string) option" where
  "scan_status raw =
     (if take 5 raw \<noteq> ''HTTP/'' then Some (Inl ()) else
      case scan_int (drop 5 raw) of None \<Rightarrow> Some (Inl ())
      | Some (major, s) \<Rightarrow> if \<not> in_int major then None else
          if s = [] \<or> hd s \<noteq> CHR ''.'' then Some (Inl ()) else
          (case scan_int (tl s) of None \<Rightarrow> Some (Inl ())
           | Some (minor, s) \<Rightarrow> if \<not> in_int minor then None else
               (case scan_int s of None \<Rightarrow> Some (Inl ())
                | Some (code, s) \<Rightarrow> if \<not> in_int code then None else
                    Some (Inr (code, take 127 (takeWhile (\<lambda>c. c \<noteq> CR \<and> c \<noteq> LF) (dropWhile is_space s)))))))"

subsection \<open>Headers\<close>

text \<open>\<open>find_header_value\<close>: \<open>p\<close> is the offset the search goes on from.\<close>

lemma strpos_less: "strpos s t = Some k \<Longrightarrow> k + length t \<le> length s"
  by (induction s t arbitrary: k rule: strpos.induct) (auto split: if_splits dest: arg_cong [where f = length])

function find_header_from :: "string \<Rightarrow> string \<Rightarrow> nat \<Rightarrow> string option" where
  "find_header_from headers name p =
     (case strcasepos (drop p headers) name of None \<Rightarrow> None
      | Some k \<Rightarrow>
          if p + k = 0 \<or> headers ! (p + k - 1) = LF
          then Some (dropWhile (\<lambda>c. c = CHR '' '' \<or> c = CHR 0x09) (drop (p + k + length name) headers))
          else if name = [] then None
          else find_header_from headers name (p + k + length name))"
  by pat_completeness auto

termination
proof (relation "measure (\<lambda>(h, n, p). length h - p)", goal_cases)
  case (2 headers name p k)
  from strpos_less [OF 2(1) [unfolded strcasepos_def]] 2(3) have "k + length name \<le> length headers - p" by simp
  moreover have "0 < length name" using 2(3) by simp
  ultimately have "length headers - (p + k + length name) < length headers - p" by arith
  then show ?case by simp
qed simp

declare find_header_from.simps [simp del]

definition find_header_value :: "string \<Rightarrow> string \<Rightarrow> string option" where
  "find_header_value headers name = find_header_from headers name 0"

text \<open>The loop that copies a header's value into a buffer of 4096 bytes, up to the line's end.\<close>

definition header_line :: "string \<Rightarrow> string" where
  "header_line v = take 4095 (takeWhile (\<lambda>c. c \<noteq> CR \<and> c \<noteq> LF) v)"

subsection \<open>URLs\<close>

text \<open>
  \<open>p\<close> starts after the scheme: the host, the port and the tail from the first slash.  A host
  that does not fit its 512 bytes before a colon or a slash is dropped, otherwise it is cut.
\<close>

definition copy_host :: "nat \<Rightarrow> string \<Rightarrow> string" where
  "copy_host hlen p = (if 0 < hlen \<and> hlen < 512 then take hlen p else [])"

definition split_authority :: "u16 \<Rightarrow> string \<Rightarrow> (string \<times> u16 \<times> string option) option" where
  "split_authority dflt p =
     (let slash = strchr (CHR ''/'') p; colon = strchr (CHR '':'') p;
          path = map_option (\<lambda>k. drop k p) slash
      in case colon of
           Some c \<Rightarrow>
             (if slash = None \<or> c < the slash
              then map_option (\<lambda>v. (copy_host c p, word_of_int v, path)) (atoi (drop (c + 1) p))
              else Some (copy_host (the slash) p, dflt, path))
         | None \<Rightarrow>
             (case slash of Some k \<Rightarrow> Some (copy_host k p, dflt, path)
              | None \<Rightarrow> Some (cut 512 p, dflt, path)))"

text \<open>The scheme's name, its number, its default port and the rest.\<close>

definition split_scheme :: "string \<Rightarrow> string \<times> u32 \<times> u16 \<times> string" where
  "split_scheme url =
     (if starts_with_nocase url ''https://'' then (''https'', 2, 443, drop 8 url)
      else if starts_with_nocase url ''http://'' then (''http'', 1, 80, drop 7 url)
      else (''http'', 1, 80, url))"

text \<open>The path and the query of \<open>WinHttpCrackUrl\<close>.\<close>

definition split_path_query :: "string option \<Rightarrow> string \<times> string" where
  "split_path_query tail' =
     (case tail' of None \<Rightarrow> (''/'', [])
      | Some s \<Rightarrow> (case strchr (CHR ''?'') s of
            Some q \<Rightarrow> (if q < 4096 then take q s else [], cut 2048 (drop q s))
          | None \<Rightarrow> (cut 4096 s, [])))"

record url_parts =
  up_scheme :: string
  up_nscheme :: u32
  up_port :: u16
  up_host :: string
  up_path :: string
  up_extra :: string

definition crack_url :: "string \<Rightarrow> url_parts option" where
  "crack_url url =
     (let (scheme, n, dflt, p) = split_scheme url
      in map_option (\<lambda>(host, port, slash).
           let (path, extra) = split_path_query slash
           in \<lparr> up_scheme = scheme, up_nscheme = n, up_port = port, up_host = host,
                up_path = path, up_extra = extra \<rparr>)
         (split_authority dflt p))"

subsection \<open>C strings in a buffer\<close>

lemma cstr_all: "0 \<notin> set p \<Longrightarrow> cstr p = map chr8 p"
proof -
  assume "0 \<notin> set p"
  then have "takeWhile (\<lambda>b. b \<noteq> 0) p = p" by (intro takeWhile_eq_all_conv [THEN iffD2]) auto
  then show ?thesis by (simp only: cstr_def)
qed

lemma cstr_append: "cstr (p @ q) = cstr p @ (if 0 \<in> set p then [] else cstr q)"
proof (cases "0 \<in> set p")
  case True
  then have "takeWhile (\<lambda>b. b \<noteq> 0) (p @ q) = takeWhile (\<lambda>b. b \<noteq> 0) p" by (intro takeWhile_append1) auto
  with True show ?thesis by (simp add: cstr_def)
next
  case False
  then have "takeWhile (\<lambda>b. b \<noteq> 0) (p @ q) = p @ takeWhile (\<lambda>b. b \<noteq> 0) q" by (intro takeWhile_append2) auto
  then have "cstr (p @ q) = map chr8 p @ cstr q" by (simp only: cstr_def map_append)
  with False cstr_all [OF False] show ?thesis by simp
qed

lemma chr8_ord8 [simp]: "chr8 (ord8 c) = c"
proof -
  have "(of_char c :: nat) < 256" by (rule nat_of_char_less_256)
  moreover have "ord8 c = of_nat (of_char c)" by (simp add: ord8_def of_char_def)
  ultimately have "unat (ord8 c) = of_char c" by (simp only: unat_of_nat) simp
  then show ?thesis by (simp add: chr8_def)
qed

lemma cstr_ord8: "\<forall>c \<in> set s. ord8 c \<noteq> 0 \<Longrightarrow> cstr (map ord8 s @ bs) = s @ cstr bs"
  by (auto simp: cstr_append cstr_all comp_def)

end
