(* ===== verification/WinHttp.thy ===== *)
theory WinHttp
  imports Http_Text
begin

section \<open>The HTTP client\<close>

text \<open>
  \<open>Sources/Win32/wg_winhttp.c\<close>: the WinHTTP calls of a guest.  The table of sixteen slots, the
  calls in the order of \<open>wg_winhttp_handle\<close>, and the wire side (\<open>http_connect_to\<close>,
  \<open>http_send_req\<close>, \<open>http_receive_headers\<close>).

  Outside code is a parameter.  Guest memory is read through \<open>rd\<close>: \<open>rd a n\<close> is what
  \<open>wg_blink_read_mem\<close> copied of the \<open>n\<close> bytes at \<open>a\<close> before it met an unmapped page; every call
  reads guest memory before it writes any, so a call returns its writes as a list of addresses
  and bytes, in order.  \<open>mal n\<close> says whether \<open>malloc(n)\<close> succeeds.  The sockets are scripts: what each
  connection attempt does, the chunks the peer's data arrives in, how much each \<open>write\<close> takes.
  A call is \<^term>\<open>None\<close> when its behaviour is undefined (an access outside a buffer, an unset byte
  used) or when it never returns because a \<open>read\<close> waits for ever on a connection that stays open.
\<close>

subsection \<open>Connections\<close>

datatype write_event = Taken nat | Interrupted | Write_error

text \<open>
  A connection is \<open>fd\<close> with its optional \<open>ssl_ctx\<close>: the chunks still to arrive (an empty chunk is
  the end of the data or an error that stays), whether the peer keeps the connection open, and silent,
  once they have arrived (when it does not, the end of the list is the end of the data), the script
  of its writes (past its end every write takes everything), what was sent, and the server, port and
  use of TLS it was opened with.  The requests ask for \<open>keep-alive\<close>, so a peer may well keep it open.
\<close>

record conn =
  c_in :: "u8 list list"
  c_open :: bool
  c_wr :: "write_event list"
  c_out :: "u8 list"
  c_peer :: "string \<times> u16 \<times> bool"

datatype dial = Unreachable | Handshake_failed | Connected "u8 list list" bool "write_event list"

record net =
  net_dials :: "dial list"
  net_log :: "(string \<times> u16 \<times> bool) list"

text \<open>\<open>slot_read\<close> with a result of 0 or less gives no bytes; with nothing left on a connection that
  stays open it does not return.\<close>

definition slot_read :: "nat \<Rightarrow> conn \<Rightarrow> (u8 list option \<times> conn) option" where
  "slot_read n c =
     (if n = 0 then Some (None, c) else
      case c_in c of [] \<Rightarrow> (if c_open c then None else Some (None, c))
      | ch # cs \<Rightarrow> if ch = [] then Some (None, c)
          else if length ch \<le> n then Some (Some ch, c\<lparr> c_in := cs \<rparr>)
          else Some (Some (take n ch), c\<lparr> c_in := drop n ch # cs \<rparr>))"

text \<open>Whether everything was written, what is left of the script, and the bytes that were sent.
  Through TLS a write that takes nothing is repeated, on a plain socket it is an error.\<close>

fun write_all :: "bool \<Rightarrow> write_event list \<Rightarrow> u8 list \<Rightarrow> bool \<times> write_event list \<times> u8 list" where
  "write_all tls ws [] = (True, ws, [])"
| "write_all tls [] data = (True, [], data)"
| "write_all tls (Interrupted # ws) data = write_all tls ws data"
| "write_all tls (Write_error # ws) data = (False, ws, [])"
| "write_all tls (Taken n # ws) data =
     (if n = 0 then (if tls then write_all tls ws data else (False, ws, []))
      else (let (ok, ws', out) = write_all tls ws (drop n data) in (ok, ws', take n data @ out)))"

definition slot_write_all :: "u8 list \<Rightarrow> conn \<Rightarrow> bool \<times> conn" where
  "slot_write_all data c =
     (let (ok, ws, out) = write_all (snd (snd (c_peer c))) (c_wr c) data
      in (ok, c\<lparr> c_wr := ws, c_out := c_out c @ out \<rparr>))"

subsection \<open>The slot table\<close>

definition WG_MAX_HTTP :: nat where "WG_MAX_HTTP = 16"
definition HTTP_BASE :: u32 where "HTTP_BASE = 0x3000"

datatype http_type = HT_NONE | HT_SESSION | HT_CONNECT | HT_REQUEST

text \<open>
  \<open>hs_conn\<close> is \<open>fd\<close> and \<open>ssl_ctx\<close>, \<^term>\<open>None\<close> for \<open>fd = -1\<close>; \<open>hs_extra\<close> is \<open>extra_headers\<close> with
  \<open>extra_headers_len\<close> its length; \<open>hs_buf\<close> is the block \<open>buf\<close> points to: the size that was allocated and
  the bytes from its start that have been set.
\<close>

record WGHttpSlot =
  hs_type :: http_type
  hs_in_use :: bool
  hs_agent :: string
  hs_session_h :: u32
  hs_server :: string
  hs_port :: u16
  hs_connect_h :: u32
  hs_verb :: string
  hs_path :: string
  hs_extra :: string
  hs_use_ssl :: bool
  hs_conn :: "conn option"
  hs_status_code :: int
  hs_status_text :: string
  hs_resp_headers :: string
  hs_buf :: "(nat \<times> u8 list) option"
  hs_buf_len :: nat
  hs_buf_pos :: nat
  hs_content_length :: u64
  hs_has_content_length :: bool
  hs_headers_received :: bool
  hs_total_body_read :: nat

definition http_zero :: WGHttpSlot where
  "http_zero = \<lparr> hs_type = HT_NONE, hs_in_use = False, hs_agent = [], hs_session_h = 0, hs_server = [],
     hs_port = 0, hs_connect_h = 0, hs_verb = [], hs_path = [], hs_extra = [], hs_use_ssl = False,
     hs_conn = None, hs_status_code = 0, hs_status_text = [], hs_resp_headers = [], hs_buf = None,
     hs_buf_len = 0, hs_buf_pos = 0, hs_content_length = 0, hs_has_content_length = False,
     hs_headers_received = False, hs_total_body_read = 0 \<rparr>"

record WGWinHttp =
  wh_slots :: "WGHttpSlot list"
  wh_last_error :: u32
  wh_net :: net

definition wg_winhttp_create :: "net \<Rightarrow> WGWinHttp" where
  "wg_winhttp_create n = \<lparr> wh_slots = replicate WG_MAX_HTTP http_zero, wh_last_error = 0, wh_net = n \<rparr>"

definition alloc_http :: "http_type \<Rightarrow> WGWinHttp \<Rightarrow> u32 \<times> WGWinHttp" where
  "alloc_http ty wh =
     (case first_idx (\<lambda>s. \<not> hs_in_use s) (wh_slots wh) of None \<Rightarrow> (0, wh)
      | Some i \<Rightarrow> (HTTP_BASE + of_nat i,
          wh\<lparr> wh_slots := (wh_slots wh)[i := http_zero\<lparr> hs_in_use := True, hs_type := ty \<rparr>] \<rparr>))"

definition http_idx :: "u32 \<Rightarrow> nat" where "http_idx h = unat (h - HTTP_BASE)"

definition get_slot :: "u32 \<Rightarrow> WGWinHttp \<Rightarrow> WGHttpSlot option" where
  "get_slot h wh =
     (if h < HTTP_BASE \<or> HTTP_BASE + of_nat WG_MAX_HTTP \<le> h then None
      else let s = wh_slots wh ! http_idx h in if hs_in_use s then Some s else None)"

definition put_slot :: "u32 \<Rightarrow> WGHttpSlot \<Rightarrow> WGWinHttp \<Rightarrow> WGWinHttp" where
  "put_slot h s wh = wh\<lparr> wh_slots := (wh_slots wh)[http_idx h := s] \<rparr>"

definition free_http :: "u32 \<Rightarrow> WGWinHttp \<Rightarrow> WGWinHttp" where
  "free_http h wh =
     (case get_slot h wh of None \<Rightarrow> wh
      | Some s \<Rightarrow> put_slot h (s\<lparr> hs_conn := None, hs_buf := None, hs_in_use := False, hs_type := HT_NONE \<rparr>) wh)"

subsection \<open>Wide strings in guest memory\<close>

type_synonym guest_read = "u64 \<Rightarrow> nat \<Rightarrow> u8 list"
type_synonym guest_writes = "(u64 \<times> u8 list) list"

fun le_units :: "u8 list \<Rightarrow> u16 list" where
  "le_units (a # b # bs) = of_le [a, b] # le_units bs"
| "le_units bs = []"

text \<open>At most \<open>n\<close> characters; running out of the units that were copied means using an unset one.\<close>

fun wstr_scan :: "nat \<Rightarrow> u16 list \<Rightarrow> string option" where
  "wstr_scan 0 us = Some []"
| "wstr_scan (Suc n) [] = None"
| "wstr_scan (Suc n) (u # us) =
     (if u = 0 then Some []
      else map_option ((#) (if u < 128 then char_of (unat u) else CHR ''?'')) (wstr_scan n us))"

definition read_wstr :: "guest_read \<Rightarrow> u32 \<Rightarrow> nat \<Rightarrow> string option" where
  "read_wstr rd ptr max' =
     (if ptr = 0 then Some [] else
      let rlen = (if max' < 2048 then max' else 2048)
      in wstr_scan (rlen - 1) (le_units (rd (ucast ptr) (rlen * 2))))"

definition wide :: "string \<Rightarrow> u8 list" where
  "wide s = concat (map (\<lambda>c. to_le 2 (ucast (ord8 c) :: u16)) s)"

text \<open>A negative length indexes below \<open>wbuf\<close>.\<close>

definition write_wstr_to :: "u32 \<Rightarrow> string \<Rightarrow> int \<Rightarrow> guest_writes option" where
  "write_wstr_to ptr str max_chars =
     (if ptr = 0 then Some [] else
      let len = (if max_chars \<le> int (length str) then max_chars - 1 else int (length str));
          wlen = (if len < 2047 then len else 2047)
      in if wlen < 0 then None
         else Some [(ucast ptr, wide (take (nat wlen) str) @ [0, 0])])"

definition put32 :: "u32 \<Rightarrow> u32 \<Rightarrow> guest_writes" where
  "put32 ptr v = (if ptr = 0 then [] else [(ucast ptr, to_le 4 v)])"

definition get32 :: "guest_read \<Rightarrow> u32 \<Rightarrow> u32" where
  "get32 rd ptr = (if ptr = 0 then 0 else of_le (rd (ucast ptr) 4))"

subsection \<open>Requests and responses on the wire\<close>

definition http_connect_to :: "string \<Rightarrow> u16 \<Rightarrow> bool \<Rightarrow> WGHttpSlot \<Rightarrow> net \<Rightarrow> bool \<times> WGHttpSlot \<times> net" where
  "http_connect_to host port ssl req n =
     (let d = (case net_dials n of [] \<Rightarrow> Unreachable | d # _ \<Rightarrow> d);
          n = n\<lparr> net_dials := tl (net_dials n), net_log := net_log n @ [(host, port, ssl)] \<rparr>
      in case d of
           Unreachable \<Rightarrow> (False, req, n)
         | Handshake_failed \<Rightarrow> (False, if ssl then req\<lparr> hs_conn := None \<rparr> else req, n)
         | Connected chunks stays ws \<Rightarrow>
             (True, req\<lparr> hs_conn := Some \<lparr> c_in = chunks, c_open = stays, c_wr = ws, c_out = [], c_peer = (host, port, ssl) \<rparr>,
                hs_use_ssl := (ssl \<or> hs_use_ssl req) \<rparr>, n))"

text \<open>The text the calls of \<open>snprintf\<close> build in \<open>hdr[16384]\<close>, and the body's length where there is one.\<close>

definition request_head :: "WGHttpSlot \<Rightarrow> string \<Rightarrow> nat \<Rightarrow> string" where
  "request_head req host body_len =
     hs_verb req @ '' '' @ (if hs_path req = [] then ''/'' else hs_path req) @ '' HTTP/1.1'' @ crlf
     @ ''Host: '' @ host @ crlf @ ''Connection: keep-alive'' @ crlf @ ''Accept: */*'' @ crlf
     @ hs_extra req
     @ (if 0 < body_len then ''Content-Length: '' @ nat_str body_len @ crlf else [])
     @ crlf"

text \<open>A head that does not fit \<open>hdr\<close> would make \<open>slot_write_all\<close> send bytes beyond the text.\<close>

definition http_send_req :: "WGHttpSlot \<Rightarrow> string \<Rightarrow> u8 list \<Rightarrow> (bool \<times> WGHttpSlot) option" where
  "http_send_req req host body =
     (let hdr = request_head req host (length body)
      in if 16384 \<le> length hdr then None else
         case hs_conn req of None \<Rightarrow> Some (False, req)
         | Some c \<Rightarrow>
             let (ok, c) = slot_write_all (map ord8 hdr) c;
                 (ok, c) = (if ok \<and> body \<noteq> [] then slot_write_all body c else (ok, c))
             in Some (ok, req\<lparr> hs_conn := Some c \<rparr>))"

text \<open>The loop of \<open>http_receive_headers\<close>: the bytes received and the offset behind the blank line.\<close>

lemma slot_read_some:
  "slot_read n c = Some (Some d, c') \<Longrightarrow> d \<noteq> [] \<and> length d \<le> n \<and> d @ concat (c_in c') = concat (c_in c) \<and> c' = c\<lparr> c_in := c_in c' \<rparr>"
  by (cases "c_in c") (auto simp: slot_read_def split: if_splits)

function recv_head :: "conn \<Rightarrow> u8 list \<Rightarrow> ((u8 list \<times> nat) option \<times> conn) option" where
  "recv_head c raw =
     (if 32767 \<le> length raw then Some (None, c) else
      case slot_read (32767 - length raw) c of
        None \<Rightarrow> None
      | Some (None, c') \<Rightarrow> Some (None, c')
      | Some (Some d, c') \<Rightarrow>
          (case strpos (cstr (raw @ d)) (crlf @ crlf) of
             Some k \<Rightarrow> Some (Some (raw @ d, k + 4), c')
           | None \<Rightarrow> recv_head c' (raw @ d)))"
  by pat_completeness auto

termination
proof (relation "measure (\<lambda>(c, raw). 32767 - length raw)", goal_cases)
  case 2
  then show ?case by (auto dest!: slot_read_some slot_read_some [OF sym] intro!: diff_less_mono2)
qed simp

declare recv_head.simps [simp del]

text \<open>What a complete head leaves in the slot: \<open>buf_pos\<close> and \<open>total_body_read\<close> keep their values, and
  so does the content length when the response has no such header (\<open>cl\<close> is \<^term>\<open>None\<close>).\<close>

definition store_response ::
    "(nat \<Rightarrow> bool) \<Rightarrow> u8 list \<Rightarrow> nat \<Rightarrow> int \<Rightarrow> string \<Rightarrow> int option \<Rightarrow> WGHttpSlot \<Rightarrow> WGHttpSlot" where
  "store_response mal raw hdr_len code stext cl req =
     (let extra = drop hdr_len raw;
          req = req\<lparr> hs_status_code := code, hs_status_text := stext,
            hs_resp_headers := take 16383 (take hdr_len (cstr raw)) \<rparr>;
          req = (case cl of None \<Rightarrow> req
                 | Some v \<Rightarrow> req\<lparr> hs_content_length := word_of_int v, hs_has_content_length := True \<rparr>);
          req = (if extra = [] then req
                 else if mal (length extra)
                 then req\<lparr> hs_buf := Some (length extra, extra), hs_buf_len := length extra \<rparr>
                 else req\<lparr> hs_buf := None \<rparr>)
      in req\<lparr> hs_headers_received := True \<rparr>)"

text \<open>The search for the content length runs over everything received, body bytes included.\<close>

definition scan_content_length :: "string \<Rightarrow> int option option" where
  "scan_content_length raw =
     (case strcasepos raw (crlf @ ''Content-Length:'') of
        None \<Rightarrow> Some None
      | Some k \<Rightarrow> map_option Some (atoll (drop (k + 17) raw)))"

definition http_receive_headers :: "(nat \<Rightarrow> bool) \<Rightarrow> WGHttpSlot \<Rightarrow> (bool \<times> WGHttpSlot) option" where
  "http_receive_headers mal req =
     (case hs_conn req of None \<Rightarrow> Some (False, req)
      | Some c \<Rightarrow>
          (case recv_head c [] of
             None \<Rightarrow> None
           | Some (None, c') \<Rightarrow> Some (False, req\<lparr> hs_conn := Some c' \<rparr>)
           | Some (Some (raw, hdr_len), c') \<Rightarrow>
               do { st \<leftarrow> scan_status (cstr raw);
                    (case st of
                       Inl _ \<Rightarrow> Some (False, req\<lparr> hs_conn := Some c' \<rparr>)
                     | Inr (code, stext) \<Rightarrow>
                         do { cl \<leftarrow> scan_content_length (cstr raw);
                              Some (True, store_response mal raw hdr_len code stext cl (req\<lparr> hs_conn := Some c' \<rparr>)) }) }))"

subsection \<open>The calls\<close>

type_synonym http_args = "nat \<Rightarrow> u32"

text \<open>A call's result: its return value, its writes into guest memory and the new state.\<close>

type_synonym http_result = "u64 \<times> guest_writes \<times> WGWinHttp"

definition ERROR_INSUFFICIENT_BUFFER :: u32 where "ERROR_INSUFFICIENT_BUFFER = 122"
definition ERROR_WINHTTP_HEADER_NOT_FOUND :: u32 where "ERROR_WINHTTP_HEADER_NOT_FOUND = 12150"
definition ERROR_WINHTTP_CANNOT_CONNECT :: u32 where "ERROR_WINHTTP_CANNOT_CONNECT = 12029"

definition http_error :: "u32 \<Rightarrow> WGWinHttp \<Rightarrow> http_result option" where
  "http_error e wh = Some (0, [], wh\<lparr> wh_last_error := e \<rparr>)"

definition typed_slot :: "http_type \<Rightarrow> u32 \<Rightarrow> WGWinHttp \<Rightarrow> WGHttpSlot option" where
  "typed_slot ty h wh = (case get_slot h wh of None \<Rightarrow> None | Some s \<Rightarrow> if hs_type s = ty then Some s else None)"

definition WinHttpOpen :: "guest_read \<Rightarrow> http_args \<Rightarrow> WGWinHttp \<Rightarrow> http_result option" where
  "WinHttpOpen rd args wh =
     (let (h, wh) = alloc_http HT_SESSION wh
      in if h = 0 then Some (0, [], wh) else
         do { s \<leftarrow> get_slot h wh;
              agent \<leftarrow> read_wstr rd (args 0) 256;
              Some (ucast h, [], put_slot h (s\<lparr> hs_agent := agent \<rparr>) wh) })"

definition WinHttpConnect :: "guest_read \<Rightarrow> http_args \<Rightarrow> WGWinHttp \<Rightarrow> http_result option" where
  "WinHttpConnect rd args wh =
     (if typed_slot HT_SESSION (args 0) wh = None then Some (0, [], wh) else
      let (h, wh) = alloc_http HT_CONNECT wh
      in if h = 0 then Some (0, [], wh) else
         do { s \<leftarrow> get_slot h wh;
              server \<leftarrow> read_wstr rd (args 1) 512;
              Some (ucast h, [], put_slot h (s\<lparr> hs_session_h := args 0, hs_server := server, hs_port := ucast (args 2) \<rparr>) wh) })"

definition WINHTTP_FLAG_SECURE :: u32 where "WINHTTP_FLAG_SECURE = 0x00800000"

definition WinHttpOpenRequest :: "guest_read \<Rightarrow> http_args \<Rightarrow> WGWinHttp \<Rightarrow> http_result option" where
  "WinHttpOpenRequest rd args wh =
     (if typed_slot HT_CONNECT (args 0) wh = None then Some (0, [], wh) else
      let (h, wh) = alloc_http HT_REQUEST wh
      in if h = 0 then Some (0, [], wh) else
         do { s \<leftarrow> get_slot h wh;
              verb \<leftarrow> (if args 1 \<noteq> 0 then read_wstr rd (args 1) 16 else Some ''GET'');
              path \<leftarrow> (if args 2 \<noteq> 0 then read_wstr rd (args 2) 4096 else Some ''/'');
              Some (ucast h, [], put_slot h (s\<lparr> hs_connect_h := args 0, hs_verb := verb, hs_path := path,
                hs_use_ssl := (args 6 AND WINHTTP_FLAG_SECURE \<noteq> 0) \<rparr>) wh) })"

text \<open>The block that \<open>WinHttpAddRequestHeaders\<close> and \<open>WinHttpSendRequest\<close> share: the headers are
  appended if they leave room, with a line end where they have none.\<close>

definition append_headers :: "string \<Rightarrow> WGHttpSlot \<Rightarrow> WGHttpSlot" where
  "append_headers hdrs s =
     (if length (hs_extra s) + length hdrs < 8192 - 2
      then s\<lparr> hs_extra := hs_extra s @ hdrs @ (if hdrs \<noteq> [] \<and> last hdrs \<noteq> LF then crlf else []) \<rparr>
      else s)"

definition WinHttpAddRequestHeaders :: "guest_read \<Rightarrow> http_args \<Rightarrow> WGWinHttp \<Rightarrow> http_result option" where
  "WinHttpAddRequestHeaders rd args wh =
     (case typed_slot HT_REQUEST (args 0) wh of None \<Rightarrow> Some (0, [], wh)
      | Some s \<Rightarrow>
          do { hdrs \<leftarrow> read_wstr rd (args 1) 4096;
               Some (1, [], put_slot (args 0) (append_headers hdrs s) wh) })"

text \<open>The second half of \<open>WinHttpSendRequest\<close>: connect to the server, read the body from guest memory, send.\<close>

definition http_transmit ::
    "(nat \<Rightarrow> bool) \<Rightarrow> guest_read \<Rightarrow> http_args \<Rightarrow> WGHttpSlot \<Rightarrow> WGHttpSlot \<Rightarrow> WGWinHttp \<Rightarrow> http_result option" where
  "http_transmit mal rd args con req wh =
     (let port = (if hs_port con \<noteq> 0 then hs_port con else if hs_use_ssl req then 443 else 80);
          (ok, req, n) = http_connect_to (hs_server con) port (hs_use_ssl req) req (wh_net wh);
          wh = (put_slot (args 0) req wh)\<lparr> wh_net := n \<rparr>
      in if \<not> ok then http_error ERROR_WINHTTP_CANNOT_CONNECT wh else
         do { body \<leftarrow> (if args 3 \<noteq> 0 \<and> 0 < args 4 \<and> mal (unat (args 4))
                then let b = rd (ucast (args 3)) (unat (args 4))
                     in if length b = unat (args 4) then Some b else None
                else Some []);
              (ok, req) \<leftarrow> http_send_req req (hs_server con) body;
              let wh = put_slot (args 0) req wh
              in if ok then Some (1, [], wh) else http_error ERROR_WINHTTP_CANNOT_CONNECT wh })"

definition WinHttpSendRequest :: "(nat \<Rightarrow> bool) \<Rightarrow> guest_read \<Rightarrow> http_args \<Rightarrow> WGWinHttp \<Rightarrow> http_result option" where
  "WinHttpSendRequest mal rd args wh =
     (case typed_slot HT_REQUEST (args 0) wh of None \<Rightarrow> http_error ERROR_WINHTTP_CANNOT_CONNECT wh
      | Some req \<Rightarrow>
      case get_slot (hs_connect_h req) wh of None \<Rightarrow> http_error ERROR_WINHTTP_CANNOT_CONNECT wh
      | Some con \<Rightarrow>
          do { req \<leftarrow> (if args 1 \<noteq> 0 \<and> args 2 \<noteq> 0 \<and> args 2 \<noteq> 0xFFFFFFFF
                 then map_option (\<lambda>hdrs. append_headers hdrs req) (read_wstr rd (args 1) 4096)
                 else Some req);
               http_transmit mal rd args con req wh })"

subsection \<open>Redirects\<close>

definition is_redirect :: "int \<Rightarrow> bool" where
  "is_redirect code \<longleftrightarrow> code = 301 \<or> code = 302 \<or> code = 303 \<or> code = 307 \<or> code = 308"

text \<open>Host, port, TLS and path of a redirect; a relative one goes to the connection the request was
  opened on, any other form leaves the host empty.\<close>

definition redirect_target ::
    "WGWinHttp \<Rightarrow> WGHttpSlot \<Rightarrow> string \<Rightarrow> (string \<times> u16 \<times> bool \<times> string option) option" where
  "redirect_target wh req url =
     (if starts_with_nocase url ''https://''
      then map_option (\<lambda>(host, port, path). (host, port, True, path)) (split_authority 443 (drop 8 url))
      else if starts_with_nocase url ''http://''
      then map_option (\<lambda>(host, port, path). (host, port, False, path)) (split_authority 80 (drop 7 url))
      else if url \<noteq> [] \<and> hd url = CHR ''/''
      then Some (case get_slot (hs_connect_h req) wh of
             None \<Rightarrow> ([], 0, False, Some url)
           | Some con \<Rightarrow> (cut 512 (hs_server con),
               if hs_port con \<noteq> 0 then hs_port con else if hs_use_ssl req then 443 else 80, hs_use_ssl req, Some url))
      else Some ([], 0, False, None))"

definition redirect_reset :: "string option \<Rightarrow> bool \<Rightarrow> WGHttpSlot \<Rightarrow> WGHttpSlot" where
  "redirect_reset path ssl req =
     req\<lparr> hs_conn := None, hs_buf := None, hs_buf_len := 0, hs_buf_pos := 0, hs_headers_received := False,
       hs_path := (case path of None \<Rightarrow> ''/'' | Some p \<Rightarrow> if p = [] then ''/'' else cut 4096 p),
       hs_use_ssl := ssl, hs_status_code := 0, hs_resp_headers := [], hs_content_length := 0,
       hs_has_content_length := False, hs_total_body_read := 0 \<rparr>"

text \<open>The loop, with the number of redirects still followed; each \<open>break\<close> ends it.\<close>

fun redirect_loop ::
    "(nat \<Rightarrow> bool) \<Rightarrow> WGWinHttp \<Rightarrow> nat \<Rightarrow> WGHttpSlot \<Rightarrow> net \<Rightarrow> (WGHttpSlot \<times> net) option" where
  "redirect_loop mal wh 0 req n = Some (req, n)"
| "redirect_loop mal wh (Suc k) req n =
     (if \<not> is_redirect (hs_status_code req) then Some (req, n) else
      case find_header_value (hs_resp_headers req) ''Location:'' of None \<Rightarrow> Some (req, n)
      | Some loc \<Rightarrow>
          do { (host, port, ssl, path) \<leftarrow> redirect_target wh req (header_line loc);
               let req = redirect_reset path ssl req
               in if host = [] then Some (req, n) else
                  let (ok, req, n) = http_connect_to host port ssl req n
                  in if \<not> ok then Some (req, n) else
                  do { (ok, req) \<leftarrow> http_send_req req host [];
                       if \<not> ok then Some (req, n) else
                       do { (ok, req) \<leftarrow> http_receive_headers mal req;
                            if \<not> ok then Some (req, n) else redirect_loop mal wh k req n } } })"

definition WinHttpReceiveResponse :: "(nat \<Rightarrow> bool) \<Rightarrow> http_args \<Rightarrow> WGWinHttp \<Rightarrow> http_result option" where
  "WinHttpReceiveResponse mal args wh =
     (case typed_slot HT_REQUEST (args 0) wh of None \<Rightarrow> Some (0, [], wh)
      | Some req \<Rightarrow>
          if hs_conn req = None then Some (0, [], wh) else
          do { (ok, req) \<leftarrow> http_receive_headers mal req;
               if \<not> ok then Some (0, [], put_slot (args 0) req wh) else
               do { (req, n) \<leftarrow> redirect_loop mal wh 5 req (wh_net wh);
                    Some (if hs_headers_received req then 1 else 0, [], (put_slot (args 0) req wh)\<lparr> wh_net := n \<rparr>) } })"

subsection \<open>Queries\<close>

text \<open>The buffer protocol of every query: too small a buffer is answered with the size that is
  needed.  \<open>query_number\<close> and \<open>query_text\<close> are the two forms \<open>WinHttpQueryHeaders\<close> repeats.\<close>

definition query_number :: "guest_read \<Rightarrow> u32 \<Rightarrow> u32 \<Rightarrow> u32 \<Rightarrow> WGWinHttp \<Rightarrow> http_result option" where
  "query_number rd buf_ptr buflen_ptr v wh =
     (if get32 rd buflen_ptr < 4
      then Some (0, put32 buflen_ptr 4, wh\<lparr> wh_last_error := ERROR_INSUFFICIENT_BUFFER \<rparr>)
      else Some (1, put32 buf_ptr v @ put32 buflen_ptr 4, wh))"

definition query_text :: "guest_read \<Rightarrow> u32 \<Rightarrow> u32 \<Rightarrow> string \<Rightarrow> WGWinHttp \<Rightarrow> http_result option" where
  "query_text rd buf_ptr buflen_ptr text wh =
     (let avail = get32 rd buflen_ptr; need = of_nat ((length text + 1) * 2)
      in if avail < need
         then Some (0, put32 buflen_ptr need, wh\<lparr> wh_last_error := ERROR_INSUFFICIENT_BUFFER \<rparr>)
         else map_option (\<lambda>w. (1, w @ put32 buflen_ptr need, wh))
                (write_wstr_to buf_ptr text (uint (avail div 2))))"

definition WINHTTP_QUERY_FLAG_NUMBER :: u32 where "WINHTTP_QUERY_FLAG_NUMBER = 0x20000000"

definition WinHttpQueryHeaders :: "guest_read \<Rightarrow> http_args \<Rightarrow> WGWinHttp \<Rightarrow> http_result option" where
  "WinHttpQueryHeaders rd args wh =
     (case typed_slot HT_REQUEST (args 0) wh of None \<Rightarrow> http_error ERROR_WINHTTP_HEADER_NOT_FOUND wh
      | Some req \<Rightarrow>
          if \<not> hs_headers_received req then http_error ERROR_WINHTTP_HEADER_NOT_FOUND wh else
          let query = args 1 AND 0xFFFF; as_number = (args 1 AND WINHTTP_QUERY_FLAG_NUMBER \<noteq> 0)
          in if query = 19
             then (if as_number then query_number rd (args 3) (args 4) (word_of_int (hs_status_code req)) wh
                   else query_text rd (args 3) (args 4) (int_str (hs_status_code req)) wh)
             else if query = 5
             then (if \<not> hs_has_content_length req then http_error ERROR_WINHTTP_HEADER_NOT_FOUND wh
                   else if as_number then query_number rd (args 3) (args 4) (ucast (hs_content_length req)) wh
                   else query_text rd (args 3) (args 4) (nat_str (unat (hs_content_length req))) wh)
             else if query = 22 then query_text rd (args 3) (args 4) (hs_resp_headers req) wh
             else if query = 20 then query_text rd (args 3) (args 4) (hs_status_text req) wh
             else if query = 65535 \<and> args 2 \<noteq> 0
             then do { name \<leftarrow> read_wstr rd (args 2) 256;
                       (case find_header_value (hs_resp_headers req) (name @ '':'') of
                          None \<Rightarrow> http_error ERROR_WINHTTP_HEADER_NOT_FOUND wh
                        | Some v \<Rightarrow> query_text rd (args 3) (args 4) (header_line v) wh) }
             else http_error ERROR_WINHTTP_HEADER_NOT_FOUND wh)"

subsection \<open>The body\<close>

text \<open>\<open>buf_len - buf_pos\<close> as a \<open>size_t\<close>.\<close>

definition buffered :: "WGHttpSlot \<Rightarrow> nat" where
  "buffered s = unat (of_nat (hs_buf_len s) - of_nat (hs_buf_pos s) :: u64)"

text \<open>The refill of \<open>WinHttpQueryDataAvailable\<close> reads up to 65536 bytes whatever the block's size; where
  there is no block one of 65536 bytes is allocated, and reading into a null pointer is undefined.\<close>

definition refill :: "(nat \<Rightarrow> bool) \<Rightarrow> WGHttpSlot \<Rightarrow> conn \<Rightarrow> WGHttpSlot option" where
  "refill mal req c =
     (let req = (case hs_buf req of
             None \<Rightarrow> req\<lparr> hs_buf := (if mal 65536 then Some (65536, []) else None), hs_buf_len := 0, hs_buf_pos := 0 \<rparr>
           | Some (sz, bs) \<Rightarrow> (if 0 < hs_buf_pos req then req\<lparr> hs_buf := Some (sz, []), hs_buf_len := 0, hs_buf_pos := 0 \<rparr> else req))
      in case hs_buf req of None \<Rightarrow> None
         | Some (sz, bs) \<Rightarrow>
             (case slot_read (65536 - hs_buf_len req) c of
                None \<Rightarrow> None
              | Some (None, c') \<Rightarrow> Some (req\<lparr> hs_conn := Some c' \<rparr>)
              | Some (Some d, c') \<Rightarrow>
                  if sz < hs_buf_len req + length d then None
                  else Some (req\<lparr> hs_conn := Some c', hs_buf := Some (sz, take (hs_buf_len req) bs @ d),
                    hs_buf_len := hs_buf_len req + length d \<rparr>)))"

definition WinHttpQueryDataAvailable :: "(nat \<Rightarrow> bool) \<Rightarrow> http_args \<Rightarrow> WGWinHttp \<Rightarrow> http_result option" where
  "WinHttpQueryDataAvailable mal args wh =
     (case typed_slot HT_REQUEST (args 0) wh of None \<Rightarrow> Some (1, put32 (args 1) 0, wh)
      | Some req \<Rightarrow>
      case hs_conn req of None \<Rightarrow> Some (1, put32 (args 1) 0, wh)
      | Some c \<Rightarrow>
          do { req \<leftarrow> (if buffered req = 0
                 \<and> \<not> (hs_has_content_length req \<and> unat (hs_content_length req) \<le> hs_total_body_read req)
                 then refill mal req c else Some req);
               Some (1, put32 (args 1) (of_nat (buffered req)), put_slot (args 0) req wh) })"

definition WinHttpReadData :: "(nat \<Rightarrow> bool) \<Rightarrow> http_args \<Rightarrow> WGWinHttp \<Rightarrow> http_result option" where
  "WinHttpReadData mal args wh =
     (case typed_slot HT_REQUEST (args 0) wh of None \<Rightarrow> Some (0, put32 (args 3) 0, wh)
      | Some req \<Rightarrow>
          let give = min (buffered req) (unat (args 2));
              served = (case hs_buf req of None \<Rightarrow> [] | Some (_, bs) \<Rightarrow> take give (drop (hs_buf_pos req) bs));
              to_read = unat (args 2) - give;
              w1 = (if 0 < buffered req then [(ucast (args 1), served)] else []);
              req = req\<lparr> hs_buf_pos := hs_buf_pos req + give \<rparr>
          in if length served < give then None else
          do { (got, req) \<leftarrow> (case hs_conn req of None \<Rightarrow> Some (None, req)
                 | Some c \<Rightarrow> if 0 < to_read \<and> mal (min to_read 65536)
                     then map_option (\<lambda>(r, c'). (r, req\<lparr> hs_conn := Some c' \<rparr>)) (slot_read (min to_read 65536) c)
                     else Some (None, req));
               let w2 = (case got of None \<Rightarrow> [] | Some d \<Rightarrow> [(ucast (args 1 + of_nat give), d)]);
                   total = give + (case got of None \<Rightarrow> 0 | Some d \<Rightarrow> length d)
               in Some (1, w1 @ w2 @ put32 (args 3) (of_nat total),
                    put_slot (args 0) (req\<lparr> hs_total_body_read := hs_total_body_read req + total \<rparr>) wh) })"

definition WinHttpWriteData :: "(nat \<Rightarrow> bool) \<Rightarrow> guest_read \<Rightarrow> http_args \<Rightarrow> WGWinHttp \<Rightarrow> http_result option" where
  "WinHttpWriteData mal rd args wh =
     (case typed_slot HT_REQUEST (args 0) wh of None \<Rightarrow> Some (0, [], wh)
      | Some req \<Rightarrow>
      case hs_conn req of None \<Rightarrow> Some (0, [], wh)
      | Some c \<Rightarrow>
          if 0 < args 2 \<and> args 1 \<noteq> 0 \<and> mal (unat (args 2))
          then (let data = rd (ucast (args 1)) (unat (args 2))
                in if length data \<noteq> unat (args 2) then None else
                   let (ok, c') = slot_write_all data c; wh = put_slot (args 0) (req\<lparr> hs_conn := Some c' \<rparr>) wh
                   in Some (if ok then (1, put32 (args 3) (args 2), wh) else (0, [], wh)))
          else Some (1, put32 (args 3) (args 2), wh))"

definition WinHttpCloseHandle :: "http_args \<Rightarrow> WGWinHttp \<Rightarrow> http_result option" where
  "WinHttpCloseHandle args wh = Some (1, [], free_http (args 0) wh)"

subsection \<open>URLs and proxies\<close>

text \<open>One component: its text where there is a buffer for it, then its length at \<open>off\<close>.\<close>

definition put_component :: "u32 \<Rightarrow> u32 \<Rightarrow> u32 \<Rightarrow> string \<Rightarrow> u32 \<Rightarrow> guest_writes option" where
  "put_component comp_ptr ptr len text off =
     (if len = 0 then Some [] else
      map_option (\<lambda>w. w @ [(ucast (comp_ptr + off), to_le 4 (of_nat (length text) :: u32))])
        (if ptr \<noteq> 0 then write_wstr_to ptr text (sint len) else Some []))"

definition comp_field :: "u8 list \<Rightarrow> nat \<Rightarrow> u32" where
  "comp_field cb off = of_le (take 4 (drop off cb))"

definition WinHttpCrackUrl :: "guest_read \<Rightarrow> http_args \<Rightarrow> WGWinHttp \<Rightarrow> http_result option" where
  "WinHttpCrackUrl rd args wh =
     (let url_len = (if args 1 = 0 \<or> 4000 < args 1 then 4000 else unat (args 1))
      in do { url \<leftarrow> read_wstr rd (args 0) (url_len + 1);
              if args 3 = 0 then Some (0, [], wh) else
              do { u \<leftarrow> crack_url url;
                   let comp_ptr = args 3; cb = take 60 (rd (ucast comp_ptr) 60 @ replicate 60 0)
                   in do { w1 \<leftarrow> put_component comp_ptr (comp_field cb 4) (comp_field cb 8) (up_scheme u) 8;
                           w2 \<leftarrow> put_component comp_ptr (comp_field cb 16) (comp_field cb 20) (up_host u) 20;
                           w3 \<leftarrow> put_component comp_ptr (comp_field cb 44) (comp_field cb 48) (up_path u) 48;
                           w4 \<leftarrow> put_component comp_ptr (comp_field cb 52) (comp_field cb 56) (up_extra u) 56;
                           Some (1, [(ucast (comp_ptr + 12), to_le 4 (up_nscheme u)),
                                     (ucast (comp_ptr + 24), to_le 2 (up_port u))] @ w1 @ w2 @ w3 @ w4, wh) } } })"

definition wg_winhttp_handle ::
    "(nat \<Rightarrow> bool) \<Rightarrow> guest_read \<Rightarrow> string \<Rightarrow> http_args \<Rightarrow> WGWinHttp \<Rightarrow> (bool \<times> http_result) option" where
  "wg_winhttp_handle mal rd fn args wh =
     (let done' = map_option (Pair True) in
      if fn = ''WinHttpOpen'' then done' (WinHttpOpen rd args wh)
      else if fn = ''WinHttpConnect'' then done' (WinHttpConnect rd args wh)
      else if fn = ''WinHttpOpenRequest'' then done' (WinHttpOpenRequest rd args wh)
      else if fn = ''WinHttpSetOption'' \<or> fn = ''WinHttpSetTimeouts'' then Some (True, 1, [], wh)
      else if fn = ''WinHttpAddRequestHeaders'' then done' (WinHttpAddRequestHeaders rd args wh)
      else if fn = ''WinHttpSendRequest'' then done' (WinHttpSendRequest mal rd args wh)
      else if fn = ''WinHttpReceiveResponse'' then done' (WinHttpReceiveResponse mal args wh)
      else if fn = ''WinHttpQueryHeaders'' then done' (WinHttpQueryHeaders rd args wh)
      else if fn = ''WinHttpQueryDataAvailable'' then done' (WinHttpQueryDataAvailable mal args wh)
      else if fn = ''WinHttpReadData'' then done' (WinHttpReadData mal args wh)
      else if fn = ''WinHttpWriteData'' then done' (WinHttpWriteData mal rd args wh)
      else if fn = ''WinHttpCloseHandle'' then done' (WinHttpCloseHandle args wh)
      else if fn = ''WinHttpSetStatusCallback'' \<or> fn = ''WinHttpGetProxyForUrl'' then Some (True, 0, [], wh)
      else if fn = ''WinHttpCrackUrl'' then done' (WinHttpCrackUrl rd args wh)
      else if fn = ''WinHttpGetDefaultProxyConfiguration''
      then Some (True, 1, if args 0 = 0 then [] else [(ucast (args 0), to_le 4 (1 :: u32) @ replicate 8 0)], wh)
      else if fn = ''WinHttpGetIEProxyConfigForCurrentUser''
      then Some (True, 1, if args 0 = 0 then [] else [(ucast (args 0), replicate 16 0)], wh)
      else Some (False, 0, [], wh))"

end
