(* ===== verification/Http_Url.thy ===== *)
theory Http_Url
  imports WinHttp
begin

section \<open>URLs and wide strings: round trips\<close>

text \<open>
  A URL that is put together from its parts is cut into the same parts by \<open>WinHttpCrackUrl\<close>, a
  number that is printed is scanned back, and a wide string that is written to guest memory is
  read back.
\<close>

subsection \<open>Searching and scanning\<close>

lemma strchr_None [simp]: "strchr c s = None \<longleftrightarrow> c \<notin> set s"
  by (induction s) auto

lemma strchr_absent [simp]: "c \<notin> set s \<Longrightarrow> strchr c s = None"
  by simp

lemma strchr_append:
  "strchr c (s @ t) = (if c \<in> set s then strchr c s else map_option ((+) (length s)) (strchr c t))"
proof (induction s)
  case Nil
  show ?case by (cases "strchr c t") auto
qed (auto simp: option.map_comp o_def)

lemma strchr_less: "strchr c s = Some k \<Longrightarrow> k < length s"
  by (induction s arbitrary: k) (auto split: if_splits)

lemma is_digit_of_nat: "n < 10 \<Longrightarrow> is_digit (char_of (48 + n :: nat))"
  by (simp add: is_digit_def)

lemma nat_str_digits: "c \<in> set (nat_str n) \<Longrightarrow> is_digit c"
  by (induction n rule: nat_str.induct) (subst (asm) (2) nat_str.simps, auto split: if_splits simp: is_digit_of_nat)

lemma nat_str_nonempty [simp]: "nat_str n \<noteq> []"
  by (subst nat_str.simps) simp

lemma digits_val_snoc: "digits_val (ds @ [c]) = 10 * digits_val ds + (of_char c - 48)"
  by (simp add: digits_val_def)

lemma digits_val_nat_str: "digits_val (nat_str n) = n"
proof (induction n rule: nat_str.induct)
  case (1 n)
  show ?case
  proof (cases "n < 10")
    case True
    then show ?thesis by (simp add: nat_str.simps digits_val_def)
  next
    case False
    then have "digits_val (nat_str n) = 10 * (n div 10) + n mod 10"
      using 1 by (subst nat_str.simps) (simp add: digits_val_snoc)
    then show ?thesis by simp
  qed
qed

lemma digit_not_space: "is_digit c \<Longrightarrow> \<not> is_space c \<and> c \<noteq> CHR ''-'' \<and> c \<noteq> CHR ''+'' \<and> c \<noteq> CHR ''/'' \<and> c \<noteq> CHR '':'' \<and> c \<noteq> CHR ''?''"
  by (auto simp: is_digit_def is_space_def)

lemma scan_int_nat_str:
  assumes "s = [] \<or> \<not> is_digit (hd s)"
  shows "scan_int (nat_str n @ s) = Some (int n, s)"
proof -
  obtain d ds where d: "nat_str n = d # ds" by (cases "nat_str n") auto
  have dd: "is_digit d" using nat_str_digits [of d n] d by simp
  have t: "takeWhile is_digit (nat_str n @ s) = nat_str n" "dropWhile is_digit (nat_str n @ s) = s"
    using assms nat_str_digits by (cases s; auto simp: takeWhile_append dropWhile_append)+
  have "dropWhile is_space (nat_str n @ s) = nat_str n @ s" using digit_not_space [OF dd] d by simp
  moreover have "hd (nat_str n @ s) \<noteq> CHR ''-''" "hd (nat_str n @ s) \<noteq> CHR ''+''"
    using digit_not_space [OF dd] d by simp_all
  ultimately show ?thesis by (simp add: scan_int_def Let_def t digits_val_nat_str)
qed

subsection \<open>URLs\<close>

record url =
  u_https :: bool
  u_host :: string
  u_port :: "nat option"
  u_path :: string
  u_query :: string

definition show_url :: "url \<Rightarrow> string" where
  "show_url u = (if u_https u then ''https://'' else ''http://'') @ u_host u
     @ (case u_port u of None \<Rightarrow> [] | Some n \<Rightarrow> CHR '':'' # nat_str n) @ u_path u @ u_query u"

definition wf_url :: "url \<Rightarrow> bool" where
  "wf_url u \<longleftrightarrow> u_host u \<noteq> [] \<and> length (u_host u) < 512 \<and> CHR ''/'' \<notin> set (u_host u) \<and> CHR '':'' \<notin> set (u_host u)
     \<and> (\<forall>n. u_port u = Some n \<longrightarrow> n < 65536)
     \<and> (\<exists>p. u_path u = CHR ''/'' # p) \<and> CHR ''?'' \<notin> set (u_path u) \<and> length (u_path u) < 4096
     \<and> (u_query u = [] \<or> (\<exists>q. u_query u = CHR ''?'' # q)) \<and> length (u_query u) < 2048"

definition url_parts_of :: "url \<Rightarrow> url_parts" where
  "url_parts_of u = \<lparr> up_scheme = (if u_https u then ''https'' else ''http''), up_nscheme = (if u_https u then 2 else 1),
     up_port = (case u_port u of None \<Rightarrow> if u_https u then 443 else 80 | Some n \<Rightarrow> of_nat n),
     up_host = u_host u, up_path = u_path u, up_extra = u_query u \<rparr>"

lemma split_scheme_show:
  "split_scheme (''https://'' @ s) = (''https'', 2, 443, s)"
  "split_scheme (''http://'' @ s) = (''http'', 1, 80, s)"
  by (simp_all add: split_scheme_def starts_with_nocase_def tolower_def)

lemma split_path_query_show:
  assumes "CHR ''?'' \<notin> set path" "length path < 4096" "query = [] \<or> (\<exists>q. query = CHR ''?'' # q)" "length query < 2048"
  shows "split_path_query (Some (path @ query)) = (path, query)"
  using assms by (auto simp: split_path_query_def strchr_append cut_def)

lemma split_authority_show:
  assumes h: "host \<noteq> []" "length host < 512" "CHR ''/'' \<notin> set host" "CHR '':'' \<notin> set host"
    and port: "\<And>n. port = Some n \<Longrightarrow> n < 65536" and t: "t = CHR ''/'' # p"
  shows "split_authority dflt (host @ (case port of None \<Rightarrow> [] | Some n \<Rightarrow> CHR '':'' # nat_str n) @ t)
    = Some (host, case port of None \<Rightarrow> dflt | Some n \<Rightarrow> of_nat n, Some t)"
proof (cases port)
  case None
  have "strchr (CHR ''/'') (host @ t) = Some (length host)" using h t by (simp add: strchr_append)
  moreover have "strchr (CHR '':'') (host @ t) = None \<or> (\<exists>c. strchr (CHR '':'') (host @ t) = Some c \<and> length host < c)"
    using h t by (cases "strchr (CHR '':'') p") (auto simp: strchr_append)
  ultimately show ?thesis using None h
    by (auto simp: split_authority_def Let_def copy_host_def split: option.split)
next
  case (Some n)
  let ?p = "host @ CHR '':'' # nat_str n @ t"
  have nd: "CHR ''/'' \<notin> set (nat_str n)" using nat_str_digits digit_not_space by blast
  have s: "strchr (CHR ''/'') ?p = Some (length host + Suc (length (nat_str n)))" "strchr (CHR '':'') ?p = Some (length host)"
    using h t nd by (simp_all add: strchr_append)
  have "\<not> is_digit (CHR ''/'')" by (simp add: is_digit_def)
  then have "scan_int (nat_str n @ t) = Some (int n, t)" using scan_int_nat_str t by simp
  then have a: "atoi (nat_str n @ t) = Some (int n)" using port [OF Some] by (simp add: atoi_def in_int_def)
  have d: "drop (Suc (length host)) ?p = nat_str n @ t" "drop (length host + Suc (length (nat_str n))) ?p = t" by simp_all
  show ?thesis using Some h by (simp add: split_authority_def Let_def s a d copy_host_def)
qed

lemma crack_show_url: "wf_url u \<Longrightarrow> crack_url (show_url u) = Some (url_parts_of u)"
proof -
  assume w: "wf_url u"
  then obtain p where p: "u_path u = CHR ''/'' # p" by (auto simp: wf_url_def)
  let ?rest = "u_host u @ (case u_port u of None \<Rightarrow> [] | Some n \<Rightarrow> CHR '':'' # nat_str n) @ u_path u @ u_query u"
  have "split_scheme (show_url u) = (if u_https u then (''https'', 2, 443, ?rest) else (''http'', 1, 80, ?rest))"
    unfolding show_url_def using split_scheme_show [of ?rest] by simp
  moreover have "split_authority d ?rest = Some (u_host u, case u_port u of None \<Rightarrow> d | Some n \<Rightarrow> of_nat n, Some (u_path u @ u_query u))" for d
    using w p by (intro split_authority_show [where p = "p @ u_query u"]) (auto simp: wf_url_def)
  moreover have "split_path_query (Some (u_path u @ u_query u)) = (u_path u, u_query u)"
    using w by (intro split_path_query_show) (auto simp: wf_url_def)
  ultimately show ?thesis by (auto simp: crack_url_def url_parts_of_def split: option.splits)
qed

subsection \<open>Wide strings\<close>

definition ascii :: "string \<Rightarrow> bool" where
  "ascii s \<longleftrightarrow> (\<forall>c \<in> set s. 0 < (of_char c :: nat) \<and> (of_char c :: nat) < 128)"

lemma wide_Cons: "wide (c # s) = to_le 2 (ucast (ord8 c) :: u16) @ wide s"
  by (simp add: wide_def)

lemma length_wide [simp]: "length (wide s) = 2 * length s"
  by (induction s) (simp_all add: wide_def)

lemma le_units_wide: "le_units (wide s @ bs) = map (\<lambda>c. ucast (ord8 c)) s @ le_units bs"
proof (induction s)
  case (Cons c s)
  have "le_units (to_le 2 (w :: u16) @ xs) = w # le_units xs" for w xs
  proof -
    have "le_units (to_le 2 w @ xs) = of_le (to_le 2 w) # le_units xs" by simp
    then show ?thesis using of_le_to_le [of 2 w] by simp
  qed
  then show ?case using Cons by (simp only: wide_Cons append_assoc list.map append_Cons)
qed (simp add: wide_def)

lemma le_units_take: "le_units (take (2 * n) bs) = take n (le_units bs)"
proof (induction bs arbitrary: n rule: le_units.induct)
  case (1 a b bs)
  then show ?case by (cases n) simp_all
qed (auto simp: take_Cons' split: nat.splits)

lemma wide_char_unit:
  assumes "(of_char c :: nat) < 128"
  shows "unat (ucast (ord8 c) :: u16) = of_char c"
proof -
  have "unat (ord8 c) = of_char c" using assms by (simp add: ord8_def of_char_def unat_of_nat flip: of_nat_of_char)
  moreover have "uint (ucast (ord8 c) :: u16) = uint (ord8 c)" by (rule uint_ucast_up) simp
  ultimately show ?thesis by (metis nat_uint_eq)
qed

lemma wstr_scan_ascii:
  "ascii s \<Longrightarrow> length s \<le> n \<Longrightarrow> wstr_scan n (map (\<lambda>c. ucast (ord8 c)) s @ 0 # us) = Some s"
proof (induction s arbitrary: n)
  case Nil
  then show ?case by (cases n) auto
next
  case (Cons c s)
  then obtain m where n: "n = Suc m" by (cases n) auto
  have c: "0 < (of_char c :: nat)" "(of_char c :: nat) < 128" using Cons.prems(1) by (auto simp: ascii_def)
  note u = wide_char_unit [OF c(2)]
  have "(ucast (ord8 c) :: u16) \<noteq> 0" using u c(1) by (metis less_numeral_extra(3) unsigned_0)
  moreover have "(ucast (ord8 c) :: u16) < 128" using u c(2) by (simp add: word_less_nat_alt)
  moreover have "ascii s" "length s \<le> m" using Cons.prems n by (auto simp: ascii_def)
  ultimately show ?case using Cons.IH u n by simp
qed

text \<open>\<open>shows_wide rd ptr s\<close>: guest memory holds the wide string \<open>s\<close> with its terminator at \<open>ptr\<close>.\<close>

definition shows_wide :: "guest_read \<Rightarrow> u32 \<Rightarrow> string \<Rightarrow> bool" where
  "shows_wide rd ptr s \<longleftrightarrow> ptr \<noteq> 0 \<and> (\<exists>rest. \<forall>n. rd (ucast ptr) n = take n (wide s @ [0, 0] @ rest))"

lemma read_wstr_wide:
  assumes m: "shows_wide rd ptr s" and a: "ascii s" and l: "length s < k" "length s < 2048"
  shows "read_wstr rd ptr k = Some s"
proof -
  from m obtain rest where rd: "\<And>n. rd (ucast ptr) n = take n (wide s @ [0, 0] @ rest)" and p: "ptr \<noteq> 0"
    by (auto simp: shows_wide_def)
  let ?r = "if k < 2048 then k else 2048"
  have r: "length s < ?r" using l by simp
  have "le_units (rd (ucast ptr) (?r * 2)) = take ?r (le_units (wide s @ [0, 0] @ rest))"
    unfolding rd using le_units_take [of ?r] by (simp only: mult.commute)
  also have "\<dots> = map (\<lambda>c. ucast (ord8 c)) s @ 0 # take (?r - length s - 1) (le_units rest)"
    using r by (simp add: le_units_wide take_Cons')
  finally have "le_units (rd (ucast ptr) (?r * 2)) = map (\<lambda>c. ucast (ord8 c)) s @ 0 # take (?r - length s - 1) (le_units rest)" .
  moreover have "length s \<le> ?r - 1" using r by simp
  ultimately show ?thesis using wstr_scan_ascii [OF a] p unfolding read_wstr_def Let_def by (simp only: if_False)
qed

subsection \<open>The call\<close>

text \<open>What is written for a component: its text where the guest gave a buffer, then its length.\<close>

definition component_writes :: "u32 \<Rightarrow> u8 list \<Rightarrow> nat \<Rightarrow> nat \<Rightarrow> string \<Rightarrow> guest_writes" where
  "component_writes comp_ptr cb pos off text =
     (if comp_field cb off = 0 then [] else
      (if comp_field cb pos = 0 then [] else [(ucast (comp_field cb pos), wide text @ [0, 0])])
      @ [(ucast (comp_ptr + of_nat off), to_le 4 (of_nat (length text) :: u32))])"

text \<open>A component's buffer is absent or long enough for the text and its terminator.\<close>

definition component_fits :: "u8 list \<Rightarrow> nat \<Rightarrow> nat \<Rightarrow> string \<Rightarrow> bool" where
  "component_fits cb pos off text \<longleftrightarrow>
     comp_field cb pos = 0 \<or> comp_field cb off = 0
     \<or> int (length text) < sint (comp_field cb off)"

lemma put_component_fits:
  assumes "component_fits cb pos off text" "length text < 2048"
  shows "put_component comp_ptr (comp_field cb pos) (comp_field cb off) text (of_nat off)
    = Some (component_writes comp_ptr cb pos off text)"
  using assms by (auto simp: put_component_def component_writes_def component_fits_def write_wstr_to_def Let_def)

lemma crack_url_string:
  assumes u: "wf_url u" and m: "shows_wide rd (args 0) (show_url u)" "ascii (show_url u)"
    and l: "length (show_url u) < 2048" "args 1 = 0 \<or> 4000 < args 1 \<or> length (show_url u) \<le> unat (args 1)"
  shows "read_wstr rd (args 0) ((if args 1 = 0 \<or> 4000 < args 1 then 4000 else unat (args 1)) + 1) = Some (show_url u)"
  using l by (intro read_wstr_wide [OF m]) auto

lemma crack_url_writes:
  assumes u: "wf_url u" and m: "shows_wide rd (args 0) (show_url u)" "ascii (show_url u)"
    and l: "length (show_url u) < 2048" "args 1 = 0 \<or> 4000 < args 1 \<or> length (show_url u) \<le> unat (args 1)"
    and c: "args 3 \<noteq> 0" "cb = take 60 (rd (ucast (args 3)) 60 @ replicate 60 0)"
    and p: "p = url_parts_of u"
    and fits: "component_fits cb 4 8 (up_scheme p)" "component_fits cb 16 20 (up_host p)"
      "component_fits cb 44 48 (up_path p)" "component_fits cb 52 56 (up_extra p)"
  shows "WinHttpCrackUrl rd args wh = Some (1,
    [(ucast (args 3 + 12), to_le 4 (up_nscheme p)), (ucast (args 3 + 24), to_le 2 (up_port p))]
    @ component_writes (args 3) cb 4 8 (up_scheme p) @ component_writes (args 3) cb 16 20 (up_host p)
    @ component_writes (args 3) cb 44 48 (up_path p) @ component_writes (args 3) cb 52 56 (up_extra p), wh)"
proof -
  have "length (up_scheme p) < 2048" "length (up_host p) < 2048" "length (up_path p) < 2048" "length (up_extra p) < 2048"
    using l(1) p by (auto simp: url_parts_of_def show_url_def)
  note parts = put_component_fits [OF fits(1) this(1)] put_component_fits [OF fits(2) this(2)]
    put_component_fits [OF fits(3) this(3)] put_component_fits [OF fits(4) this(4)]
  show ?thesis
    using parts [where comp_ptr = "args 3"] crack_show_url [OF u] c p
    unfolding WinHttpCrackUrl_def Let_def crack_url_string [OF u m l] by simp
qed

text \<open>C22: \<open>WinHttpCrackUrl\<close> inverts the composition of a URL: for a URL put together from a scheme, a
  host, an optional port, a path and an optional query, held as a wide string in guest memory, the
  call returns success and writes exactly the scheme's number, the port (the scheme's default where
  none is given) and, for each component the guest asks for, its text into the given buffer and its length.\<close>

theorem crack_url_call:
  assumes u: "wf_url u" and m: "shows_wide rd (args 0) (show_url u)" "ascii (show_url u)"
    and l: "length (show_url u) < 2048" "args 1 = 0 \<or> 4000 < args 1 \<or> length (show_url u) \<le> unat (args 1)"
    and c: "args 3 \<noteq> 0" "cb = take 60 (rd (ucast (args 3)) 60 @ replicate 60 0)"
    and p: "p = url_parts_of u"
    and fits: "component_fits cb 4 8 (up_scheme p)" "component_fits cb 16 20 (up_host p)"
      "component_fits cb 44 48 (up_path p)" "component_fits cb 52 56 (up_extra p)"
  shows "WinHttpCrackUrl rd args wh = Some (1,
    [(ucast (args 3 + 12), to_le 4 (up_nscheme p)), (ucast (args 3 + 24), to_le 2 (up_port p))]
    @ component_writes (args 3) cb 4 8 (up_scheme p) @ component_writes (args 3) cb 16 20 (up_host p)
    @ component_writes (args 3) cb 44 48 (up_path p) @ component_writes (args 3) cb 52 56 (up_extra p), wh)"
  by (rule crack_url_writes [OF assms])

definition demo_url :: url where
  "demo_url = \<lparr> u_https = True, u_host = ''a.io'', u_port = Some 8443, u_path = ''/x'', u_query = ''?q=1'' \<rparr>"

text \<open>A guest that gives a buffer for the host and asks for the length of the path.\<close>

definition demo_comp :: "u8 list" where
  "demo_comp = [0, 0, 0, 0, 0, 0, 0, 0, 0, 0, 0, 0, 0, 0, 0, 0, 0, 48, 0, 0, 64, 0, 0, 0, 0, 0, 0, 0, 0, 0, 0, 0, 0, 0, 0, 0, 0, 0, 0, 0, 0, 0, 0, 0, 0, 0, 0, 0, 1, 0, 0, 0, 0, 0, 0, 0, 0, 0, 0, 0]"

definition demo_null_comp :: "u8 list" where
  "demo_null_comp = [0, 0, 0, 0, 0, 0, 0, 0, 255, 255, 255, 255, 0, 0, 0, 0, 0, 0, 0, 0, 255, 255, 255, 255, 0, 0, 0, 0, 0, 0, 0, 0, 0, 0, 0, 0, 0, 0, 0, 0, 0, 0, 0, 0, 0, 0, 0, 0, 255, 255, 255, 255, 0, 0, 0, 0, 255, 255, 255, 255]"

definition demo_rd :: guest_read where
  "demo_rd a n = (if a = 0x1000 then take n (wide (show_url demo_url) @ [0, 0])
     else if a = 0x2000 then take n demo_comp else if a = 0x4000 then take n demo_null_comp else [])"

definition demo_args :: http_args where
  "demo_args i = (if i = 0 then 0x1000 else if i = 3 then 0x2000 else 0)"

lemma demo_url_text: "show_url demo_url = ''https://a.io:8443/x?q=1''"
  by (simp add: demo_url_def show_url_def nat_str.simps char_of_def bit_0)

theorem crack_url_call_witness:
  "WinHttpCrackUrl demo_rd demo_args (wg_winhttp_create \<lparr> net_dials = [], net_log = [] \<rparr>) = Some (1,
     [(0x200C, [2, 0, 0, 0]), (0x2018, [0xFB, 0x20]),
      (0x3000, wide ''a.io'' @ [0, 0]), (0x2014, [4, 0, 0, 0]), (0x2030, [2, 0, 0, 0])],
     wg_winhttp_create \<lparr> net_dials = [], net_log = [] \<rparr>)"
proof -
  let ?cb = "take 60 (demo_rd (ucast (demo_args 3)) 60 @ replicate 60 0)"
  let ?p = "url_parts_of demo_url"
  have cb: "?cb = demo_comp" by (simp add: demo_rd_def demo_args_def demo_comp_def)
  have f: "comp_field demo_comp 4 = 0" "comp_field demo_comp 8 = 0" "comp_field demo_comp 16 = 0x3000"
    "comp_field demo_comp 20 = 64" "comp_field demo_comp 44 = 0" "comp_field demo_comp 48 = 1"
    "comp_field demo_comp 52 = 0" "comp_field demo_comp 56 = 0"
    by (simp_all add: comp_field_def demo_comp_def)
  have p: "up_scheme ?p = ''https''" "up_nscheme ?p = 2" "up_port ?p = 8443" "up_host ?p = ''a.io''" "up_path ?p = ''/x''"
    "up_extra ?p = ''?q=1''"
    by (simp_all add: demo_url_def url_parts_of_def)
  have "shows_wide demo_rd (demo_args 0) (show_url demo_url)"
    by (auto simp: shows_wide_def demo_rd_def demo_args_def intro!: exI [of _ "[]"])
  moreover have "ascii (show_url demo_url)" "length (show_url demo_url) < 2048"
    by (simp_all add: demo_url_text ascii_def)
  moreover have "wf_url demo_url" by (simp add: wf_url_def demo_url_def)
  ultimately show ?thesis
    using crack_url_call [of demo_url demo_rd demo_args "?cb" "?p" "wg_winhttp_create \<lparr> net_dials = [], net_log = [] \<rparr>"]
    unfolding cb by (simp add: demo_args_def component_fits_def component_writes_def f p)
qed

text \<open>A guest that passes null pointers to ask where in its own URL the components are gets only
  their lengths: whatever the URL, no write of the call reaches a pointer field of the structure.\<close>

theorem crack_url_null_pointers:
  assumes r: "WinHttpCrackUrl rd args wh = Some (r, w, wh')"
    and cb: "cb = take 60 (rd (ucast (args 3)) 60 @ replicate 60 0)"
    and null: "comp_field cb 4 = 0" "comp_field cb 16 = 0" "comp_field cb 44 = 0" "comp_field cb 52 = 0"
  shows "fst ` set w \<subseteq> ucast ` {args 3 + 8, args 3 + 12, args 3 + 20, args 3 + 24, args 3 + 48, args 3 + 56}"
proof -
  have "put_component c 0 len t off = Some ws \<Longrightarrow> set ws \<subseteq> {(ucast (c + off), to_le 4 (of_nat (length t) :: u32))}" for c len t off ws
    by (auto simp: put_component_def split: if_splits)
  note one = this
  show ?thesis
    using r [unfolded WinHttpCrackUrl_def Let_def, folded cb] null
    by (auto simp: bind_eq_Some_conv split: if_splits simp del: to_le_numeral dest!: one)
qed

text \<open>The same URL, asked for with null pointers and lengths of -1.\<close>

definition demo_ask :: http_args where
  "demo_ask i = (if i = 0 then 0x1000 else if i = 3 then 0x4000 else 0)"

theorem crack_url_null_pointers_witness:
  "\<exists>w. WinHttpCrackUrl demo_rd demo_ask (wg_winhttp_create \<lparr> net_dials = [], net_log = [] \<rparr>)
       = Some (1, w, wg_winhttp_create \<lparr> net_dials = [], net_log = [] \<rparr>)
     \<and> length w = 6 \<and> fst ` set w \<subseteq> ucast ` {demo_ask 3 + 8, demo_ask 3 + 12, demo_ask 3 + 20, demo_ask 3 + 24, demo_ask 3 + 48, demo_ask 3 + 56}"
proof -
  let ?cb = "take 60 (demo_rd (ucast (demo_ask 3)) 60 @ replicate 60 0)"
  let ?wh = "wg_winhttp_create \<lparr> net_dials = [], net_log = [] \<rparr>"
  have cb: "?cb = demo_null_comp" by (simp add: demo_rd_def demo_ask_def demo_null_comp_def)
  have f: "comp_field demo_null_comp 4 = 0" "comp_field demo_null_comp 8 = 0xFFFFFFFF" "comp_field demo_null_comp 16 = 0"
    "comp_field demo_null_comp 20 = 0xFFFFFFFF" "comp_field demo_null_comp 44 = 0" "comp_field demo_null_comp 48 = 0xFFFFFFFF"
    "comp_field demo_null_comp 52 = 0" "comp_field demo_null_comp 56 = 0xFFFFFFFF"
    by (simp_all add: comp_field_def demo_null_comp_def)
  have s: "shows_wide demo_rd (demo_ask 0) (show_url demo_url)"
    by (auto simp: shows_wide_def demo_rd_def demo_ask_def intro!: exI [of _ "[]"])
  have t: "ascii (show_url demo_url)" "length (show_url demo_url) < 2048" by (simp_all add: demo_url_text ascii_def)
  have u: "wf_url demo_url" by (simp add: wf_url_def demo_url_def)
  obtain w where w: "WinHttpCrackUrl demo_rd demo_ask ?wh = Some (1, w, ?wh)" "length w = 6"
    using crack_url_writes [OF u s t _ _ cb [symmetric] refl, of ?wh]
    by (simp add: demo_ask_def component_fits_def component_writes_def f)
  from crack_url_null_pointers [OF w(1) cb [symmetric]] f w show ?thesis by blast
qed

end
