(* ===== verification/Http_Table.thy ===== *)
theory Http_Table
  imports Http_Url Handle_Table
begin

section \<open>The slot table of the HTTP client\<close>

text \<open>
  The handles of \<open>wg_winhttp.c\<close> are slot numbers, so a handle that was closed is given out again
  by the next call that opens anything.  The table keeps the contract of a handle table; the
  well-formedness of its slots (every string within its buffer) is kept by every call, and with it
  the head of a request always fits the buffer it is built in.
\<close>

subsection \<open>Looking up slots\<close>

definition http_range :: "u32 \<Rightarrow> bool" where
  "http_range h \<longleftrightarrow> HTTP_BASE \<le> h \<and> h < HTTP_BASE + of_nat WG_MAX_HTTP"

lemma http_idx_range: "http_range h \<Longrightarrow> http_idx h < WG_MAX_HTTP \<and> h = HTTP_BASE + of_nat (http_idx h)"
proof -
  assume r: "http_range h"
  then have "0x3000 \<le> unat h" "unat h < 0x3010"
    by (simp_all add: http_range_def HTTP_BASE_def WG_MAX_HTTP_def word_le_nat_alt word_less_nat_alt)
  then have "unat (h - HTTP_BASE) = unat h - 0x3000"
    by (simp add: HTTP_BASE_def unat_sub word_le_nat_alt)
  moreover have "HTTP_BASE + of_nat (unat (h - HTTP_BASE)) = h" by simp
  ultimately show ?thesis using \<open>unat h < 0x3010\<close> unfolding http_idx_def WG_MAX_HTTP_def by simp
qed

lemma http_idx_of_nat: "i < WG_MAX_HTTP \<Longrightarrow> http_idx (HTTP_BASE + of_nat i) = i \<and> http_range (HTTP_BASE + of_nat i)"
  by (simp add: http_idx_def http_range_def HTTP_BASE_def WG_MAX_HTTP_def unat_of_nat word_le_nat_alt word_less_nat_alt unat_word_ariths)

lemma http_idx_inj: "http_range h \<Longrightarrow> http_range h' \<Longrightarrow> http_idx h = http_idx h' \<Longrightarrow> h = h'"
  using http_idx_range by metis

lemma get_slot_range: "get_slot h wh = (if http_range h \<and> hs_in_use (wh_slots wh ! http_idx h) then Some (wh_slots wh ! http_idx h) else None)"
  by (auto simp: get_slot_def http_range_def Let_def not_le not_less)

lemma get_put_slot:
  assumes "http_range h" "length (wh_slots wh) = WG_MAX_HTTP"
  shows "get_slot h' (put_slot h s wh) = (if h' = h then if hs_in_use s then Some s else None else get_slot h' wh)"
proof -
  have "http_idx h < length (wh_slots wh)" using http_idx_range [OF assms(1)] assms(2) by simp
  then show ?thesis using assms(1) http_idx_inj [of h' h]
    by (auto simp: get_slot_range put_slot_def nth_list_update)
qed

lemma get_slot_Some:
  "get_slot h wh = Some s \<Longrightarrow> http_range h \<and> wh_slots wh ! http_idx h = s \<and> hs_in_use s"
  by (auto simp: get_slot_range split: if_splits)

lemma typed_slot_Some: "typed_slot ty h wh = Some s \<longleftrightarrow> get_slot h wh = Some s \<and> hs_type s = ty"
  by (auto simp: typed_slot_def split: option.splits if_splits)

lemma get_slot_upd [simp]:
  "get_slot h (wh\<lparr> wh_last_error := e \<rparr>) = get_slot h wh"
  "get_slot h (wh\<lparr> wh_net := n \<rparr>) = get_slot h wh"
  by (simp_all add: get_slot_def)

lemma put_slot_sel [simp]:
  "wh_net (put_slot h s wh) = wh_net wh" "wh_last_error (put_slot h s wh) = wh_last_error wh"
  "length (wh_slots (put_slot h s wh)) = length (wh_slots wh)"
  by (simp_all add: put_slot_def)

subsection \<open>Well-formed slots\<close>

definition wf_slot :: "WGHttpSlot \<Rightarrow> bool" where
  "wf_slot s \<longleftrightarrow> length (hs_agent s) < 256 \<and> length (hs_server s) < 512 \<and> length (hs_verb s) < 16
     \<and> length (hs_path s) < 4096 \<and> length (hs_extra s) < 8192 \<and> length (hs_status_text s) < 128
     \<and> length (hs_resp_headers s) < 16384"

definition wf_http :: "WGWinHttp \<Rightarrow> bool" where
  "wf_http wh \<longleftrightarrow> length (wh_slots wh) = WG_MAX_HTTP \<and> (\<forall>s \<in> set (wh_slots wh). wf_slot s)"

lemma wf_http_zero: "wf_slot (http_zero\<lparr> hs_in_use := True, hs_type := ty \<rparr>)" "wf_slot http_zero"
  by (simp_all add: wf_slot_def http_zero_def)

lemma wf_http_create: "wf_http (wg_winhttp_create n)"
  by (simp add: wf_http_def wg_winhttp_create_def wf_http_zero)

lemma wf_http_upd [wf_intros]:
  "wf_http wh \<Longrightarrow> wf_http (wh\<lparr> wh_last_error := e \<rparr>)"
  "wf_http wh \<Longrightarrow> wf_http (wh\<lparr> wh_net := n \<rparr>)"
  by (simp_all add: wf_http_def)

lemma wf_put_slot [wf_intros]: "wf_http wh \<Longrightarrow> wf_slot s \<Longrightarrow> wf_http (put_slot h s wh)"
  by (auto simp: wf_http_def put_slot_def dest!: set_update_subset_insert [THEN subsetD])

lemma wf_get_slot: "wf_http wh \<Longrightarrow> get_slot h wh = Some s \<Longrightarrow> wf_slot s"
  using get_slot_Some http_idx_range by (metis nth_mem wf_http_def)

lemma wf_typed_slot: "wf_http wh \<Longrightarrow> typed_slot ty h wh = Some s \<Longrightarrow> wf_slot s"
  by (auto simp: typed_slot_Some intro: wf_get_slot)

lemma wf_alloc_http: "wf_http wh \<Longrightarrow> alloc_http ty wh = (h, wh') \<Longrightarrow> wf_http wh'"
  by (auto simp: alloc_http_def wf_http_def wf_http_zero split: option.splits dest!: set_update_subset_insert [THEN subsetD])

lemma wf_free_http: "wf_http wh \<Longrightarrow> wf_http (free_http h wh)"
  by (auto simp: free_http_def split: option.splits intro!: wf_put_slot) (auto dest: wf_get_slot simp: wf_slot_def)

lemma wstr_scan_length: "wstr_scan n us = Some s \<Longrightarrow> length s \<le> n"
  by (induction n us arbitrary: s rule: wstr_scan.induct) (auto split: if_splits)

lemma read_wstr_length: "read_wstr rd ptr k = Some s \<Longrightarrow> 0 < k \<Longrightarrow> length s < k \<and> length s < 2048"
  by (force simp: read_wstr_def Let_def split: if_splits dest!: wstr_scan_length)

lemma wf_append_headers: "wf_slot s \<Longrightarrow> wf_slot (append_headers hdrs s)"
  by (simp add: wf_slot_def append_headers_def crlf_def)

lemma wf_connect_to: "wf_slot req \<Longrightarrow> http_connect_to host port ssl req n = (ok, req', n') \<Longrightarrow> wf_slot req'"
  by (auto simp: http_connect_to_def Let_def wf_slot_def split: dial.splits if_splits list.splits)

lemma wf_send_req: "wf_slot req \<Longrightarrow> http_send_req req host body = Some (ok, req') \<Longrightarrow> wf_slot req'"
  by (auto simp: http_send_req_def Let_def wf_slot_def split: if_splits option.splits prod.splits)

lemma scan_status_text: "scan_status raw = Some (Inr (code, stext)) \<Longrightarrow> length stext \<le> 127"
  by (auto simp: scan_status_def split: if_splits option.splits prod.splits)

lemma wf_store_response:
  "wf_slot req \<Longrightarrow> length stext < 128 \<Longrightarrow> wf_slot (store_response mal raw k code stext cl req)"
  by (simp add: store_response_def Let_def wf_slot_def min_less_iff_disj split: option.split)

text \<open>The two outcomes of a response: only the connection moves on, or a whole head is stored.\<close>

lemma receive_headers_cases:
  assumes "http_receive_headers mal req = Some (ok, req')"
  obtains "\<not> ok" "req' = req\<lparr> hs_conn := hs_conn req' \<rparr>"
  | raw k c code stext cl where "ok" "scan_status (cstr raw) = Some (Inr (code, stext))" "length stext < 128"
      "req' = store_response mal raw k code stext cl (req\<lparr> hs_conn := Some c \<rparr>)"
  using assms
proof (cases "\<exists>c raw k c' code stext. hs_conn req = Some c \<and> recv_head c [] = Some (Some (raw, k), c') \<and> scan_status (cstr raw) = Some (Inr (code, stext))")
  case True
  then obtain c raw k c' code stext where h: "hs_conn req = Some c" "recv_head c [] = Some (Some (raw, k), c')"
    "scan_status (cstr raw) = Some (Inr (code, stext))" by blast
  with assms that(2) scan_status_text [OF h(3)] show thesis
    by (auto simp: http_receive_headers_def bind_eq_Some_conv less_Suc_eq_le)
next
  case False
  have "\<not> ok \<and> (\<exists>c. req' = req\<lparr> hs_conn := c \<rparr>)"
  proof (cases "hs_conn req")
    case None
    with assms show ?thesis by (auto simp: http_receive_headers_def intro!: exI [of _ None])
  next
    case (Some c)
    obtain p c' where r: "recv_head c [] = Some (p, c')" using assms Some by (auto simp: http_receive_headers_def split: option.splits)
    show ?thesis
    proof (cases p)
      case None
      with assms Some r show ?thesis by (auto simp: http_receive_headers_def)
    next
      case p: (Some q)
      obtain raw k where "q = (raw, k)" by fastforce
      with p r Some False have n: "scan_status (cstr raw) \<noteq> Some (Inr cs)" for cs by (cases cs) auto
      from assms p r Some \<open>q = (raw, k)\<close> obtain st where st: "scan_status (cstr raw) = Some st"
        by (auto simp: http_receive_headers_def bind_eq_Some_conv)
      with n obtain u where "st = Inl u" by (cases st) auto
      with assms p r Some \<open>q = (raw, k)\<close> st show ?thesis by (auto simp: http_receive_headers_def)
    qed
  qed
  then show thesis using that(1) by auto
qed

lemma wf_slot_conn: "wf_slot (req\<lparr> hs_conn := c \<rparr>) = wf_slot req"
  by (simp add: wf_slot_def)

lemma wf_receive_headers:
  assumes "wf_slot req" "http_receive_headers mal req = Some (ok, req')"
  shows "wf_slot req'"
  using assms(2)
proof (cases rule: receive_headers_cases)
  case 1
  then show ?thesis using assms(1) wf_slot_conn by metis
next
  case 2
  then show ?thesis using assms(1) by (simp add: wf_store_response wf_slot_conn)
qed

lemma wf_redirect_reset: "wf_slot req \<Longrightarrow> wf_slot (redirect_reset path ssl req)"
  using length_cut [of 4096] by (auto simp: redirect_reset_def wf_slot_def split: option.split)

lemma wf_redirect_loop: "wf_slot req \<Longrightarrow> redirect_loop mal wh k req n = Some (req', n') \<Longrightarrow> wf_slot req'"
proof (induction k arbitrary: req n)
  case (Suc k)
  show ?case
  proof (cases "is_redirect (hs_status_code req) \<and> find_header_value (hs_resp_headers req) ''Location:'' \<noteq> None")
    case False
    with Suc.prems show ?thesis by (auto split: if_splits option.splits)
  next
    case True
    then obtain loc where loc: "find_header_value (hs_resp_headers req) ''Location:'' = Some loc" by auto
    note w = wf_redirect_reset [OF Suc.prems(1)]
    from Suc.prems(2) True show ?thesis
      by (auto simp: loc bind_eq_Some_conv Let_def split: if_splits prod.splits
          dest!: wf_connect_to [OF w] intro: w) (blast intro: Suc.IH wf_receive_headers wf_send_req)+
  qed
qed simp

lemma wf_refill: "wf_slot req \<Longrightarrow> refill mal req c = Some req' \<Longrightarrow> wf_slot req'"
  by (auto simp: refill_def Let_def wf_slot_def split: option.splits prod.splits if_splits)

subsection \<open>Every call keeps the slots well-formed\<close>

lemma wf_http_result:
  assumes wf: "wf_http wh"
  shows "WinHttpOpen rd args wh = Some (r, w, wh') \<Longrightarrow> wf_http wh'"
    and "WinHttpConnect rd args wh = Some (r, w, wh') \<Longrightarrow> wf_http wh'"
    and "WinHttpOpenRequest rd args wh = Some (r, w, wh') \<Longrightarrow> wf_http wh'"
    and "WinHttpAddRequestHeaders rd args wh = Some (r, w, wh') \<Longrightarrow> wf_http wh'"
proof -
  have al: "wf_slot s \<and> wf_http v" if "alloc_http ty wh = (h, v)" "get_slot h v = Some s" for ty h v s
    using wf_alloc_http [OF wf that(1)] wf_get_slot [OF _ that(2)] by blast
  show "WinHttpOpen rd args wh = Some (r, w, wh') \<Longrightarrow> wf_http wh'"
    by (auto simp: WinHttpOpen_def Let_def bind_eq_Some_conv wf_alloc_http [OF wf] split: prod.splits if_splits dest!: al read_wstr_length
        intro!: wf_put_slot) (simp add: wf_slot_def)
  show "WinHttpConnect rd args wh = Some (r, w, wh') \<Longrightarrow> wf_http wh'"
    using wf by (auto simp: WinHttpConnect_def Let_def bind_eq_Some_conv wf_alloc_http [OF wf] split: prod.splits if_splits dest!: al read_wstr_length
        intro!: wf_put_slot) (simp add: wf_slot_def)
  show "WinHttpOpenRequest rd args wh = Some (r, w, wh') \<Longrightarrow> wf_http wh'"
    using wf by (auto simp: WinHttpOpenRequest_def Let_def bind_eq_Some_conv wf_alloc_http [OF wf] split: prod.splits if_splits dest!: al read_wstr_length
        intro!: wf_put_slot) (simp_all add: wf_slot_def)
  show "WinHttpAddRequestHeaders rd args wh = Some (r, w, wh') \<Longrightarrow> wf_http wh'"
    using wf by (auto simp: WinHttpAddRequestHeaders_def bind_eq_Some_conv split: option.splits
        intro!: wf_put_slot wf_append_headers dest: wf_typed_slot)
qed

lemma wf_http_error: "wf_http wh \<Longrightarrow> http_error e wh = Some (r, w, wh') \<Longrightarrow> wf_http wh'"
  by (auto simp: http_error_def intro: wf_intros)

lemma wf_http_transmit:
  assumes wf: "wf_http wh" and q: "wf_slot req" and r: "http_transmit mal rd args con req wh = Some (r, w, wh')"
  shows "wf_http wh'"
proof -
  obtain ok req2 n where cn: "http_connect_to (hs_server con) (if hs_port con \<noteq> 0 then hs_port con else if hs_use_ssl req then 443 else 80)
      (hs_use_ssl req) req (wh_net wh) = (ok, req2, n)"
    by (metis surj_pair)
  note q2 = wf_connect_to [OF q cn]
  let ?wh = "(put_slot (args 0) req2 wh)\<lparr> wh_net := n \<rparr>"
  have w2: "wf_http ?wh" using wf q2 by (intro wf_intros)
  show ?thesis
  proof (cases ok)
    case False
    with r cn show ?thesis using wf_http_error [OF w2] by (simp add: http_transmit_def)
  next
    case True
    with r cn obtain body ok2 req3 where s: "http_send_req req2 (hs_server con) body = Some (ok2, req3)"
      and f: "(if ok2 then Some (1, [], put_slot (args 0) req3 ?wh) else http_error ERROR_WINHTTP_CANNOT_CONNECT (put_slot (args 0) req3 ?wh)) = Some (r, w, wh')"
      by (auto simp: http_transmit_def bind_eq_Some_conv Let_def split: prod.splits)
    have "wf_http (put_slot (args 0) req3 ?wh)" by (rule wf_put_slot [OF w2 wf_send_req [OF q2 s]])
    with f show ?thesis using wf_http_error by (auto split: if_splits)
  qed
qed

lemma wf_http_send:
  assumes wf: "wf_http wh" and r: "WinHttpSendRequest mal rd args wh = Some (r, w, wh')"
  shows "wf_http wh'"
  using r wf
  by (auto simp: WinHttpSendRequest_def bind_eq_Some_conv split: option.split_asm if_split_asm
      dest!: wf_typed_slot [OF wf] intro: wf_http_error wf_http_transmit [OF wf] wf_http_transmit [OF wf wf_append_headers])

lemma wf_http_receive:
  assumes wf: "wf_http wh" and r: "WinHttpReceiveResponse mal args wh = Some (r, w, wh')"
  shows "wf_http wh'"
proof (cases "typed_slot HT_REQUEST (args 0) wh")
  case None
  with r wf show ?thesis by (auto simp: WinHttpReceiveResponse_def)
next
  case (Some req)
  note q = wf_typed_slot [OF wf Some]
  from r Some wf show ?thesis
    by (auto simp: WinHttpReceiveResponse_def bind_eq_Some_conv split: if_splits
        intro!: wf_intros dest: wf_receive_headers [OF q] wf_redirect_loop)
qed

lemma wf_http_body:
  assumes wf: "wf_http wh"
  shows "WinHttpQueryDataAvailable mal args wh = Some (r, w, wh') \<Longrightarrow> wf_http wh'"
    and "WinHttpReadData mal args wh = Some (r, w, wh') \<Longrightarrow> wf_http wh'"
    and "WinHttpWriteData mal rd args wh = Some (r, w, wh') \<Longrightarrow> wf_http wh'"
proof -
  note q = wf_typed_slot [OF wf]
  have sel: "wf_slot (s\<lparr> hs_buf_pos := p \<rparr>) = wf_slot s" "wf_slot (s\<lparr> hs_total_body_read := t \<rparr>) = wf_slot s" for s p t
    by (simp_all add: wf_slot_def)
  show "WinHttpQueryDataAvailable mal args wh = Some (r, w, wh') \<Longrightarrow> wf_http wh'"
    using wf by (auto simp: WinHttpQueryDataAvailable_def bind_eq_Some_conv split: option.splits if_splits
        intro!: wf_put_slot dest: wf_refill q)
  show "WinHttpReadData mal args wh = Some (r, w, wh') \<Longrightarrow> wf_http wh'"
    using wf by (auto simp: WinHttpReadData_def Let_def sel wf_slot_conn bind_eq_Some_conv split: option.split_asm if_split_asm
        intro!: wf_put_slot dest: q)
  show "WinHttpWriteData mal rd args wh = Some (r, w, wh') \<Longrightarrow> wf_http wh'"
    using wf by (auto simp: WinHttpWriteData_def Let_def wf_slot_conn split: option.splits if_splits prod.splits
        intro!: wf_put_slot dest: q)
qed

text \<open>The states a guest can reach by calls.\<close>

inductive http_reach :: "(nat \<Rightarrow> bool) \<Rightarrow> net \<Rightarrow> WGWinHttp \<Rightarrow> bool" for mal n where
  reach_create: "http_reach mal n (wg_winhttp_create n)"
| reach_call: "http_reach mal n wh \<Longrightarrow> wg_winhttp_handle mal rd fn args wh = Some (b, r, w, wh') \<Longrightarrow> http_reach mal n wh'"

lemma wf_http_query: 
  "WinHttpQueryHeaders rd args wh = Some (r, w, wh') \<Longrightarrow> \<exists>e. wh' = wh\<lparr> wh_last_error := e \<rparr>"
proof -
  have e: "http_error e wh = Some (r, w, wh') \<Longrightarrow> \<exists>e. wh' = wh\<lparr> wh_last_error := e \<rparr>" for e
    by (auto simp: http_error_def)
  have n: "query_number rd a b v wh = Some (r, w, wh') \<Longrightarrow> \<exists>e. wh' = wh\<lparr> wh_last_error := e \<rparr>" for a b v
    by (auto simp: query_number_def split: if_splits intro: exI [of _ "wh_last_error wh"])
  have t: "query_text rd a b v wh = Some (r, w, wh') \<Longrightarrow> \<exists>e. wh' = wh\<lparr> wh_last_error := e \<rparr>" for a b v
    by (auto simp: query_text_def Let_def split: if_splits intro: exI [of _ "wh_last_error wh"])
  assume "WinHttpQueryHeaders rd args wh = Some (r, w, wh')"
  then show ?thesis
    unfolding WinHttpQueryHeaders_def Let_def
    by (auto simp: bind_eq_Some_conv split: option.split_asm if_split_asm dest!: e n t)
qed

lemma wf_http_crack: "WinHttpCrackUrl rd args wh = Some (r, w, wh') \<Longrightarrow> wh' = wh"
  by (auto simp: WinHttpCrackUrl_def Let_def bind_eq_Some_conv split: if_splits)

lemma http_handle_wf:
  assumes wf: "wf_http wh" and r: "wg_winhttp_handle mal rd fn args wh = Some (b, r, w, wh')"
  shows "wf_http wh'"
proof -
  note parts = wf_http_result [OF wf] wf_http_send [OF wf] wf_http_receive [OF wf] wf_http_body [OF wf]
  have qu: "WinHttpQueryHeaders rd args wh = Some (r, w, wh') \<Longrightarrow> wf_http wh'"
    using wf_http_query wf wf_http_upd(1) by blast
  have cl: "WinHttpCloseHandle args wh = Some (r, w, wh') \<Longrightarrow> wf_http wh'"
    using wf_free_http [OF wf] by (auto simp: WinHttpCloseHandle_def)
  have cr: "WinHttpCrackUrl rd args wh = Some (r, w, wh') \<Longrightarrow> wf_http wh'"
    using wf_http_crack wf by blast
  from r show ?thesis
    unfolding wg_winhttp_handle_def Let_def
    by (simp only: split: if_split_asm) (simp_all add: map_option_eq_Some, (metis parts qu cl cr wf)+)
qed

lemma http_reach_wf: "http_reach mal n wh \<Longrightarrow> wf_http wh"
  by (induction rule: http_reach.induct) (auto intro: wf_http_create http_handle_wf)

lemma nat_str_length_less: "n < 10 ^ 10 \<Longrightarrow> length (nat_str n) \<le> 10"
  using nat_str_length [of n 9] by simp


subsection \<open>A guest that opens a session, a connection and a request\<close>

definition demo_session :: WGHttpSlot where
  "demo_session = http_zero\<lparr> hs_in_use := True, hs_type := HT_SESSION \<rparr>"

definition demo_connection :: WGHttpSlot where
  "demo_connection = http_zero\<lparr> hs_in_use := True, hs_type := HT_CONNECT, hs_session_h := 0x3000, hs_server := ''a.io'', hs_port := 80 \<rparr>"

definition demo_request :: WGHttpSlot where
  "demo_request = http_zero\<lparr> hs_in_use := True, hs_type := HT_REQUEST, hs_connect_h := 0x3001, hs_verb := ''GET'', hs_path := ''/'' \<rparr>"

abbreviation no_net :: net where "no_net \<equiv> \<lparr> net_dials = [], net_log = [] \<rparr>"

definition demo_http :: "net \<Rightarrow> WGWinHttp" where
  "demo_http n = \<lparr> wh_slots = [demo_session, demo_connection, demo_request] @ replicate 13 http_zero,
     wh_last_error = 0, wh_net = n \<rparr>"

text \<open>The guest's memory: the server's name at 0x1000.\<close>

definition demo_names :: guest_read where
  "demo_names a n = (if a = 0x1000 then take n (wide ''a.io'' @ [0, 0]) else [])"

lemma replicate_16: "replicate 16 x = [x, x, x] @ replicate 13 x"
  by (simp add: numeral_eq_Suc)

lemma demo_server: "read_wstr demo_names 0x1000 512 = Some ''a.io''"
  by (rule read_wstr_wide) (auto simp: shows_wide_def demo_names_def ascii_def intro!: exI [of _ "[]"])

lemma demo_http_reach: "http_reach mal n (demo_http n)"
proof -
  let ?wh1 = "\<lparr> wh_slots = [demo_session, http_zero, http_zero] @ replicate 13 http_zero, wh_last_error = 0, wh_net = n \<rparr>"
  let ?wh2 = "\<lparr> wh_slots = [demo_session, demo_connection, http_zero] @ replicate 13 http_zero, wh_last_error = 0, wh_net = n \<rparr>"
  have z: "\<not> hs_in_use http_zero" by (simp add: http_zero_def)
  have u: "hs_in_use demo_session" "hs_in_use demo_connection" "hs_type demo_session = HT_SESSION" "hs_type demo_connection = HT_CONNECT"
    by (simp_all add: demo_session_def demo_connection_def)
  have "wg_winhttp_handle mal demo_names ''WinHttpOpen'' (\<lambda>i. 0) (wg_winhttp_create n) = Some (True, 0x3000, [], ?wh1)"
    by (simp add: wg_winhttp_handle_def WinHttpOpen_def alloc_http_def wg_winhttp_create_def WG_MAX_HTTP_def replicate_16 z
        get_slot_def http_idx_def HTTP_BASE_def Let_def read_wstr_def put_slot_def demo_session_def http_zero_def)
  note r1 = reach_call [OF reach_create this]
  have "wg_winhttp_handle mal demo_names ''WinHttpConnect'' (\<lambda>i. if i = 0 then 0x3000 else if i = 1 then 0x1000 else 80) ?wh1
      = Some (True, 0x3001, [], ?wh2)"
    by (simp add: wg_winhttp_handle_def WinHttpConnect_def typed_slot_def alloc_http_def WG_MAX_HTTP_def z u demo_server
        get_slot_def http_idx_def HTTP_BASE_def Let_def put_slot_def demo_connection_def)
  note r2 = reach_call [OF r1 this]
  have "wg_winhttp_handle mal demo_names ''WinHttpOpenRequest'' (\<lambda>i. if i = 0 then 0x3001 else 0) ?wh2
      = Some (True, 0x3002, [], demo_http n)"
    by (simp add: wg_winhttp_handle_def WinHttpOpenRequest_def typed_slot_def alloc_http_def WG_MAX_HTTP_def z u
        get_slot_def http_idx_def HTTP_BASE_def Let_def put_slot_def demo_request_def demo_http_def) (simp add: http_zero_def)
  from reach_call [OF r2 this] show ?thesis .
qed

lemma demo_slots: "get_slot 0x3002 (demo_http n) = Some demo_request" "get_slot 0x3001 (demo_http n) = Some demo_connection"
  by (simp_all add: get_slot_def http_idx_def HTTP_BASE_def WG_MAX_HTTP_def demo_http_def demo_request_def demo_connection_def)


subsection \<open>The contract of a handle table\<close>

definition http_alloc :: "http_type \<Rightarrow> WGWinHttp \<Rightarrow> (u32 \<times> WGWinHttp) option" where
  "http_alloc ty wh = (let (h, wh') = alloc_http ty wh in if h = 0 then None else Some (h, wh'))"

lemma alloc_http_nonzero: "http_range h \<Longrightarrow> h \<noteq> 0"
  by (auto simp: http_range_def HTTP_BASE_def)

lemma http_alloc_spec:
  assumes wf: "wf_http wh" and r: "http_alloc ty wh = Some (h, wh')"
  shows "get_slot h wh = None" "wf_http wh'" "http_range h"
    and "get_slot h' wh' = (if h' = h then Some (http_zero\<lparr> hs_in_use := True, hs_type := ty \<rparr>) else get_slot h' wh)"
proof -
  let ?s = "http_zero\<lparr> hs_in_use := True, hs_type := ty \<rparr>"
  from r obtain i where i: "first_idx (\<lambda>s. \<not> hs_in_use s) (wh_slots wh) = Some i" and h: "h = HTTP_BASE + of_nat i"
    and wh': "wh' = wh\<lparr> wh_slots := (wh_slots wh)[i := ?s] \<rparr>"
    by (auto simp: http_alloc_def alloc_http_def Let_def split: option.splits if_splits)
  have len: "length (wh_slots wh) = WG_MAX_HTTP" using wf by (simp add: wf_http_def)
  have lt: "i < WG_MAX_HTTP" using first_idx_lt [OF i] len by simp
  note x = http_idx_of_nat [OF lt, folded h]
  show "http_range h" using x by simp
  show "get_slot h wh = None" using first_idx_holds [OF i] x by (simp add: get_slot_range)
  have "wh' = put_slot h ?s wh" using wh' x by (simp add: put_slot_def)
  then show "wf_http wh'" "get_slot h' wh' = (if h' = h then Some ?s else get_slot h' wh)"
    using x len wf get_put_slot [of h wh h' ?s] by (auto intro: wf_put_slot wf_http_zero)
qed

lemma free_http_lookup: "wf_http wh \<Longrightarrow> get_slot h' (free_http h wh) = (if h' = h then None else get_slot h' wh)"
  by (auto simp: free_http_def wf_http_def get_put_slot split: option.split dest: get_slot_Some)

interpretation http_table: handle_table "\<lambda>wh h. get_slot h wh" http_alloc
  "\<lambda>ty h s. s = http_zero\<lparr> hs_in_use := True, hs_type := ty \<rparr>" wf_http free_http
proof unfold_locales
  fix s s' :: WGWinHttp and ty h
  assume wf: "wf_http s" and a: "http_alloc ty s = Some (h, s')"
  note sp = http_alloc_spec [OF wf a]
  show "get_slot h s = None" "wf_http s'" by (rule sp)+
  show "\<exists>ob. ob = http_zero\<lparr> hs_in_use := True, hs_type := ty \<rparr> \<and> (\<lambda>h. get_slot h s') = (\<lambda>h. get_slot h s)(h \<mapsto> ob)"
    using sp(4) by auto
next
  fix s :: WGWinHttp and h
  assume "wf_http s"
  then show "(\<lambda>h'. get_slot h' (free_http h s)) = (\<lambda>h. get_slot h s)(h := None)" "wf_http (free_http h s)"
    by (auto simp: free_http_lookup wf_free_http)
qed

end
