(* ===== verification/Http_Response.thy ===== *)
theory Http_Response
  imports Http_Table
begin

section \<open>Receiving a response\<close>

text \<open>
  What \<open>http_receive_headers\<close> makes of a response, whatever the chunks it arrives in: the status
  line and the headers are those that were sent, and the bytes behind the head are kept, in order,
  for the body.  Two places where it reads past the line it means to read.
\<close>

text \<open>The bytes a connection still delivers: up to the first read that fails.\<close>

definition incoming :: "conn \<Rightarrow> u8 list" where
  "incoming c = concat (takeWhile (\<lambda>ch. ch \<noteq> []) (c_in c))"

lemma slot_read_incoming:
  assumes "slot_read n c = Some (r, c')"
  shows "r = None \<Longrightarrow> 0 < n \<Longrightarrow> incoming c = []"
    and "r = None \<Longrightarrow> c' = c"
    and "r = Some d \<Longrightarrow> d @ incoming c' = incoming c \<and> d \<noteq> [] \<and> length d \<le> n"
  using assms by (auto simp: slot_read_def incoming_def split: if_splits list.splits)

text \<open>A read returns when the peer closes after its data, or while there is data.\<close>

lemma slot_read_returns:
  assumes "\<not> c_open c \<or> incoming c \<noteq> []"
  shows "\<exists>r c'. slot_read n c = Some (r, c')"
  using assms by (auto simp: slot_read_def incoming_def split: list.split)

lemma slot_read_open: "slot_read n c = Some (r, c') \<Longrightarrow> c_open c' = c_open c"
  by (auto simp: slot_read_def split: if_splits list.splits)

subsection \<open>Searching in a prefix\<close>

lemma strpos_Nil [simp]: "strpos s [] = Some 0"
  by (cases s) auto

lemma strpos_append: "strpos s t = Some k \<Longrightarrow> strpos (s @ x) t = Some k"
proof (induction s arbitrary: k)
  case (Cons c s)
  show ?case
  proof (cases "take (length t) (c # s) = t")
    case True
    then have "take (length t) (c # s @ x) = t" by (metis append_Cons length_take min.absorb_iff2 nat_le_linear take_all take_append append_Nil2 diff_is_0_eq' take0)
    with True Cons.prems show ?thesis by simp
  next
    case False
    with Cons.prems obtain j where j: "strpos s t = Some j" "k = Suc j" by auto
    then have "length t \<le> length s" using strpos_less by fastforce
    then have "take (length t) (c # s @ x) = take (length t) (c # s)" by (cases t) auto
    with False Cons j show ?thesis by simp
  qed
qed (auto split: if_splits)

lemma strpos_prefix: "k + length t \<le> length s \<Longrightarrow> strpos (s @ x) t = Some k \<Longrightarrow> strpos s t = Some k"
proof (induction s arbitrary: k)
  case (Cons c s)
  have tk: "take (length t) (c # s @ x) = take (length t) (c # s)" using Cons.prems(1) by (cases t) auto
  show ?case
  proof (cases "take (length t) (c # s) = t")
    case True
    with Cons.prems(2) tk show ?thesis by simp
  next
    case False
    with Cons.prems(2) tk obtain j where "strpos (s @ x) t = Some j" "k = Suc j" by auto
    with False Cons show ?thesis by simp
  qed
qed auto

text \<open>A pattern is not found before the place where its first character occurs.\<close>

lemma strpos_skip: "a \<notin> set p \<Longrightarrow> strpos (p @ (a # t) @ s) (a # t) = Some (length p)"
  by (induction p) auto

lemma length_cstr: "length (cstr p) \<le> length p"
  by (simp add: cstr_def length_takeWhile_le)

subsection \<open>The receive loop\<close>

lemma recv_head_finds:
  assumes "raw @ incoming c = tot" "strpos (cstr tot) (crlf @ crlf) = Some k" "k + 4 \<le> 32767"
    and "strpos (cstr raw) (crlf @ crlf) = None"
  shows "\<exists>raw' c'. recv_head c raw = Some (Some (raw', k + 4), c') \<and> raw' @ incoming c' = tot \<and> k + 4 \<le> length raw'
    \<and> c' = c\<lparr> c_in := c_in c' \<rparr>"
  using assms
proof (induction c raw rule: recv_head.induct)
  case (1 c raw)
  let ?t = "crlf @ crlf"
  have t4: "length ?t = 4" by (simp add: crlf_def)
  have kt: "k + 4 \<le> length (cstr tot)" using strpos_less [OF 1(3)] t4 by simp
  have found: "strpos (cstr p) ?t = Some k" if "p @ q = tot" "k + 4 \<le> length p" for p q
  proof -
    have "k + 4 \<le> length (cstr p)"
    proof (cases "0 \<in> set p")
      case True
      then have "cstr tot = cstr p" using cstr_append [of p q] that(1) by simp
      with kt show ?thesis by simp
    next
      case False
      then have "length (cstr p) = length p" by (simp add: cstr_all)
      with that(2) show ?thesis by simp
    qed
    moreover have "cstr tot = cstr p @ (if 0 \<in> set p then [] else cstr q)" using cstr_append [of p q] that(1) by simp
    ultimately show ?thesis using strpos_prefix [of k ?t "cstr p"] 1(3) t4 by metis
  qed
  have lt: "length raw < 32767"
  proof (rule ccontr)
    assume "\<not> length raw < 32767"
    then have "k + 4 \<le> length raw" using 1(4) by simp
    from found [OF 1(2) this] 1(5) show False by simp
  qed
  have data: "incoming c \<noteq> []" using 1(2,3,5) by auto
  then obtain r c' where r: "slot_read (32767 - length raw) c = Some (r, c')" using slot_read_returns by blast
  show ?case
  proof (cases r)
    case None
    then have "incoming c = []" using slot_read_incoming(1) [OF r] lt by simp
    with data show ?thesis by simp
  next
    case (Some d)
    note d = slot_read_incoming(3) [OF r Some] and c' = slot_read_some [OF r [unfolded Some], THEN conjunct2, THEN conjunct2, THEN conjunct2]
    have tot: "(raw @ d) @ incoming c' = tot" using d 1(2) by simp
    show ?thesis
    proof (cases "strpos (cstr (raw @ d)) ?t")
      case None
      obtain raw' c2 where "recv_head c' (raw @ d) = Some (Some (raw', k + 4), c2)" "raw' @ incoming c2 = tot" "k + 4 \<le> length raw'"
        "c2 = c'\<lparr> c_in := c_in c2 \<rparr>" using 1(1) [OF _ r refl Some None tot 1(3,4) None] lt by auto
      moreover have "recv_head c raw = recv_head c' (raw @ d)"
        using lt r Some None by (subst recv_head.simps) simp
      moreover from c' obtain x where "c' = c\<lparr> c_in := x \<rparr>" ..
      moreover from \<open>c2 = c'\<lparr> c_in := c_in c2 \<rparr>\<close> obtain y where "c2 = c'\<lparr> c_in := y \<rparr>" ..
      ultimately show ?thesis by simp
    next
      case k': (Some k')
      have "strpos (cstr tot) ?t = Some k'" using strpos_append [OF k'] tot cstr_append [of "raw @ d" "incoming c'"] by metis
      then have "k' = k" using 1(3) by simp
      moreover have "k' + 4 \<le> length (raw @ d)" using strpos_less [OF k'] t4 length_cstr [of "raw @ d"] by simp
      moreover have "recv_head c raw = Some (Some (raw @ d, k' + 4), c')"
        using lt r Some k' by (subst recv_head.simps) simp
      ultimately show ?thesis using tot c' by metis
    qed
  qed
qed

subsection \<open>A response as it is sent\<close>

record response =
  rs_code :: nat
  rs_reason :: string
  rs_before :: string
  rs_length :: nat
  rs_fields :: string

text \<open>The status line, fields, the content length, fields, and the blank line.\<close>

definition show_status :: "response \<Rightarrow> string" where
  "show_status r = ''HTTP/1.1 '' @ nat_str (rs_code r) @ '' '' @ rs_reason r"

definition show_head :: "response \<Rightarrow> string" where
  "show_head r = show_status r @ crlf @ rs_before r
     @ ''Content-Length: '' @ nat_str (rs_length r) @ crlf @ rs_fields r @ crlf"

text \<open>The status line is complete, with a reason of one to 127 characters; the first line called
  \<open>Content-Length\<close> is the content length; the blank line ends the head; no byte of it is zero.\<close>

definition wf_response :: "response \<Rightarrow> bool" where
  "wf_response r \<longleftrightarrow> rs_code r < 2 ^ 31 \<and> rs_length r < 2 ^ 63
     \<and> rs_reason r \<noteq> [] \<and> length (rs_reason r) < 128 \<and> CR \<notin> set (rs_reason r) \<and> LF \<notin> set (rs_reason r)
     \<and> \<not> is_space (hd (rs_reason r)) \<and> (\<forall>c \<in> set (show_head r). ord8 c \<noteq> 0)
     \<and> strcasepos (show_head r) (crlf @ ''Content-Length:'') = Some (length (show_status r @ rs_before r))
     \<and> strpos (show_head r) (crlf @ crlf) = Some (length (show_head r) - 4) \<and> length (show_head r) \<le> 32767"

lemma scan_int_space: "is_space c \<Longrightarrow> scan_int (c # s) = scan_int s"
  by (simp add: scan_int_def)

lemma scan_int_digit:
  "is_digit d \<Longrightarrow> \<not> is_digit x \<Longrightarrow> scan_int (d # x # s) = Some (int (of_char d - 48), x # s)"
  using digit_not_space [of d] by (simp add: scan_int_def Let_def digits_val_def)

lemma http_chars [simp]:
  "is_digit (CHR ''1'')" "\<not> is_digit (CHR ''.'')" "\<not> is_digit (CHR '' '')" "is_space (CHR '' '')"
  "\<not> is_digit CR" "\<not> is_digit LF" "is_space CR" "is_space LF" "CR \<noteq> LF" "LF \<noteq> CR" "tolower CR = CR" "tolower LF = LF"
  by (simp_all add: is_digit_def is_space_def CR_def LF_def tolower_def Let_def)

text \<open>After \<open>HTTP/1.1\<close> and the code comes white space of any kind, and the reason is the text up to the
  next line end behind it.\<close>

lemma scan_status_head:
  assumes "code < 2 ^ 31" "\<not> is_digit (hd ws)" "ws \<noteq> []" "\<forall>c \<in> set ws. is_space c" "\<not> is_space (hd line)" "line \<noteq> []"
    "CR \<notin> set line" "LF \<notin> set line" "rest = [] \<or> hd rest = CR"
  shows "scan_status (''HTTP/1.1 '' @ nat_str code @ ws @ line @ rest) = Some (Inr (int code, take 127 line))"
proof -
  let ?s = "ws @ line @ rest"
  have a: "scan_int (CHR ''1'' # CHR ''.'' # x) = Some (1, CHR ''.'' # x)" "scan_int (CHR ''1'' # CHR '' '' # x) = Some (1, CHR '' '' # x)" for x
    by (simp_all add: scan_int_digit)
  have "hd ?s = hd ws" using assms(3) by simp
  then have "scan_int (nat_str code @ ?s) = Some (int code, ?s)" using assms(2) by (intro scan_int_nat_str) simp
  then have c: "scan_int (CHR '' '' # nat_str code @ ?s) = Some (int code, ?s)" by (simp add: scan_int_space)
  have "dropWhile is_space ?s = line @ rest" using assms(4,5,6) by (cases line) (simp_all add: dropWhile_append2)
  moreover have "takeWhile (\<lambda>c. c \<noteq> CR \<and> c \<noteq> LF) (line @ rest) = line"
  proof -
    have "takeWhile (\<lambda>c. c \<noteq> CR \<and> c \<noteq> LF) (line @ rest) = line @ takeWhile (\<lambda>c. c \<noteq> CR \<and> c \<noteq> LF) rest"
      using assms(7,8) by (intro takeWhile_append2) auto
    then show ?thesis using assms(9) by (cases rest) auto
  qed
  ultimately show ?thesis using assms(1) by (simp add: scan_status_def a c in_int_def)
qed

lemma scan_length_at:
  assumes "n < 2 ^ 63" "\<not> is_digit (hd rest)" "rest \<noteq> []"
    and "strcasepos h (crlf @ ''Content-Length:'') = Some (length p)" "drop (length p + 17) h = '' '' @ nat_str n @ rest"
  shows "scan_content_length h = Some (Some (int n))"
proof -
  have "scan_int ('' '' @ nat_str n @ rest) = Some (int n, rest)"
    using scan_int_nat_str [of rest n] assms(2,3) by (simp add: scan_int_space)
  then have "atoll ('' '' @ nat_str n @ rest) = Some (int n)" using assms(1) by (simp add: atoll_def in_i64_def)
  then show ?thesis using assms(4,5) by (simp only: scan_content_length_def option.case option.map)
qed

lemma strcasepos_append: "strcasepos s t = Some k \<Longrightarrow> strcasepos (s @ x) t = Some k"
  by (simp add: strcasepos_def strpos_append)

lemma scan_head:
  assumes "wf_response r"
  shows "scan_status (show_head r @ x) = Some (Inr (int (rs_code r), rs_reason r))"
    and "scan_content_length (show_head r @ x) = Some (Some (int (rs_length r)))"
proof -
  let ?rest = "crlf @ rs_fields r @ crlf @ x"
  let ?tail = "crlf @ rs_before r @ ''Content-Length: '' @ nat_str (rs_length r) @ ?rest"
  have "scan_status (''HTTP/1.1 '' @ nat_str (rs_code r) @ '' '' @ rs_reason r @ ?tail) = Some (Inr (int (rs_code r), take 127 (rs_reason r)))"
    using assms by (intro scan_status_head) (auto simp: wf_response_def crlf_def)
  then show "scan_status (show_head r @ x) = Some (Inr (int (rs_code r), rs_reason r))"
    using assms by (simp add: show_head_def show_status_def wf_response_def)
  have "strcasepos (show_head r) (crlf @ ''Content-Length:'') = Some (length (show_status r @ rs_before r))"
    using assms by (simp add: wf_response_def)
  note at = strcasepos_append [OF this]
  have "length (show_status r @ rs_before r) + 17 = length (show_status r @ crlf @ rs_before r @ ''Content-Length:'')"
    by (simp add: crlf_def)
  moreover have "show_head r @ x = (show_status r @ crlf @ rs_before r @ ''Content-Length:'') @ '' '' @ nat_str (rs_length r) @ ?rest"
    by (simp add: show_head_def)
  ultimately have "drop (length (show_status r @ rs_before r) + 17) (show_head r @ x) = '' '' @ nat_str (rs_length r) @ ?rest"
    by (metis append_eq_conv_conj)
  then show "scan_content_length (show_head r @ x) = Some (Some (int (rs_length r)))"
    using assms by (intro scan_length_at [OF _ _ _ at, where rest = "?rest"]) (simp_all add: wf_response_def crlf_def)
qed

lemma receive_sent_response:
  assumes r: "wf_response r" and c: "hs_conn req = Some c" "incoming c = map ord8 (show_head r) @ body"
    and mal: "\<And>k. mal k"
  shows "\<exists>req' c' early. http_receive_headers mal req = Some (True, req')
    \<and> hs_status_code req' = int (rs_code r) \<and> hs_status_text req' = rs_reason r
    \<and> hs_resp_headers req' = take 16383 (show_head r) \<and> hs_headers_received req'
    \<and> hs_has_content_length req' \<and> hs_content_length req' = of_nat (rs_length r)
    \<and> hs_conn req' = Some c' \<and> c_open c' = c_open c \<and> early @ incoming c' = body
    \<and> hs_buf req' = (if early = [] then hs_buf req else Some (length early, early))
    \<and> hs_buf_len req' = (if early = [] then hs_buf_len req else length early) \<and> hs_buf_pos req' = hs_buf_pos req"
proof -
  let ?h = "show_head r" and ?t = "crlf @ crlf"
  let ?k = "length ?h - 4"
  have z: "\<forall>c \<in> set ?h. ord8 c \<noteq> 0" using r by (simp add: wf_response_def)
  have p: "strpos ?h ?t = Some ?k" "length ?h \<le> 32767" using r by (simp_all add: wf_response_def)
  have k: "?k + 4 = length ?h" using strpos_less [OF p(1)] by (simp add: crlf_def)
  have "strpos (cstr (map ord8 ?h @ body)) ?t = Some ?k" unfolding cstr_ord8 [OF z] by (rule strpos_append [OF p(1)])
  from recv_head_finds [of "[]" c "map ord8 ?h @ body" ?k, OF _ this] c(2) p(2) k
  obtain raw c' where rv: "recv_head c [] = Some (Some (raw, length ?h), c')" and tot: "raw @ incoming c' = map ord8 ?h @ body"
    and len: "length ?h \<le> length raw" and op: "c_open c' = c_open c"
    by (auto simp: cstr_def crlf_def) (metis conn.ext_inject conn.surjective conn.update_convs(1))
  define early where "early = drop (length ?h) raw"
  have raw: "raw = map ord8 ?h @ early" and body: "early @ incoming c' = body"
  proof -
    have "take (length ?h) raw = take (length ?h) (raw @ incoming c')" using len by simp
    then have "take (length ?h) raw = map ord8 ?h" unfolding tot by simp
    then show raw: "raw = map ord8 ?h @ early" unfolding early_def by (metis append_take_drop_id)
    with tot show "early @ incoming c' = body" by simp
  qed
  have cs: "cstr raw = ?h @ cstr early" unfolding raw by (rule cstr_ord8 [OF z])
  have dr: "drop (length ?h) raw = early" by (simp add: early_def)
  let ?req' = "store_response mal raw (length ?h) (int (rs_code r)) (rs_reason r) (Some (int (rs_length r))) (req\<lparr> hs_conn := Some c' \<rparr>)"
  have "http_receive_headers mal req = Some (True, ?req')"
    using c(1) rv scan_head [OF r] by (simp add: http_receive_headers_def cs)
  moreover have "take 16383 (take (length ?h) (cstr raw)) = take 16383 ?h" unfolding cs by simp
  ultimately show ?thesis
    using body mal op by (intro exI [of _ ?req'] exI [of _ c'] exI [of _ early]) (simp add: store_response_def Let_def dr)
qed

text \<open>C25: A well-formed response is received the same whatever the chunks it arrives in: on a
  connection (closed afterwards or kept open) that delivers first an HTTP/1.1 head of at most 32767
  bytes, with a reason of 1 to 127 characters and a \<open>Content-Length\<close> field, the first line of that name, and
  then the body, and with \<open>malloc\<close> succeeding, the call succeeds with the code, the reason, the
  content length and the head (cut at 16383 characters) that were sent; the bytes it read beyond the
  head, put before those still to come, are the body.  Heads without a reason or without a content
  length are received differently (below).\<close>

theorem response_received:
  assumes r: "wf_response r" and c: "hs_conn req = Some c" "incoming c = map ord8 (show_head r) @ body"
    and mal: "\<And>k. mal k"
  shows "\<exists>req' c' early. http_receive_headers mal req = Some (True, req')
    \<and> hs_status_code req' = int (rs_code r) \<and> hs_status_text req' = rs_reason r
    \<and> hs_resp_headers req' = take 16383 (show_head r) \<and> hs_headers_received req'
    \<and> hs_has_content_length req' \<and> hs_content_length req' = of_nat (rs_length r)
    \<and> hs_conn req' = Some c' \<and> c_open c' = c_open c \<and> early @ incoming c' = body
    \<and> hs_buf req' = (if early = [] then hs_buf req else Some (length early, early))
    \<and> hs_buf_len req' = (if early = [] then hs_buf_len req else length early) \<and> hs_buf_pos req' = hs_buf_pos req"
  by (rule receive_sent_response [OF assms])

definition demo_response :: response where
  "demo_response = \<lparr> rs_code = 200, rs_reason = ''OK'', rs_before = ''A: b'' @ crlf, rs_length = 3, rs_fields = [] \<rparr>"

lemma demo_head: "show_head demo_response = ''HTTP/1.1 200 OK'' @ crlf @ ''A: b'' @ crlf @ ''Content-Length: 3'' @ crlf @ crlf"
  by (simp add: show_head_def show_status_def demo_response_def nat_str.simps char_of_def bit_0)

lemma demo_response_wf: "wf_response demo_response"
proof -
  have "length (show_status demo_response @ rs_before demo_response) = 21"
    by (simp add: show_status_def demo_response_def nat_str.simps crlf_def)
  then show ?thesis unfolding wf_response_def demo_head
    by (simp add: demo_response_def is_space_def) (simp add: crlf_def CR_def LF_def ord8_def strcasepos_def tolower_def)
qed

text \<open>The head in two chunks, the body partly behind the second one and partly alone.\<close>

definition demo_chunks :: "u8 list list" where
  "demo_chunks = [map ord8 ''HTTP/1.1 200 OK'', map ord8 (crlf @ ''A: b'' @ crlf @ ''Content-Length: 3'' @ crlf @ crlf) @ [97, 98], [99]]"

definition demo_receiving :: WGHttpSlot where
  "demo_receiving = demo_request\<lparr> hs_conn := Some \<lparr> c_in = demo_chunks, c_open = False, c_wr = [], c_out = [], c_peer = (''a.io'', 80, False) \<rparr> \<rparr>"

theorem response_received_witness:
  "\<exists>req' c' early. http_receive_headers (\<lambda>_. True) demo_receiving = Some (True, req') \<and> hs_status_code req' = 200
    \<and> hs_status_text req' = ''OK'' \<and> hs_content_length req' = 3 \<and> hs_conn req' = Some c' \<and> early @ incoming c' = [97, 98, 99]"
proof -
  let ?c = "\<lparr> c_in = demo_chunks, c_open = False, c_wr = [], c_out = [], c_peer = (''a.io'', 80, False) \<rparr>"
  have "incoming ?c = map ord8 (show_head demo_response) @ [97, 98, 99]"
    unfolding demo_head by (simp add: incoming_def demo_chunks_def crlf_def)
  from response_received [OF demo_response_wf _ this, of demo_receiving "\<lambda>_. True"]
  show ?thesis by (auto simp: demo_receiving_def demo_response_def)
qed

subsection \<open>Reading past the line\<close>

text \<open>A status line without a reason phrase takes the next header line as the reason: the blank in
  the \<open>sscanf\<close> format skips the line end, so the text a guest is given as the status text is the first
  header field, cut at 127 characters.\<close>

theorem missing_reason_takes_header:
  assumes raw: "cstr raw = ''HTTP/1.1 '' @ nat_str code @ crlf @ line @ crlf @ rest"
    and line: "line \<noteq> []" "\<not> is_space (hd line)" "CR \<notin> set line" "LF \<notin> set line" and code: "code < 2 ^ 31"
    and recv: "hs_conn req = Some c" "recv_head c [] = Some (Some (raw, k), c')"
    and res: "http_receive_headers mal req = Some (ok, req')"
  shows "ok \<and> hs_status_code req' = int code \<and> hs_status_text req' = take 127 line"
proof -
  have "scan_status (cstr raw) = Some (Inr (int code, take 127 line))"
    unfolding raw using line code by (intro scan_status_head) (auto simp: crlf_def)
  with recv res show ?thesis
    by (auto simp: http_receive_headers_def bind_eq_Some_conv store_response_def Let_def split: option.split)
qed

text \<open>The shortest case: 204 without a reason, one header.\<close>

definition demo_204 :: "u8 list" where
  "demo_204 = map ord8 (''HTTP/1.1 204'' @ crlf @ ''A: b'' @ crlf @ crlf)"

definition slot_with :: "u8 list list \<Rightarrow> WGHttpSlot" where
  "slot_with chunks = demo_request\<lparr> hs_conn := Some \<lparr> c_in = chunks, c_open = False, c_wr = [], c_out = [], c_peer = (''a.io'', 80, False) \<rparr> \<rparr>"

lemma recv_one_chunk:
  assumes "bs \<noteq> []" "length bs \<le> 32767" "strpos (cstr bs) (crlf @ crlf) = Some k"
  shows "recv_head \<lparr> c_in = bs # cs, c_open = op, c_wr = w, c_out = out, c_peer = p \<rparr> [] = Some (Some (bs, k + 4), \<lparr> c_in = cs, c_open = op, c_wr = w, c_out = out, c_peer = p \<rparr>)"
  using assms by (subst recv_head.simps) (simp add: slot_read_def)

theorem missing_reason_takes_header_witness:
  "\<exists>req'. http_receive_headers (\<lambda>_. True) (slot_with [demo_204]) = Some (True, req') \<and> hs_status_text req' = ''A: b''"
proof -
  have z: "\<forall>c \<in> set (''HTTP/1.1 204'' @ crlf @ ''A: b'' @ crlf @ crlf). ord8 c \<noteq> 0"
    by (simp add: crlf_def CR_def LF_def ord8_def)
  have n: "nat_str 204 = ''204''" by (simp add: nat_str.simps char_of_def bit_0)
  have cs: "cstr demo_204 = ''HTTP/1.1 '' @ nat_str 204 @ crlf @ ''A: b'' @ crlf @ crlf"
    using cstr_ord8 [OF z, of "[]"] n by (simp add: demo_204_def) (simp add: cstr_def)
  have "strpos (cstr demo_204) (crlf @ crlf) = Some 18"
    unfolding cs n by (simp add: crlf_def CR_def LF_def)
  from recv_one_chunk [OF _ _ this] have rv: "recv_head \<lparr> c_in = [demo_204], c_open = False, c_wr = [], c_out = [], c_peer = p \<rparr> []
      = Some (Some (demo_204, 22), \<lparr> c_in = [], c_open = False, c_wr = [], c_out = [], c_peer = p \<rparr>)" for p
    by (simp add: demo_204_def crlf_def)
  have "scan_status (cstr demo_204) = Some (Inr (204, ''A: b''))"
    unfolding cs using scan_status_head [of 204 crlf "''A: b''" "crlf @ crlf"]
    by (simp add: is_space_def) (simp add: crlf_def CR_def LF_def is_space_def is_digit_def)
  moreover have "scan_content_length (cstr demo_204) = Some None"
    unfolding cs n by (simp add: scan_content_length_def strcasepos_def crlf_def CR_def LF_def tolower_def)
  ultimately obtain req' where res: "http_receive_headers (\<lambda>_. True) (slot_with [demo_204]) = Some (True, req')"
    by (auto simp: http_receive_headers_def slot_with_def rv)
  have "hs_conn (slot_with [demo_204]) = Some \<lparr> c_in = [demo_204], c_open = False, c_wr = [], c_out = [], c_peer = (''a.io'', 80, False) \<rparr>"
    by (simp add: slot_with_def)
  from missing_reason_takes_header [OF cs _ _ _ _ _ this rv res] res show ?thesis
    by (simp add: is_space_def CR_def LF_def)
qed

text \<open>The head of a response without a content length, and a body that looks like a header.\<close>

definition plain_head :: "u8 list" where "plain_head = map ord8 (''HTTP/1.1 200 OK'' @ crlf @ crlf)"
definition odd_body :: "u8 list" where "odd_body = map ord8 (crlf @ ''Content-Length: 7'' @ crlf)"

text \<open>The search for the content length does not stop at the end of the head: of a response that has
  no such header, the same bytes give a content length of 7 when they arrive in one chunk and none
  when the body arrives later.\<close>

theorem content_length_from_body:
  "(\<exists>r. http_receive_headers (\<lambda>_. True) (slot_with [plain_head @ odd_body]) = Some (True, r)
       \<and> hs_has_content_length r \<and> hs_content_length r = 7)
   \<and> (\<exists>r. http_receive_headers (\<lambda>_. True) (slot_with [plain_head, odd_body]) = Some (True, r)
       \<and> \<not> hs_has_content_length r)"
proof -
  have z: "\<forall>c \<in> set (''HTTP/1.1 200 OK'' @ crlf @ crlf). ord8 c \<noteq> 0" "\<forall>c \<in> set (crlf @ ''Content-Length: 7'' @ crlf). ord8 c \<noteq> 0"
    by (simp_all add: crlf_def CR_def LF_def ord8_def)
  have e: "cstr [] = []" by (simp add: cstr_def)
  have h: "cstr plain_head = ''HTTP/1.1 200 OK'' @ crlf @ crlf" using cstr_ord8 [OF z(1), of "[]"] by (simp add: plain_head_def e)
  have hb: "cstr (plain_head @ odd_body) = ''HTTP/1.1 200 OK'' @ crlf @ crlf @ crlf @ ''Content-Length: 7'' @ crlf"
    using cstr_ord8 [OF z(1), of odd_body] cstr_ord8 [OF z(2), of "[]"] by (simp add: plain_head_def odd_body_def e)
  have n: "nat_str 200 = ''200''" by (simp add: nat_str.simps char_of_def bit_0)
  have pos: "strpos (cstr plain_head) (crlf @ crlf) = Some 15" "strpos (cstr (plain_head @ odd_body)) (crlf @ crlf) = Some 15"
    unfolding h hb by (simp_all add: crlf_def CR_def LF_def)
  have st: "scan_status (cstr plain_head) = Some (Inr (200, ''OK''))" "scan_status (cstr (plain_head @ odd_body)) = Some (Inr (200, ''OK''))"
    unfolding h hb using scan_status_head [of 200 "'' ''" "''OK''"]
    by (simp_all add: n is_space_def is_digit_def crlf_def CR_def LF_def)
  have c1: "scan_content_length (cstr plain_head) = Some None"
    unfolding h by (simp add: scan_content_length_def strcasepos_def crlf_def CR_def LF_def tolower_def)
  have c2: "scan_content_length (cstr (plain_head @ odd_body)) = Some (Some 7)"
    unfolding hb by (simp add: scan_content_length_def strcasepos_def crlf_def CR_def LF_def tolower_def
        atoll_def scan_int_def is_space_def is_digit_def digits_val_def in_i64_def)
  have len: "plain_head \<noteq> []" "length plain_head \<le> 32767" "length (plain_head @ odd_body) \<le> 32767"
    by (simp_all add: plain_head_def odd_body_def crlf_def)
  note rv = recv_one_chunk [OF _ _ pos(1)] recv_one_chunk [OF _ _ pos(2)]
  show ?thesis using len rv st c1 c2
    by (simp add: http_receive_headers_def slot_with_def store_response_def Let_def) (simp add: demo_request_def http_zero_def)
qed

end
