(* ===== verification/Http_Body.thy ===== *)
theory Http_Body
  imports Http_Response
begin

section \<open>The body of a response\<close>

text \<open>
  The body is one sequence of bytes: what is buffered behind \<open>buf_pos\<close>, then what the connection
  still delivers.  \<open>WinHttpReadData\<close> takes from its front and \<open>WinHttpQueryDataAvailable\<close> leaves it
  as it is, so a guest that reads until nothing comes receives exactly the body when the server closes the
  connection behind it.  On a connection that is kept open a read may wait for ever; that, and the two
  states in which the code leaves its buffer, are shown as well.
\<close>

definition body_ok :: "WGHttpSlot \<Rightarrow> bool" where
  "body_ok s \<longleftrightarrow> hs_buf_len s < 2 ^ 64 \<and> hs_buf_pos s \<le> hs_buf_len s
     \<and> (case hs_buf s of None \<Rightarrow> hs_buf_len s = 0
        | Some (sz, bs) \<Rightarrow> length bs = hs_buf_len s \<and> hs_buf_len s \<le> sz)"

definition in_buffer_bytes :: "WGHttpSlot \<Rightarrow> u8 list" where
  "in_buffer_bytes s = (case hs_buf s of None \<Rightarrow> [] | Some (_, bs) \<Rightarrow> drop (hs_buf_pos s) bs)"

definition to_come :: "WGHttpSlot \<Rightarrow> u8 list" where
  "to_come s = (case hs_conn s of None \<Rightarrow> [] | Some c \<Rightarrow> incoming c)"

definition body_of :: "WGHttpSlot \<Rightarrow> u8 list" where
  "body_of s = in_buffer_bytes s @ to_come s"

text \<open>The peer closes the connection after its data.\<close>

definition ends :: "WGHttpSlot \<Rightarrow> bool" where
  "ends s = (case hs_conn s of None \<Rightarrow> True | Some c \<Rightarrow> \<not> c_open c)"

lemma ends_frame [simp]:
  "ends (s\<lparr> hs_total_body_read := t \<rparr>) = ends s" "ends (s\<lparr> hs_buf_pos := p \<rparr>) = ends s"
  "ends (s\<lparr> hs_conn := Some c \<rparr>) = (\<not> c_open c)"
  by (simp_all add: ends_def)

lemma body_frame [simp]:
  "body_ok (s\<lparr> hs_conn := c \<rparr>) = body_ok s" "in_buffer_bytes (s\<lparr> hs_conn := c \<rparr>) = in_buffer_bytes s"
  "body_of (s\<lparr> hs_total_body_read := t \<rparr>) = body_of s" "body_ok (s\<lparr> hs_total_body_read := t \<rparr>) = body_ok s"
  by (auto simp: body_of_def body_ok_def in_buffer_bytes_def to_come_def split: option.split)

lemma buffered_ok: "body_ok s \<Longrightarrow> buffered s = length (in_buffer_bytes s)"
proof -
  assume ok: "body_ok s"
  then have "hs_buf_pos s \<le> hs_buf_len s" "hs_buf_len s < 2 ^ 64" by (simp_all add: body_ok_def)
  then have "unat (of_nat (hs_buf_len s) - of_nat (hs_buf_pos s) :: u64) = hs_buf_len s - hs_buf_pos s"
    by (subst unat_sub) (simp_all add: word_le_nat_alt unat_of_nat)
  moreover have "length (in_buffer_bytes s) = hs_buf_len s - hs_buf_pos s"
    using ok by (auto simp: body_ok_def in_buffer_bytes_def split: option.splits)
  ultimately show ?thesis by (simp add: buffered_def)
qed

text \<open>\<open>ws\<close> are writes of consecutive pieces of \<open>bs\<close> from \<open>ptr\<close> on.\<close>

fun writes_at :: "u32 \<Rightarrow> guest_writes \<Rightarrow> u8 list \<Rightarrow> bool" where
  "writes_at ptr [] bs = (bs = [])"
| "writes_at ptr ((a, b) # ws) bs \<longleftrightarrow>
     a = ucast ptr \<and> take (length b) bs = b \<and> writes_at (ptr + of_nat (length b)) ws (drop (length b) bs)"

lemma writes_at_concat: "writes_at ptr ws bs \<Longrightarrow> concat (map snd ws) = bs"
  by (induction ptr ws bs rule: writes_at.induct) (auto, metis append_take_drop_id)

subsection \<open>Reading\<close>

lemma read_data_step:
  assumes s: "typed_slot HT_REQUEST (args 0) wh = Some req" and ok: "body_ok req" and mal: "\<And>k. mal k"
    and ret: "ends req \<or> unat (args 2) \<le> length (in_buffer_bytes req) \<or> to_come req \<noteq> []"
  shows "\<exists>total ws req'. WinHttpReadData mal args wh = Some (1, ws @ put32 (args 3) (of_nat total), put_slot (args 0) req' wh)
    \<and> total \<le> unat (args 2) \<and> writes_at (args 1) ws (take total (body_of req)) \<and> total \<le> length (body_of req)
    \<and> body_of req' = drop total (body_of req) \<and> body_ok req' \<and> hs_type req' = HT_REQUEST \<and> hs_in_use req' = hs_in_use req
    \<and> (total = 0 \<longrightarrow> args 2 = 0 \<or> body_of req = []) \<and> ends req' = ends req"
proof -
  let ?b = "in_buffer_bytes req" and ?n = "unat (args 2)"
  define give where "give = min (length ?b) ?n"
  let ?req1 = "req\<lparr> hs_buf_pos := hs_buf_pos req + give \<rparr>"
  have ty: "hs_type req = HT_REQUEST" using s by (simp add: typed_slot_Some)
  have gl: "give \<le> length ?b" "give \<le> ?n" by (simp_all add: give_def)
  have served: "(case hs_buf req of None \<Rightarrow> [] | Some (_, bs) \<Rightarrow> take give (drop (hs_buf_pos req) bs)) = take give ?b"
    by (auto simp: in_buffer_bytes_def split: option.split)
  have ok1: "body_ok ?req1" and b1: "in_buffer_bytes ?req1 = drop give ?b"
    using ok gl by (auto simp: body_ok_def in_buffer_bytes_def add.commute split: option.splits)
  have okc: "body_ok (?req1\<lparr> hs_conn := c \<rparr>)" "in_buffer_bytes (?req1\<lparr> hs_conn := c \<rparr>) = drop give ?b" for c
    using ok1 b1 by simp_all
  define w1 where "w1 = (if 0 < length ?b then [(ucast (args 1) :: u64, take give ?b)] else [])"
  have w1: "writes_at (args 1) (w1 @ ws) bs" if "bs = take give ?b @ x" "writes_at (args 1 + of_nat give) ws x" for ws bs x
    using that gl by (auto simp: w1_def min_absorb2)
  define q where "q = (case hs_conn ?req1 of None \<Rightarrow> Some (None, ?req1)
                 | Some c \<Rightarrow> if 0 < ?n - give \<and> mal (min (?n - give) 65536)
                     then map_option (\<lambda>(r, c'). (r, ?req1\<lparr> hs_conn := Some c' \<rparr>)) (slot_read (min (?n - give) 65536) c)
                     else Some (None, ?req1))"
  have rd: "\<exists>r c'. slot_read (min (?n - give) 65536) c = Some (r, c')" if "hs_conn req = Some c" "0 < ?n - give" for c
    using that ret by (intro slot_read_returns) (auto simp: ends_def to_come_def give_def min_def split: if_splits)
  obtain got req2 where g: "q = Some (got, req2)"
    using rd by (fastforce simp: q_def split: option.split)
  define total where "total = give + (case got of None \<Rightarrow> 0 | Some d \<Rightarrow> length d)"
  define req' where "req' = req2\<lparr> hs_total_body_read := hs_total_body_read req2 + total \<rparr>"
  define w2 where "w2 = (case got of None \<Rightarrow> [] | Some d \<Rightarrow> [(ucast (args 1 + of_nat give) :: u64, d)])"
  have res: "WinHttpReadData mal args wh = Some (1, (w1 @ w2) @ put32 (args 3) (of_nat total), put_slot (args 0) req' wh)"
    unfolding WinHttpReadData_def
    by (simp only: s option.case Let_def buffered_ok [OF ok] give_def [symmetric] served length_take q_def [symmetric] g bind.bind_lunit prod.case)
       (simp add: gl w1_def w2_def total_def req'_def split: option.split)
  consider (none) "got = None" "req2 = ?req1 \<or> (\<exists>c. req2 = ?req1\<lparr> hs_conn := c \<rparr> \<and> c = hs_conn req)" "?n \<le> give \<or> to_come req = []"
    | (some) d c' where "got = Some d" "req2 = ?req1\<lparr> hs_conn := Some c' \<rparr>" "d @ incoming c' = to_come req" "d \<noteq> []" "length d \<le> ?n - give" "0 < ?n - give"
      "ends req = (\<not> c_open c')"
  proof (cases "hs_conn req")
    case None
    then have "got = None" "req2 = ?req1" "to_come req = []" using g by (simp_all add: q_def to_come_def)
    then show thesis by (intro none) simp_all
  next
    case (Some c)
    show thesis
    proof (cases "0 < ?n - give")
      case False
      then have "got = None" "req2 = ?req1" "?n \<le> give" using g Some by (simp_all add: q_def)
      then show thesis by (intro none) simp_all
    next
      case True
      obtain r c' where r: "slot_read (min (?n - give) 65536) c = Some (r, c')" using rd [OF Some True] by blast
      have gr: "got = r" "req2 = ?req1\<lparr> hs_conn := Some c' \<rparr>" using g Some True mal r by (simp_all add: q_def)
      show thesis
      proof (cases r)
        case None
        then have "c' = c" "incoming c = []" using slot_read_incoming(1,2) [OF r] True by simp_all
        then show thesis using None gr Some by (intro none) (auto simp: to_come_def)
      next
        case rd: (Some d)
        then show thesis using gr slot_read_incoming(3) [OF r rd] slot_read_open [OF r] True Some
          by (intro some [of d c']) (auto simp: to_come_def ends_def)
      qed
    qed
  qed
  then show ?thesis
  proof cases
    case none
    have t: "total = give" "w2 = []" by (simp_all add: total_def w2_def none(1))
    have tc: "to_come req2 = to_come req" "in_buffer_bytes req2 = drop give ?b" "body_ok req2" "ends req2 = ends req"
      using none(2) b1 ok1 okc by (auto simp: to_come_def ends_def)
    have "take total (body_of req) = take give ?b" using gl by (simp add: t body_of_def)
    moreover have "body_of req' = drop total (body_of req)" using tc gl by (simp add: req'_def t) (simp add: body_of_def)
    moreover have "total = 0 \<longrightarrow> args 2 = 0 \<or> body_of req = []"
      using none(3) by (auto simp: t body_of_def unat_eq_0 give_def min_def split: if_splits)
    moreover have "hs_type req' = HT_REQUEST" "hs_in_use req' = hs_in_use req" using none(2) ty by (auto simp: req'_def)
    ultimately show ?thesis
      using res tc gl w1 [of "take give ?b" "[]" "[]"]
      by (intro exI [of _ total] exI [of _ "w1 @ w2"] exI [of _ req']) (simp add: t req'_def body_of_def)
  next
    case some
    have give: "give = length ?b" using some(6) by (simp add: give_def)
    have t: "total = length ?b + length d" using some(1) give by (simp add: total_def)
    have b: "body_of req = ?b @ d @ incoming c'" using some(3) by (simp add: body_of_def)
    have "writes_at (args 1) (w1 @ w2) (take total (body_of req))"
      using give by (intro w1 [of _ d]) (simp_all add: w2_def some(1) b t)
    moreover have "body_of req' = drop total (body_of req)"
      using okc(2) give by (simp add: req'_def some(2) t b) (simp add: body_of_def to_come_def)
    moreover have "body_ok req'" using okc(1) by (simp add: req'_def some(2))
    moreover have "hs_type req' = HT_REQUEST" "hs_in_use req' = hs_in_use req" using ty by (simp_all add: req'_def some(2))
    moreover have "total \<noteq> 0" "total \<le> unat (args 2)" "total \<le> length (body_of req)" using some(4,5,6) give by (simp_all add: t b)
    moreover have "ends req' = ends req" using some(7) by (simp add: req'_def some(2))
    ultimately show ?thesis using res by blast
  qed
qed

subsection \<open>A guest that reads until nothing comes\<close>

text \<open>The bytes a call delivered are its writes but for the last, which is the count.\<close>

fun guest_download :: "(nat \<Rightarrow> bool) \<Rightarrow> http_args \<Rightarrow> nat \<Rightarrow> WGWinHttp \<Rightarrow> (u8 list \<times> WGWinHttp) option" where
  "guest_download mal args 0 wh = None"
| "guest_download mal args (Suc k) wh =
     (case WinHttpReadData mal args wh of None \<Rightarrow> None
      | Some (r, w, wh') \<Rightarrow>
          let d = concat (map snd (butlast w))
          in if d = [] then Some ([], wh') else map_option (\<lambda>(ds, wh''). (d @ ds, wh'')) (guest_download mal args k wh'))"

lemma download_body:
  assumes "wf_http wh" "typed_slot HT_REQUEST (args 0) wh = Some req" "body_ok req" "\<And>k. mal k" "ends req"
    and "args 2 \<noteq> 0" "args 3 \<noteq> 0" "length (body_of req) < k"
  shows "\<exists>wh'. guest_download mal args k wh = Some (body_of req, wh')"
  using assms(1,2,3,5,8)
proof (induction k arbitrary: wh req)
  case (Suc k)
  obtain total ws req' where st: "WinHttpReadData mal args wh = Some (1, ws @ put32 (args 3) (of_nat total), put_slot (args 0) req' wh)"
    and w: "writes_at (args 1) ws (take total (body_of req))" "total \<le> length (body_of req)"
    and b: "body_of req' = drop total (body_of req)" "body_ok req'" "hs_type req' = HT_REQUEST" "hs_in_use req' = hs_in_use req"
    and e: "total = 0 \<longrightarrow> args 2 = 0 \<or> body_of req = []" "ends req'"
    using read_data_step [where args = args and mal = mal, OF Suc.prems(2,3) assms(4)] Suc.prems(4) by blast
  have g: "get_slot (args 0) wh = Some req" using Suc.prems(2) by (simp add: typed_slot_Some)
  note gs = get_slot_Some [OF g]
  have d: "concat (map snd (butlast (ws @ put32 (args 3) (of_nat total)))) = take total (body_of req)"
    using writes_at_concat [OF w(1)] assms(7) by (simp add: put32_def butlast_append)
  have wf': "wf_http (put_slot (args 0) req' wh)"
    using wf_http_body(2) [OF Suc.prems(1) st] .
  have t': "typed_slot HT_REQUEST (args 0) (put_slot (args 0) req' wh) = Some req'"
    using gs b(3,4) Suc.prems(1) by (simp add: typed_slot_Some get_put_slot wf_http_def)
  show ?case
  proof (cases "total = 0")
    case True
    with e assms(6) st d show ?thesis by simp
  next
    case False
    then have "length (body_of req') < k" "take total (body_of req) \<noteq> []" using Suc.prems(5) w(2) b(1) by auto
    with Suc.IH [OF wf' t' b(2) e(2)] obtain wh' where "guest_download mal args k (put_slot (args 0) req' wh) = Some (body_of req', wh')" by blast
    then show ?thesis using \<open>take total (body_of req) \<noteq> []\<close> b(1)
      by (simp only: guest_download.simps st option.case prod.case Let_def d) simp
  qed
qed simp

lemma redirect_loop_stops: "\<not> is_redirect (hs_status_code req) \<Longrightarrow> redirect_loop mal wh k req n = Some (req, n)"
  by (cases k) simp_all

lemma store_response_frame:
  "hs_type (store_response mal raw k code stext cl req) = hs_type req"
  "hs_in_use (store_response mal raw k code stext cl req) = hs_in_use req"
  by (simp_all add: store_response_def Let_def split: option.split)

lemma receive_headers_frame:
  assumes "http_receive_headers mal req = Some (ok, req')"
  shows "hs_type req' = hs_type req \<and> hs_in_use req' = hs_in_use req"
  using assms
proof (cases rule: receive_headers_cases)
  case 1
  from 1(2) obtain c where "req' = req\<lparr> hs_conn := c \<rparr>" ..
  then show ?thesis by simp
qed (simp add: store_response_frame)

lemma receive_then:
  assumes wf: "wf_http wh" and t: "typed_slot HT_REQUEST (args 0) wh = Some req" and c: "hs_conn req = Some c"
    and r: "http_receive_headers mal req = Some (True, req')" "\<not> is_redirect (hs_status_code req')" "hs_headers_received req'"
    and wh1: "wh1 = put_slot (args 0) req' wh"
  shows "WinHttpReceiveResponse mal args wh = Some (1, [], wh1)" "wf_http wh1" "typed_slot HT_REQUEST (args 0) wh1 = Some req'"
proof -
  show res: "WinHttpReceiveResponse mal args wh = Some (1, [], wh1)"
    using t c r by (simp add: WinHttpReceiveResponse_def redirect_loop_stops wh1 put_slot_def)
  show "wf_http wh1" by (rule wf_http_receive [OF wf res])
  show "typed_slot HT_REQUEST (args 0) wh1 = Some req'"
    using t receive_headers_frame [OF r(1)] get_slot_Some [of "args 0" wh req] wf
    by (simp add: typed_slot_Some wh1 get_put_slot wf_http_def)
qed


lemma demo_slot_type: "typed_slot HT_REQUEST 0x3002 (put_slot 0x3002 (demo_request\<lparr> hs_conn := c \<rparr>) (demo_http n)) = Some (demo_request\<lparr> hs_conn := c \<rparr>)"
  "wf_http (put_slot 0x3002 (demo_request\<lparr> hs_conn := c \<rparr>) (demo_http n))"
proof -
  have w: "wf_http (demo_http n)" by (rule http_reach_wf [OF demo_http_reach [of "\<lambda>_. True"]])
  have "http_range 0x3002" using get_slot_Some [OF demo_slots(1)] by simp
  with w show "typed_slot HT_REQUEST 0x3002 (put_slot 0x3002 (demo_request\<lparr> hs_conn := c \<rparr>) (demo_http n)) = Some (demo_request\<lparr> hs_conn := c \<rparr>)"
    by (simp add: typed_slot_Some get_put_slot wf_http_def) (simp add: demo_request_def)
  show "wf_http (put_slot 0x3002 (demo_request\<lparr> hs_conn := c \<rparr>) (demo_http n))"
    using wf_put_slot [OF w] wf_get_slot [OF w demo_slots(1)] by (simp add: wf_slot_conn)
qed

definition demo_read :: "nat \<Rightarrow> http_args" where
  "demo_read n = (\<lambda>i. if i = 0 then 0x3002 else if i = 1 then 0x8000 else if i = 2 then of_nat n else 0x7000)"


subsection \<open>Where the buffer is left\<close>

lemma receive_one_chunk:
  assumes r: "wf_response r" and c: "hs_conn req = Some c" "c_in c = (map ord8 (show_head r) @ early) # cs"
    and len: "length (show_head r) + length early \<le> 32767"
  shows "http_receive_headers mal req = Some (True, store_response mal (map ord8 (show_head r) @ early) (length (show_head r))
      (int (rs_code r)) (rs_reason r) (Some (int (rs_length r))) (req\<lparr> hs_conn := Some (c\<lparr> c_in := cs \<rparr>) \<rparr>))"
proof -
  let ?h = "show_head r"
  have z: "\<forall>c \<in> set ?h. ord8 c \<noteq> 0" and p: "strpos ?h (crlf @ crlf) = Some (length ?h - 4)" using r by (simp_all add: wf_response_def)
  have k: "length ?h - 4 + 4 = length ?h" using strpos_less [OF p] by (simp add: crlf_def)
  note cs = cstr_ord8 [OF z, of early]
  have "strpos (cstr (map ord8 ?h @ early)) (crlf @ crlf) = Some (length ?h - 4)" unfolding cs by (rule strpos_append [OF p])
  moreover have "map ord8 ?h @ early \<noteq> []" using k by auto
  ultimately have "recv_head c [] = Some (Some (map ord8 ?h @ early, length ?h), c\<lparr> c_in := cs \<rparr>)"
    using c(2) len k by (subst recv_head.simps) (simp add: slot_read_def)
  then show ?thesis using c(1) scan_head [OF r] by (simp add: http_receive_headers_def cs)
qed

lemma store_early:
  assumes "early \<noteq> []" "\<And>k. mal k" and q: "q = store_response mal (map ord8 h @ early) (length h) code stext (Some v) req"
  shows "hs_buf q = Some (length early, early)" "hs_buf_len q = length early" "hs_buf_pos q = hs_buf_pos req"
    "hs_conn q = hs_conn req" "hs_has_content_length q" "hs_content_length q = word_of_int v" "hs_status_code q = code"
    "hs_total_body_read q = hs_total_body_read req" "hs_headers_received q"
  using assms(1,2) by (simp_all add: q store_response_def Let_def)

text \<open>C26: The refill of \<open>WinHttpQueryDataAvailable\<close> overruns its buffer: when the head arrives together with
  the first bytes of the body, the buffer is allocated for just these; after the guest has read them,
  asking how much is available reads the next chunk into it as if it had 65536 bytes, and a chunk
  longer than those first bytes is written past its end.  (The read itself returns that chunk: the
  call is undefined because of the overrun, not because it waits.)\<close>

theorem data_available_overflow:
  assumes wf: "wf_http wh" and t: "typed_slot HT_REQUEST (args 0) wh = Some req" and r: "wf_response r" "\<not> is_redirect (int (rs_code r))"
    and c: "hs_conn req = Some c" "c_in c = [map ord8 (show_head r) @ early, late]" "length (show_head r) + length early \<le> 32767"
    and e: "early \<noteq> []" "length early < length late" "length late \<le> 65536" "length early < rs_length r"
    and fresh: "hs_buf_pos req = 0" "hs_total_body_read req = 0" and mal: "\<And>k. mal k"
    and a: "args 2 = of_nat (length early)" "args' 0 = args 0"
  shows "\<exists>wh1 w wh2. WinHttpReceiveResponse mal args wh = Some (1, [], wh1)
    \<and> WinHttpReadData mal args wh1 = Some (1, w, wh2) \<and> w = [(ucast (args 1), early)] @ put32 (args 3) (of_nat (length early))
    \<and> WinHttpQueryDataAvailable mal args' wh2 = None
    \<and> (\<exists>req2 c2. typed_slot HT_REQUEST (args' 0) wh2 = Some req2 \<and> hs_buf req2 = Some (length early, early) \<and> hs_conn req2 = Some c2
       \<and> slot_read 65536 c2 = Some (Some late, c2\<lparr> c_in := [] \<rparr>))"
proof -
  let ?c = "c\<lparr> c_in := [late] \<rparr>"
  define q where "q = store_response mal (map ord8 (show_head r) @ early) (length (show_head r)) (int (rs_code r)) (rs_reason r)
    (Some (int (rs_length r))) (req\<lparr> hs_conn := Some ?c \<rparr>)"
  have rc: "http_receive_headers mal req = Some (True, q)" unfolding q_def by (rule receive_one_chunk [OF r(1) c])
  note s = store_early [OF e(1) mal q_def]
  define wh1 where "wh1 = put_slot (args 0) q wh"
  note rt = receive_then [where args = args, OF wf t c(1) rc _ s(9) wh1_def]
  have nr: "\<not> is_redirect (hs_status_code q)" using r(2) s(7) by simp
  define q2 where "q2 = q\<lparr> hs_buf_pos := length early, hs_total_body_read := length early \<rparr>"
  have len: "unat (of_nat (length early) :: u32) = length early" using c(3) by (simp add: unat_of_nat)
  have bq: "buffered q = length early" using c(3) by (simp add: buffered_def s fresh unat_of_nat)
  have rd: "WinHttpReadData mal args wh1 = Some (1, [(ucast (args 1), early)] @ put32 (args 3) (of_nat (length early)), put_slot (args 0) q2 wh1)"
    using rt(3) [OF nr] e(1) by (simp add: WinHttpReadData_def Let_def bq a(1) len s fresh q2_def)
  have g: "get_slot (args 0) wh1 = Some q" "hs_type q = HT_REQUEST" using rt(3) [OF nr] by (simp_all add: typed_slot_Some)
  have iu: "hs_in_use q2" "hs_type q2 = HT_REQUEST" using get_slot_Some [OF g(1)] g(2) by (simp_all add: q2_def)
  have t2: "typed_slot HT_REQUEST (args' 0) (put_slot (args 0) q2 wh1) = Some q2"
    using get_slot_Some [OF g(1)] iu rt(2) [OF nr] a(2) by (simp add: typed_slot_Some get_put_slot wf_http_def)
  have f: "hs_buf q2 = Some (length early, early)" "hs_buf_len q2 = length early" "hs_buf_pos q2 = length early" "hs_conn q2 = Some ?c"
    "hs_has_content_length q2" "hs_content_length q2 = of_nat (rs_length r)" "hs_total_body_read q2 = length early"
    using s by (simp_all add: q2_def)
  have "buffered q2 = 0" by (simp add: buffered_def f)
  moreover have "unat (hs_content_length q2) = rs_length r" using r(1) by (simp add: f wf_response_def unat_of_nat)
  moreover have "late \<noteq> []" using e(2) by auto
  moreover from this have rl: "slot_read 65536 ?c = Some (Some late, ?c\<lparr> c_in := [] \<rparr>)" using e(3) by (simp add: slot_read_def)
  ultimately have "WinHttpQueryDataAvailable mal args' (put_slot (args 0) q2 wh1) = None"
    using t2 e f by (simp add: WinHttpQueryDataAvailable_def refill_def Let_def)
  with rt(1) [OF nr] rd t2 f(1,4) rl show ?thesis by blast
qed

definition demo_two_chunks :: conn where
  "demo_two_chunks = \<lparr> c_in = [map ord8 (show_head demo_response) @ [97], [98, 99]], c_open = True, c_wr = [], c_out = [], c_peer = (''a.io'', 80, False) \<rparr>"

lemma demo_args_sel: "demo_read k 0 = 0x3002" "demo_read k 1 = 0x8000" "demo_read k 2 = of_nat k" "demo_read k 3 = 0x7000"
  by (simp_all add: demo_read_def)

lemma demo_head_length: "length (show_head demo_response) = 44"
  unfolding demo_head by (simp add: crlf_def)

lemma demo_two_chunks_in: "c_in demo_two_chunks = [map ord8 (show_head demo_response) @ [97], [98, 99]]"
  by (simp add: demo_two_chunks_def)

lemma demo_response_sel: "rs_code demo_response = 200" "rs_length demo_response = 3"
  by (simp_all add: demo_response_def)

theorem data_available_overflow_witness:
  "\<exists>wh1 w wh2. WinHttpReceiveResponse (\<lambda>_. True) (demo_read 1) (put_slot 0x3002 (demo_request\<lparr> hs_conn := Some demo_two_chunks \<rparr>) (demo_http no_net)) = Some (1, [], wh1)
    \<and> WinHttpReadData (\<lambda>_. True) (demo_read 1) wh1 = Some (1, w, wh2)
    \<and> WinHttpQueryDataAvailable (\<lambda>_. True) (demo_read 0) wh2 = None"
proof -
  have "hs_buf_pos demo_request = 0" "hs_total_body_read demo_request = 0" by (simp_all add: demo_request_def http_zero_def)
  then show ?thesis
    using data_available_overflow [OF demo_slot_type(2), of "demo_read 1" "Some demo_two_chunks" no_net "demo_request\<lparr> hs_conn := Some demo_two_chunks \<rparr>"
        demo_response demo_two_chunks "[97]" "[98, 99]" "\<lambda>_. True" "demo_read 0"] demo_response_wf demo_slot_type(1) [of "Some demo_two_chunks" no_net]
    by (auto simp: demo_args_sel [simplified] demo_args_sel demo_head_length demo_two_chunks_in demo_response_sel is_redirect_def)
qed

text \<open>A guest may wait for ever for a body it has: when the whole body, as long as the head announces,
  arrives together with the head and the server keeps the connection open, as every request asks it
  to, a guest whose buffer is longer than the body never gets it.  \<open>WinHttpReadData\<close> copies what is
  buffered, then reads on from the socket without looking at the content length, and that \<open>read\<close> does
  not return; when the server closes the connection the same call delivers the body.\<close>

theorem kept_alive_blocks:
  assumes wf: "wf_http wh" and t: "typed_slot HT_REQUEST (args 0) wh = Some req" and r: "wf_response r" "\<not> is_redirect (int (rs_code r))"
    and c: "hs_conn req = Some c" "c_in c = [map ord8 (show_head r) @ body]" "length (show_head r) + length body \<le> 32767"
    and b: "body \<noteq> []" "rs_length r = length body" "length body < unat (args 2)"
    and fresh: "hs_buf_pos req = 0" and mal: "\<And>k. mal k"
  shows "\<exists>wh1 wh2. WinHttpReceiveResponse mal args wh = Some (1, [], wh1)
    \<and> WinHttpReadData mal args wh1
      = (if c_open c then None else Some (1, [(ucast (args 1), body)] @ put32 (args 3) (of_nat (length body)), wh2))"
proof -
  define q where "q = store_response mal (map ord8 (show_head r) @ body) (length (show_head r)) (int (rs_code r)) (rs_reason r)
    (Some (int (rs_length r))) (req\<lparr> hs_conn := Some (c\<lparr> c_in := [] \<rparr>) \<rparr>)"
  have rc: "http_receive_headers mal req = Some (True, q)" unfolding q_def by (rule receive_one_chunk [OF r(1) c])
  note s = store_early [OF b(1) mal q_def]
  note rt = receive_then [where args = args, OF wf t c(1) rc _ s(9) refl]
  have nr: "\<not> is_redirect (hs_status_code q)" using r(2) s(7) by simp
  have bq: "buffered q = length body" using c(3) by (simp add: buffered_def s fresh unat_of_nat)
  have "\<exists>wh2. WinHttpReadData mal args (put_slot (args 0) q wh)
      = (if c_open c then None else Some (1, [(ucast (args 1), body)] @ put32 (args 3) (of_nat (length body)), wh2))"
    using rt(3) [OF nr] b(1,3) by (simp add: WinHttpReadData_def Let_def bq s fresh slot_read_def mal)
  with rt(1) [OF nr] show ?thesis by blast
qed

definition demo_kept :: conn where
  "demo_kept = \<lparr> c_in = [map ord8 (show_head demo_response) @ [97, 98, 99]], c_open = True, c_wr = [], c_out = [], c_peer = (''a.io'', 80, False) \<rparr>"

theorem kept_alive_blocks_witness:
  "\<exists>wh1. WinHttpReceiveResponse (\<lambda>_. True) (demo_read 4) (put_slot 0x3002 (demo_request\<lparr> hs_conn := Some demo_kept \<rparr>) (demo_http no_net)) = Some (1, [], wh1)
    \<and> WinHttpReadData (\<lambda>_. True) (demo_read 4) wh1 = None"
proof -
  have "hs_buf_pos demo_request = 0" by (simp add: demo_request_def http_zero_def)
  moreover have "c_in demo_kept = [map ord8 (show_head demo_response) @ [97, 98, 99]]" "c_open demo_kept" by (simp_all add: demo_kept_def)
  ultimately show ?thesis
    using kept_alive_blocks [OF demo_slot_type(2), of "demo_read 4" "Some demo_kept" no_net "demo_request\<lparr> hs_conn := Some demo_kept \<rparr>"
        demo_response demo_kept "[97, 98, 99]" "\<lambda>_. True"] demo_response_wf demo_slot_type(1) [of "Some demo_kept" no_net]
    by (auto simp: demo_args_sel [simplified] demo_args_sel demo_head_length demo_response_sel is_redirect_def)
qed

text \<open>A second response on the same request starts at the old position: \<open>http_receive_headers\<close> does not
  reset \<open>buf_pos\<close>, so when fewer body bytes arrive with the new head than the guest had read from the
  buffer before, the number of bytes said to be buffered wraps around and the next read takes bytes
  from beyond the buffer.\<close>

theorem second_response_position:
  assumes wf: "wf_http wh" and t: "typed_slot HT_REQUEST (args 0) wh = Some req" and r: "wf_response r" "\<not> is_redirect (int (rs_code r))"
    and c: "hs_conn req = Some c" "c_in c = (map ord8 (show_head r) @ early) # cs" "length (show_head r) + length early \<le> 32767"
    and e: "early \<noteq> []" "length early < hs_buf_pos req" "hs_buf_pos req < 2 ^ 32" and mal: "\<And>k. mal k" and a: "args 2 \<noteq> 0"
  shows "\<exists>wh1. WinHttpReceiveResponse mal args wh = Some (1, [], wh1) \<and> WinHttpReadData mal args wh1 = None"
proof -
  define q where "q = store_response mal (map ord8 (show_head r) @ early) (length (show_head r)) (int (rs_code r)) (rs_reason r)
    (Some (int (rs_length r))) (req\<lparr> hs_conn := Some (c\<lparr> c_in := cs \<rparr>) \<rparr>)"
  have rc: "http_receive_headers mal req = Some (True, q)" unfolding q_def by (rule receive_one_chunk [OF r(1) c])
  note s = store_early [OF e(1) mal q_def]
  note rt = receive_then [where args = args, OF wf t c(1) rc _ s(9) refl]
  have nr: "\<not> is_redirect (hs_status_code q)" using r(2) s(7) by simp
  let ?e = "length early" and ?p = "hs_buf_pos req"
  have u: "uint (of_nat ?e :: u64) = int ?e" "uint (of_nat ?p :: u64) = int ?p"
    using e unfolding uint_nat by (simp_all add: unat_of_nat)
  then have "uint (of_nat ?e - of_nat ?p :: u64) = int ?e - int ?p + 2 ^ 64" using e(2) by (simp add: uint_sub_if')
  then have "int (buffered q) = int ?e - int ?p + 2 ^ 64" by (simp add: buffered_def s)
  then have big: "2 ^ 32 \<le> buffered q" using e(3) by simp
  have "min (buffered q) (unat (args 2)) = unat (args 2)" using big unat_lt32 [of "args 2"] by simp
  moreover have "0 < unat (args 2)" using a by (simp add: unat_gt_0)
  ultimately have "WinHttpReadData mal args (put_slot (args 0) q wh) = None"
    using rt(3) [OF nr] e(2) by (simp add: WinHttpReadData_def Let_def s)
  with rt(1) [OF nr] show ?thesis by blast
qed

theorem second_response_position_witness:
  "\<exists>wh1. WinHttpReceiveResponse (\<lambda>_. True) (demo_read 4) (put_slot 0x3002 (demo_request\<lparr> hs_conn := Some demo_two_chunks \<rparr>\<lparr> hs_buf_pos := 3 \<rparr>) (demo_http no_net)) = Some (1, [], wh1)
    \<and> WinHttpReadData (\<lambda>_. True) (demo_read 4) wh1 = None"
proof -
  let ?req = "demo_request\<lparr> hs_conn := Some demo_two_chunks \<rparr>\<lparr> hs_buf_pos := 3 \<rparr>"
  have w: "wf_http (demo_http no_net)" by (rule http_reach_wf [OF demo_http_reach [of "\<lambda>_. True"]])
  have "http_range 0x3002" using get_slot_Some [OF demo_slots(1)] by simp
  with w have t: "typed_slot HT_REQUEST 0x3002 (put_slot 0x3002 ?req (demo_http no_net)) = Some ?req"
    by (simp add: typed_slot_Some get_put_slot wf_http_def) (simp add: demo_request_def)
  have wf: "wf_http (put_slot 0x3002 ?req (demo_http no_net))"
    using wf_put_slot [OF w] wf_get_slot [OF w demo_slots(1)] by (simp add: wf_slot_def)
  show ?thesis
    using second_response_position [OF wf, of "demo_read 4" ?req demo_response demo_two_chunks "[97]" "[[98, 99]]" "\<lambda>_. True"] demo_response_wf t
    by (simp add: demo_args_sel demo_head_length demo_two_chunks_in demo_response_sel is_redirect_def)
qed

text \<open>Asking how much is available changes nothing about the body, and with a buffer of full size (the
  one it allocates itself) it reports bytes that are there; it reports none only at the body's end.\<close>

lemma data_available_step:
  assumes t: "typed_slot HT_REQUEST (args 0) wh = Some req" and ok: "body_ok req" and c: "hs_conn req = Some c" and mal: "\<And>k. mal k"
    and ret: "\<not> c_open c \<or> incoming c \<noteq> []" and full: "\<And>sz bs. hs_buf req = Some (sz, bs) \<Longrightarrow> 65536 \<le> sz"
  shows "\<exists>k req'. WinHttpQueryDataAvailable mal args wh = Some (1, put32 (args 1) (of_nat k), put_slot (args 0) req' wh)
    \<and> body_of req' = body_of req \<and> body_ok req' \<and> k \<le> length (body_of req)
    \<and> (k = 0 \<longrightarrow> body_of req = [] \<or> hs_has_content_length req \<and> unat (hs_content_length req) \<le> hs_total_body_read req)"
proof (cases "buffered req = 0 \<and> \<not> (hs_has_content_length req \<and> unat (hs_content_length req) \<le> hs_total_body_read req)")
  case False
  with t c ok show ?thesis
    by (intro exI [of _ "buffered req"] exI [of _ req])
       (auto simp: WinHttpQueryDataAvailable_def buffered_ok body_of_def)
next
  case True
  then have nb: "in_buffer_bytes req = []" using buffered_ok [OF ok] by simp
  define q where "q = req\<lparr> hs_buf := Some (case hs_buf req of None \<Rightarrow> 65536 | Some (sz, _) \<Rightarrow> sz, []), hs_buf_len := 0, hs_buf_pos := 0 \<rparr>"
  obtain r c' where sr: "slot_read 65536 c = Some (r, c')" using slot_read_returns [OF ret] by blast
  obtain sz where sz: "hs_buf q = Some (sz, [])" "65536 \<le> sz" using full by (cases "hs_buf req") (auto simp: q_def)
  have same: "(case hs_buf req of
             None \<Rightarrow> req\<lparr> hs_buf := (if mal 65536 then Some (65536, []) else None), hs_buf_len := 0, hs_buf_pos := 0 \<rparr>
           | Some (sz, bs) \<Rightarrow> (if 0 < hs_buf_pos req then req\<lparr> hs_buf := Some (sz, []), hs_buf_len := 0, hs_buf_pos := 0 \<rparr> else req)) = q"
  proof (cases "hs_buf req")
    case None
    then show ?thesis by (simp add: q_def mal)
  next
    case (Some b)
    obtain sz bs where b: "b = (sz, bs)" by fastforce
    show ?thesis
    proof (cases "0 < hs_buf_pos req")
      case True
      then show ?thesis by (simp add: q_def Some b)
    next
      case False
      then have "hs_buf req = Some (sz, [])" "hs_buf_len req = 0" "hs_buf_pos req = 0"
        using ok nb Some b by (simp_all add: body_ok_def in_buffer_bytes_def)
      then have "q = req" unfolding q_def by (cases req) simp
      then show ?thesis by (simp add: Some b False)
    qed
  qed
  define q' where "q' = (case r of None \<Rightarrow> q\<lparr> hs_conn := Some c' \<rparr>
      | Some d \<Rightarrow> q\<lparr> hs_conn := Some c', hs_buf := Some (sz, d), hs_buf_len := length d \<rparr>)"
  have ld: "r = Some d \<Longrightarrow> length d \<le> 65536" for d using slot_read_incoming(3) [OF sr] by blast
  have q0: "hs_buf_len q = 0" by (simp add: q_def)
  have rf: "refill mal req c = Some q'"
  proof (cases r)
    case None
    then show ?thesis unfolding refill_def same by (simp add: Let_def q0 sz sr q'_def)
  next
    case (Some d)
    have "length d \<le> sz" by (rule le_trans [OF ld [OF Some] sz(2)])
    then show ?thesis unfolding refill_def same Let_def q0 sz(1) diff_zero sr q'_def Some option.case prod.case
      by (simp del: of_nat_less_iff)
  qed
  have tc: "body_of q' = body_of req" "body_ok q'"
    using slot_read_incoming [OF sr] c nb sz ld
    by (auto simp: q'_def q_def body_of_def in_buffer_bytes_def to_come_def body_ok_def split: option.splits)
  have "buffered q' = 0 \<longrightarrow> body_of req = []"
    using tc slot_read_incoming [OF sr] c
    by (auto simp: buffered_ok body_of_def q'_def q_def in_buffer_bytes_def to_come_def split: option.splits)
  moreover have "buffered q' \<le> length (body_of req)"
    unfolding tc(1) [symmetric] using buffered_ok [OF tc(2)] by (simp add: body_of_def)
  moreover have "WinHttpQueryDataAvailable mal args wh = Some (1, put32 (args 1) (of_nat (buffered q')), put_slot (args 0) q' wh)"
    using t c True rf by (simp add: WinHttpQueryDataAvailable_def)
  ultimately show ?thesis using tc by (intro exI [of _ "buffered q'"] exI [of _ q']) simp
qed

end
