(* ===== verification/Http_Calls.thy ===== *)
theory Http_Calls
  imports Http_Body
begin

section \<open>Headers, redirects and handles\<close>

text \<open>
  The header search against a reference that works line by line, the buffer protocol of the
  queries, how far redirects are followed and to whom, and what the reuse of handles does to a
  request.
\<close>

subsection \<open>Looking up a header\<close>

text \<open>The reference: the lines of the head, and the first of them that starts with the name.\<close>

function head_lines :: "string \<Rightarrow> string list" where
  "head_lines s = takeWhile (\<lambda>c. c \<noteq> LF) s #
     (case dropWhile (\<lambda>c. c \<noteq> LF) s of [] \<Rightarrow> [] | _ # r \<Rightarrow> head_lines r)"
  by pat_completeness auto
termination
proof (relation "measure length", goal_cases)
  case (2 s x r)
  have "length (dropWhile (\<lambda>c. c \<noteq> LF) s) \<le> length s" by (rule length_dropWhile_le)
  with 2 show ?case by simp
qed simp

declare head_lines.simps [simp del]

definition blank :: "char \<Rightarrow> bool" where "blank c \<longleftrightarrow> c = CHR '' '' \<or> c = CHR 0x09"

definition ref_header :: "string \<Rightarrow> string \<Rightarrow> string option" where
  "ref_header headers name =
     map_option (\<lambda>l. header_line (dropWhile blank (drop (length name) l)))
       (find (\<lambda>l. starts_with_nocase l name) (head_lines headers))"

text \<open>Between the two: a scan of the characters that knows whether it is at the start of a line.\<close>

fun line_match :: "string \<Rightarrow> bool \<Rightarrow> string \<Rightarrow> string option" where
  "line_match name b [] = (if b \<and> name = [] then Some [] else None)"
| "line_match name b (c # s) =
     (if b \<and> starts_with_nocase (c # s) name then Some (drop (length name) (c # s)) else line_match name (c = LF) s)"

lemma starts_nocase_strpos:
  "starts_with_nocase s t \<longleftrightarrow> take (length t) (map tolower s) = map tolower t"
  by (simp add: starts_with_nocase_def take_map)

lemma strcasepos_Nil: "strcasepos [] t = (if t = [] then Some 0 else None)"
  by (simp add: strcasepos_def)

lemma strcasepos_Cons:
  "strcasepos (c # s) t = (if starts_with_nocase (c # s) t then Some 0 else map_option Suc (strcasepos s t))"
  by (simp add: strcasepos_def starts_nocase_strpos)

lemma line_match_None: "name \<noteq> [] \<Longrightarrow> strcasepos s name = None \<Longrightarrow> line_match name b s = None"
  by (induction s arbitrary: b) (auto simp: strcasepos_Cons split: if_splits)

lemma line_match_skip:
  "strcasepos s name = Some k \<Longrightarrow> name \<noteq> [] \<Longrightarrow>
    line_match name b s = line_match name (if k = 0 then b else s ! (k - 1) = LF) (drop k s) \<and> starts_with_nocase (drop k s) name"
proof (induction s arbitrary: b k)
  case (Cons c s)
  show ?case
  proof (cases "starts_with_nocase (c # s) name")
    case True
    with Cons.prems show ?thesis by (simp add: strcasepos_Cons)
  next
    case False
    with Cons.prems obtain j where j: "strcasepos s name = Some j" "k = Suc j" by (auto simp: strcasepos_Cons)
    show ?thesis using Cons.IH [OF j(1) Cons.prems(2), of "c = LF"] False j(2) by (cases j) auto
  qed
qed (simp add: strcasepos_Nil)

lemma line_match_over:
  assumes "LF \<notin> set (take n s)" "n \<le> length s" "0 < n"
  shows "line_match name False s = line_match name False (drop n s)"
  using assms
proof (induction n arbitrary: s)
  case (Suc n)
  then obtain c r where s: "s = c # r" by (cases s) auto
  show ?case
  proof (cases n)
    case 0
    with Suc.prems s show ?thesis by auto
  next
    case (Suc m)
    with Suc.prems Suc.IH [of r] s show ?thesis by auto
  qed
qed simp

lemma tolower_LF: "tolower c = LF \<Longrightarrow> c = LF"
  by (cases "65 \<le> (of_char c :: nat) \<and> (of_char c :: nat) \<le> 90")
     (auto simp: tolower_def Let_def LF_def dest: arg_cong [where f = "of_char :: char \<Rightarrow> nat"])

lemma line_match_hit: "starts_with_nocase s name \<Longrightarrow> line_match name True s = Some (drop (length name) s)"
  by (cases s) (auto simp: starts_with_nocase_def)

lemma starts_no_LF: "starts_with_nocase s name \<Longrightarrow> LF \<notin> set name \<Longrightarrow> LF \<notin> set (take (length name) s)"
proof
  assume a: "starts_with_nocase s name" "LF \<notin> set name" "LF \<in> set (take (length name) s)"
  have eq: "map tolower (take (length name) s) = map tolower name" using a(1) by (simp add: starts_with_nocase_def)
  have "tolower LF \<in> set (map tolower (take (length name) s))" using a(3) by (simp only: set_map image_eqI)
  then have "LF \<in> set (map tolower name)" unfolding eq by simp
  then obtain x where "x \<in> set name" "tolower x = LF" by auto
  with tolower_LF [of x] a(2) show False by simp
qed

lemma find_header_scan:
  assumes "name \<noteq> []" "LF \<notin> set name" "p \<le> length h"
  shows "find_header_from h name p = map_option (dropWhile blank) (line_match name (p = 0 \<or> h ! (p - 1) = LF) (drop p h))"
  using assms
proof (induction h name p rule: find_header_from.induct)
  case (1 h name p)
  let ?n = "length name"
  show ?case
  proof (cases "strcasepos (drop p h) name")
    case None
    then show ?thesis using line_match_None [OF 1(2)] by (subst find_header_from.simps) simp
  next
    case (Some k)
    let ?q = "p + k"
    have le: "k + ?n \<le> length h - p" using strpos_less [OF Some [unfolded strcasepos_def]] by simp
    have dq: "drop k (drop p h) = drop ?q h" by (simp add: add.commute)
    note sk = line_match_skip [OF Some 1(2), of "p = 0 \<or> h ! (p - 1) = LF", unfolded dq]
    have st: "starts_with_nocase (drop ?q h) name" using sk ..
    have b: "(if k = 0 then p = 0 \<or> h ! (p - 1) = LF else drop p h ! (k - 1) = LF) = (?q = 0 \<or> h ! (?q - 1) = LF)"
      using le 1(2) by auto
    show ?thesis
    proof (cases "?q = 0 \<or> h ! (?q - 1) = LF")
      case True
      have "blank = (\<lambda>c. c = CHR '' '' \<or> c = CHR 0x09)" by (simp add: fun_eq_iff blank_def)
      then show ?thesis using Some True sk b line_match_hit [OF st]
        by (subst find_header_from.simps) (simp add: add.commute)
    next
      case False
      have "LF \<notin> set (take ?n (drop ?q h))" by (rule starts_no_LF [OF st 1(3)])
      note over = line_match_over [OF this, of name]
      have n: "0 < ?n" "?q + ?n \<le> length h" "?n \<le> length (drop ?q h)" using 1(2,4) le by auto
      have "h ! (?q + ?n - 1) \<in> set (take ?n (drop ?q h))"
      proof -
        have "?q + (?n - 1) = ?q + ?n - 1" using n(1) by arith
        then have "drop ?q h ! (?n - 1) = h ! (?q + ?n - 1)" using n(2) nth_drop [of ?q h "?n - 1"] by simp
        moreover have "take ?n (drop ?q h) ! (?n - 1) \<in> set (take ?n (drop ?q h))" using n by (intro nth_mem) simp
        ultimately show ?thesis using n by simp
      qed
      then have nl: "h ! (?q + ?n - 1) \<noteq> LF" using \<open>LF \<notin> set (take ?n (drop ?q h))\<close> by metis
      have "find_header_from h name p = find_header_from h name (?q + ?n)"
        using Some False 1(2) by (subst find_header_from.simps) (simp, blast)
      also have "\<dots> = map_option (dropWhile blank) (line_match name (?q + ?n = 0 \<or> h ! (?q + ?n - 1) = LF) (drop (?q + ?n) h))"
        using Some False 1 n by simp
      also have "\<dots> = map_option (dropWhile blank) (line_match name False (drop ?q h))"
        using over n nl by (simp add: add.commute)
      finally have fin: "find_header_from h name p = map_option (dropWhile blank) (line_match name False (drop ?q h))" .
      have bF: "(if k = 0 then p = 0 \<or> h ! (p - 1) = LF else drop p h ! (k - 1) = LF) = False" using b False by blast
      show ?thesis unfolding fin using sk [unfolded bF] by (simp only: option.map)
    qed
  qed
qed

lemma take_in_line: "LF \<notin> set (take n s) \<Longrightarrow> take n s = take n (takeWhile (\<lambda>c. c \<noteq> LF) s)"
proof (induction s arbitrary: n)
  case (Cons c s)
  then show ?case by (cases n) auto
qed simp

lemma starts_in_line:
  assumes "name \<noteq> []" "LF \<notin> set name"
  shows "starts_with_nocase s name = starts_with_nocase (takeWhile (\<lambda>c. c \<noteq> LF) s) name"
proof
  assume a: "starts_with_nocase s name"
  then show "starts_with_nocase (takeWhile (\<lambda>c. c \<noteq> LF) s) name"
    using take_in_line [OF starts_no_LF [OF a assms(2)]] by (simp add: starts_with_nocase_def)
next
  let ?l = "takeWhile (\<lambda>c. c \<noteq> LF) s"
  assume a: "starts_with_nocase ?l name"
  then have "map tolower (take (length name) ?l) = map tolower name" by (simp add: starts_with_nocase_def)
  then have "length name \<le> length ?l" by (metis length_map length_take min.absorb_iff2 min.commute)
  then have "take (length name) ?l = take (length name) s" by (metis min.absorb_iff2 min.commute take_take takeWhile_eq_take)
  with a show "starts_with_nocase s name" by (simp add: starts_with_nocase_def)
qed

lemma line_match_next:
  "name \<noteq> [] \<Longrightarrow> (b \<Longrightarrow> \<not> starts_with_nocase s name) \<Longrightarrow>
    line_match name b s = (case dropWhile (\<lambda>c. c \<noteq> LF) s of [] \<Rightarrow> None | _ # r \<Rightarrow> line_match name True r)"
  by (induction s arbitrary: b) auto

lemma header_line_cut: "d = [] \<or> hd d = LF \<Longrightarrow> header_line (dropWhile blank (u @ d)) = header_line (dropWhile blank u)"
proof (induction u)
  case Nil
  have "\<not> blank LF" by (simp add: blank_def LF_def)
  with Nil show ?case by (cases d) (simp_all add: header_line_def)
next
  case (Cons c u)
  have "takeWhile (\<lambda>c. c \<noteq> CR \<and> c \<noteq> LF) (v @ d) = takeWhile (\<lambda>c. c \<noteq> CR \<and> c \<noteq> LF) v" for v
    using Cons.prems by (induction v) (cases d, auto)
  from this [of "c # u"] Cons show ?case by (auto simp: header_line_def)
qed

lemma line_match_lines:
  assumes "name \<noteq> []" "LF \<notin> set name"
  shows "map_option (\<lambda>v. header_line (dropWhile blank v)) (line_match name True s) = ref_header s name"
proof (induction s rule: head_lines.induct)
  case (1 s)
  let ?l = "takeWhile (\<lambda>c. c \<noteq> LF) s" and ?d = "dropWhile (\<lambda>c. c \<noteq> LF) s"
  have d: "?d = [] \<or> hd ?d = LF" by (metis (mono_tags) hd_dropWhile)
  show ?case
  proof (cases "starts_with_nocase s name")
    case True
    then have "starts_with_nocase ?l name" using starts_in_line [OF assms] by blast
    then have "map tolower (take (length name) ?l) = map tolower name" by (simp add: starts_with_nocase_def)
    then have "length name \<le> length ?l" by (metis length_map length_take min.absorb_iff2 min.commute)
    then have "drop (length name) s = drop (length name) ?l @ ?d" by (metis drop_append diff_is_0_eq drop0 takeWhile_dropWhile_id)
    with True starts_in_line [OF assms, of s] header_line_cut [OF d] show ?thesis
      by (simp add: ref_header_def line_match_hit head_lines.simps [of s])
  next
    case False
    then have "line_match name True s = (case ?d of [] \<Rightarrow> None | _ # r \<Rightarrow> line_match name True r)"
      by (intro line_match_next assms(1))
    moreover have "ref_header s name = (case ?d of [] \<Rightarrow> None | _ # r \<Rightarrow> ref_header r name)"
      using False starts_in_line [OF assms, of s]
      by (cases ?d) (simp_all only: ref_header_def head_lines.simps [of s] list.case find.simps if_False option.map)
    ultimately show ?thesis using 1 by (cases ?d) auto
  qed
qed

lemma header_search:
  assumes "name \<noteq> []" "LF \<notin> set name"
  shows "map_option header_line (find_header_value headers name) = ref_header headers name"
  using find_header_scan [OF assms, of 0 headers] line_match_lines [OF assms, of headers]
  by (simp add: find_header_value_def option.map_comp o_def)

text \<open>C23: The header search finds what a line-by-line search finds: the value that \<open>find_header_value\<close>
  returns for a name, cut at the line's end as its callers cut it, is the value of the first line that
  starts with the name (in any case of letters), and there is none exactly when no line does.\<close>

theorem header_search_ref:
  assumes "name \<noteq> []" "LF \<notin> set name"
  shows "map_option header_line (find_header_value headers name) = ref_header headers name"
  by (rule header_search [OF assms])

theorem header_search_ref_witness:
  "map_option header_line (find_header_value (''HTTP/1.1 302'' @ crlf @ ''X-Location: a'' @ crlf @ ''location:  /b'' @ crlf @ crlf) ''Location:'')
     = Some ''/b''"
proof -
  let ?h = "''HTTP/1.1 302'' @ crlf @ ''X-Location: a'' @ crlf @ ''location:  /b'' @ crlf @ crlf"
  have "LF \<notin> set ''Location:''" by (simp add: LF_def)
  from header_search_ref [OF _ this, of ?h]
  have "map_option header_line (find_header_value ?h ''Location:'') = ref_header ?h ''Location:''" by simp
  also have "\<dots> = Some ''/b''"
    by (simp add: ref_header_def head_lines.simps starts_with_nocase_def crlf_def CR_def LF_def tolower_def header_line_def blank_def char_of_def bit_0)
  finally show ?thesis .
qed

subsection \<open>Redirects\<close>

lemma connect_log:
  "http_connect_to host port ssl req n = (ok, req', n') \<Longrightarrow> net_log n' = net_log n @ [(host, port, ssl)]"
  by (auto simp: http_connect_to_def Let_def split: dial.splits list.splits)

lemma redirect_loop_log:
  "redirect_loop mal wh k req n = Some (req', n') \<Longrightarrow> \<exists>l. net_log n' = net_log n @ l \<and> length l \<le> k"
proof (induction k arbitrary: req n)
  case (Suc k)
  show ?case
  proof (cases "\<not> is_redirect (hs_status_code req) \<or> find_header_value (hs_resp_headers req) ''Location:'' = None")
    case True
    with Suc.prems show ?thesis by (auto split: if_splits option.splits)
  next
    case False
    then obtain loc where loc: "is_redirect (hs_status_code req)" "find_header_value (hs_resp_headers req) ''Location:'' = Some loc" by auto
    from Suc.prems loc obtain host port ssl path where t: "redirect_target wh req (header_line loc) = Some (host, port, ssl, path)"
      by (auto simp: bind_eq_Some_conv)
    let ?req = "redirect_reset path ssl req"
    obtain ok req1 n1 where c: "http_connect_to host port ssl ?req n = (ok, req1, n1)" by (metis surj_pair)
    note lg = connect_log [OF c]
    show ?thesis
    proof (cases "host = [] \<or> \<not> ok")
      case True
      with Suc.prems loc t c have "n' = n \<or> n' = n1" by (auto simp: Let_def split: if_splits)
      then show ?thesis using lg by auto
    next
      case False
      with Suc.prems loc t c have r: "do { (ok, req) \<leftarrow> http_send_req req1 host [];
           if \<not> ok then Some (req, n1) else
           do { (ok, req) \<leftarrow> http_receive_headers mal req;
                if \<not> ok then Some (req, n1) else redirect_loop mal wh k req n1 } } = Some (req', n')"
        by (simp add: Let_def)
      then consider "n' = n1" | req2 where "redirect_loop mal wh k req2 n1 = Some (req', n')"
        by (auto simp: bind_eq_Some_conv split: if_splits)
      then show ?thesis
      proof cases
        case 2
        from Suc.IH [OF this] lg show ?thesis by auto
      qed (use lg in auto)
    qed
  qed
qed auto

text \<open>C27: Following redirects ends after five: \<open>WinHttpReceiveResponse\<close> opens at most five connections,
  each recorded once in the order it was tried, whatever the servers answer.\<close>

theorem redirects_bounded:
  assumes "WinHttpReceiveResponse mal args wh = Some (r, w, wh')"
  shows "\<exists>l. net_log (wh_net wh') = net_log (wh_net wh) @ l \<and> length l \<le> 5"
proof (cases "typed_slot HT_REQUEST (args 0) wh")
  case None
  with assms show ?thesis by (simp add: WinHttpReceiveResponse_def)
next
  case (Some req)
  show ?thesis
  proof (cases "wh_net wh' = wh_net wh")
    case False
    with assms Some obtain req1 req2 where "redirect_loop mal wh 5 req1 (wh_net wh) = Some (req2, wh_net wh')"
      by (auto simp: WinHttpReceiveResponse_def bind_eq_Some_conv split: if_splits)
    from redirect_loop_log [OF this] show ?thesis .
  qed simp
qed

text \<open>A redirect to another server, which cannot be reached.\<close>

definition demo_redirect :: response where
  "demo_redirect = \<lparr> rs_code = 302, rs_reason = ''F'', rs_before = [], rs_length = 0, rs_fields = ''Location: http://b/'' @ crlf \<rparr>"

lemma demo_redirect_head:
  "show_head demo_redirect = ''HTTP/1.1 302 F'' @ crlf @ ''Content-Length: 0'' @ crlf @ ''Location: http://b/'' @ crlf @ crlf"
  by (simp add: show_head_def show_status_def demo_redirect_def nat_str.simps char_of_def bit_0)

lemma demo_redirect_wf: "wf_response demo_redirect"
proof -
  have "strpos (show_head demo_redirect) (crlf @ crlf) = Some (length (show_head demo_redirect) - 4)"
    unfolding demo_redirect_head by code_simp
  moreover have "length (show_status demo_redirect @ rs_before demo_redirect) = 14"
    by (simp add: show_status_def demo_redirect_def nat_str.simps)
  moreover have "strcasepos (show_head demo_redirect) (crlf @ ''Content-Length:'') = Some 14"
    unfolding demo_redirect_head by code_simp
  moreover have "\<forall>c \<in> set (show_head demo_redirect). ord8 c \<noteq> 0"
    unfolding demo_redirect_head by (simp add: crlf_def CR_def LF_def ord8_def)
  moreover have "length (show_head demo_redirect) \<le> 32767" unfolding demo_redirect_head by (simp add: crlf_def)
  ultimately show ?thesis unfolding wf_response_def by (simp add: demo_redirect_def is_space_def CR_def LF_def)
qed

lemma demo_redirect_location:
  "map_option header_line (find_header_value (show_head demo_redirect) ''Location:'') = Some ''http://b/''"
proof -
  have "LF \<notin> set ''Location:''" by (simp add: LF_def)
  from header_search [OF _ this, of "show_head demo_redirect"]
  have "map_option header_line (find_header_value (show_head demo_redirect) ''Location:'') = ref_header (show_head demo_redirect) ''Location:''" by simp
  also have "\<dots> = Some ''http://b/''"
    unfolding demo_redirect_head
    by (simp add: ref_header_def head_lines.simps starts_with_nocase_def crlf_def CR_def LF_def tolower_def header_line_def blank_def char_of_def bit_0)
  finally show ?thesis .
qed

definition demo_redirected :: conn where
  "demo_redirected = \<lparr> c_in = [map ord8 (show_head demo_redirect)], c_open = False, c_wr = [], c_out = [], c_peer = (''a.io'', 80, False) \<rparr>"

theorem redirects_bounded_witness:
  "\<exists>wh' l. WinHttpReceiveResponse (\<lambda>_. True) (demo_read 0) (put_slot 0x3002 (demo_request\<lparr> hs_conn := Some demo_redirected \<rparr>)
      (demo_http \<lparr> net_dials = [], net_log = [] \<rparr>)) = Some (0, [], wh') \<and> net_log (wh_net wh') = [(''b'', 80, False)] @ l \<and> length l \<le> 4"
proof -
  let ?n = "\<lparr> net_dials = [], net_log = [] \<rparr>" and ?req = "demo_request\<lparr> hs_conn := Some demo_redirected \<rparr>"
  let ?q = "store_response (\<lambda>_. True) (map ord8 (show_head demo_redirect) @ []) (length (show_head demo_redirect)) (int (rs_code demo_redirect))
     (rs_reason demo_redirect) (Some (int (rs_length demo_redirect))) (?req\<lparr> hs_conn := Some (demo_redirected\<lparr> c_in := [] \<rparr>) \<rparr>)"
  have len: "length (show_head demo_redirect) \<le> 32767" using demo_redirect_wf by (simp add: wf_response_def)
  have rc: "http_receive_headers (\<lambda>_. True) ?req = Some (True, ?q)"
    by (rule receive_one_chunk [OF demo_redirect_wf]) (use len in \<open>simp_all add: demo_redirected_def\<close>)
  have z: "\<forall>c \<in> set (show_head demo_redirect). ord8 c \<noteq> 0" using demo_redirect_wf by (simp add: wf_response_def)
  have "length (show_head demo_redirect) \<le> 16383" unfolding demo_redirect_head by (simp add: crlf_def)
  then have q: "hs_status_code ?q = 302" "hs_resp_headers ?q = show_head demo_redirect" "hs_headers_received ?q"
    using cstr_ord8 [OF z, of "[]"] by (simp_all add: store_response_def Let_def demo_redirect_def cstr_def)
  obtain loc where loc: "find_header_value (show_head demo_redirect) ''Location:'' = Some loc" "header_line loc = ''http://b/''"
    using demo_redirect_location by auto
  have t: "redirect_target wh r ''http://b/'' = Some (''b'', 80, False, Some ''/'')" for wh r
    by (simp add: redirect_target_def starts_with_nocase_def tolower_def split_authority_def copy_host_def)
  obtain r where "redirect_loop (\<lambda>_. True) wh 5 ?q ?n = Some (r, \<lparr> net_dials = [], net_log = [(''b'', 80, False)] \<rparr>) \<and> \<not> hs_headers_received r" for wh
  proof -
    have "redirect_loop (\<lambda>_. True) wh (Suc 4) ?q ?n = Some (redirect_reset (Some ''/'') False ?q, \<lparr> net_dials = [], net_log = [(''b'', 80, False)] \<rparr>)" for wh
      using loc t by (simp only: redirect_loop.simps q) (simp add: is_redirect_def http_connect_to_def)
    then show thesis using that [of "redirect_reset (Some ''/'') False ?q"] by (simp add: redirect_reset_def)
  qed
  then obtain wh' where res: "WinHttpReceiveResponse (\<lambda>_. True) (demo_read 0) (put_slot 0x3002 ?req (demo_http ?n)) = Some (0, [], wh')"
      and net: "wh_net wh' = \<lparr> net_dials = [], net_log = [(''b'', 80, False)] \<rparr>"
    using demo_slot_type(1) [of "Some demo_redirected" ?n] rc
    by (simp add: WinHttpReceiveResponse_def demo_args_sel) (simp add: demo_http_def)
  from redirects_bounded [OF res] net res show ?thesis by (auto simp: demo_http_def)
qed

text \<open>A relative redirect goes back to the server the request was opened on: the host the redirect
  itself came from, reached by an earlier redirect, is not asked again; the next connection is to the
  server of the request's connection handle, with the port of that handle.\<close>

theorem relative_redirect_original_host:
  assumes st: "is_redirect (hs_status_code req)" and loc: "find_header_value (hs_resp_headers req) ''Location:'' = Some loc"
    "header_line loc = CHR ''/'' # path"
    and con: "get_slot (hs_connect_h req) wh = Some con" "hs_server con \<noteq> []" "length (hs_server con) < 512"
    and peer: "hs_conn req = Some c" "fst (c_peer c) \<noteq> hs_server con"
    and res: "redirect_loop mal wh (Suc k) req n = Some (req', n')"
  shows "\<exists>port l. net_log n' = net_log n @ (hs_server con, port, hs_use_ssl req) # l \<and> hs_server con \<noteq> fst (c_peer c)"
proof -
  have no: "\<not> starts_with_nocase (CHR ''/'' # path) ''https://''" "\<not> starts_with_nocase (CHR ''/'' # path) ''http://''"
    by (simp_all add: starts_with_nocase_def tolower_def)
  have cut: "cut 512 (hs_server con) = hs_server con" using con(3) by (simp add: cut_def)
  obtain port where t: "redirect_target wh req (header_line loc) = Some (hs_server con, port, hs_use_ssl req, Some (CHR ''/'' # path))"
    using no con(1) cut loc(2) by (simp add: redirect_target_def)
  let ?req = "redirect_reset (Some (CHR ''/'' # path)) (hs_use_ssl req) req"
  obtain ok req1 n1 where c: "http_connect_to (hs_server con) port (hs_use_ssl req) ?req n = (ok, req1, n1)" by (metis surj_pair)
  note lg = connect_log [OF c]
  have "n' = n1 \<or> (\<exists>req2. redirect_loop mal wh k req2 n1 = Some (req', n'))"
    using res st loc(1) t c con(2) by (auto simp: bind_eq_Some_conv split: if_splits)
  then obtain l where "net_log n' = net_log n1 @ l" using redirect_loop_log by fastforce
  with lg peer(2) show ?thesis by auto
qed

theorem relative_redirect_original_host_witness:
  "\<exists>req' n' port l. redirect_loop (\<lambda>_. True) (demo_http \<lparr> net_dials = [], net_log = [] \<rparr>) (Suc 3)
       (demo_request\<lparr> hs_status_code := 302, hs_resp_headers := ''Location: /x'' @ crlf,
          hs_conn := Some \<lparr> c_in = [], c_open = False, c_wr = [], c_out = [], c_peer = (''b'', 80, False) \<rparr> \<rparr>) \<lparr> net_dials = [], net_log = [(''b'', 80, False)] \<rparr> = Some (req', n')
     \<and> net_log n' = [(''b'', 80, False)] @ (''a.io'', port, False) # l"
proof -
  let ?n = "\<lparr> net_dials = [], net_log = [(''b'', 80, False)] \<rparr>" and ?wh = "demo_http \<lparr> net_dials = [], net_log = [] \<rparr>"
  let ?c = "\<lparr> c_in = [], c_open = False, c_wr = [], c_out = [], c_peer = (''b'', 80, False) \<rparr>"
  let ?req = "demo_request\<lparr> hs_status_code := 302, hs_resp_headers := ''Location: /x'' @ crlf, hs_conn := Some ?c \<rparr>"
  have "LF \<notin> set ''Location:''" by (simp add: LF_def)
  from header_search [OF _ this, of "''Location: /x'' @ crlf"]
  have "map_option header_line (find_header_value (''Location: /x'' @ crlf) ''Location:'') = ref_header (''Location: /x'' @ crlf) ''Location:''" by simp
  also have "\<dots> = Some ''/x''"
    by (simp add: ref_header_def head_lines.simps starts_with_nocase_def crlf_def CR_def LF_def tolower_def header_line_def blank_def)
  finally obtain loc where loc: "find_header_value (hs_resp_headers ?req) ''Location:'' = Some loc" "header_line loc = ''/x''"
    by auto
  have con: "get_slot (hs_connect_h ?req) ?wh = Some demo_connection" using demo_slots(2) by (simp add: demo_request_def)
  have srv: "hs_server demo_connection = ''a.io''" "hs_port demo_connection = 80" "hs_use_ssl ?req = False"
    by (simp_all add: demo_connection_def demo_request_def http_zero_def)
  have t: "redirect_target ?wh ?req ''/x'' = Some (''a.io'', 80, False, Some ''/x'')"
    unfolding redirect_target_def con by (simp add: srv starts_with_nocase_def tolower_def cut_def) (simp add: demo_request_def http_zero_def)
  have res: "redirect_loop (\<lambda>_. True) ?wh (Suc 3) ?req ?n = Some (redirect_reset (Some ''/x'') False ?req, ?n\<lparr> net_log := [(''b'', 80, False), (''a.io'', 80, False)] \<rparr>)"
    using loc t by (simp only: redirect_loop.simps) (simp add: is_redirect_def http_connect_to_def)
  from relative_redirect_original_host [OF _ loc(1) _ con _ _ _ _ res, of x ?c for x] loc(2) res srv
  show ?thesis by (auto simp: is_redirect_def)
qed

subsection \<open>The buffer protocol of the queries\<close>

definition query_need :: "string \<Rightarrow> u32" where "query_need str = of_nat ((length str + 1) * 2)"

lemma unat_query_need: "length str < 16384 \<Longrightarrow> unat (query_need str) = 2 * length str + 2"
  by (simp only: query_need_def unat_of_nat) simp

lemma query_text_short: "get32 rd buflen < query_need str \<Longrightarrow>
  query_text rd buf buflen str wh = Some (0, put32 buflen (query_need str), wh\<lparr> wh_last_error := ERROR_INSUFFICIENT_BUFFER \<rparr>)"
  by (simp add: query_text_def query_need_def Let_def)

lemma query_text_long:
  assumes "query_need str \<le> get32 rd buflen" "length str < 16384" "buf \<noteq> 0"
  shows "query_text rd buf buflen str wh
    = Some (1, (ucast buf, wide (take 2047 str) @ [0, 0]) # put32 buflen (query_need str), wh)"
proof -
  let ?m = "get32 rd buflen div 2"
  have "2 * length str + 2 \<le> unat (get32 rd buflen)" using assms(1) unat_query_need [OF assms(2)] by (simp add: word_le_nat_alt)
  then have "length str < unat ?m" by (simp add: unat_div)
  then have m: "int (length str) < uint ?m" by (simp only: uint_nat of_nat_less_iff)
  have "write_wstr_to buf str (uint ?m) = Some [(ucast buf, wide (take 2047 str) @ [0, 0])]"
    using assms(3) m by (auto simp: write_wstr_to_def Let_def nat_less_iff intro!: arg_cong [where f = wide])
  then show ?thesis using assms(1) by (simp add: query_text_def query_need_def Let_def not_less)
qed

text \<open>The two calls a guest makes to read the response's head: with too small a buffer the call fails
  with ERROR_INSUFFICIENT_BUFFER and writes nothing but the size that is needed; with a buffer of
  that size the call succeeds, and writes the head with its terminator and the same size.  The text
  is cut at 2047 characters, so of a longer head (up to 16383) a guest is told the full size and given only
  the beginning.\<close>

theorem query_raw_headers:
  assumes wf: "wf_http wh" and t: "typed_slot HT_REQUEST (args 0) wh = Some req" and rcv: "hs_headers_received req"
    and a: "args 1 = 22" "args 3 \<noteq> 0" and tx: "str = hs_resp_headers req"
  shows "(get32 rd (args 4) < query_need str \<longrightarrow> WinHttpQueryHeaders rd args wh
      = Some (0, put32 (args 4) (query_need str), wh\<lparr> wh_last_error := ERROR_INSUFFICIENT_BUFFER \<rparr>))
    \<and> (query_need str \<le> get32 rd (args 4) \<longrightarrow> WinHttpQueryHeaders rd args wh
      = Some (1, (ucast (args 3), wide (take 2047 str) @ [0, 0]) # put32 (args 4) (query_need str), wh))"
proof -
  have len: "length str < 16384" using wf_typed_slot [OF wf t] by (simp add: tx wf_slot_def)
  have q: "WinHttpQueryHeaders rd args wh = query_text rd (args 3) (args 4) str wh"
    using t rcv a(1) by (simp add: WinHttpQueryHeaders_def tx)
  show ?thesis unfolding q using query_text_short query_text_long len a(2) by blast
qed

definition demo_received :: WGHttpSlot where
  "demo_received = demo_request\<lparr> hs_resp_headers := ''HTTP/1.1'', hs_headers_received := True \<rparr>"

lemma demo_received_slot:
  "typed_slot HT_REQUEST 0x3002 (put_slot 0x3002 demo_received (demo_http n)) = Some demo_received"
  "wf_http (put_slot 0x3002 demo_received (demo_http n))"
proof -
  have w: "wf_http (demo_http n)" by (rule http_reach_wf [OF demo_http_reach [of "\<lambda>_. True"]])
  have "http_range 0x3002" using get_slot_Some [OF demo_slots(1)] by simp
  with w show "typed_slot HT_REQUEST 0x3002 (put_slot 0x3002 demo_received (demo_http n)) = Some demo_received"
    by (simp add: typed_slot_Some get_put_slot wf_http_def) (simp add: demo_received_def demo_request_def)
  show "wf_http (put_slot 0x3002 demo_received (demo_http n))"
    using wf_put_slot [OF w] wf_get_slot [OF w demo_slots(1)] by (simp add: wf_slot_def demo_received_def)
qed

definition demo_query :: http_args where
  "demo_query i = (if i = 0 then 0x3002 else if i = 1 then 22 else if i = 3 then 0x5000 else if i = 4 then 0x6000 else 0)"

theorem query_raw_headers_witness:
  "(let wh = put_slot 0x3002 demo_received (demo_http no_net)
    in WinHttpQueryHeaders (\<lambda>a k. to_le 4 (4 :: u32)) demo_query wh = Some (0, put32 0x6000 18, wh\<lparr> wh_last_error := 122 \<rparr>)
     \<and> WinHttpQueryHeaders (\<lambda>a k. to_le 4 (18 :: u32)) demo_query wh = Some (1, (0x5000, wide ''HTTP/1.1'' @ [0, 0]) # put32 0x6000 18, wh))"
proof -
  let ?wh = "put_slot 0x3002 demo_received (demo_http no_net)"
  have s: "demo_query 0 = 0x3002" "demo_query 1 = 22" "demo_query 3 = 0x5000" "demo_query 4 = 0x6000" by (simp_all add: demo_query_def)
  have r: "hs_resp_headers demo_received = ''HTTP/1.1''" "hs_headers_received demo_received" by (simp_all add: demo_received_def)
  have need: "query_need ''HTTP/1.1'' = 18" by (simp add: query_need_def)
  have g: "get32 (\<lambda>a k. to_le 4 (w :: u32)) 0x6000 = w" for w
    unfolding get32_def using of_le_to_le [where 'a = 32, of 4 w] by simp
  have t: "typed_slot HT_REQUEST (demo_query 0) ?wh = Some demo_received" unfolding s by (rule demo_received_slot)
  show ?thesis
    using query_raw_headers [where str = "''HTTP/1.1''" and rd = "\<lambda>a k. to_le 4 (4 :: u32)", OF demo_received_slot(2) t r(2) s(2)]
      query_raw_headers [where str = "''HTTP/1.1''" and rd = "\<lambda>a k. to_le 4 (18 :: u32)", OF demo_received_slot(2) t r(2) s(2)]
    by (simp add: s r need g ERROR_INSUFFICIENT_BUFFER_def Let_def del: to_le_numeral)
qed

subsection \<open>Sending and closing\<close>

text \<open>\<open>WinHttpSendRequest\<close> drops the headers a guest passes with a length of -1, the form that says
  the text is terminated by a zero: the call does the same as without any headers.\<close>

theorem send_drops_headers:
  "WinHttpSendRequest mal rd (args(2 := 0xFFFFFFFF)) wh = WinHttpSendRequest mal rd (args(1 := 0, 2 := 0xFFFFFFFF)) wh"
proof -
  let ?a = "args(2 := 0xFFFFFFFF)" and ?b = "args(1 := 0, 2 := 0xFFFFFFFF)"
  have e: "?a 0 = args 0" "?a 3 = args 3" "?a 4 = args 4" "?b 0 = args 0" "?b 3 = args 3" "?b 4 = args 4" by simp_all
  have len: "?a 2 = 0xFFFFFFFF" "?b 2 = 0xFFFFFFFF" by simp_all
  have tr: "http_transmit mal rd ?a con req wh = http_transmit mal rd ?b con req wh" for con req
    unfolding http_transmit_def e ..
  have f: "(x \<and> (0xFFFFFFFF :: u32) \<noteq> 0 \<and> (0xFFFFFFFF :: u32) \<noteq> 0xFFFFFFFF) = False" for x by simp
  show ?thesis unfolding WinHttpSendRequest_def e len tr f if_False ..
qed

lemma transmit_log:
  assumes "http_transmit mal rd args con req wh = Some (r, w, wh')"
  shows "net_log (wh_net wh') = net_log (wh_net wh)
    @ [(hs_server con, if hs_port con \<noteq> 0 then hs_port con else if hs_use_ssl req then 443 else 80, hs_use_ssl req)]"
proof -
  obtain ok req2 n where cn: "http_connect_to (hs_server con) (if hs_port con \<noteq> 0 then hs_port con else if hs_use_ssl req then 443 else 80)
      (hs_use_ssl req) req (wh_net wh) = (ok, req2, n)"
    by (metis surj_pair)
  from assms cn have "wh_net wh' = n"
    by (auto simp: http_transmit_def Let_def http_error_def bind_eq_Some_conv split: if_splits)
  with connect_log [OF cn] show ?thesis by simp
qed

lemma alloc_at:
  assumes "wf_http wh" "http_range h" "get_slot h wh = None" "\<And>i. i < http_idx h \<Longrightarrow> hs_in_use (wh_slots wh ! i)"
  shows "alloc_http ty wh = (h, put_slot h (http_zero\<lparr> hs_in_use := True, hs_type := ty \<rparr>) wh)"
proof -
  note r = http_idx_range [OF assms(2)]
  have "\<not> hs_in_use (wh_slots wh ! http_idx h)" using assms(2,3) by (auto simp: get_slot_range split: if_splits)
  then have "first_idx (\<lambda>s. \<not> hs_in_use s) (wh_slots wh) = Some (http_idx h)"
    using r assms(1,4) by (simp add: first_idx_Some wf_http_def)
  then show ?thesis using r by (simp add: alloc_http_def put_slot_def)
qed

text \<open>A request does not keep its connection: after the guest closes the connection's handle, the
  next connection it opens gets the same handle (the slots below being used), and the request,
  opened for the first server, is sent to the second one.\<close>

theorem closed_connection_reused:
  assumes wf: "wf_http wh" and con: "get_slot hc wh = Some con" and req: "typed_slot HT_REQUEST hr wh = Some req" "hs_connect_h req = hc" "hr \<noteq> hc"
    and below: "\<And>i. i < http_idx hc \<Longrightarrow> hs_in_use (wh_slots wh ! i)"
    and ses: "typed_slot HT_SESSION hs wh = Some ses" "hs \<noteq> hc"
    and srv: "read_wstr rd (args 1) 512 = Some server2" "args 0 = hs" and ssl: "\<not> hs_use_ssl req" "ucast (args 2) = port" "port \<noteq> 0"
  shows "\<exists>wh1 wh2. WinHttpCloseHandle (\<lambda>_. hc) wh = Some (1, [], wh1)
    \<and> WinHttpConnect rd args wh1 = Some (ucast hc, [], wh2)
    \<and> (\<forall>r w wh3. WinHttpSendRequest mal rd ((\<lambda>_. 0)(0 := hr)) wh2 = Some (r, w, wh3) \<longrightarrow>
         net_log (wh_net wh3) = net_log (wh_net wh) @ [(server2, port, False)])"
proof -
  let ?wh1 = "free_http hc wh"
  let ?new = "http_zero\<lparr> hs_in_use := True, hs_type := HT_CONNECT \<rparr>"
  let ?con2 = "?new\<lparr> hs_session_h := hs, hs_server := server2, hs_port := port \<rparr>"
  note r = get_slot_Some [OF con] and w1 = wf_free_http [OF wf, of hc]
  have g1: "get_slot h ?wh1 = (if h = hc then None else get_slot h wh)" for h by (rule free_http_lookup [OF wf])
  have b1: "hs_in_use (wh_slots ?wh1 ! i)" if "i < http_idx hc" for i
    using below [OF that] that con by (simp add: free_http_def put_slot_def)
  have al: "alloc_http HT_CONNECT ?wh1 = (hc, put_slot hc ?new ?wh1)"
    using r g1 b1 by (intro alloc_at [OF w1]) simp_all
  let ?wh2 = "put_slot hc ?con2 (put_slot hc ?new ?wh1)"
  have len: "length (wh_slots ?wh1) = WG_MAX_HTTP" using w1 by (simp add: wf_http_def)
  have new: "get_slot hc (put_slot hc ?new ?wh1) = Some ?new" using r len by (simp add: get_put_slot)
  have "typed_slot HT_SESSION hs ?wh1 = typed_slot HT_SESSION hs wh" using ses(2) g1 by (simp add: typed_slot_def)
  then have "typed_slot HT_SESSION hs ?wh1 = Some ses" using ses(1) by simp
  then have cn: "WinHttpConnect rd args ?wh1 = Some (ucast hc, [], ?wh2)"
    using al new srv alloc_http_nonzero [of hc] r ssl(2) by (simp add: WinHttpConnect_def)
  have q2: "typed_slot HT_REQUEST hr ?wh2 = Some req" "get_slot hc ?wh2 = Some ?con2"
    using req r len g1 by (simp_all add: typed_slot_Some get_put_slot)
  have "net_log (wh_net wh3) = net_log (wh_net wh) @ [(server2, port, False)]"
    if s: "WinHttpSendRequest mal rd ((\<lambda>_. 0)(0 := hr)) ?wh2 = Some (a, b, wh3)" for a b wh3
  proof -
    have "http_transmit mal rd ((\<lambda>_. 0)(0 := hr)) ?con2 req ?wh2 = Some (a, b, wh3)"
      using s q2 req(2) by (simp add: WinHttpSendRequest_def)
    from transmit_log [OF this] ssl show ?thesis by (simp add: free_http_def split: option.split)
  qed
  with cn show ?thesis by (intro exI [of _ ?wh1] exI [of _ ?wh2]) (simp add: WinHttpCloseHandle_def)
qed

theorem closed_connection_reused_witness:
  "\<exists>wh1 wh2. WinHttpCloseHandle (\<lambda>_. 0x3001) (demo_http no_net) = Some (1, [], wh1)
    \<and> WinHttpConnect demo_names (\<lambda>i. if i = 0 then 0x3000 else if i = 1 then 0x1000 else 8080) wh1 = Some (0x3001, [], wh2)
    \<and> (\<forall>r w wh3. WinHttpSendRequest (\<lambda>_. True) demo_names ((\<lambda>_. 0)(0 := 0x3002)) wh2 = Some (r, w, wh3) \<longrightarrow>
         net_log (wh_net wh3) = [(''a.io'', 8080, False)])"
proof -
  have w: "wf_http (demo_http no_net)" by (rule http_reach_wf [OF demo_http_reach [of "\<lambda>_. True"]])
  have i: "http_idx 0x3001 = 1" by (simp add: http_idx_def HTTP_BASE_def)
  have u: "hs_in_use demo_session" "hs_type demo_session = HT_SESSION" "hs_type demo_request = HT_REQUEST" "hs_connect_h demo_request = 0x3001"
    "\<not> hs_use_ssl demo_request"
    by (simp_all add: demo_session_def demo_request_def http_zero_def)
  have ses: "typed_slot HT_SESSION 0x3000 (demo_http no_net) = Some demo_session"
    by (simp add: typed_slot_def get_slot_def http_idx_def HTTP_BASE_def WG_MAX_HTTP_def demo_http_def u)
  have req: "typed_slot HT_REQUEST 0x3002 (demo_http no_net) = Some demo_request" using demo_slots(1) u by (simp add: typed_slot_def)
  have below: "hs_in_use (wh_slots (demo_http no_net) ! i)" if "i < http_idx 0x3001" for i
    using that by (simp add: demo_http_def u http_idx_def HTTP_BASE_def)
  have "net_log (wh_net (demo_http no_net)) = []" by (simp add: demo_http_def)
  then show ?thesis
    using closed_connection_reused [where mal = "\<lambda>_. True" and rd = demo_names and args = "\<lambda>i. if i = 0 then 0x3000 else if i = 1 then 0x1000 else 8080",
        OF w demo_slots(2) req u(4) _ below ses] demo_server u by simp
qed

end
