(* ===== verification/Guest_Bytes.thy ===== *)
theory Guest_Bytes
  imports C_Strings
begin

section \<open>Guest memory as the socket layer sees it\<close>

text \<open>
  The bytes a guest address shows, as a partial function: what \<open>wg_blink_read_mem\<close> and
  \<open>wg_blink_write_mem\<close> (\<open>wg_blink_bridge.c\<close>, \<open>WGBlinkVM_ReadMem\<close> and \<open>WGBlinkVM_WriteMem\<close>) do to it.
  Both copy until they meet a page that is not mapped.  Guest pointers are 32-bit here, widened
  without sign.
\<close>

type_synonym gmem = "u64 \<Rightarrow> u8 option"

definition gread :: "gmem \<Rightarrow> u32 \<Rightarrow> nat \<Rightarrow> u8 list" where
  "gread v a n = map (\<lambda>k. the (v (ucast a + of_nat k))) [0..<mapped_prefix v (ucast a) n]"

definition gwrite :: "u32 \<Rightarrow> u8 list \<Rightarrow> gmem \<Rightarrow> gmem" where
  "gwrite a bs v = overlay v (ucast a) (take (mapped_prefix v (ucast a) (length bs)) bs)"

text \<open>A buffer of \<open>n\<close> zero bytes that a read then fills from its start.\<close>

definition zfill :: "nat \<Rightarrow> u8 list \<Rightarrow> u8 list" where
  "zfill n bs = bs @ replicate (n - length bs) 0"

text \<open>\<open>uint32_t x = 0;\<close> read in the same way, and an array of them; \<open>gread_set\<close> is the read into a
  buffer that has not been set, of which every byte is then used.\<close>

definition gread32 :: "gmem \<Rightarrow> u32 \<Rightarrow> u32" where
  "gread32 v a = of_le (gread v a 4)"

fun le_words :: "nat \<Rightarrow> u8 list \<Rightarrow> u32 list" where
  "le_words 0 bs = []"
| "le_words (Suc n) bs = of_le (take 4 bs) # le_words n (drop 4 bs)"

definition gread_words :: "gmem \<Rightarrow> u32 \<Rightarrow> nat \<Rightarrow> u32 list" where
  "gread_words v a n = le_words n (gread v a (4 * n))"

definition gread_set :: "gmem \<Rightarrow> u32 \<Rightarrow> nat \<Rightarrow> u8 list option" where
  "gread_set v a n = (let bs = gread v a n in if length bs = n then Some bs else None)"

definition put_words :: "u32 list \<Rightarrow> u8 list" where
  "put_words ws = concat (map (to_le 4) ws)"

definition gwrite32 :: "u32 \<Rightarrow> u32 \<Rightarrow> gmem \<Rightarrow> gmem" where
  "gwrite32 a w = gwrite a (to_le 4 w)"

text \<open>An optional result: written where the guest gave a pointer.\<close>

definition gput32 :: "u32 \<Rightarrow> u32 \<Rightarrow> gmem \<Rightarrow> gmem" where
  "gput32 a w v = (if a = 0 then v else gwrite32 a w v)"

subsection \<open>Reading back\<close>

definition gmapped :: "gmem \<Rightarrow> u32 \<Rightarrow> nat \<Rightarrow> bool" where
  "gmapped v a n \<longleftrightarrow> unat a + n \<le> 2 ^ 32 \<and> (\<forall>k < n. v (ucast a + of_nat k) \<noteq> None)"

lemma gmappedD: "gmapped v a n \<Longrightarrow> k < n \<Longrightarrow> v (ucast a + of_nat k) \<noteq> None"
  by (simp add: gmapped_def)

lemma length_gread: "length (gread v a n) = mapped_prefix v (ucast a) n"
  by (simp add: gread_def)

lemma length_gread_le: "length (gread v a n) \<le> n"
  by (simp add: length_gread mapped_prefix_le)

lemma gmapped_prefix: "gmapped v a n \<Longrightarrow> mapped_prefix v (ucast a) n = n"
  by (rule mapped_prefix_all) (simp add: gmapped_def)

lemma gread_mapped: "gmapped v a n \<Longrightarrow> gread v a n = map (\<lambda>k. the (v (ucast a + of_nat k))) [0..<n]"
  by (simp add: gread_def gmapped_prefix)

lemma length_gread_mapped: "gmapped v a n \<Longrightarrow> length (gread v a n) = n"
  by (simp add: gread_mapped)

lemma length_zfill: "length bs \<le> n \<Longrightarrow> length (zfill n bs) = n"
  by (simp add: zfill_def)

lemma zfill_full: "length bs = n \<Longrightarrow> zfill n bs = bs"
  by (simp add: zfill_def)

lemma unat_ucast64: "unat (ucast (a :: u32) :: u64) = unat a"
  using unat_lt32 [of a] by (simp add: unsigned_ucast_eq take_bit_nat_eq_self)

lemma unat_gaddr: "unat a + k < 2 ^ 32 \<Longrightarrow> unat (ucast (a :: u32) + of_nat k :: u64) = unat a + k"
  by (simp add: unat_word_ariths unat_of_nat unat_ucast64)

lemma gaddr_eq:
  assumes "unat a + i = unat b + k" "unat a + i < 2 ^ 32"
  shows "(ucast (a :: u32) + of_nat i :: u64) = ucast (b :: u32) + of_nat k"
  using assms unat_gaddr [of a i] unat_gaddr [of b k] by (metis word_unat_eq_iff)

lemma unat_gadd: "unat a + i < 2 ^ 32 \<Longrightarrow> unat (a + of_nat i :: u32) = unat a + i"
  by (simp add: unat_word_ariths unat_of_nat)

lemma gmapped_sub:
  assumes "gmapped v a n" "i + m \<le> n"
  shows "gmapped v (a + of_nat i) m"
proof (cases "m = 0")
  case True
  then show ?thesis using unat_lt32 [of "a + of_nat i"] by (simp add: gmapped_def)
next
  case False
  with assms have lt: "unat a + i < 2 ^ 32" by (auto simp: gmapped_def)
  have "v (ucast (a + of_nat i) + of_nat k) \<noteq> None" if "k < m" for k
  proof -
    have e: "(ucast (a + of_nat i) + of_nat k :: u64) = ucast a + of_nat (i + k)"
      using assms that unat_gadd [OF lt] by (intro gaddr_eq) (auto simp: gmapped_def)
    show ?thesis unfolding e by (rule gmappedD [OF assms(1)]) (use assms(2) that in simp)
  qed
  moreover have "unat (a + of_nat i) + m \<le> 2 ^ 32" using assms unat_gadd [OF lt] by (simp add: gmapped_def)
  ultimately show ?thesis by (simp add: gmapped_def)
qed

text \<open>Two byte ranges that do not meet.\<close>

definition gdisjoint :: "u32 \<Rightarrow> nat \<Rightarrow> u32 \<Rightarrow> nat \<Rightarrow> bool" where
  "gdisjoint a n b m \<longleftrightarrow> unat a + n \<le> unat b \<or> unat b + m \<le> unat a"

lemma gwrite_at:
  assumes m: "gmapped v a (length bs)" and k: "unat b + k < 2 ^ 32"
  shows "gwrite a bs v (ucast (b :: u32) + of_nat k) =
     (if unat a \<le> unat b + k \<and> unat b + k < unat a + length bs then Some (bs ! (unat b + k - unat a)) else v (ucast b + of_nat k))"
proof -
  let ?x = "ucast b + of_nat k :: u64"
  have x: "unat ?x = unat b + k" by (rule unat_gaddr [OF k])
  have a: "unat (ucast a :: u64) = unat a" by (rule unat_ucast64)
  have len: "unat a + length bs \<le> 2 ^ 32" using m by (simp add: gmapped_def)
  show ?thesis
  proof (cases "unat a \<le> unat b + k")
    case True
    then have "unat (?x - ucast a) = unat b + k - unat a"
      using x a by (simp add: unat_sub word_le_nat_alt)
    with True show ?thesis using gmapped_prefix [OF m] by (auto simp: gwrite_def overlay_def)
  next
    case False
    then have "unat (?x - ucast a) = 2 ^ 64 + (unat b + k) - unat a"
      using x a by (simp add: unat_sub_if' word_le_nat_alt)
    moreover have "length bs \<le> 2 ^ 64 + (unat b + k) - unat a" using len by simp
    ultimately show ?thesis using False gmapped_prefix [OF m] by (auto simp: gwrite_def overlay_def)
  qed
qed

lemma gmapped_gwrite:
  assumes "gmapped v a (length bs)"
  shows "gmapped (gwrite a bs v) b n = gmapped v b n"
proof -
  have "(gwrite a bs v (ucast b + of_nat k) = None) = (v (ucast b + of_nat k) = None)" if "unat b + n \<le> 2 ^ 32" "k < n" for k
  proof -
    have k: "unat b + k < 2 ^ 32" using that by simp
    show ?thesis
    proof (cases "unat a \<le> unat b + k \<and> unat b + k < unat a + length bs")
      case True
      have "v (ucast a + of_nat (unat b + k - unat a)) \<noteq> None"
        by (rule gmappedD [OF assms]) (use True in arith)
      moreover have "(ucast a + of_nat (unat b + k - unat a) :: u64) = ucast b + of_nat k"
        using True k by (intro gaddr_eq) simp_all
      ultimately have "v (ucast b + of_nat k) \<noteq> None" by metis
      with True show ?thesis by (simp add: gwrite_at [OF assms k])
    next
      case False
      then show ?thesis unfolding gwrite_at [OF assms k] by auto
    qed
  qed
  then show ?thesis unfolding gmapped_def by blast
qed

lemma gread_gwrite_same:
  assumes "gmapped v a (length bs)" "n \<le> length bs"
  shows "gread (gwrite a bs v) a n = take n bs"
proof -
  have "gmapped v a n" using gmapped_sub [OF assms(1), of 0 n] assms(2) by simp
  then have m: "gmapped (gwrite a bs v) a n" by (simp add: gmapped_gwrite [OF assms(1)])
  show ?thesis
    unfolding gread_mapped [OF m]
  proof (rule nth_equalityI)
    fix k assume "k < length (map (\<lambda>k. the (gwrite a bs v (ucast a + of_nat k))) [0..<n])"
    then have "k < n" by simp
    moreover have "unat a + k < 2 ^ 32" using assms \<open>k < n\<close> by (simp add: gmapped_def)
    ultimately show "map (\<lambda>k. the (gwrite a bs v (ucast a + of_nat k))) [0..<n] ! k = take n bs ! k"
      using assms by (simp add: gwrite_at [OF assms(1)])
  qed (use assms in simp)
qed

lemma gread_gwrite_other:
  assumes "gmapped v a (length bs)" "gmapped v b n" "gdisjoint a (length bs) b n"
  shows "gread (gwrite a bs v) b n = gread v b n"
proof -
  have "gmapped (gwrite a bs v) b n" using assms(2) by (simp add: gmapped_gwrite [OF assms(1)])
  moreover have "gwrite a bs v (ucast b + of_nat k) = v (ucast b + of_nat k)" if "k < n" for k
    using assms that by (subst gwrite_at [OF assms(1)]) (auto simp: gmapped_def gdisjoint_def)
  ultimately show ?thesis by (simp add: gread_mapped assms(2))
qed

lemma map_upt_split: "map f [0..<m + n] = map f [0..<m] @ map (\<lambda>k. f (m + k)) [0..<n]"
  by (induction n) simp_all

lemma gread_append:
  assumes "gmapped v a (m + n)"
  shows "gread v a (m + n) = gread v a m @ gread v (a + of_nat m) n"
proof (cases "n = 0")
  case True
  then show ?thesis by (simp add: gread_def)
next
  case False
  have m: "gmapped v a m" using gmapped_sub [OF assms, of 0 m] by simp
  have n: "gmapped v (a + of_nat m) n" by (rule gmapped_sub [OF assms]) simp
  have "(ucast a + of_nat (m + k) :: u64) = ucast (a + of_nat m) + of_nat k" if "k < n" for k
    using that assms False unat_gadd [of a m] by (intro gaddr_eq) (simp_all add: gmapped_def)
  then show ?thesis
    unfolding gread_mapped [OF assms] gread_mapped [OF m] gread_mapped [OF n]
    by (simp add: map_upt_split del: of_nat_add)
qed

lemma le_words_put_words: "le_words (length ws) (put_words ws) = ws"
proof (induction ws)
  case (Cons w ws)
  have "of_le (to_le 4 w) = w" by (rule of_le_to_le) simp
  with Cons show ?case by (simp add: put_words_def)
qed (simp add: put_words_def)

lemma length_put_words: "length (put_words ws) = 4 * length ws"
  by (induction ws) (simp_all add: put_words_def)

lemma length_le_words [simp]: "length (le_words n bs) = n"
  by (induction n bs rule: le_words.induct) auto

lemma gread32_gwrite32: "gmapped v a 4 \<Longrightarrow> gread32 (gwrite32 a w v) a = w"
  using of_le_to_le [of 4 w]
  by (simp add: gread32_def gwrite32_def gread_gwrite_same del: to_le_numeral)

lemma gread_words_gwrite:
  assumes "gmapped v a (4 * length ws)" "n = length ws"
  shows "gread_words (gwrite a (put_words ws) v) a n = ws"
  using assms gread_gwrite_same [of v a "put_words ws" "4 * n"]
  by (simp add: gread_words_def length_put_words le_words_put_words)

end
