(* ===== verification/Winsock_Env.thy ===== *)
theory Winsock_Env
  imports Guest_Bytes Http_Text
begin

section \<open>The socket layer: handles, errors, addresses\<close>

text \<open>
  \<open>Sources/Win32/wg_winsock.c\<close>: the state of the layer, its table of socket handles, the
  translation of error numbers and the two conversions of socket addresses.

  The host system is a parameter \<open>sys\<close>: it takes a system or resolver call and the state of the
  host and gives the reply and the next state.  The host is the BSD the code is written for (its
  addresses have a length byte), so its constants are those of Darwin.  \<open>mal n\<close> says whether
  \<open>malloc(n)\<close> succeeds.  Undefined behaviour (an unset byte used, a null buffer, a descriptor above
  the size of an \<open>fd_set\<close>) is \<^term>\<open>None\<close>.
\<close>

subsection \<open>The host\<close>

record addrinfo =
  ai_flags :: int
  ai_family :: int
  ai_socktype :: int
  ai_protocol :: int
  ai_addr :: "u8 list"

text \<open>\<open>Sys_select_write fd t\<close> is the \<open>select\<close> with \<open>fd\<close> in the write and the exception set and \<open>t\<close>
  seconds; \<open>Sys_poll\<close> is \<open>poll\<close> with a timeout of zero.\<close>

datatype syscall =
    Sys_socket int int int | Sys_close int | Sys_connect int "u8 list" | Sys_bind int "u8 list"
  | Sys_listen int int | Sys_shutdown int int | Sys_send int "u8 list" | Sys_recv int nat
  | Sys_poll "int list" u16 | Sys_select_write int nat | Sys_sockerr int
  | Sys_getsockopt int int int nat | Sys_setsockopt int int int "u8 list"
  | Sys_getfl int | Sys_setfl int int | Sys_fionread int
  | Sys_getpeername int | Sys_getsockname int
  | Sys_inet_ntop int "u8 list" | Sys_inet_pton int string | Sys_inet_aton string | Sys_inet_ntoa u32
  | Sys_getaddrinfo "string option" "string option" "addrinfo option"

text \<open>
  A reply: what the call returned, \<open>errno\<close> for a call that failed, and what it stored through its
  pointers: a number, bytes (data received, a raw address, text without its terminator), the \<open>revents\<close> of
  a poll, the list of a resolver.
\<close>

record reply =
  rp_ret :: int
  rp_errno :: int
  rp_val :: int
  rp_bytes :: "u8 list"
  rp_revents :: "u16 list"
  rp_addrs :: "addrinfo list"

type_synonym 'w osfn = "syscall \<Rightarrow> 'w \<Rightarrow> reply \<times> 'w"

subsection \<open>The state\<close>

record WGWinsock =
  ws_initialised :: bool
  ws_last_error :: u32
  ws_fds :: "int list"
  ws_connect_reported :: "bool list"
  ws_gai_base :: u32

record 'w wenv =
  we_ws :: WGWinsock
  we_mem :: gmem
  we_os :: 'w
  we_errno :: int

type_synonym ws_args = "nat \<Rightarrow> u32"
type_synonym 'w ws_result = "(u64 \<times> 'w wenv) option"

definition WG_MAX_SOCKETS :: nat where "WG_MAX_SOCKETS = 128"
definition SOCK_BASE :: u32 where "SOCK_BASE = 0x1000"
definition WIN_INVALID_SOCKET :: u32 where "WIN_INVALID_SOCKET = - 1"
definition WIN_SOCKET_ERROR :: u64 where "WIN_SOCKET_ERROR = - 1"

definition os_call :: "'w osfn \<Rightarrow> syscall \<Rightarrow> 'w wenv \<Rightarrow> reply \<times> 'w wenv" where
  "os_call sys c e =
     (let (r, w) = sys c (we_os e)
      in (r, e\<lparr> we_os := w, we_errno := if rp_ret r < 0 then rp_errno r else we_errno e \<rparr>))"

definition upd_ws :: "(WGWinsock \<Rightarrow> WGWinsock) \<Rightarrow> 'w wenv \<Rightarrow> 'w wenv" where
  "upd_ws f e = e\<lparr> we_ws := f (we_ws e) \<rparr>"

definition upd_mem :: "(gmem \<Rightarrow> gmem) \<Rightarrow> 'w wenv \<Rightarrow> 'w wenv" where
  "upd_mem f e = e\<lparr> we_mem := f (we_mem e) \<rparr>"

definition set_wsa_error :: "u32 \<Rightarrow> 'w wenv \<Rightarrow> 'w wenv" where
  "set_wsa_error err = upd_ws (\<lambda>ws. ws\<lparr> ws_last_error := err \<rparr>)"

definition wg_winsock_create :: "u32 \<Rightarrow> WGWinsock" where
  "wg_winsock_create gai = \<lparr> ws_initialised = False, ws_last_error = 0, ws_fds = replicate WG_MAX_SOCKETS (- 1),
     ws_connect_reported = replicate WG_MAX_SOCKETS False, ws_gai_base = gai \<rparr>"

definition wg_winsock_set_gai_base :: "u32 \<Rightarrow> WGWinsock \<Rightarrow> WGWinsock" where
  "wg_winsock_set_gai_base base ws = (if base = 0 then ws else ws\<lparr> ws_gai_base := base \<rparr>)"

text \<open>\<open>wg_winsock_destroy\<close> closes the descriptors in the order of the table.\<close>

definition wg_winsock_destroy :: "'w osfn \<Rightarrow> 'w wenv \<Rightarrow> 'w wenv" where
  "wg_winsock_destroy sys e = fold (\<lambda>fd e. if 0 \<le> fd then snd (os_call sys (Sys_close fd) e) else e) (ws_fds (we_ws e)) e"

subsection \<open>Handles\<close>

definition alloc_socket :: "'w osfn \<Rightarrow> int \<Rightarrow> 'w wenv \<Rightarrow> u32 \<times> 'w wenv" where
  "alloc_socket sys fd e =
     (case first_idx (\<lambda>f. f < 0) (ws_fds (we_ws e)) of
        Some i \<Rightarrow> (SOCK_BASE + of_nat i, upd_ws (\<lambda>ws. ws\<lparr> ws_fds := (ws_fds ws)[i := fd] \<rparr>) e)
      | None \<Rightarrow> (WIN_INVALID_SOCKET, snd (os_call sys (Sys_close fd) e)))"

definition sock_idx :: "u32 \<Rightarrow> nat" where "sock_idx s = unat (s - SOCK_BASE)"

definition sock_range :: "u32 \<Rightarrow> bool" where
  "sock_range s \<longleftrightarrow> \<not> (s < SOCK_BASE \<or> SOCK_BASE + of_nat WG_MAX_SOCKETS \<le> s)"

definition lookup_fd :: "WGWinsock \<Rightarrow> u32 \<Rightarrow> int" where
  "lookup_fd ws s = (if sock_range s then ws_fds ws ! sock_idx s else - 1)"

definition free_socket :: "'w osfn \<Rightarrow> u32 \<Rightarrow> 'w wenv \<Rightarrow> 'w wenv" where
  "free_socket sys s e =
     (if \<not> sock_range s then e
      else let fd = ws_fds (we_ws e) ! sock_idx s
           in if 0 \<le> fd
              then upd_ws (\<lambda>ws. ws\<lparr> ws_fds := (ws_fds ws)[sock_idx s := - 1] \<rparr>) (snd (os_call sys (Sys_close fd) e))
              else e)"

subsection \<open>Error numbers\<close>

definition EBADF :: int where "EBADF = 9"
definition EINVAL :: int where "EINVAL = 22"
definition EWOULDBLOCK :: int where "EWOULDBLOCK = 35"
definition EINPROGRESS :: int where "EINPROGRESS = 36"
definition EALREADY :: int where "EALREADY = 37"
definition EMSGSIZE :: int where "EMSGSIZE = 40"
definition EAFNOSUPPORT :: int where "EAFNOSUPPORT = 47"
definition ENETUNREACH :: int where "ENETUNREACH = 51"
definition ECONNABORTED :: int where "ECONNABORTED = 53"
definition ECONNRESET :: int where "ECONNRESET = 54"
definition ENOTCONN :: int where "ENOTCONN = 57"
definition ETIMEDOUT :: int where "ETIMEDOUT = 60"
definition ECONNREFUSED :: int where "ECONNREFUSED = 61"
definition EHOSTUNREACH :: int where "EHOSTUNREACH = 65"

lemmas errno_defs = EBADF_def EINVAL_def EWOULDBLOCK_def EINPROGRESS_def EALREADY_def EMSGSIZE_def EAFNOSUPPORT_def
  ENETUNREACH_def ECONNABORTED_def ECONNRESET_def ENOTCONN_def ETIMEDOUT_def ECONNREFUSED_def EHOSTUNREACH_def

definition WSAEINVAL :: u32 where "WSAEINVAL = 10022"
definition WSAENOTSOCK :: u32 where "WSAENOTSOCK = 10038"
definition WSAETIMEDOUT :: u32 where "WSAETIMEDOUT = 10060"
definition WSAEHOSTUNREACH :: u32 where "WSAEHOSTUNREACH = 10065"

definition errno_to_wsa :: "int \<Rightarrow> u32" where
  "errno_to_wsa e =
     (if e = EWOULDBLOCK then 10035 else if e = EINPROGRESS then 10036 else if e = EALREADY then 10037
      else if e = ECONNREFUSED then 10061 else if e = ECONNRESET then 10054 else if e = ECONNABORTED then 10053
      else if e = ETIMEDOUT then WSAETIMEDOUT else if e = ENETUNREACH then 10051 else if e = EHOSTUNREACH then WSAEHOSTUNREACH
      else if e = EINVAL then WSAEINVAL else if e = EMSGSIZE then 10040 else if e = ENOTCONN then 10057
      else if e = EAFNOSUPPORT then 10047 else if e = EBADF then WSAENOTSOCK else WSAEINVAL)"

subsection \<open>Socket addresses\<close>

definition AF_INET :: int where "AF_INET = 2"
definition AF_INET6 :: int where "AF_INET6 = 30"
definition WIN_AF_INET6 :: u32 where "WIN_AF_INET6 = 23"
definition SOCKADDR_STORAGE :: nat where "SOCKADDR_STORAGE = 128"

text \<open>\<open>read_sockaddr\<close>: the 128 bytes of the host's structure and \<open>outlen\<close>.\<close>

definition read_sockaddr :: "gmem \<Rightarrow> u32 \<Rightarrow> int \<Rightarrow> u8 list \<times> nat" where
  "read_sockaddr v p len =
     (if p = 0 \<or> len \<le> 0 then (replicate SOCKADDR_STORAGE 0, 0)
      else let n = min (nat len) SOCKADDR_STORAGE;
               buf = zfill SOCKADDR_STORAGE (gread v p n);
               win_fam = of_le (take 2 buf) :: u16;
               out = take n buf @ replicate (SOCKADDR_STORAGE - n) 0
           in if win_fam = 2 then (out[0 := 16, 1 := 2], 16)
              else if win_fam = 23 then (out[0 := 28, 1 := 30], 28)
              else (out[1 := ucast win_fam], n))"

text \<open>The Windows form of a host address; a field that the host did not set is \<^term>\<open>None\<close>.\<close>

definition win_in :: "u8 list \<Rightarrow> u8 list" where
  "win_in sa = [2, 0] @ take 6 (drop 2 sa) @ replicate 8 0"

definition win_in6 :: "u8 list \<Rightarrow> u8 list" where
  "win_in6 sa = [23, 0] @ take 26 (drop 2 sa)"

definition win_sockaddr :: "u8 list \<Rightarrow> u8 list option" where
  "win_sockaddr sa =
     (if length sa < 2 then None
      else if sa ! 1 = 2 then if length sa < 8 then None else Some (win_in sa)
      else if sa ! 1 = 30 then if length sa < 28 then None else Some (win_in6 sa)
      else Some (take SOCKADDR_STORAGE sa))"

text \<open>\<open>write_sockaddr\<close>: the guest's buffer gets what fits into it, its length word the whole length.\<close>

definition write_sockaddr :: "u32 \<Rightarrow> u32 \<Rightarrow> u8 list \<Rightarrow> gmem \<Rightarrow> gmem option" where
  "write_sockaddr p plen sa v =
     (if p = 0 \<or> plen = 0 then Some v
      else do { wsa \<leftarrow> win_sockaddr sa;
                let wlen = (if sa ! 1 = 2 then 16 else if sa ! 1 = 30 then 28 else length sa);
                    buflen = gread32 v plen;
                    n = min wlen (unat buflen)
                in if SOCKADDR_STORAGE < n then None
                   else Some (gwrite32 plen (of_nat wlen) (gwrite p (take n (zfill SOCKADDR_STORAGE wsa)) v)) })"

end
