(* ===== verification/Winsock.thy ===== *)
theory Winsock
  imports Winsock_Env
begin

section \<open>The socket calls\<close>

text \<open>
  The calls of \<open>wg_winsock_handle\<close> (\<open>Sources/Win32/wg_winsock.c\<close>) in its order.  A call takes its
  arguments, 32 bits each, and the environment (state of the layer, guest memory, host, \<open>errno\<close>), and
  gives the 64-bit value left in \<open>out_ret\<close>.  Log lines and the files and stack scans that only serve
  the log have no counterpart.
\<close>

definition ws_return :: "u64 \<Rightarrow> 'w wenv \<Rightarrow> 'w ws_result" where
  "ws_return r e = Some (r, e)"

definition ws_fail :: "u32 \<Rightarrow> 'w wenv \<Rightarrow> 'w ws_result" where
  "ws_fail err e = Some (WIN_SOCKET_ERROR, set_wsa_error err e)"

text \<open>The way most calls begin: a handle that names no descriptor is an error.\<close>

definition on_fd :: "u32 \<Rightarrow> (int \<Rightarrow> 'w wenv \<Rightarrow> 'w ws_result) \<Rightarrow> 'w wenv \<Rightarrow> 'w ws_result" where
  "on_fd s k e = (let fd = lookup_fd (we_ws e) s in if fd < 0 then ws_fail WSAENOTSOCK e else k fd e)"

text \<open>The way they end: \<open>errno\<close> is translated when the host refused.\<close>

definition os_status :: "'w osfn \<Rightarrow> syscall \<Rightarrow> 'w wenv \<Rightarrow> 'w ws_result" where
  "os_status sys c e =
     (let (r, e) = os_call sys c e in if rp_ret r < 0 then ws_fail (errno_to_wsa (we_errno e)) e else ws_return 0 e)"

subsection \<open>Startup and the last error\<close>

definition WSAStartup :: "ws_args \<Rightarrow> 'w wenv \<Rightarrow> 'w ws_result" where
  "WSAStartup args e =
     (let e = upd_ws (\<lambda>ws. ws\<lparr> ws_initialised := True, ws_last_error := 0 \<rparr>) e;
          ver = to_le 2 (ucast (args 0) :: u16);
          data = zfill 400 (ver @ ver @ map ord8 ''WineGlass WS2'')
      in ws_return 0 (if args 1 = 0 then e else upd_mem (gwrite (args 1) data) e))"

definition WSACleanup :: "'w wenv \<Rightarrow> 'w ws_result" where
  "WSACleanup e = ws_return 0 (upd_ws (\<lambda>ws. ws\<lparr> ws_initialised := False \<rparr>) e)"

definition WSAGetLastError :: "'w wenv \<Rightarrow> 'w ws_result" where
  "WSAGetLastError e = ws_return (ucast (ws_last_error (we_ws e))) e"

definition WSASetLastError :: "ws_args \<Rightarrow> 'w wenv \<Rightarrow> 'w ws_result" where
  "WSASetLastError args e = ws_return 0 (set_wsa_error (args 0) e)"

subsection \<open>Addresses as text\<close>

definition bsd_af :: "u32 \<Rightarrow> int" where
  "bsd_af af = (if af = WIN_AF_INET6 then AF_INET6 else sint af)"

definition af_length :: "int \<Rightarrow> nat" where
  "af_length af = (if af = AF_INET6 then 16 else 4)"

definition inet_ntop_call :: "'w osfn \<Rightarrow> ws_args \<Rightarrow> 'w wenv \<Rightarrow> 'w ws_result" where
  "inet_ntop_call sys args e =
     (let af = bsd_af (args 0);
          addr = zfill 16 (gread (we_mem e) (args 1) (af_length af));
          (r, e) = os_call sys (Sys_inet_ntop af addr) e;
          tmp = take 63 (rp_bytes r)
      in if 0 < rp_ret r \<and> args 2 \<noteq> 0 \<and> length tmp + 1 \<le> unat (args 3)
         then ws_return (ucast (args 2)) (upd_mem (gwrite (args 2) (tmp @ [0])) e)
         else ws_return 0 (set_wsa_error WSAEINVAL e))"

definition inet_pton_call :: "'w osfn \<Rightarrow> ws_args \<Rightarrow> 'w wenv \<Rightarrow> 'w ws_result" where
  "inet_pton_call sys args e =
     (let af = bsd_af (args 0);
          str = cstr (gread (we_mem e) (args 1) 127);
          (r, e) = os_call sys (Sys_inet_pton af str) e;
          addr = take 16 (zfill 16 (rp_bytes r))
      in ws_return (ucast (word_of_int (rp_ret r) :: u32))
           (if rp_ret r = 1 \<and> args 2 \<noteq> 0 then upd_mem (gwrite (args 2) (take (af_length af) addr)) e else e))"

definition inet_addr_call :: "'w osfn \<Rightarrow> ws_args \<Rightarrow> 'w wenv \<Rightarrow> 'w ws_result" where
  "inet_addr_call sys args e =
     (let str = (if args 0 = 0 then [] else cstr (gread (we_mem e) (args 0) 63));
          (r, e) = os_call sys (Sys_inet_aton str) e
      in ws_return (if rp_ret r \<noteq> 0 then ucast (of_le (take 4 (rp_bytes r)) :: u32) else 0xFFFFFFFF) e)"

definition inet_ntoa_call :: "'w osfn \<Rightarrow> ws_args \<Rightarrow> 'w wenv \<Rightarrow> 'w ws_result" where
  "inet_ntoa_call sys args e =
     (let (r, e) = os_call sys (Sys_inet_ntoa (args 0)) e
      in ws_return 0xA00200 (upd_mem (gwrite 0xA00200 (rp_bytes r @ [0])) e))"

text \<open>\<open>htons\<close> and its three companions on a little-endian host.\<close>

definition swap16 :: "u16 \<Rightarrow> u16" where "swap16 w = of_le (rev (to_le 2 w))"
definition swap32 :: "u32 \<Rightarrow> u32" where "swap32 w = of_le (rev (to_le 4 w))"

definition htons_call :: "ws_args \<Rightarrow> 'w wenv \<Rightarrow> 'w ws_result" where
  "htons_call args e = ws_return (ucast (swap16 (ucast (args 0)))) e"

definition htonl_call :: "ws_args \<Rightarrow> 'w wenv \<Rightarrow> 'w ws_result" where
  "htonl_call args e = ws_return (ucast (swap32 (args 0))) e"

subsection \<open>Opening and closing\<close>

definition socket_call :: "'w osfn \<Rightarrow> ws_args \<Rightarrow> 'w wenv \<Rightarrow> 'w ws_result" where
  "socket_call sys args e =
     (let af = (if sint (args 0) = 23 then AF_INET6 else sint (args 0));
          (r, e) = os_call sys (Sys_socket af (sint (args 1)) (sint (args 2))) e
      in if rp_ret r < 0
         then ws_return (ucast WIN_INVALID_SOCKET) (set_wsa_error (errno_to_wsa (we_errno e)) e)
         else let (s, e) = alloc_socket sys (rp_ret r) e in ws_return (ucast s) e)"

definition closesocket_call :: "'w osfn \<Rightarrow> ws_args \<Rightarrow> 'w wenv \<Rightarrow> 'w ws_result" where
  "closesocket_call sys args e = ws_return 0 (free_socket sys (args 0) e)"

definition shutdown_call :: "'w osfn \<Rightarrow> ws_args \<Rightarrow> 'w wenv \<Rightarrow> 'w ws_result" where
  "shutdown_call sys args = on_fd (args 0) (\<lambda>fd e. ws_return 0 (snd (os_call sys (Sys_shutdown fd (sint (args 1))) e)))"

definition listen_call :: "'w osfn \<Rightarrow> ws_args \<Rightarrow> 'w wenv \<Rightarrow> 'w ws_result" where
  "listen_call sys args = on_fd (args 0) (\<lambda>fd. os_status sys (Sys_listen fd (sint (args 1))))"

definition bind_call :: "'w osfn \<Rightarrow> ws_args \<Rightarrow> 'w wenv \<Rightarrow> 'w ws_result" where
  "bind_call sys args = on_fd (args 0) (\<lambda>fd e.
     let (sa, n) = read_sockaddr (we_mem e) (args 1) (sint (args 2)) in os_status sys (Sys_bind fd (take n sa)) e)"

definition name_call :: "'w osfn \<Rightarrow> (int \<Rightarrow> syscall) \<Rightarrow> ws_args \<Rightarrow> 'w wenv \<Rightarrow> 'w ws_result" where
  "name_call sys ask args = on_fd (args 0) (\<lambda>fd e.
     let (r, e) = os_call sys (ask fd) e
     in if rp_ret r < 0 then ws_fail (errno_to_wsa (we_errno e)) e
        else do { mem \<leftarrow> write_sockaddr (args 1) (args 2) (rp_bytes r) (we_mem e); ws_return 0 (e\<lparr> we_mem := mem \<rparr>) })"

definition getpeername_call :: "'w osfn \<Rightarrow> ws_args \<Rightarrow> 'w wenv \<Rightarrow> 'w ws_result" where
  "getpeername_call sys = name_call sys Sys_getpeername"

definition getsockname_call :: "'w osfn \<Rightarrow> ws_args \<Rightarrow> 'w wenv \<Rightarrow> 'w ws_result" where
  "getsockname_call sys = name_call sys Sys_getsockname"

subsection \<open>Connecting\<close>

definition FD_SETSIZE :: int where "FD_SETSIZE = 1024"
definition O_NONBLOCK :: int where "O_NONBLOCK = 4"

text \<open>The wait for a connection: the pending error of the socket, or \<^term>\<open>Inl ()\<close> for the timeout of
  15 seconds (or a failed \<open>select\<close>).\<close>

definition connect_done :: "'w osfn \<Rightarrow> int \<Rightarrow> 'w wenv \<Rightarrow> ((unit + int) \<times> 'w wenv) option" where
  "connect_done sys fd e =
     (if FD_SETSIZE \<le> fd then None
      else let (r, e) = os_call sys (Sys_select_write fd 15) e
           in if rp_ret r \<le> 0 then Some (Inl (), e)
              else let (g, e) = os_call sys (Sys_sockerr fd) e
                   in Some (Inr (if rp_ret g < 0 then 0 else rp_val g), e))"

definition connect_finish :: "int \<Rightarrow> 'w wenv \<Rightarrow> 'w ws_result" where
  "connect_finish r e = (if r < 0 then ws_fail (errno_to_wsa (we_errno e)) e else ws_return 0 e)"

definition connect_call :: "'w osfn \<Rightarrow> ws_args \<Rightarrow> 'w wenv \<Rightarrow> 'w ws_result" where
  "connect_call sys args = on_fd (args 0) (\<lambda>fd e.
     let (sa, n) = read_sockaddr (we_mem e) (args 1) (sint (args 2));
         (r, e) = os_call sys (Sys_connect fd (take n sa)) e
     in if rp_ret r < 0 \<and> (we_errno e = EINPROGRESS \<or> we_errno e = EWOULDBLOCK \<or> we_errno e = EALREADY)
        then let (saved, e) = os_call sys (Sys_getfl fd) e
             in do { (st, e) \<leftarrow> connect_done sys fd e;
                     case st of
                       Inl _ \<Rightarrow> ws_fail WSAETIMEDOUT e
                     | Inr err \<Rightarrow>
                         let e = (if err = 0 then e else e\<lparr> we_errno := err \<rparr>);
                             (_, e) = os_call sys (Sys_setfl fd (rp_ret saved)) e
                         in connect_finish (if err = 0 then 0 else - 1) e }
        else connect_finish (rp_ret r) e)"

definition ConnectEx :: "'w osfn \<Rightarrow> ws_args \<Rightarrow> 'w wenv \<Rightarrow> 'w ws_result" where
  "ConnectEx sys args e =
     (let fd = lookup_fd (we_ws e) (args 0)
      in if fd < 0 then ws_return 0 (set_wsa_error WSAENOTSOCK e)
         else let (sa, n) = read_sockaddr (we_mem e) (args 1) (sint (args 2));
                  (fl, e) = os_call sys (Sys_getfl fd) e;
                  (_, e) = os_call sys (Sys_setfl fd (rp_ret fl OR O_NONBLOCK)) e;
                  (r, e) = os_call sys (Sys_connect fd (take n sa)) e;
                  finish = (\<lambda>ok e. let (_, e) = os_call sys (Sys_setfl fd (rp_ret fl AND NOT O_NONBLOCK)) e
                                in if ok then ws_return 1 (upd_mem (gput32 (args 5) 0) e)
                                   else ws_return 0 (set_wsa_error (errno_to_wsa (we_errno e)) e))
              in if rp_ret r < 0 \<and> we_errno e = EINPROGRESS
                 then do { (st, e) \<leftarrow> connect_done sys fd e;
                           case st of
                             Inl _ \<Rightarrow> ws_return 0 (set_wsa_error WSAETIMEDOUT e)
                           | Inr err \<Rightarrow> if err \<noteq> 0 then ws_return 0 (set_wsa_error (errno_to_wsa err) e) else finish True e }
                 else finish (0 \<le> rp_ret r) e)"

definition DisconnectEx :: "'w osfn \<Rightarrow> ws_args \<Rightarrow> 'w wenv \<Rightarrow> 'w ws_result" where
  "DisconnectEx sys args e =
     (let fd = lookup_fd (we_ws e) (args 0)
      in ws_return 1 (if 0 \<le> fd then snd (os_call sys (Sys_shutdown fd 2) e) else e))"

subsection \<open>Sending and receiving\<close>

definition send_call :: "(nat \<Rightarrow> bool) \<Rightarrow> 'w osfn \<Rightarrow> ws_args \<Rightarrow> 'w wenv \<Rightarrow> 'w ws_result" where
  "send_call mal sys args = on_fd (args 0) (\<lambda>fd e.
     let len = min (unat (args 2)) 65536
     in if \<not> mal len then ws_fail WSAEINVAL e
        else do { buf \<leftarrow> gread_set (we_mem e) (args 1) len;
                  let (r, e) = os_call sys (Sys_send fd buf) e
                  in if rp_ret r < 0 then ws_fail (errno_to_wsa (we_errno e)) e
                     else ws_return (ucast (word_of_int (rp_ret r) :: u32)) e })"

text \<open>What a receive delivered: the bytes of the reply, as many as were asked for at most.\<close>

definition recv_call :: "(nat \<Rightarrow> bool) \<Rightarrow> 'w osfn \<Rightarrow> ws_args \<Rightarrow> 'w wenv \<Rightarrow> 'w ws_result" where
  "recv_call mal sys args = on_fd (args 0) (\<lambda>fd e.
     let len = min (unat (args 2)) 65536
     in if \<not> mal len then ws_fail WSAEINVAL e
        else let (r, e) = os_call sys (Sys_recv fd len) e
             in if rp_ret r < 0 then ws_fail (errno_to_wsa (we_errno e)) e
                else let got = take len (rp_bytes r)
                     in ws_return (of_nat (length got)) (if got = [] then e else upd_mem (gwrite (args 1) got) e))"

text \<open>The entries of a \<open>WSABUF\<close> array: length and pointer.\<close>

definition wsabuf :: "gmem \<Rightarrow> u32 \<Rightarrow> nat \<Rightarrow> (u32 \<times> u32) option" where
  "wsabuf v p i = map_option (\<lambda>bs. (of_le (take 4 bs), of_le (drop 4 bs))) (gread_set v (p + of_nat i * 8) 8)"

fun wsabuf_total :: "gmem \<Rightarrow> u32 \<Rightarrow> nat list \<Rightarrow> nat option" where
  "wsabuf_total v p [] = Some 0"
| "wsabuf_total v p (i # is) = do { (n, _) \<leftarrow> wsabuf v p i; t \<leftarrow> wsabuf_total v p is; Some (unat n + t) }"

fun wsabuf_gather :: "gmem \<Rightarrow> u32 \<Rightarrow> nat list \<Rightarrow> u8 list option" where
  "wsabuf_gather v p [] = Some []"
| "wsabuf_gather v p (i # is) = do {
     (n, q) \<leftarrow> wsabuf v p i;
     bs \<leftarrow> (if n \<noteq> 0 \<and> q \<noteq> 0 then gread_set v q (unat n) else Some []);
     rest \<leftarrow> wsabuf_gather v p is;
     Some (bs @ rest) }"

fun wsabuf_scatter :: "u32 \<Rightarrow> nat list \<Rightarrow> u8 list \<Rightarrow> gmem \<Rightarrow> gmem option" where
  "wsabuf_scatter p [] data v = Some v"
| "wsabuf_scatter p (i # is) data v =
     (if data = [] then Some v
      else do { (n, q) \<leftarrow> wsabuf v p i;
                let copy = take (unat n) data;
                    v' = (if q \<noteq> 0 \<and> copy \<noteq> [] then gwrite q copy v else v)
                in wsabuf_scatter p is (drop (unat n) data) v' })"

text \<open>The number of bytes, where the guest asked for it and in \<open>InternalHigh\<close> of its \<open>OVERLAPPED\<close>.\<close>

definition wsa_bytes :: "ws_args \<Rightarrow> u32 \<Rightarrow> gmem \<Rightarrow> gmem" where
  "wsa_bytes args n v =
     (let v = gput32 (args 3) n v in if args 5 = 0 then v else gwrite32 (args 5 + 4) n v)"

definition WSASend :: "(nat \<Rightarrow> bool) \<Rightarrow> 'w osfn \<Rightarrow> ws_args \<Rightarrow> 'w wenv \<Rightarrow> 'w ws_result" where
  "WSASend mal sys args = on_fd (args 0) (\<lambda>fd e.
     if args 2 = 0 \<or> args 1 = 0 then ws_fail WSAEINVAL e
     else let is = [0..<min (unat (args 2)) 16]
          in do { total \<leftarrow> wsabuf_total (we_mem e) (args 1) is;
                  if total = 0 then ws_return 0 (upd_mem (gput32 (args 3) 0) e)
                  else if \<not> mal total then None
                  else do { buf \<leftarrow> wsabuf_gather (we_mem e) (args 1) is;
                            if length buf \<noteq> total then None
                            else let (r, e) = os_call sys (Sys_send fd buf) e
                                 in if rp_ret r < 0 then ws_fail (errno_to_wsa (we_errno e)) e
                                    else ws_return 0 (upd_mem (wsa_bytes args (word_of_int (rp_ret r))) e) } })"

definition WSARecv :: "(nat \<Rightarrow> bool) \<Rightarrow> 'w osfn \<Rightarrow> ws_args \<Rightarrow> 'w wenv \<Rightarrow> 'w ws_result" where
  "WSARecv mal sys args = on_fd (args 0) (\<lambda>fd e.
     if args 2 = 0 \<or> args 1 = 0 then ws_fail WSAEINVAL e
     else let is = [0..<min (unat (args 2)) 16]
          in do { total \<leftarrow> wsabuf_total (we_mem e) (args 1) is;
                  let cap = min total 65536
                  in if \<not> mal cap then None
                     else let (r, e) = os_call sys (Sys_recv fd cap) e
                          in if rp_ret r < 0 then ws_fail (errno_to_wsa (we_errno e)) e
                             else let got = take cap (rp_bytes r)
                                  in do { mem \<leftarrow> wsabuf_scatter (args 1) is got (we_mem e);
                                          ws_return 0 (e\<lparr> we_mem := wsa_bytes args (of_nat (length got)) mem \<rparr>) } })"

definition WSAIoctl :: "ws_args \<Rightarrow> 'w wenv \<Rightarrow> 'w ws_result" where
  "WSAIoctl args e = ws_return 0 (upd_mem (gput32 (args 6) 0) e)"

end
