(* ===== verification/Winsock_Handle.thy ===== *)
theory Winsock_Handle
  imports Winsock
begin

section \<open>Readiness, options, name resolution, and the dispatch of the socket calls\<close>

text \<open>
  The rest of \<open>wg_winsock_handle\<close>: \<open>select\<close> and \<open>__WSAFDIsSet\<close> on the Windows form of an \<open>fd_set\<close> (a
  count and up to 64 handles), the socket options, the network events, the resolver calls that lay
  their results out in guest memory, and the dispatch on the name of the call.
\<close>

subsection \<open>Polling\<close>

definition POLLIN :: u16 where "POLLIN = 1"
definition POLLPRI :: u16 where "POLLPRI = 2"
definition POLLOUT :: u16 where "POLLOUT = 4"
definition POLLERR :: u16 where "POLLERR = 8"
definition POLLHUP :: u16 where "POLLHUP = 16"

definition has_ev :: "u16 \<Rightarrow> u16 \<Rightarrow> bool" where
  "has_ev revs m \<longleftrightarrow> revs AND m \<noteq> 0"

text \<open>\<open>poll\<close> of one descriptor; a poll that fails leaves \<open>revents\<close> at zero.\<close>

definition poll_one :: "'w osfn \<Rightarrow> int \<Rightarrow> u16 \<Rightarrow> 'w wenv \<Rightarrow> u16 \<times> 'w wenv" where
  "poll_one sys fd ev e =
     (let (r, e) = os_call sys (Sys_poll [fd] ev) e
      in (if rp_ret r < 0 then 0 else case rp_revents r of [] \<Rightarrow> 0 | x # _ \<Rightarrow> x, e))"

datatype fdset = Readfds | Writefds | Exceptfds

definition set_events :: "fdset \<Rightarrow> u16" where
  "set_events k = (case k of Readfds \<Rightarrow> POLLIN | Writefds \<Rightarrow> POLLOUT | Exceptfds \<Rightarrow> POLLPRI)"

definition sock_ready :: "'w osfn \<Rightarrow> fdset \<Rightarrow> int \<Rightarrow> 'w wenv \<Rightarrow> bool \<times> 'w wenv" where
  "sock_ready sys k fd e =
     (let (revs, e) = poll_one sys fd (set_events k) e
      in case k of
           Readfds \<Rightarrow> (has_ev revs (POLLIN OR POLLHUP OR POLLERR), e)
         | Writefds \<Rightarrow> (has_ev revs POLLOUT, e)
         | Exceptfds \<Rightarrow>
             if has_ev revs POLLPRI \<and> \<not> has_ev revs POLLHUP then (True, e)
             else if has_ev revs POLLERR
             then let (g, e) = os_call sys (Sys_sockerr fd) e in (rp_ret g = 0 \<and> rp_val g \<noteq> 0, e)
             else (False, e))"

subsection \<open>\<open>select\<close>\<close>

definition fd_set_members :: "gmem \<Rightarrow> u32 \<Rightarrow> u32 list" where
  "fd_set_members v p = gread_words v (p + 4) (min 64 (unat (gread32 v p)))"

fun select_members :: "'w osfn \<Rightarrow> fdset \<Rightarrow> u32 list \<Rightarrow> 'w wenv \<Rightarrow> u32 list \<times> 'w wenv" where
  "select_members sys k [] e = ([], e)"
| "select_members sys k (s # ss) e =
     (let fd = lookup_fd (we_ws e) s
      in if fd < 0 then select_members sys k ss e
         else let (rdy, e) = sock_ready sys k fd e; (rest, e) = select_members sys k ss e
              in (if rdy then s # rest else rest, e))"

definition put_fd_set :: "u32 \<Rightarrow> u32 list \<Rightarrow> gmem \<Rightarrow> gmem" where
  "put_fd_set p ss v =
     (let v = gwrite32 p (of_nat (length ss)) v in if ss = [] then v else gwrite (p + 4) (put_words ss) v)"

definition select_set :: "'w osfn \<Rightarrow> fdset \<Rightarrow> u32 \<Rightarrow> 'w wenv \<Rightarrow> nat \<times> 'w wenv" where
  "select_set sys k p e =
     (if p = 0 then (0, e)
      else let (ready, e) = select_members sys k (fd_set_members (we_mem e) p) e
           in (length ready, upd_mem (put_fd_set p ready) e))"

definition select_call :: "'w osfn \<Rightarrow> ws_args \<Rightarrow> 'w wenv \<Rightarrow> 'w ws_result" where
  "select_call sys args e =
     (let (r, e) = select_set sys Readfds (args 1) e;
          (w, e) = select_set sys Writefds (args 2) e;
          (x, e) = select_set sys Exceptfds (args 3) e
      in ws_return (of_nat (r + w + x)) e)"

definition WSAFDIsSet :: "ws_args \<Rightarrow> 'w wenv \<Rightarrow> 'w ws_result" where
  "WSAFDIsSet args e =
     ws_return (of_bool (args 1 \<noteq> 0 \<and> args 0 \<in> set (fd_set_members (we_mem e) (args 1)))) e"

subsection \<open>Options\<close>

definition SOL_SOCKET :: int where "SOL_SOCKET = 0xFFFF"
definition IPPROTO_TCP :: int where "IPPROTO_TCP = 6"
definition SO_ERROR :: int where "SO_ERROR = 0x1007"

text \<open>The option numbers of Windows and of the BSD host agree where both are known.\<close>

definition sol_socket_opt :: "int \<Rightarrow> int option" where
  "sol_socket_opt opt =
     map_of [(0x0004, 0x0004), (0x0008, 0x0008), (0x0020, 0x0020), (0x0080, 0x0080), (0x1001, 0x1001),
             (0x1002, 0x1002), (0x1005, 0x1005), (0x1006, 0x1006), (0x1007, SO_ERROR)] opt"

definition setsockopt_call :: "'w osfn \<Rightarrow> ws_args \<Rightarrow> 'w wenv \<Rightarrow> 'w ws_result" where
  "setsockopt_call sys args = on_fd (args 0) (\<lambda>fd e.
     let level = sint (args 1); opt = sint (args 2);
         apply_opt = (\<lambda>bsd_opt. let n = min (unat (args 4)) 64;
                          val = take n (zfill 64 (if args 3 \<noteq> 0 \<and> n \<noteq> 0 then gread (we_mem e) (args 3) n else []))
                      in os_status sys (Sys_setsockopt fd level bsd_opt val) e)
     in if level = SOL_SOCKET
        then if opt = 0x7010 then ws_return 0 e
             else case sol_socket_opt opt of None \<Rightarrow> ws_return 0 e | Some bsd_opt \<Rightarrow> apply_opt bsd_opt
        else apply_opt opt)"

definition getsockopt_call :: "'w osfn \<Rightarrow> ws_args \<Rightarrow> 'w wenv \<Rightarrow> 'w ws_result" where
  "getsockopt_call sys args = on_fd (args 0) (\<lambda>fd e.
     let (r, e) = os_call sys (Sys_getsockopt fd (sint (args 1)) (sint (args 2)) 64) e
     in if rp_ret r < 0 then ws_fail (errno_to_wsa (we_errno e)) e
        else let val = take 64 (rp_bytes r);
                 e = (if args 3 = 0 then e else upd_mem (gwrite (args 3) val) e)
             in ws_return 0 (upd_mem (gput32 (args 4) (of_nat (length val))) e))"

definition FIONBIO :: u32 where "FIONBIO = 0x8004667E"
definition FIONREAD :: u32 where "FIONREAD = 0x4004667F"

definition ioctlsocket_call :: "'w osfn \<Rightarrow> ws_args \<Rightarrow> 'w wenv \<Rightarrow> 'w ws_result" where
  "ioctlsocket_call sys args = on_fd (args 0) (\<lambda>fd e.
     if args 1 = FIONBIO
     then let val = (if args 2 = 0 then 0 else gread32 (we_mem e) (args 2));
              (r, e) = os_call sys (Sys_getfl fd) e;
              flags = (if val \<noteq> 0 then rp_ret r OR O_NONBLOCK else rp_ret r AND NOT O_NONBLOCK)
          in ws_return 0 (snd (os_call sys (Sys_setfl fd flags) e))
     else if args 1 = FIONREAD
     then let (r, e) = os_call sys (Sys_fionread fd) e;
              avail = (if rp_ret r < 0 then 0 else rp_val r)
          in ws_return 0 (upd_mem (gput32 (args 2) (word_of_int avail)) e)
     else ws_return 0 e)"

subsection \<open>Network events\<close>

definition FD_READ :: u32 where "FD_READ = 1"
definition FD_CONNECT :: u32 where "FD_CONNECT = 16"
definition FD_CLOSE :: u32 where "FD_CLOSE = 32"

definition WSAEnumNetworkEvents :: "'w osfn \<Rightarrow> ws_args \<Rightarrow> 'w wenv \<Rightarrow> 'w ws_result" where
  "WSAEnumNetworkEvents sys args e =
     (let fd = lookup_fd (we_ws e) (args 0);
          (events, err, e) =
            (if fd < 0 then (0, 0, e)
             else let (revs, e) = poll_one sys fd (POLLIN OR POLLOUT) e; i = sock_idx (args 0);
                      (ev, err, e) =
                        (if has_ev revs POLLOUT \<and> \<not> ws_connect_reported (we_ws e) ! i
                         then let (g, e) = os_call sys (Sys_sockerr fd) e;
                                  soerr = (if rp_ret g < 0 then 0 else rp_val g)
                              in (FD_CONNECT, if soerr \<noteq> 0 then errno_to_wsa soerr else 0,
                                  upd_ws (\<lambda>ws. ws\<lparr> ws_connect_reported := (ws_connect_reported ws)[i := True] \<rparr>) e)
                         else (0, 0, e))
                  in (ev OR (if has_ev revs POLLIN then FD_READ else 0) OR (if has_ev revs (POLLHUP OR POLLERR) then FD_CLOSE else 0),
                      err, e))
      in ws_return 0 (if args 2 = 0 then e
           else upd_mem (gwrite (args 2) (to_le 4 events @ replicate 16 0 @ to_le 4 err @ replicate 20 0)) e))"

definition WSAEventSelect :: "'w osfn \<Rightarrow> ws_args \<Rightarrow> 'w wenv \<Rightarrow> 'w ws_result" where
  "WSAEventSelect sys args e =
     (let fd = lookup_fd (we_ws e) (args 0)
      in ws_return 0 (if fd < 0 then e
           else let (r, e) = os_call sys (Sys_getfl fd) e in snd (os_call sys (Sys_setfl fd (rp_ret r OR O_NONBLOCK)) e)))"

definition wg_winsock_any_readable :: "'w osfn \<Rightarrow> 'w wenv \<Rightarrow> bool \<times> 'w wenv" where
  "wg_winsock_any_readable sys e =
     (let fds = filter (\<lambda>fd. 0 \<le> fd) (ws_fds (we_ws e))
      in if fds = [] then (False, e)
         else let (r, e) = os_call sys (Sys_poll fds POLLIN) e
              in (0 < rp_ret r \<and> (\<exists>revs \<in> set (take (length fds) (rp_revents r)). has_ev revs (POLLIN OR POLLHUP OR POLLERR)), e))"

subsection \<open>Names\<close>

definition gethostname_call :: "ws_args \<Rightarrow> 'w wenv \<Rightarrow> 'w ws_result" where
  "gethostname_call args e =
     ws_return 0 (if args 0 \<noteq> 0 \<and> 0 < args 1
       then upd_mem (gwrite (args 0) (take (unat (args 1) - 1) (map ord8 ''wineglass'') @ [0])) e else e)"

definition HB :: u32 where "HB = 0x00BF0000"

text \<open>The writes of a \<open>hostent\<close> at \<open>HB\<close>: the name, the empty list of aliases, the list of one address,
  the address, and the structure.\<close>

definition put_hostent :: "string \<Rightarrow> u32 \<Rightarrow> gmem \<Rightarrow> gmem" where
  "put_hostent hn ip v =
     (let v = gwrite (HB + 16) (map ord8 hn @ [0]) v;
          v = gwrite32 (HB + 96) 0 v;
          v = gwrite (HB + 104) (put_words [HB + 120, 0]) v;
          v = gwrite32 (HB + 120) ip v
      in gwrite HB (to_le 4 (HB + 16) @ to_le 4 (HB + 96) @ to_le 2 (2 :: u16) @ to_le 2 (4 :: u16) @ to_le 4 (HB + 104)) v)"

definition no_hints :: addrinfo where
  "no_hints = \<lparr> ai_flags = 0, ai_family = 0, ai_socktype = 0, ai_protocol = 0, ai_addr = [] \<rparr>"

definition local_name :: "string \<Rightarrow> bool" where
  "local_name name \<longleftrightarrow> name = [] \<or> strcaseeq name ''localhost'' \<or> strcaseeq name ''wineglass''"

definition loopback_ip :: u32 where "loopback_ip = swap32 0x7F000001"

definition resolved_ip :: "reply \<Rightarrow> u32" where
  "resolved_ip r =
     (case rp_addrs r of
        ai # _ \<Rightarrow> if rp_ret r = 0 \<and> ai_addr ai \<noteq> [] then of_le (take 4 (drop 4 (ai_addr ai))) else loopback_ip
      | [] \<Rightarrow> loopback_ip)"

definition gethostbyname_call :: "'w osfn \<Rightarrow> ws_args \<Rightarrow> 'w wenv \<Rightarrow> 'w ws_result" where
  "gethostbyname_call sys args e =
     (let name = (if args 0 = 0 then [] else cstr (gread (we_mem e) (args 0) 255));
          (ip, e) =
            (if local_name name then (loopback_ip, e)
             else let (r, e) = os_call sys (Sys_getaddrinfo (Some name) None (Some (no_hints\<lparr> ai_family := AF_INET \<rparr>))) e
                  in (resolved_ip r, e))
      in ws_return (ucast HB) (upd_mem (put_hostent (if name = [] then ''wineglass'' else name) ip) e))"

subsection \<open>\<open>getaddrinfo\<close>\<close>

definition align4 :: "u32 \<Rightarrow> u32" where "align4 n = (n + 3) AND NOT 3"

definition win_family :: "int \<Rightarrow> u32" where
  "win_family af = (let f = word_of_int af in if f = 30 then WIN_AF_INET6 else f)"

text \<open>The address of a node in Windows form: its bytes and \<open>ai_addrlen\<close>.\<close>

definition node_sockaddr :: "addrinfo \<Rightarrow> u8 list option" where
  "node_sockaddr ai =
     (let sa = ai_addr ai
      in if ai_family ai = AF_INET \<and> 16 \<le> length sa then Some (win_in sa)
         else if ai_family ai = AF_INET6 \<and> 28 \<le> length sa then Some (win_in6 sa)
         else if length sa \<le> 28 then Some (replicate (length sa) 0) else None)"

definition put_node :: "u32 \<Rightarrow> bool \<Rightarrow> addrinfo \<Rightarrow> gmem \<Rightarrow> (u32 \<times> gmem) option" where
  "put_node node has_next ai v =
     (let sa_len = of_nat (length (ai_addr ai));
          sa_ptr = node + 32;
          next_ptr = (if has_next then sa_ptr + align4 sa_len else 0);
          v = gwrite node (put_words [word_of_int (ai_flags ai), win_family (ai_family ai), word_of_int (ai_socktype ai),
                 word_of_int (ai_protocol ai), sa_len, 0, sa_ptr, next_ptr]) v
      in if ai_addr ai = [] then Some (if next_ptr \<noteq> 0 then next_ptr else sa_ptr + align4 sa_len, v)
         else do { wsa \<leftarrow> node_sockaddr ai;
                   let wlen = of_nat (length wsa);
                       v = gwrite32 (node + 16) wlen (gwrite sa_ptr wsa v)
                   in Some (if next_ptr \<noteq> 0 then next_ptr else sa_ptr + align4 wlen, v) })"

fun put_nodes :: "u32 \<Rightarrow> u32 \<Rightarrow> addrinfo list \<Rightarrow> gmem \<Rightarrow> gmem option" where
  "put_nodes ptr prev_next [] v = Some v"
| "put_nodes ptr prev_next (ai # ais) v = do {
     (ptr', v) \<leftarrow> put_node ptr (ais \<noteq> []) ai v;
     put_nodes ptr' (ptr + 28) ais (if prev_next \<noteq> 0 then gwrite32 prev_next ptr v else v) }"

definition read_hints :: "gmem \<Rightarrow> u32 \<Rightarrow> addrinfo option" where
  "read_hints v p =
     (if p = 0 then None
      else let h = gread_words v p 8
           in Some \<lparr> ai_flags = sint (h ! 0), ai_family = (if h ! 1 = 23 then AF_INET6 else sint (h ! 1)),
                ai_socktype = sint (h ! 2), ai_protocol = sint (h ! 3), ai_addr = [] \<rparr>)"

definition guest_name :: "gmem \<Rightarrow> u32 \<Rightarrow> nat \<Rightarrow> string option" where
  "guest_name v p n =
     (let s = (if p = 0 then [] else cstr (gread v p n)) in if s = [] then None else Some s)"

definition getaddrinfo_call :: "'w osfn \<Rightarrow> ws_args \<Rightarrow> 'w wenv \<Rightarrow> 'w ws_result" where
  "getaddrinfo_call sys args e =
     (let v = we_mem e;
          (r, e) = os_call sys (Sys_getaddrinfo (guest_name v (args 0) 255) (guest_name v (args 1) 63) (read_hints v (args 2))) e
      in if rp_ret r \<noteq> 0 then ws_return 11001 (set_wsa_error WSAEHOSTUNREACH e)
         else let base = ws_gai_base (we_ws e)
              in do { mem \<leftarrow> put_nodes base 0 (rp_addrs r) (we_mem e);
                      ws_return 0 (e\<lparr> we_mem := gput32 (args 3) base mem \<rparr>) })"

subsection \<open>The dispatch\<close>

text \<open>\<^term>\<open>Some None\<close> is a name the layer does not handle.\<close>

definition wg_winsock_handle ::
    "(nat \<Rightarrow> bool) \<Rightarrow> 'w osfn \<Rightarrow> string \<Rightarrow> ws_args \<Rightarrow> 'w wenv \<Rightarrow> (u64 \<times> 'w wenv) option option" where
  "wg_winsock_handle mal sys fn args e =
     (let handled = map_option Some in
      if fn = ''WSAStartup'' then handled (WSAStartup args e)
      else if fn = ''WSACleanup'' then handled (WSACleanup e)
      else if fn = ''WSAGetLastError'' then handled (WSAGetLastError e)
      else if fn = ''WSASetLastError'' then handled (WSASetLastError args e)
      else if fn = ''inet_ntop'' \<or> fn = ''InetNtopA'' then handled (inet_ntop_call sys args e)
      else if fn = ''inet_pton'' \<or> fn = ''InetPtonA'' then handled (inet_pton_call sys args e)
      else if fn = ''socket'' then handled (socket_call sys args e)
      else if fn = ''closesocket'' then handled (closesocket_call sys args e)
      else if fn = ''connect'' then handled (connect_call sys args e)
      else if fn = ''send'' then handled (send_call mal sys args e)
      else if fn = ''recv'' then handled (recv_call mal sys args e)
      else if fn = ''select'' then handled (select_call sys args e)
      else if fn = ''__WSAFDIsSet'' then handled (WSAFDIsSet args e)
      else if fn = ''setsockopt'' then handled (setsockopt_call sys args e)
      else if fn = ''getsockopt'' then handled (getsockopt_call sys args e)
      else if fn = ''ioctlsocket'' then handled (ioctlsocket_call sys args e)
      else if fn = ''shutdown'' then handled (shutdown_call sys args e)
      else if fn = ''bind'' then handled (bind_call sys args e)
      else if fn = ''listen'' then handled (listen_call sys args e)
      else if fn = ''getpeername'' then handled (getpeername_call sys args e)
      else if fn = ''getsockname'' then handled (getsockname_call sys args e)
      else if fn = ''htons'' \<or> fn = ''ntohs'' then handled (htons_call args e)
      else if fn = ''htonl'' \<or> fn = ''ntohl'' then handled (htonl_call args e)
      else if fn = ''inet_addr'' then handled (inet_addr_call sys args e)
      else if fn = ''inet_ntoa'' then handled (inet_ntoa_call sys args e)
      else if fn = ''gethostname'' then handled (gethostname_call args e)
      else if fn = ''gethostbyname'' then handled (gethostbyname_call sys args e)
      else if fn = ''getaddrinfo'' then handled (getaddrinfo_call sys args e)
      else if fn = ''freeaddrinfo'' then handled (ws_return 0 e)
      else if fn = ''WSASend'' \<or> fn = ''WSASendTo'' then handled (WSASend mal sys args e)
      else if fn = ''WSARecv'' \<or> fn = ''WSARecvFrom'' then handled (WSARecv mal sys args e)
      else if fn = ''WSAIoctl'' then handled (WSAIoctl args e)
      else if fn = ''ConnectEx'' then handled (ConnectEx sys args e)
      else if fn = ''DisconnectEx'' then handled (DisconnectEx sys args e)
      else if fn = ''WSASocketW'' \<or> fn = ''WSASocketA'' then handled (socket_call sys args e)
      else if fn = ''WSAEnumNetworkEvents'' then handled (WSAEnumNetworkEvents sys args e)
      else if fn = ''WSAEventSelect'' then handled (WSAEventSelect sys args e)
      else Some None)"

end
