(* ===== verification/Winsock_Table.thy ===== *)
theory Winsock_Table
  imports Winsock_Handle Handle_Table
begin

section \<open>The descriptors of the host\<close>

text \<open>
  The table of sockets keeps the contract of a handle table.  Every descriptor the host has given out
  is in one slot of the table, whatever the guest calls, so \<open>wg_winsock_destroy\<close> leaves none open.
\<close>

subsection \<open>Slots\<close>

definition wf_sockets :: "WGWinsock \<Rightarrow> bool" where
  "wf_sockets ws \<longleftrightarrow> length (ws_fds ws) = WG_MAX_SOCKETS \<and> length (ws_connect_reported ws) = WG_MAX_SOCKETS"

lemma sock_idx_range: "sock_range s \<Longrightarrow> sock_idx s < WG_MAX_SOCKETS \<and> s = SOCK_BASE + of_nat (sock_idx s)"
proof -
  assume r: "sock_range s"
  then have "0x1000 \<le> unat s" "unat s < 0x1080"
    by (simp_all add: sock_range_def SOCK_BASE_def WG_MAX_SOCKETS_def word_le_nat_alt word_less_nat_alt)
  then have "unat (s - SOCK_BASE) = unat s - 0x1000"
    by (simp add: SOCK_BASE_def unat_sub word_le_nat_alt)
  moreover have "SOCK_BASE + of_nat (unat (s - SOCK_BASE)) = s" by simp
  ultimately show ?thesis using \<open>unat s < 0x1080\<close> unfolding sock_idx_def WG_MAX_SOCKETS_def by simp
qed

lemma sock_idx_of_nat: "i < WG_MAX_SOCKETS \<Longrightarrow> sock_idx (SOCK_BASE + of_nat i) = i \<and> sock_range (SOCK_BASE + of_nat i)"
  by (simp add: sock_idx_def sock_range_def SOCK_BASE_def WG_MAX_SOCKETS_def unat_of_nat word_le_nat_alt word_less_nat_alt unat_word_ariths)

lemma sock_idx_inj: "sock_range s \<Longrightarrow> sock_range s' \<Longrightarrow> sock_idx s = sock_idx s' \<Longrightarrow> s = s'"
  using sock_idx_range by metis

definition sock_lookup :: "'w wenv \<Rightarrow> u32 \<Rightarrow> int option" where
  "sock_lookup e s = (let fd = lookup_fd (we_ws e) s in if fd < 0 then None else Some fd)"

text \<open>Allocation of a descriptor (a number that is not negative); \<^term>\<open>None\<close> when the table is full.\<close>

definition sock_alloc :: "'w osfn \<Rightarrow> nat \<Rightarrow> 'w wenv \<Rightarrow> (u32 \<times> 'w wenv) option" where
  "sock_alloc sys fd e = (let (s, e') = alloc_socket sys (int fd) e in if s = WIN_INVALID_SOCKET then None else Some (s, e'))"

lemma sock_handle_valid: "i < WG_MAX_SOCKETS \<Longrightarrow> SOCK_BASE + of_nat i \<noteq> WIN_INVALID_SOCKET"
proof
  assume i: "i < WG_MAX_SOCKETS" and eq: "SOCK_BASE + of_nat i = WIN_INVALID_SOCKET"
  have "sock_range WIN_INVALID_SOCKET" using sock_idx_of_nat [OF i] unfolding eq by simp
  moreover have "\<not> sock_range WIN_INVALID_SOCKET"
    by (simp add: sock_range_def WIN_INVALID_SOCKET_def SOCK_BASE_def WG_MAX_SOCKETS_def)
  ultimately show False by simp
qed

lemma os_call_frame: "os_call sys c e = (r, e') \<Longrightarrow> we_ws e' = we_ws e \<and> we_mem e' = we_mem e"
  by (auto simp: os_call_def split: prod.splits)

lemma upd_sel [simp]:
  "we_ws (upd_ws f e) = f (we_ws e)" "we_ws (upd_mem g e) = we_ws e" "we_os (upd_ws f e) = we_os e"
  "we_os (upd_mem g e) = we_os e" "we_mem (upd_mem g e) = g (we_mem e)" "we_mem (upd_ws f e) = we_mem e"
  "we_errno (upd_ws f e) = we_errno e" "we_errno (upd_mem g e) = we_errno e"
  "we_os (set_wsa_error err e) = we_os e" "we_mem (set_wsa_error err e) = we_mem e"
  "we_ws (set_wsa_error err e) = (we_ws e)\<lparr> ws_last_error := err \<rparr>"
  by (simp_all add: upd_ws_def upd_mem_def set_wsa_error_def)

lemma lookup_update:
  assumes "wf_sockets ws" "i < WG_MAX_SOCKETS"
  shows "lookup_fd (ws\<lparr> ws_fds := (ws_fds ws)[i := fd] \<rparr>) s = (if s = SOCK_BASE + of_nat i then fd else lookup_fd ws s)"
proof (cases "sock_range s")
  case True
  have "sock_idx s = i \<longleftrightarrow> s = SOCK_BASE + of_nat i"
    using sock_idx_range [OF True] sock_idx_of_nat [OF assms(2)] by auto
  with True show ?thesis using assms by (auto simp: lookup_fd_def wf_sockets_def nth_list_update)
next
  case False
  then show ?thesis using sock_idx_of_nat [OF assms(2)] by (auto simp: lookup_fd_def)
qed

lemma wf_sockets_update: "wf_sockets ws \<Longrightarrow> wf_sockets (ws\<lparr> ws_fds := (ws_fds ws)[i := fd] \<rparr>)"
  by (simp add: wf_sockets_def)

lemma lookup_slot: "i < WG_MAX_SOCKETS \<Longrightarrow> lookup_fd ws (SOCK_BASE + of_nat i) = ws_fds ws ! i"
  using sock_idx_of_nat by (simp add: lookup_fd_def)

lemma alloc_socket_Some:
  assumes wf: "wf_sockets (we_ws e)" and a: "sock_alloc sys fd e = Some (s, e')"
  obtains i where "first_idx (\<lambda>f. f < 0) (ws_fds (we_ws e)) = Some i" "i < WG_MAX_SOCKETS" "s = SOCK_BASE + of_nat i"
    "e' = upd_ws (\<lambda>ws. ws\<lparr> ws_fds := (ws_fds ws)[i := int fd] \<rparr>) e"
proof (cases "first_idx (\<lambda>f. f < 0) (ws_fds (we_ws e))")
  case None
  with a show ?thesis by (simp add: sock_alloc_def alloc_socket_def)
next
  case (Some i)
  then have "i < WG_MAX_SOCKETS" using wf first_idx_lt [OF Some] by (simp add: wf_sockets_def)
  with Some a that show ?thesis by (auto simp: sock_alloc_def alloc_socket_def split: if_splits)
qed

lemma free_socket_ws:
  "we_ws (free_socket sys s e) =
     (if 0 \<le> lookup_fd (we_ws e) s then (we_ws e)\<lparr> ws_fds := (ws_fds (we_ws e))[sock_idx s := - 1] \<rparr> else we_ws e)"
proof -
  obtain r e1 where c: "os_call sys (Sys_close (ws_fds (we_ws e) ! sock_idx s)) e = (r, e1)" by fastforce
  show ?thesis using os_call_frame [OF c] by (simp add: free_socket_def lookup_fd_def Let_def c)
qed

interpretation sock_table: handle_table sock_lookup "sock_alloc sys" "\<lambda>fd s x. x = int fd" "\<lambda>e. wf_sockets (we_ws e)" "free_socket sys"
  for sys :: "'w osfn"
proof unfold_locales
  fix e e' :: "'w wenv" and s :: u32 and fd :: nat
  assume inv: "wf_sockets (we_ws e)" and a: "sock_alloc sys fd e = Some (s, e')"
  obtain i where i: "first_idx (\<lambda>f. f < 0) (ws_fds (we_ws e)) = Some i" "i < WG_MAX_SOCKETS" "s = SOCK_BASE + of_nat i"
    "e' = upd_ws (\<lambda>ws. ws\<lparr> ws_fds := (ws_fds ws)[i := int fd] \<rparr>) e"
    using alloc_socket_Some [OF inv a] .
  show "sock_lookup e s = None" using first_idx_holds [OF i(1)] i(2,3) by (simp add: sock_lookup_def lookup_slot)
  show "\<exists>ob. ob = int fd \<and> sock_lookup e' = (sock_lookup e)(s \<mapsto> ob)"
    using i lookup_update [OF inv i(2)] by (auto simp: sock_lookup_def fun_eq_iff)
  show "wf_sockets (we_ws e')" using inv i(4) wf_sockets_update by simp
next
  fix e :: "'w wenv" and s :: u32
  assume inv: "wf_sockets (we_ws e)"
  show "sock_lookup (free_socket sys s e) = (sock_lookup e)(s := None)"
  proof (cases "0 \<le> lookup_fd (we_ws e) s")
    case True
    then have r: "sock_range s" by (auto simp: lookup_fd_def split: if_splits)
    show ?thesis using True lookup_update [OF inv, of "sock_idx s" "- 1"] sock_idx_range [OF r]
      by (auto simp: sock_lookup_def fun_eq_iff free_socket_ws)
  next
    case False
    then show ?thesis by (auto simp: sock_lookup_def fun_eq_iff free_socket_ws)
  qed
  show "wf_sockets (we_ws (free_socket sys s e))" using inv wf_sockets_update by (simp add: free_socket_ws)
qed

end
