(* ===== verification/Winsock_Invariant.thy ===== *)
theory Winsock_Invariant
  imports Winsock_Table
begin

section \<open>Invariants of the socket layer\<close>

text \<open>
  A property of the environment that survives the system calls which open and close nothing, writes to
  guest memory, error codes and the handling of sockets is kept by every call of the layer, and by
  every session.  The locale states that contract; its lemmas go through the calls once.
\<close>

fun quiet :: "syscall \<Rightarrow> bool" where
  "quiet (Sys_socket _ _ _) = False"
| "quiet (Sys_close _) = False"
| "quiet _ = True"

definition keeps :: "('w wenv \<Rightarrow> bool) \<Rightarrow> 'w ws_result \<Rightarrow> bool" where
  "keeps P res \<longleftrightarrow> (\<forall>r e. res = Some (r, e) \<longrightarrow> P e)"

named_theorems keeps_rules \<open>how a call is built from steps that keep an invariant\<close>

lemma keeps_end [keeps_rules]:
  "P e \<Longrightarrow> keeps P (ws_return r e)"
  "P (set_wsa_error err e) \<Longrightarrow> keeps P (ws_fail err e)"
  "keeps P None"
  by (simp_all add: keeps_def ws_return_def ws_fail_def)

lemma keeps_if [keeps_rules]: "(b \<Longrightarrow> keeps P x) \<Longrightarrow> (\<not> b \<Longrightarrow> keeps P y) \<Longrightarrow> keeps P (if b then x else y)"
  by simp

lemma keeps_bind [keeps_rules]: "(\<And>x. m = Some x \<Longrightarrow> keeps P (k x)) \<Longrightarrow> keeps P (Option.bind m k)"
  by (cases m) (simp_all add: keeps_def)

lemma keeps_pair [keeps_rules]: "(\<And>a b. p = (a, b) \<Longrightarrow> keeps P (f a b)) \<Longrightarrow> keeps P (case p of (a, b) \<Rightarrow> f a b)"
  by (cases p) simp

lemma keeps_sum [keeps_rules]:
  "(\<And>u. s = Inl u \<Longrightarrow> keeps P (f u)) \<Longrightarrow> (\<And>n. s = Inr n \<Longrightarrow> keeps P (g n)) \<Longrightarrow>
   keeps P (case s of Inl u \<Rightarrow> f u | Inr n \<Rightarrow> g n)"
  by (cases s) simp_all

lemma keeps_option [keeps_rules]:
  "(s = None \<Longrightarrow> keeps P f) \<Longrightarrow> (\<And>n. s = Some n \<Longrightarrow> keeps P (g n)) \<Longrightarrow> keeps P (case s of None \<Rightarrow> f | Some n \<Rightarrow> g n)"
  by (cases s) simp_all

lemma keeps_on_fd [keeps_rules]:
  "P (set_wsa_error WSAENOTSOCK e) \<Longrightarrow> (\<And>fd. keeps P (k fd e)) \<Longrightarrow> keeps P (on_fd s k e)"
  by (simp add: on_fd_def Let_def keeps_end)

definition keeps_handled :: "('w wenv \<Rightarrow> bool) \<Rightarrow> (u64 \<times> 'w wenv) option option \<Rightarrow> bool" where
  "keeps_handled P res \<longleftrightarrow> (\<forall>r e. res = Some (Some (r, e)) \<longrightarrow> P e)"

lemma keeps_handled_intros:
  "keeps P res \<Longrightarrow> keeps_handled P (map_option Some res)"
  "keeps_handled P (Some None)"
  "keeps_handled P x \<Longrightarrow> keeps_handled P y \<Longrightarrow> keeps_handled P (if b then x else y)"
  by (auto simp: keeps_handled_def keeps_def)

text \<open>The calls of a guest one after the other; a name that is not handled changes nothing here.\<close>

fun ws_run :: "(nat \<Rightarrow> bool) \<Rightarrow> 'w osfn \<Rightarrow> (string \<times> ws_args) list \<Rightarrow> 'w wenv \<Rightarrow> 'w wenv option" where
  "ws_run mal sys [] e = Some e"
| "ws_run mal sys ((fn, args) # calls) e = do {
     res \<leftarrow> wg_winsock_handle mal sys fn args e;
     ws_run mal sys calls (case res of None \<Rightarrow> e | Some (_, e') \<Rightarrow> e') }"

definition ws_start :: "u32 \<Rightarrow> gmem \<Rightarrow> 'w \<Rightarrow> 'w wenv" where
  "ws_start gai v w = \<lparr> we_ws = wg_winsock_create gai, we_mem = v, we_os = w, we_errno = 0 \<rparr>"

locale ws_invariant =
  fixes sys :: "'w osfn" and P :: "'w wenv \<Rightarrow> bool"
  assumes os_step: "P e \<Longrightarrow> quiet c \<Longrightarrow> os_call sys c e = (r, e') \<Longrightarrow> P e'"
    and mem_step: "P e \<Longrightarrow> P (e\<lparr> we_mem := v \<rparr>)"
    and errno_step: "P e \<Longrightarrow> P (e\<lparr> we_errno := n \<rparr>)"
    and error_step: "P e \<Longrightarrow> P (set_wsa_error err e)"
    and init_step: "P e \<Longrightarrow> P (upd_ws (\<lambda>ws. ws\<lparr> ws_initialised := b \<rparr>) e)"
    and report_step: "P e \<Longrightarrow> P (upd_ws (\<lambda>ws. ws\<lparr> ws_connect_reported := (ws_connect_reported ws)[i := True] \<rparr>) e)"
    and socket_step: "P e \<Longrightarrow> socket_call sys args e = Some (v', e') \<Longrightarrow> P e'"
    and free_step: "P e \<Longrightarrow> P (free_socket sys s e)"
begin

lemma upd_mem_step: "P e \<Longrightarrow> P (upd_mem g e)"
  by (simp add: upd_mem_def mem_step)

lemmas steps = upd_mem_step mem_step errno_step error_step

lemma snd_os: "P e \<Longrightarrow> quiet c \<Longrightarrow> P (snd (os_call sys c e))"
  using os_step by (cases "os_call sys c e") simp

lemma keeps_os:
  assumes "quiet c" "P e" "\<And>r e'. P e' \<Longrightarrow> keeps P (k r e')"
  shows "keeps P (case os_call sys c e of (r, e') \<Rightarrow> k r e')"
  using assms(3) os_step [OF assms(2,1)] by (cases "os_call sys c e") simp

lemma keeps_status: "quiet c \<Longrightarrow> P e \<Longrightarrow> keeps P (os_status sys c e)"
  unfolding os_status_def by (rule keeps_os | rule keeps_rules | assumption | simp add: steps)+

lemma connect_done_step:
  assumes a: "P e" and c: "connect_done sys fd e = Some (st, e')"
  shows "P e'"
proof -
  obtain r e1 g e2 where s: "os_call sys (Sys_select_write fd 15) e = (r, e1)" "os_call sys (Sys_sockerr fd) e1 = (g, e2)"
    by (metis surj_pair)
  have "P e1" using os_step [OF a _ s(1)] by simp
  moreover from this have "P e2" using os_step [OF _ _ s(2)] by simp
  ultimately show ?thesis using c by (auto simp: connect_done_def s split: if_splits)
qed

lemma keeps_connect_done:
  assumes "P e" "\<And>st e'. P e' \<Longrightarrow> keeps P (k st e')"
  shows "keeps P (connect_done sys fd e \<bind> (\<lambda>(st, e'). k st e'))"
proof (cases "connect_done sys fd e")
  case (Some p)
  then show ?thesis using assms(2) connect_done_step [OF assms(1)] by (cases p) simp
qed (simp add: keeps_def)

lemma keeps_connect_finish: "P e \<Longrightarrow> keeps P (connect_finish r e)"
  by (simp add: connect_finish_def keeps_end steps)

lemma keeps_connects:
  assumes a: "P e"
  shows "keeps P (connect_call sys args e)"
    and "keeps P (ConnectEx sys args e)"
    and "keeps P (DisconnectEx sys args e)"
    and "keeps P (shutdown_call sys args e)"
  unfolding connect_call_def ConnectEx_def DisconnectEx_def shutdown_call_def Let_def
  by (rule keeps_os keeps_connect_done keeps_connect_finish | rule keeps_rules | rule a | simp add: a steps snd_os)+

lemma keeps_streams:
  assumes a: "P e"
  shows "keeps P (send_call mal sys args e)"
    and "keeps P (recv_call mal sys args e)"
    and "keeps P (WSASend mal sys args e)"
    and "keeps P (WSARecv mal sys args e)"
    and "keeps P (WSAIoctl args e)"
  unfolding send_call_def recv_call_def WSASend_def WSARecv_def WSAIoctl_def Let_def
  by (rule keeps_os | rule keeps_rules | rule a | simp add: a steps)+

lemma keeps_names:
  assumes a: "P e"
  shows "keeps P (bind_call sys args e)"
    and "keeps P (listen_call sys args e)"
    and "keeps P (getpeername_call sys args e)"
    and "keeps P (getsockname_call sys args e)"
    and "keeps P (gethostname_call args e)"
    and "keeps P (getaddrinfo_call sys args e)"
    and "keeps P (inet_ntop_call sys args e)"
    and "keeps P (inet_pton_call sys args e)"
    and "keeps P (inet_addr_call sys args e)"
    and "keeps P (inet_ntoa_call sys args e)"
    and "keeps P (htons_call args e)"
    and "keeps P (htonl_call args e)"
  unfolding bind_call_def listen_call_def getpeername_call_def getsockname_call_def name_call_def gethostname_call_def
    getaddrinfo_call_def inet_ntop_call_def inet_pton_call_def inet_addr_call_def inet_ntoa_call_def htons_call_def htonl_call_def Let_def
  by (rule keeps_os keeps_status | rule keeps_rules | rule a | simp add: a steps)+

lemma keeps_options:
  assumes a: "P e"
  shows "keeps P (setsockopt_call sys args e)"
    and "keeps P (getsockopt_call sys args e)"
    and "keeps P (ioctlsocket_call sys args e)"
  unfolding setsockopt_call_def getsockopt_call_def ioctlsocket_call_def Let_def
  by (rule keeps_os keeps_status | rule keeps_rules | rule a | simp add: a steps snd_os)+

lemma poll_one_step:
  assumes "P e" "poll_one sys fd ev e = (r, e')"
  shows "P e'"
  using assms(2) by (auto simp: poll_one_def split: prod.splits intro: os_step [OF assms(1), rotated])

lemma sock_ready_step:
  assumes a: "P e" and s: "sock_ready sys k fd e = (b, e')"
  shows "P e'"
proof -
  obtain v e1 g e2 where p: "poll_one sys fd (set_events k) e = (v, e1)" "os_call sys (Sys_sockerr fd) e1 = (g, e2)"
    by (metis surj_pair)
  have "P e1" by (rule poll_one_step [OF a p(1)])
  moreover from this have "P e2" using os_step [OF _ _ p(2)] by simp
  ultimately show ?thesis using s by (auto simp: sock_ready_def p split: fdset.splits if_splits)
qed

lemma select_members_step: "P e \<Longrightarrow> select_members sys k ss e = (r, e') \<Longrightarrow> P e'"
proof (induction ss arbitrary: e r)
  case (Cons s ss)
  then show ?case by (auto simp: Let_def split: prod.splits if_splits dest: sock_ready_step)
qed simp

lemma keeps_select_set:
  assumes "P e" "\<And>v e'. P e' \<Longrightarrow> keeps P (k v e')"
  shows "keeps P (case select_set sys kd p e of (v, e') \<Rightarrow> k v e')"
proof -
  obtain n e' where s: "select_set sys kd p e = (n, e')" by fastforce
  then have "P e'"
    using select_members_step [OF assms(1)] assms(1) by (auto simp: select_set_def steps split: prod.splits if_splits)
  then show ?thesis using assms(2) s by simp
qed

lemma keeps_state:
  assumes a: "P e"
  shows "keeps P (WSAStartup args e)"
    and "keeps P (WSACleanup e)"
    and "keeps P (WSAGetLastError e)"
    and "keeps P (WSASetLastError args e)"
    and "keeps P (WSAFDIsSet args e)"
    and "keeps P (select_call sys args e)"
    and "keeps P (closesocket_call sys args e)"
    and "keeps P (socket_call sys args e)"
proof -
  have "upd_ws (\<lambda>ws. ws\<lparr> ws_initialised := True, ws_last_error := 0 \<rparr>) e
      = set_wsa_error 0 (upd_ws (\<lambda>ws. ws\<lparr> ws_initialised := True \<rparr>) e)" by (simp add: set_wsa_error_def upd_ws_def)
  then show "keeps P (WSAStartup args e)"
    using a by (simp add: WSAStartup_def keeps_end Let_def steps init_step)
  show "keeps P (select_call sys args e)"
    unfolding select_call_def Let_def by (rule keeps_select_set | rule keeps_rules | rule a | assumption)+
  show "keeps P (socket_call sys args e)"
    using socket_step [OF a] by (simp add: keeps_def)
qed (simp_all add: WSACleanup_def WSAGetLastError_def WSASetLastError_def WSAFDIsSet_def closesocket_call_def keeps_end a steps init_step free_step)

lemma keeps_events:
  assumes a: "P e"
  shows "keeps P (gethostbyname_call sys args e)"
    and "keeps P (WSAEnumNetworkEvents sys args e)"
    and "keeps P (WSAEventSelect sys args e)"
proof -
  obtain r e1 where c: "os_call sys (Sys_getaddrinfo (Some (if args 0 = 0 then [] else cstr (gread (we_mem e) (args 0) 255))) None
      (Some (no_hints\<lparr> ai_family := AF_INET \<rparr>))) e = (r, e1)" by fastforce
  have "P e1" using os_step [OF a _ c] by simp
  then show "keeps P (gethostbyname_call sys args e)"
    using a by (simp only: gethostbyname_call_def Let_def c prod.case) (simp add: keeps_end steps)
next
  obtain r e1 where c: "os_call sys (Sys_getfl (lookup_fd (we_ws e) (args 0))) e = (r, e1)" by fastforce
  have "P e1" using os_step [OF a _ c] by simp
  then show "keeps P (WSAEventSelect sys args e)" using a by (simp add: WSAEventSelect_def Let_def c keeps_end snd_os)
next
  obtain rv e1 where p: "poll_one sys (lookup_fd (we_ws e) (args 0)) (POLLIN OR POLLOUT) e = (rv, e1)" by fastforce
  have e1: "P e1" by (rule poll_one_step [OF a p])
  obtain g e2 where g: "os_call sys (Sys_sockerr (lookup_fd (we_ws e) (args 0))) e1 = (g, e2)" by fastforce
  have "P e2" using os_step [OF e1 _ g] by simp
  with a e1 show "keeps P (WSAEnumNetworkEvents sys args e)"
    by (simp add: WSAEnumNetworkEvents_def Let_def keeps_end p g steps report_step)
qed

lemma handle_keeps: "P e \<Longrightarrow> keeps_handled P (wg_winsock_handle mal sys fn args e)"
  unfolding wg_winsock_handle_def Let_def
  by (intro keeps_handled_intros keeps_connects keeps_streams keeps_names keeps_options keeps_state keeps_events keeps_end)

lemma run_keeps: "P e \<Longrightarrow> ws_run mal sys calls e = Some e' \<Longrightarrow> P e'"
proof (induction calls arbitrary: e)
  case (Cons c calls)
  obtain fn args where c: "c = (fn, args)" by fastforce
  with Cons.prems(2) obtain res where res: "wg_winsock_handle mal sys fn args e = Some res"
    "ws_run mal sys calls (case res of None \<Rightarrow> e | Some (_, e') \<Rightarrow> e') = Some e'"
    by (auto simp: bind_eq_Some_conv)
  have "P (case res of None \<Rightarrow> e | Some (_, e') \<Rightarrow> e')"
    using handle_keeps [OF Cons.prems(1), of mal fn args] res(1) Cons.prems(1)
    by (auto simp: keeps_handled_def split: option.split)
  from Cons.IH [OF this res(2)] show ?case .
qed simp

end

end
