(* ===== verification/Winsock_Accounts.thy ===== *)
theory Winsock_Accounts
  imports Winsock_Invariant
begin

section \<open>No descriptor is lost\<close>

text \<open>
  What a host promises of its descriptors: a socket that is made is a number not open before, a
  \<open>close\<close> closes just the one it names, no other call opens or closes any.
\<close>

definition host_ok :: "'w osfn \<Rightarrow> ('w \<Rightarrow> int set) \<Rightarrow> bool" where
  "host_ok sys opened \<longleftrightarrow>
     (\<forall>c w r w'. sys c w = (r, w') \<longrightarrow>
        (case c of
           Sys_socket _ _ _ \<Rightarrow>
             if rp_ret r < 0 then opened w' = opened w
             else rp_ret r \<notin> opened w \<and> opened w' = insert (rp_ret r) (opened w)
         | Sys_close fd \<Rightarrow> opened w' = opened w - {fd}
         | _ \<Rightarrow> opened w' = opened w))"

definition live_fds :: "WGWinsock \<Rightarrow> int list" where
  "live_fds ws = filter (\<lambda>fd. 0 \<le> fd) (ws_fds ws)"

text \<open>The books are in order: the descriptors in the table are those the host has open, each once.\<close>

definition accounted :: "('w \<Rightarrow> int set) \<Rightarrow> 'w wenv \<Rightarrow> bool" where
  "accounted opened e \<longleftrightarrow> wf_sockets (we_ws e) \<and> distinct (live_fds (we_ws e)) \<and> opened (we_os e) = set (live_fds (we_ws e))"

lemma os_quiet:
  assumes "host_ok sys opened" "quiet c" "accounted opened e" "os_call sys c e = (r, e')"
  shows "accounted opened e'"
proof -
  obtain w where w: "sys c (we_os e) = (r, w)" and e': "we_os e' = w" "we_ws e' = we_ws e"
    using assms(4) by (auto simp: os_call_def split: prod.splits)
  have "opened w = opened (we_os e)"
    using assms(1) [unfolded host_ok_def, rule_format, OF w] assms(2) by (cases c) auto
  with assms(3) e' show ?thesis by (simp add: accounted_def)
qed

lemma accounted_frame [simp]:
  "accounted opened (upd_mem g e) = accounted opened e"
  "accounted opened (set_wsa_error err e) = accounted opened e"
  "accounted opened (e\<lparr> we_mem := v \<rparr>) = accounted opened e"
  "accounted opened (e\<lparr> we_errno := n \<rparr>) = accounted opened e"
  by (simp_all add: accounted_def wf_sockets_def live_fds_def)

subsection \<open>Opening and closing\<close>

lemma split_update:
  assumes "i < length xs"
  obtains ys zs where "xs = ys @ xs ! i # zs" "\<forall>x. xs[i := x] = ys @ x # zs"
  using id_take_nth_drop [OF assms] upd_conv_take_nth_drop [OF assms] by blast

lemma filter_update_in:
  assumes "i < length xs" "\<not> P (xs ! i)" "P x"
  shows "set (filter P (xs[i := x])) = insert x (set (filter P xs))"
    and "x \<notin> set (filter P xs) \<Longrightarrow> distinct (filter P xs) \<Longrightarrow> distinct (filter P (xs[i := x]))"
proof -
  obtain ys zs where xs: "xs = ys @ xs ! i # zs" "\<forall>x. xs[i := x] = ys @ x # zs" using split_update [OF assms(1)] .
  have f1: "filter P xs = filter P ys @ filter P zs" using assms(2) by (subst xs(1)) simp
  have f2: "filter P (xs[i := x]) = filter P ys @ x # filter P zs" using assms(3) xs(2) by simp
  note f = f1 f2
  show "set (filter P (xs[i := x])) = insert x (set (filter P xs))" unfolding f by auto
  show "x \<notin> set (filter P xs) \<Longrightarrow> distinct (filter P xs) \<Longrightarrow> distinct (filter P (xs[i := x]))" unfolding f by auto
qed

lemma filter_update_out:
  assumes "i < length xs" "P (xs ! i)" "\<not> P x" "distinct (filter P xs)"
  shows "set (filter P (xs[i := x])) = set (filter P xs) - {xs ! i} \<and> distinct (filter P (xs[i := x]))"
proof -
  obtain ys zs where xs: "xs = ys @ xs ! i # zs" "\<forall>x. xs[i := x] = ys @ x # zs" using split_update [OF assms(1)] .
  have f1: "filter P xs = filter P ys @ xs ! i # filter P zs" using assms(2) by (subst xs(1)) simp
  have f2: "filter P (xs[i := x]) = filter P ys @ filter P zs" using assms(3) xs(2) by simp
  note f = f1 f2
  from assms(4) show ?thesis unfolding f by auto
qed

lemma alloc_accounted:
  assumes h: "host_ok sys opened" and fd: "0 \<le> fd" "fd \<notin> set (live_fds (we_ws e))" and wf: "wf_sockets (we_ws e)"
    and d: "distinct (live_fds (we_ws e))" and o: "opened (we_os e) = insert fd (set (live_fds (we_ws e)))"
    and a: "alloc_socket sys fd e = (s, e')"
  shows "accounted opened e'"
proof (cases "first_idx (\<lambda>f. f < 0) (ws_fds (we_ws e))")
  case None
  with a obtain r where c: "os_call sys (Sys_close fd) e = (r, e')"
    by (cases "os_call sys (Sys_close fd) e") (simp add: alloc_socket_def)
  then obtain w where w: "sys (Sys_close fd) (we_os e) = (r, w)" and e': "we_os e' = w" "we_ws e' = we_ws e"
    by (auto simp: os_call_def split: prod.splits)
  have "opened w = opened (we_os e) - {fd}" using h [unfolded host_ok_def, rule_format, OF w] by simp
  with e' wf d o fd(2) show ?thesis by (simp add: accounted_def)
next
  case (Some i)
  have i: "i < length (ws_fds (we_ws e))" "\<not> 0 \<le> ws_fds (we_ws e) ! i"
    using first_idx_lt [OF Some] first_idx_holds [OF Some] by simp_all
  have e': "e' = upd_ws (\<lambda>ws. ws\<lparr> ws_fds := (ws_fds ws)[i := fd] \<rparr>) e" using Some a by (simp add: alloc_socket_def)
  show ?thesis
    using filter_update_in [where P = "\<lambda>fd. 0 \<le> fd", OF i fd(1)] wf d o fd(2)
    by (simp add: e' accounted_def live_fds_def wf_sockets_update)
qed

lemma socket_accounted:
  assumes h: "host_ok sys opened" and a: "accounted opened e" and r: "socket_call sys args e = Some (v, e')"
  shows "accounted opened e'"
proof -
  let ?c = "Sys_socket (if sint (args 0) = 23 then AF_INET6 else sint (args 0)) (sint (args 1)) (sint (args 2))"
  obtain rp e1 where c: "os_call sys ?c e = (rp, e1)" by fastforce
  then obtain w where w: "sys ?c (we_os e) = (rp, w)" and e1: "we_os e1 = w" "we_ws e1 = we_ws e"
    by (auto simp: os_call_def split: prod.splits)
  note H = h [unfolded host_ok_def, rule_format, OF w]
  show ?thesis
  proof (cases "rp_ret rp < 0")
    case True
    with r c have "e' = set_wsa_error (errno_to_wsa (we_errno e1)) e1" by (simp add: socket_call_def ws_return_def)
    moreover have "accounted opened e1" using True H e1 a by (simp add: accounted_def)
    ultimately show ?thesis by simp
  next
    case False
    obtain s e2 where al: "alloc_socket sys (rp_ret rp) e1 = (s, e2)" by fastforce
    with False r c have "e' = e2" by (simp add: socket_call_def ws_return_def)
    moreover have "accounted opened e2"
      using False H e1 a by (intro alloc_accounted [OF h _ _ _ _ _ al]) (auto simp: accounted_def)
    ultimately show ?thesis by simp
  qed
qed

lemma free_accounted:
  assumes h: "host_ok sys opened" and a: "accounted opened e"
  shows "accounted opened (free_socket sys s e)"
proof (cases "sock_range s \<and> 0 \<le> ws_fds (we_ws e) ! sock_idx s")
  case False
  then show ?thesis using a by (auto simp: free_socket_def Let_def)
next
  case True
  let ?i = "sock_idx s" and ?fds = "ws_fds (we_ws e)"
  have i: "?i < length ?fds" using sock_idx_range a True by (auto simp: accounted_def wf_sockets_def)
  obtain r e1 where c: "os_call sys (Sys_close (?fds ! ?i)) e = (r, e1)" by fastforce
  then obtain w where w: "sys (Sys_close (?fds ! ?i)) (we_os e) = (r, w)" and e1: "we_os e1 = w" "we_ws e1 = we_ws e"
    by (auto simp: os_call_def split: prod.splits)
  have "opened w = opened (we_os e) - {?fds ! ?i}" using h [unfolded host_ok_def, rule_format, OF w] by simp
  with True c e1 a show ?thesis
    using filter_update_out [of ?i ?fds "\<lambda>fd. 0 \<le> fd" "- 1", OF i]
    by (simp add: Let_def free_socket_def accounted_def live_fds_def wf_sockets_update)
qed

subsection \<open>A session\<close>

interpretation books: ws_invariant sys "\<lambda>e. host_ok sys opened \<longrightarrow> accounted opened e" for sys :: "'w osfn" and opened
proof unfold_locales
  show "host_ok sys opened \<longrightarrow> accounted opened e'"
    if "host_ok sys opened \<longrightarrow> accounted opened e" "quiet c" "os_call sys c e = (r, e')" for e e' :: "'w wenv" and c r
    using that os_quiet by blast
  show "host_ok sys opened \<longrightarrow> accounted opened e'"
    if "host_ok sys opened \<longrightarrow> accounted opened e" "socket_call sys args e = Some (v, e')" for e e' :: "'w wenv" and args v
    using that socket_accounted by blast
  show "host_ok sys opened \<longrightarrow> accounted opened (free_socket sys s e)"
    if "host_ok sys opened \<longrightarrow> accounted opened e" for e :: "'w wenv" and s
    using that free_accounted by blast
qed (simp_all add: accounted_def wf_sockets_def live_fds_def)

lemma destroy_opened:
  assumes h: "host_ok sys opened"
  shows "opened (we_os (fold (\<lambda>fd e. if 0 \<le> fd then snd (os_call sys (Sys_close fd) e) else e) fds e))
    = opened (we_os e) - {fd \<in> set fds. 0 \<le> fd}"
proof (induction fds arbitrary: e)
  case (Cons fd fds)
  obtain r w where w: "sys (Sys_close fd) (we_os e) = (r, w)" by fastforce
  have "opened w = opened (we_os e) - {fd}" using h [unfolded host_ok_def, rule_format, OF w] by simp
  with Cons show ?case by (auto simp: os_call_def w)
qed simp

lemma start_accounted: "opened w = {} \<Longrightarrow> accounted opened (ws_start gai v w)"
  by (simp add: accounted_def ws_start_def wg_winsock_create_def wf_sockets_def live_fds_def)

lemma session_closed:
  assumes h: "host_ok sys opened" and w: "opened w = {}" and r: "ws_run mal sys calls (ws_start gai v w) = Some e"
  shows "accounted opened e \<and> opened (we_os (wg_winsock_destroy sys e)) = {}"
proof -
  have "host_ok sys opened \<longrightarrow> accounted opened (ws_start gai v w)"
    using start_accounted [where opened = opened and w = w] w by simp
  from books.run_keeps [OF this r] h have a: "accounted opened e" by simp
  then show ?thesis unfolding wg_winsock_destroy_def destroy_opened [OF h]
    by (auto simp: accounted_def live_fds_def)
qed

text \<open>C15: on a host that gives out descriptors as POSIX says, the descriptors it has open after any
  sequence of socket calls are exactly those in the table, each in one slot (also when the table is
  full, or a call fails half way), and destroying the layer leaves none open.\<close>

theorem sockets_accounted:
  assumes "host_ok sys opened" "opened w = {}" "ws_run mal sys calls (ws_start gai v w) = Some e"
  shows "distinct (live_fds (we_ws e)) \<and> opened (we_os e) = set (live_fds (we_ws e))
    \<and> opened (we_os (wg_winsock_destroy sys e)) = {}"
  using session_closed [OF assms] by (simp add: accounted_def)

definition ok_reply :: "int \<Rightarrow> reply" where
  "ok_reply n = \<lparr> rp_ret = n, rp_errno = 0, rp_val = 0, rp_bytes = [], rp_revents = [], rp_addrs = [] \<rparr>"

definition demo_host :: "nat list osfn" where
  "demo_host c w =
     (case c of
        Sys_socket _ _ _ \<Rightarrow> (ok_reply (int (Suc (sum_list w))), Suc (sum_list w) # w)
      | Sys_close fd \<Rightarrow> (ok_reply 0, filter (\<lambda>n. int n \<noteq> fd) w)
      | _ \<Rightarrow> (ok_reply 0, w))"

lemma demo_host_ok: "host_ok demo_host (\<lambda>w. int ` set w)"
proof -
  have "Suc (sum_list w) \<notin> set w" for w using member_le_sum_list [of "Suc (sum_list w)" w] by auto
  then show ?thesis
    by (auto simp: host_ok_def inj_image_mem_iff demo_host_def ok_reply_def simp del: of_nat_Suc split: syscall.splits)
qed

theorem sockets_accounted_witness:
  "\<exists>e. ws_run (\<lambda>_. True) demo_host [(''socket'', \<lambda>_. 2), (''socket'', \<lambda>_. 2), (''closesocket'', \<lambda>_. 0x1000)] (ws_start 0 (\<lambda>_. None) []) = Some e
     \<and> live_fds (we_ws e) = [2] \<and> int ` set (we_os e) = {2} \<and> int ` set (we_os (wg_winsock_destroy demo_host e)) = {}"
proof -
  define e where "e = the (ws_run (\<lambda>_. True) demo_host [(''socket'', \<lambda>_. 2), (''socket'', \<lambda>_. 2), (''closesocket'', \<lambda>_. 0x1000)] (ws_start 0 (\<lambda>_. None) []))"
  have r: "ws_run (\<lambda>_. True) demo_host [(''socket'', \<lambda>_. 2), (''socket'', \<lambda>_. 2), (''closesocket'', \<lambda>_. 0x1000)] (ws_start 0 (\<lambda>_. None) []) = Some e"
    and l: "live_fds (we_ws e) = [2]"
    unfolding e_def by code_simp+
  show ?thesis using sockets_accounted [OF demo_host_ok _ r] l r by simp
qed

end
