(* ===== verification/Winsock_Select.thy ===== *)
theory Winsock_Select
  imports Winsock_Accounts
begin

section \<open>What \<open>select\<close> reports\<close>

text \<open>
  \<open>select\<close> rebuilds each set in place with the members that are ready, and \<open>__WSAFDIsSet\<close> then tests
  membership; the reference is the filter of the set by what the host's sockets are, readable or
  writable, and what a poll tells of that.
\<close>

subsection \<open>Sets in guest memory\<close>

definition fd_set_at :: "gmem \<Rightarrow> u32 \<Rightarrow> u32 list \<Rightarrow> bool" where
  "fd_set_at v p ss \<longleftrightarrow> p \<noteq> 0 \<and> length ss \<le> 64 \<and> gmapped v p (4 + 4 * length ss)
     \<and> gread32 v p = of_nat (length ss) \<and> gread_words v (p + 4) (length ss) = ss"

lemma gmapped_parts:
  assumes "gmapped v p (4 + n)" "m \<le> n"
  shows "gmapped v p 4" "gmapped v (p + 4) m"
  using gmapped_sub [OF assms(1), of 0 4] gmapped_sub [OF assms(1), of 4 m] assms(2) by simp_all

lemma gaddr4: "gmapped v p (4 + n) \<Longrightarrow> 0 < n \<Longrightarrow> unat (p + 4) = unat p + 4"
  using unat_gadd [of p 4] by (simp add: gmapped_def)

lemma fd_set_at_members: "fd_set_at v p ss \<Longrightarrow> fd_set_members v p = ss"
  by (auto simp: fd_set_at_def fd_set_members_def unat_of_nat min_absorb2)

lemma gread32_frame:
  assumes "gmapped v a (length bs)" "gmapped v b 4" "gdisjoint a (length bs) b 4"
  shows "gread32 (gwrite a bs v) b = gread32 v b"
  by (simp add: gread32_def gread_gwrite_other [OF assms])

lemma gread_words_frame:
  assumes "gmapped v a (length bs)" "gmapped v b (4 * n)" "gdisjoint a (length bs) b (4 * n)"
  shows "gread_words (gwrite a bs v) b n = gread_words v b n"
  by (simp add: gread_words_def gread_gwrite_other [OF assms])

text \<open>The two writes of \<open>put_fd_set\<close>: what they leave mapped, what they put, what they do not touch.\<close>

lemma put_fd_set_at:
  assumes m: "gmapped v p (4 + 4 * n)" and p: "p \<noteq> 0" "length rs \<le> 64" and r: "length rs \<le> n"
  shows "fd_set_at (put_fd_set p rs v) p rs"
proof -
  let ?v1 = "gwrite32 p (of_nat (length rs)) v"
  have m4: "gmapped v p (length (to_le 4 (of_nat (length rs) :: u32)))" using gmapped_parts(1) [OF m le0] by (simp only: length_to_le)
  have mm: "gmapped ?v1 b n = gmapped v b n" for b n unfolding gwrite32_def by (rule gmapped_gwrite [OF m4])
  have c: "gread32 ?v1 p = of_nat (length rs)" using gread32_gwrite32 [OF gmapped_parts(1) [OF m le0]] .
  have mr: "gmapped v p (4 + 4 * length rs)" using gmapped_sub [OF m, of 0 "4 + 4 * length rs"] r by simp
  show ?thesis
  proof (cases "rs = []")
    case True
    have "gmapped v p 4" using gmapped_parts(1) [OF m le0] .
    then show ?thesis using True p c mm by (simp add: fd_set_at_def put_fd_set_def Let_def gread_words_def)
  next
    case False
    have mw: "gmapped ?v1 (p + 4) (length (put_words rs))"
      using gmapped_parts(2) [OF mr order_refl] by (simp only: mm length_put_words)
    have d: "gdisjoint (p + 4) (length (put_words rs)) p 4"
      using gaddr4 [OF mr] False by (simp add: gdisjoint_def)
    have "gread32 (gwrite (p + 4) (put_words rs) ?v1) p = of_nat (length rs)"
      using gread32_frame [OF mw _ d] c mm gmapped_parts(1) [OF m le0] by simp
    moreover have "gread_words (gwrite (p + 4) (put_words rs) ?v1) (p + 4) (length rs) = rs"
      using mw by (intro gread_words_gwrite) (simp_all add: length_put_words)
    moreover have "gmapped (gwrite (p + 4) (put_words rs) ?v1) p (4 + 4 * length rs)"
      using mr by (simp add: gmapped_gwrite [OF mw] mm)
    ultimately show ?thesis using False p by (simp add: fd_set_at_def put_fd_set_def Let_def)
  qed
qed

lemma put_fd_set_other:
  assumes m: "gmapped v p (4 + 4 * n)" and r: "length rs \<le> n" and q: "fd_set_at v q ts"
    and d: "gdisjoint p (4 + 4 * n) q (4 + 4 * length ts)"
  shows "fd_set_at (put_fd_set p rs v) q ts"
proof -
  have mq: "gmapped v q (4 + 4 * length ts)" using q by (simp add: fd_set_at_def)
  note m4 = gmapped_parts(1) [OF m le0] and mq4 = gmapped_parts(1) [OF mq le0] and mqw = gmapped_parts(2) [OF mq order_refl]
  have frame: "fd_set_at (gwrite a bs u) q ts"
    if "fd_set_at u q ts" "gmapped u a (length bs)" "gdisjoint a (length bs) q (4 + 4 * length ts)" for a bs u
  proof -
    have mu: "gmapped u q (4 + 4 * length ts)" using that(1) by (simp add: fd_set_at_def)
    have "gread32 (gwrite a bs u) q = gread32 u q"
      using that(3) by (intro gread32_frame [OF that(2) gmapped_parts(1) [OF mu le0]]) (auto simp: gdisjoint_def)
    moreover have "gread_words (gwrite a bs u) (q + 4) (length ts) = gread_words u (q + 4) (length ts)"
    proof (cases "ts = []")
      case False
      have "gdisjoint a (length bs) (q + 4) (4 * length ts)"
        using that(3) gaddr4 [OF mu] False by (auto simp: gdisjoint_def)
      then show ?thesis by (rule gread_words_frame [OF that(2) gmapped_parts(2) [OF mu order_refl]])
    qed (simp add: gread_words_def)
    ultimately show ?thesis using that(1) by (simp add: fd_set_at_def gmapped_gwrite [OF that(2)])
  qed
  let ?v1 = "gwrite32 p (of_nat (length rs)) v"
  have l4: "length (to_le 4 (of_nat (length rs) :: u32)) = 4" by (rule length_to_le)
  have m4': "gmapped v p (length (to_le 4 (of_nat (length rs) :: u32)))" using m4 by (simp only: l4)
  have "gdisjoint p 4 q (4 + 4 * length ts)" using d by (auto simp: gdisjoint_def)
  then have s1: "fd_set_at ?v1 q ts" unfolding gwrite32_def by (intro frame [OF q m4']) (simp only: l4)
  show ?thesis
  proof (cases "rs = []")
    case False
    have mw: "gmapped ?v1 (p + 4) (length (put_words rs))"
      using gmapped_parts(2) [OF m, of "4 * length rs"] r gmapped_gwrite [OF m4'] by (simp add: gwrite32_def length_put_words)
    have "0 < 4 * n" using False r by (cases rs) auto
    from gaddr4 [OF m this] have "gdisjoint (p + 4) (length (put_words rs)) q (4 + 4 * length ts)"
      using d r unfolding gdisjoint_def length_put_words by linarith
    from frame [OF s1 mw this] False show ?thesis by (simp add: put_fd_set_def Let_def)
  qed (use s1 in \<open>simp add: put_fd_set_def Let_def\<close>)
qed

lemma fd_set_atD: "fd_set_at v p ss \<Longrightarrow> gmapped v p (4 + 4 * length ss) \<and> p \<noteq> 0 \<and> length ss \<le> 64"
  by (simp add: fd_set_at_def)

lemma shrink_fd_set:
  assumes "fd_set_at v p ss"
  shows "fd_set_at (put_fd_set p (filter P ss) v) p (filter P ss)"
    and "fd_set_at v q ts \<Longrightarrow> gdisjoint p (4 + 4 * length ss) q (4 + 4 * length ts) \<Longrightarrow> fd_set_at (put_fd_set p (filter P ss) v) q ts"
proof -
  have a: "gmapped v p (4 + 4 * length ss)" "p \<noteq> 0" "length (filter P ss) \<le> 64"
    using fd_set_atD [OF assms] le_trans [OF length_filter_le, of ss 64 P] by blast+
  show "fd_set_at (put_fd_set p (filter P ss) v) p (filter P ss)" by (rule put_fd_set_at [OF a length_filter_le])
  show "fd_set_at v q ts \<Longrightarrow> gdisjoint p (4 + 4 * length ss) q (4 + 4 * length ts) \<Longrightarrow> fd_set_at (put_fd_set p (filter P ss) v) q ts"
    by (rule put_fd_set_other [OF a(1) length_filter_le])
qed

subsection \<open>What the code polls\<close>

definition polled :: "'w osfn \<Rightarrow> 'w wenv \<Rightarrow> fdset \<Rightarrow> u32 \<Rightarrow> u16" where
  "polled sys e k s = fst (poll_one sys (lookup_fd (we_ws e) s) (set_events k) e)"

definition member_ready :: "'w osfn \<Rightarrow> 'w wenv \<Rightarrow> fdset \<Rightarrow> u32 \<Rightarrow> bool" where
  "member_ready sys e k s \<longleftrightarrow> 0 \<le> lookup_fd (we_ws e) s \<and>
     has_ev (polled sys e k s) (if k = Readfds then POLLIN OR POLLHUP OR POLLERR else POLLOUT)"

text \<open>A poll does not change what a later poll sees.\<close>

definition poll_pure :: "'w osfn \<Rightarrow> bool" where
  "poll_pure sys \<longleftrightarrow> (\<forall>fds ev w. snd (sys (Sys_poll fds ev) w) = w)"

definition same_host :: "'w wenv \<Rightarrow> 'w wenv \<Rightarrow> bool" where
  "same_host e e' \<longleftrightarrow> we_ws e' = we_ws e \<and> we_os e' = we_os e"

lemma poll_one_same:
  assumes "poll_pure sys"
  shows "same_host e (snd (poll_one sys fd ev e)) \<and> we_mem (snd (poll_one sys fd ev e)) = we_mem e"
proof -
  have "snd (sys (Sys_poll [fd] ev) (we_os e)) = we_os e" using assms by (simp add: poll_pure_def)
  then show ?thesis by (auto simp: poll_one_def os_call_def same_host_def Let_def split: prod.splits)
qed

lemma poll_one_cong: "same_host e e' \<Longrightarrow> fst (poll_one sys fd ev e') = fst (poll_one sys fd ev e)"
  by (auto simp: poll_one_def os_call_def same_host_def Let_def split: prod.splits)

lemma member_ready_cong: "same_host e e' \<Longrightarrow> member_ready sys e' k s = member_ready sys e k s"
  using poll_one_cong [of e e'] by (simp add: member_ready_def polled_def same_host_def)

lemma select_members_filter:
  assumes h: "poll_pure sys" and k: "k \<noteq> Exceptfds"
  shows "\<exists>e'. select_members sys k ss e = (filter (member_ready sys e k) ss, e') \<and> same_host e e' \<and> we_mem e' = we_mem e"
proof (induction ss arbitrary: e)
  case Nil
  show ?case by (simp add: same_host_def)
next
  case (Cons s ss)
  let ?fd = "lookup_fd (we_ws e) s"
  show ?case
  proof (cases "?fd < 0")
    case True
    then show ?thesis using Cons.IH [of e] by (simp add: member_ready_def)
  next
    case False
    obtain v e1 where p: "poll_one sys ?fd (set_events k) e = (v, e1)" by fastforce
    have e1: "same_host e e1" "we_mem e1 = we_mem e" using poll_one_same [OF h, of e ?fd "set_events k"] p by simp_all
    have rdy: "sock_ready sys k ?fd e = (member_ready sys e k s, e1)"
      using k False p by (cases k) (simp_all add: sock_ready_def member_ready_def polled_def)
    have same: "member_ready sys e1 k = member_ready sys e k" using member_ready_cong [OF e1(1)] by blast
    obtain e2 where "select_members sys k ss e1 = (filter (member_ready sys e k) ss, e2)" "same_host e1 e2" "we_mem e2 = we_mem e1"
      using Cons.IH [of e1] unfolding same by blast
    then show ?thesis using False e1 by (auto simp: rdy same_host_def)
  qed
qed

lemma select_set_filter:
  assumes h: "poll_pure sys" and k: "k \<noteq> Exceptfds" and s: "fd_set_at (we_mem e) p ss"
  shows "\<exists>e'. select_set sys k p e = (length (filter (member_ready sys e k) ss), e') \<and> same_host e e'
    \<and> we_mem e' = put_fd_set p (filter (member_ready sys e k) ss) (we_mem e)"
  using select_members_filter [OF h k, of ss e] s
  by (auto simp: select_set_def fd_set_at_members [OF s] same_host_def) (auto simp: fd_set_at_def)

lemma select_filters:
  assumes h: "poll_pure sys"
    and r: "fd_set_at (we_mem e) (args 1) rs" and w: "fd_set_at (we_mem e) (args 2) ws" and x: "args 3 = 0"
    and d: "gdisjoint (args 1) (4 + 4 * length rs) (args 2) (4 + 4 * length ws)"
  shows "\<exists>e'. select_call sys args e
         = Some (of_nat (length (filter (member_ready sys e Readfds) rs) + length (filter (member_ready sys e Writefds) ws)), e')
       \<and> same_host e e'
       \<and> fd_set_at (we_mem e') (args 1) (filter (member_ready sys e Readfds) rs)
       \<and> fd_set_at (we_mem e') (args 2) (filter (member_ready sys e Writefds) ws)"
proof -
  let ?rs = "filter (member_ready sys e Readfds) rs" and ?ws = "filter (member_ready sys e Writefds) ws"
  obtain e1 where e1: "select_set sys Readfds (args 1) e = (length ?rs, e1)" "same_host e e1"
    "we_mem e1 = put_fd_set (args 1) ?rs (we_mem e)"
    using select_set_filter [OF h _ r] by blast
  have r1: "fd_set_at (we_mem e1) (args 1) ?rs" unfolding e1(3) by (rule shrink_fd_set(1) [OF r])
  have w1: "fd_set_at (we_mem e1) (args 2) ws" unfolding e1(3) by (rule shrink_fd_set(2) [OF r w d])
  have same: "member_ready sys e1 Writefds = member_ready sys e Writefds" using member_ready_cong [OF e1(2)] by blast
  obtain e2 where e2: "select_set sys Writefds (args 2) e1 = (length ?ws, e2)" "same_host e1 e2"
    "we_mem e2 = put_fd_set (args 2) ?ws (we_mem e1)"
    using select_set_filter [OF h _ w1, of Writefds] unfolding same by blast
  have d': "gdisjoint (args 2) (4 + 4 * length ws) (args 1) (4 + 4 * length ?rs)"
    using d length_filter_le [of "member_ready sys e Readfds" rs] unfolding gdisjoint_def by linarith
  have "fd_set_at (we_mem e2) (args 2) ?ws" unfolding e2(3) by (rule shrink_fd_set(1) [OF w1])
  moreover have "fd_set_at (we_mem e2) (args 1) ?rs" unfolding e2(3) by (rule shrink_fd_set(2) [OF w1 r1 d'])
  ultimately show ?thesis using e1(1,2) e2(1,2) x
    by (auto simp: select_call_def ws_return_def select_set_def [of _ Exceptfds] same_host_def)
qed

subsection \<open>The reference\<close>

text \<open>
  Which descriptors are readable (with data, the end of the stream or an error) and which writable
  is a matter of the host.  \<open>poll_tells\<close> is what \<open>poll\<close> is documented to tell of it: asked for
  \<open>POLLIN\<close> (1) alone it reports \<open>POLLIN\<close>, \<open>POLLERR\<close> (8) or \<open>POLLHUP\<close> (16) exactly for a readable
  descriptor, asked for \<open>POLLOUT\<close> (4) alone it reports that exactly for a writable one.
\<close>

definition poll_tells :: "'w osfn \<Rightarrow> ('w \<Rightarrow> int \<Rightarrow> bool) \<Rightarrow> ('w \<Rightarrow> int \<Rightarrow> bool) \<Rightarrow> bool" where
  "poll_tells sys readable writable \<longleftrightarrow> (\<forall>fd w.
     (\<exists>x. 0 \<le> rp_ret (fst (sys (Sys_poll [fd] 1) w)) \<and> rp_revents (fst (sys (Sys_poll [fd] 1) w)) = [x]
        \<and> (x AND 25 \<noteq> 0 \<longleftrightarrow> readable w fd))
     \<and> (\<exists>x. 0 \<le> rp_ret (fst (sys (Sys_poll [fd] 4) w)) \<and> rp_revents (fst (sys (Sys_poll [fd] 4) w)) = [x]
        \<and> (x AND 4 \<noteq> 0 \<longleftrightarrow> writable w fd)))"

text \<open>The sockets of a set: handle \<open>0x1000 + i\<close> is slot \<open>i\<close> of 128, which is open when it holds a descriptor.\<close>

definition open_fd :: "'w wenv \<Rightarrow> u32 \<Rightarrow> int option" where
  "open_fd e s =
     (if 0x1000 \<le> unat s \<and> unat s < 0x1080 \<and> 0 \<le> ws_fds (we_ws e) ! (unat s - 0x1000)
      then Some (ws_fds (we_ws e) ! (unat s - 0x1000)) else None)"

definition those :: "('w \<Rightarrow> int \<Rightarrow> bool) \<Rightarrow> 'w wenv \<Rightarrow> u32 list \<Rightarrow> u32 list" where
  "those is e ss = filter (\<lambda>s. case open_fd e s of None \<Rightarrow> False | Some fd \<Rightarrow> is (we_os e) fd) ss"

lemma open_fd_lookup: "open_fd e s = (if 0 \<le> lookup_fd (we_ws e) s then Some (lookup_fd (we_ws e) s) else None)"
proof -
  have l: "\<not> 0 \<le> (- 1 :: int)" by simp
  have "sock_range s \<longleftrightarrow> 0x1000 \<le> unat s \<and> unat s < 0x1080"
    by (simp add: sock_range_def SOCK_BASE_def WG_MAX_SOCKETS_def word_le_nat_alt word_less_nat_alt not_less not_le)
  moreover have "sock_idx s = unat s - 0x1000" if "0x1000 \<le> unat s"
    using that by (simp add: sock_idx_def SOCK_BASE_def unat_sub word_le_nat_alt)
  ultimately show ?thesis by (auto simp: open_fd_def lookup_fd_def)
qed

lemma ready_those:
  assumes "poll_tells sys readable writable"
  shows "filter (member_ready sys e Readfds) ss = those readable e ss"
    "filter (member_ready sys e Writefds) ss = those writable e ss"
proof -
  have one: "fst (poll_one sys fd ev e) = x"
    if "0 \<le> rp_ret (fst (sys (Sys_poll [fd] ev) (we_os e)))" "rp_revents (fst (sys (Sys_poll [fd] ev) (we_os e))) = [x]" for fd ev x
    using that by (auto simp: poll_one_def os_call_def Let_def split: prod.splits)
  have ev: "set_events Readfds = 1" "set_events Writefds = 4" "POLLIN OR POLLHUP OR POLLERR = 25" "POLLOUT = 4"
    by (simp_all add: set_events_def POLLIN_def POLLOUT_def POLLHUP_def POLLERR_def)
  define x where "x fd = hd (rp_revents (fst (sys (Sys_poll [fd] 1) (we_os e))))" for fd
  have x: "0 \<le> rp_ret (fst (sys (Sys_poll [fd] 1) (we_os e)))" "rp_revents (fst (sys (Sys_poll [fd] 1) (we_os e))) = [x fd]"
      "x fd AND 25 \<noteq> 0 \<longleftrightarrow> readable (we_os e) fd" for fd
    using assms [unfolded poll_tells_def, rule_format, of fd "we_os e"] by (auto simp: x_def)
  define y where "y fd = hd (rp_revents (fst (sys (Sys_poll [fd] 4) (we_os e))))" for fd
  have y: "0 \<le> rp_ret (fst (sys (Sys_poll [fd] 4) (we_os e)))" "rp_revents (fst (sys (Sys_poll [fd] 4) (we_os e))) = [y fd]"
      "y fd AND 4 \<noteq> 0 \<longleftrightarrow> writable (we_os e) fd" for fd
    using assms [unfolded poll_tells_def, rule_format, of fd "we_os e"] by (auto simp: y_def)
  show "filter (member_ready sys e Readfds) ss = those readable e ss"
    unfolding those_def by (rule filter_cong [OF refl])
      (simp add: member_ready_def polled_def ev one [OF x(1,2)] has_ev_def x(3) open_fd_lookup)
  show "filter (member_ready sys e Writefds) ss = those writable e ss"
    unfolding those_def by (rule filter_cong [OF refl])
      (simp add: member_ready_def polled_def ev one [OF y(1,2)] has_ev_def y(3) open_fd_lookup)
qed

text \<open>C17: \<open>select\<close> on a read and a write set that lie apart in mapped memory, and no third set,
  leaves in each, in order, exactly the members that name an open socket the host has readable,
  or writable, returns how many that are, and \<open>__WSAFDIsSet\<close> then answers each question about the
  read set accordingly.\<close>

theorem select_reports:
  assumes "poll_pure sys" and "poll_tells sys readable writable"
    and "fd_set_at (we_mem e) (args 1) rs" "fd_set_at (we_mem e) (args 2) ws" "args 3 = 0"
    and "gdisjoint (args 1) (4 + 4 * length rs) (args 2) (4 + 4 * length ws)"
  shows "\<exists>e'. select_call sys args e = Some (of_nat (length (those readable e rs) + length (those writable e ws)), e')
       \<and> fd_set_at (we_mem e') (args 1) (those readable e rs)
       \<and> fd_set_at (we_mem e') (args 2) (those writable e ws)
       \<and> (\<forall>s. WSAFDIsSet (\<lambda>i. if i = 0 then s else args 1) e' = Some (of_bool (s \<in> set (those readable e rs)), e'))"
proof -
  note those = ready_those [OF assms(2), of e]
  obtain e' where e': "select_call sys args e
         = Some (of_nat (length (those readable e rs) + length (those writable e ws)), e')"
    "fd_set_at (we_mem e') (args 1) (those readable e rs)"
    "fd_set_at (we_mem e') (args 2) (those writable e ws)"
    using select_filters [OF assms(1,3-6)] unfolding those by blast
  have "args 1 \<noteq> 0" using assms(3) by (simp add: fd_set_at_def)
  then have "WSAFDIsSet (\<lambda>i. if i = 0 then s else args 1) e' = Some (of_bool (s \<in> set (those readable e rs)), e')" for s
    by (simp add: WSAFDIsSet_def ws_return_def fd_set_at_members [OF e'(2)] del: One_nat_def)
  with e' show ?thesis by blast
qed

text \<open>Two sockets, of which the second has data, in a read set at \<open>0x1000\<close>.\<close>

definition demo_polls :: "unit osfn" where
  "demo_polls c w = (case c of Sys_poll fds ev \<Rightarrow> ((ok_reply 1)\<lparr> rp_revents := [if fds = [8] then POLLIN else 0] \<rparr>, w) | _ \<Rightarrow> (ok_reply 0, w))"

definition demo_socks :: "unit wenv" where
  "demo_socks = \<lparr> we_ws = (wg_winsock_create 0)\<lparr> ws_fds := [7, 8] @ replicate 126 (- 1) \<rparr>, we_mem = put_fd_set 0x1010 [] (put_fd_set 0x1000 [0x1000, 0x1001] (\<lambda>_. Some 0)), we_os = (), we_errno = 0 \<rparr>"

definition demo_select :: ws_args where
  "demo_select i = (if i = 1 then 0x1000 else if i = 2 then 0x1010 else 0)"

lemma demo_sets:
  "fd_set_at (we_mem demo_socks) (demo_select 1) [0x1000, 0x1001]" "fd_set_at (we_mem demo_socks) (demo_select 2) []"
proof -
  let ?v = "\<lambda>_. Some 0" and ?r = "[0x1000, 0x1001] :: u32 list"
  have m: "gmapped ?v 0x1000 (4 + 4 * 2)" by (simp add: gmapped_def)
  have r: "fd_set_at (put_fd_set 0x1000 ?r ?v) 0x1000 ?r" by (rule put_fd_set_at [OF m]) simp_all
  have "gmapped ?v 0x1010 4" by (simp add: gmapped_def)
  then have w: "fd_set_at ?v 0x1010 []" by (simp add: fd_set_at_def gread32_def gread_mapped gread_words_def upt_rec)
  have w1: "fd_set_at (put_fd_set 0x1000 ?r ?v) 0x1010 []"
    by (rule put_fd_set_other [OF m _ w]) (simp_all add: gdisjoint_def)
  have m2: "gmapped (put_fd_set 0x1000 ?r ?v) 0x1010 (4 + 4 * 0)" using fd_set_atD [OF w1] by simp
  show "fd_set_at (we_mem demo_socks) (demo_select 1) ?r"
    using put_fd_set_other [OF m2 _ r, of "[]"] by (simp add: demo_socks_def demo_select_def gdisjoint_def)
  show "fd_set_at (we_mem demo_socks) (demo_select 2) []"
    using put_fd_set_at [OF m2, of "[]"] by (simp add: demo_socks_def demo_select_def)
qed

theorem select_reports_witness:
  "\<exists>e'. select_call demo_polls demo_select demo_socks = Some (1, e')
     \<and> fd_set_at (we_mem e') 0x1000 [0x1001] \<and> fd_set_at (we_mem e') 0x1010 []
     \<and> WSAFDIsSet (\<lambda>i. if i = 0 then 0x1000 else 0x1000) e' = Some (0, e')"
proof -
  have p: "poll_pure demo_polls" by (simp add: poll_pure_def demo_polls_def)
  have t: "poll_tells demo_polls (\<lambda>w fd. fd = 8) (\<lambda>w fd. False)"
    by (simp add: poll_tells_def demo_polls_def ok_reply_def POLLIN_def)
  have r: "those (\<lambda>w fd. fd = 8) demo_socks [0x1000, 0x1001] = [0x1001]" "those (\<lambda>w fd. False) demo_socks [] = []"
    by (simp_all add: those_def open_fd_def demo_socks_def)
  have sel: "demo_select 1 = 0x1000" "demo_select 2 = 0x1010" "demo_select 3 = 0" by (simp_all add: demo_select_def)
  have d: "gdisjoint (demo_select 1) (4 + 4 * length [0x1000, 0x1001 :: u32]) (demo_select 2) (4 + 4 * length ([] :: u32 list))"
    unfolding sel by (simp add: gdisjoint_def)
  obtain e' where e': "select_call demo_polls demo_select demo_socks = Some (1, e')"
    "fd_set_at (we_mem e') 0x1000 [0x1001]" "fd_set_at (we_mem e') 0x1010 []"
    "\<forall>s. WSAFDIsSet (\<lambda>i. if i = 0 then s else 0x1000) e' = Some (of_bool (s \<in> set [0x1001]), e')"
    using select_reports [OF p t demo_sets sel(3) d] unfolding r sel by auto
  have "WSAFDIsSet (\<lambda>i. if i = 0 then 0x1000 else 0x1000) e' = Some (of_bool ((0x1000 :: u32) \<in> set [0x1001]), e')"
    using e'(4) by blast
  with e'(1-3) show ?thesis by auto
qed

end
