(* ===== verification/Winsock_Events.thy ===== *)
theory Winsock_Events
  imports Winsock_Accounts
begin

section \<open>Connection events\<close>

text \<open>
  \<open>connect_reported\<close> is meant to have \<open>FD_CONNECT\<close> delivered once per socket.  It belongs to the slot,
  and nothing clears it: a socket that reuses the handle of a closed one never gets the event.
\<close>

lemma event_bits:
  "(0 OR (if a then FD_READ else 0) OR (if b then FD_CLOSE else 0)) AND FD_CONNECT = 0"
  "FD_READ AND FD_CONNECT = 0" "FD_CLOSE AND FD_CONNECT = 0" "(FD_READ OR FD_CLOSE) AND FD_CONNECT = 0"
  by (simp_all add: FD_READ_def FD_CLOSE_def FD_CONNECT_def)

lemma event_record:
  assumes "gmapped v p 44"
  shows "gread32 (gwrite p (to_le 4 ev @ replicate 16 0 @ to_le 4 (err :: u32) @ replicate 20 0) v) p = ev"
proof -
  have l: "length (to_le 4 ev @ replicate 16 0 @ to_le 4 err @ replicate 20 (0 :: u8)) = 44" by (simp del: to_le_numeral)
  have "gread (gwrite p (to_le 4 ev @ replicate 16 0 @ to_le 4 err @ replicate 20 0) v) p 4 = to_le 4 ev"
    using gread_gwrite_same [of v p "to_le 4 ev @ replicate 16 0 @ to_le 4 err @ replicate 20 0" 4] assms
    by (simp add: l del: to_le_numeral)
  then show ?thesis using of_le_to_le [of 4 ev] by (simp add: gread32_def)
qed

lemma enum_returns: "\<exists>e'. WSAEnumNetworkEvents sys args e = Some (0, e')"
  by (auto simp: WSAEnumNetworkEvents_def ws_return_def Let_def split: prod.split)

lemma enum_events:
  assumes wf: "wf_sockets (we_ws e)" and m: "gmapped (we_mem e) (args 2) 44" "args 2 \<noteq> 0"
    and r: "WSAEnumNetworkEvents sys args e = Some (v, e')"
  shows "gread32 (we_mem e') (args 2) AND FD_CONNECT \<noteq> 0 \<Longrightarrow> ws_connect_reported (we_ws e') ! sock_idx (args 0) \<and> sock_range (args 0)"
    and "ws_connect_reported (we_ws e) ! sock_idx (args 0) \<Longrightarrow> gread32 (we_mem e') (args 2) AND FD_CONNECT = 0"
proof -
  let ?fd = "lookup_fd (we_ws e) (args 0)" and ?i = "sock_idx (args 0)"
  obtain rv e1 where p: "poll_one sys ?fd (POLLIN OR POLLOUT) e = (rv, e1)" by fastforce
  have e1: "we_ws e1 = we_ws e" "we_mem e1 = we_mem e"
    using p by (auto simp: poll_one_def dest: os_call_frame split: prod.splits)
  obtain g e2 where g: "os_call sys (Sys_sockerr ?fd) e1 = (g, e2)" by fastforce
  note e2 = os_call_frame [OF g]
  have in_range: "sock_range (args 0)" if "\<not> ?fd < 0" using that by (auto simp: lookup_fd_def split: if_splits)
  have i: "sock_range (args 0) \<Longrightarrow> ?i < length (ws_connect_reported (we_ws e))"
    using sock_idx_range wf by (simp add: wf_sockets_def)
  note ev = event_record [OF m(1)]
  show "gread32 (we_mem e') (args 2) AND FD_CONNECT \<noteq> 0 \<Longrightarrow> ws_connect_reported (we_ws e') ! ?i \<and> sock_range (args 0)"
  proof (cases "?fd < 0")
    case True
    with r m(2) have "e' = upd_mem (gwrite (args 2) (to_le 4 (0 :: u32) @ replicate 16 0 @ to_le 4 (0 :: u32) @ replicate 20 0)) e"
      by (simp add: WSAEnumNetworkEvents_def ws_return_def del: to_le_numeral)
    then have "gread32 (we_mem e') (args 2) = 0" by (simp add: ev del: to_le_numeral)
    then show "gread32 (we_mem e') (args 2) AND FD_CONNECT \<noteq> 0 \<Longrightarrow> ?thesis" by simp
  next
    case False
    with r m(2) p g e1 e2 i in_range show "gread32 (we_mem e') (args 2) AND FD_CONNECT \<noteq> 0 \<Longrightarrow> ?thesis"
      by (auto simp: WSAEnumNetworkEvents_def ws_return_def Let_def ev event_bits simp del: to_le_numeral split: if_splits)
  qed
  assume rep: "ws_connect_reported (we_ws e) ! ?i"
  show "gread32 (we_mem e') (args 2) AND FD_CONNECT = 0"
  proof (cases "?fd < 0")
    case True
    with r m(2) show ?thesis by (auto simp: WSAEnumNetworkEvents_def ws_return_def ev simp del: to_le_numeral)
  next
    case False
    with r m(2) p e1 rep show ?thesis
      by (auto simp: WSAEnumNetworkEvents_def ws_return_def Let_def ev event_bits simp del: to_le_numeral)
  qed
qed

lemma socket_call_ws:
  assumes r: "socket_call sys args e = Some (v, e')"
  shows "\<exists>n fds. we_ws e' = (we_ws e)\<lparr> ws_last_error := n, ws_fds := fds \<rparr> \<and> length fds = length (ws_fds (we_ws e))"
proof -
  obtain rp e1 where c: "os_call sys (Sys_socket (if sint (args 0) = 23 then AF_INET6 else sint (args 0)) (sint (args 1)) (sint (args 2))) e = (rp, e1)"
    by fastforce
  note e1 = conjunct1 [OF os_call_frame [OF c]] and c' = c [unfolded One_nat_def]
  have keep: "we_ws e = (we_ws e)\<lparr> ws_last_error := ws_last_error (we_ws e), ws_fds := ws_fds (we_ws e) \<rparr>" by simp
  show ?thesis
  proof (cases "rp_ret rp < 0")
    case True
    then have "we_ws e' = (we_ws e)\<lparr> ws_last_error := errno_to_wsa (we_errno e1), ws_fds := ws_fds (we_ws e) \<rparr>"
      using r e1 by (auto simp: socket_call_def ws_return_def c')
    then show ?thesis by blast
  next
    case False
    obtain s e2 where al: "alloc_socket sys (rp_ret rp) e1 = (s, e2)" by fastforce
    then have e': "e' = e2" using r False by (simp add: socket_call_def ws_return_def c')
    show ?thesis
    proof (cases "first_idx (\<lambda>f. f < 0) (ws_fds (we_ws e1))")
      case None
      obtain q e3 where q: "os_call sys (Sys_close (rp_ret rp)) e1 = (q, e3)" by fastforce
      with None al have "e2 = e3" by (simp add: alloc_socket_def)
      then have "we_ws e' = we_ws e" using e' os_call_frame [OF q] e1 by simp
      with keep show ?thesis by metis
    next
      case (Some i)
      with al e' e1 have eq: "we_ws e' = (we_ws e)\<lparr> ws_last_error := ws_last_error (we_ws e), ws_fds := (ws_fds (we_ws e))[i := rp_ret rp] \<rparr>"
        by (auto simp: alloc_socket_def)
      show ?thesis by (intro exI conjI, rule eq) simp
    qed
  qed
qed

interpretation tables: ws_invariant sys "\<lambda>e. wf_sockets (we_ws e)" for sys :: "'w osfn"
proof unfold_locales
  show "wf_sockets (we_ws e')" if "wf_sockets (we_ws e)" "os_call sys c e = (r, e')" for e e' :: "'w wenv" and c r
    using that os_call_frame by metis
  show "wf_sockets (we_ws e')" if "wf_sockets (we_ws e)" "socket_call sys args e = Some (v, e')" for e e' :: "'w wenv" and args v
    using that(1) socket_call_ws [OF that(2)] by (auto simp: wf_sockets_def)
  show "wf_sockets (we_ws (free_socket sys s e))" if "wf_sockets (we_ws e)" for e :: "'w wenv" and s
    using that by (simp add: free_socket_ws wf_sockets_update)
qed (auto simp: wf_sockets_def)

interpretation reported: ws_invariant sys "\<lambda>e. i < length (ws_connect_reported (we_ws e)) \<and> ws_connect_reported (we_ws e) ! i"
  for sys :: "'w osfn" and i
proof unfold_locales
  let ?P = "\<lambda>e :: 'w wenv. i < length (ws_connect_reported (we_ws e)) \<and> ws_connect_reported (we_ws e) ! i"
  show "?P e'" if "?P e" "os_call sys c e = (r, e')" for e e' c r
    using that os_call_frame by metis
  show "?P e'" if "?P e" "socket_call sys args e = Some (v, e')" for e e' args v
    using that(1) socket_call_ws [OF that(2)] by auto
  show "?P (free_socket sys s e)" if "?P e" for e s
    using that by (simp add: free_socket_ws)
qed (simp_all, metis nth_list_update_eq nth_list_update_neq)

text \<open>C20: once the event record of a handle has shown \<open>FD_CONNECT\<close>, no later record of that handle
  shows it, whatever is called in between: also when the socket was closed and the handle given to a
  new socket, which therefore never reports that it is connected.\<close>

theorem connect_reported_once:
  assumes "wf_sockets (we_ws e)" "gmapped (we_mem e) (args 2) 44" "args 2 \<noteq> 0"
    and "WSAEnumNetworkEvents sys args e = Some (v, e1)" "gread32 (we_mem e1) (args 2) AND FD_CONNECT \<noteq> 0"
    and "ws_run mal sys calls e1 = Some e2"
    and "args' 0 = args 0" "gmapped (we_mem e2) (args' 2) 44" "args' 2 \<noteq> 0"
    and "WSAEnumNetworkEvents sys args' e2 = Some (v', e3)"
  shows "gread32 (we_mem e3) (args' 2) AND FD_CONNECT = 0"
proof -
  have rep: "ws_connect_reported (we_ws e1) ! sock_idx (args 0)" "sock_range (args 0)"
    using enum_events(1) [OF assms(1-5)] by simp_all
  have "keeps (\<lambda>e. wf_sockets (we_ws e)) (WSAEnumNetworkEvents sys args e)"
    by (rule tables.keeps_events(2)) (rule assms(1))
  then have wf1: "wf_sockets (we_ws e1)" using assms(4) by (simp add: keeps_def)
  have "sock_idx (args 0) < length (ws_connect_reported (we_ws e1)) \<and> ws_connect_reported (we_ws e1) ! sock_idx (args 0)"
    using wf1 rep sock_idx_range by (simp add: wf_sockets_def)
  from reported.run_keeps [OF this assms(6)] have rep2: "ws_connect_reported (we_ws e2) ! sock_idx (args' 0)" using assms(7) by simp
  have wf2: "wf_sockets (we_ws e2)" by (rule tables.run_keeps [OF wf1 assms(6)])
  show ?thesis by (rule enum_events(2) [OF wf2 assms(8-10) rep2])
qed

text \<open>A host whose sockets connect at once.\<close>

definition demo_connects :: "nat list osfn" where
  "demo_connects c w = (case c of Sys_poll fds ev \<Rightarrow> ((ok_reply 1)\<lparr> rp_revents := [POLLOUT] \<rparr>, w) | _ \<Rightarrow> demo_host c w)"

definition demo_open :: "nat list wenv" where
  "demo_open = \<lparr> we_ws = \<lparr> ws_initialised = True, ws_last_error = 0, ws_fds = 5 # replicate 127 (- 1),
     ws_connect_reported = False # replicate 127 False, ws_gai_base = 0 \<rparr>, we_mem = (\<lambda>_. Some 0), we_os = [5], we_errno = 0 \<rparr>"

definition demo_event :: ws_args where "demo_event i = (if i = 0 then 0x1000 else if i = 2 then 0x2000 else 0)"

definition demo_reopen :: "(string \<times> ws_args) list" where
  "demo_reopen = [(''closesocket'', \<lambda>_. 0x1000), (''socket'', \<lambda>_. 2)]"

theorem connect_reported_once_witness:
  "\<exists>e1 e2 e3. WSAEnumNetworkEvents demo_connects demo_event demo_open = Some (0, e1)
     \<and> gread32 (we_mem e1) 0x2000 = FD_CONNECT
     \<and> ws_run (\<lambda>_. True) demo_connects demo_reopen e1 = Some e2 \<and> lookup_fd (we_ws e2) 0x1000 = 1
     \<and> WSAEnumNetworkEvents demo_connects demo_event e2 = Some (0, e3)
     \<and> gread32 (we_mem e3) 0x2000 AND FD_CONNECT = 0"
proof -
  have a: "demo_event 0 = 0x1000" "demo_event 2 = 0x2000" by (simp_all add: demo_event_def)
  have h: "sock_idx 0x1000 = 0" "sock_range 0x1000"
    by (simp_all add: sock_idx_def sock_range_def SOCK_BASE_def WG_MAX_SOCKETS_def)
  have p: "poll_one demo_connects fd ev e = (POLLOUT, e)" "os_call demo_connects (Sys_sockerr fd) e = (ok_reply 0, e)" for fd ev e
    by (simp_all add: poll_one_def os_call_def demo_connects_def demo_host_def ok_reply_def)
  have ev: "has_ev POLLOUT POLLOUT" "\<not> has_ev POLLOUT POLLIN" "\<not> has_ev POLLOUT (POLLHUP OR POLLERR)"
    by (simp_all add: has_ev_def POLLIN_def POLLOUT_def POLLHUP_def POLLERR_def)
  note enum = WSAEnumNetworkEvents_def Let_def lookup_fd_def a h p ev ws_return_def upd_ws_def upd_mem_def
  define v1 where "v1 = gwrite 0x2000 (to_le 4 FD_CONNECT @ replicate 16 0 @ to_le 4 (0 :: u32) @ replicate 20 0) (\<lambda>_. Some 0)"
  define e1 where "e1 = demo_open\<lparr> we_mem := v1, we_ws := (we_ws demo_open)\<lparr> ws_connect_reported := True # replicate 127 False \<rparr> \<rparr>"
  have m: "gmapped (\<lambda>_. Some 0) 0x2000 44" by (simp add: gmapped_def)
  have r1: "WSAEnumNetworkEvents demo_connects demo_event demo_open = Some (0, e1)"
    by (simp add: enum demo_open_def e1_def v1_def ok_reply_def)
  have c: "gread32 (we_mem e1) 0x2000 = FD_CONNECT" by (simp add: e1_def v1_def event_record [OF m] del: to_le_numeral)
  define e2 where "e2 = e1\<lparr> we_os := [1], we_ws := (we_ws e1)\<lparr> ws_fds := 1 # replicate 127 (- 1) \<rparr> \<rparr>"
  have r2: "ws_run (\<lambda>_. True) demo_connects demo_reopen e1 = Some e2"
    by (simp add: demo_reopen_def wg_winsock_handle_def closesocket_call_def socket_call_def free_socket_def alloc_socket_def
        os_call_def demo_connects_def demo_host_def ok_reply_def h ws_return_def upd_ws_def e1_def e2_def demo_open_def Let_def)
  have l: "length (to_le 4 FD_CONNECT @ replicate 16 0 @ to_le 4 (0 :: u32) @ replicate 20 (0 :: u8)) = 44" by (simp del: to_le_numeral)
  have m2: "gmapped (we_mem e2) 0x2000 44" "gmapped (we_mem demo_open) 0x2000 44"
    using m gmapped_gwrite [of "\<lambda>_. Some 0" "0x2000" "to_le 4 FD_CONNECT @ replicate 16 0 @ to_le 4 (0 :: u32) @ replicate 20 0" "0x2000" 44]
    by (simp_all add: e2_def e1_def v1_def l demo_open_def del: to_le_numeral)
  obtain e3 where r3: "WSAEnumNetworkEvents demo_connects demo_event e2 = Some (0, e3)"
    using enum_returns by blast
  have wf: "wf_sockets (we_ws demo_open)" by (simp add: wf_sockets_def demo_open_def WG_MAX_SOCKETS_def)
  have "gread32 (we_mem e3) 0x2000 AND FD_CONNECT = 0"
    using connect_reported_once [OF wf, where args = demo_event and args' = demo_event, OF _ _ r1 _ r2 _ _ _ r3] m2 a c
    by (simp add: FD_CONNECT_def)
  moreover have "lookup_fd (we_ws e2) 0x1000 = 1" by (simp add: e2_def lookup_fd_def h)
  ultimately show ?thesis using r1 c r2 r3 by blast
qed

end
