(* ===== verification/Winsock_Addr.thy ===== *)
theory Winsock_Addr
  imports Winsock_Accounts
begin

section \<open>Addresses and names in guest memory\<close>

text \<open>
  A socket address goes to the host and comes back: what \<open>bind\<close> was given is what \<open>getsockname\<close>
  names, in the layout of Windows.  A \<open>hostent\<close> laid out by \<open>gethostbyname\<close> reads back as the name and
  its address, the name cut at 80 characters.
\<close>

subsection \<open>Addresses\<close>

text \<open>The two layouts a guest uses: 16 bytes with family 2, 28 bytes with family 23.\<close>

definition win_address :: "u8 list \<Rightarrow> bool" where
  "win_address bs \<longleftrightarrow> length bs = 16 \<and> take 2 bs = [2, 0] \<or> length bs = 28 \<and> take 2 bs = [23, 0]"

text \<open>
  Two addresses in the same layout that name the same end: family (with the length byte of BSD),
  port, and the 4 bytes of an IPv4 or the 16 of an IPv6 address.  The padding of the short form,
  the flow label and the scope of the long one are not part of the name.
\<close>

definition same_name :: "u8 list \<Rightarrow> u8 list \<Rightarrow> bool" where
  "same_name a b \<longleftrightarrow> length b = length a \<and> take 4 b = take 4 a
     \<and> (if length a = 16 then take 4 (drop 4 b) = take 4 (drop 4 a) else take 16 (drop 8 b) = take 16 (drop 8 a))"

definition port_given :: "u8 list \<Rightarrow> bool" where
  "port_given a \<longleftrightarrow> take 2 (drop 2 a) \<noteq> [0, 0]"

text \<open>The same address in the layout of the host.\<close>

definition host_address :: "u8 list \<Rightarrow> u8 list" where
  "host_address bs = (if length bs = 16 then [16, 2] else [28, 30]) @ drop 2 bs"

lemma win_address_split:
  assumes "win_address bs"
  obtains f where "bs = [f, 0] @ drop 2 bs" "length bs = 16 \<and> f = 2 \<or> length bs = 28 \<and> f = 23"
  using assms append_take_drop_id [of 2 bs] unfolding win_address_def by (metis append_Cons append_Nil)

lemma read_sockaddr_set:
  assumes g: "gread v p n = bs" and n: "length bs = n" "2 \<le> n" "n \<le> 128" and p: "p \<noteq> 0"
  shows "read_sockaddr v p (int n) =
    (let fam = of_le (take 2 bs) :: u16; out = bs @ replicate (128 - n) 0
     in if fam = 2 then (out[0 := 16, 1 := 2], 16) else if fam = 23 then (out[0 := 28, 1 := 30], 28) else (out[1 := ucast fam], n))"
proof -
  have b: "zfill 128 (gread v p (min (nat (int n)) 128)) = bs @ replicate (128 - n) 0"
    using g n by (simp add: zfill_def min_absorb1)
  show ?thesis
    unfolding read_sockaddr_def SOCKADDR_STORAGE_def Let_def b using n p by (simp add: min_absorb1)
qed

lemma read_sockaddr_win:
  assumes w: "win_address bs" and r: "gread_set v p (length bs) = Some bs" and p: "p \<noteq> 0"
  shows "\<exists>sa. read_sockaddr v p (int (length bs)) = (sa, length bs) \<and> take (length bs) sa = host_address bs"
proof -
  obtain f where f: "bs = [f, 0] @ drop 2 bs" "length bs = 16 \<and> f = 2 \<or> length bs = 28 \<and> f = 23"
    using win_address_split [OF w] .
  define t where "t = drop 2 bs"
  have bs: "bs = f # 0 # t" using f(1) by (simp add: t_def)
  have g: "gread v p (length bs) = bs" using r by (auto simp: gread_set_def Let_def split: if_splits)
  have fam: "of_le [f, 0] = (ucast f :: u16)" by simp
  have le: "length bs \<le> 128" using f(2) by auto
  note R = read_sockaddr_set [OF g refl _ le p]
  have two: "2 \<le> length bs" by (simp add: bs)
  have f1: "of_le (take 2 bs) = (ucast f :: u16)" by (simp add: bs)
  show ?thesis
    using f(2)
  proof
    assume f2: "length bs = 16 \<and> f = 2"
    then have "length t = 14" using bs by simp
    with f2 show ?thesis unfolding R [OF two] Let_def f1 by (simp add: host_address_def) (simp add: bs)
  next
    assume f2: "length bs = 28 \<and> f = 23"
    then have "length t = 26" using bs by simp
    with f2 show ?thesis unfolding R [OF two] Let_def f1 by (simp add: host_address_def) (simp add: bs)
  qed
qed

lemma split_at_2: "2 \<le> length bs \<Longrightarrow> \<exists>f g t. bs = f # g # t"
  by (metis (no_types) Suc_le_length_iff numeral_2_eq_2)

lemma win_sockaddr_same:
  assumes "win_address bs" "same_name (host_address bs) sb"
  shows "\<exists>na. win_sockaddr sb = Some na \<and> length na = length bs \<and> same_name bs na
    \<and> (length bs = 16 \<longrightarrow> drop 8 na = replicate 8 0) \<and> sb ! 1 = (if length bs = 16 then 2 else 30)"
proof -
  obtain f where f: "bs = [f, 0] @ drop 2 bs" "length bs = 16 \<and> f = 2 \<or> length bs = 28 \<and> f = 23"
    using win_address_split [OF assms(1)] .
  define t where "t = drop 2 bs"
  have bs: "bs = f # 0 # t" using f(1) by (simp add: t_def)
  have hl: "length (host_address bs) = length bs" using f(2) by (auto simp: host_address_def)
  have "2 \<le> length sb" using assms(2) hl f(2) by (auto simp: same_name_def)
  then obtain l k u where sb: "sb = l # k # u" using split_at_2 by blast
  show ?thesis
    using f(2)
  proof
    assume f2: "length bs = 16 \<and> f = 2"
    then have k: "k = 2" "length u = 14" "take 2 u = take 2 t" "take 4 (drop 2 u) = take 4 (drop 2 t)" "length t = 14"
      using assms(2) hl by (auto simp: same_name_def host_address_def bs sb)
    let ?na = "2 # 0 # take 6 u @ replicate 8 0"
    have "win_sockaddr sb = Some ?na" using k(1,2) by (simp add: sb win_sockaddr_def win_in_def)
    moreover have "same_name bs ?na" using k f2 by (simp add: same_name_def bs drop_take min_absorb1)
    ultimately show ?thesis using f2 k by (simp add: sb)
  next
    assume f2: "length bs = 28 \<and> f = 23"
    then have k: "k = 30" "length u = 26" "take 2 u = take 2 t" "take 16 (drop 6 u) = take 16 (drop 6 t)" "length t = 26"
      using assms(2) hl by (auto simp: same_name_def host_address_def bs sb)
    let ?na = "23 # 0 # take 26 u"
    have "win_sockaddr sb = Some ?na" using k(1,2) by (simp add: sb win_sockaddr_def win_in6_def)
    moreover have "same_name bs ?na" using k f2 by (simp add: same_name_def bs)
    ultimately show ?thesis using f2 k by (simp add: sb)
  qed
qed

lemma write_sockaddr_win:
  assumes w: "win_sockaddr sb = Some na" "length na = n" "sb ! 1 = (if n = 16 then 2 else 30)" "n = 16 \<or> n = 28"
    and q: "q \<noteq> 0" "ql \<noteq> 0" and m: "n \<le> unat (gread32 v ql)"
    and map: "gmapped v q n" "gmapped v ql 4" and d: "gdisjoint q n ql 4"
  shows "\<exists>v'. write_sockaddr q ql sb v = Some v' \<and> gread v' q n = na \<and> gread32 v' ql = of_nat n"
proof -
  have cp: "take n (zfill SOCKADDR_STORAGE na) = na" using w(2) by (simp add: zfill_def)
  define v1 where "v1 = gwrite q na v"
  have m1: "gmapped v q (length na)" using map(1) w(2) by simp
  have m2: "gmapped v1 ql 4" unfolding v1_def gmapped_gwrite [OF m1] by (rule map(2))
  have wl: "(if sb ! 1 = 2 then 16 else if sb ! 1 = 30 then 28 else length sb) = n" using w(3,4) by auto
  have small: "\<not> SOCKADDR_STORAGE < n" using w(4) by (auto simp: SOCKADDR_STORAGE_def)
  have eq: "write_sockaddr q ql sb v = Some (gwrite32 ql (of_nat n) v1)"
    unfolding write_sockaddr_def Let_def wl using w(1) q small
    by (simp add: min_absorb1 [OF m] cp v1_def)
  have m2': "gmapped v1 ql (length (to_le 4 (of_nat n :: u32)))" using m2 by (simp only: length_to_le)
  have "gdisjoint ql (length (to_le 4 (of_nat n :: u32))) q n"
    using d by (simp only: length_to_le gdisjoint_def) blast
  then have "gread (gwrite32 ql (of_nat n) v1) q n = gread v1 q n"
    unfolding gwrite32_def using map(1) by (intro gread_gwrite_other [OF m2']) (simp_all add: v1_def gmapped_gwrite [OF m1])
  also have "\<dots> = na" using gread_gwrite_same [OF m1, of n] w(2) by (simp add: v1_def)
  finally show ?thesis using eq gread32_gwrite32 [OF m2] by blast
qed

text \<open>
  What \<open>getsockname\<close> is documented to report after a \<open>bind\<close> that gave a port (for port 0 the host
  chooses one): the name the socket was bound to.  Nothing is said of padding, flow label and scope.
\<close>

definition names_kept :: "'w osfn \<Rightarrow> bool" where
  "names_kept sys \<longleftrightarrow> (\<forall>fd sa w r w'. sys (Sys_bind fd sa) w = (r, w') \<and> 0 \<le> rp_ret r \<and> port_given sa \<longrightarrow>
     (let (r', w'') = sys (Sys_getsockname fd) w' in 0 \<le> rp_ret r' \<and> same_name sa (rp_bytes r')))"


text \<open>Port 80 of 127.0.0.1, with rubbish in the padding.\<close>

definition demo_loopback :: "u8 list" where
  "demo_loopback = [2, 0, 0, 80, 127, 0, 0, 1] @ replicate 8 9"

definition demo_namer :: "u8 list osfn" where
  "demo_namer c w = (case c of Sys_bind fd sa \<Rightarrow> (ok_reply 0, if port_given sa then sa else sa[2 := 0xC0, 3 := 1]) | Sys_getsockname fd \<Rightarrow> ((ok_reply 0)\<lparr> rp_bytes := w \<rparr>, w) | _ \<Rightarrow> (ok_reply 0, w))"

definition demo_binding :: "u8 list wenv" where
  "demo_binding = \<lparr> we_ws = (wg_winsock_create 0)\<lparr> ws_fds := 5 # replicate 127 (- 1) \<rparr>,
     we_mem = gwrite32 0x2010 16 (gwrite 0x1000 demo_loopback (\<lambda>_. Some 0)), we_os = [], we_errno = 0 \<rparr>"


end
