(* ===== verification/Winsock_Names.thy ===== *)
theory Winsock_Names
  imports Winsock_Accounts
begin

section \<open>The \<open>hostent\<close> of \<open>gethostbyname\<close>\<close>

text \<open>
  The structure is laid out at a fixed address in five writes: the name at \<open>HB + 16\<close>, the list of
  aliases at \<open>HB + 96\<close>, the list of addresses at \<open>HB + 104\<close>, the address at \<open>HB + 120\<close>, the structure
  itself at \<open>HB\<close>.  A name of 80 characters or more runs into the list of aliases, whose zero cuts it.
\<close>

text \<open>What a program finds by following the pointers.\<close>

definition hostent_at :: "gmem \<Rightarrow> u32 \<Rightarrow> string \<Rightarrow> u32 \<Rightarrow> bool" where
  "hostent_at v p name ip \<longleftrightarrow>
     cstr (gread v (gread32 v p) 256) = name \<and> gread32 v (gread32 v (p + 4)) = 0
     \<and> gread v (p + 8) 4 = to_le 2 (2 :: u16) @ to_le 2 (4 :: u16)
     \<and> gread32 v (gread32 v (gread32 v (p + 12))) = ip \<and> gread32 v (gread32 v (p + 12) + 4) = 0"

text \<open>Three facts about a write at an offset of a mapped region carry the proof.\<close>

definition region :: "gmem \<Rightarrow> bool" where
  "region v \<longleftrightarrow> gmapped v HB 272"

lemma region_write:
  assumes "region v" "i + length bs \<le> 272"
  shows "region (gwrite (HB + of_nat i) bs v)"
  using gmapped_gwrite [OF gmapped_sub [OF assms(1) [unfolded region_def] assms(2)]] assms(1) by (simp add: region_def)

lemma HB_add: "i < 272 \<Longrightarrow> unat (HB + of_nat i) = unat HB + i"
  by (rule unat_gadd) (simp add: HB_def)

lemma region_same:
  assumes "region v" "i + length bs \<le> 272" "n \<le> length bs"
  shows "gread (gwrite (HB + of_nat i) bs v) (HB + of_nat i) n = take n bs"
  using gread_gwrite_same [OF gmapped_sub [OF assms(1) [unfolded region_def] assms(2)] assms(3)] .

lemma region_other:
  assumes "region v" "i + length bs \<le> 272" "j + n \<le> 272" "i + length bs \<le> j \<or> j + n \<le> i" "0 < n" "bs \<noteq> []"
  shows "gread (gwrite (HB + of_nat i) bs v) (HB + of_nat j) n = gread v (HB + of_nat j) n"
proof (rule gread_gwrite_other)
  show "gmapped v (HB + of_nat i) (length bs)" "gmapped v (HB + of_nat j) n"
    using gmapped_sub [OF assms(1) [unfolded region_def]] assms(2,3) by simp_all
  have "0 < length bs" using assms(6) by simp
  then have "i < 272" "j < 272" using assms(2,3,5) by linarith+
  then show "gdisjoint (HB + of_nat i) (length bs) (HB + of_nat j) n"
    using assms(4) by (auto simp: gdisjoint_def HB_add)
qed

lemma gread_split:
  assumes "region v" "i + (m + n) \<le> 272"
  shows "gread v (HB + of_nat i) (m + n) = gread v (HB + of_nat i) m @ gread v (HB + of_nat (i + m)) n"
  using gread_append [OF gmapped_sub [OF assms(1) [unfolded region_def] assms(2)]] by (simp add: add.assoc)

lemma cstr_Nil: "cstr (0 # bs) = []"
  by (simp add: cstr_def)

text \<open>The name is read up to its terminator, or to the list of aliases.\<close>

lemma hostent_name:
  assumes v: "region v" and v1: "v1 = gwrite (HB + 16) (map ord8 hn @ [0]) v"
    and hn: "\<forall>c \<in> set hn. ord8 c \<noteq> 0" "length hn \<le> 255"
    and same: "gread v5 (HB + 16) 80 = gread v1 (HB + 16) 80" and z: "gread v5 (HB + 96) 4 = [0, 0, 0, 0]" and v5: "region v5"
  shows "cstr (gread v5 (HB + 16) 256) = take 80 hn"
proof -
  have v1r: "region v1" using region_write [OF v, of 16 "map ord8 hn @ [0]"] hn(2) by (simp add: v1)
  have nm: "gread v1 (HB + 16) n = take n (map ord8 hn @ [0])" if "n \<le> length hn + 1" for n
    using region_same [OF v, of 16 "map ord8 hn @ [0]" n] hn(2) that by (simp add: v1)
  have s1: "gread v5 (HB + 16) 256 = gread v1 (HB + 16) 80 @ gread v5 (HB + 96) 176"
    using gread_split [OF v5, of 16 80 176] same by simp
  have s2: "gread v5 (HB + 96) 176 = [0, 0, 0, 0] @ gread v5 (HB + 100) 172"
    using gread_split [OF v5, of 96 4 172] z by simp
  have t: "\<forall>c \<in> set (take n hn). ord8 c \<noteq> 0" for n using hn(1) by (auto dest: in_set_takeD)
  show ?thesis
  proof (cases "80 \<le> length hn")
    case True
    then have "gread v1 (HB + 16) 80 = map ord8 (take 80 hn)" using nm [of 80] by (simp add: take_map)
    then show ?thesis unfolding s1 s2 using cstr_ord8 [OF t] by (simp add: cstr_Nil)
  next
    case False
    then obtain m where m: "80 = (length hn + 1) + m" by (metis Suc_eq_plus1 Suc_leI le_add_diff_inverse not_le)
    have "gread v1 (HB + 16) ((length hn + 1) + m) = gread v1 (HB + 16) (length hn + 1) @ gread v1 (HB + of_nat (16 + (length hn + 1))) m"
      using gread_split [OF v1r, of 16 "length hn + 1" m] m by simp
    then have "gread v1 (HB + 16) 80 = map ord8 hn @ 0 # gread v1 (HB + of_nat (16 + (length hn + 1))) m"
      using nm [of "length hn + 1"] unfolding m [symmetric] by simp
    then show ?thesis unfolding s1 s2 using cstr_ord8 [OF hn(1)] False by (simp add: cstr_Nil)
  qed
qed

lemma put_hostent_at:
  assumes v: "region v" and hn: "\<forall>c \<in> set hn. ord8 c \<noteq> 0" "length hn \<le> 255"
  shows "hostent_at (put_hostent hn ip v) HB (take 80 hn) ip"
proof -
  define v1 where "v1 = gwrite (HB + 16) (map ord8 hn @ [0]) v"
  define z where "z = to_le 4 (0 :: u32)"
  define al where "al = put_words [HB + 120, 0]"
  define ad where "ad = to_le 4 ip"
  define ty where "ty = to_le 2 (2 :: u16) @ to_le 2 (4 :: u16)"
  define he where "he = to_le 4 (HB + 16) @ to_le 4 (HB + 96) @ ty @ to_le 4 (HB + 104)"
  define v2 where "v2 = gwrite (HB + 96) z v1"
  define v3 where "v3 = gwrite (HB + 104) al v2"
  define v4 where "v4 = gwrite (HB + 120) ad v3"
  define v5 where "v5 = gwrite HB he v4"
  have eq: "put_hostent hn ip v = v5"
    unfolding put_hostent_def Let_def gwrite32_def v5_def v4_def v3_def v2_def v1_def he_def ty_def ad_def al_def z_def append_assoc ..
  have l: "length z = 4" "length al = 8" "length ad = 4" "length he = 16"
    unfolding z_def al_def ad_def he_def ty_def by (simp_all add: length_put_words del: to_le_numeral)
  have n: "z \<noteq> []" "al \<noteq> []" "ad \<noteq> []" "he \<noteq> []" using l by auto
  have r1: "region v1" using region_write [OF v, of 16 "map ord8 hn @ [0]"] hn(2) by (simp add: v1_def)
  have r2: "region v2" using region_write [OF r1, of 96 z] l by (simp add: v2_def)
  have r3: "region v3" using region_write [OF r2, of 104 al] l by (simp add: v3_def)
  have r4: "region v4" using region_write [OF r3, of 120 ad] l by (simp add: v4_def)
  have r5: "region v5" using region_write [OF r4, of 0 he] l by (simp add: v5_def)
  have o5: "gread v5 (HB + of_nat j) k = gread v4 (HB + of_nat j) k" if "16 \<le> j" "j + k \<le> 272" "0 < k" for j k
    using region_other [OF r4, of 0 he j k] that l n by (simp add: v5_def)
  have o4: "gread v4 (HB + of_nat j) k = gread v3 (HB + of_nat j) k" if "j + k \<le> 120" "0 < k" for j k
    using region_other [OF r3, of 120 ad j k] that l n by (simp add: v4_def)
  have o3: "gread v3 (HB + of_nat j) k = gread v2 (HB + of_nat j) k" if "j + k \<le> 104" "0 < k" for j k
    using region_other [OF r2, of 104 al j k] that l n by (simp add: v3_def)
  have o2: "gread v2 (HB + of_nat j) k = gread v1 (HB + of_nat j) k" if "j + k \<le> 96" "0 < k" for j k
    using region_other [OF r1, of 96 z j k] that l n by (simp add: v2_def)
  have name: "gread v5 (HB + 16) 80 = gread v1 (HB + 16) 80"
    using o5 [of 16 80] o4 [of 16 80] o3 [of 16 80] o2 [of 16 80] by simp
  have zero: "gread v5 (HB + 96) 4 = z"
    using o5 [of 96 4] o4 [of 96 4] o3 [of 96 4] region_same [OF r1, of 96 z 4] l by (simp add: v2_def)
  have list: "gread v5 (HB + 104) 8 = al"
    using o5 [of 104 8] o4 [of 104 8] region_same [OF r2, of 104 al 8] l by (simp add: v3_def)
  have addr: "gread v5 (HB + 120) 4 = ad" using o5 [of 120 4] region_same [OF r3, of 120 ad 4] l by (simp add: v4_def)
  have head: "gread v5 HB 16 = he" using region_same [OF r4, of 0 he 16] l by (simp add: v5_def)
  have p4: "of_le (to_le 4 w) = w" for w :: u32 by (rule of_le_to_le) simp
  have h0: "gread32 v5 HB = HB + 16" "gread32 v5 (HB + 4) = HB + 96" "gread v5 (HB + 8) 4 = ty"
    "gread32 v5 (HB + 12) = HB + 104"
  proof -
    have "gread v5 HB 16 = gread v5 HB 4 @ gread v5 (HB + 4) 4 @ gread v5 (HB + 8) 4 @ gread v5 (HB + 12) 4"
      using gread_split [OF r5, of 0 4 12] gread_split [OF r5, of 4 4 8] gread_split [OF r5, of 8 4 4] by simp
    moreover have "length (gread v5 (HB + of_nat j) 4) = 4" if "j + 4 \<le> 272" for j
      using length_gread_mapped [OF gmapped_sub [OF r5 [unfolded region_def] that]] .
    from this [of 0] this [of 4] this [of 8] have "length (gread v5 HB 4) = 4" "length (gread v5 (HB + 4) 4) = 4" "length (gread v5 (HB + 8) 4) = 4"
      by simp_all
    moreover have "length ty = 4" by (simp add: ty_def del: to_le_numeral)
    ultimately have "gread v5 HB 4 = to_le 4 (HB + 16)" "gread v5 (HB + 4) 4 = to_le 4 (HB + 96)"
      "gread v5 (HB + 8) 4 = ty" "gread v5 (HB + 12) 4 = to_le 4 (HB + 104)"
      using head by (simp_all add: he_def del: to_le_numeral)
    then show "gread32 v5 HB = HB + 16" "gread32 v5 (HB + 4) = HB + 96" "gread v5 (HB + 8) 4 = ty"
      "gread32 v5 (HB + 12) = HB + 104" by (simp_all add: gread32_def p4 del: to_le_numeral)
  qed
  have h1: "gread32 v5 (HB + 104) = HB + 120" "gread32 v5 (HB + 108) = 0"
  proof -
    have "gread v5 (HB + 104) 8 = gread v5 (HB + 104) 4 @ gread v5 (HB + 108) 4" using gread_split [OF r5, of 104 4 4] by simp
    moreover have "length (gread v5 (HB + 104) 4) = 4"
      using length_gread_mapped [OF gmapped_sub [OF r5 [unfolded region_def], of 104 4]] by simp
    ultimately have "gread v5 (HB + 104) 4 = to_le 4 (HB + 120)" "gread v5 (HB + 108) 4 = to_le 4 (0 :: u32)"
      using list by (simp_all add: al_def put_words_def del: to_le_numeral)
    then show "gread32 v5 (HB + 104) = HB + 120" "gread32 v5 (HB + 108) = 0" by (simp_all add: gread32_def p4 del: to_le_numeral)
  qed
  have h2: "gread32 v5 (HB + 96) = 0" "gread32 v5 (HB + 120) = ip"
    using zero addr by (simp_all add: gread32_def z_def ad_def p4 del: to_le_numeral)
  have "cstr (gread v5 (HB + 16) 256) = take 80 hn"
    using zero by (intro hostent_name [OF v v1_def hn name _ r5]) (simp add: z_def)
  with h0 h1 h2 show ?thesis unfolding eq hostent_at_def ty_def [symmetric] by (simp add: add.commute)
qed

subsection \<open>The call\<close>

lemma ord8_chr8: "ord8 (chr8 b) = b"
proof -
  have "ord8 c = of_nat (of_char c)" for c by (simp add: ord8_def of_char_def)
  then have "ord8 (chr8 b) = of_nat (unat b mod 256)" by (simp add: chr8_def)
  then show ?thesis using unat_lt8 [of b] by simp
qed

lemma cstr_nonzero: "c \<in> set (cstr bs) \<Longrightarrow> ord8 c \<noteq> 0"
  by (auto simp: cstr_def ord8_chr8 dest: set_takeWhileD)

text \<open>The name a call is given, and the address it resolves to.\<close>

definition asked_name :: "ws_args \<Rightarrow> 'w wenv \<Rightarrow> string" where
  "asked_name args e = (if args 0 = 0 then [] else cstr (gread (we_mem e) (args 0) 255))"

definition asked_ip :: "'w osfn \<Rightarrow> string \<Rightarrow> 'w wenv \<Rightarrow> u32" where
  "asked_ip sys name e =
     (if local_name name then loopback_ip
      else resolved_ip (fst (sys (Sys_getaddrinfo (Some name) None (Some (no_hints\<lparr> ai_family := AF_INET \<rparr>))) (we_os e))))"

lemma gethostbyname_spec:
  assumes "region (we_mem e)"
  shows "\<exists>e'. gethostbyname_call sys args e = Some (ucast HB, e')
     \<and> hostent_at (we_mem e') HB (take 80 (if asked_name args e = [] then ''wineglass'' else asked_name args e)) (asked_ip sys (asked_name args e) e)"
proof -
  let ?n = "asked_name args e" and ?hn = "if asked_name args e = [] then ''wineglass'' else asked_name args e"
  have nz: "\<forall>c \<in> set ?hn. ord8 c \<noteq> 0" by (auto simp: asked_name_def ord8_def dest: cstr_nonzero)
  have "length (cstr bs) \<le> length bs" for bs by (simp add: cstr_def length_takeWhile_le)
  from le_trans [OF this length_gread_le] have "length (asked_name args e) \<le> 255" by (simp add: asked_name_def)
  then have len: "length ?hn \<le> 255" by simp
  note at = put_hostent_at [OF _ nz len]
  let ?c = "Sys_getaddrinfo (Some ?n) None (Some (no_hints\<lparr> ai_family := AF_INET \<rparr>))"
  obtain r e1 where c: "os_call sys ?c e = (r, e1)" by fastforce
  then have r: "r = fst (sys ?c (we_os e))" "we_mem e1 = we_mem e" using os_call_frame [OF c] by (auto simp: os_call_def split: prod.splits)
  show ?thesis
  proof (cases "local_name ?n")
    case True
    then show ?thesis using at [OF assms, of loopback_ip]
      unfolding gethostbyname_call_def asked_name_def [symmetric] Let_def by (simp add: asked_ip_def ws_return_def)
  next
    case False
    then show ?thesis using at [OF assms, of "resolved_ip r"] r c
      unfolding gethostbyname_call_def asked_name_def [symmetric] Let_def by (simp add: asked_ip_def ws_return_def)
  qed
qed

text \<open>C21: \<open>gethostbyname\<close> returns a structure that reads back, by its pointers, as one address and the
  name that was asked for: the loopback address for the empty and the local names and where the
  resolver knows no other, else the first one the resolver gave.  A name of more than 80 characters
  comes back cut, because the list of aliases lies on top of its 81st.\<close>

theorem gethostbyname_hostent:
  assumes "gmapped (we_mem e) HB 272"
  shows "\<exists>e'. gethostbyname_call sys args e = Some (ucast HB, e')
     \<and> hostent_at (we_mem e') HB (take 80 (if asked_name args e = [] then ''wineglass'' else asked_name args e)) (asked_ip sys (asked_name args e) e)"
  by (rule gethostbyname_spec) (simp add: region_def assms)

definition demo_resolver :: "unit osfn" where
  "demo_resolver c w = (case c of
     Sys_getaddrinfo (Some n) None h \<Rightarrow> ((ok_reply 0)\<lparr> rp_addrs := [no_hints\<lparr> ai_addr := [16, 2, 0, 0, 9, 8, 7, 6] @ replicate 8 0 \<rparr>] \<rparr>, w)
   | _ \<Rightarrow> (ok_reply 0, w))"

theorem gethostbyname_hostent_witness:
  "\<exists>e'. gethostbyname_call demo_resolver (\<lambda>_. 0x1000) \<lparr> we_ws = wg_winsock_create 0, we_mem = gwrite 0x1000 [97, 46, 105, 111, 0] (\<lambda>_. Some 0), we_os = (), we_errno = 0 \<rparr>
       = Some (0xBF0000, e') \<and> hostent_at (we_mem e') 0xBF0000 ''a.io'' 0x06070809"
proof -
  let ?z = "\<lambda>_. Some 0 :: u8 option" and ?b = "[97, 46, 105, 111, 0] :: u8 list"
  let ?e = "\<lparr> we_ws = wg_winsock_create 0, we_mem = gwrite 0x1000 ?b ?z, we_os = (), we_errno = 0 \<rparr>"
  have m: "gmapped ?z 0x1000 (length ?b)" "gmapped ?z HB 272" "gmapped ?z 0x1000 255" by (simp_all add: gmapped_def HB_def)
  have g: "gmapped (we_mem ?e) HB 272" using m(2) by (simp add: gmapped_gwrite [OF m(1)])
  have m2: "gmapped (gwrite 0x1000 ?b ?z) 0x1000 255" using m(3) by (simp add: gmapped_gwrite [OF m(1)])
  have "take 5 (gread (gwrite 0x1000 ?b ?z) 0x1000 255) = gread (gwrite 0x1000 ?b ?z) 0x1000 5"
    using gmapped_sub [OF m2, of 0 5] by (simp add: gread_mapped m2 take_map)
  also have "\<dots> = ?b" using gread_gwrite_same [OF m(1), of 5] by simp
  finally obtain rest where "gread (gwrite 0x1000 ?b ?z) 0x1000 255 = ?b @ rest" by (metis append_take_drop_id)
  then have "asked_name (\<lambda>_. 0x1000) ?e = cstr (?b @ rest)" by (simp add: asked_name_def)
  also have "\<dots> = ''a.io''" by (simp add: cstr_def chr8_def char_of_def bit_0)
  finally have n: "asked_name (\<lambda>_. 0x1000) ?e = ''a.io''" .
  have l: "\<not> local_name ''a.io''" by (simp add: local_name_def strcaseeq_def)
  have i: "asked_ip demo_resolver ''a.io'' ?e = 0x06070809"
    by (simp add: asked_ip_def l demo_resolver_def resolved_ip_def ok_reply_def no_hints_def)
  show ?thesis using gethostbyname_hostent [OF g, of demo_resolver "\<lambda>_. 0x1000"] unfolding n i by (simp add: HB_def)
qed

end
