(* ===== verification/Winsock_Buffers.thy ===== *)
theory Winsock_Buffers
  imports Winsock_Accounts
begin

section \<open>Scattered buffers\<close>

text \<open>
  \<open>WSARecv\<close> distributes what the host delivered over the buffers of a \<open>WSABUF\<close> array: read one after
  the other, they hold the data.  \<open>WSASendTo\<close> and \<open>WSARecvFrom\<close> are handled as the calls without an
  address, whose sixth argument is something else.
\<close>

subsection \<open>The array\<close>

definition wsabufs_at :: "gmem \<Rightarrow> u32 \<Rightarrow> (u32 \<times> u32) list \<Rightarrow> bool" where
  "wsabufs_at v p bufs \<longleftrightarrow> (\<forall>i < length bufs. wsabuf v p i = Some (bufs ! i))"

text \<open>Buffers that are mapped, apart from each other and from the array.\<close>

definition apart_from :: "u32 \<Rightarrow> nat \<Rightarrow> (u32 \<times> u32) list \<Rightarrow> bool" where
  "apart_from b m bufs \<longleftrightarrow> (\<forall>(n, q) \<in> set bufs. gdisjoint q (unat n) b m)"

fun bufs_ok :: "gmem \<Rightarrow> (u32 \<times> u32) list \<Rightarrow> bool" where
  "bufs_ok v [] = True"
| "bufs_ok v ((n, q) # bufs) = (q \<noteq> 0 \<and> gmapped v q (unat n) \<and> apart_from q (unat n) bufs \<and> bufs_ok v bufs)"

definition bufs_size :: "(u32 \<times> u32) list \<Rightarrow> nat" where
  "bufs_size bufs = sum_list (map (\<lambda>(n, q). unat n) bufs)"

definition bufs_data :: "gmem \<Rightarrow> (u32 \<times> u32) list \<Rightarrow> u8 list" where
  "bufs_data v bufs = concat (map (\<lambda>(n, q). gread v q (unat n)) bufs)"

lemma wsabuf_words: "gread v (p + of_nat i * 8) 8 = put_words [n, q] \<Longrightarrow> wsabuf v p i = Some (n, q)"
  using of_le_to_le [of 4 n] of_le_to_le [of 4 q]
  by (simp add: wsabuf_def gread_set_def put_words_def del: to_le_numeral)

text \<open>The distribution without the reads of the array.\<close>

fun scatter_bufs :: "(u32 \<times> u32) list \<Rightarrow> u8 list \<Rightarrow> gmem \<Rightarrow> gmem" where
  "scatter_bufs [] data v = v"
| "scatter_bufs ((n, q) # bufs) data v =
     (if data = [] then v
      else scatter_bufs bufs (drop (unat n) data) (if q \<noteq> 0 \<and> take (unat n) data \<noteq> [] then gwrite q (take (unat n) data) v else v))"

lemma bufs_ok_cong: "(\<And>b m. gmapped v' b m = gmapped v b m) \<Longrightarrow> bufs_ok v' bufs = bufs_ok v bufs"
  by (induction bufs) auto

lemma gdisjoint_sym: "gdisjoint a n b m = gdisjoint b m a n"
  by (auto simp: gdisjoint_def)

lemma gdisjoint_less: "gdisjoint a n b m \<Longrightarrow> n' \<le> n \<Longrightarrow> gdisjoint a n' b m"
  by (auto simp: gdisjoint_def)

lemma gmapped_less: "gmapped v a n \<Longrightarrow> n' \<le> n \<Longrightarrow> gmapped v a n'"
  using gmapped_sub [of v a n 0 n'] by simp

lemma gread_less:
  assumes "gmapped v a n" "k \<le> n"
  shows "take k (gread v a n) = gread v a k"
  using assms gmapped_less [OF assms] by (simp add: gread_mapped take_map)

lemma scatter_bufs_frame:
  "bufs_ok v bufs \<Longrightarrow>
     gmapped (scatter_bufs bufs data v) b m = gmapped v b m
     \<and> (gmapped v b m \<longrightarrow> apart_from b m bufs \<longrightarrow> gread (scatter_bufs bufs data v) b m = gread v b m)"
proof (induction bufs arbitrary: data v)
  case (Cons buf bufs)
  obtain n q where buf: "buf = (n, q)" by fastforce
  let ?d = "take (unat n) data"
  define v1 where "v1 = (if q \<noteq> 0 \<and> ?d \<noteq> [] then gwrite q ?d v else v)"
  have mq: "gmapped v q (length ?d)" using Cons.prems buf by (auto intro: gmapped_less)
  have m: "gmapped v1 x k = gmapped v x k" for x k using gmapped_gwrite [OF mq] by (simp add: v1_def)
  have "bufs_ok v1 bufs" using Cons.prems buf bufs_ok_cong [OF m] by simp
  note IH = Cons.IH [OF this, of "drop (unat n) data"]
  have "gread v1 b m = gread v b m" if "gmapped v b m" "apart_from b m (buf # bufs)"
  proof -
    have "gdisjoint q (length ?d) b m" using that(2) buf by (auto simp: apart_from_def intro: gdisjoint_less)
    then show ?thesis using gread_gwrite_other [OF mq that(1)] by (simp add: v1_def)
  qed
  with IH m show ?case unfolding buf scatter_bufs.simps v1_def [symmetric] by (auto simp: apart_from_def)
qed simp

lemma scatter_bufs_data:
  "bufs_ok v bufs \<Longrightarrow> length data \<le> bufs_size bufs \<Longrightarrow> take (length data) (bufs_data (scatter_bufs bufs data v) bufs) = data"
proof (induction bufs arbitrary: data v)
  case (Cons buf bufs)
  obtain n q where buf: "buf = (n, q)" by fastforce
  show ?case
  proof (cases "data = []")
    case False
    let ?d = "take (unat n) data"
    define v1 where "v1 = (if q \<noteq> 0 \<and> ?d \<noteq> [] then gwrite q ?d v else v)"
    define v' where "v' = scatter_bufs bufs (drop (unat n) data) v1"
    have eq: "scatter_bufs (buf # bufs) data v = v'" using False by (simp add: buf v1_def v'_def)
    have mn: "gmapped v q (unat n)" and ap: "apart_from q (unat n) bufs" and q: "q \<noteq> 0" using Cons.prems(1) buf by auto
    have mq: "gmapped v q (length ?d)" using mn by (rule gmapped_less) simp
    have m: "gmapped v1 x k = gmapped v x k" for x k using gmapped_gwrite [OF mq] by (simp add: v1_def)
    have ok1: "bufs_ok v1 bufs" using Cons.prems(1) buf bufs_ok_cong [OF m] by simp
    note fr = scatter_bufs_frame [OF ok1, of "drop (unat n) data" q "unat n", folded v'_def]
    have rd: "gread v' q (unat n) = gread v1 q (unat n)" "gmapped v' q (unat n)" using fr m mn ap by simp_all
    have first: "gread v1 q (length ?d) = ?d"
    proof (cases "?d = []")
      case True
      show ?thesis unfolding True by (simp add: gread_def)
    next
      case False
      then show ?thesis using gread_gwrite_same [OF mq order_refl] q unfolding v1_def by (simp only: take_all [OF order_refl] simp_thms if_True)
    qed
    have sz: "length (drop (unat n) data) \<le> bufs_size bufs" using Cons.prems(2) buf by (simp add: bufs_size_def)
    have rest: "take (length (drop (unat n) data)) (bufs_data v' bufs) = drop (unat n) data"
      using Cons.IH [OF ok1 sz] by (simp add: v'_def)
    have bd: "bufs_data v' (buf # bufs) = gread v1 q (unat n) @ bufs_data v' bufs" by (simp add: bufs_data_def buf rd)
    have m1: "gmapped v1 q (unat n)" using m mn by simp
    show ?thesis
    proof (cases "unat n \<le> length data")
      case True
      then have "gread v1 q (unat n) = ?d" using first by simp
      with True rest show ?thesis unfolding eq bd by simp
    next
      case False
      then have "take (length data) (gread v1 q (unat n)) = data" using first gread_less [OF m1, of "length data"] by simp
      moreover have "length data \<le> length (gread v1 q (unat n))" using False length_gread_mapped [OF m1] by simp
      ultimately show ?thesis unfolding eq bd by simp
    qed
  qed simp
qed (simp add: bufs_size_def)

subsection \<open>Reading the array while writing the buffers\<close>

lemma wsabuf_frame:
  assumes "gmapped v q (length d)" "gmapped v p (8 * N)" "gdisjoint q (length d) p (8 * N)" "i < N"
  shows "wsabuf (gwrite q d v) p i = wsabuf v p i"
proof -
  have m: "gmapped v (p + of_nat (8 * i)) 8" using gmapped_sub [OF assms(2), of "8 * i" 8] assms(4) by simp
  have "unat (p + of_nat (8 * i)) = unat p + 8 * i" using assms(2,4) by (intro unat_gadd) (simp add: gmapped_def)
  then have "gdisjoint q (length d) (p + of_nat (8 * i)) 8" using assms(3,4) by (auto simp: gdisjoint_def)
  from gread_gwrite_other [OF assms(1) m this]
  have "gread (gwrite q d v) (p + of_nat i * 8) 8 = gread v (p + of_nat i * 8) 8" by (simp add: mult.commute)
  then show ?thesis by (simp add: wsabuf_def gread_set_def)
qed

lemma scatter_eq:
  "wsabufs_at v p bufs \<Longrightarrow> gmapped v p (8 * length bufs) \<Longrightarrow> bufs_ok v bufs \<Longrightarrow> apart_from p (8 * length bufs) bufs \<Longrightarrow>
   i \<le> length bufs \<Longrightarrow> wsabuf_scatter p [i..<length bufs] data v = Some (scatter_bufs (drop i bufs) data v)"
proof (induction "length bufs - i" arbitrary: i data v)
  case (Suc k)
  then have i: "i < length bufs" by simp
  obtain n q where nq: "bufs ! i = (n, q)" by fastforce
  then have d: "drop i bufs = (n, q) # drop (Suc i) bufs" and up: "[i..<length bufs] = i # [Suc i..<length bufs]"
    using i by (simp_all add: Cons_nth_drop_Suc [symmetric] upt_conv_Cons)
  have mem: "(n, q) \<in> set bufs" using nq i by (metis nth_mem)
  have w: "wsabuf v p i = Some (n, q)" using Suc.prems(1) i nq by (simp add: wsabufs_at_def)
  let ?d = "take (unat n) data"
  define v1 where "v1 = (if q \<noteq> 0 \<and> ?d \<noteq> [] then gwrite q ?d v else v)"
  have "gmapped v q (unat n)" using Suc.prems(3) mem by (induction bufs) auto
  then have mq: "gmapped v q (length ?d)" by (rule gmapped_less) simp
  have m: "gmapped v1 x j = gmapped v x j" for x j using gmapped_gwrite [OF mq] by (simp add: v1_def)
  have "gdisjoint q (unat n) p (8 * length bufs)" using Suc.prems(4) mem by (auto simp: apart_from_def)
  then have "gdisjoint q (length ?d) p (8 * length bufs)" by (rule gdisjoint_less) simp
  from wsabuf_frame [OF mq Suc.prems(2) this] have "wsabufs_at v1 p bufs"
    using Suc.prems(1) by (simp add: wsabufs_at_def v1_def)
  then have "wsabuf_scatter p [Suc i..<length bufs] (drop (unat n) data) v1 = Some (scatter_bufs (drop (Suc i) bufs) (drop (unat n) data) v1)"
    using Suc m bufs_ok_cong [OF m] by (intro Suc.hyps(1)) simp_all
  then show ?case
    unfolding d up wsabuf_scatter.simps scatter_bufs.simps w Option.bind.simps prod.case Let_def v1_def [symmetric] by simp
qed simp

lemma total_eq:
  "wsabufs_at v p bufs \<Longrightarrow> i \<le> length bufs \<Longrightarrow> wsabuf_total v p [i..<length bufs] = Some (bufs_size (drop i bufs))"
proof (induction "length bufs - i" arbitrary: i)
  case (Suc k)
  then have i: "i < length bufs" by simp
  obtain n q where nq: "bufs ! i = (n, q)" by fastforce
  then have d: "drop i bufs = (n, q) # drop (Suc i) bufs" and up: "[i..<length bufs] = i # [Suc i..<length bufs]"
    using i by (simp_all add: Cons_nth_drop_Suc [symmetric] upt_conv_Cons)
  have "wsabuf v p i = Some (n, q)" using Suc.prems(1) i nq by (simp add: wsabufs_at_def)
  then show ?case using Suc i unfolding d up by (simp add: bufs_size_def)
qed (simp add: bufs_size_def)

lemma recv_scattered:
  assumes fd: "lookup_fd (we_ws e) (args 0) = fd" "0 \<le> fd" and p: "args 1 \<noteq> 0"
    and n: "unat (args 2) = length bufs" "bufs \<noteq> []" "length bufs \<le> 16"
    and at: "wsabufs_at (we_mem e) (args 1) bufs" "gmapped (we_mem e) (args 1) (8 * length bufs)"
    and ok: "bufs_ok (we_mem e) bufs" "apart_from (args 1) (8 * length bufs) bufs"
    and mal: "mal (min (bufs_size bufs) 65536)"
    and r: "sys (Sys_recv fd (min (bufs_size bufs) 65536)) (we_os e) = (r, w)" "0 \<le> rp_ret r" "length (rp_bytes r) \<le> min (bufs_size bufs) 65536"
    and a: "args 3 = 0 \<or> gmapped (we_mem e) (args 3) 4 \<and> apart_from (args 3) 4 bufs" "args 5 = 0"
  shows "\<exists>e'. WSARecv mal sys args e = Some (0, e') \<and> take (length (rp_bytes r)) (bufs_data (we_mem e') bufs) = rp_bytes r
     \<and> (args 3 \<noteq> 0 \<longrightarrow> gread32 (we_mem e') (args 3) = of_nat (length (rp_bytes r)))"
proof -
  let ?v1 = "scatter_bufs bufs (rp_bytes r) (we_mem e)"
  have nz: "args 2 \<noteq> 0" using n by auto
  have tk: "take (min (bufs_size bufs) 65536) (rp_bytes r) = rp_bytes r" using r(3) by simp
  have is': "[0..<min (unat (args 2)) 16] = [0..<length bufs]" using n by (simp add: min_absorb1)
  have tot: "wsabuf_total (we_mem e) (args 1) [0..<length bufs] = Some (bufs_size bufs)" using total_eq [OF at(1), of 0] by simp
  have sc: "wsabuf_scatter (args 1) [0..<length bufs] (rp_bytes r) (we_mem e) = Some ?v1"
    using scatter_eq [OF at ok, of 0] by simp
  obtain e' where e': "WSARecv mal sys args e = Some (0, e')" "we_mem e' = gput32 (args 3) (of_nat (length (rp_bytes r))) ?v1"
    using fd p nz is' tot mal r(1,2) sc a(2)
    by (simp add: WSARecv_def on_fd_def Let_def os_call_def tk ws_return_def wsa_bytes_def)
  have data: "take (length (rp_bytes r)) (bufs_data ?v1 bufs) = rp_bytes r" using r(3) by (intro scatter_bufs_data [OF ok(1)]) simp
  note fr = scatter_bufs_frame [OF ok(1), of "rp_bytes r"]
  show ?thesis
  proof (cases "args 3 = 0")
    case True
    with e' data show ?thesis by (simp add: gput32_def)
  next
    case False
    with a have m: "gmapped (we_mem e) (args 3) 4" "apart_from (args 3) 4 bufs" by auto
    then have m1: "gmapped ?v1 (args 3) 4" using fr by blast
    have l: "gmapped ?v1 (args 3) (length (to_le 4 (of_nat (length (rp_bytes r)) :: u32)))" using m1 by (simp only: length_to_le)
    have keep: "gread (we_mem e') q (unat k) = gread ?v1 q (unat k)" if "(k, q) \<in> set bufs" for k q
    proof -
      have "gmapped (we_mem e) q (unat k)" using ok(1) that by (induction bufs) auto
      then have "gmapped ?v1 q (unat k)" using fr by blast
      moreover have "gdisjoint (args 3) (length (to_le 4 (of_nat (length (rp_bytes r)) :: u32))) q (unat k)"
        using m(2) that gdisjoint_sym by (force simp: apart_from_def simp del: to_le_numeral)
      ultimately show ?thesis using False e'(2) gread_gwrite_other [OF l] by (simp add: gput32_def gwrite32_def)
    qed
    then have "bufs_data (we_mem e') bufs = bufs_data ?v1 bufs"
      by (auto simp: bufs_data_def intro!: arg_cong [where f = concat] map_cong)
    with e' data False gread32_gwrite32 [OF m1] show ?thesis by (simp add: gput32_def)
  qed
qed

text \<open>C18: when the buffers of a \<open>WSARecv\<close> are mapped and apart from each other and from the array that
  describes them, what the host delivers is what they then hold, read one after the other, whole and
  in order; the byte count is reported where it was asked for.\<close>

theorem recv_scatters:
  assumes "lookup_fd (we_ws e) (args 0) = fd" "0 \<le> fd" "args 1 \<noteq> 0"
    and "unat (args 2) = length bufs" "bufs \<noteq> []" "length bufs \<le> 16"
    and "wsabufs_at (we_mem e) (args 1) bufs" "gmapped (we_mem e) (args 1) (8 * length bufs)"
    and "bufs_ok (we_mem e) bufs" "apart_from (args 1) (8 * length bufs) bufs"
    and "mal (min (bufs_size bufs) 65536)"
    and "sys (Sys_recv fd (min (bufs_size bufs) 65536)) (we_os e) = (r, w)" "0 \<le> rp_ret r"
    and "length (rp_bytes r) \<le> min (bufs_size bufs) 65536"
    and "args 3 = 0 \<or> gmapped (we_mem e) (args 3) 4 \<and> apart_from (args 3) 4 bufs" "args 5 = 0"
  shows "\<exists>e'. WSARecv mal sys args e = Some (0, e') \<and> take (length (rp_bytes r)) (bufs_data (we_mem e') bufs) = rp_bytes r
     \<and> (args 3 \<noteq> 0 \<longrightarrow> gread32 (we_mem e') (args 3) = of_nat (length (rp_bytes r)))"
  using assms by (rule recv_scattered)

text \<open>Two buffers of two and four bytes at \<open>0x2000\<close> and \<open>0x3000\<close>, described at \<open>0x1000\<close>.\<close>

definition demo_bufs :: "(u32 \<times> u32) list" where
  "demo_bufs = [(2, 0x2000), (4, 0x3000)]"

definition demo_peer :: "unit osfn" where
  "demo_peer c w = (case c of Sys_recv fd n \<Rightarrow> ((ok_reply 3)\<lparr> rp_bytes := [65, 66, 67] \<rparr>, w) | _ \<Rightarrow> (ok_reply 0, w))"

definition demo_receiver :: "unit wenv" where
  "demo_receiver = \<lparr> we_ws = (wg_winsock_create 0)\<lparr> ws_fds := 5 # replicate 127 (- 1) \<rparr>,
     we_mem = gwrite 0x1000 (put_words [2, 0x2000, 4, 0x3000]) (\<lambda>_. Some 0), we_os = (), we_errno = 0 \<rparr>"

definition demo_recv_args :: ws_args where
  "demo_recv_args i = (if i = 0 then 0x1000 else if i = 1 then 0x1000 else if i = 2 then 2 else if i = 3 then 0x4000 else 0)"

lemma demo_recv_mem:
  "wsabufs_at (we_mem demo_receiver) 0x1000 demo_bufs" "gmapped (we_mem demo_receiver) b n = gmapped (\<lambda>_. Some 0) b n"
proof -
  let ?ws = "[2, 0x2000, 4, 0x3000] :: u32 list"
  have m: "gmapped (\<lambda>_. Some 0) 0x1000 (length (put_words ?ws))" by (simp add: gmapped_def length_put_words)
  show mm: "gmapped (we_mem demo_receiver) b n = gmapped (\<lambda>_. Some 0) b n" for b n
    using gmapped_gwrite [OF m] by (simp add: demo_receiver_def)
  have all: "gread (we_mem demo_receiver) 0x1000 16 = put_words ?ws"
    using gread_gwrite_same [OF m, of 16] by (simp add: demo_receiver_def length_put_words)
  have m16: "gmapped (we_mem demo_receiver) 0x1000 16" unfolding mm by (simp add: gmapped_def)
  have "gread (we_mem demo_receiver) 0x1000 (8 + 8) = gread (we_mem demo_receiver) 0x1000 8 @ gread (we_mem demo_receiver) (0x1000 + of_nat 8) 8"
    using m16 by (intro gread_append) simp
  moreover have "put_words ?ws = put_words [2, 0x2000] @ put_words [4, 0x3000]" by (simp add: put_words_def)
  moreover have "length (gread (we_mem demo_receiver) 0x1000 8) = 8" "length (gread (we_mem demo_receiver) 0x1008 8) = 8"
    by (rule length_gread_mapped, unfold mm, simp add: gmapped_def)+
  ultimately have "gread (we_mem demo_receiver) 0x1000 8 = put_words [2, 0x2000]" "gread (we_mem demo_receiver) 0x1008 8 = put_words [4, 0x3000]"
    using all \<open>put_words ?ws = put_words [2, 0x2000] @ put_words [4, 0x3000]\<close> by (simp_all add: length_put_words)
  then show "wsabufs_at (we_mem demo_receiver) 0x1000 demo_bufs"
    using wsabuf_words [of "we_mem demo_receiver" "0x1000" 0] wsabuf_words [of "we_mem demo_receiver" "0x1000" 1]
    by (simp add: wsabufs_at_def demo_bufs_def less_Suc_eq)
qed

theorem recv_scatters_witness:
  "\<exists>e'. WSARecv (\<lambda>_. True) demo_peer demo_recv_args demo_receiver = Some (0, e')
     \<and> take 3 (gread (we_mem e') 0x2000 2 @ gread (we_mem e') 0x3000 4) = [65, 66, 67] \<and> gread32 (we_mem e') 0x4000 = 3"
proof -
  have mem: "gmapped (we_mem demo_receiver) b n \<longleftrightarrow> unat b + n \<le> 2 ^ 32" for b n
    unfolding demo_recv_mem(2) by (simp add: gmapped_def)
  have a: "demo_recv_args 0 = 0x1000" "demo_recv_args (Suc 0) = 0x1000" "demo_recv_args 2 = 2" "demo_recv_args 3 = 0x4000" "demo_recv_args 5 = 0"
    "demo_recv_args (Suc (Suc (Suc 0))) = 0x4000"
    by (simp_all add: demo_recv_args_def)
  have fd: "lookup_fd (we_ws demo_receiver) (demo_recv_args 0) = 5"
    by (simp add: a lookup_fd_def sock_range_def sock_idx_def SOCK_BASE_def WG_MAX_SOCKETS_def demo_receiver_def)
  define r where "r = (ok_reply 3)\<lparr> rp_bytes := [65, 66, 67] \<rparr>"
  have s: "demo_peer (Sys_recv 5 (min (bufs_size demo_bufs) 65536)) (we_os demo_receiver) = (r, ())" by (simp add: demo_peer_def r_def)
  have "\<exists>e'. WSARecv (\<lambda>_. True) demo_peer demo_recv_args demo_receiver = Some (0, e')
     \<and> take (length (rp_bytes r)) (bufs_data (we_mem e') demo_bufs) = rp_bytes r
     \<and> (demo_recv_args 3 \<noteq> 0 \<longrightarrow> gread32 (we_mem e') (demo_recv_args 3) = of_nat (length (rp_bytes r)))"
    by (rule recv_scatters [where args = demo_recv_args and e = demo_receiver and bufs = demo_bufs and sys = demo_peer and fd = 5 and r = r and w = "()" and mal = "\<lambda>_. True", OF fd _ _ _ _ _ _ _ _ _ _ s])
      (use demo_recv_mem(1) in \<open>simp_all add: a mem demo_bufs_def apart_from_def gdisjoint_def r_def ok_reply_def bufs_size_def\<close>)
  then show ?thesis by (simp add: r_def ok_reply_def a bufs_data_def demo_bufs_def numeral_3_eq_3)
qed

subsection \<open>The calls with an address\<close>

text \<open>\<open>WSASendTo\<close> has the destination where \<open>WSASend\<close> has its \<open>OVERLAPPED\<close>: the count of bytes sent is
  written over the address field of the destination, which the host is never given.\<close>

lemma sendto_overwrites_address:
  assumes h: "wg_winsock_handle mal sys ''WSASendTo'' args e = Some (Some (0, e'))"
    and n: "wsabuf_total (we_mem e) (args 1) [0..<min (unat (args 2)) 16] = Some tot" "tot \<noteq> 0"
    and to: "args 5 \<noteq> 0" "gmapped (we_mem e) (args 5 + 4) 4" and a: "args 3 = 0"
  shows "\<exists>buf sent. sys (Sys_send (lookup_fd (we_ws e) (args 0)) buf) (we_os e) = (sent, we_os e')
     \<and> gread32 (we_mem e') (args 5 + 4) = word_of_int (rp_ret sent)"
proof -
  let ?fd = "lookup_fd (we_ws e) (args 0)"
  have w: "WSASend mal sys args e = Some (0, e')" using h by (simp add: wg_winsock_handle_def)
  have fd: "\<not> ?fd < 0"
    using w by (rule contrapos_pn) (simp add: WSASend_def on_fd_def ws_fail_def WIN_SOCKET_ERROR_def)
  have nz: "\<not> (args 2 = 0 \<or> args 1 = 0)"
    using w by (rule contrapos_pn) (simp add: WSASend_def on_fd_def fd ws_fail_def WIN_SOCKET_ERROR_def)
  have "(if \<not> mal tot then None
         else do { buf \<leftarrow> wsabuf_gather (we_mem e) (args 1) [0..<min (unat (args 2)) 16];
                   if length buf \<noteq> tot then None
                   else let (r, e) = os_call sys (Sys_send ?fd buf) e
                        in if rp_ret r < 0 then ws_fail (errno_to_wsa (we_errno e)) e
                           else ws_return 0 (upd_mem (wsa_bytes args (word_of_int (rp_ret r))) e) }) = Some (0, e')"
    using w unfolding WSASend_def on_fd_def Let_def using fd nz n by simp
  then obtain buf where b: "(let (r, e) = os_call sys (Sys_send ?fd buf) e
                        in if rp_ret r < 0 then ws_fail (errno_to_wsa (we_errno e)) e
                           else ws_return 0 (upd_mem (wsa_bytes args (word_of_int (rp_ret r))) e)) = Some (0, e')"
    by (auto simp: bind_eq_Some_conv split: if_splits)
  obtain r w where s: "sys (Sys_send ?fd buf) (we_os e) = (r, w)" by fastforce
  have "we_os e' = w \<and> we_mem e' = gwrite32 (args 5 + 4) (word_of_int (rp_ret r)) (we_mem e)"
    using b s a to(1)
    by (auto simp: os_call_def ws_return_def ws_fail_def WIN_SOCKET_ERROR_def wsa_bytes_def gput32_def split: if_splits)
  then show ?thesis using gread32_gwrite32 [OF to(2)] s by auto
qed

end
