(* ===== verification/Winsock_Resolver.thy ===== *)
theory Winsock_Resolver
  imports Winsock_Accounts
begin

section \<open>The list of \<open>getaddrinfo\<close>\<close>

text \<open>
  The results of the host's resolver are laid out one after the other in a scratch region, each node
  followed by its address and linked to the next.  A program that follows the links finds them all,
  in order, in the layout of Windows.
\<close>

subsection \<open>Following the list\<close>

text \<open>A node as a program reads it: flags, family, type and protocol, and the bytes of the address;
  the first argument bounds the number of nodes.\<close>

fun read_chain :: "nat \<Rightarrow> gmem \<Rightarrow> u32 \<Rightarrow> (u32 list \<times> u8 list) list" where
  "read_chain 0 v p = []"
| "read_chain (Suc k) v p =
     (if p = 0 then []
      else let h = gread_words v p 8 in (take 4 h, gread v (h ! 6) (unat (h ! 4))) # read_chain k v (h ! 7))"

text \<open>The two kinds of results a resolver has, and what the guest is to see of one.\<close>

definition plain_ai :: "addrinfo \<Rightarrow> bool" where
  "plain_ai ai \<longleftrightarrow> ai_family ai = AF_INET \<and> length (ai_addr ai) = 16 \<or> ai_family ai = AF_INET6 \<and> length (ai_addr ai) = 28"

definition win_addr :: "addrinfo \<Rightarrow> u8 list" where
  "win_addr ai = (if ai_family ai = AF_INET then win_in (ai_addr ai) else win_in6 (ai_addr ai))"

definition win_node :: "addrinfo \<Rightarrow> u32 list \<times> u8 list" where
  "win_node ai =
     ([word_of_int (ai_flags ai), if ai_family ai = AF_INET then 2 else 23, word_of_int (ai_socktype ai), word_of_int (ai_protocol ai)],
      win_addr ai)"

definition node_size :: "addrinfo \<Rightarrow> nat" where
  "node_size ai = 32 + length (ai_addr ai)"

definition chain_size :: "addrinfo list \<Rightarrow> nat" where
  "chain_size ais = sum_list (map node_size ais)"

lemma length_win_addr: "plain_ai ai \<Longrightarrow> length (win_addr ai) = length (ai_addr ai)"
  by (auto simp: plain_ai_def win_addr_def win_in_def win_in6_def AF_INET_def AF_INET6_def)

lemma plain_length: "plain_ai ai \<Longrightarrow> length (ai_addr ai) = 16 \<or> length (ai_addr ai) = 28"
  by (auto simp: plain_ai_def)

subsection \<open>Writing what is already there\<close>

lemma gwrite_same:
  assumes m: "gmapped v a (length bs)" and r: "gread v a (length bs) = bs"
  shows "gwrite a bs v = v"
proof
  fix x :: u64
  let ?k = "unat (x - ucast a)"
  show "gwrite a bs v x = v x"
  proof (cases "?k < length bs")
    case True
    have "bs ! ?k = the (v (ucast a + of_nat ?k))"
      using arg_cong [OF r, of "\<lambda>l. l ! ?k"] True by (simp add: gread_mapped [OF m])
    moreover have "v (ucast a + of_nat ?k) \<noteq> None" by (rule gmappedD [OF m True])
    ultimately have "v x = Some (bs ! ?k)" by simp
    with True show ?thesis by (simp add: gwrite_def overlay_def gmapped_prefix [OF m])
  qed (simp add: gwrite_def overlay_def gmapped_prefix [OF m])
qed

lemma gwrite32_same: "gmapped v a 4 \<Longrightarrow> gread32 v a = w \<Longrightarrow> gwrite32 a w v = v"
proof -
  assume m: "gmapped v a 4" and w: "gread32 v a = w"
  have "length (gread v a 4) = 4" by (rule length_gread_mapped [OF m])
  then have "gread v a 4 = to_le 4 w" using w to_le_of_le [of "gread v a 4" 4, where 'a = 32] by (simp add: gread32_def del: to_le_numeral)
  moreover have "length (to_le 4 w) = 4" by (rule length_to_le)
  ultimately show ?thesis using gwrite_same [of v a "to_le 4 w"] m by (simp add: gwrite32_def del: to_le_numeral)
qed

subsection \<open>One node\<close>

definition node_words :: "u32 \<Rightarrow> bool \<Rightarrow> addrinfo \<Rightarrow> u32 list" where
  "node_words node has_next ai = fst (win_node ai) @
     [of_nat (length (ai_addr ai)), 0, node + 32, if has_next then node + of_nat (node_size ai) else 0]"

definition node_mem :: "u32 \<Rightarrow> bool \<Rightarrow> addrinfo \<Rightarrow> gmem \<Rightarrow> gmem" where
  "node_mem node has_next ai v = gwrite (node + 32) (win_addr ai) (gwrite node (put_words (node_words node has_next ai)) v)"

lemma length_node_words: "length (node_words node b ai) = 8"
  by (simp add: node_words_def win_node_def)

lemma node_parts:
  assumes "gmapped v node (node_size ai)" "plain_ai ai"
  shows "gmapped v node 32" "gmapped v (node + 32) (length (win_addr ai))" "unat (node + 32) = unat node + 32"
proof -
  show "gmapped v node 32" using gmapped_sub [OF assms(1), of 0 32] by (simp add: node_size_def)
  show "gmapped v (node + 32) (length (win_addr ai))"
    using gmapped_sub [OF assms(1), of 32 "length (ai_addr ai)"] by (simp add: node_size_def length_win_addr [OF assms(2)])
  show "unat (node + 32) = unat node + 32"
    using unat_gadd [of node 32] assms(1) plain_length [OF assms(2)] by (auto simp: gmapped_def node_size_def)
qed

lemma node_mem_mapped:
  assumes m: "gmapped v node (node_size ai)" "plain_ai ai"
  shows "gmapped (node_mem node b ai v) a n = gmapped v a n"
proof -
  note p = node_parts [OF m]
  have p1: "gmapped v node (length (put_words (node_words node b ai)))" using p(1) by (simp add: length_put_words length_node_words)
  have p2: "gmapped (gwrite node (put_words (node_words node b ai)) v) (node + 32) (length (win_addr ai))"
    using p(2) by (simp add: gmapped_gwrite [OF p1])
  show ?thesis by (simp add: node_mem_def gmapped_gwrite [OF p2] gmapped_gwrite [OF p1])
qed

lemma node_mem_reads:
  assumes m: "gmapped v node (node_size ai)" "plain_ai ai"
  shows "gread (node_mem node b ai v) node 32 = put_words (node_words node b ai)"
    and "gread (node_mem node b ai v) (node + 32) (length (ai_addr ai)) = win_addr ai"
    and "gmapped v x n \<Longrightarrow> gdisjoint node (node_size ai) x n \<Longrightarrow> gread (node_mem node b ai v) x n = gread v x n"
proof -
  let ?hb = "put_words (node_words node b ai)"
  note p = node_parts [OF m]
  have l: "length ?hb = 32" by (simp add: length_put_words length_node_words)
  have p1: "gmapped v node (length ?hb)" using p(1) by (simp add: l)
  have p2: "gmapped (gwrite node ?hb v) (node + 32) (length (win_addr ai))" using p(2) by (simp add: gmapped_gwrite [OF p1])
  have p3: "gmapped (gwrite node ?hb v) node 32" using p(1) by (simp add: gmapped_gwrite [OF p1])
  show "gread (node_mem node b ai v) node 32 = ?hb"
    using gread_gwrite_other [OF p2 p3] gread_gwrite_same [OF p1, of 32] p(3) l by (simp add: node_mem_def gdisjoint_def)
  show "gread (node_mem node b ai v) (node + 32) (length (ai_addr ai)) = win_addr ai"
    using gread_gwrite_same [OF p2 order_refl] by (simp add: node_mem_def length_win_addr [OF m(2)])
  assume x: "gmapped v x n" and d: "gdisjoint node (node_size ai) x n"
  have x1: "gmapped (gwrite node ?hb v) x n" using x by (simp add: gmapped_gwrite [OF p1])
  have "gdisjoint node (length ?hb) x n" using d by (auto simp: gdisjoint_def l node_size_def)
  moreover have "gdisjoint (node + 32) (length (win_addr ai)) x n"
    using d p(3) by (auto simp: gdisjoint_def node_size_def length_win_addr [OF m(2)])
  ultimately show "gread (node_mem node b ai v) x n = gread v x n"
    using gread_gwrite_other [OF p2 x1] gread_gwrite_other [OF p1 x] by (simp add: node_mem_def)
qed

lemma align4_lengths: "align4 16 = 16" "align4 28 = 28"
  by (simp_all add: align4_def)

lemma put_node_mem:
  assumes m: "gmapped v node (node_size ai)" "plain_ai ai" and nz: "b \<Longrightarrow> node + of_nat (node_size ai) \<noteq> 0"
  shows "put_node node b ai v = Some (node + of_nat (node_size ai), node_mem node b ai v)"
proof -
  have fam: "win_family (ai_family ai) = (if ai_family ai = AF_INET then 2 else 23)"
    using m(2) by (auto simp: plain_ai_def win_family_def AF_INET_def AF_INET6_def WIN_AF_INET6_def)
  have ad: "node_sockaddr ai = Some (win_addr ai)" "ai_addr ai \<noteq> []"
    using m(2) by (auto simp: plain_ai_def node_sockaddr_def win_addr_def AF_INET_def AF_INET6_def)
  have al': "32 + align4 (of_nat (length (ai_addr ai))) = of_nat (node_size ai)"
    using plain_length [OF m(2)] by (auto simp: node_size_def align4_lengths)
  then have al: "node + 32 + align4 (of_nat (length (ai_addr ai))) = node + of_nat (node_size ai)" by (simp add: add.assoc)
  have hb: "[word_of_int (ai_flags ai), win_family (ai_family ai), word_of_int (ai_socktype ai), word_of_int (ai_protocol ai),
      of_nat (length (ai_addr ai)), 0, node + 32, if b then node + 32 + align4 (of_nat (length (ai_addr ai))) else 0] = node_words node b ai"
    by (simp add: node_words_def win_node_def fam al)
  let ?v = "node_mem node b ai v"
  have len: "gread32 ?v (node + 16) = of_nat (length (ai_addr ai))" "gmapped ?v (node + 16) 4"
  proof -
    have m32: "gmapped ?v node (16 + 16)" using node_parts(1) [OF m] by (simp add: node_mem_mapped [OF m])
    have m16: "gmapped ?v (node + of_nat 16) (4 + 12)" by (rule gmapped_sub [OF m32]) simp
    show "gmapped ?v (node + 16) 4" using gmapped_sub [OF m16, of 0 4] by simp
    have "gread ?v node (16 + 16) = gread ?v node 16 @ gread ?v (node + 16) (4 + 12)" using gread_append [OF m32] by simp
    moreover have "gread ?v (node + 16) (4 + 12) = gread ?v (node + 16) 4 @ gread ?v (node + 20) 12"
      using gread_append [OF m16] by (simp add: add.commute)
    moreover have "length (gread ?v node 16) = 16" "length (gread ?v (node + 16) 4) = 4"
      using gmapped_sub [OF m32, of 0 16] gmapped_sub [OF m16, of 0 4] by (simp_all add: length_gread_mapped)
    ultimately have "gread ?v (node + 16) 4 = take 4 (drop 16 (put_words (node_words node b ai)))"
      using node_mem_reads(1) [OF m, of b] by simp
    then show "gread32 ?v (node + 16) = of_nat (length (ai_addr ai))"
      using of_le_to_le [of 4 "of_nat (length (ai_addr ai)) :: u32"]
      by (simp add: gread32_def node_words_def win_node_def put_words_def del: to_le_numeral of_le.simps)
  qed
  have "put_node node b ai v = Some (node + of_nat (node_size ai), gwrite32 (node + 16) (of_nat (length (win_addr ai))) ?v)"
    using nz by (simp add: put_node_def Let_def ad hb al node_mem_def) (simp add: length_win_addr [OF m(2)] al')
  then show ?thesis using gwrite32_same [OF len(2,1)] by (simp add: length_win_addr [OF m(2)])
qed

subsection \<open>The list\<close>

fun chain_mem :: "u32 \<Rightarrow> addrinfo list \<Rightarrow> gmem \<Rightarrow> gmem" where
  "chain_mem ptr [] v = v"
| "chain_mem ptr (ai # ais) v = chain_mem (ptr + of_nat (node_size ai)) ais (node_mem ptr (ais \<noteq> []) ai v)"

lemma chain_step:
  assumes m: "gmapped v ptr (chain_size (ai # ais))" and pl: "plain_ai ai"
  shows "gmapped v ptr (node_size ai)" "gmapped (node_mem ptr b ai v) (ptr + of_nat (node_size ai)) (chain_size ais)"
    and "ais \<noteq> [] \<Longrightarrow> list_all plain_ai ais \<Longrightarrow> unat (ptr + of_nat (node_size ai)) = unat ptr + node_size ai \<and> ptr + of_nat (node_size ai) \<noteq> 0"
proof -
  have sz: "chain_size (ai # ais) = node_size ai + chain_size ais" by (simp add: chain_size_def)
  show n: "gmapped v ptr (node_size ai)" using gmapped_sub [OF m, of 0 "node_size ai"] by (simp add: sz)
  show "gmapped (node_mem ptr b ai v) (ptr + of_nat (node_size ai)) (chain_size ais)"
    using gmapped_sub [OF m, of "node_size ai" "chain_size ais"] by (simp add: sz node_mem_mapped [OF n pl])
  assume "ais \<noteq> []" "list_all plain_ai ais"
  then have "0 < chain_size ais" by (cases ais) (simp_all add: chain_size_def node_size_def)
  then have lt: "unat ptr + node_size ai < 2 ^ 32" using m by (simp add: gmapped_def sz)
  have "0 < node_size ai" by (simp add: node_size_def)
  then have "unat (ptr + of_nat (node_size ai)) \<noteq> 0" using unat_gadd [OF lt] by simp
  then show "unat (ptr + of_nat (node_size ai)) = unat ptr + node_size ai \<and> ptr + of_nat (node_size ai) \<noteq> 0"
    using unat_gadd [OF lt] by auto
qed

lemma put_nodes_mem:
  "gmapped v ptr (chain_size ais) \<Longrightarrow> list_all plain_ai ais \<Longrightarrow>
   (prev \<noteq> 0 \<longrightarrow> ais \<noteq> [] \<longrightarrow> gmapped v prev 4 \<and> gread32 v prev = ptr \<and> gdisjoint ptr (chain_size ais) prev 4) \<Longrightarrow>
   put_nodes ptr prev ais v = Some (chain_mem ptr ais v)"
proof (induction ais arbitrary: ptr prev v)
  case (Cons ai ais)
  let ?v = "node_mem ptr (ais \<noteq> []) ai v" and ?next = "ptr + of_nat (node_size ai)"
  have pl: "plain_ai ai" "list_all plain_ai ais" using Cons.prems(2) by simp_all
  note st = chain_step [OF Cons.prems(1) pl(1)]
  have pn: "put_node ptr (ais \<noteq> []) ai v = Some (?next, ?v)"
    using st(3) pl(2) by (intro put_node_mem [OF st(1) pl(1)]) simp
  have patch: "(if prev \<noteq> 0 then gwrite32 prev ptr ?v else ?v) = ?v"
  proof (cases "prev = 0")
    case False
    with Cons.prems(3) have p: "gmapped v prev 4" "gread32 v prev = ptr" "gdisjoint ptr (node_size ai) prev 4"
      by (auto simp: gdisjoint_def chain_size_def)
    have "gread32 ?v prev = ptr" using node_mem_reads(3) [OF st(1) pl(1) p(1,3)] p(2) by (simp add: gread32_def)
    moreover have "gmapped ?v prev 4" using p(1) by (simp add: node_mem_mapped [OF st(1) pl(1)])
    ultimately show ?thesis using gwrite32_same by simp
  qed simp
  have nx: "gmapped ?v (ptr + 28) 4 \<and> gread32 ?v (ptr + 28) = ?next \<and> gdisjoint ?next (chain_size ais) (ptr + 28) 4" if ne: "ais \<noteq> []"
  proof -
    have m32: "gmapped ?v ptr (28 + 4)" using node_parts(1) [OF st(1) pl(1)] by (simp add: node_mem_mapped [OF st(1) pl(1)])
    have m4: "gmapped ?v (ptr + 28) 4" using gmapped_sub [OF m32, of 28 4] by simp
    have "gread ?v ptr (28 + 4) = gread ?v ptr 28 @ gread ?v (ptr + 28) 4" using gread_append [OF m32] by simp
    moreover have "length (gread ?v ptr 28) = 28" using gmapped_sub [OF m32, of 0 28] by (simp add: length_gread_mapped)
    ultimately have "gread ?v (ptr + 28) 4 = drop 28 (put_words (node_words ptr (ais \<noteq> []) ai))"
      using node_mem_reads(1) [OF st(1) pl(1)] by simp
    then have "gread32 ?v (ptr + 28) = ?next"
      using of_le_to_le [of 4 ?next] ne by (simp add: gread32_def node_words_def win_node_def put_words_def del: to_le_numeral of_le.simps)
    moreover have "unat (ptr + 28) = unat ptr + 28" using unat_gadd [of ptr 28] m32 by (simp add: gmapped_def)
    then have "gdisjoint ?next (chain_size ais) (ptr + 28) 4" using st(3) ne pl(2) by (simp add: gdisjoint_def node_size_def)
    ultimately show ?thesis using m4 by simp
  qed
  have "put_nodes ?next (ptr + 28) ais ?v = Some (chain_mem ?next ais ?v)"
    using nx by (intro Cons.IH [OF st(2) pl(2)]) auto
  then show ?case using pn patch by simp
qed simp

lemma chain_mem_reads:
  "gmapped v ptr (chain_size ais) \<Longrightarrow> list_all plain_ai ais \<Longrightarrow> ptr \<noteq> 0 \<Longrightarrow>
   read_chain (length ais + k) (chain_mem ptr ais v) (if ais = [] then 0 else ptr) = map win_node ais
   \<and> (\<forall>x n. gmapped (chain_mem ptr ais v) x n = gmapped v x n
       \<and> (gmapped v x n \<longrightarrow> gdisjoint ptr (chain_size ais) x n \<longrightarrow> gread (chain_mem ptr ais v) x n = gread v x n))"
proof (induction ais arbitrary: ptr v)
  case Nil
  show ?case by (cases k) simp_all
next
  case (Cons ai ais)
  let ?v = "node_mem ptr (ais \<noteq> []) ai v" and ?next = "ptr + of_nat (node_size ai)"
  let ?w = "chain_mem ?next ais ?v"
  have pl: "plain_ai ai" "list_all plain_ai ais" using Cons.prems(2) by simp_all
  note st = chain_step [OF Cons.prems(1) pl(1)]
  have rest: "read_chain (length ais + k) ?w (if ais = [] then 0 else ?next) = map win_node ais
      \<and> (\<forall>x n. gmapped ?w x n = gmapped ?v x n \<and> (gmapped ?v x n \<longrightarrow> gdisjoint ?next (chain_size ais) x n \<longrightarrow> gread ?w x n = gread ?v x n))"
  proof (cases "ais = []")
    case True
    then show ?thesis by (cases k) simp_all
  next
    case False
    then show ?thesis using Cons.IH [OF st(2) pl(2)] st(3) pl(2) by blast
  qed
  have low: "gread ?w x n = gread ?v x n" if "gmapped ?v x n" "unat x + n \<le> unat ptr + node_size ai" for x n
  proof (cases "ais = []")
    case False
    then have "gdisjoint ?next (chain_size ais) x n" using st(3) pl(2) that(2) by (simp add: gdisjoint_def)
    with rest that(1) show ?thesis by blast
  qed simp
  note parts = node_parts [OF st(1) pl(1)] and reads = node_mem_reads [OF st(1) pl(1), where b = "ais \<noteq> []"]
  have "gread ?w ptr 32 = put_words (node_words ptr (ais \<noteq> []) ai)"
    using low [of ptr 32] parts(1) reads(1) by (simp add: node_mem_mapped [OF st(1) pl(1)] node_size_def)
  then have h: "gread_words ?w ptr 8 = node_words ptr (ais \<noteq> []) ai"
    using le_words_put_words [of "node_words ptr (ais \<noteq> []) ai"] by (simp add: gread_words_def length_node_words)
  have ln: "unat (of_nat (length (ai_addr ai)) :: u32) = length (ai_addr ai)" using plain_length [OF pl(1)] by auto
  have a: "gread ?w (ptr + 32) (length (ai_addr ai)) = win_addr ai"
    using low [of "ptr + 32" "length (ai_addr ai)"] parts(2,3) reads(2)
    by (simp add: node_mem_mapped [OF st(1) pl(1)] node_size_def length_win_addr [OF pl(1)])
  have nth: "take 4 (node_words ptr b ai) = fst (win_node ai)" "node_words ptr b ai ! 4 = of_nat (length (ai_addr ai))"
    "node_words ptr b ai ! 6 = ptr + 32" "node_words ptr b ai ! 7 = (if b then ?next else 0)" for b
    by (simp_all add: node_words_def win_node_def)
  define w where "w = ?w"
  note h' = h [folded w_def] and a' = a [folded w_def] and r' = conjunct1 [OF rest, folded w_def]
  have "read_chain (length (ai # ais) + k) w ptr = win_node ai # map win_node ais"
    using r' Cons.prems(3) by (cases "ais = []") (simp_all add: Let_def h' [simplified] nth ln a' prod_eq_iff win_node_def)
  then have "read_chain (length (ai # ais) + k) ?w ptr = win_node ai # map win_node ais" by (simp only: w_def)
  moreover have "gmapped ?w x n = gmapped v x n" for x n using rest by (simp add: node_mem_mapped [OF st(1) pl(1)])
  moreover have "gread ?w x n = gread v x n" if x: "gmapped v x n" "gdisjoint ptr (chain_size (ai # ais)) x n" for x n
  proof -
    have "gdisjoint ptr (node_size ai) x n" using x(2) by (auto simp: gdisjoint_def chain_size_def)
    then have v: "gread ?v x n = gread v x n" by (rule reads(3) [OF x(1)])
    show ?thesis
    proof (cases "ais = []")
      case False
      then have "gdisjoint ?next (chain_size ais) x n" using st(3) pl(2) x(2) by (auto simp: gdisjoint_def chain_size_def)
      with rest x(1) v show ?thesis by (simp add: node_mem_mapped [OF st(1) pl(1)])
    qed (use v in simp)
  qed
  ultimately show ?case by simp
qed

subsection \<open>Writes elsewhere\<close>

lemma gwrite_in_range:
  assumes "gmapped v a (length bs)"
  shows "gwrite a bs v x = (if unat a \<le> unat x \<and> unat x < unat a + length bs then Some (bs ! (unat x - unat a)) else v x)"
proof (cases "unat a \<le> unat x")
  case True
  then have "unat (x - ucast a) = unat x - unat a" by (simp add: unat_sub word_le_nat_alt unat_ucast64)
  with True show ?thesis by (auto simp: gwrite_def overlay_def gmapped_prefix [OF assms])
next
  case False
  then have "unat (x - ucast a) = 2 ^ 64 + unat x - unat a" by (simp add: unat_sub_if' word_le_nat_alt unat_ucast64)
  moreover have "unat a + length bs \<le> 4294967296" using assms by (simp add: gmapped_def)
  then have "length bs \<le> 2 ^ 64 + unat x - unat a" by simp
  ultimately show ?thesis using False by (simp add: gwrite_def overlay_def gmapped_prefix [OF assms])
qed

lemma gwrite_swap:
  assumes a: "gmapped v a (length bs)" and b: "gmapped v b (length cs)" and d: "gdisjoint a (length bs) b (length cs)"
  shows "gwrite a bs (gwrite b cs v) = gwrite b cs (gwrite a bs v)"
proof
  fix x
  have a': "gmapped (gwrite b cs v) a (length bs)" and b': "gmapped (gwrite a bs v) b (length cs)"
    using a b by (simp_all add: gmapped_gwrite [OF a] gmapped_gwrite [OF b])
  show "gwrite a bs (gwrite b cs v) x = gwrite b cs (gwrite a bs v) x"
    using d unfolding gwrite_in_range [OF a'] gwrite_in_range [OF b'] gwrite_in_range [OF a] gwrite_in_range [OF b] gdisjoint_def
    by (simp split: if_split) linarith
qed

lemma node_mem_swap:
  assumes m: "gmapped v node (node_size ai)" "plain_ai ai" and a: "gmapped v a (length bs)" "gdisjoint a (length bs) node (node_size ai)"
  shows "node_mem node b ai (gwrite a bs v) = gwrite a bs (node_mem node b ai v)"
proof -
  let ?hb = "put_words (node_words node b ai)"
  note p = node_parts [OF m]
  have l: "length ?hb = 32" by (simp add: length_put_words length_node_words)
  have p1: "gmapped v node (length ?hb)" using p(1) by (simp add: l)
  have d1: "gdisjoint a (length bs) node (length ?hb)" using a(2) by (auto simp: gdisjoint_def l node_size_def)
  have d2: "gdisjoint a (length bs) (node + 32) (length (win_addr ai))"
    using a(2) p(3) by (auto simp: gdisjoint_def node_size_def length_win_addr [OF m(2)])
  have "gwrite node ?hb (gwrite a bs v) = gwrite a bs (gwrite node ?hb v)" by (rule gwrite_swap [OF a(1) p1 d1, symmetric])
  moreover have "gwrite (node + 32) (win_addr ai) (gwrite a bs (gwrite node ?hb v)) = gwrite a bs (gwrite (node + 32) (win_addr ai) (gwrite node ?hb v))"
    by (rule gwrite_swap [OF _ _ d2, symmetric]) (simp_all add: gmapped_gwrite [OF p1] a(1) p(2))
  ultimately show ?thesis by (simp add: node_mem_def)
qed

lemma chain_mem_swap:
  "gmapped v ptr (chain_size ais) \<Longrightarrow> list_all plain_ai ais \<Longrightarrow> gmapped v a (length bs) \<Longrightarrow> gdisjoint a (length bs) ptr (chain_size ais) \<Longrightarrow>
   chain_mem ptr ais (gwrite a bs v) = gwrite a bs (chain_mem ptr ais v)"
proof (induction ais arbitrary: ptr v)
  case (Cons ai ais)
  let ?v = "node_mem ptr (ais \<noteq> []) ai v" and ?next = "ptr + of_nat (node_size ai)"
  have pl: "plain_ai ai" "list_all plain_ai ais" using Cons.prems(2) by simp_all
  note st = chain_step [OF Cons.prems(1) pl(1)]
  have "gdisjoint a (length bs) ptr (node_size ai)" using Cons.prems(4) by (auto simp: gdisjoint_def chain_size_def)
  from node_mem_swap [OF st(1) pl(1) Cons.prems(3) this]
  have n: "node_mem ptr (ais \<noteq> []) ai (gwrite a bs v) = gwrite a bs ?v" .
  show ?case
  proof (cases "ais = []")
    case False
    then have "gdisjoint a (length bs) ?next (chain_size ais)"
      using st(3) pl(2) Cons.prems(4) by (auto simp: gdisjoint_def chain_size_def)
    then show ?thesis
      using Cons.IH [OF st(2) pl(2)] Cons.prems(3) n by (simp add: node_mem_mapped [OF st(1) pl(1)])
  qed (use n in simp)
qed simp

subsection \<open>The call\<close>

definition asked_addrs :: "ws_args \<Rightarrow> 'w wenv \<Rightarrow> syscall" where
  "asked_addrs args e = Sys_getaddrinfo (guest_name (we_mem e) (args 0) 255) (guest_name (we_mem e) (args 1) 63) (read_hints (we_mem e) (args 2))"

lemma getaddrinfo_spec:
  assumes r: "sys (asked_addrs args e) (we_os e) = (r, w)" "rp_ret r = 0" and pl: "list_all plain_ai (rp_addrs r)" "rp_addrs r \<noteq> []"
    and b: "ws_gai_base (we_ws e) = base" "base \<noteq> 0" "gmapped (we_mem e) base (chain_size (rp_addrs r))"
    and a: "args 3 \<noteq> 0" "gmapped (we_mem e) (args 3) 4" "gdisjoint (args 3) 4 base (chain_size (rp_addrs r))"
  shows "\<exists>e'. getaddrinfo_call sys args e = Some (0, e') \<and> gread32 (we_mem e') (args 3) = base
     \<and> read_chain (length (rp_addrs r) + k) (we_mem e') base = map win_node (rp_addrs r)"
proof -
  let ?ais = "rp_addrs r"
  obtain e1 where c: "os_call sys (asked_addrs args e) e = (r, e1)" using r(1) by (simp add: os_call_def)
  have e1: "we_mem e1 = we_mem e" "we_ws e1 = we_ws e" using os_call_frame [OF c] by simp_all
  let ?v = "gwrite32 (args 3) base (chain_mem base ?ais (we_mem e))"
  have p: "put_nodes base 0 ?ais (we_mem e) = Some (chain_mem base ?ais (we_mem e))" using put_nodes_mem [OF b(3) pl(1)] by simp
  then have call: "getaddrinfo_call sys args e = Some (0, e1\<lparr> we_mem := ?v \<rparr>)"
    using c r(2) e1 b(1) a(1) by (simp add: getaddrinfo_call_def asked_addrs_def Let_def ws_return_def gput32_def)
  have l4: "length (to_le 4 base) = 4" by (rule length_to_le)
  have swap: "?v = chain_mem base ?ais (gwrite32 (args 3) base (we_mem e))"
    unfolding gwrite32_def by (rule chain_mem_swap [OF b(3) pl(1), symmetric]) (use a l4 in \<open>simp_all del: to_le_numeral\<close>)
  have m: "gmapped (gwrite32 (args 3) base (we_mem e)) base (chain_size ?ais)"
    using gmapped_gwrite [of "we_mem e" "args 3" "to_le 4 base"] a(2) b(3) l4 by (simp add: gwrite32_def del: to_le_numeral)
  have "read_chain (length ?ais + k) ?v base = map win_node ?ais"
    using chain_mem_reads [OF m pl(1) b(2), of k] pl(2) unfolding swap by simp
  moreover have "gread32 ?v (args 3) = base"
    using a(2) chain_mem_reads [OF b(3) pl(1) b(2)] by (intro gread32_gwrite32) blast
  ultimately show ?thesis using call by auto
qed

text \<open>C16: when the scratch region has room for them, \<open>getaddrinfo\<close> hands the guest every result the
  resolver of the host gave, in order: following the list from the pointer it stored meets a node for
  each, with its flags, family, type and protocol and its IPv4 or IPv6 address in the layout of
  Windows, and then ends.\<close>

theorem getaddrinfo_chain:
  assumes "sys (asked_addrs args e) (we_os e) = (r, w)" "rp_ret r = 0" "list_all plain_ai (rp_addrs r)" "rp_addrs r \<noteq> []"
    and "ws_gai_base (we_ws e) = base" "base \<noteq> 0" "gmapped (we_mem e) base (chain_size (rp_addrs r))"
    and "args 3 \<noteq> 0" "gmapped (we_mem e) (args 3) 4" "gdisjoint (args 3) 4 base (chain_size (rp_addrs r))"
  shows "\<exists>e'. getaddrinfo_call sys args e = Some (0, e') \<and> gread32 (we_mem e') (args 3) = base
     \<and> read_chain (length (rp_addrs r) + k) (we_mem e') base = map win_node (rp_addrs r)"
  using assms by (rule getaddrinfo_spec)

text \<open>A host with an IPv6 and an IPv4 address for every name.\<close>

definition demo_results :: "addrinfo list" where
  "demo_results =
     [\<lparr> ai_flags = 0, ai_family = 30, ai_socktype = 1, ai_protocol = 6, ai_addr = [28, 30, 0, 80] @ replicate 23 0 @ [1] \<rparr>,
      \<lparr> ai_flags = 0, ai_family = 2, ai_socktype = 1, ai_protocol = 6, ai_addr = [16, 2, 0, 80, 127, 0, 0, 1] @ replicate 8 0 \<rparr>]"

definition demo_gai :: "unit wenv" where
  "demo_gai = \<lparr> we_ws = wg_winsock_create 0xB00000, we_mem = (\<lambda>_. Some 0), we_os = (), we_errno = 0 \<rparr>"

theorem getaddrinfo_chain_witness:
  "\<exists>e'. getaddrinfo_call (\<lambda>c w. ((ok_reply 0)\<lparr> rp_addrs := demo_results \<rparr>, w)) (\<lambda>i. if i = 3 then 0x1000 else 0) demo_gai = Some (0, e')
     \<and> gread32 (we_mem e') 0x1000 = 0xB00000
     \<and> read_chain 3 (we_mem e') 0xB00000
       = [([0, 23, 1, 6], [23, 0, 0, 80] @ replicate 23 0 @ [1]), ([0, 2, 1, 6], [2, 0, 0, 80, 127, 0, 0, 1] @ replicate 8 0)]"
proof -
  let ?sys = "\<lambda>c w :: unit. ((ok_reply 0)\<lparr> rp_addrs := demo_results \<rparr>, w)" and ?args = "\<lambda>i :: nat. if i = 3 then 0x1000 else 0 :: u32"
  let ?r = "(ok_reply 0)\<lparr> rp_addrs := demo_results \<rparr>"
  have s: "?sys (asked_addrs ?args demo_gai) (we_os demo_gai) = (?r, ())" by simp
  have pl: "list_all plain_ai (rp_addrs ?r)" "rp_addrs ?r \<noteq> []"
    by (simp_all add: demo_results_def plain_ai_def AF_INET_def AF_INET6_def)
  have cs: "chain_size (rp_addrs ?r) = 108" by (simp add: demo_results_def chain_size_def node_size_def)
  have g: "ws_gai_base (we_ws demo_gai) = 0xB00000" by (simp add: demo_gai_def wg_winsock_create_def)
  have m: "gmapped (we_mem demo_gai) 0xB00000 (chain_size (rp_addrs ?r))" "gmapped (we_mem demo_gai) (?args 3) 4"
    "gdisjoint (?args 3) 4 0xB00000 (chain_size (rp_addrs ?r))"
    unfolding cs by (simp_all add: gmapped_def demo_gai_def gdisjoint_def)
  have n: "map win_node (rp_addrs ?r)
      = [([0, 23, 1, 6], [23, 0, 0, 80] @ replicate 23 0 @ [1]), ([0, 2, 1, 6], [2, 0, 0, 80, 127, 0, 0, 1] @ replicate 8 0)]"
    by (simp add: demo_results_def win_node_def win_addr_def win_in_def win_in6_def AF_INET_def numeral_eq_Suc)
  have l: "length (rp_addrs ?r) + 1 = 3" by (simp add: demo_results_def)
  show ?thesis
    using getaddrinfo_chain [where args = ?args and e = demo_gai and sys = ?sys and r = ?r and w = "()" and base = "0xB00000" and k = 1,
        OF s _ pl g _ m(1) _ m(2,3)] unfolding n l by (simp add: ok_reply_def)
qed

end
