(* ===== verification/Spec2Isabelle.thy ===== *)
theory Spec2Isabelle
  imports X86_Interp Sync Threading PE_Rebase Virtual_Mem Gdi_Blit File_IO Log Nsis Dxbc_Stream Http_Calls
    Winsock_Select Winsock_Events Winsock_Addr Winsock_Names Winsock_Buffers Winsock_Resolver
begin

text \<open>
  A model of WineGlass-Native, which runs 32-bit and 64-bit Windows programs by loading their PE
  image into a guest address space, executing their x86 code and serving their Win32 calls.  The
  theories model the parts that carry the program's own logic; every definition follows the C
  function named beside it in the manifest.

  Parts, theories and sources.

  \<^item> \<open>WG_Prelude\<close>: machine words, undefined behaviour as \<^term>\<open>None\<close>, little-endian bytes, the
    array scan \<open>first_idx\<close>, removal by moving the last element, and the locale \<open>byte_memory\<close> of a
    byte-addressed memory with its copy-loop lemmas.
  \<^item> \<open>X86_State\<close> (\<open>Sources/CPU/wg_x86_state.c\<close>): registers, flags, the flag updates.
  \<^item> \<open>Memory\<close> (\<open>Sources/Memory/wg_memory.c\<close>): the regions of the guest address space, mapping,
    typed and block accesses; it interprets \<open>byte_memory\<close>.
  \<^item> \<open>X86_Insn\<close>, \<open>X86_Decode\<close> (\<open>Sources/CPU/wg_x86_decode.c\<close>): instructions, prefixes, ModR/M and
    SIB, one-byte and two-byte opcodes.
  \<^item> \<open>X86_Interp\<close> (\<open>Sources/CPU/wg_x86_interp.c\<close>): every case of the execution switch, the block
    loop, and a reference semantics with an encoder.
  \<^item> \<open>Handle_Table\<close>: the locales \<open>handle_alloc\<close> and \<open>handle_table\<close>, the contract of a table of
    handles, and the array of slots that most tables are; interpreted by \<open>Sync\<close>, \<open>Threading\<close>,
    \<open>Windows\<close>, \<open>Files\<close>, \<open>Http_Table\<close> and \<open>Winsock_Table\<close> on their own functions.
  \<^item> \<open>Sync\<close> (\<open>Sources/Win32/wg_sync.c\<close>): the object table, events, mutexes, semaphores, thread
    objects, condition variables, and the passes of the blocking waits as steps that any number
    of threads interleave.
  \<^item> \<open>Threading\<close> (\<open>Sources/Win32/wg_threading.c\<close>, and the register accessors of
    \<open>Vendor/blink/wg_blink_impl.c\<close> it uses): the cooperative scheduler and its context switches.
  \<^item> \<open>PE_Loader\<close>, \<open>PE_Rebase\<close> (\<open>Sources/PE/wg_pe_loader.c\<close>): parsing of both PE formats from
    packed header layouts, imports, directories, and the base relocations.
  \<^item> \<open>Heap_Blocks\<close>, \<open>Guest_Heap64\<close>, \<open>Heap64_Commit\<close>, \<open>Heap64_Blocks\<close>, \<open>Guest_Heap32\<close>,
    \<open>Heap32_Blocks\<close>, \<open>Virtual_Mem\<close> (\<open>Sources/Core/wg_engine.c\<close>, lines 1003, 1699-2112 and the
    allocation handlers): the two guest heaps, the commit bitmap, \<open>VirtualAlloc\<close> and
    \<open>VirtualFree\<close>.
  \<^item> \<open>Windows\<close> (\<open>Sources/Win32/wg_win32_windows.c\<close>) and \<open>Bitmap\<close>
    (\<open>Sources/Win32/wg_win32_bitmap.c\<close>): the tables of windows and bitmaps, and the decoder of BMP
    files.
  \<^item> \<open>Gdi\<close>, \<open>Gdi_Draw\<close>, \<open>Gdi_Blit\<close> (\<open>Sources/Win32/wg_win32_gdi.c\<close>): device contexts over both
    tables, rectangles, lines and scaled bitmap copies into the framebuffer.
  \<^item> \<open>C_Strings\<close>, \<open>Host_Files\<close>: the string functions and the \<open>FILE\<close> interface of the C library, the
    latter over a file system of contents and directories.
  \<^item> \<open>File_Paths\<close>, \<open>Files\<close>, \<open>File_IO\<close> (\<open>Sources/Win32/wg_win32_files.c\<close>): the bottle and the mapping
    of Windows paths into it; the table of open files and its operations; what a guest sees of
    its files.
  \<^item> \<open>Nsis\<close> (\<open>Sources/Win32/wg_nsis_extract.c\<close> and the installer part of \<open>wg_win32_files.c\<close>): the two
    readers of an installer executable.
  \<^item> \<open>Log\<close> (\<open>Sources/Core/wg_log.c\<close>): the level filter, the capped log file, the ring of lines.
  \<^item> \<open>Dxbc_Container\<close>, \<open>Dxbc_Operand\<close>, \<open>Dxbc\<close> (\<open>Sources/Graphics/wg_dxbc.c\<close>): the shader container,
    the operand reader and printer, and the translation of the token stream to a Metal program;
    \<open>Dxbc_Read\<close>, \<open>Dxbc_Asm\<close>, \<open>Dxbc_Spec\<close>, \<open>Dxbc_Stream\<close>: an assembler and a reference translation,
    and the proofs against them.
  \<^item> \<open>Http_Text\<close>, \<open>WinHttp\<close> (\<open>Sources/Win32/wg_winhttp.c\<close>): the scanning of status lines, headers
    and URLs; the slots of the HTTP client, its calls, and the two ends of a connection.
    \<open>Http_Url\<close>, \<open>Http_Table\<close>, \<open>Http_Response\<close>, \<open>Http_Body\<close>, \<open>Http_Calls\<close>: what is proved of them.
  \<^item> \<open>Guest_Bytes\<close>, \<open>Winsock_Env\<close>, \<open>Winsock\<close>, \<open>Winsock_Handle\<close> (\<open>Sources/Win32/wg_winsock.c\<close>): the
    guest's memory as the socket calls see it, the host's system calls and the table of sockets,
    the calls, and the dispatch over their names.  \<open>Winsock_Table\<close> interprets \<open>handle_table\<close>;
    \<open>Winsock_Invariant\<close> states in the locale \<open>ws_invariant\<close> what a call must keep to be kept by
    any sequence of calls, which \<open>Winsock_Accounts\<close> and \<open>Winsock_Events\<close> interpret;
    \<open>Winsock_Select\<close>, \<open>Winsock_Addr\<close>, \<open>Winsock_Names\<close>, \<open>Winsock_Buffers\<close> and
    \<open>Winsock_Resolver\<close> hold what is proved of single calls.

  What the lemmas show.  The decoder inverts a reference encoder on ten forms, stays inside its
  buffer but for two cases that are stated, and bounds every register number; one interpreter
  step on encoded code agrees with the reference semantics, calls return, and a loop of real
  machine code halts with its sum.  The memory keeps its well-formedness, and its accesses are
  characterised by the bytes an address shows.  Mutexes exclude, auto-reset events release one
  waiter, semaphores keep their bounds, waits for all are atomic, over every interleaving of
  steps.  The scheduler runs one thread at a time, is fair, restores a thread's registers
  exactly, and runs out of slots.  The PE loader inverts a writer of headers, bounds its tables,
  and rebasing adds the delta to the fixups and nothing else.  The blocks of both heaps never
  overlap in any reachable state, a commit zero-fills exactly the fresh pages, release and
  reservation of one size never consume address space; the two ways to break the 32-bit heap are
  theorems of their own.  Decoding a written BMP file gives its pixels back, the drawing
  operations set exactly the pixels of a reference line, rectangle or scaled image, and both
  compose.  The handle tables refine finite maps.  Paths without \<open>..\<close> stay below the drive, one
  with it leaves it; what is written to a file is read back, and the dispositions do what is
  stated of them.  Installer data is copied exactly and read in bounds but for one shape; the log
  ring is a bounded queue, the log file a prefix of the lines.  The shader operand reader returns
  and inverts the assembler; the translator prints the reference translation of assembled
  programs, declares the inputs they use, returns but for one shape, and loses the offset and the
  component of a relative index.  The HTTP client cuts a URL into the parts it was made of, sends
  heads that fit their buffer in every reachable state, receives a response whatever its chunks
  and delivers exactly its body, finds headers as a line-by-line search does, and opens at most
  five connections for redirects; the states in which it overruns or misplaces its body buffer,
  takes a header for the reason, or sends to another server are theorems of their own.  The
  sockets the host has open are those in the table after any calls, \<open>select\<close> stores the filter of
  its sets by readiness, the addresses, host entries and lists of addresses a call stores are read
  back by a reader of the Windows layouts, received data is spread over the guest's buffers in
  order, and a handle reports its connection once for all the sockets it is given to.

  Undefined behaviour, bounds and fuel.  A C access outside an object, a shift by the width or a
  signed overflow is \<^term>\<open>None\<close>, and the theorems that need definedness prove it.  Loops whose
  end is not structural (the relocation blocks, the commit, uncommit and zero-fill loops, the line
  loop, the shader tokens) are \<open>partial_function\<close>s: that they return is part of what is proved.
  Fuel is used in three places: the instruction count that the C block loop has itself, the
  recursion of the shader operand reader, where the length of the blob is proved to be enough,
  and the reference reader of a list of addresses, where the length of the list is.
  Tables have their C sizes (32 threads, 8192 synchronization objects, 8192 heap blocks, 64
  windows, brushes and open files).

  Parameters.  The vendored emulator is a binary: its machine is a record of registers and a
  memory of any type.  The host's \<open>calloc\<close> and \<open>malloc\<close>, the permissions of its files, the
  environment variables, directory listings, the outcome of connecting, reading and writing a
  socket (with or without TLS), the system and resolver calls of the socket layer (a function of
  type \<open>osfn\<close> over a world of any type), the guest memory an HTTP call reads, \<open>LzmaDecode\<close>, the
  text of \<open>vsnprintf\<close> and the \<open>%g\<close> of a shader's immediates are arguments.

  Not modelled.  The rest of \<open>wg_engine.c\<close>, a chain of some hundreds of Win32 call handlers over
  the emulator and the user interface; the recursive deletion of temporary directories;
  the rasterisation of text (Core Text); Direct3D and the Objective-C front end; TLS (calls of a
  system library); the third-party LZMA decoder and the emulator headers; the self
  tests.
\<close>

end
